(* ===== verification/Prelude.thy ===== *)
theory Prelude
  imports Main "HOL-Library.Word" "HOL-Library.Multiset" "HOL-Library.Monad_Syntax"
begin

text \<open>
  Shared vocabulary of the development: the widths of the C integers, the
  state-passing style of the translated functions and its weakest-precondition
  calculus, counted loops with an early \<open>return -1\<close>, decimal printing, and the
  word and list facts the component theories have in common.

  A translated function that may fail to come back (it retries a system call, or
  \<open>now_ns\<close> calls \<open>exit\<close>) has a result of type \<open>('a \<times> 's) option\<close>:
  \<open>Some (a, s)\<close> is a return of \<open>a\<close> in the state \<open>s\<close>, and \<open>None\<close> means that
  control never reaches the caller.
\<close>

unbundle bit_operations_syntax

section \<open>Machine integers\<close>

type_synonym u8 = "8 word"
type_synonym u16 = "16 word"
type_synonym u32 = "32 word"
type_synonym u64 = "64 word"

text \<open>A \<open>__s32\<close> is kept as its bit pattern and read through \<^const>\<open>sint\<close>.\<close>

type_synonym s32 = "32 word"

named_theorems wp_simps \<open>equations that push a postcondition through a translated body\<close>
named_theorems word_facts \<open>bounds and wrap-around of the counters\<close>

lemma unat_inc64 [word_facts]:
  "unat (c :: u64) + 1 < 2 ^ 64 \<Longrightarrow> unat (c + 1) = unat c + 1"
  by (simp add: unat_word_ariths)

lemma inc64_neq_zero [word_facts]:
  "unat (c :: u64) + 1 < 2 ^ 64 \<Longrightarrow> c + 1 \<noteq> 0"
  using unat_inc64 [of c] by (metis Suc_eq_plus1 nat.distinct(1) unat_0)

lemma unat_of_nat32 [word_facts]: "n < 2 ^ 32 \<Longrightarrow> unat (of_nat n :: u32) = n"
  by (simp add: unat_of_nat)

lemma of_nat32_inject [word_facts]:
  "m < 2 ^ 32 \<Longrightarrow> n < 2 ^ 32 \<Longrightarrow> ((of_nat m :: u32) = of_nat n) = (m = n)"
  by (metis unat_of_nat32)

lemma unat_lt32 [word_facts]: "unat (x :: u32) < 2 ^ 32"
  using unsigned_less [where ?'a = nat, of x] by simp

lemma unat_ucast_32_64 [simp]: "unat (ucast (x :: u32) :: u64) = unat x"
  using unat_lt32 [of x] by (simp add: unsigned_ucast_eq take_bit_nat_eq_self)

lemma ucast_32_64_inject [simp]: "(ucast (x :: u32) :: u64) = ucast y \<longleftrightarrow> x = y"
  by (metis unat_ucast_32_64 word_unat_eq_iff)

section \<open>Weakest preconditions\<close>

definition wp :: "('a \<times> 's) option \<Rightarrow> ('a \<Rightarrow> 's \<Rightarrow> bool) \<Rightarrow> bool" where
  "wp m Q = (case m of None \<Rightarrow> True | Some (a, s) \<Rightarrow> Q a s)"

lemma wp_None [wp_simps, simp]: "wp None Q"
  by (simp add: wp_def)

lemma wp_Some [wp_simps, simp]: "wp (Some (a, s)) Q = Q a s"
  by (simp add: wp_def)

lemma wp_bind [wp_simps]:
  "wp (Option.bind m (\<lambda>(a, s). f a s)) Q = wp m (\<lambda>a s. wp (f a s) Q)"
  by (auto simp: wp_def split: option.splits)

lemma wp_if [wp_simps]:
  "wp (if b then m else m') Q = ((b \<longrightarrow> wp m Q) \<and> (\<not> b \<longrightarrow> wp m' Q))"
  by simp

lemma wp_Let [wp_simps]: "wp (Let x f) Q = wp (f x) Q"
  by (simp add: Let_def)

lemma wp_case_prod [wp_simps]:
  "wp (case p of (x, y) \<Rightarrow> f x y) Q = (case p of (x, y) \<Rightarrow> wp (f x y) Q)"
  by (cases p) simp

lemma wp_mono: "wp m P \<Longrightarrow> (\<And>a s. P a s \<Longrightarrow> Q a s) \<Longrightarrow> wp m Q"
  by (auto simp: wp_def split: option.splits)

lemma wp_conj: "wp m P \<Longrightarrow> wp m Q \<Longrightarrow> wp m (\<lambda>a s. P a s \<and> Q a s)"
  by (auto simp: wp_def split: option.splits)

lemma wp_bindI:
  assumes "wp m P" and "\<And>a s. P a s \<Longrightarrow> wp (f a s) Q"
  shows "wp (Option.bind m (\<lambda>(a, s). f a s)) Q"
  using assms by (auto simp: wp_bind elim: wp_mono)

lemma wp_iff: "wp m Q = (\<forall>a s. m = Some (a, s) \<longrightarrow> Q a s)"
  by (auto simp: wp_def split: option.splits)

lemma wpD: "m = Some (a, s) \<Longrightarrow> wp m Q \<Longrightarrow> Q a s"
  by simp

section \<open>Counted loops\<close>

text \<open>
  \<open>for (i = ..; ..; i++) if (f(i) != 0) return -1;\<close> over the list of the values \<open>i\<close>
  takes.
\<close>

fun for_each :: "('i \<Rightarrow> 's \<Rightarrow> (int \<times> 's) option) \<Rightarrow> 'i list \<Rightarrow> 's \<Rightarrow> (int \<times> 's) option" where
  "for_each f [] s = Some (0, s)"
| "for_each f (i # is) s =
     do { (rc, s1) \<leftarrow> f i s; if rc \<noteq> 0 then Some (-1, s1) else for_each f is s1 }"

text \<open>A relation that is reflexive, transitive and kept by the body is kept by the loop.\<close>

locale frame =
  fixes R :: "'s \<Rightarrow> 's \<Rightarrow> bool"
  assumes frame_refl: "R s s"
    and frame_trans: "R s t \<Longrightarrow> R t u \<Longrightarrow> R s u"
begin

lemma for_each_frame:
  assumes "\<And>i s. wp (f i s) (\<lambda>rc t. R s t)"
  shows "wp (for_each f is s) (\<lambda>rc t. R s t)"
proof (induction "is" arbitrary: s)
  case Nil
  show ?case by (simp add: frame_refl)
next
  case (Cons i "is")
  have "wp (for_each f is t) (\<lambda>rc u. R s u)" if "R s t" for t
    using Cons.IH by (rule wp_mono) (rule frame_trans [OF that])
  with assms [of i s] show ?case
    by (auto simp: wp_simps elim!: wp_mono)
qed

end

lemma for_each_rc: "for_each f is s = Some (rc, t) \<Longrightarrow> rc = 0 \<or> rc = -1"
  by (induction "is" arbitrary: s) (auto simp: Option.bind_eq_Some_conv split: if_splits)

section \<open>Decimal printing\<close>

definition digit_char :: "nat \<Rightarrow> char" where
  "digit_char d = char_of (48 + d)"

fun dec :: "nat \<Rightarrow> string" where
  "dec n = (if n < 10 then [digit_char n] else dec (n div 10) @ [digit_char (n mod 10)])"

declare dec.simps [simp del]

fun dec_value :: "nat \<Rightarrow> string \<Rightarrow> nat" where
  "dec_value acc [] = acc"
| "dec_value acc (c # cs) = dec_value (10 * acc + (of_char c - 48)) cs"

lemma dec_value_append: "dec_value acc (xs @ ys) = dec_value (dec_value acc xs) ys"
  by (induction xs arbitrary: acc) auto

lemma of_digit_char: "d < 10 \<Longrightarrow> (of_char (digit_char d) :: nat) = 48 + d"
  by (simp add: digit_char_def)

lemma dec_value_dec: "dec_value 0 (dec n) = n"
proof (induction n rule: dec.induct)
  case (1 n)
  then show ?case
    by (cases "n < 10") (simp_all add: dec.simps [of n] dec_value_append of_digit_char)
qed

lemma dec_chars: "c \<in> set (dec n) \<Longrightarrow> \<exists>d < 10. c = digit_char d"
proof (induction n rule: dec.induct)
  case (1 n)
  then show ?case
    by (cases "n < 10") (auto simp: dec.simps [of n] intro: exI [of _ "n mod 10"])
qed

lemma dec_no_tab: "CHR 0x09 \<notin> set (dec n)"
proof
  assume "CHR 0x09 \<in> set (dec n)"
  then obtain d where "d < 10" and "CHR 0x09 = digit_char d" using dec_chars by blast
  then have "(of_char (CHR 0x09) :: nat) = 48 + d" using of_digit_char by metis
  then show False by simp
qed

text \<open>Columns of a tab separated line.\<close>

fun join_tabs :: "string list \<Rightarrow> string" where
  "join_tabs [] = []"
| "join_tabs [c] = c"
| "join_tabs (c # cs) = c @ CHR 0x09 # join_tabs cs"

fun split_tabs :: "string \<Rightarrow> string list" where
  "split_tabs [] = [[]]"
| "split_tabs (c # cs) =
     (if c = CHR 0x09 then [] # split_tabs cs
      else (case split_tabs cs of [] \<Rightarrow> [[c]] | w # ws \<Rightarrow> (c # w) # ws))"

lemma split_tabs_nonempty: "split_tabs cs \<noteq> []"
  by (induction cs) (auto split: list.splits)

lemma split_tabs_word:
  "CHR 0x09 \<notin> set w \<Longrightarrow> split_tabs w = [w]"
  by (induction w) (auto split: list.splits)

lemma split_tabs_cons:
  "CHR 0x09 \<notin> set w \<Longrightarrow> split_tabs (w @ CHR 0x09 # cs) = w # split_tabs cs"
  by (induction w) (auto split: list.splits)

lemma split_join_tabs:
  "cols \<noteq> [] \<Longrightarrow> \<forall>c \<in> set cols. CHR 0x09 \<notin> set c \<Longrightarrow> split_tabs (join_tabs cols) = cols"
  by (induction cols rule: join_tabs.induct) (auto simp: split_tabs_cons split_tabs_word)

section \<open>Lists and multisets\<close>

lemma mset_map_eq_iff:
  assumes dist: "distinct js" and inj: "inj_on f (set js)"
  shows "mset xs = mset (map f js) \<longleftrightarrow> distinct xs \<and> set xs = f ` set js"
proof
  assume eq: "mset xs = mset (map f js)"
  from dist inj have "distinct (map f js)" by (simp add: distinct_map)
  with eq have "distinct xs" by (metis mset_eq_imp_distinct_iff)
  moreover from eq have "set xs = set (map f js)" by (rule mset_eq_setD)
  ultimately show "distinct xs \<and> set xs = f ` set js" by simp
next
  assume xs: "distinct xs \<and> set xs = f ` set js"
  with dist inj have "distinct (map f js)" and "set xs = set (map f js)"
    by (simp_all add: distinct_map)
  with xs show "mset xs = mset (map f js)"
    using set_eq_iff_mset_eq_distinct by blast
qed

end
