(* ===== verification/C_Library.thy ===== *)
theory C_Library
  imports Prelude
begin

text \<open>
  What the programs use of the C library and of C: exit codes, the end of a line that is read,
  the printing of numbers, and \<open>strtoul\<close>, which is shown to read back what \<open>printf\<close> prints.
\<close>

section \<open>Exit codes, lines and numbers\<close>

definition EXIT_SUCCESS :: int where "EXIT_SUCCESS = 0"
definition EXIT_FAILURE :: int where "EXIT_FAILURE = 1"

text \<open>The loop at the end of every \<open>read_text\<close>, on the bytes read.\<close>

definition trim_eol :: "string \<Rightarrow> string" where
  "trim_eol bytes =
     rev (dropWhile (\<lambda>c. c = CHR 0x0A \<or> c = CHR 0x0D) (rev bytes))"

lemma trim_eol_prefix: "\<exists>tail. bytes = trim_eol bytes @ tail \<and> set tail \<subseteq> {CHR 0x0A, CHR 0x0D}"
proof (intro exI conjI)
  let ?P = "\<lambda>c. c = CHR 0x0A \<or> c = CHR 0x0D"
  have "rev bytes = takeWhile ?P (rev bytes) @ dropWhile ?P (rev bytes)" by simp
  then show "bytes = trim_eol bytes @ rev (takeWhile ?P (rev bytes))"
    by (metis trim_eol_def rev_append rev_rev_ident)
  show "set (rev (takeWhile ?P (rev bytes))) \<subseteq> {CHR 0x0A, CHR 0x0D}"
    by (auto dest: set_takeWhileD)
qed

lemma trim_eol_last:
  "trim_eol bytes \<noteq> [] \<Longrightarrow> last (trim_eol bytes) \<notin> {CHR 0x0A, CHR 0x0D}"
  using hd_dropWhile [of "\<lambda>c. c = CHR 0x0A \<or> c = CHR 0x0D" "rev bytes"]
  by (simp add: trim_eol_def last_rev)

text \<open>\<open>PRIu64\<close>; \<open>%.6f\<close> of a quotient is a service of the C library.\<close>

definition dec64 :: "u64 \<Rightarrow> string" where
  "dec64 x = dec (unat x)"

section \<open>strtoul\<close>

definition c_space :: "char \<Rightarrow> bool" where
  "c_space c \<longleftrightarrow> c \<in> {CHR 0x20, CHR 0x09, CHR 0x0A, CHR 0x0B, CHR 0x0C, CHR 0x0D}"

definition digit_of :: "nat \<Rightarrow> char \<Rightarrow> nat option" where
  "digit_of base c =
     (let n = of_char c;
          d = (if 48 \<le> n \<and> n \<le> 57 then n - 48
               else if 97 \<le> n \<and> n \<le> 122 then n - 87
               else if 65 \<le> n \<and> n \<le> 90 then n - 55 else 36)
      in if d < base then Some d else None)"

fun take_digits :: "nat \<Rightarrow> string \<Rightarrow> nat list \<times> string" where
  "take_digits base [] = ([], [])"
| "take_digits base (c # cs) =
     (case digit_of base c of
        None \<Rightarrow> ([], c # cs)
      | Some d \<Rightarrow> (let (ds, rest) = take_digits base cs in (d # ds, rest)))"

definition digits_value :: "nat \<Rightarrow> nat list \<Rightarrow> nat" where
  "digits_value base ds = foldl (\<lambda>n d. base * n + d) 0 ds"

text \<open>The base that \<open>strtoul\<close> settles on, and the text without the prefix \<open>0x\<close>.\<close>

definition radix :: "nat \<Rightarrow> string \<Rightarrow> nat \<times> string" where
  "radix base txt =
     (if (base = 0 \<or> base = 16) \<and> take 1 txt = ''0'' \<and> (take 1 (drop 1 txt) \<in> {''x'', ''X''}) \<and>
         fst (take_digits 16 (drop 2 txt)) \<noteq> []
      then (16, drop 2 txt)
      else if base = 0 then (if take 1 txt = ''0'' then 8 else 10, txt)
      else (base, txt))"

text \<open>
  \<open>strtoul\<close>: the value, the rest of the text from \<open>*end\<close> on, whether anything was converted,
  and whether \<open>errno\<close> was set to \<open>ERANGE\<close>.
\<close>

record conversion =
  conv_value :: u64
  conv_rest :: string
  conv_any :: bool
  conv_range :: bool

definition strtoul :: "nat \<Rightarrow> string \<Rightarrow> conversion" where
  "strtoul base txt =
     (let s1 = dropWhile c_space txt;
          signed = take 1 s1 \<in> {''+'', ''-''};
          (b, s2) = radix base (if signed then drop 1 s1 else s1);
          (ds, rest) = take_digits b s2;
          n = digits_value b ds
      in if ds = [] then \<lparr>conv_value = 0, conv_rest = txt, conv_any = False, conv_range = False\<rparr>
         else if n \<ge> 2 ^ 64
         then \<lparr>conv_value = - 1, conv_rest = rest, conv_any = True, conv_range = True\<rparr>
         else \<lparr>conv_value = (if take 1 s1 = ''-'' then - of_nat n else of_nat n), conv_rest = rest,
               conv_any = True, conv_range = False\<rparr>)"

section \<open>Printed numbers are read back\<close>

lemma digit_of_digit_char: "d < 10 \<Longrightarrow> digit_of 10 (digit_char d) = Some d"
  by (simp add: digit_of_def of_digit_char Let_def)

lemma take_digits_all:
  "\<forall>d \<in> set ds. d < 10 \<Longrightarrow> take_digits 10 (map digit_char ds) = (ds, [])"
  by (induction ds) (auto simp: digit_of_digit_char)

fun dec_digits :: "nat \<Rightarrow> nat list" where
  "dec_digits n = (if n < 10 then [n] else dec_digits (n div 10) @ [n mod 10])"

declare dec_digits.simps [simp del]

lemma dec_as_digits: "dec n = map digit_char (dec_digits n)"
proof (induction n rule: dec_digits.induct)
  case (1 n)
  then show ?case
    by (cases "n < 10") (simp_all add: dec.simps [of n] dec_digits.simps [of n])
qed

lemma dec_digits_small: "\<forall>d \<in> set (dec_digits n). d < 10"
proof (induction n rule: dec_digits.induct)
  case (1 n)
  then show ?case
    by (cases "n < 10") (simp_all add: dec_digits.simps [of n])
qed

lemma dec_digits_value: "digits_value 10 (dec_digits n) = n"
proof (induction n rule: dec_digits.induct)
  case (1 n)
  then show ?case
    by (cases "n < 10") (simp_all add: dec_digits.simps [of n] digits_value_def)
qed

lemma dec_digits_nonempty [simp]: "dec_digits n \<noteq> []"
  by (simp add: dec_digits.simps [of n])

lemma dec_digits_hd: "0 < n \<Longrightarrow> 0 < hd (dec_digits n)"
proof (induction n rule: dec_digits.induct)
  case (1 n)
  show ?case
  proof (cases "n < 10")
    case False
    then have "0 < hd (dec_digits (n div 10))" using 1 by simp
    with False show ?thesis by (simp add: dec_digits.simps [of n])
  qed (use 1 in \<open>simp add: dec_digits.simps [of n]\<close>)
qed

lemma digit_char_simps:
  assumes "d < 10"
  shows "\<not> c_space (digit_char d)" "digit_char d \<noteq> CHR ''+''" "digit_char d \<noteq> CHR ''-''"
    "digit_char d = CHR ''0'' \<longleftrightarrow> d = 0"
proof -
  have n: "c = digit_char d \<Longrightarrow> (of_char c :: nat) = 48 + d" for c
    using of_digit_char [OF assms] by simp
  show "\<not> c_space (digit_char d)" "digit_char d \<noteq> CHR ''+''" "digit_char d \<noteq> CHR ''-''"
    using n unfolding c_space_def by force+
  have "digit_char d = CHR ''0'' \<longleftrightarrow> (of_char (digit_char d) :: nat) = of_char (CHR ''0'')"
    by (simp only: of_char_eq_iff)
  then show "digit_char d = CHR ''0'' \<longleftrightarrow> d = 0"
    by (simp add: of_digit_char [OF assms])
qed

lemma strtoul_dec:
  assumes "0 < n" and "n < 2 ^ 64"
  shows "strtoul 0 (dec n) = \<lparr>conv_value = of_nat n, conv_rest = [], conv_any = True, conv_range = False\<rparr>"
proof -
  obtain d ds where e: "dec_digits n = d # ds" by (cases "dec_digits n") auto
  have d: "0 < d" "d < 10" using dec_digits_hd [OF assms(1)] dec_digits_small [of n] by (simp_all add: e)
  note c = digit_char_simps [OF d(2)]
  have t: "take_digits 10 (dec n) = (d # ds, [])"
    using take_digits_all [OF dec_digits_small [of n]] by (simp add: dec_as_digits e)
  have v: "digits_value 10 (d # ds) = n" using dec_digits_value [of n] by (simp add: e)
  have s: "dec n = digit_char d # map digit_char ds" by (simp add: dec_as_digits e)
  have sp: "dropWhile c_space (dec n) = dec n" using c by (simp add: s)
  have sg: "take 1 (dec n) \<notin> {''+'', ''-''}" "take 1 (dec n) \<noteq> ''-''" using c by (simp_all add: s)
  have r: "radix 0 (dec n) = (10, dec n)" using c d by (simp add: radix_def s)
  have nl: "\<not> 2 ^ 64 \<le> n" using assms(2) by simp
  show ?thesis
    unfolding strtoul_def Let_def sp r
    by (simp only: sg r t v nl split prod.case if_False simp_thms list.distinct)
qed

end
