(* ===== verification/Uring_Abi.thy ===== *)
theory Uring_Abi
  imports C_Library
begin

text \<open>
  The types and constants of the io_uring interface that all programs use, as the UAPI
  headers of Linux give them.
\<close>

section \<open>Constants\<close>

definition EINTR :: int where "EINTR = 4"
definition EAGAIN :: int where "EAGAIN = 11"
definition EINVAL :: int where "EINVAL = 22"
definition ENOENT :: int where "ENOENT = 2"
definition ETIME :: int where "ETIME = 62"
definition ECANCELED :: int where "ECANCELED = 125"

lemmas errno_defs = EINTR_def EAGAIN_def EINVAL_def ENOENT_def ETIME_def ECANCELED_def

definition IORING_OP_NOP :: u8 where "IORING_OP_NOP = 0"
definition IORING_OP_POLL_ADD :: u8 where "IORING_OP_POLL_ADD = 6"
definition IORING_OP_ASYNC_CANCEL :: u8 where "IORING_OP_ASYNC_CANCEL = 14"
definition IORING_OP_READ :: u8 where "IORING_OP_READ = 22"
definition IORING_OP_MSG_RING :: u8 where "IORING_OP_MSG_RING = 40"
definition IORING_OP_FUTEX_WAIT :: u8 where "IORING_OP_FUTEX_WAIT = 51"
definition IORING_OP_FUTEX_WAKE :: u8 where "IORING_OP_FUTEX_WAKE = 52"
definition IORING_OP_FUTEX_WAITV :: u8 where "IORING_OP_FUTEX_WAITV = 53"

definition IORING_ASYNC_CANCEL_ALL :: u32 where "IORING_ASYNC_CANCEL_ALL = 1"
definition IORING_ASYNC_CANCEL_FD :: u32 where "IORING_ASYNC_CANCEL_FD = 2"
definition IORING_ASYNC_CANCEL_USERDATA :: u32 where "IORING_ASYNC_CANCEL_USERDATA = 16"
definition IORING_ASYNC_CANCEL_OP :: u32 where "IORING_ASYNC_CANCEL_OP = 32"
definition POLLIN :: u32 where "POLLIN = 1"

definition IORING_SETUP_CQSIZE :: u32 where "IORING_SETUP_CQSIZE = 8"
definition IORING_SETUP_SINGLE_ISSUER :: u32 where "IORING_SETUP_SINGLE_ISSUER = 4096"
definition IORING_SETUP_DEFER_TASKRUN :: u32 where "IORING_SETUP_DEFER_TASKRUN = 8192"
definition IORING_FEAT_SINGLE_MMAP :: u32 where "IORING_FEAT_SINGLE_MMAP = 1"
definition IORING_ENTER_GETEVENTS :: u32 where "IORING_ENTER_GETEVENTS = 1"
definition IORING_ENTER_EXT_ARG :: u32 where "IORING_ENTER_EXT_ARG = 8"
definition IORING_OFF_SQ_RING :: u64 where "IORING_OFF_SQ_RING = 0"
definition IORING_OFF_CQ_RING :: u64 where "IORING_OFF_CQ_RING = 0x8000000"
definition IORING_OFF_SQES :: u64 where "IORING_OFF_SQES = 0x10000000"

text \<open>A negative \<open>cqe->res\<close>.\<close>

definition neg_errno :: "int \<Rightarrow> s32" where
  "neg_errno e = word_of_int (- e)"

section \<open>Completions and parameters\<close>

record cqe =
  cqe_user_data :: u64
  cqe_res :: s32
  cqe_flags :: u32

record io_uring_params =
  p_flags :: u32
  p_sq_entries :: u32
  p_cq_entries :: u32
  p_features :: u32
  p_sq_off_head :: u32
  p_sq_off_tail :: u32
  p_sq_off_ring_mask :: u32
  p_sq_off_ring_entries :: u32
  p_sq_off_flags :: u32
  p_sq_off_dropped :: u32
  p_sq_off_array :: u32
  p_cq_off_head :: u32
  p_cq_off_tail :: u32
  p_cq_off_ring_mask :: u32
  p_cq_off_ring_entries :: u32
  p_cq_off_overflow :: u32
  p_cq_off_cqes :: u32

definition zero_params :: io_uring_params where
  "zero_params = \<lparr>p_flags = 0, p_sq_entries = 0, p_cq_entries = 0, p_features = 0,
     p_sq_off_head = 0, p_sq_off_tail = 0, p_sq_off_ring_mask = 0,
     p_sq_off_ring_entries = 0, p_sq_off_flags = 0, p_sq_off_dropped = 0,
     p_sq_off_array = 0, p_cq_off_head = 0, p_cq_off_tail = 0, p_cq_off_ring_mask = 0,
     p_cq_off_ring_entries = 0, p_cq_off_overflow = 0, p_cq_off_cqes = 0\<rparr>"

section \<open>Shared memory of a ring\<close>

text \<open>
  The fields of \<open>struct io_uring_sqe\<close> the programs write; \<open>sqe_off\<close> is the union of
  \<open>off\<close> and \<open>addr2\<close>, \<open>sqe_op_flags\<close> the union of \<open>poll32_events\<close>, \<open>msg_flags\<close> and
  \<open>cancel_flags\<close>.
\<close>

record sqe =
  sqe_opcode :: u8
  sqe_flags :: u8
  sqe_ioprio :: u16
  sqe_fd :: int
  sqe_off :: u64
  sqe_addr :: u64
  sqe_len :: u32
  sqe_op_flags :: u32
  sqe_user_data :: u64
  sqe_buf_group :: u16
  sqe_file_index :: u32
  sqe_addr3 :: u64

text \<open>\<open>memset(sqe, 0, sizeof(*sqe))\<close>\<close>

definition zero_sqe :: sqe where
  "zero_sqe = \<lparr>sqe_opcode = 0, sqe_flags = 0, sqe_ioprio = 0, sqe_fd = 0, sqe_off = 0, sqe_addr = 0,
     sqe_len = 0, sqe_op_flags = 0, sqe_user_data = 0,
     sqe_buf_group = 0, sqe_file_index = 0, sqe_addr3 = 0\<rparr>"

record ring_mem =
  sq_head :: u32
  sq_tail :: u32
  sq_mask :: u32
  sq_entries :: u32
  sq_dropped :: u32
  sq_array :: "u32 \<Rightarrow> u32"
  sqes :: "u32 \<Rightarrow> sqe"
  cq_head :: u32
  cq_tail :: u32
  cq_mask :: u32
  cq_entries :: u32
  cq_overflow :: u32
  cqes :: "u32 \<Rightarrow> cqe"

end
