(* ===== verification/Uring.thy ===== *)
theory Uring
  imports Uring_Abi
begin

text \<open>
  The machine the round programs run on: the memory a ring
  shares with the kernel, the system-call interface and the process state.

  The kernel is not part of the repository. It is the parameter \<open>os\<close>, a record with
  one function per system call or library service the programs use; each maps the
  memory shared with the kernel and an abstract kernel state \<open>'k\<close> to a result and new
  shared memory. \<open>os_async\<close> is what happens between two actions of the program: the
  kernel may move its indices and post completions, and a signal may arrive.
  Nothing is assumed of these functions; a theorem that needs documented kernel
  behaviour states it as a hypothesis.
\<close>

section \<open>Shared memory\<close>

record 'k shared =
  sh_rings :: "int \<Rightarrow> ring_mem"
  sh_umem :: "u64 \<Rightarrow> u32"
  sh_kst :: 'k

section \<open>The system interface\<close>

record sync_cancel_reg =
  sc_addr :: u64
  sc_fd :: int
  sc_timeout_sec :: int

datatype register_req =
    REGISTER_SYNC_CANCEL sync_cancel_reg
  | REGISTER_FILES "int list"
  | UNREGISTER_FILES
  | REGISTER_FILES2_SPARSE u32

text \<open>An entry of \<open>IORING_REGISTER_PROBE\<close>: the opcode and whether it is supported.\<close>

record probe_op =
  probe_opcode_nr :: u8
  probe_supported :: bool

type_synonym 'k call = "'k shared \<Rightarrow> (int \<times> int) \<times> 'k shared"

record 'k os =
  os_async :: "'k shared \<Rightarrow> bool \<times> 'k shared"
  os_setup :: "u32 \<Rightarrow> io_uring_params \<Rightarrow> 'k shared \<Rightarrow> ((int \<times> int) \<times> io_uring_params) \<times> 'k shared"
  os_enter :: "int \<Rightarrow> u32 \<Rightarrow> u32 \<Rightarrow> u32 \<Rightarrow> int option \<Rightarrow> 'k call"
  os_register :: "int \<Rightarrow> register_req \<Rightarrow> 'k call"
  os_probe :: "int \<Rightarrow> u32 \<Rightarrow> 'k shared \<Rightarrow> probe_op list option \<times> 'k shared"
  os_mmap :: "u64 \<Rightarrow> int \<Rightarrow> u64 \<Rightarrow> 'k shared \<Rightarrow> u64 option \<times> 'k shared"
  os_close :: "int \<Rightarrow> 'k call"
  os_eventfd :: "'k call"
  os_memfd :: "'k call"
  os_read8 :: "int \<Rightarrow> 'k call"
  os_pwrite :: "int \<Rightarrow> u8 list \<Rightarrow> 'k call"
  os_clock :: "'k shared \<Rightarrow> (u64 \<times> u64) option \<times> 'k shared"
  os_read_file :: "string \<Rightarrow> nat \<Rightarrow> 'k shared \<Rightarrow> string option \<times> 'k shared"
  os_nprocs :: "'k shared \<Rightarrow> int \<times> 'k shared"
  os_setaffinity :: "u32 \<Rightarrow> 'k call"
  os_getcpu :: "'k shared \<Rightarrow> int \<times> 'k shared"
  os_opendir :: "'k shared \<Rightarrow> string list option \<times> 'k shared"
  os_signal :: "'k shared \<Rightarrow> bool \<times> 'k shared"
  os_uname :: "'k shared \<Rightarrow> string option \<times> 'k shared"
  os_fopen :: "string \<Rightarrow> 'k shared \<Rightarrow> bool \<times> 'k shared"
  os_fclose :: "'k shared \<Rightarrow> bool \<times> 'k shared"
  os_calloc :: "'k shared \<Rightarrow> bool \<times> 'k shared"
  os_ratio6 :: "u64 \<Rightarrow> u64 \<Rightarrow> string"

section \<open>Process state\<close>

text \<open>
  \<open>vmas\<close> and \<open>open_fds\<close> are the mappings and descriptors the process holds,
  \<open>out_lines\<close> and \<open>stdout_lines\<close> the lines written to the output file and to standard output, \<open>res\<close> the \<open>struct result\<close>
  of the program, and \<open>reaped\<close> the batches of completions it has copied out of a ring
  and released to the kernel, oldest first.
\<close>

record ('k, 'r) machine =
  sh :: "'k shared"
  errno :: int
  stop_requested :: bool
  vmas :: "(u64 \<times> u64) list"
  open_fds :: "int list"
  out_lines :: "string list"
  stdout_lines :: "string list"
  res :: 'r
  reaped :: "cqe list list"

definition ring_at :: "('k, 'r) machine \<Rightarrow> int \<Rightarrow> ring_mem" where
  "ring_at s fd = sh_rings (sh s) fd"

definition upd_ring :: "int \<Rightarrow> (ring_mem \<Rightarrow> ring_mem) \<Rightarrow> ('k, 'r) machine \<Rightarrow> ('k, 'r) machine" where
  "upd_ring fd f s =
     s\<lparr>sh := (sh s)\<lparr>sh_rings := (sh_rings (sh s))(fd := f (sh_rings (sh s) fd))\<rparr>\<rparr>"

definition upd_res :: "('r \<Rightarrow> 'r) \<Rightarrow> ('k, 'r) machine \<Rightarrow> ('k, 'r) machine" where
  "upd_res f s = s\<lparr>res := f (res s)\<rparr>"

text \<open>\<open>handle_signal\<close>, the handler of SIGINT and SIGTERM.\<close>

definition handle_signal :: "('k, 'r) machine \<Rightarrow> ('k, 'r) machine" where
  "handle_signal s = s\<lparr>stop_requested := True\<rparr>"

definition async :: "'k os \<Rightarrow> ('k, 'r) machine \<Rightarrow> ('k, 'r) machine" where
  "async os s =
     (let (sig, m) = os_async os (sh s); t = s\<lparr>sh := m\<rparr>
      in if sig then handle_signal t else t)"

text \<open>\<open>stop_requested\<close> is volatile: a signal may arrive up to the read.\<close>

definition read_stop :: "'k os \<Rightarrow> ('k, 'r) machine \<Rightarrow> bool \<times> ('k, 'r) machine" where
  "read_stop os s = (let t = async os s in (stop_requested t, t))"

text \<open>A call that returns a C integer and sets \<open>errno\<close> when it fails.\<close>

definition sys :: "'k call \<Rightarrow> ('k, 'r) machine \<Rightarrow> int \<times> ('k, 'r) machine" where
  "sys f s =
     (let ((ret, e), m) = f (sh s)
      in (ret, s\<lparr>sh := m, errno := if ret < 0 then e else errno s\<rparr>))"

text \<open>A call that only yields a value.\<close>

definition ask :: "('k shared \<Rightarrow> 'a \<times> 'k shared) \<Rightarrow> ('k, 'r) machine \<Rightarrow> 'a \<times> ('k, 'r) machine" where
  "ask f s = (let (a, m) = f (sh s) in (a, s\<lparr>sh := m\<rparr>))"

definition mmap :: "'k os \<Rightarrow> u64 \<Rightarrow> int \<Rightarrow> u64 \<Rightarrow> ('k, 'r) machine \<Rightarrow> u64 option \<times> ('k, 'r) machine" where
  "mmap os len fd off s =
     (let (a, t) = ask (os_mmap os len fd off) s
      in (a, case a of None \<Rightarrow> t | Some p \<Rightarrow> t\<lparr>vmas := (p, len) # vmas t\<rparr>))"

definition munmap :: "u64 \<Rightarrow> u64 \<Rightarrow> ('k, 'r) machine \<Rightarrow> ('k, 'r) machine" where
  "munmap p len s = s\<lparr>vmas := remove1 (p, len) (vmas s)\<rparr>"

text \<open>A descriptor returned by a successful call joins the descriptor table.\<close>

definition open_fd :: "int \<Rightarrow> ('k, 'r) machine \<Rightarrow> ('k, 'r) machine" where
  "open_fd fd s = (if 0 \<le> fd then s\<lparr>open_fds := fd # open_fds s\<rparr> else s)"

definition close_fd :: "'k os \<Rightarrow> int \<Rightarrow> ('k, 'r) machine \<Rightarrow> int \<times> ('k, 'r) machine" where
  "close_fd os fd s =
     (let (ret, t) = sys (os_close os fd) s
      in (ret, t\<lparr>open_fds := remove1 fd (open_fds t)\<rparr>))"

lemmas machine_ops = ring_at_def upd_ring_def upd_res_def handle_signal_def async_def
  read_stop_def sys_def ask_def mmap_def munmap_def open_fd_def close_fd_def

section \<open>What the primitive actions leave alone\<close>

lemma async_frame [simp]:
  "res (async os s) = res s" "reaped (async os s) = reaped s" "errno (async os s) = errno s"
  "vmas (async os s) = vmas s" "open_fds (async os s) = open_fds s"
  "out_lines (async os s) = out_lines s"
  by (simp_all add: machine_ops Let_def split: prod.split)

lemma read_stop_frame [simp]:
  "res (snd (read_stop os s)) = res s" "reaped (snd (read_stop os s)) = reaped s"
  "errno (snd (read_stop os s)) = errno s" "vmas (snd (read_stop os s)) = vmas s"
  "open_fds (snd (read_stop os s)) = open_fds s" "out_lines (snd (read_stop os s)) = out_lines s"
  by (simp_all add: read_stop_def Let_def)

lemma upd_ring_frame [simp]:
  "res (upd_ring fd f s) = res s" "reaped (upd_ring fd f s) = reaped s"
  "errno (upd_ring fd f s) = errno s" "vmas (upd_ring fd f s) = vmas s"
  "open_fds (upd_ring fd f s) = open_fds s" "out_lines (upd_ring fd f s) = out_lines s"
  "stop_requested (upd_ring fd f s) = stop_requested s"
  by (simp_all add: upd_ring_def)

lemma ring_at_upd_ring [simp]:
  "ring_at (upd_ring fd f s) fd' = (if fd' = fd then f (ring_at s fd) else ring_at s fd')"
  by (simp add: ring_at_def upd_ring_def)

lemma upd_res_frame [simp]:
  "res (upd_res f s) = f (res s)" "reaped (upd_res f s) = reaped s" "sh (upd_res f s) = sh s"
  "vmas (upd_res f s) = vmas s" "open_fds (upd_res f s) = open_fds s"
  "out_lines (upd_res f s) = out_lines s" "errno (upd_res f s) = errno s"
  "stop_requested (upd_res f s) = stop_requested s"
  by (simp_all add: upd_res_def)

lemma ring_at_upd_res [simp]: "ring_at (upd_res f s) fd = ring_at s fd"
  by (simp add: ring_at_def)

lemma sys_frame [simp]:
  "res (snd (sys f s)) = res s" "reaped (snd (sys f s)) = reaped s"
  "vmas (snd (sys f s)) = vmas s" "open_fds (snd (sys f s)) = open_fds s"
  "out_lines (snd (sys f s)) = out_lines s" "stop_requested (snd (sys f s)) = stop_requested s"
  by (simp_all add: sys_def Let_def split: prod.split)

lemma ask_frame [simp]:
  "res (snd (ask f s)) = res s" "reaped (snd (ask f s)) = reaped s"
  "vmas (snd (ask f s)) = vmas s" "open_fds (snd (ask f s)) = open_fds s"
  "out_lines (snd (ask f s)) = out_lines s" "errno (snd (ask f s)) = errno s"
  "stop_requested (snd (ask f s)) = stop_requested s"
  by (simp_all add: ask_def Let_def split: prod.split)

end
