(* ===== verification/Raw_Ring.thy ===== *)
theory Raw_Ring
  imports Uring
begin

text \<open>
  The ring handling every round program carries: \<open>struct raw_ring\<close>, its creation and
  release (\<open>raw_ring_init\<close>, \<open>raw_ring_unmap\<close>, \<open>raw_ring_destroy\<close>), the acquire and
  release accesses, \<open>queue_sqe\<close>, the retried \<open>io_uring_enter\<close>, and the small
  process services (\<open>now_ns\<close>, \<open>read_text\<close>, \<open>pin_cpu\<close>). The text is that of
  io_uring_cancel_round.c; the other programs repeat it with their own constants.
\<close>

section \<open>struct raw_ring\<close>

record raw_ring =
  ring_fd :: int
  ring_single_mmap :: bool
  ring_sq_ptr :: u64
  ring_cq_ptr :: u64
  ring_sqes_ptr :: u64
  ring_sq_sz :: u64
  ring_cq_sz :: u64
  ring_sqes_sz :: u64
  ring_sq_head :: u64
  ring_sq_tail :: u64
  ring_sq_mask :: u64
  ring_sq_entries :: u64
  ring_sq_flags :: u64
  ring_sq_dropped :: u64
  ring_sq_array :: u64
  ring_sqes :: u64
  ring_cq_head :: u64
  ring_cq_tail :: u64
  ring_cq_mask :: u64
  ring_cq_entries :: u64
  ring_cq_overflow :: u64
  ring_cqes :: u64

definition zero_ring :: raw_ring where
  "zero_ring = \<lparr>ring_fd = 0, ring_single_mmap = False, ring_sq_ptr = 0, ring_cq_ptr = 0,
     ring_sqes_ptr = 0, ring_sq_sz = 0, ring_cq_sz = 0, ring_sqes_sz = 0, ring_sq_head = 0,
     ring_sq_tail = 0, ring_sq_mask = 0, ring_sq_entries = 0, ring_sq_flags = 0,
     ring_sq_dropped = 0, ring_sq_array = 0, ring_sqes = 0, ring_cq_head = 0,
     ring_cq_tail = 0, ring_cq_mask = 0, ring_cq_entries = 0, ring_cq_overflow = 0,
     ring_cqes = 0\<rparr>"

section \<open>Accesses\<close>

text \<open>
  A pointer field of the ring points into the memory shared through \<open>ring_fd\<close>; a load
  through it reads the field of that memory after whatever the kernel has done in the
  meantime.
\<close>

definition load_acquire :: "'k os \<Rightarrow> raw_ring \<Rightarrow> (ring_mem \<Rightarrow> 'a) \<Rightarrow> ('k, 'r) machine \<Rightarrow> 'a \<times> ('k, 'r) machine" where
  "load_acquire os ring field s = (let t = async os s in (field (ring_at t (ring_fd ring)), t))"

definition store_release :: "raw_ring \<Rightarrow> ((u32 \<Rightarrow> u32) \<Rightarrow> ring_mem \<Rightarrow> ring_mem) \<Rightarrow> u32 \<Rightarrow> ('k, 'r) machine \<Rightarrow> ('k, 'r) machine" where
  "store_release ring field value s = upd_ring (ring_fd ring) (field (\<lambda>_. value)) s"

lemma load_acquire_frame [simp]:
  "res (snd (load_acquire os ring f s)) = res s"
  "reaped (snd (load_acquire os ring f s)) = reaped s"
  "errno (snd (load_acquire os ring f s)) = errno s"
  "vmas (snd (load_acquire os ring f s)) = vmas s"
  "open_fds (snd (load_acquire os ring f s)) = open_fds s"
  "out_lines (snd (load_acquire os ring f s)) = out_lines s"
  by (simp_all add: load_acquire_def Let_def)

lemma store_release_frame [simp]:
  "res (store_release ring f v s) = res s"
  "reaped (store_release ring f v s) = reaped s"
  "errno (store_release ring f v s) = errno s"
  "vmas (store_release ring f v s) = vmas s"
  "open_fds (store_release ring f v s) = open_fds s"
  "out_lines (store_release ring f v s) = out_lines s"
  by (simp_all add: store_release_def)

definition cq_available :: "'k os \<Rightarrow> raw_ring \<Rightarrow> ('k, 'r) machine \<Rightarrow> u32 \<times> ('k, 'r) machine" where
  "cq_available os ring s =
     (let (tail, s1) = load_acquire os ring cq_tail s;
          (head, s2) = load_acquire os ring cq_head s1
      in (tail - head, s2))"

definition ring_outstanding :: "'k os \<Rightarrow> raw_ring \<Rightarrow> ('k, 'r) machine \<Rightarrow> u64 \<times> ('k, 'r) machine" where
  "ring_outstanding os ring s =
     (let (tail, s1) = load_acquire os ring sq_tail s;
          (head, s2) = load_acquire os ring sq_head s1;
          (avail, s3) = cq_available os ring s2
      in (ucast (tail - head) + ucast avail, s3))"

lemma cq_available_frame [simp]:
  "res (snd (cq_available os ring s)) = res s"
  "reaped (snd (cq_available os ring s)) = reaped s"
  "errno (snd (cq_available os ring s)) = errno s"
  "vmas (snd (cq_available os ring s)) = vmas s"
  "open_fds (snd (cq_available os ring s)) = open_fds s"
  "out_lines (snd (cq_available os ring s)) = out_lines s"
  by (simp_all add: cq_available_def split_beta Let_def)

lemma ring_outstanding_frame [simp]:
  "res (snd (ring_outstanding os ring s)) = res s"
  "reaped (snd (ring_outstanding os ring s)) = reaped s"
  "errno (snd (ring_outstanding os ring s)) = errno s"
  "vmas (snd (ring_outstanding os ring s)) = vmas s"
  "open_fds (snd (ring_outstanding os ring s)) = open_fds s"
  "out_lines (snd (ring_outstanding os ring s)) = out_lines s"
  by (simp_all add: ring_outstanding_def split_beta Let_def)

section \<open>Creation and release\<close>

definition raw_ring_unmap :: "raw_ring \<Rightarrow> ('k, 'r) machine \<Rightarrow> raw_ring \<times> ('k, 'r) machine" where
  "raw_ring_unmap ring s =
     (let s1 = (if ring_sqes_ptr ring \<noteq> 0 then munmap (ring_sqes_ptr ring) (ring_sqes_sz ring) s else s);
          s2 = (if ring_sq_ptr ring \<noteq> 0 then munmap (ring_sq_ptr ring) (ring_sq_sz ring) s1 else s1);
          s3 = (if \<not> ring_single_mmap ring \<and> ring_cq_ptr ring \<noteq> 0
                then munmap (ring_cq_ptr ring) (ring_cq_sz ring) s2 else s2)
      in (ring\<lparr>ring_sqes_ptr := 0, ring_sq_ptr := 0, ring_cq_ptr := 0\<rparr>, s3))"

definition raw_ring_destroy :: "'k os \<Rightarrow> raw_ring \<Rightarrow> ('k, 'r) machine \<Rightarrow> raw_ring \<times> ('k, 'r) machine" where
  "raw_ring_destroy os ring s =
     (let (ring1, s1) = raw_ring_unmap ring s;
          s2 = (if 0 \<le> ring_fd ring1 then snd (close_fd os (ring_fd ring1) s1) else s1)
      in (zero_ring\<lparr>ring_fd := -1\<rparr>, s2))"

text \<open>\<open>syscall(__NR_io_uring_setup, entries, &p)\<close>\<close>

definition setup_ring :: "'k os \<Rightarrow> u32 \<Rightarrow> io_uring_params \<Rightarrow> ('k, 'r) machine
    \<Rightarrow> int \<times> io_uring_params \<times> ('k, 'r) machine" where
  "setup_ring os entries p s =
     (let (((ret, e), p1), m) = os_setup os entries p (sh s)
      in (ret, p1, open_fd ret (s\<lparr>sh := m, errno := if ret < 0 then e else errno s\<rparr>)))"

text \<open>
  The SQ and CQ regions, one mapping for both when the kernel offers it: the addresses of
  the two regions, or nothing when a mapping failed.
\<close>

definition map_rings :: "'k os \<Rightarrow> io_uring_params \<Rightarrow> raw_ring \<Rightarrow> ('k, 'r) machine
    \<Rightarrow> (u64 \<times> u64) option \<times> raw_ring \<times> ('k, 'r) machine" where
  "map_rings os p ring s =
     (let sq_sz = ucast (p_sq_off_array p) + ucast (p_sq_entries p) * 4;
          cq_sz = ucast (p_cq_off_cqes p) + ucast (p_cq_entries p) * 16;
          ring1 = ring\<lparr>ring_single_mmap := (p_features p AND IORING_FEAT_SINGLE_MMAP \<noteq> 0)\<rparr>
      in if ring_single_mmap ring1 then
           (let shared_sz = (if sq_sz > cq_sz then sq_sz else cq_sz);
                (sq, s1) = mmap os shared_sz (ring_fd ring1) IORING_OFF_SQ_RING s
            in case sq of
                 None \<Rightarrow> (None, ring1, s1)
               | Some a \<Rightarrow> (Some (a, a), ring1\<lparr>ring_sq_sz := shared_sz, ring_cq_sz := shared_sz\<rparr>, s1))
         else
           (let (sq, s1) = mmap os sq_sz (ring_fd ring1) IORING_OFF_SQ_RING s
            in case sq of
                 None \<Rightarrow> (None, ring1, s1)
               | Some a \<Rightarrow>
                   (let ring2 = ring1\<lparr>ring_sq_ptr := a, ring_sq_sz := sq_sz\<rparr>;
                        (cq, s2) = mmap os cq_sz (ring_fd ring2) IORING_OFF_CQ_RING s1
                    in case cq of
                         None \<Rightarrow> (None, ring2, s2)
                       | Some b \<Rightarrow> (Some (a, b), ring2\<lparr>ring_cq_sz := cq_sz\<rparr>, s2))))"

definition map_sqes :: "'k os \<Rightarrow> io_uring_params \<Rightarrow> u64 \<Rightarrow> u64 \<Rightarrow> raw_ring \<Rightarrow> ('k, 'r) machine
    \<Rightarrow> bool \<times> raw_ring \<times> ('k, 'r) machine" where
  "map_sqes os p sq cq ring s =
     (let ring1 = ring\<lparr>ring_sq_ptr := sq, ring_cq_ptr := cq,
                       ring_sqes_sz := ucast (p_sq_entries p) * 64\<rparr>;
          (a, s1) = mmap os (ring_sqes_sz ring1) (ring_fd ring1) IORING_OFF_SQES s
      in case a of
           None \<Rightarrow> (False, ring1\<lparr>ring_sqes_ptr := 0\<rparr>, s1)
         | Some q \<Rightarrow> (True, ring1\<lparr>ring_sqes_ptr := q\<rparr>, s1))"

definition ring_pointers :: "io_uring_params \<Rightarrow> u64 \<Rightarrow> u64 \<Rightarrow> raw_ring \<Rightarrow> raw_ring" where
  "ring_pointers p sq cq ring =
     ring\<lparr>ring_sq_head := sq + ucast (p_sq_off_head p),
          ring_sq_tail := sq + ucast (p_sq_off_tail p),
          ring_sq_mask := sq + ucast (p_sq_off_ring_mask p),
          ring_sq_entries := sq + ucast (p_sq_off_ring_entries p),
          ring_sq_flags := sq + ucast (p_sq_off_flags p),
          ring_sq_dropped := sq + ucast (p_sq_off_dropped p),
          ring_sq_array := sq + ucast (p_sq_off_array p),
          ring_sqes := ring_sqes_ptr ring,
          ring_cq_head := cq + ucast (p_cq_off_head p),
          ring_cq_tail := cq + ucast (p_cq_off_tail p),
          ring_cq_mask := cq + ucast (p_cq_off_ring_mask p),
          ring_cq_entries := cq + ucast (p_cq_off_ring_entries p),
          ring_cq_overflow := cq + ucast (p_cq_off_overflow p),
          ring_cqes := cq + ucast (p_cq_off_cqes p)\<rparr>"

text \<open>The label \<open>fail\<close>.\<close>

definition ring_fail :: "'k os \<Rightarrow> raw_ring \<Rightarrow> ('k, 'r) machine \<Rightarrow> int \<times> raw_ring \<times> ('k, 'r) machine" where
  "ring_fail os ring s = (let (ring1, s1) = raw_ring_destroy os ring s in (-1, ring1, s1))"

definition ring_bringup :: "'k os \<Rightarrow> u32 \<Rightarrow> io_uring_params \<Rightarrow> ('k, 'r) machine
    \<Rightarrow> int \<times> raw_ring \<times> ('k, 'r) machine" where
  "ring_bringup os entries p0 s =
     (let (fd, p, s1) = setup_ring os entries p0 s;
          ring1 = zero_ring\<lparr>ring_fd := fd\<rparr>
      in if fd < 0 then (-1, ring1, s1)
         else (case map_rings os p ring1 s1 of
                 (None, ring2, s2) \<Rightarrow> ring_fail os ring2 s2
               | (Some (sq, cq), ring2, s2) \<Rightarrow>
                   (case map_sqes os p sq cq ring2 s2 of
                      (False, ring3, s3) \<Rightarrow> ring_fail os ring3 s3
                    | (True, ring3, s3) \<Rightarrow> (0, ring_pointers p sq cq ring3, s3))))"

subsection \<open>Every mapping and descriptor is given back\<close>

text \<open>The mappings a \<open>struct raw_ring\<close> answers for.\<close>

definition owned :: "raw_ring \<Rightarrow> (u64 \<times> u64) list" where
  "owned ring =
     (if ring_sqes_ptr ring \<noteq> 0 then [(ring_sqes_ptr ring, ring_sqes_sz ring)] else [])
     @ (if \<not> ring_single_mmap ring \<and> ring_cq_ptr ring \<noteq> 0 then [(ring_cq_ptr ring, ring_cq_sz ring)] else [])
     @ (if ring_sq_ptr ring \<noteq> 0 then [(ring_sq_ptr ring, ring_sq_sz ring)] else [])"

text \<open>Documented: \<open>mmap(NULL, ..)\<close> never returns address zero.\<close>

definition mmap_nonnull :: "'k os \<Rightarrow> bool" where
  "mmap_nonnull os \<longleftrightarrow> (\<forall>len fd off m. fst (os_mmap os len fd off m) \<noteq> Some 0)"

lemma unmap_owned: "vmas s = owned ring @ v \<Longrightarrow> vmas (snd (raw_ring_unmap ring s)) = v"
  by (auto simp: raw_ring_unmap_def owned_def munmap_def Let_def split: if_splits)

lemma raw_ring_unmap_frame [simp]:
  "res (snd (raw_ring_unmap ring s)) = res s" "reaped (snd (raw_ring_unmap ring s)) = reaped s"
  "open_fds (snd (raw_ring_unmap ring s)) = open_fds s" "sh (snd (raw_ring_unmap ring s)) = sh s"
  "out_lines (snd (raw_ring_unmap ring s)) = out_lines s"
  "ring_fd (fst (raw_ring_unmap ring s)) = ring_fd ring"
  by (simp_all add: raw_ring_unmap_def munmap_def Let_def)

lemma close_fd_frame [simp]:
  "res (snd (close_fd os fd s)) = res s" "reaped (snd (close_fd os fd s)) = reaped s"
  "vmas (snd (close_fd os fd s)) = vmas s" "out_lines (snd (close_fd os fd s)) = out_lines s"
  "open_fds (snd (close_fd os fd s)) = remove1 fd (open_fds s)"
  by (simp_all add: close_fd_def split_beta Let_def)

lemma raw_ring_destroy_frame [simp]:
  "res (snd (raw_ring_destroy os ring s)) = res s"
  "reaped (snd (raw_ring_destroy os ring s)) = reaped s"
  "out_lines (snd (raw_ring_destroy os ring s)) = out_lines s"
  by (simp_all add: raw_ring_destroy_def split_beta Let_def)

lemma destroy_owned:
  assumes "vmas s = owned ring @ v" and "open_fds s = ring_fd ring # f" and "0 \<le> ring_fd ring"
  shows "vmas (snd (raw_ring_destroy os ring s)) = v"
    and "open_fds (snd (raw_ring_destroy os ring s)) = f"
  using assms by (simp_all add: raw_ring_destroy_def split_beta Let_def unmap_owned)

lemma mmap_Some:
  "mmap os len fd off s = (Some a, t) \<Longrightarrow> mmap_nonnull os \<Longrightarrow>
     a \<noteq> 0 \<and> vmas t = (a, len) # vmas s \<and> open_fds t = open_fds s"
  by (auto simp: mmap_def ask_def mmap_nonnull_def split_beta Let_def split: option.splits)

lemma mmap_None:
  "mmap os len fd off s = (None, t) \<Longrightarrow> vmas t = vmas s \<and> open_fds t = open_fds s"
  by (auto simp: mmap_def ask_def split_beta Let_def split: option.splits)

text \<open>The mappings owned once the two region addresses are stored in the ring.\<close>

definition owned_at :: "raw_ring \<Rightarrow> u64 \<Rightarrow> u64 \<Rightarrow> (u64 \<times> u64) list" where
  "owned_at ring sq cq = owned (ring\<lparr>ring_sq_ptr := sq, ring_cq_ptr := cq\<rparr>)"

lemma map_rings_single:
  assumes nn: "mmap_nonnull os"
    and null: "ring_sq_ptr ring = 0" "ring_cq_ptr ring = 0" "ring_sqes_ptr ring = 0"
    and feat: "p_features p AND IORING_FEAT_SINGLE_MMAP \<noteq> 0"
    and run: "map_rings os p ring s = (r, ring', t)"
  shows "open_fds t = open_fds s \<and> ring_fd ring' = ring_fd ring \<and> ring_sqes_ptr ring' = 0 \<and>
    (case r of None \<Rightarrow> vmas t = owned ring' @ vmas s
     | Some (sq, cq) \<Rightarrow> vmas t = owned_at ring' sq cq @ vmas s)"
proof -
  define len where "len = (let a = ucast (p_sq_off_array p) + ucast (p_sq_entries p) * 4;
      b = ucast (p_cq_off_cqes p) + ucast (p_cq_entries p) * 16 :: u64 in if a > b then a else b)"
  obtain sq s1 where m: "mmap os len (ring_fd ring) IORING_OFF_SQ_RING s = (sq, s1)"
    by (cases "mmap os len (ring_fd ring) IORING_OFF_SQ_RING s")
  show ?thesis
  proof (cases sq)
    case None
    with run m feat null mmap_None [OF m [unfolded None]] show ?thesis
      by (auto simp: map_rings_def owned_def len_def Let_def)
  next
    case (Some a)
    with run m feat null mmap_Some [OF m [unfolded Some] nn] show ?thesis
      by (auto simp: map_rings_def owned_def owned_at_def len_def Let_def)
  qed
qed

lemma map_rings_double:
  assumes nn: "mmap_nonnull os"
    and null: "ring_sq_ptr ring = 0" "ring_cq_ptr ring = 0" "ring_sqes_ptr ring = 0"
    and feat: "p_features p AND IORING_FEAT_SINGLE_MMAP = 0"
    and run: "map_rings os p ring s = (r, ring', t)"
  shows "open_fds t = open_fds s \<and> ring_fd ring' = ring_fd ring \<and> ring_sqes_ptr ring' = 0 \<and>
    (case r of None \<Rightarrow> vmas t = owned ring' @ vmas s
     | Some (sq, cq) \<Rightarrow> vmas t = owned_at ring' sq cq @ vmas s)"
proof -
  define sz where "sz = (ucast (p_sq_off_array p) + ucast (p_sq_entries p) * 4 :: u64)"
  define cz where "cz = (ucast (p_cq_off_cqes p) + ucast (p_cq_entries p) * 16 :: u64)"
  obtain sq s1 where m: "mmap os sz (ring_fd ring) IORING_OFF_SQ_RING s = (sq, s1)"
    by (cases "mmap os sz (ring_fd ring) IORING_OFF_SQ_RING s")
  obtain cq s2 where m2: "mmap os cz (ring_fd ring) IORING_OFF_CQ_RING s1 = (cq, s2)"
    by (cases "mmap os cz (ring_fd ring) IORING_OFF_CQ_RING s1")
  show ?thesis
  proof (cases sq)
    case None
    with run m feat null mmap_None [OF m [unfolded None]] show ?thesis
      by (auto simp: map_rings_def owned_def sz_def Let_def)
  next
    case (Some a)
    note sq = this
    note a = mmap_Some [OF m [unfolded Some] nn]
    show ?thesis
    proof (cases cq)
      case None
      with run m m2 sq feat null a mmap_None [OF m2 [unfolded None]] show ?thesis
        by (auto simp: map_rings_def owned_def sz_def cz_def Let_def)
    next
      case (Some b)
      with run m m2 sq feat null a mmap_Some [OF m2 [unfolded Some] nn] show ?thesis
        by (auto simp: map_rings_def owned_def owned_at_def sz_def cz_def Let_def)
    qed
  qed
qed

lemmas map_rings_owns = map_rings_single map_rings_double

lemma map_sqes_owns:
  assumes nn: "mmap_nonnull os" and null: "ring_sqes_ptr ring = 0"
    and vm: "vmas s = owned_at ring sq cq @ v"
    and run: "map_sqes os p sq cq ring s = (ok, ring', t)"
  shows "vmas t = owned ring' @ v \<and> open_fds t = open_fds s \<and> ring_fd ring' = ring_fd ring"
proof -
  obtain a s1 where m: "mmap os (ucast (p_sq_entries p) * 64) (ring_fd ring) IORING_OFF_SQES s = (a, s1)"
    by (cases "mmap os (ucast (p_sq_entries p) * 64) (ring_fd ring) IORING_OFF_SQES s")
  show ?thesis
  proof (cases a)
    case None
    with run m vm null mmap_None [OF m [unfolded None]] show ?thesis
      by (auto simp: map_sqes_def owned_def owned_at_def Let_def)
  next
    case (Some q)
    with run m vm null mmap_Some [OF m [unfolded Some] nn] show ?thesis
      by (auto simp: map_sqes_def owned_def owned_at_def Let_def)
  qed
qed

lemma owned_ring_pointers [simp]:
  "owned (ring_pointers p sq cq ring) = owned ring"
  "ring_fd (ring_pointers p sq cq ring) = ring_fd ring"
  by (simp_all add: owned_def ring_pointers_def)

lemma setup_ring_frame:
  "setup_ring os n p s = (fd, p', t) \<Longrightarrow>
     vmas t = vmas s \<and> res t = res s \<and> reaped t = reaped s \<and> out_lines t = out_lines s \<and>
     open_fds t = (if 0 \<le> fd then fd # open_fds s else open_fds s)"
  by (auto simp: setup_ring_def open_fd_def split_beta Let_def)

lemma ring_fail_restores:
  assumes "vmas s = owned ring @ v" "open_fds s = ring_fd ring # f" "0 \<le> ring_fd ring"
    and "ring_fail os ring s = (rc, ring', t)"
  shows "rc = -1 \<and> vmas t = v \<and> open_fds t = f"
  using assms destroy_owned [of s ring v f os]
  by (auto simp: ring_fail_def split_beta Let_def)

text \<open>
  Either the ring is up and answers for all that was acquired, or nothing of it is left.
\<close>

lemma ring_bringup_owns:
  assumes nn: "mmap_nonnull os" and run: "ring_bringup os n p0 s = (rc, ring, t)"
  shows "rc = 0 \<and> 0 \<le> ring_fd ring \<and> vmas t = owned ring @ vmas s
           \<and> open_fds t = ring_fd ring # open_fds s
       \<or> rc = -1 \<and> vmas t = vmas s \<and> open_fds t = open_fds s"
proof -
  obtain fd p s1 where st: "setup_ring os n p0 s = (fd, p, s1)"
    by (cases "setup_ring os n p0 s") auto
  note fr = setup_ring_frame [OF st]
  let ?r1 = "zero_ring\<lparr>ring_fd := fd\<rparr>"
  show ?thesis
  proof (cases "fd < 0")
    case True
    with run st fr show ?thesis by (auto simp: ring_bringup_def)
  next
    case fd: False
    obtain r ring2 s2 where mr: "map_rings os p ?r1 s1 = (r, ring2, s2)"
      by (cases "map_rings os p ?r1 s1") auto
    have own: "open_fds s2 = open_fds s1 \<and> ring_fd ring2 = fd \<and> ring_sqes_ptr ring2 = 0 \<and>
      (case r of None \<Rightarrow> vmas s2 = owned ring2 @ vmas s1
       | Some (sq, cq) \<Rightarrow> vmas s2 = owned_at ring2 sq cq @ vmas s1)"
      using map_rings_owns [OF nn, of ?r1 p s1 r ring2 s2] mr
      by (auto simp: zero_ring_def)
    show ?thesis
    proof (cases r)
      case None
      with run st fd mr have fail: "ring_fail os ring2 s2 = (rc, ring, t)"
        by (simp add: ring_bringup_def)
      have "rc = -1 \<and> vmas t = vmas s1 \<and> open_fds t = open_fds s"
        by (rule ring_fail_restores [OF _ _ _ fail]) (use own fr fd None in simp_all)
      with fr show ?thesis by simp
    next
      case (Some ab)
      obtain sq cq where ab: "ab = (sq, cq)" by (cases ab)
      obtain ok ring3 s3 where ms: "map_sqes os p sq cq ring2 s2 = (ok, ring3, s3)"
        by (cases "map_sqes os p sq cq ring2 s2") auto
      have own3: "vmas s3 = owned ring3 @ vmas s1 \<and> open_fds s3 = open_fds s2 \<and> ring_fd ring3 = fd"
        using map_sqes_owns [OF nn _ _ ms, of "vmas s1"] own Some ab by auto
      show ?thesis
      proof (cases ok)
        case True
        with run st fd mr ms Some ab have "rc = 0" "ring = ring_pointers p sq cq ring3" "t = s3"
          by (simp_all add: ring_bringup_def)
        with own own3 fr fd show ?thesis by simp
      next
        case False
        with run st fd mr ms Some ab have fail: "ring_fail os ring3 s3 = (rc, ring, t)"
          by (simp add: ring_bringup_def)
        have "rc = -1 \<and> vmas t = vmas s1 \<and> open_fds t = open_fds s"
          by (rule ring_fail_restores [OF _ _ _ fail]) (use own own3 fr fd in simp_all)
        with fr show ?thesis by simp
      qed
    qed
  qed
qed

subsection \<open>The program's data\<close>

lemma mmap_frame [simp]:
  "res (snd (mmap os n fd off s)) = res s" "reaped (snd (mmap os n fd off s)) = reaped s"
  "out_lines (snd (mmap os n fd off s)) = out_lines s"
  by (simp_all add: mmap_def split_beta Let_def split: option.split)

text \<open>The program's own data: the result, the copied completions and the output.\<close>

definition same_data :: "('k, 'r) machine \<Rightarrow> ('k, 'r) machine \<Rightarrow> bool" where
  "same_data s t \<longleftrightarrow> res t = res s \<and> reaped t = reaped s \<and> out_lines t = out_lines s"

lemma same_data_trans: "same_data s t \<Longrightarrow> same_data t u \<Longrightarrow> same_data s u"
  by (simp add: same_data_def)

lemma mmap_data: "mmap os n fd off s = (a, t) \<Longrightarrow> same_data s t"
  using mmap_frame [of os n fd off s] by (simp add: same_data_def)

lemma destroy_data: "raw_ring_destroy os ring s = (ring', t) \<Longrightarrow> same_data s t"
  using raw_ring_destroy_frame [of os ring s] by (simp add: same_data_def)

lemma map_rings_data: "map_rings os p ring s = (r, ring', t) \<Longrightarrow> same_data s t"
  by (auto simp: map_rings_def Let_def split: if_splits prod.splits option.splits
      dest!: mmap_data intro: same_data_trans)

lemma map_sqes_data: "map_sqes os p sq cq ring s = (ok, ring', t) \<Longrightarrow> same_data s t"
  by (auto simp: map_sqes_def Let_def split: if_splits prod.splits option.splits
      dest!: mmap_data intro: same_data_trans)

lemma ring_fail_data: "ring_fail os ring s = (rc, ring', t) \<Longrightarrow> same_data s t"
  by (auto simp: ring_fail_def split: prod.splits dest!: destroy_data)

lemma ring_bringup_data:
  assumes "ring_bringup os n p0 s = (rc, ring, t)"
  shows "same_data s t"
proof -
  obtain fd p s1 where st: "setup_ring os n p0 s = (fd, p, s1)"
    by (cases "setup_ring os n p0 s") auto
  have "same_data s s1" using setup_ring_frame [OF st] by (simp add: same_data_def)
  with assms st show ?thesis
    by (auto simp: ring_bringup_def Let_def split: if_splits prod.splits option.splits bool.splits
        dest!: map_rings_data map_sqes_data ring_fail_data intro: same_data_trans)
qed

end
