(* ===== verification/Submission_Queue.thy ===== *)
theory Submission_Queue
  imports Uring_Abi
begin

text \<open>
  The submission ring as the programs write it, with free-running 32-bit indices over an array
  whose length is a power of two: related to the list of entries the kernel has not consumed,
  it is a bounded FIFO queue.
\<close>

section \<open>The submission ring is a bounded FIFO queue\<close>

text \<open>The interface: entries go in at one end while there is room.\<close>

locale bounded_fifo =
  fixes contents :: "'q \<Rightarrow> 'a list"
    and capacity :: "'q \<Rightarrow> nat"
    and enq :: "'a \<Rightarrow> 'q \<Rightarrow> 'q option"
    and inv :: "'q \<Rightarrow> bool"
  assumes enq_room: "inv q \<Longrightarrow> length (contents q) < capacity q \<Longrightarrow>
      \<exists>q'. enq x q = Some q' \<and> contents q' = contents q @ [x] \<and> capacity q' = capacity q \<and> inv q'"
    and enq_full: "inv q \<Longrightarrow> length (contents q) = capacity q \<Longrightarrow> enq x q = None"
    and within: "inv q \<Longrightarrow> length (contents q) \<le> capacity q"
begin

fun enq_list :: "'a list \<Rightarrow> 'q \<Rightarrow> 'q option" where
  "enq_list [] q = Some q"
| "enq_list (x # xs) q = (case enq x q of None \<Rightarrow> None | Some q' \<Rightarrow> enq_list xs q')"

lemma enq_list_room:
  "inv q \<Longrightarrow> length (contents q) + length xs \<le> capacity q \<Longrightarrow>
     \<exists>q'. enq_list xs q = Some q' \<and> contents q' = contents q @ xs \<and> capacity q' = capacity q \<and> inv q'"
proof (induction xs arbitrary: q)
  case Nil
  then show ?case by simp
next
  case (Cons x xs)
  then obtain q1 where q1: "enq x q = Some q1" "contents q1 = contents q @ [x]"
      "capacity q1 = capacity q" "inv q1"
    using enq_room [of q x] by auto
  with Cons.prems Cons.IH [of q1] show ?case by auto
qed

lemma enq_list_overflow:
  "inv q \<Longrightarrow> capacity q < length (contents q) + length xs \<Longrightarrow> enq_list xs q = None"
proof (induction xs arbitrary: q)
  case Nil
  with within [of q] show ?case by simp
next
  case (Cons x xs)
  show ?case
  proof (cases "length (contents q) = capacity q")
    case True
    with Cons.prems show ?thesis by (simp add: enq_full)
  next
    case False
    with Cons.prems within [of q] obtain q1 where q1: "enq x q = Some q1"
        "contents q1 = contents q @ [x]" "capacity q1 = capacity q" "inv q1"
      using enq_room [of q x] by auto
    with Cons.prems have "enq_list xs q1 = None" by (intro Cons.IH) auto
    with q1 show ?thesis by simp
  qed
qed

end

text \<open>The slot of the \<open>i\<close>th pending entry, the pending entries, and the ring's invariant.\<close>

definition sq_slot :: "ring_mem \<Rightarrow> nat \<Rightarrow> u32" where
  "sq_slot m i = (sq_head m + of_nat i) AND sq_mask m"

definition sq_count :: "ring_mem \<Rightarrow> nat" where
  "sq_count m = unat (sq_tail m - sq_head m)"

definition sq_pending :: "ring_mem \<Rightarrow> sqe list" where
  "sq_pending m = map (\<lambda>i. sqes m (sq_array m (sq_slot m i))) [0..<sq_count m]"

definition sq_capacity :: "ring_mem \<Rightarrow> nat" where
  "sq_capacity m = unat (sq_entries m)"

definition sq_wf :: "ring_mem \<Rightarrow> bool" where
  "sq_wf m \<longleftrightarrow>
     (\<exists>k < 32. sq_entries m = 2 ^ k \<and> sq_mask m = mask k) \<and> sq_count m \<le> sq_capacity m
     \<and> (\<forall>i < sq_count m. sq_array m (sq_slot m i) = sq_slot m i)"

text \<open>\<open>queue_sqe\<close> followed by the assignments, on the ring memory alone.\<close>

definition sq_enqueue :: "sqe \<Rightarrow> ring_mem \<Rightarrow> ring_mem option" where
  "sq_enqueue q m =
     (if sq_tail m - sq_head m \<ge> sq_entries m then None
      else (let index = sq_tail m AND sq_mask m
            in Some (m\<lparr>sqes := (sqes m)(index := q), sq_array := (sq_array m)(index := index),
                       sq_tail := sq_tail m + 1\<rparr>)))"

lemma sq_slot_unat:
  assumes "k < 32" "sq_mask m = mask k" "i < 2 ^ 32"
  shows "unat (sq_slot m i) = (unat (sq_head m) + i) mod 2 ^ k"
proof -
  have "unat (sq_slot m i) = unat (sq_head m + of_nat i) mod 2 ^ k"
    using assms by (simp add: sq_slot_def flip: take_bit_eq_mask) (simp add: unsigned_take_bit_eq flip: take_bit_eq_mod)
  also have "unat (sq_head m + of_nat i) = (unat (sq_head m) + i) mod 2 ^ 32"
    using assms by (simp add: unat_word_ariths unat_of_nat)
  also have "((unat (sq_head m) + i) mod 2 ^ 32) mod 2 ^ k = (unat (sq_head m) + i) mod 2 ^ k"
    using assms le_imp_power_dvd [of k 32 "2 :: nat"] by (intro mod_mod_cancel) simp
  finally show ?thesis .
qed

lemma sq_slot_inject:
  assumes k: "k < 32" "sq_mask m = mask k" and i: "i < 2 ^ k" and j: "j < 2 ^ k"
    and eq: "sq_slot m i = sq_slot m j"
  shows "i = j"
proof -
  have "(2 :: nat) ^ k < 2 ^ 32" using k(1) by (intro power_strict_increasing) auto
  with i j have ij: "i < 2 ^ 32" "j < 2 ^ 32" by linarith+
  from eq have "(unat (sq_head m) + i) mod 2 ^ k = (unat (sq_head m) + j) mod 2 ^ k"
    using sq_slot_unat [OF k ij(1)] sq_slot_unat [OF k ij(2)] by simp
  then have "int (2 ^ k) dvd (int (unat (sq_head m) + i) - int (unat (sq_head m) + j))"
    by (metis mod_eq_dvd_iff zmod_int)
  then have "int (2 ^ k) dvd int i - int j" by simp
  moreover have "\<bar>int i - int j\<bar> < int (2 ^ k)" using i j by linarith
  ultimately have "int i - int j = 0"
    using zdvd_not_zless [of "\<bar>int i - int j\<bar>" "int (2 ^ k)"] by (cases "i = j") auto
  then show ?thesis by simp
qed

text \<open>The entry added goes to the slot just past the pending ones, which is free.\<close>

lemma sq_enqueue_room:
  assumes wf: "sq_wf m" and room: "sq_count m < sq_capacity m"
  shows "\<exists>m'. sq_enqueue q m = Some m' \<and> sq_pending m' = sq_pending m @ [q] \<and>
    sq_count m' = Suc (sq_count m) \<and> sq_capacity m' = sq_capacity m \<and> sq_wf m'"
proof -
  obtain k where k: "k < 32" "sq_entries m = 2 ^ k" "sq_mask m = mask k"
    using wf by (auto simp: sq_wf_def)
  have cap: "sq_capacity m = 2 ^ k"
    using unat_of_nat [where 'a = 32, of "2 ^ k"] power_strict_increasing [OF k(1), of "2 :: nat"]
    by (simp add: sq_capacity_def k(2))
  let ?n = "sq_count m"
  define idx where "idx = sq_slot m ?n"
  define m2 where "m2 = m\<lparr>sqes := (sqes m)(idx := q), sq_array := (sq_array m)(idx := idx),
      sq_tail := sq_tail m + 1\<rparr>"
  have fields: "sq_head m2 = sq_head m" "sq_mask m2 = sq_mask m" "sq_entries m2 = sq_entries m"
      "sq_tail m2 = sq_tail m + 1" "sqes m2 = (sqes m)(idx := q)"
      "sq_array m2 = (sq_array m)(idx := idx)"
    by (simp_all add: m2_def)
  have notfull: "\<not> sq_tail m - sq_head m \<ge> sq_entries m"
    using room by (simp add: sq_count_def sq_capacity_def word_le_nat_alt)
  have tail: "sq_tail m = sq_head m + of_nat ?n"
    by (simp add: sq_count_def)
  have idx: "sq_tail m AND sq_mask m = idx"
    by (subst tail) (simp add: sq_slot_def idx_def)
  have slot: "sq_slot m2 i = sq_slot m i" for i
    by (simp add: sq_slot_def fields)
  have free: "sq_slot m i \<noteq> idx" if "i < ?n" for i
    using sq_slot_inject [OF k(1,3), of i ?n] that room by (auto simp: cap idx_def)
  have "(2 :: nat) ^ k < 2 ^ 32" using k(1) by (intro power_strict_increasing) auto
  with room cap have "?n + 1 < 2 ^ 32" by simp
  then have "unat (sq_tail m - sq_head m + 1) = Suc ?n"
    by (simp add: sq_count_def unat_word_ariths(1) del: unat_1)
  then have count: "sq_count m2 = Suc ?n"
    by (simp add: sq_count_def [of m2] fields diff_add_eq)
  have old: "sq_array m (sq_slot m i) = sq_slot m i" if "i < ?n" for i
    using wf that by (simp add: sq_wf_def)
  have "sq_pending m2 = sq_pending m @ [q]"
    using old free by (simp add: sq_pending_def count slot fields idx_def [symmetric])
  moreover have "sq_wf m2"
    using k room old free count
    by (auto simp: sq_wf_def sq_capacity_def fields slot less_Suc_eq idx_def [symmetric])
  moreover have "sq_enqueue q m = Some m2"
    using notfull by (simp add: sq_enqueue_def idx m2_def)
  ultimately show ?thesis
    using count by (simp add: sq_capacity_def fields)
qed

lemma sq_enqueue_full:
  "sq_wf m \<Longrightarrow> sq_count m = sq_capacity m \<Longrightarrow> sq_enqueue q m = None"
  by (simp add: sq_enqueue_def sq_count_def sq_capacity_def word_le_nat_alt)

lemma length_sq_pending [simp]: "length (sq_pending m) = sq_count m"
  by (simp add: sq_pending_def)

interpretation sq: bounded_fifo sq_pending sq_capacity sq_enqueue sq_wf
proof unfold_locales
  fix m :: ring_mem and q :: sqe
  assume "sq_wf m" and "length (sq_pending m) < sq_capacity m"
  then show "\<exists>m'. sq_enqueue q m = Some m' \<and> sq_pending m' = sq_pending m @ [q] \<and>
      sq_capacity m' = sq_capacity m \<and> sq_wf m'"
    using sq_enqueue_room [of m q] by auto
qed (simp_all add: sq_enqueue_full sq_wf_def)

text \<open>What the submission side of a ring holds; the kernel may still write the other fields.\<close>

definition same_sq :: "ring_mem \<Rightarrow> ring_mem \<Rightarrow> bool" where
  "same_sq m m' \<longleftrightarrow> sq_head m' = sq_head m \<and> sq_tail m' = sq_tail m \<and> sq_mask m' = sq_mask m \<and>
     sq_entries m' = sq_entries m \<and> sq_array m' = sq_array m \<and> sqes m' = sqes m"

lemma same_sq_refl [simp]: "same_sq m m"
  by (simp add: same_sq_def)

lemma same_sq_trans: "same_sq a b \<Longrightarrow> same_sq b c \<Longrightarrow> same_sq a c"
  by (simp add: same_sq_def)

lemma same_sq_facts:
  assumes "same_sq m m'"
  shows "sq_pending m' = sq_pending m" "sq_capacity m' = sq_capacity m" "sq_wf m' = sq_wf m"
    "sq_count m' = sq_count m"
  using assms
  by (simp_all add: same_sq_def sq_pending_def sq_capacity_def sq_wf_def sq_count_def sq_slot_def)

end
