(* ===== verification/Ring_Queue.thy ===== *)
theory Ring_Queue
  imports Raw_Ring Submission_Queue
begin

text \<open>
  \<open>queue_sqe\<close> on the submission side of a ring and the retried
  \<open>io_uring_enter\<close> with its caller-visible outcomes, and the process services the
  programs share. \<open>queue_sqe\<close> is an operation of the queue of \<open>Submission_Queue\<close>.
\<close>

section \<open>Process services\<close>

text \<open>\<open>now_ns\<close>: the process exits when the clock cannot be read.\<close>

definition now_ns :: "'k os \<Rightarrow> ('k, 'r) machine \<Rightarrow> (u64 \<times> ('k, 'r) machine) option" where
  "now_ns os s =
     (case ask (os_clock os) s of
        (None, t) \<Rightarrow> None
      | (Some (tv_sec, tv_nsec), t) \<Rightarrow> Some (tv_sec * 1000000000 + tv_nsec, t))"

text \<open>\<open>if (timed) start = now_ns();\<close> with \<open>start\<close> initialised to zero.\<close>

definition now_if :: "bool \<Rightarrow> 'k os \<Rightarrow> ('k, 'r) machine \<Rightarrow> (u64 \<times> ('k, 'r) machine) option" where
  "now_if timed os s = (if timed then now_ns os s else Some (0, s))"

text \<open>The result is \<open>None\<close> for a return of -1.\<close>

definition read_text :: "'k os \<Rightarrow> string \<Rightarrow> nat \<Rightarrow> ('k, 'r) machine \<Rightarrow> string option \<times> ('k, 'r) machine" where
  "read_text os path bufsize s =
     (if bufsize = 0 then (None, s)
      else (case ask (os_read_file os path (bufsize - 1)) s of
              (None, t) \<Rightarrow> (None, t)
            | (Some bytes, t) \<Rightarrow> (Some (trim_eol (take (bufsize - 1) bytes)), t)))"

definition pin_cpu :: "'k os \<Rightarrow> u32 \<Rightarrow> ('k, 'r) machine \<Rightarrow> int \<times> ('k, 'r) machine" where
  "pin_cpu os cpu s =
     (let (online, s1) = ask (os_nprocs os) s
      in if online \<le> uint cpu then (-1, s1)
         else (let (ret, s2) = sys (os_setaffinity os cpu) s1
               in if ret \<noteq> 0 then (-1, s2)
                  else (let (now, s3) = ask (os_getcpu os) s2
                        in (if now = uint cpu then 0 else -1, s3))))"

lemma now_ns_wp [wp_simps]:
  "wp (now_ns os s) Q \<longleftrightarrow>
     (\<forall>sec nsec t. ask (os_clock os) s = (Some (sec, nsec), t) \<longrightarrow> Q (sec * 1000000000 + nsec) t)"
  by (auto simp: now_ns_def split: prod.split option.split)

section \<open>Retried system calls\<close>

text \<open>
  \<open>do ret = call; while (ret < 0 && errno == EINTR && !stop)\<close>, where \<open>poll\<close> tells
  whether to stop.
\<close>

partial_function (option) retry_loop ::
  "(('k, 'r) machine \<Rightarrow> bool \<times> ('k, 'r) machine) \<Rightarrow> 'k call \<Rightarrow> ('k, 'r) machine
     \<Rightarrow> (int \<times> ('k, 'r) machine) option"
  where
  "retry_loop poll call s =
     (let (ret, s1) = sys call s
      in if ret < 0 \<and> errno s1 = EINTR
         then (let (stop, s2) = poll s1
               in if stop then Some (ret, s2) else retry_loop poll call s2)
         else Some (ret, s1))"

text \<open>
  The loop around \<open>io_uring_enter\<close>, which heeds \<open>stop_requested\<close>; the last argument is
  the timeout in seconds of the extended argument, if there is one.
\<close>

definition enter_loop :: "'k os \<Rightarrow> int \<Rightarrow> u32 \<Rightarrow> u32 \<Rightarrow> u32 \<Rightarrow> int option \<Rightarrow> ('k, 'r) machine
    \<Rightarrow> (int \<times> ('k, 'r) machine) option" where
  "enter_loop os fd to_submit min_complete flgs arg =
     retry_loop (read_stop os) (os_enter os fd to_submit min_complete flgs arg)"

text \<open>What a program keeps across a system call: everything but the shared memory, \<open>errno\<close>
  and the stop flag.\<close>

definition same_process :: "('k, 'r) machine \<Rightarrow> ('k, 'r) machine \<Rightarrow> bool" where
  "same_process s t \<longleftrightarrow> res t = res s \<and> reaped t = reaped s \<and> vmas t = vmas s \<and>
     open_fds t = open_fds s \<and> out_lines t = out_lines s"

lemma same_process_refl [simp]: "same_process s s"
  by (simp add: same_process_def)

lemma same_process_trans: "same_process s t \<Longrightarrow> same_process t u \<Longrightarrow> same_process s u"
  by (simp add: same_process_def)

lemma same_process_D:
  "same_process s t \<Longrightarrow> res t = res s" "same_process s t \<Longrightarrow> reaped t = reaped s"
  "same_process s t \<Longrightarrow> vmas t = vmas s" "same_process s t \<Longrightarrow> open_fds t = open_fds s"
  "same_process s t \<Longrightarrow> out_lines t = out_lines s"
  by (simp_all add: same_process_def)

lemma same_process_ops [simp]:
  "same_process s (snd (sys f s))" "same_process s (snd (ask g s))"
  "same_process s (async os s)" "same_process s (snd (read_stop os s))"
  "same_process s (upd_ring fd h s)" "same_process s (snd (load_acquire os ring fld s))"
  "same_process s (store_release ring st v s)" "same_process s (snd (cq_available os ring s))"
  "same_process s (snd (ring_outstanding os ring s))"
  by (simp_all add: same_process_def)

interpretation same_process: frame same_process
  by unfold_locales (auto intro: same_process_trans)

text \<open>A reflexive and transitive relation kept by the call and by \<open>poll\<close> is kept by the loop.\<close>

lemma retry_loop_rel:
  fixes s :: "('k, 'r) machine" and R :: "('k, 'r) machine \<Rightarrow> ('k, 'r) machine \<Rightarrow> bool"
  assumes trans: "\<And>s t u. R s t \<Longrightarrow> R t u \<Longrightarrow> R s u"
    and step: "\<And>s. R s (snd (sys call s))"
    and poll: "\<And>s. R s (snd (poll s))"
    and ret: "retry_loop poll call s = Some y"
  shows "R s (snd y)"
proof -
  let ?kept = "\<lambda>poll call. (\<forall>s. R s (snd (poll s))) \<and> (\<forall>s. R s (snd (sys call s)))"
  have "?kept poll call \<longrightarrow> R s (snd y)"
  proof (rule retry_loop.raw_induct [where P = "\<lambda>poll call s y. ?kept poll call \<longrightarrow> R s (snd y)", OF _ ret],
      rule impI)
    fix loop :: "(('k, 'r) machine \<Rightarrow> bool \<times> ('k, 'r) machine) \<Rightarrow> 'k call \<Rightarrow> ('k, 'r) machine
        \<Rightarrow> (int \<times> ('k, 'r) machine) option"
    fix poll :: "('k, 'r) machine \<Rightarrow> bool \<times> ('k, 'r) machine" and call and s :: "('k, 'r) machine" and y
    assume IH: "\<And>poll call s y. loop poll call s = Some y \<Longrightarrow> ?kept poll call \<longrightarrow> R s (snd y)"
      and run: "(let (ret, s1) = sys call s
         in if ret < 0 \<and> errno s1 = EINTR
            then let (stop, s2) = poll s1 in if stop then Some (ret, s2) else loop poll call s2
            else Some (ret, s1)) = Some y"
      and kept: "?kept poll call"
    obtain r s1 where call: "sys call s = (r, s1)" by (cases "sys call s")
    obtain stop s2 where rd: "poll s1 = (stop, s2)" by (cases "poll s1")
    have s1: "R s s1" using kept call by (metis snd_conv)
    have "R s1 s2" using kept rd by (metis snd_conv)
    with s1 have s2: "R s s2" by (rule trans)
    show "R s (snd y)"
    proof (cases "r < 0 \<and> errno s1 = EINTR \<and> \<not> stop")
      case True
      with run call rd have "loop poll call s2 = Some y" by simp
      with IH kept have "R s2 (snd y)" by blast
      with s2 show ?thesis by (rule trans)
    next
      case False
      with run have "y = (r, s1) \<or> y = (r, s2)"
        unfolding call by (auto simp: rd split: if_splits)
      with s1 s2 show ?thesis by auto
    qed
  qed
  with step poll show ?thesis by blast
qed

lemma retry_loop_wp:
  assumes "\<And>s. same_process s (snd (poll s))"
  shows "wp (retry_loop poll call s) (\<lambda>ret t. same_process s t)"
  unfolding wp_iff
  using retry_loop_rel [of same_process call poll s, OF same_process_trans same_process_ops(1) assms]
  by fastforce

lemma enter_loop_wp: "wp (enter_loop os fd n m fl a s) (\<lambda>ret t. same_process s t)"
  by (simp add: enter_loop_def retry_loop_wp)

text \<open>
  The loop comes back when the kernel interrupts only finitely often: \<open>bound\<close> drops with
  every interrupted call, whatever happens between two calls.
\<close>

definition eintr_drops :: "('k shared \<Rightarrow> nat) \<Rightarrow> 'k call \<Rightarrow> bool" where
  "eintr_drops bound call \<longleftrightarrow>
     (\<forall>x ret y. call x = ((ret, EINTR), y) \<longrightarrow> ret < 0 \<longrightarrow> bound y < bound x)"

definition eintr_bounded :: "'k os \<Rightarrow> ('k shared \<Rightarrow> nat) \<Rightarrow> bool" where
  "eintr_bounded os bound \<longleftrightarrow>
     (\<forall>fd n m fl a. eintr_drops bound (os_enter os fd n m fl a)) \<and>
     (\<forall>fd req. eintr_drops bound (os_register os fd req)) \<and>
     (\<forall>x. bound (snd (os_async os x)) \<le> bound x)"

lemma bound_async: "eintr_bounded os bound \<Longrightarrow> bound (sh (async os s)) \<le> bound (sh s)"
  by (auto simp: eintr_bounded_def async_def handle_signal_def split_beta Let_def)

lemma retry_loop_returns:
  assumes drops: "eintr_drops bound call"
    and poll: "\<And>s. bound (sh (snd (poll s))) \<le> bound (sh s)"
  shows "\<exists>ret t. retry_loop poll call s = Some (ret, t)"
proof (induction "bound (sh s)" arbitrary: s rule: less_induct)
  case less
  obtain ret e y where call: "call (sh s) = ((ret, e), y)"
    by (cases "call (sh s)") auto
  let ?s1 = "s\<lparr>sh := y, errno := if ret < 0 then e else errno s\<rparr>"
  have step: "sys call s = (ret, ?s1)"
    by (simp add: sys_def call)
  show ?case
  proof (cases "ret < 0 \<and> errno ?s1 = EINTR")
    case True
    then have "bound y < bound (sh s)"
      using drops call by (auto simp: eintr_drops_def)
    moreover have "bound (sh (snd (poll ?s1))) \<le> bound y"
      using poll [of ?s1] by simp
    ultimately have "\<exists>r t. retry_loop poll call (snd (poll ?s1)) = Some (r, t)"
      using less by simp
    with True show ?thesis
      by (auto simp: retry_loop.simps [of poll call s] step Let_def split_beta)
  next
    case False
    then show ?thesis
      by (auto simp: retry_loop.simps [of poll call s] step Let_def)
  qed
qed

lemma bound_read_stop: "eintr_bounded os bound \<Longrightarrow> bound (sh (snd (read_stop os s))) \<le> bound (sh s)"
  by (simp add: read_stop_def bound_async Let_def)

lemma enter_loop_returns:
  assumes "eintr_bounded os bound"
  shows "\<exists>ret t. enter_loop os fd n m fl a s = Some (ret, t)"
  unfolding enter_loop_def
  by (rule retry_loop_returns [of bound])
     (use assms bound_read_stop [OF assms] in \<open>auto simp: eintr_bounded_def\<close>)

section \<open>queue_sqe\<close>

text \<open>
  The entry is zeroed and published before its fields are filled in; the result is its
  index, or nothing when the queue is full.
\<close>

definition queue_sqe :: "'k os \<Rightarrow> raw_ring \<Rightarrow> ('k, 'r) machine \<Rightarrow> u32 option \<times> ('k, 'r) machine" where
  "queue_sqe os ring s =
     (let (head, s1) = load_acquire os ring sq_head s;
          (tail, s2) = load_acquire os ring sq_tail s1;
          m = ring_at s2 (ring_fd ring)
      in if tail - head \<ge> sq_entries m then (None, s2)
         else (let index = tail AND sq_mask m;
                   s3 = upd_ring (ring_fd ring)
                          (\<lambda>m. m\<lparr>sqes := (sqes m)(index := zero_sqe),
                                 sq_array := (sq_array m)(index := index)\<rparr>) s2
               in (Some index, store_release ring sq_tail_update (tail + 1) s3)))"

text \<open>The assignments \<open>sqe->field = ..\<close> that follow.\<close>

definition fill_sqe :: "raw_ring \<Rightarrow> u32 \<Rightarrow> (sqe \<Rightarrow> sqe) \<Rightarrow> ('k, 'r) machine \<Rightarrow> ('k, 'r) machine" where
  "fill_sqe ring index f s =
     upd_ring (ring_fd ring) (\<lambda>m. m\<lparr>sqes := (sqes m)(index := f (sqes m index))\<rparr>) s"

text \<open>\<open>sqe = queue_sqe(ring); if (!sqe) return -1; sqe->.. = ..; return 0;\<close>\<close>

definition queue_with :: "'k os \<Rightarrow> raw_ring \<Rightarrow> (sqe \<Rightarrow> sqe) \<Rightarrow> ('k, 'r) machine
    \<Rightarrow> (int \<times> ('k, 'r) machine) option" where
  "queue_with os ring f s =
     (case queue_sqe os ring s of
        (None, s1) \<Rightarrow> Some (-1, s1)
      | (Some index, s1) \<Rightarrow> Some (0, fill_sqe ring index f s1))"

lemma queue_sqe_same [simp]: "same_process s (snd (queue_sqe os ring s))"
  by (simp add: queue_sqe_def same_process_def split_beta Let_def)

lemma fill_sqe_same [simp]: "same_process s (fill_sqe ring index f s)"
  by (simp add: fill_sqe_def)

lemma queue_with_wp: "wp (queue_with os ring f s) (\<lambda>rc t. same_process s t)"
proof -
  obtain idx s1 where q: "queue_sqe os ring s = (idx, s1)" by (cases "queue_sqe os ring s")
  have "same_process s s1" using queue_sqe_same [of s os ring] q by simp
  then show ?thesis
    by (auto simp: queue_with_def q split: option.split intro: same_process_trans [OF _ fill_sqe_same])
qed

section \<open>The submission queue\<close>

text \<open>
  Without SQPOLL the kernel touches the submission side of a ring only inside
  \<open>io_uring_enter\<close>: between two actions of the program it stays as it is.
\<close>

definition sq_private :: "'k os \<Rightarrow> int \<Rightarrow> bool" where
  "sq_private os fd \<longleftrightarrow>
     (\<forall>x. same_sq (sh_rings x fd) (sh_rings (snd (os_async os x)) fd))"

lemma async_same_sq:
  "sq_private os fd \<Longrightarrow> same_sq (ring_at s fd) (ring_at (async os s) fd)"
  by (simp add: sq_private_def async_def ring_at_def handle_signal_def split_beta Let_def)

text \<open>\<open>queue_with\<close> is the queue operation, when the entry does not depend on old contents.\<close>

lemma queue_with_enqueue:
  assumes priv: "sq_private os (ring_fd ring)"
  shows "\<exists>m rc t. queue_with os ring f s = Some (rc, t) \<and>
    same_sq (ring_at s (ring_fd ring)) m \<and>
    (case sq_enqueue (f zero_sqe) m of
       None \<Rightarrow> rc = -1 \<and> ring_at t (ring_fd ring) = m
     | Some m' \<Rightarrow> rc = 0 \<and> ring_at t (ring_fd ring) = m')"
proof -
  let ?sa = "async os s" and ?sb = "async os (async os s)"
  let ?ma = "ring_at s (ring_fd ring)" and ?mb = "ring_at ?sa (ring_fd ring)"
  let ?mc = "ring_at ?sb (ring_fd ring)"
  have a: "same_sq ?ma ?mb" and b: "same_sq ?mb ?mc"
    by (simp_all add: async_same_sq [OF priv])
  have same: "same_sq ?ma ?mc" using same_sq_trans [OF a b] .
  have eq: "sq_head ?mb = sq_head ?mc" using b by (simp add: same_sq_def)
  show ?thesis
    by (rule exI [of _ ?mc])
       (simp add: queue_with_def queue_sqe_def load_acquire_def store_release_def fill_sqe_def
          sq_enqueue_def same eq Let_def)
qed

lemma queue_with_room:
  assumes priv: "sq_private os (ring_fd ring)"
    and wf: "sq_wf (ring_at s (ring_fd ring))"
    and room: "sq_count (ring_at s (ring_fd ring)) < sq_capacity (ring_at s (ring_fd ring))"
  shows "\<exists>t. queue_with os ring f s = Some (0, t) \<and> same_process s t \<and>
    sq_pending (ring_at t (ring_fd ring)) = sq_pending (ring_at s (ring_fd ring)) @ [f zero_sqe] \<and>
    sq_capacity (ring_at t (ring_fd ring)) = sq_capacity (ring_at s (ring_fd ring)) \<and>
    sq_wf (ring_at t (ring_fd ring))"
proof -
  obtain m rc t where q: "queue_with os ring f s = Some (rc, t)"
    and m: "same_sq (ring_at s (ring_fd ring)) m"
    and r: "case sq_enqueue (f zero_sqe) m of
       None \<Rightarrow> rc = -1 \<and> ring_at t (ring_fd ring) = m
     | Some m' \<Rightarrow> rc = 0 \<and> ring_at t (ring_fd ring) = m'"
    using queue_with_enqueue [OF priv, of f s] by blast
  obtain m' where m': "sq_enqueue (f zero_sqe) m = Some m'"
      "sq_pending m' = sq_pending m @ [f zero_sqe]" "sq_capacity m' = sq_capacity m" "sq_wf m'"
    using sq_enqueue_room [of m "f zero_sqe"] wf room same_sq_facts [OF m] by auto
  have "same_process s t" using queue_with_wp [of os ring f s] q by simp
  with q r m' same_sq_facts [OF m] show ?thesis by simp
qed

lemma queue_with_full:
  assumes priv: "sq_private os (ring_fd ring)"
    and wf: "sq_wf (ring_at s (ring_fd ring))"
    and full: "sq_count (ring_at s (ring_fd ring)) = sq_capacity (ring_at s (ring_fd ring))"
  shows "\<exists>t. queue_with os ring f s = Some (-1, t) \<and> same_process s t \<and>
    sq_pending (ring_at t (ring_fd ring)) = sq_pending (ring_at s (ring_fd ring))"
proof -
  obtain m rc t where q: "queue_with os ring f s = Some (rc, t)"
    and m: "same_sq (ring_at s (ring_fd ring)) m"
    and r: "case sq_enqueue (f zero_sqe) m of
       None \<Rightarrow> rc = -1 \<and> ring_at t (ring_fd ring) = m
     | Some m' \<Rightarrow> rc = 0 \<and> ring_at t (ring_fd ring) = m'"
    using queue_with_enqueue [OF priv, of f s] by blast
  have "sq_enqueue (f zero_sqe) m = None"
    using wf full same_sq_facts [OF m] by (simp add: sq_enqueue_full)
  moreover have "same_process s t" using queue_with_wp [of os ring f s] q by simp
  ultimately show ?thesis using q r same_sq_facts [OF m] by simp
qed

text \<open>A loop that queues one entry per index.\<close>

lemma for_each_queue:
  assumes priv: "sq_private os (ring_fd ring)"
    and wf: "sq_wf (ring_at s (ring_fd ring))"
    and room: "sq_count (ring_at s (ring_fd ring)) + length js \<le> sq_capacity (ring_at s (ring_fd ring))"
  shows "\<exists>t. for_each (\<lambda>j. queue_with os ring (f j)) js s = Some (0, t) \<and> same_process s t \<and>
    sq_pending (ring_at t (ring_fd ring)) =
      sq_pending (ring_at s (ring_fd ring)) @ map (\<lambda>j. f j zero_sqe) js \<and>
    sq_capacity (ring_at t (ring_fd ring)) = sq_capacity (ring_at s (ring_fd ring)) \<and>
    sq_wf (ring_at t (ring_fd ring))"
  using wf room
proof (induction js arbitrary: s)
  case Nil
  then show ?case by simp
next
  case (Cons j js)
  obtain t where t: "queue_with os ring (f j) s = Some (0, t)" "same_process s t"
      "sq_pending (ring_at t (ring_fd ring)) = sq_pending (ring_at s (ring_fd ring)) @ [f j zero_sqe]"
      "sq_capacity (ring_at t (ring_fd ring)) = sq_capacity (ring_at s (ring_fd ring))"
      "sq_wf (ring_at t (ring_fd ring))"
    using queue_with_room [OF priv, of s "f j"] Cons.prems by auto
  have "sq_count (ring_at t (ring_fd ring)) = Suc (sq_count (ring_at s (ring_fd ring)))"
    using arg_cong [OF t(3), of length] by simp
  with Cons.prems t obtain u where u: "for_each (\<lambda>j. queue_with os ring (f j)) js t = Some (0, u)"
      "same_process t u"
      "sq_pending (ring_at u (ring_fd ring)) =
         sq_pending (ring_at t (ring_fd ring)) @ map (\<lambda>j. f j zero_sqe) js"
      "sq_capacity (ring_at u (ring_fd ring)) = sq_capacity (ring_at t (ring_fd ring))"
      "sq_wf (ring_at u (ring_fd ring))"
    using Cons.IH [of t] by auto
  with t show ?case by (auto intro: same_process_trans)
qed

text \<open>Such a loop fails when the entries do not all fit.\<close>

lemma for_each_queue_full:
  assumes priv: "sq_private os (ring_fd ring)"
    and wf: "sq_wf (ring_at s (ring_fd ring))"
    and over: "sq_capacity (ring_at s (ring_fd ring)) < sq_count (ring_at s (ring_fd ring)) + length js"
  shows "\<exists>t. for_each (\<lambda>j. queue_with os ring (f j)) js s = Some (-1, t)"
  using wf over
proof (induction js arbitrary: s)
  case Nil
  then show ?case by (simp add: sq_wf_def)
next
  case (Cons j js)
  show ?case
  proof (cases "sq_count (ring_at s (ring_fd ring)) = sq_capacity (ring_at s (ring_fd ring))")
    case True
    from queue_with_full [OF priv Cons.prems(1) this, of "f j"]
    obtain t where "queue_with os ring (f j) s = Some (-1, t)" by blast
    then show ?thesis by simp
  next
    case False
    with Cons.prems(1)
    have room: "sq_count (ring_at s (ring_fd ring)) < sq_capacity (ring_at s (ring_fd ring))"
      by (simp add: sq_wf_def)
    obtain t where t: "queue_with os ring (f j) s = Some (0, t)"
        "sq_pending (ring_at t (ring_fd ring)) = sq_pending (ring_at s (ring_fd ring)) @ [f j zero_sqe]"
        "sq_capacity (ring_at t (ring_fd ring)) = sq_capacity (ring_at s (ring_fd ring))"
        "sq_wf (ring_at t (ring_fd ring))"
      using queue_with_room [OF priv Cons.prems(1) room, of "f j"] by blast
    have "sq_count (ring_at t (ring_fd ring)) = Suc (sq_count (ring_at s (ring_fd ring)))"
      using arg_cong [OF t(2), of length] by simp
    with Cons.prems t obtain u where "for_each (\<lambda>j. queue_with os ring (f j)) js t = Some (-1, u)"
      using Cons.IH [of t] by auto
    with t(1) show ?thesis by auto
  qed
qed

end
