(* ===== verification/Exactly_Once.thy ===== *)
theory Exactly_Once
  imports Prelude Ring_Queue
begin

text \<open>
  The idea the completion checkers of all programs share, as two interfaces. A
  \<open>tally\<close> is a fold that raises an error count on exactly the entries that are not
  good; \<open>exactly_once\<close> adds the set of slots already claimed. Its main lemma:
  a fold that raised nothing and claimed every slot has consumed a permutation of the
  expected entries, and conversely. Also here: the \<open>uint64_t\<close> seen masks.
\<close>

section \<open>Seen masks\<close>

text \<open>\<open>mask |= UINT64_C(1) << index\<close>, \<open>mask & (UINT64_C(1) << index)\<close> and the full mask.\<close>

definition mark_seen :: "nat \<Rightarrow> u64 \<Rightarrow> u64" where
  "mark_seen index m = m OR push_bit index 1"

definition is_seen :: "nat \<Rightarrow> u64 \<Rightarrow> bool" where
  "is_seen index m \<longleftrightarrow> m AND push_bit index 1 \<noteq> 0"

definition full_mask :: "nat \<Rightarrow> u64" where
  "full_mask n = push_bit n 1 - 1"

definition seen_bits :: "u64 \<Rightarrow> nat set" where
  "seen_bits m = {i. bit m i}"

lemma is_seen_bit: "index < 64 \<Longrightarrow> is_seen index m \<longleftrightarrow> bit m index"
  using bit_eq_iff [of "m AND push_bit index 1" 0]
  by (auto simp: is_seen_def bit_simps)

lemma is_seen_seen_bits: "index < 64 \<Longrightarrow> is_seen index m \<longleftrightarrow> index \<in> seen_bits m"
  by (simp add: is_seen_bit seen_bits_def)

lemma seen_bits_zero [simp]: "seen_bits 0 = {}"
  by (simp add: seen_bits_def)

lemma seen_bits_mark: "index < 64 \<Longrightarrow> seen_bits (mark_seen index m) = insert index (seen_bits m)"
  by (auto simp: seen_bits_def mark_seen_def bit_simps)

lemma full_mask_mask: "full_mask n = mask n"
  by (simp add: full_mask_def mask_eq_exp_minus_1 push_bit_eq_mult)

lemma full_mask_iff: "n \<le> 64 \<Longrightarrow> m = full_mask n \<longleftrightarrow> seen_bits m = {..<n}"
proof
  assume "n \<le> 64" and "m = full_mask n"
  then show "seen_bits m = {..<n}"
    by (auto simp: seen_bits_def full_mask_mask bit_mask_iff)
next
  assume n: "n \<le> 64" and "seen_bits m = {..<n}"
  then have "bit m i \<longleftrightarrow> i < n" for i by (auto simp: seen_bits_def)
  with n show "m = full_mask n"
    by (auto simp: bit_eq_iff full_mask_mask bit_mask_iff)
qed

section \<open>First matching slot\<close>

text \<open>
  \<open>for (index = 0; ..; index++) if (match) { ..; break; }\<close>: whether some index matched,
  and the state after its branch. \<open>f\<close> is \<open>None\<close> where nothing matches.
\<close>

fun scan :: "('i \<Rightarrow> 's \<Rightarrow> 's option) \<Rightarrow> 'i list \<Rightarrow> 's \<Rightarrow> bool \<times> 's" where
  "scan f [] s = (False, s)"
| "scan f (i # is) s = (case f i s of Some t \<Rightarrow> (True, t) | None \<Rightarrow> scan f is s)"

lemma scan_none: "(\<And>i. i \<in> set is \<Longrightarrow> f i s = None) \<Longrightarrow> scan f is s = (False, s)"
  by (induction "is") auto

lemma scan_some:
  "i \<in> set is \<Longrightarrow> f i s = Some t \<Longrightarrow> (\<And>k. k \<in> set is \<Longrightarrow> k \<noteq> i \<Longrightarrow> f k s = None) \<Longrightarrow>
     scan f is s = (True, t)"
proof (induction "is")
  case Nil
  then show ?case by simp
next
  case (Cons k "is")
  show ?case
  proof (cases "k = i")
    case True
    with Cons.prems show ?thesis by simp
  next
    case False
    with Cons.prems have "f k s = None" by simp
    with False Cons show ?thesis by simp
  qed
qed

text \<open>Two kinds of slots with a mask each.\<close>

definition seen_pair :: "u64 \<Rightarrow> u64 \<Rightarrow> (bool \<times> nat) set" where
  "seen_pair p c = Pair False ` seen_bits p \<union> Pair True ` seen_bits c"

definition pair_slots :: "nat \<Rightarrow> (bool \<times> nat) list" where
  "pair_slots n = map (Pair False) [0..<n] @ map (Pair True) [0..<n]"

lemma set_pair_slots: "set (pair_slots n) = UNIV \<times> {..<n}"
  by (auto simp: pair_slots_def image_iff)

lemma distinct_pair_slots: "distinct (pair_slots n)"
  by (auto simp: pair_slots_def distinct_map inj_on_def)

lemma seen_pair_zero [simp]: "seen_pair 0 0 = {}"
  by (simp add: seen_pair_def)

lemma seen_pair_mem:
  "(False, i) \<in> seen_pair p c \<longleftrightarrow> i \<in> seen_bits p" "(True, i) \<in> seen_pair p c \<longleftrightarrow> i \<in> seen_bits c"
  by (auto simp: seen_pair_def)

lemma seen_pair_mark:
  "i < 64 \<Longrightarrow> seen_pair (mark_seen i p) c = insert (False, i) (seen_pair p c)"
  "i < 64 \<Longrightarrow> seen_pair p (mark_seen i c) = insert (True, i) (seen_pair p c)"
  by (auto simp: seen_pair_def seen_bits_mark)

lemma seen_pair_full:
  assumes "n \<le> 64"
  shows "seen_pair p c = set (pair_slots n) \<longleftrightarrow> p = full_mask n \<and> c = full_mask n"
proof -
  have "seen_pair p c = set (pair_slots n) \<longleftrightarrow> seen_bits p = {..<n} \<and> seen_bits c = {..<n}"
    unfolding set_pair_slots
  proof
    assume eq: "seen_pair p c = UNIV \<times> {..<n}"
    have "i \<in> seen_bits p \<longleftrightarrow> i < n" "i \<in> seen_bits c \<longleftrightarrow> i < n" for i
      using seen_pair_mem [of i p c] unfolding eq by simp_all
    then show "seen_bits p = {..<n} \<and> seen_bits c = {..<n}" by auto
  next
    assume "seen_bits p = {..<n} \<and> seen_bits c = {..<n}"
    then show "seen_pair p c = UNIV \<times> {..<n}"
      by (auto simp: seen_pair_def image_iff)
  qed
  with full_mask_iff [OF assms] show ?thesis by simp
qed

section \<open>Folds that count what is wrong\<close>

locale tally =
  fixes step :: "'x \<Rightarrow> 's \<Rightarrow> 's"
    and err :: "'s \<Rightarrow> nat"
    and good :: "'x \<Rightarrow> 's \<Rightarrow> bool"
    and K :: nat
  assumes err_step: "err s + K < 2 ^ 64 \<Longrightarrow> err s \<le> err (step x s) \<and> err (step x s) \<le> err s + K"
    and err_good: "err s + K < 2 ^ 64 \<Longrightarrow> err (step x s) = err s \<longleftrightarrow> good x s"
begin

fun goods :: "'x list \<Rightarrow> 's \<Rightarrow> bool" where
  "goods [] s \<longleftrightarrow> True"
| "goods (x # xs) s \<longleftrightarrow> good x s \<and> goods xs (step x s)"

lemma err_fold:
  "err s + K * length xs < 2 ^ 64 \<Longrightarrow>
     err s \<le> err (fold step xs s) \<and> err (fold step xs s) \<le> err s + K * length xs"
proof (induction xs arbitrary: s)
  case Nil
  then show ?case by simp
next
  case (Cons x xs)
  then have s: "err s + K < 2 ^ 64" by simp
  with err_step [OF s, of x] Cons.prems have "err (step x s) + K * length xs < 2 ^ 64" by simp
  with Cons.IH [of "step x s"] err_step [OF s, of x] show ?case by simp
qed

lemma err_fold_goods:
  "err s + K * length xs < 2 ^ 64 \<Longrightarrow> err (fold step xs s) = err s \<longleftrightarrow> goods xs s"
proof (induction xs arbitrary: s)
  case Nil
  then show ?case by simp
next
  case (Cons x xs)
  then have s: "err s + K < 2 ^ 64" by simp
  with err_step [OF s, of x] Cons.prems have b: "err (step x s) + K * length xs < 2 ^ 64" by simp
  have "err (fold step xs (step x s)) = err s \<longleftrightarrow>
      err (step x s) = err s \<and> err (fold step xs (step x s)) = err (step x s)"
    using err_fold [OF b] err_step [OF s, of x] by auto
  with Cons.IH [OF b] err_good [OF s, of x] show ?case by simp
qed

end

section \<open>Every slot claimed exactly once\<close>

text \<open>
  \<open>claims x = Some j\<close> when \<open>x\<close> is a fully correct entry for the slot \<open>j\<close>; such an
  entry is good while the slot is unclaimed.
\<close>

locale exactly_once = tally step err good K
  for step :: "'x \<Rightarrow> 's \<Rightarrow> 's" and err :: "'s \<Rightarrow> nat" and good :: "'x \<Rightarrow> 's \<Rightarrow> bool" and K :: nat +
  fixes seen :: "'s \<Rightarrow> 'j set"
    and claims :: "'x \<Rightarrow> 'j option"
    and slots :: "'j list"
  assumes slots_distinct: "distinct slots"
    and good_iff: "good x s \<longleftrightarrow> (\<exists>j \<in> set slots. claims x = Some j \<and> j \<notin> seen s)"
    and seen_step: "j \<in> set slots \<Longrightarrow> claims x = Some j \<Longrightarrow> j \<notin> seen s \<Longrightarrow>
      seen (step x s) = insert j (seen s)"
begin

lemma goods_claims:
  "goods xs s \<Longrightarrow>
     \<exists>js. map claims xs = map Some js \<and> distinct js \<and> set js \<subseteq> set slots \<and> set js \<inter> seen s = {} \<and>
          seen (fold step xs s) = seen s \<union> set js"
proof (induction xs arbitrary: s)
  case Nil
  then show ?case by simp
next
  case (Cons x xs)
  then have "good x s" and rest: "goods xs (step x s)" by simp_all
  then obtain j where j: "j \<in> set slots" "claims x = Some j" "j \<notin> seen s"
    using good_iff by blast
  note sj = seen_step [OF j]
  from Cons.IH [OF rest] obtain js where "map claims xs = map Some js" "distinct js"
      "set js \<subseteq> set slots" "set js \<inter> seen (step x s) = {}"
      "seen (fold step xs (step x s)) = seen (step x s) \<union> set js"
    by blast
  with j sj show ?case by (intro exI [of _ "j # js"]) auto
qed

lemma claims_goods:
  "map claims xs = map Some js \<Longrightarrow> distinct js \<Longrightarrow> set js \<subseteq> set slots \<Longrightarrow> set js \<inter> seen s = {} \<Longrightarrow>
     goods xs s \<and> seen (fold step xs s) = seen s \<union> set js"
proof (induction xs arbitrary: s js)
  case Nil
  then show ?case by simp
next
  case (Cons x xs)
  then obtain j js' where js: "js = j # js'" "claims x = Some j" "map claims xs = map Some js'"
    by (cases js) auto
  with Cons.prems have j: "j \<in> set slots" "j \<notin> seen s" by auto
  note sj = seen_step [OF j(1) js(2) j(2)]
  have "good x s" using good_iff j js(2) by blast
  moreover have "goods xs (step x s) \<and> seen (fold step xs (step x s)) = seen (step x s) \<union> set js'"
    using Cons.prems js sj by (intro Cons.IH) auto
  ultimately show ?case using sj js(1) by auto
qed

lemma permutation_claims:
  assumes "mset (map claims xs) = mset (map Some slots)"
  shows "\<exists>js. map claims xs = map Some js \<and> mset js = mset slots"
proof -
  have "set (map claims xs) = set (map Some slots)" by (rule mset_eq_setD [OF assms])
  then have "set (map claims xs) \<subseteq> range Some" by auto
  then have "map claims xs \<in> lists (range Some)" by (simp add: lists_eq_set)
  then obtain js where js: "map claims xs = map Some js"
    by (auto simp: lists_image)
  have "mset (map the (map claims xs)) = mset (map the (map Some slots))"
    unfolding mset_map using assms by (metis mset_map)
  with js have "mset js = mset slots" by (simp add: comp_def)
  with js show ?thesis by blast
qed

lemma accepts_iff:
  assumes bound: "err s + K * length xs < 2 ^ 64" and fresh: "seen s = {}"
  shows "err (fold step xs s) = err s \<and> seen (fold step xs s) = set slots \<longleftrightarrow>
         mset (map claims xs) = mset (map Some slots)"
proof
  assume acc: "err (fold step xs s) = err s \<and> seen (fold step xs s) = set slots"
  then have "goods xs s" using err_fold_goods [OF bound] by simp
  then obtain js where js: "map claims xs = map Some js" "distinct js" "seen (fold step xs s) = set js"
    using goods_claims [of xs s] fresh by auto
  with acc have "mset js = mset slots"
    using slots_distinct set_eq_iff_mset_eq_distinct by metis
  with js(1) show "mset (map claims xs) = mset (map Some slots)" by simp
next
  assume "mset (map claims xs) = mset (map Some slots)"
  then obtain js where js: "map claims xs = map Some js" "mset js = mset slots"
    using permutation_claims by blast
  have "distinct js" using js(2) slots_distinct mset_eq_imp_distinct_iff by blast
  moreover have "set js = set slots" using js(2) by (rule mset_eq_setD)
  ultimately have "goods xs s" and "seen (fold step xs s) = set slots"
    using claims_goods [of xs js s] fresh js(1) by auto
  with err_fold_goods [OF bound]
  show "err (fold step xs s) = err s \<and> seen (fold step xs s) = set slots" by simp
qed

text \<open>When nothing was counted only expected slots are seen, so looking at those is enough.\<close>

lemma covers_iff:
  assumes bound: "err s + K * length xs < 2 ^ 64" and fresh: "seen s = {}"
  shows "err (fold step xs s) = err s \<and> set slots \<subseteq> seen (fold step xs s) \<longleftrightarrow>
         mset (map claims xs) = mset (map Some slots)"
proof -
  have "seen (fold step xs s) \<subseteq> set slots" if "err (fold step xs s) = err s"
    using goods_claims [of xs s] err_fold_goods [OF bound] that fresh by auto
  then have "err (fold step xs s) = err s \<and> set slots \<subseteq> seen (fold step xs s) \<longleftrightarrow>
      err (fold step xs s) = err s \<and> seen (fold step xs s) = set slots" by blast
  then show ?thesis using accepts_iff [OF assms] by simp
qed

end

text \<open>
  Completion checkers as interfaces over a ring's completions. A checker looks at one
  completion at a time, finds the slot it belongs to, and counts an error for flags, for
  a slot seen before, for a wrong result and for a completion of no slot. Whatever its
  counters and its seen set are, it then accepts exactly the completions that fill every
  slot once with the wanted result.
\<close>

locale cqe_checker =
  fixes step :: "cqe \<Rightarrow> 's \<Rightarrow> 's"
    and err :: "'s \<Rightarrow> nat"
    and seen :: "'s \<Rightarrow> 'j set"
    and slot_of :: "cqe \<Rightarrow> 'j option"
    and want :: "'j \<Rightarrow> s32"
    and slots :: "'j list"
  assumes distinct_slots: "distinct slots"
    and slot_range: "slot_of c = Some j \<Longrightarrow> j \<in> set slots"
    and claim_err: "slot_of c = Some j \<Longrightarrow> err s + 4 < 2 ^ 64 \<Longrightarrow>
      err (step c s) = err s + of_bool (cqe_flags c \<noteq> 0) + of_bool (j \<in> seen s)
        + of_bool (cqe_res c \<noteq> want j)"
    and claim_seen: "slot_of c = Some j \<Longrightarrow> seen (step c s) = insert j (seen s)"
    and unknown_err: "slot_of c = None \<Longrightarrow> err s + 4 < 2 ^ 64 \<Longrightarrow>
      err s < err (step c s) \<and> err (step c s) \<le> err s + 4"
begin

definition fills :: "cqe \<Rightarrow> 'j option" where
  "fills c = (case slot_of c of
     None \<Rightarrow> None
   | Some j \<Rightarrow> if cqe_flags c = 0 \<and> cqe_res c = want j then Some j else None)"

definition good_cqe :: "cqe \<Rightarrow> 's \<Rightarrow> bool" where
  "good_cqe c s \<longleftrightarrow> (\<exists>j \<in> set slots. fills c = Some j \<and> j \<notin> seen s)"

lemma fills_Some:
  "fills c = Some j \<longleftrightarrow> slot_of c = Some j \<and> cqe_flags c = 0 \<and> cqe_res c = want j"
  by (auto simp: fills_def split: option.splits)

sublocale exactly_once step err good_cqe 4 seen fills slots
proof unfold_locales
  fix s c assume b: "err s + 4 < 2 ^ 64"
  show "err s \<le> err (step c s) \<and> err (step c s) \<le> err s + 4"
  proof (cases "slot_of c")
    case None
    with unknown_err [OF None b] show ?thesis by simp
  next
    case (Some j)
    show ?thesis unfolding claim_err [OF Some b] by simp
  qed
  show "err (step c s) = err s \<longleftrightarrow> good_cqe c s"
  proof (cases "slot_of c")
    case None
    with unknown_err [OF None b] show ?thesis by (simp add: good_cqe_def fills_def)
  next
    case (Some j)
    then show ?thesis
      unfolding claim_err [OF Some b] good_cqe_def fills_Some
      by (auto simp: slot_range)
  qed
qed (auto simp: distinct_slots good_cqe_def fills_Some claim_seen)

end

text \<open>The slot is named by the whole \<open>user_data\<close>: the completion is then determined.\<close>

locale tag_checker = cqe_checker step err seen slot_of want slots
  for step :: "cqe \<Rightarrow> 's \<Rightarrow> 's" and err :: "'s \<Rightarrow> nat" and seen :: "'s \<Rightarrow> 'j set"
    and slot_of :: "cqe \<Rightarrow> 'j option" and want :: "'j \<Rightarrow> s32" and slots :: "'j list" +
  fixes tag :: "'j \<Rightarrow> u64"
  assumes slot_of_tag: "j \<in> set slots \<Longrightarrow> slot_of c = Some j \<longleftrightarrow> cqe_user_data c = tag j"
begin

definition expected :: "'j \<Rightarrow> cqe" where
  "expected j = \<lparr>cqe_user_data = tag j, cqe_res = want j, cqe_flags = 0\<rparr>"

lemma fills_expected: "fills c = Some j \<longleftrightarrow> j \<in> set slots \<and> c = expected j"
proof -
  have "c = expected j \<longleftrightarrow> cqe_user_data c = tag j \<and> cqe_res c = want j \<and> cqe_flags c = 0"
    by (cases c) (auto simp: expected_def)
  then show ?thesis using slot_of_tag slot_range by (auto simp: fills_Some)
qed

lemma fills_permutation:
  "mset (map fills cs) = mset (map Some slots) \<longleftrightarrow> mset cs = mset (map expected slots)"
proof
  assume "mset (map fills cs) = mset (map Some slots)"
  then obtain js where js: "map fills cs = map Some js" "mset js = mset slots"
    using permutation_claims by blast
  have "cs = map expected js"
    by (rule nth_equalityI)
       (use js(1) in \<open>auto simp: list_eq_iff_nth_eq fills_expected\<close>)
  with js(2) show "mset cs = mset (map expected slots)" by simp
next
  assume eq: "mset cs = mset (map expected slots)"
  have "fills (expected j) = Some j" if "j \<in> set slots" for j
    using that by (simp add: fills_expected)
  then have "map fills (map expected slots) = map Some slots" by simp
  then show "mset (map fills cs) = mset (map Some slots)"
    using eq by (metis mset_map)
qed

theorem accepts_permutation:
  assumes "err s + 4 * length cs < 2 ^ 64" and "seen s = {}"
  shows "err (fold step cs s) = err s \<and> seen (fold step cs s) = set slots \<longleftrightarrow>
    mset cs = mset (map expected slots)"
  using accepts_iff [OF assms] fills_permutation by simp

end

text \<open>Which slot a tag names, by the loop over the slots.\<close>

definition find_tag :: "('j \<Rightarrow> u64) \<Rightarrow> 'j list \<Rightarrow> cqe \<Rightarrow> 'j option" where
  "find_tag tag slots c = List.find (\<lambda>j. cqe_user_data c = tag j) slots"

lemma find_tag_Some:
  assumes "inj_on tag (set slots)"
  shows "find_tag tag slots c = Some j \<longleftrightarrow> j \<in> set slots \<and> cqe_user_data c = tag j"
proof
  assume "find_tag tag slots c = Some j"
  then show "j \<in> set slots \<and> cqe_user_data c = tag j"
    by (auto simp: find_tag_def find_Some_iff)
next
  assume j: "j \<in> set slots \<and> cqe_user_data c = tag j"
  then obtain k where k: "find_tag tag slots c = Some k"
    by (cases "find_tag tag slots c") (auto simp: find_tag_def find_None_iff)
  then have "k \<in> set slots \<and> cqe_user_data c = tag k"
    by (auto simp: find_tag_def find_Some_iff)
  with j k assms show "find_tag tag slots c = Some j"
    by (auto dest: inj_onD)
qed

lemma find_tag_None:
  "find_tag tag slots c = None \<longleftrightarrow> (\<forall>j \<in> set slots. cqe_user_data c \<noteq> tag j)"
  by (simp add: find_tag_def find_None_iff Ball_def)

end
