(* ===== verification/Cancel_Base.thy ===== *)
theory Cancel_Base
  imports Exactly_Once
begin

text \<open>
  io_uring_cancel_round.c: its constants, enumerations, \<open>struct options\<close>,
  \<open>struct fixture\<close>, \<open>struct result\<close>, and the \<open>user_data\<close> tags.
\<close>

section \<open>Constants\<close>

definition SCHEMA_VERSION :: nat where "SCHEMA_VERSION = 1"
definition CONTRACT_CPU :: u32 where "CONTRACT_CPU = 2"
definition RING_ENTRIES :: u32 where "RING_ENTRIES = 256"
definition PENDING :: nat where [simp]: "PENDING = 32"
definition DECOYS :: nat where [simp]: "DECOYS = 8"
definition POINT_BATCHES :: u32 where "POINT_BATCHES = 64"
definition SMOKE_BATCHES :: u32 where "SMOKE_BATCHES = 1"
definition TRACE_BATCHES :: u32 where "TRACE_BATCHES = 4"
definition S0_POINT_CYCLES :: u32 where "S0_POINT_CYCLES = 512"
definition S0_SMOKE_CYCLES :: u32 where "S0_SMOKE_CYCLES = 8"
definition S0_TRACE_CYCLES :: u32 where "S0_TRACE_CYCLES = 32"
definition WARMUP_ROUNDS :: nat where "WARMUP_ROUNDS = 3"
definition MEASURED_ROUNDS :: nat where "MEASURED_ROUNDS = 15"
definition ENTER_TIMEOUT_SECONDS :: int where "ENTER_TIMEOUT_SECONDS = 2"
definition RELEASE_LIMIT_NS :: u64 where "RELEASE_LIMIT_NS = 2000000000"
definition INPUT_SHA256 :: string where
  "INPUT_SHA256 = ''69835c953fd54a06a3946e91dc04c7532d336bf07abeae87cbbc0e6f4e0b4860''"

definition KIND_POLL :: u64 where [simp]: "KIND_POLL = 1"
definition KIND_CANCEL :: u64 where [simp]: "KIND_CANCEL = 2"
definition KIND_DECOY :: u64 where [simp]: "KIND_DECOY = 3"
definition KIND_CLEANUP :: u64 where [simp]: "KIND_CLEANUP = 4"
definition KIND_BULK :: u64 where [simp]: "KIND_BULK = 5"
definition KIND_NEVER :: u64 where [simp]: "KIND_NEVER = 15"
definition KIND_SHIFT :: nat where [simp]: "KIND_SHIFT = 60"
definition PROFILE_SHIFT :: nat where [simp]: "PROFILE_SHIFT = 56"
definition ROUND_SHIFT :: nat where [simp]: "ROUND_SHIFT = 44"
definition BATCH_SHIFT :: nat where [simp]: "BATCH_SHIFT = 24"

section \<open>Types\<close>

datatype profile_id =
    PROFILE_UNSET
  | PROFILE_A0_HIT
  | PROFILE_A0_MISS
  | PROFILE_F0_FD_ALL
  | PROFILE_S0_SYNC
  | PROFILE_P0_PREP
  | PROFILE_R0_RELEASE

text \<open>The enumerator's value, as the tag uses it.\<close>

fun profile_value :: "profile_id \<Rightarrow> u64" where
  "profile_value PROFILE_UNSET = 0"
| "profile_value PROFILE_A0_HIT = 1"
| "profile_value PROFILE_A0_MISS = 2"
| "profile_value PROFILE_F0_FD_ALL = 3"
| "profile_value PROFILE_S0_SYNC = 4"
| "profile_value PROFILE_P0_PREP = 5"
| "profile_value PROFILE_R0_RELEASE = 6"

datatype mode_id =
    MODE_UNSET
  | MODE_DESCRIBE
  | MODE_SMOKE
  | MODE_TRACE
  | MODE_POINT

datatype phase_id =
    PHASE_SMOKE
  | PHASE_TRACE
  | PHASE_WARMUP
  | PHASE_MEASURED

record options =
  opt_profile :: profile_id
  opt_mode :: mode_id
  opt_output_path :: "string option"
  opt_execute :: bool

record fixture =
  fix_ring :: raw_ring
  fix_target_fd :: int
  fix_decoy_fd :: int

record result =
  batches :: u64
  attempts :: u64
  logical_cancels :: u64
  poll_submitted :: u64
  cancel_submitted :: u64
  cancel_ok :: u64
  cancel_enoent :: u64
  cancel_other :: u64
  original_cqes :: u64
  cancel_cqes :: u64
  decoy_cqes :: u64
  pending_proofs :: u64
  unexpected_cqes :: u64
  duplicate_cqes :: u64
  bad_results :: u64
  bad_flags :: u64
  eventfd_state_failures :: u64
  timeouts :: u64
  sq_dropped_total :: u64
  cq_overflow_total :: u64
  outstanding :: u64
  timed_ns :: u64
  semantic_pass :: bool

text \<open>\<open>memset(result, 0, sizeof(*result))\<close>\<close>

definition zero_result :: result where
  "zero_result = \<lparr>batches = 0, attempts = 0, logical_cancels = 0, poll_submitted = 0,
     cancel_submitted = 0, cancel_ok = 0, cancel_enoent = 0, cancel_other = 0,
     original_cqes = 0, cancel_cqes = 0, decoy_cqes = 0, pending_proofs = 0,
     unexpected_cqes = 0, duplicate_cqes = 0, bad_results = 0, bad_flags = 0,
     eventfd_state_failures = 0, timeouts = 0, sq_dropped_total = 0, cq_overflow_total = 0,
     outstanding = 0, timed_ns = 0, semantic_pass = False\<rparr>"

type_synonym 'k cancel_machine = "('k, result) machine"

section \<open>Tags\<close>

definition make_tag :: "u64 \<Rightarrow> profile_id \<Rightarrow> u32 \<Rightarrow> u32 \<Rightarrow> u32 \<Rightarrow> u64" where
  "make_tag kind profile round_nr batch index =
     push_bit KIND_SHIFT kind OR
     push_bit PROFILE_SHIFT (profile_value profile) OR
     push_bit ROUND_SHIFT (ucast (round_nr AND 0xfff)) OR
     push_bit BATCH_SHIFT (ucast (batch AND 0xfffff)) OR
     ucast index"

lemma bit_small_word:
  fixes w :: "'a::len word"
  assumes "w < 2 ^ k" and "bit w n" and "k < LENGTH('a)"
  shows "n < k"
proof -
  have "unat w < 2 ^ k"
    using assms(1,3) by (simp add: word_less_nat_alt unat_of_nat [of "2 ^ k", simplified])
  then have "take_bit k (unat w) = unat w" by (simp add: take_bit_nat_eq_self_iff)
  moreover have "bit (unat w) n" using assms(2) by (simp add: bit_unsigned_iff bit_imp_le_length)
  ultimately show ?thesis by (metis bit_take_bit_iff)
qed

lemma profile_value_small: "profile_value p < 2 ^ 4"
  by (cases p) simp_all

lemma low_bits_12: "x AND 0xfff = take_bit 12 (x :: u32)"
  by (simp add: take_bit_eq_mask mask_numeral)

lemma low_bits_20: "x AND 0xfffff = take_bit 20 (x :: u32)"
  by (simp add: take_bit_eq_mask mask_numeral)

text \<open>Each field of the tag comes back out.\<close>

lemma tag_kind_field:
  assumes "kind < 2 ^ 4"
  shows "drop_bit KIND_SHIFT (make_tag kind profile r b i) = kind"
proof (rule bit_word_eqI)
  fix n assume n: "n < LENGTH(64)"
  show "bit (drop_bit KIND_SHIFT (make_tag kind profile r b i)) n \<longleftrightarrow> bit kind n"
    using bit_small_word [OF assms, of n] bit_small_word [OF profile_value_small [of profile], of "4 + n"] n
    by (auto simp: make_tag_def bit_simps low_bits_12 low_bits_20 dest: bit_imp_le_length)
qed

lemma tag_index_field:
  assumes "i < 2 ^ 24"
  shows "take_bit BATCH_SHIFT (make_tag kind profile r b i) = ucast i"
proof (rule bit_word_eqI)
  fix n assume n: "n < LENGTH(64)"
  show "bit (take_bit BATCH_SHIFT (make_tag kind profile r b i)) n \<longleftrightarrow> bit (ucast i :: u64) n"
    using bit_small_word [OF assms, of n] n
    by (auto simp: make_tag_def bit_simps low_bits_12 low_bits_20 dest: bit_imp_le_length)
qed

lemma tag_batch_field:
  assumes "i < 2 ^ 24"
  shows "take_bit 20 (drop_bit BATCH_SHIFT (make_tag kind profile r b i)) = ucast (b AND 0xfffff)"
proof (rule bit_word_eqI)
  fix n assume n: "n < LENGTH(64)"
  show "bit (take_bit 20 (drop_bit BATCH_SHIFT (make_tag kind profile r b i))) n \<longleftrightarrow>
      bit (ucast (b AND 0xfffff) :: u64) n"
    using bit_small_word [OF assms, of "24 + n"] n
    by (auto simp: make_tag_def bit_simps low_bits_12 low_bits_20 dest: bit_imp_le_length)
qed

lemma tag_round_field:
  assumes "i < 2 ^ 24"
  shows "take_bit 12 (drop_bit ROUND_SHIFT (make_tag kind profile r b i)) = ucast (r AND 0xfff)"
proof (rule bit_word_eqI)
  fix n assume n: "n < LENGTH(64)"
  show "bit (take_bit 12 (drop_bit ROUND_SHIFT (make_tag kind profile r b i))) n \<longleftrightarrow>
      bit (ucast (r AND 0xfff) :: u64) n"
    using bit_small_word [OF assms, of "44 + n"] n
    by (auto simp: make_tag_def bit_simps low_bits_12 low_bits_20 dest: bit_imp_le_length)
qed

lemma tag_profile_field:
  assumes "i < 2 ^ 24"
  shows "take_bit 4 (drop_bit PROFILE_SHIFT (make_tag kind profile r b i)) = profile_value profile"
proof (rule bit_word_eqI)
  fix n assume n: "n < LENGTH(64)"
  show "bit (take_bit 4 (drop_bit PROFILE_SHIFT (make_tag kind profile r b i))) n \<longleftrightarrow>
      bit (profile_value profile) n"
    using bit_small_word [OF assms, of "56 + n"] bit_small_word [OF profile_value_small [of profile], of n] n
    by (auto simp: make_tag_def bit_simps low_bits_12 low_bits_20 dest: bit_imp_le_length)
qed

lemma profile_value_inject [simp]: "profile_value p = profile_value q \<longleftrightarrow> p = q"
  by (cases p; cases q) simp_all

lemma make_tag_inject:
  assumes "k < 2 ^ 4" "k' < 2 ^ 4" "i < 2 ^ 24" "i' < 2 ^ 24"
  shows "make_tag k p r b i = make_tag k' p' r' b' i' \<longleftrightarrow>
    k = k' \<and> p = p' \<and> r AND 0xfff = r' AND 0xfff \<and> b AND 0xfffff = b' AND 0xfffff \<and> i = i'"
proof
  assume eq: "make_tag k p r b i = make_tag k' p' r' b' i'"
  have "k = k'"
    using tag_kind_field [OF assms(1), of p r b i] tag_kind_field [OF assms(2), of p' r' b' i'] eq
    by simp
  moreover have "i = i'"
    using tag_index_field [OF assms(3), of k p r b] tag_index_field [OF assms(4), of k' p' r' b'] eq
    by simp
  moreover have "b AND 0xfffff = b' AND 0xfffff"
    using tag_batch_field [OF assms(3), of k p r b] tag_batch_field [OF assms(4), of k' p' r' b'] eq
    by simp
  moreover have "r AND 0xfff = r' AND 0xfff"
    using tag_round_field [OF assms(3), of k p r b] tag_round_field [OF assms(4), of k' p' r' b'] eq
    by simp
  moreover have "p = p'"
    using tag_profile_field [OF assms(3), of k p r b] tag_profile_field [OF assms(4), of k' p' r' b'] eq
    by simp
  ultimately show "k = k' \<and> p = p' \<and> r AND 0xfff = r' AND 0xfff \<and>
      b AND 0xfffff = b' AND 0xfffff \<and> i = i'" by blast
next
  assume "k = k' \<and> p = p' \<and> r AND 0xfff = r' AND 0xfff \<and> b AND 0xfffff = b' AND 0xfffff \<and> i = i'"
  then show "make_tag k p r b i = make_tag k' p' r' b' i'" by (simp add: make_tag_def)
qed

text \<open>The tags one batch uses: loop indices are small, kinds fit their four bits.\<close>

lemma index_small: "i < 2 ^ 24 \<Longrightarrow> (of_nat i :: u32) < 2 ^ 24"
  by (simp add: word_less_nat_alt unat_of_nat)

lemma batch_tag_inject:
  assumes "k < 16" "k' < 16" "i < 2 ^ 24" "j < 2 ^ 24"
  shows "make_tag k p r b (of_nat i) = make_tag k' p r b (of_nat j) \<longleftrightarrow> k = k' \<and> i = j"
  using assms make_tag_inject [of k k' "of_nat i" "of_nat j" p r b p r b]
    index_small [of i] index_small [of j] of_nat32_inject [of i j]
  by simp

end
