(* ===== verification/Cancel_Check.thy ===== *)
theory Cancel_Check
  imports Cancel_Base
begin

text \<open>
  io_uring_cancel_round.c: the loops that check the copied completions, in
  \<open>validate_keyed\<close>, \<open>validate_f0\<close>, \<open>cleanup_target\<close> and \<open>cleanup_decoys\<close>. For the
  first, second and fourth the verdict is 0 exactly when the completions are a
  permutation of the expected ones; \<open>cleanup_target\<close> only checks membership.
\<close>

section \<open>Error counters\<close>

definition observe_cqe_common :: "cqe \<Rightarrow> result \<Rightarrow> result" where
  "observe_cqe_common c r =
     (if cqe_flags c \<noteq> 0 then r\<lparr>bad_flags := bad_flags r + 1\<rparr> else r)"

definition count_duplicate :: "result \<Rightarrow> result" where
  "count_duplicate r = r\<lparr>duplicate_cqes := duplicate_cqes r + 1\<rparr>"

definition count_unexpected :: "result \<Rightarrow> result" where
  "count_unexpected r = r\<lparr>unexpected_cqes := unexpected_cqes r + 1\<rparr>"

definition count_bad_result :: "result \<Rightarrow> result" where
  "count_bad_result r = r\<lparr>bad_results := bad_results r + 1\<rparr>"

text \<open>\<open>return result->unexpected_cqes || .. ? -1 : 0\<close>\<close>

definition verdict :: "result \<Rightarrow> int" where
  "verdict r =
     (if unexpected_cqes r \<noteq> 0 \<or> duplicate_cqes r \<noteq> 0 \<or> bad_results r \<noteq> 0 \<or> bad_flags r \<noteq> 0
      then -1 else 0)"

definition err4 :: "result \<Rightarrow> nat" where
  "err4 r = unat (unexpected_cqes r) + unat (duplicate_cqes r) + unat (bad_results r)
     + unat (bad_flags r)"

lemma verdict_zero: "verdict r = 0 \<longleftrightarrow> err4 r = 0"
  by (simp add: verdict_def err4_def unat_eq_0)

lemma err4_zero_result [simp]: "err4 zero_result = 0"
  by (simp add: err4_def zero_result_def)

lemma err4_count [simp]:
  "err4 r + 1 < 2 ^ 64 \<Longrightarrow> err4 (count_duplicate r) = err4 r + 1"
  "err4 r + 1 < 2 ^ 64 \<Longrightarrow> err4 (count_unexpected r) = err4 r + 1"
  "err4 r + 1 < 2 ^ 64 \<Longrightarrow> err4 (count_bad_result r) = err4 r + 1"
  "err4 r + 1 < 2 ^ 64 \<Longrightarrow> err4 (observe_cqe_common c r) = err4 r + (if cqe_flags c \<noteq> 0 then 1 else 0)"
  by (simp_all add: err4_def count_duplicate_def count_unexpected_def count_bad_result_def
      observe_cqe_common_def unat_inc64)

lemma err4_other [simp]:
  "err4 (r\<lparr>original_cqes := x\<rparr>) = err4 r" "err4 (r\<lparr>cancel_cqes := x\<rparr>) = err4 r"
  "err4 (r\<lparr>decoy_cqes := x\<rparr>) = err4 r" "err4 (r\<lparr>cancel_ok := x\<rparr>) = err4 r"
  "err4 (r\<lparr>cancel_enoent := x\<rparr>) = err4 r" "err4 (r\<lparr>cancel_other := x\<rparr>) = err4 r"
  by (simp_all add: err4_def)

section \<open>validate_keyed\<close>

type_synonym keyed_state = "result \<times> u64 \<times> u64"

text \<open>The branch of a completion whose \<open>user_data\<close> is the poll tag of \<open>index\<close>.\<close>

definition claim_poll :: "cqe \<Rightarrow> nat \<Rightarrow> keyed_state \<Rightarrow> keyed_state" where
  "claim_poll c index st =
     (let (r, poll_seen, cancel_seen) = st;
          r1 = (if is_seen index poll_seen then count_duplicate r else r);
          r2 = r1\<lparr>original_cqes := original_cqes r1 + 1\<rparr>;
          r3 = (if cqe_res c \<noteq> neg_errno ECANCELED then count_bad_result r2 else r2)
      in (r3, mark_seen index poll_seen, cancel_seen))"

text \<open>The branch of a completion whose \<open>user_data\<close> is the cancel tag of \<open>index\<close>.\<close>

definition claim_cancel :: "bool \<Rightarrow> cqe \<Rightarrow> nat \<Rightarrow> keyed_state \<Rightarrow> keyed_state" where
  "claim_cancel miss c index st =
     (let (r, poll_seen, cancel_seen) = st;
          r1 = (if is_seen index cancel_seen then count_duplicate r else r);
          r2 = r1\<lparr>cancel_cqes := cancel_cqes r1 + 1\<rparr>;
          r3 = (if miss \<and> cqe_res c = neg_errno ENOENT
                then r2\<lparr>cancel_enoent := cancel_enoent r2 + 1\<rparr>
                else if \<not> miss \<and> cqe_res c = 0
                then r2\<lparr>cancel_ok := cancel_ok r2 + 1\<rparr>
                else count_bad_result (r2\<lparr>cancel_other := cancel_other r2 + 1\<rparr>))
      in (r3, poll_seen, mark_seen index cancel_seen))"

definition keyed_match :: "profile_id \<Rightarrow> u32 \<Rightarrow> u32 \<Rightarrow> bool \<Rightarrow> cqe \<Rightarrow> nat \<Rightarrow> keyed_state
    \<Rightarrow> keyed_state option" where
  "keyed_match profile round_nr batch miss c index st =
     (if \<not> miss \<and> cqe_user_data c = make_tag KIND_POLL profile round_nr batch (of_nat index)
      then Some (claim_poll c index st)
      else if cqe_user_data c = make_tag KIND_CANCEL profile round_nr batch (of_nat index)
      then Some (claim_cancel miss c index st)
      else None)"

definition keyed_step :: "profile_id \<Rightarrow> u32 \<Rightarrow> u32 \<Rightarrow> bool \<Rightarrow> cqe \<Rightarrow> keyed_state \<Rightarrow> keyed_state" where
  "keyed_step profile round_nr batch miss c st =
     (let (r, poll_seen, cancel_seen) = st;
          (found, r1, poll_seen1, cancel_seen1) =
            scan (keyed_match profile round_nr batch miss c) [0..<PENDING]
              (observe_cqe_common c r, poll_seen, cancel_seen)
      in (if found then r1 else count_unexpected r1, poll_seen1, cancel_seen1))"

definition validate_keyed :: "cqe list \<Rightarrow> profile_id \<Rightarrow> u32 \<Rightarrow> u32 \<Rightarrow> bool \<Rightarrow> result \<Rightarrow> int \<times> result" where
  "validate_keyed cs profile round_nr batch miss r =
     (let (r1, poll_seen, cancel_seen) = fold (keyed_step profile round_nr batch miss) cs (r, 0, 0);
          r2 = (if cancel_seen \<noteq> full_mask PENDING then count_unexpected r1 else r1);
          r3 = (if \<not> miss \<and> poll_seen \<noteq> full_mask PENDING then count_unexpected r2 else r2)
      in (verdict r3, r3))"

subsection \<open>The expected completions\<close>

definition keyed_tag :: "profile_id \<Rightarrow> u32 \<Rightarrow> u32 \<Rightarrow> bool \<times> nat \<Rightarrow> u64" where
  "keyed_tag profile round_nr batch j =
     make_tag (if fst j then KIND_CANCEL else KIND_POLL) profile round_nr batch (of_nat (snd j))"

definition hit_res :: "bool \<times> nat \<Rightarrow> s32" where
  "hit_res j = (if fst j then 0 else neg_errno ECANCELED)"

text \<open>
  A hit round's batch: every poll cancelled, every cancel request successful. A miss
  round's batch: every cancel request reports \<open>ENOENT\<close>.
\<close>

definition expected_hit :: "profile_id \<Rightarrow> u32 \<Rightarrow> u32 \<Rightarrow> cqe list" where
  "expected_hit profile round_nr batch =
     map (\<lambda>j. \<lparr>cqe_user_data = keyed_tag profile round_nr batch j, cqe_res = hit_res j, cqe_flags = 0\<rparr>)
       (pair_slots PENDING)"

definition expected_miss :: "profile_id \<Rightarrow> u32 \<Rightarrow> u32 \<Rightarrow> cqe list" where
  "expected_miss profile round_nr batch =
     map (\<lambda>i. \<lparr>cqe_user_data = keyed_tag profile round_nr batch (True, i),
               cqe_res = neg_errno ENOENT, cqe_flags = 0\<rparr>) [0..<PENDING]"

subsection \<open>One step of the check\<close>

lemma keyed_step_poll:
  assumes "i < 32" and "cqe_user_data c = keyed_tag p r b (False, i)"
  shows "keyed_step p r b False c (s, ps, cs) = claim_poll c i (observe_cqe_common c s, ps, cs)"
proof -
  have "scan (keyed_match p r b False c) [0..<PENDING] (observe_cqe_common c s, ps, cs)
      = (True, claim_poll c i (observe_cqe_common c s, ps, cs))"
    using assms by (intro scan_some [of i]) (auto simp: keyed_match_def keyed_tag_def batch_tag_inject)
  then show ?thesis by (simp add: keyed_step_def split: prod.split)
qed

lemma keyed_step_cancel:
  assumes "i < 32" and "cqe_user_data c = keyed_tag p r b (True, i)"
  shows "keyed_step p r b miss c (s, ps, cs) = claim_cancel miss c i (observe_cqe_common c s, ps, cs)"
proof -
  have "scan (keyed_match p r b miss c) [0..<PENDING] (observe_cqe_common c s, ps, cs)
      = (True, claim_cancel miss c i (observe_cqe_common c s, ps, cs))"
    using assms by (intro scan_some [of i]) (auto simp: keyed_match_def keyed_tag_def batch_tag_inject)
  then show ?thesis by (simp add: keyed_step_def split: prod.split)
qed

lemma keyed_step_unknown:
  assumes "\<And>i. i < 32 \<Longrightarrow> miss \<or> cqe_user_data c \<noteq> keyed_tag p r b (False, i)"
    and "\<And>i. i < 32 \<Longrightarrow> cqe_user_data c \<noteq> keyed_tag p r b (True, i)"
  shows "keyed_step p r b miss c (s, ps, cs) = (count_unexpected (observe_cqe_common c s), ps, cs)"
proof -
  have "scan (keyed_match p r b miss c) [0..<PENDING] (observe_cqe_common c s, ps, cs)
      = (False, observe_cqe_common c s, ps, cs)"
    using assms by (intro scan_none) (auto simp: keyed_match_def keyed_tag_def)
  then show ?thesis by (simp add: keyed_step_def)
qed

lemma claim_poll_err:
  assumes "err4 s + 4 < 2 ^ 64" and "i < 64"
  shows "err4 (fst (claim_poll c i (observe_cqe_common c s, ps, cs))) =
    err4 s + of_bool (cqe_flags c \<noteq> 0) + of_bool (i \<in> seen_bits ps)
           + of_bool (cqe_res c \<noteq> neg_errno ECANCELED)"
  using assms by (simp add: claim_poll_def Let_def is_seen_seen_bits)

lemma claim_cancel_err:
  assumes "err4 s + 4 < 2 ^ 64" and "i < 64"
  shows "err4 (fst (claim_cancel miss c i (observe_cqe_common c s, ps, cs))) =
    err4 s + of_bool (cqe_flags c \<noteq> 0) + of_bool (i \<in> seen_bits cs)
           + of_bool (cqe_res c \<noteq> (if miss then neg_errno ENOENT else 0))"
  using assms by (auto simp: claim_cancel_def Let_def is_seen_seen_bits)

lemma claim_seen [simp]:
  "snd (claim_poll c i (s, ps, cs)) = (mark_seen i ps, cs)"
  "snd (claim_cancel miss c i (s, ps, cs)) = (ps, mark_seen i cs)"
  by (simp_all add: claim_poll_def claim_cancel_def Let_def)

definition keyed_seen :: "keyed_state \<Rightarrow> (bool \<times> nat) set" where
  "keyed_seen st = seen_pair (fst (snd st)) (snd (snd st))"

definition cancel_seen_bits :: "keyed_state \<Rightarrow> nat set" where
  "cancel_seen_bits st = seen_bits (snd (snd st))"

lemma keyed_tag_inj: "inj_on (keyed_tag p r b) (set (pair_slots 32))"
proof (rule inj_onI)
  fix j j' assume "j \<in> set (pair_slots 32)" "j' \<in> set (pair_slots 32)"
    and eq: "keyed_tag p r b j = keyed_tag p r b j'"
  then have "snd j < 32" "snd j' < 32" by (auto simp: set_pair_slots)
  with eq show "j = j'"
    by (cases j; cases j') (auto simp: keyed_tag_def batch_tag_inject split: if_splits)
qed

lemma keyed_tag_miss_inj: "inj_on (\<lambda>i. keyed_tag p r b (True, i)) (set [0..<32])"
  using keyed_tag_inj [of p r b] by (auto simp: inj_on_def set_pair_slots)

lemma hit_step_err:
  assumes "j \<in> set (pair_slots 32)" "cqe_user_data c = keyed_tag p r b j" "err4 s + 4 < 2 ^ 64"
  shows "err4 (fst (keyed_step p r b False c (s, ps, cs))) = err4 s + of_bool (cqe_flags c \<noteq> 0)
      + of_bool (j \<in> keyed_seen (s, ps, cs)) + of_bool (cqe_res c \<noteq> hit_res j)"
proof -
  obtain k i where j: "j = (k, i)" "i < 32" using assms(1) by (auto simp: set_pair_slots)
  show ?thesis
    using assms j
    by (cases k) (simp_all add: keyed_step_poll keyed_step_cancel claim_poll_err claim_cancel_err
      keyed_seen_def seen_pair_mem hit_res_def)
qed

lemma hit_step_seen:
  assumes "j \<in> set (pair_slots 32)" "cqe_user_data c = keyed_tag p r b j"
  shows "keyed_seen (keyed_step p r b False c (s, ps, cs)) = insert j (keyed_seen (s, ps, cs))"
proof -
  obtain k i where j: "j = (k, i)" "i < 32" using assms(1) by (auto simp: set_pair_slots)
  show ?thesis
    using assms j
    by (cases k) (simp_all add: keyed_step_poll keyed_step_cancel keyed_seen_def seen_pair_mark)
qed

lemma keyed_step_unknown_err:
  assumes "\<forall>j \<in> set (pair_slots 32). cqe_user_data c \<noteq> keyed_tag p r b j" "err4 s + 4 < 2 ^ 64"
  shows "err4 s < err4 (fst (keyed_step p r b miss c (s, ps, cs))) \<and>
    err4 (fst (keyed_step p r b miss c (s, ps, cs))) \<le> err4 s + 4"
proof -
  have "keyed_step p r b miss c (s, ps, cs) = (count_unexpected (observe_cqe_common c s), ps, cs)"
    using assms(1) by (intro keyed_step_unknown) (auto simp: set_pair_slots)
  with assms(2) show ?thesis by simp
qed

interpretation hit: tag_checker "keyed_step p r b False" "\<lambda>st. err4 (fst st)" keyed_seen
  "find_tag (keyed_tag p r b) (pair_slots 32)" hit_res "pair_slots 32" "keyed_tag p r b"
  for p r b
proof unfold_locales
  fix st :: keyed_state and c
  obtain s ps cs where st: "st = (s, ps, cs)" by (cases st)
  note slot = find_tag_Some [OF keyed_tag_inj [of p r b]]
  show "err4 (fst (keyed_step p r b False c st)) = err4 (fst st) + of_bool (cqe_flags c \<noteq> 0)
      + of_bool (j \<in> keyed_seen st) + of_bool (cqe_res c \<noteq> hit_res j)"
    if "find_tag (keyed_tag p r b) (pair_slots 32) c = Some j" "err4 (fst st) + 4 < 2 ^ 64" for j
    using that hit_step_err by (simp add: slot st)
  show "keyed_seen (keyed_step p r b False c st) = insert j (keyed_seen st)"
    if "find_tag (keyed_tag p r b) (pair_slots 32) c = Some j" for j
    using that hit_step_seen by (simp add: slot st)
  show "err4 (fst st) < err4 (fst (keyed_step p r b False c st)) \<and>
      err4 (fst (keyed_step p r b False c st)) \<le> err4 (fst st) + 4"
    if "find_tag (keyed_tag p r b) (pair_slots 32) c = None" "err4 (fst st) + 4 < 2 ^ 64"
    using that keyed_step_unknown_err by (simp add: find_tag_None st)
qed (simp_all add: find_tag_Some [OF keyed_tag_inj] distinct_pair_slots)

lemma miss_step:
  assumes "i < 32" "cqe_user_data c = keyed_tag p r b (True, i)"
  shows "err4 s + 4 < 2 ^ 64 \<Longrightarrow> err4 (fst (keyed_step p r b True c (s, ps, cs))) =
      err4 s + of_bool (cqe_flags c \<noteq> 0) + of_bool (i \<in> cancel_seen_bits (s, ps, cs))
        + of_bool (cqe_res c \<noteq> neg_errno ENOENT)"
    and "cancel_seen_bits (keyed_step p r b True c (s, ps, cs)) =
      insert i (cancel_seen_bits (s, ps, cs))"
  using assms
  by (simp_all add: keyed_step_cancel claim_cancel_err cancel_seen_bits_def seen_bits_mark)

lemma miss_step_unknown_err:
  assumes "\<forall>i < 32. cqe_user_data c \<noteq> keyed_tag p r b (True, i)" "err4 s + 4 < 2 ^ 64"
  shows "err4 s < err4 (fst (keyed_step p r b True c (s, ps, cs))) \<and>
    err4 (fst (keyed_step p r b True c (s, ps, cs))) \<le> err4 s + 4"
proof -
  have "keyed_step p r b True c (s, ps, cs) = (count_unexpected (observe_cqe_common c s), ps, cs)"
    using assms(1) by (intro keyed_step_unknown) auto
  with assms(2) show ?thesis by simp
qed

interpretation miss: tag_checker "keyed_step p r b True" "\<lambda>st. err4 (fst st)" cancel_seen_bits
  "find_tag (\<lambda>i. keyed_tag p r b (True, i)) [0..<32]" "\<lambda>i. neg_errno ENOENT" "[0..<32]"
  "\<lambda>i. keyed_tag p r b (True, i)"
  for p r b
proof unfold_locales
  fix st :: keyed_state and c
  obtain s ps cs where st: "st = (s, ps, cs)" by (cases st)
  note slot = find_tag_Some [OF keyed_tag_miss_inj [of p r b]]
  show "err4 (fst (keyed_step p r b True c st)) = err4 (fst st) + of_bool (cqe_flags c \<noteq> 0)
      + of_bool (i \<in> cancel_seen_bits st) + of_bool (cqe_res c \<noteq> neg_errno ENOENT)"
    if "find_tag (\<lambda>i. keyed_tag p r b (True, i)) [0..<32] c = Some i" "err4 (fst st) + 4 < 2 ^ 64" for i
    using that miss_step(1) [of i c p r b s ps cs] by (simp add: slot st)
  show "cancel_seen_bits (keyed_step p r b True c st) = insert i (cancel_seen_bits st)"
    if "find_tag (\<lambda>i. keyed_tag p r b (True, i)) [0..<32] c = Some i" for i
    using that miss_step(2) [of i c p r b s ps cs] by (simp add: slot st)
  show "err4 (fst st) < err4 (fst (keyed_step p r b True c st)) \<and>
      err4 (fst (keyed_step p r b True c st)) \<le> err4 (fst st) + 4"
    if "find_tag (\<lambda>i. keyed_tag p r b (True, i)) [0..<32] c = None" "err4 (fst st) + 4 < 2 ^ 64"
    using that miss_step_unknown_err by (simp add: find_tag_None st)
qed (simp_all add: find_tag_Some [OF keyed_tag_miss_inj])

subsection \<open>The verdict\<close>

lemma expected_hit_eq: "map (hit.expected p r b) (pair_slots 32) = expected_hit p r b"
  by (simp add: expected_hit_def hit.expected_def)

lemma expected_miss_eq: "map (miss.expected p r b) [0..<32] = expected_miss p r b"
  by (simp add: expected_miss_def miss.expected_def)

text \<open>\<open>count\<close> is a 32-bit number, so the error counters cannot wrap.\<close>

lemma validate_keyed_hit:
  assumes "err4 r = 0" and "length cs < 2 ^ 32"
  shows "fst (validate_keyed cs p rn b False r) = 0 \<longleftrightarrow> mset cs = mset (expected_hit p rn b)"
proof -
  obtain s ps qs where f: "fold (keyed_step p rn b False) cs (r, 0, 0) = (s, ps, qs)"
    by (cases "fold (keyed_step p rn b False) cs (r, 0, 0)")
  have e: "err4 s \<le> 4 * length cs"
    using hit.err_fold [of "(r, 0, 0)" cs p rn b] assms by (simp add: f)
  then have "fst (validate_keyed cs p rn b False r) = 0 \<longleftrightarrow>
      err4 s = 0 \<and> ps = full_mask 32 \<and> qs = full_mask 32"
    using assms(2) by (auto simp: validate_keyed_def f verdict_zero Let_def)
  also have "\<dots> \<longleftrightarrow> mset cs = mset (expected_hit p rn b)"
    using hit.accepts_permutation [of "(r, 0, 0)" cs p rn b] assms
    by (simp add: f keyed_seen_def seen_pair_full expected_hit_eq)
  finally show ?thesis .
qed

lemma validate_keyed_miss:
  assumes "err4 r = 0" and "length cs < 2 ^ 32"
  shows "fst (validate_keyed cs p rn b True r) = 0 \<longleftrightarrow> mset cs = mset (expected_miss p rn b)"
proof -
  obtain s ps qs where f: "fold (keyed_step p rn b True) cs (r, 0, 0) = (s, ps, qs)"
    by (cases "fold (keyed_step p rn b True) cs (r, 0, 0)")
  have e: "err4 s \<le> 4 * length cs"
    using miss.err_fold [of "(r, 0, 0)" cs p rn b] assms by (simp add: f)
  then have "fst (validate_keyed cs p rn b True r) = 0 \<longleftrightarrow> err4 s = 0 \<and> qs = full_mask 32"
    using assms(2) by (auto simp: validate_keyed_def f verdict_zero Let_def)
  also have "\<dots> \<longleftrightarrow> mset cs = mset (expected_miss p rn b)"
    using miss.accepts_permutation [of "(r, 0, 0)" cs p rn b] assms
    by (simp add: f cancel_seen_bits_def full_mask_iff expected_miss_eq lessThan_atLeast0)
  finally show ?thesis .
qed

lemma validate_keyed_err: "fst (validate_keyed cs p rn b miss r) = 0 \<longleftrightarrow> err4 (snd (validate_keyed cs p rn b miss r)) = 0"
  by (simp add: validate_keyed_def Let_def verdict_zero split: prod.split)

end
