(* ===== verification/Cancel_Cleanup.thy ===== *)
theory Cancel_Cleanup
  imports Cancel_Check
begin

text \<open>
  io_uring_cancel_round.c: the checking loops of \<open>validate_f0\<close>, \<open>cleanup_decoys\<close> and
  \<open>cleanup_target\<close>. The first two accept exactly the permutations of the expected
  completions; the last accepts any completions that are each expected, repeated or not.
\<close>

section \<open>validate_f0\<close>

type_synonym f0_state = "result \<times> u64 \<times> bool"

definition claim_bulk :: "cqe \<Rightarrow> f0_state \<Rightarrow> f0_state" where
  "claim_bulk c st =
     (let (r, poll_seen, bulk_seen) = st;
          r1 = (if bulk_seen then count_duplicate r else r);
          r2 = r1\<lparr>cancel_cqes := cancel_cqes r1 + 1\<rparr>;
          r3 = (if cqe_res c = of_nat PENDING then r2\<lparr>cancel_ok := cancel_ok r2 + 1\<rparr>
                else count_bad_result (r2\<lparr>cancel_other := cancel_other r2 + 1\<rparr>))
      in (r3, poll_seen, True))"

definition claim_f0_poll :: "cqe \<Rightarrow> nat \<Rightarrow> f0_state \<Rightarrow> f0_state" where
  "claim_f0_poll c index st =
     (let (r, poll_seen, bulk_seen) = st;
          r1 = (if is_seen index poll_seen then count_duplicate r else r);
          r2 = r1\<lparr>original_cqes := original_cqes r1 + 1\<rparr>;
          r3 = (if cqe_res c \<noteq> neg_errno ECANCELED then count_bad_result r2 else r2)
      in (r3, mark_seen index poll_seen, bulk_seen))"

definition f0_match :: "u32 \<Rightarrow> u32 \<Rightarrow> cqe \<Rightarrow> nat \<Rightarrow> f0_state \<Rightarrow> f0_state option" where
  "f0_match round_nr batch c index st =
     (if cqe_user_data c = make_tag KIND_POLL PROFILE_F0_FD_ALL round_nr batch (of_nat index)
      then Some (claim_f0_poll c index st) else None)"

text \<open>The inner loop runs only while nothing has been found.\<close>

definition f0_step :: "u32 \<Rightarrow> u32 \<Rightarrow> cqe \<Rightarrow> f0_state \<Rightarrow> f0_state" where
  "f0_step round_nr batch c st =
     (let (r, poll_seen, bulk_seen) = st;
          st1 = (observe_cqe_common c r, poll_seen, bulk_seen);
          bulk = (cqe_user_data c = make_tag KIND_BULK PROFILE_F0_FD_ALL round_nr batch 0);
          st2 = (if bulk then claim_bulk c st1 else st1);
          (found, r3, poll_seen3, bulk_seen3) =
            (if bulk then (True, st2) else scan (f0_match round_nr batch c) [0..<PENDING] st2)
      in (if found then r3 else count_unexpected r3, poll_seen3, bulk_seen3))"

definition validate_f0 :: "cqe list \<Rightarrow> u32 \<Rightarrow> u32 \<Rightarrow> result \<Rightarrow> int \<times> result" where
  "validate_f0 cs round_nr batch r =
     (let (r1, poll_seen, bulk_seen) = fold (f0_step round_nr batch) cs (r, 0, False);
          r2 = (if \<not> bulk_seen \<or> poll_seen \<noteq> full_mask PENDING then count_unexpected r1 else r1)
      in (verdict r2, r2))"

text \<open>The bulk request is the slot \<open>None\<close>; it reports how many requests it cancelled.\<close>

definition f0_tag :: "u32 \<Rightarrow> u32 \<Rightarrow> nat option \<Rightarrow> u64" where
  "f0_tag round_nr batch j = (case j of
     None \<Rightarrow> make_tag KIND_BULK PROFILE_F0_FD_ALL round_nr batch 0
   | Some i \<Rightarrow> make_tag KIND_POLL PROFILE_F0_FD_ALL round_nr batch (of_nat i))"

definition f0_res :: "nat option \<Rightarrow> s32" where
  "f0_res j = (case j of None \<Rightarrow> of_nat PENDING | Some i \<Rightarrow> neg_errno ECANCELED)"

definition f0_slots :: "nat option list" where
  "f0_slots = None # map Some [0..<PENDING]"

definition f0_seen :: "f0_state \<Rightarrow> nat option set" where
  "f0_seen st = (if snd (snd st) then {None} else {}) \<union> Some ` seen_bits (fst (snd st))"

definition expected_f0 :: "u32 \<Rightarrow> u32 \<Rightarrow> cqe list" where
  "expected_f0 round_nr batch =
     map (\<lambda>j. \<lparr>cqe_user_data = f0_tag round_nr batch j, cqe_res = f0_res j, cqe_flags = 0\<rparr>) f0_slots"

lemma set_f0_slots: "set f0_slots = insert None (Some ` {..<32})"
  by (auto simp: f0_slots_def)

lemma bulk_tag_inject:
  "i < 2 ^ 24 \<Longrightarrow> make_tag 1 p r b (of_nat i) \<noteq> make_tag 5 p r b 0"
  using batch_tag_inject [of 1 5 i 0 p r b] by simp

lemma f0_tag_inj: "inj_on (f0_tag r b) (set f0_slots)"
proof (rule inj_onI)
  fix j j' assume "j \<in> set f0_slots" "j' \<in> set f0_slots" and eq: "f0_tag r b j = f0_tag r b j'"
  then have small: "\<And>i. j = Some i \<Longrightarrow> i < 2 ^ 24" "\<And>i. j' = Some i \<Longrightarrow> i < 2 ^ 24"
    by (auto simp: set_f0_slots)
  show "j = j'"
  proof (cases j; cases j')
    fix i k assume jk: "j = Some i" "j' = Some k"
    with eq small have "i = k" by (simp add: f0_tag_def batch_tag_inject)
    with jk show ?thesis by simp
  next
    fix i assume "j = Some i" "j' = None"
    with eq small(1) [of i] bulk_tag_inject [of i PROFILE_F0_FD_ALL r b] show ?thesis
      by (simp add: f0_tag_def)
  next
    fix i assume ji: "j = None" "j' = Some i"
    with eq have "make_tag 1 PROFILE_F0_FD_ALL r b (of_nat i) = make_tag 5 PROFILE_F0_FD_ALL r b 0"
      by (simp add: f0_tag_def)
    with ji small(2) [of i] bulk_tag_inject [of i PROFILE_F0_FD_ALL r b] show ?thesis by simp
  qed simp
qed

lemma f0_step_bulk:
  "cqe_user_data c = f0_tag r b None \<Longrightarrow>
     f0_step r b c (s, ps, bs) = claim_bulk c (observe_cqe_common c s, ps, bs)"
  by (simp add: f0_step_def f0_tag_def Let_def split: prod.split)

lemma f0_step_poll:
  assumes "i < 32" and "cqe_user_data c = f0_tag r b (Some i)"
  shows "f0_step r b c (s, ps, bs) = claim_f0_poll c i (observe_cqe_common c s, ps, bs)"
proof -
  have "scan (f0_match r b c) [0..<PENDING] (observe_cqe_common c s, ps, bs)
      = (True, claim_f0_poll c i (observe_cqe_common c s, ps, bs))"
    using assms by (intro scan_some [of i]) (auto simp: f0_match_def f0_tag_def batch_tag_inject)
  moreover have "cqe_user_data c \<noteq> make_tag KIND_BULK PROFILE_F0_FD_ALL r b 0"
    using assms bulk_tag_inject [of i PROFILE_F0_FD_ALL r b] by (simp add: f0_tag_def)
  ultimately show ?thesis by (simp add: f0_step_def Let_def split: prod.split)
qed

lemma f0_step_unknown:
  assumes "\<forall>j \<in> set f0_slots. cqe_user_data c \<noteq> f0_tag r b j"
  shows "f0_step r b c (s, ps, bs) = (count_unexpected (observe_cqe_common c s), ps, bs)"
proof -
  have "scan (f0_match r b c) [0..<PENDING] (observe_cqe_common c s, ps, bs)
      = (False, observe_cqe_common c s, ps, bs)"
    using assms by (intro scan_none) (auto simp: f0_match_def f0_tag_def set_f0_slots)
  moreover have "cqe_user_data c \<noteq> make_tag KIND_BULK PROFILE_F0_FD_ALL r b 0"
    using assms by (auto simp: f0_tag_def set_f0_slots)
  ultimately show ?thesis by (simp add: f0_step_def Let_def)
qed

lemma f0_step_err:
  assumes "j \<in> set f0_slots" "cqe_user_data c = f0_tag r b j" "err4 s + 4 < 2 ^ 64"
  shows "err4 (fst (f0_step r b c (s, ps, bs))) = err4 s + of_bool (cqe_flags c \<noteq> 0)
      + of_bool (j \<in> f0_seen (s, ps, bs)) + of_bool (cqe_res c \<noteq> f0_res j)"
proof (cases j)
  case None
  with assms show ?thesis
    by (auto simp: f0_step_bulk claim_bulk_def f0_seen_def f0_res_def Let_def)
next
  case (Some i)
  with assms have "i < 32" by (auto simp: set_f0_slots)
  with Some assms show ?thesis
    by (simp add: f0_step_poll claim_f0_poll_def f0_seen_def f0_res_def Let_def
        is_seen_seen_bits image_iff)
qed

lemma f0_step_seen:
  assumes "j \<in> set f0_slots" "cqe_user_data c = f0_tag r b j"
  shows "f0_seen (f0_step r b c (s, ps, bs)) = insert j (f0_seen (s, ps, bs))"
proof (cases j)
  case None
  with assms show ?thesis
    by (auto simp: f0_step_bulk claim_bulk_def f0_seen_def Let_def)
next
  case (Some i)
  with assms have "i < 32" by (auto simp: set_f0_slots)
  with Some assms show ?thesis
    by (auto simp: f0_step_poll claim_f0_poll_def f0_seen_def Let_def seen_bits_mark)
qed

interpretation f0: tag_checker "f0_step r b" "\<lambda>st. err4 (fst st)" f0_seen
  "find_tag (f0_tag r b) f0_slots" f0_res f0_slots "f0_tag r b"
  for r b
proof unfold_locales
  fix st :: f0_state and c
  obtain s ps bs where st: "st = (s, ps, bs)" by (cases st)
  note slot = find_tag_Some [OF f0_tag_inj [of r b]]
  show "err4 (fst (f0_step r b c st)) = err4 (fst st) + of_bool (cqe_flags c \<noteq> 0)
      + of_bool (j \<in> f0_seen st) + of_bool (cqe_res c \<noteq> f0_res j)"
    if "find_tag (f0_tag r b) f0_slots c = Some j" "err4 (fst st) + 4 < 2 ^ 64" for j
    using that f0_step_err by (simp add: slot st)
  show "f0_seen (f0_step r b c st) = insert j (f0_seen st)"
    if "find_tag (f0_tag r b) f0_slots c = Some j" for j
    using that f0_step_seen by (simp add: slot st)
  show "err4 (fst st) < err4 (fst (f0_step r b c st)) \<and> err4 (fst (f0_step r b c st)) \<le> err4 (fst st) + 4"
    if "find_tag (f0_tag r b) f0_slots c = None" "err4 (fst st) + 4 < 2 ^ 64"
    using that by (simp add: find_tag_None st f0_step_unknown)
  show "distinct f0_slots" by (simp add: f0_slots_def distinct_map)
qed (simp_all add: find_tag_Some [OF f0_tag_inj])

lemma f0_seen_full:
  "f0_seen (s, ps, bs) = set f0_slots \<longleftrightarrow> bs \<and> ps = full_mask 32"
proof -
  have "f0_seen (s, ps, bs) = set f0_slots \<longleftrightarrow> bs \<and> seen_bits ps = {..<32}"
    by (auto simp: f0_seen_def set_f0_slots split: if_splits)
  then show ?thesis by (simp add: full_mask_iff)
qed

lemma validate_f0_iff:
  assumes "err4 r = 0" and "length cs < 2 ^ 32"
  shows "fst (validate_f0 cs rn b r) = 0 \<longleftrightarrow> mset cs = mset (expected_f0 rn b)"
proof -
  obtain s ps bs where f: "fold (f0_step rn b) cs (r, 0, False) = (s, ps, bs)"
    by (cases "fold (f0_step rn b) cs (r, 0, False)")
  have e: "err4 s \<le> 4 * length cs"
    using f0.err_fold [of "(r, 0, False)" cs rn b] assms by (simp add: f)
  then have "fst (validate_f0 cs rn b r) = 0 \<longleftrightarrow> err4 s = 0 \<and> bs \<and> ps = full_mask 32"
    using assms(2) by (auto simp: validate_f0_def f verdict_zero Let_def)
  also have "\<dots> \<longleftrightarrow> mset cs = mset (map (f0.expected rn b) f0_slots)"
    using f0.accepts_permutation [of "(r, 0, False)" cs rn b] assms
    by (simp add: f f0_seen_full) (simp add: f0_seen_def)
  also have "map (f0.expected rn b) f0_slots = expected_f0 rn b"
    by (simp add: expected_f0_def f0.expected_def)
  finally show ?thesis .
qed

section \<open>cleanup_decoys\<close>

text \<open>
  The checking loop of \<open>cleanup_decoys\<close>; \<open>decoy_match\<close> is its inner loop body. The two
  branches use the masks \<open>decoy_seen\<close> and \<open>cancel_seen\<close>.
\<close>

definition claim_decoy :: "cqe \<Rightarrow> nat \<Rightarrow> keyed_state \<Rightarrow> keyed_state" where
  "claim_decoy c index st =
     (let (r, decoy_seen, cancel_seen) = st;
          r1 = (if is_seen index decoy_seen then count_duplicate r else r);
          r2 = r1\<lparr>decoy_cqes := decoy_cqes r1 + 1\<rparr>;
          r3 = (if cqe_res c \<noteq> neg_errno ECANCELED then count_bad_result r2 else r2)
      in (r3, mark_seen index decoy_seen, cancel_seen))"

definition claim_cleanup :: "cqe \<Rightarrow> nat \<Rightarrow> keyed_state \<Rightarrow> keyed_state" where
  "claim_cleanup c index st =
     (let (r, decoy_seen, cancel_seen) = st;
          r1 = (if is_seen index cancel_seen then count_duplicate r else r);
          r2 = r1\<lparr>cancel_cqes := cancel_cqes r1 + 1\<rparr>;
          r3 = (if cqe_res c \<noteq> 0 then count_bad_result r2 else r2)
      in (r3, decoy_seen, mark_seen index cancel_seen))"

definition decoy_match :: "u32 \<Rightarrow> u32 \<Rightarrow> cqe \<Rightarrow> nat \<Rightarrow> keyed_state \<Rightarrow> keyed_state option" where
  "decoy_match round_nr batch c index st =
     (if cqe_user_data c = make_tag KIND_DECOY PROFILE_F0_FD_ALL round_nr batch (of_nat index)
      then Some (claim_decoy c index st)
      else if cqe_user_data c = make_tag KIND_CLEANUP PROFILE_F0_FD_ALL round_nr batch (of_nat index)
      then Some (claim_cleanup c index st)
      else None)"

definition decoy_step :: "u32 \<Rightarrow> u32 \<Rightarrow> cqe \<Rightarrow> keyed_state \<Rightarrow> keyed_state" where
  "decoy_step round_nr batch c st =
     (let (r, decoy_seen, cancel_seen) = st;
          (found, r1, decoy_seen1, cancel_seen1) =
            scan (decoy_match round_nr batch c) [0..<DECOYS]
              (observe_cqe_common c r, decoy_seen, cancel_seen)
      in (if found then r1 else count_unexpected r1, decoy_seen1, cancel_seen1))"

definition check_decoys :: "cqe list \<Rightarrow> u32 \<Rightarrow> u32 \<Rightarrow> result \<Rightarrow> int \<times> result" where
  "check_decoys cs round_nr batch r =
     (let (r1, decoy_seen, cancel_seen) = fold (decoy_step round_nr batch) cs (r, 0, 0);
          r2 = (if decoy_seen \<noteq> full_mask DECOYS \<or> cancel_seen \<noteq> full_mask DECOYS
                then count_unexpected r1 else r1)
      in (verdict r2, r2))"

definition decoy_tag :: "u32 \<Rightarrow> u32 \<Rightarrow> bool \<times> nat \<Rightarrow> u64" where
  "decoy_tag round_nr batch j =
     make_tag (if fst j then KIND_CLEANUP else KIND_DECOY) PROFILE_F0_FD_ALL round_nr batch
       (of_nat (snd j))"

definition expected_decoys :: "u32 \<Rightarrow> u32 \<Rightarrow> cqe list" where
  "expected_decoys round_nr batch =
     map (\<lambda>j. \<lparr>cqe_user_data = decoy_tag round_nr batch j, cqe_res = hit_res j, cqe_flags = 0\<rparr>)
       (pair_slots DECOYS)"

lemma decoy_tag_inject:
  "snd j < 8 \<Longrightarrow> snd j' < 8 \<Longrightarrow> decoy_tag r b j = decoy_tag r b j' \<longleftrightarrow> j = j'"
  by (cases j; cases j') (auto simp: decoy_tag_def batch_tag_inject)

lemma decoy_tag_inj: "inj_on (decoy_tag r b) (set (pair_slots 8))"
  by (auto simp: inj_on_def set_pair_slots decoy_tag_inject)

lemma decoy_step_known:
  assumes "i < 8" and "cqe_user_data c = decoy_tag r b (k, i)"
  shows "decoy_step r b c (s, ps, cs) =
    (if k then claim_cleanup c i (observe_cqe_common c s, ps, cs)
     else claim_decoy c i (observe_cqe_common c s, ps, cs))"
proof -
  have "scan (decoy_match r b c) [0..<DECOYS] (observe_cqe_common c s, ps, cs) =
      (True, if k then claim_cleanup c i (observe_cqe_common c s, ps, cs)
        else claim_decoy c i (observe_cqe_common c s, ps, cs))"
    using assms
    by (intro scan_some [of i]) (auto simp: decoy_match_def decoy_tag_def batch_tag_inject)
  then show ?thesis by (simp add: decoy_step_def split: prod.split)
qed

lemma decoy_step_unknown:
  assumes "\<forall>j \<in> set (pair_slots 8). cqe_user_data c \<noteq> decoy_tag r b j"
  shows "decoy_step r b c (s, ps, cs) = (count_unexpected (observe_cqe_common c s), ps, cs)"
proof -
  have no: "cqe_user_data c \<noteq> decoy_tag r b (False, i)" "cqe_user_data c \<noteq> decoy_tag r b (True, i)" if "i < 8" for i
    using assms that by (auto simp: set_pair_slots simp del: split_paired_All)
  have "scan (decoy_match r b c) [0..<DECOYS] (observe_cqe_common c s, ps, cs)
      = (False, observe_cqe_common c s, ps, cs)"
    using no by (intro scan_none) (auto simp: decoy_match_def decoy_tag_def)
  then show ?thesis by (simp add: decoy_step_def)
qed

lemma decoy_step_err:
  assumes "j \<in> set (pair_slots 8)" "cqe_user_data c = decoy_tag r b j" "err4 s + 4 < 2 ^ 64"
  shows "err4 (fst (decoy_step r b c (s, ps, cs))) = err4 s + of_bool (cqe_flags c \<noteq> 0)
      + of_bool (j \<in> keyed_seen (s, ps, cs)) + of_bool (cqe_res c \<noteq> hit_res j)"
proof -
  obtain k i where j: "j = (k, i)" "i < 8" using assms(1) by (auto simp: set_pair_slots)
  with decoy_step_known [of i c r b k s ps cs] assms show ?thesis
    by (cases k) (simp_all add: claim_decoy_def claim_cleanup_def Let_def keyed_seen_def
        seen_pair_mem hit_res_def is_seen_seen_bits)
qed

lemma decoy_step_seen:
  assumes "j \<in> set (pair_slots 8)" "cqe_user_data c = decoy_tag r b j"
  shows "keyed_seen (decoy_step r b c (s, ps, cs)) = insert j (keyed_seen (s, ps, cs))"
proof -
  obtain k i where j: "j = (k, i)" "i < 8" using assms(1) by (auto simp: set_pair_slots)
  with decoy_step_known [of i c r b k s ps cs] assms show ?thesis
    by (cases k) (simp_all add: claim_decoy_def claim_cleanup_def Let_def keyed_seen_def
        seen_pair_mark)
qed

interpretation decoys: tag_checker "decoy_step r b" "\<lambda>st. err4 (fst st)" keyed_seen
  "find_tag (decoy_tag r b) (pair_slots 8)" hit_res "pair_slots 8" "decoy_tag r b"
  for r b
proof unfold_locales
  fix st :: keyed_state and c
  obtain s ps cs where st: "st = (s, ps, cs)" by (cases st)
  note slot = find_tag_Some [OF decoy_tag_inj [of r b]]
  show "err4 (fst (decoy_step r b c st)) = err4 (fst st) + of_bool (cqe_flags c \<noteq> 0)
      + of_bool (j \<in> keyed_seen st) + of_bool (cqe_res c \<noteq> hit_res j)"
    if "find_tag (decoy_tag r b) (pair_slots 8) c = Some j" "err4 (fst st) + 4 < 2 ^ 64" for j
    using that decoy_step_err by (simp add: slot st)
  show "keyed_seen (decoy_step r b c st) = insert j (keyed_seen st)"
    if "find_tag (decoy_tag r b) (pair_slots 8) c = Some j" for j
    using that decoy_step_seen by (simp add: slot st)
  show "err4 (fst st) < err4 (fst (decoy_step r b c st)) \<and>
      err4 (fst (decoy_step r b c st)) \<le> err4 (fst st) + 4"
    if "find_tag (decoy_tag r b) (pair_slots 8) c = None" "err4 (fst st) + 4 < 2 ^ 64"
    using that by (simp add: find_tag_None st decoy_step_unknown)
qed (simp_all add: find_tag_Some [OF decoy_tag_inj] distinct_pair_slots)

lemma check_decoys_iff:
  assumes "err4 r = 0" and "length cs < 2 ^ 32"
  shows "fst (check_decoys cs rn b r) = 0 \<longleftrightarrow> mset cs = mset (expected_decoys rn b)"
proof -
  obtain s ps qs where f: "fold (decoy_step rn b) cs (r, 0, 0) = (s, ps, qs)"
    by (cases "fold (decoy_step rn b) cs (r, 0, 0)")
  have e: "err4 s \<le> 4 * length cs"
    using decoys.err_fold [of "(r, 0, 0)" cs rn b] assms by (simp add: f)
  then have "fst (check_decoys cs rn b r) = 0 \<longleftrightarrow>
      err4 s = 0 \<and> ps = full_mask 8 \<and> qs = full_mask 8"
    using assms(2) by (auto simp: check_decoys_def f verdict_zero Let_def)
  also have "\<dots> \<longleftrightarrow> mset cs = mset (map (decoys.expected rn b) (pair_slots 8))"
    using decoys.accepts_permutation [of "(r, 0, 0)" cs rn b] assms
    by (simp add: f keyed_seen_def seen_pair_full)
  also have "map (decoys.expected rn b) (pair_slots 8) = expected_decoys rn b"
    by (simp add: expected_decoys_def decoys.expected_def)
  finally show ?thesis .
qed

section \<open>cleanup_target\<close>

text \<open>The checking loop of \<open>cleanup_target\<close> keeps no record of what it has seen.\<close>

definition tally_poll :: "cqe \<Rightarrow> result \<Rightarrow> result" where
  "tally_poll c r =
     (let r1 = r\<lparr>original_cqes := original_cqes r + 1\<rparr>
      in if cqe_res c \<noteq> neg_errno ECANCELED then count_bad_result r1 else r1)"

definition tally_cleanup :: "cqe \<Rightarrow> result \<Rightarrow> result" where
  "tally_cleanup c r =
     (let r1 = r\<lparr>cancel_cqes := cancel_cqes r + 1\<rparr>
      in if cqe_res c \<noteq> 0 then count_bad_result r1 else r1)"

definition target_match :: "profile_id \<Rightarrow> u32 \<Rightarrow> u32 \<Rightarrow> cqe \<Rightarrow> nat \<Rightarrow> result \<Rightarrow> result option" where
  "target_match profile round_nr batch c index r =
     (if cqe_user_data c = make_tag KIND_POLL profile round_nr batch (of_nat index)
      then Some (tally_poll c r)
      else if cqe_user_data c = make_tag KIND_CLEANUP profile round_nr batch (of_nat index)
      then Some (tally_cleanup c r)
      else None)"

definition target_step :: "profile_id \<Rightarrow> u32 \<Rightarrow> u32 \<Rightarrow> cqe \<Rightarrow> result \<Rightarrow> result" where
  "target_step profile round_nr batch c r =
     (let (found, r1) = scan (target_match profile round_nr batch c) [0..<PENDING]
                          (observe_cqe_common c r)
      in if found then r1 else count_unexpected r1)"

definition check_target :: "cqe list \<Rightarrow> profile_id \<Rightarrow> u32 \<Rightarrow> u32 \<Rightarrow> result \<Rightarrow> int \<times> result" where
  "check_target cs profile round_nr batch r =
     (let r1 = fold (target_step profile round_nr batch) cs r
      in (if unexpected_cqes r1 \<noteq> 0 \<or> bad_results r1 \<noteq> 0 \<or> bad_flags r1 \<noteq> 0 then -1 else 0, r1))"

definition target_tag :: "profile_id \<Rightarrow> u32 \<Rightarrow> u32 \<Rightarrow> bool \<times> nat \<Rightarrow> u64" where
  "target_tag profile round_nr batch j =
     make_tag (if fst j then KIND_CLEANUP else KIND_POLL) profile round_nr batch (of_nat (snd j))"

definition expected_target :: "profile_id \<Rightarrow> u32 \<Rightarrow> u32 \<Rightarrow> cqe list" where
  "expected_target profile round_nr batch =
     map (\<lambda>j. \<lparr>cqe_user_data = target_tag profile round_nr batch j, cqe_res = hit_res j, cqe_flags = 0\<rparr>)
       (pair_slots PENDING)"

lemma target_tag_inject:
  "snd j < 32 \<Longrightarrow> snd j' < 32 \<Longrightarrow> target_tag p r b j = target_tag p r b j' \<longleftrightarrow> j = j'"
  by (cases j; cases j') (auto simp: target_tag_def batch_tag_inject)

lemma target_step_known:
  assumes "i < 32" and "cqe_user_data c = target_tag p r b (k, i)"
  shows "target_step p r b c s =
    (if k then tally_cleanup c (observe_cqe_common c s) else tally_poll c (observe_cqe_common c s))"
proof -
  have "scan (target_match p r b c) [0..<PENDING] (observe_cqe_common c s) =
      (True, if k then tally_cleanup c (observe_cqe_common c s)
        else tally_poll c (observe_cqe_common c s))"
    using assms
    by (intro scan_some [of i]) (auto simp: target_match_def target_tag_def batch_tag_inject)
  then show ?thesis by (simp add: target_step_def)
qed

lemma target_step_unknown:
  assumes "\<forall>j \<in> set (pair_slots 32). cqe_user_data c \<noteq> target_tag p r b j"
  shows "target_step p r b c s = count_unexpected (observe_cqe_common c s)"
proof -
  have no: "cqe_user_data c \<noteq> target_tag p r b (False, i)" "cqe_user_data c \<noteq> target_tag p r b (True, i)" if "i < 32" for i
    using assms that by (auto simp: set_pair_slots simp del: split_paired_All)
  have "scan (target_match p r b c) [0..<PENDING] (observe_cqe_common c s)
      = (False, observe_cqe_common c s)"
    using no by (intro scan_none) (auto simp: target_match_def target_tag_def)
  then show ?thesis by (simp add: target_step_def)
qed

lemma expected_target_iff:
  "c \<in> set (expected_target p r b) \<longleftrightarrow>
     (\<exists>j \<in> set (pair_slots 32). cqe_user_data c = target_tag p r b j \<and> cqe_res c = hit_res j \<and> cqe_flags c = 0)"
  by (cases c) (auto simp: expected_target_def)

definition err3 :: "result \<Rightarrow> nat" where
  "err3 r = unat (unexpected_cqes r) + unat (bad_results r) + unat (bad_flags r)"

lemma err3_count [simp]:
  "err3 r + 1 < 2 ^ 64 \<Longrightarrow> err3 (count_unexpected r) = err3 r + 1"
  "err3 r + 1 < 2 ^ 64 \<Longrightarrow> err3 (count_bad_result r) = err3 r + 1"
  "err3 r + 1 < 2 ^ 64 \<Longrightarrow> err3 (observe_cqe_common c r) = err3 r + (if cqe_flags c \<noteq> 0 then 1 else 0)"
  "err3 (r\<lparr>original_cqes := x\<rparr>) = err3 r" "err3 (r\<lparr>cancel_cqes := x\<rparr>) = err3 r"
  by (simp_all add: err3_def count_unexpected_def count_bad_result_def observe_cqe_common_def
      unat_inc64)

lemma target_step_err3:
  assumes "err3 s + 2 < 2 ^ 64"
  shows "err3 s \<le> err3 (target_step p r b c s) \<and> err3 (target_step p r b c s) \<le> err3 s + 2 \<and>
    (err3 (target_step p r b c s) = err3 s \<longleftrightarrow> c \<in> set (expected_target p r b))"
proof (cases "\<exists>j \<in> set (pair_slots 32). cqe_user_data c = target_tag p r b j")
  case True
  then obtain k i where ki: "i < 32" "cqe_user_data c = target_tag p r b (k, i)"
    by (auto simp: set_pair_slots)
  have "c \<in> set (expected_target p r b) \<longleftrightarrow> cqe_res c = hit_res (k, i) \<and> cqe_flags c = 0"
    using ki target_tag_inject [of "(k, i)" _ p r b]
    by (auto simp: expected_target_iff set_pair_slots)
  moreover have "err3 (target_step p r b c s) =
      err3 s + of_bool (cqe_flags c \<noteq> 0) + of_bool (cqe_res c \<noteq> hit_res (k, i))"
    using target_step_known [OF ki, of s] assms
    by (cases k) (simp_all add: tally_poll_def tally_cleanup_def Let_def hit_res_def)
  ultimately show ?thesis by simp
next
  case False
  then have "c \<notin> set (expected_target p r b)" by (auto simp: expected_target_iff)
  with False assms show ?thesis by (simp add: target_step_unknown)
qed

interpretation target: tally "target_step p r b" err3 "\<lambda>c s. c \<in> set (expected_target p r b)" 2
  for p r b
  by unfold_locales (use target_step_err3 in auto)

lemma target_goods:
  "target.goods p r b cs s \<longleftrightarrow> set cs \<subseteq> set (expected_target p r b)"
  by (induction cs arbitrary: s) auto

lemma check_target_iff:
  assumes "err3 r = 0" and "length cs < 2 ^ 32"
  shows "fst (check_target cs p rn b r) = 0 \<longleftrightarrow> set cs \<subseteq> set (expected_target p rn b)"
proof -
  have "fst (check_target cs p rn b r) = 0 \<longleftrightarrow> err3 (fold (target_step p rn b) cs r) = 0"
    by (simp add: check_target_def err3_def unat_eq_0 Let_def)
  then show ?thesis
    using target.err_fold_goods [of r cs p rn b] assms by (simp add: target_goods)
qed

end
