(* ===== verification/Ring_Calls.thy ===== *)
theory Ring_Calls
  imports Ring_Queue "HOL-Library.Sublist"
begin

text \<open>
  The calls of a round: \<open>enter_ring\<close>, \<open>wait_and_copy\<close> and \<open>submit_and_copy\<close>, which
  the cancel and futex programs share up to the type of \<open>struct result\<close>, and the outer
  loop of a round, which stops early on a signal. The counters touched are parameters:
  \<open>tick\<close> is \<open>result->timeouts++\<close> and \<open>add d\<close> is \<open>result->unexpected_cqes += d\<close>.
\<close>

section \<open>enter_ring\<close>

definition enter_with :: "('r \<Rightarrow> 'r) \<Rightarrow> int \<Rightarrow> 'k os \<Rightarrow> raw_ring \<Rightarrow> u32 \<Rightarrow> u32 \<Rightarrow> ('k, 'r) machine
    \<Rightarrow> (int \<times> ('k, 'r) machine) option" where
  "enter_with tick seconds os ring to_submit min_complete s =
     (let flgs = (if min_complete \<noteq> 0 then IORING_ENTER_GETEVENTS OR IORING_ENTER_EXT_ARG else 0);
          arg = (if min_complete \<noteq> 0 then Some seconds else None)
      in do {
        (ret, s1) \<leftarrow> enter_loop os (ring_fd ring) to_submit min_complete flgs arg s;
        if ret < 0 then Some (-1, if errno s1 = ETIME then upd_res tick s1 else s1)
        else if to_submit \<noteq> 0 \<and> ret \<noteq> sint to_submit then Some (-1, s1)
        else Some (0, s1)
      })"

section \<open>wait_and_copy\<close>

text \<open>The entries \<open>ring->cqes[(head + i) & *ring->cq_mask]\<close> for \<open>i < n\<close>.\<close>

definition copy_cqes :: "raw_ring \<Rightarrow> u32 \<Rightarrow> u32 \<Rightarrow> ('k, 'r) machine \<Rightarrow> cqe list" where
  "copy_cqes ring head n s =
     (let m = ring_at s (ring_fd ring)
      in map (\<lambda>i. cqes m ((head + of_nat i) AND cq_mask m)) [0..<unat n])"

text \<open>
  The part after the wait: the completions available are copied when there are as many as
  expected, and dropped otherwise. The result pairs the return value with the array
  \<open>copy\<close>.
\<close>

definition reap_with :: "(u64 \<Rightarrow> 'r \<Rightarrow> 'r) \<Rightarrow> 'k os \<Rightarrow> raw_ring \<Rightarrow> u32 \<Rightarrow> ('k, 'r) machine
    \<Rightarrow> ((int \<times> cqe list) \<times> ('k, 'r) machine) option" where
  "reap_with add os ring expected s =
     (let (available, s1) = cq_available os ring s;
          (head, s2) = load_acquire os ring cq_head s1
      in if available \<noteq> expected
         then (let d = (if available > expected then available - expected else expected - available)
               in Some ((-1, []), store_release ring cq_head_update (head + available)
                                    (upd_res (add (ucast d)) s2)))
         else (let copy = copy_cqes ring head expected s2;
                   s3 = store_release ring cq_head_update (head + expected) s2
               in Some ((0, copy), s3\<lparr>reaped := reaped s3 @ [copy]\<rparr>)))"

definition wait_with :: "('r \<Rightarrow> 'r) \<Rightarrow> (u64 \<Rightarrow> 'r \<Rightarrow> 'r) \<Rightarrow> int \<Rightarrow> 'k os \<Rightarrow> raw_ring \<Rightarrow> u32
    \<Rightarrow> ('k, 'r) machine \<Rightarrow> ((int \<times> cqe list) \<times> ('k, 'r) machine) option" where
  "wait_with tick add seconds os ring expected s =
     (let (available, s1) = cq_available os ring s
      in do {
        (rc, s2) \<leftarrow> (if available < expected
                     then enter_with tick seconds os ring 0 (expected - available) s1
                     else Some (0, s1));
        if rc \<noteq> 0 then Some ((-1, []), s2) else reap_with add os ring expected s2
      })"

definition submit_with :: "('r \<Rightarrow> 'r) \<Rightarrow> (u64 \<Rightarrow> 'r \<Rightarrow> 'r) \<Rightarrow> int \<Rightarrow> 'k os \<Rightarrow> raw_ring \<Rightarrow> u32 \<Rightarrow> u32
    \<Rightarrow> ('k, 'r) machine \<Rightarrow> ((int \<times> cqe list) \<times> ('k, 'r) machine) option" where
  "submit_with tick add seconds os ring submitted expected s =
     do {
       (rc, s1) \<leftarrow> enter_with tick seconds os ring submitted expected s;
       if rc \<noteq> 0 then Some ((-1, []), s1)
       else wait_with tick add seconds os ring expected s1
     }"

section \<open>The loop of a round\<close>

text \<open>
  \<open>for (i = 0; i < n && !stop_requested; i++) if (body(i) != 0) return -1;\<close>
\<close>

fun round_loop :: "'k os \<Rightarrow> (nat \<Rightarrow> ('k, 'r) machine \<Rightarrow> (int \<times> ('k, 'r) machine) option) \<Rightarrow> nat list
    \<Rightarrow> ('k, 'r) machine \<Rightarrow> (int \<times> ('k, 'r) machine) option" where
  "round_loop os body [] s = Some (0, s)"
| "round_loop os body (i # is) s =
     (let (stop, s1) = read_stop os s
      in if stop then Some (0, s1)
         else do {
           (rc, s2) \<leftarrow> body i s1;
           if rc \<noteq> 0 then Some (-1, s2) else round_loop os body is s2
         })"

section \<open>Failing steps\<close>

text \<open>\<open>if (m != 0) return -1; k\<close>, where \<open>m\<close> may also deliver an array to \<open>k\<close>.\<close>

definition or_fail :: "(int \<times> 's) option \<Rightarrow> ('s \<Rightarrow> (int \<times> 's) option) \<Rightarrow> (int \<times> 's) option" where
  "or_fail m k = do { (rc, s) \<leftarrow> m; if rc \<noteq> 0 then Some (-1, s) else k s }"

definition or_fail_copy :: "((int \<times> 'a) \<times> 's) option \<Rightarrow> ('a \<Rightarrow> 's \<Rightarrow> (int \<times> 's) option)
    \<Rightarrow> (int \<times> 's) option" where
  "or_fail_copy m k = do { (a, s) \<leftarrow> m; if fst a \<noteq> 0 then Some (-1, s) else k (snd a) s }"

text \<open>\<open>return f(.., result)\<close> for a check \<open>f\<close> of what was copied.\<close>

definition check_res :: "('r \<Rightarrow> int \<times> 'r) \<Rightarrow> ('k, 'r) machine \<Rightarrow> int \<times> ('k, 'r) machine" where
  "check_res f s = (let (rc, r) = f (res s) in (rc, upd_res (\<lambda>_. r) s))"

section \<open>What these calls keep\<close>

text \<open>The mappings, the descriptors and the output.\<close>

definition same_resources :: "('k, 'r) machine \<Rightarrow> ('k, 'r) machine \<Rightarrow> bool" where
  "same_resources s t \<longleftrightarrow> vmas t = vmas s \<and> open_fds t = open_fds s \<and> out_lines t = out_lines s"

lemma same_resources_refl [simp]: "same_resources s s"
  by (simp add: same_resources_def)

lemma same_resources_trans: "same_resources s t \<Longrightarrow> same_resources t u \<Longrightarrow> same_resources s u"
  by (simp add: same_resources_def)

interpretation same_resources: frame same_resources
  by unfold_locales (auto intro: same_resources_trans)

lemma same_process_resources: "same_process s t \<Longrightarrow> same_resources s t"
  by (simp add: same_process_def same_resources_def)

lemma same_resources_ops [simp]:
  "same_resources s (upd_res f s)" "same_resources s (async os s)"
  "same_resources s (snd (read_stop os s))" "same_resources s (snd (ask g s))"
  "same_resources s (snd (sys h s))" "same_resources s (snd (cq_available os ring s))"
  "same_resources s (snd (ring_outstanding os ring s))"
  by (simp_all add: same_resources_def)

text \<open>The batches of completions copied between two states.\<close>

definition reaps :: "cqe list list \<Rightarrow> ('k, 'r) machine \<Rightarrow> ('k, 'r) machine \<Rightarrow> bool" where
  "reaps bs s t \<longleftrightarrow> reaped t = reaped s @ bs"

lemma reaps_refl [simp]: "reaps [] s s"
  by (simp add: reaps_def)

lemma reaps_trans: "reaps as s t \<Longrightarrow> reaps bs t u \<Longrightarrow> reaps (as @ bs) s u"
  by (simp add: reaps_def)

lemma reaps_same: "same_process s t \<Longrightarrow> reaps [] s t"
  by (simp add: reaps_def same_process_def)

lemma reaps_upd_res [simp]: "reaps [] s (upd_res f s)"
  by (simp add: reaps_def)

text \<open>
  Batches of completions that fall into one group per step of a loop, the group of step
  \<open>i\<close> satisfying \<open>ok i\<close>; and such batches being copied between two states.
\<close>

definition grouped :: "(nat \<Rightarrow> cqe list list \<Rightarrow> bool) \<Rightarrow> nat \<Rightarrow> cqe list list \<Rightarrow> bool" where
  "grouped ok n bs \<longleftrightarrow> (\<exists>gs. length gs = n \<and> bs = concat gs \<and> (\<forall>i < n. ok i (gs ! i)))"

definition logged :: "(nat \<Rightarrow> cqe list list \<Rightarrow> bool) \<Rightarrow> nat \<Rightarrow> ('k, 'r) machine \<Rightarrow> ('k, 'r) machine \<Rightarrow> bool" where
  "logged ok n s t \<longleftrightarrow> (\<exists>bs. reaps bs s t \<and> grouped ok n bs)"

lemma grouped_step:
  assumes "grouped ok n bs" and "ok n g"
  shows "grouped ok (Suc n) (bs @ g)"
proof -
  obtain gs where "length gs = n" "bs = concat gs" "\<forall>i < n. ok i (gs ! i)"
    using assms(1) by (auto simp: grouped_def)
  with assms show ?thesis
    unfolding grouped_def
    by (intro exI [of _ "gs @ [g]"]) (auto simp: nth_append less_Suc_eq)
qed

lemma logged_none [simp]: "logged ok 0 s t \<longleftrightarrow> reaps [] s t"
  by (simp add: logged_def grouped_def)

lemma logged_step: "logged ok n s t \<Longrightarrow> reaps g t u \<Longrightarrow> ok n g \<Longrightarrow> logged ok (Suc n) s u"
  unfolding logged_def by (blast intro: grouped_step reaps_trans)

lemma logged_quiet: "logged ok n s t \<Longrightarrow> reaps [] t u \<Longrightarrow> logged ok n s u"
  by (auto simp: logged_def reaps_def)

section \<open>Their specifications\<close>

lemma wp_case_prod_app [wp_simps]:
  "wp ((case p of (x, y) \<Rightarrow> f x y) s) Q = (case p of (x, y) \<Rightarrow> wp (f x y s) Q)"
  by (cases p) simp

lemma enter_with_wp:
  "wp (enter_with tick secs os ring n m s)
     (\<lambda>rc t. same_resources s t \<and> reaps [] s t \<and>
        (rc = 0 \<and> same_process s t \<or> rc = -1 \<and> (res t = res s \<or> res t = tick (res s))))"
  unfolding enter_with_def Let_def
  by (rule wp_bindI [OF enter_loop_wp])
     (auto simp: reaps_same same_process_resources same_resources_def reaps_def same_process_def)

lemma enter_with_zero:
  "wp (enter_with tick secs os ring n m s) (\<lambda>rc t. rc = 0 \<longrightarrow> same_process s t)"
proof (rule wp_mono [OF enter_with_wp])
  fix rc :: int and t
  assume "same_resources s t \<and> reaps [] s t \<and>
    (rc = 0 \<and> same_process s t \<or> rc = -1 \<and> (res t = res s \<or> res t = tick (res s)))"
  then show "rc = 0 \<longrightarrow> same_process s t" by (cases "rc = 0") simp_all
qed

lemma length_copy_cqes [simp]: "length (copy_cqes ring head n s) = unat n"
  by (simp add: copy_cqes_def Let_def)

definition copied :: "u32 \<Rightarrow> ('k, 'r) machine \<Rightarrow> int \<times> cqe list \<Rightarrow> ('k, 'r) machine \<Rightarrow> bool" where
  "copied expected s a t \<longleftrightarrow> same_resources s t \<and>
     (fst a = 0 \<longrightarrow> res t = res s \<and> reaps [snd a] s t \<and> length (snd a) = unat expected)"

lemma copied_after:
  "same_process s t \<Longrightarrow> copied n t a u \<Longrightarrow> copied n s a u"
  by (auto simp: copied_def same_resources_def reaps_def same_process_def)

lemma reap_with_wp: "wp (reap_with add os ring expected s) (copied expected s)"
proof -
  obtain av s3 where a: "cq_available os ring s = (av, s3)" by (cases "cq_available os ring s")
  obtain h s4 where h: "load_acquire os ring cq_head s3 = (h, s4)"
    by (cases "load_acquire os ring cq_head s3")
  have s3: "same_process s s3" using same_process_ops(8) [of s os ring] a by simp
  have s4: "same_process s3 s4" using same_process_ops(6) [of s3 os ring cq_head] h by simp
  note facts = same_process_D [OF s3] same_process_D [OF s4]
  show ?thesis
    using facts
    by (cases "av = expected")
       (simp_all add: a h reap_with_def Let_def copied_def same_resources_def reaps_def)
qed

lemma wait_with_wp: "wp (wait_with tick add secs os ring expected s) (copied expected s)"
proof -
  obtain av s1 where a: "cq_available os ring s = (av, s1)" by (cases "cq_available os ring s")
  have s1: "same_process s s1" using same_process_ops(8) [of s os ring] a by simp
  define m where "m = (if av < expected then enter_with tick secs os ring 0 (expected - av) s1
      else Some (0, s1))"
  have m: "wp m (\<lambda>rc t. same_resources s t \<and> (rc = 0 \<longrightarrow> same_process s t))"
    unfolding m_def wp_if wp_Some
    by (intro conjI impI wp_mono [OF enter_with_wp])
       (use s1 in \<open>auto intro: same_process_trans same_process_resources
          same_resources_trans [OF same_process_resources]\<close>)
  have "wp (if rc \<noteq> 0 then Some ((-1, []), t) else reap_with add os ring expected t)
      (copied expected s)"
    if "same_resources s t \<and> (rc = 0 \<longrightarrow> same_process s t)" for rc t
    using that reap_with_wp [of add os ring expected t] copied_after [of s t expected]
    by (cases "rc = 0") (auto simp: copied_def [of _ _ "(-1, [])"] elim: wp_mono)
  with m have "wp (do {(rc, t) \<leftarrow> m; if rc \<noteq> 0 then Some ((-1, []), t)
      else reap_with add os ring expected t}) (copied expected s)"
    by (rule wp_bindI)
  then show ?thesis by (simp add: wait_with_def a m_def)
qed

lemma submit_with_wp: "wp (submit_with tick add secs os ring n expected s) (copied expected s)"
  unfolding submit_with_def
proof (rule wp_bindI [OF enter_with_wp])
  fix rc :: int and t
  assume rc: "same_resources s t \<and> reaps [] s t \<and>
    (rc = 0 \<and> same_process s t \<or> rc = -1 \<and> (res t = res s \<or> res t = tick (res s)))"
  show "wp (if rc \<noteq> 0 then Some ((-1, []), t) else wait_with tick add secs os ring expected t)
      (copied expected s)"
  proof (cases "rc = 0")
    case True
    with rc have st: "same_process s t" by simp
    have "wp (wait_with tick add secs os ring expected t) (copied expected s)"
      using wait_with_wp by (rule wp_mono) (rule copied_after [OF st])
    with True show ?thesis by simp
  next
    case False
    with rc show ?thesis by (simp add: copied_def)
  qed
qed

text \<open>The loop either runs all its steps, or was told to stop.\<close>

lemma read_stop_stop: "read_stop os s = (True, t) \<Longrightarrow> stop_requested t"
  by (auto simp: read_stop_def Let_def)

text \<open>
  The outcome of a step: the resources are kept in any case, and on success \<open>P\<close> holds.
\<close>

definition outcome :: "(('k, 'r) machine \<Rightarrow> bool) \<Rightarrow> ('k, 'r) machine \<Rightarrow> int \<Rightarrow> ('k, 'r) machine \<Rightarrow> bool" where
  "outcome P s rc t \<longleftrightarrow> same_resources s t \<and> (rc = 0 \<longrightarrow> P t)"

lemma outcome_fail [simp]: "outcome P s (-1) t \<longleftrightarrow> same_resources s t"
  by (simp add: outcome_def)

lemma outcome_zero [simp]: "outcome P s 0 t \<longleftrightarrow> same_resources s t \<and> P t"
  by (simp add: outcome_def)

lemma outcome_or_fail:
  assumes "wp m (outcome P s)" and "\<And>t. P t \<Longrightarrow> wp (k t) (outcome Q t)"
  shows "wp (or_fail m k) (outcome Q s)"
  unfolding or_fail_def
proof (rule wp_bindI [OF assms(1)])
  fix rc t assume o: "outcome P s rc t"
  show "wp (if rc \<noteq> 0 then Some (-1, t) else k t) (outcome Q s)"
  proof (cases "rc = 0")
    case True
    with o have "P t" "same_resources s t" by simp_all
    with True assms(2) [of t] show ?thesis
      by (auto simp: outcome_def intro: same_resources_trans elim!: wp_mono)
  next
    case False
    with o show ?thesis by (simp add: outcome_def)
  qed
qed

lemma outcome_or_fail_copy:
  assumes "wp m (copied n s)"
    and "\<And>cs t. res t = res s \<Longrightarrow> reaps [cs] s t \<Longrightarrow> length cs = unat n \<Longrightarrow> wp (k cs t) (outcome Q t)"
  shows "wp (or_fail_copy m k) (outcome Q s)"
  unfolding or_fail_copy_def
proof (rule wp_bindI [OF assms(1)])
  fix a t assume c: "copied n s a t"
  show "wp (if fst a \<noteq> 0 then Some (-1, t) else k (snd a) t) (outcome Q s)"
  proof (cases "fst a = 0")
    case True
    with c have "wp (k (snd a) t) (outcome Q t)" "same_resources s t"
      using assms(2) by (simp_all add: copied_def)
    with True show ?thesis
      by (auto simp: outcome_def intro: same_resources_trans elim!: wp_mono)
  next
    case False
    with c show ?thesis by (simp add: copied_def)
  qed
qed

lemma outcome_bind:
  assumes "wp m (\<lambda>a t. same_process s t)" and "\<And>a t. same_process s t \<Longrightarrow> wp (f a t) (outcome Q t)"
  shows "wp (Option.bind m (\<lambda>(a, t). f a t)) (outcome Q s)"
  using assms(1)
proof (rule wp_bindI)
  fix a t assume t: "same_process s t"
  with assms(2) [OF t, of a] show "wp (f a t) (outcome Q s)"
    by (auto simp: outcome_def intro: same_resources_trans [OF same_process_resources] elim!: wp_mono)
qed

lemma outcome_mono: "wp m (outcome P s) \<Longrightarrow> (\<And>t. P t \<Longrightarrow> Q t) \<Longrightarrow> wp m (outcome Q s)"
  by (auto simp: outcome_def elim!: wp_mono)

lemma outcome_rebase: "same_resources s t \<Longrightarrow> wp m (outcome Q t) \<Longrightarrow> wp m (outcome Q s)"
  by (auto simp: outcome_def intro: same_resources_trans elim!: wp_mono)

lemma outcome_queue: "wp (queue_with os ring f s) (outcome (same_process s) s)"
  by (rule wp_mono [OF queue_with_wp]) (simp add: outcome_def same_process_resources)

lemma outcome_for_each_same:
  assumes "\<And>i s. wp (f i s) (\<lambda>rc t. same_process s t)"
  shows "wp (for_each f is s) (outcome (same_process s) s)"
  by (rule wp_mono [OF same_process.for_each_frame [OF assms]])
     (simp add: outcome_def same_process_resources)

lemma outcome_enter: "wp (enter_with tick secs os ring n m s) (outcome (same_process s) s)"
  by (rule wp_mono [OF wp_conj [OF enter_with_wp enter_with_zero]]) (simp add: outcome_def)

lemma now_if_same: "wp (now_if timed os s) (\<lambda>a t. same_process s t)"
proof -
  have "wp (now_ns os s) (\<lambda>a t. same_process s t)"
    unfolding now_ns_wp by (metis same_process_ops(2) snd_conv)
  then show ?thesis by (simp add: now_if_def)
qed

lemma outcome_round_loop:
  assumes body: "\<And>i s. m \<le> i \<Longrightarrow> i < n \<Longrightarrow> P i s \<Longrightarrow> wp (body i s) (outcome (P (Suc i)) s)"
    and stable: "\<And>i s t. P i s \<Longrightarrow> same_process s t \<Longrightarrow> P i t"
    and start: "P m s" "m \<le> n"
  shows "wp (round_loop os body [m..<n] s) (outcome (\<lambda>t. stop_requested t \<or> P n t) s)"
  using start body
proof (induction "n - m" arbitrary: m s)
  case 0
  then show ?case by simp
next
  case (Suc k)
  then have mn: "m < n" by simp
  obtain stop s1 where r: "read_stop os s = (stop, s1)" by (cases "read_stop os s")
  have s1: "same_process s s1" using same_process_ops(4) [of s os] r by simp
  show ?case
  proof (cases stop)
    case True
    with r mn s1 show ?thesis by (simp add: upt_conv_Cons read_stop_stop same_process_resources)
  next
    case False
    have "wp (or_fail (body m s1) (round_loop os body [Suc m..<n]))
        (outcome (\<lambda>t. stop_requested t \<or> P n t) s1)"
    proof (rule outcome_or_fail)
      show "wp (body m s1) (outcome (P (Suc m)) s1)"
        using Suc.prems stable [OF _ s1] mn by blast
      show "wp (round_loop os body [Suc m..<n] t) (outcome (\<lambda>t. stop_requested t \<or> P n t) t)"
        if "P (Suc m) t" for t
        using Suc that mn by auto
    qed
    with False r mn outcome_rebase [OF same_process_resources [OF s1]] show ?thesis
      by (simp add: upt_conv_Cons or_fail_def)
  qed
qed

lemma outcome_for_each:
  assumes body: "\<And>i s. m \<le> i \<Longrightarrow> i < n \<Longrightarrow> P i s \<Longrightarrow> wp (f i s) (outcome (P (Suc i)) s)"
    and start: "P m s" "m \<le> n"
  shows "wp (for_each f [m..<n] s) (outcome (P n) s)"
  using start body
proof (induction "n - m" arbitrary: m s)
  case 0
  then show ?case by simp
next
  case (Suc k)
  then have mn: "m < n" by simp
  have "wp (or_fail (f m s) (for_each f [Suc m..<n])) (outcome (P n) s)"
  proof (rule outcome_or_fail)
    show "wp (f m s) (outcome (P (Suc m)) s)" using Suc.prems mn by blast
    show "wp (for_each f [Suc m..<n] t) (outcome (P n) t)" if "P (Suc m) t" for t
      using Suc that mn by auto
  qed
  with mn show ?case by (simp add: upt_conv_Cons or_fail_def)
qed

lemma wp_for_each:
  assumes body: "\<And>i s. m \<le> i \<Longrightarrow> i < n \<Longrightarrow> P i s \<Longrightarrow> wp (f i s) (\<lambda>rc t. rc = 0 \<longrightarrow> P (Suc i) t)"
    and start: "P m s" "m \<le> n"
  shows "wp (for_each f [m..<n] s) (\<lambda>rc t. rc = 0 \<longrightarrow> P n t)"
  using start body
proof (induction "n - m" arbitrary: m s)
  case 0
  then show ?case by simp
next
  case (Suc k)
  then have mn: "m < n" by simp
  have "wp (if rc \<noteq> 0 then Some (-1, t) else for_each f [Suc m..<n] t) (\<lambda>rc t. rc = 0 \<longrightarrow> P n t)"
    if "rc = 0 \<longrightarrow> P (Suc m) t" for rc t
    using that Suc mn by (cases "rc = 0") auto
  moreover have "wp (f m s) (\<lambda>rc t. rc = 0 \<longrightarrow> P (Suc m) t)"
    using Suc.prems mn by blast
  ultimately have "wp (do {(rc, t) \<leftarrow> f m s; if rc \<noteq> 0 then Some (-1, t) else for_each f [Suc m..<n] t})
      (\<lambda>rc t. rc = 0 \<longrightarrow> P n t)"
    by (rule wp_bindI [rotated])
  with mn show ?case by (simp add: upt_conv_Cons)
qed

lemma wp_or_fail:
  assumes "wp m (\<lambda>rc t. rc = 0 \<longrightarrow> P t)" and "\<And>t. P t \<Longrightarrow> wp (k t) (\<lambda>rc u. rc = 0 \<longrightarrow> Q u)"
  shows "wp (or_fail m k) (\<lambda>rc u. rc = 0 \<longrightarrow> Q u)"
  unfolding or_fail_def by (rule wp_bindI [OF assms(1)]) (use assms(2) in auto)

section \<open>They come back\<close>

definition returns :: "'a option \<Rightarrow> bool" where
  "returns m \<longleftrightarrow> m \<noteq> None"

named_theorems returns_intro \<open>introduction rules for computations that come back\<close>

lemma returns_Some [returns_intro, simp]: "returns (Some x)"
  by (simp add: returns_def)

lemma returns_bind [returns_intro]:
  "returns m \<Longrightarrow> (\<And>a s. returns (f a s)) \<Longrightarrow> returns (Option.bind m (\<lambda>(a, s). f a s))"
  by (cases m) (auto simp: returns_def)

lemma returns_if [returns_intro]: "(b \<Longrightarrow> returns m) \<Longrightarrow> (\<not> b \<Longrightarrow> returns m') \<Longrightarrow> returns (if b then m else m')"
  by simp

lemma returns_case_prod [returns_intro]:
  "(\<And>x y. p = (x, y) \<Longrightarrow> returns (f x y)) \<Longrightarrow> returns (case p of (x, y) \<Rightarrow> f x y)"
  by (cases p) simp

lemma returns_case_prod_app [returns_intro]:
  "(\<And>x y. p = (x, y) \<Longrightarrow> returns (f x y s)) \<Longrightarrow> returns ((case p of (x, y) \<Rightarrow> f x y) s)"
  by (cases p) simp

lemma returns_Let [returns_intro]: "(\<And>x. returns (f x)) \<Longrightarrow> returns (let x = e in f x)"
  by simp

lemma returns_for_each [returns_intro]:
  "(\<And>i s. returns (f i s)) \<Longrightarrow> returns (for_each f is s)"
  by (induction "is" arbitrary: s) (auto intro!: returns_intro)

lemma returns_or_fail [returns_intro]:
  "returns m \<Longrightarrow> (\<And>s. returns (k s)) \<Longrightarrow> returns (or_fail m k)"
  unfolding or_fail_def by (auto intro!: returns_intro)

lemma returns_or_fail_copy [returns_intro]:
  "returns m \<Longrightarrow> (\<And>a s. returns (k a s)) \<Longrightarrow> returns (or_fail_copy m k)"
  unfolding or_fail_copy_def by (auto intro!: returns_intro)

lemma returns_queue_with [returns_intro]: "returns (queue_with os ring f s)"
  by (auto simp: queue_with_def split: prod.split option.split)

text \<open>Documented: \<open>CLOCK_MONOTONIC_RAW\<close> can be read.\<close>

definition clock_ok :: "'k os \<Rightarrow> bool" where
  "clock_ok os \<longleftrightarrow> (\<forall>x. fst (os_clock os x) \<noteq> None)"

lemma returns_now_ns: "clock_ok os \<Longrightarrow> returns (now_ns os s)"
proof -
  assume "clock_ok os"
  then have "fst (os_clock os (sh s)) \<noteq> None" unfolding clock_ok_def ..
  then show ?thesis
    by (cases "os_clock os (sh s)") (auto simp add: now_ns_def ask_def)
qed

lemma returns_now_if: "clock_ok os \<Longrightarrow> returns (now_if timed os s)"
  by (auto simp: now_if_def returns_now_ns)

lemma returns_enter_with: "eintr_bounded os bound \<Longrightarrow> returns (enter_with tick secs os ring n m s)"
  unfolding enter_with_def Let_def
  by (auto intro!: returns_intro) (auto simp: returns_def dest: enter_loop_returns)

lemma returns_wait_with: "eintr_bounded os bound \<Longrightarrow> returns (wait_with tick add secs os ring n s)"
  unfolding wait_with_def reap_with_def
  by (auto intro!: returns_intro simp: Let_def intro: returns_enter_with)

lemma returns_submit_with: "eintr_bounded os bound \<Longrightarrow> returns (submit_with tick add secs os ring n m s)"
  unfolding submit_with_def
  by (auto intro!: returns_intro intro: returns_enter_with returns_wait_with)

lemma returns_round_loop [returns_intro]:
  "(\<And>i s. returns (body i s)) \<Longrightarrow> returns (round_loop os body is s)"
  by (induction "is" arbitrary: s) (auto intro!: returns_intro)

section \<open>The completion ring is a FIFO queue\<close>

definition cq_count :: "ring_mem \<Rightarrow> nat" where
  "cq_count m = unat (cq_tail m - cq_head m)"

definition cq_pending :: "ring_mem \<Rightarrow> cqe list" where
  "cq_pending m = map (\<lambda>i. cqes m ((cq_head m + of_nat i) AND cq_mask m)) [0..<cq_count m]"

lemma length_cq_pending [simp]: "length (cq_pending m) = cq_count m"
  by (simp add: cq_pending_def)

lemma copy_is_prefix:
  "unat n \<le> cq_count (ring_at s (ring_fd ring)) \<Longrightarrow>
     copy_cqes ring (cq_head (ring_at s (ring_fd ring))) n s =
       take (unat n) (cq_pending (ring_at s (ring_fd ring)))"
  by (simp add: copy_cqes_def cq_pending_def Let_def take_map min_def)

lemma cq_advance_count:
  assumes "unat n \<le> cq_count m"
  shows "cq_count (m\<lparr>cq_head := cq_head m + n\<rparr>) = cq_count m - unat n"
proof -
  have "n \<le> cq_tail m - cq_head m" using assms by (simp add: cq_count_def word_le_nat_alt)
  then have "unat (cq_tail m - cq_head m - n) = unat (cq_tail m - cq_head m) - unat n"
    by (rule unat_sub)
  then show ?thesis by (simp add: cq_count_def diff_diff_eq)
qed

lemma cq_advance_pending:
  assumes "unat n \<le> cq_count m"
  shows "cq_pending (m\<lparr>cq_head := cq_head m + n\<rparr>) = drop (unat n) (cq_pending m)"
proof (rule nth_equalityI)
  show "length (cq_pending (m\<lparr>cq_head := cq_head m + n\<rparr>)) = length (drop (unat n) (cq_pending m))"
    using cq_advance_count [OF assms] by simp
  fix i assume "i < length (cq_pending (m\<lparr>cq_head := cq_head m + n\<rparr>))"
  then show "cq_pending (m\<lparr>cq_head := cq_head m + n\<rparr>) ! i = drop (unat n) (cq_pending m) ! i"
    using cq_advance_count [OF assms] by (simp add: cq_pending_def add.assoc)
qed

text \<open>
  The kernel only appends to a completion ring, in a call as well as between two actions of
  the program; the head is the program's.
\<close>

definition cq_grown :: "int \<Rightarrow> 'k shared \<Rightarrow> 'k shared \<Rightarrow> bool" where
  "cq_grown fd x y \<longleftrightarrow> cq_head (sh_rings y fd) = cq_head (sh_rings x fd) \<and>
     prefix (cq_pending (sh_rings x fd)) (cq_pending (sh_rings y fd))"

definition cq_appends :: "'k os \<Rightarrow> int \<Rightarrow> bool" where
  "cq_appends os fd \<longleftrightarrow> (\<forall>x. cq_grown fd x (snd (os_async os x))) \<and>
     (\<forall>n m fl a x. cq_grown fd x (snd (os_enter os fd n m fl a x)))"

definition grows :: "int \<Rightarrow> ('k, 'r) machine \<Rightarrow> ('k, 'r) machine \<Rightarrow> bool" where
  "grows fd s t \<longleftrightarrow> cq_grown fd (sh s) (sh t)"

lemma grows_refl [simp]: "grows fd s s"
  by (simp add: grows_def cq_grown_def)

lemma grows_trans: "grows fd s t \<Longrightarrow> grows fd t u \<Longrightarrow> grows fd s u"
  unfolding grows_def cq_grown_def by (metis prefix_order.order_trans)

lemma grows_async: "cq_appends os fd \<Longrightarrow> grows fd s (async os s)"
  by (simp add: cq_appends_def grows_def async_def handle_signal_def split_beta Let_def)

lemma grows_pending: "grows fd s t \<Longrightarrow> prefix (cq_pending (ring_at s fd)) (cq_pending (ring_at t fd))"
  by (simp add: grows_def cq_grown_def ring_at_def)

lemma grows_head: "grows fd s t \<Longrightarrow> cq_head (ring_at t fd) = cq_head (ring_at s fd)"
  by (simp add: grows_def cq_grown_def ring_at_def)

lemma enter_loop_grows:
  assumes app: "cq_appends os fd"
  shows "wp (enter_loop os fd n m fl a s) (\<lambda>ret t. grows fd s t)"
proof -
  have "grows fd s (snd (sys (os_enter os fd n m fl a) s))" for s :: "('a, 'b) machine"
    using app by (simp add: cq_appends_def grows_def sys_def split_beta Let_def)
  moreover have "grows fd s (snd (read_stop os s))" for s :: "('a, 'b) machine"
    using grows_async [OF app] by (simp add: read_stop_def Let_def)
  ultimately show ?thesis
    unfolding wp_iff enter_loop_def
    using retry_loop_rel [of "grows fd" "os_enter os fd n m fl a" "read_stop os" s, OF grows_trans]
    by fastforce
qed

lemma enter_with_grows:
  assumes app: "cq_appends os (ring_fd ring)"
  shows "wp (enter_with tick secs os ring n m s) (\<lambda>rc t. grows (ring_fd ring) s t)"
  unfolding enter_with_def Let_def
  by (rule wp_bindI [OF enter_loop_grows [OF app]]) (auto simp: grows_def)

lemma cq_available_grows:
  "cq_appends os fd \<Longrightarrow> cq_available os ring s = (n, t) \<Longrightarrow> grows fd s t"
  by (auto simp: cq_available_def load_acquire_def Let_def intro: grows_trans grows_async)

lemma ring_at_reaped [simp]: "ring_at (s\<lparr>reaped := x\<rparr>) fd = ring_at s fd"
  by (simp add: ring_at_def)

text \<open>What is copied is the oldest part of the queue, and it is what is taken off.\<close>

lemma reap_with_fifo:
  assumes app: "cq_appends os (ring_fd ring)"
    and run: "reap_with add os ring n s = Some ((0, cs), t)"
  shows "prefix (cq_pending (ring_at s (ring_fd ring))) (cs @ cq_pending (ring_at t (ring_fd ring))) \<and>
    length cs = unat n"
proof -
  let ?fd = "ring_fd ring"
  define s1 where "s1 = async os s"
  define s2 where "s2 = async os s1"
  define s3 where "s3 = async os s2"
  have g: "grows ?fd s s1" "grows ?fd s1 s2" "grows ?fd s2 s3"
    unfolding s1_def s2_def s3_def by (rule grows_async [OF app])+
  have av: "cq_available os ring s = (cq_tail (ring_at s1 ?fd) - cq_head (ring_at s2 ?fd), s2)"
    by (simp add: cq_available_def load_acquire_def s1_def s2_def Let_def)
  have ld: "load_acquire os ring cq_head s2 = (cq_head (ring_at s3 ?fd), s3)"
    by (simp add: load_acquire_def s3_def Let_def)
  from run have n: "cq_tail (ring_at s1 ?fd) - cq_head (ring_at s2 ?fd) = n"
    and cs: "cs = copy_cqes ring (cq_head (ring_at s3 ?fd)) n s3"
    and t: "t = (let s5 = store_release ring cq_head_update (cq_head (ring_at s3 ?fd) + n) s3
                 in s5\<lparr>reaped := reaped s5 @ [copy_cqes ring (cq_head (ring_at s3 ?fd)) n s3]\<rparr>)"
    by (auto simp: reap_with_def av ld Let_def split: if_splits)
  have "unat n = cq_count (ring_at s1 ?fd)" using n grows_head [OF g(2)] by (simp add: cq_count_def)
  moreover have "prefix (cq_pending (ring_at s1 ?fd)) (cq_pending (ring_at s3 ?fd))"
    using grows_trans [OF g(2,3)] by (rule grows_pending)
  ultimately have le: "unat n \<le> cq_count (ring_at s3 ?fd)"
    using prefix_length_le [of "cq_pending (ring_at s1 ?fd)" "cq_pending (ring_at s3 ?fd)"] by simp
  have "cs = take (unat n) (cq_pending (ring_at s3 ?fd))"
    using cs copy_is_prefix [OF le] by simp
  moreover have "cq_pending (ring_at t ?fd) = drop (unat n) (cq_pending (ring_at s3 ?fd))"
    using cq_advance_pending [OF le] by (simp add: t store_release_def Let_def)
  ultimately have "cs @ cq_pending (ring_at t ?fd) = cq_pending (ring_at s3 ?fd)" by simp
  moreover have "prefix (cq_pending (ring_at s ?fd)) (cq_pending (ring_at s3 ?fd))"
    using grows_trans [OF g(1) grows_trans [OF g(2,3)]] by (rule grows_pending)
  ultimately show ?thesis using cs by simp
qed

lemma wait_with_fifo:
  assumes app: "cq_appends os (ring_fd ring)"
  shows "wp (wait_with tick add secs os ring n s) (\<lambda>a t. fst a = 0 \<longrightarrow>
    prefix (cq_pending (ring_at s (ring_fd ring))) (snd a @ cq_pending (ring_at t (ring_fd ring))) \<and>
    length (snd a) = unat n)"
proof -
  obtain av s1 where a: "cq_available os ring s = (av, s1)" by (cases "cq_available os ring s")
  note g1 = cq_available_grows [OF app a]
  define m where "m = (if av < n then enter_with tick secs os ring 0 (n - av) s1 else Some (0, s1))"
  have m: "wp m (\<lambda>rc t. grows (ring_fd ring) s t)"
    unfolding m_def wp_if wp_Some
    by (intro conjI impI wp_mono [OF enter_with_grows [OF app]]) (use g1 in \<open>auto intro: grows_trans\<close>)
  have "wp (if rc \<noteq> 0 then Some ((-1, []), t) else reap_with add os ring n t) (\<lambda>a u. fst a = 0 \<longrightarrow>
      prefix (cq_pending (ring_at s (ring_fd ring))) (snd a @ cq_pending (ring_at u (ring_fd ring))) \<and>
      length (snd a) = unat n)" if "grows (ring_fd ring) s t" for rc t
  proof -
    have "prefix (cq_pending (ring_at s (ring_fd ring))) (cs @ cq_pending (ring_at u (ring_fd ring))) \<and>
        length cs = unat n" if "reap_with add os ring n t = Some ((0, cs), u)" for cs u
      using reap_with_fifo [OF app that] grows_pending [OF \<open>grows (ring_fd ring) s t\<close>]
      by (metis prefix_order.order_trans)
    then show ?thesis by (auto simp: wp_iff)
  qed
  with m have "wp (do {(rc, t) \<leftarrow> m; if rc \<noteq> 0 then Some ((-1, []), t) else reap_with add os ring n t})
      (\<lambda>a t. fst a = 0 \<longrightarrow>
        prefix (cq_pending (ring_at s (ring_fd ring))) (snd a @ cq_pending (ring_at t (ring_fd ring))) \<and>
        length (snd a) = unat n)"
    by (rule wp_bindI)
  then show ?thesis by (simp add: wait_with_def a m_def)
qed

end
