(* ===== verification/Round_Program.thy ===== *)
theory Round_Program
  imports Ring_Calls
begin

text \<open>
  What the \<open>main\<close> functions of the round programs share: the start of the process (signal
  handlers, the pinned CPU, \<open>uname\<close>, the boot id, the output file), the table lines, and the
  warm-up and measured rounds. The rounds themselves and the texts are parameters.
\<close>

section \<open>The process\<close>

record workload =
  kernel_release :: string
  boot_id :: string

definition print_line :: "string \<Rightarrow> ('k, 'r) machine \<Rightarrow> ('k, 'r) machine" where
  "print_line line s = s\<lparr>out_lines := out_lines s @ [line]\<rparr>"

definition set_signals :: "'k os \<Rightarrow> ('k, 'r) machine \<Rightarrow> bool \<times> ('k, 'r) machine" where
  "set_signals os s =
     (let (ok, s1) = ask (os_signal os) s
      in if ok then ask (os_signal os) s1 else (False, s1))"

definition boot_id_path :: string where
  "boot_id_path = ''/proc/sys/kernel/random/boot_id''"

text \<open>\<open>main\<close> after the options are parsed: \<open>run\<close> is what comes between the header line and
  the label \<open>out\<close>.\<close>

definition execute_with :: "u32 \<Rightarrow> string \<Rightarrow> (workload \<Rightarrow> ('k, 'r) machine \<Rightarrow> (int \<times> ('k, 'r) machine) option)
    \<Rightarrow> 'k os \<Rightarrow> string \<Rightarrow> ('k, 'r) machine \<Rightarrow> (int \<times> ('k, 'r) machine) option" where
  "execute_with cpu header run os path s =
     (let (signals, s1) = set_signals os s
      in if \<not> signals then Some (EXIT_FAILURE, s1)
         else (let (rc, s2) = pin_cpu os cpu s1
               in if rc \<noteq> 0 then Some (EXIT_FAILURE, s2)
                  else (case ask (os_uname os) s2 of
                     (None, s3) \<Rightarrow> Some (EXIT_FAILURE, s3)
                   | (Some release, s3) \<Rightarrow>
                       (let (boot, s4) = read_text os boot_id_path 128 s3;
                            work = \<lparr>kernel_release = take 127 release,
                                    boot_id = (case boot of None \<Rightarrow> ''unknown'' | Some b \<Rightarrow> b)\<rparr>;
                            (opened, s5) = ask (os_fopen os path) s4
                        in if \<not> opened then Some (EXIT_FAILURE, s5)
                           else do {
                             (rc, s6) \<leftarrow> run work (print_line header s5);
                             let (closed, s7) = ask (os_fclose os) s6
                             in Some (if rc = 0 \<and> closed then EXIT_SUCCESS else EXIT_FAILURE, s7)
                           }))))"

section \<open>The end of a round\<close>

text \<open>
  The counters read from the ring, stored by the three given assignments, and
  \<open>result->semantic_pass = cond; return result->semantic_pass ? 0 : -1;\<close>
\<close>

definition read_counters :: "(u64 \<Rightarrow> 'r \<Rightarrow> 'r) \<Rightarrow> (u64 \<Rightarrow> 'r \<Rightarrow> 'r) \<Rightarrow> (u64 \<Rightarrow> 'r \<Rightarrow> 'r) \<Rightarrow> 'k os
    \<Rightarrow> raw_ring \<Rightarrow> ('k, 'r) machine \<Rightarrow> ('k, 'r) machine" where
  "read_counters set_dropped set_overflow set_left os ring s =
     (let (dropped, s1) = load_acquire os ring sq_dropped s;
          s2 = upd_res (set_dropped (ucast dropped)) s1;
          (overflow, s3) = load_acquire os ring cq_overflow s2;
          s4 = upd_res (set_overflow (ucast overflow)) s3;
          (left, s5) = ring_outstanding os ring s4
      in upd_res (set_left left) s5)"

definition conclude_with :: "(bool \<Rightarrow> 'r \<Rightarrow> 'r) \<Rightarrow> ('r \<Rightarrow> bool) \<Rightarrow> ('k, 'r) machine
    \<Rightarrow> (int \<times> ('k, 'r) machine) option" where
  "conclude_with set_pass cond s =
     (let ok = cond (res s) in Some (if ok then 0 else -1, upd_res (set_pass ok) s))"

lemma read_counters_frame:
  "same_resources s (read_counters f g h os ring s)" "reaps [] s (read_counters f g h os ring s)"
  by (simp_all add: read_counters_def same_resources_def reaps_def split_beta Let_def)

text \<open>What the three assignments leave alone stays.\<close>

lemma read_counters_keeps:
  assumes "\<And>x r. p (f x r) = p r" "\<And>x r. p (g x r) = p r" "\<And>x r. p (h x r) = p r"
  shows "p (res (read_counters f g h os ring s)) = p (res s)"
  by (simp add: read_counters_def assms split_beta Let_def)

lemma conclude_with_outcome:
  "wp (conclude_with setp cond s)
     (outcome (\<lambda>t. cond (res s) \<and> reaps [] s t \<and> res t = setp True (res s)) s)"
  by (auto simp: conclude_with_def outcome_def same_resources_def reaps_def Let_def)

lemma returns_conclude_with [returns_intro]: "returns (conclude_with setp cond s)"
  by (simp add: conclude_with_def Let_def)

section \<open>Mappings and descriptors\<close>

text \<open>Nothing is left mapped or open that was not before.\<close>

definition restored :: "('k, 'r) machine \<Rightarrow> ('k, 'r) machine \<Rightarrow> bool" where
  "restored s t \<longleftrightarrow> vmas t = vmas s \<and> mset (open_fds t) = mset (open_fds s)"

lemma restored_refl [simp]: "restored s s"
  by (simp add: restored_def)

lemma restored_trans: "restored s t \<Longrightarrow> restored t u \<Longrightarrow> restored s u"
  by (simp add: restored_def)

interpretation restored: frame restored
  by unfold_locales (auto intro: restored_trans)

lemma restored_resources: "same_resources s t \<Longrightarrow> restored s t"
  by (simp add: restored_def same_resources_def)

lemma restored_process: "same_process s t \<Longrightarrow> restored s t"
  by (simp add: restored_resources same_process_resources)

lemma restored_print_line [simp]: "restored s (print_line line t) = restored s t"
  by (simp add: restored_def print_line_def)

lemma restored_outcome: "wp m (outcome P s) \<Longrightarrow> wp m (\<lambda>rc t. restored s t)"
  by (erule wp_mono) (simp add: outcome_def restored_resources)

lemma wp_or_fail_frame:
  assumes "wp m (\<lambda>rc t. restored s t)" and "\<And>t. wp (k t) (\<lambda>rc u. restored t u)"
  shows "wp (or_fail m k) (\<lambda>rc u. restored s u)"
  unfolding or_fail_def
proof (rule wp_bindI [OF assms(1)])
  fix rc t assume t: "restored s t"
  show "wp (if rc \<noteq> 0 then Some (-1, t) else k t) (\<lambda>rc u. restored s u)"
    using t assms(2) [of t] by (auto intro: restored_trans elim!: wp_mono)
qed

lemma ask_process: "ask f s = (a, t) \<Longrightarrow> same_process s t"
  using same_process_ops(2) [of s f] by simp

lemma sys_process: "sys f s = (a, t) \<Longrightarrow> same_process s t"
  using same_process_ops(1) [of s f] by simp

lemma startup_process:
  "set_signals os s = (ok, t) \<Longrightarrow> same_process s t"
  "pin_cpu os cpu s = (rc, t) \<Longrightarrow> same_process s t"
  "read_text os path n s = (txt, t) \<Longrightarrow> same_process s t"
  by (auto simp: set_signals_def pin_cpu_def read_text_def Let_def split: prod.splits if_splits option.splits
      dest!: ask_process sys_process intro: same_process_trans)

lemma same_process_data: "same_process s t \<Longrightarrow> same_data s t"
  by (simp add: same_process_def same_data_def)

text \<open>
  A property of \<open>run\<close> carries over when it does not tell apart states that agree but for
  the shared memory, \<open>errno\<close> and the stop flag.
\<close>

lemma execute_with_wp:
  assumes run: "\<And>work t. wp (run work t) (Q work t)"
    and start: "\<And>work t rc u v. same_process s t \<Longrightarrow> Q work (print_line header t) rc u \<Longrightarrow>
        same_process u v \<Longrightarrow> R (if rc = 0 then EXIT_SUCCESS else EXIT_FAILURE) v"
    and start': "\<And>work t rc u v. same_process s t \<Longrightarrow> Q work (print_line header t) rc u \<Longrightarrow>
        same_process u v \<Longrightarrow> R EXIT_FAILURE v"
    and fail: "\<And>t. same_process s t \<Longrightarrow> R EXIT_FAILURE t"
  shows "wp (execute_with cpu header run os path s) R"
proof -
  obtain ok s1 where 1: "set_signals os s = (ok, s1)" by (cases "set_signals os s")
  obtain rc s2 where 2: "pin_cpu os cpu s1 = (rc, s2)" by (cases "pin_cpu os cpu s1")
  obtain rel s3 where 3: "ask (os_uname os) s2 = (rel, s3)" by (cases "ask (os_uname os) s2")
  obtain boot s4 where 4: "read_text os boot_id_path 128 s3 = (boot, s4)"
    by (cases "read_text os boot_id_path 128 s3")
  obtain op s5 where 5: "ask (os_fopen os path) s4 = (op, s5)" by (cases "ask (os_fopen os path) s4")
  have r: "same_process s s1" "same_process s s2" "same_process s s3" "same_process s s5"
    using startup_process(1) [OF 1] startup_process(2) [OF 2] ask_process [OF 3]
      startup_process(3) [OF 4] ask_process [OF 5] by (blast intro: same_process_trans)+
  have "wp (do {
          (rc, s6) \<leftarrow> run work (print_line header s5);
          let (closed, s7) = ask (os_fclose os) s6
          in Some (if rc = 0 \<and> closed then EXIT_SUCCESS else EXIT_FAILURE, s7)
        }) R" for work
  proof (rule wp_bindI [OF run])
    fix rc s6 assume q: "Q work (print_line header s5) rc s6"
    obtain cl s7 where c: "ask (os_fclose os) s6 = (cl, s7)" by (cases "ask (os_fclose os) s6")
    note s7 = ask_process [OF c]
    show "wp (let (closed, s7) = ask (os_fclose os) s6
          in Some (if rc = 0 \<and> closed then EXIT_SUCCESS else EXIT_FAILURE, s7)) R"
      using start [OF r(4) q s7] start' [OF r(4) q s7] c by (auto split: if_splits)
  qed
  with r fail show ?thesis
    by (auto simp: execute_with_def 1 2 3 4 5 Let_def split: option.split)
qed

lemma execute_with_restored:
  assumes "\<And>work t. wp (run work t) (\<lambda>rc u. restored t u)"
  shows "wp (execute_with cpu header run os path s) (\<lambda>rc t. restored s t)"
  by (rule execute_with_wp [OF assms])
     (auto simp: restored_def print_line_def dest!: restored_process)

lemma execute_with_exit_code:
  "wp (execute_with cpu header run os path s) (\<lambda>code t. code = 0 \<or> code = 1)"
  by (rule execute_with_wp [where Q = "\<lambda>_ _ _ _. True"])
     (auto simp: EXIT_SUCCESS_def EXIT_FAILURE_def wp_def split: option.split)

text \<open>What \<open>run\<close> promises for success, up to the data of the program.\<close>

lemma execute_with_done:
  assumes run: "\<And>work t. wp (run work t) (\<lambda>rc u. rc = 0 \<longrightarrow> D work t u)"
    and data: "\<And>work t u v w. D work u v \<Longrightarrow> same_data t u \<Longrightarrow> same_data v w \<Longrightarrow> D work t w"
  shows "wp (execute_with cpu header run os path s)
    (\<lambda>rc t. rc = 0 \<longrightarrow> (\<exists>work. D work (print_line header s) t))"
proof (rule execute_with_wp [OF run])
  fix work t rc u v
  assume t: "same_process s t" and d: "rc = 0 \<longrightarrow> D work (print_line header t) u"
    and v: "same_process u v"
  have "same_data (print_line header s) (print_line header t)"
    using t by (simp add: same_data_def print_line_def same_process_D)
  with d data [OF _ _ same_process_data [OF v]]
  show "(if rc = 0 then EXIT_SUCCESS else EXIT_FAILURE) = 0 \<longrightarrow>
      (\<exists>work. D work (print_line header s) v)"
    by (auto simp: EXIT_SUCCESS_def EXIT_FAILURE_def)
qed (simp_all add: EXIT_FAILURE_def)

section \<open>Rounds\<close>

text \<open>
  \<open>n\<close> rounds have passed between \<open>s\<close> and \<open>t\<close>: their results are \<open>rs\<close>, and the batches of
  completions they copied fall into groups, one per round, with \<open>ok i\<close> for round \<open>i\<close>.
\<close>

definition rounds_passed :: "('r \<Rightarrow> bool) \<Rightarrow> (nat \<Rightarrow> cqe list list \<Rightarrow> bool) \<Rightarrow> nat \<Rightarrow> 'r list
    \<Rightarrow> ('k, 'r) machine \<Rightarrow> ('k, 'r) machine \<Rightarrow> bool" where
  "rounds_passed pass ok n rs s t \<longleftrightarrow>
     (\<exists>bss. length bss = n \<and> length rs = n \<and> reaps (concat bss) s t \<and>
        (\<forall>i < n. pass (rs ! i) \<and> ok i (bss ! i)))"

definition round_outcome_of :: "('r \<Rightarrow> bool) \<Rightarrow> (cqe list list \<Rightarrow> bool) \<Rightarrow> ('k, 'r) machine \<Rightarrow> ('k, 'r) machine \<Rightarrow> bool" where
  "round_outcome_of pass ok s t \<longleftrightarrow> (\<exists>bs. reaps bs s t \<and> ok bs) \<and> pass (res t)"

lemma rounds_passed_step:
  assumes "rounds_passed pass ok n rs s t" and "round_outcome_of pass (ok n) t u"
  shows "rounds_passed pass ok (Suc n) (rs @ [res u]) s u"
proof -
  obtain bss where "length bss = n" "length rs = n" "reaps (concat bss) s t"
      "\<forall>i < n. pass (rs ! i) \<and> ok i (bss ! i)"
    using assms(1) by (auto simp: rounds_passed_def)
  moreover obtain bs where "reaps bs t u" "ok n bs" "pass (res u)"
    using assms(2) by (auto simp: round_outcome_of_def)
  ultimately show ?thesis
    unfolding rounds_passed_def
    by (intro exI [of _ "bss @ [bs]"]) (auto simp: reaps_def nth_append less_Suc_eq)
qed

lemma rounds_passed_0 [simp]: "rounds_passed pass ok 0 [] s t \<longleftrightarrow> reaps [] s t"
  by (simp add: rounds_passed_def)

lemma rounds_passed_length: "rounds_passed pass ok n rs s t \<Longrightarrow> length rs = n"
  by (auto simp: rounds_passed_def)

lemma rounds_passed_print [simp]:
  "rounds_passed pass ok n rs s (print_line line t) = rounds_passed pass ok n rs s t"
  by (simp add: rounds_passed_def print_line_def reaps_def)

lemma rounds_passed_data:
  "rounds_passed pass ok n rs t u \<Longrightarrow> same_data s t \<Longrightarrow> same_data u v \<Longrightarrow> rounds_passed pass ok n rs s v"
  by (simp add: rounds_passed_def reaps_def same_data_def)

lemma rounds_passed_append:
  assumes "rounds_passed pass ok n rs s t" and "rounds_passed pass (\<lambda>i. ok (n + i)) m rs' t u"
  shows "rounds_passed pass ok (n + m) (rs @ rs') s u"
proof -
  obtain bss where a: "length bss = n" "length rs = n" "reaps (concat bss) s t"
      "\<forall>i < n. pass (rs ! i) \<and> ok i (bss ! i)"
    using assms(1) by (auto simp: rounds_passed_def)
  obtain bss' where b: "length bss' = m" "length rs' = m" "reaps (concat bss') t u"
      "\<forall>i < m. pass (rs' ! i) \<and> ok (n + i) (bss' ! i)"
    using assms(2) by (auto simp: rounds_passed_def)
  have "pass ((rs @ rs') ! i) \<and> ok i ((bss @ bss') ! i)" if "i < n + m" for i
  proof (cases "i < n")
    case True
    with a show ?thesis by (simp add: nth_append)
  next
    case False
    with that have "i - n < m" "n + (i - n) = i" by simp_all
    with a(1,2) b(4) False show ?thesis by (metis nth_append)
  qed
  with a(1-3) b(1-3) show ?thesis
    unfolding rounds_passed_def by (intro exI [of _ "bss @ bss'"]) (auto simp: reaps_def)
qed

text \<open>\<open>for (round = 0; round < n; round++) if (f(round) != 0) goto destroy;\<close>\<close>

lemma warmup_passed:
  assumes "\<And>i t. i < n \<Longrightarrow> wp (f i t) (outcome (round_outcome_of pass (ok i) t) t)"
  shows "wp (for_each f [0..<n] s)
    (\<lambda>rc t. rc = 0 \<longrightarrow> (\<exists>rs. rounds_passed pass ok n rs s t) \<and> out_lines t = out_lines s)"
proof (rule wp_for_each)
  fix i t assume i: "i < n" and P: "(\<exists>rs. rounds_passed pass ok i rs s t) \<and> out_lines t = out_lines s"
  show "wp (f i t) (\<lambda>rc u. rc = 0 \<longrightarrow>
      (\<exists>rs. rounds_passed pass ok (Suc i) rs s u) \<and> out_lines u = out_lines s)"
    by (rule wp_mono [OF assms [OF i]])
       (use P in \<open>auto simp: outcome_def same_resources_def intro: rounds_passed_step\<close>)
qed (auto intro: exI [of _ "[]"])

text \<open>A row is written after each measured round.\<close>

definition measured_with :: "(nat \<Rightarrow> 'r \<Rightarrow> string) \<Rightarrow> (nat \<Rightarrow> ('k, 'r) machine \<Rightarrow> (int \<times> ('k, 'r) machine) option)
    \<Rightarrow> nat \<Rightarrow> ('k, 'r) machine \<Rightarrow> (int \<times> ('k, 'r) machine) option" where
  "measured_with row f n =
     for_each (\<lambda>i s. or_fail (f i s) (\<lambda>s. Some (0, print_line (row i (res s)) s))) [0..<n]"

lemma measured_passed:
  assumes f: "\<And>i t. i < n \<Longrightarrow> wp (f i t) (outcome (round_outcome_of pass (ok i) t) t)"
  shows "wp (measured_with row f n s) (\<lambda>rc t. rc = 0 \<longrightarrow> (\<exists>rs. rounds_passed pass ok n rs s t \<and>
    out_lines t = out_lines s @ map (\<lambda>i. row i (rs ! i)) [0..<n]))"
  unfolding measured_with_def
proof (rule wp_for_each)
  fix i t assume i: "i < n" and P: "\<exists>rs. rounds_passed pass ok i rs s t \<and>
      out_lines t = out_lines s @ map (\<lambda>i. row i (rs ! i)) [0..<i]"
  then obtain rs where rs: "rounds_passed pass ok i rs s t"
      "out_lines t = out_lines s @ map (\<lambda>i. row i (rs ! i)) [0..<i]" by blast
  have "wp (f i t) (\<lambda>rc u. rc = 0 \<longrightarrow> round_outcome_of pass (ok i) t u \<and> out_lines u = out_lines t)"
    by (rule wp_mono [OF f [OF i]]) (simp add: outcome_def same_resources_def)
  then show "wp (or_fail (f i t) (\<lambda>s. Some (0, print_line (row i (res s)) s)))
      (\<lambda>rc t. rc = 0 \<longrightarrow> (\<exists>rs. rounds_passed pass ok (Suc i) rs s t \<and>
        out_lines t = out_lines s @ map (\<lambda>i. row i (rs ! i)) [0..<Suc i]))"
  proof (rule wp_or_fail)
    fix u assume u: "round_outcome_of pass (ok i) t u \<and> out_lines u = out_lines t"
    have "rounds_passed pass ok (Suc i) (rs @ [res u]) s u"
      using rounds_passed_step [OF rs(1)] u by blast
    then show "wp (Some (0, print_line (row i (res u)) u))
        (\<lambda>rc t. rc = 0 \<longrightarrow> (\<exists>rs. rounds_passed pass ok (Suc i) rs s t \<and>
          out_lines t = out_lines s @ map (\<lambda>i. row i (rs ! i)) [0..<Suc i]))"
      using u rs(2) rounds_passed_length [OF rs(1)]
      by (auto simp: print_line_def reaps_def rounds_passed_def nth_append intro!: exI [of _ "rs @ [res u]"])
  qed
qed (auto intro: exI [of _ "[]"])

text \<open>Both loops of point mode.\<close>

definition point_done :: "('r \<Rightarrow> bool) \<Rightarrow> (nat \<Rightarrow> cqe list list \<Rightarrow> bool) \<Rightarrow> (nat \<Rightarrow> 'r \<Rightarrow> string) \<Rightarrow> nat \<Rightarrow> nat
    \<Rightarrow> ('k, 'r) machine \<Rightarrow> ('k, 'r) machine \<Rightarrow> bool" where
  "point_done pass ok row warm n s t \<longleftrightarrow>
     (\<exists>rs. rounds_passed pass ok (warm + n) rs s t \<and>
        out_lines t = out_lines s @ map (\<lambda>i. row i (rs ! (warm + i))) [0..<n])"

lemma point_done_data:
  "point_done pass ok row w n t u \<Longrightarrow> same_data s t \<Longrightarrow> same_data u v \<Longrightarrow> point_done pass ok row w n s v"
  by (auto simp: point_done_def same_data_def rounds_passed_def reaps_def)

lemma point_rounds_done:
  assumes "\<And>i t. i < w \<Longrightarrow> wp (f i t) (outcome (round_outcome_of pass (ok i) t) t)"
    and "\<And>i t. i < n \<Longrightarrow> wp (g i t) (outcome (round_outcome_of pass (ok (w + i)) t) t)"
  shows "wp (or_fail (for_each f [0..<w] s) (\<lambda>s. or_fail (measured_with row g n s) (\<lambda>s. Some (0, s))))
    (\<lambda>rc t. rc = 0 \<longrightarrow> point_done pass ok row w n s t)"
proof (rule wp_or_fail [OF warmup_passed [OF assms(1)]], assumption, rule wp_or_fail [OF measured_passed])
  fix i and t :: "('a, 'b) machine" assume "i < n"
  then show "wp (g i t) (outcome (round_outcome_of pass (ok (w + i)) t) t)" by (rule assms(2))
next
  fix t u
  assume t: "(\<exists>rs. rounds_passed pass ok w rs s t) \<and> out_lines t = out_lines s"
    and u: "\<exists>rs. rounds_passed pass (\<lambda>i. ok (w + i)) n rs t u \<and>
      out_lines u = out_lines t @ map (\<lambda>i. row i (rs ! i)) [0..<n]"
  obtain ws where ws: "rounds_passed pass ok w ws s t" using t by blast
  obtain rs where rs: "rounds_passed pass (\<lambda>i. ok (w + i)) n rs t u"
      "out_lines u = out_lines t @ map (\<lambda>i. row i (rs ! i)) [0..<n]" using u by blast
  have "out_lines u = out_lines s @ map (\<lambda>i. row i ((ws @ rs) ! (w + i))) [0..<n]"
    using rs(2) t rounds_passed_length [OF ws] by (simp add: nth_append)
  with rounds_passed_append [OF ws rs(1)]
  show "wp (Some (0, u)) (\<lambda>rc t. rc = 0 \<longrightarrow> point_done pass ok row w n s t)"
    by (auto simp: point_done_def)
qed

lemma point_rounds_restored:
  assumes "\<And>i t. wp (f i t) (\<lambda>rc u. restored t u)" and "\<And>i t. wp (g i t) (\<lambda>rc u. restored t u)"
  shows "wp (or_fail (for_each f is s) (\<lambda>s. or_fail (measured_with row g n s) (\<lambda>s. Some (0, s))))
    (\<lambda>rc t. restored s t)"
  unfolding measured_with_def
  by (intro wp_or_fail_frame restored.for_each_frame assms) simp_all

section \<open>They come back\<close>

text \<open>A system that interrupts only finitely often and whose clock can be read.\<close>

definition responsive :: "'k os \<Rightarrow> ('k shared \<Rightarrow> nat) \<Rightarrow> bool" where
  "responsive os bound \<longleftrightarrow> eintr_bounded os bound \<and> clock_ok os"

lemma responsive_returns:
  assumes "responsive os bound"
  shows "returns (enter_with tick secs os ring a b s)" "returns (submit_with tick add secs os ring a b s)"
    "returns (wait_with tick add secs os ring a s)" "returns (now_if timed os s)" "returns (now_ns os s)"
  using assms
  by (auto simp: responsive_def intro: returns_enter_with returns_submit_with returns_wait_with
      returns_now_if returns_now_ns)

lemma execute_with_returns:
  assumes "\<And>work t. returns (run work t)"
  shows "returns (execute_with cpu header run os path s)"
  unfolding execute_with_def
  by (auto split: option.split prod.split simp: Let_def intro!: returns_bind assms)

lemma measured_with_returns [returns_intro]:
  assumes "\<And>i t. returns (f i t)"
  shows "returns (measured_with row f n s)"
  unfolding measured_with_def by (intro returns_intro assms)

end
