(* ===== verification/Cancel_Rounds.thy ===== *)
theory Cancel_Rounds
  imports Cancel_Cleanup Round_Program
begin

text \<open>
  io_uring_cancel_round.c: the request builders, the fixture, and the rounds of its six
  profiles. A round's lemma says that when it returns 0 the completions it copied are, batch
  by batch, the expected ones, whatever the kernel did; and that it keeps the mappings and
  descriptors of the process on every path.
\<close>

section \<open>Calls\<close>

definition count_timeout :: "result \<Rightarrow> result" where
  "count_timeout r = r\<lparr>timeouts := timeouts r + 1\<rparr>"

definition add_unexpected :: "u64 \<Rightarrow> result \<Rightarrow> result" where
  "add_unexpected d r = r\<lparr>unexpected_cqes := unexpected_cqes r + d\<rparr>"

definition enter_ring :: "'k os \<Rightarrow> raw_ring \<Rightarrow> u32 \<Rightarrow> u32 \<Rightarrow> 'k cancel_machine
    \<Rightarrow> (int \<times> 'k cancel_machine) option" where
  "enter_ring = enter_with count_timeout ENTER_TIMEOUT_SECONDS"

definition wait_and_copy :: "'k os \<Rightarrow> raw_ring \<Rightarrow> u32 \<Rightarrow> 'k cancel_machine
    \<Rightarrow> ((int \<times> cqe list) \<times> 'k cancel_machine) option" where
  "wait_and_copy = wait_with count_timeout add_unexpected ENTER_TIMEOUT_SECONDS"

definition submit_and_copy :: "'k os \<Rightarrow> raw_ring \<Rightarrow> u32 \<Rightarrow> u32 \<Rightarrow> 'k cancel_machine
    \<Rightarrow> ((int \<times> cqe list) \<times> 'k cancel_machine) option" where
  "submit_and_copy = submit_with count_timeout add_unexpected ENTER_TIMEOUT_SECONDS"

definition raw_ring_init :: "'k os \<Rightarrow> 'k cancel_machine \<Rightarrow> int \<times> raw_ring \<times> 'k cancel_machine" where
  "raw_ring_init os s =
     ring_bringup os RING_ENTRIES
       (zero_params\<lparr>p_flags := IORING_SETUP_CQSIZE, p_cq_entries := RING_ENTRIES * 2\<rparr>) s"

definition poll_sqe :: "int \<Rightarrow> u64 \<Rightarrow> sqe \<Rightarrow> sqe" where
  "poll_sqe fd user_data q =
     q\<lparr>sqe_opcode := IORING_OP_POLL_ADD, sqe_fd := fd, sqe_op_flags := POLLIN,
       sqe_user_data := user_data\<rparr>"

definition cancel_key_sqe :: "u64 \<Rightarrow> u64 \<Rightarrow> sqe \<Rightarrow> sqe" where
  "cancel_key_sqe target user_data q =
     q\<lparr>sqe_opcode := IORING_OP_ASYNC_CANCEL, sqe_fd := -1, sqe_addr := target,
       sqe_op_flags := 0, sqe_user_data := user_data\<rparr>"

definition cancel_fd_all_sqe :: "int \<Rightarrow> u64 \<Rightarrow> sqe \<Rightarrow> sqe" where
  "cancel_fd_all_sqe fd user_data q =
     q\<lparr>sqe_opcode := IORING_OP_ASYNC_CANCEL, sqe_fd := fd,
       sqe_op_flags := IORING_ASYNC_CANCEL_FD OR IORING_ASYNC_CANCEL_ALL,
       sqe_user_data := user_data\<rparr>"

definition queue_poll :: "'k os \<Rightarrow> raw_ring \<Rightarrow> int \<Rightarrow> u64 \<Rightarrow> 'k cancel_machine
    \<Rightarrow> (int \<times> 'k cancel_machine) option" where
  "queue_poll os ring fd user_data = queue_with os ring (poll_sqe fd user_data)"

definition queue_cancel_key :: "'k os \<Rightarrow> raw_ring \<Rightarrow> u64 \<Rightarrow> u64 \<Rightarrow> 'k cancel_machine
    \<Rightarrow> (int \<times> 'k cancel_machine) option" where
  "queue_cancel_key os ring target user_data = queue_with os ring (cancel_key_sqe target user_data)"

definition queue_cancel_fd_all :: "'k os \<Rightarrow> raw_ring \<Rightarrow> int \<Rightarrow> u64 \<Rightarrow> 'k cancel_machine
    \<Rightarrow> (int \<times> 'k cancel_machine) option" where
  "queue_cancel_fd_all os ring fd user_data = queue_with os ring (cancel_fd_all_sqe fd user_data)"

section \<open>The fixture\<close>

definition eventfd_is_unsignaled :: "'k os \<Rightarrow> int \<Rightarrow> 'k cancel_machine \<Rightarrow> int \<times> 'k cancel_machine" where
  "eventfd_is_unsignaled os fd s =
     (let (nr, s1) = sys (os_read8 os fd) (s\<lparr>errno := 0\<rparr>)
      in (if nr < 0 \<and> errno s1 = EAGAIN then 0 else -1, s1))"

definition new_eventfd :: "'k os \<Rightarrow> 'k cancel_machine \<Rightarrow> int \<times> 'k cancel_machine" where
  "new_eventfd os s = (let (fd, s1) = sys (os_eventfd os) s in (fd, open_fd fd s1))"

definition fixture_init :: "'k os \<Rightarrow> 'k cancel_machine \<Rightarrow> int \<times> fixture \<times> 'k cancel_machine" where
  "fixture_init os s =
     (let (rc, ring, s1) = raw_ring_init os s;
          fx = \<lparr>fix_ring = ring, fix_target_fd = -1, fix_decoy_fd = -1\<rparr>
      in if rc \<noteq> 0 then (-1, fx, s1)
         else (let (t, s2) = new_eventfd os s1;
                   (d, s3) = new_eventfd os s2;
                   fx1 = fx\<lparr>fix_target_fd := t, fix_decoy_fd := d\<rparr>
               in if t < 0 \<or> d < 0 then (-1, fx1, s3) else (0, fx1, s3)))"

definition fixture_destroy :: "'k os \<Rightarrow> fixture \<Rightarrow> 'k cancel_machine \<Rightarrow> fixture \<times> 'k cancel_machine" where
  "fixture_destroy os fx s =
     (let s1 = (if 0 \<le> fix_target_fd fx then snd (close_fd os (fix_target_fd fx) s) else s);
          s2 = (if 0 \<le> fix_decoy_fd fx then snd (close_fd os (fix_decoy_fd fx) s1) else s1);
          (ring, s3) = raw_ring_destroy os (fix_ring fx) s2
      in (\<lparr>fix_ring = ring, fix_target_fd = -1, fix_decoy_fd = -1\<rparr>, s3))"

text \<open>
  The three conditions are tested from left to right, as far as needed; the second component
  is whether one of them held.
\<close>

definition not_pending :: "'k os \<Rightarrow> fixture \<Rightarrow> bool \<Rightarrow> 'k cancel_machine \<Rightarrow> bool \<times> 'k cancel_machine" where
  "not_pending os fx check_decoy s =
     (let (available, s1) = cq_available os (fix_ring fx) s
      in if available \<noteq> 0 then (True, s1)
         else (let (t, s2) = eventfd_is_unsignaled os (fix_target_fd fx) s1
               in if t \<noteq> 0 then (True, s2)
                  else if check_decoy
                  then (let (d, s3) = eventfd_is_unsignaled os (fix_decoy_fd fx) s2 in (d \<noteq> 0, s3))
                  else (False, s2)))"

definition count_state_failure :: "result \<Rightarrow> result" where
  "count_state_failure r = r\<lparr>eventfd_state_failures := eventfd_state_failures r + 1\<rparr>"

definition prove_pending :: "'k os \<Rightarrow> fixture \<Rightarrow> bool \<Rightarrow> 'k cancel_machine \<Rightarrow> int \<times> 'k cancel_machine" where
  "prove_pending os fx check_decoy s =
     (let (bad, s1) = not_pending os fx check_decoy s
      in if bad then (-1, upd_res count_state_failure s1)
         else (0, upd_res (\<lambda>r. r\<lparr>pending_proofs := pending_proofs r + 1\<rparr>) s1))"

section \<open>The keyed rounds\<close>

definition queue_polls :: "'k os \<Rightarrow> raw_ring \<Rightarrow> int \<Rightarrow> (nat \<Rightarrow> u64) \<Rightarrow> nat \<Rightarrow> 'k cancel_machine
    \<Rightarrow> (int \<times> 'k cancel_machine) option" where
  "queue_polls os ring fd tag n = for_each (\<lambda>i. queue_poll os ring fd (tag i)) [0..<n]"

definition queue_cancels :: "'k os \<Rightarrow> raw_ring \<Rightarrow> (nat \<Rightarrow> u64) \<Rightarrow> (nat \<Rightarrow> u64) \<Rightarrow> nat \<Rightarrow> 'k cancel_machine
    \<Rightarrow> (int \<times> 'k cancel_machine) option" where
  "queue_cancels os ring target tag n =
     for_each (\<lambda>i. queue_cancel_key os ring (target i) (tag i)) [0..<n]"

definition arm_target :: "'k os \<Rightarrow> fixture \<Rightarrow> profile_id \<Rightarrow> u32 \<Rightarrow> u32 \<Rightarrow> 'k cancel_machine
    \<Rightarrow> (int \<times> 'k cancel_machine) option" where
  "arm_target os fx profile round_nr batch s =
     or_fail (queue_polls os (fix_ring fx) (fix_target_fd fx)
                (\<lambda>i. make_tag KIND_POLL profile round_nr batch (of_nat i)) PENDING s) (\<lambda>s.
     or_fail (enter_ring os (fix_ring fx) (of_nat PENDING) 0 s) (\<lambda>s.
     Some (prove_pending os fx False
       (upd_res (\<lambda>r. r\<lparr>poll_submitted := poll_submitted r + of_nat PENDING\<rparr>) s))))"

definition cleanup_target :: "'k os \<Rightarrow> fixture \<Rightarrow> profile_id \<Rightarrow> u32 \<Rightarrow> u32 \<Rightarrow> 'k cancel_machine
    \<Rightarrow> (int \<times> 'k cancel_machine) option" where
  "cleanup_target os fx profile round_nr batch s =
     or_fail (queue_cancels os (fix_ring fx)
                (\<lambda>i. make_tag KIND_POLL profile round_nr batch (of_nat i))
                (\<lambda>i. make_tag KIND_CLEANUP profile round_nr batch (of_nat i)) PENDING s) (\<lambda>s.
     or_fail_copy (submit_and_copy os (fix_ring fx) (of_nat PENDING) (of_nat PENDING * 2) s) (\<lambda>cs s.
     Some (check_res (check_target cs profile round_nr batch) s)))"

definition keyed_batch :: "'k os \<Rightarrow> fixture \<Rightarrow> profile_id \<Rightarrow> u32 \<Rightarrow> bool \<Rightarrow> u32 \<Rightarrow> 'k cancel_machine
    \<Rightarrow> (int \<times> 'k cancel_machine) option" where
  "keyed_batch os fx profile round_nr timed batch s =
     (let expected = (if profile = PROFILE_A0_HIT then of_nat PENDING * 2 else of_nat PENDING);
          target = (\<lambda>i. if profile = PROFILE_A0_HIT
                        then make_tag KIND_POLL profile round_nr batch (of_nat i)
                        else make_tag KIND_NEVER profile round_nr batch (of_nat i))
      in or_fail (arm_target os fx profile round_nr batch s) (\<lambda>s. do {
           (start, s) \<leftarrow> now_if timed os s;
           or_fail (queue_cancels os (fix_ring fx) target
                      (\<lambda>i. make_tag KIND_CANCEL profile round_nr batch (of_nat i)) PENDING s) (\<lambda>s.
           or_fail_copy (submit_and_copy os (fix_ring fx) (of_nat PENDING) expected s) (\<lambda>cs s. do {
             (stop, s) \<leftarrow> now_if timed os s;
             let s = (if timed then upd_res (\<lambda>r. r\<lparr>timed_ns := timed_ns r + (stop - start)\<rparr>) s else s);
                 s = upd_res (\<lambda>r. r\<lparr>cancel_submitted := cancel_submitted r + of_nat PENDING\<rparr>) s
             in or_fail (Some (check_res (validate_keyed cs profile round_nr batch
                                            (profile = PROFILE_A0_MISS)) s)) (\<lambda>s.
                if profile = PROFILE_A0_MISS
                then or_fail (cleanup_target os fx profile round_nr batch s) (\<lambda>s. Some (0, s))
                else Some (0, s))
           }))
         }))"

text \<open>The counters read from the ring when the batches are done.\<close>

definition read_ring_counters :: "'k os \<Rightarrow> raw_ring \<Rightarrow> 'k cancel_machine \<Rightarrow> 'k cancel_machine" where
  "read_ring_counters =
     read_counters (\<lambda>x r. r\<lparr>sq_dropped_total := x\<rparr>) (\<lambda>x r. r\<lparr>cq_overflow_total := x\<rparr>)
       (\<lambda>x r. r\<lparr>outstanding := x\<rparr>)"

text \<open>\<open>result->semantic_pass = cond; return result->semantic_pass ? 0 : -1;\<close>\<close>

definition conclude :: "(result \<Rightarrow> bool) \<Rightarrow> 'k cancel_machine \<Rightarrow> (int \<times> 'k cancel_machine) option" where
  "conclude = conclude_with (\<lambda>ok r. r\<lparr>semantic_pass := ok\<rparr>)"

text \<open>\<open>!stop_requested && cond\<close>\<close>

definition conclude_unless_stopped :: "'k os \<Rightarrow> (result \<Rightarrow> bool) \<Rightarrow> 'k cancel_machine
    \<Rightarrow> (int \<times> 'k cancel_machine) option" where
  "conclude_unless_stopped os cond s =
     (let (stop, s1) = read_stop os s in conclude (\<lambda>r. \<not> stop \<and> cond r) s1)"

definition keyed_pass :: "profile_id \<Rightarrow> u32 \<Rightarrow> result \<Rightarrow> bool" where
  "keyed_pass profile nb r \<longleftrightarrow>
     timeouts r = 0 \<and> unexpected_cqes r = 0 \<and> duplicate_cqes r = 0 \<and> bad_results r = 0 \<and>
     bad_flags r = 0 \<and> eventfd_state_failures r = 0 \<and> sq_dropped_total r = 0 \<and>
     cq_overflow_total r = 0 \<and> outstanding r = 0 \<and> pending_proofs r = ucast nb \<and>
     (if profile = PROFILE_A0_HIT
      then cancel_ok r = attempts r \<and> original_cqes r = attempts r
      else cancel_enoent r = attempts r)"

definition run_keyed_round :: "'k os \<Rightarrow> fixture \<Rightarrow> profile_id \<Rightarrow> u32 \<Rightarrow> u32 \<Rightarrow> bool \<Rightarrow> 'k cancel_machine
    \<Rightarrow> (int \<times> 'k cancel_machine) option" where
  "run_keyed_round os fx profile round_nr nb timed s =
     (let total = ucast nb * of_nat PENDING;
          s1 = upd_res (\<lambda>_. zero_result\<lparr>batches := ucast nb, attempts := total,
                 logical_cancels := (if profile = PROFILE_A0_HIT then total else 0)\<rparr>) s
      in or_fail (round_loop os (\<lambda>b. keyed_batch os fx profile round_nr timed (of_nat b))
                    [0..<unat nb] s1) (\<lambda>s.
         conclude_unless_stopped os (keyed_pass profile nb) (read_ring_counters os (fix_ring fx) s)))"

section \<open>The bulk round\<close>

definition arm_f0 :: "'k os \<Rightarrow> fixture \<Rightarrow> u32 \<Rightarrow> u32 \<Rightarrow> 'k cancel_machine
    \<Rightarrow> (int \<times> 'k cancel_machine) option" where
  "arm_f0 os fx round_nr batch s =
     or_fail (queue_polls os (fix_ring fx) (fix_target_fd fx)
                (\<lambda>i. make_tag KIND_POLL PROFILE_F0_FD_ALL round_nr batch (of_nat i)) PENDING s) (\<lambda>s.
     or_fail (queue_polls os (fix_ring fx) (fix_decoy_fd fx)
                (\<lambda>i. make_tag KIND_DECOY PROFILE_F0_FD_ALL round_nr batch (of_nat i)) DECOYS s) (\<lambda>s.
     or_fail (enter_ring os (fix_ring fx) (of_nat (PENDING + DECOYS)) 0 s) (\<lambda>s.
     Some (prove_pending os fx True
       (upd_res (\<lambda>r. r\<lparr>poll_submitted := poll_submitted r + of_nat (PENDING + DECOYS)\<rparr>) s)))))"

definition cleanup_decoys :: "'k os \<Rightarrow> fixture \<Rightarrow> u32 \<Rightarrow> u32 \<Rightarrow> 'k cancel_machine
    \<Rightarrow> (int \<times> 'k cancel_machine) option" where
  "cleanup_decoys os fx round_nr batch s =
     (let (available, s1) = cq_available os (fix_ring fx) s;
          (bad, s2) = (if available \<noteq> 0 then (True, s1)
                       else (let (d, s2) = eventfd_is_unsignaled os (fix_decoy_fd fx) s1 in (d \<noteq> 0, s2)))
      in if bad then Some (-1, upd_res count_state_failure s2)
         else
           or_fail (queue_cancels os (fix_ring fx)
                      (\<lambda>i. make_tag KIND_DECOY PROFILE_F0_FD_ALL round_nr batch (of_nat i))
                      (\<lambda>i. make_tag KIND_CLEANUP PROFILE_F0_FD_ALL round_nr batch (of_nat i)) DECOYS s2) (\<lambda>s.
           or_fail_copy (submit_and_copy os (fix_ring fx) (of_nat DECOYS) (of_nat DECOYS * 2) s) (\<lambda>cs s.
           Some (check_res (check_decoys cs round_nr batch) s))))"

definition f0_batch :: "'k os \<Rightarrow> fixture \<Rightarrow> u32 \<Rightarrow> bool \<Rightarrow> u32 \<Rightarrow> 'k cancel_machine
    \<Rightarrow> (int \<times> 'k cancel_machine) option" where
  "f0_batch os fx round_nr timed batch s =
     or_fail (arm_f0 os fx round_nr batch s) (\<lambda>s. do {
       (start, s) \<leftarrow> now_if timed os s;
       or_fail (queue_cancel_fd_all os (fix_ring fx) (fix_target_fd fx)
                  (make_tag KIND_BULK PROFILE_F0_FD_ALL round_nr batch 0) s) (\<lambda>s.
       or_fail_copy (submit_and_copy os (fix_ring fx) 1 (of_nat PENDING + 1) s) (\<lambda>cs s. do {
         (stop, s) \<leftarrow> now_if timed os s;
         let s = (if timed then upd_res (\<lambda>r. r\<lparr>timed_ns := timed_ns r + (stop - start)\<rparr>) s else s);
             s = upd_res (\<lambda>r. r\<lparr>cancel_submitted := cancel_submitted r + 1\<rparr>) s
         in or_fail (Some (check_res (validate_f0 cs round_nr batch) s)) (\<lambda>s.
            or_fail (cleanup_decoys os fx round_nr batch s) (\<lambda>s. Some (0, s)))
       }))
     })"

definition f0_pass :: "u32 \<Rightarrow> result \<Rightarrow> bool" where
  "f0_pass nb r \<longleftrightarrow>
     timeouts r = 0 \<and> unexpected_cqes r = 0 \<and> duplicate_cqes r = 0 \<and> bad_results r = 0 \<and>
     bad_flags r = 0 \<and> eventfd_state_failures r = 0 \<and> sq_dropped_total r = 0 \<and>
     cq_overflow_total r = 0 \<and> outstanding r = 0 \<and> pending_proofs r = ucast nb \<and>
     cancel_ok r = ucast nb \<and> original_cqes r = ucast nb * of_nat PENDING \<and>
     decoy_cqes r = ucast nb * of_nat DECOYS"

definition run_f0_round :: "'k os \<Rightarrow> fixture \<Rightarrow> u32 \<Rightarrow> u32 \<Rightarrow> bool \<Rightarrow> 'k cancel_machine
    \<Rightarrow> (int \<times> 'k cancel_machine) option" where
  "run_f0_round os fx round_nr nb timed s =
     (let s1 = upd_res (\<lambda>_. zero_result\<lparr>batches := ucast nb, attempts := ucast nb,
                 logical_cancels := ucast nb * of_nat PENDING\<rparr>) s
      in or_fail (round_loop os (\<lambda>b. f0_batch os fx round_nr timed (of_nat b)) [0..<unat nb] s1) (\<lambda>s.
         conclude_unless_stopped os (f0_pass nb) (read_ring_counters os (fix_ring fx) s)))"

section \<open>What a successful round has seen\<close>

text \<open>A step that takes no completion and counts no error.\<close>

definition quiet :: "'k cancel_machine \<Rightarrow> 'k cancel_machine \<Rightarrow> bool" where
  "quiet s t \<longleftrightarrow> err4 (res t) = err4 (res s) \<and> reaps [] s t"

lemma quiet_same: "same_process s t \<Longrightarrow> quiet s t"
  by (simp add: quiet_def reaps_same same_process_def)

lemma quiet_trans: "quiet s t \<Longrightarrow> quiet t u \<Longrightarrow> quiet s u"
  by (simp add: quiet_def reaps_def)

lemma quiet_upd_res: "(\<And>r. err4 (f r) = err4 r) \<Longrightarrow> quiet s (upd_res f s)"
  by (simp add: quiet_def)

lemma quiet_reaps: "quiet s t \<Longrightarrow> reaps bs t u \<Longrightarrow> reaps bs s u"
  by (simp add: quiet_def reaps_def)

lemma err4_counters [simp]:
  "err4 (r\<lparr>pending_proofs := x\<rparr>) = err4 r" "err4 (r\<lparr>poll_submitted := x\<rparr>) = err4 r"
  "err4 (r\<lparr>cancel_submitted := x\<rparr>) = err4 r" "err4 (r\<lparr>timed_ns := x\<rparr>) = err4 r"
  "err4 (r\<lparr>batches := x\<rparr>) = err4 r" "err4 (r\<lparr>attempts := x\<rparr>) = err4 r"
  "err4 (r\<lparr>logical_cancels := x\<rparr>) = err4 r"
  by (simp_all add: err4_def)

lemma enter_ring_outcome: "wp (enter_ring os ring n m s) (outcome (same_process s) s)"
  by (simp add: enter_ring_def outcome_enter)

lemma submit_and_copy_copied: "wp (submit_and_copy os ring n m s) (copied m s)"
  by (simp add: submit_and_copy_def submit_with_wp)

lemma wait_and_copy_copied: "wp (wait_and_copy os ring n s) (copied n s)"
  by (simp add: wait_and_copy_def wait_with_wp)

lemma queue_polls_outcome: "wp (queue_polls os ring fd tag n s) (outcome (same_process s) s)"
  unfolding queue_polls_def by (rule outcome_for_each_same) (simp add: queue_poll_def queue_with_wp)

lemma queue_cancels_outcome: "wp (queue_cancels os ring tg tag n s) (outcome (same_process s) s)"
  unfolding queue_cancels_def by (rule outcome_for_each_same) (simp add: queue_cancel_key_def queue_with_wp)

lemma unsignaled_same: "eventfd_is_unsignaled os fd s = (rc, t) \<Longrightarrow> same_process s t"
  by (auto simp: eventfd_is_unsignaled_def same_process_def split_beta Let_def)

lemma cq_available_same: "cq_available os ring s = (n, t) \<Longrightarrow> same_process s t"
  using same_process_ops(8) [of s os ring] by simp

lemma not_pending_same: "not_pending os fx chk s = (bad, t) \<Longrightarrow> same_process s t"
  by (auto simp: not_pending_def Let_def split: prod.splits if_splits
      dest!: cq_available_same unsignaled_same intro: same_process_trans)

lemma prove_pending_outcome: "wp (Some (prove_pending os fx chk s)) (outcome (quiet s) s)"
proof -
  obtain bad t where n: "not_pending os fx chk s = (bad, t)" by (cases "not_pending os fx chk s")
  note st = not_pending_same [OF n]
  have "quiet s (upd_res (\<lambda>r. r\<lparr>pending_proofs := pending_proofs r + 1\<rparr>) t)"
    using quiet_same [OF st] by (rule quiet_trans) (simp add: quiet_upd_res)
  moreover have "same_resources s (upd_res f t)" for f
    using same_resources_trans [OF same_process_resources [OF st] same_resources_ops(1)] .
  ultimately show ?thesis by (simp add: prove_pending_def n)
qed

lemma prove_pending_after:
  assumes "same_process s t" "\<And>r. err4 (f r) = err4 r"
  shows "wp (Some (prove_pending os fx chk (upd_res f t))) (outcome (quiet s) t)"
proof -
  have "quiet s (upd_res f t)"
    using quiet_same [OF assms(1)] quiet_upd_res [OF assms(2)] by (rule quiet_trans)
  then have "wp (Some (prove_pending os fx chk (upd_res f t))) (outcome (quiet s) (upd_res f t))"
    using quiet_trans by (intro outcome_mono [OF prove_pending_outcome]) blast
  then show ?thesis by (rule outcome_rebase [OF same_resources_ops(1)])
qed

lemma arm_target_outcome: "wp (arm_target os fx p rn b s) (outcome (quiet s) s)"
  unfolding arm_target_def
proof (rule outcome_or_fail [OF queue_polls_outcome], rule outcome_or_fail [OF enter_ring_outcome])
  fix t u assume "same_process s t" "same_process t u"
  then have "same_process s u" by (rule same_process_trans)
  then show "wp (Some (prove_pending os fx False
      (upd_res (\<lambda>r. r\<lparr>poll_submitted := poll_submitted r + of_nat PENDING\<rparr>) u))) (outcome (quiet s) u)"
    by (rule prove_pending_after) simp
qed

lemma arm_f0_outcome: "wp (arm_f0 os fx rn b s) (outcome (quiet s) s)"
  unfolding arm_f0_def
proof (rule outcome_or_fail [OF queue_polls_outcome], rule outcome_or_fail [OF queue_polls_outcome],
    rule outcome_or_fail [OF enter_ring_outcome])
  fix t u v assume "same_process s t" "same_process t u" "same_process u v"
  then have "same_process s v" by (blast intro: same_process_trans)
  then show "wp (Some (prove_pending os fx True
      (upd_res (\<lambda>r. r\<lparr>poll_submitted := poll_submitted r + of_nat (PENDING + DECOYS)\<rparr>) v)))
      (outcome (quiet s) v)"
    by (rule prove_pending_after) simp
qed

text \<open>A check that is passed with the error counters at zero.\<close>

lemma check_res_outcome:
  "wp (Some (check_res f s)) (outcome (\<lambda>t. res t = snd (f (res s)) \<and> fst (f (res s)) = 0 \<and> reaps [] s t) s)"
  by (simp add: check_res_def outcome_def split_beta Let_def)

lemma check_target_dup: "duplicate_cqes (snd (check_target cs p rn b r)) = duplicate_cqes r"
proof -
  have count: "duplicate_cqes (count_bad_result r) = duplicate_cqes r"
      "duplicate_cqes (count_unexpected r) = duplicate_cqes r"
      "duplicate_cqes (observe_cqe_common c r) = duplicate_cqes r" for r c
    by (simp_all add: count_bad_result_def count_unexpected_def observe_cqe_common_def)
  have tally: "duplicate_cqes (tally_poll c r) = duplicate_cqes r"
      "duplicate_cqes (tally_cleanup c r) = duplicate_cqes r" for c r
    by (simp_all add: tally_poll_def tally_cleanup_def count Let_def)
  have scan: "duplicate_cqes (snd (scan (target_match p rn b c) is r)) = duplicate_cqes r" for c "is" r
    by (induction "is") (simp_all add: target_match_def tally)
  have step: "duplicate_cqes (target_step p rn b c r) = duplicate_cqes r" for c r
    using scan [of c "[0..<PENDING]" "observe_cqe_common c r"]
    by (simp add: target_step_def split_beta count del: PENDING_def)
  have "duplicate_cqes (fold (target_step p rn b) cs r) = duplicate_cqes r"
    by (induction cs arbitrary: r) (simp_all add: step)
  then show ?thesis by (simp add: check_target_def Let_def)
qed

lemma err4_err3: "err4 r = err3 r + unat (duplicate_cqes r)"
  by (simp add: err4_def err3_def)

lemma check_target_outcome:
  assumes "err4 (res s) = 0" and "length cs < 2 ^ 32"
  shows "wp (Some (check_res (check_target cs p rn b) s))
    (outcome (\<lambda>t. err4 (res t) = 0 \<and> reaps [] s t \<and> set cs \<subseteq> set (expected_target p rn b)) s)"
proof (rule outcome_mono [OF check_res_outcome])
  fix t
  assume t: "res t = snd (check_target cs p rn b (res s)) \<and> fst (check_target cs p rn b (res s)) = 0
      \<and> reaps [] s t"
  have "err3 (res s) = 0" "duplicate_cqes (res s) = 0"
    using assms(1) by (simp_all add: err4_err3 unat_eq_0)
  moreover from t have "err3 (res t) = 0"
    by (auto simp: check_target_def err3_def Let_def split: if_splits)
  ultimately show "err4 (res t) = 0 \<and> reaps [] s t \<and> set cs \<subseteq> set (expected_target p rn b)"
    using t check_target_iff [OF _ assms(2)] check_target_dup [of cs p rn b "res s"]
    by (simp add: err4_err3)
qed

lemma check_res_expected:
  assumes "\<And>r. err4 r = 0 \<Longrightarrow> fst (f r) = 0 \<longleftrightarrow> mset cs = mset E"
    and "\<And>r. fst (f r) = 0 \<Longrightarrow> err4 (snd (f r)) = 0" and "err4 (res s) = 0"
  shows "wp (Some (check_res f s)) (outcome (\<lambda>t. err4 (res t) = 0 \<and> reaps [] s t \<and> mset cs = mset E) s)"
  by (rule outcome_mono [OF check_res_outcome]) (use assms in auto)

definition expected_keyed :: "profile_id \<Rightarrow> u32 \<Rightarrow> u32 \<Rightarrow> cqe list" where
  "expected_keyed profile round_nr batch =
     (if profile = PROFILE_A0_MISS then expected_miss profile round_nr batch
      else expected_hit profile round_nr batch)"

lemma validate_keyed_outcome:
  assumes "err4 (res s) = 0" and "length cs < 2 ^ 32"
  shows "wp (Some (check_res (validate_keyed cs p rn b (p = PROFILE_A0_MISS)) s))
    (outcome (\<lambda>t. err4 (res t) = 0 \<and> reaps [] s t \<and> mset cs = mset (expected_keyed p rn b)) s)"
  by (rule check_res_expected)
     (use assms validate_keyed_hit validate_keyed_miss validate_keyed_err in
       \<open>auto simp: expected_keyed_def\<close>)

lemma cleanup_target_outcome:
  assumes "err4 (res s) = 0"
  shows "wp (cleanup_target os fx p rn b s)
    (outcome (\<lambda>t. err4 (res t) = 0 \<and> (\<exists>ds. reaps [ds] s t \<and> length ds = 64 \<and>
        set ds \<subseteq> set (expected_target p rn b))) s)"
  unfolding cleanup_target_def
proof (rule outcome_or_fail [OF queue_cancels_outcome],
    rule outcome_or_fail_copy [OF submit_and_copy_copied])
  fix t ds u
  assume t: "same_process s t" and u: "res u = res t" "reaps [ds] t u"
    and len: "length ds = unat (of_nat PENDING * 2 :: u32)"
  have "err4 (res u) = 0" using assms t u by (simp add: same_process_D)
  moreover have "length ds = 64" using len by simp
  ultimately show "wp (Some (check_res (check_target ds p rn b) u))
      (outcome (\<lambda>t. err4 (res t) = 0 \<and> (\<exists>ds. reaps [ds] s t \<and> length ds = 64 \<and>
        set ds \<subseteq> set (expected_target p rn b))) u)"
    using t u
    by (intro outcome_mono [OF check_target_outcome]) (auto simp: reaps_def same_process_def)
qed

text \<open>What one batch of a keyed round copies.\<close>

definition keyed_group :: "profile_id \<Rightarrow> u32 \<Rightarrow> u32 \<Rightarrow> cqe list list \<Rightarrow> bool" where
  "keyed_group profile round_nr batch g \<longleftrightarrow>
     (\<exists>cs ds. mset cs = mset (expected_keyed profile round_nr batch) \<and>
        (if profile = PROFILE_A0_MISS
         then g = [cs, ds] \<and> length ds = 64 \<and> set ds \<subseteq> set (expected_target profile round_nr batch)
         else g = [cs]))"

lemma keyed_batch_outcome:
  assumes "err4 (res s) = 0"
  shows "wp (keyed_batch os fx p rn timed b s)
    (outcome (\<lambda>t. err4 (res t) = 0 \<and> (\<exists>g. reaps g s t \<and> keyed_group p rn b g)) s)"
  unfolding keyed_batch_def Let_def
proof (rule outcome_or_fail [OF arm_target_outcome], rule outcome_bind [OF now_if_same],
    rule outcome_or_fail [OF queue_cancels_outcome],
    rule outcome_or_fail_copy [OF submit_and_copy_copied], rule outcome_bind [OF now_if_same])
  fix t0 start t1 t2 cs t3 stop t4
  assume st: "quiet s t0" "same_process t0 t1" "same_process t1 t2" "res t3 = res t2"
      "reaps [cs] t2 t3" "same_process t3 t4"
    and len: "length cs = unat (if p = PROFILE_A0_HIT then of_nat PENDING * 2 else of_nat PENDING :: u32)"
  let ?u = "if timed then upd_res (\<lambda>r. r\<lparr>timed_ns := timed_ns r + (stop - start)\<rparr>) t4 else t4"
  let ?v = "upd_res (\<lambda>r. r\<lparr>cancel_submitted := cancel_submitted r + of_nat PENDING\<rparr>) ?u"
  have e: "err4 (res ?v) = 0"
    using assms st by (simp add: quiet_def same_process_D)
  have r: "reaps [cs] s ?v"
    using st by (simp add: quiet_def reaps_def same_process_D)
  have l: "length cs < 2 ^ 32" using len by (simp split: if_splits)
  have res: "same_resources t4 ?v" by (simp add: same_resources_def)
  show "wp (or_fail (Some (check_res (validate_keyed cs p rn b (p = PROFILE_A0_MISS)) ?v))
      (\<lambda>s. if p = PROFILE_A0_MISS then or_fail (cleanup_target os fx p rn b s) (\<lambda>s. Some (0, s))
           else Some (0, s)))
    (outcome (\<lambda>t. err4 (res t) = 0 \<and> (\<exists>g. reaps g s t \<and> keyed_group p rn b g)) t4)"
  proof (rule outcome_rebase [OF res], rule outcome_or_fail [OF validate_keyed_outcome [OF e l]])
    fix w
    assume w: "err4 (res w) = 0 \<and> reaps [] ?v w \<and> mset cs = mset (expected_keyed p rn b)"
    then have rw: "reaps [cs] s w" using r by (simp add: reaps_def)
    show "wp (if p = PROFILE_A0_MISS then or_fail (cleanup_target os fx p rn b w) (\<lambda>s. Some (0, s))
           else Some (0, w))
      (outcome (\<lambda>t. err4 (res t) = 0 \<and> (\<exists>g. reaps g s t \<and> keyed_group p rn b g)) w)"
    proof (cases "p = PROFILE_A0_MISS")
      case False
      with w rw show ?thesis by (auto simp: keyed_group_def)
    next
      case True
      have "wp (or_fail (cleanup_target os fx p rn b w) (\<lambda>s. Some (0, s)))
        (outcome (\<lambda>t. err4 (res t) = 0 \<and> (\<exists>ds. reaps [ds] w t \<and> length ds = 64 \<and>
            set ds \<subseteq> set (expected_target p rn b))) w)"
        using w by (intro outcome_or_fail [OF cleanup_target_outcome]) auto
      then have "wp (or_fail (cleanup_target os fx p rn b w) (\<lambda>s. Some (0, s)))
        (outcome (\<lambda>t. err4 (res t) = 0 \<and> (\<exists>g. reaps g s t \<and> keyed_group p rn b g)) w)"
      proof (rule outcome_mono)
        fix t
        assume "err4 (res t) = 0 \<and> (\<exists>ds. reaps [ds] w t \<and> length ds = 64 \<and>
            set ds \<subseteq> set (expected_target p rn b))"
        then obtain ds where "err4 (res t) = 0" "reaps [ds] w t" "length ds = 64"
            "set ds \<subseteq> set (expected_target p rn b)" by blast
        moreover from this rw have "reaps [cs, ds] s t" by (simp add: reaps_def)
        ultimately show "err4 (res t) = 0 \<and> (\<exists>g. reaps g s t \<and> keyed_group p rn b g)"
          using w True unfolding keyed_group_def by auto
      qed
      with True show ?thesis by simp
    qed
  qed
qed

lemma read_ring_counters_frame:
  "same_resources s (read_ring_counters os ring s)" "reaps [] s (read_ring_counters os ring s)"
  by (simp_all add: read_ring_counters_def read_counters_def same_resources_def reaps_def split_beta Let_def)

lemma bad_flags_read_ring_counters [simp]:
  "bad_flags (res (read_ring_counters os ring s)) = bad_flags (res s)"
  by (simp add: read_ring_counters_def read_counters_def split_beta Let_def)

lemma stop_async: "stop_requested s \<Longrightarrow> stop_requested (async os s)"
  by (simp add: async_def handle_signal_def split_beta Let_def)

lemma stop_load: "stop_requested s \<Longrightarrow> stop_requested (snd (load_acquire os ring f s))"
  by (simp add: load_acquire_def stop_async Let_def)

lemma stop_read_ring_counters:
  "stop_requested s \<Longrightarrow> stop_requested (read_ring_counters os ring s)"
  by (simp add: read_ring_counters_def read_counters_def ring_outstanding_def cq_available_def stop_load split_beta Let_def)

lemma conclude_outcome:
  "wp (conclude_unless_stopped os cond s)
     (outcome (\<lambda>t. \<not> stop_requested s \<and> cond (res s) \<and> reaps [] s t \<and> semantic_pass (res t)) s)"
proof -
  obtain stop s1 where r: "read_stop os s = (stop, s1)" by (cases "read_stop os s")
  then have "res s1 = res s" "same_process s s1" using same_process_ops(4) [of s os] read_stop_frame(1) [of os s]
    by simp_all
  moreover have "stop_requested s \<Longrightarrow> stop"
    using r by (auto simp: read_stop_def stop_async Let_def)
  ultimately show ?thesis
    by (auto simp: conclude_unless_stopped_def conclude_def conclude_with_def r Let_def outcome_def same_resources_def
        reaps_def same_process_def)
qed

text \<open>The common end of a round whose loop keeps \<open>P\<close>.\<close>

lemma round_outcome:
  assumes loop: "wp m (outcome (\<lambda>t. stop_requested t \<or> P t) s)"
    and quiet: "\<And>t u. P t \<Longrightarrow> reaps [] t u \<Longrightarrow> cond (res (read_ring_counters os ring t)) \<Longrightarrow> Q u"
  shows "wp (or_fail m (\<lambda>s. conclude_unless_stopped os cond (read_ring_counters os ring s)))
    (outcome (\<lambda>t. Q t \<and> semantic_pass (res t)) s)"
proof (rule outcome_or_fail [OF loop])
  fix t assume t: "stop_requested t \<or> P t"
  let ?u = "read_ring_counters os ring t"
  have "Q v \<and> semantic_pass (res v)"
    if "\<not> stop_requested ?u \<and> cond (res ?u) \<and> reaps [] ?u v \<and> semantic_pass (res v)" for v
  proof -
    have "P t" using t that stop_read_ring_counters by blast
    moreover have "reaps [] t v"
      using that read_ring_counters_frame(2) [of t os ring] by (simp add: reaps_def)
    ultimately show ?thesis using quiet that by blast
  qed
  then have "wp (conclude_unless_stopped os cond ?u) (outcome (\<lambda>t. Q t \<and> semantic_pass (res t)) ?u)"
    by (rule outcome_mono [OF conclude_outcome])
  then show "wp (conclude_unless_stopped os cond ?u) (outcome (\<lambda>t. Q t \<and> semantic_pass (res t)) t)"
    by (rule outcome_rebase [OF read_ring_counters_frame(1)])
qed

lemma run_keyed_round_outcome:
  "wp (run_keyed_round os fx p rn nb timed s)
     (outcome (\<lambda>t. logged (\<lambda>i. keyed_group p rn (of_nat i)) (unat nb) s t \<and> semantic_pass (res t)) s)"
proof -
  let ?z = "zero_result\<lparr>batches := ucast nb, attempts := ucast nb * of_nat PENDING,
      logical_cancels := (if p = PROFILE_A0_HIT then ucast nb * of_nat PENDING else 0)\<rparr>"
  let ?s = "upd_res (\<lambda>_. ?z) s"
  let ?P = "\<lambda>n t. err4 (res t) = 0 \<and> logged (\<lambda>i. keyed_group p rn (of_nat i)) n s t"
  have "wp (round_loop os (\<lambda>b. keyed_batch os fx p rn timed (of_nat b)) [0..<unat nb] ?s)
      (outcome (\<lambda>t. stop_requested t \<or> ?P (unat nb) t) ?s)"
  proof (rule outcome_round_loop)
    fix i t assume "?P i t"
    then show "wp (keyed_batch os fx p rn timed (of_nat i) t) (outcome (?P (Suc i)) t)"
      by (intro outcome_mono [OF keyed_batch_outcome]) (auto intro: logged_step)
  next
    show "?P i u" if "?P i t" "same_process t u" for i t u
      using that by (auto simp: same_process_D intro: logged_quiet reaps_same)
  qed simp_all
  then have "wp (run_keyed_round os fx p rn nb timed s)
      (outcome (\<lambda>t. logged (\<lambda>i. keyed_group p rn (of_nat i)) (unat nb) s t \<and> semantic_pass (res t)) ?s)"
    unfolding run_keyed_round_def Let_def
    by (rule round_outcome) (auto intro: logged_quiet)
  then show ?thesis by (rule outcome_rebase [OF same_resources_ops(1)])
qed

subsection \<open>The bulk round\<close>

lemma validate_f0_err: "fst (validate_f0 cs rn b r) = 0 \<Longrightarrow> err4 (snd (validate_f0 cs rn b r)) = 0"
  by (simp add: validate_f0_def Let_def verdict_zero split_beta)

lemma check_decoys_err: "fst (check_decoys cs rn b r) = 0 \<Longrightarrow> err4 (snd (check_decoys cs rn b r)) = 0"
  by (simp add: check_decoys_def Let_def verdict_zero split_beta)

lemma validate_f0_outcome:
  assumes "err4 (res s) = 0" and "length cs < 2 ^ 32"
  shows "wp (Some (check_res (validate_f0 cs rn b) s))
    (outcome (\<lambda>t. err4 (res t) = 0 \<and> reaps [] s t \<and> mset cs = mset (expected_f0 rn b)) s)"
  by (rule check_res_expected) (use assms validate_f0_iff validate_f0_err in auto)

lemma check_decoys_outcome:
  assumes "err4 (res s) = 0" and "length cs < 2 ^ 32"
  shows "wp (Some (check_res (check_decoys cs rn b) s))
    (outcome (\<lambda>t. err4 (res t) = 0 \<and> reaps [] s t \<and> mset cs = mset (expected_decoys rn b)) s)"
  by (rule check_res_expected) (use assms check_decoys_iff check_decoys_err in auto)

lemma cleanup_decoys_outcome:
  assumes "err4 (res s) = 0"
  shows "wp (cleanup_decoys os fx rn b s)
    (outcome (\<lambda>t. err4 (res t) = 0 \<and> (\<exists>ds. reaps [ds] s t \<and> mset ds = mset (expected_decoys rn b))) s)"
    (is "wp _ (outcome ?Q s)")
proof -
  obtain av s1 where av: "cq_available os (fix_ring fx) s = (av, s1)"
    by (cases "cq_available os (fix_ring fx) s")
  define probe where "probe = (if av \<noteq> 0 then (True, s1)
      else (let (d, s2) = eventfd_is_unsignaled os (fix_decoy_fd fx) s1 in (d \<noteq> 0, s2)))"
  obtain bad s2 where bad: "probe = (bad, s2)" by (cases probe)
  have s2: "same_process s s2"
    using bad cq_available_same [OF av]
    by (auto simp: probe_def split: if_splits prod.splits dest!: unsignaled_same
        intro: same_process_trans)
  have ok: "wp (or_fail (queue_cancels os (fix_ring fx)
                      (\<lambda>i. make_tag KIND_DECOY PROFILE_F0_FD_ALL rn b (of_nat i))
                      (\<lambda>i. make_tag KIND_CLEANUP PROFILE_F0_FD_ALL rn b (of_nat i)) DECOYS s2) (\<lambda>s.
           or_fail_copy (submit_and_copy os (fix_ring fx) (of_nat DECOYS) (of_nat DECOYS * 2) s) (\<lambda>cs s.
           Some (check_res (check_decoys cs rn b) s)))) (outcome ?Q s2)"
  proof (rule outcome_or_fail [OF queue_cancels_outcome],
      rule outcome_or_fail_copy [OF submit_and_copy_copied])
    fix t ds u
    assume t: "same_process s2 t" and u: "res u = res t" "reaps [ds] t u"
      and len: "length ds = unat (of_nat DECOYS * 2 :: u32)"
    have e: "err4 (res u) = 0" using assms s2 t u by (simp add: same_process_D)
    have r: "reaps [ds] s u" using s2 t u by (simp add: reaps_def same_process_D)
    have l: "length ds < 2 ^ 32" using len by simp
    show "wp (Some (check_res (check_decoys ds rn b) u)) (outcome ?Q u)"
      by (rule outcome_mono [OF check_decoys_outcome [OF e l]]) (use r in \<open>auto simp: reaps_def\<close>)
  qed
  have "same_resources s (upd_res count_state_failure s2)"
    using same_resources_trans [OF same_process_resources [OF s2] same_resources_ops(1)] .
  with outcome_rebase [OF same_process_resources [OF s2] ok] show ?thesis
    by (simp add: cleanup_decoys_def av probe_def [symmetric] bad)
qed

text \<open>What one batch of the bulk round copies.\<close>

definition f0_group :: "u32 \<Rightarrow> u32 \<Rightarrow> cqe list list \<Rightarrow> bool" where
  "f0_group round_nr batch g \<longleftrightarrow>
     (\<exists>cs ds. g = [cs, ds] \<and> mset cs = mset (expected_f0 round_nr batch) \<and>
        mset ds = mset (expected_decoys round_nr batch))"

lemma f0_batch_outcome:
  assumes "err4 (res s) = 0"
  shows "wp (f0_batch os fx rn timed b s)
    (outcome (\<lambda>t. err4 (res t) = 0 \<and> (\<exists>g. reaps g s t \<and> f0_group rn b g)) s)"
    (is "wp _ (outcome ?Q s)")
  unfolding f0_batch_def Let_def
proof (rule outcome_or_fail [OF arm_f0_outcome], rule outcome_bind [OF now_if_same],
    unfold queue_cancel_fd_all_def, rule outcome_or_fail [OF outcome_queue],
    rule outcome_or_fail_copy [OF submit_and_copy_copied], rule outcome_bind [OF now_if_same])
  fix t0 start t1 t2 cs t3 stop t4
  assume st: "quiet s t0" "same_process t0 t1" "same_process t1 t2" "res t3 = res t2"
      "reaps [cs] t2 t3" "same_process t3 t4"
    and len: "length cs = unat (of_nat PENDING + 1 :: u32)"
  let ?u = "if timed then upd_res (\<lambda>r. r\<lparr>timed_ns := timed_ns r + (stop - start)\<rparr>) t4 else t4"
  let ?v = "upd_res (\<lambda>r. r\<lparr>cancel_submitted := cancel_submitted r + 1\<rparr>) ?u"
  have e: "err4 (res ?v) = 0"
    using assms st by (simp add: quiet_def same_process_D)
  have r: "reaps [cs] s ?v"
    using st by (simp add: quiet_def reaps_def same_process_D)
  have l: "length cs < 2 ^ 32" using len by simp
  have res: "same_resources t4 ?v" by (simp add: same_resources_def)
  show "wp (or_fail (Some (check_res (validate_f0 cs rn b) ?v))
      (\<lambda>s. or_fail (cleanup_decoys os fx rn b s) (\<lambda>s. Some (0, s)))) (outcome ?Q t4)"
  proof (rule outcome_rebase [OF res], rule outcome_or_fail [OF validate_f0_outcome [OF e l]])
    fix w
    assume w: "err4 (res w) = 0 \<and> reaps [] ?v w \<and> mset cs = mset (expected_f0 rn b)"
    then have rw: "reaps [cs] s w" using r by (simp add: reaps_def)
    show "wp (or_fail (cleanup_decoys os fx rn b w) (\<lambda>s. Some (0, s))) (outcome ?Q w)"
    proof (rule outcome_or_fail [OF cleanup_decoys_outcome])
      show "err4 (res w) = 0" using w by simp
      fix x assume "err4 (res x) = 0 \<and> (\<exists>ds. reaps [ds] w x \<and> mset ds = mset (expected_decoys rn b))"
      then obtain ds where "err4 (res x) = 0" "reaps [ds] w x" "mset ds = mset (expected_decoys rn b)"
        by blast
      moreover from this rw have "reaps [cs, ds] s x" by (simp add: reaps_def)
      ultimately show "wp (Some (0, x)) (outcome ?Q x)"
        using w unfolding f0_group_def by auto
    qed
  qed
qed

lemma run_f0_round_outcome:
  "wp (run_f0_round os fx rn nb timed s)
     (outcome (\<lambda>t. logged (\<lambda>i. f0_group rn (of_nat i)) (unat nb) s t \<and> semantic_pass (res t)) s)"
proof -
  let ?z = "zero_result\<lparr>batches := ucast nb, attempts := ucast nb,
      logical_cancels := ucast nb * of_nat PENDING\<rparr>"
  let ?s = "upd_res (\<lambda>_. ?z) s"
  let ?P = "\<lambda>n t. err4 (res t) = 0 \<and> logged (\<lambda>i. f0_group rn (of_nat i)) n s t"
  have "wp (round_loop os (\<lambda>b. f0_batch os fx rn timed (of_nat b)) [0..<unat nb] ?s)
      (outcome (\<lambda>t. stop_requested t \<or> ?P (unat nb) t) ?s)"
  proof (rule outcome_round_loop)
    fix i t assume "?P i t"
    then show "wp (f0_batch os fx rn timed (of_nat i) t) (outcome (?P (Suc i)) t)"
      by (intro outcome_mono [OF f0_batch_outcome]) (auto intro: logged_step)
  next
    show "?P i u" if "?P i t" "same_process t u" for i t u
      using that by (auto simp: same_process_D intro: logged_quiet reaps_same)
  qed simp_all
  then have "wp (run_f0_round os fx rn nb timed s)
      (outcome (\<lambda>t. logged (\<lambda>i. f0_group rn (of_nat i)) (unat nb) s t \<and> semantic_pass (res t)) ?s)"
    unfolding run_f0_round_def Let_def
    by (rule round_outcome) (auto intro: logged_quiet)
  then show ?thesis by (rule outcome_rebase [OF same_resources_ops(1)])
qed

end
