(* ===== verification/Cancel_Profiles.thy ===== *)
theory Cancel_Profiles
  imports Cancel_Rounds
begin

text \<open>
  io_uring_cancel_round.c: the synchronous-cancel round, the preparation probe and the
  release probe, and \<open>run_profile_round\<close>, which picks the round of a profile.
\<close>

section \<open>run_s0_round\<close>

definition sync_cancel :: "'k os \<Rightarrow> raw_ring \<Rightarrow> u64 \<Rightarrow> 'k cancel_machine
    \<Rightarrow> (int \<times> 'k cancel_machine) option" where
  "sync_cancel os ring target =
     retry_loop (read_stop os)
       (os_register os (ring_fd ring)
          (REGISTER_SYNC_CANCEL \<lparr>sc_addr = target, sc_fd = -1, sc_timeout_sec = 1\<rparr>))"

text \<open>What is done with the completion of the cancelled poll.\<close>

definition s0_check :: "u64 \<Rightarrow> cqe \<Rightarrow> result \<Rightarrow> int \<times> result" where
  "s0_check poll_tag c r =
     (let r1 = observe_cqe_common c r;
          r2 = r1\<lparr>original_cqes := original_cqes r1 + 1\<rparr>
      in if cqe_user_data c \<noteq> poll_tag then (-1, count_unexpected r2)
         else if cqe_res c \<noteq> neg_errno ECANCELED then (-1, count_bad_result r2)
         else (0, r2))"

text \<open>The second half of a cycle, from the cancellation of the pending poll on.\<close>

definition s0_cancel :: "'k os \<Rightarrow> fixture \<Rightarrow> bool \<Rightarrow> u64 \<Rightarrow> 'k cancel_machine
    \<Rightarrow> (int \<times> 'k cancel_machine) option" where
  "s0_cancel os fx timed poll_tag s =
     do {
       (start, s) \<leftarrow> now_if timed os s;
       (ret, s) \<leftarrow> sync_cancel os (fix_ring fx) poll_tag s;
       (stop, s) \<leftarrow> now_if timed os s;
       let s = (if timed then upd_res (\<lambda>r. r\<lparr>timed_ns := timed_ns r + (stop - start)\<rparr>) s else s);
           s = upd_res (\<lambda>r. r\<lparr>cancel_submitted := cancel_submitted r + 1\<rparr>) s
       in if ret \<noteq> 0
          then Some (-1, upd_res (\<lambda>r. count_bad_result
                 (if ret < 0 \<and> errno s = ENOENT then r\<lparr>cancel_enoent := cancel_enoent r + 1\<rparr>
                  else r\<lparr>cancel_other := cancel_other r + 1\<rparr>)) s)
          else
            (let s = upd_res (\<lambda>r. r\<lparr>cancel_ok := cancel_ok r + 1\<rparr>) s
             in or_fail_copy (wait_and_copy os (fix_ring fx) 1 s) (\<lambda>cs s.
                Some (check_res (s0_check poll_tag (cs ! 0)) s)))
     }"

definition s0_cycle :: "'k os \<Rightarrow> fixture \<Rightarrow> u32 \<Rightarrow> bool \<Rightarrow> u32 \<Rightarrow> 'k cancel_machine
    \<Rightarrow> (int \<times> 'k cancel_machine) option" where
  "s0_cycle os fx round_nr timed cycle s =
     (let poll_tag = make_tag KIND_POLL PROFILE_S0_SYNC round_nr cycle 0
      in or_fail (queue_poll os (fix_ring fx) (fix_target_fd fx) poll_tag s) (\<lambda>s.
         or_fail (enter_ring os (fix_ring fx) 1 0 s) (\<lambda>s.
         or_fail (Some (prove_pending os fx False
                    (upd_res (\<lambda>r. r\<lparr>poll_submitted := poll_submitted r + 1\<rparr>) s))) (\<lambda>s.
         s0_cancel os fx timed poll_tag s))))"

definition s0_pass :: "u32 \<Rightarrow> result \<Rightarrow> bool" where
  "s0_pass cycles r \<longleftrightarrow>
     timeouts r = 0 \<and> unexpected_cqes r = 0 \<and> bad_results r = 0 \<and> bad_flags r = 0 \<and>
     eventfd_state_failures r = 0 \<and> sq_dropped_total r = 0 \<and> cq_overflow_total r = 0 \<and>
     outstanding r = 0 \<and> pending_proofs r = ucast cycles \<and> cancel_ok r = ucast cycles \<and>
     original_cqes r = ucast cycles"

definition run_s0_round :: "'k os \<Rightarrow> fixture \<Rightarrow> u32 \<Rightarrow> u32 \<Rightarrow> bool \<Rightarrow> 'k cancel_machine
    \<Rightarrow> (int \<times> 'k cancel_machine) option" where
  "run_s0_round os fx round_nr cycles timed s =
     (let s1 = upd_res (\<lambda>_. zero_result\<lparr>batches := ucast cycles, attempts := ucast cycles,
                 logical_cancels := ucast cycles\<rparr>) s
      in or_fail (round_loop os (\<lambda>c. s0_cycle os fx round_nr timed (of_nat c)) [0..<unat cycles] s1) (\<lambda>s.
         conclude_unless_stopped os (s0_pass cycles) (read_ring_counters os (fix_ring fx) s)))"

section \<open>run_p0\<close>

definition p0_tag :: u64 where
  "p0_tag = make_tag KIND_CANCEL PROFILE_P0_PREP 0 0 0"

definition p0_sqe :: "sqe \<Rightarrow> sqe" where
  "p0_sqe q = q\<lparr>sqe_opcode := IORING_OP_ASYNC_CANCEL, sqe_fd := -1,
     sqe_op_flags := IORING_ASYNC_CANCEL_OP, sqe_len := 255, sqe_user_data := p0_tag\<rparr>"

definition p0_account :: "cqe \<Rightarrow> result \<Rightarrow> result" where
  "p0_account c r =
     (let r1 = observe_cqe_common c (r\<lparr>cancel_submitted := 1, cancel_cqes := 1\<rparr>);
          r2 = (if cqe_user_data c \<noteq> p0_tag then count_unexpected r1 else r1)
      in if cqe_res c = neg_errno EINVAL then r2\<lparr>cancel_ok := cancel_ok r2 + 1\<rparr>
         else if cqe_res c = neg_errno ENOENT then r2\<lparr>cancel_enoent := cancel_enoent r2 + 1\<rparr>
         else count_bad_result (r2\<lparr>cancel_other := cancel_other r2 + 1\<rparr>))"

definition p0_pass :: "result \<Rightarrow> bool" where
  "p0_pass r \<longleftrightarrow>
     unexpected_cqes r = 0 \<and> bad_results r = 0 \<and> bad_flags r = 0 \<and> sq_dropped_total r = 0 \<and>
     cq_overflow_total r = 0 \<and> outstanding r = 0 \<and> (cancel_ok r = 1 \<or> cancel_enoent r = 1)"

definition run_p0 :: "'k os \<Rightarrow> fixture \<Rightarrow> 'k cancel_machine \<Rightarrow> (int \<times> 'k cancel_machine) option" where
  "run_p0 os fx s =
     (let s1 = upd_res (\<lambda>_. zero_result\<lparr>batches := 1, attempts := 1\<rparr>) s
      in or_fail (queue_with os (fix_ring fx) p0_sqe s1) (\<lambda>s.
         or_fail_copy (submit_and_copy os (fix_ring fx) 1 1 s) (\<lambda>cs s.
         conclude p0_pass (read_ring_counters os (fix_ring fx)
           (upd_res (p0_account (cs ! 0)) s)))))"

section \<open>run_r0\<close>

text \<open>
  The names in \<open>/proc/self/fd\<close>; the descriptor of the directory itself is among them.
\<close>

definition count_open_fds :: "'k os \<Rightarrow> 'k cancel_machine \<Rightarrow> int \<times> 'k cancel_machine" where
  "count_open_fds os s =
     (case ask (os_opendir os) s of
        (None, t) \<Rightarrow> (-1, t)
      | (Some names, t) \<Rightarrow>
          (int (length (filter (\<lambda>name. name \<noteq> ''.'' \<and> name \<noteq> ''..'') names)) - 1, t))"

definition r0_arm :: "'k os \<Rightarrow> fixture \<Rightarrow> 'k cancel_machine \<Rightarrow> (int \<times> 'k cancel_machine) option" where
  "r0_arm os fx s =
     or_fail (queue_polls os (fix_ring fx) (fix_target_fd fx)
                (\<lambda>i. make_tag KIND_POLL PROFILE_R0_RELEASE 0 0 (of_nat i)) PENDING s) (\<lambda>s.
     or_fail (queue_polls os (fix_ring fx) (fix_decoy_fd fx)
                (\<lambda>i. make_tag KIND_DECOY PROFILE_R0_RELEASE 0 0 (of_nat i)) DECOYS s) (\<lambda>s.
     or_fail (enter_ring os (fix_ring fx) (of_nat (PENDING + DECOYS)) 0 s) (\<lambda>s.
     Some (prove_pending os fx True s))))"

definition r0_release :: "'k os \<Rightarrow> fixture \<Rightarrow> int \<Rightarrow> 'k cancel_machine
    \<Rightarrow> (int \<times> 'k cancel_machine) option" where
  "r0_release os fx before s =
     (let (ring, s) = raw_ring_unmap (fix_ring fx) s
      in do {
        (start, s) \<leftarrow> now_ns os s;
        let (close_ret, s) = close_fd os (ring_fd ring) s
        in do {
          (stop, s) \<leftarrow> now_ns os s;
          let s = upd_res (\<lambda>r. r\<lparr>timed_ns := stop - start\<rparr>) s;
              s = snd (close_fd os (fix_target_fd fx) s);
              s = snd (close_fd os (fix_decoy_fd fx) s);
              (after, s) = count_open_fds os s
          in conclude (\<lambda>r. close_ret = 0 \<and> after = before \<and> timed_ns r < RELEASE_LIMIT_NS) s
        }
      })"

definition run_r0 :: "'k os \<Rightarrow> 'k cancel_machine \<Rightarrow> (int \<times> 'k cancel_machine) option" where
  "run_r0 os s =
     (let s1 = upd_res (\<lambda>_. zero_result\<lparr>batches := 1, attempts := 1,
                 logical_cancels := of_nat (PENDING + DECOYS)\<rparr>) s;
          (before, s2) = count_open_fds os s1
      in if before < 0 then Some (-1, s2)
         else (let (rc, fx, s3) = fixture_init os s2
               in if rc \<noteq> 0 then Some (-1, s3)
                  else do {
                    (rc, s4) \<leftarrow> r0_arm os fx s3;
                    if rc \<noteq> 0 then Some (-1, snd (fixture_destroy os fx s4))
                    else r0_release os fx before
                           (upd_res (\<lambda>r. r\<lparr>poll_submitted := of_nat (PENDING + DECOYS)\<rparr>) s4)
                  }))"

section \<open>run_profile_round\<close>

definition run_profile_round :: "'k os \<Rightarrow> fixture \<Rightarrow> profile_id \<Rightarrow> u32 \<Rightarrow> u32 \<Rightarrow> bool \<Rightarrow> 'k cancel_machine
    \<Rightarrow> (int \<times> 'k cancel_machine) option" where
  "run_profile_round os fx profile round_nr units timed s =
     (case profile of
        PROFILE_A0_HIT \<Rightarrow> run_keyed_round os fx profile round_nr units timed s
      | PROFILE_A0_MISS \<Rightarrow> run_keyed_round os fx profile round_nr units timed s
      | PROFILE_F0_FD_ALL \<Rightarrow> run_f0_round os fx round_nr units timed s
      | PROFILE_S0_SYNC \<Rightarrow> run_s0_round os fx round_nr units timed s
      | PROFILE_P0_PREP \<Rightarrow> run_p0 os fx s
      | _ \<Rightarrow> Some (-1, s))"

section \<open>What a successful round has seen\<close>

definition s0_cqe :: "u32 \<Rightarrow> u32 \<Rightarrow> cqe" where
  "s0_cqe round_nr cycle =
     \<lparr>cqe_user_data = make_tag KIND_POLL PROFILE_S0_SYNC round_nr cycle 0,
      cqe_res = neg_errno ECANCELED, cqe_flags = 0\<rparr>"

definition s0_group :: "u32 \<Rightarrow> u32 \<Rightarrow> cqe list list \<Rightarrow> bool" where
  "s0_group round_nr cycle g \<longleftrightarrow> g = [[s0_cqe round_nr cycle]]"

lemma retry_same: "wp (sync_cancel os ring target s) (\<lambda>ret t. same_process s t)"
  by (simp add: sync_cancel_def retry_loop_wp)

lemma singleton_copy: "length cs = unat (1 :: u32) \<Longrightarrow> cs = [cs ! 0]"
  by (cases cs) simp_all

text \<open>The flags are only counted in the loop; they are looked at when it is done.\<close>

definition s0_inv :: "u32 \<Rightarrow> nat \<Rightarrow> 'k cancel_machine \<Rightarrow> 'k cancel_machine \<Rightarrow> bool" where
  "s0_inv rn n s t \<longleftrightarrow> n < 2 ^ 32 \<and> unat (bad_flags (res t)) \<le> n \<and>
     (bad_flags (res t) = 0 \<longrightarrow> logged (\<lambda>i. s0_group rn (of_nat i)) n s t)"

text \<open>Steps that leave \<open>bad_flags\<close> and the copied completions alone.\<close>

definition flagless :: "'k cancel_machine \<Rightarrow> 'k cancel_machine \<Rightarrow> bool" where
  "flagless s t \<longleftrightarrow> bad_flags (res t) = bad_flags (res s) \<and> reaps [] s t"

lemma flagless_same: "same_process s t \<Longrightarrow> flagless s t"
  by (simp add: flagless_def reaps_same same_process_D)

lemma flagless_trans: "flagless s t \<Longrightarrow> flagless t u \<Longrightarrow> flagless s u"
  by (simp add: flagless_def reaps_def)

lemma prove_pending_flagless: "wp (Some (prove_pending os fx chk s)) (outcome (flagless s) s)"
proof -
  obtain bad t where n: "not_pending os fx chk s = (bad, t)" by (cases "not_pending os fx chk s")
  note st = not_pending_same [OF n]
  have "flagless s (upd_res (\<lambda>r. r\<lparr>pending_proofs := pending_proofs r + 1\<rparr>) t)"
    using flagless_same [OF st] by (rule flagless_trans) (simp add: flagless_def)
  moreover have "same_resources s (upd_res f t)" for f
    using same_resources_trans [OF same_process_resources [OF st] same_resources_ops(1)] .
  ultimately show ?thesis by (simp add: prove_pending_def n)
qed

lemma s0_check_zero:
  assumes "fst (s0_check tag c r) = 0" and "unat (bad_flags r) + 1 < 2 ^ 64"
  shows "cqe_user_data c = tag \<and> cqe_res c = neg_errno ECANCELED \<and>
    unat (bad_flags (snd (s0_check tag c r))) = unat (bad_flags r) + of_bool (cqe_flags c \<noteq> 0)"
  using assms
  by (auto simp: s0_check_def observe_cqe_common_def unat_inc64 Let_def split: if_splits)

lemma s0_step:
  assumes inv: "s0_inv rn n s t" and small: "Suc n < 2 ^ 32"
    and copy: "reaps [cs] t u" "length cs = unat (1 :: u32)" "bad_flags (res u) = bad_flags (res t)"
    and ok: "res v = snd (s0_check (make_tag KIND_POLL PROFILE_S0_SYNC rn (of_nat n) 0) (cs ! 0) (res u))
      \<and> fst (s0_check (make_tag KIND_POLL PROFILE_S0_SYNC rn (of_nat n) 0) (cs ! 0) (res u)) = 0
      \<and> reaps [] u v"
  shows "s0_inv rn (Suc n) s v"
proof -
  define c where "c = cs ! 0"
  define tag where "tag = make_tag KIND_POLL PROFILE_S0_SYNC rn (of_nat n) 0"
  have cs: "cs = [c]" using singleton_copy [OF copy(2)] by (simp add: c_def)
  have b: "unat (bad_flags (res u)) \<le> n" using inv copy(3) by (simp add: s0_inv_def)
  have c: "cqe_user_data c = tag \<and> cqe_res c = neg_errno ECANCELED \<and>
      unat (bad_flags (res v)) = unat (bad_flags (res u)) + of_bool (cqe_flags c \<noteq> 0)"
    using s0_check_zero [of tag c "res u"] ok b small by (simp add: c_def tag_def)
  have "logged (\<lambda>i. s0_group rn (of_nat i)) (Suc n) s v" if z: "bad_flags (res v) = 0"
  proof -
    from z c have "unat (bad_flags (res u)) = 0" "cqe_flags c = 0"
      by (simp_all split: if_splits)
    then have "c = s0_cqe rn (of_nat n)" "bad_flags (res t) = 0"
      using c copy(3) by (simp_all add: s0_cqe_def tag_def unat_eq_0)
    moreover have "reaps [cs] t v" using copy(1) ok by (simp add: reaps_def)
    ultimately show ?thesis
      using inv cs by (intro logged_step [of _ n s t "[cs]"]) (simp_all add: s0_inv_def s0_group_def)
  qed
  with b c small show ?thesis by (simp add: s0_inv_def)
qed

lemma s0_cancel_outcome:
  fixes s0 :: "'k cancel_machine"
  assumes inv: "s0_inv rn n s0 w" and small: "Suc n < 2 ^ 32"
    and tag: "tag = make_tag KIND_POLL PROFILE_S0_SYNC rn (of_nat n) 0"
  shows "wp (s0_cancel os fx timed tag w) (outcome (s0_inv rn (Suc n) s0) w)"
  unfolding s0_cancel_def
proof (rule outcome_bind [OF now_if_same], rule outcome_bind [OF retry_same],
    rule outcome_bind [OF now_if_same])
  fix start t1 and ret :: int and t2 stop and t3 :: "'k cancel_machine"
  assume t: "same_process w t1" "same_process t1 t2" "same_process t2 t3"
  define a where "a = (if timed then upd_res (\<lambda>r. r\<lparr>timed_ns := timed_ns r + (stop - start)\<rparr>) t3 else t3)"
  define b where "b = upd_res (\<lambda>r. r\<lparr>cancel_submitted := cancel_submitted r + 1\<rparr>) a"
  define c where "c = upd_res (\<lambda>r. r\<lparr>cancel_ok := cancel_ok r + 1\<rparr>) b"
  have "flagless w c"
    using t by (simp add: a_def b_def c_def flagless_def reaps_def same_process_D)
  then have inv_c: "s0_inv rn n s0 c"
    using inv by (auto simp: s0_inv_def flagless_def intro: logged_quiet)
  have res: "same_resources t3 (upd_res f b)" for f
    by (simp add: a_def b_def same_resources_def)
  have "wp (or_fail_copy (wait_and_copy os (fix_ring fx) 1 c)
      (\<lambda>cs s. Some (check_res (s0_check tag (cs ! 0)) s))) (outcome (s0_inv rn (Suc n) s0) c)"
  proof (rule outcome_or_fail_copy [OF wait_and_copy_copied])
    fix cs u
    assume u: "res u = res c" "reaps [cs] c u" "length cs = unat (1 :: u32)"
    have "bad_flags (res u) = bad_flags (res c)" using u(1) by simp
    then show "wp (Some (check_res (s0_check tag (cs ! 0)) u)) (outcome (s0_inv rn (Suc n) s0) u)"
      unfolding tag
      by (intro outcome_mono [OF check_res_outcome] s0_step [OF inv_c small u(2,3)])
  qed
  then have "wp (or_fail_copy (wait_and_copy os (fix_ring fx) 1 c)
      (\<lambda>cs s. Some (check_res (s0_check tag (cs ! 0)) s))) (outcome (s0_inv rn (Suc n) s0) t3)"
    unfolding c_def by (rule outcome_rebase [OF res])
  with res show "wp (let s = (if timed then upd_res (\<lambda>r. r\<lparr>timed_ns := timed_ns r + (stop - start)\<rparr>) t3 else t3);
           s = upd_res (\<lambda>r. r\<lparr>cancel_submitted := cancel_submitted r + 1\<rparr>) s
       in if ret \<noteq> 0
          then Some (-1, upd_res (\<lambda>r. count_bad_result
                 (if ret < 0 \<and> errno s = ENOENT then r\<lparr>cancel_enoent := cancel_enoent r + 1\<rparr>
                  else r\<lparr>cancel_other := cancel_other r + 1\<rparr>)) s)
          else
            (let s = upd_res (\<lambda>r. r\<lparr>cancel_ok := cancel_ok r + 1\<rparr>) s
             in or_fail_copy (wait_and_copy os (fix_ring fx) 1 s) (\<lambda>cs s.
                Some (check_res (s0_check tag (cs ! 0)) s))))
      (outcome (s0_inv rn (Suc n) s0) t3)"
    by (cases "ret = 0") (simp_all add: a_def b_def c_def Let_def)
qed

lemma s0_cycle_outcome:
  assumes inv: "s0_inv rn n s0 s" and small: "Suc n < 2 ^ 32"
  shows "wp (s0_cycle os fx rn timed (of_nat n) s) (outcome (s0_inv rn (Suc n) s0) s)"
  unfolding s0_cycle_def Let_def
proof (unfold queue_poll_def, rule outcome_or_fail [OF outcome_queue],
    rule outcome_or_fail [OF enter_ring_outcome], rule outcome_or_fail)
  fix t u assume tu: "same_process s t" "same_process t u"
  let ?v = "upd_res (\<lambda>r. r\<lparr>poll_submitted := poll_submitted r + 1\<rparr>) u"
  have "flagless s u" using flagless_same same_process_trans [OF tu] by blast
  moreover have "flagless u ?v" by (simp add: flagless_def)
  ultimately have sv: "flagless s ?v" by (rule flagless_trans)
  then have "wp (Some (prove_pending os fx False ?v)) (outcome (flagless s) ?v)"
    using flagless_trans by (intro outcome_mono [OF prove_pending_flagless]) blast
  then show "wp (Some (prove_pending os fx False ?v)) (outcome (flagless s) u)"
    by (rule outcome_rebase [OF same_resources_ops(1)])
next
  fix w assume "flagless s w"
  then have "s0_inv rn n s0 w"
    using inv by (auto simp: s0_inv_def flagless_def intro: logged_quiet)
  then show "wp (s0_cancel os fx timed (make_tag KIND_POLL PROFILE_S0_SYNC rn (of_nat n) 0) w)
      (outcome (s0_inv rn (Suc n) s0) w)"
    using small by (rule s0_cancel_outcome) simp
qed

lemma run_s0_round_outcome:
  "wp (run_s0_round os fx rn nb timed s)
     (outcome (\<lambda>t. logged (\<lambda>i. s0_group rn (of_nat i)) (unat nb) s t \<and> semantic_pass (res t)) s)"
proof -
  let ?z = "zero_result\<lparr>batches := ucast nb, attempts := ucast nb, logical_cancels := ucast nb\<rparr>"
  let ?s = "upd_res (\<lambda>_. ?z) s"
  have "wp (round_loop os (\<lambda>c. s0_cycle os fx rn timed (of_nat c)) [0..<unat nb] ?s)
      (outcome (\<lambda>t. stop_requested t \<or> s0_inv rn (unat nb) s t) ?s)"
  proof (rule outcome_round_loop)
    fix i and t :: "'a cancel_machine" assume "i < unat nb" "s0_inv rn i s t"
    then show "wp (s0_cycle os fx rn timed (of_nat i) t) (outcome (s0_inv rn (Suc i) s) t)"
      using unat_lt32 [of nb] by (intro s0_cycle_outcome) simp_all
  next
    show "s0_inv rn i s u" if "s0_inv rn i s t" "same_process t u" for i and t u :: "'a cancel_machine"
      using that by (auto simp: s0_inv_def same_process_D intro: logged_quiet reaps_same)
  qed (simp_all add: s0_inv_def zero_result_def)
  then have "wp (run_s0_round os fx rn nb timed s)
      (outcome (\<lambda>t. logged (\<lambda>i. s0_group rn (of_nat i)) (unat nb) s t \<and> semantic_pass (res t)) ?s)"
    unfolding run_s0_round_def Let_def
    by (rule round_outcome) (auto simp: s0_inv_def s0_pass_def intro: logged_quiet)
  then show ?thesis by (rule outcome_rebase [OF same_resources_ops(1)])
qed

section \<open>The preparation probe\<close>

definition p0_accepts :: "cqe \<Rightarrow> bool" where
  "p0_accepts c \<longleftrightarrow> cqe_user_data c = p0_tag \<and> cqe_flags c = 0 \<and>
     (cqe_res c = neg_errno EINVAL \<or> cqe_res c = neg_errno ENOENT)"

lemma p0_account_pass:
  assumes "p0_pass r" and "err4 (p0_account c z) = err4 r" and "duplicate_cqes z = 0" and "err4 z = 0"
    and "duplicate_cqes r = 0"
  shows "p0_accepts c"
proof -
  have z: "err4 (z\<lparr>cancel_submitted := 1, cancel_cqes := 1\<rparr>) = 0"
    using assms(4) by simp
  have "err4 r = 0" using assms(1,5) by (simp add: p0_pass_def err4_def)
  with assms(2) have "err4 (p0_account c z) = 0" by simp
  then show ?thesis
    using z by (auto simp: p0_account_def p0_accepts_def Let_def split: if_splits)
qed

lemma read_ring_counters_err4 [simp]:
  "err4 (res (read_ring_counters os ring s)) = err4 (res s)"
  "duplicate_cqes (res (read_ring_counters os ring s)) = duplicate_cqes (res s)"
  by (simp_all add: read_ring_counters_def read_counters_def err4_def split_beta Let_def)

lemma duplicate_p0_account [simp]: "duplicate_cqes (p0_account c r) = duplicate_cqes r"
  by (simp add: p0_account_def observe_cqe_common_def count_unexpected_def count_bad_result_def Let_def)

lemma run_p0_outcome:
  "wp (run_p0 os fx s)
     (outcome (\<lambda>t. (\<exists>c. reaps [[c]] s t \<and> p0_accepts c) \<and> semantic_pass (res t)) s)"
proof -
  let ?z = "zero_result\<lparr>batches := 1, attempts := 1\<rparr>"
  let ?s = "upd_res (\<lambda>_. ?z) s"
  let ?Q = "\<lambda>t. (\<exists>c. reaps [[c]] s t \<and> p0_accepts c) \<and> semantic_pass (res t)"
  have "wp (run_p0 os fx s) (outcome ?Q ?s)"
    unfolding run_p0_def Let_def
  proof (rule outcome_or_fail [OF outcome_queue], rule outcome_or_fail_copy [OF submit_and_copy_copied])
    fix t cs u
    assume t: "same_process ?s t" and u: "res u = res t" "reaps [cs] t u"
      and len: "length cs = unat (1 :: u32)"
    define c where "c = cs ! 0"
    have cs: "cs = [c]" using singleton_copy [OF len] by (simp add: c_def)
    let ?w = "read_ring_counters os (fix_ring fx) (upd_res (p0_account c) u)"
    have res: "res u = ?z" using t u by (simp add: same_process_D)
    have z: "err4 ?z = 0" "duplicate_cqes ?z = 0" by (simp_all add: zero_result_def err4_def)
    have acc: "p0_accepts c" if "p0_pass (res ?w)"
      by (rule p0_account_pass [OF that, of c ?z]) (simp_all add: res z)
    have r: "reaps [[c]] s ?w"
      using t u cs read_ring_counters_frame(2) [of "upd_res (p0_account c) u" os "fix_ring fx"]
      by (simp add: reaps_def same_process_D)
    have sr: "same_resources u ?w"
      by (rule same_resources_trans [OF same_resources_ops(1) read_ring_counters_frame(1)])
    show "wp (conclude p0_pass (read_ring_counters os (fix_ring fx) (upd_res (p0_account (cs ! 0)) u)))
        (outcome ?Q u)"
      using acc r sr
      by (auto simp: conclude_def conclude_with_def outcome_def reaps_def same_resources_def c_def [symmetric] Let_def)
  qed
  then show ?thesis by (rule outcome_rebase [OF same_resources_ops(1)])
qed

section \<open>The fixture and the release probe\<close>

text \<open>A system on which \<open>eventfd\<close> never fails; on others \<open>fixture_init\<close> may leave things behind.\<close>

definition eventfd_ok :: "'k os \<Rightarrow> bool" where
  "eventfd_ok os \<longleftrightarrow> (\<forall>x. 0 \<le> fst (fst (os_eventfd os x)))"

definition holds_fixture :: "fixture \<Rightarrow> 'k cancel_machine \<Rightarrow> 'k cancel_machine \<Rightarrow> bool" where
  "holds_fixture fx s t \<longleftrightarrow>
     0 \<le> ring_fd (fix_ring fx) \<and> 0 \<le> fix_target_fd fx \<and> 0 \<le> fix_decoy_fd fx \<and>
     vmas t = owned (fix_ring fx) @ vmas s \<and>
     mset (open_fds t) = {#fix_decoy_fd fx, fix_target_fd fx, ring_fd (fix_ring fx)#} + mset (open_fds s)"

lemma holds_fixture_same: "holds_fixture fx s t \<Longrightarrow> same_resources t u \<Longrightarrow> holds_fixture fx s u"
  by (simp add: holds_fixture_def same_resources_def)

text \<open>
  What a failing \<open>fixture_init\<close> leaves behind when its ring is up and an \<open>eventfd\<close> has failed:
  the mappings and the descriptor of the ring, and the other eventfd if that one was made.
\<close>

definition ring_left :: "'k cancel_machine \<Rightarrow> 'k cancel_machine \<Rightarrow> bool" where
  "ring_left s t \<longleftrightarrow>
     (\<exists>ring e. vmas t = owned ring @ vmas s \<and> size e \<le> 1 \<and>
        mset (open_fds t) = add_mset (ring_fd ring) (e + mset (open_fds s)))"

text \<open>Everything is given back, or an \<open>eventfd\<close> has failed, the call too, and the ring is left.\<close>

definition given_back :: "'k os \<Rightarrow> 'k cancel_machine \<Rightarrow> int \<Rightarrow> 'k cancel_machine \<Rightarrow> bool" where
  "given_back os s rc t \<longleftrightarrow> restored s t \<or> \<not> eventfd_ok os \<and> rc \<noteq> 0 \<and> ring_left s t"

lemma given_back_restored: "restored s t \<Longrightarrow> given_back os s rc t"
  by (simp add: given_back_def)

lemma given_back_moved:
  assumes "given_back os s rc t" and "rc \<noteq> 0 \<Longrightarrow> rc' \<noteq> 0" and "restored t u"
    and "vmas r = vmas s" and "open_fds r = open_fds s"
  shows "given_back os r rc' u"
  using assms by (auto simp: given_back_def ring_left_def restored_def)

lemma new_eventfd_open:
  assumes run: "new_eventfd os s = (fd, t)"
  shows "open_fds t = (if 0 \<le> fd then [fd] else []) @ open_fds s \<and> vmas t = vmas s \<and>
    same_data s t \<and> (fd < 0 \<longrightarrow> \<not> eventfd_ok os)"
proof -
  obtain ret e m where call: "os_eventfd os (sh s) = ((ret, e), m)"
    by (cases "os_eventfd os (sh s)") auto
  have "0 \<le> ret" if "eventfd_ok os" using that call by (metis eventfd_ok_def fst_conv)
  with run call show ?thesis
    by (auto simp: new_eventfd_def sys_def open_fd_def same_data_def Let_def)
qed

lemma fixture_init_holds:
  assumes nn: "mmap_nonnull os" and run: "fixture_init os s = (rc, fx, t)"
  shows "same_data s t \<and> (rc = 0 \<and> holds_fixture fx s t \<or> rc = -1 \<and> given_back os s rc t)"
proof -
  obtain rc1 ring s1 where r: "raw_ring_init os s = (rc1, ring, s1)"
    by (cases "raw_ring_init os s") auto
  note own = ring_bringup_owns [OF nn r [unfolded raw_ring_init_def]]
  note data = ring_bringup_data [OF r [unfolded raw_ring_init_def]]
  show ?thesis
  proof (cases "rc1 = 0")
    case False
    with run r own data show ?thesis by (auto simp: fixture_init_def given_back_def restored_def)
  next
    case True
    obtain d1 s2 where e1: "new_eventfd os s1 = (d1, s2)" by (cases "new_eventfd os s1")
    obtain d2 s3 where e2: "new_eventfd os s2 = (d2, s3)" by (cases "new_eventfd os s2")
    note n = new_eventfd_open [OF e1] new_eventfd_open [OF e2]
    have own: "vmas s1 = owned ring @ vmas s" "open_fds s1 = ring_fd ring # open_fds s"
        "0 \<le> ring_fd ring"
      using own True by auto
    have d: "same_data s s3" using data n same_data_trans by blast
    show ?thesis
    proof (cases "d1 < 0 \<or> d2 < 0")
      case False
      then have "open_fds s3 = d2 # d1 # ring_fd ring # open_fds s" "vmas s3 = owned ring @ vmas s"
        using n own by auto
      with False d True run r own e1 e2 show ?thesis
        by (auto simp: fixture_init_def holds_fixture_def Let_def)
    next
      case fail: True
      define e where "e = mset ((if 0 \<le> d2 then [d2] else []) @ (if 0 \<le> d1 then [d1] else []))"
      have "size e \<le> 1" using fail by (auto simp: e_def)
      moreover have "vmas s3 = owned ring @ vmas s" using n own by simp
      moreover have "mset (open_fds s3) = add_mset (ring_fd ring) (e + mset (open_fds s))"
        using n own by (simp add: e_def)
      ultimately have "ring_left s s3" unfolding ring_left_def by blast
      moreover have "\<not> eventfd_ok os" using fail n by blast
      ultimately show ?thesis
        using fail d True run r e1 e2 by (auto simp: fixture_init_def given_back_def Let_def)
    qed
  qed
qed

lemma fixture_destroy_restores:
  assumes "holds_fixture fx s t"
  shows "restored s (snd (fixture_destroy os fx t))"
    and "same_data t (snd (fixture_destroy os fx t))"
proof -
  let ?u = "snd (close_fd os (fix_decoy_fd fx) (snd (close_fd os (fix_target_fd fx) t)))"
  have u: "vmas ?u = owned (fix_ring fx) @ vmas s" "same_data t ?u"
      "open_fds ?u = remove1 (fix_decoy_fd fx) (remove1 (fix_target_fd fx) (open_fds t))"
    using assms by (simp_all add: holds_fixture_def same_data_def)
  have "snd (fixture_destroy os fx t) = snd (raw_ring_destroy os (fix_ring fx) ?u)"
    using assms by (simp add: fixture_destroy_def holds_fixture_def split_beta Let_def)
  moreover have "vmas (snd (raw_ring_destroy os (fix_ring fx) ?u)) = vmas s"
      "open_fds (snd (raw_ring_destroy os (fix_ring fx) ?u)) = remove1 (ring_fd (fix_ring fx)) (open_fds ?u)"
    using assms unmap_owned [OF u(1)]
    by (simp_all add: raw_ring_destroy_def holds_fixture_def split_beta Let_def)
  ultimately show "restored s (snd (fixture_destroy os fx t))"
    using assms u(3) by (simp add: restored_def holds_fixture_def)
  show "same_data t (snd (fixture_destroy os fx t))"
    using u(2) by (simp add: fixture_destroy_def same_data_def split_beta Let_def)
qed

lemma r0_arm_resources: "wp (r0_arm os fx s) (outcome (quiet s) s)"
  unfolding r0_arm_def
proof (rule outcome_or_fail [OF queue_polls_outcome], rule outcome_or_fail [OF queue_polls_outcome],
    rule outcome_or_fail [OF enter_ring_outcome])
  fix t u v assume "same_process s t" "same_process t u" "same_process u v"
  then have "quiet s v" by (blast intro: quiet_same same_process_trans)
  then show "wp (Some (prove_pending os fx True v)) (outcome (quiet s) v)"
    using quiet_trans by (intro outcome_mono [OF prove_pending_outcome]) blast
qed

lemma count_open_fds_same:
  assumes "count_open_fds os s = (n, t)"
  shows "same_process s t"
proof -
  obtain names u where u: "ask (os_opendir os) s = (names, u)" by (cases "ask (os_opendir os) s")
  then have "same_process s u" using same_process_ops(2) [of s "os_opendir os"] by simp
  with assms u show ?thesis by (cases names) (simp_all add: count_open_fds_def)
qed

lemma r0_release_restores:
  assumes "holds_fixture fx s t"
  shows "wp (r0_release os fx before t) (\<lambda>rc u. restored s u \<and> out_lines u = out_lines t \<and>
    (rc = 0 \<longrightarrow> semantic_pass (res u) \<and> timed_ns (res u) < RELEASE_LIMIT_NS))"
proof -
  obtain ring t1 where um: "raw_ring_unmap (fix_ring fx) t = (ring, t1)"
    by (cases "raw_ring_unmap (fix_ring fx) t")
  have t1: "vmas t1 = vmas s" "open_fds t1 = open_fds t" "out_lines t1 = out_lines t"
      "ring_fd ring = ring_fd (fix_ring fx)"
    using assms unmap_owned [of t "fix_ring fx" "vmas s"] raw_ring_unmap_frame [of "fix_ring fx" t] um
    by (simp_all add: holds_fixture_def)
  have ns: "wp (now_ns os x) (\<lambda>a y. same_process x y)" for x :: "'a cancel_machine"
    using now_if_same [of True os x] by (simp add: now_if_def)
  show ?thesis
    unfolding r0_release_def um Let_def prod.case
  proof (rule wp_bindI [OF ns])
    fix start t2 assume t2: "same_process t1 t2"
    obtain ret t3 where cl: "close_fd os (ring_fd ring) t2 = (ret, t3)"
      by (cases "close_fd os (ring_fd ring) t2")
    have t3: "vmas t3 = vmas t2" "out_lines t3 = out_lines t2"
        "open_fds t3 = remove1 (ring_fd ring) (open_fds t2)"
      using close_fd_frame [of os "ring_fd ring" t2] cl by simp_all
    show "wp (case close_fd os (ring_fd ring) t2 of
        (close_ret, s) \<Rightarrow> do {
          (stop, s) \<leftarrow> now_ns os s;
          case count_open_fds os (snd (close_fd os (fix_decoy_fd fx) (snd (close_fd os (fix_target_fd fx)
                 (upd_res (\<lambda>r. r\<lparr>timed_ns := stop - start\<rparr>) s))))) of
            (after, s) \<Rightarrow> conclude (\<lambda>r. close_ret = 0 \<and> after = before \<and> timed_ns r < RELEASE_LIMIT_NS) s
        })
      (\<lambda>rc u. restored s u \<and> out_lines u = out_lines t \<and>
        (rc = 0 \<longrightarrow> semantic_pass (res u) \<and> timed_ns (res u) < RELEASE_LIMIT_NS))"
      unfolding cl prod.case
    proof (rule wp_bindI [OF ns])
      fix stop t4 assume t4: "same_process t3 t4"
      let ?v = "snd (close_fd os (fix_decoy_fd fx) (snd (close_fd os (fix_target_fd fx)
          (upd_res (\<lambda>r. r\<lparr>timed_ns := stop - start\<rparr>) t4))))"
      obtain after w where w: "count_open_fds os ?v = (after, w)" by (cases "count_open_fds os ?v")
      note sw = count_open_fds_same [OF w]
      have "restored s w" "out_lines w = out_lines t"
        using assms t1 t2 t3 t4 sw
        by (simp_all add: restored_def holds_fixture_def same_process_D add_mset_commute)
      then show "wp (case count_open_fds os ?v of
            (after, s) \<Rightarrow> conclude (\<lambda>r. ret = 0 \<and> after = before \<and> timed_ns r < RELEASE_LIMIT_NS) s)
          (\<lambda>rc u. restored s u \<and> out_lines u = out_lines t \<and>
            (rc = 0 \<longrightarrow> semantic_pass (res u) \<and> timed_ns (res u) < RELEASE_LIMIT_NS))"
        by (simp add: w conclude_def conclude_with_def restored_def Let_def)
    qed
  qed
qed

lemma run_r0_restores:
  assumes nn: "mmap_nonnull os"
  shows "wp (run_r0 os s) (\<lambda>rc t. given_back os s rc t \<and> out_lines t = out_lines s \<and>
    (rc = 0 \<longrightarrow> semantic_pass (res t) \<and> timed_ns (res t) < RELEASE_LIMIT_NS))"
    (is "wp _ ?Q")
proof -
  let ?s1 = "upd_res (\<lambda>_. zero_result\<lparr>batches := 1, attempts := 1,
                 logical_cancels := of_nat (PENDING + DECOYS)\<rparr>) s"
  obtain before s2 where c: "count_open_fds os ?s1 = (before, s2)" by (cases "count_open_fds os ?s1")
  obtain rc fx s3 where f: "fixture_init os s2 = (rc, fx, s3)" by (cases "fixture_init os s2") auto
  have s2: "vmas s2 = vmas s" "open_fds s2 = open_fds s" "out_lines s2 = out_lines s"
    using count_open_fds_same [OF c] by (simp_all add: same_process_D)
  note fi = fixture_init_holds [OF nn f]
  have body: "wp (do {
        (rc, s4) \<leftarrow> r0_arm os fx s3;
        if rc \<noteq> 0 then Some (-1, snd (fixture_destroy os fx s4))
        else r0_release os fx before (upd_res (\<lambda>r. r\<lparr>poll_submitted := of_nat (PENDING + DECOYS)\<rparr>) s4)
      }) ?Q" if hold: "holds_fixture fx s2 s3"
  proof (rule wp_bindI [OF r0_arm_resources])
    fix rc s4 assume o: "outcome (quiet s3) s3 rc s4"
    then have h4: "holds_fixture fx s2 s4" "out_lines s4 = out_lines s3"
      using hold by (auto simp: outcome_def same_resources_def intro: holds_fixture_same)
    let ?s5 = "upd_res (\<lambda>r. r\<lparr>poll_submitted := of_nat (PENDING + DECOYS)\<rparr>) s4"
    have h5: "holds_fixture fx s2 ?s5" using h4(1) by (rule holds_fixture_same) simp
    have "wp (r0_release os fx before ?s5) ?Q"
      using r0_release_restores [OF h5, of os before] fi s2 h4(2)
      by (auto simp: given_back_def restored_def same_data_def elim!: wp_mono)
    moreover have "given_back os s (-1) (snd (fixture_destroy os fx s4))"
        "out_lines (snd (fixture_destroy os fx s4)) = out_lines s"
      using fixture_destroy_restores [OF h4(1), of os] fi s2 h4(2)
      by (simp_all add: given_back_def restored_def same_data_def)
    ultimately show "wp (if rc \<noteq> 0 then Some (-1, snd (fixture_destroy os fx s4))
        else r0_release os fx before ?s5) ?Q"
      by simp
  qed
  have "given_back os s (-1) s3" if "given_back os s2 rc s3"
    by (rule given_back_moved [OF that]) (simp_all add: s2)
  moreover have "given_back os s (-1) s2" using s2 by (simp add: given_back_def restored_def)
  moreover have "out_lines s3 = out_lines s" using fi s2 by (simp add: same_data_def)
  ultimately show ?thesis
    unfolding run_r0_def Let_def c f prod.case
    using fi s2 body by (cases "before < 0"; cases "rc = 0") simp_all
qed

section \<open>Any round\<close>

text \<open>The batches of completions a successful round of a profile has copied.\<close>

definition seen_by :: "profile_id \<Rightarrow> u32 \<Rightarrow> u32 \<Rightarrow> cqe list list \<Rightarrow> bool" where
  "seen_by profile round_nr units bs =
     (case profile of
        PROFILE_A0_HIT \<Rightarrow> grouped (\<lambda>i. keyed_group profile round_nr (of_nat i)) (unat units) bs
      | PROFILE_A0_MISS \<Rightarrow> grouped (\<lambda>i. keyed_group profile round_nr (of_nat i)) (unat units) bs
      | PROFILE_F0_FD_ALL \<Rightarrow> grouped (\<lambda>i. f0_group round_nr (of_nat i)) (unat units) bs
      | PROFILE_S0_SYNC \<Rightarrow> grouped (\<lambda>i. s0_group round_nr (of_nat i)) (unat units) bs
      | PROFILE_P0_PREP \<Rightarrow> (\<exists>c. bs = [[c]] \<and> p0_accepts c)
      | _ \<Rightarrow> False)"

lemma run_profile_round_outcome:
  "wp (run_profile_round os fx p rn units timed s)
     (outcome (\<lambda>t. (\<exists>bs. reaps bs s t \<and> seen_by p rn units bs) \<and> semantic_pass (res t)) s)"
proof (cases p)
  case PROFILE_P0_PREP
  then show ?thesis
    by (auto simp: run_profile_round_def seen_by_def intro: outcome_mono [OF run_p0_outcome])
qed (use run_keyed_round_outcome [of os fx p rn units timed s]
    run_f0_round_outcome [of os fx rn units timed s] run_s0_round_outcome [of os fx rn units timed s]
    in \<open>simp_all add: run_profile_round_def seen_by_def logged_def\<close>)

section \<open>Rounds come back\<close>

lemma calls_return:
  assumes "responsive os bound"
  shows "returns (enter_ring os ring a b s)" "returns (submit_and_copy os ring a b s)"
  "returns (wait_and_copy os ring a s)" "returns (now_if timed os s)" "returns (now_ns os s)"
  "returns (queue_polls os ring fd tag n s)" "returns (queue_cancels os ring tg tag n s)"
  "returns (queue_poll os ring fd ud s)" "returns (queue_cancel_fd_all os ring fd ud s)"
proof -
  have eb: "eintr_bounded os bound" and clk: "clock_ok os" using assms by (simp_all add: responsive_def)
  show "returns (enter_ring os ring a b s)" "returns (submit_and_copy os ring a b s)"
    "returns (wait_and_copy os ring a s)"
    by (simp_all add: enter_ring_def submit_and_copy_def wait_and_copy_def returns_enter_with [OF eb]
        returns_submit_with [OF eb] returns_wait_with [OF eb])
  show "returns (now_if timed os s)" "returns (now_ns os s)"
    by (simp_all add: returns_now_if [OF clk] returns_now_ns [OF clk])
qed (simp_all add: queue_polls_def queue_cancels_def queue_poll_def queue_cancel_fd_all_def
    queue_cancel_key_def returns_for_each returns_queue_with)

lemma sync_cancel_returns:
  assumes "responsive os bound"
  shows "returns (sync_cancel os ring target s)"
proof -
  have interrupts: "eintr_bounded os bound" using assms by (simp add: responsive_def)
  have "eintr_drops bound (os_register os fd req)" for fd req
    using interrupts by (simp add: eintr_bounded_def)
  then show ?thesis
    using retry_loop_returns [of bound _ "read_stop os"] bound_read_stop [OF interrupts]
    by (fastforce simp: sync_cancel_def returns_def)
qed

lemma conclude_returns: "returns (conclude cond s)" "returns (conclude_unless_stopped os cond s)"
  by (simp_all add: conclude_def conclude_with_def conclude_unless_stopped_def split_beta Let_def)

lemmas parts_return = calls_return sync_cancel_returns

lemma target_returns:
  assumes "responsive os bound"
  shows "returns (arm_target os fx p rn b s)" "returns (cleanup_target os fx p rn b s)"
  "returns (arm_f0 os fx rn b s)" "returns (cleanup_decoys os fx rn b s)"
  unfolding arm_target_def cleanup_target_def arm_f0_def cleanup_decoys_def
  by (intro returns_intro conclude_returns parts_return [OF assms])+

lemma batches_return:
  assumes "responsive os bound"
  shows "returns (keyed_batch os fx p rn timed b s)" "returns (f0_batch os fx rn timed b s)"
  "returns (s0_cycle os fx rn timed b s)"
  unfolding keyed_batch_def f0_batch_def s0_cycle_def s0_cancel_def Let_def
  by (intro returns_intro conclude_returns parts_return [OF assms] target_returns [OF assms])+

lemma round_returns:
  assumes "responsive os bound"
  shows "returns (run_profile_round os fx p rn units timed s)"
  unfolding run_profile_round_def run_keyed_round_def run_f0_round_def run_s0_round_def run_p0_def Let_def
  by (cases p; simp; intro returns_intro conclude_returns parts_return [OF assms] batches_return [OF assms])

lemma r0_returns:
  assumes "responsive os bound"
  shows "returns (run_r0 os s)"
  unfolding run_r0_def r0_arm_def r0_release_def Let_def
  by (intro returns_intro conclude_returns parts_return [OF assms])

end
