(* ===== verification/Cancel_Main.thy ===== *)
theory Cancel_Main
  imports Cancel_Profiles
begin

text \<open>
  io_uring_cancel_round.c: the command line, the output table and \<open>main\<close>.
\<close>

section \<open>Names\<close>

fun profile_name :: "profile_id \<Rightarrow> string" where
  "profile_name PROFILE_A0_HIT = ''a0_hit''"
| "profile_name PROFILE_A0_MISS = ''a0_miss''"
| "profile_name PROFILE_F0_FD_ALL = ''f0_fd_all''"
| "profile_name PROFILE_S0_SYNC = ''s0_sync''"
| "profile_name PROFILE_P0_PREP = ''p0_prep''"
| "profile_name PROFILE_R0_RELEASE = ''r0_release''"
| "profile_name PROFILE_UNSET = ''unset''"

fun mode_name :: "mode_id \<Rightarrow> string" where
  "mode_name MODE_DESCRIBE = ''describe''"
| "mode_name MODE_SMOKE = ''smoke''"
| "mode_name MODE_TRACE = ''trace''"
| "mode_name MODE_POINT = ''point''"
| "mode_name MODE_UNSET = ''unset''"

fun phase_name :: "phase_id \<Rightarrow> string" where
  "phase_name PHASE_SMOKE = ''smoke''"
| "phase_name PHASE_TRACE = ''trace''"
| "phase_name PHASE_WARMUP = ''warmup''"
| "phase_name PHASE_MEASURED = ''measured''"

section \<open>The output table\<close>

definition result_names :: "string list" where
  "result_names =
     [''schema_version'', ''kernel_release'', ''boot_id'', ''mode'', ''profile'', ''phase'',
      ''round'', ''ring_entries'', ''pending'', ''batches'', ''attempts'',
      ''logical_cancels'', ''poll_submitted'', ''cancel_submitted'',
      ''cancel_ok'', ''cancel_enoent'', ''cancel_other'', ''original_cqes'',
      ''cancel_cqes'', ''decoy_cqes'', ''pending_proofs'', ''unexpected_cqes'',
      ''duplicate_cqes'', ''bad_results'', ''bad_flags'',
      ''eventfd_state_failures'', ''timeouts'', ''sq_dropped'', ''cq_overflow'',
      ''outstanding'', ''timed_ns'', ''ns_per_attempt'', ''cpu'', ''semantic_pass'',
      ''input_sha256'', ''trace_enabled'']"

definition result_header :: string where
  "result_header = join_tabs result_names"

definition result_columns :: "'k os \<Rightarrow> workload \<Rightarrow> options \<Rightarrow> phase_id \<Rightarrow> u32 \<Rightarrow> result \<Rightarrow> string list" where
  "result_columns os work opt phase round_nr r =
     [dec SCHEMA_VERSION, kernel_release work, boot_id work, mode_name (opt_mode opt),
      profile_name (opt_profile opt), phase_name phase, dec (unat round_nr),
      dec (unat RING_ENTRIES), dec PENDING, dec64 (batches r), dec64 (attempts r),
      dec64 (logical_cancels r), dec64 (poll_submitted r), dec64 (cancel_submitted r),
      dec64 (cancel_ok r), dec64 (cancel_enoent r), dec64 (cancel_other r),
      dec64 (original_cqes r), dec64 (cancel_cqes r), dec64 (decoy_cqes r),
      dec64 (pending_proofs r), dec64 (unexpected_cqes r), dec64 (duplicate_cqes r),
      dec64 (bad_results r), dec64 (bad_flags r), dec64 (eventfd_state_failures r),
      dec64 (timeouts r), dec64 (sq_dropped_total r), dec64 (cq_overflow_total r),
      dec64 (outstanding r), dec64 (timed_ns r),
      (if attempts r \<noteq> 0 then os_ratio6 os (timed_ns r) (attempts r) else ''0.000000''),
      dec (unat CONTRACT_CPU), (if semantic_pass r then ''1'' else ''0''), INPUT_SHA256,
      (if opt_mode opt = MODE_TRACE then ''1'' else ''0'')]"

definition result_row :: "'k os \<Rightarrow> workload \<Rightarrow> options \<Rightarrow> phase_id \<Rightarrow> u32 \<Rightarrow> result \<Rightarrow> string" where
  "result_row os work opt phase round_nr r = join_tabs (result_columns os work opt phase round_nr r)"

definition write_result :: "'k os \<Rightarrow> workload \<Rightarrow> options \<Rightarrow> phase_id \<Rightarrow> u32 \<Rightarrow> 'k cancel_machine
    \<Rightarrow> 'k cancel_machine" where
  "write_result os work opt phase round_nr s =
     print_line (result_row os work opt phase round_nr (res s)) s"

section \<open>The command line\<close>

definition work_units :: "profile_id \<Rightarrow> mode_id \<Rightarrow> u32" where
  "work_units profile mode =
     (if profile = PROFILE_S0_SYNC
      then (if mode = MODE_SMOKE then S0_SMOKE_CYCLES
            else if mode = MODE_TRACE then S0_TRACE_CYCLES
            else S0_POINT_CYCLES)
      else if mode = MODE_SMOKE then SMOKE_BATCHES
      else if mode = MODE_TRACE then TRACE_BATCHES
      else POINT_BATCHES)"

definition parse_profile :: "string \<Rightarrow> profile_id option" where
  "parse_profile txt =
     (if txt = ''a0_hit'' then Some PROFILE_A0_HIT
      else if txt = ''a0_miss'' then Some PROFILE_A0_MISS
      else if txt = ''f0_fd_all'' then Some PROFILE_F0_FD_ALL
      else if txt = ''s0_sync'' then Some PROFILE_S0_SYNC
      else if txt = ''p0_prep'' then Some PROFILE_P0_PREP
      else if txt = ''r0_release'' then Some PROFILE_R0_RELEASE
      else None)"

definition parse_mode :: "string \<Rightarrow> mode_id option" where
  "parse_mode txt =
     (if txt = ''describe'' then Some MODE_DESCRIBE
      else if txt = ''smoke'' then Some MODE_SMOKE
      else if txt = ''trace'' then Some MODE_TRACE
      else if txt = ''point'' then Some MODE_POINT
      else None)"

text \<open>\<open>memset(options, 0, sizeof(*options))\<close>\<close>

definition zero_options :: options where
  "zero_options = \<lparr>opt_profile = PROFILE_UNSET, opt_mode = MODE_UNSET,
     opt_output_path = None, opt_execute = False\<rparr>"

text \<open>The loop over \<open>argv[1]\<close> and the rest; \<open>None\<close> is its \<open>return -1\<close>.\<close>

fun parse_args :: "string list \<Rightarrow> options \<Rightarrow> options option" where
  "parse_args [] opt = Some opt"
| "parse_args [arg] opt =
     (if arg = ''--execute'' then Some (opt\<lparr>opt_execute := True\<rparr>) else None)"
| "parse_args (arg # val # rest) opt =
     (if arg = ''--profile'' then
        (case parse_profile val of
           None \<Rightarrow> None
         | Some p \<Rightarrow> parse_args rest (opt\<lparr>opt_profile := p\<rparr>))
      else if arg = ''--mode'' then
        (case parse_mode val of
           None \<Rightarrow> None
         | Some m \<Rightarrow> parse_args rest (opt\<lparr>opt_mode := m\<rparr>))
      else if arg = ''--output'' then parse_args rest (opt\<lparr>opt_output_path := Some val\<rparr>)
      else if arg = ''--execute'' then parse_args (val # rest) (opt\<lparr>opt_execute := True\<rparr>)
      else None)"

definition options_ok :: "options \<Rightarrow> bool" where
  "options_ok opt \<longleftrightarrow>
     opt_profile opt \<noteq> PROFILE_UNSET \<and> opt_mode opt \<noteq> MODE_UNSET \<and>
     (opt_mode opt = MODE_DESCRIBE \<or> opt_execute opt \<and> opt_output_path opt \<noteq> None) \<and>
     \<not> (opt_mode opt = MODE_POINT \<and>
        (opt_profile opt = PROFILE_P0_PREP \<or> opt_profile opt = PROFILE_R0_RELEASE))"

definition parse_options :: "string list \<Rightarrow> options option" where
  "parse_options args =
     (case parse_args args zero_options of
        None \<Rightarrow> None
      | Some opt \<Rightarrow> if options_ok opt then Some opt else None)"

definition describe_text :: "options \<Rightarrow> string" where
  \<open>describe_text opt =
     ''{"profile":"'' @ profile_name (opt_profile opt) @ ''","ring_entries":'' @
     dec (unat RING_ENTRIES) @ '',"pending":'' @ dec PENDING @ '',"point_batches":'' @
     dec (unat (if opt_profile opt = PROFILE_S0_SYNC then S0_POINT_CYCLES else POINT_BATCHES)) @
     '',"warmups":'' @ dec WARMUP_ROUNDS @ '',"measured_rounds":'' @ dec MEASURED_ROUNDS @
     '',"cpu":'' @ dec (unat CONTRACT_CPU) @ '',"input_sha256":"'' @ INPUT_SHA256 @ ''"}''\<close>

section \<open>main\<close>

definition phase_of_mode :: "mode_id \<Rightarrow> phase_id" where
  "phase_of_mode mode = (if mode = MODE_TRACE then PHASE_TRACE else PHASE_SMOKE)"

text \<open>The warm-up and measured rounds of point mode; the result is 0 or the \<open>goto destroy\<close>.\<close>

definition warmup_rounds :: "'k os \<Rightarrow> options \<Rightarrow> fixture \<Rightarrow> 'k cancel_machine
    \<Rightarrow> (int \<times> 'k cancel_machine) option" where
  "warmup_rounds os opt fx =
     for_each (\<lambda>i. run_profile_round os fx (opt_profile opt) (of_nat i)
                     (work_units (opt_profile opt) (opt_mode opt)) False) [0..<WARMUP_ROUNDS]"

definition measured_rounds :: "'k os \<Rightarrow> workload \<Rightarrow> options \<Rightarrow> fixture \<Rightarrow> 'k cancel_machine
    \<Rightarrow> (int \<times> 'k cancel_machine) option" where
  "measured_rounds os work opt fx =
     measured_with (\<lambda>i. result_row os work opt PHASE_MEASURED (of_nat i))
       (\<lambda>i. run_profile_round os fx (opt_profile opt) (of_nat (WARMUP_ROUNDS + i))
                (work_units (opt_profile opt) (opt_mode opt)) True) MEASURED_ROUNDS"

text \<open>What runs between \<open>fixture_init\<close> and the label \<open>destroy\<close>.\<close>

definition run_fixture :: "'k os \<Rightarrow> workload \<Rightarrow> options \<Rightarrow> fixture \<Rightarrow> 'k cancel_machine
    \<Rightarrow> (int \<times> 'k cancel_machine) option" where
  "run_fixture os work opt fx s =
     (if opt_mode opt = MODE_SMOKE \<or> opt_mode opt = MODE_TRACE
      then or_fail (run_profile_round os fx (opt_profile opt) 0
                      (work_units (opt_profile opt) (opt_mode opt)) False s) (\<lambda>s.
           Some (0, write_result os work opt (phase_of_mode (opt_mode opt)) 0 s))
      else or_fail (warmup_rounds os opt fx s) (\<lambda>s.
           or_fail (measured_rounds os work opt fx s) (\<lambda>s. Some (0, s))))"

text \<open>What runs between the opening of the output and the label \<open>out\<close>.\<close>

definition run_output :: "'k os \<Rightarrow> workload \<Rightarrow> options \<Rightarrow> 'k cancel_machine
    \<Rightarrow> (int \<times> 'k cancel_machine) option" where
  "run_output os work opt s =
     (if opt_profile opt = PROFILE_R0_RELEASE
      then or_fail (run_r0 os s) (\<lambda>s.
           Some (0, write_result os work opt (phase_of_mode (opt_mode opt)) 0 s))
      else
        (let (rc, fx, s1) = fixture_init os s
         in if rc \<noteq> 0 then Some (-1, s1)
            else do {
              (rc, s2) \<leftarrow> run_fixture os work opt fx s1;
              Some (rc, snd (fixture_destroy os fx s2))
            }))"

definition run_execute :: "'k os \<Rightarrow> options \<Rightarrow> string \<Rightarrow> 'k cancel_machine
    \<Rightarrow> (int \<times> 'k cancel_machine) option" where
  "run_execute os opt path =
     execute_with CONTRACT_CPU result_header (\<lambda>work. run_output os work opt) os path"

definition main :: "'k os \<Rightarrow> string list \<Rightarrow> 'k cancel_machine \<Rightarrow> (int \<times> 'k cancel_machine) option" where
  "main os argv s =
     (case parse_options (tl argv) of
        None \<Rightarrow> Some (2, s)
      | Some opt \<Rightarrow>
          if opt_mode opt = MODE_DESCRIBE
          then Some (0, s\<lparr>stdout_lines := stdout_lines s @ [describe_text opt]\<rparr>)
          else run_execute os opt (the (opt_output_path opt)) s)"

section \<open>The command line, read back\<close>

lemma parse_profile_iff: "parse_profile txt = Some p \<longleftrightarrow> p \<noteq> PROFILE_UNSET \<and> txt = profile_name p"
  by (cases p) (auto simp: parse_profile_def)

lemma parse_mode_iff: "parse_mode txt = Some m \<longleftrightarrow> m \<noteq> MODE_UNSET \<and> txt = mode_name m"
  by (cases m) (auto simp: parse_mode_def)

text \<open>The arguments that select given options.\<close>

definition option_args :: "options \<Rightarrow> string list" where
  "option_args opt =
     [''--profile'', profile_name (opt_profile opt), ''--mode'', mode_name (opt_mode opt)] @
     (case opt_output_path opt of None \<Rightarrow> [] | Some path \<Rightarrow> [''--output'', path]) @
     (if opt_execute opt then [''--execute''] else [])"

lemma parse_option_args:
  assumes "options_ok opt"
  shows "parse_options (option_args opt) = Some opt"
proof -
  have "parse_profile (profile_name (opt_profile opt)) = Some (opt_profile opt)"
      "parse_mode (mode_name (opt_mode opt)) = Some (opt_mode opt)"
    using assms by (simp_all add: parse_profile_iff parse_mode_iff options_ok_def)
  then have "parse_args (option_args opt) zero_options = Some opt"
    by (cases "opt_output_path opt"; cases "opt_execute opt")
       (simp_all add: option_args_def zero_options_def)
  with assms show ?thesis by (simp add: parse_options_def)
qed

lemma parse_options_ok: "parse_options args = Some opt \<Longrightarrow> options_ok opt"
  by (auto simp: parse_options_def split: option.splits if_splits)

section \<open>The output table, read back\<close>

text \<open>Every counter, by the name of its column.\<close>

definition counter_table :: "result \<Rightarrow> (string \<times> u64) list" where
  "counter_table r =
     [(''batches'', batches r), (''attempts'', attempts r), (''logical_cancels'', logical_cancels r),
      (''poll_submitted'', poll_submitted r), (''cancel_submitted'', cancel_submitted r),
      (''cancel_ok'', cancel_ok r), (''cancel_enoent'', cancel_enoent r),
      (''cancel_other'', cancel_other r), (''original_cqes'', original_cqes r),
      (''cancel_cqes'', cancel_cqes r), (''decoy_cqes'', decoy_cqes r),
      (''pending_proofs'', pending_proofs r), (''unexpected_cqes'', unexpected_cqes r),
      (''duplicate_cqes'', duplicate_cqes r), (''bad_results'', bad_results r),
      (''bad_flags'', bad_flags r), (''eventfd_state_failures'', eventfd_state_failures r),
      (''timeouts'', timeouts r), (''sq_dropped'', sq_dropped_total r),
      (''cq_overflow'', cq_overflow_total r), (''outstanding'', outstanding r),
      (''timed_ns'', timed_ns r)]"

text \<open>The texts that come from outside have no tab in them.\<close>

definition plain_workload :: "'k os \<Rightarrow> workload \<Rightarrow> bool" where
  "plain_workload os work \<longleftrightarrow>
     CHR 0x09 \<notin> set (kernel_release work) \<and> CHR 0x09 \<notin> set (boot_id work) \<and>
     (\<forall>a b. CHR 0x09 \<notin> set (os_ratio6 os a b))"

lemma names_no_tab:
  "CHR 0x09 \<notin> set (profile_name p)" "CHR 0x09 \<notin> set (mode_name m)" "CHR 0x09 \<notin> set (phase_name ph)"
proof -
  show "CHR 0x09 \<notin> set (profile_name p)" by (cases p) simp_all
  show "CHR 0x09 \<notin> set (mode_name m)" by (cases m) simp_all
  show "CHR 0x09 \<notin> set (phase_name ph)" by (cases ph) simp_all
qed

lemma dec64_no_tab: "CHR 0x09 \<notin> set (dec64 x)"
  by (simp add: dec64_def dec_no_tab)

lemma split_result_line:
  assumes "plain_workload os work"
  shows "split_tabs (join_tabs (result_columns os work opt ph rn r)) = result_columns os work opt ph rn r"
proof (rule split_join_tabs)
  show "result_columns os work opt ph rn r \<noteq> []" by (simp add: result_columns_def)
  show "\<forall>c \<in> set (result_columns os work opt ph rn r). CHR 0x09 \<notin> set c"
    using assms
    by (simp add: result_columns_def plain_workload_def names_no_tab dec64_no_tab dec_no_tab
        INPUT_SHA256_def)
qed

lemma split_result_header: "split_tabs result_header = result_names"
  unfolding result_header_def
  by (rule split_join_tabs) (simp_all add: result_names_def)

lemma length_result_columns: "length (result_columns os work opt ph rn r) = length result_names"
  by (simp add: result_columns_def result_names_def)

lemma counter_column:
  assumes "(name, v) \<in> set (counter_table r)"
  shows "map_of (zip result_names (result_columns os work opt ph rn r)) name = Some (dec64 v)"
  using assms
  by (simp add: counter_table_def) (elim disjE; simp add: result_names_def result_columns_def)

section \<open>main\<close>

lemma write_result_restored [simp]: "restored s (write_result os work opt ph rn s)"
  by (simp add: write_result_def print_line_def restored_def)

lemma round_restored: "wp (run_profile_round os fx p rn units timed s) (\<lambda>rc t. restored s t)"
  by (rule restored_outcome [OF run_profile_round_outcome])

lemma run_fixture_restored: "wp (run_fixture os work opt fx s) (\<lambda>rc t. restored s t)"
  unfolding run_fixture_def warmup_rounds_def measured_rounds_def wp_if
  by (intro conjI impI point_rounds_restored wp_or_fail_frame round_restored) simp_all

lemma holds_fixture_restored: "holds_fixture fx s t \<Longrightarrow> restored t u \<Longrightarrow> holds_fixture fx s u"
  by (simp add: holds_fixture_def restored_def)

lemma run_output_gives_back:
  assumes nn: "mmap_nonnull os"
  shows "wp (run_output os work opt s) (given_back os s)"
proof (cases "opt_profile opt = PROFILE_R0_RELEASE")
  case True
  have "wp (or_fail (run_r0 os s) (\<lambda>s. Some (0, write_result os work opt
      (phase_of_mode (opt_mode opt)) 0 s))) (given_back os s)"
    unfolding or_fail_def
    by (rule wp_bindI [OF run_r0_restores [OF nn]])
       (auto simp: given_back_def ring_left_def restored_def write_result_def print_line_def)
  with True show ?thesis by (simp add: run_output_def)
next
  case False
  obtain rc fx s1 where f: "fixture_init os s = (rc, fx, s1)" by (cases "fixture_init os s") auto
  note fi = fixture_init_holds [OF nn f]
  have "wp (do { (rc, s2) \<leftarrow> run_fixture os work opt fx s1; Some (rc, snd (fixture_destroy os fx s2)) })
      (given_back os s)" if h: "holds_fixture fx s s1"
  proof (rule wp_bindI [OF run_fixture_restored])
    fix rc s2 assume "restored s1 s2"
    then show "wp (Some (rc, snd (fixture_destroy os fx s2))) (given_back os s)"
      using fixture_destroy_restores(1) [OF holds_fixture_restored [OF h]]
      by (simp add: given_back_restored)
  qed
  with False fi show ?thesis by (cases "rc = 0") (auto simp: run_output_def f)
qed

lemma run_execute_gives_back:
  assumes nn: "mmap_nonnull os"
  shows "wp (run_execute os opt path s) (given_back os s)"
  unfolding run_execute_def
proof (rule execute_with_wp [OF run_output_gives_back [OF nn]])
  fix work :: workload and t u v :: "'a cancel_machine" and rc :: int
  assume t: "same_process s t" and u: "given_back os (print_line result_header t) rc u"
    and v: "same_process u v"
  have moved: "given_back os s code v" if "rc \<noteq> 0 \<Longrightarrow> code \<noteq> 0" for code
    using u that restored_process [OF v]
    by (rule given_back_moved) (use t in \<open>simp_all add: same_process_D print_line_def\<close>)
  show "given_back os s (if rc = 0 then EXIT_SUCCESS else EXIT_FAILURE) v" "given_back os s EXIT_FAILURE v"
    by (rule moved; simp add: EXIT_FAILURE_def)+
qed (auto intro: given_back_restored restored_process)

lemma main_given_back:
  assumes "mmap_nonnull os"
  shows "wp (main os argv s) (given_back os s)"
  using run_execute_gives_back [OF assms]
  by (auto simp: main_def given_back_def restored_def split: option.split)

subsection \<open>It comes back\<close>

lemma run_output_returns:
  assumes "responsive os bound"
  shows "returns (run_output os work opt s)"
  unfolding run_output_def run_fixture_def warmup_rounds_def measured_rounds_def Let_def
  by (intro returns_intro round_returns [OF assms] r0_returns [OF assms])

lemma main_returns:
  assumes "responsive os bound"
  shows "returns (main os argv s)"
  using execute_with_returns [OF run_output_returns [OF assms]]
  by (simp add: main_def run_execute_def split: option.split)

lemma main_exit_code: "wp (main os argv s) (\<lambda>code t. code = 0 \<or> code = 1 \<or> code = 2)"
proof -
  have "wp (run_execute os opt path t) (\<lambda>code t. code = 0 \<or> code = 1 \<or> code = 2)" for opt path t
    unfolding run_execute_def by (rule wp_mono [OF execute_with_exit_code]) auto
  then show ?thesis by (simp add: main_def split: option.split)
qed

subsection \<open>What it has written\<close>

text \<open>What the rounds of a run copy, round by round.\<close>

definition round_ok :: "options \<Rightarrow> nat \<Rightarrow> cqe list list \<Rightarrow> bool" where
  "round_ok opt i = seen_by (opt_profile opt) (of_nat i) (work_units (opt_profile opt) (opt_mode opt))"

lemma round_done:
  "wp (run_profile_round os fx (opt_profile opt) (of_nat i) (work_units (opt_profile opt) (opt_mode opt)) timed t)
     (outcome (round_outcome_of semantic_pass (round_ok opt i) t) t)"
  using run_profile_round_outcome
  by (rule outcome_mono) (auto simp: round_outcome_of_def round_ok_def)

lemma raw_ring_init_data: "raw_ring_init os s = (rc, ring, t) \<Longrightarrow> same_data s t"
  unfolding raw_ring_init_def by (rule ring_bringup_data)

lemma new_eventfd_data: "new_eventfd os s = (fd, t) \<Longrightarrow> same_data s t"
  by (auto simp: new_eventfd_def sys_def open_fd_def same_data_def split_beta Let_def)

lemma fixture_init_data: "fixture_init os s = (rc, fx, t) \<Longrightarrow> same_data s t"
  by (auto simp: fixture_init_def Let_def split: prod.splits if_splits
      dest!: raw_ring_init_data new_eventfd_data intro: same_data_trans)

lemma fixture_destroy_data: "same_data t (snd (fixture_destroy os fx t))"
  by (simp add: fixture_destroy_def same_data_def split_beta Let_def)

text \<open>Point mode: three warm-up and fifteen measured rounds have passed, one row for each of the latter.\<close>

definition run_done :: "'k os \<Rightarrow> workload \<Rightarrow> options \<Rightarrow> 'k cancel_machine \<Rightarrow> 'k cancel_machine \<Rightarrow> bool" where
  "run_done os work opt =
     point_done semantic_pass (round_ok opt) (\<lambda>i. result_row os work opt PHASE_MEASURED (of_nat i)) 3 15"

lemma run_done_data:
  "run_done os work opt t u \<Longrightarrow> same_data s t \<Longrightarrow> same_data u v \<Longrightarrow> run_done os work opt s v"
  unfolding run_done_def by (rule point_done_data)

lemma run_fixture_point:
  assumes "opt_mode opt = MODE_POINT"
  shows "wp (run_fixture os work opt fx s) (\<lambda>rc t. rc = 0 \<longrightarrow> run_done os work opt s t)"
proof -
  have "wp (or_fail (for_each (\<lambda>i. run_profile_round os fx (opt_profile opt) (of_nat i)
             (work_units (opt_profile opt) (opt_mode opt)) False) [0..<3] s) (\<lambda>s.
           or_fail (measured_with (\<lambda>i. result_row os work opt PHASE_MEASURED (of_nat i))
             (\<lambda>i. run_profile_round os fx (opt_profile opt) (of_nat (3 + i))
                (work_units (opt_profile opt) (opt_mode opt)) True) 15 s) (\<lambda>s. Some (0, s))))
    (\<lambda>rc t. rc = 0 \<longrightarrow> run_done os work opt s t)"
    unfolding run_done_def by (rule point_rounds_done) (rule round_done)+
  with assms show ?thesis
    by (simp add: run_fixture_def warmup_rounds_def measured_rounds_def WARMUP_ROUNDS_def MEASURED_ROUNDS_def)
qed

lemma run_output_point:
  assumes "opt_mode opt = MODE_POINT" and "options_ok opt"
  shows "wp (run_output os work opt s) (\<lambda>rc t. rc = 0 \<longrightarrow> run_done os work opt s t)"
proof -
  obtain rc fx s1 where f: "fixture_init os s = (rc, fx, s1)" by (cases "fixture_init os s") auto
  have "wp (do { (rc, s2) \<leftarrow> run_fixture os work opt fx s1; Some (rc, snd (fixture_destroy os fx s2)) })
      (\<lambda>rc t. rc = 0 \<longrightarrow> run_done os work opt s t)"
    by (rule wp_bindI [OF run_fixture_point [OF assms(1)]])
       (use run_done_data [OF _ fixture_init_data [OF f] fixture_destroy_data] in auto)
  moreover have "opt_profile opt \<noteq> PROFILE_R0_RELEASE"
    using assms by (auto simp: options_ok_def)
  ultimately show ?thesis by (simp add: run_output_def f)
qed

lemma run_execute_point:
  assumes "opt_mode opt = MODE_POINT" and "options_ok opt"
  shows "wp (run_execute os opt path s) (\<lambda>rc t. rc = 0 \<longrightarrow>
    (\<exists>work. run_done os work opt (print_line result_header s) t))"
  unfolding run_execute_def by (rule execute_with_done [OF run_output_point [OF assms] run_done_data])

end
