(* ===== verification/Simple_System.thy ===== *)
theory Simple_System
  imports Round_Program
begin

text \<open>
  Two concrete systems, on which the hypotheses of the properties can be seen to hold. On the
  first every call succeeds at once, nothing happens in between, and no completion is ever
  posted. The second one answers: it completes the requests submitted to it, so that whole
  runs of the programs end with 0 on it.
\<close>

section \<open>A system that posts nothing\<close>

definition simple_os :: "unit os" where
  "simple_os = \<lparr>os_async = (\<lambda>x. (False, x)),
     os_setup = (\<lambda>n p x. (((3, 0), p), x)),
     os_enter = (\<lambda>fd n m fl arg x. ((sint n, 0), x)),
     os_register = (\<lambda>fd req x. ((0, 0), x)),
     os_probe = (\<lambda>fd n x. (Some [], x)),
     os_mmap = (\<lambda>n fd off x. (Some 4096, x)),
     os_close = (\<lambda>fd x. ((0, 0), x)),
     os_eventfd = (\<lambda>x. ((4, 0), x)),
     os_memfd = (\<lambda>x. ((5, 0), x)),
     os_read8 = (\<lambda>fd x. ((-1, EAGAIN), x)),
     os_pwrite = (\<lambda>fd bs x. ((int (length bs), 0), x)),
     os_clock = (\<lambda>x. (Some (1, 0), x)),
     os_read_file = (\<lambda>path n x. (Some ''id'', x)),
     os_nprocs = (\<lambda>x. (4, x)),
     os_setaffinity = (\<lambda>cpu x. ((0, 0), x)),
     os_getcpu = (\<lambda>x. (2, x)),
     os_opendir = (\<lambda>x. (Some [''.'', ''..'', ''0''], x)),
     os_signal = (\<lambda>x. (True, x)),
     os_uname = (\<lambda>x. (Some ''7.1.3'', x)),
     os_fopen = (\<lambda>path x. (True, x)),
     os_fclose = (\<lambda>x. (True, x)),
     os_calloc = (\<lambda>x. (True, x)),
     os_ratio6 = (\<lambda>a b. ''1.000000'')\<rparr>"

text \<open>A ring with \<open>2 ^ k\<close> entries on either side, both queues empty.\<close>

definition empty_ring :: "nat \<Rightarrow> ring_mem" where
  "empty_ring k = \<lparr>sq_head = 0, sq_tail = 0, sq_mask = mask k, sq_entries = 2 ^ k, sq_dropped = 0,
     sq_array = (\<lambda>i. 0), sqes = (\<lambda>i. zero_sqe), cq_head = 0, cq_tail = 0, cq_mask = mask k,
     cq_entries = 2 ^ k, cq_overflow = 0,
     cqes = (\<lambda>i. \<lparr>cqe_user_data = 0, cqe_res = 0, cqe_flags = 0\<rparr>)\<rparr>"

definition simple_machine :: "nat \<Rightarrow> 'r \<Rightarrow> (unit, 'r) machine" where
  "simple_machine k r = \<lparr>sh = \<lparr>sh_rings = (\<lambda>fd. empty_ring k), sh_umem = (\<lambda>a. 0), sh_kst = ()\<rparr>,
     errno = 0, stop_requested = False, vmas = [], open_fds = [], out_lines = [],
     stdout_lines = [], res = r, reaped = []\<rparr>"

lemma simple_nonnull: "mmap_nonnull simple_os"
  by (simp add: mmap_nonnull_def simple_os_def)

lemma simple_private: "sq_private simple_os fd"
  by (simp add: sq_private_def simple_os_def)

lemma simple_eintr: "eintr_bounded simple_os (\<lambda>x. 0)"
  by (simp add: eintr_bounded_def eintr_drops_def simple_os_def EINTR_def)

lemma ring_at_simple [simp]: "ring_at (simple_machine k r) fd = empty_ring k"
  by (simp add: ring_at_def simple_machine_def)

lemma empty_ring_queue:
  "sq_count (empty_ring k) = 0" "sq_capacity (empty_ring k) = unat (2 ^ k :: u32)"
  "k < 32 \<Longrightarrow> sq_wf (empty_ring k)" "sq_pending (empty_ring k) = []"
  by (auto simp: sq_count_def sq_capacity_def sq_wf_def sq_pending_def empty_ring_def)


section \<open>A system that answers\<close>

text \<open>
  The kernel state is the next free descriptor. A request is answered in the call that submits
  it: a nop with 0, a wait for a futex with 0 and a wake-up with 1, a message on both rings,
  with 0 on its own and with its word on the other; a poll stays pending until it is cancelled.
\<close>

definition answer_cqe :: "u64 \<Rightarrow> s32 \<Rightarrow> cqe" where
  "answer_cqe ud rs = \<lparr>cqe_user_data = ud, cqe_res = rs, cqe_flags = 0\<rparr>"

definition answers :: "int \<Rightarrow> sqe \<Rightarrow> (int \<times> cqe) list" where
  "answers fd q =
     (if sqe_opcode q = IORING_OP_NOP \<or> sqe_opcode q = IORING_OP_FUTEX_WAIT
      then [(fd, answer_cqe (sqe_user_data q) 0)]
      else if sqe_opcode q = IORING_OP_FUTEX_WAKE then [(fd, answer_cqe (sqe_user_data q) 1)]
      else if sqe_opcode q = IORING_OP_MSG_RING
      then [(fd, answer_cqe (sqe_user_data q) 0), (sqe_fd q, answer_cqe (sqe_off q) (ucast (sqe_len q)))]
      else [])"

definition push_cqe :: "cqe \<Rightarrow> ring_mem \<Rightarrow> ring_mem" where
  "push_cqe c m = m\<lparr>cqes := (cqes m)(cq_tail m AND cq_mask m := c), cq_tail := cq_tail m + 1\<rparr>"

definition post_cqe :: "int \<times> cqe \<Rightarrow> 'k shared \<Rightarrow> 'k shared" where
  "post_cqe p x = x\<lparr>sh_rings := (sh_rings x)(fst p := push_cqe (snd p) (sh_rings x (fst p)))\<rparr>"

text \<open>All entries submitted are consumed and answered in their order.\<close>

definition answer_all :: "int \<Rightarrow> 'k shared \<Rightarrow> 'k shared" where
  "answer_all fd x =
     (let m = sh_rings x fd
      in fold post_cqe (concat (map (answers fd) (sq_pending m)))
           (x\<lparr>sh_rings := (sh_rings x)(fd := m\<lparr>sq_head := sq_tail m\<rparr>)\<rparr>))"

definition answer_request :: "int \<Rightarrow> register_req \<Rightarrow> 'k shared \<Rightarrow> 'k shared" where
  "answer_request fd req x =
     (case req of
        REGISTER_SYNC_CANCEL r \<Rightarrow> post_cqe (fd, answer_cqe (sc_addr r) (neg_errno ECANCELED)) x
      | _ \<Rightarrow> x)"

definition answering_os :: "int os" where
  "answering_os = \<lparr>os_async = (\<lambda>x. (False, x)),
     os_setup = (\<lambda>n p x. (((sh_kst x, 0), p), x\<lparr>sh_kst := sh_kst x + 1\<rparr>)),
     os_enter = (\<lambda>fd n m fl arg x. ((sint n, 0), answer_all fd x)),
     os_register = (\<lambda>fd req x. ((0, 0), answer_request fd req x)),
     os_probe = (\<lambda>fd n x. (Some (map (\<lambda>k. \<lparr>probe_opcode_nr = of_nat k, probe_supported = True\<rparr>) [0..<64]), x)),
     os_mmap = (\<lambda>n fd off x. (Some 4096, x)),
     os_close = (\<lambda>fd x. ((0, 0), x)),
     os_eventfd = (\<lambda>x. ((sh_kst x, 0), x\<lparr>sh_kst := sh_kst x + 1\<rparr>)),
     os_memfd = (\<lambda>x. ((sh_kst x, 0), x\<lparr>sh_kst := sh_kst x + 1\<rparr>)),
     os_read8 = (\<lambda>fd x. ((-1, EAGAIN), x)),
     os_pwrite = (\<lambda>fd bs x. ((int (length bs), 0), x)),
     os_clock = (\<lambda>x. (Some (1, 0), x)),
     os_read_file = (\<lambda>path n x. (Some ''id'', x)),
     os_nprocs = (\<lambda>x. (4, x)),
     os_setaffinity = (\<lambda>cpu x. ((0, 0), x)),
     os_getcpu = (\<lambda>x. (2, x)),
     os_opendir = (\<lambda>x. (Some [''.'', ''..'', ''0''], x)),
     os_signal = (\<lambda>x. (True, x)),
     os_uname = (\<lambda>x. (Some ''7.1.3'', x)),
     os_fopen = (\<lambda>path x. (True, x)),
     os_fclose = (\<lambda>x. (True, x)),
     os_calloc = (\<lambda>x. (True, x)),
     os_ratio6 = (\<lambda>a b. ''1.000000'')\<rparr>"

definition answering_machine :: "nat \<Rightarrow> 'r \<Rightarrow> (int, 'r) machine" where
  "answering_machine k r = \<lparr>sh = \<lparr>sh_rings = (\<lambda>fd. empty_ring k), sh_umem = (\<lambda>a. 0), sh_kst = 3\<rparr>,
     errno = 0, stop_requested = False, vmas = [], open_fds = [], out_lines = [],
     stdout_lines = [], res = r, reaped = []\<rparr>"

lemma answering_nonnull: "mmap_nonnull answering_os"
  by (simp add: mmap_nonnull_def answering_os_def)

lemma answering_private: "sq_private answering_os fd"
  by (simp add: sq_private_def answering_os_def)

subsection \<open>Its rings\<close>

text \<open>A ring with the requests \<open>qs\<close> to be submitted and the completions \<open>cs\<close> to be reaped.\<close>

definition ring_ok :: "nat \<Rightarrow> sqe list \<Rightarrow> cqe list \<Rightarrow> ring_mem \<Rightarrow> bool" where
  "ring_ok k qs cs m \<longleftrightarrow> sq_wf m \<and> sq_entries m = 2 ^ k \<and> sq_pending m = qs \<and> k < 32 \<and>
     cq_mask m = mask k \<and> cq_entries m = 2 ^ k \<and> cq_pending m = cs \<and> length cs \<le> 2 ^ k \<and>
     sq_dropped m = 0 \<and> cq_overflow m = 0"

lemma unat_small: "n < 2 ^ 32 \<Longrightarrow> unat (of_nat n :: u32) = n"
  by (simp add: unat_of_nat)

lemma cq_slots_apart:
  fixes m :: ring_mem
  assumes "k < 32" and "cq_mask m = mask k" and "i < 2 ^ k" and "j < 2 ^ k" and "i \<noteq> j"
  shows "(cq_head m + of_nat i) AND cq_mask m \<noteq> (cq_head m + of_nat j) AND cq_mask m"
  using sq_slot_inject [of k "m\<lparr>sq_mask := cq_mask m, sq_head := cq_head m\<rparr>" i j] assms
  by (auto simp: sq_slot_def)

lemma push_cqe_sq [simp]:
  "sq_wf (push_cqe c m) = sq_wf m" "sq_entries (push_cqe c m) = sq_entries m"
  "sq_pending (push_cqe c m) = sq_pending m" "sq_dropped (push_cqe c m) = sq_dropped m"
  "cq_mask (push_cqe c m) = cq_mask m" "cq_entries (push_cqe c m) = cq_entries m"
  "cq_overflow (push_cqe c m) = cq_overflow m" "cq_head (push_cqe c m) = cq_head m"
  by (simp_all add: push_cqe_def sq_wf_def sq_pending_def sq_count_def sq_capacity_def sq_slot_def)

lemma ring_ok_push:
  assumes ok: "ring_ok k qs cs m" and room: "length cs < 2 ^ k"
  shows "ring_ok k qs (cs @ [c]) (push_cqe c m)"
proof -
  have k: "k < 32" "cq_mask m = mask k" and cs: "cq_pending m = cs" using ok by (auto simp: ring_ok_def)
  let ?n = "cq_count m"
  have n: "?n = length cs" using cs by auto
  have pow: "(2 :: nat) ^ k < 2 ^ 32" using k(1) by (intro power_strict_increasing) auto
  have tail: "cq_tail m = cq_head m + of_nat ?n" by (simp add: cq_count_def)
  have "unat (cq_tail m + 1 - cq_head m) = unat (of_nat (Suc ?n) :: u32)" by (simp add: tail add.commute)
  also have "\<dots> = Suc ?n" using n room pow by (intro unat_small) simp
  finally have count: "cq_count (push_cqe c m) = Suc ?n"
    by (simp add: cq_count_def push_cqe_def)
  have old: "cqes (push_cqe c m) ((cq_head m + of_nat i) AND cq_mask m) =
      cqes m ((cq_head m + of_nat i) AND cq_mask m)" if "i < ?n" for i
    using cq_slots_apart [OF k, of i ?n] that n room by (simp add: push_cqe_def tail)
  have new: "cqes (push_cqe c m) ((cq_head m + of_nat ?n) AND cq_mask m) = c"
    by (simp add: push_cqe_def tail)
  have "cq_pending (push_cqe c m) =
      map (\<lambda>i. cqes (push_cqe c m) ((cq_head m + of_nat i) AND cq_mask m)) [0..<?n] @ [c]"
    using new by (simp add: cq_pending_def count)
  also have "map (\<lambda>i. cqes (push_cqe c m) ((cq_head m + of_nat i) AND cq_mask m)) [0..<?n] = cs"
    unfolding cs [symmetric] cq_pending_def by (rule map_cong) (simp_all add: old)
  finally have "cq_pending (push_cqe c m) = cs @ [c]" .
  then show ?thesis using ok room by (simp add: ring_ok_def)
qed

lemma ring_ok_consume:
  assumes "ring_ok k qs cs m"
  shows "ring_ok k [] cs (m\<lparr>sq_head := sq_tail m\<rparr>)"
  using assms by (auto simp: ring_ok_def sq_wf_def sq_pending_def sq_count_def cq_pending_def cq_count_def)

lemma ring_ok_enqueue:
  assumes ok: "ring_ok k qs cs m" and room: "length qs < 2 ^ k"
  shows "\<exists>m'. sq_enqueue q m = Some m' \<and> ring_ok k (qs @ [q]) cs m'"
proof -
  have "(2 :: nat) ^ k < 2 ^ 32" using ok by (intro power_strict_increasing) (auto simp: ring_ok_def)
  then have "sq_capacity m = 2 ^ k" using ok unat_small [of "2 ^ k"]
    by (simp add: ring_ok_def sq_capacity_def)
  then have "sq_count m < sq_capacity m" using ok room by (auto simp: ring_ok_def)
  then obtain m' where m': "sq_enqueue q m = Some m'" "sq_pending m' = sq_pending m @ [q]" "sq_wf m'"
    using sq_enqueue_room [of m q] ok by (auto simp: ring_ok_def)
  moreover have "sq_entries m' = sq_entries m" "cq_mask m' = cq_mask m" "cq_entries m' = cq_entries m"
      "cq_pending m' = cq_pending m" "sq_dropped m' = sq_dropped m" "cq_overflow m' = cq_overflow m"
    using m'(1) by (auto simp: sq_enqueue_def cq_pending_def cq_count_def Let_def split: if_splits)
  ultimately show ?thesis using ok by (auto simp: ring_ok_def)
qed

lemma ring_ok_reap:
  assumes ok: "ring_ok k qs cs m" and n: "length cs = unat n"
  shows "ring_ok k qs [] (m\<lparr>cq_head := cq_head m + n\<rparr>)"
proof -
  have "cq_count m = unat n" using ok n by (auto simp: ring_ok_def)
  then have "cq_pending (m\<lparr>cq_head := cq_head m + n\<rparr>) = []" using cq_advance_pending [of n m] by simp
  then show ?thesis
    using ok by (auto simp: ring_ok_def sq_wf_def sq_pending_def sq_count_def sq_capacity_def sq_slot_def)
qed

lemma ring_ok_left:
  assumes "ring_ok k qs cs m"
  shows "cq_tail m - cq_head m = of_nat (length cs)" "sq_tail m - sq_head m = of_nat (length qs)"
  using assms by (auto simp: ring_ok_def cq_count_def sq_count_def)

text \<open>
  All rings of the machine, with the requests \<open>Q\<close> and the completions \<open>C\<close>; no signal has come.
\<close>

definition looks :: "nat \<Rightarrow> (int \<Rightarrow> sqe list) \<Rightarrow> (int \<Rightarrow> cqe list) \<Rightarrow> (int, 'r) machine \<Rightarrow> bool" where
  "looks k Q C s \<longleftrightarrow> \<not> stop_requested s \<and> (\<forall>fd. ring_ok k (Q fd) (C fd) (ring_at s fd))"

lemma looks_ring: "looks k Q C s \<Longrightarrow> ring_ok k (Q fd) (C fd) (ring_at s fd)"
  by (simp add: looks_def)

lemma looks_start: "k < 32 \<Longrightarrow> looks k (\<lambda>fd. []) (\<lambda>fd. []) (answering_machine k r)"
  by (auto simp: looks_def answering_machine_def ring_at_def ring_ok_def empty_ring_queue
      empty_ring_def cq_pending_def cq_count_def sq_pending_def sq_count_def sq_wf_def)

lemma looks_cong:
  "looks k Q C s \<Longrightarrow> (\<And>d. Q' d = Q d) \<Longrightarrow> (\<And>d. C' d = C d) \<Longrightarrow> looks k Q' C' s"
  by (simp add: looks_def)

lemma looks_same:
  "looks k Q C s \<Longrightarrow> sh_rings (sh t) = sh_rings (sh s) \<Longrightarrow> stop_requested t = stop_requested s \<Longrightarrow> looks k Q C t"
  by (simp add: looks_def ring_at_def)

lemma looks_upd_res [simp]: "looks k Q C (upd_res f s) = looks k Q C s"
  by (simp add: looks_def)

lemma looks_upd_ring:
  assumes "looks k Q C s" and "ring_ok k qs cs (f (ring_at s fd))"
  shows "looks k (Q(fd := qs)) (C(fd := cs)) (upd_ring fd f s)"
  using assms by (simp add: looks_def)

lemma upd_ring_cong: "f (ring_at s fd) = g (ring_at s fd) \<Longrightarrow> upd_ring fd f s = upd_ring fd g s"
  by (simp add: upd_ring_def ring_at_def)

lemma upd_ring_twice: "upd_ring fd f (upd_ring fd g s) = upd_ring fd (\<lambda>m. f (g m)) s"
  by (simp add: upd_ring_def)

subsection \<open>The calls on it\<close>

lemma answering_async [simp]: "async answering_os s = s"
  by (simp add: async_def answering_os_def)

lemma answering_loads [simp]:
  "load_acquire answering_os ring f s = (f (ring_at s (ring_fd ring)), s)"
  "read_stop answering_os s = (stop_requested s, s)"
  "cq_available answering_os ring s =
     (cq_tail (ring_at s (ring_fd ring)) - cq_head (ring_at s (ring_fd ring)), s)"
  by (simp_all add: load_acquire_def read_stop_def cq_available_def Let_def)

lemma answering_now [simp]:
  "now_ns answering_os s = Some (1000000000, s)"
  "now_if timed answering_os s = Some (if timed then 1000000000 else 0, s)"
  by (simp_all add: now_ns_def now_if_def ask_def answering_os_def)

definition succeeds :: "(int \<times> 's) option \<Rightarrow> ('s \<Rightarrow> bool) \<Rightarrow> bool" where
  "succeeds m P \<longleftrightarrow> (\<exists>t. m = Some (0, t) \<and> P t)"

lemma succeeds_Some [simp]: "succeeds (Some (rc, t)) P \<longleftrightarrow> rc = 0 \<and> P t"
  by (auto simp: succeeds_def)

lemma succeeds_mono: "succeeds m P \<Longrightarrow> (\<And>t. P t \<Longrightarrow> Q t) \<Longrightarrow> succeeds m Q"
  by (auto simp: succeeds_def)

lemma succeeds_or_fail:
  "succeeds m P \<Longrightarrow> (\<And>t. P t \<Longrightarrow> succeeds (f t) Q) \<Longrightarrow> succeeds (or_fail m f) Q"
  by (auto simp: succeeds_def or_fail_def)

lemma succeeds_or_fail_copy:
  "succeeds (map_option (\<lambda>(a, t). (fst a, (snd a, t))) m) (\<lambda>(cs, t). P cs t) \<Longrightarrow>
    (\<And>cs t. P cs t \<Longrightarrow> succeeds (f cs t) Q) \<Longrightarrow> succeeds (or_fail_copy m f) Q"
  by (auto simp: succeeds_def or_fail_copy_def)

lemma succeeds_wp: "succeeds m P \<Longrightarrow> wp m (\<lambda>rc t. rc = 0 \<longrightarrow> Q t) \<Longrightarrow> succeeds m (\<lambda>t. P t \<and> Q t)"
  by (auto simp: succeeds_def)

lemma succeeds_for_each:
  assumes "\<And>i s. m \<le> i \<Longrightarrow> i < n \<Longrightarrow> P i s \<Longrightarrow> succeeds (f i s) (P (Suc i))"
    and "P m s" and "m \<le> n"
  shows "succeeds (for_each f [m..<n] s) (P n)"
  using assms
proof (induction "n - m" arbitrary: m s)
  case 0
  then show ?case by simp
next
  case (Suc d)
  then have mn: "m < n" by simp
  then obtain t where "f m s = Some (0, t)" "P (Suc m) t"
    using Suc.prems(1) [of m s] Suc.prems(2) by (auto simp: succeeds_def)
  with Suc mn show ?case by (simp add: upt_conv_Cons)
qed

lemma succeeds_round_loop:
  assumes "\<And>i s. m \<le> i \<Longrightarrow> i < n \<Longrightarrow> P i s \<Longrightarrow> succeeds (body i s) (P (Suc i))"
    and "\<And>i s. P i s \<Longrightarrow> \<not> stop_requested s" and "P m s" and "m \<le> n"
  shows "succeeds (round_loop answering_os body [m..<n] s) (P n)"
  using assms
proof (induction "n - m" arbitrary: m s)
  case 0
  then show ?case by simp
next
  case (Suc d)
  then have mn: "m < n" by simp
  then obtain t where "body m s = Some (0, t)" "P (Suc m) t" "\<not> stop_requested s"
    using Suc.prems(1) [of m s] Suc.prems(2) [of m s] Suc.prems(3) by (auto simp: succeeds_def)
  with Suc mn show ?case by (simp add: upt_conv_Cons)
qed

text \<open>The completions posted for the ring \<open>d\<close> when the requests \<open>qs\<close> of the ring \<open>fd\<close> are submitted.\<close>

definition posted :: "int \<Rightarrow> sqe list \<Rightarrow> int \<Rightarrow> cqe list" where
  "posted fd qs d = map snd (filter (\<lambda>p. fst p = d) (concat (map (answers fd) qs)))"

lemma posted_own:
  "(\<And>q. q \<in> set qs \<Longrightarrow> answers fd q = [(fd, g q)]) \<Longrightarrow> posted fd qs d = (if d = fd then map g qs else [])"
  by (induction qs) (auto simp: posted_def)

lemma answering_posts:
  assumes "\<And>d. ring_ok k (Q d) (C d) (sh_rings x d)"
    and "\<And>d. length (C d) + length (filter (\<lambda>p. fst p = d) ps) \<le> 2 ^ k"
  shows "ring_ok k (Q d) (C d @ map snd (filter (\<lambda>p. fst p = d) ps)) (sh_rings (fold post_cqe ps x) d)"
  using assms
proof (induction ps arbitrary: C x)
  case Nil
  then show ?case by simp
next
  case (Cons p ps)
  obtain fd c where p: "p = (fd, c)" by (cases p)
  let ?C = "C(fd := C fd @ [c])" and ?x = "post_cqe p x"
  have room: "length (C fd) < 2 ^ k" using Cons.prems(2) [of fd] p by simp
  have "ring_ok k (Q e) (?C e) (sh_rings ?x e)" for e
    using ring_ok_push [OF Cons.prems(1) room, of c] Cons.prems(1) by (simp add: post_cqe_def p)
  moreover have "length (?C e) + length (filter (\<lambda>p. fst p = e) ps) \<le> 2 ^ k" for e
    using Cons.prems(2) [of e] by (auto simp: p split: if_splits)
  ultimately have "ring_ok k (Q d) (?C d @ map snd (filter (\<lambda>p. fst p = d) ps)) (sh_rings (fold post_cqe ps ?x) d)"
    by (rule Cons.IH)
  then show ?case by (auto simp: p)
qed

lemma answering_queue:
  assumes l: "looks k Q C s" and room: "length (Q (ring_fd ring)) < 2 ^ k"
  shows "succeeds (queue_with answering_os ring f s)
    (\<lambda>t. looks k (Q(ring_fd ring := Q (ring_fd ring) @ [f zero_sqe])) C t \<and> same_process s t)"
proof -
  let ?fd = "ring_fd ring" and ?m = "ring_at s (ring_fd ring)"
  let ?i = "sq_tail ?m AND sq_mask ?m"
  obtain m' where m': "sq_enqueue (f zero_sqe) ?m = Some m'" "ring_ok k (Q ?fd @ [f zero_sqe]) (C ?fd) m'"
    using ring_ok_enqueue [OF looks_ring [OF l] room] by blast
  let ?g = "\<lambda>m. (\<lambda>m. m\<lparr>sqes := (sqes m)(?i := f (sqes m ?i))\<rparr>)
      (sq_tail_update (\<lambda>_. sq_tail ?m + 1)
        (m\<lparr>sqes := (sqes m)(?i := zero_sqe), sq_array := (sq_array m)(?i := ?i)\<rparr>))"
  have "queue_with answering_os ring f s = Some (0, upd_ring ?fd ?g s)"
    using m'(1) by (simp add: queue_with_def queue_sqe_def sq_enqueue_def store_release_def
        fill_sqe_def upd_ring_twice Let_def split: if_splits)
  moreover have g: "?g ?m = m'" using m'(1) by (auto simp: sq_enqueue_def Let_def split: if_splits)
  then have "looks k (Q(?fd := Q ?fd @ [f zero_sqe])) (C(?fd := C ?fd)) (upd_ring ?fd ?g s)"
    using looks_upd_ring [OF l, of "Q ?fd @ [f zero_sqe]" "C ?fd" ?g ?fd] m'(2) by simp
  ultimately show ?thesis by (simp add: succeeds_def)
qed

text \<open>A loop that queues \<open>n\<close> requests on an empty ring.\<close>

lemma answering_queue_loop:
  assumes l: "looks k (\<lambda>d. []) C s" and room: "n \<le> 2 ^ k"
  shows "\<exists>t. for_each (\<lambda>i. queue_with answering_os ring (f i)) [0..<n] s = Some (0, t) \<and> same_process s t \<and>
    looks k (\<lambda>d. if d = ring_fd ring then map (\<lambda>i. f i zero_sqe) [0..<n] else []) C t"
proof -
  let ?Q = "\<lambda>i d. if d = ring_fd ring then map (\<lambda>i. f i zero_sqe) [0..<i] else []"
  have "succeeds (for_each (\<lambda>i. queue_with answering_os ring (f i)) [0..<n] s)
      (\<lambda>t. looks k (?Q n) C t \<and> same_process s t)"
  proof (rule succeeds_for_each)
    fix i t assume i: "i < n" and t: "looks k (?Q i) C t \<and> same_process s t"
    show "succeeds (queue_with answering_os ring (f i) t) (\<lambda>t. looks k (?Q (Suc i)) C t \<and> same_process s t)"
      by (rule succeeds_mono [OF answering_queue [OF conjunct1 [OF t]]])
         (use i t room in \<open>auto simp: fun_upd_def elim: looks_cong intro: same_process_trans\<close>)
  qed (use l in \<open>auto elim: looks_cong\<close>)
  then show ?thesis by (auto simp: succeeds_def)
qed

lemma answering_enter_call:
  assumes l: "looks k Q C s" and room: "\<And>d. length (C d) + length (posted fd (Q fd) d) \<le> 2 ^ k"
  shows "looks k (Q(fd := [])) (\<lambda>d. C d @ posted fd (Q fd) d) (s\<lparr>sh := answer_all fd (sh s)\<rparr>)"
proof -
  let ?m = "sh_rings (sh s) fd"
  let ?x = "(sh s)\<lparr>sh_rings := (sh_rings (sh s))(fd := ?m\<lparr>sq_head := sq_tail ?m\<rparr>)\<rparr>"
  have ok: "ring_ok k (Q d) (C d) (sh_rings (sh s) d)" for d
    using looks_ring [OF l, of d] by (simp add: ring_at_def)
  then have "ring_ok k ((Q(fd := [])) d) (C d) (sh_rings ?x d)" for d
    using ring_ok_consume [OF ok] by simp
  then have "ring_ok k ((Q(fd := [])) d) (C d @ posted fd (Q fd) d)
      (sh_rings (fold post_cqe (concat (map (answers fd) (Q fd))) ?x) d)" for d
    unfolding posted_def using room by (intro answering_posts) (simp_all add: posted_def)
  moreover have "sq_pending ?m = Q fd" using ok by (simp add: ring_ok_def)
  ultimately show ?thesis using l by (simp add: looks_def ring_at_def answer_all_def Let_def)
qed

lemma answering_enter:
  assumes l: "looks k Q C s" and n: "0 \<le> sint n"
    and room: "\<And>d. length (C d) + length (posted (ring_fd ring) (Q (ring_fd ring)) d) \<le> 2 ^ k"
  shows "succeeds (enter_with tick secs answering_os ring n m s) (\<lambda>t. same_process s t \<and>
    looks k (Q(ring_fd ring := [])) (\<lambda>d. C d @ posted (ring_fd ring) (Q (ring_fd ring)) d) t)"
proof -
  let ?t = "s\<lparr>sh := answer_all (ring_fd ring) (sh s)\<rparr>"
  have "os_enter answering_os = (\<lambda>fd n m fl arg x. ((sint n, 0), answer_all fd x))"
    by (simp add: answering_os_def)
  then have "enter_with tick secs answering_os ring n m s = Some (0, ?t)"
    using n by (simp add: enter_with_def enter_loop_def retry_loop.simps sys_def Let_def)
  moreover have "same_process s ?t" by (simp add: same_process_def)
  ultimately show ?thesis
    using answering_enter_call [OF l room] by (simp add: succeeds_def)
qed

text \<open>A copy of all completions there are.\<close>

lemma answering_reap:
  assumes l: "looks k Q C s" and n: "length (C (ring_fd ring)) = unat n"
  shows "\<exists>t. reap_with add answering_os ring n s = Some ((0, C (ring_fd ring)), t) \<and>
    looks k Q (C(ring_fd ring := [])) t \<and> res t = res s"
proof -
  let ?fd = "ring_fd ring" and ?m = "ring_at s (ring_fd ring)"
  note ok = looks_ring [OF l, of ?fd]
  have av: "cq_tail ?m - cq_head ?m = n" using ring_ok_left [OF ok] n by simp
  have "unat n \<le> cq_count ?m" using av by (simp add: cq_count_def)
  then have cs: "copy_cqes ring (cq_head ?m) n s = C ?fd"
    using copy_is_prefix [of n s ring] ok n by (simp add: ring_ok_def)
  let ?t = "upd_ring ?fd (cq_head_update (\<lambda>_. cq_head ?m + n)) s"
  have "ring_ok k (Q ?fd) [] (cq_head_update (\<lambda>_. cq_head ?m + n) ?m)"
    using ring_ok_reap [OF ok n] by simp
  then have "looks k (Q(?fd := Q ?fd)) (C(?fd := [])) ?t" by (rule looks_upd_ring [OF l])
  then have "looks k Q (C(?fd := [])) (?t\<lparr>reaped := reaped ?t @ [C ?fd]\<rparr>)"
    by (auto intro: looks_same)
  then show ?thesis
    by (simp add: reap_with_def av cs store_release_def Let_def)
qed

lemma answering_wait:
  assumes l: "looks k Q C s" and n: "length (C (ring_fd ring)) = unat n"
  shows "\<exists>t. wait_with tick add secs answering_os ring n s = Some ((0, C (ring_fd ring)), t) \<and>
    looks k Q (C(ring_fd ring := [])) t \<and> res t = res s"
proof -
  have "cq_tail (ring_at s (ring_fd ring)) - cq_head (ring_at s (ring_fd ring)) = n"
    using ring_ok_left [OF looks_ring [OF l]] n by simp
  then show ?thesis using answering_reap [OF assms, of add] by (simp add: wait_with_def)
qed

lemma answering_submit:
  assumes l: "looks k Q C s" and n: "0 \<le> sint n"
    and room: "\<And>d. length (C d) + length (posted (ring_fd ring) (Q (ring_fd ring)) d) \<le> 2 ^ k"
    and e: "length (C (ring_fd ring) @ posted (ring_fd ring) (Q (ring_fd ring)) (ring_fd ring)) = unat e"
  shows "\<exists>t. submit_with tick add secs answering_os ring n e s =
      Some ((0, C (ring_fd ring) @ posted (ring_fd ring) (Q (ring_fd ring)) (ring_fd ring)), t) \<and>
    looks k (Q(ring_fd ring := []))
      ((\<lambda>d. C d @ posted (ring_fd ring) (Q (ring_fd ring)) d)(ring_fd ring := [])) t \<and> res t = res s"
proof -
  let ?fd = "ring_fd ring"
  obtain u where u: "enter_with tick secs answering_os ring n e s = Some (0, u)" "same_process s u"
      "looks k (Q(?fd := [])) (\<lambda>d. C d @ posted ?fd (Q ?fd) d) u"
    using answering_enter [OF l n room, of tick secs e] by (auto simp: succeeds_def)
  have "length ((\<lambda>d. C d @ posted ?fd (Q ?fd) d) ?fd) = unat e" using e by simp
  from answering_wait [OF u(3) this, of tick add secs] u show ?thesis
    by (simp add: submit_with_def same_process_D)
qed

text \<open>The same for requests that are answered on their own ring alone.\<close>

lemma looks_room: "looks k Q C s \<Longrightarrow> length (C d) \<le> 2 ^ k"
  by (simp add: looks_def ring_ok_def)

lemma answering_own_enter:
  assumes l: "looks k (\<lambda>d. if d = ring_fd ring then qs else []) C s" and n: "0 \<le> sint n"
    and own: "\<And>d. posted (ring_fd ring) qs d = (if d = ring_fd ring then ps else [])"
    and room: "length (C (ring_fd ring)) + length ps \<le> 2 ^ k"
  shows "\<exists>t. enter_with tick secs answering_os ring n m s = Some (0, t) \<and> same_process s t \<and>
    looks k (\<lambda>d. []) (C(ring_fd ring := C (ring_fd ring) @ ps)) t"
proof -
  let ?Q = "\<lambda>d. if d = ring_fd ring then qs else []"
  have "length (C d) + length (posted (ring_fd ring) (?Q (ring_fd ring)) d) \<le> 2 ^ k" for d
    using looks_room [OF l, of d] room by (simp add: own)
  from answering_enter [OF l n this, of tick secs m]
  obtain t where t: "enter_with tick secs answering_os ring n m s = Some (0, t)" "same_process s t"
      "looks k (?Q(ring_fd ring := [])) (\<lambda>d. C d @ posted (ring_fd ring) (?Q (ring_fd ring)) d) t"
    by (auto simp: succeeds_def)
  have "looks k (\<lambda>d. []) (C(ring_fd ring := C (ring_fd ring) @ ps)) t"
    by (rule looks_cong [OF t(3)]) (auto simp: own)
  with t show ?thesis by blast
qed

lemma answering_own_submit:
  assumes l: "looks k (\<lambda>d. if d = ring_fd ring then qs else []) C s" and n: "0 \<le> sint n"
    and own: "\<And>d. posted (ring_fd ring) qs d = (if d = ring_fd ring then ps else [])"
    and room: "length (C (ring_fd ring)) + length ps \<le> 2 ^ k"
    and e: "length (C (ring_fd ring)) + length ps = unat e"
  shows "\<exists>t. submit_with tick add secs answering_os ring n e s = Some ((0, C (ring_fd ring) @ ps), t) \<and>
    looks k (\<lambda>d. []) (C(ring_fd ring := [])) t \<and> res t = res s"
proof -
  obtain u where u: "enter_with tick secs answering_os ring n e s = Some (0, u)" "same_process s u"
      "looks k (\<lambda>d. []) (C(ring_fd ring := C (ring_fd ring) @ ps)) u"
    using answering_own_enter [OF l n own room] by blast
  from answering_wait [OF u(3), of ring e tick add secs] u(1,2) e show ?thesis
    by (simp add: submit_with_def same_process_def)
qed

text \<open>With nothing left on a ring its counters are all zero.\<close>

lemma answering_counters:
  assumes "looks k Q C s" and "Q (ring_fd ring) = []" and "C (ring_fd ring) = []"
  shows "read_counters f g h answering_os ring s = upd_res (\<lambda>r. h 0 (g 0 (f 0 r))) s"
  using looks_ring [OF assms(1), of "ring_fd ring"] ring_ok_left [OF looks_ring [OF assms(1), of "ring_fd ring"]] assms(2,3)
  by (simp add: read_counters_def ring_outstanding_def ring_ok_def Let_def)
     (simp add: upd_res_def)

subsection \<open>The process on it\<close>

lemma answering_bringup:
  assumes "0 \<le> sh_kst (sh s)"
  shows "\<exists>ring t. ring_bringup answering_os n p s = (0, ring, t) \<and> ring_fd ring = sh_kst (sh s) \<and>
    sh t = (sh s)\<lparr>sh_kst := sh_kst (sh s) + 1\<rparr> \<and> stop_requested t = stop_requested s \<and> res t = res s"
  using assms
  by (simp add: ring_bringup_def setup_ring_def map_rings_def map_sqes_def mmap_def ask_def open_fd_def
      answering_os_def Let_def)

lemma answering_execute:
  "\<exists>work. execute_with 2 header run answering_os path s =
     do { (rc, t) \<leftarrow> run work (print_line header s); Some (if rc = 0 then 0 else 1, t) }"
  by (rule exI [of _ "\<lparr>kernel_release = ''7.1.3'', boot_id = ''id''\<rparr>"])
     (simp add: execute_with_def set_signals_def pin_cpu_def read_text_def ask_def sys_def trim_eol_def
       answering_os_def Let_def, simp only: EXIT_SUCCESS_def EXIT_FAILURE_def)

lemma succeeds_execute:
  assumes "\<And>work. succeeds (run work (print_line header s)) P"
  shows "succeeds (execute_with 2 header run answering_os path s) P"
proof -
  obtain work where w: "execute_with 2 header run answering_os path s =
     do { (rc, t) \<leftarrow> run work (print_line header s); Some (if rc = 0 then 0 else 1, t) }"
    using answering_execute by blast
  show ?thesis using assms [of work] unfolding w by (auto simp: succeeds_def)
qed

text \<open>The loops of point mode, when every round succeeds from a state with \<open>P\<close> into one.\<close>

lemma succeeds_point:
  assumes f: "\<And>i t. P t \<Longrightarrow> succeeds (f i t) P" and g: "\<And>i t. P t \<Longrightarrow> succeeds (g i t) P"
    and print: "\<And>line t. P t \<Longrightarrow> P (print_line line t)" and start: "P s"
  shows "succeeds (or_fail (for_each f [0..<w] s) (\<lambda>s. or_fail (measured_with row g n s) (\<lambda>s. Some (0, s)))) P"
proof (rule succeeds_or_fail)
  show "succeeds (for_each f [0..<w] s) P"
    using succeeds_for_each [of 0 w "\<lambda>i. P" f s] f start by simp
  fix t assume t: "P t"
  have "succeeds (measured_with row g n t) P"
    unfolding measured_with_def
    by (rule succeeds_for_each [where P = "\<lambda>i. P"]) (auto intro!: succeeds_or_fail [OF g] print t)
  then show "succeeds (or_fail (measured_with row g n t) (\<lambda>s. Some (0, s))) P"
    by (rule succeeds_or_fail) simp
qed

end
