(* ===== verification/Cancel_Properties.thy ===== *)
theory Cancel_Properties
  imports Cancel_Main Simple_System
begin

text \<open>
  io_uring_cancel_round.c: what the program promises.
\<close>

section \<open>The rounds\<close>

text \<open>C1: What a keyed round that returns 0 has copied, batch by batch, whatever the kernel
  did. In a hit round: a permutation of the 64 expected completions, one cancelled poll and
  one successful cancel request per slot. In a miss round: a permutation of the 32 expected
  \<open>ENOENT\<close> completions, one per slot, and then 64 completions of the cleanup, each of which
  is one of the 64 expected of it; the cleanup counts neither repetitions nor missing ones,
  so these 64 need not be a permutation (\<open>cleanup_target_accepts\<close>). The round reports
  \<open>semantic_pass\<close>, and it keeps mappings, descriptors and output on every path.\<close>

theorem keyed_round_sound:
  "wp (run_keyed_round os fx profile round_nr nb timed s)
     (outcome (\<lambda>t. logged (\<lambda>i. keyed_group profile round_nr (of_nat i)) (unat nb) s t \<and>
                   semantic_pass (res t)) s)"
  by (rule run_keyed_round_outcome)

text \<open>C9: A bulk round that returns 0 has copied for every batch the bulk request's
  completion reporting 32 cancelled requests, the 32 cancelled polls, and then the eight
  decoys, which the bulk request left pending, with their own cancel requests.\<close>

theorem f0_round_sound:
  "wp (run_f0_round os fx round_nr nb timed s)
     (outcome (\<lambda>t. logged (\<lambda>i. f0_group round_nr (of_nat i)) (unat nb) s t \<and>
                   semantic_pass (res t)) s)"
  by (rule run_f0_round_outcome)

text \<open>C8: A synchronous-cancel round that returns 0 has copied for every cycle exactly
  the completion of that cycle's poll, cancelled and without flags, although the flags are
  looked at only after the last cycle.\<close>

theorem s0_round_sound:
  "wp (run_s0_round os fx round_nr cycles timed s)
     (outcome (\<lambda>t. logged (\<lambda>i. s0_group round_nr (of_nat i)) (unat cycles) s t \<and>
                   semantic_pass (res t)) s)"
  by (rule run_s0_round_outcome)

text \<open>The preparation probe that returns 0 has copied one completion, that of its
  request, without flags and with \<open>EINVAL\<close> or \<open>ENOENT\<close>.\<close>

theorem p0_sound:
  "wp (run_p0 os fx s)
     (outcome (\<lambda>t. (\<exists>c. reaps [[c]] s t \<and> p0_accepts c) \<and> semantic_pass (res t)) s)"
  by (rule run_p0_outcome)

section \<open>The checks\<close>

lemma length_expected:
  "length (expected_hit p r b) = 64" "length (expected_miss p r b) = 32"
  "length (expected_f0 r b) = 33" "length (expected_decoys r b) = 16"
  "length (expected_target p r b) = 64"
  by (simp_all add: expected_hit_def expected_miss_def expected_f0_def expected_decoys_def
      expected_target_def pair_slots_def f0_slots_def)

text \<open>C29: \<open>validate_keyed\<close> accepts the completions of a hit batch exactly when they are a
  permutation of the 64 expected ones; \<open>count\<close> is 32 bits wide, so no counter wraps.\<close>

theorem validate_keyed_hit_exact:
  assumes "err4 r = 0" and "length cs < 2 ^ 32"
  shows "fst (validate_keyed cs profile round_nr batch False r) = 0 \<longleftrightarrow>
    mset cs = mset (expected_hit profile round_nr batch)"
  using assms by (rule validate_keyed_hit)

theorem validate_keyed_hit_exact_witness:
  "fst (validate_keyed (expected_hit PROFILE_A0_HIT 1 2) PROFILE_A0_HIT 1 2 False zero_result) = 0 \<and>
   fst (validate_keyed (tl (expected_hit PROFILE_A0_HIT 1 2)) PROFILE_A0_HIT 1 2 False zero_result) \<noteq> 0"
proof -
  have "mset (tl (expected_hit PROFILE_A0_HIT 1 2)) \<noteq> mset (expected_hit PROFILE_A0_HIT 1 2)"
    by (auto dest!: mset_eq_length simp: length_expected)
  then show ?thesis
    using validate_keyed_hit_exact [of zero_result "expected_hit PROFILE_A0_HIT 1 2" PROFILE_A0_HIT 1 2]
      validate_keyed_hit_exact [of zero_result "tl (expected_hit PROFILE_A0_HIT 1 2)" PROFILE_A0_HIT 1 2]
    by (simp add: length_expected)
qed

text \<open>\<open>validate_keyed\<close> accepts the completions of a miss batch exactly when they are a
  permutation of the 32 expected \<open>ENOENT\<close> ones.\<close>

theorem validate_keyed_miss_exact:
  assumes "err4 r = 0" and "length cs < 2 ^ 32"
  shows "fst (validate_keyed cs profile round_nr batch True r) = 0 \<longleftrightarrow>
    mset cs = mset (expected_miss profile round_nr batch)"
  using assms by (rule validate_keyed_miss)

theorem validate_keyed_miss_exact_witness:
  "fst (validate_keyed (rev (expected_miss PROFILE_A0_MISS 1 2)) PROFILE_A0_MISS 1 2 True zero_result) = 0"
  using validate_keyed_miss_exact [of zero_result "rev (expected_miss PROFILE_A0_MISS 1 2)" PROFILE_A0_MISS 1 2]
  by (simp add: length_expected)

text \<open>\<open>validate_f0\<close> accepts exactly the permutations of the bulk completion and the 32
  cancelled polls.\<close>

theorem validate_f0_exact:
  assumes "err4 r = 0" and "length cs < 2 ^ 32"
  shows "fst (validate_f0 cs round_nr batch r) = 0 \<longleftrightarrow> mset cs = mset (expected_f0 round_nr batch)"
  using assms by (rule validate_f0_iff)

theorem validate_f0_exact_witness:
  "fst (validate_f0 (rev (expected_f0 1 2)) 1 2 zero_result) = 0"
  using validate_f0_exact [of zero_result "rev (expected_f0 1 2)" 1 2] by (simp add: length_expected)

text \<open>The check in \<open>cleanup_decoys\<close> accepts exactly the permutations of the eight
  cancelled decoys and the eight successful cancel requests.\<close>

theorem cleanup_decoys_exact:
  assumes "err4 r = 0" and "length cs < 2 ^ 32"
  shows "fst (check_decoys cs round_nr batch r) = 0 \<longleftrightarrow> mset cs = mset (expected_decoys round_nr batch)"
  using assms by (rule check_decoys_iff)

theorem cleanup_decoys_exact_witness:
  "fst (check_decoys (rev (expected_decoys 1 2)) 1 2 zero_result) = 0"
  using cleanup_decoys_exact [of zero_result "rev (expected_decoys 1 2)" 1 2]
  by (simp add: length_expected)

text \<open>The check in \<open>cleanup_target\<close> accepts any completions that are each expected,
  however often they are repeated: duplicates and missing completions go unnoticed.\<close>

theorem cleanup_target_accepts:
  assumes "err3 r = 0" and "length cs < 2 ^ 32"
  shows "fst (check_target cs profile round_nr batch r) = 0 \<longleftrightarrow>
    set cs \<subseteq> set (expected_target profile round_nr batch)"
  using assms by (rule check_target_iff)

theorem cleanup_target_accepts_witness:
  "fst (check_target (replicate 64 (hd (expected_target PROFILE_A0_MISS 0 0)))
     PROFILE_A0_MISS 0 0 zero_result) = 0"
proof -
  have "expected_target PROFILE_A0_MISS 0 0 \<noteq> []"
    by (simp add: expected_target_def pair_slots_def)
  then have "hd (expected_target PROFILE_A0_MISS 0 0) \<in> set (expected_target PROFILE_A0_MISS 0 0)"
    by (rule hd_in_set)
  moreover have "err3 zero_result = 0" by (simp add: err3_def zero_result_def)
  ultimately show ?thesis
    using cleanup_target_accepts [of zero_result "replicate 64 (hd (expected_target PROFILE_A0_MISS 0 0))"
        PROFILE_A0_MISS 0 0]
    by simp
qed

section \<open>Tags\<close>

text \<open>Tags whose kind fits four bits and whose index fits 24 bits agree only when the
  kind, the profile, the low 12 bits of the round, the low 20 bits of the batch and the index
  agree.\<close>

theorem make_tag_unique:
  assumes "kind < 16" "kind' < 16" "index < 2 ^ 24" "index' < 2 ^ 24"
  shows "make_tag kind profile round_nr batch index = make_tag kind' profile' round_nr' batch' index' \<longleftrightarrow>
    kind = kind' \<and> profile = profile' \<and> round_nr AND 0xfff = round_nr' AND 0xfff \<and>
    batch AND 0xfffff = batch' AND 0xfffff \<and> index = index'"
  using assms make_tag_inject [of kind kind' index index'] by simp

theorem make_tag_unique_witness:
  "make_tag KIND_POLL PROFILE_A0_HIT 17 63 31 \<noteq> make_tag KIND_CANCEL PROFILE_A0_HIT 17 63 31 \<and>
   make_tag KIND_POLL PROFILE_A0_HIT 0 0 31 = make_tag KIND_POLL PROFILE_A0_HIT 0x1000 0x100000 31"
  using make_tag_unique [of KIND_POLL KIND_CANCEL 31 31 PROFILE_A0_HIT 17 63 PROFILE_A0_HIT 17 63]
    make_tag_unique [of KIND_POLL KIND_POLL 31 31 PROFILE_A0_HIT 0 0 PROFILE_A0_HIT "0x1000" "0x100000"]
  by simp

section \<open>The queues\<close>

text \<open>C32: While the kernel leaves the submission side alone, queueing \<open>n\<close> polls into a ring
  with room for them succeeds and adds exactly those requests, in order, behind the pending
  ones.\<close>

theorem queue_polls_fifo:
  assumes "sq_private os (ring_fd ring)" and "sq_wf (ring_at s (ring_fd ring))"
    and "sq_count (ring_at s (ring_fd ring)) + n \<le> sq_capacity (ring_at s (ring_fd ring))"
  shows "\<exists>t. queue_polls os ring fd tag n s = Some (0, t) \<and>
    sq_pending (ring_at t (ring_fd ring)) = sq_pending (ring_at s (ring_fd ring)) @
      map (\<lambda>i. zero_sqe\<lparr>sqe_opcode := IORING_OP_POLL_ADD, sqe_fd := fd, sqe_op_flags := POLLIN,
                        sqe_user_data := tag i\<rparr>) [0..<n] \<and>
    sq_wf (ring_at t (ring_fd ring))"
  using for_each_queue [OF assms(1,2), of "[0..<n]" "\<lambda>i. poll_sqe fd (tag i)"] assms(3)
  by (auto simp: queue_polls_def queue_poll_def [abs_def] poll_sqe_def)

theorem queue_polls_fifo_witness:
  "\<exists>t. queue_polls simple_os zero_ring 4 (\<lambda>i. of_nat i) 32 (simple_machine 8 zero_result) = Some (0, t) \<and>
    sq_pending (ring_at t 0) = map (\<lambda>i. zero_sqe\<lparr>sqe_opcode := IORING_OP_POLL_ADD, sqe_fd := 4,
      sqe_op_flags := POLLIN, sqe_user_data := of_nat i\<rparr>) [0..<32]"
proof -
  have fd: "ring_fd zero_ring = 0" by (simp add: zero_ring_def)
  show ?thesis
    using queue_polls_fifo [of simple_os zero_ring "simple_machine 8 zero_result" 32 4 "\<lambda>i. of_nat i"]
    by (auto simp: simple_private empty_ring_queue fd)
qed

text \<open>Queueing more polls than the ring has room for fails.\<close>

theorem queue_polls_overflow:
  assumes "sq_private os (ring_fd ring)" and "sq_wf (ring_at s (ring_fd ring))"
    and "sq_capacity (ring_at s (ring_fd ring)) < sq_count (ring_at s (ring_fd ring)) + n"
  shows "\<exists>t. queue_polls os ring fd tag n s = Some (-1, t)"
  using for_each_queue_full [OF assms(1,2), of "[0..<n]" "\<lambda>i. poll_sqe fd (tag i)"] assms(3)
  by (auto simp: queue_polls_def queue_poll_def [abs_def])

theorem queue_polls_overflow_witness:
  "\<exists>t. queue_polls simple_os zero_ring 4 (\<lambda>i. of_nat i) 32 (simple_machine 4 zero_result) = Some (-1, t)"
  using queue_polls_overflow [of simple_os zero_ring "simple_machine 4 zero_result" 32 4 "\<lambda>i. of_nat i"]
  by (simp add: simple_private empty_ring_queue)

text \<open>While the kernel only appends completions, \<open>wait_and_copy\<close> loses and repeats none:
  what it copies, followed by what is left in the ring, begins with what was in the ring.\<close>

theorem wait_and_copy_fifo:
  assumes "cq_appends os (ring_fd ring)"
  shows "wp (wait_and_copy os ring expected s) (\<lambda>a t. fst a = 0 \<longrightarrow>
    prefix (cq_pending (ring_at s (ring_fd ring))) (snd a @ cq_pending (ring_at t (ring_fd ring))) \<and>
    length (snd a) = unat expected)"
  using wait_with_fifo [OF assms] by (simp add: wait_and_copy_def)

definition one_cqe :: "(unit, result) machine" where
  "one_cqe = upd_ring 0 (\<lambda>m. m\<lparr>cq_tail := 1, cqes := (\<lambda>i. s0_cqe 0 0)\<rparr>) (simple_machine 8 zero_result)"

lemma one_cqe_returns: "\<exists>cs t. wait_and_copy simple_os zero_ring 1 one_cqe = Some ((0, cs), t)"
  by (simp add: wait_and_copy_def wait_with_def reap_with_def cq_available_def load_acquire_def
      async_def simple_os_def zero_ring_def one_cqe_def ring_at_def upd_ring_def simple_machine_def
      empty_ring_def Let_def)

theorem wait_and_copy_fifo_witness:
  "\<exists>t. wait_and_copy simple_os zero_ring 1 one_cqe = Some ((0, [s0_cqe 0 0]), t)"
proof -
  have app: "cq_appends simple_os (ring_fd zero_ring)"
    by (simp add: cq_appends_def cq_grown_def simple_os_def)
  obtain cs t where run: "wait_and_copy simple_os zero_ring 1 one_cqe = Some ((0, cs), t)"
    using one_cqe_returns by blast
  have fifo: "prefix (cq_pending (ring_at one_cqe 0)) (cs @ cq_pending (ring_at t 0))" "length cs = 1"
    using wait_and_copy_fifo [OF app, of 1 one_cqe] run by (simp_all add: zero_ring_def)
  have "cq_pending (ring_at one_cqe 0) = [s0_cqe 0 0]"
    by (simp add: cq_pending_def cq_count_def one_cqe_def empty_ring_def)
  with fifo have "cs = [s0_cqe 0 0]" by (cases cs) auto
  with run show ?thesis by blast
qed

section \<open>The process\<close>

text \<open>Where \<open>mmap\<close> never returns address zero, \<open>raw_ring_init\<close> either brings a ring up that
  answers for every mapping made and for its descriptor, which \<open>raw_ring_destroy\<close> gives back,
  or fails with nothing left behind.\<close>

theorem raw_ring_init_no_leak:
  assumes "mmap_nonnull os" and "raw_ring_init os s = (rc, ring, t)"
  shows "rc = 0 \<and> vmas t = owned ring @ vmas s \<and> open_fds t = ring_fd ring # open_fds s \<and>
      vmas (snd (raw_ring_destroy os ring t)) = vmas s \<and>
      open_fds (snd (raw_ring_destroy os ring t)) = open_fds s
    \<or> rc = -1 \<and> vmas t = vmas s \<and> open_fds t = open_fds s"
  using ring_bringup_owns [OF assms(1) assms(2) [unfolded raw_ring_init_def]] destroy_owned [of t ring]
  by auto

theorem raw_ring_init_no_leak_witness:
  "\<exists>ring t. raw_ring_init simple_os (simple_machine 8 zero_result) = (0, ring, t) \<and> open_fds t = [3] \<and>
     vmas (snd (raw_ring_destroy simple_os ring t)) = []"
proof -
  obtain rc ring t where r: "raw_ring_init simple_os (simple_machine 8 zero_result) = (rc, ring, t)"
    by (cases "raw_ring_init simple_os (simple_machine 8 zero_result)") auto
  then have "rc = 0" "open_fds t = [3]"
    by (auto simp: raw_ring_init_def ring_bringup_def setup_ring_def map_rings_def map_sqes_def
        mmap_def ask_def open_fd_def simple_os_def simple_machine_def zero_params_def Let_def)
  with raw_ring_init_no_leak [OF simple_nonnull r] r show ?thesis by (simp add: simple_machine_def)
qed

text \<open>The release probe gives back every mapping and descriptor whether or not it succeeds,
  where \<open>mmap\<close> never returns address zero and \<open>eventfd\<close> does not fail; when it returns 0 the
  close took less than the limit.\<close>

theorem run_r0_gives_back:
  assumes "mmap_nonnull os" and "eventfd_ok os"
  shows "wp (run_r0 os s) (\<lambda>rc t. vmas t = vmas s \<and> mset (open_fds t) = mset (open_fds s) \<and>
    out_lines t = out_lines s \<and> (rc = 0 \<longrightarrow> semantic_pass (res t) \<and> timed_ns (res t) < RELEASE_LIMIT_NS))"
  by (rule wp_mono [OF run_r0_restores [OF assms(1)]]) (use assms(2) in \<open>auto simp: given_back_def restored_def\<close>)

theorem run_r0_gives_back_witness:
  "wp (run_r0 simple_os (simple_machine 8 zero_result)) (\<lambda>rc t. vmas t = [] \<and> open_fds t = [])"
proof -
  have ev: "eventfd_ok simple_os" by (simp add: eventfd_ok_def simple_os_def)
  show ?thesis
    using run_r0_gives_back [OF simple_nonnull ev, of "simple_machine 8 zero_result"]
    by (rule wp_mono) (simp add: simple_machine_def)
qed


text \<open>C16: Where \<open>mmap\<close> never returns address zero, every return of \<open>main\<close> leaves exactly the
  mappings and descriptors there were at its start, with one exception: after a failed
  \<open>eventfd\<close> call, \<open>main\<close> does not return 0 and the ring that \<open>fixture_init\<close> has brought up may
  be left, its mappings and its descriptor, with at most one other descriptor, the eventfd
  that was made (\<open>eventfd_failure_leaks\<close>).\<close>

theorem main_gives_back:
  assumes "mmap_nonnull os"
  shows "wp (main os argv s) (\<lambda>code t.
    vmas t = vmas s \<and> mset (open_fds t) = mset (open_fds s) \<or>
    (\<exists>x. fst (fst (os_eventfd os x)) < 0) \<and> code \<noteq> 0 \<and>
      (\<exists>ring e. vmas t = owned ring @ vmas s \<and> size e \<le> 1 \<and>
         mset (open_fds t) = add_mset (ring_fd ring) (e + mset (open_fds s))))"
  by (rule wp_mono [OF main_given_back [OF assms]])
     (auto simp: given_back_def restored_def ring_left_def eventfd_ok_def not_le)

lemma simple_clock: "os_clock simple_os x = (Some (1, 0), x)"
  by (simp add: simple_os_def)

lemma simple_eventfd: "eventfd_ok simple_os"
  by (simp add: eventfd_ok_def simple_os_def)

theorem main_gives_back_witness:
  "wp (main simple_os [''prog'', ''--profile'', ''s0_sync'', ''--mode'', ''smoke'', ''--output'', ''f'', ''--execute'']
        (simple_machine 8 zero_result))
     (\<lambda>code t. vmas t = [] \<and> open_fds t = [])"
  by (rule wp_mono [OF main_gives_back [OF simple_nonnull]])
     (use simple_eventfd in \<open>auto simp: simple_machine_def eventfd_ok_def not_le [symmetric]\<close>)

text \<open>That exception is real: when \<open>eventfd\<close> fails, \<open>fixture_init\<close> returns -1 without
  \<open>raw_ring_destroy\<close>, and the program leaves the descriptor of its ring open.\<close>

theorem eventfd_failure_leaks:
  "\<exists>t. main (simple_os\<lparr>os_eventfd := \<lambda>x. ((-1, 24), x)\<rparr>)
       [''prog'', ''--profile'', ''s0_sync'', ''--mode'', ''smoke'', ''--output'', ''f'', ''--execute'']
       (simple_machine 8 zero_result) = Some (1, t) \<and> open_fds t = [3] \<and> vmas t \<noteq> []"
proof -
  let ?os = "simple_os\<lparr>os_eventfd := \<lambda>x. ((-1, 24), x)\<rparr>"
  let ?opt = "\<lparr>opt_profile = PROFILE_S0_SYNC, opt_mode = MODE_SMOKE, opt_output_path = Some ''f'', opt_execute = True\<rparr>"
  let ?s = "print_line result_header (simple_machine 8 zero_result)"
  have p: "parse_options [''--profile'', ''s0_sync'', ''--mode'', ''smoke'', ''--output'', ''f'', ''--execute''] = Some ?opt"
    by (simp add: parse_options_def parse_profile_def parse_mode_def zero_options_def options_ok_def)
  have "\<exists>fx u. fixture_init ?os ?s = (-1, fx, u) \<and> open_fds u = [3] \<and> vmas u \<noteq> []"
    by (simp add: fixture_init_def new_eventfd_def sys_def raw_ring_init_def ring_bringup_def setup_ring_def
        map_rings_def map_sqes_def mmap_def ask_def open_fd_def simple_os_def simple_machine_def
        print_line_def zero_params_def Let_def)
  then obtain fx u where u: "fixture_init ?os ?s = (-1, fx, u)" "open_fds u = [3]" "vmas u \<noteq> []" by blast
  have "run_execute ?os ?opt ''f'' (simple_machine 8 zero_result) =
      run_output ?os \<lparr>kernel_release = ''7.1.3'', boot_id = ''id''\<rparr> ?opt ?s \<bind>
        (\<lambda>(rc, t). Some (if rc = 0 then EXIT_SUCCESS else EXIT_FAILURE, t))"
    by (simp add: run_execute_def execute_with_def set_signals_def pin_cpu_def read_text_def ask_def sys_def
        trim_eol_def simple_os_def CONTRACT_CPU_def Let_def)
  with u show ?thesis by (simp add: main_def p run_output_def EXIT_FAILURE_def)
qed

text \<open>C23: Where system calls are interrupted only finitely often and the clock can be read,
  \<open>main\<close> comes back for every command line, with exit code 0, 1 or 2.\<close>

theorem main_comes_back:
  assumes "responsive os bound"
  shows "\<exists>code t. main os argv s = Some (code, t) \<and> code \<in> {0, 1, 2}"
proof -
  obtain code t where r: "main os argv s = Some (code, t)"
    using main_returns [OF assms, of argv s] by (auto simp: returns_def)
  have "wp (main os argv s) (\<lambda>code t. code \<in> {0, 1, 2})"
    by (simp add: main_exit_code)
  with r show ?thesis by auto
qed

theorem main_comes_back_witness:
  "\<exists>code t. main simple_os [''prog'', ''--profile'', ''a0_hit'', ''--mode'', ''point'', ''--output'', ''f'', ''--execute'']
      (simple_machine 8 zero_result) = Some (code, t) \<and> code \<in> {0, 1, 2}"
proof -
  have "responsive simple_os (\<lambda>x. 0)"
    using simple_eintr by (simp add: responsive_def clock_ok_def simple_clock)
  then show ?thesis by (rule main_comes_back)
qed

subsection \<open>A whole run\<close>

text \<open>On the answering system every round of synchronous cancels passes, and so does point mode.\<close>

definition s0_going :: "nat \<Rightarrow> int cancel_machine \<Rightarrow> bool" where
  "s0_going n s \<longleftrightarrow> looks 8 (\<lambda>fd. []) (\<lambda>fd. []) s \<and>
     timeouts (res s) = 0 \<and> unexpected_cqes (res s) = 0 \<and> bad_results (res s) = 0 \<and>
     bad_flags (res s) = 0 \<and> eventfd_state_failures (res s) = 0 \<and> pending_proofs (res s) = of_nat n \<and>
     cancel_ok (res s) = of_nat n \<and> original_cqes (res s) = of_nat n"

lemma answering_sync_cancel:
  assumes "looks 8 (\<lambda>fd. []) (\<lambda>fd. []) s"
  shows "\<exists>t. sync_cancel answering_os ring tag s = Some (0, t) \<and> res t = res s \<and>
    looks 8 (\<lambda>fd. []) ((\<lambda>fd. [])(ring_fd ring := [answer_cqe tag (neg_errno ECANCELED)])) t"
proof -
  let ?p = "(ring_fd ring, answer_cqe tag (neg_errno ECANCELED))"
  let ?t = "s\<lparr>sh := post_cqe ?p (sh s)\<rparr>"
  have "ring_ok 8 [] (((\<lambda>fd. [])(ring_fd ring := [snd ?p])) d) (ring_at ?t d)" for d
    using ring_ok_push [OF looks_ring [OF assms], of "snd ?p"] looks_ring [OF assms, of d]
    by (simp add: post_cqe_def ring_at_def)
  then have "looks 8 (\<lambda>fd. []) ((\<lambda>fd. [])(ring_fd ring := [snd ?p])) ?t"
    using assms by (simp add: looks_def)
  moreover have "sync_cancel answering_os ring tag s = Some (0, ?t)"
    by (simp add: sync_cancel_def retry_loop.simps sys_def answering_os_def answer_request_def)
  ultimately show ?thesis by simp
qed

lemma answering_prove_pending:
  assumes "looks k Q C s" and "C (ring_fd (fix_ring fx)) = []"
  shows "\<exists>t. prove_pending answering_os fx False s = (0, t) \<and> looks k Q C t \<and>
    res t = (res s)\<lparr>pending_proofs := pending_proofs (res s) + 1\<rparr>"
proof -
  have "cq_tail (ring_at s (ring_fd (fix_ring fx))) - cq_head (ring_at s (ring_fd (fix_ring fx))) = 0"
    using ring_ok_left [OF looks_ring [OF assms(1)]] assms(2) by simp
  moreover have "os_read8 answering_os = (\<lambda>fd x. ((-1, EAGAIN), x))"
    by (simp add: answering_os_def)
  then have "eventfd_is_unsignaled answering_os fd s = (0, s\<lparr>errno := EAGAIN\<rparr>)" for fd
    by (simp add: eventfd_is_unsignaled_def sys_def Let_def)
  ultimately have "not_pending answering_os fx False s = (False, s\<lparr>errno := EAGAIN\<rparr>)"
    by (simp add: not_pending_def)
  moreover have "looks k Q C (s\<lparr>errno := EAGAIN\<rparr>)" using assms(1) by (rule looks_same) simp_all
  ultimately show ?thesis by (simp add: prove_pending_def)
qed

lemma answering_s0_cycle:
  assumes "s0_going n s"
  shows "succeeds (s0_cycle answering_os fx rn timed c s) (s0_going (Suc n))"
proof -
  let ?fd = "ring_fd (fix_ring fx)" and ?no = "\<lambda>fd :: int. []"
  define tag where "tag = make_tag KIND_POLL PROFILE_S0_SYNC rn c 0"
  let ?q = "poll_sqe (fix_target_fd fx) tag zero_sqe"
  have l: "looks 8 ?no ?no s" using assms by (simp add: s0_going_def)
  have quiet: "posted ?fd [?q] d = []" for d
    by (simp add: posted_def answers_def poll_sqe_def IORING_OP_POLL_ADD_def IORING_OP_NOP_def
        IORING_OP_FUTEX_WAIT_def IORING_OP_FUTEX_WAKE_def IORING_OP_MSG_RING_def)
  show ?thesis
    unfolding s0_cycle_def Let_def tag_def [symmetric]
  proof (rule succeeds_or_fail)
    show "succeeds (queue_poll answering_os (fix_ring fx) (fix_target_fd fx) tag s)
        (\<lambda>t. looks 8 (?no(?fd := [?q])) ?no t \<and> same_process s t)"
      using answering_queue [OF l, of "fix_ring fx" "poll_sqe (fix_target_fd fx) tag"]
      by (simp add: queue_poll_def)
    fix t assume t: "looks 8 (?no(?fd := [?q])) ?no t \<and> same_process s t"
    show "succeeds (or_fail (enter_ring answering_os (fix_ring fx) 1 0 t) (\<lambda>s.
        or_fail (Some (prove_pending answering_os fx False (upd_res (\<lambda>r. r\<lparr>poll_submitted := poll_submitted r + 1\<rparr>) s)))
          (\<lambda>s. s0_cancel answering_os fx timed tag s))) (s0_going (Suc n))"
    proof (rule succeeds_or_fail)
      show "succeeds (enter_ring answering_os (fix_ring fx) 1 0 t)
          (\<lambda>u. looks 8 ?no ?no u \<and> res u = res s)"
        unfolding enter_ring_def
        by (rule succeeds_mono [OF answering_enter [OF conjunct1 [OF t]]])
           (use t quiet in \<open>simp_all add: same_process_def fun_upd_idem\<close>)
      fix u assume u: "looks 8 ?no ?no u \<and> res u = res s"
      let ?u = "upd_res (\<lambda>r. r\<lparr>poll_submitted := poll_submitted r + 1\<rparr>) u"
      obtain v where v: "prove_pending answering_os fx False ?u = (0, v)" "looks 8 ?no ?no v"
          "res v = (res ?u)\<lparr>pending_proofs := pending_proofs (res ?u) + 1\<rparr>"
        using answering_prove_pending [of 8 ?no ?no ?u fx] u by auto
      obtain w where w: "sync_cancel answering_os (fix_ring fx) tag v = Some (0, w)" "res w = res v"
          "looks 8 ?no (?no(?fd := [answer_cqe tag (neg_errno ECANCELED)])) w"
        using answering_sync_cancel [OF v(2), of "fix_ring fx" tag] by blast
      let ?w = "upd_res (\<lambda>r. r\<lparr>cancel_ok := cancel_ok r + 1\<rparr>) (upd_res (\<lambda>r. r\<lparr>cancel_submitted := cancel_submitted r + 1\<rparr>)
          (if timed then upd_res (\<lambda>r. r\<lparr>timed_ns := timed_ns r + 0\<rparr>) w else w))"
      have "looks 8 ?no (?no(?fd := [answer_cqe tag (neg_errno ECANCELED)])) ?w" using w(3) by simp
      from answering_wait [OF this, of "fix_ring fx" 1 count_timeout add_unexpected ENTER_TIMEOUT_SECONDS] obtain x where
        x: "wait_and_copy answering_os (fix_ring fx) 1 ?w = Some ((0, [answer_cqe tag (neg_errno ECANCELED)]), x)"
          "looks 8 ?no ?no x" "res x = res ?w"
        by (auto simp: wait_and_copy_def fun_upd_idem)
      show "succeeds (or_fail (Some (prove_pending answering_os fx False ?u))
          (\<lambda>s. s0_cancel answering_os fx timed tag s)) (s0_going (Suc n))"
        using x v w u t assms
        by (cases timed)
           (simp_all add: or_fail_def or_fail_copy_def s0_cancel_def s0_check_def check_res_def observe_cqe_common_def
            answer_cqe_def s0_going_def same_process_def Let_def)
    qed
  qed
qed


definition at_rest :: "int cancel_machine \<Rightarrow> bool" where
  "at_rest s \<longleftrightarrow> looks 8 (\<lambda>fd. []) (\<lambda>fd. []) s"

lemma answering_s0_round:
  assumes "at_rest s"
  shows "succeeds (run_s0_round answering_os fx rn cycles timed s) at_rest"
proof -
  let ?s = "upd_res (\<lambda>_. zero_result\<lparr>batches := ucast cycles, attempts := ucast cycles,
                 logical_cancels := ucast cycles\<rparr>) s"
  have "s0_going 0 ?s" using assms by (simp add: s0_going_def at_rest_def zero_result_def)
  then have "succeeds (round_loop answering_os (\<lambda>c. s0_cycle answering_os fx rn timed (of_nat c)) [0..<unat cycles] ?s)
      (s0_going (unat cycles))"
    by (intro succeeds_round_loop answering_s0_cycle) (simp_all add: s0_going_def looks_def)
  then show ?thesis
    unfolding run_s0_round_def Let_def
  proof (rule succeeds_or_fail)
    fix t assume t: "s0_going (unat cycles) t"
    have l: "looks 8 (\<lambda>fd. []) (\<lambda>fd. []) t" using t by (simp add: s0_going_def)
    show "succeeds (conclude_unless_stopped answering_os (s0_pass cycles)
        (read_ring_counters answering_os (fix_ring fx) t)) at_rest"
      using t answering_counters [OF l]
      by (simp add: read_ring_counters_def conclude_unless_stopped_def conclude_def conclude_with_def
          s0_going_def s0_pass_def at_rest_def looks_def)
  qed
qed

lemma answering_fixture:
  assumes "at_rest s" and "sh_kst (sh s) = 3"
  shows "\<exists>fx t. fixture_init answering_os s = (0, fx, t) \<and> at_rest t"
proof -
  obtain ring t where r: "raw_ring_init answering_os s = (0, ring, t)"
      "sh t = (sh s)\<lparr>sh_kst := 4\<rparr>" "stop_requested t = stop_requested s"
    using answering_bringup [of s RING_ENTRIES
        "zero_params\<lparr>p_flags := IORING_SETUP_CQSIZE, p_cq_entries := RING_ENTRIES * 2\<rparr>"] assms(2) by (auto simp: raw_ring_init_def)
  have "os_eventfd answering_os = (\<lambda>x. ((sh_kst x, 0), x\<lparr>sh_kst := sh_kst x + 1\<rparr>))"
    by (simp add: answering_os_def)
  then show ?thesis
    using r assms(1)
    by (auto simp: fixture_init_def new_eventfd_def sys_def open_fd_def Let_def at_rest_def intro: looks_same)
qed

lemma answering_point:
  assumes "opt_profile opt = PROFILE_S0_SYNC" and "opt_mode opt = MODE_POINT"
  shows "succeeds (run_execute answering_os opt path (answering_machine 8 zero_result)) (\<lambda>t. True)"
proof -
  have fixture: "succeeds (run_fixture answering_os work opt fx t) at_rest" if "at_rest t" for work fx t
    unfolding run_fixture_def warmup_rounds_def measured_rounds_def using assms that
    by (auto simp: run_profile_round_def intro!: succeeds_point answering_s0_round)
       (auto simp: at_rest_def print_line_def intro: looks_same)
  have "succeeds (run_output answering_os work opt (print_line result_header (answering_machine 8 zero_result))) (\<lambda>t. True)"
    for work
  proof -
    let ?s = "print_line result_header (answering_machine 8 zero_result)"
    have "at_rest ?s" "sh_kst (sh ?s) = 3"
      using looks_start [of 8 zero_result]
      by (auto simp: at_rest_def print_line_def answering_machine_def intro: looks_same)
    then obtain fx t where t: "fixture_init answering_os ?s = (0, fx, t)" "at_rest t"
      using answering_fixture by blast
    then show ?thesis
      using fixture [OF t(2), of work fx] assms by (auto simp: run_output_def succeeds_def)
  qed
  then show ?thesis
    unfolding run_execute_def CONTRACT_CPU_def by (intro succeeds_execute)
qed

text \<open>C11: When \<open>main\<close> returns 0 in point mode, three warm-up and fifteen measured rounds have
  passed, each having copied what the checks of its profile let through (\<open>round_ok\<close>), and
  the header and then one row for each measured round, in order, have been printed. On the
  answering system such a run exists: all 18 rounds of 512 synchronous cancels pass.\<close>

theorem point_mode_complete:
  assumes "parse_options (tl argv) = Some opt" and "opt_mode opt = MODE_POINT"
  shows "wp (main os argv s) (\<lambda>code t. code = 0 \<longrightarrow> (\<exists>work rs.
    rounds_passed semantic_pass (round_ok opt) 18 rs s t \<and>
    out_lines t = out_lines s @ result_header #
      map (\<lambda>i. result_row os work opt PHASE_MEASURED (of_nat i) (rs ! (3 + i))) [0..<15]))"
proof -
  have "wp (main os argv s) (\<lambda>code t. code = 0 \<longrightarrow>
      (\<exists>work. run_done os work opt (print_line result_header s) t))"
    using run_execute_point [OF assms(2) parse_options_ok [OF assms(1)]] assms by (simp add: main_def)
  then show ?thesis
    by (rule wp_mono) (auto simp: run_done_def point_done_def print_line_def rounds_passed_def reaps_def)
qed

theorem point_mode_complete_witness:
  "\<exists>t rs. main answering_os
       [''prog'', ''--profile'', ''s0_sync'', ''--mode'', ''point'', ''--output'', ''f'', ''--execute'']
       (answering_machine 8 zero_result) = Some (0, t) \<and> length (out_lines t) = 16 \<and>
     rounds_passed semantic_pass
       (round_ok \<lparr>opt_profile = PROFILE_S0_SYNC, opt_mode = MODE_POINT, opt_output_path = Some ''f'', opt_execute = True\<rparr>)
       18 rs (answering_machine 8 zero_result) t"
proof -
  let ?opt = "\<lparr>opt_profile = PROFILE_S0_SYNC, opt_mode = MODE_POINT, opt_output_path = Some ''f'', opt_execute = True\<rparr>"
  let ?argv = "[''prog'', ''--profile'', ''s0_sync'', ''--mode'', ''point'', ''--output'', ''f'', ''--execute'']"
  have p: "parse_options (tl ?argv) = Some ?opt"
    by (simp add: parse_options_def parse_profile_def parse_mode_def zero_options_def options_ok_def)
  obtain t where t: "main answering_os ?argv (answering_machine 8 zero_result) = Some (0, t)"
    using answering_point [of ?opt "''f''"] p by (auto simp: main_def succeeds_def)
  with point_mode_complete [OF p, of answering_os "answering_machine 8 zero_result"]
  show ?thesis by (auto simp: answering_machine_def)
qed

section \<open>Text\<close>

text \<open>C37: The arguments that spell out acceptable options are parsed back into them.\<close>

theorem options_round_trip:
  assumes "options_ok opt"
  shows "parse_options (option_args opt) = Some opt"
  using assms by (rule parse_option_args)

theorem options_round_trip_witness:
  "parse_options [''--profile'', ''f0_fd_all'', ''--mode'', ''trace'', ''--output'', ''f'', ''--execute''] =
     Some \<lparr>opt_profile = PROFILE_F0_FD_ALL, opt_mode = MODE_TRACE, opt_output_path = Some ''f'', opt_execute = True\<rparr>"
  using options_round_trip [of "\<lparr>opt_profile = PROFILE_F0_FD_ALL, opt_mode = MODE_TRACE,
      opt_output_path = Some ''f'', opt_execute = True\<rparr>"]
  by (simp add: options_ok_def option_args_def)

text \<open>A row splits at its tabs into as many columns as the header, and under the name of
  every counter stands its value in decimal.\<close>

theorem result_row_readable:
  assumes "plain_workload os work" and "(name, v) \<in> set (counter_table r)"
  shows "length (split_tabs (result_row os work opt ph rn r)) = length (split_tabs result_header) \<and>
    (\<exists>txt. map_of (zip (split_tabs result_header) (split_tabs (result_row os work opt ph rn r))) name = Some txt \<and>
       dec_value 0 txt = unat v)"
  using counter_column [OF assms(2), of os work opt ph rn] split_result_line [OF assms(1)]
  by (simp add: result_row_def split_result_header length_result_columns dec64_def dec_value_dec)

theorem result_row_readable_witness:
  "\<exists>txt. map_of (zip (split_tabs result_header) (split_tabs (result_row simple_os
       \<lparr>kernel_release = ''7.1.3'', boot_id = ''id''\<rparr> zero_options PHASE_SMOKE 0
       (zero_result\<lparr>cancel_ok := 32\<rparr>)))) ''cancel_ok'' = Some txt \<and> dec_value 0 txt = 32"
proof -
  have "plain_workload simple_os \<lparr>kernel_release = ''7.1.3'', boot_id = ''id''\<rparr>"
    by (simp add: plain_workload_def simple_os_def)
  moreover have "(''cancel_ok'', 32) \<in> set (counter_table (zero_result\<lparr>cancel_ok := 32\<rparr>))"
    by (simp add: counter_table_def)
  ultimately show ?thesis
    using result_row_readable [of simple_os "\<lparr>kernel_release = ''7.1.3'', boot_id = ''id''\<rparr>"
        "''cancel_ok''" 32 "zero_result\<lparr>cancel_ok := 32\<rparr>" zero_options PHASE_SMOKE 0]
    by auto
qed

end
