(* ===== verification/Futex_Base.thy ===== *)
theory Futex_Base
  imports Exactly_Once Round_Program
begin

text \<open>
  io_uring_futex_round.c: its constants, enumerations and structures, the \<open>user_data\<close>
  tags, and the request builders.
\<close>

section \<open>Constants\<close>

definition SCHEMA_VERSION :: nat where "SCHEMA_VERSION = 1"
definition CONTRACT_CPU :: u32 where "CONTRACT_CPU = 2"
definition RING_ENTRIES :: u32 where "RING_ENTRIES = 64"
definition SCALAR_SLOTS :: nat where [simp]: "SCALAR_SLOTS = 32"
definition WAITV_GROUPS :: nat where [simp]: "WAITV_GROUPS = 8"
definition WAITV_WIDTH :: nat where [simp]: "WAITV_WIDTH = 8"
definition WAITV_WAKE_INDEX :: nat where [simp]: "WAITV_WAKE_INDEX = 3"
definition POINT_CYCLES :: u32 where "POINT_CYCLES = 512"
definition SMOKE_CYCLES :: u32 where "SMOKE_CYCLES = 2"
definition TRACE_CYCLES :: u32 where "TRACE_CYCLES = 16"
definition WARMUP_ROUNDS :: nat where "WARMUP_ROUNDS = 3"
definition MEASURED_ROUNDS :: nat where "MEASURED_ROUNDS = 15"
definition ENTER_TIMEOUT_SECONDS :: int where "ENTER_TIMEOUT_SECONDS = 2"

text \<open>\<open>FUTEX2_SIZE_U32 | FUTEX2_PRIVATE\<close> and \<open>FUTEX_BITSET_MATCH_ANY\<close> of the UAPI.\<close>

definition FUTEX_UAPI_FLAGS :: int where "FUTEX_UAPI_FLAGS = 130"
definition FUTEX_BITSET_MATCH_ANY :: u64 where "FUTEX_BITSET_MATCH_ANY = 0xffffffff"

definition INPUT_SHA256 :: string where
  "INPUT_SHA256 = ''52839acf8ee73d91f39cd75122d33a73d571161f7f93f6d64c90f6203e9f02dd''"

definition TAG_KIND_SHIFT :: nat where [simp]: "TAG_KIND_SHIFT = 56"
definition TAG_CYCLE_SHIFT :: nat where [simp]: "TAG_CYCLE_SHIFT = 16"
definition TAG_INDEX_MASK :: u64 where "TAG_INDEX_MASK = 0xffff"

section \<open>Types\<close>

text \<open>\<open>enum tag_kind\<close>: a kind read out of a tag may be none of the enumerators.\<close>

type_synonym tag_kind = u64

definition TAG_WAIT :: tag_kind where [simp]: "TAG_WAIT = 1"
definition TAG_WAKE :: tag_kind where [simp]: "TAG_WAKE = 2"
definition TAG_CANCEL :: tag_kind where [simp]: "TAG_CANCEL = 3"
definition TAG_CHECK :: tag_kind where [simp]: "TAG_CHECK = 4"
definition TAG_NOP :: tag_kind where [simp]: "TAG_NOP = 5"

datatype profile_id =
    PROFILE_UNSET
  | PROFILE_S0_WAIT_WAKE
  | PROFILE_C0_WAIT_CANCEL
  | PROFILE_V0_WAITV_WAKE
  | PROFILE_Z0_ZERO_WAKE
  | PROFILE_E0_MISMATCH
  | PROFILE_N0_NOP
  | PROFILE_L0_LIFECYCLE

datatype mode_id =
    MODE_UNSET
  | MODE_DESCRIBE
  | MODE_SMOKE
  | MODE_TRACE
  | MODE_POINT

datatype phase_id =
    PHASE_SMOKE
  | PHASE_TRACE
  | PHASE_WARMUP
  | PHASE_MEASURED

record options =
  opt_profile :: profile_id
  opt_mode :: mode_id
  opt_output_path :: "string option"
  opt_execute :: bool

record futex_waitv =
  fw_val :: u64
  fw_uaddr :: u64
  fw_flags :: u32
  fw_reserved :: u32

text \<open>
  The arrays are in memory: the cells from \<open>fix_cells\<close> on, 64 bytes each, the vectors from
  \<open>fix_vectors\<close> on, eight items of 24 bytes each.
\<close>

record fixture =
  fix_ring :: raw_ring
  fix_cells :: u64
  fix_vectors :: u64

record result =
  cycles :: u64
  pairs :: u64
  wait_submitted :: u64
  wake_submitted :: u64
  cancel_submitted :: u64
  nop_submitted :: u64
  wait_cqes :: u64
  wake_cqes :: u64
  cancel_cqes :: u64
  check_cqes :: u64
  nop_cqes :: u64
  bad_results :: u64
  bad_flags :: u64
  duplicate_cqes :: u64
  unexpected_cqes :: u64
  timeouts :: u64
  sq_dropped_total :: u64
  cq_overflow_total :: u64
  outstanding :: u64
  timed_ns :: u64
  semantic_pass :: bool

definition zero_result :: result where
  "zero_result = \<lparr>cycles = 0, pairs = 0, wait_submitted = 0, wake_submitted = 0,
     cancel_submitted = 0, nop_submitted = 0, wait_cqes = 0, wake_cqes = 0, cancel_cqes = 0,
     check_cqes = 0, nop_cqes = 0, bad_results = 0, bad_flags = 0, duplicate_cqes = 0,
     unexpected_cqes = 0, timeouts = 0, sq_dropped_total = 0, cq_overflow_total = 0,
     outstanding = 0, timed_ns = 0, semantic_pass = False\<rparr>"

type_synonym 'k futex_machine = "('k, result) machine"

section \<open>Tags\<close>

definition make_tag :: "tag_kind \<Rightarrow> u32 \<Rightarrow> u32 \<Rightarrow> u64" where
  "make_tag kind cycle index =
     push_bit TAG_KIND_SHIFT kind OR push_bit TAG_CYCLE_SHIFT (ucast cycle) OR ucast index"

definition tag_kind :: "u64 \<Rightarrow> tag_kind" where
  "tag_kind tag = drop_bit TAG_KIND_SHIFT tag"

definition tag_index :: "u64 \<Rightarrow> u32" where
  "tag_index tag = ucast (tag AND TAG_INDEX_MASK)"

lemma bit_below:
  fixes w :: "'a::len word"
  assumes "unat w < 2 ^ k" and "bit w n"
  shows "n < k"
proof -
  have "take_bit k (unat w) = unat w" using assms(1) by (simp add: take_bit_nat_eq_self_iff)
  moreover have "bit (unat w) n" using assms(2) by (simp add: bit_unsigned_iff bit_imp_le_length)
  ultimately show ?thesis by (metis bit_take_bit_iff)
qed

lemma tag_kind_make_tag:
  assumes "unat kind < 2 ^ 8" and "unat index < 2 ^ 16"
  shows "tag_kind (make_tag kind cycle index) = kind"
proof (rule bit_word_eqI)
  fix n assume n: "n < LENGTH(64)"
  show "bit (tag_kind (make_tag kind cycle index)) n \<longleftrightarrow> bit kind n"
    using bit_below [OF assms(1), of n] n
    by (auto simp: tag_kind_def make_tag_def bit_simps dest: bit_imp_le_length)
qed

lemma tag_index_mask: "TAG_INDEX_MASK = mask 16"
  by (simp add: TAG_INDEX_MASK_def mask_eq_exp_minus_1)

lemma tag_index_make_tag:
  assumes "unat kind < 2 ^ 8" and "unat index < 2 ^ 16"
  shows "tag_index (make_tag kind cycle index) = index"
proof (rule bit_word_eqI)
  fix n assume n: "n < LENGTH(32)"
  show "bit (tag_index (make_tag kind cycle index)) n \<longleftrightarrow> bit index n"
    using bit_below [OF assms(2), of n] n
    by (auto simp: tag_index_def tag_index_mask make_tag_def bit_simps)
qed

lemma tag_cycle_make_tag:
  assumes "unat kind < 2 ^ 8" and "unat index < 2 ^ 16"
  shows "take_bit 32 (drop_bit TAG_CYCLE_SHIFT (make_tag kind cycle index)) = ucast cycle"
proof (rule bit_word_eqI)
  fix n assume n: "n < LENGTH(64)"
  show "bit (take_bit 32 (drop_bit TAG_CYCLE_SHIFT (make_tag kind cycle index))) n \<longleftrightarrow>
      bit (ucast cycle :: u64) n"
    using bit_below [OF assms(2), of "16 + n"] n
    by (auto simp: make_tag_def bit_simps dest: bit_imp_le_length)
qed

lemma unat_tag_index: "unat (tag_index tag) < 2 ^ 16"
proof -
  have "unat (tag AND mask 16) < 2 ^ 16"
    using and_mask_less' [of 16 tag] by (simp add: word_less_nat_alt)
  moreover have "unat (ucast (tag AND mask 16) :: u32) \<le> unat (tag AND mask 16)"
    by (simp add: unsigned_ucast_eq take_bit_nat_less_eq_self)
  ultimately show ?thesis by (simp add: tag_index_def tag_index_mask)
qed

section \<open>Requests\<close>

definition wait_sqe :: "u64 \<Rightarrow> u32 \<Rightarrow> u64 \<Rightarrow> sqe \<Rightarrow> sqe" where
  "wait_sqe word expected user_data q =
     q\<lparr>sqe_opcode := IORING_OP_FUTEX_WAIT, sqe_fd := FUTEX_UAPI_FLAGS, sqe_addr := word,
       sqe_off := ucast expected, sqe_addr3 := FUTEX_BITSET_MATCH_ANY, sqe_user_data := user_data\<rparr>"

definition wake_sqe :: "u64 \<Rightarrow> u32 \<Rightarrow> u64 \<Rightarrow> sqe \<Rightarrow> sqe" where
  "wake_sqe word nr_wake user_data q =
     q\<lparr>sqe_opcode := IORING_OP_FUTEX_WAKE, sqe_fd := FUTEX_UAPI_FLAGS, sqe_addr := word,
       sqe_off := ucast nr_wake, sqe_addr3 := FUTEX_BITSET_MATCH_ANY, sqe_user_data := user_data\<rparr>"

definition waitv_sqe :: "u64 \<Rightarrow> u32 \<Rightarrow> u64 \<Rightarrow> sqe \<Rightarrow> sqe" where
  "waitv_sqe vector width user_data q =
     q\<lparr>sqe_opcode := IORING_OP_FUTEX_WAITV, sqe_addr := vector, sqe_len := width,
       sqe_user_data := user_data\<rparr>"

definition cancel_sqe :: "u64 \<Rightarrow> u64 \<Rightarrow> sqe \<Rightarrow> sqe" where
  "cancel_sqe target user_data q =
     q\<lparr>sqe_opcode := IORING_OP_ASYNC_CANCEL, sqe_addr := target,
       sqe_op_flags := IORING_ASYNC_CANCEL_USERDATA, sqe_user_data := user_data\<rparr>"

definition nop_sqe :: "u64 \<Rightarrow> sqe \<Rightarrow> sqe" where
  "nop_sqe user_data q = q\<lparr>sqe_opcode := IORING_OP_NOP, sqe_user_data := user_data\<rparr>"

definition queue_wait :: "'k os \<Rightarrow> raw_ring \<Rightarrow> u64 \<Rightarrow> u32 \<Rightarrow> u64 \<Rightarrow> 'k futex_machine
    \<Rightarrow> (int \<times> 'k futex_machine) option" where
  "queue_wait os ring word expected user_data = queue_with os ring (wait_sqe word expected user_data)"

definition queue_wake :: "'k os \<Rightarrow> raw_ring \<Rightarrow> u64 \<Rightarrow> u32 \<Rightarrow> u64 \<Rightarrow> 'k futex_machine
    \<Rightarrow> (int \<times> 'k futex_machine) option" where
  "queue_wake os ring word nr_wake user_data = queue_with os ring (wake_sqe word nr_wake user_data)"

definition queue_waitv :: "'k os \<Rightarrow> raw_ring \<Rightarrow> u64 \<Rightarrow> u32 \<Rightarrow> u64 \<Rightarrow> 'k futex_machine
    \<Rightarrow> (int \<times> 'k futex_machine) option" where
  "queue_waitv os ring vector width user_data = queue_with os ring (waitv_sqe vector width user_data)"

definition queue_cancel :: "'k os \<Rightarrow> raw_ring \<Rightarrow> u64 \<Rightarrow> u64 \<Rightarrow> 'k futex_machine
    \<Rightarrow> (int \<times> 'k futex_machine) option" where
  "queue_cancel os ring target user_data = queue_with os ring (cancel_sqe target user_data)"

definition queue_nop :: "'k os \<Rightarrow> raw_ring \<Rightarrow> u64 \<Rightarrow> 'k futex_machine
    \<Rightarrow> (int \<times> 'k futex_machine) option" where
  "queue_nop os ring user_data = queue_with os ring (nop_sqe user_data)"

end
