(* ===== verification/Futex_Check.thy ===== *)
theory Futex_Check
  imports Futex_Base
begin

text \<open>
  io_uring_futex_round.c: \<open>count_cqe\<close>, \<open>validate_pair_cqes\<close> and
  \<open>validate_single_cqes\<close>. A completion is looked up by the kind and index of its tag; the
  cycle the tag carries is not compared. The arrays \<open>seen[]\<close> are maps from the index, which
  is checked to be below \<open>slots\<close> before they are touched.
\<close>

section \<open>Error counters\<close>

definition count_cqe :: "tag_kind \<Rightarrow> result \<Rightarrow> result" where
  "count_cqe kind r =
     (if kind = TAG_WAIT then r\<lparr>wait_cqes := wait_cqes r + 1\<rparr>
      else if kind = TAG_WAKE then r\<lparr>wake_cqes := wake_cqes r + 1\<rparr>
      else if kind = TAG_CANCEL then r\<lparr>cancel_cqes := cancel_cqes r + 1\<rparr>
      else if kind = TAG_CHECK then r\<lparr>check_cqes := check_cqes r + 1\<rparr>
      else if kind = TAG_NOP then r\<lparr>nop_cqes := nop_cqes r + 1\<rparr>
      else r\<lparr>unexpected_cqes := unexpected_cqes r + 1\<rparr>)"

definition count_flags :: "cqe \<Rightarrow> result \<Rightarrow> result" where
  "count_flags c r = (if cqe_flags c \<noteq> 0 then r\<lparr>bad_flags := bad_flags r + 1\<rparr> else r)"

definition count_duplicate :: "result \<Rightarrow> result" where
  "count_duplicate r = r\<lparr>duplicate_cqes := duplicate_cqes r + 1\<rparr>"

definition count_unexpected :: "result \<Rightarrow> result" where
  "count_unexpected r = r\<lparr>unexpected_cqes := unexpected_cqes r + 1\<rparr>"

definition count_bad_result :: "result \<Rightarrow> result" where
  "count_bad_result r = r\<lparr>bad_results := bad_results r + 1\<rparr>"

definition verdict :: "result \<Rightarrow> int" where
  "verdict r =
     (if bad_results r \<noteq> 0 \<or> bad_flags r \<noteq> 0 \<or> duplicate_cqes r \<noteq> 0 \<or> unexpected_cqes r \<noteq> 0
      then -1 else 0)"

definition futex_err :: "result \<Rightarrow> nat" where
  "futex_err r = unat (bad_results r) + unat (bad_flags r) + unat (duplicate_cqes r)
     + unat (unexpected_cqes r)"

lemma futex_verdict_zero: "verdict r = 0 \<longleftrightarrow> futex_err r = 0"
  by (simp add: verdict_def futex_err_def unat_eq_0)

lemma futex_err_count [simp]:
  "futex_err r + 1 < 2 ^ 64 \<Longrightarrow> futex_err (count_duplicate r) = futex_err r + 1"
  "futex_err r + 1 < 2 ^ 64 \<Longrightarrow> futex_err (count_unexpected r) = futex_err r + 1"
  "futex_err r + 1 < 2 ^ 64 \<Longrightarrow> futex_err (count_bad_result r) = futex_err r + 1"
  "futex_err r + 1 < 2 ^ 64 \<Longrightarrow> futex_err (count_flags c r) = futex_err r + of_bool (cqe_flags c \<noteq> 0)"
  by (simp_all add: futex_err_def count_duplicate_def count_unexpected_def count_bad_result_def
      count_flags_def unat_inc64)

definition known_kind :: "tag_kind \<Rightarrow> bool" where
  "known_kind k \<longleftrightarrow> k \<in> {TAG_WAIT, TAG_WAKE, TAG_CANCEL, TAG_CHECK, TAG_NOP}"

lemma futex_err_count_cqe:
  "futex_err r + 1 < 2 ^ 64 \<Longrightarrow> futex_err (count_cqe k r) = futex_err r + of_bool (\<not> known_kind k)"
  by (simp add: futex_err_def count_cqe_def known_kind_def unat_inc64)

section \<open>validate_pair_cqes\<close>

type_synonym pair_state = "result \<times> (nat \<Rightarrow> bool) \<times> (nat \<Rightarrow> bool)"

text \<open>The body of the first loop. The array that \<open>seen\<close> points to depends on the kind.\<close>

definition pair_step :: "nat \<Rightarrow> s32 \<Rightarrow> s32 \<Rightarrow> tag_kind \<Rightarrow> cqe \<Rightarrow> pair_state \<Rightarrow> pair_state" where
  "pair_step slots wait_result second_result second_kind c st =
     (let (r, seen_wait, seen_second) = st;
          kind = tag_kind (cqe_user_data c);
          index = unat (tag_index (cqe_user_data c));
          r1 = count_flags c (count_cqe kind r)
      in if index \<ge> slots \<or> kind \<noteq> TAG_WAIT \<and> kind \<noteq> second_kind
         then (count_unexpected r1, seen_wait, seen_second)
         else
           (let seen = (if kind = TAG_WAIT then seen_wait index else seen_second index);
                expected = (if kind = TAG_WAIT then wait_result else second_result);
                r2 = (if seen then count_duplicate r1 else r1);
                r3 = (if cqe_res c \<noteq> expected then count_bad_result r2 else r2)
            in if kind = TAG_WAIT then (r3, seen_wait(index := True), seen_second)
               else (r3, seen_wait, seen_second(index := True))))"

text \<open>The second loop: every slot without its completions is unexpected.\<close>

definition count_missing :: "(nat \<Rightarrow> bool) \<Rightarrow> nat \<Rightarrow> result \<Rightarrow> result" where
  "count_missing complete slots r =
     fold (\<lambda>i r. if complete i then r else count_unexpected r) [0..<slots] r"

definition validate_pair_cqes :: "cqe list \<Rightarrow> nat \<Rightarrow> s32 \<Rightarrow> s32 \<Rightarrow> tag_kind \<Rightarrow> result \<Rightarrow> int \<times> result" where
  "validate_pair_cqes cs slots wait_result second_result second_kind r =
     (if slots > SCALAR_SLOTS then (-1, r)
      else
        (let (r1, seen_wait, seen_second) =
               fold (pair_step slots wait_result second_result second_kind) cs
                 (r, \<lambda>_. False, \<lambda>_. False);
             r2 = count_missing (\<lambda>i. seen_wait i \<and> seen_second i) slots r1
         in (verdict r2, r2)))"

section \<open>validate_single_cqes\<close>

type_synonym single_state = "result \<times> (nat \<Rightarrow> bool)"

definition single_step :: "nat \<Rightarrow> tag_kind \<Rightarrow> s32 \<Rightarrow> cqe \<Rightarrow> single_state \<Rightarrow> single_state" where
  "single_step slots kind expected c st =
     (let (r, seen) = st;
          index = unat (tag_index (cqe_user_data c));
          r1 = count_flags c (count_cqe (tag_kind (cqe_user_data c)) r)
      in if tag_kind (cqe_user_data c) \<noteq> kind \<or> index \<ge> slots
         then (count_unexpected r1, seen)
         else
           (let r2 = (if seen index then count_duplicate r1 else r1);
                r3 = (if cqe_res c \<noteq> expected then count_bad_result r2 else r2)
            in (r3, seen(index := True))))"

definition validate_single_cqes :: "cqe list \<Rightarrow> nat \<Rightarrow> tag_kind \<Rightarrow> s32 \<Rightarrow> result \<Rightarrow> int \<times> result" where
  "validate_single_cqes cs slots kind expected r =
     (let (r1, seen) = fold (single_step slots kind expected) cs (r, \<lambda>_. False);
          r2 = count_missing seen slots r1
      in (verdict r2, r2))"

section \<open>Which slot a completion fills\<close>

text \<open>The slot is \<open>(False, i)\<close> for the wait and \<open>(True, i)\<close> for the second request.\<close>

definition pair_slot :: "nat \<Rightarrow> tag_kind \<Rightarrow> cqe \<Rightarrow> (bool \<times> nat) option" where
  "pair_slot slots second_kind c =
     (let kind = tag_kind (cqe_user_data c); index = unat (tag_index (cqe_user_data c))
      in if index \<ge> slots \<or> kind \<noteq> TAG_WAIT \<and> kind \<noteq> second_kind then None
         else Some (kind \<noteq> TAG_WAIT, index))"

definition pair_want :: "s32 \<Rightarrow> s32 \<Rightarrow> bool \<times> nat \<Rightarrow> s32" where
  "pair_want wait_result second_result j = (if fst j then second_result else wait_result)"

definition pair_seen :: "pair_state \<Rightarrow> (bool \<times> nat) set" where
  "pair_seen st = {(k, i). if k then snd (snd st) i else fst (snd st) i}"

definition single_slot :: "nat \<Rightarrow> tag_kind \<Rightarrow> cqe \<Rightarrow> nat option" where
  "single_slot slots kind c =
     (let index = unat (tag_index (cqe_user_data c))
      in if tag_kind (cqe_user_data c) \<noteq> kind \<or> index \<ge> slots then None else Some index)"

definition single_seen :: "single_state \<Rightarrow> nat set" where
  "single_seen st = {i. snd st i}"

text \<open>The correct completions fill slots; any other fills none.\<close>

definition fills_pair :: "nat \<Rightarrow> s32 \<Rightarrow> s32 \<Rightarrow> tag_kind \<Rightarrow> cqe \<Rightarrow> (bool \<times> nat) option" where
  "fills_pair slots wait_result second_result second_kind c =
     (case pair_slot slots second_kind c of
        None \<Rightarrow> None
      | Some j \<Rightarrow> if cqe_flags c = 0 \<and> cqe_res c = pair_want wait_result second_result j
                  then Some j else None)"

definition fills_single :: "nat \<Rightarrow> tag_kind \<Rightarrow> s32 \<Rightarrow> cqe \<Rightarrow> nat option" where
  "fills_single slots kind expected c =
     (case single_slot slots kind c of
        None \<Rightarrow> None
      | Some i \<Rightarrow> if cqe_flags c = 0 \<and> cqe_res c = expected then Some i else None)"

text \<open>The kinds the program passes are all known.\<close>

definition norm_kind :: "tag_kind \<Rightarrow> tag_kind" where
  "norm_kind k = (if known_kind k then k else TAG_WAIT)"

lemma known_norm [simp]: "known_kind (norm_kind k)"
  by (simp add: norm_kind_def known_kind_def)

lemma norm_known [simp]: "known_kind k \<Longrightarrow> norm_kind k = k"
  by (simp add: norm_kind_def)

lemma known_kinds [simp]:
  "known_kind TAG_WAIT" "known_kind TAG_WAKE" "known_kind TAG_CANCEL" "known_kind TAG_CHECK"
  "known_kind TAG_NOP"
  by (simp_all add: known_kind_def)

lemma observed_err:
  assumes "futex_err s + 2 < 2 ^ 64"
  shows "futex_err (count_flags c (count_cqe k s)) =
    futex_err s + of_bool (\<not> known_kind k) + of_bool (cqe_flags c \<noteq> 0)"
  using assms by (simp add: futex_err_count_cqe)

lemma pair_slot_cases:
  assumes "pair_slot slots k2 c = Some (k, i)"
  shows "i < slots" "unat (tag_index (cqe_user_data c)) = i"
    "tag_kind (cqe_user_data c) = (if k then k2 else TAG_WAIT)" "k \<Longrightarrow> k2 \<noteq> TAG_WAIT"
  using assms by (auto simp: pair_slot_def Let_def simp del: TAG_WAIT_def split: if_splits)

lemma pair_step_known:
  assumes slot: "pair_slot slots k2 c = Some (k, i)" and known: "known_kind k2"
    and room: "futex_err s + 4 < 2 ^ 64"
  shows "futex_err (fst (pair_step slots w s2 k2 c (s, sw, ss))) =
        futex_err s + of_bool (cqe_flags c \<noteq> 0) + of_bool (if k then ss i else sw i)
          + of_bool (cqe_res c \<noteq> (if k then s2 else w))"
proof -
  note facts = pair_slot_cases [OF slot]
  show ?thesis
  proof (cases k)
    case True
    have "futex_err (count_flags c (count_cqe k2 s)) = futex_err s + of_bool (cqe_flags c \<noteq> 0)"
      using observed_err [of s c k2] room known by simp
    with True facts room show ?thesis
      by (simp add: pair_step_def Let_def del: TAG_WAIT_def)
  next
    case False
    have "futex_err (count_flags c (count_cqe TAG_WAIT s)) = futex_err s + of_bool (cqe_flags c \<noteq> 0)"
      using observed_err [of s c TAG_WAIT] room known_kinds(1) by (simp del: TAG_WAIT_def)
    with False facts room show ?thesis
      by (simp add: pair_step_def Let_def del: TAG_WAIT_def)
  qed
qed

lemma pair_step_seen:
  assumes slot: "pair_slot slots k2 c = Some (k, i)"
  shows "snd (pair_step slots w s2 k2 c (s, sw, ss)) =
        (if k then (sw, ss(i := True)) else (sw(i := True), ss))"
  using pair_slot_cases [OF slot]
  by (cases k) (simp_all add: pair_step_def Let_def del: TAG_WAIT_def)

lemma pair_step_unknown:
  assumes slot: "pair_slot slots k2 c = None" and room: "futex_err s + 4 < 2 ^ 64"
  shows "futex_err s < futex_err (fst (pair_step slots w s2 k2 c (s, sw, ss))) \<and>
    futex_err (fst (pair_step slots w s2 k2 c (s, sw, ss))) \<le> futex_err s + 4"
proof -
  have "unat (tag_index (cqe_user_data c)) \<ge> slots \<or>
      tag_kind (cqe_user_data c) \<noteq> TAG_WAIT \<and> tag_kind (cqe_user_data c) \<noteq> k2"
    using slot unfolding pair_slot_def Let_def by (rule contrapos_pp) simp
  then have "pair_step slots w s2 k2 c (s, sw, ss) =
      (count_unexpected (count_flags c (count_cqe (tag_kind (cqe_user_data c)) s)), sw, ss)"
    unfolding pair_step_def Let_def prod.case by (rule if_P)
  with room show ?thesis by (simp add: observed_err)
qed

lemma pair_seen_step:
  "pair_seen (s, sw(i := True), ss) = insert (False, i) (pair_seen (s', sw, ss))"
  "pair_seen (s, sw, ss(i := True)) = insert (True, i) (pair_seen (s', sw, ss))"
  by (auto simp: pair_seen_def split: if_splits)

interpretation pair: cqe_checker "pair_step slots w e (norm_kind k)" "\<lambda>st. futex_err (fst st)"
  pair_seen "pair_slot slots (norm_kind k)" "pair_want w e" "pair_slots slots"
  for slots w e k
proof unfold_locales
  fix st :: pair_state and c
  obtain s sw ss where st: "st = (s, sw, ss)" by (cases st)
  show "distinct (pair_slots slots)" by (rule distinct_pair_slots)
  show "j \<in> set (pair_slots slots)" if "pair_slot slots (norm_kind k) c = Some j" for j
    using that by (cases j) (auto simp: set_pair_slots dest: pair_slot_cases(1))
  show "futex_err (fst (pair_step slots w e (norm_kind k) c st)) = futex_err (fst st)
      + of_bool (cqe_flags c \<noteq> 0) + of_bool (j \<in> pair_seen st) + of_bool (cqe_res c \<noteq> pair_want w e j)"
    if "pair_slot slots (norm_kind k) c = Some j" "futex_err (fst st) + 4 < 2 ^ 64" for j
    using that pair_step_known [of slots "norm_kind k" c "fst j" "snd j" s w e sw ss]
    by (cases j) (simp add: st pair_seen_def pair_want_def)
  show "pair_seen (pair_step slots w e (norm_kind k) c st) = insert j (pair_seen st)"
    if "pair_slot slots (norm_kind k) c = Some j" for j
  proof -
    obtain b i where j: "j = (b, i)" by (cases j)
    obtain s' pr where eq: "pair_step slots w e (norm_kind k) c (s, sw, ss) = (s', pr)"
      by (cases "pair_step slots w e (norm_kind k) c (s, sw, ss)")
    have "pr = (if b then (sw, ss(i := True)) else (sw(i := True), ss))"
      using pair_step_seen [of slots "norm_kind k" c b i w e s sw ss] that j eq by simp
    then show ?thesis unfolding st eq j by (cases b) (simp_all add: pair_seen_step)
  qed
  show "futex_err (fst st) < futex_err (fst (pair_step slots w e (norm_kind k) c st)) \<and>
      futex_err (fst (pair_step slots w e (norm_kind k) c st)) \<le> futex_err (fst st) + 4"
    if "pair_slot slots (norm_kind k) c = None" "futex_err (fst st) + 4 < 2 ^ 64"
    using that pair_step_unknown by (simp add: st)
qed

lemma single_slot_cases:
  assumes "single_slot slots k c = Some i"
  shows "i < slots" "unat (tag_index (cqe_user_data c)) = i" "tag_kind (cqe_user_data c) = k"
  using assms by (auto simp: single_slot_def Let_def split: if_splits)

lemma single_step_known:
  assumes slot: "single_slot slots k c = Some i" and known: "known_kind k"
    and room: "futex_err s + 4 < 2 ^ 64"
  shows "futex_err (fst (single_step slots k e c (s, sn))) =
        futex_err s + of_bool (cqe_flags c \<noteq> 0) + of_bool (sn i) + of_bool (cqe_res c \<noteq> e)"
proof -
  note facts = single_slot_cases [OF slot]
  define r1 where "r1 = count_flags c (count_cqe k s)"
  have r1: "futex_err r1 = futex_err s + of_bool (cqe_flags c \<noteq> 0)"
    using observed_err [of s c k] room known by (simp add: r1_def)
  show ?thesis
    using facts r1 room by (simp add: single_step_def r1_def [symmetric] Let_def)
qed

lemma single_step_seen:
  "single_slot slots k c = Some i \<Longrightarrow> snd (single_step slots k e c (s, sn)) = sn(i := True)"
  using single_slot_cases [of slots k c i] by (simp add: single_step_def Let_def)

lemma single_step_unknown:
  assumes slot: "single_slot slots k c = None" and room: "futex_err s + 4 < 2 ^ 64"
  shows "futex_err s < futex_err (fst (single_step slots k e c (s, sn))) \<and>
    futex_err (fst (single_step slots k e c (s, sn))) \<le> futex_err s + 4"
proof -
  have "tag_kind (cqe_user_data c) \<noteq> k \<or> unat (tag_index (cqe_user_data c)) \<ge> slots"
    using slot unfolding single_slot_def Let_def by (rule contrapos_pp) simp
  then have "single_step slots k e c (s, sn) =
      (count_unexpected (count_flags c (count_cqe (tag_kind (cqe_user_data c)) s)), sn)"
    unfolding single_step_def Let_def prod.case by (rule if_P)
  with room show ?thesis by (simp add: observed_err)
qed

interpretation single: cqe_checker "single_step slots (norm_kind k) e" "\<lambda>st. futex_err (fst st)"
  single_seen "single_slot slots (norm_kind k)" "\<lambda>i. e" "[0..<slots]"
  for slots k e
proof unfold_locales
  fix st :: single_state and c
  obtain s sn where st: "st = (s, sn)" by (cases st)
  show "distinct [0..<slots]" by simp
  show "i \<in> set [0..<slots]" if "single_slot slots (norm_kind k) c = Some i" for i
    using single_slot_cases(1) [OF that] by simp
  show "futex_err (fst (single_step slots (norm_kind k) e c st)) = futex_err (fst st)
      + of_bool (cqe_flags c \<noteq> 0) + of_bool (i \<in> single_seen st) + of_bool (cqe_res c \<noteq> e)"
    if "single_slot slots (norm_kind k) c = Some i" "futex_err (fst st) + 4 < 2 ^ 64" for i
    using that single_step_known [of slots "norm_kind k" c i s e sn] by (simp add: st single_seen_def)
  show "single_seen (single_step slots (norm_kind k) e c st) = insert i (single_seen st)"
    if "single_slot slots (norm_kind k) c = Some i" for i
    using single_step_seen [OF that, of e s sn] by (auto simp: st single_seen_def)
  show "futex_err (fst st) < futex_err (fst (single_step slots (norm_kind k) e c st)) \<and>
      futex_err (fst (single_step slots (norm_kind k) e c st)) \<le> futex_err (fst st) + 4"
    if "single_slot slots (norm_kind k) c = None" "futex_err (fst st) + 4 < 2 ^ 64"
    using that single_step_unknown by (simp add: st)
qed

section \<open>The verdicts\<close>

lemma count_missing_err:
  "futex_err r + slots < 2 ^ 64 \<Longrightarrow>
     futex_err (count_missing complete slots r) = futex_err r + card {i. i < slots \<and> \<not> complete i}"
proof (induction slots)
  case 0
  then show ?case by (simp add: count_missing_def)
next
  case (Suc n)
  have "{i. i < Suc n \<and> \<not> complete i} =
      (if complete n then {i. i < n \<and> \<not> complete i} else insert n {i. i < n \<and> \<not> complete i})"
    by (auto simp: less_Suc_eq)
  moreover have "card {i. i < n \<and> \<not> complete i} \<le> n"
    using card_mono [of "{..<n}" "{i. i < n \<and> \<not> complete i}"] by auto
  ultimately show ?case using Suc by (simp add: count_missing_def)
qed

lemma count_missing_zero:
  assumes "futex_err r + slots < 2 ^ 64"
  shows "futex_err (count_missing complete slots r) = 0 \<longleftrightarrow> futex_err r = 0 \<and> (\<forall>i < slots. complete i)"
  using count_missing_err [OF assms] by (auto simp: card_eq_0_iff)

lemma fills_pair_eq:
  "known_kind k \<Longrightarrow> cqe_checker.fills (pair_slot slots k) (pair_want w e) = fills_pair slots w e k"
  using pair.fills_def [where slots = slots and w = w and e = e and k = k]
  by (simp add: fun_eq_iff fills_pair_def)

lemma fills_single_eq:
  "known_kind k \<Longrightarrow> cqe_checker.fills (single_slot slots k) (\<lambda>i. e) = fills_single slots k e"
  using single.fills_def [where slots = slots and e = e and k = k]
  by (simp add: fun_eq_iff fills_single_def)

lemma pair_seen_covers:
  "set (pair_slots slots) \<subseteq> pair_seen st \<longleftrightarrow> (\<forall>i < slots. fst (snd st) i \<and> snd (snd st) i)"
proof -
  have "set (pair_slots slots) \<subseteq> pair_seen st \<longleftrightarrow> (\<forall>k. \<forall>i < slots. (k, i) \<in> pair_seen st)"
    by (auto simp: set_pair_slots)
  also have "\<dots> \<longleftrightarrow> (\<forall>i < slots. fst (snd st) i \<and> snd (snd st) i)"
    by (auto simp: pair_seen_def all_bool_eq)
  finally show ?thesis .
qed

lemma single_seen_covers: "set [0..<slots] \<subseteq> single_seen st \<longleftrightarrow> (\<forall>i < slots. snd st i)"
  by (auto simp: single_seen_def)

text \<open>
  The check accepts exactly the completions that fill every slot once; \<open>nr\<close> is 32 bits wide.
\<close>

lemma validate_pair_iff:
  assumes r: "futex_err r = 0" and slots: "slots \<le> SCALAR_SLOTS" and len: "length cs < 2 ^ 32"
    and known: "known_kind k2"
  shows "fst (validate_pair_cqes cs slots w s2 k2 r) = 0 \<longleftrightarrow>
    mset (map (fills_pair slots w s2 k2) cs) = mset (map Some (pair_slots slots))"
proof -
  obtain s sw ss where f: "fold (pair_step slots w s2 (norm_kind k2)) cs (r, \<lambda>_. False, \<lambda>_. False) = (s, sw, ss)"
    by (cases "fold (pair_step slots w s2 (norm_kind k2)) cs (r, \<lambda>_. False, \<lambda>_. False)")
  have room: "futex_err (fst (r, \<lambda>_ :: nat. False, \<lambda>_ :: nat. False)) + 4 * length cs < 2 ^ 64"
    using r len by simp
  have fresh: "pair_seen (r, \<lambda>_. False, \<lambda>_. False) = {}" by (simp add: pair_seen_def)
  have "futex_err s \<le> 4 * length cs"
    using pair.err_fold [OF room, where slots = slots and w = w and e = s2 and k = k2] r f by simp
  then have "futex_err s + slots < 2 ^ 64" using len slots by simp
  then have "fst (validate_pair_cqes cs slots w s2 k2 r) = 0 \<longleftrightarrow>
      futex_err s = 0 \<and> (\<forall>i < slots. sw i \<and> ss i)"
    using slots f known
    by (simp add: validate_pair_cqes_def futex_verdict_zero count_missing_zero Let_def)
  also have "\<dots> \<longleftrightarrow> futex_err s = 0 \<and> set (pair_slots slots) \<subseteq> pair_seen (s, sw, ss)"
    by (simp add: pair_seen_covers)
  also have "\<dots> \<longleftrightarrow> mset (map (fills_pair slots w s2 k2) cs) = mset (map Some (pair_slots slots))"
    using pair.covers_iff [OF room fresh, where slots = slots and w = w and e = s2 and k = k2] r f known
    by (simp add: fills_pair_eq)
  finally show ?thesis .
qed

lemma validate_pair_too_many: "slots > SCALAR_SLOTS \<Longrightarrow> validate_pair_cqes cs slots w s2 k2 r = (-1, r)"
  by (simp add: validate_pair_cqes_def)

lemma validate_single_iff:
  assumes r: "futex_err r = 0" and slots: "slots \<le> SCALAR_SLOTS" and len: "length cs < 2 ^ 32"
    and known: "known_kind k"
  shows "fst (validate_single_cqes cs slots k e r) = 0 \<longleftrightarrow>
    mset (map (fills_single slots k e) cs) = mset (map Some [0..<slots])"
proof -
  obtain s sn where f: "fold (single_step slots (norm_kind k) e) cs (r, \<lambda>_. False) = (s, sn)"
    by (cases "fold (single_step slots (norm_kind k) e) cs (r, \<lambda>_. False)")
  have room: "futex_err (fst (r, \<lambda>_ :: nat. False)) + 4 * length cs < 2 ^ 64"
    using r len by simp
  have fresh: "single_seen (r, \<lambda>_. False) = {}" by (simp add: single_seen_def)
  have "futex_err s \<le> 4 * length cs"
    using single.err_fold [OF room, where slots = slots and k = k and e = e] r f by simp
  then have "futex_err s + slots < 2 ^ 64" using len slots by simp
  then have "fst (validate_single_cqes cs slots k e r) = 0 \<longleftrightarrow> futex_err s = 0 \<and> (\<forall>i < slots. sn i)"
    using f known by (simp add: validate_single_cqes_def futex_verdict_zero count_missing_zero Let_def)
  also have "\<dots> \<longleftrightarrow> futex_err s = 0 \<and> set [0..<slots] \<subseteq> single_seen (s, sn)"
    by (simp only: single_seen_covers) simp
  also have "\<dots> \<longleftrightarrow> mset (map (fills_single slots k e) cs) = mset (map Some [0..<slots])"
    using single.covers_iff [OF room fresh, where slots = slots and k = k and e = e] r f known
    by (simp add: fills_single_eq)
  finally show ?thesis .
qed

lemma validate_pair_err:
  "fst (validate_pair_cqes cs slots w s2 k2 r) = 0 \<Longrightarrow> futex_err (snd (validate_pair_cqes cs slots w s2 k2 r)) = 0"
  by (simp add: validate_pair_cqes_def Let_def futex_verdict_zero split_beta split: if_splits)

lemma validate_single_err:
  "fst (validate_single_cqes cs slots k e r) = 0 \<Longrightarrow> futex_err (snd (validate_single_cqes cs slots k e r)) = 0"
  by (simp add: validate_single_cqes_def Let_def futex_verdict_zero split_beta)

section \<open>The counters after an accepted check\<close>

lemma count_cqe_commute: "count_cqe j \<circ> count_cqe k = count_cqe k \<circ> count_cqe j"
  by (simp add: fun_eq_iff count_cqe_def)

lemma count_cqe_known:
  "count_cqe TAG_WAIT r = r\<lparr>wait_cqes := wait_cqes r + 1\<rparr>"
  "count_cqe TAG_WAKE r = r\<lparr>wake_cqes := wake_cqes r + 1\<rparr>"
  "count_cqe TAG_CANCEL r = r\<lparr>cancel_cqes := cancel_cqes r + 1\<rparr>"
  "count_cqe TAG_CHECK r = r\<lparr>check_cqes := check_cqes r + 1\<rparr>"
  "count_cqe TAG_NOP r = r\<lparr>nop_cqes := nop_cqes r + 1\<rparr>"
  by (simp_all add: count_cqe_def)

lemma count_cqe_times:
  "(count_cqe TAG_WAIT ^^ n) r = r\<lparr>wait_cqes := wait_cqes r + of_nat n\<rparr>"
  "(count_cqe TAG_WAKE ^^ n) r = r\<lparr>wake_cqes := wake_cqes r + of_nat n\<rparr>"
  "(count_cqe TAG_CANCEL ^^ n) r = r\<lparr>cancel_cqes := cancel_cqes r + of_nat n\<rparr>"
  "(count_cqe TAG_CHECK ^^ n) r = r\<lparr>check_cqes := check_cqes r + of_nat n\<rparr>"
  "(count_cqe TAG_NOP ^^ n) r = r\<lparr>nop_cqes := nop_cqes r + of_nat n\<rparr>"
  by (induction n; simp add: count_cqe_known add_ac
      del: TAG_WAIT_def TAG_WAKE_def TAG_CANCEL_def TAG_CHECK_def TAG_NOP_def)+

definition count_kinds :: "cqe list \<Rightarrow> result \<Rightarrow> result" where
  "count_kinds cs = fold count_cqe (map (\<lambda>c. tag_kind (cqe_user_data c)) cs)"

lemma count_missing_none: "\<forall>i < slots. complete i \<Longrightarrow> count_missing complete slots r = r"
  by (induction slots) (simp_all add: count_missing_def)

lemma pair_step_good:
  assumes "fills_pair slots w e k c = Some (b, i)" and "(b, i) \<notin> pair_seen (s, sw, ss)"
  shows "fst (pair_step slots w e k c (s, sw, ss)) = count_cqe (tag_kind (cqe_user_data c)) s"
proof -
  have slot: "pair_slot slots k c = Some (b, i)" and flags: "cqe_flags c = 0"
    and res: "cqe_res c = pair_want w e (b, i)"
    using assms(1) by (auto simp: fills_pair_def split: option.splits if_splits)
  with pair_slot_cases [OF slot] assms(2) show ?thesis
    by (cases b) (simp_all add: pair_step_def count_flags_def pair_want_def pair_seen_def Let_def del: TAG_WAIT_def)
qed

lemma pair_goods_counters:
  "pair.goods slots w e k cs st \<Longrightarrow>
    fst (fold (pair_step slots w e (norm_kind k)) cs st) = count_kinds cs (fst st)"
proof (induction cs arbitrary: st)
  case Nil
  then show ?case by (simp add: count_kinds_def)
next
  case (Cons c cs)
  obtain s sw ss where st: "st = (s, sw, ss)" by (cases st)
  from Cons.prems have good: "pair.good_cqe slots k w e c st"
    and rest: "pair.goods slots w e k cs (pair_step slots w e (norm_kind k) c st)"
    by (simp_all only: pair.goods.simps)
  from good obtain j where "fills_pair slots w e (norm_kind k) c = Some j" "j \<notin> pair_seen st"
    unfolding pair.good_cqe_def fills_pair_eq [OF known_norm] by blast
  then have "fst (pair_step slots w e (norm_kind k) c st) = count_cqe (tag_kind (cqe_user_data c)) s"
    unfolding st by (cases j) (blast intro: pair_step_good)
  with Cons.IH [OF rest] show ?case by (simp add: count_kinds_def st)
qed

lemma single_step_good:
  assumes "fills_single slots k e c = Some i" and "i \<notin> single_seen (s, sn)"
  shows "fst (single_step slots k e c (s, sn)) = count_cqe (tag_kind (cqe_user_data c)) s"
proof -
  have slot: "single_slot slots k c = Some i" and "cqe_flags c = 0" "cqe_res c = e"
    using assms(1) by (auto simp: fills_single_def split: option.splits if_splits)
  with single_slot_cases [OF slot] assms(2) show ?thesis
    by (simp add: single_step_def count_flags_def single_seen_def Let_def)
qed

lemma single_goods_counters:
  "single.goods slots k e cs st \<Longrightarrow>
    fst (fold (single_step slots (norm_kind k) e) cs st) = count_kinds cs (fst st)"
proof (induction cs arbitrary: st)
  case Nil
  then show ?case by (simp add: count_kinds_def)
next
  case (Cons c cs)
  obtain s sn where st: "st = (s, sn)" by (cases st)
  from Cons.prems have good: "single.good_cqe slots k e c st"
    and rest: "single.goods slots k e cs (single_step slots (norm_kind k) e c st)"
    by (simp_all only: single.goods.simps)
  from good obtain i where "fills_single slots (norm_kind k) e c = Some i" "i \<notin> single_seen st"
    unfolding single.good_cqe_def fills_single_eq [OF known_norm] by blast
  then have "fst (single_step slots (norm_kind k) e c st) = count_cqe (tag_kind (cqe_user_data c)) s"
    unfolding st by (rule single_step_good)
  with Cons.IH [OF rest] show ?case by (simp add: count_kinds_def st)
qed

text \<open>The order of the completions does not matter to the counters.\<close>

lemma count_kinds_mset:
  assumes "mset (map (\<lambda>c. tag_kind (cqe_user_data c)) cs) = mset ks"
  shows "count_kinds cs = fold count_cqe ks"
  unfolding count_kinds_def
  by (rule fold_multiset_equiv [OF _ assms]) (rule count_cqe_commute)

lemma kinds_of_slots:
  assumes fill: "\<And>c j. fills c = Some j \<Longrightarrow> tag_kind (cqe_user_data c) = kd j"
    and perm: "mset (map fills cs) = mset (map Some js)"
  shows "mset (map (\<lambda>c. tag_kind (cqe_user_data c)) cs) = mset (map kd js)"
proof -
  have all: "fills c = Some (the (fills c))" if "c \<in> set cs" for c
  proof -
    have "set (map fills cs) = set (map Some js)" by (rule mset_eq_setD [OF perm])
    then have "fills ` set cs = Some ` set js" by simp
    with that have "fills c \<in> Some ` set js" by blast
    then show ?thesis by auto
  qed
  have "mset (map (\<lambda>c. tag_kind (cqe_user_data c)) cs) = image_mset (kd \<circ> the) (mset (map fills cs))"
    using all fill by (auto intro!: image_mset_cong simp: image_mset.compositionality)
  also have "\<dots> = mset (map kd js)" unfolding perm by (simp add: image_mset.compositionality comp_def)
  finally show ?thesis .
qed

lemma fold_const: "fold (\<lambda>x. f) xs = f ^^ length xs"
  by (induction xs) (simp_all add: funpow_swap1 fun_eq_iff)

lemma validate_pair_counters:
  assumes r: "futex_err r = 0" and slots: "slots \<le> SCALAR_SLOTS" and len: "length cs < 2 ^ 32"
    and known: "known_kind k" and ok: "fst (validate_pair_cqes cs slots w e k r) = 0"
  shows "snd (validate_pair_cqes cs slots w e k r) = (count_cqe k ^^ slots) ((count_cqe TAG_WAIT ^^ slots) r)"
proof -
  note perm = validate_pair_iff [OF r slots len known, THEN iffD1, OF ok]
  obtain s sw ss where f: "fold (pair_step slots w e (norm_kind k)) cs (r, \<lambda>_. False, \<lambda>_. False) = (s, sw, ss)"
    by (cases "fold (pair_step slots w e (norm_kind k)) cs (r, \<lambda>_. False, \<lambda>_. False)")
  have room: "futex_err (fst (r, \<lambda>_ :: nat. False, \<lambda>_ :: nat. False)) + 4 * length cs < 2 ^ 64"
    using r len by simp
  have fresh: "pair_seen (r, \<lambda>_. False, \<lambda>_. False) = {}" by (simp add: pair_seen_def)
  have acc: "futex_err s = 0 \<and> set (pair_slots slots) \<subseteq> pair_seen (s, sw, ss)"
    using pair.covers_iff [OF room fresh, where slots = slots and w = w and e = e and k = k] perm r f known
    by (simp add: fills_pair_eq)
  then have "pair.goods slots w e k cs (r, \<lambda>_. False, \<lambda>_. False)"
    using pair.err_fold_goods [OF room, where slots = slots and w = w and e = e and k = k] r f by simp
  from pair_goods_counters [OF this] f have s: "s = count_kinds cs r" by simp
  have all: "\<forall>i < slots. sw i \<and> ss i"
    using acc pair_seen_covers [of slots "(s, sw, ss)"] by simp
  have "mset (map (\<lambda>c. tag_kind (cqe_user_data c)) cs) =
      mset (map (\<lambda>j. if fst j then k else TAG_WAIT) (pair_slots slots))"
  proof (rule kinds_of_slots [OF _ perm])
    fix c j assume "fills_pair slots w e k c = Some j"
    then have "pair_slot slots k c = Some (fst j, snd j)"
      by (auto simp: fills_pair_def split: option.splits if_splits)
    from pair_slot_cases(3) [OF this] show "tag_kind (cqe_user_data c) = (if fst j then k else TAG_WAIT)" .
  qed
  from count_kinds_mset [OF this] have "count_kinds cs = (count_cqe k ^^ slots) \<circ> (count_cqe TAG_WAIT ^^ slots)"
    by (simp add: pair_slots_def fold_map comp_def fold_const del: TAG_WAIT_def)
  with s show ?thesis
    using slots f known count_missing_none [OF all] by (simp add: validate_pair_cqes_def Let_def del: TAG_WAIT_def)
qed

lemma validate_single_counters:
  assumes r: "futex_err r = 0" and slots: "slots \<le> SCALAR_SLOTS" and len: "length cs < 2 ^ 32"
    and known: "known_kind k" and ok: "fst (validate_single_cqes cs slots k e r) = 0"
  shows "snd (validate_single_cqes cs slots k e r) = (count_cqe k ^^ slots) r"
proof -
  note perm = validate_single_iff [OF r slots len known, THEN iffD1, OF ok]
  obtain s sn where f: "fold (single_step slots (norm_kind k) e) cs (r, \<lambda>_. False) = (s, sn)"
    by (cases "fold (single_step slots (norm_kind k) e) cs (r, \<lambda>_. False)")
  have room: "futex_err (fst (r, \<lambda>_ :: nat. False)) + 4 * length cs < 2 ^ 64"
    using r len by simp
  have fresh: "single_seen (r, \<lambda>_. False) = {}" by (simp add: single_seen_def)
  have acc: "futex_err s = 0 \<and> set [0..<slots] \<subseteq> single_seen (s, sn)"
    using single.covers_iff [OF room fresh, where slots = slots and e = e and k = k] perm r f known
    by (simp add: fills_single_eq)
  then have "single.goods slots k e cs (r, \<lambda>_. False)"
    using single.err_fold_goods [OF room, where slots = slots and e = e and k = k] r f by simp
  from single_goods_counters [OF this] f have s: "s = count_kinds cs r" by simp
  have all: "\<forall>i < slots. sn i"
    using acc single_seen_covers [of slots "(s, sn)"] by simp
  have "mset (map (\<lambda>c. tag_kind (cqe_user_data c)) cs) = mset (map (\<lambda>j. k) [0..<slots])"
  proof (rule kinds_of_slots [OF _ perm])
    fix c i assume "fills_single slots k e c = Some i"
    then have "single_slot slots k c = Some i"
      by (auto simp: fills_single_def split: option.splits if_splits)
    from single_slot_cases(3) [OF this] show "tag_kind (cqe_user_data c) = k" .
  qed
  from count_kinds_mset [OF this] have "count_kinds cs = count_cqe k ^^ slots"
    by (simp only: fold_map comp_def fold_const length_upt) simp
  with s show ?thesis
    using f known count_missing_none [OF all] by (simp add: validate_single_cqes_def Let_def)
qed

end
