(* ===== verification/Futex_Rounds.thy ===== *)
theory Futex_Rounds
  imports Futex_Check
begin

text \<open>
  io_uring_futex_round.c: the ring, the opcode probe, the fixture with its futex words in
  memory, the three kinds of cycles, the lifecycle run and \<open>run_profile_round\<close>.
\<close>

section \<open>Calls\<close>

definition count_timeout :: "result \<Rightarrow> result" where
  "count_timeout r = r\<lparr>timeouts := timeouts r + 1\<rparr>"

definition add_unexpected :: "u64 \<Rightarrow> result \<Rightarrow> result" where
  "add_unexpected d r = r\<lparr>unexpected_cqes := unexpected_cqes r + d\<rparr>"

definition enter_ring :: "'k os \<Rightarrow> raw_ring \<Rightarrow> u32 \<Rightarrow> u32 \<Rightarrow> 'k futex_machine
    \<Rightarrow> (int \<times> 'k futex_machine) option" where
  "enter_ring = enter_with count_timeout ENTER_TIMEOUT_SECONDS"

definition wait_and_copy :: "'k os \<Rightarrow> raw_ring \<Rightarrow> u32 \<Rightarrow> 'k futex_machine
    \<Rightarrow> ((int \<times> cqe list) \<times> 'k futex_machine) option" where
  "wait_and_copy = wait_with count_timeout add_unexpected ENTER_TIMEOUT_SECONDS"

definition submit_and_copy :: "'k os \<Rightarrow> raw_ring \<Rightarrow> u32 \<Rightarrow> u32 \<Rightarrow> 'k futex_machine
    \<Rightarrow> ((int \<times> cqe list) \<times> 'k futex_machine) option" where
  "submit_and_copy = submit_with count_timeout add_unexpected ENTER_TIMEOUT_SECONDS"

definition raw_ring_init :: "'k os \<Rightarrow> 'k futex_machine \<Rightarrow> int \<times> raw_ring \<times> 'k futex_machine" where
  "raw_ring_init os s =
     ring_bringup os RING_ENTRIES
       (zero_params\<lparr>p_flags := IORING_SETUP_CQSIZE, p_cq_entries := RING_ENTRIES * 2\<rparr>) s"

text \<open>A successful call hands over the entries of the probe.\<close>

definition probe_opcode :: "'k os \<Rightarrow> raw_ring \<Rightarrow> u8 \<Rightarrow> 'k futex_machine \<Rightarrow> int \<times> 'k futex_machine" where
  "probe_opcode os ring opcode s =
     (let (mem, s1) = ask (os_calloc os) s
      in if \<not> mem then (-1, s1)
         else (case ask (os_probe os (ring_fd ring) 256) s1 of
                 (None, s2) \<Rightarrow> (-1, s2)
               | (Some ops, s2) \<Rightarrow>
                   (if list_ex (\<lambda>p. probe_opcode_nr p = opcode \<and> probe_supported p) ops then 0 else -1, s2)))"

definition capability_gate :: "'k os \<Rightarrow> raw_ring \<Rightarrow> profile_id \<Rightarrow> 'k futex_machine
    \<Rightarrow> int \<times> 'k futex_machine" where
  "capability_gate os ring profile s =
     (if profile = PROFILE_N0_NOP \<or> profile = PROFILE_L0_LIFECYCLE
      then probe_opcode os ring IORING_OP_NOP s
      else
        (let (a, s1) = (if profile = PROFILE_V0_WAITV_WAKE
                        then probe_opcode os ring IORING_OP_FUTEX_WAITV s else (0, s))
         in if a \<noteq> 0 then (-1, s1)
            else
              (let (b, s2) = (if profile = PROFILE_C0_WAIT_CANCEL
                              then probe_opcode os ring IORING_OP_ASYNC_CANCEL s1 else (0, s1))
               in if b \<noteq> 0 then (-1, s2)
                  else
                    (let (c, s3) = (if profile \<noteq> PROFILE_V0_WAITV_WAKE
                                    then probe_opcode os ring IORING_OP_FUTEX_WAIT s2 else (0, s2))
                     in if c \<noteq> 0 then (-1, s3) else probe_opcode os ring IORING_OP_FUTEX_WAKE s3))))"

section \<open>The fixture\<close>

text \<open>Memory is a map from addresses to 32-bit words; a 64-bit field is two of them.\<close>

definition store32 :: "u64 \<Rightarrow> u32 \<Rightarrow> ('k, 'r) machine \<Rightarrow> ('k, 'r) machine" where
  "store32 addr v s = s\<lparr>sh := (sh s)\<lparr>sh_umem := (sh_umem (sh s))(addr := v)\<rparr>\<rparr>"

definition store64 :: "u64 \<Rightarrow> u64 \<Rightarrow> ('k, 'r) machine \<Rightarrow> ('k, 'r) machine" where
  "store64 addr v s = store32 (addr + 4) (ucast (drop_bit 32 v)) (store32 addr (ucast v) s)"

definition store_waitv :: "u64 \<Rightarrow> futex_waitv \<Rightarrow> ('k, 'r) machine \<Rightarrow> ('k, 'r) machine" where
  "store_waitv addr item s =
     store32 (addr + 20) (fw_reserved item) (store32 (addr + 16) (fw_flags item)
       (store64 (addr + 8) (fw_uaddr item) (store64 addr (fw_val item) s)))"

text \<open>\<open>&fixture->cells[i].value\<close> and \<open>&fixture->vectors[group][index]\<close>\<close>

definition cell_addr :: "fixture \<Rightarrow> nat \<Rightarrow> u64" where
  "cell_addr fx i = fix_cells fx + 64 * of_nat i"

definition vector_addr :: "fixture \<Rightarrow> nat \<Rightarrow> nat \<Rightarrow> u64" where
  "vector_addr fx grp index = fix_vectors fx + 24 * of_nat (grp * WAITV_WIDTH + index)"

definition set_cell :: "fixture \<Rightarrow> nat \<Rightarrow> u32 \<Rightarrow> ('k, 'r) machine \<Rightarrow> ('k, 'r) machine" where
  "set_cell fx i v = store32 (cell_addr fx i) v"

definition zero_cells :: "fixture \<Rightarrow> nat \<Rightarrow> ('k, 'r) machine \<Rightarrow> ('k, 'r) machine" where
  "zero_cells fx n = fold (\<lambda>i. set_cell fx i 0) [0..<n]"

definition vector_item :: "fixture \<Rightarrow> nat \<Rightarrow> nat \<Rightarrow> futex_waitv" where
  "vector_item fx grp index =
     \<lparr>fw_val = 0, fw_uaddr = cell_addr fx (grp * WAITV_WIDTH + index),
      fw_flags = word_of_int FUTEX_UAPI_FLAGS, fw_reserved = 0\<rparr>"

definition fill_vectors :: "fixture \<Rightarrow> ('k, 'r) machine \<Rightarrow> ('k, 'r) machine" where
  "fill_vectors fx =
     fold (\<lambda>grp. fold (\<lambda>index. store_waitv (vector_addr fx grp index) (vector_item fx grp index))
                     [0..<WAITV_WIDTH]) [0..<WAITV_GROUPS]"

text \<open>
  The fixture lies at an address of the caller's choosing: that of its cells and that of its
  vectors are arguments.
\<close>

definition fixture_init :: "'k os \<Rightarrow> u64 \<Rightarrow> u64 \<Rightarrow> 'k futex_machine \<Rightarrow> int \<times> fixture \<times> 'k futex_machine" where
  "fixture_init os cells vectors s =
     (let fx = \<lparr>fix_ring = zero_ring, fix_cells = cells, fix_vectors = vectors\<rparr>;
          s1 = zero_cells fx (WAITV_GROUPS * WAITV_WIDTH) s;
          (rc, ring, s2) = raw_ring_init os s1;
          fx1 = fx\<lparr>fix_ring := ring\<rparr>
      in if rc \<noteq> 0 then (-1, fx1, s2) else (0, fx1, fill_vectors fx1 s2))"

definition fixture_destroy :: "'k os \<Rightarrow> fixture \<Rightarrow> 'k futex_machine \<Rightarrow> fixture \<times> 'k futex_machine" where
  "fixture_destroy os fx s =
     (let (ring, s1) = raw_ring_destroy os (fix_ring fx) s in (fx\<lparr>fix_ring := ring\<rparr>, s1))"

section \<open>The cycles\<close>

text \<open>\<open>if (timed) result->timed_ns += now_ns() - start;\<close>\<close>

definition add_elapsed :: "'k os \<Rightarrow> bool \<Rightarrow> u64 \<Rightarrow> 'k futex_machine \<Rightarrow> (unit \<times> 'k futex_machine) option" where
  "add_elapsed os timed start s =
     do {
       (stop, s) \<leftarrow> now_if timed os s;
       Some ((), if timed then upd_res (\<lambda>r. r\<lparr>timed_ns := timed_ns r + (stop - start)\<rparr>) s else s)
     }"

definition queue_waits :: "'k os \<Rightarrow> fixture \<Rightarrow> u32 \<Rightarrow> 'k futex_machine \<Rightarrow> (int \<times> 'k futex_machine) option" where
  "queue_waits os fx cycle =
     for_each (\<lambda>i. queue_wait os (fix_ring fx) (cell_addr fx i) 0 (make_tag TAG_WAIT cycle (of_nat i)))
       [0..<SCALAR_SLOTS]"

definition queue_seconds :: "'k os \<Rightarrow> fixture \<Rightarrow> profile_id \<Rightarrow> u32 \<Rightarrow> 'k futex_machine
    \<Rightarrow> (int \<times> 'k futex_machine) option" where
  "queue_seconds os fx profile cycle =
     for_each (\<lambda>i. if profile = PROFILE_S0_WAIT_WAKE
         then queue_wake os (fix_ring fx) (cell_addr fx i) 1 (make_tag TAG_WAKE cycle (of_nat i))
         else queue_cancel os (fix_ring fx) (make_tag TAG_WAIT cycle (of_nat i))
                (make_tag TAG_CANCEL cycle (of_nat i)))
       [0..<SCALAR_SLOTS]"

definition count_pair :: "profile_id \<Rightarrow> result \<Rightarrow> result" where
  "count_pair profile r =
     (let r1 = r\<lparr>wait_submitted := wait_submitted r + of_nat SCALAR_SLOTS\<rparr>
      in if profile = PROFILE_S0_WAIT_WAKE
         then r1\<lparr>wake_submitted := wake_submitted r1 + of_nat SCALAR_SLOTS\<rparr>
         else r1\<lparr>cancel_submitted := cancel_submitted r1 + of_nat SCALAR_SLOTS\<rparr>)"

definition count_cycle :: "nat \<Rightarrow> result \<Rightarrow> result" where
  "count_cycle n r = r\<lparr>cycles := cycles r + 1, pairs := pairs r + of_nat n\<rparr>"

definition pair_wait_result :: "profile_id \<Rightarrow> s32" where
  "pair_wait_result profile = (if profile = PROFILE_S0_WAIT_WAKE then 0 else neg_errno ECANCELED)"

definition pair_second_kind :: "profile_id \<Rightarrow> tag_kind" where
  "pair_second_kind profile = (if profile = PROFILE_S0_WAIT_WAKE then TAG_WAKE else TAG_CANCEL)"

definition run_scalar_pair_cycle :: "'k os \<Rightarrow> fixture \<Rightarrow> profile_id \<Rightarrow> u32 \<Rightarrow> bool \<Rightarrow> 'k futex_machine
    \<Rightarrow> (int \<times> 'k futex_machine) option" where
  "run_scalar_pair_cycle os fx profile cycle timed s =
     (let s = zero_cells fx SCALAR_SLOTS s
      in do {
        (start, s) \<leftarrow> now_if timed os s;
        or_fail (queue_waits os fx cycle s) (\<lambda>s.
        or_fail (enter_ring os (fix_ring fx) (of_nat SCALAR_SLOTS) 0 s) (\<lambda>s.
        or_fail (queue_seconds os fx profile cycle s) (\<lambda>s.
        or_fail_copy (submit_and_copy os (fix_ring fx) (of_nat SCALAR_SLOTS) (of_nat SCALAR_SLOTS * 2) s) (\<lambda>cs s. do {
          (u, s) \<leftarrow> add_elapsed os timed start s;
          let (rc, s) = check_res (validate_pair_cqes cs SCALAR_SLOTS (pair_wait_result profile) 1
                                     (pair_second_kind profile)) (upd_res (count_pair profile) s)
          in Some (rc, upd_res (count_cycle SCALAR_SLOTS) s)
        }))))
      })"

text \<open>One wake-up request per group, on the cell at \<open>offset\<close> in the group.\<close>

definition queue_group_wakes :: "'k os \<Rightarrow> fixture \<Rightarrow> tag_kind \<Rightarrow> nat \<Rightarrow> u32 \<Rightarrow> 'k futex_machine
    \<Rightarrow> (int \<times> 'k futex_machine) option" where
  "queue_group_wakes os fx kind offset cycle =
     for_each (\<lambda>grp. queue_wake os (fix_ring fx) (cell_addr fx (grp * WAITV_WIDTH + offset)) 1
                         (make_tag kind cycle (of_nat grp)))
       [0..<WAITV_GROUPS]"

definition queue_vectors :: "'k os \<Rightarrow> fixture \<Rightarrow> u32 \<Rightarrow> 'k futex_machine
    \<Rightarrow> (int \<times> 'k futex_machine) option" where
  "queue_vectors os fx cycle =
     for_each (\<lambda>grp. queue_waitv os (fix_ring fx) (vector_addr fx grp 0) (of_nat WAITV_WIDTH)
                         (make_tag TAG_WAIT cycle (of_nat grp)))
       [0..<WAITV_GROUPS]"

text \<open>The second half of a cycle: no waiter is left on the first cell of any group.\<close>

definition check_residual :: "'k os \<Rightarrow> fixture \<Rightarrow> u32 \<Rightarrow> 'k futex_machine
    \<Rightarrow> (int \<times> 'k futex_machine) option" where
  "check_residual os fx cycle s =
     or_fail (queue_group_wakes os fx TAG_CHECK 0 cycle s) (\<lambda>s.
     or_fail_copy (submit_and_copy os (fix_ring fx) (of_nat WAITV_GROUPS) (of_nat WAITV_GROUPS) s) (\<lambda>cs s.
     or_fail (Some (check_res (validate_single_cqes cs WAITV_GROUPS TAG_CHECK 0) s)) (\<lambda>s.
     Some (0, upd_res (\<lambda>r. count_cycle WAITV_GROUPS
                (r\<lparr>wake_submitted := wake_submitted r + of_nat WAITV_GROUPS\<rparr>)) s))))"

definition count_vector_pair :: "result \<Rightarrow> result" where
  "count_vector_pair r =
     r\<lparr>wait_submitted := wait_submitted r + of_nat WAITV_GROUPS,
       wake_submitted := wake_submitted r + of_nat WAITV_GROUPS\<rparr>"

definition run_waitv_cycle :: "'k os \<Rightarrow> fixture \<Rightarrow> u32 \<Rightarrow> bool \<Rightarrow> 'k futex_machine
    \<Rightarrow> (int \<times> 'k futex_machine) option" where
  "run_waitv_cycle os fx cycle timed s =
     (let s = zero_cells fx (WAITV_GROUPS * WAITV_WIDTH) s
      in do {
        (start, s) \<leftarrow> now_if timed os s;
        or_fail (queue_vectors os fx cycle s) (\<lambda>s.
        or_fail (enter_ring os (fix_ring fx) (of_nat WAITV_GROUPS) 0 s) (\<lambda>s.
        or_fail (queue_group_wakes os fx TAG_WAKE WAITV_WAKE_INDEX cycle s) (\<lambda>s.
        or_fail_copy (submit_and_copy os (fix_ring fx) (of_nat WAITV_GROUPS) (of_nat WAITV_GROUPS * 2) s) (\<lambda>cs s. do {
          (u, s) \<leftarrow> add_elapsed os timed start s;
          or_fail (Some (check_res (validate_pair_cqes cs WAITV_GROUPS (of_nat WAITV_WAKE_INDEX) 1 TAG_WAKE)
                           (upd_res count_vector_pair s))) (\<lambda>s.
          check_residual os fx cycle s)
        }))))
      })"

definition single_kind :: "profile_id \<Rightarrow> tag_kind" where
  "single_kind profile =
     (if profile = PROFILE_Z0_ZERO_WAKE then TAG_WAKE
      else if profile = PROFILE_E0_MISMATCH then TAG_WAIT else TAG_NOP)"

definition single_expected :: "profile_id \<Rightarrow> s32" where
  "single_expected profile = (if profile = PROFILE_E0_MISMATCH then neg_errno EAGAIN else 0)"

text \<open>The body of the first loop.\<close>

definition queue_single :: "'k os \<Rightarrow> fixture \<Rightarrow> profile_id \<Rightarrow> u32 \<Rightarrow> nat \<Rightarrow> 'k futex_machine
    \<Rightarrow> (int \<times> 'k futex_machine) option" where
  "queue_single os fx profile cycle i s =
     (let tag = make_tag (single_kind profile) cycle (of_nat i)
      in if profile = PROFILE_Z0_ZERO_WAKE
         then queue_wake os (fix_ring fx) (cell_addr fx i) 1 tag (set_cell fx i 0 s)
         else if profile = PROFILE_E0_MISMATCH
         then queue_wait os (fix_ring fx) (cell_addr fx i) 0 tag (set_cell fx i 1 s)
         else queue_nop os (fix_ring fx) tag s)"

definition count_single :: "profile_id \<Rightarrow> result \<Rightarrow> result" where
  "count_single profile r =
     (if profile = PROFILE_Z0_ZERO_WAKE then r\<lparr>wake_submitted := wake_submitted r + of_nat SCALAR_SLOTS\<rparr>
      else if profile = PROFILE_E0_MISMATCH then r\<lparr>wait_submitted := wait_submitted r + of_nat SCALAR_SLOTS\<rparr>
      else r\<lparr>nop_submitted := nop_submitted r + of_nat SCALAR_SLOTS\<rparr>)"

definition run_single_cycle :: "'k os \<Rightarrow> fixture \<Rightarrow> profile_id \<Rightarrow> u32 \<Rightarrow> bool \<Rightarrow> 'k futex_machine
    \<Rightarrow> (int \<times> 'k futex_machine) option" where
  "run_single_cycle os fx profile cycle timed s =
     do {
       (start, s) \<leftarrow> now_if timed os s;
       or_fail (for_each (queue_single os fx profile cycle) [0..<SCALAR_SLOTS] s) (\<lambda>s.
       or_fail_copy (submit_and_copy os (fix_ring fx) (of_nat SCALAR_SLOTS) (of_nat SCALAR_SLOTS) s) (\<lambda>cs s. do {
         (u, s) \<leftarrow> add_elapsed os timed start s;
         or_fail (Some (check_res (validate_single_cqes cs SCALAR_SLOTS (single_kind profile)
                                     (single_expected profile)) (upd_res (count_single profile) s))) (\<lambda>s.
         Some (0, upd_res (count_cycle SCALAR_SLOTS) s))
       }))
     }"

section \<open>Rounds\<close>

text \<open>The probes are tried from left to right as far as needed.\<close>

definition probe_all :: "'k os \<Rightarrow> raw_ring \<Rightarrow> u8 list \<Rightarrow> 'k futex_machine
    \<Rightarrow> (int \<times> 'k futex_machine) option" where
  "probe_all os ring = for_each (\<lambda>opcode s. Some (probe_opcode os ring opcode s))"

text \<open>What the lifecycle run leaves in \<open>struct result\<close> when it succeeds.\<close>

definition lifecycle_result :: result where
  "lifecycle_result = zero_result\<lparr>cycles := 1, pairs := 1, semantic_pass := True\<rparr>"

text \<open>
  \<open>struct result inner\<close> is a second result: the state's one is set aside while it is used.
\<close>

definition run_lifecycle :: "'k os \<Rightarrow> u64 \<Rightarrow> u64 \<Rightarrow> 'k futex_machine
    \<Rightarrow> (int \<times> 'k futex_machine) option" where
  "run_lifecycle os cells vectors s =
     (let outer = res s;
          (rc, fx, s1) = fixture_init os cells vectors (upd_res (\<lambda>_. zero_result) s)
      in if rc \<noteq> 0 then Some (-1, upd_res (\<lambda>_. outer) s1)
         else do {
           (rc, s2) \<leftarrow> or_fail (probe_all os (fix_ring fx)
                            [IORING_OP_FUTEX_WAIT, IORING_OP_FUTEX_WAKE, IORING_OP_FUTEX_WAITV] s1)
                        (run_scalar_pair_cycle os fx PROFILE_S0_WAIT_WAKE 0 False);
           let s3 = snd (fixture_destroy os fx s2)
           in if rc \<noteq> 0 then Some (-1, upd_res (\<lambda>_. outer) s3)
              else Some (0, upd_res (\<lambda>_. lifecycle_result) (async os s3))
         })"

definition run_cycle :: "'k os \<Rightarrow> fixture \<Rightarrow> profile_id \<Rightarrow> u32 \<Rightarrow> bool \<Rightarrow> 'k futex_machine
    \<Rightarrow> (int \<times> 'k futex_machine) option" where
  "run_cycle os fx profile cycle timed s =
     (if profile = PROFILE_S0_WAIT_WAKE \<or> profile = PROFILE_C0_WAIT_CANCEL
      then run_scalar_pair_cycle os fx profile cycle timed s
      else if profile = PROFILE_V0_WAITV_WAKE then run_waitv_cycle os fx cycle timed s
      else run_single_cycle os fx profile cycle timed s)"

definition read_ring_counters :: "'k os \<Rightarrow> raw_ring \<Rightarrow> 'k futex_machine \<Rightarrow> 'k futex_machine" where
  "read_ring_counters =
     read_counters (\<lambda>x r. r\<lparr>sq_dropped_total := x\<rparr>) (\<lambda>x r. r\<lparr>cq_overflow_total := x\<rparr>)
       (\<lambda>x r. r\<lparr>outstanding := x\<rparr>)"

definition round_pass :: "result \<Rightarrow> bool" where
  "round_pass r \<longleftrightarrow>
     bad_results r = 0 \<and> bad_flags r = 0 \<and> duplicate_cqes r = 0 \<and> unexpected_cqes r = 0 \<and>
     timeouts r = 0 \<and> sq_dropped_total r = 0 \<and> cq_overflow_total r = 0 \<and> outstanding r = 0"

definition run_profile_round :: "'k os \<Rightarrow> fixture \<Rightarrow> profile_id \<Rightarrow> u32 \<Rightarrow> u32 \<Rightarrow> bool \<Rightarrow> 'k futex_machine
    \<Rightarrow> (int \<times> 'k futex_machine) option" where
  "run_profile_round os fx profile base_cycle n timed s =
     or_fail (for_each (\<lambda>c s.
                or_fail (run_cycle os fx profile (base_cycle + of_nat c) timed s) (\<lambda>s.
                let (stop, s) = read_stop os s in Some (if stop then -1 else 0, s)))
              [0..<unat n] (upd_res (\<lambda>_. zero_result) s)) (\<lambda>s.
     conclude_with (\<lambda>ok r. r\<lparr>semantic_pass := ok\<rparr>) round_pass (read_ring_counters os (fix_ring fx) s))"

section \<open>What a successful cycle has seen\<close>

definition pairs_complete :: "nat \<Rightarrow> s32 \<Rightarrow> s32 \<Rightarrow> tag_kind \<Rightarrow> cqe list \<Rightarrow> bool" where
  "pairs_complete slots wait_result second_result second_kind cs \<longleftrightarrow>
     mset (map (fills_pair slots wait_result second_result second_kind) cs) = mset (map Some (pair_slots slots))"

definition singles_complete :: "nat \<Rightarrow> tag_kind \<Rightarrow> s32 \<Rightarrow> cqe list \<Rightarrow> bool" where
  "singles_complete slots kind expected cs \<longleftrightarrow>
     mset (map (fills_single slots kind expected) cs) = mset (map Some [0..<slots])"

text \<open>The batches one cycle copies; the cycle number plays no part.\<close>

definition cycle_group :: "profile_id \<Rightarrow> cqe list list \<Rightarrow> bool" where
  "cycle_group profile g \<longleftrightarrow>
     (if profile = PROFILE_S0_WAIT_WAKE \<or> profile = PROFILE_C0_WAIT_CANCEL
      then \<exists>cs. g = [cs] \<and> pairs_complete SCALAR_SLOTS (pair_wait_result profile) 1 (pair_second_kind profile) cs
      else if profile = PROFILE_V0_WAITV_WAKE
      then \<exists>cs ds. g = [cs, ds] \<and> pairs_complete WAITV_GROUPS (of_nat WAITV_WAKE_INDEX) 1 TAG_WAKE cs \<and>
             singles_complete WAITV_GROUPS TAG_CHECK 0 ds
      else \<exists>cs. g = [cs] \<and> singles_complete SCALAR_SLOTS (single_kind profile) (single_expected profile) cs)"

text \<open>The counters after \<open>n\<close> cycles that all passed, and \<open>ns\<close> nanoseconds.\<close>

definition round_counters :: "profile_id \<Rightarrow> nat \<Rightarrow> u64 \<Rightarrow> result" where
  "round_counters profile n ns =
     (let k = of_nat n; z = zero_result\<lparr>cycles := k, pairs := k * 32, timed_ns := ns\<rparr>
      in case profile of
           PROFILE_S0_WAIT_WAKE \<Rightarrow>
             z\<lparr>wait_submitted := k * 32, wake_submitted := k * 32, wait_cqes := k * 32, wake_cqes := k * 32\<rparr>
         | PROFILE_C0_WAIT_CANCEL \<Rightarrow>
             z\<lparr>wait_submitted := k * 32, cancel_submitted := k * 32, wait_cqes := k * 32, cancel_cqes := k * 32\<rparr>
         | PROFILE_V0_WAITV_WAKE \<Rightarrow>
             z\<lparr>pairs := k * 8, wait_submitted := k * 8, wake_submitted := k * 16,
               wait_cqes := k * 8, wake_cqes := k * 8, check_cqes := k * 8\<rparr>
         | PROFILE_Z0_ZERO_WAKE \<Rightarrow> z\<lparr>wake_submitted := k * 32, wake_cqes := k * 32\<rparr>
         | PROFILE_E0_MISMATCH \<Rightarrow> z\<lparr>wait_submitted := k * 32, wait_cqes := k * 32\<rparr>
         | _ \<Rightarrow> z\<lparr>nop_submitted := k * 32, nop_cqes := k * 32\<rparr>)"

lemma known_kinds_of_profile [simp]:
  "known_kind (pair_second_kind p)" "known_kind (single_kind p)"
  by (simp_all add: pair_second_kind_def single_kind_def known_kind_def)

lemma futex_err_timed [simp]: "futex_err (r\<lparr>timed_ns := x\<rparr>) = futex_err r"
  by (simp add: futex_err_def)

lemma futex_err_counts [simp]:
  "futex_err (count_pair p r) = futex_err r" "futex_err (count_vector_pair r) = futex_err r"
  "futex_err (count_single p r) = futex_err r" "futex_err (count_cycle n r) = futex_err r"
  by (simp_all add: futex_err_def count_pair_def count_vector_pair_def count_single_def count_cycle_def Let_def)

lemma futex_err_times: "known_kind k \<Longrightarrow> futex_err ((count_cqe k ^^ n) r) = futex_err r"
  by (auto simp: known_kind_def count_cqe_times futex_err_def
      simp del: TAG_WAIT_def TAG_WAKE_def TAG_CANCEL_def TAG_CHECK_def TAG_NOP_def)

text \<open>Writing to the cells is an action of the program on memory only.\<close>

lemma store32_same [simp]: "same_process s (store32 a v s)"
  by (simp add: store32_def same_process_def)

lemma set_cell_same [simp]: "same_process s (set_cell fx i v s)"
  by (simp add: set_cell_def)

lemma fold_same: "(\<And>x s. same_process s (f x s)) \<Longrightarrow> same_process s (fold f xs s)"
  by (induction xs arbitrary: s) (auto intro: same_process_trans)

lemma zero_cells_same [simp]: "same_process s (zero_cells fx n s)"
  unfolding zero_cells_def by (rule fold_same) simp

lemma futex_enter_ring_outcome: "wp (enter_ring os ring n m s) (outcome (same_process s) s)"
  by (simp add: enter_ring_def outcome_enter)

lemma futex_submit_and_copy_copied: "wp (submit_and_copy os ring n m s) (copied m s)"
  by (simp add: submit_and_copy_def submit_with_wp)

lemma queue_loops_outcome:
  "wp (queue_waits os fx cy s) (outcome (same_process s) s)"
  "wp (queue_seconds os fx p cy s) (outcome (same_process s) s)"
  "wp (queue_group_wakes os fx k off cy s) (outcome (same_process s) s)"
  "wp (queue_vectors os fx cy s) (outcome (same_process s) s)"
  unfolding queue_waits_def queue_seconds_def queue_group_wakes_def queue_vectors_def
  by (rule outcome_for_each_same;
      simp add: queue_wait_def queue_wake_def queue_cancel_def queue_waitv_def queue_with_wp)+

lemma queue_single_outcome:
  "wp (for_each (queue_single os fx p cy) is s) (outcome (same_process s) s)"
proof (rule outcome_for_each_same)
  fix i and s :: "'a futex_machine"
  have "wp (queue_with os (fix_ring fx) f (set_cell fx i v s)) (\<lambda>rc t. same_process s t)" for f v
    by (rule wp_mono [OF queue_with_wp]) (rule same_process_trans [OF set_cell_same])
  then show "wp (queue_single os fx p cy i s) (\<lambda>rc t. same_process s t)"
    by (simp add: queue_single_def queue_wait_def queue_wake_def queue_nop_def queue_with_wp Let_def)
qed

text \<open>What \<open>add_elapsed\<close> does: time passes, and is accounted for.\<close>

definition ticked :: "'k futex_machine \<Rightarrow> 'k futex_machine \<Rightarrow> bool" where
  "ticked s t \<longleftrightarrow> same_resources s t \<and> reaps [] s t \<and> (\<exists>ns. res t = (res s)\<lparr>timed_ns := ns\<rparr>)"

lemma add_elapsed_ticked: "wp (add_elapsed os timed start s) (\<lambda>u t. ticked s t)"
  unfolding add_elapsed_def
proof (rule wp_bindI [OF now_if_same])
  fix stop t assume t: "same_process s t"
  have "res s = (res s)\<lparr>timed_ns := timed_ns (res s)\<rparr>" by simp
  then have "\<exists>ns. res s = (res s)\<lparr>timed_ns := ns\<rparr>" ..
  with t show "wp (Some ((), if timed then upd_res (\<lambda>r. r\<lparr>timed_ns := timed_ns r + (stop - start)\<rparr>) t else t))
      (\<lambda>u t. ticked s t)"
    by (auto simp: ticked_def same_process_def same_resources_def reaps_def)
qed

lemma outcome_ticked:
  assumes "\<And>t ns. res t = (res s)\<lparr>timed_ns := ns\<rparr> \<Longrightarrow> reaps [] s t \<Longrightarrow> wp (k t) (outcome Q t)"
  shows "wp (Option.bind (add_elapsed os timed start s) (\<lambda>(u, t). k t)) (outcome Q s)"
proof (rule wp_bindI [OF add_elapsed_ticked])
  fix u t assume t: "ticked s t"
  then obtain ns where "res t = (res s)\<lparr>timed_ns := ns\<rparr>" "reaps [] s t" "same_resources s t"
    by (auto simp: ticked_def)
  with assms show "wp (k t) (outcome Q s)" by (blast intro: outcome_rebase)
qed

lemma check_pair_outcome:
  assumes "futex_err (res s) = 0" and "slots \<le> SCALAR_SLOTS" and "length cs < 2 ^ 32" and "known_kind k"
  shows "wp (Some (check_res (validate_pair_cqes cs slots w e k) s))
    (outcome (\<lambda>t. pairs_complete slots w e k cs \<and> reaps [] s t \<and>
       res t = (count_cqe k ^^ slots) ((count_cqe TAG_WAIT ^^ slots) (res s))) s)"
  using validate_pair_iff [OF assms, of w e] validate_pair_counters [OF assms, of w e]
  by (auto simp: check_res_def outcome_def pairs_complete_def split_beta Let_def)

lemma check_single_outcome:
  assumes "futex_err (res s) = 0" and "slots \<le> SCALAR_SLOTS" and "length cs < 2 ^ 32" and "known_kind k"
  shows "wp (Some (check_res (validate_single_cqes cs slots k e) s))
    (outcome (\<lambda>t. singles_complete slots k e cs \<and> reaps [] s t \<and> res t = (count_cqe k ^^ slots) (res s)) s)"
  using validate_single_iff [OF assms, of e] validate_single_counters [OF assms, of e]
  by (auto simp: check_res_def outcome_def singles_complete_def split_beta Let_def)

text \<open>The cycles, in terms of the counters alone.\<close>

definition cycle_counters :: "profile_id \<Rightarrow> result \<Rightarrow> result" where
  "cycle_counters profile r =
     (if profile = PROFILE_S0_WAIT_WAKE \<or> profile = PROFILE_C0_WAIT_CANCEL
      then count_cycle SCALAR_SLOTS ((count_cqe (pair_second_kind profile) ^^ SCALAR_SLOTS)
             ((count_cqe TAG_WAIT ^^ SCALAR_SLOTS) (count_pair profile r)))
      else if profile = PROFILE_V0_WAITV_WAKE
      then (let r1 = (count_cqe TAG_CHECK ^^ WAITV_GROUPS) ((count_cqe TAG_WAKE ^^ WAITV_GROUPS)
                      ((count_cqe TAG_WAIT ^^ WAITV_GROUPS) (count_vector_pair r)))
            in count_cycle WAITV_GROUPS (r1\<lparr>wake_submitted := wake_submitted r1 + of_nat WAITV_GROUPS\<rparr>))
      else count_cycle SCALAR_SLOTS ((count_cqe (single_kind profile) ^^ SCALAR_SLOTS) (count_single profile r)))"

definition cycle_done :: "profile_id \<Rightarrow> 'k futex_machine \<Rightarrow> 'k futex_machine \<Rightarrow> bool" where
  "cycle_done profile s t \<longleftrightarrow>
     (\<exists>g ns. reaps g s t \<and> cycle_group profile g \<and> res t = cycle_counters profile ((res s)\<lparr>timed_ns := ns\<rparr>))"

lemma outcome_then_upd:
  assumes "wp (Some x) (outcome P s)"
  shows "wp (let (rc, t) = x in Some (rc, upd_res f t)) (outcome (\<lambda>u. \<exists>t. P t \<and> u = upd_res f t) s)"
  using assms by (cases x) (auto simp: outcome_def same_resources_def)

lemma upd_res_rebase:
  "wp m (outcome P (upd_res f s)) \<Longrightarrow> wp m (outcome P s)"
  by (rule outcome_rebase [OF same_resources_ops(1)])

lemma scalar_cycle_outcome:
  assumes p: "p = PROFILE_S0_WAIT_WAKE \<or> p = PROFILE_C0_WAIT_CANCEL" and e: "futex_err (res s) = 0"
  shows "wp (run_scalar_pair_cycle os fx p cy timed s) (outcome (cycle_done p s) s)"
proof -
  have "wp (run_scalar_pair_cycle os fx p cy timed s) (outcome (cycle_done p s) (zero_cells fx SCALAR_SLOTS s))"
    unfolding run_scalar_pair_cycle_def Let_def
  proof (rule outcome_bind [OF now_if_same], rule outcome_or_fail [OF queue_loops_outcome(1)],
      rule outcome_or_fail [OF futex_enter_ring_outcome], rule outcome_or_fail [OF queue_loops_outcome(2)],
      rule outcome_or_fail_copy [OF futex_submit_and_copy_copied], rule outcome_ticked)
    fix start s1 s2 s3 s4 cs s5 s6 ns
    assume "same_process (zero_cells fx SCALAR_SLOTS s) s1" "same_process s1 s2" "same_process s2 s3"
      "same_process s3 s4"
    then have "same_process (zero_cells fx SCALAR_SLOTS s) s4" by (blast intro: same_process_trans)
    then have s4: "same_process s s4" by (rule same_process_trans [OF zero_cells_same])
    assume s5: "res s5 = res s4" "reaps [cs] s4 s5" and s6: "res s6 = (res s5)\<lparr>timed_ns := ns\<rparr>" "reaps [] s5 s6"
      and len: "length cs = unat (of_nat SCALAR_SLOTS * 2 :: u32)"
    let ?s7 = "upd_res (count_pair p) s6" and ?k = "pair_second_kind p"
    have r6: "res s6 = (res s)\<lparr>timed_ns := ns\<rparr>" using s4 s5 s6 by (simp add: same_process_D)
    have e7: "futex_err (res ?s7) = 0" using e r6 by simp
    have reap: "reaps [cs] s ?s7" using s4 s5 s6 by (simp add: reaps_def same_process_D)
    have "wp (Some (check_res (validate_pair_cqes cs SCALAR_SLOTS (pair_wait_result p) 1 ?k) ?s7))
      (outcome (\<lambda>t. pairs_complete SCALAR_SLOTS (pair_wait_result p) 1 ?k cs \<and> reaps [] ?s7 t \<and>
         res t = (count_cqe ?k ^^ SCALAR_SLOTS) ((count_cqe TAG_WAIT ^^ SCALAR_SLOTS) (res ?s7))) ?s7)"
      by (rule check_pair_outcome [OF e7]) (use len in simp_all)
    from outcome_then_upd [OF this, of "count_cycle SCALAR_SLOTS"]
    have "wp (let (rc, s) = check_res (validate_pair_cqes cs SCALAR_SLOTS (pair_wait_result p) 1 ?k) ?s7
        in Some (rc, upd_res (count_cycle SCALAR_SLOTS) s)) (outcome (cycle_done p s) ?s7)"
    proof (rule outcome_mono)
      fix u
      assume "\<exists>t. (pairs_complete SCALAR_SLOTS (pair_wait_result p) 1 ?k cs \<and> reaps [] ?s7 t \<and>
         res t = (count_cqe ?k ^^ SCALAR_SLOTS) ((count_cqe TAG_WAIT ^^ SCALAR_SLOTS) (res ?s7))) \<and>
         u = upd_res (count_cycle SCALAR_SLOTS) t"
      then have "pairs_complete SCALAR_SLOTS (pair_wait_result p) 1 ?k cs" "reaps [cs] s u"
          "res u = cycle_counters p ((res s)\<lparr>timed_ns := ns\<rparr>)"
        using p r6 reap by (auto simp: reaps_def cycle_counters_def simp del: TAG_WAIT_def SCALAR_SLOTS_def)
      moreover from this(1) have "cycle_group p [cs]" using p by (simp add: cycle_group_def)
      ultimately show "cycle_done p s u" unfolding cycle_done_def by blast
    qed
    then show "wp (case check_res (validate_pair_cqes cs SCALAR_SLOTS (pair_wait_result p) 1 ?k) ?s7 of
        (rc, s) \<Rightarrow> Some (rc, upd_res (count_cycle SCALAR_SLOTS) s)) (outcome (cycle_done p s) s6)"
      unfolding Let_def by (rule upd_res_rebase)
  qed
  then show ?thesis by (rule outcome_rebase [OF same_process_resources [OF zero_cells_same]])
qed

lemma single_cycle_outcome:
  assumes p: "p \<notin> {PROFILE_S0_WAIT_WAKE, PROFILE_C0_WAIT_CANCEL, PROFILE_V0_WAITV_WAKE}"
    and e: "futex_err (res s) = 0"
  shows "wp (run_single_cycle os fx p cy timed s) (outcome (cycle_done p s) s)"
  unfolding run_single_cycle_def
proof (rule outcome_bind [OF now_if_same], rule outcome_or_fail [OF queue_single_outcome],
    rule outcome_or_fail_copy [OF futex_submit_and_copy_copied], rule outcome_ticked)
  fix start s1 s2 cs s3 s4 ns
  assume "same_process s s1" "same_process s1 s2"
  then have s2: "same_process s s2" by (rule same_process_trans)
  assume s3: "res s3 = res s2" "reaps [cs] s2 s3" and s4: "res s4 = (res s3)\<lparr>timed_ns := ns\<rparr>" "reaps [] s3 s4"
    and len: "length cs = unat (of_nat SCALAR_SLOTS :: u32)"
  let ?s5 = "upd_res (count_single p) s4" and ?k = "single_kind p"
  have r4: "res s4 = (res s)\<lparr>timed_ns := ns\<rparr>" using s2 s3 s4 by (simp add: same_process_D)
  have e5: "futex_err (res ?s5) = 0" using e r4 by simp
  have reap: "reaps [cs] s ?s5" using s2 s3 s4 by (simp add: reaps_def same_process_D)
  have "wp (Some (check_res (validate_single_cqes cs SCALAR_SLOTS ?k (single_expected p)) ?s5))
    (outcome (\<lambda>t. singles_complete SCALAR_SLOTS ?k (single_expected p) cs \<and> reaps [] ?s5 t \<and>
       res t = (count_cqe ?k ^^ SCALAR_SLOTS) (res ?s5)) ?s5)"
    by (rule check_single_outcome [OF e5]) (use len in simp_all)
  then have "wp (or_fail (Some (check_res (validate_single_cqes cs SCALAR_SLOTS ?k (single_expected p)) ?s5))
      (\<lambda>s. Some (0, upd_res (count_cycle SCALAR_SLOTS) s))) (outcome (cycle_done p s) ?s5)"
  proof (rule outcome_or_fail)
    fix t
    assume t: "singles_complete SCALAR_SLOTS ?k (single_expected p) cs \<and> reaps [] ?s5 t \<and>
       res t = (count_cqe ?k ^^ SCALAR_SLOTS) (res ?s5)"
    let ?u = "upd_res (count_cycle SCALAR_SLOTS) t"
    have "reaps [cs] s ?u" "res ?u = cycle_counters p ((res s)\<lparr>timed_ns := ns\<rparr>)"
      using p r4 t reap by (auto simp: reaps_def cycle_counters_def simp del: TAG_WAIT_def SCALAR_SLOTS_def)
    moreover have "cycle_group p [cs]" using p t by (simp add: cycle_group_def)
    ultimately have "cycle_done p s ?u" unfolding cycle_done_def by blast
    then show "wp (Some (0, ?u)) (outcome (cycle_done p s) t)" by simp
  qed
  then show "wp (or_fail (Some (check_res (validate_single_cqes cs SCALAR_SLOTS ?k (single_expected p)) ?s5))
      (\<lambda>s. Some (0, upd_res (count_cycle SCALAR_SLOTS) s))) (outcome (cycle_done p s) s4)"
    by (rule upd_res_rebase)
qed

lemma check_residual_outcome:
  assumes e: "futex_err (res s) = 0"
  shows "wp (check_residual os fx cy s) (outcome (\<lambda>u. \<exists>ds. reaps [ds] s u \<and>
      singles_complete WAITV_GROUPS TAG_CHECK 0 ds \<and>
      res u = (let r = (count_cqe TAG_CHECK ^^ WAITV_GROUPS) (res s)
               in count_cycle WAITV_GROUPS (r\<lparr>wake_submitted := wake_submitted r + of_nat WAITV_GROUPS\<rparr>))) s)"
  unfolding check_residual_def
proof (rule outcome_or_fail [OF queue_loops_outcome(3)], rule outcome_or_fail_copy [OF futex_submit_and_copy_copied])
  fix s1 ds s2
  assume s1: "same_process s s1" and s2: "res s2 = res s1" "reaps [ds] s1 s2"
    and len: "length ds = unat (of_nat WAITV_GROUPS :: u32)"
  have r2: "res s2 = res s" "reaps [ds] s s2" using s1 s2 by (simp_all add: same_process_D reaps_def)
  have "wp (Some (check_res (validate_single_cqes ds WAITV_GROUPS TAG_CHECK 0) s2))
    (outcome (\<lambda>t. singles_complete WAITV_GROUPS TAG_CHECK 0 ds \<and> reaps [] s2 t \<and>
       res t = (count_cqe TAG_CHECK ^^ WAITV_GROUPS) (res s2)) s2)"
    by (rule check_single_outcome) (use e r2 len known_kinds in \<open>simp_all del: TAG_CHECK_def\<close>)
  then show "wp (or_fail (Some (check_res (validate_single_cqes ds WAITV_GROUPS TAG_CHECK 0) s2)) (\<lambda>s.
     Some (0, upd_res (\<lambda>r. count_cycle WAITV_GROUPS
                (r\<lparr>wake_submitted := wake_submitted r + of_nat WAITV_GROUPS\<rparr>)) s)))
    (outcome (\<lambda>u. \<exists>ds. reaps [ds] s u \<and> singles_complete WAITV_GROUPS TAG_CHECK 0 ds \<and>
      res u = (let r = (count_cqe TAG_CHECK ^^ WAITV_GROUPS) (res s)
               in count_cycle WAITV_GROUPS (r\<lparr>wake_submitted := wake_submitted r + of_nat WAITV_GROUPS\<rparr>))) s2)"
    by (rule outcome_or_fail)
       (use r2 in \<open>auto simp: reaps_def Let_def simp del: TAG_CHECK_def WAITV_GROUPS_def\<close>)
qed

lemma waitv_cycle_outcome:
  assumes e: "futex_err (res s) = 0"
  shows "wp (run_waitv_cycle os fx cy timed s) (outcome (cycle_done PROFILE_V0_WAITV_WAKE s) s)"
    (is "wp _ (outcome ?D s)")
proof -
  let ?z = "zero_cells fx (WAITV_GROUPS * WAITV_WIDTH) s"
  have "wp (run_waitv_cycle os fx cy timed s) (outcome ?D ?z)"
    unfolding run_waitv_cycle_def Let_def
  proof (rule outcome_bind [OF now_if_same], rule outcome_or_fail [OF queue_loops_outcome(4)],
      rule outcome_or_fail [OF futex_enter_ring_outcome], rule outcome_or_fail [OF queue_loops_outcome(3)],
      rule outcome_or_fail_copy [OF futex_submit_and_copy_copied], rule outcome_ticked)
    fix start s1 s2 s3 s4 cs s5 s6 ns
    assume "same_process ?z s1" "same_process s1 s2" "same_process s2 s3" "same_process s3 s4"
    then have "same_process ?z s4" by (blast intro: same_process_trans)
    then have s4: "same_process s s4" by (rule same_process_trans [OF zero_cells_same])
    assume s5: "res s5 = res s4" "reaps [cs] s4 s5" and s6: "res s6 = (res s5)\<lparr>timed_ns := ns\<rparr>" "reaps [] s5 s6"
      and len: "length cs = unat (of_nat WAITV_GROUPS * 2 :: u32)"
    let ?s7 = "upd_res count_vector_pair s6" and ?w = "of_nat WAITV_WAKE_INDEX"
    have r6: "res s6 = (res s)\<lparr>timed_ns := ns\<rparr>" using s4 s5 s6 by (simp add: same_process_D)
    have e7: "futex_err (res ?s7) = 0" using e r6 by simp
    have reap: "reaps [cs] s ?s7" using s4 s5 s6 by (simp add: reaps_def same_process_D)
    have "wp (Some (check_res (validate_pair_cqes cs WAITV_GROUPS ?w 1 TAG_WAKE) ?s7))
      (outcome (\<lambda>t. pairs_complete WAITV_GROUPS ?w 1 TAG_WAKE cs \<and> reaps [] ?s7 t \<and>
         res t = (count_cqe TAG_WAKE ^^ WAITV_GROUPS) ((count_cqe TAG_WAIT ^^ WAITV_GROUPS) (res ?s7))) ?s7)"
      by (rule check_pair_outcome [OF e7]) (use len known_kinds in \<open>simp_all del: TAG_WAKE_def\<close>)
    then have "wp (or_fail (Some (check_res (validate_pair_cqes cs WAITV_GROUPS ?w 1 TAG_WAKE) ?s7))
        (check_residual os fx cy)) (outcome ?D ?s7)"
    proof (rule outcome_or_fail)
      fix t
      assume t: "pairs_complete WAITV_GROUPS ?w 1 TAG_WAKE cs \<and> reaps [] ?s7 t \<and>
         res t = (count_cqe TAG_WAKE ^^ WAITV_GROUPS) ((count_cqe TAG_WAIT ^^ WAITV_GROUPS) (res ?s7))"
      have et: "futex_err (res t) = 0"
        using t e7 futex_err_times [OF known_kinds(1)] futex_err_times [OF known_kinds(2)]
        by (simp del: TAG_WAIT_def TAG_WAKE_def)
      show "wp (check_residual os fx cy t) (outcome ?D t)"
      proof (rule outcome_mono [OF check_residual_outcome [OF et]])
        fix u
        assume "\<exists>ds. reaps [ds] t u \<and> singles_complete WAITV_GROUPS TAG_CHECK 0 ds \<and>
          res u = (let r = (count_cqe TAG_CHECK ^^ WAITV_GROUPS) (res t)
               in count_cycle WAITV_GROUPS (r\<lparr>wake_submitted := wake_submitted r + of_nat WAITV_GROUPS\<rparr>))"
        then obtain ds where ds: "reaps [ds] t u" "singles_complete WAITV_GROUPS TAG_CHECK 0 ds"
          "res u = (let r = (count_cqe TAG_CHECK ^^ WAITV_GROUPS) (res t)
               in count_cycle WAITV_GROUPS (r\<lparr>wake_submitted := wake_submitted r + of_nat WAITV_GROUPS\<rparr>))"
          by blast
        have "reaps [cs, ds] s u" using ds(1) t reap by (simp add: reaps_def)
        moreover have "cycle_group PROFILE_V0_WAITV_WAKE [cs, ds]"
          using t ds(2) by (simp add: cycle_group_def del: TAG_WAKE_def TAG_CHECK_def WAITV_GROUPS_def WAITV_WAKE_INDEX_def)
        moreover have "res u = cycle_counters PROFILE_V0_WAITV_WAKE ((res s)\<lparr>timed_ns := ns\<rparr>)"
          using t ds(3) r6
          by (simp add: cycle_counters_def del: TAG_WAIT_def TAG_WAKE_def TAG_CHECK_def WAITV_GROUPS_def)
        ultimately show "?D u" unfolding cycle_done_def by blast
      qed
    qed
    then show "wp (or_fail (Some (check_res (validate_pair_cqes cs WAITV_GROUPS ?w 1 TAG_WAKE) ?s7))
        (check_residual os fx cy)) (outcome ?D s6)"
      by (rule upd_res_rebase)
  qed
  then show ?thesis by (rule outcome_rebase [OF same_process_resources [OF zero_cells_same]])
qed

lemma run_cycle_outcome:
  "futex_err (res s) = 0 \<Longrightarrow> wp (run_cycle os fx p cy timed s) (outcome (cycle_done p s) s)"
  using scalar_cycle_outcome [of p s os fx cy timed] waitv_cycle_outcome [of s os fx cy timed]
    single_cycle_outcome [of p s os fx cy timed]
  by (auto simp: run_cycle_def)

section \<open>What a successful round has seen\<close>

lemma futex_err_round_counters [simp]: "futex_err (round_counters p n ns) = 0"
  by (cases p) (simp_all add: round_counters_def futex_err_def zero_result_def Let_def)

lemmas kinds_del = TAG_WAIT_def TAG_WAKE_def TAG_CANCEL_def TAG_CHECK_def TAG_NOP_def

text \<open>One more cycle.\<close>

lemma cycle_counters_step:
  "cycle_counters p ((round_counters p n ns)\<lparr>timed_ns := ns'\<rparr>) = round_counters p (Suc n) ns'"
  by (cases p)
     (simp_all add: cycle_counters_def round_counters_def pair_second_kind_def single_kind_def
        count_cqe_times count_pair_def count_vector_pair_def count_single_def count_cycle_def
        zero_result_def Let_def distrib_right add_ac del: kinds_del)

definition futex_round :: "profile_id \<Rightarrow> nat \<Rightarrow> cqe list list \<Rightarrow> bool" where
  "futex_round profile n = grouped (\<lambda>i. cycle_group profile) n"

lemma futex_run_profile_round_outcome:
  "wp (run_profile_round os fx p base n timed s)
     (outcome (\<lambda>t. (\<exists>bs. reaps bs s t \<and> futex_round p (unat n) bs) \<and>
        (\<exists>ns. res t = (round_counters p (unat n) ns)\<lparr>semantic_pass := True\<rparr>)) s)"
proof -
  let ?s = "upd_res (\<lambda>_. zero_result) s"
  let ?P = "\<lambda>i t. logged (\<lambda>i. cycle_group p) i s t \<and> (\<exists>ns. res t = round_counters p i ns)"
  let ?body = "\<lambda>c s. or_fail (run_cycle os fx p (base + of_nat c) timed s)
      (\<lambda>s. let (stop, s) = read_stop os s in Some (if stop then -1 else 0, s))"
  let ?Q = "\<lambda>t. (\<exists>bs. reaps bs s t \<and> futex_round p (unat n) bs) \<and>
      (\<exists>ns. res t = (round_counters p (unat n) ns)\<lparr>semantic_pass := True\<rparr>)"
  have loop: "wp (for_each ?body [0..<unat n] ?s) (outcome (?P (unat n)) ?s)"
  proof (rule outcome_for_each)
    fix i t assume P: "?P i t"
    then obtain ns where ns: "res t = round_counters p i ns" by blast
    then have "futex_err (res t) = 0" by simp
    from run_cycle_outcome [OF this] show "wp (?body i t) (outcome (?P (Suc i)) t)"
    proof (rule outcome_or_fail)
      fix u assume u: "cycle_done p t u"
      obtain stop v where v: "read_stop os u = (stop, v)" by (cases "read_stop os u")
      have uv: "same_process u v" using same_process_ops(4) [of u os] v by simp
      from u obtain g ns' where g: "reaps g t u" "cycle_group p g"
          "res u = cycle_counters p ((round_counters p i ns)\<lparr>timed_ns := ns'\<rparr>)"
        unfolding cycle_done_def ns by blast
      have "res v = round_counters p (Suc i) ns'"
        using g(3) uv by (simp add: cycle_counters_step same_process_D)
      moreover have "logged (\<lambda>i. cycle_group p) (Suc i) s v"
        using logged_step [of _ i s t g u] P g(1,2) logged_quiet reaps_same [OF uv] by blast
      ultimately show "wp (let (stop, s) = read_stop os u in Some (if stop then -1 else 0, s)) (outcome (?P (Suc i)) u)"
        using same_process_resources [OF uv] by (auto simp: v)
    qed
  next
    show "?P 0 ?s"
      by (auto simp: round_counters_def zero_result_def Let_def split: profile_id.split)
  qed simp
  have "wp (run_profile_round os fx p base n timed s) (outcome ?Q ?s)"
    unfolding run_profile_round_def
  proof (rule outcome_or_fail [OF loop])
    fix t assume t: "?P (unat n) t"
    let ?c = "read_ring_counters os (fix_ring fx) t"
    have rc: "reaps [] t ?c" "same_resources t ?c"
      unfolding read_ring_counters_def by (rule read_counters_frame)+
    obtain ns where ns: "res t = round_counters p (unat n) ns" using t by blast
    have keep: "(res ?c)\<lparr>sq_dropped_total := 0, cq_overflow_total := 0, outstanding := 0\<rparr> =
        (res t)\<lparr>sq_dropped_total := 0, cq_overflow_total := 0, outstanding := 0\<rparr>"
      unfolding read_ring_counters_def
      by (rule read_counters_keeps [of "\<lambda>r. r\<lparr>sq_dropped_total := 0, cq_overflow_total := 0, outstanding := 0\<rparr>"])
         simp_all
    have same: "res ?c = round_counters p (unat n) ns" if "round_pass (res ?c)"
      using keep that
      by (cases "res ?c") (auto simp: ns round_pass_def round_counters_def zero_result_def Let_def split: profile_id.splits)
    have "wp (conclude_with (\<lambda>ok r. r\<lparr>semantic_pass := ok\<rparr>) round_pass ?c) (outcome ?Q ?c)"
    proof (rule outcome_mono [OF conclude_with_outcome])
      fix v assume v: "round_pass (res ?c) \<and> reaps [] ?c v \<and> res v = (res ?c)\<lparr>semantic_pass := True\<rparr>"
      then have "logged (\<lambda>i. cycle_group p) (unat n) s v"
        using t rc(1) logged_quiet by blast
      with v same show "?Q v" by (auto simp: logged_def futex_round_def)
    qed
    then show "wp (conclude_with (\<lambda>ok r. r\<lparr>semantic_pass := ok\<rparr>) round_pass ?c) (outcome ?Q t)"
      by (rule outcome_rebase [OF rc(2)])
  qed
  then show ?thesis by (rule upd_res_rebase)
qed

end
