(* ===== verification/Futex_Process.thy ===== *)
theory Futex_Process
  imports Futex_Rounds
begin

text \<open>
  io_uring_futex_round.c: facts about its parts that span a whole run. The memory of the wait
  vectors, the capability gate, the mappings and descriptors held by a fixture, the lifecycle
  run, tags across rounds, and that every part comes back.
\<close>

section \<open>The wait vectors in memory\<close>

definition load64 :: "(u64 \<Rightarrow> u32) \<Rightarrow> u64 \<Rightarrow> u64" where
  "load64 m addr = push_bit 32 (ucast (m (addr + 4))) OR ucast (m addr)"

definition load_waitv :: "(u64 \<Rightarrow> u32) \<Rightarrow> u64 \<Rightarrow> futex_waitv" where
  "load_waitv m addr =
     \<lparr>fw_val = load64 m addr, fw_uaddr = load64 m (addr + 8), fw_flags = m (addr + 16),
      fw_reserved = m (addr + 20)\<rparr>"

definition umem :: "('k, 'r) machine \<Rightarrow> u64 \<Rightarrow> u32" where
  "umem s = sh_umem (sh s)"

lemma umem_store32: "umem (store32 a v s) = (umem s)(a := v)"
  by (simp add: umem_def store32_def)

lemma split_word64: "push_bit 32 (ucast (ucast (drop_bit 32 v) :: u32)) OR ucast (ucast v :: u32) = (v :: u64)"
  by (rule bit_word_eqI) (auto simp: bit_simps)

text \<open>The words an item occupies.\<close>

definition footprint :: "u64 \<Rightarrow> u64 set" where
  "footprint addr = {addr, addr + 4, addr + 8, addr + 12, addr + 16, addr + 20}"

lemma load_store_waitv: "load_waitv (umem (store_waitv addr item s)) addr = item"
  by (simp add: load_waitv_def load64_def store_waitv_def store64_def umem_store32 split_word64)

lemma store_waitv_outside: "a \<notin> footprint addr \<Longrightarrow> umem (store_waitv addr item s) a = umem s a"
  by (simp add: store_waitv_def store64_def umem_store32 footprint_def add.assoc)

lemma load_waitv_cong:
  assumes "\<And>a. a \<in> footprint addr \<Longrightarrow> m a = m' a"
  shows "load_waitv m addr = load_waitv m' addr"
  using assms by (simp add: load_waitv_def load64_def footprint_def add.assoc)

lemma load_store_waitv_other:
  assumes "footprint addr \<inter> footprint addr' = {}"
  shows "load_waitv (umem (store_waitv addr' item s)) addr = load_waitv (umem s) addr"
  by (rule load_waitv_cong) (use assms store_waitv_outside in blast)

lemma fold_product: "fold (\<lambda>x. fold (f x) ys) xs = fold (\<lambda>(x, y). f x y) (List.product xs ys)"
  by (induction xs) (simp_all add: fold_map comp_def)

lemma fold_establishes:
  assumes "\<And>x s. P x (f x s)" and "\<And>x y s. x \<in> set xs \<Longrightarrow> y \<in> set xs \<Longrightarrow> x \<noteq> y \<Longrightarrow> P x s \<Longrightarrow> P x (f y s)"
    and "x \<in> set xs"
  shows "P x (fold f xs s)"
proof -
  have "P x (fold f ys s)" if "set ys \<subseteq> set xs" "x \<in> set ys \<or> P x s" for ys s
    using that
  proof (induction ys arbitrary: s)
    case Nil
    then show ?case by simp
  next
    case (Cons y ys)
    then show ?case using assms by (cases "x = y") auto
  qed
  with assms(3) show ?thesis by simp
qed

lemma vector_words:
  assumes "i < 6" "i' < 6" "j < 64" "j' < 64"
    and "v + 24 * of_nat j + 4 * of_nat i = v + 24 * of_nat j' + 4 * (of_nat i' :: u64)"
  shows "j = j'"
proof -
  have "of_nat (24 * j + 4 * i) = (of_nat (24 * j' + 4 * i') :: u64)"
    using assms(5) by (simp add: add.assoc)
  then have "unat (of_nat (24 * j + 4 * i) :: u64) = unat (of_nat (24 * j' + 4 * i') :: u64)"
    by (rule arg_cong)
  moreover have "unat (of_nat (24 * k + 4 * l) :: u64) = 24 * k + 4 * l" if "l < 6" "k < 64" for k l
    using that by (subst unat_of_nat) simp
  note this [OF assms(1,3)] this [OF assms(2,4)]
  ultimately have "24 * j + 4 * i = 24 * j' + 4 * i'" by (simp only:)
  then have "(6 * j + i) div 6 = (6 * j' + i') div 6" by simp
  with assms(1,2) show ?thesis by simp
qed

lemma footprint_words: "footprint a = (\<lambda>i. a + 4 * of_nat i) ` {..<6}"
proof -
  have "{..<6 :: nat} = {0, 1, 2, 3, 4, 5}" by auto
  then show ?thesis by (simp add: footprint_def)
qed

lemma vector_footprints:
  assumes "g < 8" "g' < 8" "i < 8" "i' < 8" "(g, i) \<noteq> (g', i')"
  shows "footprint (vector_addr fx g i) \<inter> footprint (vector_addr fx g' i') = {}"
proof (rule ccontr)
  assume "footprint (vector_addr fx g i) \<inter> footprint (vector_addr fx g' i') \<noteq> {}"
  then obtain k k' where k: "k < 6" "k' < 6"
      "vector_addr fx g i + 4 * of_nat k = vector_addr fx g' i' + 4 * of_nat k'"
    unfolding footprint_words by blast
  then have "fix_vectors fx + 24 * of_nat (g * 8 + i) + 4 * of_nat k =
      fix_vectors fx + 24 * of_nat (g' * 8 + i') + 4 * of_nat k'"
    unfolding vector_addr_def WAITV_WIDTH_def by blast
  then have "g * 8 + i = g' * 8 + i'"
    by (rule vector_words [OF k(1,2), rotated 2]) (use assms in linarith)+
  then have "(g * 8 + i) div 8 = (g' * 8 + i') div 8" "(g * 8 + i) mod 8 = (g' * 8 + i') mod 8" by simp_all
  with assms show False by simp
qed

lemma fill_vectors_loads:
  assumes "g < WAITV_GROUPS" "i < WAITV_WIDTH"
  shows "load_waitv (umem (fill_vectors fx s)) (vector_addr fx g i) = vector_item fx g i"
proof -
  let ?xs = "List.product [0..<WAITV_GROUPS] [0..<WAITV_WIDTH]"
  let ?f = "\<lambda>x. store_waitv (vector_addr fx (fst x) (snd x)) (vector_item fx (fst x) (snd x))"
  have "load_waitv (umem (fold ?f ?xs s)) (vector_addr fx (fst (g, i)) (snd (g, i))) =
      vector_item fx (fst (g, i)) (snd (g, i))"
  proof (rule fold_establishes [where P = "\<lambda>x s. load_waitv (umem s) (vector_addr fx (fst x) (snd x)) =
            vector_item fx (fst x) (snd x)"])
    fix x y and s :: "('a, 'b) machine"
    assume "x \<in> set ?xs" "y \<in> set ?xs" "x \<noteq> y"
    then have "footprint (vector_addr fx (fst x) (snd x)) \<inter> footprint (vector_addr fx (fst y) (snd y)) = {}"
      by (intro vector_footprints) auto
    note other = load_store_waitv_other [OF this, of "vector_item fx (fst y) (snd y)" s]
    show "load_waitv (umem s) (vector_addr fx (fst x) (snd x)) = vector_item fx (fst x) (snd x) \<Longrightarrow>
      load_waitv (umem (?f y s)) (vector_addr fx (fst x) (snd x)) = vector_item fx (fst x) (snd x)"
      by (simp add: other)
  qed (use assms in \<open>auto simp: load_store_waitv\<close>)
  then show ?thesis by (simp add: fill_vectors_def fold_product case_prod_unfold)
qed

lemma fill_vectors_same [simp]: "same_process s (fill_vectors fx s)"
proof -
  have "same_process s (store_waitv a w s)" for a w and s :: "('k, 'r) machine"
    by (simp add: store_waitv_def store64_def store32_def same_process_def)
  then show ?thesis unfolding fill_vectors_def by (intro fold_same)
qed

section \<open>The capability gate\<close>

lemma probe_opcode_same: "probe_opcode os ring opcode s = (rc, t) \<Longrightarrow> same_process s t"
  by (auto simp: probe_opcode_def split: prod.splits option.splits if_splits
      dest!: ask_process intro: same_process_trans)

text \<open>A system with memory to spare whose kernel answers every probe with \<open>ops\<close>.\<close>

definition offers :: "'k os \<Rightarrow> probe_op list \<Rightarrow> bool" where
  "offers os ops \<longleftrightarrow> (\<forall>x. fst (os_calloc os x)) \<and> (\<forall>fd n x. fst (os_probe os fd n x) = Some ops)"

definition supported :: "probe_op list \<Rightarrow> u8 \<Rightarrow> bool" where
  "supported ops opcode \<longleftrightarrow> (\<exists>p \<in> set ops. probe_opcode_nr p = opcode \<and> probe_supported p)"

lemma probe_opcode_offers:
  assumes "offers os ops"
  shows "fst (probe_opcode os ring opcode s) = (if supported ops opcode then 0 else -1)"
proof -
  obtain mem s1 where 1: "ask (os_calloc os) s = (mem, s1)" by (cases "ask (os_calloc os) s")
  obtain a s2 where 2: "ask (os_probe os (ring_fd ring) 256) s1 = (a, s2)"
    by (cases "ask (os_probe os (ring_fd ring) 256) s1")
  have "mem" using assms 1 by (auto simp: ask_def offers_def split_beta Let_def)
  moreover have "a = Some ops" using assms 2 by (auto simp: ask_def offers_def split_beta Let_def)
  ultimately show ?thesis by (simp add: probe_opcode_def 1 2 supported_def list_ex_iff)
qed

text \<open>The opcodes a profile cannot do without.\<close>

fun required_ops :: "profile_id \<Rightarrow> u8 list" where
  "required_ops PROFILE_N0_NOP = [IORING_OP_NOP]"
| "required_ops PROFILE_L0_LIFECYCLE = [IORING_OP_NOP]"
| "required_ops PROFILE_V0_WAITV_WAKE = [IORING_OP_FUTEX_WAITV, IORING_OP_FUTEX_WAKE]"
| "required_ops PROFILE_C0_WAIT_CANCEL = [IORING_OP_ASYNC_CANCEL, IORING_OP_FUTEX_WAIT, IORING_OP_FUTEX_WAKE]"
| "required_ops _ = [IORING_OP_FUTEX_WAIT, IORING_OP_FUTEX_WAKE]"

lemma capability_gate_offers:
  assumes "offers os ops"
  shows "fst (capability_gate os ring p s) = 0 \<longleftrightarrow> (\<forall>op \<in> set (required_ops p). supported ops op)"
  using probe_opcode_offers [OF assms]
  by (cases p) (simp_all add: capability_gate_def split_beta Let_def)

lemma capability_gate_same: "same_process s (snd (capability_gate os ring p s))"
proof -
  have p: "same_process s t \<Longrightarrow> same_process s (snd (probe_opcode os ring opcode t))"
    for opcode and t :: "'a futex_machine"
    using probe_opcode_same same_process_trans by (metis prod.collapse)
  show ?thesis
    by (cases p) (simp_all add: capability_gate_def split_beta Let_def p)
qed

section \<open>The fixture\<close>

definition holds_fixture :: "fixture \<Rightarrow> 'k futex_machine \<Rightarrow> 'k futex_machine \<Rightarrow> bool" where
  "holds_fixture fx s t \<longleftrightarrow> 0 \<le> ring_fd (fix_ring fx) \<and> vmas t = owned (fix_ring fx) @ vmas s \<and>
     mset (open_fds t) = add_mset (ring_fd (fix_ring fx)) (mset (open_fds s))"

lemma futex_holds_fixture_restored: "holds_fixture fx s t \<Longrightarrow> restored t u \<Longrightarrow> holds_fixture fx s u"
  by (simp add: holds_fixture_def restored_def)

lemma fixture_init_cases:
  assumes run: "fixture_init os c v s = (rc, fx, t)"
  shows "\<exists>s1 rc1 ring s2. same_process s s1 \<and> raw_ring_init os s1 = (rc1, ring, s2) \<and> same_process s2 t \<and>
    fix_ring fx = ring \<and> rc = (if rc1 \<noteq> 0 then -1 else 0)"
proof -
  define fx0 where "fx0 = \<lparr>fix_ring = zero_ring, fix_cells = c, fix_vectors = v\<rparr>"
  define s1 where "s1 = zero_cells fx0 (WAITV_GROUPS * WAITV_WIDTH) s"
  obtain rc1 ring s2 where r: "raw_ring_init os s1 = (rc1, ring, s2)"
    by (cases "raw_ring_init os s1") auto
  have "(rc, fx, t) = (if rc1 \<noteq> 0 then (-1, fx0\<lparr>fix_ring := ring\<rparr>, s2)
      else (0, fx0\<lparr>fix_ring := ring\<rparr>, fill_vectors (fx0\<lparr>fix_ring := ring\<rparr>) s2))"
    using run r unfolding fixture_init_def Let_def fx0_def [symmetric] s1_def [symmetric] by simp
  then have "same_process s2 t" "fix_ring fx = ring" "rc = (if rc1 \<noteq> 0 then -1 else 0)"
    by (auto split: if_splits)
  moreover have "same_process s s1" by (simp add: s1_def)
  ultimately show ?thesis using r by blast
qed

lemma futex_fixture_init_data:
  assumes "fixture_init os c v s = (rc, fx, t)"
  shows "same_data s t"
proof -
  obtain s1 rc1 ring s2 where p: "same_process s s1" "raw_ring_init os s1 = (rc1, ring, s2)" "same_process s2 t"
    using fixture_init_cases [OF assms] by blast
  have "same_data s1 s2" using ring_bringup_data [OF p(2) [unfolded raw_ring_init_def]] .
  with p show ?thesis by (blast intro: same_data_trans same_process_data)
qed

lemma futex_fixture_init_holds:
  assumes nn: "mmap_nonnull os" and run: "fixture_init os c v s = (rc, fx, t)"
  shows "rc = 0 \<and> holds_fixture fx s t \<or> rc = -1 \<and> restored s t"
proof -
  obtain s1 rc1 ring s2 where p: "same_process s s1" "raw_ring_init os s1 = (rc1, ring, s2)"
      "same_process s2 t" "fix_ring fx = ring" "rc = (if rc1 \<noteq> 0 then -1 else 0)"
    using fixture_init_cases [OF run] by blast
  show ?thesis
    using ring_bringup_owns [OF nn p(2) [unfolded raw_ring_init_def]] p(4,5)
      same_process_D [OF p(1)] same_process_D [OF p(3)]
    by (auto simp: holds_fixture_def restored_def)
qed

lemma futex_fixture_destroy_restores:
  assumes "holds_fixture fx s t"
  shows "restored s (snd (fixture_destroy os fx t))"
  using assms unmap_owned [of t "fix_ring fx" "vmas s"]
  by (simp add: fixture_destroy_def raw_ring_destroy_def holds_fixture_def restored_def split_beta Let_def)

lemma futex_fixture_destroy_data: "same_data t (snd (fixture_destroy os fx t))"
  by (simp add: fixture_destroy_def same_data_def split_beta Let_def)

lemma fixture_init_vectors:
  assumes "fixture_init os c v s = (0, fx, t)" and "g < WAITV_GROUPS" "i < WAITV_WIDTH"
  shows "load_waitv (umem t) (vector_addr fx g i) =
    \<lparr>fw_val = 0, fw_uaddr = cell_addr fx (g * WAITV_WIDTH + i), fw_flags = word_of_int FUTEX_UAPI_FLAGS,
     fw_reserved = 0\<rparr>"
proof -
  from assms(1) obtain s' where "t = fill_vectors fx s'"
    by (auto simp: fixture_init_def Let_def split: prod.splits if_splits)
  then show ?thesis using fill_vectors_loads [OF assms(2,3), of fx s'] by (simp add: vector_item_def)
qed

section \<open>The lifecycle run\<close>

lemma probe_all_outcome: "wp (probe_all os ring ops s) (outcome (same_process s) s)"
  unfolding probe_all_def
proof (rule outcome_for_each_same)
  fix opcode and s :: "'a futex_machine"
  obtain rc t where "probe_opcode os ring opcode s = (rc, t)" by (cases "probe_opcode os ring opcode s")
  with probe_opcode_same [OF this] show "wp (Some (probe_opcode os ring opcode s)) (\<lambda>rc t. same_process s t)"
    by simp
qed

lemma futex_err_zero_result [simp]: "futex_err zero_result = 0"
  by (simp add: futex_err_def zero_result_def)

lemma run_lifecycle_outcome:
  assumes nn: "mmap_nonnull os"
  shows "wp (run_lifecycle os c v s) (\<lambda>rc t. restored s t \<and> out_lines t = out_lines s \<and>
    (rc \<noteq> 0 \<longrightarrow> res t = res s) \<and>
    (rc = 0 \<longrightarrow> res t = lifecycle_result \<and> (\<exists>g. reaps g s t \<and> cycle_group PROFILE_S0_WAIT_WAKE g)))"
    (is "wp _ ?Q")
proof -
  let ?s0 = "upd_res (\<lambda>_. zero_result) s"
  obtain rc fx s1 where f: "fixture_init os c v ?s0 = (rc, fx, s1)"
    by (cases "fixture_init os c v ?s0") auto
  note fi = futex_fixture_init_holds [OF nn f]
  have s1: "res s1 = zero_result" "reaped s1 = reaped s" "out_lines s1 = out_lines s"
    using futex_fixture_init_data [OF f] by (simp_all add: same_data_def)
  let ?P = "\<lambda>t. \<exists>g. reaps g s1 t \<and> cycle_group PROFILE_S0_WAIT_WAKE g"
  have body: "wp (or_fail (probe_all os (fix_ring fx)
        [IORING_OP_FUTEX_WAIT, IORING_OP_FUTEX_WAKE, IORING_OP_FUTEX_WAITV] s1)
        (run_scalar_pair_cycle os fx PROFILE_S0_WAIT_WAKE 0 False)) (outcome ?P s1)"
  proof (rule outcome_or_fail [OF probe_all_outcome])
    fix t assume t: "same_process s1 t"
    then have "futex_err (res t) = 0" using s1 by (simp add: same_process_D)
    then have "wp (run_scalar_pair_cycle os fx PROFILE_S0_WAIT_WAKE 0 False t)
        (outcome (cycle_done PROFILE_S0_WAIT_WAKE t) t)"
      by (intro scalar_cycle_outcome) simp_all
    then show "wp (run_scalar_pair_cycle os fx PROFILE_S0_WAIT_WAKE 0 False t) (outcome ?P t)"
      by (rule outcome_mono) (use t in \<open>auto simp: cycle_done_def reaps_def same_process_D\<close>)
  qed
  have run: "wp (do {
      (rc, s2) \<leftarrow> or_fail (probe_all os (fix_ring fx)
          [IORING_OP_FUTEX_WAIT, IORING_OP_FUTEX_WAKE, IORING_OP_FUTEX_WAITV] s1)
          (run_scalar_pair_cycle os fx PROFILE_S0_WAIT_WAKE 0 False);
      let s3 = snd (fixture_destroy os fx s2)
      in if rc \<noteq> 0 then Some (-1, upd_res (\<lambda>_. res s) s3)
         else Some (0, upd_res (\<lambda>_. lifecycle_result) (async os s3))
    }) ?Q" if h: "holds_fixture fx ?s0 s1"
  proof (rule wp_bindI [OF body])
    fix rc s2 assume o: "outcome ?P s1 rc s2"
    then have res: "same_resources s1 s2" by (simp add: outcome_def)
    have "holds_fixture fx ?s0 s2"
      by (rule futex_holds_fixture_restored [OF h restored_resources [OF res]])
    from futex_fixture_destroy_restores [OF this, of os] futex_fixture_destroy_data [of s2 os fx]
    show "wp (let s3 = snd (fixture_destroy os fx s2)
      in if rc \<noteq> 0 then Some (-1, upd_res (\<lambda>_. res s) s3)
         else Some (0, upd_res (\<lambda>_. lifecycle_result) (async os s3))) ?Q"
      using o res s1 by (auto simp: outcome_def restored_def same_data_def same_resources_def reaps_def Let_def)
  qed
  show ?thesis
  proof (cases "rc = 0")
    case True
    with fi have "holds_fixture fx ?s0 s1" by simp
    from run [OF this] show ?thesis
      by (simp add: run_lifecycle_def f True Let_def)
  next
    case False
    with fi f s1 show ?thesis by (simp add: run_lifecycle_def restored_def)
  qed
qed

section \<open>Tags\<close>

text \<open>The rounds of point mode use the cycle numbers \<open>round * 512 + cycle\<close>: no tag comes twice.\<close>

definition run_tag :: "nat \<Rightarrow> nat \<Rightarrow> tag_kind \<Rightarrow> nat \<Rightarrow> u64" where
  "run_tag r c kind i = make_tag kind (of_nat r * POINT_CYCLES + of_nat c) (of_nat i)"

lemma small_of_nat32: "n < 2 ^ 32 \<Longrightarrow> unat (of_nat n :: u32) = n"
  by (simp add: unat_of_nat)

lemma run_tag_inject:
  assumes r: "r < 18" "r' < 18" and c: "c < 512" "c' < 512" and k: "known_kind kind" "known_kind kind'"
    and i: "i < 2 ^ 16" "i' < 2 ^ 16"
  shows "run_tag r c kind i = run_tag r' c' kind' i' \<longleftrightarrow> r = r' \<and> c = c' \<and> kind = kind' \<and> i = i'"
proof
  assume eq: "run_tag r c kind i = run_tag r' c' kind' i'"
  have kinds: "unat kind < 2 ^ 8" "unat kind' < 2 ^ 8" using k by (auto simp: known_kind_def)
  have idx: "unat (of_nat i :: u32) < 2 ^ 16" "unat (of_nat i' :: u32) < 2 ^ 16"
    using i by (simp_all add: small_of_nat32)
  have "kind = kind'"
    using eq tag_kind_make_tag [OF kinds(1) idx(1)] tag_kind_make_tag [OF kinds(2) idx(2)]
    by (metis run_tag_def)
  moreover have "(of_nat i :: u32) = of_nat i'"
    using eq tag_index_make_tag [OF kinds(1) idx(1)] tag_index_make_tag [OF kinds(2) idx(2)]
    by (metis run_tag_def)
  then have "i = i'" using i of_nat32_inject [of i i'] by simp
  moreover have "(ucast (of_nat r * POINT_CYCLES + of_nat c) :: u64) = ucast (of_nat r' * POINT_CYCLES + of_nat c')"
    using eq tag_cycle_make_tag [OF kinds(1) idx(1)] tag_cycle_make_tag [OF kinds(2) idx(2)]
    by (metis run_tag_def)
  then have "(of_nat (r * 512 + c) :: u32) = of_nat (r' * 512 + c')"
    by (simp add: POINT_CYCLES_def)
  then have "r * 512 + c = r' * 512 + c'"
    using r c of_nat32_inject [of "r * 512 + c" "r' * 512 + c'"] by simp
  then have "(r * 512 + c) div 512 = (r' * 512 + c') div 512" "(r * 512 + c) mod 512 = (r' * 512 + c') mod 512"
    by simp_all
  with c have "r = r'" "c = c'" by simp_all
  ultimately show "r = r' \<and> c = c' \<and> kind = kind' \<and> i = i'" by simp
qed simp

text \<open>A completion with the cycle of its tag replaced.\<close>

definition retag :: "u32 \<Rightarrow> cqe \<Rightarrow> cqe" where
  "retag cycle c = c\<lparr>cqe_user_data := make_tag (tag_kind (cqe_user_data c)) cycle (tag_index (cqe_user_data c))\<rparr>"

lemma unat_tag_kind: "unat (tag_kind tag) < 2 ^ 8"
proof -
  have small: "unat tag < 2 ^ 64" using unsigned_less [where 'a = nat, of tag] by simp
  then have "unat tag div 2 ^ 56 < 2 ^ 8" by (simp add: less_mult_imp_div_less)
  then have "drop_bit 56 (unat tag) < 2 ^ 8" by (simp only: drop_bit_eq_div)
  then show ?thesis
    using take_bit_nat_eq_self [OF small] by (simp add: tag_kind_def unsigned_drop_bit_eq)
qed

lemma retag_fields [simp]:
  "tag_kind (cqe_user_data (retag cycle c)) = tag_kind (cqe_user_data c)"
  "tag_index (cqe_user_data (retag cycle c)) = tag_index (cqe_user_data c)"
  "cqe_res (retag cycle c) = cqe_res c" "cqe_flags (retag cycle c) = cqe_flags c"
  using tag_kind_make_tag [OF unat_tag_kind unat_tag_index] tag_index_make_tag [OF unat_tag_kind unat_tag_index]
  by (simp_all add: retag_def)

lemma validate_retag:
  "validate_pair_cqes (map (retag cycle) cs) slots w e k r = validate_pair_cqes cs slots w e k r"
  "validate_single_cqes (map (retag cycle) cs) slots k e r = validate_single_cqes cs slots k e r"
proof -
  have "pair_step slots w e k (retag cycle c) st = pair_step slots w e k c st" for c st
    by (simp add: pair_step_def count_flags_def split_beta Let_def)
  then have "pair_step slots w e k \<circ> retag cycle = pair_step slots w e k" by (simp add: fun_eq_iff)
  then show "validate_pair_cqes (map (retag cycle) cs) slots w e k r = validate_pair_cqes cs slots w e k r"
    by (simp add: validate_pair_cqes_def fold_map)
  have "single_step slots k e (retag cycle c) st = single_step slots k e c st" for c st
    by (simp add: single_step_def count_flags_def split_beta Let_def)
  then have "single_step slots k e \<circ> retag cycle = single_step slots k e" by (simp add: fun_eq_iff)
  then show "validate_single_cqes (map (retag cycle) cs) slots k e r = validate_single_cqes cs slots k e r"
    by (simp add: validate_single_cqes_def fold_map)
qed

section \<open>The parts come back\<close>

lemma returns_if_app [returns_intro]:
  "(b \<Longrightarrow> returns (f s)) \<Longrightarrow> (\<not> b \<Longrightarrow> returns (g s)) \<Longrightarrow> returns ((if b then f else g) s)"
  by simp

lemma futex_calls_return:
  assumes "responsive os bound"
  shows "returns (enter_ring os ring a b s)" "returns (submit_and_copy os ring a b s)"
    "returns (now_if timed os s)" "returns (queue_waits os fx cy s)" "returns (queue_seconds os fx p cy s)"
    "returns (queue_group_wakes os fx k off cy s)" "returns (queue_vectors os fx cy s)"
    "returns (add_elapsed os timed start s)" "returns (for_each (queue_single os fx p cy) is s)"
  unfolding enter_ring_def submit_and_copy_def queue_waits_def queue_seconds_def queue_group_wakes_def
    queue_vectors_def queue_wait_def queue_wake_def queue_cancel_def queue_waitv_def add_elapsed_def
    queue_single_def queue_nop_def Let_def
  by (intro returns_intro responsive_returns [OF assms])+

lemma futex_cycle_returns:
  assumes "responsive os bound"
  shows "returns (run_cycle os fx p cy timed s)" "returns (run_scalar_pair_cycle os fx p cy timed s)"
  unfolding run_cycle_def run_scalar_pair_cycle_def run_waitv_cycle_def run_single_cycle_def
    check_residual_def Let_def
  by (intro returns_intro futex_calls_return [OF assms])+

lemma futex_round_returns:
  assumes "responsive os bound"
  shows "returns (run_profile_round os fx p base n timed s)" "returns (run_lifecycle os c v s)"
  unfolding run_profile_round_def run_lifecycle_def probe_all_def Let_def
  by (intro returns_intro futex_cycle_returns [OF assms])+

end
