(* ===== verification/Futex_Main.thy ===== *)
theory Futex_Main
  imports Futex_Process
begin

text \<open>
  io_uring_futex_round.c: the command line, the output table and \<open>main\<close>.
\<close>

section \<open>Names\<close>

fun profile_name :: "profile_id \<Rightarrow> string" where
  "profile_name PROFILE_S0_WAIT_WAKE = ''s0_wait_wake''"
| "profile_name PROFILE_C0_WAIT_CANCEL = ''c0_wait_cancel''"
| "profile_name PROFILE_V0_WAITV_WAKE = ''v0_waitv_wake''"
| "profile_name PROFILE_Z0_ZERO_WAKE = ''z0_zero_wake''"
| "profile_name PROFILE_E0_MISMATCH = ''e0_mismatch''"
| "profile_name PROFILE_N0_NOP = ''n0_nop''"
| "profile_name PROFILE_L0_LIFECYCLE = ''l0_lifecycle''"
| "profile_name PROFILE_UNSET = ''unset''"

fun mode_name :: "mode_id \<Rightarrow> string" where
  "mode_name MODE_DESCRIBE = ''describe''"
| "mode_name MODE_SMOKE = ''smoke''"
| "mode_name MODE_TRACE = ''trace''"
| "mode_name MODE_POINT = ''point''"
| "mode_name MODE_UNSET = ''unset''"

fun phase_name :: "phase_id \<Rightarrow> string" where
  "phase_name PHASE_SMOKE = ''smoke''"
| "phase_name PHASE_TRACE = ''trace''"
| "phase_name PHASE_WARMUP = ''warmup''"
| "phase_name PHASE_MEASURED = ''measured''"

section \<open>The output table\<close>

definition result_names :: "string list" where
  "result_names =
     [''schema_version'', ''kernel_release'', ''boot_id'', ''mode'', ''profile'', ''phase'',
      ''round'', ''ring_entries'', ''slots'', ''vector_width'', ''cycles'', ''pairs'',
      ''wait_submitted'', ''wake_submitted'', ''cancel_submitted'', ''nop_submitted'',
      ''wait_cqes'', ''wake_cqes'', ''cancel_cqes'', ''check_cqes'', ''nop_cqes'',
      ''bad_results'', ''bad_flags'', ''duplicate_cqes'', ''unexpected_cqes'',
      ''timeouts'', ''sq_dropped'', ''cq_overflow'', ''outstanding'', ''timed_ns'',
      ''ns_per_pair'', ''cpu'', ''semantic_pass'', ''input_sha256'', ''trace_enabled'']"

definition result_header :: string where
  "result_header = join_tabs result_names"

definition result_columns :: "'k os \<Rightarrow> workload \<Rightarrow> options \<Rightarrow> phase_id \<Rightarrow> u32 \<Rightarrow> result \<Rightarrow> string list" where
  "result_columns os work opt phase round_nr r =
     [dec SCHEMA_VERSION, kernel_release work, boot_id work, mode_name (opt_mode opt),
      profile_name (opt_profile opt), phase_name phase, dec (unat round_nr),
      dec (unat RING_ENTRIES),
      dec (if opt_profile opt = PROFILE_V0_WAITV_WAKE then WAITV_GROUPS else SCALAR_SLOTS),
      dec (if opt_profile opt = PROFILE_V0_WAITV_WAKE then WAITV_WIDTH else 1),
      dec64 (cycles r), dec64 (pairs r), dec64 (wait_submitted r), dec64 (wake_submitted r),
      dec64 (cancel_submitted r), dec64 (nop_submitted r), dec64 (wait_cqes r),
      dec64 (wake_cqes r), dec64 (cancel_cqes r), dec64 (check_cqes r), dec64 (nop_cqes r),
      dec64 (bad_results r), dec64 (bad_flags r), dec64 (duplicate_cqes r),
      dec64 (unexpected_cqes r), dec64 (timeouts r), dec64 (sq_dropped_total r),
      dec64 (cq_overflow_total r), dec64 (outstanding r), dec64 (timed_ns r),
      (if pairs r \<noteq> 0 then os_ratio6 os (timed_ns r) (pairs r) else ''0.000000''),
      dec (unat CONTRACT_CPU), (if semantic_pass r then ''1'' else ''0''), INPUT_SHA256,
      (if opt_mode opt = MODE_TRACE then ''1'' else ''0'')]"

definition result_row :: "'k os \<Rightarrow> workload \<Rightarrow> options \<Rightarrow> phase_id \<Rightarrow> u32 \<Rightarrow> result \<Rightarrow> string" where
  "result_row os work opt phase round_nr r = join_tabs (result_columns os work opt phase round_nr r)"

definition write_result :: "'k os \<Rightarrow> workload \<Rightarrow> options \<Rightarrow> phase_id \<Rightarrow> u32 \<Rightarrow> 'k futex_machine
    \<Rightarrow> 'k futex_machine" where
  "write_result os work opt phase round_nr s =
     print_line (result_row os work opt phase round_nr (res s)) s"

section \<open>The command line\<close>

definition cycles_of_mode :: "mode_id \<Rightarrow> u32" where
  "cycles_of_mode mode =
     (if mode = MODE_POINT then POINT_CYCLES
      else if mode = MODE_TRACE then TRACE_CYCLES else SMOKE_CYCLES)"

definition parse_profile :: "string \<Rightarrow> profile_id option" where
  "parse_profile txt =
     (if txt = ''s0_wait_wake'' then Some PROFILE_S0_WAIT_WAKE
      else if txt = ''c0_wait_cancel'' then Some PROFILE_C0_WAIT_CANCEL
      else if txt = ''v0_waitv_wake'' then Some PROFILE_V0_WAITV_WAKE
      else if txt = ''z0_zero_wake'' then Some PROFILE_Z0_ZERO_WAKE
      else if txt = ''e0_mismatch'' then Some PROFILE_E0_MISMATCH
      else if txt = ''n0_nop'' then Some PROFILE_N0_NOP
      else if txt = ''l0_lifecycle'' then Some PROFILE_L0_LIFECYCLE
      else None)"

definition parse_mode :: "string \<Rightarrow> mode_id option" where
  "parse_mode txt =
     (if txt = ''describe'' then Some MODE_DESCRIBE
      else if txt = ''smoke'' then Some MODE_SMOKE
      else if txt = ''trace'' then Some MODE_TRACE
      else if txt = ''point'' then Some MODE_POINT
      else None)"

definition zero_options :: options where
  "zero_options = \<lparr>opt_profile = PROFILE_UNSET, opt_mode = MODE_UNSET,
     opt_output_path = None, opt_execute = False\<rparr>"

fun parse_args :: "string list \<Rightarrow> options \<Rightarrow> options option" where
  "parse_args [] opt = Some opt"
| "parse_args [arg] opt =
     (if arg = ''--execute'' then Some (opt\<lparr>opt_execute := True\<rparr>) else None)"
| "parse_args (arg # val # rest) opt =
     (if arg = ''--profile'' then
        (case parse_profile val of
           None \<Rightarrow> None
         | Some p \<Rightarrow> parse_args rest (opt\<lparr>opt_profile := p\<rparr>))
      else if arg = ''--mode'' then
        (case parse_mode val of
           None \<Rightarrow> None
         | Some m \<Rightarrow> parse_args rest (opt\<lparr>opt_mode := m\<rparr>))
      else if arg = ''--output'' then parse_args rest (opt\<lparr>opt_output_path := Some val\<rparr>)
      else if arg = ''--execute'' then parse_args (val # rest) (opt\<lparr>opt_execute := True\<rparr>)
      else None)"

definition options_ok :: "options \<Rightarrow> bool" where
  "options_ok opt \<longleftrightarrow>
     opt_profile opt \<noteq> PROFILE_UNSET \<and> opt_mode opt \<noteq> MODE_UNSET \<and>
     (opt_mode opt = MODE_DESCRIBE \<or> opt_execute opt \<and> opt_output_path opt \<noteq> None) \<and>
     (opt_mode opt = MODE_POINT \<longrightarrow>
        opt_profile opt \<in> {PROFILE_S0_WAIT_WAKE, PROFILE_C0_WAIT_CANCEL, PROFILE_V0_WAITV_WAKE})"

definition parse_options :: "string list \<Rightarrow> options option" where
  "parse_options args =
     (case parse_args args zero_options of
        None \<Rightarrow> None
      | Some opt \<Rightarrow> if options_ok opt then Some opt else None)"

definition describe_text :: "options \<Rightarrow> string" where
  \<open>describe_text opt =
     ''{"profile":"'' @ profile_name (opt_profile opt) @ ''","ring_entries":'' @
     dec (unat RING_ENTRIES) @ '',"scalar_slots":'' @ dec SCALAR_SLOTS @ '',"waitv_groups":'' @
     dec WAITV_GROUPS @ '',"waitv_width":'' @ dec WAITV_WIDTH @ '',"point_cycles":'' @
     dec (unat POINT_CYCLES) @ '',"warmups":'' @ dec WARMUP_ROUNDS @ '',"measured_rounds":'' @
     dec MEASURED_ROUNDS @ '',"cpu":'' @ dec (unat CONTRACT_CPU) @ '',"input_sha256":"'' @
     INPUT_SHA256 @ ''"}''\<close>

section \<open>main\<close>

definition phase_of_mode :: "mode_id \<Rightarrow> phase_id" where
  "phase_of_mode mode = (if mode = MODE_TRACE then PHASE_TRACE else PHASE_SMOKE)"

definition warmup_rounds :: "'k os \<Rightarrow> options \<Rightarrow> fixture \<Rightarrow> 'k futex_machine
    \<Rightarrow> (int \<times> 'k futex_machine) option" where
  "warmup_rounds os opt fx =
     for_each (\<lambda>i. run_profile_round os fx (opt_profile opt) (of_nat i * cycles_of_mode (opt_mode opt))
                     (cycles_of_mode (opt_mode opt)) False) [0..<WARMUP_ROUNDS]"

definition measured_rounds :: "'k os \<Rightarrow> workload \<Rightarrow> options \<Rightarrow> fixture \<Rightarrow> 'k futex_machine
    \<Rightarrow> (int \<times> 'k futex_machine) option" where
  "measured_rounds os work opt fx =
     measured_with (\<lambda>i. result_row os work opt PHASE_MEASURED (of_nat i))
       (\<lambda>i. run_profile_round os fx (opt_profile opt)
              (of_nat (WARMUP_ROUNDS + i) * cycles_of_mode (opt_mode opt))
              (cycles_of_mode (opt_mode opt)) True) MEASURED_ROUNDS"

text \<open>What runs between \<open>fixture_init\<close> and the label \<open>destroy\<close>.\<close>

definition run_fixture :: "'k os \<Rightarrow> workload \<Rightarrow> options \<Rightarrow> fixture \<Rightarrow> 'k futex_machine
    \<Rightarrow> (int \<times> 'k futex_machine) option" where
  "run_fixture os work opt fx s =
     or_fail (Some (capability_gate os (fix_ring fx) (opt_profile opt) s)) (\<lambda>s.
     if opt_mode opt = MODE_SMOKE \<or> opt_mode opt = MODE_TRACE
     then or_fail (run_profile_round os fx (opt_profile opt) 0
                     (cycles_of_mode (opt_mode opt)) False s) (\<lambda>s.
          Some (0, write_result os work opt (phase_of_mode (opt_mode opt)) 0 s))
     else or_fail (warmup_rounds os opt fx s) (\<lambda>s.
          or_fail (measured_rounds os work opt fx s) (\<lambda>s. Some (0, s))))"

text \<open>
  What runs between the opening of the output and the label \<open>out\<close>, the fixture lying at
  the given addresses.
\<close>

definition run_output :: "'k os \<Rightarrow> u64 \<Rightarrow> u64 \<Rightarrow> options \<Rightarrow> workload \<Rightarrow> 'k futex_machine
    \<Rightarrow> (int \<times> 'k futex_machine) option" where
  "run_output os cells vectors opt work s =
     (if opt_profile opt = PROFILE_L0_LIFECYCLE
      then or_fail (run_lifecycle os cells vectors (upd_res (\<lambda>_. zero_result) s)) (\<lambda>s.
           Some (0, write_result os work opt (phase_of_mode (opt_mode opt)) 0 s))
      else
        (let (rc, fx, s1) = fixture_init os cells vectors s
         in if rc \<noteq> 0 then Some (-1, s1)
            else do {
              (rc, s2) \<leftarrow> run_fixture os work opt fx s1;
              Some (rc, snd (fixture_destroy os fx s2))
            }))"

definition run_execute :: "'k os \<Rightarrow> u64 \<Rightarrow> u64 \<Rightarrow> options \<Rightarrow> string \<Rightarrow> 'k futex_machine
    \<Rightarrow> (int \<times> 'k futex_machine) option" where
  "run_execute os cells vectors opt path =
     execute_with CONTRACT_CPU result_header (run_output os cells vectors opt) os path"

definition main :: "'k os \<Rightarrow> u64 \<Rightarrow> u64 \<Rightarrow> string list \<Rightarrow> 'k futex_machine
    \<Rightarrow> (int \<times> 'k futex_machine) option" where
  "main os cells vectors argv s =
     (case parse_options (tl argv) of
        None \<Rightarrow> Some (2, s)
      | Some opt \<Rightarrow>
          if opt_mode opt = MODE_DESCRIBE
          then Some (0, s\<lparr>stdout_lines := stdout_lines s @ [describe_text opt]\<rparr>)
          else run_execute os cells vectors opt (the (opt_output_path opt)) s)"

section \<open>The command line, read back\<close>

lemma futex_parse_profile: "parse_profile txt = Some p \<longleftrightarrow> p \<noteq> PROFILE_UNSET \<and> txt = profile_name p"
  by (cases p) (auto simp: parse_profile_def)

lemma futex_parse_mode: "parse_mode txt = Some m \<longleftrightarrow> m \<noteq> MODE_UNSET \<and> txt = mode_name m"
  by (cases m) (auto simp: parse_mode_def)

definition option_args :: "options \<Rightarrow> string list" where
  "option_args opt =
     [''--profile'', profile_name (opt_profile opt), ''--mode'', mode_name (opt_mode opt)] @
     (case opt_output_path opt of None \<Rightarrow> [] | Some path \<Rightarrow> [''--output'', path]) @
     (if opt_execute opt then [''--execute''] else [])"

lemma futex_option_args:
  assumes "options_ok opt"
  shows "parse_options (option_args opt) = Some opt"
proof -
  have "parse_profile (profile_name (opt_profile opt)) = Some (opt_profile opt)"
      "parse_mode (mode_name (opt_mode opt)) = Some (opt_mode opt)"
    using assms by (simp_all add: futex_parse_profile futex_parse_mode options_ok_def)
  then have "parse_args (option_args opt) zero_options = Some opt"
    by (cases "opt_output_path opt"; cases "opt_execute opt")
       (simp_all add: option_args_def zero_options_def)
  with assms show ?thesis by (simp add: parse_options_def)
qed

lemma futex_parse_options_ok: "parse_options args = Some opt \<Longrightarrow> options_ok opt"
  by (auto simp: parse_options_def split: option.splits if_splits)

section \<open>The output table, read back\<close>

definition counter_table :: "result \<Rightarrow> (string \<times> u64) list" where
  "counter_table r =
     [(''cycles'', cycles r), (''pairs'', pairs r), (''wait_submitted'', wait_submitted r),
      (''wake_submitted'', wake_submitted r), (''cancel_submitted'', cancel_submitted r),
      (''nop_submitted'', nop_submitted r), (''wait_cqes'', wait_cqes r),
      (''wake_cqes'', wake_cqes r), (''cancel_cqes'', cancel_cqes r), (''check_cqes'', check_cqes r),
      (''nop_cqes'', nop_cqes r), (''bad_results'', bad_results r), (''bad_flags'', bad_flags r),
      (''duplicate_cqes'', duplicate_cqes r), (''unexpected_cqes'', unexpected_cqes r),
      (''timeouts'', timeouts r), (''sq_dropped'', sq_dropped_total r),
      (''cq_overflow'', cq_overflow_total r), (''outstanding'', outstanding r),
      (''timed_ns'', timed_ns r)]"

definition plain_workload :: "'k os \<Rightarrow> workload \<Rightarrow> bool" where
  "plain_workload os work \<longleftrightarrow>
     CHR 0x09 \<notin> set (kernel_release work) \<and> CHR 0x09 \<notin> set (boot_id work) \<and>
     (\<forall>a b. CHR 0x09 \<notin> set (os_ratio6 os a b))"

lemma futex_names_no_tab:
  "CHR 0x09 \<notin> set (profile_name p)" "CHR 0x09 \<notin> set (mode_name m)" "CHR 0x09 \<notin> set (phase_name ph)"
proof -
  show "CHR 0x09 \<notin> set (profile_name p)" by (cases p) simp_all
  show "CHR 0x09 \<notin> set (mode_name m)" by (cases m) simp_all
  show "CHR 0x09 \<notin> set (phase_name ph)" by (cases ph) simp_all
qed

lemma futex_split_result_line:
  assumes "plain_workload os work"
  shows "split_tabs (result_row os work opt ph rn r) = result_columns os work opt ph rn r"
  unfolding result_row_def
proof (rule split_join_tabs)
  show "result_columns os work opt ph rn r \<noteq> []" by (simp add: result_columns_def)
  show "\<forall>c \<in> set (result_columns os work opt ph rn r). CHR 0x09 \<notin> set c"
    using assms
    by (simp add: result_columns_def plain_workload_def futex_names_no_tab dec64_def dec_no_tab
        INPUT_SHA256_def)
qed

lemma futex_split_result_header: "split_tabs result_header = result_names"
  unfolding result_header_def
  by (rule split_join_tabs) (simp_all add: result_names_def)

lemma futex_length_result_columns: "length (result_columns os work opt ph rn r) = length result_names"
  by (simp add: result_columns_def result_names_def)

lemma futex_counter_column:
  assumes "(name, v) \<in> set (counter_table r)"
  shows "map_of (zip result_names (result_columns os work opt ph rn r)) name = Some (dec64 v)"
  using assms
  by (simp add: counter_table_def) (elim disjE; simp add: result_names_def result_columns_def)

section \<open>main gives everything back\<close>

lemma futex_write_result_restored [simp]: "restored s (write_result os work opt ph rn t) = restored s t"
  by (simp add: write_result_def)

lemma futex_round_restored: "wp (run_profile_round os fx p base n timed s) (\<lambda>rc t. restored s t)"
  by (rule restored_outcome [OF futex_run_profile_round_outcome])

lemma gate_outcome: "wp (Some (capability_gate os ring p s)) (outcome (same_process s) s)"
  using same_process_resources [OF capability_gate_same [of s os ring p]] capability_gate_same [of s os ring p]
  by (cases "capability_gate os ring p s") (auto simp: outcome_def)

lemma futex_fixture_restored: "wp (run_fixture os work opt fx s) (\<lambda>rc t. restored s t)"
  unfolding run_fixture_def warmup_rounds_def measured_rounds_def wp_if
  by (intro conjI impI wp_or_fail_frame restored_outcome [OF gate_outcome] point_rounds_restored
      futex_round_restored | simp)+

lemma futex_output_restored:
  assumes nn: "mmap_nonnull os"
  shows "wp (run_output os c v opt work s) (\<lambda>rc t. restored s t)"
proof (cases "opt_profile opt = PROFILE_L0_LIFECYCLE")
  case True
  let ?s = "upd_res (\<lambda>_. zero_result) s"
  have "wp (run_lifecycle os c v ?s) (\<lambda>rc t. restored ?s t)"
    by (rule wp_mono [OF run_lifecycle_outcome [OF nn]]) simp
  then have "wp (run_lifecycle os c v ?s) (\<lambda>rc t. restored s t)"
    by (rule wp_mono) (simp add: restored_def)
  then have "wp (or_fail (run_lifecycle os c v ?s) (\<lambda>s. Some (0, write_result os work opt
      (phase_of_mode (opt_mode opt)) 0 s))) (\<lambda>rc t. restored s t)"
    by (rule wp_or_fail_frame) simp
  with True show ?thesis by (simp add: run_output_def)
next
  case False
  obtain rc fx s1 where f: "fixture_init os c v s = (rc, fx, s1)" by (cases "fixture_init os c v s") auto
  note fi = futex_fixture_init_holds [OF nn f]
  have "wp (do { (rc, s2) \<leftarrow> run_fixture os work opt fx s1; Some (rc, snd (fixture_destroy os fx s2)) })
      (\<lambda>rc t. restored s t)" if h: "holds_fixture fx s s1"
  proof (rule wp_bindI [OF futex_fixture_restored])
    fix rc s2 assume "restored s1 s2"
    then show "wp (Some (rc, snd (fixture_destroy os fx s2))) (\<lambda>rc t. restored s t)"
      using futex_fixture_destroy_restores [OF futex_holds_fixture_restored [OF h]] by simp
  qed
  with False fi show ?thesis by (cases "rc = 0") (simp_all add: run_output_def f)
qed

lemma futex_main_restored:
  assumes "mmap_nonnull os"
  shows "wp (main os c v argv s) (\<lambda>rc t. restored s t)"
proof -
  have "wp (run_execute os c v opt path s) (\<lambda>rc t. restored s t)" for opt path
    unfolding run_execute_def by (rule execute_with_restored [OF futex_output_restored [OF assms]])
  then show ?thesis by (auto simp: main_def restored_def split: option.split)
qed

section \<open>main comes back\<close>

lemma futex_main_returns:
  assumes "responsive os bound"
  shows "returns (main os c v argv s)"
proof -
  have "returns (run_output os c v opt work s)" for opt work and s :: "'a futex_machine"
    unfolding run_output_def run_fixture_def warmup_rounds_def measured_rounds_def Let_def
    by (intro returns_intro futex_round_returns [OF assms])
  from execute_with_returns [OF this] show ?thesis
    by (simp add: main_def run_execute_def split: option.split)
qed

lemma futex_main_exit_code: "wp (main os c v argv s) (\<lambda>code t. code = 0 \<or> code = 1 \<or> code = 2)"
proof -
  have "wp (run_execute os c v opt path t) (\<lambda>code t. code = 0 \<or> code = 1 \<or> code = 2)" for opt path t
    unfolding run_execute_def by (rule wp_mono [OF execute_with_exit_code]) auto
  then show ?thesis by (simp add: main_def split: option.split)
qed

section \<open>What point mode has written\<close>

text \<open>The result of a passing round, but for the time it took.\<close>

definition point_result :: "profile_id \<Rightarrow> result \<Rightarrow> bool" where
  "point_result profile r \<longleftrightarrow> (\<exists>ns. r = (round_counters profile 512 ns)\<lparr>semantic_pass := True\<rparr>)"

definition run_done :: "'k os \<Rightarrow> workload \<Rightarrow> options \<Rightarrow> 'k futex_machine \<Rightarrow> 'k futex_machine \<Rightarrow> bool" where
  "run_done os work opt =
     point_done (point_result (opt_profile opt)) (\<lambda>i. futex_round (opt_profile opt) 512)
       (\<lambda>i. result_row os work opt PHASE_MEASURED (of_nat i)) 3 15"

lemma futex_run_done_data:
  "run_done os work opt t u \<Longrightarrow> same_data s t \<Longrightarrow> same_data u v \<Longrightarrow> run_done os work opt s v"
  unfolding run_done_def by (rule point_done_data)

lemma futex_round_done:
  assumes "opt_mode opt = MODE_POINT"
  shows "wp (run_profile_round os fx (opt_profile opt) base (cycles_of_mode (opt_mode opt)) timed t)
    (outcome (round_outcome_of (point_result (opt_profile opt)) (futex_round (opt_profile opt) 512) t) t)"
proof -
  have "unat (cycles_of_mode (opt_mode opt)) = 512"
    using assms by (simp add: cycles_of_mode_def POINT_CYCLES_def)
  then show ?thesis
    using futex_run_profile_round_outcome [of os fx "opt_profile opt" base "cycles_of_mode (opt_mode opt)" timed t]
    by (auto simp: round_outcome_of_def point_result_def elim!: outcome_mono)
qed

lemma futex_fixture_point:
  assumes "opt_mode opt = MODE_POINT"
  shows "wp (run_fixture os work opt fx s) (\<lambda>rc t. rc = 0 \<longrightarrow> run_done os work opt s t)"
proof -
  have point: "wp (or_fail (warmup_rounds os opt fx t) (\<lambda>s.
      or_fail (measured_rounds os work opt fx s) (\<lambda>s. Some (0, s)))) (\<lambda>rc u. rc = 0 \<longrightarrow> run_done os work opt t u)"
    for t
    unfolding warmup_rounds_def measured_rounds_def run_done_def WARMUP_ROUNDS_def MEASURED_ROUNDS_def
    by (rule point_rounds_done) (rule futex_round_done [OF assms])+
  have "wp (Some (capability_gate os (fix_ring fx) (opt_profile opt) s)) (\<lambda>rc t. rc = 0 \<longrightarrow> same_process s t)"
    by (rule wp_mono [OF gate_outcome]) (simp add: outcome_def)
  then have "wp (or_fail (Some (capability_gate os (fix_ring fx) (opt_profile opt) s)) (\<lambda>s.
      or_fail (warmup_rounds os opt fx s) (\<lambda>s.
      or_fail (measured_rounds os work opt fx s) (\<lambda>s. Some (0, s))))) (\<lambda>rc t. rc = 0 \<longrightarrow> run_done os work opt s t)"
  proof (rule wp_or_fail)
    fix t assume t: "same_process s t"
    have "same_data u u" for u :: "'a futex_machine" by (simp add: same_data_def)
    then show "wp (or_fail (warmup_rounds os opt fx t) (\<lambda>s.
        or_fail (measured_rounds os work opt fx s) (\<lambda>s. Some (0, s)))) (\<lambda>rc u. rc = 0 \<longrightarrow> run_done os work opt s u)"
      using futex_run_done_data [OF _ same_process_data [OF t]]
      by (intro wp_mono [OF point]) blast
  qed
  with assms show ?thesis by (simp add: run_fixture_def)
qed

lemma futex_output_point:
  assumes "opt_mode opt = MODE_POINT" and "options_ok opt"
  shows "wp (run_output os c v opt work s) (\<lambda>rc t. rc = 0 \<longrightarrow> run_done os work opt s t)"
proof -
  obtain rc fx s1 where f: "fixture_init os c v s = (rc, fx, s1)" by (cases "fixture_init os c v s") auto
  note data = futex_fixture_init_data [OF f]
  have "wp (do { (rc, s2) \<leftarrow> run_fixture os work opt fx s1; Some (rc, snd (fixture_destroy os fx s2)) })
      (\<lambda>rc t. rc = 0 \<longrightarrow> run_done os work opt s t)"
    by (rule wp_bindI [OF futex_fixture_point [OF assms(1)]])
       (use futex_run_done_data [OF _ data futex_fixture_destroy_data] in auto)
  moreover have "opt_profile opt \<noteq> PROFILE_L0_LIFECYCLE"
    using assms by (auto simp: options_ok_def)
  ultimately show ?thesis by (simp add: run_output_def f)
qed

lemma futex_execute_point:
  assumes "opt_mode opt = MODE_POINT" and "options_ok opt"
  shows "wp (run_execute os c v opt path s) (\<lambda>rc t. rc = 0 \<longrightarrow>
    (\<exists>work. run_done os work opt (print_line result_header s) t))"
  unfolding run_execute_def by (rule execute_with_done [OF futex_output_point [OF assms] futex_run_done_data])

end
