(* ===== verification/Futex_Properties.thy ===== *)
theory Futex_Properties
  imports Futex_Main Simple_System
begin

text \<open>
  io_uring_futex_round.c: what the program promises.
\<close>

section \<open>Rounds\<close>

text \<open>C3: A round that returns 0 has copied, cycle by cycle, as many completions as the cycle
  has requests, among which every kind and slot of the cycle occurs in the tag exactly once,
  with the wanted result, whatever the kernel did. The cycle number in the tag is not
  compared, so a completion left over from another cycle counts as one of this cycle
  (\<open>checks_ignore_cycle\<close>). The
  \<open>struct result\<close> is then fully determined by the profile, the number of cycles and the
  time; mappings, descriptors and output are kept on every path.\<close>

theorem futex_round_sound:
  "wp (run_profile_round os fx profile base n timed s)
     (outcome (\<lambda>t. (\<exists>bs. reaps bs s t \<and> grouped (\<lambda>i. cycle_group profile) (unat n) bs) \<and>
        (\<exists>ns. res t = (round_counters profile (unat n) ns)\<lparr>semantic_pass := True\<rparr>)) s)"
  using futex_run_profile_round_outcome by (simp add: futex_round_def)

text \<open>The lifecycle run gives back every mapping and descriptor where \<open>mmap\<close> never returns
  address zero; when it returns 0 a full wait and wake cycle has passed and the result is the
  fixed one, and when it fails the caller's result is untouched.\<close>

theorem lifecycle_sound:
  assumes "mmap_nonnull os"
  shows "wp (run_lifecycle os cells vectors s) (\<lambda>rc t. vmas t = vmas s \<and>
    mset (open_fds t) = mset (open_fds s) \<and> (rc \<noteq> 0 \<longrightarrow> res t = res s) \<and>
    (rc = 0 \<longrightarrow> res t = lifecycle_result \<and> (\<exists>g. reaps g s t \<and> cycle_group PROFILE_S0_WAIT_WAKE g)))"
  by (rule wp_mono [OF run_lifecycle_outcome [OF assms]]) (simp add: restored_def)

theorem lifecycle_sound_witness:
  "wp (run_lifecycle simple_os 0x1000 0x2000 (simple_machine 6 zero_result))
     (\<lambda>rc t. vmas t = [] \<and> open_fds t = [])"
  by (rule wp_mono [OF lifecycle_sound [OF simple_nonnull]]) (simp add: simple_machine_def)

section \<open>The checks\<close>

text \<open>The completion of the wait (\<open>False\<close>) or of the second request (\<open>True\<close>) of a slot.\<close>

definition pair_cqe :: "s32 \<Rightarrow> s32 \<Rightarrow> tag_kind \<Rightarrow> u32 \<Rightarrow> bool \<times> nat \<Rightarrow> cqe" where
  "pair_cqe wait_result second_result second_kind cycle j =
     \<lparr>cqe_user_data = make_tag (if fst j then second_kind else TAG_WAIT) cycle (of_nat (snd j)),
      cqe_res = (if fst j then second_result else wait_result), cqe_flags = 0\<rparr>"

lemma pair_cqe_fills:
  assumes "j \<in> set (pair_slots slots)" and "slots \<le> SCALAR_SLOTS" and "known_kind k" and "k \<noteq> TAG_WAIT"
  shows "fills_pair slots w e k (pair_cqe w e k cycle j) = Some j"
proof -
  obtain b i where j: "j = (b, i)" by (cases j)
  then have i: "i < slots" using assms(1) by (simp add: set_pair_slots)
  have idx: "unat (of_nat i :: u32) = i" using i assms(2) by (simp add: small_of_nat32)
  have kd: "unat (if b then k else TAG_WAIT) < 2 ^ 8" using assms(3) by (auto simp: known_kind_def)
  have ix: "unat (of_nat i :: u32) < 2 ^ 16" using idx i assms(2) by simp
  note tags = tag_kind_make_tag [OF kd ix] tag_index_make_tag [OF kd ix]
  show ?thesis
    using i idx assms(4) tags
    by (cases b) (simp_all add: j pair_cqe_def fills_pair_def pair_slot_def pair_want_def Let_def del: TAG_WAIT_def)
qed

lemma pair_cqes_complete:
  assumes "slots \<le> SCALAR_SLOTS" and "known_kind k" and "k \<noteq> TAG_WAIT"
  shows "map (fills_pair slots w e k) (map (pair_cqe w e k cycle) (pair_slots slots)) = map Some (pair_slots slots)"
  using pair_cqe_fills [OF _ assms] by simp

text \<open>C30: \<open>validate_pair_cqes\<close> accepts exactly the completions that answer the wait and the second
  request of every slot once, without flags and with the wanted results; \<open>nr\<close> is 32 bits
  wide, so no counter wraps.\<close>

theorem validate_pair_exact:
  assumes "futex_err r = 0" and "slots \<le> SCALAR_SLOTS" and "length cs < 2 ^ 32" and "known_kind second_kind"
  shows "fst (validate_pair_cqes cs slots wait_result second_result second_kind r) = 0 \<longleftrightarrow>
    mset (map (fills_pair slots wait_result second_result second_kind) cs) = mset (map Some (pair_slots slots))"
  using assms by (rule validate_pair_iff)

theorem validate_pair_exact_witness:
  "fst (validate_pair_cqes (rev (map (pair_cqe 0 1 TAG_WAKE 7) (pair_slots 32))) 32 0 1 TAG_WAKE zero_result) = 0 \<and>
   fst (validate_pair_cqes [] 32 0 1 TAG_WAKE zero_result) \<noteq> 0"
proof -
  let ?cs = "map (pair_cqe 0 1 TAG_WAKE 7) (pair_slots 32)"
  have e: "futex_err zero_result = 0" and s: "(32 :: nat) \<le> SCALAR_SLOTS" and l: "length (rev ?cs) < 2 ^ 32"
    and l0: "length ([] :: cqe list) < 2 ^ 32"
    by (simp_all add: pair_slots_def)
  have "map (fills_pair 32 0 1 TAG_WAKE) ?cs = map Some (pair_slots 32)"
    by (rule pair_cqes_complete) (simp_all add: known_kind_def)
  then have "mset (map (fills_pair 32 0 1 TAG_WAKE) (rev ?cs)) = mset (map Some (pair_slots 32))"
    by (metis mset_rev rev_map)
  moreover have "mset (map (fills_pair 32 0 1 TAG_WAKE) []) \<noteq> mset (map Some (pair_slots 32))"
    by (auto dest!: mset_eq_length simp: pair_slots_def simp del: mset_upt)
  ultimately show ?thesis
    using validate_pair_exact [OF e s l known_kinds(2), of 0 1] validate_pair_exact [OF e s l0 known_kinds(2), of 0 1]
    by blast
qed

text \<open>\<open>validate_single_cqes\<close> accepts exactly the completions that answer every slot's request
  once, without flags and with the wanted result.\<close>

theorem validate_single_exact:
  assumes "futex_err r = 0" and "slots \<le> SCALAR_SLOTS" and "length cs < 2 ^ 32" and "known_kind kind"
  shows "fst (validate_single_cqes cs slots kind expected r) = 0 \<longleftrightarrow>
    mset (map (fills_single slots kind expected) cs) = mset (map Some [0..<slots])"
  using assms by (rule validate_single_iff)

theorem validate_single_exact_witness:
  "fst (validate_single_cqes [\<lparr>cqe_user_data = make_tag TAG_NOP 3 0, cqe_res = 0, cqe_flags = 0\<rparr>] 1 TAG_NOP 0
     zero_result) = 0"
proof -
  let ?c = "\<lparr>cqe_user_data = make_tag TAG_NOP 3 0, cqe_res = 0, cqe_flags = 0\<rparr>"
  have "tag_kind (make_tag TAG_NOP 3 0) = TAG_NOP" "tag_index (make_tag TAG_NOP 3 0) = 0"
    using tag_kind_make_tag [of TAG_NOP 0 3] tag_index_make_tag [of TAG_NOP 0 3] by simp_all
  then have "fills_single 1 TAG_NOP 0 ?c = Some 0"
    by (simp add: fills_single_def single_slot_def Let_def)
  then show ?thesis
    using validate_single_exact [of zero_result 1 "[?c]" TAG_NOP 0] by (simp add: known_kind_def)
qed

text \<open>The cycle number in a tag plays no part in either check: completions of an earlier
  cycle are accepted like those of the current one.\<close>

theorem checks_ignore_cycle:
  "validate_pair_cqes (map (retag cycle) cs) slots wait_result second_result second_kind r =
     validate_pair_cqes cs slots wait_result second_result second_kind r \<and>
   validate_single_cqes (map (retag cycle) cs) slots kind expected r =
     validate_single_cqes cs slots kind expected r"
  by (simp add: validate_retag)

section \<open>Tags and memory\<close>

text \<open>The tags of a point run, over 18 rounds of 512 cycles with the known kinds and 16-bit
  indices, are all different: no 32-bit cycle number wraps and no field spills into another.\<close>

theorem run_tags_distinct:
  assumes "r < 18" "r' < 18" and "c < 512" "c' < 512" and "known_kind kind" "known_kind kind'"
    and "i < 2 ^ 16" "i' < 2 ^ 16"
  shows "make_tag kind (of_nat r * POINT_CYCLES + of_nat c) (of_nat i) =
      make_tag kind' (of_nat r' * POINT_CYCLES + of_nat c') (of_nat i') \<longleftrightarrow>
    r = r' \<and> c = c' \<and> kind = kind' \<and> i = i'"
  using run_tag_inject [OF assms] by (simp add: run_tag_def)

theorem run_tags_distinct_witness:
  "make_tag TAG_WAIT (0 * POINT_CYCLES + 511) 3 \<noteq> make_tag TAG_WAIT (1 * POINT_CYCLES + 0) 3"
  using run_tags_distinct [of 0 1 511 0 TAG_WAIT TAG_WAIT 3 3] by (simp add: known_kind_def)

text \<open>After \<open>fixture_init\<close> every item of every wait vector reads back from memory as the
  address of its own cell, with value 0 and the futex flags, in the layout of
  \<open>struct futex_waitv\<close>.\<close>

theorem wait_vectors_in_memory:
  assumes "fixture_init os cells vectors s = (0, fx, t)" and "g < WAITV_GROUPS" and "i < WAITV_WIDTH"
  shows "load_waitv (umem t) (vector_addr fx g i) =
    \<lparr>fw_val = 0, fw_uaddr = cell_addr fx (g * WAITV_WIDTH + i), fw_flags = word_of_int FUTEX_UAPI_FLAGS,
     fw_reserved = 0\<rparr>"
  using assms by (rule fixture_init_vectors)

theorem wait_vectors_in_memory_witness:
  "\<exists>fx t. fixture_init simple_os 0x1000 0x2000 (simple_machine 6 zero_result) = (0, fx, t) \<and>
     load_waitv (umem t) (vector_addr fx 7 3) =
       \<lparr>fw_val = 0, fw_uaddr = cell_addr fx 59, fw_flags = 130, fw_reserved = 0\<rparr>"
proof -
  let ?s = "simple_machine 6 zero_result"
  obtain rc fx t where f: "fixture_init simple_os 0x1000 0x2000 ?s = (rc, fx, t)"
    by (cases "fixture_init simple_os 0x1000 0x2000 ?s") auto
  have up: "rc' = 0" if "raw_ring_init simple_os u = (rc', ring, v)" for rc' ring v and u :: "unit futex_machine"
    using that
    by (auto simp: raw_ring_init_def ring_bringup_def setup_ring_def map_rings_def map_sqes_def
        mmap_def ask_def open_fd_def simple_os_def zero_params_def Let_def)
  have "rc = 0" using fixture_init_cases [OF f] up by auto
  with f wait_vectors_in_memory [of simple_os "0x1000" "0x2000" ?s fx t 7 3]
  show ?thesis by (auto simp: FUTEX_UAPI_FLAGS_def)
qed

section \<open>The process\<close>

text \<open>Where the kernel answers every probe alike and memory is to be had, the capability gate
  passes exactly when every opcode the profile needs is supported.\<close>

theorem capability_gate_exact:
  assumes "offers os ops"
  shows "fst (capability_gate os ring profile s) = 0 \<longleftrightarrow>
    (\<forall>op \<in> set (required_ops profile). \<exists>p \<in> set ops. probe_opcode_nr p = op \<and> probe_supported p)"
  using capability_gate_offers [OF assms] by (simp add: supported_def)

theorem capability_gate_exact_witness:
  "fst (capability_gate simple_os zero_ring PROFILE_C0_WAIT_CANCEL (simple_machine 6 zero_result)) \<noteq> 0"
proof -
  have "offers simple_os []" by (simp add: offers_def simple_os_def)
  from capability_gate_exact [OF this] show ?thesis by simp
qed

text \<open>C17: Where \<open>mmap\<close> never returns address zero, every return of \<open>main\<close> leaves exactly the mappings
  and descriptors there were at its start.\<close>

theorem futex_main_gives_back:
  assumes "mmap_nonnull os"
  shows "wp (main os cells vectors argv s) (\<lambda>code t. vmas t = vmas s \<and> mset (open_fds t) = mset (open_fds s))"
  using futex_main_restored [OF assms] by (simp add: restored_def)

theorem futex_main_gives_back_witness:
  "wp (main simple_os 0x1000 0x2000
        [''prog'', ''--profile'', ''n0_nop'', ''--mode'', ''smoke'', ''--output'', ''f'', ''--execute'']
        (simple_machine 6 zero_result))
     (\<lambda>code t. vmas t = [] \<and> open_fds t = [])"
  by (rule wp_mono [OF futex_main_gives_back [OF simple_nonnull]]) (simp add: simple_machine_def)

subsection \<open>A whole run\<close>

text \<open>On the answering system every round of waits and wake-ups passes, and so does point mode.\<close>

definition only_words :: "(int, 'r) machine \<Rightarrow> (int, 'r) machine \<Rightarrow> bool" where
  "only_words s t \<longleftrightarrow> sh_rings (sh t) = sh_rings (sh s) \<and> sh_kst (sh t) = sh_kst (sh s) \<and>
     stop_requested t = stop_requested s"

lemma only_words_fold:
  "(\<And>x s. only_words s (f x s)) \<Longrightarrow> only_words s (fold f xs s)"
proof (induction xs arbitrary: s)
  case Nil
  then show ?case by (simp add: only_words_def)
next
  case (Cons x xs)
  from Cons.prems [of s x] Cons.IH [OF Cons.prems, of "f x s"] show ?case by (simp add: only_words_def)
qed

lemma only_words_stores: "only_words s (zero_cells fx n s)" "only_words s (fill_vectors fx s)"
  unfolding zero_cells_def fill_vectors_def
  by (intro only_words_fold, simp add: only_words_def set_cell_def store32_def store_waitv_def store64_def)+

lemma looks_words: "looks k Q C s \<Longrightarrow> only_words s t \<Longrightarrow> looks k Q C t"
  by (erule looks_same) (simp_all add: only_words_def)

lemma answering_requests:
  "posted fd (map (\<lambda>i. wait_sqe (a i) 0 (tag i) zero_sqe) is) d =
     (if d = fd then map (\<lambda>i. answer_cqe (tag i) 0) is else [])"
  "posted fd (map (\<lambda>i. wake_sqe (a i) 1 (tag i) zero_sqe) is) d =
     (if d = fd then map (\<lambda>i. answer_cqe (tag i) 1) is else [])"
  by (auto simp: posted_def answers_def wait_sqe_def wake_sqe_def IORING_OP_NOP_def IORING_OP_FUTEX_WAIT_def
      IORING_OP_FUTEX_WAKE_def filter_concat concat_map_singleton comp_def)

definition futex_going :: "nat \<Rightarrow> int futex_machine \<Rightarrow> bool" where
  "futex_going n s \<longleftrightarrow> looks 8 (\<lambda>fd. []) (\<lambda>fd. []) s \<and> (\<exists>ns. res s = round_counters PROFILE_S0_WAIT_WAKE n ns)"

lemma answering_scalar_cycle:
  assumes l: "looks 8 (\<lambda>fd. []) (\<lambda>fd. []) s" and e: "futex_err (res s) = 0"
  shows "succeeds (run_scalar_pair_cycle answering_os fx PROFILE_S0_WAIT_WAKE cy timed s)
    (looks 8 (\<lambda>fd. []) (\<lambda>fd. []))"
proof -
  let ?fd = "ring_fd (fix_ring fx)" and ?no = "\<lambda>fd :: int. []" and ?ring = "fix_ring fx"
  let ?z = "zero_cells fx SCALAR_SLOTS s"
  let ?qs = "map (\<lambda>i. wait_sqe (cell_addr fx i) 0 (make_tag TAG_WAIT cy (of_nat i)) zero_sqe) [0..<32]"
  let ?rs = "map (\<lambda>i. wake_sqe (cell_addr fx i) 1 (make_tag TAG_WAKE cy (of_nat i)) zero_sqe) [0..<32]"
  let ?ws = "map (\<lambda>i. answer_cqe (make_tag TAG_WAIT cy (of_nat i)) 0) [0..<32]"
  let ?vs = "map (\<lambda>i. answer_cqe (make_tag TAG_WAKE cy (of_nat i)) 1) [0..<32]"
  have z: "looks 8 ?no ?no ?z" using looks_words [OF l only_words_stores(1)] .
  have rz: "res ?z = res s" using zero_cells_same [of s fx SCALAR_SLOTS] by (simp add: same_process_def)
  have w: "posted ?fd ?qs d = (if d = ?fd then ?ws else [])" "posted ?fd ?rs d = (if d = ?fd then ?vs else [])" for d
    by (rule answering_requests)+
  obtain t where t: "queue_waits answering_os fx cy ?z = Some (0, t)" "res t = res s"
      "looks 8 (\<lambda>d. if d = ?fd then ?qs else []) ?no t"
    using answering_queue_loop [OF z, of 32 ?ring "\<lambda>i. wait_sqe (cell_addr fx i) 0 (make_tag TAG_WAIT cy (of_nat i))"] rz
    by (auto simp: queue_waits_def queue_wait_def same_process_def simp del: TAG_WAIT_def)
  obtain u where u: "enter_ring answering_os ?ring 32 0 t = Some (0, u)" "res u = res s"
      "looks 8 ?no (?no(?fd := ?ws)) u"
    using answering_own_enter [OF t(3) _ w(1), of 32 count_timeout ENTER_TIMEOUT_SECONDS 0] t(2)
    by (auto simp: enter_ring_def same_process_def simp del: TAG_WAIT_def)
  obtain v where v: "queue_seconds answering_os fx PROFILE_S0_WAIT_WAKE cy u = Some (0, v)" "res v = res s"
      "looks 8 (\<lambda>d. if d = ?fd then ?rs else []) (?no(?fd := ?ws)) v"
    using answering_queue_loop [OF u(3), of 32 ?ring "\<lambda>i. wake_sqe (cell_addr fx i) 1 (make_tag TAG_WAKE cy (of_nat i))"] u(2)
    by (auto simp: queue_seconds_def queue_wake_def same_process_def simp del: TAG_WAKE_def TAG_WAIT_def)
  obtain x where x: "submit_and_copy answering_os ?ring 32 64 v = Some ((0, ?ws @ ?vs), x)" "res x = res s"
      "looks 8 ?no ?no x"
    using answering_own_submit [OF v(3) _ w(2), of 32 64 count_timeout add_unexpected ENTER_TIMEOUT_SECONDS] v(2)
    by (auto simp: submit_and_copy_def fun_upd_idem simp del: TAG_WAIT_def TAG_WAKE_def)
  let ?x = "if timed then upd_res (\<lambda>r. r\<lparr>timed_ns := timed_ns r + 0\<rparr>) x else x"
  let ?y = "upd_res (count_pair PROFILE_S0_WAIT_WAKE) ?x"
  have ey: "futex_err (res ?y) = 0" using e x(2) by simp
  have cs: "?ws @ ?vs = map (pair_cqe 0 1 TAG_WAKE cy) (pair_slots 32)"
    by (simp add: pair_slots_def pair_cqe_def answer_cqe_def)
  have "map (fills_pair 32 0 1 TAG_WAKE) (?ws @ ?vs) = map Some (pair_slots 32)"
    unfolding cs by (rule pair_cqes_complete) (simp_all add: known_kind_def)
  then have "mset (map (fills_pair 32 0 1 TAG_WAKE) (?ws @ ?vs)) = mset (map Some (pair_slots 32))" by (rule arg_cong)
  then have ok: "fst (validate_pair_cqes (?ws @ ?vs) 32 0 1 TAG_WAKE (res ?y)) = 0"
    using validate_pair_iff [OF ey, of 32 "?ws @ ?vs" TAG_WAKE 0 1] by (simp add: known_kind_def)
  show ?thesis
    using t(1) u(1) v(1) x(1,3) ok
    by (cases timed)
       (simp_all add: run_scalar_pair_cycle_def or_fail_def or_fail_copy_def add_elapsed_def check_res_def
          pair_wait_result_def pair_second_kind_def split_beta Let_def del: TAG_WAIT_def TAG_WAKE_def)
qed


lemma answering_futex_round:
  assumes "looks 8 (\<lambda>fd. []) (\<lambda>fd. []) s"
  shows "succeeds (run_profile_round answering_os fx PROFILE_S0_WAIT_WAKE base n timed s) (looks 8 (\<lambda>fd. []) (\<lambda>fd. []))"
proof -
  let ?body = "\<lambda>c s. or_fail (run_cycle answering_os fx PROFILE_S0_WAIT_WAKE (base + of_nat c) timed s)
      (\<lambda>s. let (stop, s) = read_stop answering_os s in Some (if stop then -1 else 0, s))"
  have "succeeds (for_each ?body [0..<unat n] (upd_res (\<lambda>_. zero_result) s)) (futex_going (unat n))"
  proof (rule succeeds_for_each)
    fix i t assume t: "futex_going i t"
    then have l: "looks 8 (\<lambda>fd. []) (\<lambda>fd. []) t" and e: "futex_err (res t) = 0"
      by (auto simp: futex_going_def)
    obtain ns where ns: "res t = round_counters PROFILE_S0_WAIT_WAKE i ns" using t by (auto simp: futex_going_def)
    have "succeeds (run_cycle answering_os fx PROFILE_S0_WAIT_WAKE (base + of_nat i) timed t)
        (\<lambda>u. looks 8 (\<lambda>fd. []) (\<lambda>fd. []) u \<and> cycle_done PROFILE_S0_WAIT_WAKE t u)"
    proof (rule succeeds_wp)
      show "succeeds (run_cycle answering_os fx PROFILE_S0_WAIT_WAKE (base + of_nat i) timed t) (looks 8 (\<lambda>fd. []) (\<lambda>fd. []))"
        using answering_scalar_cycle [OF l e] by (simp add: run_cycle_def)
      show "wp (run_cycle answering_os fx PROFILE_S0_WAIT_WAKE (base + of_nat i) timed t)
          (\<lambda>rc u. rc = 0 \<longrightarrow> cycle_done PROFILE_S0_WAIT_WAKE t u)"
        by (rule wp_mono [OF run_cycle_outcome [OF e]]) (simp add: outcome_def)
    qed
    then show "succeeds (?body i t) (futex_going (Suc i))"
    proof (rule succeeds_or_fail)
      fix u assume u: "looks 8 (\<lambda>fd. []) (\<lambda>fd. []) u \<and> cycle_done PROFILE_S0_WAIT_WAKE t u"
      then have "\<exists>ns. res u = round_counters PROFILE_S0_WAIT_WAKE (Suc i) ns"
        using cycle_counters_step by (auto simp: cycle_done_def ns)
      with u show "succeeds (let (stop, s) = read_stop answering_os u in Some (if stop then -1 else 0, s)) (futex_going (Suc i))"
        by (simp add: futex_going_def looks_def)
    qed
  next
    show "futex_going 0 (upd_res (\<lambda>_. zero_result) s)"
      using assms by (auto simp: futex_going_def round_counters_def zero_result_def Let_def)
  qed simp
  then show ?thesis
    unfolding run_profile_round_def
  proof (rule succeeds_or_fail)
    fix t assume t: "futex_going (unat n) t"
    then have l: "looks 8 (\<lambda>fd. []) (\<lambda>fd. []) t" by (simp add: futex_going_def)
    show "succeeds (conclude_with (\<lambda>ok r. r\<lparr>semantic_pass := ok\<rparr>) round_pass
        (read_ring_counters answering_os (fix_ring fx) t)) (looks 8 (\<lambda>fd. []) (\<lambda>fd. []))"
      using t l answering_counters [OF l]
      by (auto simp: read_ring_counters_def conclude_with_def futex_going_def round_pass_def round_counters_def
          zero_result_def Let_def)
  qed
qed

lemma answering_futex_fixture:
  assumes "looks 8 (\<lambda>fd. []) (\<lambda>fd. []) s" and "sh_kst (sh s) = 3"
  shows "\<exists>fx t. fixture_init answering_os cells vectors s = (0, fx, t) \<and> looks 8 (\<lambda>fd. []) (\<lambda>fd. []) t"
proof -
  let ?fx = "\<lparr>fix_ring = zero_ring, fix_cells = cells, fix_vectors = vectors\<rparr>"
  let ?s = "zero_cells ?fx (WAITV_GROUPS * WAITV_WIDTH) s"
  note ws = only_words_stores(1) [of s ?fx "WAITV_GROUPS * WAITV_WIDTH"]
  obtain ring t where r: "raw_ring_init answering_os ?s = (0, ring, t)"
      "sh t = (sh ?s)\<lparr>sh_kst := sh_kst (sh ?s) + 1\<rparr>" "stop_requested t = stop_requested ?s"
    using answering_bringup [of ?s RING_ENTRIES
        "zero_params\<lparr>p_flags := IORING_SETUP_CQSIZE, p_cq_entries := RING_ENTRIES * 2\<rparr>"] assms(2) ws
    by (auto simp: raw_ring_init_def only_words_def)
  have "looks 8 (\<lambda>fd. []) (\<lambda>fd. []) t"
    by (rule looks_same [OF looks_words [OF assms(1) ws]]) (simp_all add: r)
  then show ?thesis
    using r(1) looks_words [OF _ only_words_stores(2)] by (simp add: fixture_init_def Let_def)
qed

lemma answering_gate:
  "capability_gate answering_os ring PROFILE_S0_WAIT_WAKE s = (0, s)"
proof -
  let ?ops = "map (\<lambda>k. \<lparr>probe_opcode_nr = of_nat k, probe_supported = True\<rparr>) [0..<64]"
  have "supported ?ops IORING_OP_FUTEX_WAIT" "supported ?ops IORING_OP_FUTEX_WAKE"
    by (auto simp: supported_def IORING_OP_FUTEX_WAIT_def IORING_OP_FUTEX_WAKE_def intro: bexI [of _ 51] bexI [of _ 52])
  then show ?thesis
    by (simp add: capability_gate_def probe_opcode_def ask_def answering_os_def supported_def list_ex_iff)
qed

lemma answering_futex_point:
  assumes "opt_profile opt = PROFILE_S0_WAIT_WAKE" and "opt_mode opt = MODE_POINT"
  shows "succeeds (run_execute answering_os cells vectors opt path (answering_machine 8 zero_result)) (\<lambda>t. True)"
proof -
  let ?rest = "looks 8 (\<lambda>fd. []) (\<lambda>fd. [])"
  have print: "?rest (print_line line t)" if "?rest t" for line and t :: "int futex_machine"
    by (rule looks_same [OF that]) (simp_all add: print_line_def)
  have fixture: "succeeds (run_fixture answering_os work opt fx t) ?rest" if "?rest t" for work fx t
    unfolding run_fixture_def warmup_rounds_def measured_rounds_def assms(1) answering_gate
    using assms that print
    by (auto simp: or_fail_def [of "Some _"] intro!: succeeds_point answering_futex_round)
  have "succeeds (run_output answering_os cells vectors opt work
      (print_line result_header (answering_machine 8 zero_result))) (\<lambda>t. True)" for work
  proof -
    let ?s = "print_line result_header (answering_machine 8 zero_result)"
    have "?rest ?s" using looks_start [of 8 zero_result] by (intro print) simp
    moreover have "sh_kst (sh ?s) = 3" by (simp add: print_line_def answering_machine_def)
    ultimately obtain fx t where t: "fixture_init answering_os cells vectors ?s = (0, fx, t)" "?rest t"
      using answering_futex_fixture by blast
    then show ?thesis
      using fixture [OF t(2), of work fx] assms by (auto simp: run_output_def succeeds_def)
  qed
  then show ?thesis
    unfolding run_execute_def CONTRACT_CPU_def by (intro succeeds_execute)
qed

text \<open>C12: When \<open>main\<close> returns 0 in point mode, three warm-up and fifteen measured rounds of 512
  cycles have passed, the result of each is the determined one, and the header and then one
  row for each measured round, in order, have been printed. On the answering system such a
  run exists: all 18 rounds of 512 waits and wake-ups of 32 slots pass.\<close>

theorem futex_point_mode_complete:
  assumes "parse_options (tl argv) = Some opt" and "opt_mode opt = MODE_POINT"
  shows "wp (main os cells vectors argv s) (\<lambda>code t. code = 0 \<longrightarrow> (\<exists>work rs.
    rounds_passed (point_result (opt_profile opt)) (\<lambda>i. futex_round (opt_profile opt) 512) 18 rs s t \<and>
    out_lines t = out_lines s @ result_header #
      map (\<lambda>i. result_row os work opt PHASE_MEASURED (of_nat i) (rs ! (3 + i))) [0..<15]))"
proof -
  have "wp (main os cells vectors argv s) (\<lambda>code t. code = 0 \<longrightarrow>
      (\<exists>work. run_done os work opt (print_line result_header s) t))"
    using futex_execute_point [OF assms(2) futex_parse_options_ok [OF assms(1)]] assms by (simp add: main_def)
  then show ?thesis
    by (rule wp_mono) (auto simp: run_done_def point_done_def print_line_def rounds_passed_def reaps_def)
qed

theorem futex_point_mode_complete_witness:
  "\<exists>t rs. main answering_os 0x1000 0x2000
       [''prog'', ''--profile'', ''s0_wait_wake'', ''--mode'', ''point'', ''--output'', ''f'', ''--execute'']
       (answering_machine 8 zero_result) = Some (0, t) \<and> length (out_lines t) = 16 \<and>
     rounds_passed (point_result PROFILE_S0_WAIT_WAKE) (\<lambda>i. futex_round PROFILE_S0_WAIT_WAKE 512)
       18 rs (answering_machine 8 zero_result) t"
proof -
  let ?opt = "\<lparr>opt_profile = PROFILE_S0_WAIT_WAKE, opt_mode = MODE_POINT, opt_output_path = Some ''f'', opt_execute = True\<rparr>"
  let ?argv = "[''prog'', ''--profile'', ''s0_wait_wake'', ''--mode'', ''point'', ''--output'', ''f'', ''--execute'']"
  have p: "parse_options (tl ?argv) = Some ?opt"
    by (simp add: parse_options_def parse_profile_def parse_mode_def zero_options_def options_ok_def)
  obtain t where t: "main answering_os 0x1000 0x2000 ?argv (answering_machine 8 zero_result) = Some (0, t)"
    using answering_futex_point [of ?opt "0x1000" "0x2000" "''f''"] p by (auto simp: main_def succeeds_def)
  with futex_point_mode_complete [OF p, of answering_os "0x1000" "0x2000" "answering_machine 8 zero_result"]
  show ?thesis by (auto simp: answering_machine_def)
qed

text \<open>Where system calls are interrupted only finitely often and the clock can be read,
  \<open>main\<close> comes back for every command line, with exit code 0, 1 or 2.\<close>

theorem futex_main_comes_back:
  assumes "responsive os bound"
  shows "\<exists>code t. main os cells vectors argv s = Some (code, t) \<and> code \<in> {0, 1, 2}"
proof -
  obtain code t where r: "main os cells vectors argv s = Some (code, t)"
    using futex_main_returns [OF assms, of cells vectors argv s] by (auto simp: returns_def)
  have "wp (main os cells vectors argv s) (\<lambda>code t. code \<in> {0, 1, 2})"
    by (simp add: futex_main_exit_code)
  with r show ?thesis by auto
qed

theorem futex_main_comes_back_witness:
  "\<exists>code t. main simple_os 0x1000 0x2000
      [''prog'', ''--profile'', ''l0_lifecycle'', ''--mode'', ''smoke'', ''--output'', ''f'', ''--execute'']
      (simple_machine 6 zero_result) = Some (code, t) \<and> code \<in> {0, 1, 2}"
proof -
  have "responsive simple_os (\<lambda>x. 0)"
    using simple_eintr by (simp add: responsive_def clock_ok_def simple_os_def)
  then show ?thesis by (rule futex_main_comes_back)
qed

end
