(* ===== verification/Msg_Base.thy ===== *)
theory Msg_Base
  imports Exactly_Once Round_Program
begin

text \<open>
  io_uring_msg_ring_round.c: its constants, enumerations and structures, the tagged
  sequence numbers in \<open>user_data\<close>, the request builders, the creation of its rings, the
  batches written before they are published, and \<open>bounded_enter\<close>.
\<close>

section \<open>Constants\<close>

definition SCHEMA_VERSION :: nat where "SCHEMA_VERSION = 1"
definition CONTRACT_CPU :: u32 where "CONTRACT_CPU = 2"
definition RING_ENTRIES :: u32 where "RING_ENTRIES = 256"
definition QD :: nat where "QD = 64"
definition DATA_OPS_PER_ROUND :: u32 where "DATA_OPS_PER_ROUND = 262144"
definition FD_OPS_PER_ROUND :: u32 where "FD_OPS_PER_ROUND = 4096"
definition DATA_SMOKE_OPS :: u32 where "DATA_SMOKE_OPS = 1024"
definition FD_SMOKE_OPS :: u32 where "FD_SMOKE_OPS = 256"
definition DATA_TRACE_OPS :: u32 where "DATA_TRACE_OPS = 512"
definition FD_TRACE_OPS :: u32 where "FD_TRACE_OPS = 128"
definition WARMUP_ROUNDS :: nat where "WARMUP_ROUNDS = 3"
definition MEASURED_ROUNDS :: nat where "MEASURED_ROUNDS = 15"
definition SENTINEL_BYTES :: nat where "SENTINEL_BYTES = 4096"
definition ENTER_TIMEOUT_SECONDS :: int where "ENTER_TIMEOUT_SECONDS = 5"
definition USER_DATA_SEQ_MASK :: u64 where "USER_DATA_SEQ_MASK = push_bit 48 1 - 1"
definition USER_DATA_TAG_MASK :: u64 where "USER_DATA_TAG_MASK = NOT USER_DATA_SEQ_MASK"
definition SOURCE_TAG :: u64 where "SOURCE_TAG = 0x5301000000000000"
definition TARGET_TAG :: u64 where "TARGET_TAG = 0x5401000000000000"
definition VERIFY_TAG :: u64 where "VERIFY_TAG = 0x5601000000000000"

text \<open>Values of the UAPI headers only this program uses.\<close>

definition IORING_MSG_DATA :: u64 where "IORING_MSG_DATA = 0"
definition IORING_MSG_SEND_FD :: u64 where "IORING_MSG_SEND_FD = 1"
definition IORING_FILE_INDEX_ALLOC :: u32 where "IORING_FILE_INDEX_ALLOC = 0xffffffff"
definition IOSQE_FIXED_FILE :: u8 where "IOSQE_FIXED_FILE = 1"

section \<open>Types\<close>

datatype profile_id =
    PROFILE_UNSET
  | PROFILE_D0
  | PROFILE_R0
  | PROFILE_F0

datatype mode_id =
    MODE_UNSET
  | MODE_DESCRIBE
  | MODE_SMOKE
  | MODE_TRACE
  | MODE_POINT

datatype phase_id =
    PHASE_SMOKE
  | PHASE_TRACE
  | PHASE_WARMUP
  | PHASE_MEASURED

record options =
  opt_profile :: profile_id
  opt_mode :: mode_id
  opt_output_path :: "string option"
  opt_execute :: bool

text \<open>The counter called \<open>sqes\<close> in the source is \<open>sqes_total\<close> here.\<close>

record result =
  logical_ops :: u64
  sqes_total :: u64
  source_cqes :: u64
  target_cqes :: u64
  source_enters :: u64
  target_enters :: u64
  verify_enters :: u64
  verify_reads :: u64
  slots_installed :: u64
  slots_verified :: u64
  successful_ops :: u64
  elapsed_ns :: u64
  bad_results :: u64
  bad_flags :: u64
  bad_user_data :: u64
  duplicate_events :: u64
  missing_events :: u64
  pair_mismatches :: u64
  sentinel_mismatches :: u64
  timeouts :: u64
  cleanup_failures :: u64
  source_dropped :: u64
  source_overflow :: u64
  target_dropped :: u64
  target_overflow :: u64
  source_outstanding :: u64
  target_outstanding :: u64
  semantic_pass :: bool

definition zero_result :: result where
  "zero_result = \<lparr>logical_ops = 0, sqes_total = 0, source_cqes = 0, target_cqes = 0,
     source_enters = 0, target_enters = 0, verify_enters = 0, verify_reads = 0,
     slots_installed = 0, slots_verified = 0, successful_ops = 0, elapsed_ns = 0,
     bad_results = 0, bad_flags = 0, bad_user_data = 0, duplicate_events = 0,
     missing_events = 0, pair_mismatches = 0, sentinel_mismatches = 0, timeouts = 0,
     cleanup_failures = 0, source_dropped = 0, source_overflow = 0, target_dropped = 0,
     target_overflow = 0, source_outstanding = 0, target_outstanding = 0,
     semantic_pass = False\<rparr>"

text \<open>\<open>struct workload\<close>; the two texts at its end are those of \<^typ>\<open>workload\<close>.\<close>

record msg_workload = workload +
  w_source :: raw_ring
  w_target :: raw_ring
  w_target_initialized :: bool
  w_memfd :: int
  w_source_files_registered :: bool
  w_sentinel :: "u8 list"

text \<open>The arrays of \<open>struct batch_map\<close> are indexed below \<open>QD\<close>.\<close>

record batch_map =
  source_seen :: "nat \<Rightarrow> bool"
  target_seen :: "nat \<Rightarrow> bool"
  source_ok :: "nat \<Rightarrow> bool"
  target_ok :: "nat \<Rightarrow> bool"
  source_res :: "nat \<Rightarrow> s32"
  target_res :: "nat \<Rightarrow> s32"

definition zero_map :: batch_map where
  "zero_map = \<lparr>source_seen = (\<lambda>_. False), target_seen = (\<lambda>_. False), source_ok = (\<lambda>_. False),
     target_ok = (\<lambda>_. False), source_res = (\<lambda>_. 0), target_res = (\<lambda>_. 0)\<rparr>"

type_synonym 'k msg_machine = "('k, result) machine"

section \<open>Tagged sequence numbers\<close>

definition tagged_user_data :: "u64 \<Rightarrow> u64 \<Rightarrow> u64" where
  "tagged_user_data tag sequence = tag OR (sequence AND USER_DATA_SEQ_MASK)"

text \<open>The index, or nothing for a return of -1.\<close>

definition decode_sequence :: "u64 \<Rightarrow> u64 \<Rightarrow> u64 \<Rightarrow> u32 \<Rightarrow> nat option" where
  "decode_sequence user_data tag base cnt =
     (let sequence = user_data AND USER_DATA_SEQ_MASK
      in if user_data AND USER_DATA_TAG_MASK \<noteq> tag then None
         else if sequence < base \<or> sequence \<ge> base + ucast cnt then None
         else Some (unat (ucast (sequence - base) :: u32)))"

lemma msg_seq_mask: "USER_DATA_SEQ_MASK = mask 48"
  by (simp add: USER_DATA_SEQ_MASK_def mask_eq_exp_minus_1)

lemma msg_tag_mask: "USER_DATA_TAG_MASK = NOT (mask 48)"
  by (simp add: USER_DATA_TAG_MASK_def msg_seq_mask)

text \<open>A tag leaves the 48 bits of the sequence number free.\<close>

definition tag_word :: "u64 \<Rightarrow> bool" where
  "tag_word tag \<longleftrightarrow> tag AND USER_DATA_SEQ_MASK = 0"

lemma msg_tags [simp]: "tag_word SOURCE_TAG" "tag_word TARGET_TAG" "tag_word VERIFY_TAG"
  by (simp_all add: tag_word_def USER_DATA_SEQ_MASK_def SOURCE_TAG_def TARGET_TAG_def VERIFY_TAG_def)

lemma msg_mask_small:
  assumes "unat (x :: u64) < 2 ^ 48"
  shows "x AND mask 48 = x"
proof -
  have "unat (take_bit 48 x) = unat x"
    using assms by (simp only: unsigned_take_bit_eq take_bit_nat_eq_self)
  then show ?thesis by (simp add: word_unat_eq_iff take_bit_eq_mask)
qed

lemma msg_tag_parts:
  assumes "tag_word tag"
  shows "tagged_user_data tag seq AND mask 48 = seq AND mask 48"
    and "tagged_user_data tag seq AND NOT (mask 48) = tag"
proof -
  have low: "\<not> bit tag n" if "n < 48" for n
  proof
    assume "bit tag n"
    with that have "bit (tag AND mask 48) n" by (simp add: bit_simps)
    with assms show False by (simp add: tag_word_def msg_seq_mask)
  qed
  show "tagged_user_data tag seq AND mask 48 = seq AND mask 48"
    by (rule bit_word_eqI) (use low in \<open>auto simp: tagged_user_data_def msg_seq_mask bit_simps\<close>)
  show "tagged_user_data tag seq AND NOT (mask 48) = tag"
  proof (rule bit_word_eqI)
    fix n assume "n < LENGTH(64)"
    with low [of n] show "bit (tagged_user_data tag seq AND NOT (mask 48)) n \<longleftrightarrow> bit tag n"
      by (cases "n < 48") (auto simp: tagged_user_data_def msg_seq_mask bit_simps)
  qed
qed

lemma msg_user_data_split: "ud AND NOT (mask 48) = tag \<Longrightarrow> tagged_user_data tag (ud AND mask 48) = (ud :: u64)"
  by (rule bit_word_eqI) (auto simp: tagged_user_data_def msg_seq_mask bit_simps)

text \<open>
  The decoder inverts the encoder on the sequence numbers of a batch, and accepts nothing
  else, as long as the batch ends below \<open>2 ^ 48\<close>.
\<close>

lemma msg_decode_iff:
  assumes tag: "tag_word tag" and small: "unat base + unat cnt \<le> 2 ^ 48"
  shows "decode_sequence ud tag base cnt = Some j \<longleftrightarrow>
    j < unat cnt \<and> ud = tagged_user_data tag (base + of_nat j)"
proof -
  let ?q = "ud AND mask 48 :: u64"
  have c32: "unat cnt < 2 ^ 32" by (rule unat_lt32)
  have sum: "unat (base + ucast cnt) = unat base + unat cnt"
    using small by (simp add: unat_word_ariths)
  have range: "\<not> (?q < base \<or> ?q \<ge> base + ucast cnt) \<longleftrightarrow> unat base \<le> unat ?q \<and> unat ?q < unat base + unat cnt"
    by (simp add: word_le_nat_alt word_less_nat_alt sum) linarith
  have index: "unat (ucast (?q - base) :: u32) = unat ?q - unat base"
    if "unat base \<le> unat ?q" "unat ?q < unat base + unat cnt"
  proof -
    have "unat (?q - base) = unat ?q - unat base" using that by (simp add: unat_sub word_le_nat_alt)
    moreover have "unat ?q - unat base < 2 ^ 32" using that c32 by linarith
    ultimately show ?thesis by (simp add: unsigned_ucast_eq take_bit_nat_eq_self)
  qed
  show ?thesis
  proof
    assume d: "decode_sequence ud tag base cnt = Some j"
    then have t: "ud AND NOT (mask 48) = tag" and r: "\<not> (?q < base \<or> ?q \<ge> base + ucast cnt)"
      and j: "j = unat (ucast (?q - base) :: u32)"
      by (auto simp: decode_sequence_def msg_tag_mask msg_seq_mask Let_def split: if_splits)
    from r range have b: "unat base \<le> unat ?q" "unat ?q < unat base + unat cnt" by simp_all
    with j index have j': "j = unat ?q - unat base" by simp
    then have "base + of_nat j = ?q"
      using b by (simp add: of_nat_diff)
    with msg_user_data_split [OF t] j' b show "j < unat cnt \<and> ud = tagged_user_data tag (base + of_nat j)"
      by auto
  next
    assume a: "j < unat cnt \<and> ud = tagged_user_data tag (base + of_nat j)"
    have n: "unat (base + of_nat j) = unat base + j"
    proof -
      have "unat base + j < 2 ^ 64" using conjunct1 [OF a] small by simp
      moreover have "unat (of_nat j :: u64) = j" using a c32 by (simp add: unat_of_nat)
      ultimately show ?thesis by (simp add: unat_word_ariths)
    qed
    have "?q = base + of_nat j"
      using a n small msg_tag_parts(1) [OF tag, of "base + of_nat j"] msg_mask_small [of "base + of_nat j"] by simp
    moreover have "ud AND NOT (mask 48) = tag" using a msg_tag_parts(2) [OF tag] by simp
    ultimately show "decode_sequence ud tag base cnt = Some j"
      using a n range index
      by (auto simp: decode_sequence_def msg_tag_mask msg_seq_mask Let_def)
  qed
qed

section \<open>Requests\<close>

definition data_sqe :: "int \<Rightarrow> u64 \<Rightarrow> sqe \<Rightarrow> sqe" where
  "data_sqe target_fd sequence q =
     q\<lparr>sqe_opcode := IORING_OP_MSG_RING, sqe_fd := target_fd, sqe_addr := IORING_MSG_DATA,
       sqe_off := tagged_user_data TARGET_TAG sequence, sqe_len := 1 + ucast (sequence mod 1000000),
       sqe_user_data := tagged_user_data SOURCE_TAG sequence\<rparr>"

definition send_fd_sqe :: "int \<Rightarrow> u64 \<Rightarrow> sqe \<Rightarrow> sqe" where
  "send_fd_sqe target_fd sequence q =
     q\<lparr>sqe_opcode := IORING_OP_MSG_RING, sqe_fd := target_fd, sqe_addr := IORING_MSG_SEND_FD,
       sqe_off := tagged_user_data TARGET_TAG sequence, sqe_addr3 := 0,
       sqe_file_index := IORING_FILE_INDEX_ALLOC,
       sqe_user_data := tagged_user_data SOURCE_TAG sequence\<rparr>"

definition read_sqe :: "u32 \<Rightarrow> u64 \<Rightarrow> sqe \<Rightarrow> sqe" where
  "read_sqe slot buffer q =
     q\<lparr>sqe_opcode := IORING_OP_READ, sqe_flags := IOSQE_FIXED_FILE, sqe_fd := sint slot,
       sqe_off := ucast (slot mod of_nat SENTINEL_BYTES), sqe_addr := buffer, sqe_len := 1,
       sqe_user_data := tagged_user_data VERIFY_TAG (ucast slot)\<rparr>"

section \<open>Rings\<close>

definition raw_ring_init :: "'k os \<Rightarrow> u32 \<Rightarrow> 'k msg_machine \<Rightarrow> int \<times> raw_ring \<times> 'k msg_machine" where
  "raw_ring_init os setup_flags s =
     (let (rc, ring, s1) = ring_bringup os RING_ENTRIES (zero_params\<lparr>p_flags := setup_flags\<rparr>) s;
          m = ring_at s1 (ring_fd ring)
      in if rc \<noteq> 0 then (rc, ring, s1)
         else if sq_entries m < of_nat QD \<or> cq_entries m < of_nat QD then ring_fail os ring s1
         else (0, ring, s1))"

lemma msg_ring_init_owns:
  assumes nn: "mmap_nonnull os" and run: "raw_ring_init os fl s = (rc, ring, t)"
  shows "rc = 0 \<and> 0 \<le> ring_fd ring \<and> vmas t = owned ring @ vmas s \<and> open_fds t = ring_fd ring # open_fds s
       \<or> rc = -1 \<and> vmas t = vmas s \<and> open_fds t = open_fds s"
proof -
  obtain rc1 ring1 s1 where b: "ring_bringup os RING_ENTRIES (zero_params\<lparr>p_flags := fl\<rparr>) s = (rc1, ring1, s1)"
    by (cases "ring_bringup os RING_ENTRIES (zero_params\<lparr>p_flags := fl\<rparr>) s") auto
  from ring_bringup_owns [OF nn b] show ?thesis
  proof
    assume up: "rc1 = 0 \<and> 0 \<le> ring_fd ring1 \<and> vmas s1 = owned ring1 @ vmas s \<and>
      open_fds s1 = ring_fd ring1 # open_fds s"
    then show ?thesis
      using run b ring_fail_restores [of s1 ring1 "vmas s" "open_fds s" os rc ring t]
      by (auto simp: raw_ring_init_def Let_def split: if_splits)
  qed (use run b in \<open>auto simp: raw_ring_init_def Let_def\<close>)
qed

lemma msg_ring_init_data:
  assumes "raw_ring_init os fl s = (rc, ring, t)"
  shows "same_data s t"
  using assms
  by (auto simp: raw_ring_init_def Let_def split: prod.splits if_splits
      dest!: ring_bringup_data ring_fail_data intro: same_data_trans)

section \<open>Batches written before they are published\<close>

text \<open>\<open>reserve_batch\<close>: the tail, or nothing for a return of -1.\<close>

definition reserve_batch :: "'k os \<Rightarrow> raw_ring \<Rightarrow> u32 \<Rightarrow> 'k msg_machine \<Rightarrow> u32 option \<times> 'k msg_machine" where
  "reserve_batch os ring cnt s =
     (let (head, s1) = load_acquire os ring sq_head s;
          (tail, s2) = load_acquire os ring sq_tail s1
      in if tail - head + cnt > sq_entries (ring_at s2 (ring_fd ring)) then (None, s2)
         else (Some tail, s2))"

definition publish_batch :: "raw_ring \<Rightarrow> u32 \<Rightarrow> 'k msg_machine \<Rightarrow> 'k msg_machine" where
  "publish_batch ring tail = store_release ring sq_tail_update tail"

text \<open>
  The body of the three loops that write a batch: the entry at \<open>tail & *ring->sq_mask\<close> is
  zeroed and assigned, then \<open>ring->sq_array[index] = index; tail++\<close>.
\<close>

definition put_entry :: "raw_ring \<Rightarrow> (sqe \<Rightarrow> sqe) \<Rightarrow> u32 \<times> 'k msg_machine \<Rightarrow> u32 \<times> 'k msg_machine" where
  "put_entry ring assign ts =
     (let (tail, s) = ts; index = tail AND sq_mask (ring_at s (ring_fd ring))
      in (tail + 1, upd_ring (ring_fd ring)
            (\<lambda>m. m\<lparr>sqes := (sqes m)(index := assign zero_sqe), sq_array := (sq_array m)(index := index)\<rparr>) s))"

definition prepare_with :: "'k os \<Rightarrow> raw_ring \<Rightarrow> (nat \<Rightarrow> sqe \<Rightarrow> sqe) \<Rightarrow> u32 \<Rightarrow> 'k msg_machine
    \<Rightarrow> int \<times> 'k msg_machine" where
  "prepare_with os ring assign cnt s =
     (case reserve_batch os ring cnt s of
        (None, s1) \<Rightarrow> (-1, s1)
      | (Some tail, s1) \<Rightarrow>
          (let (tail1, s2) = fold (\<lambda>i. put_entry ring (assign i)) [0..<unat cnt] (tail, s1)
           in (0, publish_batch ring tail1 s2)))"

definition prepare_data_batch :: "'k os \<Rightarrow> msg_workload \<Rightarrow> u64 \<Rightarrow> u32 \<Rightarrow> 'k msg_machine
    \<Rightarrow> int \<times> 'k msg_machine" where
  "prepare_data_batch os work base =
     prepare_with os (w_source work) (\<lambda>i. data_sqe (ring_fd (w_target work)) (base + of_nat i))"

definition prepare_send_fd_batch :: "'k os \<Rightarrow> msg_workload \<Rightarrow> raw_ring \<Rightarrow> u64 \<Rightarrow> u32 \<Rightarrow> 'k msg_machine
    \<Rightarrow> int \<times> 'k msg_machine" where
  "prepare_send_fd_batch os work target base =
     prepare_with os (w_source work) (\<lambda>i. send_fd_sqe (ring_fd target) (base + of_nat i))"

text \<open>The first loop of \<open>verify_fixed_files\<close>, with the array \<open>buffers\<close> at its address.\<close>

definition prepare_read_batch :: "'k os \<Rightarrow> raw_ring \<Rightarrow> u64 \<Rightarrow> u64 \<Rightarrow> u32 \<Rightarrow> 'k msg_machine
    \<Rightarrow> int \<times> 'k msg_machine" where
  "prepare_read_batch os target buffers base =
     prepare_with os target (\<lambda>i. read_sqe (ucast base + of_nat i) (buffers + of_nat i))"

text \<open>On the ring memory alone: the entries written from \<open>tail\<close> on, and the new tail.\<close>

fun write_entries :: "sqe list \<Rightarrow> u32 \<Rightarrow> ring_mem \<Rightarrow> u32 \<times> ring_mem" where
  "write_entries [] tail m = (tail, m)"
| "write_entries (q # qs) tail m =
     write_entries qs (tail + 1)
       (m\<lparr>sqes := (sqes m)(tail AND sq_mask m := q),
          sq_array := (sq_array m)(tail AND sq_mask m := tail AND sq_mask m)\<rparr>)"

lemma msg_put_entry_same: "same_process s (snd (put_entry ring f (tail, s)))"
  by (simp add: put_entry_def Let_def)

lemma msg_put_entries:
  "fold (\<lambda>i. put_entry ring (f i)) is (tail, s) = (tail', t) \<Longrightarrow> same_process s t \<and>
     write_entries (map (\<lambda>i. f i zero_sqe) is) tail (ring_at s (ring_fd ring)) = (tail', ring_at t (ring_fd ring))"
proof (induction "is" arbitrary: tail s)
  case Nil
  then show ?case by simp
next
  case (Cons i "is")
  obtain t1 where p: "put_entry ring (f i) (tail, s) = (tail + 1, t1)"
    by (simp add: put_entry_def Let_def)
  have "same_process s t1" using msg_put_entry_same [of s ring "f i" tail] p by simp
  moreover have "ring_at t1 (ring_fd ring) = (let m = ring_at s (ring_fd ring); index = tail AND sq_mask m
      in m\<lparr>sqes := (sqes m)(index := f i zero_sqe), sq_array := (sq_array m)(index := index)\<rparr>)"
    using p by (auto simp: put_entry_def Let_def)
  ultimately show ?case
    using Cons.IH [of "tail + 1" t1] Cons.prems p by (auto simp: Let_def intro: same_process_trans)
qed

lemma msg_prepare_same: "same_process s (snd (prepare_with os ring f cnt s))"
proof -
  obtain r s1 where r: "reserve_batch os ring cnt s = (r, s1)" by (cases "reserve_batch os ring cnt s")
  have s1: "same_process s s1"
    using r by (auto simp: reserve_batch_def same_process_def split_beta Let_def split: if_splits)
  show ?thesis
  proof (cases r)
    case (Some tail)
    obtain tail1 s2 where f: "fold (\<lambda>i. put_entry ring (f i)) [0..<unat cnt] (tail, s1) = (tail1, s2)"
      by (cases "fold (\<lambda>i. put_entry ring (f i)) [0..<unat cnt] (tail, s1)")
    have "same_process s s2" using same_process_trans [OF s1] msg_put_entries [OF f] by blast
    then show ?thesis
      using same_process_trans [of s s2] by (simp add: prepare_with_def r Some f publish_batch_def)
  qed (use s1 in \<open>simp add: prepare_with_def r\<close>)
qed

lemma msg_prepare_outcome: "wp (Some (prepare_with os ring f cnt s)) (outcome (same_process s) s)"
  using msg_prepare_same [of s os ring f cnt]
  by (cases "prepare_with os ring f cnt s") (simp add: outcome_def same_process_resources)

lemma msg_tail_last:
  "m\<lparr>sq_tail := x, sqes := a, sq_array := b\<rparr> = m\<lparr>sqes := a, sq_array := b, sq_tail := x\<rparr>"
  by simp

lemma msg_write_tail:
  "write_entries qs t (m\<lparr>sq_tail := x\<rparr>) = (fst (write_entries qs t m), (snd (write_entries qs t m))\<lparr>sq_tail := x\<rparr>)"
  by (induction qs arbitrary: t m) (simp_all add: msg_tail_last)

text \<open>Writing a batch and publishing it is to enqueue its entries one by one.\<close>

lemma msg_batch_enqueues:
  assumes "sq_wf m" and "sq_count m + length qs \<le> sq_capacity m"
  shows "sq.enq_list qs m =
    Some ((snd (write_entries qs (sq_tail m) m))\<lparr>sq_tail := fst (write_entries qs (sq_tail m) m)\<rparr>)"
  using assms
proof (induction qs arbitrary: m)
  case Nil
  then show ?case by simp
next
  case (Cons q qs)
  let ?i = "sq_tail m AND sq_mask m"
  let ?m1 = "m\<lparr>sqes := (sqes m)(?i := q), sq_array := (sq_array m)(?i := ?i)\<rparr>"
  let ?m' = "?m1\<lparr>sq_tail := sq_tail m + 1\<rparr>"
  have room: "sq_count m < sq_capacity m" using Cons.prems by simp
  obtain m2 where m2: "sq_enqueue q m = Some m2" "sq_count m2 = Suc (sq_count m)"
      "sq_capacity m2 = sq_capacity m" "sq_wf m2"
    using sq_enqueue_room [OF Cons.prems(1) room] by blast
  moreover have "sq_enqueue q m = Some ?m'"
    using room by (simp add: sq_enqueue_def sq_count_def sq_capacity_def word_le_nat_alt Let_def)
  ultimately have eq: "m2 = ?m'" by simp
  have "sq.enq_list qs ?m' =
      Some ((snd (write_entries qs (sq_tail ?m') ?m'))\<lparr>sq_tail := fst (write_entries qs (sq_tail ?m') ?m')\<rparr>)"
    using Cons.prems m2 by (intro Cons.IH) (simp_all add: eq)
  then show ?case using m2(1) by (simp add: eq msg_write_tail [where m = ?m1])
qed

text \<open>A batch that fits is queued in order; one that does not is refused and leaves the queue.\<close>

lemma msg_reserve:
  assumes priv: "sq_private os (ring_fd ring)"
  shows "\<exists>m r t. reserve_batch os ring cnt s = (r, t) \<and> same_process s t \<and>
    same_sq (ring_at s (ring_fd ring)) m \<and> ring_at t (ring_fd ring) = m \<and>
    r = (if sq_tail m - sq_head m + cnt > sq_entries m then None else Some (sq_tail m))"
proof -
  let ?a = "async os s" and ?b = "async os (async os s)"
  have a: "same_sq (ring_at s (ring_fd ring)) (ring_at ?a (ring_fd ring))"
    and b: "same_sq (ring_at ?a (ring_fd ring)) (ring_at ?b (ring_fd ring))"
    by (simp_all add: async_same_sq [OF priv])
  have "sq_head (ring_at ?a (ring_fd ring)) = sq_head (ring_at ?b (ring_fd ring))"
    using b by (simp add: same_sq_def)
  moreover have "same_process s ?b" by (blast intro: same_process_trans same_process_ops)
  ultimately show ?thesis
    using same_sq_trans [OF a b]
    by (intro exI [of _ "ring_at ?b (ring_fd ring)"])
       (simp add: reserve_batch_def load_acquire_def Let_def)
qed

lemma msg_reserve_room:
  assumes "sq_wf m" and "unat cnt < 2 ^ 31"
  shows "sq_tail m - sq_head m + cnt > sq_entries m \<longleftrightarrow> sq_capacity m < sq_count m + unat cnt"
proof -
  obtain k where "k < 32" "sq_entries m = 2 ^ k" using assms(1) by (auto simp: sq_wf_def)
  then have "sq_capacity m = 2 ^ k"
    using unat_of_nat [where 'a = 32, of "2 ^ k"] power_strict_increasing [of k 32 "2 :: nat"]
    by (simp add: sq_capacity_def)
  moreover have "(2 :: nat) ^ k \<le> 2 ^ 31" using \<open>k < 32\<close> by (intro power_increasing) auto
  moreover have "sq_count m \<le> sq_capacity m" using assms(1) by (simp add: sq_wf_def)
  ultimately have "sq_count m \<le> 2 ^ 31" by simp
  from add_le_less_mono [OF this assms(2)] have "sq_count m + unat cnt < 2 ^ 32" by simp
  then have "unat (sq_tail m - sq_head m + cnt) = sq_count m + unat cnt"
    by (simp add: sq_count_def unat_word_ariths(1))
  then show ?thesis by (simp add: word_less_nat_alt sq_capacity_def)
qed

lemma msg_prepare_room:
  assumes priv: "sq_private os (ring_fd ring)" and wf: "sq_wf (ring_at s (ring_fd ring))"
    and cnt: "unat cnt < 2 ^ 31"
    and room: "sq_count (ring_at s (ring_fd ring)) + unat cnt \<le> sq_capacity (ring_at s (ring_fd ring))"
  shows "\<exists>t. prepare_with os ring f cnt s = (0, t) \<and>
    sq_pending (ring_at t (ring_fd ring)) =
      sq_pending (ring_at s (ring_fd ring)) @ map (\<lambda>i. f i zero_sqe) [0..<unat cnt] \<and>
    sq_wf (ring_at t (ring_fd ring))"
proof -
  obtain m r s1 where m: "reserve_batch os ring cnt s = (r, s1)" "same_sq (ring_at s (ring_fd ring)) m"
      "ring_at s1 (ring_fd ring) = m"
      "r = (if sq_tail m - sq_head m + cnt > sq_entries m then None else Some (sq_tail m))"
    using msg_reserve [OF priv, of cnt s] by blast
  note same = same_sq_facts [OF m(2)]
  have r: "r = Some (sq_tail m)" using m(4) msg_reserve_room [of m cnt] wf cnt room by (simp add: same)
  let ?qs = "map (\<lambda>i. f i zero_sqe) [0..<unat cnt]"
  obtain tail1 s2 where f: "fold (\<lambda>i. put_entry ring (f i)) [0..<unat cnt] (sq_tail m, s1) = (tail1, s2)"
    by (cases "fold (\<lambda>i. put_entry ring (f i)) [0..<unat cnt] (sq_tail m, s1)")
  have w: "write_entries ?qs (sq_tail m) m = (tail1, ring_at s2 (ring_fd ring))"
    using msg_put_entries [OF f] m(3) by simp
  have "sq_count m + length ?qs \<le> sq_capacity m" using room by (simp add: same)
  then obtain m2 where m2: "sq.enq_list ?qs m = Some m2" "sq_pending m2 = sq_pending m @ ?qs" "sq_wf m2"
    using sq.enq_list_room [of m ?qs] wf by (auto simp: same)
  have "m2 = (ring_at s2 (ring_fd ring))\<lparr>sq_tail := tail1\<rparr>"
    using msg_batch_enqueues [of m ?qs] m2(1) w wf room by (simp add: same)
  with m2 show ?thesis
    by (auto simp: prepare_with_def m(1) r f publish_batch_def store_release_def same)
qed

lemma msg_prepare_full:
  assumes priv: "sq_private os (ring_fd ring)" and wf: "sq_wf (ring_at s (ring_fd ring))"
    and cnt: "unat cnt < 2 ^ 31"
    and full: "sq_capacity (ring_at s (ring_fd ring)) < sq_count (ring_at s (ring_fd ring)) + unat cnt"
  shows "\<exists>t. prepare_with os ring f cnt s = (-1, t) \<and> same_process s t \<and>
    sq_pending (ring_at t (ring_fd ring)) = sq_pending (ring_at s (ring_fd ring))"
proof -
  obtain m r s1 where m: "reserve_batch os ring cnt s = (r, s1)" "same_process s s1"
      "same_sq (ring_at s (ring_fd ring)) m" "ring_at s1 (ring_fd ring) = m"
      "r = (if sq_tail m - sq_head m + cnt > sq_entries m then None else Some (sq_tail m))"
    using msg_reserve [OF priv, of cnt s] by blast
  note same = same_sq_facts [OF m(3)]
  have "r = None" using m(5) msg_reserve_room [of m cnt] wf cnt full by (simp add: same)
  with m same show ?thesis by (simp add: prepare_with_def)
qed

section \<open>bounded_enter\<close>

text \<open>The call is repeated while it is interrupted, whether or not a stop was requested.\<close>

definition bounded_enter :: "'k os \<Rightarrow> raw_ring \<Rightarrow> u32 \<Rightarrow> u32 \<Rightarrow> 'k msg_machine \<Rightarrow> (int \<times> 'k msg_machine) option" where
  "bounded_enter os ring to_submit min_complete s =
     do {
       (ret, s1) \<leftarrow> retry_loop (\<lambda>s. (False, async os s))
         (os_enter os (ring_fd ring) to_submit min_complete
            (IORING_ENTER_GETEVENTS OR IORING_ENTER_EXT_ARG) (Some ENTER_TIMEOUT_SECONDS)) s;
       if ret < 0
       then Some (-1, if errno s1 = ETIME then upd_res (\<lambda>r. r\<lparr>timeouts := timeouts r + 1\<rparr>) s1 else s1)
       else if ret \<noteq> sint to_submit then Some (-1, s1)
       else Some (0, s1)
     }"

lemma msg_enter_outcome: "wp (bounded_enter os ring n m s) (outcome (same_process s) s)"
  unfolding bounded_enter_def
  by (rule wp_bindI [OF retry_loop_wp])
     (auto simp: outcome_def same_process_resources intro: same_resources_trans [OF same_process_resources])

lemma msg_enter_returns:
  assumes "responsive os bound"
  shows "returns (bounded_enter os ring n m s)"
proof -
  have b: "eintr_bounded os bound" using assms by (simp add: responsive_def)
  have "returns (retry_loop (\<lambda>s. (False, async os s)) (os_enter os fd n m fl a) s)" for fd fl a
    using retry_loop_returns [of bound "os_enter os fd n m fl a" "\<lambda>s. (False, async os s)" s]
      b bound_async [OF b] by (auto simp: returns_def eintr_bounded_def)
  then show ?thesis unfolding bounded_enter_def by (intro returns_intro)
qed

end
