(* ===== verification/Msg_Drain.thy ===== *)
theory Msg_Drain
  imports Msg_Base
begin

text \<open>
  io_uring_msg_ring_round.c: \<open>drain_data_cq\<close> and \<open>drain_send_fd_cq\<close>. Both walk over
  everything a completion ring offers, decode the sequence numbers of the current batch and
  note per index what was seen, whether it was right and what its result was. Proved here:
  a drain counts nothing exactly when it was given one right completion for every index.
\<close>

section \<open>The counters\<close>

definition count_cqe :: "bool \<Rightarrow> result \<Rightarrow> result" where
  "count_cqe source r =
     (if source then r\<lparr>source_cqes := source_cqes r + 1\<rparr> else r\<lparr>target_cqes := target_cqes r + 1\<rparr>)"

definition note_available :: "u32 \<Rightarrow> u32 \<Rightarrow> result \<Rightarrow> result" where
  "note_available available cnt r =
     (if available \<noteq> cnt
      then (if available < cnt
            then r\<lparr>missing_events := missing_events r + ucast (cnt - available)\<rparr>
            else r\<lparr>bad_user_data := bad_user_data r + ucast (available - cnt)\<rparr>)
      else r)"

text \<open>\<open>seen = source ? map->source_seen : map->target_seen\<close>, and likewise \<open>ok\<close> and \<open>res\<close>.\<close>

definition seen_of :: "bool \<Rightarrow> batch_map \<Rightarrow> nat \<Rightarrow> bool" where
  "seen_of source mp = (if source then source_seen mp else target_seen mp)"

definition ok_of :: "bool \<Rightarrow> batch_map \<Rightarrow> nat \<Rightarrow> bool" where
  "ok_of source mp = (if source then source_ok mp else target_ok mp)"

definition res_of :: "bool \<Rightarrow> batch_map \<Rightarrow> nat \<Rightarrow> s32" where
  "res_of source mp = (if source then source_res mp else target_res mp)"

definition set_seen :: "bool \<Rightarrow> nat \<Rightarrow> bool \<Rightarrow> batch_map \<Rightarrow> batch_map" where
  "set_seen source i v mp =
     (if source then mp\<lparr>source_seen := (source_seen mp)(i := v)\<rparr>
      else mp\<lparr>target_seen := (target_seen mp)(i := v)\<rparr>)"

definition set_ok :: "bool \<Rightarrow> nat \<Rightarrow> bool \<Rightarrow> batch_map \<Rightarrow> batch_map" where
  "set_ok source i v mp =
     (if source then mp\<lparr>source_ok := (source_ok mp)(i := v)\<rparr>
      else mp\<lparr>target_ok := (target_ok mp)(i := v)\<rparr>)"

definition set_res :: "bool \<Rightarrow> nat \<Rightarrow> s32 \<Rightarrow> batch_map \<Rightarrow> batch_map" where
  "set_res source i v mp =
     (if source then mp\<lparr>source_res := (source_res mp)(i := v)\<rparr>
      else mp\<lparr>target_res := (target_res mp)(i := v)\<rparr>)"

text \<open>\<open>tag = source ? SOURCE_TAG : TARGET_TAG\<close>\<close>

definition side_tag :: "bool \<Rightarrow> u64" where
  "side_tag source = (if source then SOURCE_TAG else TARGET_TAG)"

section \<open>One completion\<close>

text \<open>
  The body of both loops; \<open>bad index res\<close> is their test of the result, by which alone they
  differ.
\<close>

definition drain_step :: "(nat \<Rightarrow> s32 \<Rightarrow> bool) \<Rightarrow> bool \<Rightarrow> u64 \<Rightarrow> u32 \<Rightarrow> cqe \<Rightarrow> batch_map \<times> result
    \<Rightarrow> batch_map \<times> result" where
  "drain_step bad source base cnt c st =
     (let (mp, r) = st;
          r1 = count_cqe source r
      in case decode_sequence (cqe_user_data c) (side_tag source) base cnt of
           None \<Rightarrow> (mp, r1\<lparr>bad_user_data := bad_user_data r1 + 1\<rparr>)
         | Some index \<Rightarrow>
             if seen_of source mp index
             then (set_ok source index False mp, r1\<lparr>duplicate_events := duplicate_events r1 + 1\<rparr>)
             else
               (let mp1 = set_res source index (cqe_res c)
                            (set_ok source index True (set_seen source index True mp));
                    (mp2, r2) = (if cqe_flags c \<noteq> 0
                                 then (set_ok source index False mp1, r1\<lparr>bad_flags := bad_flags r1 + 1\<rparr>)
                                 else (mp1, r1))
                in if bad index (cqe_res c)
                   then (set_ok source index False mp2, r2\<lparr>bad_results := bad_results r2 + 1\<rparr>)
                   else (mp2, r2)))"

text \<open>\<open>(int)(1U + ((base + index) % 1000000ULL))\<close>\<close>

definition data_word :: "u64 \<Rightarrow> nat \<Rightarrow> s32" where
  "data_word base index = ucast (1 + (base + of_nat index) mod 1000000)"

definition bad_data :: "bool \<Rightarrow> u64 \<Rightarrow> nat \<Rightarrow> s32 \<Rightarrow> bool" where
  "bad_data source base index rs \<longleftrightarrow> source \<and> rs \<noteq> 0 \<or> \<not> source \<and> rs \<noteq> data_word base index"

definition bad_slot :: "u32 \<Rightarrow> nat \<Rightarrow> s32 \<Rightarrow> bool" where
  "bad_slot total_slots index rs \<longleftrightarrow> sint rs < 0 \<or> rs \<ge> total_slots"

section \<open>The drains\<close>

definition drain_cqes :: "(nat \<Rightarrow> s32 \<Rightarrow> bool) \<Rightarrow> bool \<Rightarrow> u64 \<Rightarrow> u32 \<Rightarrow> u32 \<Rightarrow> cqe list \<Rightarrow> batch_map \<Rightarrow> result
    \<Rightarrow> batch_map \<times> result" where
  "drain_cqes bad source base cnt available cs mp r =
     fold (drain_step bad source base cnt) cs (mp, note_available available cnt r)"

definition drain_with :: "'k os \<Rightarrow> raw_ring \<Rightarrow> (nat \<Rightarrow> s32 \<Rightarrow> bool) \<Rightarrow> bool \<Rightarrow> u64 \<Rightarrow> u32 \<Rightarrow> batch_map
    \<Rightarrow> 'k msg_machine \<Rightarrow> batch_map \<times> 'k msg_machine" where
  "drain_with os ring bad source base cnt mp s =
     (let (head, s1) = load_acquire os ring cq_head s;
          (tail, s2) = load_acquire os ring cq_tail s1;
          available = tail - head;
          cs = copy_cqes ring head available s2;
          (mp1, r1) = drain_cqes bad source base cnt available cs mp (res s2);
          s3 = store_release ring cq_head_update tail (upd_res (\<lambda>_. r1) s2)
      in (mp1, s3\<lparr>reaped := reaped s3 @ [cs]\<rparr>))"

definition drain_data_cq :: "'k os \<Rightarrow> raw_ring \<Rightarrow> bool \<Rightarrow> u64 \<Rightarrow> u32 \<Rightarrow> batch_map \<Rightarrow> 'k msg_machine
    \<Rightarrow> batch_map \<times> 'k msg_machine" where
  "drain_data_cq os ring source base = drain_with os ring (bad_data source base) source base"

definition drain_send_fd_cq :: "'k os \<Rightarrow> raw_ring \<Rightarrow> bool \<Rightarrow> u64 \<Rightarrow> u32 \<Rightarrow> u32 \<Rightarrow> batch_map \<Rightarrow> 'k msg_machine
    \<Rightarrow> batch_map \<times> 'k msg_machine" where
  "drain_send_fd_cq os ring source base cnt total_slots =
     drain_with os ring (bad_slot total_slots) source base cnt"

section \<open>Errors\<close>

text \<open>The sum of the counters that must be zero for a pass.\<close>

definition msg_err :: "result \<Rightarrow> nat" where
  "msg_err r = unat (bad_results r) + unat (bad_flags r) + unat (bad_user_data r) +
     unat (duplicate_events r) + unat (missing_events r) + unat (pair_mismatches r) +
     unat (sentinel_mismatches r)"

lemma msg_err_zero: "msg_err r = 0 \<longleftrightarrow> bad_results r = 0 \<and> bad_flags r = 0 \<and> bad_user_data r = 0 \<and>
    duplicate_events r = 0 \<and> missing_events r = 0 \<and> pair_mismatches r = 0 \<and> sentinel_mismatches r = 0"
  by (auto simp: msg_err_def unat_eq_0)

lemma msg_unat_add:
  "unat (c :: u64) + n < 2 ^ 64 \<Longrightarrow> unat (c + of_nat n) = unat c + n"
  by (simp add: unat_word_ariths unat_of_nat)

lemma msg_err_incs [simp]:
  assumes "msg_err r + 1 < 2 ^ 64"
  shows "msg_err (r\<lparr>bad_results := bad_results r + 1\<rparr>) = msg_err r + 1"
    "msg_err (r\<lparr>bad_flags := bad_flags r + 1\<rparr>) = msg_err r + 1"
    "msg_err (r\<lparr>bad_user_data := bad_user_data r + 1\<rparr>) = msg_err r + 1"
    "msg_err (r\<lparr>duplicate_events := duplicate_events r + 1\<rparr>) = msg_err r + 1"
    "msg_err (r\<lparr>missing_events := missing_events r + 1\<rparr>) = msg_err r + 1"
    "msg_err (r\<lparr>pair_mismatches := pair_mismatches r + 1\<rparr>) = msg_err r + 1"
    "msg_err (r\<lparr>sentinel_mismatches := sentinel_mismatches r + 1\<rparr>) = msg_err r + 1"
proof -
  have i: "unat (c + 1) = unat c + 1" if "unat c \<le> msg_err r" for c :: u64
    using assms that by (intro unat_inc64) linarith
  show "msg_err (r\<lparr>bad_results := bad_results r + 1\<rparr>) = msg_err r + 1"
    "msg_err (r\<lparr>bad_flags := bad_flags r + 1\<rparr>) = msg_err r + 1"
    "msg_err (r\<lparr>bad_user_data := bad_user_data r + 1\<rparr>) = msg_err r + 1"
    "msg_err (r\<lparr>duplicate_events := duplicate_events r + 1\<rparr>) = msg_err r + 1"
    "msg_err (r\<lparr>missing_events := missing_events r + 1\<rparr>) = msg_err r + 1"
    "msg_err (r\<lparr>pair_mismatches := pair_mismatches r + 1\<rparr>) = msg_err r + 1"
    "msg_err (r\<lparr>sentinel_mismatches := sentinel_mismatches r + 1\<rparr>) = msg_err r + 1"
    using i [of "bad_results r"] i [of "bad_flags r"] i [of "bad_user_data r"] i [of "duplicate_events r"]
      i [of "missing_events r"] i [of "pair_mismatches r"] i [of "sentinel_mismatches r"]
    by (simp_all add: msg_err_def)
qed

lemma msg_err_count_cqe [simp]: "msg_err (count_cqe source r) = msg_err r"
  by (simp add: count_cqe_def msg_err_def)

lemma msg_ucast_diff: "(b :: u32) \<le> a \<Longrightarrow> (ucast (a - b) :: u64) = of_nat (unat a - unat b)"
proof -
  assume "b \<le> a"
  then have "unat (a - b) = unat a - unat b" by (rule unat_sub)
  then show ?thesis
    using unat_lt32 [of a] by (simp add: word_unat_eq_iff unat_of_nat)
qed

lemma msg_err_note_available:
  assumes "msg_err r + 2 ^ 32 < 2 ^ 64"
  shows "msg_err r \<le> msg_err (note_available a cnt r)"
    "msg_err (note_available a cnt r) \<le> msg_err r + 2 ^ 32"
    "msg_err (note_available a cnt r) = msg_err r \<longleftrightarrow> a = cnt"
proof -
  have *: "msg_err (note_available a cnt r) =
      msg_err r + (if a < cnt then unat cnt - unat a else unat a - unat cnt)"
  proof (cases "a < cnt")
    case True
    have "unat cnt - unat a < 2 ^ 32" using unat_lt32 [of cnt] by linarith
    moreover have "unat (missing_events r) \<le> msg_err r" by (simp add: msg_err_def)
    ultimately have "unat (missing_events r + of_nat (unat cnt - unat a)) =
        unat (missing_events r) + (unat cnt - unat a)"
      using assms by (intro msg_unat_add) linarith
    with True show ?thesis by (auto simp: note_available_def msg_ucast_diff msg_err_def)
  next
    case False
    have "unat a - unat cnt < 2 ^ 32" using unat_lt32 [of a] by linarith
    moreover have "unat (bad_user_data r) \<le> msg_err r" by (simp add: msg_err_def)
    ultimately have "unat (bad_user_data r + of_nat (unat a - unat cnt)) =
        unat (bad_user_data r) + (unat a - unat cnt)"
      using assms by (intro msg_unat_add) linarith
    with False show ?thesis by (auto simp: note_available_def msg_ucast_diff msg_err_def)
  qed
  show "msg_err r \<le> msg_err (note_available a cnt r)" unfolding * by simp
  show "msg_err (note_available a cnt r) \<le> msg_err r + 2 ^ 32"
    unfolding * using unat_lt32 [of a] unat_lt32 [of cnt] by (simp add: le_diff_conv)
  show "msg_err (note_available a cnt r) = msg_err r \<longleftrightarrow> a = cnt"
    unfolding * by (auto simp: word_less_nat_alt word_unat_eq_iff)
qed

section \<open>Every index once\<close>

text \<open>The index a fully correct completion answers.\<close>

definition fills_drain :: "(nat \<Rightarrow> s32 \<Rightarrow> bool) \<Rightarrow> bool \<Rightarrow> u64 \<Rightarrow> u32 \<Rightarrow> cqe \<Rightarrow> nat option" where
  "fills_drain bad source base cnt c =
     (case decode_sequence (cqe_user_data c) (side_tag source) base cnt of
        None \<Rightarrow> None
      | Some j \<Rightarrow> if cqe_flags c = 0 \<and> \<not> bad j (cqe_res c) then Some j else None)"

definition good_drain :: "(nat \<Rightarrow> s32 \<Rightarrow> bool) \<Rightarrow> bool \<Rightarrow> u64 \<Rightarrow> u32 \<Rightarrow> cqe \<Rightarrow> batch_map \<times> result \<Rightarrow> bool" where
  "good_drain bad source base cnt c st \<longleftrightarrow>
     (\<exists>j. fills_drain bad source base cnt c = Some j \<and> \<not> seen_of source (fst st) j)"

lemmas msg_map_defs = seen_of_def ok_of_def res_of_def set_seen_def set_ok_def set_res_def

lemma msg_decode_range:
  assumes "decode_sequence ud tag base cnt = Some j"
  shows "j < unat cnt"
proof -
  let ?q = "ud AND USER_DATA_SEQ_MASK"
  have r: "\<not> ?q < base" "?q < base + ucast cnt" and j: "j = unat (ucast (?q - base) :: u32)"
    using assms by (auto simp: decode_sequence_def Let_def not_le split: if_splits)
  have "unat (base + ucast cnt) \<le> unat base + unat cnt"
    by (simp add: unat_word_ariths)
  with r(2) have "unat ?q < unat base + unat cnt" by (simp add: word_less_nat_alt)
  moreover have "unat (?q - base) = unat ?q - unat base" using r(1) by (simp add: unat_sub not_less)
  moreover have "unat base \<le> unat ?q" using r(1) by (simp add: not_less word_le_nat_alt)
  ultimately have "unat (?q - base) < unat cnt" by linarith
  moreover have "unat (ucast (?q - base) :: u32) \<le> unat (?q - base)"
    by (simp add: unsigned_ucast_eq)
  ultimately show ?thesis using j by simp
qed

lemma msg_fills_range: "fills_drain bad source base cnt c = Some j \<Longrightarrow> j < unat cnt"
  by (auto simp: fills_drain_def dest: msg_decode_range split: option.splits if_splits)

lemma msg_seen_set [simp]:
  "seen_of source (set_seen source i v mp) = (seen_of source mp)(i := v)"
  "seen_of source (set_ok source' i v mp) = seen_of source mp"
  "seen_of source (set_res source' i w mp) = seen_of source mp"
  by (auto simp: msg_map_defs)

lemma msg_drain_step_seen:
  "fills_drain bad source base cnt c = Some j \<Longrightarrow> \<not> seen_of source mp j \<Longrightarrow>
     drain_step bad source base cnt c (mp, r) =
       (set_res source j (cqe_res c) (set_ok source j True (set_seen source j True mp)), count_cqe source r)"
  by (cases "decode_sequence (cqe_user_data c) (side_tag source) base cnt")
     (simp_all add: fills_drain_def drain_step_def Let_def split: if_splits)

lemma msg_drain_step_err:
  assumes "msg_err r + 2 < 2 ^ 64"
  shows "msg_err r \<le> msg_err (snd (drain_step bad source base cnt c (mp, r)))"
    "msg_err (snd (drain_step bad source base cnt c (mp, r))) \<le> msg_err r + 2"
    "msg_err (snd (drain_step bad source base cnt c (mp, r))) = msg_err r \<longleftrightarrow>
       good_drain bad source base cnt c (mp, r)"
proof -
  let ?d = "decode_sequence (cqe_user_data c) (side_tag source) base cnt"
  have e: "msg_err (count_cqe source r) + 1 < 2 ^ 64"
    "msg_err ((count_cqe source r)\<lparr>bad_flags := bad_flags (count_cqe source r) + 1\<rparr>) + 1 < 2 ^ 64"
    using assms by simp_all
  have *: "msg_err (snd (drain_step bad source base cnt c (mp, r))) =
     msg_err r + (case ?d of None \<Rightarrow> 1 | Some j \<Rightarrow>
        if seen_of source mp j then 1
        else of_bool (cqe_flags c \<noteq> 0) + of_bool (bad j (cqe_res c)))"
  proof (cases ?d)
    case None
    then show ?thesis using msg_err_incs(3) [OF e(1)] by (simp add: drain_step_def Let_def)
  next
    case (Some j)
    then show ?thesis
      using msg_err_incs(1,2,4) [OF e(1)] msg_err_incs(1) [OF e(2)]
      by (simp add: drain_step_def Let_def)
  qed
  show "msg_err r \<le> msg_err (snd (drain_step bad source base cnt c (mp, r)))"
    unfolding * by simp
  show "msg_err (snd (drain_step bad source base cnt c (mp, r))) \<le> msg_err r + 2"
    unfolding * by (auto split: option.split)
  show "msg_err (snd (drain_step bad source base cnt c (mp, r))) = msg_err r \<longleftrightarrow>
       good_drain bad source base cnt c (mp, r)"
    unfolding * by (auto simp: good_drain_def fills_drain_def split: option.split)
qed

interpretation drain: exactly_once "drain_step bad source base cnt" "\<lambda>st. msg_err (snd st)"
    "good_drain bad source base cnt" 2 "\<lambda>st. {j. seen_of source (fst st) j}"
    "fills_drain bad source base cnt" "[0..<unat cnt]"
  for bad source base cnt
proof unfold_locales
  fix st :: "batch_map \<times> result" and c j
  assume "j \<in> set [0..<unat cnt]" "fills_drain bad source base cnt c = Some j"
    "j \<notin> {j. seen_of source (fst st) j}"
  then show "{j. seen_of source (fst (drain_step bad source base cnt c st)) j} =
      insert j {j. seen_of source (fst st) j}"
    by (cases st) (auto simp: msg_drain_step_seen)
next
  fix st :: "batch_map \<times> result" and c
  assume "msg_err (snd st) + 2 < 2 ^ 64"
  then show "msg_err (snd st) \<le> msg_err (snd (drain_step bad source base cnt c st)) \<and>
      msg_err (snd (drain_step bad source base cnt c st)) \<le> msg_err (snd st) + 2"
    and "(msg_err (snd (drain_step bad source base cnt c st)) = msg_err (snd st)) =
      good_drain bad source base cnt c st"
    using msg_drain_step_err [of "snd st" bad source base cnt c "fst st"] by simp_all
qed (auto simp: good_drain_def dest: msg_fills_range)

text \<open>What a drain that counts nothing leaves in the map.\<close>

definition noted :: "bool \<Rightarrow> nat \<Rightarrow> s32 \<Rightarrow> batch_map \<Rightarrow> bool" where
  "noted source j w mp \<longleftrightarrow> seen_of source mp j \<and> ok_of source mp j \<and> res_of source mp j = w"

lemma msg_drain_goods:
  assumes "drain.goods bad source base cnt cs (mp, r)"
  shows "(\<forall>c \<in> set cs. \<forall>j. fills_drain bad source base cnt c = Some j \<longrightarrow>
        noted source j (cqe_res c) (fst (fold (drain_step bad source base cnt) cs (mp, r)))) \<and>
    (\<forall>j w. noted source j w mp \<longrightarrow> noted source j w (fst (fold (drain_step bad source base cnt) cs (mp, r)))) \<and>
    (\<forall>j w. noted (\<not> source) j w (fst (fold (drain_step bad source base cnt) cs (mp, r))) = noted (\<not> source) j w mp) \<and>
    seen_of (\<not> source) (fst (fold (drain_step bad source base cnt) cs (mp, r))) = seen_of (\<not> source) mp \<and>
    snd (fold (drain_step bad source base cnt) cs (mp, r)) = (count_cqe source ^^ length cs) r"
  using assms
proof (induction cs arbitrary: mp r)
  case Nil
  then show ?case by simp
next
  case (Cons c cs)
  then have "good_drain bad source base cnt c (mp, r)"
    and rest: "drain.goods bad source base cnt cs (drain_step bad source base cnt c (mp, r))"
    by simp_all
  then obtain j where j: "fills_drain bad source base cnt c = Some j" "\<not> seen_of source mp j"
    by (auto simp: good_drain_def)
  let ?mp = "set_res source j (cqe_res c) (set_ok source j True (set_seen source j True mp))"
  note st = msg_drain_step_seen [OF j, of r]
  note IH = Cons.IH [OF rest [unfolded st]]
  have new: "noted source j (cqe_res c) ?mp" by (auto simp: noted_def msg_map_defs)
  have old: "noted source i w ?mp" if "noted source i w mp" for i w
    using that j(2) by (auto simp: noted_def msg_map_defs)
  have other: "noted (\<not> source) i w ?mp = noted (\<not> source) i w mp" for i w
    by (simp add: noted_def msg_map_defs)
  have other_seen: "seen_of (\<not> source) ?mp = seen_of (\<not> source) mp"
    by (simp add: msg_map_defs)
  show ?case
    using IH new old j(1) other other_seen
    by (auto simp: st funpow_swap1)
qed

section \<open>A whole drain\<close>

text \<open>One right completion for every index of the batch.\<close>

definition complete :: "(nat \<Rightarrow> s32 \<Rightarrow> bool) \<Rightarrow> bool \<Rightarrow> u64 \<Rightarrow> u32 \<Rightarrow> cqe list \<Rightarrow> bool" where
  "complete bad source base cnt cs \<longleftrightarrow>
     mset (map (fills_drain bad source base cnt) cs) = mset (map Some [0..<unat cnt])"

lemma msg_complete_length: "complete bad source base cnt cs \<Longrightarrow> length cs = unat cnt"
  unfolding complete_def by (drule mset_eq_length) simp

lemma msg_drain_bounds:
  assumes "msg_err r + 2 ^ 34 < 2 ^ 64" and "length cs = unat a"
  shows "msg_err r \<le> msg_err (snd (drain_cqes bad source base cnt a cs mp r))"
    "msg_err (snd (drain_cqes bad source base cnt a cs mp r)) \<le> msg_err r + 2 ^ 34"
proof -
  let ?r = "note_available a cnt r"
  have r: "msg_err r + 2 ^ 32 < 2 ^ 64" using assms(1) by simp
  note n = msg_err_note_available [OF r, of a cnt]
  have "length cs < 2 ^ 32" using assms(2) unat_lt32 [of a] by simp
  with n(2) assms(1) have b: "msg_err (snd (mp, ?r)) + 2 * length cs < 2 ^ 64" by simp
  note f = drain.err_fold [OF b, of bad source base cnt]
  show "msg_err r \<le> msg_err (snd (drain_cqes bad source base cnt a cs mp r))"
    using f n(1) by (simp add: drain_cqes_def)
  show "msg_err (snd (drain_cqes bad source base cnt a cs mp r)) \<le> msg_err r + 2 ^ 34"
    using f n(2) \<open>length cs < 2 ^ 32\<close> by (simp add: drain_cqes_def)
qed

lemma msg_drain_exact:
  assumes err: "msg_err r + 2 ^ 34 < 2 ^ 64" and len: "length cs = unat a"
    and fresh: "\<And>j. \<not> seen_of source mp j"
  shows "msg_err (snd (drain_cqes bad source base cnt a cs mp r)) = msg_err r \<and>
      (\<forall>j < unat cnt. seen_of source (fst (drain_cqes bad source base cnt a cs mp r)) j) \<longleftrightarrow>
    complete bad source base cnt cs"
proof -
  let ?r = "note_available a cnt r" and ?st = "drain_cqes bad source base cnt a cs mp r"
  have r: "msg_err r + 2 ^ 32 < 2 ^ 64" using err by simp
  note n = msg_err_note_available [OF r, of a cnt]
  have "length cs < 2 ^ 32" using len unat_lt32 [of a] by simp
  with n(2) err have b: "msg_err (snd (mp, ?r)) + 2 * length cs < 2 ^ 64" by simp
  have cover: "msg_err (snd ?st) = msg_err ?r \<and> (\<forall>j < unat cnt. seen_of source (fst ?st) j) \<longleftrightarrow>
      complete bad source base cnt cs"
    using drain.covers_iff [OF b, of source bad base cnt] fresh
    by (auto simp: drain_cqes_def complete_def)
  have mono: "msg_err ?r \<le> msg_err (snd ?st)"
    using drain.err_fold [OF b, of bad source base cnt] by (simp add: drain_cqes_def)
  show ?thesis
  proof
    assume "msg_err (snd ?st) = msg_err r \<and> (\<forall>j < unat cnt. seen_of source (fst ?st) j)"
    with mono n(1) cover show "complete bad source base cnt cs" by simp
  next
    assume c: "complete bad source base cnt cs"
    then have "a = cnt" using msg_complete_length [OF c] len by (simp add: word_unat_eq_iff)
    with c cover show "msg_err (snd ?st) = msg_err r \<and> (\<forall>j < unat cnt. seen_of source (fst ?st) j)"
      by (simp add: note_available_def)
  qed
qed

lemma msg_drain_complete:
  assumes err: "msg_err r + 2 ^ 34 < 2 ^ 64" and len: "length cs = unat a"
    and fresh: "\<And>j. \<not> seen_of source mp j" and c: "complete bad source base cnt cs"
  shows "(\<forall>c \<in> set cs. \<forall>j. fills_drain bad source base cnt c = Some j \<longrightarrow>
        noted source j (cqe_res c) (fst (drain_cqes bad source base cnt a cs mp r))) \<and>
    (\<forall>j w. noted (\<not> source) j w (fst (drain_cqes bad source base cnt a cs mp r)) = noted (\<not> source) j w mp) \<and>
    snd (drain_cqes bad source base cnt a cs mp r) = (count_cqe source ^^ unat cnt) r"
proof -
  have a: "a = cnt" using msg_complete_length [OF c] len by (simp add: word_unat_eq_iff)
  have "length cs < 2 ^ 32" using len unat_lt32 [of a] by simp
  with err have b: "msg_err (snd (mp, r)) + 2 * length cs < 2 ^ 64" by simp
  have "msg_err (snd (fold (drain_step bad source base cnt) cs (mp, r))) = msg_err r"
    using conjunct1 [OF iffD2 [OF msg_drain_exact [OF err len fresh] c]] a
    by (simp add: drain_cqes_def note_available_def)
  then have "drain.goods bad source base cnt cs (mp, r)"
    using drain.err_fold_goods [OF b, of bad source base cnt] by simp
  from msg_drain_goods [OF this] show ?thesis
    using a len by (simp add: drain_cqes_def note_available_def)
qed

lemma msg_drain_other_seen:
  "seen_of (\<not> source) (fst (fold (drain_step bad source base cnt) cs st)) = seen_of (\<not> source) (fst st)"
proof (induction cs arbitrary: st)
  case (Cons c cs)
  have "seen_of (\<not> source) (fst (drain_step bad source base cnt c st)) = seen_of (\<not> source) (fst st)"
    by (cases st) (auto simp: drain_step_def msg_map_defs Let_def split: option.split prod.split if_splits)
  with Cons show ?case by simp
qed simp

lemma msg_cnt_source: "(count_cqe True ^^ n) r = r\<lparr>source_cqes := source_cqes r + of_nat n\<rparr>"
  by (induction n arbitrary: r) (simp_all add: count_cqe_def add.commute add.left_commute)

lemma msg_cnt_target: "(count_cqe False ^^ n) r = r\<lparr>target_cqes := target_cqes r + of_nat n\<rparr>"
  by (induction n arbitrary: r) (simp_all add: count_cqe_def add.commute add.left_commute)

section \<open>The completions of a batch\<close>

text \<open>The completion for index \<open>j\<close> with a given result.\<close>

definition msg_cqe :: "bool \<Rightarrow> u64 \<Rightarrow> nat \<Rightarrow> s32 \<Rightarrow> cqe" where
  "msg_cqe source base j w =
     \<lparr>cqe_user_data = tagged_user_data (side_tag source) (base + of_nat j), cqe_res = w, cqe_flags = 0\<rparr>"

lemma msg_side_tag [simp]: "tag_word (side_tag source)"
  by (simp add: side_tag_def)

lemma msg_fills_iff:
  assumes "unat base + unat cnt \<le> 2 ^ 48"
  shows "fills_drain bad source base cnt c = Some j \<longleftrightarrow>
    j < unat cnt \<and> \<not> bad j (cqe_res c) \<and> c = msg_cqe source base j (cqe_res c)"
proof -
  have "fills_drain bad source base cnt c = Some j \<longleftrightarrow>
      decode_sequence (cqe_user_data c) (side_tag source) base cnt = Some j \<and> cqe_flags c = 0 \<and> \<not> bad j (cqe_res c)"
    by (auto simp: fills_drain_def split: option.split)
  then show ?thesis
    using msg_decode_iff [OF msg_side_tag assms, of "cqe_user_data c" source j]
    by (cases c) (auto simp: msg_cqe_def)
qed

lemma msg_complete_cqes:
  assumes small: "unat base + unat cnt \<le> 2 ^ 48" and c: "complete bad source base cnt cs"
    and w: "\<And>c j. c \<in> set cs \<Longrightarrow> fills_drain bad source base cnt c = Some j \<Longrightarrow> w j = cqe_res c"
  shows "mset cs = mset (map (\<lambda>j. msg_cqe source base j (w j)) [0..<unat cnt]) \<and>
    (\<forall>j < unat cnt. \<not> bad j (w j))"
proof -
  from c obtain js where js: "map (fills_drain bad source base cnt) cs = map Some js" "mset js = mset [0..<unat cnt]"
    using drain.permutation_claims [of bad source base cnt cs] by (auto simp: complete_def)
  have len: "length cs = length js" using arg_cong [OF js(1), of length] by simp
  have f: "fills_drain bad source base cnt (cs ! i) = Some (js ! i)" if "i < length js" for i
    using that js(1) len by (simp add: list_eq_iff_nth_eq)
  have "cs ! i = msg_cqe source base (js ! i) (w (js ! i))" if "i < length js" for i
    using f [OF that] w [of "cs ! i" "js ! i"] len that by (metis msg_fills_iff [OF small] nth_mem)
  then have "cs = map (\<lambda>j. msg_cqe source base j (w j)) js"
    using len by (simp add: list_eq_iff_nth_eq)
  moreover have "\<not> bad j (w j)" if "j < unat cnt" for j
  proof -
    have "j \<in> set js" using that mset_eq_setD [OF js(2)] by simp
    then obtain i where i: "i < length js" "js ! i = j" by (auto simp: in_set_conv_nth)
    then show ?thesis using f [OF i(1)] w [of "cs ! i" j] len by (metis msg_fills_iff [OF small] nth_mem)
  qed
  ultimately show ?thesis using js(2) by (metis mset_map)
qed

lemma msg_cqes_complete:
  assumes small: "unat base + unat cnt \<le> 2 ^ 48" and ok: "\<And>j. j < unat cnt \<Longrightarrow> \<not> bad j (w j)"
    and cs: "mset cs = mset (map (\<lambda>j. msg_cqe source base j (w j)) [0..<unat cnt])"
  shows "complete bad source base cnt cs"
proof -
  have "fills_drain bad source base cnt (msg_cqe source base j (w j)) = Some j" if "j < unat cnt" for j
    using that ok by (simp add: msg_fills_iff [OF small]) (simp add: msg_cqe_def)
  then have "map (fills_drain bad source base cnt) (map (\<lambda>j. msg_cqe source base j (w j)) [0..<unat cnt]) =
      map Some [0..<unat cnt]" by simp
  with cs show ?thesis by (metis complete_def mset_map)
qed

text \<open>The one result a completion of \<open>IORING_MSG_DATA\<close> may have.\<close>

definition data_res :: "bool \<Rightarrow> u64 \<Rightarrow> nat \<Rightarrow> s32" where
  "data_res source base j = (if source then 0 else data_word base j)"

lemma msg_bad_data: "bad_data source base j w \<longleftrightarrow> w \<noteq> data_res source base j"
  by (auto simp: bad_data_def data_res_def)

lemma msg_complete_data:
  assumes "unat base + unat cnt \<le> 2 ^ 48"
  shows "complete (bad_data source base) source base cnt cs \<longleftrightarrow>
    mset cs = mset (map (\<lambda>j. msg_cqe source base j (data_res source base j)) [0..<unat cnt])"
  using msg_complete_cqes [OF assms, of "bad_data source base" source cs "data_res source base"]
    msg_cqes_complete [OF assms, of "bad_data source base" "data_res source base" cs source]
  by (auto simp: msg_bad_data msg_fills_iff [OF assms])

section \<open>The effect on the machine\<close>

lemma msg_drain_with:
  assumes "drain_with os ring bad source base cnt mp s = (mp', t)"
  shows "\<exists>cs a. length cs = unat a \<and> reaps [cs] s t \<and> same_resources s t \<and>
    (mp', res t) = drain_cqes bad source base cnt a cs mp (res s)"
proof -
  obtain head s1 where 1: "load_acquire os ring cq_head s = (head, s1)" by (cases "load_acquire os ring cq_head s")
  obtain tail s2 where 2: "load_acquire os ring cq_tail s1 = (tail, s2)" by (cases "load_acquire os ring cq_tail s1")
  have "same_process s s2"
    using same_process_ops(6) [of s os ring cq_head] same_process_ops(6) [of s1 os ring cq_tail] 1 2
    by (auto intro: same_process_trans)
  note f = same_process_D [OF this]
  show ?thesis
    using assms f
    by (intro exI [of _ "copy_cqes ring head (tail - head) s2"] exI [of _ "tail - head"])
       (auto simp: drain_with_def 1 2 Let_def reaps_def same_resources_def split: prod.splits)
qed

section \<open>The two drains of a batch\<close>

lemma msg_zero_map [simp]: "\<not> seen_of source zero_map j"
  by (simp add: seen_of_def zero_map_def)

text \<open>The source ring is drained into an empty map, the target ring on top of it.\<close>

lemma msg_two_drains_bounds:
  assumes err: "msg_err r + 2 ^ 36 < 2 ^ 64" and len: "length cs = unat a" "length ct = unat a'"
    and st1: "st1 = drain_cqes bad True base cnt a cs zero_map r" and r1: "msg_err r1 = msg_err (snd st1)"
    and st2: "st2 = drain_cqes bad' False base cnt a' ct (fst st1) r1"
  shows "msg_err r \<le> msg_err (snd st1)" "msg_err (snd st1) \<le> msg_err (snd st2)"
    "msg_err (snd st2) \<le> msg_err r + 2 ^ 35" "msg_err (snd st1) + 2 ^ 34 < 2 ^ 64"
proof -
  have e: "msg_err r + 2 ^ 34 < 2 ^ 64" using err by simp
  note b1 = msg_drain_bounds [OF e len(1), of bad True base cnt zero_map]
  show m: "msg_err r \<le> msg_err (snd st1)" using b1 st1 by simp
  show e1: "msg_err (snd st1) + 2 ^ 34 < 2 ^ 64" using b1(2) err st1 by simp
  then have "msg_err r1 + 2 ^ 34 < 2 ^ 64" using r1 by simp
  note b2 = msg_drain_bounds [OF this len(2), of bad' False base cnt "fst st1"]
  show "msg_err (snd st1) \<le> msg_err (snd st2)" using b2(1) r1 st2 by simp
  show "msg_err (snd st2) \<le> msg_err r + 2 ^ 35" using b1(2) b2(2) r1 st1 st2 by simp
qed

lemma msg_two_drains_iff:
  assumes err: "msg_err r + 2 ^ 36 < 2 ^ 64" and len: "length cs = unat a" "length ct = unat a'"
    and st1: "st1 = drain_cqes bad True base cnt a cs zero_map r" and r1: "msg_err r1 = msg_err (snd st1)"
    and st2: "st2 = drain_cqes bad' False base cnt a' ct (fst st1) r1"
  shows "msg_err (snd st2) = msg_err r \<and> (\<forall>j < unat cnt. source_seen (fst st2) j \<and> target_seen (fst st2) j) \<longleftrightarrow>
    complete bad True base cnt cs \<and> complete bad' False base cnt ct"
proof -
  note b = msg_two_drains_bounds [OF err len st1 r1 st2]
  have e: "msg_err r + 2 ^ 34 < 2 ^ 64" using err by simp
  have e1: "msg_err r1 + 2 ^ 34 < 2 ^ 64" using b(4) r1 by simp
  have fresh: "\<not> seen_of False (fst st1) j" for j
    using msg_drain_other_seen [of True bad base cnt cs "(zero_map, note_available a cnt r)"]
      msg_zero_map [of False]
    by (simp add: st1 drain_cqes_def)
  have src: "source_seen (fst st2) = seen_of True (fst st1)"
    using msg_drain_other_seen [of False bad' base cnt ct "(fst st1, note_available a' cnt r1)"]
    by (simp add: st2 drain_cqes_def seen_of_def)
  have tgt: "target_seen (fst st2) = seen_of False (fst st2)" by (simp add: seen_of_def)
  have 1: "msg_err (snd st1) = msg_err r \<and> (\<forall>j < unat cnt. seen_of True (fst st1) j) \<longleftrightarrow>
      complete bad True base cnt cs"
    unfolding st1 by (rule msg_drain_exact [OF e len(1)]) simp
  have 2: "msg_err (snd st2) = msg_err r1 \<and> (\<forall>j < unat cnt. seen_of False (fst st2) j) \<longleftrightarrow>
      complete bad' False base cnt ct"
    unfolding st2 by (rule msg_drain_exact [OF e1 len(2) fresh])
  have "msg_err (snd st2) = msg_err r \<longleftrightarrow> msg_err (snd st1) = msg_err r \<and> msg_err (snd st2) = msg_err r1"
    using b(1,2) r1 by linarith
  then show ?thesis unfolding src tgt using 1 2 by blast
qed

lemma msg_two_drains_complete:
  assumes err: "msg_err r + 2 ^ 36 < 2 ^ 64" and len: "length cs = unat a" "length ct = unat a'"
    and st1: "st1 = drain_cqes bad True base cnt a cs zero_map r" and r1: "msg_err r1 = msg_err (snd st1)"
    and st2: "st2 = drain_cqes bad' False base cnt a' ct (fst st1) r1"
    and c: "complete bad True base cnt cs" "complete bad' False base cnt ct"
  shows "snd st1 = r\<lparr>source_cqes := source_cqes r + of_nat (unat cnt)\<rparr>"
    "snd st2 = r1\<lparr>target_cqes := target_cqes r1 + of_nat (unat cnt)\<rparr>"
    "\<And>c j. c \<in> set cs \<Longrightarrow> fills_drain bad True base cnt c = Some j \<Longrightarrow> noted True j (cqe_res c) (fst st2)"
    "\<And>c j. c \<in> set ct \<Longrightarrow> fills_drain bad' False base cnt c = Some j \<Longrightarrow> noted False j (cqe_res c) (fst st2)"
proof -
  note b = msg_two_drains_bounds [OF err len st1 r1 st2]
  have e: "msg_err r + 2 ^ 34 < 2 ^ 64" using err by simp
  have e1: "msg_err r1 + 2 ^ 34 < 2 ^ 64" using b(4) r1 by simp
  have fresh: "\<not> seen_of False (fst st1) j" for j
    using msg_drain_other_seen [of True bad base cnt cs "(zero_map, note_available a cnt r)"]
      msg_zero_map [of False]
    by (simp add: st1 drain_cqes_def)
  note 1 = msg_drain_complete [OF e len(1) msg_zero_map c(1), folded st1]
  note 2 = msg_drain_complete [OF e1 len(2) fresh c(2), folded st2]
  show "snd st1 = r\<lparr>source_cqes := source_cqes r + of_nat (unat cnt)\<rparr>"
    using 1 unfolding msg_cnt_source by blast
  show "snd st2 = r1\<lparr>target_cqes := target_cqes r1 + of_nat (unat cnt)\<rparr>"
    using 2 unfolding msg_cnt_target by blast
  show "noted True j (cqe_res c) (fst st2)"
    if "c \<in> set cs" "fills_drain bad True base cnt c = Some j" for c j
    using 1 2 that by simp
  show "noted False j (cqe_res c) (fst st2)"
    if "c \<in> set ct" "fills_drain bad' False base cnt c = Some j" for c j
    using 2 that by blast
qed

text \<open>Every index is answered, so that the map tells the results of all.\<close>

lemma msg_complete_fills:
  assumes "complete bad source base cnt cs" and "j < unat cnt"
  obtains c where "c \<in> set cs" "fills_drain bad source base cnt c = Some j"
proof -
  have "set (map (fills_drain bad source base cnt) cs) = set (map Some [0..<unat cnt])"
    using assms(1) unfolding complete_def by (rule mset_eq_setD)
  moreover have "Some j \<in> set (map Some [0..<unat cnt])" using assms(2) by simp
  ultimately have "Some j \<in> fills_drain bad source base cnt ` set cs" by (metis list.set_map)
  then show ?thesis using that by auto
qed

end
