(* ===== verification/Msg_Data.thy ===== *)
theory Msg_Data
  imports Msg_Drain
begin

text \<open>
  io_uring_msg_ring_round.c: \<open>run_data_once\<close>, a round of \<open>IORING_MSG_DATA\<close> requests in
  batches of 64. The proof carries a bound on the errors from batch to batch: no counter can
  wrap, so a round that ends with zero errors had none in any batch.
\<close>

section \<open>The round\<close>

text \<open>The last loop of a batch, over the map.\<close>

definition score_seen :: "batch_map \<Rightarrow> nat \<Rightarrow> result \<Rightarrow> result" where
  "score_seen mp i r =
     (let r1 = (if \<not> source_seen mp i then r\<lparr>missing_events := missing_events r + 1\<rparr> else r)
      in if \<not> target_seen mp i then r1\<lparr>missing_events := missing_events r1 + 1\<rparr> else r1)"

definition all_right :: "batch_map \<Rightarrow> nat \<Rightarrow> bool" where
  "all_right mp i \<longleftrightarrow> source_seen mp i \<and> target_seen mp i \<and> source_ok mp i \<and> target_ok mp i"

definition score_data :: "batch_map \<Rightarrow> nat \<Rightarrow> result \<Rightarrow> result" where
  "score_data mp i r =
     (let r1 = score_seen mp i r
      in if all_right mp i then r1\<lparr>successful_ops := successful_ops r1 + 1\<rparr> else r1)"

definition drain_target :: "'k os \<Rightarrow> msg_workload \<Rightarrow> profile_id \<Rightarrow> 'k msg_machine \<Rightarrow> (int \<times> 'k msg_machine) option" where
  "drain_target os work profile s =
     (if profile = PROFILE_R0
      then or_fail (bounded_enter os (w_target work) 0 (of_nat QD) s) (\<lambda>s.
           Some (0, upd_res (\<lambda>r. r\<lparr>target_enters := target_enters r + 1\<rparr>) s))
      else Some (0, s))"

definition data_batch :: "'k os \<Rightarrow> msg_workload \<Rightarrow> profile_id \<Rightarrow> u64 \<Rightarrow> 'k msg_machine
    \<Rightarrow> (int \<times> 'k msg_machine) option" where
  "data_batch os work profile base s =
     or_fail (Some (prepare_data_batch os work base (of_nat QD) s)) (\<lambda>s.
     or_fail (bounded_enter os (w_source work) (of_nat QD) (of_nat QD)
                (upd_res (\<lambda>r. r\<lparr>sqes_total := sqes_total r + of_nat QD\<rparr>) s)) (\<lambda>s.
     let (mp1, s1) = drain_data_cq os (w_source work) True base (of_nat QD) zero_map
                       (upd_res (\<lambda>r. r\<lparr>source_enters := source_enters r + 1\<rparr>) s)
     in or_fail (drain_target os work profile s1) (\<lambda>s.
        let (mp2, s2) = drain_data_cq os (w_target work) False base (of_nat QD) mp1 s
        in Some (0, upd_res (fold (score_data mp2) [0..<QD]) s2))))"

text \<open>\<open>if (timed) result->elapsed_ns = now_ns() - started;\<close>\<close>

definition set_elapsed :: "'k os \<Rightarrow> bool \<Rightarrow> u64 \<Rightarrow> 'k msg_machine \<Rightarrow> (int \<times> 'k msg_machine) option" where
  "set_elapsed os timed started s =
     (if timed
      then do { (now, s1) \<leftarrow> now_ns os s; Some (0, upd_res (\<lambda>r. r\<lparr>elapsed_ns := now - started\<rparr>) s1) }
      else Some (0, s))"

text \<open>An idle call on the target must not bring more completions.\<close>

definition idle_check :: "'k os \<Rightarrow> msg_workload \<Rightarrow> 'k msg_machine \<Rightarrow> (int \<times> 'k msg_machine) option" where
  "idle_check os work s =
     (let (before, s1) = cq_available os (w_target work) s
      in or_fail (bounded_enter os (w_target work) 0 0 s1) (\<lambda>s.
         let (after, s2) = cq_available os (w_target work) s
         in Some (0, if after \<noteq> before then upd_res (\<lambda>r. r\<lparr>bad_results := bad_results r + 1\<rparr>) s2 else s2)))"

text \<open>\<open>result->field = *ring->counter\<close>\<close>

definition read_counter :: "'k os \<Rightarrow> raw_ring \<Rightarrow> (ring_mem \<Rightarrow> u32) \<Rightarrow> (u64 \<Rightarrow> result \<Rightarrow> result)
    \<Rightarrow> 'k msg_machine \<Rightarrow> 'k msg_machine" where
  "read_counter os ring field assign s =
     (let (v, s1) = load_acquire os ring field s in upd_res (assign (ucast v)) s1)"

definition read_outstanding :: "'k os \<Rightarrow> raw_ring \<Rightarrow> (u64 \<Rightarrow> result \<Rightarrow> result) \<Rightarrow> 'k msg_machine
    \<Rightarrow> 'k msg_machine" where
  "read_outstanding os ring assign s =
     (let (v, s1) = ring_outstanding os ring s in upd_res (assign v) s1)"

definition set_source_dropped :: "u64 \<Rightarrow> result \<Rightarrow> result" where
  "set_source_dropped v r = r\<lparr>source_dropped := v\<rparr>"
definition set_source_overflow :: "u64 \<Rightarrow> result \<Rightarrow> result" where
  "set_source_overflow v r = r\<lparr>source_overflow := v\<rparr>"
definition set_target_dropped :: "u64 \<Rightarrow> result \<Rightarrow> result" where
  "set_target_dropped v r = r\<lparr>target_dropped := v\<rparr>"
definition set_target_overflow :: "u64 \<Rightarrow> result \<Rightarrow> result" where
  "set_target_overflow v r = r\<lparr>target_overflow := v\<rparr>"
definition set_source_outstanding :: "u64 \<Rightarrow> result \<Rightarrow> result" where
  "set_source_outstanding v r = r\<lparr>source_outstanding := v\<rparr>"
definition set_target_outstanding :: "u64 \<Rightarrow> result \<Rightarrow> result" where
  "set_target_outstanding v r = r\<lparr>target_outstanding := v\<rparr>"
definition set_pass :: "bool \<Rightarrow> result \<Rightarrow> result" where
  "set_pass ok r = r\<lparr>semantic_pass := ok\<rparr>"

lemmas msg_setters = set_source_dropped_def set_source_overflow_def set_target_dropped_def
  set_target_overflow_def set_source_outstanding_def set_target_outstanding_def set_pass_def

definition data_counters :: "'k os \<Rightarrow> msg_workload \<Rightarrow> 'k msg_machine \<Rightarrow> 'k msg_machine" where
  "data_counters os work s =
     (let s1 = read_counter os (w_source work) sq_dropped set_source_dropped s;
          s2 = read_counter os (w_source work) cq_overflow set_source_overflow s1;
          s3 = read_counter os (w_target work) sq_dropped set_target_dropped s2;
          s4 = read_counter os (w_target work) cq_overflow set_target_overflow s3;
          s5 = read_outstanding os (w_source work) set_source_outstanding s4
      in read_outstanding os (w_target work) set_target_outstanding s5)"

definition data_pass :: "u32 \<Rightarrow> result \<Rightarrow> bool" where
  "data_pass operations r \<longleftrightarrow>
     successful_ops r = ucast operations \<and> sqes_total r = ucast operations \<and>
     source_cqes r = ucast operations \<and> target_cqes r = ucast operations \<and>
     bad_results r = 0 \<and> bad_flags r = 0 \<and> bad_user_data r = 0 \<and> duplicate_events r = 0 \<and>
     missing_events r = 0 \<and> timeouts r = 0 \<and> source_dropped r = 0 \<and> source_overflow r = 0 \<and>
     target_dropped r = 0 \<and> target_overflow r = 0 \<and> source_outstanding r = 0 \<and>
     target_outstanding r = 0"

text \<open>\<open>operations\<close> is a multiple of \<open>QD\<close> where the loop is reached.\<close>

definition run_data_once :: "'k os \<Rightarrow> msg_workload \<Rightarrow> profile_id \<Rightarrow> u32 \<Rightarrow> bool \<Rightarrow> 'k msg_machine
    \<Rightarrow> (int \<times> 'k msg_machine) option" where
  "run_data_once os work profile operations timed s =
     (let s0 = upd_res (\<lambda>_. zero_result\<lparr>logical_ops := ucast operations\<rparr>) s
      in if operations = 0 \<or> operations mod of_nat QD \<noteq> 0 then Some (-1, s0)
         else do {
           (started, s1) \<leftarrow> now_if timed os s0;
           or_fail (for_each (\<lambda>b. data_batch os work profile (of_nat (b * QD)))
                      [0..<unat operations div QD] s1) (\<lambda>s.
           or_fail (set_elapsed os timed started s) (\<lambda>s.
           or_fail (if profile = PROFILE_R0 then idle_check os work s else Some (0, s)) (\<lambda>s.
           conclude_with set_pass (data_pass operations) (data_counters os work s))))
         })"

section \<open>Scoring a batch\<close>

lemma msg_score_seen_err:
  assumes "msg_err r + 2 < 2 ^ 64"
  shows "msg_err (score_seen mp i r) = msg_err r + of_bool (\<not> source_seen mp i) + of_bool (\<not> target_seen mp i)"
proof -
  have a: "msg_err r + 1 < 2 ^ 64" using assms by simp
  have b: "msg_err (r\<lparr>missing_events := missing_events r + 1\<rparr>) + 1 < 2 ^ 64"
    unfolding msg_err_incs(5) [OF a] using assms by simp
  show ?thesis
    using msg_err_incs(5) [OF a] msg_err_incs(5) [OF b]
    by (simp add: score_seen_def Let_def)
qed

lemma msg_err_successful [simp]: "msg_err (r\<lparr>successful_ops := x\<rparr>) = msg_err r"
  by (simp add: msg_err_def)

lemma msg_score_data_err: "msg_err (score_data mp i r) = msg_err (score_seen mp i r)"
  by (simp add: score_data_def Let_def)

interpretation score_data: tally "score_data mp" msg_err "\<lambda>i r. source_seen mp i \<and> target_seen mp i" 2
  for mp
  by unfold_locales (simp_all add: msg_score_data_err msg_score_seen_err)

lemma msg_score_data_goods: "score_data.goods mp is r \<longleftrightarrow> (\<forall>i \<in> set is. source_seen mp i \<and> target_seen mp i)"
  by (induction "is" arbitrary: r) auto

lemma msg_score_data_right:
  "(\<And>i. i \<in> set is \<Longrightarrow> all_right mp i) \<Longrightarrow>
     fold (score_data mp) is r = r\<lparr>successful_ops := successful_ops r + of_nat (length is)\<rparr>"
proof (induction "is" arbitrary: r)
  case (Cons i "is")
  have "score_data mp i r = r\<lparr>successful_ops := successful_ops r + 1\<rparr>"
    using Cons.prems [of i] by (simp add: score_data_def score_seen_def all_right_def Let_def)
  with Cons show ?case by (simp add: add.assoc)
qed simp

text \<open>The pure part of a batch: both drains and the score.\<close>

lemma msg_data_batch_err:
  assumes err: "msg_err r + 2 ^ 36 < 2 ^ 64" and len: "length cs = unat a" "length ct = unat a'"
    and st1: "st1 = drain_cqes (bad_data True base) True base (of_nat QD) a cs zero_map r"
    and r1: "msg_err r1 = msg_err (snd st1)"
    and st2: "st2 = drain_cqes (bad_data False base) False base (of_nat QD) a' ct (fst st1) r1"
  defines "r2 \<equiv> fold (score_data (fst st2)) [0..<QD] (snd st2)"
  shows "msg_err r \<le> msg_err r2" "msg_err r2 \<le> msg_err r + 2 ^ 36"
    "msg_err r2 = msg_err r \<longleftrightarrow> complete (bad_data True base) True base (of_nat QD) cs \<and>
       complete (bad_data False base) False base (of_nat QD) ct"
proof -
  note b = msg_two_drains_bounds [OF err len st1 r1 st2]
  have qd: "unat (of_nat QD :: u32) = QD" by (simp add: QD_def)
  have e2: "msg_err (snd st2) + 2 * length [0..<QD] < 2 ^ 64" using b(3) err by (simp add: QD_def)
  note f = score_data.err_fold [OF e2, of "fst st2"] score_data.err_fold_goods [OF e2, of "fst st2"]
  show "msg_err r \<le> msg_err r2" using f(1) b(1,2) unfolding r2_def by linarith
  show "msg_err r2 \<le> msg_err r + 2 ^ 36" using f(1) b(3) unfolding r2_def by (simp add: QD_def)
  have "msg_err r2 = msg_err r \<longleftrightarrow> msg_err r2 = msg_err (snd st2) \<and> msg_err (snd st2) = msg_err r"
    using f(1) b(1,2) unfolding r2_def by linarith
  also have "\<dots> \<longleftrightarrow> complete (bad_data True base) True base (of_nat QD) cs \<and>
       complete (bad_data False base) False base (of_nat QD) ct"
    using msg_two_drains_iff [OF err len st1 r1 st2] f(2)
    by (auto simp: r2_def msg_score_data_goods qd)
  finally show "msg_err r2 = msg_err r \<longleftrightarrow> complete (bad_data True base) True base (of_nat QD) cs \<and>
       complete (bad_data False base) False base (of_nat QD) ct" .
qed

lemma msg_noted_right:
  assumes "complete bad True base cnt cs" "complete bad' False base cnt ct" "i < unat cnt"
    and "\<And>c j. c \<in> set cs \<Longrightarrow> fills_drain bad True base cnt c = Some j \<Longrightarrow> noted True j (cqe_res c) mp"
    and "\<And>c j. c \<in> set ct \<Longrightarrow> fills_drain bad' False base cnt c = Some j \<Longrightarrow> noted False j (cqe_res c) mp"
  shows "all_right mp i"
proof -
  obtain c where "c \<in> set cs" "fills_drain bad True base cnt c = Some i"
    using msg_complete_fills [OF assms(1,3)] .
  moreover obtain d where "d \<in> set ct" "fills_drain bad' False base cnt d = Some i"
    using msg_complete_fills [OF assms(2,3)] .
  ultimately show ?thesis
    using assms(4,5) by (auto simp: all_right_def noted_def seen_of_def ok_of_def)
qed

lemma msg_data_batch_right:
  assumes err: "msg_err r + 2 ^ 36 < 2 ^ 64" and len: "length cs = unat a" "length ct = unat a'"
    and st1: "st1 = drain_cqes (bad_data True base) True base (of_nat QD) a cs zero_map r"
    and r1: "r1 = (snd st1)\<lparr>target_enters := te\<rparr>"
    and st2: "st2 = drain_cqes (bad_data False base) False base (of_nat QD) a' ct (fst st1) r1"
    and c: "complete (bad_data True base) True base (of_nat QD) cs"
      "complete (bad_data False base) False base (of_nat QD) ct"
  shows "fold (score_data (fst st2)) [0..<QD] (snd st2) =
    r\<lparr>source_cqes := source_cqes r + of_nat QD, target_enters := te,
      target_cqes := target_cqes r + of_nat QD, successful_ops := successful_ops r + of_nat QD\<rparr>"
proof -
  have e1: "msg_err r1 = msg_err (snd st1)" by (simp add: r1 msg_err_def)
  have qd: "unat (of_nat QD :: u32) = QD" by (simp add: QD_def)
  note m = msg_two_drains_complete [OF err len st1 e1 st2 c]
  have "all_right (fst st2) i" if "i \<in> set [0..<QD]" for i
    by (rule msg_noted_right [OF c _ m(3,4)]) (use that in \<open>simp_all add: qd\<close>)
  then have "fold (score_data (fst st2)) [0..<QD] (snd st2) =
      (snd st2)\<lparr>successful_ops := successful_ops (snd st2) + of_nat QD\<rparr>"
    using msg_score_data_right [of "[0..<QD]" "fst st2" "snd st2"] by simp
  then show ?thesis by (simp add: m(1,2) r1 qd)
qed

section \<open>A batch on the machine\<close>

text \<open>What one flawless batch adds to the counters.\<close>

definition data_advance :: "profile_id \<Rightarrow> result \<Rightarrow> result" where
  "data_advance profile r = r\<lparr>sqes_total := sqes_total r + of_nat QD, source_enters := source_enters r + 1,
     source_cqes := source_cqes r + of_nat QD,
     target_enters := target_enters r + (if profile = PROFILE_R0 then 1 else 0),
     target_cqes := target_cqes r + of_nat QD, successful_ops := successful_ops r + of_nat QD\<rparr>"

definition data_group :: "u64 \<Rightarrow> cqe list list \<Rightarrow> bool" where
  "data_group base bs \<longleftrightarrow> (\<exists>cs ct. bs = [cs, ct] \<and> complete (bad_data True base) True base (of_nat QD) cs \<and>
     complete (bad_data False base) False base (of_nat QD) ct)"

text \<open>Errors only grow, by less than \<open>2 ^ 36\<close>; without any, \<open>P\<close> holds.\<close>

definition err_step :: "(('k, result) machine \<Rightarrow> bool) \<Rightarrow> ('k, result) machine \<Rightarrow> ('k, result) machine \<Rightarrow> bool" where
  "err_step P s t \<longleftrightarrow> msg_err (res s) \<le> msg_err (res t) \<and> msg_err (res t) \<le> msg_err (res s) + 2 ^ 36 \<and>
     (msg_err (res t) = msg_err (res s) \<longrightarrow> P t)"

text \<open>A data batch leaves the two counters of the other kind of round alone.\<close>

definition same_pairs :: "result \<Rightarrow> result \<Rightarrow> bool" where
  "same_pairs r r' \<longleftrightarrow> pair_mismatches r' = pair_mismatches r \<and> sentinel_mismatches r' = sentinel_mismatches r"

lemma msg_same_pairs_drain: "same_pairs r (snd (drain_cqes bad source base cnt a cs mp r))"
proof -
  have step: "same_pairs (snd st) (snd (drain_step bad source base cnt c st))" for c st
    by (cases st)
       (auto simp: drain_step_def count_cqe_def same_pairs_def Let_def split: option.split prod.split if_splits)
  have "same_pairs (snd st) (snd (fold (drain_step bad source base cnt) cs st))" for st
  proof (induction cs arbitrary: st)
    case (Cons c cs)
    from Cons [of "drain_step bad source base cnt c st"] step [of st c] show ?case
      by (simp add: same_pairs_def)
  qed (simp add: same_pairs_def)
  from this [of "(mp, note_available a cnt r)"] show ?thesis
    by (simp add: drain_cqes_def same_pairs_def note_available_def split: if_splits)
qed

lemma msg_same_pairs_score: "same_pairs r (fold (score_data mp) is r)"
proof (induction "is" arbitrary: r)
  case (Cons i "is")
  have "same_pairs r (score_data mp i r)"
    by (simp add: score_data_def score_seen_def same_pairs_def Let_def)
  with Cons [of "score_data mp i r"] show ?case by (simp add: same_pairs_def)
qed (simp add: same_pairs_def)

lemma msg_drain_target_outcome:
  "wp (drain_target os work profile s) (outcome (\<lambda>t. reaps [] s t \<and>
     res t = (res s)\<lparr>target_enters := target_enters (res s) + (if profile = PROFILE_R0 then 1 else 0)\<rparr>) s)"
proof (cases "profile = PROFILE_R0")
  case True
  have "wp (or_fail (bounded_enter os (w_target work) 0 (of_nat QD) s) (\<lambda>s.
      Some (0, upd_res (\<lambda>r. r\<lparr>target_enters := target_enters r + 1\<rparr>) s)))
      (outcome (\<lambda>t. reaps [] s t \<and> res t = (res s)\<lparr>target_enters := target_enters (res s) + 1\<rparr>) s)"
    by (rule outcome_or_fail [OF msg_enter_outcome]) (auto simp: reaps_def same_process_D)
  with True show ?thesis by (simp add: drain_target_def)
qed (simp add: drain_target_def)

definition data_step :: "profile_id \<Rightarrow> u64 \<Rightarrow> 'k msg_machine \<Rightarrow> 'k msg_machine \<Rightarrow> bool" where
  "data_step profile base s t \<longleftrightarrow> same_pairs (res s) (res t) \<and>
     err_step (\<lambda>t. (\<exists>g. reaps g s t \<and> data_group base g) \<and> res t = data_advance profile (res s)) s t"

lemma msg_data_batch_outcome:
  assumes err: "msg_err (res s) + 2 ^ 36 < 2 ^ 64"
  shows "wp (data_batch os work profile base s) (outcome (data_step profile base s) s)"
  unfolding data_batch_def prepare_data_batch_def
proof (rule outcome_or_fail [OF msg_prepare_outcome], rule outcome_or_fail)
  fix t assume t: "same_process s t"
  show "wp (bounded_enter os (w_source work) (of_nat QD) (of_nat QD)
      (upd_res (\<lambda>r. r\<lparr>sqes_total := sqes_total r + of_nat QD\<rparr>) t))
      (outcome (\<lambda>u. reaps [] s u \<and> res u = (res s)\<lparr>sqes_total := sqes_total (res s) + of_nat QD\<rparr>) t)"
    by (rule outcome_rebase [OF same_resources_ops(1)], rule outcome_mono [OF msg_enter_outcome])
       (use t in \<open>simp add: reaps_def same_process_D\<close>)
next
  fix u assume u: "reaps [] s u \<and> res u = (res s)\<lparr>sqes_total := sqes_total (res s) + of_nat QD\<rparr>"
  let ?u = "upd_res (\<lambda>r. r\<lparr>source_enters := source_enters r + 1\<rparr>) u"
  obtain mp1 s1 where d1: "drain_data_cq os (w_source work) True base (of_nat QD) zero_map ?u = (mp1, s1)"
    by (cases "drain_data_cq os (w_source work) True base (of_nat QD) zero_map ?u")
  obtain cs a where cs: "length cs = unat a" "reaps [cs] ?u s1" "same_resources ?u s1"
      "(mp1, res s1) = drain_cqes (bad_data True base) True base (of_nat QD) a cs zero_map (res ?u)"
    using msg_drain_with [OF d1 [unfolded drain_data_cq_def]] by blast
  have u1: "same_resources u s1" using same_resources_trans [OF _ cs(3)] by simp
  have e: "msg_err (res ?u) = msg_err (res s)" using u by (simp add: msg_err_def)
  with err have eu: "msg_err (res ?u) + 2 ^ 36 < 2 ^ 64" by simp
  have "wp (or_fail (drain_target os work profile s1) (\<lambda>s.
      let (mp2, s2) = drain_data_cq os (w_target work) False base (of_nat QD) mp1 s
      in Some (0, upd_res (fold (score_data mp2) [0..<QD]) s2)))
      (outcome (data_step profile base s) s1)"
  proof (rule outcome_or_fail [OF msg_drain_target_outcome])
    fix v
    let ?te = "target_enters (res s1) + (if profile = PROFILE_R0 then 1 else 0)"
    assume v: "reaps [] s1 v \<and> res v = (res s1)\<lparr>target_enters := ?te\<rparr>"
    obtain mp2 s2 where d2: "drain_data_cq os (w_target work) False base (of_nat QD) mp1 v = (mp2, s2)"
      by (cases "drain_data_cq os (w_target work) False base (of_nat QD) mp1 v")
    obtain ct a' where ct: "length ct = unat a'" "reaps [ct] v s2" "same_resources v s2"
        "(mp2, res s2) = drain_cqes (bad_data False base) False base (of_nat QD) a' ct mp1 (res v)"
      using msg_drain_with [OF d2 [unfolded drain_data_cq_def]] by blast
    define st1 where "st1 = drain_cqes (bad_data True base) True base (of_nat QD) a cs zero_map (res ?u)"
    define st2 where "st2 = drain_cqes (bad_data False base) False base (of_nat QD) a' ct (fst st1) (res v)"
    have st1: "st1 = (mp1, res s1)" unfolding st1_def cs(4) ..
    have "st2 = (mp2, res s2)" unfolding st2_def st1 fst_conv ct(4) ..
    note st = st1 this
    have r1: "res v = (snd st1)\<lparr>target_enters := ?te\<rparr>" using v st by simp
    then have e1: "msg_err (res v) = msg_err (snd st1)" by (simp add: msg_err_def)
    note b = msg_data_batch_err [OF eu cs(1) ct(1) st1_def e1 st2_def]
    let ?t = "upd_res (fold (score_data mp2) [0..<QD]) s2"
    have b': "msg_err (res s) \<le> msg_err (res ?t)" "msg_err (res ?t) \<le> msg_err (res s) + 2 ^ 36"
      using b(1,2) unfolding e st by simp_all
    have "(\<exists>g. reaps g s ?t \<and> data_group base g) \<and> res ?t = data_advance profile (res s)"
      if "msg_err (res ?t) = msg_err (res s)"
    proof -
      have c: "complete (bad_data True base) True base (of_nat QD) cs"
          "complete (bad_data False base) False base (of_nat QD) ct"
        using that b(3) unfolding e st by simp_all
      have "reaps [cs, ct] s ?t" using u cs(2) ct(2) v by (simp add: reaps_def)
      moreover have "target_enters (res s1) = target_enters (res s)"
        using msg_two_drains_complete(1) [OF eu cs(1) ct(1) st1_def e1 st2_def c] u st by simp
      then have "res ?t = data_advance profile (res s)"
        using msg_data_batch_right [OF eu cs(1) ct(1) st1_def r1 st2_def c] u
        unfolding st by (simp add: data_advance_def)
      ultimately show ?thesis using c by (auto simp: data_group_def)
    qed
    moreover have "same_pairs (res ?u) (res s1)"
      using msg_same_pairs_drain [of "res ?u" "bad_data True base" True base "of_nat QD" a cs zero_map]
      by (simp only: cs(4) [symmetric] snd_conv)
    moreover have "same_pairs (res v) (res s2)"
      using msg_same_pairs_drain [of "res v" "bad_data False base" False base "of_nat QD" a' ct mp1]
      by (simp only: ct(4) [symmetric] snd_conv)
    then have "same_pairs (res v) (res ?t)"
      using msg_same_pairs_score [of "res s2" mp2 "[0..<QD]"] by (simp add: same_pairs_def)
    ultimately have "data_step profile base s ?t"
      using b' u v by (simp add: data_step_def err_step_def same_pairs_def)
    then show "wp (let (mp2, s2) = drain_data_cq os (w_target work) False base (of_nat QD) mp1 v
        in Some (0, upd_res (fold (score_data mp2) [0..<QD]) s2))
        (outcome (data_step profile base s) v)"
      by (simp add: d2 same_resources_trans [OF ct(3)])
  qed
  from outcome_rebase [OF u1 this]
  show "wp (let (mp1, s1) = drain_data_cq os (w_source work) True base (of_nat QD) zero_map ?u
      in or_fail (drain_target os work profile s1) (\<lambda>s.
         let (mp2, s2) = drain_data_cq os (w_target work) False base (of_nat QD) mp1 s
         in Some (0, upd_res (fold (score_data mp2) [0..<QD]) s2)))
      (outcome (data_step profile base s) u)"
    by (simp add: d1)
qed

section \<open>The whole round\<close>

text \<open>The batches of a round: the \<open>b\<close>th starts at sequence number \<open>64 * b\<close>.\<close>

definition data_batches :: "nat \<Rightarrow> cqe list list \<Rightarrow> bool" where
  "data_batches n = grouped (\<lambda>b. data_group (of_nat (b * QD))) n"

text \<open>All counters after \<open>n\<close> flawless batches, and the result of a passing round.\<close>

definition after_batches :: "profile_id \<Rightarrow> u32 \<Rightarrow> nat \<Rightarrow> result" where
  "after_batches profile operations n =
     zero_result\<lparr>logical_ops := ucast operations, sqes_total := of_nat (n * QD),
       source_cqes := of_nat (n * QD), target_cqes := of_nat (n * QD), source_enters := of_nat n,
       target_enters := (if profile = PROFILE_R0 then of_nat n else 0),
       successful_ops := of_nat (n * QD)\<rparr>"

definition data_result :: "profile_id \<Rightarrow> u32 \<Rightarrow> u64 \<Rightarrow> result" where
  "data_result profile operations ns =
     (after_batches profile operations (unat operations div QD))\<lparr>elapsed_ns := ns, semantic_pass := True\<rparr>"

lemma msg_advance_batches:
  "data_advance profile (after_batches profile operations n) = after_batches profile operations (Suc n)"
  by (simp add: data_advance_def after_batches_def zero_result_def ring_distribs add.commute)

text \<open>The state after \<open>b\<close> batches: few errors, and none only when all went well.\<close>

definition data_inv :: "profile_id \<Rightarrow> u32 \<Rightarrow> 'k msg_machine \<Rightarrow> nat \<Rightarrow> 'k msg_machine \<Rightarrow> bool" where
  "data_inv profile operations s b t \<longleftrightarrow>
     msg_err (res t) \<le> b * 2 ^ 36 \<and> pair_mismatches (res t) = 0 \<and> sentinel_mismatches (res t) = 0 \<and>
     (msg_err (res t) = 0 \<longrightarrow>
        logged (\<lambda>b. data_group (of_nat (b * QD))) b s t \<and> res t = after_batches profile operations b)"

lemma msg_batches_bound:
  assumes "b < unat (operations :: u32) div QD"
  shows "b * 2 ^ 36 + 2 ^ 36 < 2 ^ 64"
proof -
  have "b < 2 ^ 26" using assms unat_lt32 [of operations] by (simp add: QD_def)
  then show ?thesis by simp
qed

lemma msg_data_inv_step:
  assumes b: "b < unat operations div QD" and inv: "data_inv profile operations s b t"
    and step: "data_step profile (of_nat (b * QD)) t u"
  shows "data_inv profile operations s (Suc b) u"
proof -
  have e: "msg_err (res t) \<le> msg_err (res u)" "msg_err (res u) \<le> msg_err (res t) + 2 ^ 36"
    using step by (simp_all add: data_step_def err_step_def)
  have "logged (\<lambda>b. data_group (of_nat (b * QD))) (Suc b) s u \<and> res u = after_batches profile operations (Suc b)"
    if "msg_err (res u) = 0"
  proof -
    have zero: "msg_err (res t) = 0" "msg_err (res u) = msg_err (res t)" using that e(1) by simp_all
    then obtain g where "reaps g t u" "data_group (of_nat (b * QD)) g"
        "res u = data_advance profile (res t)"
      using step by (auto simp: data_step_def err_step_def)
    with zero(1) inv show ?thesis
      by (auto simp: data_inv_def msg_advance_batches intro: logged_step)
  qed
  moreover have "msg_err (res u) \<le> Suc b * 2 ^ 36" using e(2) inv by (simp add: data_inv_def)
  ultimately show ?thesis
    using inv step by (simp add: data_inv_def data_step_def same_pairs_def)
qed

lemma msg_data_loop:
  assumes "data_inv profile operations s 0 t"
  shows "wp (for_each (\<lambda>b. data_batch os work profile (of_nat (b * QD))) [0..<unat operations div QD] t)
    (outcome (data_inv profile operations s (unat operations div QD)) t)"
proof (rule outcome_for_each [where P = "data_inv profile operations s", OF _ assms])
  fix b u assume b: "b < unat operations div QD" and u: "data_inv profile operations s b u"
  have err: "msg_err (res u) + 2 ^ 36 < 2 ^ 64"
    using u msg_batches_bound [OF b] by (simp add: data_inv_def)
  show "wp (data_batch os work profile (of_nat (b * QD)) u) (outcome (data_inv profile operations s (Suc b)) u)"
    by (rule outcome_mono [OF msg_data_batch_outcome [OF err]]) (rule msg_data_inv_step [OF b u])
qed simp

lemma msg_set_elapsed_outcome:
  "wp (set_elapsed os timed started s) (outcome (\<lambda>t. reaps [] s t \<and> (\<exists>ns. res t = (res s)\<lparr>elapsed_ns := ns\<rparr>)) s)"
proof (cases timed)
  case True
  have "wp (do { (now, s1) \<leftarrow> now_ns os s; Some (0, upd_res (\<lambda>r. r\<lparr>elapsed_ns := now - started\<rparr>) s1) })
      (outcome (\<lambda>t. reaps [] s t \<and> (\<exists>ns. res t = (res s)\<lparr>elapsed_ns := ns\<rparr>)) s)"
  proof (rule outcome_bind)
    show "wp (now_ns os s) (\<lambda>a t. same_process s t)"
      using now_if_same [of True os s] by (simp add: now_if_def)
  next
    fix a t assume "same_process s t"
    then show "wp (Some (0, upd_res (\<lambda>r. r\<lparr>elapsed_ns := a - started\<rparr>) t))
        (outcome (\<lambda>t. reaps [] s t \<and> (\<exists>ns. res t = (res s)\<lparr>elapsed_ns := ns\<rparr>)) t)"
      by (auto simp: reaps_def same_process_D)
  qed
  with True show ?thesis by (simp add: set_elapsed_def)
next
  case False
  then show ?thesis
    by (simp add: set_elapsed_def) (rule exI [of _ "elapsed_ns (res s)"], simp)
qed

text \<open>The idle call may only raise \<open>bad_results\<close>.\<close>

lemma msg_idle_outcome:
  assumes "msg_err (res s) + 1 < 2 ^ 64"
  shows "wp (idle_check os work s) (outcome (\<lambda>t. reaps [] s t \<and>
    (res t = res s \<or> msg_err (res t) \<noteq> 0 \<and> bad_results (res t) \<noteq> 0)) s)"
proof -
  obtain n s1 where 1: "cq_available os (w_target work) s = (n, s1)" by (cases "cq_available os (w_target work) s")
  have s1: "same_process s s1" using same_process_ops(8) [of s os "w_target work"] 1 by simp
  have inc: "bad_results (res s) + 1 \<noteq> 0"
  proof -
    have "unat (bad_results (res s)) \<le> msg_err (res s)" by (simp add: msg_err_def)
    with assms show ?thesis by (intro inc64_neq_zero) linarith
  qed
  have "wp (or_fail (bounded_enter os (w_target work) 0 0 s1) (\<lambda>s.
      let (after, s2) = cq_available os (w_target work) s
      in Some (0, if after \<noteq> n then upd_res (\<lambda>r. r\<lparr>bad_results := bad_results r + 1\<rparr>) s2 else s2)))
      (outcome (\<lambda>t. reaps [] s t \<and> (res t = res s \<or> msg_err (res t) \<noteq> 0 \<and> bad_results (res t) \<noteq> 0)) s1)"
  proof (rule outcome_or_fail [OF msg_enter_outcome])
    fix t assume t: "same_process s1 t"
    obtain m u where 2: "cq_available os (w_target work) t = (m, u)" by (cases "cq_available os (w_target work) t")
    have u: "same_process t u" using same_process_ops(8) [of t os "w_target work"] 2 by simp
    note f = same_process_D [OF s1] same_process_D [OF t] same_process_D [OF u]
    have err: "msg_err ((res s)\<lparr>bad_results := bad_results (res s) + 1\<rparr>) \<noteq> 0"
      using msg_err_incs(1) [OF assms] by simp
    have facts: "res u = res s" "reaps [] s u" "same_resources t u"
      using f same_process_resources [OF u] by (simp_all add: reaps_def)
    define u' where "u' = (if m \<noteq> n then upd_res (\<lambda>r. r\<lparr>bad_results := bad_results r + 1\<rparr>) u else u)"
    have "same_resources t u'" "reaps [] s u'"
      using facts(2) same_resources_trans [OF facts(3)] by (simp_all add: u'_def reaps_def)
    moreover have "res u' = res s \<or> msg_err (res u') \<noteq> 0 \<and> bad_results (res u') \<noteq> 0"
    proof (cases "m = n")
      case False
      then have "res u' = (res s)\<lparr>bad_results := bad_results (res s) + 1\<rparr>"
        using facts(1) by (simp add: u'_def)
      then have "bad_results (res u') = bad_results (res s) + 1"
          "msg_err (res u') = msg_err ((res s)\<lparr>bad_results := bad_results (res s) + 1\<rparr>)" by simp_all
      then show ?thesis using err inc by metis
    qed (simp add: u'_def facts(1))
    ultimately
    show "wp (let (after, s2) = cq_available os (w_target work) t
        in Some (0, if after \<noteq> n then upd_res (\<lambda>r. r\<lparr>bad_results := bad_results r + 1\<rparr>) s2 else s2))
        (outcome (\<lambda>t. reaps [] s t \<and> (res t = res s \<or> msg_err (res t) \<noteq> 0 \<and> bad_results (res t) \<noteq> 0)) t)"
      by (simp only: 2 Let_def prod.case wp_Some outcome_zero u'_def [symmetric])
  qed
  from outcome_rebase [OF same_process_resources [OF s1] this] 1 show ?thesis by (simp add: idle_check_def)
qed

text \<open>The six counters read at the end.\<close>

definition with_counters :: "result \<Rightarrow> result \<Rightarrow> bool" where
  "with_counters r r' \<longleftrightarrow> (\<exists>sd so td tov sl tl. r' = r\<lparr>source_dropped := sd, source_overflow := so,
     target_dropped := td, target_overflow := tov, source_outstanding := sl, target_outstanding := tl\<rparr>)"

lemma msg_read_counter:
  "same_resources s (read_counter os ring f g s)" "reaps [] s (read_counter os ring f g s)"
  "\<exists>v. res (read_counter os ring f g s) = g v (res s)"
  by (auto simp: read_counter_def same_resources_def reaps_def split_beta Let_def)

lemma msg_read_outstanding:
  "same_resources s (read_outstanding os ring g s)" "reaps [] s (read_outstanding os ring g s)"
  "\<exists>v. res (read_outstanding os ring g s) = g v (res s)"
  by (auto simp: read_outstanding_def same_resources_def reaps_def split_beta Let_def)

lemma msg_data_counters:
  "same_resources s (data_counters os work s)" "reaps [] s (data_counters os work s)"
  "with_counters (res s) (res (data_counters os work s))"
proof -
  show "same_resources s (data_counters os work s)"
    by (simp add: data_counters_def same_resources_def read_counter_def read_outstanding_def split_beta Let_def)
  show "reaps [] s (data_counters os work s)"
    by (simp add: data_counters_def reaps_def read_counter_def read_outstanding_def split_beta Let_def)
  show "with_counters (res s) (res (data_counters os work s))"
  proof -
    let ?s1 = "read_counter os (w_source work) sq_dropped set_source_dropped s"
    let ?s2 = "read_counter os (w_source work) cq_overflow set_source_overflow ?s1"
    let ?s3 = "read_counter os (w_target work) sq_dropped set_target_dropped ?s2"
    let ?s4 = "read_counter os (w_target work) cq_overflow set_target_overflow ?s3"
    let ?s5 = "read_outstanding os (w_source work) set_source_outstanding ?s4"
    obtain v1 where 1: "res ?s1 = set_source_dropped v1 (res s)" using msg_read_counter(3) by blast
    obtain v2 where 2: "res ?s2 = set_source_overflow v2 (res ?s1)" using msg_read_counter(3) by blast
    obtain v3 where 3: "res ?s3 = set_target_dropped v3 (res ?s2)" using msg_read_counter(3) by blast
    obtain v4 where 4: "res ?s4 = set_target_overflow v4 (res ?s3)" using msg_read_counter(3) by blast
    obtain v5 where 5: "res ?s5 = set_source_outstanding v5 (res ?s4)" using msg_read_outstanding(3) by blast
    obtain v6 where 6: "res (data_counters os work s) = set_target_outstanding v6 (res ?s5)"
      unfolding data_counters_def Let_def using msg_read_outstanding(3) by blast
    show ?thesis
      unfolding with_counters_def 6 5 4 3 2 1 msg_setters by (intro exI) (rule refl)
  qed
qed

lemma msg_data_pass_result:
  assumes pass: "data_pass operations r'" and w: "with_counters (r\<lparr>elapsed_ns := ns\<rparr>) r'"
    and r: "msg_err r = 0 \<Longrightarrow> r = after_batches profile operations (unat operations div QD)"
    and pairs: "pair_mismatches r = 0" "sentinel_mismatches r = 0"
  shows "msg_err r = 0 \<and> set_pass True r' = data_result profile operations ns"
proof -
  have e: "msg_err r = 0"
    using pass w pairs by (auto simp: data_pass_def with_counters_def msg_err_zero)
  with r have "r = after_batches profile operations (unat operations div QD)" by simp
  with pass w have "set_pass True r' = data_result profile operations ns"
    by (auto simp: data_pass_def with_counters_def set_pass_def data_result_def after_batches_def zero_result_def)
  with e show ?thesis by simp
qed

text \<open>
  A round that returns 0 has seen, batch by batch, exactly the expected completions on both
  rings, and its result is determined but for the time.
\<close>

definition data_done :: "profile_id \<Rightarrow> u32 \<Rightarrow> 'k msg_machine \<Rightarrow> 'k msg_machine \<Rightarrow> bool" where
  "data_done profile operations s t \<longleftrightarrow>
     (\<exists>bs. reaps bs s t \<and> data_batches (unat operations div QD) bs) \<and>
     (\<exists>ns. res t = data_result profile operations ns)"

lemma msg_data_inv_after:
  assumes "data_inv profile operations s b t" and "reaps [] t u"
    and "res u = (res t)\<lparr>elapsed_ns := ns\<rparr>"
  shows "msg_err (res u) = msg_err (res t)" "msg_err (res t) = 0 \<Longrightarrow> logged (\<lambda>b. data_group (of_nat (b * QD))) b s u"
  using assms by (auto simp: data_inv_def msg_err_def intro: logged_quiet)

lemma msg_data_once_outcome:
  "wp (run_data_once os work profile operations timed s) (outcome (data_done profile operations s) s)"
proof -
  let ?n = "unat operations div QD" and ?s0 = "upd_res (\<lambda>_. zero_result\<lparr>logical_ops := ucast operations\<rparr>) s"
  let ?log = "\<lambda>b. data_group (of_nat (b * QD))"
  have inv0: "data_inv profile operations s 0 t" if "same_process ?s0 t" for t
    using that by (simp add: data_inv_def same_process_D msg_err_def zero_result_def after_batches_def reaps_def)
  have bound: "?n * 2 ^ 36 + 1 < 2 ^ 64"
  proof -
    have "?n < 2 ^ 26" using unat_lt32 [of operations] by (simp add: QD_def)
    then show ?thesis by simp
  qed
  have "wp (do { (started, s1) \<leftarrow> now_if timed os ?s0;
       or_fail (for_each (\<lambda>b. data_batch os work profile (of_nat (b * QD))) [0..<?n] s1) (\<lambda>s.
       or_fail (set_elapsed os timed started s) (\<lambda>s.
       or_fail (if profile = PROFILE_R0 then idle_check os work s else Some (0, s)) (\<lambda>s.
       conclude_with set_pass (data_pass operations) (data_counters os work s)))) })
     (outcome (data_done profile operations s) ?s0)"
  proof (rule outcome_bind [OF now_if_same])
    fix started t assume t: "same_process ?s0 t"
    show "wp (or_fail (for_each (\<lambda>b. data_batch os work profile (of_nat (b * QD))) [0..<?n] t) (\<lambda>s.
       or_fail (set_elapsed os timed started s) (\<lambda>s.
       or_fail (if profile = PROFILE_R0 then idle_check os work s else Some (0, s)) (\<lambda>s.
       conclude_with set_pass (data_pass operations) (data_counters os work s)))))
     (outcome (data_done profile operations s) t)"
    proof (rule outcome_or_fail [OF msg_data_loop [OF inv0 [OF t]]], rule outcome_or_fail [OF msg_set_elapsed_outcome])
      fix u v
      assume u: "data_inv profile operations s ?n u"
        and v: "reaps [] u v \<and> (\<exists>ns. res v = (res u)\<lparr>elapsed_ns := ns\<rparr>)"
      then obtain ns where ns: "res v = (res u)\<lparr>elapsed_ns := ns\<rparr>" by blast
      note a = msg_data_inv_after [OF u conjunct1 [OF v] ns]
      let ?P = "\<lambda>w. reaps [] v w \<and> (res w = res v \<or> msg_err (res w) \<noteq> 0 \<and> bad_results (res w) \<noteq> 0)"
      have "msg_err (res v) + 1 < 2 ^ 64" using a(1) u bound by (simp add: data_inv_def)
      then have idle: "wp (if profile = PROFILE_R0 then idle_check os work v else Some (0, v)) (outcome ?P v)"
        using msg_idle_outcome [of v os work] by (cases "profile = PROFILE_R0") simp_all
      show "wp (or_fail (if profile = PROFILE_R0 then idle_check os work v else Some (0, v)) (\<lambda>s.
         conclude_with set_pass (data_pass operations) (data_counters os work s)))
         (outcome (data_done profile operations s) v)"
      proof (rule outcome_or_fail [OF idle])
        fix w assume w: "?P w"
        note c = msg_data_counters [of w os work]
        have "wp (conclude_with set_pass (data_pass operations) (data_counters os work w))
           (outcome (data_done profile operations s) (data_counters os work w))"
        proof (rule outcome_mono [OF conclude_with_outcome])
          fix x assume x: "data_pass operations (res (data_counters os work w)) \<and>
             reaps [] (data_counters os work w) x \<and> res x = set_pass True (res (data_counters os work w))"
          have "bad_results (res w) = 0"
            using c(3) x by (auto simp: with_counters_def data_pass_def)
          with w have "res w = (res u)\<lparr>elapsed_ns := ns\<rparr>" using ns by simp
          with c(3) have wc: "with_counters ((res u)\<lparr>elapsed_ns := ns\<rparr>) (res (data_counters os work w))" by simp
          have fin: "msg_err (res u) = 0 \<and> res x = data_result profile operations ns"
            using msg_data_pass_result [OF conjunct1 [OF x] wc, of profile] u x by (simp add: data_inv_def)
          then have "logged ?log ?n s v" using a(2) by simp
          moreover have "reaps [] v x" using w c(2) x by (auto simp: reaps_def)
          ultimately have "logged ?log ?n s x" by (rule logged_quiet)
          with fin show "data_done profile operations s x"
            by (auto simp: data_done_def data_batches_def logged_def)
        qed
        from outcome_rebase [OF c(1) this]
        show "wp (conclude_with set_pass (data_pass operations) (data_counters os work w))
           (outcome (data_done profile operations s) w)" .
      qed
    qed
  qed
  from outcome_rebase [OF same_resources_ops(1) this] show ?thesis
    unfolding run_data_once_def Let_def by auto
qed

end
