(* ===== verification/Msg_Files.thy ===== *)
theory Msg_Files
  imports Msg_Data
begin

text \<open>
  io_uring_msg_ring_round.c: registered files and the operations of \<open>run_send_fd_once\<close>, a
  round of \<open>IORING_MSG_SEND_FD\<close> requests into the sparse file table of a ring of its own,
  whose slots are then read back.
\<close>

section \<open>Bytes in memory\<close>

text \<open>The memory shared with the kernel consists of little-endian 32-bit words.\<close>

definition load_byte :: "(u64 \<Rightarrow> u32) \<Rightarrow> u64 \<Rightarrow> u8" where
  "load_byte m a = ucast (drop_bit (8 * unat (a AND 3)) (m (a AND NOT 3)))"

definition store_byte :: "u64 \<Rightarrow> u8 \<Rightarrow> (u64 \<Rightarrow> u32) \<Rightarrow> u64 \<Rightarrow> u32" where
  "store_byte a v m =
     (let k = 8 * unat (a AND 3); w = m (a AND NOT 3)
      in m(a AND NOT 3 := (w AND NOT (push_bit k 0xff)) OR push_bit k (ucast v)))"

definition memory :: "('k, 'r) machine \<Rightarrow> u64 \<Rightarrow> u32" where
  "memory s = sh_umem (sh s)"

text \<open>\<open>memset(buffers, 0, sizeof(buffers))\<close>\<close>

definition clear_buffers :: "u64 \<Rightarrow> 'k msg_machine \<Rightarrow> 'k msg_machine" where
  "clear_buffers buffers s =
     s\<lparr>sh := (sh s)\<lparr>sh_umem := fold (\<lambda>i. store_byte (buffers + of_nat i) 0) [0..<QD] (memory s)\<rparr>\<rparr>"

section \<open>Registered files\<close>

definition register_source_file :: "'k os \<Rightarrow> msg_workload \<Rightarrow> 'k msg_machine
    \<Rightarrow> int \<times> msg_workload \<times> 'k msg_machine" where
  "register_source_file os work s =
     (let (ret, s1) = sys (os_register os (ring_fd (w_source work)) (REGISTER_FILES [w_memfd work])) s
      in if ret \<noteq> 0 then (-1, work, s1)
         else (0, work\<lparr>w_source_files_registered := True\<rparr>, s1))"

definition unregister_files :: "'k os \<Rightarrow> raw_ring \<Rightarrow> 'k msg_machine \<Rightarrow> int \<times> 'k msg_machine" where
  "unregister_files os ring = sys (os_register os (ring_fd ring) UNREGISTER_FILES)"

definition register_sparse_files :: "'k os \<Rightarrow> raw_ring \<Rightarrow> u32 \<Rightarrow> 'k msg_machine \<Rightarrow> int \<times> 'k msg_machine" where
  "register_sparse_files os ring slots = sys (os_register os (ring_fd ring) (REGISTER_FILES2_SPARSE slots))"

text \<open>\<open>(unsigned char)((i * 131U + 17U) & 0xffU)\<close>\<close>

definition sentinel_byte :: "nat \<Rightarrow> u8" where
  "sentinel_byte i = ucast ((of_nat i * 131 + 17 :: u32) AND 0xff)"

definition setup_sentinel_file :: "'k os \<Rightarrow> msg_workload \<Rightarrow> 'k msg_machine
    \<Rightarrow> int \<times> msg_workload \<times> 'k msg_machine" where
  "setup_sentinel_file os work s =
     (let (fd, s1) = sys (os_memfd os) s;
          work1 = work\<lparr>w_memfd := fd\<rparr>;
          s2 = open_fd fd s1
      in if fd < 0 then (-1, work1, s2)
         else
           (let work2 = work1\<lparr>w_sentinel := map sentinel_byte [0..<SENTINEL_BYTES]\<rparr>;
                (nr, s3) = sys (os_pwrite os fd (w_sentinel work2)) s2
            in if nr \<noteq> int SENTINEL_BYTES then (-1, work2, s3)
               else register_source_file os work2 s3))"

section \<open>Installing the slots\<close>

text \<open>The last loop of a batch: the slots that both completions name go into the bitmap.\<close>

definition slot_taken :: "u64 list \<Rightarrow> nat \<Rightarrow> bool" where
  "slot_taken bm slot \<longleftrightarrow> is_seen (slot mod 64) (bm ! (slot div 64))"

definition take_slot :: "nat \<Rightarrow> u64 list \<Rightarrow> u64 list" where
  "take_slot slot bm = bm[slot div 64 := mark_seen (slot mod 64) (bm ! (slot div 64))]"

definition score_fd :: "batch_map \<Rightarrow> nat \<Rightarrow> u64 list \<times> result \<Rightarrow> u64 list \<times> result" where
  "score_fd mp i br =
     (let (bm, r) = br; r1 = score_seen mp i r; slot = unat (source_res mp i)
      in if \<not> all_right mp i then (bm, r1)
         else if source_res mp i \<noteq> target_res mp i
         then (bm, r1\<lparr>pair_mismatches := pair_mismatches r1 + 1\<rparr>)
         else if slot_taken bm slot then (bm, r1\<lparr>duplicate_events := duplicate_events r1 + 1\<rparr>)
         else (take_slot slot bm,
               r1\<lparr>successful_ops := successful_ops r1 + 1, slots_installed := slots_installed r1 + 1\<rparr>))"

definition fd_batch :: "'k os \<Rightarrow> msg_workload \<Rightarrow> raw_ring \<Rightarrow> u32 \<Rightarrow> u64 \<Rightarrow> u64 list \<times> 'k msg_machine
    \<Rightarrow> (int \<times> u64 list \<times> 'k msg_machine) option" where
  "fd_batch os work target operations base bs =
     (let (bm, s) = bs;
          (rc, s1) = prepare_send_fd_batch os work target base (of_nat QD) s
      in if rc \<noteq> 0 then Some (-1, bm, s1)
         else do {
           (rc, s2) \<leftarrow> bounded_enter os (w_source work) (of_nat QD) (of_nat QD)
                         (upd_res (\<lambda>r. r\<lparr>sqes_total := sqes_total r + of_nat QD\<rparr>) s1);
           if rc \<noteq> 0 then Some (-1, bm, s2)
           else
             (let (mp1, s3) = drain_send_fd_cq os (w_source work) True base (of_nat QD) operations zero_map
                                (upd_res (\<lambda>r. r\<lparr>source_enters := source_enters r + 1\<rparr>) s2);
                  (mp2, s4) = drain_send_fd_cq os target False base (of_nat QD) operations mp1 s3;
                  (bm1, r1) = fold (score_fd mp2) [0..<QD] (bm, res s4)
              in Some (0, bm1, upd_res (\<lambda>_. r1) s4))
         })"

text \<open>The slots no completion named.\<close>

definition missing_slots :: "u64 list \<Rightarrow> u32 \<Rightarrow> result \<Rightarrow> result" where
  "missing_slots bm operations =
     fold (\<lambda>n r. if \<not> slot_taken bm n then r\<lparr>missing_events := missing_events r + 1\<rparr> else r)
       [0..<unat operations]"

section \<open>Reading the slots back\<close>

definition note_reads :: "u32 \<Rightarrow> result \<Rightarrow> result" where
  "note_reads available r =
     (if available \<noteq> of_nat QD
      then (let r1 = r\<lparr>missing_events := missing_events r +
                        (if available < of_nat QD then ucast (of_nat QD - available) else 0)\<rparr>
            in r1\<lparr>bad_user_data := bad_user_data r1 +
                   (if available > of_nat QD then ucast (available - of_nat QD) else 0)\<rparr>)
      else r)"

definition verify_step :: "u64 \<Rightarrow> cqe \<Rightarrow> (nat \<Rightarrow> bool) \<times> result \<Rightarrow> (nat \<Rightarrow> bool) \<times> result" where
  "verify_step base c sr =
     (let (seen, r) = sr
      in case decode_sequence (cqe_user_data c) VERIFY_TAG base (of_nat QD) of
           None \<Rightarrow> (seen, r\<lparr>bad_user_data := bad_user_data r + 1\<rparr>)
         | Some index \<Rightarrow>
             if seen index then (seen, r\<lparr>duplicate_events := duplicate_events r + 1\<rparr>)
             else
               (let r1 = (if cqe_res c \<noteq> 1 then r\<lparr>bad_results := bad_results r + 1\<rparr> else r);
                    r2 = (if cqe_flags c \<noteq> 0 then r1\<lparr>bad_flags := bad_flags r1 + 1\<rparr> else r1)
                in (seen(index := True), r2)))"

definition score_read :: "u8 list \<Rightarrow> (u64 \<Rightarrow> u32) \<Rightarrow> u64 \<Rightarrow> (nat \<Rightarrow> bool) \<Rightarrow> u64 \<Rightarrow> nat \<Rightarrow> result \<Rightarrow> result" where
  "score_read sentinel m buffers seen base i r =
     (let slot = ucast base + of_nat i :: u32;
          r1 = (if \<not> seen i then r\<lparr>missing_events := missing_events r + 1\<rparr>
                else r\<lparr>verify_reads := verify_reads r + 1\<rparr>)
      in if load_byte m (buffers + of_nat i) \<noteq> sentinel ! unat (slot mod of_nat SENTINEL_BYTES)
         then r1\<lparr>sentinel_mismatches := sentinel_mismatches r1 + 1\<rparr>
         else r1\<lparr>slots_verified := slots_verified r1 + 1\<rparr>)"

text \<open>What is read from the ring and from the buffers is read in the state \<open>s2\<close>.\<close>

definition read_back :: "'k os \<Rightarrow> msg_workload \<Rightarrow> raw_ring \<Rightarrow> u64 \<Rightarrow> u64 \<Rightarrow> 'k msg_machine \<Rightarrow> 'k msg_machine" where
  "read_back os work target buffers base s =
     (let (head, s1) = load_acquire os target cq_head s;
          (tail, s2) = load_acquire os target cq_tail s1;
          available = tail - head;
          cs = copy_cqes target head available s2;
          (seen, r1) = fold (verify_step base) cs (\<lambda>_. False, note_reads available (res s2));
          s3 = store_release target cq_head_update tail (upd_res (\<lambda>_. r1) s2);
          s4 = s3\<lparr>reaped := reaped s3 @ [cs]\<rparr>
      in upd_res (fold (score_read (w_sentinel work) (memory s4) buffers seen base) [0..<QD]) s4)"

definition verify_batch :: "'k os \<Rightarrow> msg_workload \<Rightarrow> raw_ring \<Rightarrow> u64 \<Rightarrow> u64 \<Rightarrow> 'k msg_machine
    \<Rightarrow> (int \<times> 'k msg_machine) option" where
  "verify_batch os work target buffers base s =
     or_fail (Some (prepare_read_batch os target buffers base (of_nat QD) (clear_buffers buffers s))) (\<lambda>s.
     or_fail (bounded_enter os target (of_nat QD) (of_nat QD) s) (\<lambda>s.
     Some (0, read_back os work target buffers base
                (upd_res (\<lambda>r. r\<lparr>verify_enters := verify_enters r + 1\<rparr>) s))))"

definition verify_fixed_files :: "'k os \<Rightarrow> msg_workload \<Rightarrow> raw_ring \<Rightarrow> u64 \<Rightarrow> u32 \<Rightarrow> 'k msg_machine
    \<Rightarrow> (int \<times> 'k msg_machine) option" where
  "verify_fixed_files os work target buffers slots =
     for_each (\<lambda>b. verify_batch os work target buffers (of_nat (b * QD))) [0..<unat slots div QD]"

section \<open>The round\<close>

text \<open>From the registration to \<open>ret = 0\<close>; a failure is a jump to \<open>out\<close>.\<close>

definition fd_phases :: "'k os \<Rightarrow> msg_workload \<Rightarrow> raw_ring \<Rightarrow> u64 \<Rightarrow> u32 \<Rightarrow> bool \<Rightarrow> 'k msg_machine
    \<Rightarrow> (int \<times> 'k msg_machine) option" where
  "fd_phases os work target buffers operations timed s =
     do {
       (started, s1) \<leftarrow> now_if timed os s;
       (rc, bm, s2) \<leftarrow> for_each (\<lambda>b. fd_batch os work target operations (of_nat (b * QD)))
                         [0..<unat operations div QD]
                         (replicate (unat ((operations + 63) div 64)) 0, s1);
       if rc \<noteq> 0 then Some (-1, s2)
       else or_fail (set_elapsed os timed started s2) (\<lambda>s.
            let s3 = upd_res (missing_slots bm operations) s
            in or_fail (if missing_events (res s3) = 0
                        then verify_fixed_files os work target buffers operations s3 else Some (0, s3))
                 (\<lambda>s. Some (0, s)))
     }"

definition fd_pass :: "u32 \<Rightarrow> result \<Rightarrow> bool" where
  "fd_pass operations r \<longleftrightarrow>
     successful_ops r = ucast operations \<and> sqes_total r = ucast operations \<and>
     source_cqes r = ucast operations \<and> target_cqes r = ucast operations \<and>
     verify_reads r = ucast operations \<and> slots_installed r = ucast operations \<and>
     slots_verified r = ucast operations \<and> bad_results r = 0 \<and> bad_flags r = 0 \<and>
     bad_user_data r = 0 \<and> duplicate_events r = 0 \<and> missing_events r = 0 \<and>
     pair_mismatches r = 0 \<and> sentinel_mismatches r = 0 \<and> timeouts r = 0 \<and>
     cleanup_failures r = 0 \<and> source_dropped r = 0 \<and> source_overflow r = 0 \<and>
     target_dropped r = 0 \<and> target_overflow r = 0 \<and> source_outstanding r = 0 \<and>
     target_outstanding r = 0"

text \<open>The label \<open>out\<close>.\<close>

definition fd_counters :: "'k os \<Rightarrow> msg_workload \<Rightarrow> raw_ring \<Rightarrow> 'k msg_machine \<Rightarrow> 'k msg_machine" where
  "fd_counters os work target s =
     (let s1 = read_counter os (w_source work) sq_dropped set_source_dropped s;
          s2 = read_counter os (w_source work) cq_overflow set_source_overflow s1;
          s3 = (if 0 \<le> ring_fd target
                then (let t1 = read_counter os target sq_dropped set_target_dropped s2;
                          t2 = read_counter os target cq_overflow set_target_overflow t1
                      in read_outstanding os target set_target_outstanding t2)
                else s2)
      in read_outstanding os (w_source work) set_source_outstanding s3)"

definition fd_out :: "'k os \<Rightarrow> msg_workload \<Rightarrow> raw_ring \<Rightarrow> bool \<Rightarrow> u32 \<Rightarrow> int \<Rightarrow> 'k msg_machine
    \<Rightarrow> (int \<times> 'k msg_machine) option" where
  "fd_out os work target target_registered operations ret s =
     (let s1 = fd_counters os work target s;
          s2 = (if target_registered
                then (let (rc, t) = unregister_files os target s1
                      in if rc \<noteq> 0 then upd_res (\<lambda>r. r\<lparr>cleanup_failures := cleanup_failures r + 1\<rparr>) t else t)
                else s1);
          (target1, s3) = raw_ring_destroy os target s2
      in conclude_with set_pass (\<lambda>r. ret = 0 \<and> fd_pass operations r) s3)"

definition run_send_fd_once :: "'k os \<Rightarrow> msg_workload \<Rightarrow> u64 \<Rightarrow> u32 \<Rightarrow> bool \<Rightarrow> 'k msg_machine
    \<Rightarrow> (int \<times> 'k msg_machine) option" where
  "run_send_fd_once os work buffers operations timed s =
     (let s0 = upd_res (\<lambda>_. zero_result\<lparr>logical_ops := ucast operations\<rparr>) s
      in if operations = 0 \<or> operations mod of_nat QD \<noteq> 0 then Some (-1, s0)
         else
           (let (allocated, s1) = ask (os_calloc os) s0
            in if \<not> allocated then Some (-1, s1)
               else
                 (let (rc, target, s2) = raw_ring_init os 0 s1
                  in if rc \<noteq> 0 then fd_out os work target False operations (-1) s2
                     else
                       (let (rc, s3) = register_sparse_files os target operations s2
                        in if rc \<noteq> 0 then fd_out os work target False operations (-1) s3
                           else do {
                             (ret, s4) \<leftarrow> fd_phases os work target buffers operations timed s3;
                             fd_out os work target True operations ret s4
                           }))))"

end
