(* ===== verification/Msg_Slots.thy ===== *)
theory Msg_Slots
  imports Msg_Files
begin

text \<open>
  io_uring_msg_ring_round.c: why \<open>run_send_fd_once\<close> is right. The bitmap is the set of the
  slots installed so far; a batch without errors adds 64 new ones, so a round without errors
  installs every slot once; and a pass of \<open>verify_fixed_files\<close> without errors has read every
  slot once.
\<close>

section \<open>Bytes in memory\<close>

lemma msg_load_byte_bit:
  "bit (load_byte m a) n \<longleftrightarrow> n < 8 \<and> bit (m (a AND NOT 3)) (8 * unat (a AND 3) + n)"
  by (auto simp: load_byte_def bit_simps dest: bit_imp_le_length)

lemma msg_byte_offset: "unat (a AND 3 :: u64) < 4"
proof -
  have "a AND 3 = a AND mask 2" by (simp add: mask_eq_exp_minus_1)
  moreover have "unat (a AND mask 2) < 2 ^ 2"
    using and_mask_less' [of 2 a] by (simp add: word_less_nat_alt)
  ultimately show ?thesis by simp
qed

lemma msg_same_byte:
  assumes "a AND NOT 3 = b AND NOT 3" and "unat (a AND 3) = unat (b AND 3)"
  shows "a = (b :: u64)"
proof -
  have "a AND 3 = b AND 3" using assms(2) by (simp only: word_unat_eq_iff)
  with assms(1) have "(a AND NOT 3) OR (a AND 3) = (b AND NOT 3) OR (b AND 3)" by simp
  then show ?thesis by (simp add: word_bw_comms flip: bit.conj_disj_distrib)
qed

lemma msg_load_store_byte: "load_byte (store_byte a v m) b = (if b = a then v else load_byte m b)"
proof (rule bit_word_eqI)
  fix n assume n: "n < LENGTH(8)"
  let ?k = "unat (a AND 3)" and ?l = "unat (b AND 3)"
  have kl: "?k < 4" "?l < 4" by (rule msg_byte_offset)+
  have len: "8 * ?l + n < 32" using kl(2) n by simp
  have ff: "bit (push_bit (8 * ?k) (0xff :: u32)) (8 * ?l + n) \<longleftrightarrow> ?k = ?l"
  proof -
    have m: "(0xff :: u32) = mask 8" by (simp add: mask_eq_exp_minus_1)
    have "bit (push_bit (8 * ?k) (0xff :: u32)) (8 * ?l + n) \<longleftrightarrow>
        8 * ?k \<le> 8 * ?l + n \<and> 8 * ?l + n - 8 * ?k < 8"
      unfolding m using len by (auto simp: bit_push_bit_iff bit_mask_iff)
    also have "\<dots> \<longleftrightarrow> ?k = ?l" using n by auto
    finally show ?thesis .
  qed
  have vv: "bit (push_bit (8 * ?k) (ucast v :: u32)) (8 * ?l + n) \<longleftrightarrow> ?k = ?l \<and> bit v n"
  proof (cases "?k = ?l")
    case True
    then show ?thesis using len n by (auto simp: bit_simps)
  next
    case False
    then have "\<not> bit v (8 * ?l + n - 8 * ?k) \<or> \<not> 8 * ?k \<le> 8 * ?l + n"
      using n bit_imp_le_length [of v "8 * ?l + n - 8 * ?k"] by (cases "?k < ?l") auto
    then show ?thesis using False by (auto simp: bit_simps)
  qed
  show "bit (load_byte (store_byte a v m) b) n \<longleftrightarrow> bit (if b = a then v else load_byte m b) n"
  proof (cases "b AND NOT 3 = a AND NOT 3")
    case True
    then have "b = a \<longleftrightarrow> ?k = ?l" using msg_same_byte [OF True] by auto
    then show ?thesis
      using True n len ff vv
      by (auto simp: msg_load_byte_bit store_byte_def Let_def bit_simps)
  next
    case False
    then have "b \<noteq> a" by auto
    with False show ?thesis by (simp add: msg_load_byte_bit store_byte_def Let_def)
  qed
qed

section \<open>The bitmap is a set of slots\<close>

definition slot_bits :: "u64 list \<Rightarrow> nat set" where
  "slot_bits bm = {n. n < 64 * length bm \<and> slot_taken bm n}"

lemma msg_slot_taken: "slot_taken bm n \<longleftrightarrow> bit (bm ! (n div 64)) (n mod 64)"
  by (simp add: slot_taken_def is_seen_bit)

lemma msg_slot_bits_empty: "slot_bits (replicate k 0) = {}"
  by (auto simp: slot_bits_def msg_slot_taken)

lemma msg_take_slot:
  assumes "n < 64 * length bm"
  shows "slot_bits (take_slot n bm) = insert n (slot_bits bm)" "length (take_slot n bm) = length bm"
proof -
  show "length (take_slot n bm) = length bm" by (simp add: take_slot_def)
  have "slot_taken (take_slot n bm) k \<longleftrightarrow> k = n \<or> slot_taken bm k" if "k < 64 * length bm" for k
  proof (cases "k div 64 = n div 64")
    case True
    have "bit (mark_seen (n mod 64) (bm ! (n div 64))) (k mod 64) \<longleftrightarrow>
        k mod 64 = n mod 64 \<or> bit (bm ! (n div 64)) (k mod 64)"
      using seen_bits_mark [of "n mod 64" "bm ! (n div 64)"] by (auto simp: seen_bits_def)
    moreover have "k mod 64 = n mod 64 \<longleftrightarrow> k = n" using True by (metis div_mult_mod_eq)
    ultimately show ?thesis using True assms by (simp add: msg_slot_taken take_slot_def)
  next
    case False
    then have "k \<noteq> n" by auto
    with False show ?thesis by (simp add: msg_slot_taken take_slot_def)
  qed
  with assms show "slot_bits (take_slot n bm) = insert n (slot_bits bm)"
    by (auto simp: slot_bits_def take_slot_def)
qed

section \<open>Scoring a batch\<close>

definition good_fd :: "batch_map \<Rightarrow> nat \<Rightarrow> u64 list \<times> result \<Rightarrow> bool" where
  "good_fd mp i br \<longleftrightarrow> source_seen mp i \<and> target_seen mp i \<and>
     (all_right mp i \<longrightarrow> source_res mp i = target_res mp i \<and> \<not> slot_taken (fst br) (unat (source_res mp i)))"

lemma msg_err_installed [simp]: "msg_err (r\<lparr>successful_ops := x, slots_installed := y\<rparr>) = msg_err r"
  by (simp add: msg_err_def)

lemma msg_score_fd_err:
  assumes "msg_err r + 2 < 2 ^ 64"
  shows "msg_err (snd (score_fd mp i (bm, r))) = msg_err r + of_bool (\<not> source_seen mp i) +
    of_bool (\<not> target_seen mp i) + of_bool (all_right mp i \<and> \<not> good_fd mp i (bm, r))"
proof -
  note seen = msg_score_seen_err [OF assms, of mp i]
  show ?thesis
  proof (cases "all_right mp i")
    case True
    then have s: "source_seen mp i" "target_seen mp i" by (simp_all add: all_right_def)
    then have "msg_err (score_seen mp i r) + 1 < 2 ^ 64" using seen assms by simp
    note inc = msg_err_incs(4,6) [OF this]
    show ?thesis
      using True s inc seen by (simp add: score_fd_def good_fd_def Let_def)
  qed (use seen in \<open>simp add: score_fd_def Let_def\<close>)
qed

interpretation score_fd: tally "score_fd mp" "\<lambda>br. msg_err (snd br)" "good_fd mp" 2
  for mp
proof unfold_locales
  fix br :: "u64 list \<times> result" and i
  assume e: "msg_err (snd br) + 2 < 2 ^ 64"
  have *: "msg_err (snd (score_fd mp i br)) = msg_err (snd br) + of_bool (\<not> source_seen mp i) +
      of_bool (\<not> target_seen mp i) + of_bool (all_right mp i \<and> \<not> good_fd mp i br)"
    using msg_score_fd_err [OF e, of mp i "fst br"] by simp
  show "msg_err (snd br) \<le> msg_err (snd (score_fd mp i br)) \<and>
      msg_err (snd (score_fd mp i br)) \<le> msg_err (snd br) + 2"
    unfolding * by (auto simp: all_right_def)
  show "(msg_err (snd (score_fd mp i br)) = msg_err (snd br)) = good_fd mp i br"
    unfolding * by (auto simp: good_fd_def)
qed

lemma msg_score_fd_right:
  assumes "score_fd.goods mp is (bm, r)" and "\<And>i. i \<in> set is \<Longrightarrow> all_right mp i"
    and "\<And>i. i \<in> set is \<Longrightarrow> unat (source_res mp i) < 64 * length bm" and "distinct is"
  shows "\<exists>bm'. fold (score_fd mp) is (bm, r) = (bm', r\<lparr>successful_ops := successful_ops r + of_nat (length is),
      slots_installed := slots_installed r + of_nat (length is)\<rparr>) \<and>
    length bm' = length bm \<and> slot_bits bm' = slot_bits bm \<union> (\<lambda>i. unat (source_res mp i)) ` set is \<and>
    inj_on (\<lambda>i. unat (source_res mp i)) (set is) \<and>
    slot_bits bm \<inter> (\<lambda>i. unat (source_res mp i)) ` set is = {} \<and>
    (\<forall>i \<in> set is. source_res mp i = target_res mp i)"
  using assms
proof (induction "is" arbitrary: bm r)
  case Nil
  then show ?case by simp
next
  case (Cons i "is")
  let ?f = "\<lambda>i. unat (source_res mp i)"
  let ?r = "r\<lparr>successful_ops := successful_ops r + 1, slots_installed := slots_installed r + 1\<rparr>"
  have right: "all_right mp i" and range: "?f i < 64 * length bm" using Cons.prems by simp_all
  have good: "good_fd mp i (bm, r)" and rest: "score_fd.goods mp is (score_fd mp i (bm, r))"
    using Cons.prems(1) by simp_all
  have same: "source_res mp i = target_res mp i" and free: "\<not> slot_taken bm (?f i)"
    using good right unfolding good_fd_def fst_conv by blast+
  have step: "score_fd mp i (bm, r) = (take_slot (?f i) bm, ?r)"
    using right same free by (simp add: score_fd_def score_seen_def all_right_def Let_def)
  note t = msg_take_slot [OF range]
  from Cons.IH [OF rest [unfolded step]] Cons.prems(2-4) t(2)
  obtain bm' where bm': "fold (score_fd mp) is (take_slot (?f i) bm, ?r) =
        (bm', ?r\<lparr>successful_ops := successful_ops ?r + of_nat (length is),
           slots_installed := slots_installed ?r + of_nat (length is)\<rparr>)"
      "length bm' = length bm" "slot_bits bm' = insert (?f i) (slot_bits bm) \<union> ?f ` set is"
      "inj_on ?f (set is)" "insert (?f i) (slot_bits bm) \<inter> ?f ` set is = {}"
      "\<forall>i \<in> set is. source_res mp i = target_res mp i"
    unfolding t(1) by auto
  have new: "?f i \<notin> slot_bits bm" using free by (simp add: slot_bits_def)
  have "fold (score_fd mp) (i # is) (bm, r) = (bm', r\<lparr>successful_ops := successful_ops r + of_nat (length (i # is)),
      slots_installed := slots_installed r + of_nat (length (i # is))\<rparr>)"
    using bm'(1) by (simp add: step add.assoc)
  moreover have "inj_on ?f (set (i # is))" using bm'(4,5) Cons.prems(4) by auto
  moreover have "slot_bits bm \<inter> ?f ` set (i # is) = {}" using bm'(5) new by auto
  ultimately show ?case using bm'(2,3,6) same by auto
qed

section \<open>A batch on the machine\<close>

text \<open>The two lists of completions of a batch, where index \<open>j\<close> was given the slot \<open>f j\<close>.\<close>

definition fd_cqes :: "u64 \<Rightarrow> (nat \<Rightarrow> nat) \<Rightarrow> cqe list list \<Rightarrow> bool" where
  "fd_cqes base f g \<longleftrightarrow> (\<exists>cs ct. g = [cs, ct] \<and>
     mset cs = mset (map (\<lambda>j. msg_cqe True base j (of_nat (f j))) [0..<QD]) \<and>
     mset ct = mset (map (\<lambda>j. msg_cqe False base j (of_nat (f j))) [0..<QD]))"

definition fd_advance :: "result \<Rightarrow> result" where
  "fd_advance r = r\<lparr>sqes_total := sqes_total r + of_nat QD, source_enters := source_enters r + 1,
     source_cqes := source_cqes r + of_nat QD, target_cqes := target_cqes r + of_nat QD,
     successful_ops := successful_ops r + of_nat QD, slots_installed := slots_installed r + of_nat QD\<rparr>"

definition fd_gain :: "u32 \<Rightarrow> u64 \<Rightarrow> u64 list \<Rightarrow> 'k msg_machine \<Rightarrow> u64 list \<Rightarrow> 'k msg_machine \<Rightarrow> bool" where
  "fd_gain operations base bm s bm' t \<longleftrightarrow> (\<exists>f g. reaps g s t \<and> fd_cqes base f g \<and> inj_on f {..<QD} \<and>
     f ` {..<QD} \<subseteq> {..<unat operations} \<and> slot_bits bm \<inter> f ` {..<QD} = {} \<and>
     slot_bits bm' = slot_bits bm \<union> f ` {..<QD} \<and> res t = fd_advance (res s))"

definition fd_step :: "u32 \<Rightarrow> u64 \<Rightarrow> u64 list \<Rightarrow> 'k msg_machine \<Rightarrow> u64 list \<Rightarrow> 'k msg_machine \<Rightarrow> bool" where
  "fd_step operations base bm s bm' t \<longleftrightarrow> length bm' = length bm \<and>
     err_step (\<lambda>t. fd_gain operations base bm s bm' t) s t"

lemma msg_score_fd_length: "length (fst (fold (score_fd mp) is br)) = length (fst br)"
proof (induction "is" arbitrary: br)
  case (Cons i "is")
  have "length (fst (score_fd mp i br)) = length (fst br)"
    by (cases br) (simp add: score_fd_def take_slot_def Let_def)
  with Cons show ?case by simp
qed simp

lemma msg_fd_goods_seen:
  "score_fd.goods mp is br \<Longrightarrow> i \<in> set is \<Longrightarrow> source_seen mp i \<and> target_seen mp i"
proof (induction "is" arbitrary: br)
  case (Cons k "is")
  then have k: "good_fd mp k br" and rest: "score_fd.goods mp is (score_fd mp k br)" by simp_all
  show ?case
  proof (cases "i = k")
    case True
    with k show ?thesis by (simp add: good_fd_def)
  next
    case False
    with Cons.IH [OF rest] Cons.prems(2) show ?thesis by simp
  qed
qed simp

lemma msg_slot_range:
  assumes "\<not> bad_slot operations j w"
  shows "unat w < unat operations" "of_nat (unat w) = w"
  using assms by (simp_all add: bad_slot_def word_le_nat_alt)

text \<open>The pure part of a batch.\<close>

lemma msg_fd_batch_err:
  fixes bm :: "u64 list"
  assumes err: "msg_err r + 2 ^ 36 < 2 ^ 64" and len: "length cs = unat a" "length ct = unat a'"
    and st1: "st1 = drain_cqes (bad_slot operations) True base (of_nat QD) a cs zero_map r"
    and st2: "st2 = drain_cqes (bad_slot operations) False base (of_nat QD) a' ct (fst st1) (snd st1)"
  defines "br \<equiv> fold (score_fd (fst st2)) [0..<QD] (bm, snd st2)"
  shows "msg_err r \<le> msg_err (snd br)" "msg_err (snd br) \<le> msg_err r + 2 ^ 36"
    "msg_err (snd br) = msg_err r \<Longrightarrow> complete (bad_slot operations) True base (of_nat QD) cs \<and>
       complete (bad_slot operations) False base (of_nat QD) ct \<and>
       score_fd.goods (fst st2) [0..<QD] (bm, snd st2)"
proof -
  note b = msg_two_drains_bounds [OF err len st1 refl st2]
  have qd: "unat (of_nat QD :: u32) = QD" by (simp add: QD_def)
  have e2: "msg_err (snd (bm, snd st2)) + 2 * length [0..<QD] < 2 ^ 64" using b(3) err by (simp add: QD_def)
  note f = score_fd.err_fold [OF e2, of "fst st2"] score_fd.err_fold_goods [OF e2, of "fst st2"]
  show "msg_err r \<le> msg_err (snd br)" using f(1) b(1,2) unfolding br_def by simp
  show "msg_err (snd br) \<le> msg_err r + 2 ^ 36" using f(1) b(3) unfolding br_def by (simp add: QD_def)
  assume "msg_err (snd br) = msg_err r"
  then have e: "msg_err (snd br) = msg_err (snd st2)" "msg_err (snd st2) = msg_err r"
    using f(1) b(1,2) unfolding br_def by simp_all
  then have g: "score_fd.goods (fst st2) [0..<QD] (bm, snd st2)" using f(2) by (simp add: br_def)
  have "\<forall>j < QD. source_seen (fst st2) j \<and> target_seen (fst st2) j"
    using msg_fd_goods_seen [OF g] by simp
  with e(2) g msg_two_drains_iff [OF err len st1 refl st2]
  show "complete (bad_slot operations) True base (of_nat QD) cs \<and>
       complete (bad_slot operations) False base (of_nat QD) ct \<and>
       score_fd.goods (fst st2) [0..<QD] (bm, snd st2)"
    by (simp add: qd)
qed

lemma msg_fd_batch_right:
  fixes bm :: "u64 list"
  assumes err: "msg_err r + 2 ^ 36 < 2 ^ 64" and len: "length cs = unat a" "length ct = unat a'"
    and st1: "st1 = drain_cqes (bad_slot operations) True base (of_nat QD) a cs zero_map r"
    and st2: "st2 = drain_cqes (bad_slot operations) False base (of_nat QD) a' ct (fst st1) (snd st1)"
    and c: "complete (bad_slot operations) True base (of_nat QD) cs"
      "complete (bad_slot operations) False base (of_nat QD) ct"
    and goods: "score_fd.goods (fst st2) [0..<QD] (bm, snd st2)"
    and base: "unat base + QD \<le> 2 ^ 48" and bm: "unat operations \<le> 64 * length bm"
  defines "br \<equiv> fold (score_fd (fst st2)) [0..<QD] (bm, snd st2)"
    and "f \<equiv> \<lambda>j. unat (source_res (fst st2) j)"
  shows "fd_cqes base f [cs, ct] \<and> inj_on f {..<QD} \<and> f ` {..<QD} \<subseteq> {..<unat operations} \<and>
    slot_bits bm \<inter> f ` {..<QD} = {} \<and> slot_bits (fst br) = slot_bits bm \<union> f ` {..<QD} \<and>
    snd br = r\<lparr>source_cqes := source_cqes r + of_nat QD, target_cqes := target_cqes r + of_nat QD,
      successful_ops := successful_ops r + of_nat QD, slots_installed := slots_installed r + of_nat QD\<rparr>"
proof -
  let ?mp = "fst st2"
  have qd: "unat (of_nat QD :: u32) = QD" by (simp add: QD_def)
  have small: "unat base + unat (of_nat QD :: u32) \<le> 2 ^ 48" using base by (simp add: qd)
  note m = msg_two_drains_complete [OF err len st1 refl st2 c]
  have right: "all_right ?mp i" if "i < QD" for i
    by (rule msg_noted_right [OF c _ m(3,4)]) (use that in \<open>simp_all add: qd\<close>)
  have src: "mset cs = mset (map (\<lambda>j. msg_cqe True base j (source_res ?mp j)) [0..<QD]) \<and>
      (\<forall>j < QD. \<not> bad_slot operations j (source_res ?mp j))"
    using msg_complete_cqes [OF small c(1), of "source_res ?mp"] m(3)
    by (simp add: qd noted_def res_of_def)
  have tgt: "mset ct = mset (map (\<lambda>j. msg_cqe False base j (target_res ?mp j)) [0..<QD])"
    using msg_complete_cqes [OF small c(2), of "target_res ?mp"] m(4)
    by (simp add: qd noted_def res_of_def)
  have range: "f j < unat operations" "of_nat (f j) = source_res ?mp j" if "j < QD" for j
    using msg_slot_range [of operations j "source_res ?mp j"] src that by (simp_all add: f_def)
  obtain bm' where bm': "br = (bm', (snd st2)\<lparr>successful_ops := successful_ops (snd st2) + of_nat QD,
        slots_installed := slots_installed (snd st2) + of_nat QD\<rparr>)"
      "slot_bits bm' = slot_bits bm \<union> f ` set [0..<QD]" "inj_on f (set [0..<QD])"
      "slot_bits bm \<inter> f ` set [0..<QD] = {}" "\<forall>i \<in> set [0..<QD]. source_res ?mp i = target_res ?mp i"
    using msg_score_fd_right [OF goods] right range(1) bm
    by (fastforce simp: br_def f_def)
  have src': "map (\<lambda>j. msg_cqe True base j (of_nat (f j))) [0..<QD] =
      map (\<lambda>j. msg_cqe True base j (source_res ?mp j)) [0..<QD]" using range(2) by simp
  have tgt': "map (\<lambda>j. msg_cqe False base j (of_nat (f j))) [0..<QD] =
      map (\<lambda>j. msg_cqe False base j (target_res ?mp j)) [0..<QD]" using range(2) bm'(5) by simp
  have "fd_cqes base f [cs, ct]"
    unfolding fd_cqes_def src' tgt' using src tgt by blast
  moreover have "snd br = r\<lparr>source_cqes := source_cqes r + of_nat QD, target_cqes := target_cqes r + of_nat QD,
      successful_ops := successful_ops r + of_nat QD, slots_installed := slots_installed r + of_nat QD\<rparr>"
    using m(1,2) by (simp add: bm'(1) qd)
  moreover have "{..<QD} = set [0..<QD]" by auto
  ultimately show ?thesis using bm'(2-4) range(1) by (auto simp: bm'(1))
qed

end
