(* ===== verification/Msg_Send_Fd.thy ===== *)
theory Msg_Send_Fd
  imports Msg_Slots
begin

text \<open>
  io_uring_msg_ring_round.c: the loops of \<open>run_send_fd_once\<close> and their invariants, and the
  outcome of a whole round.
\<close>

section \<open>The loop that installs\<close>

lemma msg_fd_batch_outcome:
  assumes err: "msg_err (res s) + 2 ^ 36 < 2 ^ 64" and base: "unat base + QD \<le> 2 ^ 48"
    and bm: "unat operations \<le> 64 * length bm"
  shows "wp (fd_batch os work target operations base (bm, s))
    (\<lambda>rc bt. outcome (fd_step operations base bm s (fst bt)) s rc (snd bt))"
proof -
  obtain rc s1 where p: "prepare_send_fd_batch os work target base (of_nat QD) s = (rc, s1)"
    by (cases "prepare_send_fd_batch os work target base (of_nat QD) s")
  have s1: "same_process s s1"
    using msg_prepare_same p unfolding prepare_send_fd_batch_def by (metis snd_conv)
  let ?s1 = "upd_res (\<lambda>r. r\<lparr>sqes_total := sqes_total r + of_nat QD\<rparr>) s1"
  have "wp (do {
           (rc, s2) \<leftarrow> bounded_enter os (w_source work) (of_nat QD) (of_nat QD) ?s1;
           if rc \<noteq> 0 then Some (-1, bm, s2)
           else
             (let (mp1, s3) = drain_send_fd_cq os (w_source work) True base (of_nat QD) operations zero_map
                                (upd_res (\<lambda>r. r\<lparr>source_enters := source_enters r + 1\<rparr>) s2);
                  (mp2, s4) = drain_send_fd_cq os target False base (of_nat QD) operations mp1 s3;
                  (bm1, r1) = fold (score_fd mp2) [0..<QD] (bm, res s4)
              in Some (0, bm1, upd_res (\<lambda>_. r1) s4))
         }) (\<lambda>rc bt. outcome (fd_step operations base bm s (fst bt)) s rc (snd bt))"
  proof (rule wp_bindI [OF msg_enter_outcome])
    fix rc s2 assume o: "outcome (same_process ?s1) ?s1 rc s2"
    have r2: "same_resources s s2"
      using o same_process_resources [OF s1] by (simp add: outcome_def same_resources_def)
    show "wp (if rc \<noteq> 0 then Some (-1, bm, s2)
       else
         (let (mp1, s3) = drain_send_fd_cq os (w_source work) True base (of_nat QD) operations zero_map
                            (upd_res (\<lambda>r. r\<lparr>source_enters := source_enters r + 1\<rparr>) s2);
              (mp2, s4) = drain_send_fd_cq os target False base (of_nat QD) operations mp1 s3;
              (bm1, r1) = fold (score_fd mp2) [0..<QD] (bm, res s4)
          in Some (0, bm1, upd_res (\<lambda>_. r1) s4)))
      (\<lambda>rc bt. outcome (fd_step operations base bm s (fst bt)) s rc (snd bt))"
    proof (cases "rc = 0")
      case False
      with r2 show ?thesis by simp
    next
      case True
      with o have "same_process ?s1 s2" by simp
      then have u: "reaps [] s s2" "res s2 = (res s)\<lparr>sqes_total := sqes_total (res s) + of_nat QD\<rparr>"
        using same_process_D [OF s1] by (simp_all add: same_process_def reaps_def)
      let ?u = "upd_res (\<lambda>r. r\<lparr>source_enters := source_enters r + 1\<rparr>) s2"
      obtain mp1 s3 where d1: "drain_send_fd_cq os (w_source work) True base (of_nat QD) operations zero_map ?u = (mp1, s3)"
        by (cases "drain_send_fd_cq os (w_source work) True base (of_nat QD) operations zero_map ?u")
      obtain mp2 s4 where d2: "drain_send_fd_cq os target False base (of_nat QD) operations mp1 s3 = (mp2, s4)"
        by (cases "drain_send_fd_cq os target False base (of_nat QD) operations mp1 s3")
      obtain cs a where cs: "length cs = unat a" "reaps [cs] ?u s3" "same_resources ?u s3"
          "(mp1, res s3) = drain_cqes (bad_slot operations) True base (of_nat QD) a cs zero_map (res ?u)"
        using msg_drain_with [OF d1 [unfolded drain_send_fd_cq_def]] by blast
      obtain ct a' where ct: "length ct = unat a'" "reaps [ct] s3 s4" "same_resources s3 s4"
          "(mp2, res s4) = drain_cqes (bad_slot operations) False base (of_nat QD) a' ct mp1 (res s3)"
        using msg_drain_with [OF d2 [unfolded drain_send_fd_cq_def]] by blast
      define st1 where "st1 = drain_cqes (bad_slot operations) True base (of_nat QD) a cs zero_map (res ?u)"
      define st2 where "st2 = drain_cqes (bad_slot operations) False base (of_nat QD) a' ct (fst st1) (snd st1)"
      have st1: "st1 = (mp1, res s3)" unfolding st1_def cs(4) ..
      have st2: "st2 = (mp2, res s4)" unfolding st2_def st1 fst_conv snd_conv ct(4) ..
      have e: "msg_err (res ?u) = msg_err (res s)" using u by (simp add: msg_err_def)
      with err have eu: "msg_err (res ?u) + 2 ^ 36 < 2 ^ 64" by simp
      obtain bm1 r1 where br: "fold (score_fd mp2) [0..<QD] (bm, res s4) = (bm1, r1)"
        by (cases "fold (score_fd mp2) [0..<QD] (bm, res s4)")
      let ?t = "upd_res (\<lambda>_. r1) s4"
      note b = msg_fd_batch_err [OF eu cs(1) ct(1) st1_def st2_def, of bm]
      have b': "msg_err (res s) \<le> msg_err (res ?t)" "msg_err (res ?t) \<le> msg_err (res s) + 2 ^ 36"
        using b(1,2) unfolding e st2 by (simp_all add: br)
      have gain: "fd_gain operations base bm s bm1 ?t" if "msg_err (res ?t) = msg_err (res s)"
      proof -
        have c: "complete (bad_slot operations) True base (of_nat QD) cs"
            "complete (bad_slot operations) False base (of_nat QD) ct"
            "score_fd.goods (fst st2) [0..<QD] (bm, snd st2)"
          using that b(3) unfolding e st2 by (simp_all add: br)
        have right: "fd_cqes base (\<lambda>j. unat (source_res mp2 j)) [cs, ct] \<and> inj_on (\<lambda>j. unat (source_res mp2 j)) {..<QD} \<and>
            (\<lambda>j. unat (source_res mp2 j)) ` {..<QD} \<subseteq> {..<unat operations} \<and>
            slot_bits bm \<inter> (\<lambda>j. unat (source_res mp2 j)) ` {..<QD} = {} \<and>
            slot_bits bm1 = slot_bits bm \<union> (\<lambda>j. unat (source_res mp2 j)) ` {..<QD} \<and>
            r1 = (res ?u)\<lparr>source_cqes := source_cqes (res ?u) + of_nat QD, target_cqes := target_cqes (res ?u) + of_nat QD,
              successful_ops := successful_ops (res ?u) + of_nat QD, slots_installed := slots_installed (res ?u) + of_nat QD\<rparr>"
          using msg_fd_batch_right [OF eu cs(1) ct(1) st1_def st2_def c base bm]
          unfolding st2 fst_conv snd_conv br .
        moreover have "reaps [cs, ct] s ?t" using u cs(2) ct(2) by (simp add: reaps_def)
        moreover from right have "res ?t = fd_advance (res s)" using u(2) by (simp add: fd_advance_def)
        ultimately show ?thesis unfolding fd_gain_def by blast
      qed
      have "length bm1 = length bm" using msg_score_fd_length [of mp2 "[0..<QD]" "(bm, res s4)"] br by simp
      with b' gain have "fd_step operations base bm s bm1 ?t" by (simp add: fd_step_def err_step_def)
      moreover have "same_resources s ?t"
        using r2 cs(3) ct(3) by (simp add: same_resources_def)
      ultimately show ?thesis using True by (simp add: d1 d2 br)
    qed
  qed
  moreover have "same_resources s s1" using s1 by (rule same_process_resources)
  ultimately show ?thesis by (simp add: fd_batch_def p)
qed

text \<open>A loop whose state is an array besides the machine.\<close>

lemma msg_outcome_pairs:
  assumes body: "\<And>i b s. m \<le> i \<Longrightarrow> i < n \<Longrightarrow> P i b s \<Longrightarrow>
      wp (f i (b, s)) (\<lambda>rc bt. outcome (P (Suc i) (fst bt)) s rc (snd bt))"
    and start: "P m b s" "m \<le> n"
  shows "wp (for_each f [m..<n] (b, s)) (\<lambda>rc bt. outcome (P n (fst bt)) s rc (snd bt))"
  using start body
proof (induction "n - m" arbitrary: m b s)
  case 0
  then show ?case by simp
next
  case (Suc k)
  then have mn: "m < n" by simp
  have first: "wp (f m (b, s)) (\<lambda>rc bt. outcome (P (Suc m) (fst bt)) s rc (snd bt))"
    using Suc.prems mn by blast
  have "wp (if rc \<noteq> 0 then Some (-1, bt) else for_each f [Suc m..<n] bt)
      (\<lambda>rc bt. outcome (P n (fst bt)) s rc (snd bt))"
    if o: "outcome (P (Suc m) (fst bt)) s rc (snd bt)" for rc bt
  proof (cases "rc = 0")
    case True
    then have st: "P (Suc m) (fst bt) (snd bt)" "same_resources s (snd bt)" using o by simp_all
    have "wp (for_each f [Suc m..<n] (fst bt, snd bt)) (\<lambda>rc ct. outcome (P n (fst ct)) (snd bt) rc (snd ct))"
      by (rule Suc.hyps(1)) (use Suc.hyps(2) Suc.prems(3) st(1) mn in auto)
    then show ?thesis
      using True st(2) by (auto simp: outcome_def intro: same_resources_trans elim!: wp_mono)
  qed (use o in \<open>simp add: outcome_def\<close>)
  with first have "wp (do { (rc, bt) \<leftarrow> f m (b, s); if rc \<noteq> 0 then Some (-1, bt) else for_each f [Suc m..<n] bt })
      (\<lambda>rc bt. outcome (P n (fst bt)) s rc (snd bt))"
    by (rule wp_bindI)
  with mn show ?case by (simp add: upt_conv_Cons)
qed

text \<open>The slots given out by the first \<open>b\<close> batches, as a function of the request number.\<close>

definition fd_group :: "(nat \<Rightarrow> nat) \<Rightarrow> nat \<Rightarrow> cqe list list \<Rightarrow> bool" where
  "fd_group slot b = fd_cqes (of_nat (b * QD)) (\<lambda>j. slot (b * QD + j))"

definition after_fd :: "u32 \<Rightarrow> nat \<Rightarrow> result" where
  "after_fd operations n =
     zero_result\<lparr>logical_ops := ucast operations, sqes_total := of_nat (n * QD), source_enters := of_nat n,
       source_cqes := of_nat (n * QD), target_cqes := of_nat (n * QD), successful_ops := of_nat (n * QD),
       slots_installed := of_nat (n * QD)\<rparr>"

lemma msg_advance_fd: "fd_advance (after_fd operations n) = after_fd operations (Suc n)"
  by (simp add: fd_advance_def after_fd_def zero_result_def ring_distribs add.commute)

definition fd_inv :: "u32 \<Rightarrow> 'k msg_machine \<Rightarrow> nat \<Rightarrow> u64 list \<Rightarrow> 'k msg_machine \<Rightarrow> bool" where
  "fd_inv operations s b bm t \<longleftrightarrow> unat operations \<le> 64 * length bm \<and> msg_err (res t) \<le> b * 2 ^ 36 \<and>
     (msg_err (res t) = 0 \<longrightarrow> (\<exists>slot. inj_on slot {..<b * QD} \<and> slot ` {..<b * QD} \<subseteq> {..<unat operations} \<and>
        slot_bits bm = slot ` {..<b * QD} \<and> logged (fd_group slot) b s t \<and> res t = after_fd operations b))"

lemma msg_fd_group_cong:
  "(\<And>n. n < k * QD \<Longrightarrow> slot n = slot' n) \<Longrightarrow> b < k \<Longrightarrow> fd_group slot b = fd_group slot' b"
proof -
  assume eq: "\<And>n. n < k * QD \<Longrightarrow> slot n = slot' n" and b: "b < k"
  have "slot (b * QD + j) = slot' (b * QD + j)" if "j < QD" for j
  proof (rule eq)
    have "b * QD + j < Suc b * QD" using that by simp
    also have "\<dots> \<le> k * QD" using b by (intro mult_le_mono1) simp
    finally show "b * QD + j < k * QD" .
  qed
  then have "map (\<lambda>j. msg_cqe src base j (of_nat (slot (b * QD + j)))) [0..<QD] =
      map (\<lambda>j. msg_cqe src base j (of_nat (slot' (b * QD + j)))) [0..<QD]" for src base by simp
  then show ?thesis unfolding fd_group_def fd_cqes_def by (intro ext) (simp only:)
qed

lemma msg_logged_cong: "(\<And>b. b < n \<Longrightarrow> ok b = ok' b) \<Longrightarrow> logged ok n s t = logged ok' n s t"
  by (simp add: logged_def grouped_def)

lemma msg_fd_inv_step:
  assumes inv: "fd_inv operations s b bm t" and step: "fd_step operations (of_nat (b * QD)) bm t bm' u"
  shows "fd_inv operations s (Suc b) bm' u"
proof -
  have e: "msg_err (res t) \<le> msg_err (res u)" "msg_err (res u) \<le> msg_err (res t) + 2 ^ 36"
    and len: "length bm' = length bm"
    using step by (simp_all add: fd_step_def err_step_def)
  have "\<exists>slot. inj_on slot {..<Suc b * QD} \<and> slot ` {..<Suc b * QD} \<subseteq> {..<unat operations} \<and>
      slot_bits bm' = slot ` {..<Suc b * QD} \<and> logged (fd_group slot) (Suc b) s u \<and>
      res u = after_fd operations (Suc b)" if "msg_err (res u) = 0"
  proof -
    have zero: "msg_err (res t) = 0" "msg_err (res u) = msg_err (res t)" using that e(1) by simp_all
    obtain slot where s: "inj_on slot {..<b * QD}" "slot ` {..<b * QD} \<subseteq> {..<unat operations}"
        "slot_bits bm = slot ` {..<b * QD}" "logged (fd_group slot) b s t" "res t = after_fd operations b"
      using inv zero(1) by (auto simp: fd_inv_def)
    obtain f g where f: "reaps g t u" "fd_cqes (of_nat (b * QD)) f g" "inj_on f {..<QD}"
        "f ` {..<QD} \<subseteq> {..<unat operations}" "slot_bits bm \<inter> f ` {..<QD} = {}"
        "slot_bits bm' = slot_bits bm \<union> f ` {..<QD}" "res u = fd_advance (res t)"
      using step zero(2) by (auto simp: fd_step_def err_step_def fd_gain_def)
    define slot' where "slot' = (\<lambda>n. if n < b * QD then slot n else f (n - b * QD))"
    have old: "slot' n = slot n" if "n < b * QD" for n using that by (simp add: slot'_def)
    have new: "slot' (b * QD + j) = f j" for j by (simp add: slot'_def)
    have split: "{..<Suc b * QD} = {..<b * QD} \<union> (\<lambda>j. b * QD + j) ` {..<QD}"
    proof -
      have "n \<in> (\<lambda>j. b * QD + j) ` {..<QD}" if "n < QD + b * QD" "\<not> n < b * QD" for n
        using that by (intro image_eqI [of _ _ "n - b * QD"]) auto
      then show ?thesis by auto
    qed
    have image_parts: "slot' ` {..<b * QD} = slot ` {..<b * QD}"
        "slot' ` ((\<lambda>j. b * QD + j) ` {..<QD}) = f ` {..<QD}"
      using old by (auto simp: image_image new)
    have image: "slot' ` {..<Suc b * QD} = slot ` {..<b * QD} \<union> f ` {..<QD}"
      unfolding split image_Un image_image new using old by auto
    have "inj_on slot' {..<Suc b * QD}"
      unfolding split inj_on_Un
    proof (intro conjI)
      show "inj_on slot' {..<b * QD}" using s(1) old by (simp add: inj_on_def)
      show "inj_on slot' ((\<lambda>j. b * QD + j) ` {..<QD})" using f(3) new by (auto simp: inj_on_def)
      show "slot' ` ({..<b * QD} - (\<lambda>j. b * QD + j) ` {..<QD}) \<inter>
          slot' ` ((\<lambda>j. b * QD + j) ` {..<QD} - {..<b * QD}) = {}"
        using image_parts f(5) s(3) by blast
    qed
    moreover have "logged (fd_group slot') (Suc b) s u"
    proof (rule logged_step [OF _ f(1)])
      show "logged (fd_group slot') b s t"
        using s(4) msg_logged_cong [of b "fd_group slot'" "fd_group slot" s t] msg_fd_group_cong [of b slot' slot] old
        by simp
      show "fd_group slot' b g" using f(2) by (simp add: fd_group_def new)
    qed
    ultimately show ?thesis
      using image s f(4,6,7) by (intro exI [of _ slot']) (simp add: msg_advance_fd)
  qed
  moreover have "msg_err (res u) \<le> Suc b * 2 ^ 36" using e(2) inv by (simp add: fd_inv_def)
  ultimately show ?thesis using inv len by (simp add: fd_inv_def)
qed

lemma msg_fd_loop:
  assumes "fd_inv operations s 0 bm t"
  shows "wp (for_each (\<lambda>b. fd_batch os work target operations (of_nat (b * QD))) [0..<unat operations div QD] (bm, t))
    (\<lambda>rc bt. outcome (fd_inv operations s (unat operations div QD) (fst bt)) t rc (snd bt))"
proof (rule msg_outcome_pairs [where P = "fd_inv operations s", OF _ assms])
  fix b bm u assume b: "b < unat operations div QD" and u: "fd_inv operations s b bm u"
  have err: "msg_err (res u) + 2 ^ 36 < 2 ^ 64"
    using u msg_batches_bound [OF b] by (simp add: fd_inv_def)
  have "b < 2 ^ 26" using b unat_lt32 [of operations] by (simp add: QD_def)
  then have "b * QD < 2 ^ 64" by (simp add: QD_def)
  then have "unat (of_nat (b * QD) :: u64) = b * QD"
    by (simp add: unat_of_nat del: of_nat_mult)
  with \<open>b < 2 ^ 26\<close> have base: "unat (of_nat (b * QD) :: u64) + QD \<le> 2 ^ 48" by (simp add: QD_def)
  have bm: "unat operations \<le> 64 * length bm" using u by (simp add: fd_inv_def)
  show "wp (fd_batch os work target operations (of_nat (b * QD)) (bm, u))
      (\<lambda>rc bt. outcome (fd_inv operations s (Suc b) (fst bt)) u rc (snd bt))"
    by (rule wp_mono [OF msg_fd_batch_outcome [OF err base bm]])
       (use msg_fd_inv_step [OF u] in \<open>auto simp: outcome_def\<close>)
qed simp

end
