(* ===== verification/Msg_Verify.thy ===== *)
theory Msg_Verify
  imports Msg_Send_Fd
begin

text \<open>
  io_uring_msg_ring_round.c: the check for slots nobody was given, \<open>verify_fixed_files\<close>, and
  with them the outcome of \<open>run_send_fd_once\<close>.
\<close>

section \<open>Slots that are missing\<close>

interpretation missing_slots: tally
    "\<lambda>n r. if \<not> slot_taken bm n then r\<lparr>missing_events := missing_events r + 1\<rparr> else r"
    msg_err "\<lambda>n r. slot_taken bm n" 1
  for bm
  by unfold_locales auto

lemma msg_missing_bounds:
  assumes "msg_err r + 2 ^ 32 < 2 ^ 64"
  shows "msg_err r \<le> msg_err (missing_slots bm operations r) \<and>
    msg_err (missing_slots bm operations r) \<le> msg_err r + 2 ^ 32"
proof -
  have "msg_err r + 1 * length [0..<unat operations] < 2 ^ 64" using assms unat_lt32 [of operations] by simp
  from missing_slots.err_fold [OF this, of bm] show ?thesis
    using unat_lt32 [of operations] by (simp add: missing_slots_def)
qed

lemma msg_missing_none:
  assumes "{..<unat operations} \<subseteq> slot_bits bm"
  shows "missing_slots bm operations r = r"
proof -
  have "fold (\<lambda>n r. if \<not> slot_taken bm n then r\<lparr>missing_events := missing_events r + 1\<rparr> else r) ns r = r"
    if "\<And>n. n \<in> set ns \<Longrightarrow> slot_taken bm n" for ns and r :: result
    using that by (induction ns) auto
  from this [of "[0..<unat operations]"] show ?thesis using assms by (auto simp: missing_slots_def slot_bits_def)
qed

section \<open>Reading back: one batch\<close>

lemma msg_err_note_reads:
  assumes "msg_err r + 2 ^ 32 < 2 ^ 64"
  shows "msg_err (note_reads a r) = msg_err (note_available a (of_nat QD) r)"
proof -
  have "a < of_nat QD \<or> a = of_nat QD \<or> a > (of_nat QD :: u32)" by (rule linorder_less_linear)
  then show ?thesis
    by (elim disjE)
       (auto simp: note_reads_def note_available_def msg_err_def dest: less_asym)
qed

definition fills_read :: "u64 \<Rightarrow> cqe \<Rightarrow> nat option" where
  "fills_read base c =
     (case decode_sequence (cqe_user_data c) VERIFY_TAG base (of_nat QD) of
        None \<Rightarrow> None
      | Some j \<Rightarrow> if cqe_res c = 1 \<and> cqe_flags c = 0 then Some j else None)"

definition good_read :: "u64 \<Rightarrow> cqe \<Rightarrow> (nat \<Rightarrow> bool) \<times> result \<Rightarrow> bool" where
  "good_read base c sr \<longleftrightarrow> (\<exists>j. fills_read base c = Some j \<and> \<not> fst sr j)"

lemma msg_verify_step_err:
  assumes "msg_err r + 2 < 2 ^ 64"
  shows "msg_err (snd (verify_step base c (seen, r))) = msg_err r +
    (case decode_sequence (cqe_user_data c) VERIFY_TAG base (of_nat QD) of
       None \<Rightarrow> 1
     | Some j \<Rightarrow> if seen j then 1 else of_bool (cqe_res c \<noteq> 1) + of_bool (cqe_flags c \<noteq> 0))"
proof -
  have e: "msg_err r + 1 < 2 ^ 64" "msg_err (r\<lparr>bad_results := bad_results r + 1\<rparr>) + 1 < 2 ^ 64"
    using assms msg_err_incs(1) [of r] by simp_all
  show ?thesis
    using msg_err_incs(1-4) [OF e(1)] msg_err_incs(2) [OF e(2)]
    by (simp add: verify_step_def Let_def split: option.split)
qed

lemma msg_verify_step_seen:
  "fills_read base c = Some j \<Longrightarrow> \<not> seen j \<Longrightarrow> verify_step base c (seen, r) = (seen(j := True), r)"
  by (cases "decode_sequence (cqe_user_data c) VERIFY_TAG base (of_nat QD)")
     (simp_all add: fills_read_def verify_step_def Let_def split: if_splits)

interpretation verify: exactly_once "verify_step base" "\<lambda>sr. msg_err (snd sr)" "good_read base" 2
    "\<lambda>sr. {j. fst sr j}" "fills_read base" "[0..<QD]"
  for base
proof unfold_locales
  fix sr :: "(nat \<Rightarrow> bool) \<times> result" and c
  assume e: "msg_err (snd sr) + 2 < 2 ^ 64"
  note * = msg_verify_step_err [OF e, of base c "fst sr", unfolded prod.collapse]
  show "msg_err (snd sr) \<le> msg_err (snd (verify_step base c sr)) \<and>
      msg_err (snd (verify_step base c sr)) \<le> msg_err (snd sr) + 2"
    unfolding * by (auto split: option.split)
  show "(msg_err (snd (verify_step base c sr)) = msg_err (snd sr)) = good_read base c sr"
    unfolding * by (auto simp: good_read_def fills_read_def split: option.split)
next
  fix sr :: "(nat \<Rightarrow> bool) \<times> result" and c
  have "j < QD" if "fills_read base c = Some j" for j
  proof -
    have "decode_sequence (cqe_user_data c) VERIFY_TAG base (of_nat QD) = Some j"
      using that by (auto simp: fills_read_def split: option.splits if_splits)
    from msg_decode_range [OF this] show ?thesis by (simp add: QD_def)
  qed
  then show "good_read base c sr = (\<exists>j \<in> set [0..<QD]. fills_read base c = Some j \<and> j \<notin> {j. fst sr j})"
    by (auto simp: good_read_def)
next
  fix sr :: "(nat \<Rightarrow> bool) \<times> result" and c j
  assume "fills_read base c = Some j" "j \<notin> {j. fst sr j}"
  then show "{j. fst (verify_step base c sr) j} = insert j {j. fst sr j}"
    by (cases sr) (auto simp: msg_verify_step_seen)
qed simp

lemma msg_verify_goods:
  "verify.goods base cs (seen, r) \<Longrightarrow> snd (fold (verify_step base) cs (seen, r)) = r"
proof (induction cs arbitrary: seen)
  case (Cons c cs)
  then have "good_read base c (seen, r)" and rest: "verify.goods base cs (verify_step base c (seen, r))"
    by simp_all
  then obtain j where j: "fills_read base c = Some j" "\<not> seen j" by (auto simp: good_read_def)
  note st = msg_verify_step_seen [of base c j seen r, OF j]
  from Cons.IH [OF rest [unfolded st]] show ?case by (simp only: fold.simps comp_apply st)
qed simp

text \<open>The completion of the read of slot \<open>base + j\<close>.\<close>

definition read_cqe :: "u64 \<Rightarrow> nat \<Rightarrow> cqe" where
  "read_cqe base j = \<lparr>cqe_user_data = tagged_user_data VERIFY_TAG (base + of_nat j), cqe_res = 1, cqe_flags = 0\<rparr>"

lemma msg_fills_read:
  assumes "unat base + QD \<le> 2 ^ 48"
  shows "fills_read base c = Some j \<longleftrightarrow> j < QD \<and> c = read_cqe base j"
proof -
  have qd: "unat (of_nat QD :: u32) = QD" by (simp add: QD_def)
  have small: "unat base + unat (of_nat QD :: u32) \<le> 2 ^ 48" using assms by (simp add: qd)
  have "fills_read base c = Some j \<longleftrightarrow>
      decode_sequence (cqe_user_data c) VERIFY_TAG base (of_nat QD) = Some j \<and> cqe_res c = 1 \<and> cqe_flags c = 0"
    by (auto simp: fills_read_def split: option.split)
  then show ?thesis
    using msg_decode_iff [OF msg_tags(3) small, of "cqe_user_data c" j] qd
    by (cases c) (auto simp: read_cqe_def)
qed

definition reads_done :: "u64 \<Rightarrow> cqe list \<Rightarrow> bool" where
  "reads_done base cs \<longleftrightarrow> mset cs = mset (map (read_cqe base) [0..<QD])"

lemma msg_reads_done:
  assumes small: "unat base + QD \<le> 2 ^ 48"
    and fills: "mset (map (fills_read base) cs) = mset (map Some [0..<QD])"
  shows "reads_done base cs"
proof -
  obtain js where js: "map (fills_read base) cs = map Some js" "mset js = mset [0..<QD]"
    using verify.permutation_claims [OF fills] by blast
  have len: "length cs = length js" using arg_cong [OF js(1), of length] by simp
  have "cs ! i = read_cqe base (js ! i)" if "i < length js" for i
  proof -
    have "fills_read base (cs ! i) = Some (js ! i)" using that js(1) len by (simp add: list_eq_iff_nth_eq)
    then show ?thesis using msg_fills_read [OF small] by blast
  qed
  then have "cs = map (read_cqe base) js" using len by (simp add: list_eq_iff_nth_eq)
  with js(2) show ?thesis by (simp add: reads_done_def)
qed

text \<open>The bytes read are compared with the sentinel.\<close>

definition byte_matches :: "u8 list \<Rightarrow> (u64 \<Rightarrow> u32) \<Rightarrow> u64 \<Rightarrow> u64 \<Rightarrow> nat \<Rightarrow> bool" where
  "byte_matches sentinel m buffers base i \<longleftrightarrow>
     load_byte m (buffers + of_nat i) = sentinel ! unat ((ucast base + of_nat i :: u32) mod of_nat SENTINEL_BYTES)"

lemma msg_err_reads [simp]:
  "msg_err (r\<lparr>verify_reads := x\<rparr>) = msg_err r" "msg_err (r\<lparr>slots_verified := x\<rparr>) = msg_err r"
  "msg_err (r\<lparr>verify_enters := x\<rparr>) = msg_err r"
  by (simp_all add: msg_err_def)

lemma msg_score_read_err:
  assumes "msg_err r + 2 < 2 ^ 64"
  shows "msg_err (score_read sentinel m buffers seen base i r) =
    msg_err r + of_bool (\<not> seen i) + of_bool (\<not> byte_matches sentinel m buffers base i)"
proof -
  have e: "msg_err r + 1 < 2 ^ 64" "msg_err (r\<lparr>verify_reads := verify_reads r + 1\<rparr>) + 1 < 2 ^ 64"
    "msg_err (r\<lparr>missing_events := missing_events r + 1\<rparr>) + 1 < 2 ^ 64"
    using assms msg_err_incs(5) [of r] by simp_all
  show ?thesis
    using msg_err_incs(5) [OF e(1)] msg_err_incs(7) [OF e(2)] msg_err_incs(7) [OF e(3)]
    by (simp add: score_read_def byte_matches_def Let_def)
qed

interpretation score_read: tally "score_read sentinel m buffers seen base" msg_err
    "\<lambda>i r. seen i \<and> byte_matches sentinel m buffers base i" 2
  for sentinel m buffers seen base
  by unfold_locales (simp_all add: msg_score_read_err)

lemma msg_score_read_goods:
  "score_read.goods sentinel m buffers seen base is r \<longleftrightarrow>
     (\<forall>i \<in> set is. seen i \<and> byte_matches sentinel m buffers base i)"
  by (induction "is" arbitrary: r) auto

lemma msg_score_read_right:
  "(\<And>i. i \<in> set is \<Longrightarrow> seen i \<and> byte_matches sentinel m buffers base i) \<Longrightarrow>
     fold (score_read sentinel m buffers seen base) is r =
       r\<lparr>verify_reads := verify_reads r + of_nat (length is), slots_verified := slots_verified r + of_nat (length is)\<rparr>"
proof (induction "is" arbitrary: r)
  case (Cons i "is")
  have "score_read sentinel m buffers seen base i r =
      r\<lparr>verify_reads := verify_reads r + 1, slots_verified := slots_verified r + 1\<rparr>"
    using Cons.prems [of i] by (simp add: score_read_def byte_matches_def Let_def)
  with Cons show ?case by (simp add: add.assoc)
qed simp

definition read_gain :: "msg_workload \<Rightarrow> u64 \<Rightarrow> u64 \<Rightarrow> 'k msg_machine \<Rightarrow> 'k msg_machine \<Rightarrow> bool" where
  "read_gain work buffers base s t \<longleftrightarrow> (\<exists>cs. reaps [cs] s t \<and> reads_done base cs) \<and>
     (\<forall>i < QD. byte_matches (w_sentinel work) (memory t) buffers base i) \<and>
     res t = (res s)\<lparr>verify_reads := verify_reads (res s) + of_nat QD,
                     slots_verified := slots_verified (res s) + of_nat QD\<rparr>"

lemma msg_read_back:
  fixes os :: "'k os" and work :: msg_workload and target :: raw_ring and buffers :: u64 and s :: "'k msg_machine"
  assumes err: "msg_err (res s) + 2 ^ 36 < 2 ^ 64" and base: "unat base + QD \<le> 2 ^ 48"
  defines "t \<equiv> read_back os work target buffers base s"
  shows "same_resources s t \<and> err_step (read_gain work buffers base s) s t"
proof -
  obtain head s1 where 1: "load_acquire os target cq_head s = (head, s1)" by (cases "load_acquire os target cq_head s")
  obtain tail s2 where 2: "load_acquire os target cq_tail s1 = (tail, s2)" by (cases "load_acquire os target cq_tail s1")
  have s2: "same_process s s2"
    using same_process_ops(6) [of s os target cq_head] same_process_ops(6) [of s1 os target cq_tail] 1 2
    by (auto intro: same_process_trans)
  define a where "a = tail - head"
  define cs where "cs = copy_cqes target head a s2"
  have len: "length cs = unat a" by (simp add: cs_def)
  let ?r0 = "note_reads a (res s)"
  obtain seen r1 where f: "fold (verify_step base) cs (\<lambda>_. False, ?r0) = (seen, r1)"
    by (cases "fold (verify_step base) cs (\<lambda>_. False, ?r0)")
  define s3 where "s3 = store_release target cq_head_update tail (upd_res (\<lambda>_. r1) s2)"
  define s4 where "s4 = s3\<lparr>reaped := reaped s3 @ [cs]\<rparr>"
  let ?score = "score_read (w_sentinel work) (memory s4) buffers seen base"
  have t: "t = upd_res (fold ?score [0..<QD]) s4"
    unfolding t_def read_back_def
    by (simp add: 1 2 f Let_def s3_def s4_def a_def [symmetric] cs_def [symmetric] same_process_D(1) [OF s2])
  have r4: "res s4 = r1" "reaped s4 = reaped s @ [cs]" "same_resources s s4"
    using s2 by (simp_all add: s4_def s3_def same_process_D same_resources_def)
  have mem: "memory t = memory s4" by (simp add: t memory_def)
  have rt: "res t = fold ?score [0..<QD] r1" by (simp add: t r4)
  have e32: "msg_err (res s) + 2 ^ 32 < 2 ^ 64" using err by simp
  note n = msg_err_note_available [OF e32, of a "of_nat QD", folded msg_err_note_reads [OF e32]]
  have "length cs < 2 ^ 32" using len unat_lt32 [of a] by simp
  with n(2) err have b: "msg_err (snd (\<lambda>_. False, ?r0)) + 2 * length cs < 2 ^ 64" by simp
  note v = verify.err_fold [OF b, of base, unfolded f snd_conv]
  have e1: "msg_err r1 + 2 * length [0..<QD] < 2 ^ 64"
    using v n(2) err \<open>length cs < 2 ^ 32\<close> by (simp add: QD_def)
  note c = score_read.err_fold [OF e1, of "w_sentinel work" "memory s4" buffers seen base, folded rt]
    and g = score_read.err_fold_goods [OF e1, of "w_sentinel work" "memory s4" buffers seen base, folded rt]
  have bounds: "msg_err (res s) \<le> msg_err (res t)" "msg_err (res t) \<le> msg_err (res s) + 2 ^ 36"
    using n(1,2) v c \<open>length cs < 2 ^ 32\<close> by (simp_all add: QD_def)
  have "read_gain work buffers base s t" if "msg_err (res t) = msg_err (res s)"
  proof -
    have eqs: "msg_err (res t) = msg_err r1" "msg_err r1 = msg_err ?r0" "msg_err ?r0 = msg_err (res s)"
      using that n(1) v c by simp_all
    have right: "seen i \<and> byte_matches (w_sentinel work) (memory s4) buffers base i" if "i \<in> set [0..<QD]" for i
      using g eqs(1) that by (simp add: msg_score_read_goods)
    have "a = of_nat QD" using eqs(3) n(3) by simp
    then have r0: "?r0 = res s" by (simp add: note_reads_def)
    have "verify.goods base cs (\<lambda>_. False, ?r0)"
      using verify.err_fold_goods [OF b, of base] eqs(2) f by simp
    from msg_verify_goods [OF this] have r1: "r1 = res s" using f r0 by simp
    have "mset (map (fills_read base) cs) = mset (map Some [0..<QD])"
    proof (rule iffD1 [OF verify.covers_iff [OF b, of base]])
      show "{j. fst (\<lambda>_. False, ?r0) j} = {}" by simp
      show "msg_err (snd (fold (verify_step base) cs (\<lambda>_. False, ?r0))) = msg_err (snd (\<lambda>_. False, ?r0)) \<and>
          set [0..<QD] \<subseteq> {j. fst (fold (verify_step base) cs (\<lambda>_. False, ?r0)) j}"
        using eqs(2) right by (auto simp: f)
    qed
    from msg_reads_done [OF base this] have "reads_done base cs" .
    moreover have "reaps [cs] s t" by (simp add: t reaps_def r4)
    moreover have "res t = (res s)\<lparr>verify_reads := verify_reads (res s) + of_nat QD,
        slots_verified := slots_verified (res s) + of_nat QD\<rparr>"
      unfolding rt r1 using msg_score_read_right [OF right, of "[0..<QD]" "res s"] by simp
    ultimately show ?thesis using right mem by (auto simp: read_gain_def)
  qed
  with bounds have "err_step (read_gain work buffers base s) s t" by (simp add: err_step_def)
  moreover have "same_resources s t" using r4(3) by (simp add: t same_resources_def)
  ultimately show ?thesis by simp
qed

end
