(* ===== verification/Msg_Fd_Round.thy ===== *)
theory Msg_Fd_Round
  imports Msg_Verify
begin

text \<open>
  io_uring_msg_ring_round.c: the outcome of \<open>run_send_fd_once\<close>. A round that returns 0 has
  given every slot of the table to exactly one request and read every slot back; its target
  ring is gone again on every path.
\<close>

section \<open>The loop that reads back\<close>

definition verify_advance :: "result \<Rightarrow> result" where
  "verify_advance r = r\<lparr>verify_enters := verify_enters r + 1, verify_reads := verify_reads r + of_nat QD,
     slots_verified := slots_verified r + of_nat QD\<rparr>"

definition read_group :: "nat \<Rightarrow> cqe list list \<Rightarrow> bool" where
  "read_group b g \<longleftrightarrow> (\<exists>cs. g = [cs] \<and> reads_done (of_nat (b * QD)) cs)"

definition verify_done :: "msg_workload \<Rightarrow> u64 \<Rightarrow> u64 \<Rightarrow> 'k msg_machine \<Rightarrow> 'k msg_machine \<Rightarrow> bool" where
  "verify_done work buffers base s t \<longleftrightarrow> (\<exists>cs. reaps [cs] s t \<and> reads_done base cs) \<and>
     (\<forall>i < QD. byte_matches (w_sentinel work) (memory t) buffers base i) \<and> res t = verify_advance (res s)"

lemma msg_verify_batch_outcome:
  assumes err: "msg_err (res s) + 2 ^ 36 < 2 ^ 64" and base: "unat base + QD \<le> 2 ^ 48"
  shows "wp (verify_batch os work target buffers base s)
    (outcome (err_step (verify_done work buffers base s) s) s)"
  unfolding verify_batch_def prepare_read_batch_def
proof (rule outcome_or_fail)
  have "same_process s (clear_buffers buffers s)" by (simp add: clear_buffers_def same_process_def)
  then show "wp (Some (prepare_with os target (\<lambda>i. read_sqe (ucast base + of_nat i) (buffers + of_nat i)) (of_nat QD)
      (clear_buffers buffers s))) (outcome (same_process s) s)"
    by (intro outcome_rebase [OF same_process_resources outcome_mono [OF msg_prepare_outcome]])
       (auto intro: same_process_trans)
next
  fix t assume t: "same_process s t"
  show "wp (or_fail (bounded_enter os target (of_nat QD) (of_nat QD) t) (\<lambda>s.
     Some (0, read_back os work target buffers base
                (upd_res (\<lambda>r. r\<lparr>verify_enters := verify_enters r + 1\<rparr>) s))))
     (outcome (err_step (verify_done work buffers base s) s) t)"
  proof (rule outcome_or_fail [OF msg_enter_outcome])
    fix u assume u: "same_process t u"
    let ?u = "upd_res (\<lambda>r. r\<lparr>verify_enters := verify_enters r + 1\<rparr>) u"
    have su: "res u = res s" "reaped u = reaped s"
      using same_process_D [OF t] same_process_D [OF u] by simp_all
    then have e: "msg_err (res ?u) = msg_err (res s)" by simp
    with err have "msg_err (res ?u) + 2 ^ 36 < 2 ^ 64" by simp
    note b = msg_read_back [OF this base, of os work target buffers]
    let ?v = "read_back os work target buffers base ?u"
    have "err_step (verify_done work buffers base s) s ?v"
      using b su by (auto simp: err_step_def verify_done_def read_gain_def verify_advance_def reaps_def)
    moreover have "same_resources u ?v" using same_resources_trans [OF same_resources_ops(1) conjunct1 [OF b]] .
    ultimately show "wp (Some (0, read_back os work target buffers base ?u))
        (outcome (err_step (verify_done work buffers base s) s) u)" by simp
  qed
qed

definition read_inv :: "'k msg_machine \<Rightarrow> nat \<Rightarrow> 'k msg_machine \<Rightarrow> bool" where
  "read_inv s b t \<longleftrightarrow> msg_err (res s) \<le> msg_err (res t) \<and> msg_err (res t) \<le> msg_err (res s) + b * 2 ^ 36 \<and>
     (msg_err (res t) = msg_err (res s) \<longrightarrow> logged read_group b s t \<and> res t = (verify_advance ^^ b) (res s))"

lemma msg_read_inv_step:
  assumes inv: "read_inv s b t" and step: "err_step (verify_done work buffers (of_nat (b * QD)) t) t u"
  shows "read_inv s (Suc b) u"
proof -
  have e: "msg_err (res t) \<le> msg_err (res u)" "msg_err (res u) \<le> msg_err (res t) + 2 ^ 36"
    using step by (simp_all add: err_step_def)
  have "logged read_group (Suc b) s u \<and> res u = (verify_advance ^^ Suc b) (res s)"
    if "msg_err (res u) = msg_err (res s)"
  proof -
    have zero: "msg_err (res t) = msg_err (res s)" "msg_err (res u) = msg_err (res t)"
      using that e(1) inv by (simp_all add: read_inv_def)
    then obtain cs where "reaps [cs] t u" "reads_done (of_nat (b * QD)) cs" "res u = verify_advance (res t)"
      using step by (auto simp: err_step_def verify_done_def)
    with zero(1) inv show ?thesis
      by (auto simp: read_inv_def read_group_def intro: logged_step)
  qed
  with e inv show ?thesis by (simp add: read_inv_def)
qed

lemma msg_verify_outcome:
  assumes "msg_err (res s) \<le> 2 ^ 63"
  shows "wp (verify_fixed_files os work target buffers slots s)
    (outcome (read_inv s (unat slots div QD)) s)"
  unfolding verify_fixed_files_def
proof (rule outcome_for_each [where P = "read_inv s"])
  fix b t assume b: "b < unat slots div QD" and t: "read_inv s b t"
  have b26: "b < 2 ^ 26" using b unat_lt32 [of slots] by (simp add: QD_def)
  have err: "msg_err (res t) + 2 ^ 36 < 2 ^ 64"
    using t assms b26 by (simp add: read_inv_def)
  have "b * QD < 2 ^ 64" using b26 by (simp add: QD_def)
  then have "unat (of_nat (b * QD) :: u64) = b * QD"
    by (simp add: unat_of_nat del: of_nat_mult)
  with b26 have base: "unat (of_nat (b * QD) :: u64) + QD \<le> 2 ^ 48" by (simp add: QD_def)
  show "wp (verify_batch os work target buffers (of_nat (b * QD)) t) (outcome (read_inv s (Suc b)) t)"
    by (rule outcome_mono [OF msg_verify_batch_outcome [OF err base]]) (rule msg_read_inv_step [OF t])
qed (simp_all add: read_inv_def)

lemma msg_verify_advances:
  "(verify_advance ^^ n) r = r\<lparr>verify_enters := verify_enters r + of_nat n,
     verify_reads := verify_reads r + of_nat (n * QD), slots_verified := slots_verified r + of_nat (n * QD)\<rparr>"
  by (induction n) (simp_all add: verify_advance_def ring_distribs add.commute add.left_commute)

section \<open>The phases of a round\<close>

text \<open>The result of a passing round, and what has happened in it.\<close>

definition fd_result :: "u32 \<Rightarrow> u64 \<Rightarrow> result" where
  "fd_result operations ns =
     (let n = unat operations div QD
      in (after_fd operations n)\<lparr>verify_enters := of_nat n, verify_reads := of_nat (n * QD),
           slots_verified := of_nat (n * QD), elapsed_ns := ns, semantic_pass := True\<rparr>)"

definition fd_done :: "u32 \<Rightarrow> 'k msg_machine \<Rightarrow> 'k msg_machine \<Rightarrow> bool" where
  "fd_done operations s t \<longleftrightarrow> (\<exists>slot bs vs. bij_betw slot {..<unat operations} {..<unat operations} \<and>
     reaps (bs @ vs) s t \<and> grouped (fd_group slot) (unat operations div QD) bs \<and>
     grouped read_group (unat operations div QD) vs)"

text \<open>The end of the phases: without errors every slot was given out once and read once.\<close>

definition phases_done :: "u32 \<Rightarrow> 'k msg_machine \<Rightarrow> 'k msg_machine \<Rightarrow> bool" where
  "phases_done operations s t \<longleftrightarrow> (msg_err (res t) = 0 \<longrightarrow> fd_done operations s t \<and>
     (\<exists>ns. (res t)\<lparr>semantic_pass := True\<rparr> = fd_result operations ns))"

lemma msg_inj_onto:
  assumes "inj_on slot {..<n}" and "slot ` {..<n} \<subseteq> {..<n :: nat}"
  shows "bij_betw slot {..<n} {..<n}"
  using assms endo_inj_surj [of "{..<n}" slot] by (simp add: bij_betw_def)

lemma msg_phases_end:
  assumes n: "unat operations div QD * QD = unat operations"
    and inv: "fd_inv operations s (unat operations div QD) bm s2"
    and u: "reaps [] s2 u" "res u = (res s2)\<lparr>elapsed_ns := ns\<rparr>"
    and s3: "s3 = upd_res (missing_slots bm operations) u" and err: "msg_err (res s3) = 0"
    and v: "read_inv s3 (unat operations div QD) v" and ev: "msg_err (res v) = 0"
  shows "fd_done operations s v \<and> (\<exists>ns. (res v)\<lparr>semantic_pass := True\<rparr> = fd_result operations ns)"
proof -
  let ?n = "unat operations div QD"
  have n26: "?n < 2 ^ 26" using unat_lt32 [of operations] by (simp add: QD_def)
  have eu: "msg_err (res u) = msg_err (res s2)" by (simp add: u(2) msg_err_def)
  have "msg_err (res u) + 2 ^ 32 < 2 ^ 64" using inv eu n26 by (simp add: fd_inv_def)
  from msg_missing_bounds [OF this, of bm operations] err have "msg_err (res s2) = 0" using eu by (simp add: s3)
  then obtain slot where slot: "inj_on slot {..<unat operations}" "slot ` {..<unat operations} \<subseteq> {..<unat operations}"
      "slot_bits bm = slot ` {..<unat operations}" "logged (fd_group slot) ?n s s2" "res s2 = after_fd operations ?n"
    using inv n by (auto simp: fd_inv_def)
  have bij: "bij_betw slot {..<unat operations} {..<unat operations}"
    using msg_inj_onto [OF slot(1,2)] .
  then have "slot_bits bm = {..<unat operations}" using slot(3) by (simp add: bij_betw_def)
  then have "res s3 = res u" using msg_missing_none [of operations bm] by (simp add: s3)
  then have r3: "res s3 = (after_fd operations ?n)\<lparr>elapsed_ns := ns\<rparr>" using u(2) slot(5) by simp
  have "msg_err (res v) = msg_err (res s3)" using ev err by simp
  then have rv: "logged read_group ?n s3 v" "res v = (verify_advance ^^ ?n) (res s3)"
    using v by (simp_all add: read_inv_def)
  obtain bs where bs: "reaps bs s s2" "grouped (fd_group slot) ?n bs" using slot(4) by (auto simp: logged_def)
  obtain vs where vs: "reaps vs s3 v" "grouped read_group ?n vs" using rv(1) by (auto simp: logged_def)
  have "reaps (bs @ vs) s v" using bs(1) vs(1) u(1) by (simp add: reaps_def s3)
  with bij bs(2) vs(2) have "fd_done operations s v" unfolding fd_done_def by blast
  moreover have "(res v)\<lparr>semantic_pass := True\<rparr> = fd_result operations ns"
    unfolding rv(2) r3 msg_verify_advances by (simp add: fd_result_def after_fd_def zero_result_def Let_def)
  ultimately show ?thesis by blast
qed

lemma msg_after_install:
  assumes n: "unat operations div QD * QD = unat operations"
    and inv: "fd_inv operations s (unat operations div QD) bm s2"
    and u: "reaps [] s2 u \<and> (\<exists>ns. res u = (res s2)\<lparr>elapsed_ns := ns\<rparr>)"
  shows "wp (let s3 = upd_res (missing_slots bm operations) u
    in or_fail (if missing_events (res s3) = 0
                then verify_fixed_files os work target buffers operations s3 else Some (0, s3))
         (\<lambda>s. Some (0, s))) (outcome (phases_done operations s) u)"
proof -
  obtain ns where ns: "res u = (res s2)\<lparr>elapsed_ns := ns\<rparr>" using u by blast
  define s3 where "s3 = upd_res (missing_slots bm operations) u"
  have n26: "unat operations div QD < 2 ^ 26" using unat_lt32 [of operations] by (simp add: QD_def)
  have eu: "msg_err (res u) = msg_err (res s2)" by (simp add: ns msg_err_def)
  have "msg_err (res u) + 2 ^ 32 < 2 ^ 64" using inv eu n26 by (simp add: fd_inv_def)
  from msg_missing_bounds [OF this, of bm operations]
  have e3: "msg_err (res s3) \<le> 2 ^ 63" using inv eu n26 by (simp add: s3_def fd_inv_def)
  have "wp (or_fail (if missing_events (res s3) = 0
      then verify_fixed_files os work target buffers operations s3 else Some (0, s3)) (\<lambda>s. Some (0, s)))
    (outcome (phases_done operations s) s3)"
  proof (cases "missing_events (res s3) = 0")
    case False
    then have "msg_err (res s3) \<noteq> 0" by (simp add: msg_err_zero)
    then have "phases_done operations s s3" by (simp add: phases_done_def)
    with False show ?thesis by (simp add: or_fail_def)
  next
    case True
    have "wp (or_fail (verify_fixed_files os work target buffers operations s3) (\<lambda>s. Some (0, s)))
      (outcome (phases_done operations s) s3)"
    proof (rule outcome_or_fail [OF msg_verify_outcome [OF e3]])
      fix v assume v: "read_inv s3 (unat operations div QD) v"
      have "fd_done operations s v \<and> (\<exists>ns. (res v)\<lparr>semantic_pass := True\<rparr> = fd_result operations ns)"
        if "msg_err (res v) = 0"
        using msg_phases_end [OF n inv conjunct1 [OF u] ns s3_def _ v that] v that by (simp add: read_inv_def)
      then show "wp (Some (0, v)) (outcome (phases_done operations s) v)" by (simp add: phases_done_def)
    qed
    with True show ?thesis by simp
  qed
  moreover have "same_resources u s3" by (simp add: s3_def)
  ultimately show ?thesis unfolding Let_def s3_def [symmetric] by (rule outcome_rebase [rotated])
qed

lemma msg_fd_phases_outcome:
  assumes ops: "operations mod of_nat QD = 0"
    and start: "res s = zero_result\<lparr>logical_ops := ucast operations\<rparr>"
  shows "wp (fd_phases os work target buffers operations timed s) (outcome (phases_done operations s) s)"
proof -
  let ?n = "unat operations div QD"
  let ?bm = "replicate (unat ((operations + 63) div 64)) 0 :: u64 list"
  have mod: "unat operations mod QD = 0"
    using ops unat_mod [of operations "of_nat QD"] by (simp add: QD_def)
  then have nq: "?n * QD = unat operations" by auto
  have n26: "?n < 2 ^ 26" using unat_lt32 [of operations] by (simp add: QD_def)
  have "unat operations + 63 < 2 ^ 32"
  proof -
    have "?n * 64 + 63 < 2 ^ 32" using n26 by simp
    then show ?thesis using nq by (simp add: QD_def)
  qed
  then have "unat (operations + 63) = unat operations + 63" by (simp add: unat_word_ariths)
  then have "length ?bm = (unat operations + 63) div 64" by (simp add: unat_div)
  then have bm: "unat operations \<le> 64 * length ?bm" by simp
  have inv0: "fd_inv operations s 0 ?bm t" if "same_process s t" for t
    using that bm start
    by (simp add: fd_inv_def same_process_D msg_slot_bits_empty msg_err_def zero_result_def after_fd_def reaps_def)
  show ?thesis
    unfolding fd_phases_def
  proof (rule outcome_bind [OF now_if_same])
    fix started t assume t: "same_process s t"
    show "wp (do {
       (rc, bm, s2) \<leftarrow> for_each (\<lambda>b. fd_batch os work target operations (of_nat (b * QD))) [0..<?n] (?bm, t);
       if rc \<noteq> 0 then Some (-1, s2)
       else or_fail (set_elapsed os timed started s2) (\<lambda>s.
            let s3 = upd_res (missing_slots bm operations) s
            in or_fail (if missing_events (res s3) = 0
                        then verify_fixed_files os work target buffers operations s3 else Some (0, s3))
                 (\<lambda>s. Some (0, s)))
     }) (outcome (phases_done operations s) t)"
    proof (rule wp_bindI [OF msg_fd_loop [OF inv0 [OF t]]])
      fix rc :: int and bt
      assume o: "outcome (fd_inv operations s ?n (fst bt)) t rc (snd bt)"
      show "wp ((case bt of (bm, s2) \<Rightarrow> if rc \<noteq> 0 then Some (-1, s2)
        else or_fail (set_elapsed os timed started s2) (\<lambda>s.
            let s3 = upd_res (missing_slots bm operations) s
            in or_fail (if missing_events (res s3) = 0
                        then verify_fixed_files os work target buffers operations s3 else Some (0, s3))
                 (\<lambda>s. Some (0, s))))) (outcome (phases_done operations s) t)"
      proof (cases "rc = 0")
        case False
        then show ?thesis using o by (cases bt) (simp add: outcome_def)
      next
        case True
        obtain bm s2 where bt: "bt = (bm, s2)" by (cases bt)
        have inv: "fd_inv operations s ?n bm s2" and s2: "same_resources t s2"
          using o True by (simp_all add: bt)
        have "wp (or_fail (set_elapsed os timed started s2) (\<lambda>s.
            let s3 = upd_res (missing_slots bm operations) s
            in or_fail (if missing_events (res s3) = 0
                        then verify_fixed_files os work target buffers operations s3 else Some (0, s3))
                 (\<lambda>s. Some (0, s)))) (outcome (phases_done operations s) s2)"
          by (rule outcome_or_fail [OF msg_set_elapsed_outcome]) (rule msg_after_install [OF nq inv])
        from outcome_rebase [OF s2 this] True show ?thesis by (simp add: bt)
      qed
    qed
  qed
qed

section \<open>The end of a round\<close>

definition with_out :: "result \<Rightarrow> result \<Rightarrow> bool" where
  "with_out r r' \<longleftrightarrow> (\<exists>x sd so td tov sl tl. r' = r\<lparr>cleanup_failures := x, source_dropped := sd,
     source_overflow := so, target_dropped := td, target_overflow := tov, source_outstanding := sl,
     target_outstanding := tl\<rparr>)"

lemma msg_fd_counters:
  "same_resources s (fd_counters os work target s)" "reaps [] s (fd_counters os work target s)"
  "with_out (res s) (res (fd_counters os work target s))"
proof -
  show "same_resources s (fd_counters os work target s)"
    by (simp add: fd_counters_def same_resources_def read_counter_def read_outstanding_def split_beta Let_def)
  show "reaps [] s (fd_counters os work target s)"
    by (simp add: fd_counters_def reaps_def read_counter_def read_outstanding_def split_beta Let_def)
  let ?s1 = "read_counter os (w_source work) sq_dropped set_source_dropped s"
  let ?s2 = "read_counter os (w_source work) cq_overflow set_source_overflow ?s1"
  let ?t1 = "read_counter os target sq_dropped set_target_dropped ?s2"
  let ?t2 = "read_counter os target cq_overflow set_target_overflow ?t1"
  let ?t3 = "read_outstanding os target set_target_outstanding ?t2"
  let ?s3 = "if 0 \<le> ring_fd target then ?t3 else ?s2"
  obtain v1 where 1: "res ?s1 = set_source_dropped v1 (res s)" using msg_read_counter(3) by blast
  obtain v2 where 2: "res ?s2 = set_source_overflow v2 (res ?s1)" using msg_read_counter(3) by blast
  obtain v3 where 3: "res ?t1 = set_target_dropped v3 (res ?s2)" using msg_read_counter(3) by blast
  obtain v4 where 4: "res ?t2 = set_target_overflow v4 (res ?t1)" using msg_read_counter(3) by blast
  obtain v5 where 5: "res ?t3 = set_target_outstanding v5 (res ?t2)" using msg_read_outstanding(3) by blast
  obtain v6 where 6: "res (fd_counters os work target s) = set_source_outstanding v6 (res ?s3)"
    unfolding fd_counters_def Let_def using msg_read_outstanding(3) by blast
  show "with_out (res s) (res (fd_counters os work target s))"
  proof (cases "0 \<le> ring_fd target")
    case True
    then have r: "res (fd_counters os work target s) = (res s)\<lparr>cleanup_failures := cleanup_failures (res s),
        source_dropped := v1, source_overflow := v2, target_dropped := v3, target_overflow := v4,
        source_outstanding := v6, target_outstanding := v5\<rparr>"
      using 6 5 4 3 2 1 by (simp add: msg_setters)
    show ?thesis unfolding with_out_def r by blast
  next
    case False
    then have r: "res (fd_counters os work target s) = (res s)\<lparr>cleanup_failures := cleanup_failures (res s),
        source_dropped := v1, source_overflow := v2, target_dropped := target_dropped (res s),
        target_overflow := target_overflow (res s), source_outstanding := v6,
        target_outstanding := target_outstanding (res s)\<rparr>"
      using 6 2 1 by (simp add: msg_setters)
    show ?thesis unfolding with_out_def r by blast
  qed
qed

lemma msg_fd_pass_result:
  assumes pass: "fd_pass operations r'" and w: "with_out r r'"
    and r: "msg_err r = 0 \<Longrightarrow> r\<lparr>semantic_pass := True\<rparr> = fd_result operations ns"
  shows "set_pass True r' = fd_result operations ns" "msg_err r = 0"
proof -
  obtain x sd so td tov sl tl where r': "r' = r\<lparr>cleanup_failures := x, source_dropped := sd,
     source_overflow := so, target_dropped := td, target_overflow := tov, source_outstanding := sl,
     target_outstanding := tl\<rparr>" using w by (auto simp: with_out_def)
  show e: "msg_err r = 0" using pass by (simp add: r' fd_pass_def msg_err_zero)
  have zero: "x = 0" "sd = 0" "so = 0" "td = 0" "tov = 0" "sl = 0" "tl = 0"
    using pass by (simp_all add: r' fd_pass_def)
  have "set_pass True r' = (r\<lparr>semantic_pass := True\<rparr>)\<lparr>cleanup_failures := 0, source_dropped := 0,
     source_overflow := 0, target_dropped := 0, target_overflow := 0, source_outstanding := 0,
     target_outstanding := 0\<rparr>" unfolding r' zero set_pass_def by simp
  also have "\<dots> = fd_result operations ns"
    unfolding r [OF e] by (simp add: fd_result_def after_fd_def zero_result_def Let_def)
  finally show "set_pass True r' = fd_result operations ns" .
qed

text \<open>A target ring at the top of what the process holds is given back.\<close>

definition holds_ring :: "raw_ring \<Rightarrow> ('k, 'r) machine \<Rightarrow> ('k, 'r) machine \<Rightarrow> bool" where
  "holds_ring ring s t \<longleftrightarrow> 0 \<le> ring_fd ring \<and> vmas t = owned ring @ vmas s \<and>
     open_fds t = ring_fd ring # open_fds s \<and> out_lines t = out_lines s"

definition no_ring :: "raw_ring \<Rightarrow> bool" where
  "no_ring ring \<longleftrightarrow> (\<exists>fd < 0. ring = zero_ring\<lparr>ring_fd := fd\<rparr>)"

lemma msg_destroy_none: "no_ring ring \<Longrightarrow> same_resources s (snd (raw_ring_destroy os ring s))"
  by (auto simp: no_ring_def raw_ring_destroy_def raw_ring_unmap_def zero_ring_def same_resources_def)

lemma msg_destroy_holds:
  assumes "holds_ring ring s t"
  shows "same_resources s (snd (raw_ring_destroy os ring t))"
  using destroy_owned [of t ring "vmas s" "open_fds s" os] assms
  by (simp add: holds_ring_def same_resources_def)

lemma msg_holds_same: "holds_ring ring s t \<Longrightarrow> same_resources t u \<Longrightarrow> holds_ring ring s u"
  by (simp add: holds_ring_def same_resources_def)

lemma msg_fail_none: "ring_fail os r s = (rc, ring, t) \<Longrightarrow> no_ring ring"
proof -
  assume "ring_fail os r s = (rc, ring, t)"
  then have "ring = zero_ring\<lparr>ring_fd := -1\<rparr>"
    by (auto simp: ring_fail_def raw_ring_destroy_def split_beta Let_def)
  then show ?thesis unfolding no_ring_def by (intro exI [of _ "-1"]) simp
qed

lemma msg_bringup_none:
  assumes "ring_bringup os n p s = (rc, ring, t)" and "rc \<noteq> 0"
  shows "no_ring ring"
proof -
  obtain fd q s1 where st: "setup_ring os n p s = (fd, q, s1)" by (cases "setup_ring os n p s") auto
  show ?thesis
  proof (cases "fd < 0")
    case True
    with assms st show ?thesis by (auto simp: ring_bringup_def no_ring_def)
  next
    case False
    with assms st show ?thesis
      by (auto simp: ring_bringup_def dest: msg_fail_none
          split: prod.splits option.splits bool.splits)
  qed
qed

lemma msg_init_cases:
  assumes nn: "mmap_nonnull os" and run: "raw_ring_init os fl s = (rc, ring, t)"
  shows "rc = 0 \<and> holds_ring ring s t \<or> rc \<noteq> 0 \<and> no_ring ring \<and> same_resources s t"
proof -
  obtain rc1 ring1 s1 where b: "ring_bringup os RING_ENTRIES (zero_params\<lparr>p_flags := fl\<rparr>) s = (rc1, ring1, s1)"
    by (cases "ring_bringup os RING_ENTRIES (zero_params\<lparr>p_flags := fl\<rparr>) s") auto
  have "no_ring ring" if "rc \<noteq> 0"
  proof (cases "rc1 = 0")
    case False
    then show ?thesis using msg_bringup_none [OF b False] run b by (simp add: raw_ring_init_def)
  next
    case True
    then show ?thesis using run b that
      by (auto simp: raw_ring_init_def Let_def dest: msg_fail_none split: if_splits)
  qed
  then show ?thesis
    using msg_ring_init_owns [OF nn run] msg_ring_init_data [OF run]
    by (auto simp: holds_ring_def same_resources_def same_data_def)
qed

section \<open>A whole round\<close>

lemma msg_unregister_same: "unregister_files os ring s = (rc, t) \<Longrightarrow> same_process s t"
  by (simp add: unregister_files_def sys_process)

lemma msg_fd_out:
  assumes ring: "holds_ring target s0 s \<or> no_ring target \<and> same_resources s0 s"
  shows "wp (fd_out os work target registered operations ret s) (outcome (\<lambda>t. ret = 0 \<and> reaps [] s t \<and>
    (\<exists>r'. fd_pass operations r' \<and> with_out (res s) r' \<and> res t = set_pass True r')) s0)"
proof -
  let ?s1 = "fd_counters os work target s"
  obtain rc t1 where u: "unregister_files os target ?s1 = (rc, t1)" by (cases "unregister_files os target ?s1")
  let ?s2 = "if registered then (if rc \<noteq> 0
      then upd_res (\<lambda>r. r\<lparr>cleanup_failures := cleanup_failures r + 1\<rparr>) t1 else t1) else ?s1"
  obtain target1 s3 where d: "raw_ring_destroy os target ?s2 = (target1, s3)"
    by (cases "raw_ring_destroy os target ?s2")
  note c = msg_fd_counters [of s os work target]
  note t1 = same_process_D [OF msg_unregister_same [OF u]]
  have s2: "same_resources s ?s2" "reaps [] s ?s2"
    using c(1,2) t1 by (simp_all add: same_resources_def reaps_def)
  obtain x sd so td tov sl tl where r1: "res ?s1 = (res s)\<lparr>cleanup_failures := x, source_dropped := sd,
     source_overflow := so, target_dropped := td, target_overflow := tov, source_outstanding := sl,
     target_outstanding := tl\<rparr>" using c(3) by (auto simp: with_out_def)
  have w2: "with_out (res s) (res ?s2)"
  proof (cases "registered \<and> rc \<noteq> 0")
    case True
    then have "res ?s2 = (res s)\<lparr>cleanup_failures := x + 1, source_dropped := sd,
     source_overflow := so, target_dropped := td, target_overflow := tov, source_outstanding := sl,
     target_outstanding := tl\<rparr>" using t1(1) r1 by simp
    then show ?thesis unfolding with_out_def by blast
  next
    case False
    then have "res ?s2 = res ?s1" using t1(1) by auto
    then show ?thesis using c(3) by simp
  qed
  have s3: "res s3 = res ?s2" "reaped s3 = reaped ?s2"
    using raw_ring_destroy_frame [of os target ?s2] d by simp_all
  have "same_resources s0 s3"
    using ring
  proof
    assume "holds_ring target s0 s"
    from msg_destroy_holds [OF msg_holds_same [OF this s2(1)], of os] show ?thesis by (simp add: d)
  next
    assume "no_ring target \<and> same_resources s0 s"
    then show ?thesis
      using msg_destroy_none [of target ?s2 os] s2(1) by (simp add: d same_resources_def)
  qed
  moreover have "wp (conclude_with set_pass (\<lambda>r. ret = 0 \<and> fd_pass operations r) s3)
      (outcome (\<lambda>t. ret = 0 \<and> reaps [] s t \<and>
        (\<exists>r'. fd_pass operations r' \<and> with_out (res s) r' \<and> res t = set_pass True r')) s3)"
    by (rule outcome_mono [OF conclude_with_outcome]) (use s2(2) s3 w2 in \<open>auto simp: reaps_def\<close>)
  ultimately have "wp (conclude_with set_pass (\<lambda>r. ret = 0 \<and> fd_pass operations r) s3)
      (outcome (\<lambda>t. ret = 0 \<and> reaps [] s t \<and>
        (\<exists>r'. fd_pass operations r' \<and> with_out (res s) r' \<and> res t = set_pass True r')) s0)"
    by (rule outcome_rebase)
  moreover have "fd_out os work target registered operations ret s =
      conclude_with set_pass (\<lambda>r. ret = 0 \<and> fd_pass operations r) s3"
    unfolding fd_out_def Let_def u prod.case using d by simp
  ultimately show ?thesis by simp
qed

text \<open>What a round that returns 0 has achieved.\<close>

definition fd_round_done :: "u32 \<Rightarrow> 'k msg_machine \<Rightarrow> 'k msg_machine \<Rightarrow> bool" where
  "fd_round_done operations s t \<longleftrightarrow> fd_done operations s t \<and> (\<exists>ns. res t = fd_result operations ns)"

lemma msg_send_fd_outcome:
  assumes nn: "mmap_nonnull os"
  shows "wp (run_send_fd_once os work buffers operations timed s) (outcome (fd_round_done operations s) s)"
proof -
  let ?r0 = "zero_result\<lparr>logical_ops := ucast operations\<rparr>"
  let ?s0 = "upd_res (\<lambda>_. ?r0) s"
  obtain ok s1 where a: "ask (os_calloc os) ?s0 = (ok, s1)" by (cases "ask (os_calloc os) ?s0")
  obtain rc target s2 where i: "raw_ring_init os 0 s1 = (rc, target, s2)" by (cases "raw_ring_init os 0 s1") auto
  obtain rc' s3 where g: "register_sparse_files os target operations s2 = (rc', s3)"
    by (cases "register_sparse_files os target operations s2")
  have p1: "same_process ?s0 s1" using ask_process [OF a] .
  have p3: "same_process s2 s3" using g by (simp add: register_sparse_files_def sys_process)
  have d2: "same_data s1 s2" using msg_ring_init_data [OF i] .
  have r1: "same_resources s s1" using p1 by (simp add: same_resources_def same_process_def)
  have data3: "res s3 = ?r0" "reaped s3 = reaped s"
    using p1 d2 p3 by (simp_all add: same_process_def same_data_def)
  have fail: "wp (fd_out os work target False operations (-1) u) (outcome (fd_round_done operations s) s1)"
    if "holds_ring target s1 u \<or> no_ring target \<and> same_resources s1 u" for u
    by (rule outcome_mono [OF msg_fd_out [OF that]]) simp
  show ?thesis
  proof (cases "operations = 0 \<or> operations mod of_nat QD \<noteq> 0")
    case True
    then have "run_send_fd_once os work buffers operations timed s = Some (-1, ?s0)"
      unfolding run_send_fd_once_def Let_def by (simp only: if_True)
    then show ?thesis by simp
  next
    case ops: False
    show ?thesis
    proof (cases ok)
      case False
      with ops a r1 show ?thesis by (simp add: run_send_fd_once_def)
    next
      case True
      from msg_init_cases [OF nn i] have "wp (if rc \<noteq> 0 then fd_out os work target False operations (-1) s2
         else if rc' \<noteq> 0 then fd_out os work target False operations (-1) s3
         else do {
           (ret, s4) \<leftarrow> fd_phases os work target buffers operations timed s3;
           fd_out os work target True operations ret s4
         }) (outcome (fd_round_done operations s) s1)"
      proof
        assume "rc \<noteq> 0 \<and> no_ring target \<and> same_resources s1 s2"
        then show ?thesis using fail [of s2] by simp
      next
        assume up: "rc = 0 \<and> holds_ring target s1 s2"
        then have h3: "holds_ring target s1 s3" using msg_holds_same same_process_resources [OF p3] by blast
        have run: "wp (do {
           (ret, s4) \<leftarrow> fd_phases os work target buffers operations timed s3;
           fd_out os work target True operations ret s4
         }) (outcome (fd_round_done operations s) s1)"
        proof (rule wp_bindI [OF msg_fd_phases_outcome])
          show "operations mod of_nat QD = 0" using ops by simp
          show "res s3 = ?r0" by (rule data3(1))
        next
          fix ret s4 assume o: "outcome (phases_done operations s3) s3 ret s4"
          then have h4: "holds_ring target s1 s4" using msg_holds_same [OF h3] by (simp add: outcome_def)
          show "wp (fd_out os work target True operations ret s4) (outcome (fd_round_done operations s) s1)"
          proof (rule outcome_mono [OF msg_fd_out [OF disjI1 [OF h4]]])
            fix t assume t: "ret = 0 \<and> reaps [] s4 t \<and>
              (\<exists>r'. fd_pass operations r' \<and> with_out (res s4) r' \<and> res t = set_pass True r')"
            then obtain r' where r': "fd_pass operations r'" "with_out (res s4) r'" "res t = set_pass True r'"
              by blast
            have ph: "phases_done operations s3 s4" using o t by (simp add: outcome_def)
            have e: "msg_err (res s4) = 0"
              using r'(1,2) by (auto simp: fd_pass_def with_out_def msg_err_zero)
            then obtain ns where fin: "fd_done operations s3 s4" "(res s4)\<lparr>semantic_pass := True\<rparr> = fd_result operations ns"
              using ph by (auto simp: phases_done_def)
            have "res t = fd_result operations ns"
              using msg_fd_pass_result(1) [OF r'(1,2) fin(2)] r'(3) by simp
            moreover have "fd_done operations s t"
              using fin(1) t data3(2) by (auto simp: fd_done_def reaps_def)
            ultimately show "fd_round_done operations s t" by (auto simp: fd_round_done_def)
          qed
        qed
        with fail [of s3] h3 up show ?thesis by simp
      qed
      moreover have "run_send_fd_once os work buffers operations timed s =
         (if rc \<noteq> 0 then fd_out os work target False operations (-1) s2
         else if rc' \<noteq> 0 then fd_out os work target False operations (-1) s3
         else do {
           (ret, s4) \<leftarrow> fd_phases os work target buffers operations timed s3;
           fd_out os work target True operations ret s4
         })"
        using ops True by (simp add: run_send_fd_once_def a i g)
      ultimately have "wp (run_send_fd_once os work buffers operations timed s) (outcome (fd_round_done operations s) s1)"
        by (simp only:)
      then show ?thesis by (rule outcome_rebase [OF r1])
    qed
  qed
qed

end
