(* ===== verification/Msg_Main.thy ===== *)
theory Msg_Main
  imports Msg_Fd_Round
begin

text \<open>
  io_uring_msg_ring_round.c: the command line, the output table, the set-up and clean-up of
  the workload, the modes and \<open>main\<close>.
\<close>

section \<open>Names\<close>

fun profile_name :: "profile_id \<Rightarrow> string" where
  "profile_name PROFILE_D0 = ''D0_DIRECT_DATA''"
| "profile_name PROFILE_R0 = ''R0_DEFERRED_REMOTE_DATA''"
| "profile_name PROFILE_F0 = ''F0_DIRECT_SEND_FD''"
| "profile_name PROFILE_UNSET = ''unset''"

fun phase_name :: "phase_id \<Rightarrow> string" where
  "phase_name PHASE_SMOKE = ''semantic-smoke''"
| "phase_name PHASE_TRACE = ''direct-hit-trace''"
| "phase_name PHASE_WARMUP = ''warmup''"
| "phase_name PHASE_MEASURED = ''measured''"

section \<open>The output table\<close>

text \<open>\<open>out\<close> is the output file when there is one and standard output otherwise.\<close>

definition emit :: "options \<Rightarrow> string \<Rightarrow> ('k, 'r) machine \<Rightarrow> ('k, 'r) machine" where
  "emit opt line s =
     (case opt_output_path opt of
        None \<Rightarrow> s\<lparr>stdout_lines := stdout_lines s @ [line]\<rparr>
      | Some path \<Rightarrow> print_line line s)"

definition table_names :: "string list" where
  "table_names =
     [''schema'', ''profile'', ''phase'', ''round'', ''logical_ops'', ''sqes'', ''source_cqes'',
      ''target_cqes'', ''source_enters'', ''target_enters'', ''verify_enters'', ''verify_reads'',
      ''slots_installed'', ''slots_verified'', ''elapsed_ns'', ''ns_per_op'', ''successful_ops'',
      ''bad_results'', ''bad_flags'', ''bad_user_data'', ''duplicate_events'', ''missing_events'',
      ''pair_mismatches'', ''sentinel_mismatches'', ''timeouts'', ''cleanup_failures'',
      ''source_dropped'', ''source_overflow'', ''target_dropped'', ''target_overflow'',
      ''source_outstanding'', ''target_outstanding'', ''semantic_pass'', ''cpu'']"

text \<open>The lines of \<open>emit_preamble\<close>; \<open>compiler\<close> is \<open>__VERSION__\<close>.\<close>

definition preamble_lines :: "string \<Rightarrow> msg_workload \<Rightarrow> string list" where
  "preamble_lines compiler work =
     [''# kernel_release='' @ kernel_release work, ''# boot_id='' @ boot_id work,
      ''# compiler='' @ compiler, join_tabs table_names]"

definition emit_preamble :: "string \<Rightarrow> options \<Rightarrow> msg_workload \<Rightarrow> 'k msg_machine \<Rightarrow> 'k msg_machine" where
  "emit_preamble compiler opt work = fold (emit opt) (preamble_lines compiler work)"

definition row_columns :: "'k os \<Rightarrow> profile_id \<Rightarrow> phase_id \<Rightarrow> nat \<Rightarrow> result \<Rightarrow> string list" where
  "row_columns os profile phase round_nr r =
     [dec SCHEMA_VERSION, profile_name profile, phase_name phase, dec round_nr,
      dec64 (logical_ops r), dec64 (sqes_total r), dec64 (source_cqes r), dec64 (target_cqes r),
      dec64 (source_enters r), dec64 (target_enters r), dec64 (verify_enters r),
      dec64 (verify_reads r), dec64 (slots_installed r), dec64 (slots_verified r),
      dec64 (elapsed_ns r),
      (if elapsed_ns r \<noteq> 0 \<and> logical_ops r \<noteq> 0 then os_ratio6 os (elapsed_ns r) (logical_ops r)
       else ''0.000000''),
      dec64 (successful_ops r), dec64 (bad_results r), dec64 (bad_flags r), dec64 (bad_user_data r),
      dec64 (duplicate_events r), dec64 (missing_events r), dec64 (pair_mismatches r),
      dec64 (sentinel_mismatches r), dec64 (timeouts r), dec64 (cleanup_failures r),
      dec64 (source_dropped r), dec64 (source_overflow r), dec64 (target_dropped r),
      dec64 (target_overflow r), dec64 (source_outstanding r), dec64 (target_outstanding r),
      (if semantic_pass r then ''1'' else ''0''), dec (unat CONTRACT_CPU)]"

definition table_row :: "'k os \<Rightarrow> profile_id \<Rightarrow> phase_id \<Rightarrow> nat \<Rightarrow> result \<Rightarrow> string" where
  "table_row os profile phase round_nr r = join_tabs (row_columns os profile phase round_nr r)"

definition emit_result :: "'k os \<Rightarrow> options \<Rightarrow> phase_id \<Rightarrow> nat \<Rightarrow> 'k msg_machine \<Rightarrow> 'k msg_machine" where
  "emit_result os opt phase round_nr s =
     emit opt (table_row os (opt_profile opt) phase round_nr (res s)) s"

section \<open>Modes\<close>

definition execute_once :: "'k os \<Rightarrow> msg_workload \<Rightarrow> u64 \<Rightarrow> profile_id \<Rightarrow> u32 \<Rightarrow> bool \<Rightarrow> 'k msg_machine
    \<Rightarrow> (int \<times> 'k msg_machine) option" where
  "execute_once os work buffers profile operations timed =
     (if profile = PROFILE_F0 then run_send_fd_once os work buffers operations timed
      else run_data_once os work profile operations timed)"

definition operations_for :: "profile_id \<Rightarrow> mode_id \<Rightarrow> u32" where
  "operations_for profile mode =
     (if profile = PROFILE_F0
      then (if mode = MODE_SMOKE then FD_SMOKE_OPS
            else if mode = MODE_TRACE then FD_TRACE_OPS else FD_OPS_PER_ROUND)
      else if mode = MODE_SMOKE then DATA_SMOKE_OPS
      else if mode = MODE_TRACE then DATA_TRACE_OPS
      else DATA_OPS_PER_ROUND)"

text \<open>A round whose row is written whether it passes or not.\<close>

definition emitted_round :: "'k os \<Rightarrow> msg_workload \<Rightarrow> u64 \<Rightarrow> options \<Rightarrow> u32 \<Rightarrow> bool \<Rightarrow> phase_id \<Rightarrow> nat
    \<Rightarrow> 'k msg_machine \<Rightarrow> (int \<times> 'k msg_machine) option" where
  "emitted_round os work buffers opt operations timed phase round_nr s =
     do {
       (rc, s1) \<leftarrow> execute_once os work buffers (opt_profile opt) operations timed s;
       Some (if rc \<noteq> 0 then -1 else 0, emit_result os opt phase round_nr s1)
     }"

definition run_mode :: "'k os \<Rightarrow> msg_workload \<Rightarrow> u64 \<Rightarrow> options \<Rightarrow> 'k msg_machine
    \<Rightarrow> (int \<times> 'k msg_machine) option" where
  "run_mode os work buffers opt s =
     (let operations = operations_for (opt_profile opt) (opt_mode opt)
      in if opt_mode opt = MODE_SMOKE \<or> opt_mode opt = MODE_TRACE
         then emitted_round os work buffers opt operations False
                (if opt_mode opt = MODE_SMOKE then PHASE_SMOKE else PHASE_TRACE) 0 s
         else
           or_fail (execute_once os work buffers (opt_profile opt)
                      (operations_for (opt_profile opt) MODE_SMOKE) False s) (\<lambda>s.
           or_fail (for_each (\<lambda>i. execute_once os work buffers (opt_profile opt) operations False)
                      [0..<WARMUP_ROUNDS] s) (\<lambda>s.
           for_each (\<lambda>i. emitted_round os work buffers opt operations True PHASE_MEASURED i)
             [0..<MEASURED_ROUNDS] s)))"

definition describe_lines :: "profile_id \<Rightarrow> string list" where
  "describe_lines profile =
     [''profile='' @ profile_name profile, ''old_release=6.12.95-bm-6.12.95'',
      ''new_release=7.1.3-bm-7.1.3'', ''cpu='' @ dec (unat CONTRACT_CPU),
      ''ring_entries='' @ dec (unat RING_ENTRIES), ''queue_depth='' @ dec QD,
      ''data_ops_per_round='' @ dec (unat DATA_OPS_PER_ROUND),
      ''fd_ops_per_round='' @ dec (unat FD_OPS_PER_ROUND), ''warmup_rounds='' @ dec WARMUP_ROUNDS,
      ''measured_rounds='' @ dec MEASURED_ROUNDS,
      ''enter_timeout_seconds='' @ dec (nat ENTER_TIMEOUT_SECONDS), ''execution_started=false'']"

section \<open>The command line\<close>

definition parse_profile :: "string \<Rightarrow> profile_id option" where
  "parse_profile txt =
     (if txt = ''d0'' then Some PROFILE_D0
      else if txt = ''r0'' then Some PROFILE_R0
      else if txt = ''f0'' then Some PROFILE_F0
      else None)"

definition parse_mode :: "string \<Rightarrow> mode_id option" where
  "parse_mode txt =
     (if txt = ''describe'' then Some MODE_DESCRIBE
      else if txt = ''smoke'' then Some MODE_SMOKE
      else if txt = ''trace'' then Some MODE_TRACE
      else if txt = ''point'' then Some MODE_POINT
      else None)"

definition zero_options :: options where
  "zero_options = \<lparr>opt_profile = PROFILE_UNSET, opt_mode = MODE_UNSET,
     opt_output_path = None, opt_execute = False\<rparr>"

fun parse_args :: "string list \<Rightarrow> options \<Rightarrow> options option" where
  "parse_args [] opt = Some opt"
| "parse_args [arg] opt =
     (if arg = ''--execute'' then Some (opt\<lparr>opt_execute := True\<rparr>) else None)"
| "parse_args (arg # val # rest) opt =
     (if arg = ''--execute'' then parse_args (val # rest) (opt\<lparr>opt_execute := True\<rparr>)
      else if arg = ''--profile'' then
        (case parse_profile val of
           None \<Rightarrow> None
         | Some p \<Rightarrow> parse_args rest (opt\<lparr>opt_profile := p\<rparr>))
      else if arg = ''--mode'' then
        (case parse_mode val of
           None \<Rightarrow> None
         | Some m \<Rightarrow> parse_args rest (opt\<lparr>opt_mode := m\<rparr>))
      else if arg = ''--output'' then parse_args rest (opt\<lparr>opt_output_path := Some val\<rparr>)
      else None)"

definition options_ok :: "options \<Rightarrow> bool" where
  "options_ok opt \<longleftrightarrow> opt_profile opt \<noteq> PROFILE_UNSET \<and> opt_mode opt \<noteq> MODE_UNSET \<and>
     (opt_mode opt = MODE_DESCRIBE \<or> opt_execute opt)"

definition parse_options :: "string list \<Rightarrow> options option" where
  "parse_options args =
     (case parse_args args zero_options of
        None \<Rightarrow> None
      | Some opt \<Rightarrow> if options_ok opt then Some opt else None)"

section \<open>The workload\<close>

definition setup_workload :: "'k os \<Rightarrow> msg_workload \<Rightarrow> profile_id \<Rightarrow> 'k msg_machine
    \<Rightarrow> int \<times> msg_workload \<times> 'k msg_machine" where
  "setup_workload os work profile s =
     (let (pinned, s1) = pin_cpu os CONTRACT_CPU s
      in if pinned \<noteq> 0 then (-1, work, s1)
         else
           (let (rc, ring, s2) = raw_ring_init os 0 s1; work1 = work\<lparr>w_source := ring\<rparr>
            in if rc \<noteq> 0 then (-1, work1, s2)
               else if profile = PROFILE_F0 then setup_sentinel_file os work1 s2
               else
                 (let target_flags = (if profile = PROFILE_R0
                        then IORING_SETUP_SINGLE_ISSUER OR IORING_SETUP_DEFER_TASKRUN else 0);
                      (rc, target, s3) = raw_ring_init os target_flags s2;
                      work2 = work1\<lparr>w_target := target\<rparr>
                  in if rc \<noteq> 0 then (-1, work2, s3)
                     else (0, work2\<lparr>w_target_initialized := True\<rparr>, s3))))"

definition cleanup_workload :: "'k os \<Rightarrow> msg_workload \<Rightarrow> 'k msg_machine \<Rightarrow> int \<times> 'k msg_machine" where
  "cleanup_workload os work s =
     (let (failed, s1) = (if w_source_files_registered work
                          then (let (rc, t) = unregister_files os (w_source work) s in (rc \<noteq> 0, t))
                          else (False, s));
          s2 = (if w_target_initialized work then snd (raw_ring_destroy os (w_target work) s1) else s1);
          s3 = snd (raw_ring_destroy os (w_source work) s2);
          s4 = (if 0 \<le> w_memfd work then snd (close_fd os (w_memfd work) s3) else s3)
      in (if failed then -1 else 0, s4))"

section \<open>main\<close>

text \<open>\<open>memset(&work, 0, sizeof(work))\<close> and the three descriptors.\<close>

definition initial_workload :: "string \<Rightarrow> string \<Rightarrow> msg_workload" where
  "initial_workload release boot =
     \<lparr>kernel_release = release, boot_id = boot, w_source = zero_ring\<lparr>ring_fd := -1\<rparr>,
      w_target = zero_ring\<lparr>ring_fd := -1\<rparr>, w_target_initialized = False, w_memfd = -1,
      w_source_files_registered = False, w_sentinel = replicate SENTINEL_BYTES 0\<rparr>"

text \<open>From \<open>setup_workload\<close> to the label \<open>out\<close> and the clean-up there.\<close>

definition run_workload :: "'k os \<Rightarrow> u64 \<Rightarrow> options \<Rightarrow> msg_workload \<Rightarrow> 'k msg_machine
    \<Rightarrow> (int \<times> 'k msg_machine) option" where
  "run_workload os buffers opt work s =
     (let (rc, work1, s1) = setup_workload os work (opt_profile opt) s
      in do {
        (run_ret, s2) \<leftarrow> (if rc \<noteq> 0 then Some (-1, s1) else run_mode os work1 buffers opt s1);
        let (cleanup_ret, s3) = cleanup_workload os work1 s2
        in Some (if run_ret = 0 \<and> cleanup_ret = 0 then EXIT_SUCCESS else EXIT_FAILURE, s3)
      })"

definition run_execute :: "'k os \<Rightarrow> string \<Rightarrow> u64 \<Rightarrow> options \<Rightarrow> 'k msg_machine
    \<Rightarrow> (int \<times> 'k msg_machine) option" where
  "run_execute os compiler buffers opt s =
     (case ask (os_uname os) s of
        (None, s1) \<Rightarrow> Some (EXIT_FAILURE, s1)
      | (Some release, s1) \<Rightarrow>
          (let (boot, s2) = read_text os boot_id_path 128 s1;
               work = initial_workload (take 127 release) (case boot of None \<Rightarrow> ''unknown'' | Some b \<Rightarrow> b);
               (opened, s3) = (case opt_output_path opt of
                                 None \<Rightarrow> (True, s2)
                               | Some path \<Rightarrow> ask (os_fopen os path) s2)
           in if \<not> opened then Some (EXIT_FAILURE, s3)
              else do {
                (code, s4) \<leftarrow> run_workload os buffers opt work (emit_preamble compiler opt work s3);
                Some (code, if opt_output_path opt = None then s4 else snd (ask (os_fclose os) s4))
              }))"

definition main :: "'k os \<Rightarrow> string \<Rightarrow> u64 \<Rightarrow> string list \<Rightarrow> 'k msg_machine
    \<Rightarrow> (int \<times> 'k msg_machine) option" where
  "main os compiler buffers argv s =
     (case parse_options (tl argv) of
        None \<Rightarrow> Some (EXIT_FAILURE, s)
      | Some opt \<Rightarrow>
          if opt_mode opt = MODE_DESCRIBE
          then Some (EXIT_SUCCESS, s\<lparr>stdout_lines := stdout_lines s @ describe_lines (opt_profile opt)\<rparr>)
          else run_execute os compiler buffers opt s)"

end
