(* ===== verification/Msg_Process.thy ===== *)
theory Msg_Process
  imports Msg_Main
begin

text \<open>
  io_uring_msg_ring_round.c: what \<open>main\<close> keeps and promises. Every mapping and descriptor of
  the workload is given back, \<open>main\<close> comes back, and point mode writes what it ran.
\<close>

section \<open>The command line, read back\<close>

fun profile_arg :: "profile_id \<Rightarrow> string" where
  "profile_arg PROFILE_D0 = ''d0''"
| "profile_arg PROFILE_R0 = ''r0''"
| "profile_arg PROFILE_F0 = ''f0''"
| "profile_arg PROFILE_UNSET = []"

fun mode_arg :: "mode_id \<Rightarrow> string" where
  "mode_arg MODE_DESCRIBE = ''describe''"
| "mode_arg MODE_SMOKE = ''smoke''"
| "mode_arg MODE_TRACE = ''trace''"
| "mode_arg MODE_POINT = ''point''"
| "mode_arg MODE_UNSET = []"

definition option_args :: "options \<Rightarrow> string list" where
  "option_args opt =
     (if opt_execute opt then [''--execute''] else []) @
     [''--profile'', profile_arg (opt_profile opt), ''--mode'', mode_arg (opt_mode opt)] @
     (case opt_output_path opt of None \<Rightarrow> [] | Some path \<Rightarrow> [''--output'', path])"

lemma msg_option_args:
  assumes "options_ok opt"
  shows "parse_options (option_args opt) = Some opt"
proof -
  have p: "parse_profile (profile_arg (opt_profile opt)) = Some (opt_profile opt)"
    using assms by (cases "opt_profile opt") (simp_all add: parse_profile_def options_ok_def)
  have m: "parse_mode (mode_arg (opt_mode opt)) = Some (opt_mode opt)"
    using assms by (cases "opt_mode opt") (simp_all add: parse_mode_def options_ok_def)
  have "parse_args (option_args opt) zero_options = Some opt"
    using p m by (cases "opt_output_path opt"; cases "opt_execute opt")
      (simp_all add: option_args_def zero_options_def)
  with assms show ?thesis by (simp add: parse_options_def)
qed

lemma msg_parse_options_ok: "parse_options args = Some opt \<Longrightarrow> options_ok opt"
  by (auto simp: parse_options_def split: option.splits if_splits)

section \<open>The table, read back\<close>

lemma msg_split_row:
  assumes "\<And>a b. CHR 0x09 \<notin> set (os_ratio6 os a b)"
  shows "split_tabs (table_row os p ph n r) = row_columns os p ph n r"
  unfolding table_row_def
proof (rule split_join_tabs)
  show "row_columns os p ph n r \<noteq> []" by (simp add: row_columns_def)
  have "CHR 0x09 \<notin> set (profile_name p)" by (cases p) simp_all
  moreover have "CHR 0x09 \<notin> set (phase_name ph)" by (cases ph) simp_all
  ultimately show "\<forall>c \<in> set (row_columns os p ph n r). CHR 0x09 \<notin> set c"
    using assms by (simp add: row_columns_def dec64_def dec_no_tab)
qed

lemma msg_split_header: "split_tabs (join_tabs table_names) = table_names"
  by (rule split_join_tabs) (simp_all add: table_names_def)

section \<open>Mappings and descriptors\<close>

lemma msg_restored_emit [simp]: "restored s (emit opt line t) = restored s t"
  by (simp add: emit_def restored_def print_line_def split: option.split)

lemma msg_once_restored:
  assumes "mmap_nonnull os"
  shows "wp (execute_once os work buffers profile operations timed s) (\<lambda>rc t. restored s t)"
  using restored_outcome [OF msg_send_fd_outcome [OF assms, of work buffers operations timed s]]
    restored_outcome [OF msg_data_once_outcome [of os work profile operations timed s]]
  by (simp add: execute_once_def)

lemma msg_mode_restored:
  assumes "mmap_nonnull os"
  shows "wp (run_mode os work buffers opt s) (\<lambda>rc t. restored s t)"
proof -
  have e: "wp (emitted_round os work buffers opt ops timed ph n t) (\<lambda>rc u. restored t u)" for ops timed ph n t
    unfolding emitted_round_def by (rule wp_bindI [OF msg_once_restored [OF assms]]) (simp add: emit_result_def)
  show ?thesis
    using e by (auto simp: run_mode_def Let_def
      intro!: wp_or_fail_frame restored.for_each_frame msg_once_restored [OF assms])
qed

text \<open>What the workload holds between the set-up and the clean-up.\<close>

definition held_vmas :: "msg_workload \<Rightarrow> (u64 \<times> u64) list" where
  "held_vmas work = (if w_target_initialized work then owned (w_target work) else []) @
     (if 0 \<le> ring_fd (w_source work) then owned (w_source work) else [])"

definition held_fds :: "msg_workload \<Rightarrow> int list" where
  "held_fds work = (if w_target_initialized work then [ring_fd (w_target work)] else []) @
     (if 0 \<le> ring_fd (w_source work) then [ring_fd (w_source work)] else []) @
     (if 0 \<le> w_memfd work then [w_memfd work] else [])"

definition holds_work :: "msg_workload \<Rightarrow> ('k, 'r) machine \<Rightarrow> ('k, 'r) machine \<Rightarrow> bool" where
  "holds_work work s t \<longleftrightarrow> vmas t = held_vmas work @ vmas s \<and>
     mset (open_fds t) = mset (held_fds work) + mset (open_fds s) \<and>
     (w_target_initialized work \<longrightarrow> 0 \<le> ring_fd (w_target work)) \<and>
     (0 \<le> ring_fd (w_source work) \<or> no_ring (w_source work))"

lemma msg_holds_restored: "holds_work work s t \<Longrightarrow> restored t u \<Longrightarrow> holds_work work s u"
  by (simp add: holds_work_def restored_def)

lemma msg_destroy_fds:
  "0 \<le> ring_fd ring \<Longrightarrow> open_fds (snd (raw_ring_destroy os ring s)) = remove1 (ring_fd ring) (open_fds s)"
  by (simp add: raw_ring_destroy_def split_beta Let_def)

lemma msg_destroy_vmas:
  "vmas s = owned ring @ v \<Longrightarrow> vmas (snd (raw_ring_destroy os ring s)) = v"
  by (simp add: raw_ring_destroy_def split_beta Let_def unmap_owned)

lemma msg_cleanup_restores:
  assumes h: "holds_work work s t"
  shows "restored s (snd (cleanup_workload os work t))"
proof -
  obtain rc u where u: "unregister_files os (w_source work) t = (rc, u)" by (cases "unregister_files os (w_source work) t")
  define s1 where "s1 = (if w_source_files_registered work then u else t)"
  define s2 where "s2 = (if w_target_initialized work then snd (raw_ring_destroy os (w_target work) s1) else s1)"
  define s3 where "s3 = snd (raw_ring_destroy os (w_source work) s2)"
  define s4 where "s4 = (if 0 \<le> w_memfd work then snd (close_fd os (w_memfd work) s3) else s3)"
  have "same_process t u" by (rule msg_unregister_same [OF u])
  then have 1: "vmas s1 = held_vmas work @ vmas s" "mset (open_fds s1) = mset (held_fds work) + mset (open_fds s)"
    using h by (simp_all add: s1_def holds_work_def same_process_D)
  have 2: "vmas s2 = (if 0 \<le> ring_fd (w_source work) then owned (w_source work) else []) @ vmas s"
    "mset (open_fds s2) = mset ((if 0 \<le> ring_fd (w_source work) then [ring_fd (w_source work)] else []) @
       (if 0 \<le> w_memfd work then [w_memfd work] else [])) + mset (open_fds s)"
    using 1 h msg_destroy_fds [of "w_target work" os s1]
    by (auto simp: s2_def held_vmas_def held_fds_def holds_work_def msg_destroy_vmas)
  have 3: "vmas s3 = vmas s" "mset (open_fds s3) = mset (if 0 \<le> w_memfd work then [w_memfd work] else []) + mset (open_fds s)"
  proof -
    have "vmas s3 = vmas s \<and> mset (open_fds s3) = mset (if 0 \<le> w_memfd work then [w_memfd work] else []) + mset (open_fds s)"
    proof (cases "0 \<le> ring_fd (w_source work)")
      case True
      then show ?thesis
        using 2 msg_destroy_fds [of "w_source work" os s2] by (simp add: s3_def msg_destroy_vmas)
    next
      case False
      with h have "no_ring (w_source work)" by (simp add: holds_work_def)
      from msg_destroy_none [OF this, of s2 os] False 2 show ?thesis by (simp add: s3_def same_resources_def)
    qed
    then show "vmas s3 = vmas s" "mset (open_fds s3) = mset (if 0 \<le> w_memfd work then [w_memfd work] else []) + mset (open_fds s)"
      by simp_all
  qed
  have "restored s s4" using 3 by (simp add: restored_def s4_def)
  moreover have "snd (cleanup_workload os work t) = s4"
    by (simp add: cleanup_workload_def u s1_def s2_def s3_def s4_def Let_def)
  ultimately show ?thesis by simp
qed

text \<open>A workload that holds nothing yet.\<close>

definition fresh_workload :: "msg_workload \<Rightarrow> bool" where
  "fresh_workload work \<longleftrightarrow> no_ring (w_source work) \<and> \<not> w_target_initialized work \<and> w_memfd work = -1"

lemma msg_no_ring_fd: "no_ring ring \<Longrightarrow> ring_fd ring < 0"
  by (auto simp: no_ring_def)

lemma msg_sentinel_holds:
  assumes run: "setup_sentinel_file os work s = (rc, work', t)"
    and h: "holds_work work s0 s" and w: "w_memfd work = -1" "\<not> w_target_initialized work"
  shows "holds_work work' s0 t"
proof -
  obtain fd s1 where 1: "sys (os_memfd os) s = (fd, s1)" by (cases "sys (os_memfd os) s")
  define s2 where "s2 = open_fd fd s1"
  define work2 where "work2 = work\<lparr>w_memfd := fd, w_sentinel := map sentinel_byte [0..<SENTINEL_BYTES]\<rparr>"
  obtain nr s3 where 3: "sys (os_pwrite os fd (w_sentinel work2)) s2 = (nr, s3)"
    by (cases "sys (os_pwrite os fd (w_sentinel work2)) s2")
  obtain ret s4 where 4: "sys (os_register os (ring_fd (w_source work2)) (REGISTER_FILES [w_memfd work2])) s3 = (ret, s4)"
    by (cases "sys (os_register os (ring_fd (w_source work2)) (REGISTER_FILES [w_memfd work2])) s3")
  have t: "t = s2 \<or> t = s3 \<or> t = s4"
    and w': "work' = work\<lparr>w_memfd := fd\<rparr> \<or> work' = work2 \<or> work' = work2\<lparr>w_source_files_registered := True\<rparr>"
    using run 1 3 4
    by (auto simp: setup_sentinel_file_def register_source_file_def s2_def [symmetric] work2_def [symmetric]
        Let_def split: if_splits)
  have s4: "same_process s3 s4" and s3: "same_process s2 s3" and s1: "same_process s s1"
    using sys_process [OF 4] sys_process [OF 3] sys_process [OF 1] by simp_all
  have tt: "vmas t = vmas s2" "open_fds t = open_fds s2"
    using t same_process_D [OF s4] same_process_D [OF s3] by auto
  have "vmas s2 = vmas s" "mset (open_fds s2) = mset (if 0 \<le> fd then [fd] else []) + mset (open_fds s)"
    using same_process_D [OF s1] by (simp_all add: s2_def open_fd_def)
  moreover have "w_source work' = w_source work" "w_target_initialized work' = w_target_initialized work"
      "w_memfd work' = fd"
    using w' by (auto simp: work2_def)
  ultimately show ?thesis
    using h w by (simp add: holds_work_def held_vmas_def held_fds_def tt)
qed

lemma msg_setup_holds:
  assumes nn: "mmap_nonnull os" and fresh: "fresh_workload work"
    and run: "setup_workload os work profile s = (rc, work', t)"
  shows "holds_work work' s t"
proof -
  obtain pinned s1 where 1: "pin_cpu os CONTRACT_CPU s = (pinned, s1)" by (cases "pin_cpu os CONTRACT_CPU s")
  obtain rc2 ring s2 where 2: "raw_ring_init os 0 s1 = (rc2, ring, s2)" by (cases "raw_ring_init os 0 s1") auto
  define fl where "fl = (if profile = PROFILE_R0
      then IORING_SETUP_SINGLE_ISSUER OR IORING_SETUP_DEFER_TASKRUN else 0)"
  obtain rc3 target s3 where 3: "raw_ring_init os fl s2 = (rc3, target, s3)" by (cases "raw_ring_init os fl s2") auto
  note s1 = same_process_D [OF startup_process(2) [OF 1]]
  have none: "holds_work work s s1"
    using fresh s1 msg_no_ring_fd [of "w_source work"]
    by (simp add: fresh_workload_def holds_work_def held_vmas_def held_fds_def)
  show ?thesis
  proof (cases "pinned = 0")
    case False
    with run 1 none show ?thesis by (simp add: setup_workload_def)
  next
    case pinned: True
    from msg_init_cases [OF nn 2] show ?thesis
    proof
      assume f: "rc2 \<noteq> 0 \<and> no_ring ring \<and> same_resources s1 s2"
      with run 1 2 pinned have "work' = work\<lparr>w_source := ring\<rparr>" "t = s2" by (simp_all add: setup_workload_def)
      then show ?thesis
        using f fresh s1 msg_no_ring_fd [of ring]
        by (simp add: fresh_workload_def holds_work_def held_vmas_def held_fds_def same_resources_def)
    next
      assume up: "rc2 = 0 \<and> holds_ring ring s1 s2"
      let ?w = "work\<lparr>w_source := ring\<rparr>"
      have h2: "holds_work ?w s s2"
        using up fresh s1
        by (simp add: fresh_workload_def holds_work_def held_vmas_def held_fds_def holds_ring_def)
      show ?thesis
      proof (cases "profile = PROFILE_F0")
        case True
        with run 1 2 pinned up have "setup_sentinel_file os ?w s2 = (rc, work', t)"
          by (simp add: setup_workload_def)
        from msg_sentinel_holds [OF this h2] fresh show ?thesis by (simp add: fresh_workload_def)
      next
        case False
        then have w: "work' = (if rc3 \<noteq> 0 then ?w\<lparr>w_target := target\<rparr>
              else ?w\<lparr>w_target := target, w_target_initialized := True\<rparr>)" and t: "t = s3"
          using run 1 2 3 pinned up by (auto simp: setup_workload_def fl_def [symmetric] Let_def split: if_splits)
        from msg_init_cases [OF nn 3] show ?thesis
          using h2 fresh w t
          by (auto simp: fresh_workload_def holds_work_def held_vmas_def held_fds_def holds_ring_def same_resources_def)
      qed
    qed
  qed
qed

lemma msg_workload_restored:
  assumes nn: "mmap_nonnull os" and fresh: "fresh_workload work"
  shows "wp (run_workload os buffers opt work s) (\<lambda>code t. restored s t)"
proof -
  obtain rc work1 s1 where st: "setup_workload os work (opt_profile opt) s = (rc, work1, s1)"
    by (cases "setup_workload os work (opt_profile opt) s") auto
  have h: "holds_work work1 s s1" by (rule msg_setup_holds [OF nn fresh st])
  have "wp (if rc \<noteq> 0 then Some (-1, s1) else run_mode os work1 buffers opt s1) (\<lambda>rc t. restored s1 t)"
    using msg_mode_restored [OF nn] by simp
  then have "wp (do {
        (run_ret, s2) \<leftarrow> (if rc \<noteq> 0 then Some (-1, s1) else run_mode os work1 buffers opt s1);
        let (cleanup_ret, s3) = cleanup_workload os work1 s2
        in Some (if run_ret = 0 \<and> cleanup_ret = 0 then EXIT_SUCCESS else EXIT_FAILURE, s3)
      }) (\<lambda>code t. restored s t)"
  proof (rule wp_bindI)
    fix run_ret s2 assume "restored s1 s2"
    from msg_cleanup_restores [OF msg_holds_restored [OF h this], of os]
    show "wp (let (cleanup_ret, s3) = cleanup_workload os work1 s2
        in Some (if run_ret = 0 \<and> cleanup_ret = 0 then EXIT_SUCCESS else EXIT_FAILURE, s3)) (\<lambda>code t. restored s t)"
      by (simp add: split_beta)
  qed
  then show ?thesis by (simp add: run_workload_def st)
qed

lemma msg_fresh_initial: "fresh_workload (initial_workload release boot)"
  by (auto simp: fresh_workload_def initial_workload_def no_ring_def intro!: exI [of _ "-1"])

lemma msg_preamble_restored: "restored s (emit_preamble compiler opt work s)"
  by (simp add: emit_preamble_def preamble_lines_def)

lemma msg_main_restored:
  assumes nn: "mmap_nonnull os"
  shows "wp (main os compiler buffers argv s) (\<lambda>code t. restored s t)"
proof -
  have "wp (run_execute os compiler buffers opt s) (\<lambda>code t. restored s t)" for opt
  proof -
    obtain rel s1 where 1: "ask (os_uname os) s = (rel, s1)" by (cases "ask (os_uname os) s")
    obtain boot s2 where 2: "read_text os boot_id_path 128 s1 = (boot, s2)"
      by (cases "read_text os boot_id_path 128 s1")
    obtain opened s3 where 3: "(case opt_output_path opt of None \<Rightarrow> (True, s2)
        | Some path \<Rightarrow> ask (os_fopen os path) s2) = (opened, s3)"
      by (cases "case opt_output_path opt of None \<Rightarrow> (True, s2) | Some path \<Rightarrow> ask (os_fopen os path) s2")
    have r1: "restored s s1" using restored_process [OF ask_process [OF 1]] .
    have r2: "restored s s2" using restored_trans [OF r1 restored_process [OF startup_process(3) [OF 2]]] .
    have "same_process s2 s3" using 3 by (auto split: option.splits dest: ask_process)
    then have r3: "restored s s3" by (rule restored_trans [OF r2 restored_process])
    have run: "wp (do {
          (code, s4) \<leftarrow> run_workload os buffers opt work (emit_preamble compiler opt work s3);
          Some (code, if opt_output_path opt = None then s4 else snd (ask (os_fclose os) s4))
        }) (\<lambda>code t. restored s t)" if "fresh_workload work" for work
    proof (rule wp_bindI [OF msg_workload_restored [OF nn that]])
      fix code s4 assume "restored (emit_preamble compiler opt work s3) s4"
      then have "restored s s4"
        using restored_trans [OF restored_trans [OF r3 msg_preamble_restored]] by blast
      then show "wp (Some (code, if opt_output_path opt = None then s4 else snd (ask (os_fclose os) s4)))
          (\<lambda>code t. restored s t)"
        using restored_trans [OF _ restored_process [OF same_process_ops(2)]] by auto
    qed
    show ?thesis
      using r1 r3 run [OF msg_fresh_initial]
      by (auto simp: run_execute_def 1 2 3 Let_def split: option.split)
  qed
  then show ?thesis by (auto simp: main_def restored_def split: option.split)
qed

section \<open>main comes back\<close>

lemma msg_outcomes_return:
  assumes "responsive os bound"
  shows "returns (data_batch os work profile base s)" "returns (idle_check os work s)"
    "returns (set_elapsed os timed started s)"
    "returns (verify_fixed_files os work target buffers slots s)"
    "returns (fd_batch os work target operations base bs)"
proof -
  note enter = msg_enter_returns [OF assms]
  have dt: "returns (drain_target os work profile s)" for s
    unfolding drain_target_def by (intro returns_intro enter)
  show "returns (data_batch os work profile base s)"
    unfolding data_batch_def Let_def by (intro returns_intro enter dt)
  show "returns (idle_check os work s)"
    unfolding idle_check_def Let_def by (intro returns_intro enter)
  show "returns (set_elapsed os timed started s)"
    unfolding set_elapsed_def using responsive_returns(5) [OF assms] by (intro returns_intro)
  show "returns (verify_fixed_files os work target buffers slots s)"
    unfolding verify_fixed_files_def verify_batch_def by (intro returns_intro enter)
  show "returns (fd_batch os work target operations base bs)"
    unfolding fd_batch_def Let_def by (intro returns_intro enter)
qed

lemma msg_once_returns:
  assumes "responsive os bound"
  shows "returns (execute_once os work buffers profile operations timed s)"
proof -
  note parts = msg_outcomes_return [OF assms] responsive_returns(4) [OF assms]
  have ph: "returns (fd_phases os work target buffers operations timed s)" for target s
    unfolding fd_phases_def Let_def by (intro returns_intro parts)
  have out: "returns (fd_out os work target registered operations ret s)" for target registered ret s
    unfolding fd_out_def Let_def by (intro returns_intro)
  have data: "returns (run_data_once os work profile operations timed s)"
    unfolding run_data_once_def Let_def by (intro returns_intro parts)
  have "returns (run_send_fd_once os work buffers operations timed s)"
    unfolding run_send_fd_once_def Let_def by (intro returns_intro parts ph out)
  with data show ?thesis by (simp add: execute_once_def)
qed

lemma msg_main_returns:
  assumes "responsive os bound"
  shows "returns (main os compiler buffers argv s)"
proof -
  have mode: "returns (run_mode os work buffers opt t)" for work opt t
    unfolding run_mode_def emitted_round_def Let_def
    by (intro returns_intro msg_once_returns [OF assms])
  have "returns (run_workload os buffers opt work t)" for opt work t
    unfolding run_workload_def Let_def by (intro returns_intro mode)
  then have "returns (run_execute os compiler buffers opt s)" for opt
    unfolding run_execute_def Let_def
    by (auto split: option.split prod.split intro!: returns_intro)
  then show ?thesis by (simp add: main_def split: option.split)
qed

lemma msg_main_exit_code: "wp (main os compiler buffers argv s) (\<lambda>code t. code = 0 \<or> code = 1)"
proof -
  have w: "wp (run_workload os buffers opt work t) (\<lambda>code t. code = 0 \<or> code = 1)" for opt work t
  proof -
    have *: "wp (do { (run_ret, s2) \<leftarrow> m;
        let (cleanup_ret, s3) = cleanup_workload os work1 s2
        in Some (if run_ret = 0 \<and> cleanup_ret = 0 then EXIT_SUCCESS else EXIT_FAILURE, s3) })
      (\<lambda>code t. code = 0 \<or> code = 1)" for m work1
      by (rule wp_bindI [where P = "\<lambda>_ _. True"])
         (simp_all add: wp_def EXIT_SUCCESS_def EXIT_FAILURE_def split: option.split prod.split)
    show ?thesis
      by (cases "setup_workload os work (opt_profile opt) t") (simp only: run_workload_def Let_def prod.case * [unfolded Let_def])
  qed
  have "wp (run_execute os compiler buffers opt s) (\<lambda>code t. code = 0 \<or> code = 1)" for opt
    using w by (auto simp: run_execute_def EXIT_FAILURE_def Let_def wp_bind split: prod.split option.split)
  then show ?thesis by (simp add: main_def EXIT_SUCCESS_def EXIT_FAILURE_def split: option.split)
qed

end
