(* ===== verification/Msg_Point.thy ===== *)
theory Msg_Point
  imports Msg_Process
begin

text \<open>
  io_uring_msg_ring_round.c: what an exit with 0 in point mode means: a smoke round, three
  warm-up and fifteen measured rounds have passed, and the output holds the preamble and one
  row for each measured round.
\<close>

section \<open>Rounds\<close>

text \<open>The completions of a passing round, and its result but for the time.\<close>

definition msg_batches :: "profile_id \<Rightarrow> u32 \<Rightarrow> cqe list list \<Rightarrow> bool" where
  "msg_batches profile operations g \<longleftrightarrow>
     (if profile = PROFILE_F0
      then (\<exists>slot bs vs. g = bs @ vs \<and> bij_betw slot {..<unat operations} {..<unat operations} \<and>
              grouped (fd_group slot) (unat operations div QD) bs \<and>
              grouped read_group (unat operations div QD) vs)
      else data_batches (unat operations div QD) g)"

definition msg_result :: "profile_id \<Rightarrow> u32 \<Rightarrow> result \<Rightarrow> bool" where
  "msg_result profile operations r \<longleftrightarrow>
     (\<exists>ns. r = (if profile = PROFILE_F0 then fd_result operations ns else data_result profile operations ns))"

lemma msg_once_outcome:
  assumes "mmap_nonnull os"
  shows "wp (execute_once os work buffers profile operations timed s)
    (outcome (round_outcome_of (msg_result profile operations) (msg_batches profile operations) s) s)"
proof (cases "profile = PROFILE_F0")
  case True
  have "wp (run_send_fd_once os work buffers operations timed s)
    (outcome (round_outcome_of (msg_result profile operations) (msg_batches profile operations) s) s)"
    by (rule outcome_mono [OF msg_send_fd_outcome [OF assms]])
       (use True in \<open>auto simp: fd_round_done_def fd_done_def round_outcome_of_def msg_result_def msg_batches_def\<close>)
  with True show ?thesis by (simp add: execute_once_def)
next
  case False
  have "wp (run_data_once os work profile operations timed s)
    (outcome (round_outcome_of (msg_result profile operations) (msg_batches profile operations) s) s)"
    by (rule outcome_mono [OF msg_data_once_outcome])
       (use False in \<open>auto simp: data_done_def round_outcome_of_def msg_result_def msg_batches_def\<close>)
  with False show ?thesis by (simp add: execute_once_def)
qed

section \<open>Point mode\<close>

text \<open>Where one loop succeeds whenever another does, so do their iterations.\<close>

lemma msg_for_each_sim:
  assumes "\<And>i s t. f' i s = Some (0, t) \<Longrightarrow> f i s = Some (0, t)"
  shows "for_each f' is s = Some (0, t) \<Longrightarrow> for_each f is s = Some (0, t)"
proof (induction "is" arbitrary: s)
  case (Cons i "is")
  then obtain rc u where u: "f' i s = Some (rc, u)" "rc = 0" "for_each f' is u = Some (0, t)"
    by (auto simp: Option.bind_eq_Some_conv split: if_splits)
  with assms [of i s u] Cons.IH [of u] show ?case by simp
qed simp

definition mode_done :: "'k os \<Rightarrow> options \<Rightarrow> 'k msg_machine \<Rightarrow> 'k msg_machine \<Rightarrow> bool" where
  "mode_done os opt s t \<longleftrightarrow> (\<exists>g rs. msg_batches (opt_profile opt) (operations_for (opt_profile opt) MODE_SMOKE) g \<and>
     rounds_passed (msg_result (opt_profile opt) (operations_for (opt_profile opt) MODE_POINT))
       (\<lambda>i. msg_batches (opt_profile opt) (operations_for (opt_profile opt) MODE_POINT)) 18 rs
       (s\<lparr>reaped := reaped s @ g\<rparr>) t \<and>
     out_lines t = out_lines s @ map (\<lambda>i. table_row os (opt_profile opt) PHASE_MEASURED i (rs ! (3 + i))) [0..<15])"

lemma msg_mode_done_data:
  "mode_done os opt t u \<Longrightarrow> same_data s t \<Longrightarrow> same_data u v \<Longrightarrow> mode_done os opt s v"
  by (auto simp: mode_done_def rounds_passed_def reaps_def same_data_def)

lemma msg_mode_point:
  assumes nn: "mmap_nonnull os" and point: "opt_mode opt = MODE_POINT" and path: "opt_output_path opt = Some path"
  shows "wp (run_mode os work buffers opt s) (\<lambda>rc t. rc = 0 \<longrightarrow> mode_done os opt s t)"
proof -
  let ?p = "opt_profile opt" and ?n = "operations_for (opt_profile opt) MODE_POINT"
  let ?smoke = "operations_for (opt_profile opt) MODE_SMOKE"
  let ?row = "\<lambda>i. table_row os ?p PHASE_MEASURED i"
  let ?f = "\<lambda>i :: nat. execute_once os work buffers ?p ?n False"
  let ?g = "\<lambda>i :: nat. execute_once os work buffers ?p ?n True"
  let ?e = "\<lambda>i. emitted_round os work buffers opt ?n True PHASE_MEASURED i"
  have sim: "or_fail (?g i t) (\<lambda>s. Some (0, print_line (?row i (res s)) s)) = Some (0, u)"
    if "?e i t = Some (0, u)" for i t u
    using that path
    by (auto simp: emitted_round_def emit_result_def emit_def or_fail_def Option.bind_eq_Some_conv split: if_splits)
  have meas: "measured_with ?row ?g 15 t = Some (0, u)" if "for_each ?e [0..<15] t = Some (0, u)" for t u
    unfolding measured_with_def by (rule msg_for_each_sim [OF sim that])
  have point_done: "wp (or_fail (for_each ?f [0..<3] t) (\<lambda>s. or_fail (measured_with ?row ?g 15 s) (\<lambda>s. Some (0, s))))
      (\<lambda>rc u. rc = 0 \<longrightarrow> point_done (msg_result ?p ?n) (\<lambda>i. msg_batches ?p ?n) ?row 3 15 t u)" for t
    by (rule point_rounds_done) (rule msg_once_outcome [OF nn])+
  have rounds: "wp (or_fail (for_each ?f [0..<3] t) (\<lambda>s. for_each ?e [0..<15] s))
      (\<lambda>rc u. rc = 0 \<longrightarrow> point_done (msg_result ?p ?n) (\<lambda>i. msg_batches ?p ?n) ?row 3 15 t u)" for t
  proof -
    have "or_fail (for_each ?f [0..<3] t) (\<lambda>s. or_fail (measured_with ?row ?g 15 s) (\<lambda>s. Some (0, s))) = Some (0, u)"
      if run: "or_fail (for_each ?f [0..<3] t) (\<lambda>s. for_each ?e [0..<15] s) = Some (0, u)" for u
    proof -
      obtain rc v where v: "for_each ?f [0..<3] t = Some (rc, v)" "rc = 0" "for_each ?e [0..<15] v = Some (0, u)"
        using run by (auto simp: or_fail_def Option.bind_eq_Some_conv split: if_splits)
      from meas [OF v(3)] v(1,2) show ?thesis by (simp add: or_fail_def)
    qed
    with point_done [of t] show ?thesis by (auto simp: wp_iff)
  qed
  have smoke: "wp (execute_once os work buffers ?p ?smoke False s) (\<lambda>rc t. rc = 0 \<longrightarrow>
      round_outcome_of (msg_result ?p ?smoke) (msg_batches ?p ?smoke) s t \<and> out_lines t = out_lines s)"
    by (rule wp_mono [OF msg_once_outcome [OF nn]]) (simp add: outcome_def same_resources_def)
  have "wp (or_fail (execute_once os work buffers ?p ?smoke False s) (\<lambda>s.
      or_fail (for_each ?f [0..<3] s) (\<lambda>s. for_each ?e [0..<15] s))) (\<lambda>rc t. rc = 0 \<longrightarrow> mode_done os opt s t)"
  proof (rule wp_or_fail [OF smoke])
    fix t assume t: "round_outcome_of (msg_result ?p ?smoke) (msg_batches ?p ?smoke) s t \<and> out_lines t = out_lines s"
    then obtain g where g: "reaps g s t" "msg_batches ?p ?smoke g" by (auto simp: round_outcome_of_def)
    show "wp (or_fail (for_each ?f [0..<3] t) (\<lambda>s. for_each ?e [0..<15] s)) (\<lambda>rc u. rc = 0 \<longrightarrow> mode_done os opt s u)"
    proof (rule wp_mono [OF rounds])
      fix rc :: int and u
      assume "rc = 0 \<longrightarrow> point_done (msg_result ?p ?n) (\<lambda>i. msg_batches ?p ?n) ?row 3 15 t u"
      moreover have "rounds_passed pass ok n rs (s\<lparr>reaped := reaped s @ g\<rparr>) u = rounds_passed pass ok n rs t u"
        for pass ok n rs
        using g(1) by (simp add: rounds_passed_def reaps_def)
      moreover have "mode_done os opt s u" if "point_done (msg_result ?p ?n) (\<lambda>i. msg_batches ?p ?n) ?row 3 15 t u"
      proof -
        from that obtain rs where "rounds_passed (msg_result ?p ?n) (\<lambda>i. msg_batches ?p ?n) 18 rs t u"
            "out_lines u = out_lines t @ map (\<lambda>i. ?row i (rs ! (3 + i))) [0..<15]"
          by (auto simp: point_done_def)
        then show ?thesis
          unfolding mode_done_def using g(2) t calculation(2)
          by (intro exI [of _ g] exI [of _ rs]) simp
      qed
      ultimately show "rc = 0 \<longrightarrow> mode_done os opt s u" by blast
    qed
  qed
  then show ?thesis
    using point by (simp add: run_mode_def Let_def WARMUP_ROUNDS_def MEASURED_ROUNDS_def)
qed

section \<open>The rest of main keeps the data\<close>

lemma msg_sys_data: "sys f s = (a, t) \<Longrightarrow> same_data s t"
  using sys_process same_process_data by blast

lemma msg_open_fd_data [simp]: "same_data (open_fd fd s) t = same_data s t" "same_data s (open_fd fd t) = same_data s t"
  by (simp_all add: same_data_def open_fd_def)

lemma msg_setup_data:
  assumes "setup_workload os work profile s = (rc, work', t)"
  shows "same_data s t"
proof -
  have sentinel: "same_data u v" if "setup_sentinel_file os w u = (rc, w', v)" for w w' u v
    using that
    by (auto simp: setup_sentinel_file_def register_source_file_def Let_def split: prod.splits if_splits
        dest!: msg_sys_data) (simp_all add: same_data_def)
  show ?thesis
    using assms
    by (auto simp: setup_workload_def Let_def split: prod.splits if_splits
        dest!: startup_process(2) same_process_data msg_ring_init_data sentinel intro: same_data_trans)
qed

lemma msg_cleanup_data: "same_data s (snd (cleanup_workload os work s))"
proof -
  have "same_data s (snd (sys f s))" for f and s :: "'a msg_machine"
    using same_process_data [OF same_process_ops(1)] .
  moreover have "same_data s (snd (raw_ring_destroy os ring s))" for ring and s :: "'a msg_machine"
    by (simp add: same_data_def)
  moreover have "same_data s (snd (close_fd os fd s))" for fd and s :: "'a msg_machine"
    by (simp add: same_data_def)
  ultimately show ?thesis
    by (auto simp: cleanup_workload_def unregister_files_def same_data_def split_beta Let_def)
qed

lemma msg_workload_point:
  assumes nn: "mmap_nonnull os" and point: "opt_mode opt = MODE_POINT" and path: "opt_output_path opt = Some path"
  shows "wp (run_workload os buffers opt work s) (\<lambda>code t. code = 0 \<longrightarrow> mode_done os opt s t)"
proof -
  obtain rc work1 s1 where st: "setup_workload os work (opt_profile opt) s = (rc, work1, s1)"
    by (cases "setup_workload os work (opt_profile opt) s") auto
  note data = msg_setup_data [OF st]
  have "wp (if rc \<noteq> 0 then Some (-1, s1) else run_mode os work1 buffers opt s1)
      (\<lambda>rc t. rc = 0 \<longrightarrow> mode_done os opt s1 t)"
    using msg_mode_point [OF nn point path] by simp
  then have "wp (do {
        (run_ret, s2) \<leftarrow> (if rc \<noteq> 0 then Some (-1, s1) else run_mode os work1 buffers opt s1);
        let (cleanup_ret, s3) = cleanup_workload os work1 s2
        in Some (if run_ret = 0 \<and> cleanup_ret = 0 then EXIT_SUCCESS else EXIT_FAILURE, s3)
      }) (\<lambda>code t. code = 0 \<longrightarrow> mode_done os opt s t)"
  proof (rule wp_bindI)
    fix run_ret :: int and s2 assume d: "run_ret = 0 \<longrightarrow> mode_done os opt s1 s2"
    obtain cr s3 where c: "cleanup_workload os work1 s2 = (cr, s3)" by (cases "cleanup_workload os work1 s2")
    have "same_data s2 s3" using msg_cleanup_data [of s2 os work1] c by simp
    with d msg_mode_done_data [OF _ data this]
    show "wp (let (cleanup_ret, s3) = cleanup_workload os work1 s2
        in Some (if run_ret = 0 \<and> cleanup_ret = 0 then EXIT_SUCCESS else EXIT_FAILURE, s3))
        (\<lambda>code t. code = 0 \<longrightarrow> mode_done os opt s t)"
      by (auto simp: c EXIT_FAILURE_def)
  qed
  then show ?thesis by (simp add: run_workload_def st)
qed

lemma msg_preamble:
  assumes "opt_output_path opt = Some path"
  shows "out_lines (emit_preamble compiler opt work s) = out_lines s @ preamble_lines compiler work"
    "reaped (emit_preamble compiler opt work s) = reaped s"
  using assms by (simp_all add: emit_preamble_def preamble_lines_def emit_def print_line_def)

lemma msg_main_point:
  assumes nn: "mmap_nonnull os" and opt: "parse_options (tl argv) = Some opt"
    and point: "opt_mode opt = MODE_POINT" and path: "opt_output_path opt = Some path"
  shows "wp (main os compiler buffers argv s) (\<lambda>code t. code = 0 \<longrightarrow>
    (\<exists>work. mode_done os opt (s\<lparr>out_lines := out_lines s @ preamble_lines compiler work\<rparr>) t))"
proof -
  obtain rel s1 where 1: "ask (os_uname os) s = (rel, s1)" by (cases "ask (os_uname os) s")
  obtain boot s2 where 2: "read_text os boot_id_path 128 s1 = (boot, s2)"
    by (cases "read_text os boot_id_path 128 s1")
  obtain opened s3 where 3: "ask (os_fopen os path) s2 = (opened, s3)" by (cases "ask (os_fopen os path) s2")
  have s3: "same_process s s3"
    using ask_process [OF 1] startup_process(3) [OF 2] ask_process [OF 3] by (blast intro: same_process_trans)
  let ?post = "\<lambda>code t. code = 0 \<longrightarrow>
    (\<exists>work. mode_done os opt (s\<lparr>out_lines := out_lines s @ preamble_lines compiler work\<rparr>) t)"
  have run: "wp (do {
        (code, s4) \<leftarrow> run_workload os buffers opt work (emit_preamble compiler opt work s3);
        Some (code, snd (ask (os_fclose os) s4))
      }) ?post" for work
  proof (rule wp_bindI [OF msg_workload_point [OF nn point path]])
    fix code :: int and s4
    assume d: "code = 0 \<longrightarrow> mode_done os opt (emit_preamble compiler opt work s3) s4"
    have "mode_done os opt (s\<lparr>out_lines := out_lines s @ preamble_lines compiler work\<rparr>) (snd (ask (os_fclose os) s4))"
      if "mode_done os opt (emit_preamble compiler opt work s3) s4"
      using that same_process_D [OF s3]
      by (simp add: mode_done_def rounds_passed_def reaps_def msg_preamble [OF path])
    with d show "wp (Some (code, snd (ask (os_fclose os) s4))) ?post" by auto
  qed
  have "wp (run_execute os compiler buffers opt s) ?post"
    using run by (auto simp: run_execute_def 1 2 3 path EXIT_FAILURE_def Let_def split: option.split)
  then show ?thesis using opt point by (simp add: main_def)
qed

end
