(* ===== verification/Msg_Properties.thy ===== *)
theory Msg_Properties
  imports Msg_Point Simple_System
begin

text \<open>
  io_uring_msg_ring_round.c: what the program promises.
\<close>

section \<open>Rounds\<close>

text \<open>C6: A data round that returns 0 has drained, batch by batch, exactly one right completion
  for every request from the source ring and from the target ring, whatever the kernel did,
  and its \<open>struct result\<close> is determined by the profile, the number of operations and the
  time; no error counter can wrap to zero. Mappings, descriptors and output are kept on every
  path.\<close>

theorem data_round_sound:
  "wp (run_data_once os work profile operations timed s)
     (outcome (\<lambda>t. (\<exists>bs. reaps bs s t \<and> grouped (\<lambda>b. data_group (of_nat (b * QD))) (unat operations div QD) bs) \<and>
        (\<exists>ns. res t = data_result profile operations ns)) s)"
  using msg_data_once_outcome [of os work profile operations timed s]
  unfolding data_done_def data_batches_def .

text \<open>C7: A send-fd round that returns 0 has given every slot of the file table to exactly one
  request: the slots reported are a permutation of the table, both completions of a request
  name its slot, and every slot was then read back once. Where \<open>mmap\<close> never returns address
  zero, the ring of the round is given back on every path.\<close>

theorem send_fd_round_sound:
  assumes "mmap_nonnull os"
  shows "wp (run_send_fd_once os work buffers operations timed s)
    (outcome (\<lambda>t. (\<exists>slot bs vs. bij_betw slot {..<unat operations} {..<unat operations} \<and> reaps (bs @ vs) s t \<and>
         grouped (fd_group slot) (unat operations div QD) bs \<and> grouped read_group (unat operations div QD) vs) \<and>
       (\<exists>ns. res t = fd_result operations ns)) s)"
  by (rule outcome_mono [OF msg_send_fd_outcome [OF assms]]) (auto simp: fd_round_done_def fd_done_def; blast)

theorem send_fd_round_sound_witness:
  "wp (run_send_fd_once simple_os (initial_workload ''r'' ''b'') 0x1000 64 True (simple_machine 8 zero_result))
     (\<lambda>rc t. vmas t = [] \<and> open_fds t = [])"
  by (rule wp_mono [OF send_fd_round_sound [OF simple_nonnull]])
     (simp add: outcome_def same_resources_def simple_machine_def)

section \<open>The drains\<close>

text \<open>\<open>drain_data_cq\<close> counts no error and marks every index as seen exactly when it was given
  a permutation of the expected completions: result 0 on the source side, one plus the
  sequence number modulo a million on the target side, no flags.\<close>

theorem drain_data_exact:
  assumes "msg_err r + 2 ^ 34 < 2 ^ 64" and "length cs = unat available" and "\<And>j. \<not> seen_of source mp j"
    and "unat base + unat cnt \<le> 2 ^ 48"
  shows "msg_err (snd (drain_cqes (bad_data source base) source base cnt available cs mp r)) = msg_err r \<and>
      (\<forall>j < unat cnt. seen_of source (fst (drain_cqes (bad_data source base) source base cnt available cs mp r)) j) \<longleftrightarrow>
    mset cs = mset (map (\<lambda>j. msg_cqe source base j (data_res source base j)) [0..<unat cnt])"
  using msg_drain_exact [OF assms(1-3), where bad = "bad_data source base" and base = base and cnt = cnt]
    msg_complete_data [OF assms(4)] by blast

theorem drain_data_exact_witness:
  "let cs = [msg_cqe False 64 1 66, msg_cqe False 64 0 65]
   in msg_err (snd (drain_cqes (bad_data False 64) False 64 2 2 cs zero_map zero_result)) = 0"
proof -
  let ?cs = "[msg_cqe False 64 1 66, msg_cqe False 64 0 65]"
  have e: "msg_err zero_result = 0" by (simp add: msg_err_def zero_result_def)
  have w: "data_res False 64 0 = 65" "data_res False 64 1 = 66" "data_res False 64 (Suc 0) = 66" by (simp_all add: data_res_def data_word_def)
  have "mset ?cs = mset (map (\<lambda>j. msg_cqe False 64 j (data_res False 64 j)) [0..<unat (2 :: u32)])"
    by (simp add: w upt_conv_Cons)
  with drain_data_exact [of zero_result ?cs 2 False zero_map 64 2] show ?thesis
    by (simp add: e Let_def)
qed

section \<open>Queues, numbers and bytes\<close>

text \<open>C33: A batch that fits is appended, in order, to the queue of pending submissions, and one
  that does not is refused and leaves the queue as it was, where the kernel touches the
  submission ring only inside \<open>io_uring_enter\<close>.\<close>

theorem data_batch_fifo:
  fixes os :: "'k os" and s :: "'k msg_machine"
  assumes "sq_private os (ring_fd (w_source work))" and "sq_wf (ring_at s (ring_fd (w_source work)))"
    and "unat cnt < 2 ^ 31"
  shows "let m = ring_at s (ring_fd (w_source work)); (rc, t) = prepare_data_batch os work base cnt s;
             m' = ring_at t (ring_fd (w_source work))
    in if sq_count m + unat cnt \<le> sq_capacity m
       then rc = 0 \<and> sq_wf m' \<and> sq_pending m' = sq_pending m @
              map (\<lambda>i. data_sqe (ring_fd (w_target work)) (base + of_nat i) zero_sqe) [0..<unat cnt]
       else rc = -1 \<and> sq_pending m' = sq_pending m"
proof (cases "sq_count (ring_at s (ring_fd (w_source work))) + unat cnt \<le> sq_capacity (ring_at s (ring_fd (w_source work)))")
  case True
  from msg_prepare_room [OF assms True, of "\<lambda>i. data_sqe (ring_fd (w_target work)) (base + of_nat i)"] True
  show ?thesis by (auto simp: prepare_data_batch_def)
next
  case False
  then have "sq_capacity (ring_at s (ring_fd (w_source work))) < sq_count (ring_at s (ring_fd (w_source work))) + unat cnt"
    by simp
  from msg_prepare_full [OF assms this, of "\<lambda>i. data_sqe (ring_fd (w_target work)) (base + of_nat i)"] False
  show ?thesis by (auto simp: prepare_data_batch_def)
qed

theorem data_batch_fifo_witness:
  "let (rc, t) = prepare_data_batch simple_os (initial_workload ''r'' ''b'') 128 64 (simple_machine 8 zero_result)
   in rc = 0 \<and> length (sq_pending (ring_at t (-1))) = 64"
proof -
  let ?w = "initial_workload ''r'' ''b''" and ?s = "simple_machine 8 zero_result"
  have fd: "ring_fd (w_source ?w) = -1" by (simp add: initial_workload_def)
  have wf: "sq_wf (ring_at ?s (ring_fd (w_source ?w)))" by (simp add: empty_ring_queue)
  have room: "sq_count (ring_at ?s (-1)) + unat (64 :: u32) \<le> sq_capacity (ring_at ?s (-1))"
    by (simp add: empty_ring_queue)
  from data_batch_fifo [OF simple_private wf, of 64 128] room show ?thesis
    by (auto simp: fd Let_def empty_ring_queue simp del: length_sq_pending split: prod.splits)
qed

text \<open>Decoding a tagged sequence number gives back its index in the batch, and no other
  \<open>user_data\<close> is accepted, for every batch that ends below \<open>2 ^ 48\<close>.\<close>

theorem decode_inverts_tagging:
  assumes "tag \<in> {SOURCE_TAG, TARGET_TAG, VERIFY_TAG}" and "unat base + unat cnt \<le> 2 ^ 48"
  shows "decode_sequence user_data tag base cnt = Some j \<longleftrightarrow>
    j < unat cnt \<and> user_data = tagged_user_data tag (base + of_nat j)"
  using msg_decode_iff [OF _ assms(2), of tag user_data j] assms(1) by auto

theorem decode_inverts_tagging_witness:
  "decode_sequence (tagged_user_data TARGET_TAG (128 + 5)) TARGET_TAG 128 64 = Some 5 \<and>
   decode_sequence (tagged_user_data SOURCE_TAG (128 + 64)) SOURCE_TAG 128 64 \<noteq> Some 64"
  using decode_inverts_tagging [of TARGET_TAG 128 64 "tagged_user_data TARGET_TAG (128 + 5)" 5]
    decode_inverts_tagging [of SOURCE_TAG 128 64 "tagged_user_data SOURCE_TAG (128 + 64)" 64]
  by simp

text \<open>A batch of \<open>verify_fixed_files\<close> that adds no error has received one good completion for
  each of its 64 slots, and the byte at every buffer is the sentinel byte of its slot.\<close>

theorem verify_batch_reads:
  assumes "msg_err (res s) + 2 ^ 36 < 2 ^ 64" and "unat base + QD \<le> 2 ^ 48"
  shows "wp (verify_batch os work target buffers base s) (\<lambda>rc t. rc = 0 \<and> msg_err (res t) = msg_err (res s) \<longrightarrow>
    (\<exists>cs. reaps [cs] s t \<and> mset cs = mset (map (read_cqe base) [0..<QD])) \<and>
    (\<forall>i < QD. load_byte (memory t) (buffers + of_nat i) =
       w_sentinel work ! unat ((ucast base + of_nat i :: u32) mod of_nat SENTINEL_BYTES)))"
  by (rule wp_mono [OF msg_verify_batch_outcome [OF assms]])
     (auto simp: outcome_def err_step_def verify_done_def reads_done_def byte_matches_def)

theorem verify_batch_reads_witness:
  "wp (verify_batch simple_os (initial_workload ''r'' ''b'') zero_ring 0x1000 64 (simple_machine 8 zero_result))
     (\<lambda>rc t. rc = 0 \<and> msg_err (res t) = 0 \<longrightarrow> (\<exists>cs. reaped t = [cs] \<and> length cs = 64))"
proof -
  have e: "msg_err (res (simple_machine 8 zero_result)) = 0"
    by (simp add: simple_machine_def msg_err_def zero_result_def)
  have "length cs = 64" if "mset cs = mset (map (read_cqe 64) [0..<QD])" for cs
    using mset_eq_length [OF that] by (simp add: QD_def)
  then show ?thesis
    by (intro wp_mono [OF verify_batch_reads [of "simple_machine 8 zero_result" 64]])
       (auto simp: e QD_def reaps_def simple_machine_def msg_err_def zero_result_def)
qed

section \<open>The process\<close>

text \<open>C18: Where \<open>mmap\<close> never returns address zero, every return of \<open>main\<close> leaves exactly the
  mappings and descriptors there were at its start.\<close>

theorem msg_main_gives_back:
  assumes "mmap_nonnull os"
  shows "wp (main os compiler buffers argv s) (\<lambda>code t. vmas t = vmas s \<and> mset (open_fds t) = mset (open_fds s))"
  using msg_main_restored [OF assms] by (simp add: restored_def)

theorem msg_main_gives_back_witness:
  "wp (main simple_os ''13.2'' 0x1000 [''prog'', ''--profile'', ''f0'', ''--mode'', ''smoke'', ''--execute'']
        (simple_machine 8 zero_result))
     (\<lambda>code t. vmas t = [] \<and> open_fds t = [])"
  by (rule wp_mono [OF msg_main_gives_back [OF simple_nonnull]]) (simp add: simple_machine_def)

subsection \<open>A whole run\<close>

text \<open>On the answering system every data round passes, and so does point mode.\<close>

lemma entries_on_ring:
  "fold (\<lambda>i. put_entry ring (f i)) is (tail, s) =
     (fst (write_entries (map (\<lambda>i. f i zero_sqe) is) tail (ring_at s (ring_fd ring))),
      upd_ring (ring_fd ring) (\<lambda>m. snd (write_entries (map (\<lambda>i. f i zero_sqe) is) tail m)) s)"
proof (induction "is" arbitrary: tail s)
  case Nil
  then show ?case by (simp add: upd_ring_def)
next
  case (Cons i "is")
  let ?x = "tail AND sq_mask (ring_at s (ring_fd ring))"
  let ?g = "\<lambda>m. m\<lparr>sqes := (sqes m)(?x := f i zero_sqe), sq_array := (sq_array m)(?x := ?x)\<rparr>"
  have "put_entry ring (f i) (tail, s) = (tail + 1, upd_ring (ring_fd ring) ?g s)"
    by (simp add: put_entry_def Let_def)
  then show ?case
    by (simp add: Cons.IH upd_ring_twice) (rule upd_ring_cong, simp)
qed

lemma entries_keep:
  "sq_entries (snd (write_entries qs tail m)) = sq_entries m" "cq_mask (snd (write_entries qs tail m)) = cq_mask m"
  "cq_entries (snd (write_entries qs tail m)) = cq_entries m" "cq_head (snd (write_entries qs tail m)) = cq_head m"
  "cq_tail (snd (write_entries qs tail m)) = cq_tail m" "cqes (snd (write_entries qs tail m)) = cqes m"
  "sq_dropped (snd (write_entries qs tail m)) = sq_dropped m" "cq_overflow (snd (write_entries qs tail m)) = cq_overflow m"
  by (induction qs arbitrary: tail m) simp_all

lemma answering_prepare:
  assumes l: "looks 8 (\<lambda>fd. []) C s" and n: "n \<le> 256"
  shows "\<exists>t. prepare_with answering_os ring f (of_nat n) s = (0, t) \<and> res t = res s \<and>
    looks 8 (\<lambda>d. if d = ring_fd ring then map (\<lambda>i. f i zero_sqe) [0..<n] else []) C t"
proof -
  let ?m = "ring_at s (ring_fd ring)" and ?qs = "map (\<lambda>i. f i zero_sqe) [0..<n]"
  note ok = looks_ring [OF l, of "ring_fd ring"]
  have n': "unat (of_nat n :: u32) = n" using n by (intro unat_small) simp
  have cap: "sq_capacity ?m = 256" using ok by (simp add: ring_ok_def sq_capacity_def)
  have cnt: "sq_count ?m = 0" using ok by (auto simp: ring_ok_def simp flip: length_sq_pending)
  obtain t where t: "prepare_with answering_os ring f (of_nat n) s = (0, t)"
      "sq_pending (ring_at t (ring_fd ring)) = ?qs" "sq_wf (ring_at t (ring_fd ring))"
    using msg_prepare_room [OF answering_private, where ring = ring and s = s and cnt = "of_nat n" and f = f] ok n cap cnt
    by (auto simp: ring_ok_def n')
  let ?w = "write_entries ?qs (sq_tail ?m)"
  have eq: "t = upd_ring (ring_fd ring) (\<lambda>m. (snd (?w m))\<lparr>sq_tail := fst (?w ?m)\<rparr>) s"
    using t(1) n' by (auto simp: prepare_with_def reserve_batch_def entries_on_ring publish_batch_def
        store_release_def upd_ring_twice Let_def split: if_splits)
  have "ring_ok 8 ?qs (C (ring_fd ring)) (ring_at t (ring_fd ring))"
    using ok t(2,3) by (auto simp: ring_ok_def eq entries_keep cq_pending_def cq_count_def)
  then have "looks 8 ((\<lambda>fd. [])(ring_fd ring := ?qs)) (C(ring_fd ring := C (ring_fd ring))) t"
    unfolding eq by (intro looks_upd_ring [OF l]) simp
  then have "looks 8 (\<lambda>d. if d = ring_fd ring then ?qs else []) C t" by (simp add: fun_upd_def)
  moreover have "res t = res s" by (simp add: eq)
  ultimately show ?thesis using t(1) by blast
qed


lemma answering_bounded_enter:
  assumes l: "looks k Q C s" and n: "0 \<le> sint n"
    and room: "\<And>d. length (C d) + length (posted (ring_fd ring) (Q (ring_fd ring)) d) \<le> 2 ^ k"
  shows "\<exists>t. bounded_enter answering_os ring n m s = Some (0, t) \<and> res t = res s \<and>
    looks k (Q(ring_fd ring := [])) (\<lambda>d. C d @ posted (ring_fd ring) (Q (ring_fd ring)) d) t"
proof -
  have "os_enter answering_os = (\<lambda>fd n m fl arg x. ((sint n, 0), answer_all fd x))"
    by (simp add: answering_os_def)
  then have "bounded_enter answering_os ring n m s = Some (0, s\<lparr>sh := answer_all (ring_fd ring) (sh s)\<rparr>)"
    using n by (simp add: bounded_enter_def retry_loop.simps sys_def)
  with answering_enter_call [OF l room] show ?thesis by simp
qed

lemma answering_drain:
  assumes l: "looks k Q C s"
  shows "\<exists>t. drain_with answering_os ring bad source base cnt mp s =
      (fst (drain_cqes bad source base cnt (of_nat (length (C (ring_fd ring)))) (C (ring_fd ring)) mp (res s)), t) \<and>
    res t = snd (drain_cqes bad source base cnt (of_nat (length (C (ring_fd ring)))) (C (ring_fd ring)) mp (res s)) \<and>
    looks k Q (C(ring_fd ring := [])) t"
proof -
  let ?fd = "ring_fd ring" and ?m = "ring_at s (ring_fd ring)"
  let ?n = "of_nat (length (C (ring_fd ring))) :: u32"
  note ok = looks_ring [OF l, of ?fd]
  note av = ring_ok_left(1) [OF ok]
  have "k < 32" using ok by (simp add: ring_ok_def)
  then have "(2 :: nat) ^ k < 2 ^ 32" by (intro power_strict_increasing) auto
  then have len: "unat ?n = length (C ?fd)" using looks_room [OF l, of ?fd] by (intro unat_small) simp
  have "unat ?n \<le> cq_count ?m" by (simp only: cq_count_def av)
  then have cs: "copy_cqes ring (cq_head ?m) ?n s = C ?fd"
    using copy_is_prefix [of ?n s ring] ok len by (simp add: ring_ok_def)
  define r where "r = drain_cqes bad source base cnt ?n (C ?fd) mp (res s)"
  let ?u = "upd_ring ?fd (cq_head_update (\<lambda>_. cq_tail ?m)) (upd_res (\<lambda>_. snd r) s)"
  let ?t = "?u\<lparr>reaped := reaped ?u @ [C ?fd]\<rparr>"
  have "cq_head ?m + ?n = cq_tail ?m" by (simp flip: av)
  then have "ring_ok k (Q ?fd) [] (cq_head_update (\<lambda>_. cq_tail ?m) (ring_at (upd_res (\<lambda>_. snd r) s) ?fd))"
    using ring_ok_reap [OF ok, of ?n] len by simp
  then have "looks k (Q(?fd := Q ?fd)) (C(?fd := [])) ?u"
    by (intro looks_upd_ring) (use l in simp_all)
  then have "looks k Q (C(?fd := [])) ?t" by (auto intro: looks_same)
  moreover have "drain_with answering_os ring bad source base cnt mp s = (fst r, ?t)"
    by (simp add: drain_with_def av cs r_def [symmetric] store_release_def split_beta Let_def)
  ultimately show ?thesis by (simp add: r_def)
qed

lemma ucast_succ: "(ucast (1 + x :: u64) :: u32) = 1 + ucast x"
proof -
  have "take_bit 32 (take_bit 64 (1 + uint x)) = take_bit 32 (1 + uint x)" by simp
  also have "\<dots> = take_bit 32 (take_bit 32 1 + take_bit 32 (uint x))" by (simp only: take_bit_add)
  finally have "uint (ucast (1 + x) :: u32) = uint (1 + ucast x :: u32)"
    by (simp add: uint_word_ariths unsigned_ucast_eq take_bit_eq_mod mod_simps mod_mod_cancel unsigned_take_bit_eq)
  then show ?thesis by (rule word_uint_eqI)
qed

text \<open>The completions for a batch of messages.\<close>

lemma posted_messages:
  assumes "src \<noteq> tgt"
  shows "posted src (map (\<lambda>i. data_sqe tgt (base + of_nat i) zero_sqe) is) d =
    (if d = src then map (\<lambda>j. msg_cqe True base j (data_res True base j)) is
     else if d = tgt then map (\<lambda>j. msg_cqe False base j (data_res False base j)) is else [])"
proof -
  have one: "answers src (data_sqe tgt (base + of_nat i) zero_sqe) =
      [(src, msg_cqe True base i (data_res True base i)), (tgt, msg_cqe False base i (data_res False base i))]" for i
    by (simp add: answers_def data_sqe_def answer_cqe_def msg_cqe_def data_res_def data_word_def side_tag_def
        IORING_OP_NOP_def IORING_OP_FUTEX_WAIT_def IORING_OP_FUTEX_WAKE_def IORING_OP_MSG_RING_def ucast_succ)
  show ?thesis
    using assms by (induction "is") (auto simp: posted_def one)
qed


lemma answering_data_batch:
  assumes l: "looks 8 (\<lambda>fd. []) (\<lambda>fd. []) s" and apart: "ring_fd (w_source work) \<noteq> ring_fd (w_target work)"
    and err: "msg_err (res s) = 0" and small: "unat base + 64 \<le> 2 ^ 48"
  shows "succeeds (data_batch answering_os work PROFILE_D0 base s)
    (\<lambda>t. looks 8 (\<lambda>fd. []) (\<lambda>fd. []) t \<and> res t = data_advance PROFILE_D0 (res s))"
proof -
  let ?src = "ring_fd (w_source work)" and ?tgt = "ring_fd (w_target work)" and ?no = "\<lambda>fd :: int. []"
  let ?qs = "map (\<lambda>i. data_sqe ?tgt (base + of_nat i) zero_sqe) [0..<64]"
  let ?cs = "map (\<lambda>j. msg_cqe True base j (data_res True base j)) [0..<64]"
  let ?ct = "map (\<lambda>j. msg_cqe False base j (data_res False base j)) [0..<64]"
  have p: "posted ?src ?qs d = (if d = ?src then ?cs else if d = ?tgt then ?ct else [])" for d
    using posted_messages [OF apart] .
  obtain t where t: "prepare_data_batch answering_os work base 64 s = (0, t)" "res t = res s"
      "looks 8 (\<lambda>d. if d = ?src then ?qs else []) ?no t"
    using answering_prepare [OF l, of 64 "w_source work" "\<lambda>i. data_sqe ?tgt (base + of_nat i)"]
    by (auto simp: prepare_data_batch_def)
  let ?t = "upd_res (\<lambda>r. r\<lparr>sqes_total := sqes_total r + 64\<rparr>) t"
  have lt: "looks 8 (\<lambda>d. if d = ?src then ?qs else []) ?no ?t" using t(3) by simp
  have room: "length (?no d) + length (posted ?src (if ?src = ?src then ?qs else []) d) \<le> 2 ^ 8" for d
    by (simp add: p)
  obtain u where u: "bounded_enter answering_os (w_source work) 64 64 ?t = Some (0, u)" "res u = res ?t"
      "looks 8 ((\<lambda>d. if d = ?src then ?qs else [])(?src := []))
         (\<lambda>d. ?no d @ posted ?src (if ?src = ?src then ?qs else []) d) u"
    using answering_bounded_enter [OF lt _ room, of 64 64] by auto
  let ?C = "?no(?src := ?cs, ?tgt := ?ct)"
  let ?u = "upd_res (\<lambda>r. r\<lparr>source_enters := source_enters r + 1\<rparr>) u"
  have lu: "looks 8 ?no ?C ?u"
    using looks_cong [OF u(3), of ?no ?C] apart by (simp add: p)
  define st1 where "st1 = drain_cqes (bad_data True base) True base (of_nat QD) 64 ?cs zero_map (res ?u)"
  obtain v where v: "drain_data_cq answering_os (w_source work) True base 64 zero_map ?u = (fst st1, v)"
      "res v = snd st1" "looks 8 ?no (?C(?src := [])) v"
    using answering_drain [OF lu, of "w_source work" "bad_data True base" True base 64 zero_map] apart
    by (auto simp: drain_data_cq_def st1_def QD_def)
  define st2 where "st2 = drain_cqes (bad_data False base) False base (of_nat QD) 64 ?ct (fst st1) (res v)"
  obtain w where w: "drain_data_cq answering_os (w_target work) False base 64 (fst st1) v = (fst st2, w)"
      "res w = snd st2" "looks 8 ?no (?C(?src := [], ?tgt := [])) w"
    using answering_drain [OF v(3), of "w_target work" "bad_data False base" False base 64 "fst st1"] apart
    by (auto simp: drain_data_cq_def st2_def QD_def)
  have qd: "unat (of_nat QD :: u32) = 64" by (simp add: QD_def)
  have eu: "msg_err (res ?u) + 2 ^ 36 < 2 ^ 64" using err u(2) t(2) by (simp add: msg_err_def)
  have len: "length ?cs = unat (64 :: u32)" "length ?ct = unat (64 :: u32)" by simp_all
  have c: "complete (bad_data True base) True base (of_nat QD) ?cs"
      "complete (bad_data False base) False base (of_nat QD) ?ct"
    using small by (simp_all add: msg_complete_data qd)
  have r1: "res v = (snd st1)\<lparr>target_enters := target_enters (snd st1)\<rparr>" using v(2) by simp
  have te: "target_enters (snd st1) = target_enters (res s)"
    using msg_two_drains_complete(1) [OF eu len st1_def _ st2_def c] v(2) u(2) t(2) by simp
  note right = msg_data_batch_right [OF eu len st1_def r1 st2_def c]
  let ?x = "upd_res (fold (score_data (fst st2)) [0..<QD]) w"
  have "res ?x = data_advance PROFILE_D0 (res s)"
    using right w(2) te u(2) t(2) by (simp add: data_advance_def QD_def)
  moreover have "looks 8 ?no ?no ?x" using looks_cong [OF w(3), of ?no ?no] by simp
  ultimately show ?thesis
    using t(1) u(1) v(1) w(1) by (simp add: data_batch_def drain_target_def or_fail_def QD_def succeeds_def)
qed


definition ready :: "msg_workload \<Rightarrow> int msg_machine \<Rightarrow> bool" where
  "ready work s \<longleftrightarrow> looks 8 (\<lambda>fd. []) (\<lambda>fd. []) s \<and> ring_fd (w_source work) \<noteq> ring_fd (w_target work)"

lemma answering_data_counters:
  assumes "looks 8 (\<lambda>fd. []) (\<lambda>fd. []) s"
  shows "data_counters answering_os work s = upd_res (\<lambda>r. r\<lparr>source_dropped := 0, source_overflow := 0,
    target_dropped := 0, target_overflow := 0, source_outstanding := 0, target_outstanding := 0\<rparr>) s"
proof -
  have z: "sq_dropped (ring_at s fd) = 0" "cq_overflow (ring_at s fd) = 0"
      "sq_tail (ring_at s fd) - sq_head (ring_at s fd) = 0" "cq_tail (ring_at s fd) - cq_head (ring_at s fd) = 0" for fd
    using looks_ring [OF assms, of fd] ring_ok_left [OF looks_ring [OF assms, of fd]] by (simp_all add: ring_ok_def)
  show ?thesis
    by (simp add: data_counters_def read_counter_def read_outstanding_def ring_outstanding_def z msg_setters Let_def)
       (simp add: upd_res_def msg_setters)
qed

lemma answering_data_round:
  assumes r: "ready work s" and ops: "unat operations = n * 64" and n: "0 < n"
  shows "succeeds (run_data_once answering_os work PROFILE_D0 operations timed s) (ready work)"
proof -
  let ?no = "\<lambda>fd :: int. []"
  let ?s = "upd_res (\<lambda>_. zero_result\<lparr>logical_ops := ucast operations\<rparr>) s"
  let ?P = "\<lambda>b t. looks 8 ?no ?no t \<and> res t = after_batches PROFILE_D0 operations b"
  have l: "looks 8 ?no ?no s" and apart: "ring_fd (w_source work) \<noteq> ring_fd (w_target work)"
    using r by (simp_all add: ready_def)
  have n32: "n * 64 < 2 ^ 32" using unat_lt32 [of operations] by (simp add: ops)
  have div: "unat operations div QD = n" by (simp add: ops QD_def)
  have "operations mod of_nat QD = 0"
    by (simp add: word_unat_eq_iff unat_mod ops QD_def)
  moreover have "operations \<noteq> 0" using ops n by auto
  ultimately have guard: "\<not> (operations = 0 \<or> operations mod of_nat QD \<noteq> 0)" by simp
  have "succeeds (for_each (\<lambda>b. data_batch answering_os work PROFILE_D0 (of_nat (b * QD))) [0..<n] ?s) (?P n)"
  proof (rule succeeds_for_each)
    fix b t assume b: "b < n" and t: "?P b t"
    have "b * 64 < 2 ^ 32" using b n32 by linarith
    moreover have "unat (of_nat (b * QD) :: u64) \<le> b * 64"
      by (simp only: QD_def unat_of_nat mod_less_eq_dividend)
    ultimately have "unat (of_nat (b * QD) :: u64) + 64 \<le> 2 ^ 48" by simp
    moreover have "msg_err (res t) = 0" using t by (simp add: after_batches_def msg_err_def zero_result_def)
    ultimately show "succeeds (data_batch answering_os work PROFILE_D0 (of_nat (b * QD)) t) (?P (Suc b))"
      using answering_data_batch [OF conjunct1 [OF t] apart] t msg_advance_batches
      by (auto elim!: succeeds_mono)
  next
    show "?P 0 ?s" using l by (simp add: after_batches_def zero_result_def)
  qed simp
  then obtain t where t: "for_each (\<lambda>b. data_batch answering_os work PROFILE_D0 (of_nat (b * QD))) [0..<n] ?s = Some (0, t)"
      "looks 8 ?no ?no t" "res t = after_batches PROFILE_D0 operations n"
    by (auto simp: succeeds_def)
  have total: "of_nat (n * QD) = (ucast operations :: u64)"
    by (simp add: QD_def flip: ops)
  let ?u = "if timed then upd_res (\<lambda>r. r\<lparr>elapsed_ns := 0\<rparr>) t else t"
  have u: "set_elapsed answering_os timed (if timed then 1000000000 else 0) t = Some (0, ?u)"
    by (simp add: set_elapsed_def)
  have lu: "looks 8 ?no ?no ?u" using t(2) by simp
  have "succeeds (conclude_with set_pass (data_pass operations) (data_counters answering_os work ?u)) (ready work)"
    unfolding answering_data_counters [OF lu]
    using lu apart t(3) total
    by (cases timed)
       (simp_all add: conclude_with_def data_pass_def after_batches_def zero_result_def ready_def Let_def)
  then show ?thesis
    using guard t(1) u by (simp add: run_data_once_def div or_fail_def Let_def)
qed

lemma answering_setup:
  "\<exists>work' t. setup_workload answering_os work PROFILE_D0 s = (0, work', t) \<and> ready work' t \<and> w_memfd work' = w_memfd work \<and>
     w_source_files_registered work' = w_source_files_registered work"
  if l: "looks 8 (\<lambda>fd. []) (\<lambda>fd. []) s" and kst: "sh_kst (sh s) = 3" for s :: "int msg_machine"
proof -
  have pin: "pin_cpu answering_os CONTRACT_CPU s = (0, s)"
    by (simp add: pin_cpu_def ask_def sys_def answering_os_def CONTRACT_CPU_def)
  have init: "\<exists>ring u. raw_ring_init answering_os 0 t = (0, ring, u) \<and> ring_fd ring = sh_kst (sh t) \<and>
      sh_kst (sh u) = sh_kst (sh t) + 1 \<and> looks 8 (\<lambda>fd. []) (\<lambda>fd. []) u"
    if lt: "looks 8 (\<lambda>fd. []) (\<lambda>fd. []) t" and kt: "0 \<le> sh_kst (sh t)" for t :: "int msg_machine"
  proof -
    obtain ring u where u: "ring_bringup answering_os RING_ENTRIES (zero_params\<lparr>p_flags := 0\<rparr>) t = (0, ring, u)"
        "ring_fd ring = sh_kst (sh t)" "sh u = (sh t)\<lparr>sh_kst := sh_kst (sh t) + 1\<rparr>"
        "stop_requested u = stop_requested t"
      using answering_bringup [OF kt, of RING_ENTRIES "zero_params\<lparr>p_flags := 0\<rparr>"] by blast
    have lu: "looks 8 (\<lambda>fd. []) (\<lambda>fd. []) u" by (rule looks_same [OF lt]) (simp_all add: u)
    then have "\<not> sq_entries (ring_at u (ring_fd ring)) < 64" "\<not> cq_entries (ring_at u (ring_fd ring)) < 64"
      using looks_ring [OF lu, of "ring_fd ring"] by (simp_all add: ring_ok_def)
    with u lu show ?thesis by (simp add: raw_ring_init_def QD_def)
  qed
  obtain r1 s1 where 1: "raw_ring_init answering_os 0 s = (0, r1, s1)" "ring_fd r1 = 3" "sh_kst (sh s1) = 4"
      "looks 8 (\<lambda>fd. []) (\<lambda>fd. []) s1"
    using init [OF l] kst by auto
  obtain r2 s2 where 2: "raw_ring_init answering_os 0 s1 = (0, r2, s2)" "ring_fd r2 = 4"
      "looks 8 (\<lambda>fd. []) (\<lambda>fd. []) s2"
    using init [OF 1(4)] 1(3) by auto
  show ?thesis
    using 1 2 by (simp add: setup_workload_def pin ready_def)
qed

lemma answering_mode:
  assumes r: "ready work s" and opt: "opt_profile opt = PROFILE_D0" "opt_mode opt = MODE_POINT"
    and path: "opt_output_path opt = Some path"
  shows "succeeds (run_mode answering_os work buffers opt s) (ready work)"
proof -
  have once: "succeeds (execute_once answering_os work buffers PROFILE_D0 (operations_for PROFILE_D0 mode) timed t) (ready work)"
    if "ready work t" "mode \<in> {MODE_SMOKE, MODE_POINT}" for mode timed t
    using that answering_data_round [of work t DATA_SMOKE_OPS 16 timed]
      answering_data_round [of work t DATA_OPS_PER_ROUND 4096 timed]
    by (auto simp: execute_once_def operations_for_def DATA_SMOKE_OPS_def DATA_OPS_PER_ROUND_def)
  have print: "ready work (print_line line t)" if "ready work t" for line t
    using that looks_same [of 8 "\<lambda>fd. []" "\<lambda>fd. []" t "print_line line t"] by (simp add: ready_def print_line_def)
  have emitted: "succeeds (emitted_round answering_os work buffers opt (operations_for PROFILE_D0 MODE_POINT) True PHASE_MEASURED i t) (ready work)"
    if t: "ready work t" for i t
  proof -
    obtain u where "execute_once answering_os work buffers PROFILE_D0 (operations_for PROFILE_D0 MODE_POINT) True t = Some (0, u)"
        "ready work u"
      using once [OF t, of MODE_POINT True] by (auto simp: succeeds_def)
    then show ?thesis
      using print path by (simp add: emitted_round_def emit_result_def emit_def opt succeeds_def)
  qed
  have "succeeds (or_fail (execute_once answering_os work buffers PROFILE_D0 (operations_for PROFILE_D0 MODE_SMOKE) False s) (\<lambda>s.
      or_fail (for_each (\<lambda>i. execute_once answering_os work buffers PROFILE_D0 (operations_for PROFILE_D0 MODE_POINT) False)
        [0..<WARMUP_ROUNDS] s) (\<lambda>s.
      for_each (\<lambda>i. emitted_round answering_os work buffers opt (operations_for PROFILE_D0 MODE_POINT) True PHASE_MEASURED i)
        [0..<MEASURED_ROUNDS] s))) (ready work)"
  proof (rule succeeds_or_fail [OF once [OF r]], simp, rule succeeds_or_fail)
    fix t assume "ready work t"
    then show "succeeds (for_each (\<lambda>i. execute_once answering_os work buffers PROFILE_D0 (operations_for PROFILE_D0 MODE_POINT) False)
        [0..<WARMUP_ROUNDS] t) (ready work)"
      by (intro succeeds_for_each [where P = "\<lambda>i. ready work"] once) simp_all
  next
    fix t assume "ready work t"
    then show "succeeds (for_each (\<lambda>i. emitted_round answering_os work buffers opt (operations_for PROFILE_D0 MODE_POINT) True PHASE_MEASURED i)
        [0..<MEASURED_ROUNDS] t) (ready work)"
      by (intro succeeds_for_each [where P = "\<lambda>i. ready work"] emitted) simp_all
  qed
  then show ?thesis by (simp add: run_mode_def opt Let_def)
qed

lemma answering_msg_point:
  assumes opt: "opt_profile opt = PROFILE_D0" "opt_mode opt = MODE_POINT" and path: "opt_output_path opt = Some path"
  shows "\<exists>t. run_execute answering_os compiler buffers opt (answering_machine 8 zero_result) = Some (0, t)"
proof -
  let ?s = "answering_machine 8 zero_result :: int msg_machine"
  let ?work = "initial_workload ''7.1.3'' ''id''"
  let ?p = "emit_preamble compiler opt ?work ?s"
  have "looks 8 (\<lambda>fd. []) (\<lambda>fd. []) ?p" "sh_kst (sh ?p) = 3"
    using looks_same [OF looks_start [of 8 zero_result], of ?p] path
    by (simp_all add: emit_preamble_def preamble_lines_def emit_def print_line_def answering_machine_def)
  then obtain work t where t: "setup_workload answering_os ?work PROFILE_D0 ?p = (0, work, t)" "ready work t"
      "w_memfd work = -1" "\<not> w_source_files_registered work"
    using answering_setup [of ?p ?work] by (auto simp: initial_workload_def)
  obtain u where u: "run_mode answering_os work buffers opt t = Some (0, u)"
    using answering_mode [OF t(2) opt path, of buffers] by (auto simp: succeeds_def)
  have "fst (cleanup_workload answering_os work u) = 0"
    using t(4) by (simp add: cleanup_workload_def split_beta Let_def)
  then have "run_workload answering_os buffers opt ?work ?p = Some (0, snd (cleanup_workload answering_os work u))"
    using t(1) u by (simp add: run_workload_def opt EXIT_SUCCESS_def split_beta Let_def)
  then show ?thesis
    using path by (simp add: run_execute_def ask_def read_text_def trim_eol_def answering_os_def [abs_def] Let_def)
qed

text \<open>C13: When \<open>main\<close> returns 0 in point mode with an output file, a smoke round, three warm-up
  and fifteen measured rounds have passed with the determined results, and the preamble and
  then one row for each measured round, in order, have been printed to its stream. Whether
  the lines reach the file is another matter: \<open>emit_preamble\<close>, \<open>emit_result\<close> and \<open>main\<close> look
  at the results of neither \<open>fprintf\<close> nor \<open>fclose\<close>. On the answering system such a run exists.\<close>

theorem msg_point_mode_complete:
  assumes "mmap_nonnull os" and "parse_options (tl argv) = Some opt" and "opt_mode opt = MODE_POINT"
    and "opt_output_path opt = Some path"
  shows "wp (main os compiler buffers argv s) (\<lambda>code t. code = 0 \<longrightarrow> (\<exists>work g rs.
    msg_batches (opt_profile opt) (operations_for (opt_profile opt) MODE_SMOKE) g \<and>
    rounds_passed (msg_result (opt_profile opt) (operations_for (opt_profile opt) MODE_POINT))
      (\<lambda>i. msg_batches (opt_profile opt) (operations_for (opt_profile opt) MODE_POINT)) 18 rs
      (s\<lparr>reaped := reaped s @ g\<rparr>) t \<and>
    out_lines t = out_lines s @ preamble_lines compiler work @
      map (\<lambda>i. table_row os (opt_profile opt) PHASE_MEASURED i (rs ! (3 + i))) [0..<15]))"
  by (rule wp_mono [OF msg_main_point [OF assms]])
     (auto simp: mode_done_def rounds_passed_def reaps_def)

theorem msg_point_mode_complete_witness:
  "\<exists>t rs g. main answering_os ''13.2'' 0x1000
       [''prog'', ''--profile'', ''d0'', ''--mode'', ''point'', ''--output'', ''f'', ''--execute'']
       (answering_machine 8 zero_result) = Some (0, t) \<and> length (out_lines t) = 19 \<and>
     rounds_passed (msg_result PROFILE_D0 262144) (\<lambda>i. msg_batches PROFILE_D0 262144) 18 rs
       ((answering_machine 8 zero_result)\<lparr>reaped := g\<rparr>) t"
proof -
  let ?argv = "[''prog'', ''--profile'', ''d0'', ''--mode'', ''point'', ''--output'', ''f'', ''--execute'']"
  let ?opt = "\<lparr>opt_profile = PROFILE_D0, opt_mode = MODE_POINT, opt_output_path = Some ''f'', opt_execute = True\<rparr>"
  have p: "parse_options (tl ?argv) = Some ?opt"
    by (simp add: parse_options_def parse_profile_def parse_mode_def zero_options_def options_ok_def)
  obtain t where t: "main answering_os ''13.2'' 0x1000 ?argv (answering_machine 8 zero_result) = Some (0, t)"
    using answering_msg_point [of ?opt "''f''" "''13.2''" "0x1000"] p by (auto simp: main_def)
  with msg_point_mode_complete [OF answering_nonnull p, where path = "''f''" and compiler = "''13.2''"
      and buffers = "0x1000" and s = "answering_machine 8 zero_result"]
  show ?thesis
    by (auto simp: answering_machine_def preamble_lines_def operations_for_def DATA_OPS_PER_ROUND_def)
qed

text \<open>Where system calls are interrupted only finitely often and the clock can be read,
  \<open>main\<close> comes back for every command line, with exit code 0 or 1.\<close>

theorem msg_main_comes_back:
  assumes "responsive os bound"
  shows "\<exists>code t. main os compiler buffers argv s = Some (code, t) \<and> code \<in> {0, 1}"
proof -
  obtain code t where r: "main os compiler buffers argv s = Some (code, t)"
    using msg_main_returns [OF assms, of compiler buffers argv s] by (auto simp: returns_def)
  have "wp (main os compiler buffers argv s) (\<lambda>code t. code \<in> {0, 1})"
    by (simp add: msg_main_exit_code)
  with r show ?thesis by auto
qed

theorem msg_main_comes_back_witness:
  "\<exists>code t. main simple_os ''13.2'' 0x1000 [''prog'', ''--profile'', ''r0'', ''--mode'', ''trace'', ''--execute'']
      (simple_machine 8 zero_result) = Some (code, t) \<and> code \<in> {0, 1}"
proof -
  have "responsive simple_os (\<lambda>x. 0)"
    using simple_eintr by (simp add: responsive_def clock_ok_def simple_os_def)
  then show ?thesis by (rule msg_main_comes_back)
qed

end
