(* ===== verification/Exit_Monad.thy ===== *)
theory Exit_Monad
  imports Prelude
begin

text \<open>
  Computations over a state that may end the process from anywhere, which is what \<open>exit\<close> in a
  called function does: their sequence, loops, weakest preconditions and coming back. The state
  is a parameter; the programs that are written this way supply it.
\<close>

section \<open>Computations\<close>

text \<open>
  The result is \<open>Inl code\<close> for a call of \<open>exit(code)\<close> and \<open>Inr a\<close> for a return of \<open>a\<close>; \<open>None\<close>
  is a loop that never ends.
\<close>

type_synonym ('s, 'a) comp = "'s \<Rightarrow> ((int + 'a) \<times> 's) option"

definition give :: "'a \<Rightarrow> ('s, 'a) comp" where
  "give a s = Some (Inr a, s)"

definition exit_with :: "int \<Rightarrow> ('s, 'a) comp" where
  "exit_with code s = Some (Inl code, s)"

definition seq :: "('s, 'a) comp \<Rightarrow> ('a \<Rightarrow> ('s, 'b) comp) \<Rightarrow> ('s, 'b) comp" where
  "seq m f s = (case m s of
     None \<Rightarrow> None
   | Some (Inl code, t) \<Rightarrow> Some (Inl code, t)
   | Some (Inr a, t) \<Rightarrow> f a t)"

text \<open>An update of the state.\<close>

definition change :: "('s \<Rightarrow> 's) \<Rightarrow> ('s, unit) comp" where
  "change f s = Some (Inr (), f s)"

text \<open>\<open>die\<close> and \<open>die_msg\<close>; the text goes to standard error.\<close>

definition die :: "('s, 'a) comp" where
  "die = exit_with 1"

definition die_msg :: "('s, 'a) comp" where
  "die_msg = exit_with 2"

text \<open>A look at the state.\<close>

definition gets :: "('s \<Rightarrow> 'a) \<Rightarrow> ('s, 'a) comp" where
  "gets f s = Some (Inr (f s), s)"

definition die_unless :: "bool \<Rightarrow> ('s, unit) comp" where
  "die_unless b = (if b then give () else die)"

definition msg_unless :: "bool \<Rightarrow> ('s, unit) comp" where
  "msg_unless b = (if b then give () else die_msg)"

text \<open>A function that only computes, or ends the process.\<close>

definition from_sum :: "int + 'a \<Rightarrow> ('s, 'a) comp" where
  "from_sum x = (case x of Inl code \<Rightarrow> exit_with code | Inr a \<Rightarrow> give a)"

text \<open>A counted loop over an accumulator, and one without.\<close>

fun loop :: "('i \<Rightarrow> 'a \<Rightarrow> ('s, 'a) comp) \<Rightarrow> 'i list \<Rightarrow> 'a \<Rightarrow> ('s, 'a) comp" where
  "loop f [] a = give a"
| "loop f (i # is) a = seq (f i a) (loop f is)"

definition each :: "('i \<Rightarrow> ('s, unit) comp) \<Rightarrow> 'i list \<Rightarrow> ('s, unit) comp" where
  "each f is = loop (\<lambda>i u. f i) is ()"

text \<open>\<open>for (..) if (f(i) != 0) return -1;\<close> and a return of 0 behind it.\<close>

fun until_fail :: "('i \<Rightarrow> ('s, int) comp) \<Rightarrow> 'i list \<Rightarrow> ('s, int) comp" where
  "until_fail f [] = give 0"
| "until_fail f (i # is) = seq (f i) (\<lambda>rc. if rc \<noteq> 0 then give (-1) else until_fail f is)"

section \<open>Weakest preconditions\<close>

text \<open>\<open>post m E Q s\<close>: where \<open>m\<close> comes back, \<open>E\<close> holds of an exit and \<open>Q\<close> of a return.\<close>

definition post :: "('s, 'a) comp \<Rightarrow> (int \<Rightarrow> 's \<Rightarrow> bool) \<Rightarrow> ('a \<Rightarrow> 's \<Rightarrow> bool) \<Rightarrow> 's \<Rightarrow> bool" where
  "post m E Q s = wp (m s) (\<lambda>r t. case r of Inl code \<Rightarrow> E code t | Inr a \<Rightarrow> Q a t)"

named_theorems post_simps \<open>equations that push a postcondition through a translated body\<close>

lemma post_give [post_simps]: "post (give a) E Q s = Q a s"
  by (simp add: post_def give_def)

lemma post_exit [post_simps]: "post (exit_with c) E Q s = E c s"
  by (simp add: post_def exit_with_def)

lemma post_seq [post_simps]: "post (seq m f) E Q s = post m E (\<lambda>a. post (f a) E Q) s"
  by (auto simp: post_def seq_def wp_def split: option.split sum.split prod.split)

lemma post_change [post_simps]: "post (change f) E Q s = Q () (f s)"
  by (simp add: post_def change_def)

lemma post_gets [post_simps]: "post (gets f) E Q s = Q (f s) s"
  by (simp add: post_def gets_def)

lemma post_die [post_simps]: "post die E Q s = E 1 s" "post die_msg E Q s = E 2 s"
  by (simp_all add: die_def die_msg_def post_simps)

lemma post_unless [post_simps]:
  "post (die_unless b) E Q s = (if b then Q () s else E 1 s)"
  "post (msg_unless b) E Q s = (if b then Q () s else E 2 s)"
  by (simp_all add: die_unless_def msg_unless_def post_simps)

lemma post_from_sum [post_simps]:
  "post (from_sum x) E Q s = (case x of Inl code \<Rightarrow> E code s | Inr a \<Rightarrow> Q a s)"
  by (cases x) (simp_all add: from_sum_def post_simps)

lemma post_if [post_simps]: "post (if b then m else m') E Q s = (if b then post m E Q s else post m' E Q s)"
  by simp

lemma post_ifI:
  "(b \<Longrightarrow> post m E Q s) \<Longrightarrow> (\<not> b \<Longrightarrow> post m' E Q s) \<Longrightarrow> post (if b then m else m') E Q s"
  by simp

lemma post_case_prod:
  "post (case p of (x, y) \<Rightarrow> f x y) E Q s = (case p of (x, y) \<Rightarrow> post (f x y) E Q s)"
  by (cases p) simp

lemma post_Let: "post (Let x f) E Q s = post (f x) E Q s"
  by (simp add: Let_def)

text \<open>What a weakest precondition says of a run that comes back.\<close>

lemma post_of_run: "post m E Q s \<Longrightarrow> m s = Some (Inr a, t) \<Longrightarrow> Q a t"
  by (simp add: post_def wp_def)

lemma post_mono:
  "post m E Q s \<Longrightarrow> (\<And>c t. E c t \<Longrightarrow> E' c t) \<Longrightarrow> (\<And>a t. Q a t \<Longrightarrow> Q' a t) \<Longrightarrow> post m E' Q' s"
  unfolding post_def by (erule wp_mono) (auto split: sum.splits)

lemma post_conj: "post m E Q s \<Longrightarrow> post m E' Q' s \<Longrightarrow> post m (\<lambda>c t. E c t \<and> E' c t) (\<lambda>a t. Q a t \<and> Q' a t) s"
  unfolding post_def by (drule (1) wp_conj) (erule wp_mono, auto split: sum.splits)

lemma post_seqI:
  "post m E P s \<Longrightarrow> (\<And>a t. P a t \<Longrightarrow> post (f a) E Q t) \<Longrightarrow> post (seq m f) E Q s"
  unfolding post_seq by (erule post_mono) auto

text \<open>The rule for loops over a range: \<open>P i a s\<close> holds before the iteration of \<open>i\<close>.\<close>

lemma post_loop:
  assumes body: "\<And>i a s. m \<le> i \<Longrightarrow> i < n \<Longrightarrow> P i a s \<Longrightarrow> post (f i a) E (P (Suc i)) s"
    and start: "P m a s" "m \<le> n"
  shows "post (loop f [m..<n] a) E (P n) s"
  using start body
proof (induction "n - m" arbitrary: m a s)
  case 0
  then show ?case by (simp add: post_simps)
next
  case (Suc k)
  then have mn: "m < n" by simp
  have "post (seq (f m a) (loop f [Suc m..<n])) E (P n) s"
  proof (rule post_seqI)
    show "post (f m a) E (P (Suc m)) s" using Suc.prems mn by blast
    show "post (loop f [Suc m..<n] b) E (P n) t" if "P (Suc m) b t" for b t
      using Suc that mn by auto
  qed
  with mn show ?case by (simp add: upt_conv_Cons)
qed

lemma post_each:
  assumes "\<And>i s. m \<le> i \<Longrightarrow> i < n \<Longrightarrow> P i s \<Longrightarrow> post (f i) E (\<lambda>u. P (Suc i)) s" and "P m s" "m \<le> n"
  shows "post (each f [m..<n]) E (\<lambda>u. P n) s"
  unfolding each_def using assms by (intro post_loop [where P = "\<lambda>i u. P i"]) auto

text \<open>\<open>F\<close> is what a failing iteration leaves behind.\<close>

lemma post_until:
  assumes body: "\<And>i s. m \<le> i \<Longrightarrow> i < n \<Longrightarrow> P i s \<Longrightarrow>
      post (f i) E (\<lambda>rc t. if rc = 0 then P (Suc i) t else F t) s"
    and start: "P m s" "m \<le> n"
  shows "post (until_fail f [m..<n]) E (\<lambda>rc t. if rc = 0 then P n t else F t) s"
  using start body
proof (induction "n - m" arbitrary: m s)
  case 0
  then show ?case by (simp add: post_simps)
next
  case (Suc k)
  then have mn: "m < n" by simp
  have "post (seq (f m) (\<lambda>rc. if rc \<noteq> 0 then give (-1) else until_fail f [Suc m..<n])) E
      (\<lambda>rc t. if rc = 0 then P n t else F t) s"
  proof (rule post_seqI)
    show "post (f m) E (\<lambda>rc t. if rc = 0 then P (Suc m) t else F t) s" using Suc.prems mn by blast
    show "post (if rc \<noteq> 0 then give (-1) else until_fail f [Suc m..<n]) E
        (\<lambda>rc t. if rc = 0 then P n t else F t) t"
      if "if rc = 0 then P (Suc m) t else F t" for rc :: int and t
      using Suc that mn by (auto simp: post_simps)
  qed
  with mn show ?case by (simp add: upt_conv_Cons)
qed

text \<open>Computations that always come back.\<close>

definition comes_back :: "('s, 'a) comp \<Rightarrow> bool" where
  "comes_back m \<longleftrightarrow> (\<forall>s. m s \<noteq> None)"

named_theorems back_intro \<open>introduction rules for computations that come back\<close>

lemma back_prims [back_intro]:
  "comes_back (give a)" "comes_back (exit_with c)" "comes_back (change g)"
  "comes_back die" "comes_back die_msg" "comes_back (die_unless b)" "comes_back (msg_unless b)"
  "comes_back (from_sum x)" "comes_back (gets h)"
  by (auto simp: from_sum_def split: sum.split) (auto simp: comes_back_def give_def exit_with_def change_def die_def die_msg_def
      die_unless_def msg_unless_def gets_def)

lemma back_seq [back_intro]: "comes_back m \<Longrightarrow> (\<And>a. comes_back (f a)) \<Longrightarrow> comes_back (seq m f)"
  by (auto simp: comes_back_def seq_def split: option.split sum.split)

lemma back_if [back_intro]: "(b \<Longrightarrow> comes_back m) \<Longrightarrow> (\<not> b \<Longrightarrow> comes_back m') \<Longrightarrow> comes_back (if b then m else m')"
  by simp

lemma back_loop [back_intro]: "(\<And>i a. comes_back (f i a)) \<Longrightarrow> comes_back (loop f is a)"
  by (induction "is" arbitrary: a) (auto intro!: back_intro)

lemma back_each [back_intro]: "(\<And>i. comes_back (f i)) \<Longrightarrow> comes_back (each f is)"
  by (auto simp: each_def intro!: back_intro)

lemma back_until [back_intro]: "(\<And>i. comes_back (f i)) \<Longrightarrow> comes_back (until_fail f is)"
  by (induction "is") (auto intro!: back_intro)

lemma back_split [back_intro]: "(\<And>x y. comes_back (f x y)) \<Longrightarrow> comes_back (case p of (x, y) \<Rightarrow> f x y)"
  by (cases p) simp

lemma back_option [back_intro]:
  "comes_back m \<Longrightarrow> (\<And>x. comes_back (f x)) \<Longrightarrow> comes_back (case v of None \<Rightarrow> m | Some x \<Rightarrow> f x)"
  by (cases v) simp_all

lemma back_Let [back_intro]: "(\<And>x. x = e \<Longrightarrow> comes_back (f x)) \<Longrightarrow> comes_back (Let e f)"
  by simp

text \<open>What a computation can return; only its last step matters.\<close>

definition returns_in :: "'a set \<Rightarrow> ('s, 'a) comp \<Rightarrow> bool" where
  "returns_in A m \<longleftrightarrow> (\<forall>s a t. m s = Some (Inr a, t) \<longrightarrow> a \<in> A)"

lemma returns_in_give: "a \<in> A \<Longrightarrow> returns_in A (give a)"
  by (simp add: returns_in_def give_def)

lemma returns_in_seq: "(\<And>a. returns_in A (f a)) \<Longrightarrow> returns_in A (seq m f)"
  by (auto simp: returns_in_def seq_def split: option.splits sum.splits)

lemma returns_in_bind:
  "returns_in A m \<Longrightarrow> (\<And>a. a \<in> A \<Longrightarrow> returns_in B (f a)) \<Longrightarrow> returns_in B (seq m f)"
  by (fastforce simp: returns_in_def seq_def split: option.splits sum.splits)

lemma returns_in_if: "returns_in A m \<Longrightarrow> returns_in A m' \<Longrightarrow> returns_in A (if b then m else m')"
  by simp

lemma returns_in_option:
  "returns_in A m \<Longrightarrow> (\<And>x. returns_in A (h x)) \<Longrightarrow> returns_in A (case r of None \<Rightarrow> m | Some x \<Rightarrow> h x)"
  by (cases r) simp_all

lemma returns_in_pair: "(\<And>x y. returns_in A (f x y)) \<Longrightarrow> returns_in A (case p of (x, y) \<Rightarrow> f x y)"
  by (cases p) simp

text \<open>The exit codes of a computation.\<close>

definition exits_in :: "int set \<Rightarrow> ('s, 'a) comp \<Rightarrow> bool" where
  "exits_in A m \<longleftrightarrow> (\<forall>s c t. m s = Some (Inl c, t) \<longrightarrow> c \<in> A)"

named_theorems exits_intro \<open>introduction rules for exit codes\<close>

lemma exits_prims [exits_intro]: "exits_in A (give a)" "exits_in A (gets h)" "exits_in A (change f)"
  by (simp_all add: exits_in_def give_def gets_def change_def)

lemma exits_exit: "c \<in> A \<Longrightarrow> exits_in A (exit_with c)"
  by (simp add: exits_in_def exit_with_def)

lemma exits_seq [exits_intro]: "exits_in A m \<Longrightarrow> (\<And>a. exits_in A (f a)) \<Longrightarrow> exits_in A (seq m f)"
  by (auto simp: exits_in_def seq_def split: option.splits sum.splits)

lemma exits_if [exits_intro]: "exits_in A m \<Longrightarrow> exits_in A m' \<Longrightarrow> exits_in A (if b then m else m')"
  by simp

lemma exits_option [exits_intro]:
  "exits_in A m \<Longrightarrow> (\<And>x. exits_in A (f x)) \<Longrightarrow> exits_in A (case v of None \<Rightarrow> m | Some x \<Rightarrow> f x)"
  by (cases v) simp_all

lemma exits_split [exits_intro]: "(\<And>x y. exits_in A (f x y)) \<Longrightarrow> exits_in A (case p of (x, y) \<Rightarrow> f x y)"
  by (cases p) simp

lemma exits_Let [exits_intro]: "(\<And>x. exits_in A (f x)) \<Longrightarrow> exits_in A (Let e f)"
  by simp

lemma exits_loop [exits_intro]: "(\<And>i a. exits_in A (f i a)) \<Longrightarrow> exits_in A (loop f is a)"
  by (induction "is" arbitrary: a) (auto intro!: exits_intro)

lemma exits_each [exits_intro]: "(\<And>i. exits_in A (f i)) \<Longrightarrow> exits_in A (each f is)"
  by (auto simp: each_def intro!: exits_intro)

lemma exits_until [exits_intro]: "(\<And>i. exits_in A (f i)) \<Longrightarrow> exits_in A (until_fail f is)"
  by (induction "is") (auto intro!: exits_intro)

section \<open>Relations that are kept\<close>

text \<open>Every return leaves a state that is related to the one before.\<close>

definition stays :: "('s \<Rightarrow> 's \<Rightarrow> bool) \<Rightarrow> ('s, 'a) comp \<Rightarrow> bool" where
  "stays R m \<longleftrightarrow> (\<forall>s. post m (\<lambda>_ _. True) (\<lambda>_. R s) s)"

lemma staysD: "stays R m \<Longrightarrow> (\<And>c t. E c t) \<Longrightarrow> post m E (\<lambda>_. R s) s"
  unfolding stays_def by (erule allE, erule post_mono) auto

named_theorems stays_intro \<open>introduction rules for relations that are kept\<close>

locale frame =
  fixes R :: "'s \<Rightarrow> 's \<Rightarrow> bool"
  assumes refl: "R s s" and trans: "R s t \<Longrightarrow> R t u \<Longrightarrow> R s u"
begin

lemma stays_prims [stays_intro]:
  "stays R (give a)" "stays R (gets h)" "stays R (exit_with c)"
  by (auto simp: stays_def post_simps refl)

lemma stays_change: "(\<And>s. R s (f s)) \<Longrightarrow> stays R (change f)"
  by (auto simp: stays_def post_simps)

lemma stays_seq [stays_intro]:
  assumes "stays R m" "\<And>a. stays R (f a)"
  shows "stays R (seq m f)"
  unfolding stays_def
proof
  fix s
  show "post (seq m f) (\<lambda>_ _. True) (\<lambda>_. R s) s"
    by (rule post_seqI [OF staysD [OF assms(1)]], simp)
      (rule post_mono [OF staysD [OF assms(2)]], auto intro: trans)
qed

lemma stays_if [stays_intro]: "stays R m \<Longrightarrow> stays R m' \<Longrightarrow> stays R (if b then m else m')"
  by simp

lemma stays_option [stays_intro]:
  "stays R m \<Longrightarrow> (\<And>x. stays R (f x)) \<Longrightarrow> stays R (case v of None \<Rightarrow> m | Some x \<Rightarrow> f x)"
  by (cases v) simp_all

lemma stays_split [stays_intro]: "(\<And>x y. stays R (f x y)) \<Longrightarrow> stays R (case p of (x, y) \<Rightarrow> f x y)"
  by (cases p) simp

lemma stays_Let [stays_intro]: "(\<And>x. stays R (f x)) \<Longrightarrow> stays R (Let e f)"
  by simp

lemma stays_loop [stays_intro]: "(\<And>i a. stays R (f i a)) \<Longrightarrow> stays R (loop f is a)"
  by (induction "is" arbitrary: a) (auto intro!: stays_intro)

lemma stays_each [stays_intro]: "(\<And>i. stays R (f i)) \<Longrightarrow> stays R (each f is)"
  by (auto simp: each_def intro!: stays_intro)

lemma stays_until [stays_intro]: "(\<And>i. stays R (f i)) \<Longrightarrow> stays R (until_fail f is)"
  by (induction "is") (auto intro!: stays_intro)

end

end
