(* ===== verification/Inotify_Base.thy ===== *)
theory Inotify_Base
  imports Exit_Monad
begin

text \<open>
  fsnotify_connector_topology.c: constants and types of the program, the system it runs on,
  and computations that may end the process.

  As for the round programs, the kernel is a parameter: \<open>'k\<close> is its state and \<open>'k ino_os\<close> has
  one function per call the program makes. \<open>calls\<close> records the calls the properties are about and
  their results in the order in which the kernel executed them, those of all threads together.
\<close>

section \<open>Constants\<close>

definition MAX_WORKERS :: u32 where "MAX_WORKERS = 64"
definition MAX_ITEMS :: u64 where "MAX_ITEMS = 1000000"
definition EVENT_BUFFER_SIZE :: nat where "EVENT_BUFFER_SIZE = 64 * 1024"

text \<open>From the system headers.\<close>

definition PATH_MAX :: nat where "PATH_MAX = 4096"
definition CPU_SETSIZE :: u64 where "CPU_SETSIZE = 1024"
definition EINTR :: int where "EINTR = 4"
definition EAGAIN :: int where "EAGAIN = 11"
definition EINVAL :: int where "EINVAL = 22"
definition IN_MODIFY :: u32 where "IN_MODIFY = 2"
definition IN_ATTRIB :: u32 where "IN_ATTRIB = 4"
definition IN_MOVED_FROM :: u32 where "IN_MOVED_FROM = 0x40"
definition IN_MOVED_TO :: u32 where "IN_MOVED_TO = 0x80"
definition IN_CREATE :: u32 where "IN_CREATE = 0x100"
definition IN_DELETE :: u32 where "IN_DELETE = 0x200"
definition IN_Q_OVERFLOW :: u32 where "IN_Q_OVERFLOW = 0x4000"
definition IN_IGNORED :: u32 where "IN_IGNORED = 0x8000"

section \<open>Types\<close>

datatype scenario =
    SCENARIO_TOPOLOGY
  | SCENARIO_BULK
  | SCENARIO_MASK_UPDATE
  | SCENARIO_PATH_LOOKUP

datatype topology =
    TOPO_DISTINCT
  | TOPO_SHARED

record config =
  test_dir :: string
  cfg_scenario :: scenario
  scenario_name :: string
  cfg_topology :: topology
  topology_name :: string
  workers :: u32
  items :: u64
  keep_files :: bool
  have_cpu_list :: bool
  cpus :: "int list"

record event_counts =
  ev_ignored :: u64
  ev_overflow :: u64
  ev_unexpected :: u64

definition zero_counts :: event_counts where
  "zero_counts = \<lparr>ev_ignored = 0, ev_overflow = 0, ev_unexpected = 0\<rparr>"

record worker_result =
  add_elapsed_ns :: u64
  remove_elapsed_ns :: u64
  add_success :: u64
  remove_success :: u64
  wr_unexpected :: u64
  affinity_ok :: bool

definition zero_result :: worker_result where
  "zero_result = \<lparr>add_elapsed_ns = 0, remove_elapsed_ns = 0, add_success = 0, remove_success = 0,
     wr_unexpected = 0, affinity_ok = False\<rparr>"

record inode_key =
  key_dev :: u64
  key_ino :: u64

text \<open>What the program reads of \<open>struct stat\<close>.\<close>

record file_stat =
  st_dev :: u64
  st_ino :: u64
  st_is_dir :: bool

section \<open>The system\<close>

datatype ino_call =
    ADD_WATCH int string u32 int
  | RM_WATCH int int bool
  | DRAINED int event_counts
  | OPEN_PATH string int
  | MADE_TEMP string string
  | REMOVED string bool

text \<open>
  A call that only succeeds or fails returns a boolean, one that returns a descriptor or a watch
  an integer that is negative on failure. \<open>io_clock True\<close> reads \<open>CLOCK_MONOTONIC_RAW\<close> and
  \<open>io_clock False\<close> reads \<open>CLOCK_MONOTONIC\<close>; their failure and that of \<open>io_read\<close> is an \<open>errno\<close>.
  \<open>io_walk\<close> is the order in which \<open>nftw\<close> visits a tree, and \<open>io_ratio3 a b\<close> the text
  of \<open>(double)a / b\<close> with three decimals.
\<close>

record 'k ino_os =
  io_alloc :: "'k \<Rightarrow> bool \<times> 'k"
  io_clock :: "bool \<Rightarrow> 'k \<Rightarrow> (int + u64 \<times> u64) \<times> 'k"
  io_read_file :: "string \<Rightarrow> 'k \<Rightarrow> string option \<times> 'k"
  io_fclose :: "'k \<Rightarrow> bool \<times> 'k"
  io_stat :: "string \<Rightarrow> 'k \<Rightarrow> file_stat option \<times> 'k"
  io_statfs :: "string \<Rightarrow> 'k \<Rightarrow> u64 option \<times> 'k"
  io_mkdtemp :: "string \<Rightarrow> 'k \<Rightarrow> string option \<times> 'k"
  io_mkdir :: "string \<Rightarrow> 'k \<Rightarrow> bool \<times> 'k"
  io_create :: "string \<Rightarrow> 'k \<Rightarrow> int \<times> 'k"
  io_open_path :: "string \<Rightarrow> 'k \<Rightarrow> int \<times> 'k"
  io_close :: "int \<Rightarrow> 'k \<Rightarrow> bool \<times> 'k"
  io_link :: "string \<Rightarrow> string \<Rightarrow> 'k \<Rightarrow> bool \<times> 'k"
  io_walk :: "string \<Rightarrow> 'k \<Rightarrow> string list \<times> 'k"
  io_remove :: "string \<Rightarrow> 'k \<Rightarrow> bool \<times> 'k"
  io_inotify_init :: "'k \<Rightarrow> int \<times> 'k"
  io_add_watch :: "int \<Rightarrow> string \<Rightarrow> u32 \<Rightarrow> 'k \<Rightarrow> int \<times> 'k"
  io_rm_watch :: "int \<Rightarrow> int \<Rightarrow> 'k \<Rightarrow> bool \<times> 'k"
  io_read :: "int \<Rightarrow> nat \<Rightarrow> 'k \<Rightarrow> (int + u8 list) \<times> 'k"
  io_setaffinity :: "int \<Rightarrow> 'k \<Rightarrow> bool \<times> 'k"
  io_atexit :: "'k \<Rightarrow> bool \<times> 'k"
  io_barrier_init :: "'k \<Rightarrow> bool \<times> 'k"
  io_thread_create :: "'k \<Rightarrow> bool \<times> 'k"
  io_thread_join :: "'k \<Rightarrow> bool \<times> 'k"
  io_ratio3 :: "u64 \<Rightarrow> u64 \<Rightarrow> string"

text \<open>
  \<open>at_exit\<close> tells whether \<open>cleanup_fixture\<close> has been registered, \<open>stdout_text\<close> is what has been
  printed, and \<open>held\<close> the descriptors the process holds.
\<close>

record 'k proc =
  kst :: 'k
  cleanup_root :: string
  cleanup_enabled :: bool
  at_exit :: bool
  stdout_text :: string
  held :: "int list"
  calls :: "ino_call list"

section \<open>Computations of the program\<close>

type_synonym ('k, 'a) prog = "('k proc, 'a) comp"

definition invoke :: "('k \<Rightarrow> 'a \<times> 'k) \<Rightarrow> ('k, 'a) prog" where
  "invoke f s = (let (a, x) = f (kst s) in Some (Inr a, s\<lparr>kst := x\<rparr>))"

definition xcalloc :: "'k ino_os \<Rightarrow> ('k, unit) prog" where
  "xcalloc os = seq (invoke (io_alloc os)) die_unless"

text \<open>\<open>xasprintf("%s/f-%08lu", a, value)\<close>, with the middle of the format as an argument.\<close>

definition zero_pad8 :: "string \<Rightarrow> string" where
  "zero_pad8 txt = replicate (8 - length txt) (CHR ''0'') @ txt"

definition xasprintf :: "'k ino_os \<Rightarrow> string \<Rightarrow> string \<Rightarrow> nat \<Rightarrow> ('k, string) prog" where
  "xasprintf os a middle v =
     seq (invoke (io_alloc os)) (\<lambda>ok. seq (die_unless ok) (\<lambda>_.
     give (a @ middle @ zero_pad8 (dec v))))"

definition now_ns :: "'k ino_os \<Rightarrow> ('k, u64) prog" where
  "now_ns os =
     seq (invoke (io_clock os True)) (\<lambda>r. case r of
       Inr (sec, nsec) \<Rightarrow> give (sec * 1000000000 + nsec)
     | Inl e \<Rightarrow>
         if e \<noteq> EINVAL then die
         else seq (invoke (io_clock os False)) (\<lambda>r. case r of
                Inr (sec, nsec) \<Rightarrow> give (sec * 1000000000 + nsec)
              | Inl e \<Rightarrow> die))"

definition printf :: "string \<Rightarrow> ('k, unit) prog" where
  "printf txt = change (\<lambda>s. s\<lparr>stdout_text := stdout_text s @ txt\<rparr>)"

definition log_call :: "ino_call \<Rightarrow> ('k, unit) prog" where
  "log_call c = change (\<lambda>s. s\<lparr>calls := calls s @ [c]\<rparr>)"

text \<open>A descriptor that a successful call returns is held until it is closed.\<close>

definition hold :: "int \<Rightarrow> ('k, unit) prog" where
  "hold fd = change (\<lambda>s. if 0 \<le> fd then s\<lparr>held := fd # held s\<rparr> else s)"

definition close_fd :: "'k ino_os \<Rightarrow> int \<Rightarrow> ('k, bool) prog" where
  "close_fd os fd =
     seq (invoke (io_close os fd)) (\<lambda>ok.
     seq (change (\<lambda>s. s\<lparr>held := remove1 fd (held s)\<rparr>)) (\<lambda>_. give ok))"

definition inotify_init1 :: "'k ino_os \<Rightarrow> ('k, int) prog" where
  "inotify_init1 os = seq (invoke (io_inotify_init os)) (\<lambda>fd. seq (hold fd) (\<lambda>_. give fd))"

definition inotify_add_watch :: "'k ino_os \<Rightarrow> int \<Rightarrow> string \<Rightarrow> u32 \<Rightarrow> ('k, int) prog" where
  "inotify_add_watch os fd path msk =
     seq (invoke (io_add_watch os fd path msk)) (\<lambda>wd.
     seq (log_call (ADD_WATCH fd path msk wd)) (\<lambda>_. give wd))"

definition inotify_rm_watch :: "'k ino_os \<Rightarrow> int \<Rightarrow> int \<Rightarrow> ('k, bool) prog" where
  "inotify_rm_watch os fd wd =
     seq (invoke (io_rm_watch os fd wd)) (\<lambda>ok.
     seq (log_call (RM_WATCH fd wd ok)) (\<lambda>_. give ok))"

definition pin_current_thread :: "'k ino_os \<Rightarrow> int \<Rightarrow> ('k, bool) prog" where
  "pin_current_thread os cpu = invoke (io_setaffinity os cpu)"

lemma post_invoke [post_simps]: "post (invoke f) E Q s = (let (a, x) = f (kst s) in Q a (s\<lparr>kst := x\<rparr>))"
  by (simp add: post_def invoke_def split_beta Let_def)

lemma back_invoke [back_intro]: "comes_back (invoke f)"
  by (simp add: comes_back_def invoke_def split_beta Let_def)

end
