(* ===== verification/Inotify_Config.thy ===== *)
theory Inotify_Config
  imports Inotify_Base C_Library
begin

text \<open>
  The configuration, which is read from the environment: \<open>parse_ulong\<close>, \<open>env_bool\<close>,
  the parsers of the enumerations and of the list of processors, and \<open>load_config\<close>. The environment is a function \<open>env\<close> from names to values.
\<close>

section \<open>Numbers in text\<close>

text \<open>\<open>fscanf(stream, "%lu", &value)\<close> on the contents of the file.\<close>

definition scan_lu :: "string \<Rightarrow> u64 option" where
  "scan_lu txt =
     (let c = strtoul 10 txt in if conv_any c then Some (conv_value c) else None)"

section \<open>Values of the environment\<close>

text \<open>The test \<open>!value || !*value\<close>.\<close>

definition absent :: "string option \<Rightarrow> bool" where
  "absent v \<longleftrightarrow> v = None \<or> v = Some []"

definition parse_ulong :: "string option \<Rightarrow> u64 \<Rightarrow> int + u64" where
  "parse_ulong v fallback =
     (if absent v then Inr fallback
      else
        (let c = strtoul 0 (the v)
         in if conv_range c \<or> conv_rest c \<noteq> [] \<or> conv_value c = 0 then Inl 2
            else Inr (conv_value c)))"

definition lower :: "char \<Rightarrow> char" where
  "lower c = (if 65 \<le> (of_char c :: nat) \<and> (of_char c :: nat) \<le> 90 then char_of ((of_char c :: nat) + 32) else c)"

definition same_ignoring_case :: "string \<Rightarrow> string \<Rightarrow> bool" where
  "same_ignoring_case a b \<longleftrightarrow> map lower a = map lower b"

definition env_bool :: "string option \<Rightarrow> bool \<Rightarrow> int + bool" where
  "env_bool v fallback =
     (if absent v then Inr fallback
      else if the v = ''1'' \<or> same_ignoring_case (the v) ''true'' \<or> same_ignoring_case (the v) ''yes''
      then Inr True
      else if the v = ''0'' \<or> same_ignoring_case (the v) ''false'' \<or> same_ignoring_case (the v) ''no''
      then Inr False
      else Inl 2)"

definition parse_scenario :: "string option \<Rightarrow> int + scenario \<times> string" where
  "parse_scenario v =
     (if absent v \<or> v = Some ''topology'' then Inr (SCENARIO_TOPOLOGY, ''connector_topology'')
      else if v = Some ''bulk'' then Inr (SCENARIO_BULK, ''bulk_directory_watch'')
      else if v = Some ''mask-update'' then Inr (SCENARIO_MASK_UPDATE, ''existing_mask_update'')
      else if v = Some ''path-lookup'' then Inr (SCENARIO_PATH_LOOKUP, ''path_lookup_control'')
      else Inl 2)"

definition parse_topology :: "string option \<Rightarrow> int + topology \<times> string" where
  "parse_topology v =
     (if absent v \<or> v = Some ''distinct'' then Inr (TOPO_DISTINCT, ''distinct'')
      else if v = Some ''shared'' then Inr (TOPO_SHARED, ''shared'')
      else Inl 2)"

section \<open>The list of processors\<close>

text \<open>The tokens that \<open>strtok_r\<close> finds: the longest stretches without a comma.\<close>

fun split_commas :: "string \<Rightarrow> string list" where
  "split_commas [] = [[]]"
| "split_commas (c # cs) =
     (if c = CHR '','' then [] # split_commas cs
      else (c # hd (split_commas cs)) # tl (split_commas cs))"

definition tokens :: "string \<Rightarrow> string list" where
  "tokens txt = filter (\<lambda>t. t \<noteq> []) (split_commas txt)"

fun cpu_items :: "u32 \<Rightarrow> string list \<Rightarrow> int list \<Rightarrow> int + int list" where
  "cpu_items wanted [] found = Inr found"
| "cpu_items wanted (token # rest) found =
     (if length found \<ge> unat wanted then Inl 2
      else
        (let c = strtoul 0 token
         in if conv_range c \<or> conv_rest c \<noteq> [] \<or> conv_value c \<ge> CPU_SETSIZE then Inl 2
            else cpu_items wanted rest (found @ [uint (conv_value c)])))"

definition parse_cpu_list :: "'k ino_os \<Rightarrow> string option \<Rightarrow> config \<Rightarrow> ('k, config) prog" where
  "parse_cpu_list os v cfg =
     (if absent v then give cfg
      else
        seq (xcalloc os) (\<lambda>_.
        seq (from_sum (cpu_items (workers cfg) (tokens (the v)) [])) (\<lambda>found.
        seq (msg_unless (length found = unat (workers cfg))) (\<lambda>_.
        give (cfg\<lparr>cpus := found, have_cpu_list := True\<rparr>)))))"

section \<open>load_config\<close>

definition range_checks :: "config \<Rightarrow> bool" where
  "range_checks cfg \<longleftrightarrow>
     \<not> (workers cfg = 0 \<or> workers cfg > MAX_WORKERS) \<and>
     \<not> (items cfg = 0 \<or> items cfg > MAX_ITEMS) \<and>
     \<not> (cfg_scenario cfg \<noteq> SCENARIO_TOPOLOGY \<and> workers cfg \<noteq> 1) \<and>
     \<not> (cfg_scenario cfg = SCENARIO_TOPOLOGY \<and> ucast (workers cfg) > items cfg)"

definition load_config :: "'k ino_os \<Rightarrow> (string \<Rightarrow> string option) \<Rightarrow> ('k, config) prog" where
  "load_config os env =
     (let dir = env ''TEST_DIR''
      in seq (msg_unless (dir \<noteq> None \<and> take 1 (the dir) = ''/'')) (\<lambda>_.
         seq (from_sum (parse_scenario (env ''SCENARIO''))) (\<lambda>(sc, sc_name).
         seq (from_sum (parse_topology (env ''TOPOLOGY''))) (\<lambda>(topo, topo_name).
         seq (from_sum (parse_ulong (env ''WORKERS'') 1)) (\<lambda>nworkers.
         seq (from_sum (parse_ulong (env ''ITEMS'') (if sc = SCENARIO_TOPOLOGY then 32 else 1024))) (\<lambda>nitems.
         seq (from_sum (env_bool (env ''KEEP_FILES'') False)) (\<lambda>keep.
         let cfg = \<lparr>test_dir = the dir, cfg_scenario = sc, scenario_name = sc_name,
               cfg_topology = topo, topology_name = topo_name, workers = ucast nworkers,
               items = nitems, keep_files = keep, have_cpu_list = False, cpus = []\<rparr>
         in seq (msg_unless (range_checks cfg)) (\<lambda>_. parse_cpu_list os (env ''CPU_LIST'') cfg))))))))"

section \<open>Printed numbers are read back\<close>

lemma parse_ulong_dec:
  assumes "0 < n" and "n < 2 ^ 64"
  shows "parse_ulong (Some (dec n)) fallback = Inr (of_nat n)"
proof -
  have "(of_nat n :: u64) \<noteq> 0" using assms by (simp add: word_of_nat_eq_0_iff nat_dvd_not_less)
  moreover have "dec n \<noteq> []" by (simp add: dec_as_digits)
  ultimately show ?thesis
    by (simp add: parse_ulong_def absent_def strtoul_dec [OF assms])
qed

section \<open>What a configuration satisfies\<close>

definition config_ok :: "config \<Rightarrow> bool" where
  "config_ok cfg \<longleftrightarrow>
     take 1 (test_dir cfg) = ''/'' \<and>
     1 \<le> unat (workers cfg) \<and> unat (workers cfg) \<le> 64 \<and>
     1 \<le> unat (items cfg) \<and> unat (items cfg) \<le> 1000000 \<and>
     (if cfg_scenario cfg = SCENARIO_TOPOLOGY then unat (workers cfg) \<le> unat (items cfg)
      else workers cfg = 1) \<and>
     (have_cpu_list cfg \<longrightarrow> length (cpus cfg) = unat (workers cfg)) \<and>
     (\<forall>c \<in> set (cpus cfg). 0 \<le> c \<and> c < 1024)"

lemma cpu_items_ok:
  "cpu_items wanted ts found = Inr cs \<Longrightarrow> \<forall>c \<in> set found. 0 \<le> c \<and> c < 1024 \<Longrightarrow>
     \<forall>c \<in> set cs. 0 \<le> c \<and> c < 1024"
proof (induction wanted ts found rule: cpu_items.induct)
  case (2 wanted token rest found)
  let ?v = "conv_value (strtoul 0 token)"
  from 2 have ok: "\<not> length found \<ge> unat wanted" "\<not> (conv_range (strtoul 0 token) \<or>
      conv_rest (strtoul 0 token) \<noteq> [] \<or> ?v \<ge> CPU_SETSIZE)"
    and rest: "cpu_items wanted rest (found @ [uint ?v]) = Inr cs"
    by (simp_all add: Let_def split: if_splits)
  from ok have "uint ?v < 1024" by (simp add: CPU_SETSIZE_def word_less_def not_le)
  with 2 ok rest show ?case by simp
qed simp

lemma range_checks_ok:
  assumes "range_checks cfg" and "take 1 (test_dir cfg) = ''/''" and "cpus cfg = []" "\<not> have_cpu_list cfg"
  shows "config_ok cfg"
proof -
  have "0 < unat (workers cfg)" "0 < unat (items cfg)"
    using assms(1) by (simp_all add: range_checks_def unat_gt_0 del: unsigned_0)
  with assms show ?thesis
    by (auto simp: range_checks_def config_ok_def MAX_WORKERS_def MAX_ITEMS_def not_less word_le_nat_alt)
qed

lemma load_config_sound:
  "post (load_config os env) (\<lambda>c t. (c = 1 \<or> c = 2) \<and> (\<exists>x. t = s\<lparr>kst := x\<rparr>))
     (\<lambda>cfg t. config_ok cfg \<and> (\<exists>x. t = s\<lparr>kst := x\<rparr>)) s"
proof -
  have k: "\<exists>x. s = s\<lparr>kst := x\<rparr>" by (rule exI [of _ "kst s"]) simp
  have p: "post (parse_cpu_list os v cfg) (\<lambda>c t. (c = 1 \<or> c = 2) \<and> (\<exists>x. t = s\<lparr>kst := x\<rparr>))
     (\<lambda>cfg t. config_ok cfg \<and> (\<exists>x. t = s\<lparr>kst := x\<rparr>)) s" if "config_ok cfg" for v cfg
  proof -
    have "config_ok (cfg\<lparr>cpus := cs, have_cpu_list := True\<rparr>)"
      if "cpu_items (workers cfg) ts [] = Inr cs" "length cs = unat (workers cfg)" for ts cs
      using \<open>config_ok cfg\<close> cpu_items_ok [OF that(1)] that(2) by (simp add: config_ok_def)
    moreover have "c = 2" if "cpu_items w ts f = Inl c" for w ts f c
      using that by (induction w ts f rule: cpu_items.induct) (auto simp: Let_def split: if_splits)
    moreover have "\<exists>x. s\<lparr>kst := y\<rparr> = s\<lparr>kst := x\<rparr>" for y by blast
    ultimately show ?thesis
      using that k
      by (simp add: parse_cpu_list_def xcalloc_def post_simps split_beta Let_def split: sum.split)
  qed
  have two: "parse_scenario v = Inl c \<Longrightarrow> c = 2" "parse_topology v = Inl c \<Longrightarrow> c = 2"
    "parse_ulong v f = Inl c \<Longrightarrow> c = 2" "env_bool v b = Inl c \<Longrightarrow> c = 2" for v c f b
    by (auto simp: parse_scenario_def parse_topology_def parse_ulong_def env_bool_def Let_def
        split: if_splits)
  show ?thesis
    unfolding load_config_def Let_def post_simps
    by (auto simp: post_simps k split: sum.split dest: two intro!: p range_checks_ok)
qed

lemma load_config_back [back_intro]: "comes_back (load_config os env)"
  unfolding load_config_def Let_def parse_cpu_list_def xcalloc_def split_beta
  by (intro back_intro)

end
