(* ===== verification/Inotify_Shape.thy ===== *)
theory Inotify_Shape
  imports Inotify_Base
begin

text \<open>
  The checks that sort first: the inodes behind the paths of the fixture, and the watches of a
  group. The comparison functions meet the contract of a three-way comparison, from which it
  follows once that comparing neighbours after \<open>qsort\<close> decides whether all elements differ, or
  whether all are equal.
\<close>

section \<open>The comparison functions and qsort\<close>

definition inode_key_cmp :: "inode_key \<Rightarrow> inode_key \<Rightarrow> int" where
  "inode_key_cmp a b =
     (if key_dev a < key_dev b then -1
      else if key_dev a > key_dev b then 1
      else if key_ino a < key_ino b then -1
      else if key_ino a > key_ino b then 1
      else 0)"

definition int_cmp :: "int \<Rightarrow> int \<Rightarrow> int" where
  "int_cmp a b = of_bool (a > b) - of_bool (a < b)"

text \<open>
  \<open>qsort\<close> of the C library, which leaves the algorithm open; insertion is as good as any, since
  by \<open>qsort_unique\<close> below every sorting of the array gives the same.
\<close>

fun insert_by :: "('a \<Rightarrow> 'a \<Rightarrow> int) \<Rightarrow> 'a \<Rightarrow> 'a list \<Rightarrow> 'a list" where
  "insert_by cmp x [] = [x]"
| "insert_by cmp x (y # ys) = (if cmp x y \<le> 0 then x # y # ys else y # insert_by cmp x ys)"

definition qsort :: "('a \<Rightarrow> 'a \<Rightarrow> int) \<Rightarrow> 'a list \<Rightarrow> 'a list" where
  "qsort cmp xs = foldr (insert_by cmp) xs []"

lemma mset_insert_by [simp]: "mset (insert_by cmp x ys) = add_mset x (mset ys)"
  by (induction ys) auto

lemma mset_qsort [simp]: "mset (qsort cmp xs) = mset xs"
  by (induction xs) (auto simp: qsort_def)

lemma length_qsort [simp]: "length (qsort cmp xs) = length xs"
  using mset_eq_length [OF mset_qsort] .

lemma set_qsort [simp]: "set (qsort cmp xs) = set xs"
  using mset_eq_setD [OF mset_qsort] .

section \<open>The contract of a comparison function\<close>

locale three_way =
  fixes cmp :: "'a \<Rightarrow> 'a \<Rightarrow> int"
  assumes cmp_equal: "cmp a b = 0 \<longleftrightarrow> a = b"
    and cmp_flip: "cmp a b \<le> 0 \<longleftrightarrow> 0 \<le> cmp b a"
    and cmp_trans: "cmp a b \<le> 0 \<Longrightarrow> cmp b c \<le> 0 \<Longrightarrow> cmp a c \<le> 0"
begin

lemma cmp_antisym: "cmp a b \<le> 0 \<Longrightarrow> cmp b a \<le> 0 \<Longrightarrow> a = b"
  using cmp_flip [of a b] cmp_equal [of b a] by simp

lemma cmp_total: "\<not> cmp a b \<le> 0 \<Longrightarrow> cmp b a \<le> 0"
  using cmp_flip [of b a] by simp

lemma sorted_insert_by:
  "sorted_wrt (\<lambda>a b. cmp a b \<le> 0) ys \<Longrightarrow> sorted_wrt (\<lambda>a b. cmp a b \<le> 0) (insert_by cmp x ys)"
proof (induction ys)
  case (Cons y ys)
  have "set (insert_by cmp x ys) = insert x (set ys)"
    using mset_eq_setD [of "insert_by cmp x ys" "x # ys"] by simp
  with Cons show ?case
    by (auto intro: cmp_total cmp_trans [of x y])
qed simp

lemma qsort_sorted: "sorted_wrt (\<lambda>a b. cmp a b \<le> 0) (qsort cmp xs)"
  by (induction xs) (simp_all add: qsort_def sorted_insert_by)

lemma sorted_mset_unique:
  assumes "sorted_wrt (\<lambda>a b. cmp a b \<le> 0) xs" and "sorted_wrt (\<lambda>a b. cmp a b \<le> 0) ys"
    and "mset xs = mset ys"
  shows "xs = ys"
  using assms
proof (induction xs arbitrary: ys)
  case Nil
  then show ?case by simp
next
  case (Cons x xs)
  then obtain y ys' where ys: "ys = y # ys'" by (cases ys) auto
  have "x \<in> set ys" "y \<in> set (x # xs)"
    using mset_eq_setD [OF Cons.prems(3)] ys by auto
  then have "x = y"
    using Cons.prems(1,2) ys by (auto intro: cmp_antisym)
  with Cons ys show ?case by auto
qed

text \<open>Whatever \<open>qsort\<close> does, the result is this one.\<close>

lemma qsort_unique:
  "sorted_wrt (\<lambda>a b. cmp a b \<le> 0) ys \<Longrightarrow> mset ys = mset xs \<Longrightarrow> ys = qsort cmp xs"
  using sorted_mset_unique [OF _ qsort_sorted] by simp

lemma neighbours_distinct:
  "sorted_wrt (\<lambda>a b. cmp a b \<le> 0) ys \<Longrightarrow> successively (\<noteq>) ys \<longleftrightarrow> distinct ys"
proof (induction ys rule: induct_list012)
  case (3 a b ys)
  have "a \<notin> set ys" if "a \<noteq> b"
    using 3(3) that cmp_antisym [of a b] by auto
  with 3 show ?case by auto
qed auto

lemma qsort_distinct: "successively (\<noteq>) (qsort cmp xs) \<longleftrightarrow> distinct xs"
  using neighbours_distinct [OF qsort_sorted] mset_eq_imp_distinct_iff [OF mset_qsort]
  by blast

end

interpretation inode_key: three_way inode_key_cmp
proof unfold_locales
  fix a b c :: inode_key
  show "inode_key_cmp a b = 0 \<longleftrightarrow> a = b"
    by (cases a, cases b) (auto simp: inode_key_cmp_def)
  show "inode_key_cmp a b \<le> 0 \<longleftrightarrow> 0 \<le> inode_key_cmp b a"
    by (auto simp: inode_key_cmp_def)
  show "inode_key_cmp a b \<le> 0 \<Longrightarrow> inode_key_cmp b c \<le> 0 \<Longrightarrow> inode_key_cmp a c \<le> 0"
    by (auto simp: inode_key_cmp_def split: if_splits)
qed

interpretation ints: three_way int_cmp
  by unfold_locales (auto simp: int_cmp_def of_bool_def split: if_splits)

lemma neighbours_equal:
  "successively (=) xs \<longleftrightarrow> (\<forall>a \<in> set xs. \<forall>b \<in> set xs. a = b)"
  by (induction xs rule: induct_list012) auto

lemma qsort_all_equal:
  "successively (=) (qsort cmp xs) \<longleftrightarrow> (\<forall>a \<in> set xs. \<forall>b \<in> set xs. a = b)"
  by (simp add: neighbours_equal)

section \<open>verify_inode_shape and unique_wds\<close>

text \<open>The loop over neighbours, which ends at the first pair that does not fit.\<close>

fun shape_loop :: "topology \<Rightarrow> inode_key list \<Rightarrow> bool" where
  "shape_loop topo (a # b # keys) =
     (let equal = (key_dev a = key_dev b \<and> key_ino a = key_ino b)
      in if topo = TOPO_DISTINCT \<and> equal \<or> topo = TOPO_SHARED \<and> \<not> equal then False
         else shape_loop topo (b # keys))"
| "shape_loop topo keys = True"

definition stat_key :: "'k ino_os \<Rightarrow> string \<Rightarrow> ('k, inode_key) prog" where
  "stat_key os path =
     seq (invoke (io_stat os path)) (\<lambda>st. case st of
       None \<Rightarrow> die
     | Some st \<Rightarrow> give \<lparr>key_dev = st_dev st, key_ino = st_ino st\<rparr>)"

definition verify_inode_shape :: "'k ino_os \<Rightarrow> string list \<Rightarrow> topology \<Rightarrow> ('k, bool) prog" where
  "verify_inode_shape os paths topo =
     seq (xcalloc os) (\<lambda>_.
     seq (loop (\<lambda>path keys. seq (stat_key os path) (\<lambda>key. give (keys @ [key]))) paths []) (\<lambda>keys.
     give (shape_loop topo (qsort inode_key_cmp keys))))"

text \<open>\<open>for (i = 1; ..) if (copy[i] == copy[i - 1]) unique = false;\<close>\<close>

fun unique_loop :: "int list \<Rightarrow> bool \<Rightarrow> bool" where
  "unique_loop (a # b # copy) unique = unique_loop (b # copy) (if b = a then False else unique)"
| "unique_loop copy unique = unique"

definition unique_wds :: "'k ino_os \<Rightarrow> int list \<Rightarrow> ('k, bool) prog" where
  "unique_wds os wds =
     seq (xcalloc os) (\<lambda>_. give (unique_loop (qsort int_cmp wds) True))"

lemma shape_loop_neighbours:
  "shape_loop TOPO_DISTINCT keys = successively (\<noteq>) keys"
  "shape_loop TOPO_SHARED keys = successively (=) keys"
  by (induction keys rule: induct_list012) (auto simp: inode_key.equality)

lemma unique_loop_neighbours: "unique_loop copy unique \<longleftrightarrow> unique \<and> successively (\<noteq>) copy"
  by (induction copy unique rule: unique_loop.induct) auto

lemma shape_loop_exact:
  "shape_loop TOPO_DISTINCT (qsort inode_key_cmp keys) \<longleftrightarrow> distinct keys"
  "shape_loop TOPO_SHARED (qsort inode_key_cmp keys) \<longleftrightarrow> (\<forall>a \<in> set keys. \<forall>b \<in> set keys. a = b)"
  by (simp_all add: shape_loop_neighbours inode_key.qsort_distinct qsort_all_equal)

lemma unique_loop_exact: "unique_loop (qsort int_cmp wds) True \<longleftrightarrow> distinct wds"
  by (simp add: unique_loop_neighbours ints.qsort_distinct)

section \<open>Frames\<close>

text \<open>What is kept of the process: all but the kernel.\<close>

definition same_proc :: "'k proc \<Rightarrow> 'k proc \<Rightarrow> bool" where
  "same_proc s t \<longleftrightarrow> (\<exists>x. t = s\<lparr>kst := x\<rparr>)"

lemma same_proc_refl [simp]: "same_proc s s"
  unfolding same_proc_def by (rule exI [of _ "kst s"]) simp

lemma same_proc_kst [simp]: "same_proc s (t\<lparr>kst := x\<rparr>) \<longleftrightarrow> same_proc s t"
  unfolding same_proc_def by (metis proc.surjective proc.update_convs(1))

lemma same_proc_trans: "same_proc s t \<Longrightarrow> same_proc t u \<Longrightarrow> same_proc s u"
  by (auto simp: same_proc_def)

lemma same_proc_D:
  assumes "same_proc s t"
  shows "cleanup_root t = cleanup_root s" "cleanup_enabled t = cleanup_enabled s" "at_exit t = at_exit s"
    "stdout_text t = stdout_text s" "held t = held s" "calls t = calls s"
  using assms by (auto simp: same_proc_def)

lemma xcalloc_post: "post (xcalloc os) (\<lambda>c t. c = 1 \<and> same_proc s t) (\<lambda>u t. same_proc s t) s"
  by (simp add: xcalloc_def post_simps split_beta Let_def)

text \<open>The keys that are sorted are those \<open>stat\<close> has returned, one per path.\<close>

lemma verify_inode_shape_post:
  "post (verify_inode_shape os paths topo) (\<lambda>c t. c = 1 \<and> same_proc s t)
     (\<lambda>ok t. same_proc s t \<and> (\<exists>keys :: inode_key list. length keys = length paths \<and>
        (ok \<longleftrightarrow> (if topo = TOPO_DISTINCT then distinct keys else (\<forall>a \<in> set keys. \<forall>b \<in> set keys. a = b))))) s"
proof -
  have one: "post (stat_key os path) (\<lambda>c t. c = 1 \<and> same_proc u t) (\<lambda>key t. same_proc u t) u" for path u
    by (auto simp: stat_key_def post_simps split_beta Let_def split: option.split)
  have all: "post (loop (\<lambda>path keys. seq (stat_key os path) (\<lambda>key. give (keys @ [key]))) ps ks)
      (\<lambda>c t. c = 1 \<and> same_proc s t) (\<lambda>keys t. length keys = length ks + length ps \<and> same_proc s t) u"
    if "same_proc s u" for ps ks u
    using that
  proof (induction ps arbitrary: ks u)
    case Nil
    then show ?case by (simp add: post_simps)
  next
    case (Cons p ps)
    show ?case
      unfolding loop.simps post_simps
      by (rule post_mono [OF one [of p u]])
         (use Cons in \<open>auto dest: same_proc_trans intro: post_mono [OF Cons.IH]\<close>)
  qed
  have fin: "shape_loop topo (qsort inode_key_cmp keys) \<longleftrightarrow>
      (if topo = TOPO_DISTINCT then distinct keys else (\<forall>a \<in> set keys. \<forall>b \<in> set keys. a = b))" for keys
    using shape_loop_exact [of keys] by (cases topo) simp_all
  show ?thesis
    unfolding verify_inode_shape_def
  proof (rule post_seqI [OF xcalloc_post], rule post_seqI)
    fix t
    assume "same_proc s t"
    then show "post (loop (\<lambda>path keys. seq (stat_key os path) (\<lambda>key. give (keys @ [key]))) paths [])
        (\<lambda>c t. c = 1 \<and> same_proc s t) (\<lambda>keys u. length keys = length paths \<and> same_proc s u) t"
      using all [of t paths "[]"] by simp
  next
    fix keys :: "inode_key list" and u
    assume "length keys = length paths \<and> same_proc s u"
    then show "post (give (shape_loop topo (qsort inode_key_cmp keys))) (\<lambda>c t. c = 1 \<and> same_proc s t)
        (\<lambda>ok t. same_proc s t \<and> (\<exists>keys :: inode_key list. length keys = length paths \<and>
           (ok \<longleftrightarrow> (if topo = TOPO_DISTINCT then distinct keys else (\<forall>a \<in> set keys. \<forall>b \<in> set keys. a = b))))) u"
      unfolding post_give fin by blast
  qed
qed

text \<open>Where \<open>stat\<close> keeps answering the same for every path of the fixture.\<close>

lemma verify_inode_shape_stable:
  assumes stable: "\<And>p x. p \<in> set paths \<Longrightarrow> fst (io_stat os p x) = Some (st p)"
  shows "post (verify_inode_shape os paths topo) (\<lambda>c t. c = 1)
    (\<lambda>ok t. ok \<longleftrightarrow> (if topo = TOPO_DISTINCT then inj_on (\<lambda>i. (st_dev (st (paths ! i)), st_ino (st (paths ! i)))) {..<length paths}
       else \<forall>p \<in> set paths. \<forall>q \<in> set paths. st_dev (st p) = st_dev (st q) \<and> st_ino (st p) = st_ino (st q))) s"
proof -
  let ?key = "\<lambda>p. \<lparr>key_dev = st_dev (st p), key_ino = st_ino (st p)\<rparr>"
  have all: "post (loop (\<lambda>path keys. seq (stat_key os path) (\<lambda>key. give (keys @ [key]))) ps ks)
      (\<lambda>c t. c = 1) (\<lambda>keys t. keys = ks @ map ?key ps) u" if "set ps \<subseteq> set paths" for ps ks u
    using that
  proof (induction ps arbitrary: ks u)
    case (Cons p ps ks u)
    have one: "post (stat_key os p) (\<lambda>c t. c = 1) (\<lambda>key t. key = ?key p) u"
      using Cons.prems by (simp add: stat_key_def post_simps split_beta Let_def stable)
    show ?case
      unfolding loop.simps post_seq
      by (rule post_mono [OF one]) (use Cons in \<open>auto simp: post_simps intro: post_mono [OF Cons.IH]\<close>)
  qed (simp add: post_simps)
  have inj: "distinct (map ?key paths) \<longleftrightarrow>
      inj_on (\<lambda>i. (st_dev (st (paths ! i)), st_ino (st (paths ! i)))) {..<length paths}"
    by (auto simp: distinct_conv_nth inj_on_def)
  have fin: "shape_loop topo (qsort inode_key_cmp keys) \<longleftrightarrow>
      (if topo = TOPO_DISTINCT then distinct keys else (\<forall>a \<in> set keys. \<forall>b \<in> set keys. a = b))" for keys
    using shape_loop_exact [of keys] by (cases topo) simp_all
  show ?thesis
    unfolding verify_inode_shape_def
    by (rule post_seqI [OF post_mono [OF xcalloc_post [of os s], where Q' = "\<lambda>_ _. True"]])
       (auto simp: post_simps fin inj intro!: post_mono [OF all])
qed

lemma unique_wds_post:
  "post (unique_wds os wds) (\<lambda>c t. c = 1 \<and> same_proc s t) (\<lambda>ok t. same_proc s t \<and> ok = distinct wds) s"
  unfolding unique_wds_def
  by (rule post_seqI [OF xcalloc_post]) (simp add: post_simps unique_loop_exact)

lemma shape_back [back_intro]:
  "comes_back (verify_inode_shape os paths topo)" "comes_back (unique_wds os wds)"
  by (auto simp: verify_inode_shape_def unique_wds_def xcalloc_def stat_key_def split: option.split
      intro!: back_intro)

end
