(* ===== verification/Inotify_Events.thy ===== *)
theory Inotify_Events
  imports Inotify_Shape
begin

text \<open>
  \<open>drain_events\<close>: the events a group has queued are read into a buffer of bytes and walked
  through by their length fields. Encoding the events as the kernel documents them is undone by
  the walk, and the walk depends only on the bytes that \<open>read\<close> has delivered.
\<close>

section \<open>The buffer\<close>

text \<open>
  Memory from the start of the buffer on; what lies behind the bytes of the last \<open>read\<close> is old.
  \<open>struct inotify_event\<close> is 16 bytes: \<open>wd\<close>, \<open>mask\<close>, \<open>cookie\<close>, \<open>len\<close>, then \<open>len\<close> bytes of name.
\<close>

type_synonym buffer = "nat \<Rightarrow> u8"

definition put_bytes :: "u8 list \<Rightarrow> buffer \<Rightarrow> buffer" where
  "put_bytes bs mem = (\<lambda>i. if i < length bs then bs ! i else mem i)"

definition le32 :: "buffer \<Rightarrow> nat \<Rightarrow> u32" where
  "le32 mem i = ucast (mem i) + 2 ^ 8 * ucast (mem (i + 1)) + 2 ^ 16 * ucast (mem (i + 2)) +
     2 ^ 24 * ucast (mem (i + 3))"

definition event_mask :: "buffer \<Rightarrow> nat \<Rightarrow> u32" where
  "event_mask mem cursor = le32 mem (cursor + 4)"

definition event_size :: "buffer \<Rightarrow> nat \<Rightarrow> nat" where
  "event_size mem cursor = 16 + unat (le32 mem (cursor + 12))"

section \<open>The walk\<close>

definition count_event :: "u32 \<Rightarrow> event_counts \<Rightarrow> event_counts" where
  "count_event msk cs =
     (if msk AND IN_Q_OVERFLOW \<noteq> 0 then cs\<lparr>ev_overflow := ev_overflow cs + 1\<rparr>
      else if msk AND IN_IGNORED \<noteq> 0 then cs\<lparr>ev_ignored := ev_ignored cs + 1\<rparr>
      else cs\<lparr>ev_unexpected := ev_unexpected cs + 1\<rparr>)"

function walk_events :: "buffer \<Rightarrow> nat \<Rightarrow> nat \<Rightarrow> event_counts \<Rightarrow> int + event_counts" where
  "walk_events mem bytes cursor cs =
     (if cursor \<ge> bytes then Inr cs
      else if cursor + event_size mem cursor > bytes then Inl 2
      else walk_events mem bytes (cursor + event_size mem cursor) (count_event (event_mask mem cursor) cs))"
  by auto
termination
  by (relation "measure (\<lambda>(mem, bytes, cursor, cs). bytes - cursor)") (auto simp: event_size_def)

declare walk_events.simps [simp del]

partial_function (option) drain_loop :: "'k ino_os \<Rightarrow> int \<Rightarrow> buffer \<Rightarrow> event_counts \<Rightarrow> 'k proc
    \<Rightarrow> ((int + event_counts) \<times> 'k proc) option" where
  "drain_loop os fd mem cs s =
     (let (r, x) = io_read os fd EVENT_BUFFER_SIZE (kst s);
          s1 = s\<lparr>kst := x\<rparr>
      in case r of
           Inl e \<Rightarrow>
             if e = EINTR then drain_loop os fd mem cs s1
             else if e = EAGAIN then Some (Inr cs, s1)
             else Some (Inl 1, s1)
         | Inr bytes \<Rightarrow>
             if bytes = [] then Some (Inr cs, s1)
             else (case walk_events (put_bytes bytes mem) (length bytes) 0 cs of
                     Inl code \<Rightarrow> Some (Inl code, s1)
                   | Inr cs1 \<Rightarrow> drain_loop os fd (put_bytes bytes mem) cs1 s1))"

definition drain_events :: "'k ino_os \<Rightarrow> int \<Rightarrow> ('k, event_counts) prog" where
  "drain_events os fd =
     seq (xcalloc os) (\<lambda>_.
     seq (drain_loop os fd (\<lambda>i. 0) zero_counts) (\<lambda>cs.
     seq (log_call (DRAINED fd cs)) (\<lambda>_. give cs)))"

section \<open>Only delivered bytes matter\<close>

lemma le32_local: "(\<And>j. j < 4 \<Longrightarrow> mem (i + j) = mem' (i + j)) \<Longrightarrow> le32 mem i = le32 mem' i"
  by (metis le32_def add.right_neutral numeral_less_iff one_less_numeral_iff rel_simps zero_less_numeral)

text \<open>A header that is cut off is refused whatever the old bytes say.\<close>

lemma walk_local:
  "(\<And>i. i < bytes \<Longrightarrow> mem i = mem' i) \<Longrightarrow> walk_events mem bytes cursor cs = walk_events mem' bytes cursor cs"
proof (induction mem bytes cursor cs rule: walk_events.induct)
  case (1 mem bytes cursor cs)
  show ?case
  proof (cases "cursor + 16 \<le> bytes")
    case True
    then have h: "event_size mem cursor = event_size mem' cursor" "event_mask mem cursor = event_mask mem' cursor"
      using 1(2) by (auto simp: event_size_def event_mask_def intro!: le32_local arg_cong [where f = unat])
    show ?thesis
    proof (cases "cursor + event_size mem cursor \<le> bytes")
      case fits: True
      have "\<not> cursor \<ge> bytes" using True by simp
      with 1 fits have "walk_events mem bytes (cursor + event_size mem cursor) (count_event (event_mask mem cursor) cs) =
          walk_events mem' bytes (cursor + event_size mem cursor) (count_event (event_mask mem cursor) cs)"
        by simp
      then show ?thesis
        by (simp add: walk_events.simps [of mem bytes cursor cs] walk_events.simps [of mem' bytes cursor cs] h)
    qed (simp add: walk_events.simps [of mem bytes cursor cs] walk_events.simps [of mem' bytes cursor cs] h)
  next
    case False
    then have "cursor + event_size m cursor > bytes" for m by (simp add: event_size_def)
    then show ?thesis
      by (simp add: walk_events.simps [of mem bytes cursor cs] walk_events.simps [of mem' bytes cursor cs])
  qed
qed

section \<open>Encoded events are read back\<close>

record event =
  event_wd :: u32
  event_flags :: u32
  event_cookie :: u32
  event_name :: "u8 list"

definition bytes32 :: "u32 \<Rightarrow> u8 list" where
  "bytes32 w = [ucast w, ucast (drop_bit 8 w), ucast (drop_bit 16 w), ucast (drop_bit 24 w)]"

definition encode_event :: "event \<Rightarrow> u8 list" where
  "encode_event e = bytes32 (event_wd e) @ bytes32 (event_flags e) @ bytes32 (event_cookie e) @
     bytes32 (of_nat (length (event_name e))) @ event_name e"

definition encode_events :: "event list \<Rightarrow> u8 list" where
  "encode_events es = concat (map encode_event es)"

definition tally_events :: "event list \<Rightarrow> event_counts \<Rightarrow> event_counts" where
  "tally_events es = fold (\<lambda>e. count_event (event_flags e)) es"

definition name_fits :: "event \<Rightarrow> bool" where
  "name_fits e \<longleftrightarrow> length (event_name e) < 2 ^ 32"

lemma split_32: "(n :: nat) = n mod 2 ^ 8 + 2 ^ 8 * (n div 2 ^ 8 mod 2 ^ 8) + 2 ^ 16 * (n div 2 ^ 16 mod 2 ^ 8) +
   2 ^ 24 * (n div 2 ^ 24 mod 2 ^ 8)" if "n < 2 ^ 32"
proof -
  define a b c where "a = n div 2 ^ 8" and "b = a div 2 ^ 8" and "c = b div 2 ^ 8"
  have d: "n div 2 ^ 16 = b" "n div 2 ^ 24 = c"
    by (simp_all add: a_def b_def c_def flip: div_mult2_eq)
  have "c mod 2 ^ 8 = c" using that by (simp flip: d(2))
  moreover have "n = 2 ^ 8 * a + n mod 2 ^ 8" "a = 2 ^ 8 * b + a mod 2 ^ 8" "b = 2 ^ 8 * c + b mod 2 ^ 8"
    unfolding a_def b_def c_def by simp_all
  ultimately show ?thesis unfolding d a_def [symmetric] by simp
qed

lemma ucast_byte: "ucast (ucast (w :: u32) :: u8) = (of_nat (unat w mod 2 ^ 8) :: u32)"
proof -
  have "unat (ucast (ucast w :: u8) :: u32) = unat w mod 2 ^ 8"
    by (simp add: unsigned_ucast_eq take_bit_eq_mod unat_mod)
  moreover have "x = of_nat (unat x)" for x :: u32 by simp
  ultimately show ?thesis by metis
qed

lemma le32_bytes32:
  assumes "\<And>j. j < 4 \<Longrightarrow> mem (i + j) = bytes32 w ! j"
  shows "le32 mem i = w"
proof -
  let ?n = "unat w"
  have m: "mem i = ucast w" "mem (i + 1) = ucast (drop_bit 8 w)" "mem (i + 2) = ucast (drop_bit 16 w)"
    "mem (i + 3) = ucast (drop_bit 24 w)"
    using assms [of 0] assms [of 1] assms [of 2] assms [of 3] by (simp_all add: bytes32_def)
  have d: "unat (drop_bit k w) = ?n div 2 ^ k" for k
    by (simp only: unat_drop_bit_eq) (simp only: drop_bit_eq_div)
  have "le32 mem i = of_nat (?n mod 2 ^ 8) + 2 ^ 8 * of_nat (?n div 2 ^ 8 mod 2 ^ 8) +
      2 ^ 16 * of_nat (?n div 2 ^ 16 mod 2 ^ 8) + 2 ^ 24 * of_nat (?n div 2 ^ 24 mod 2 ^ 8)"
    by (simp only: le32_def m ucast_byte d)
  also have "\<dots> = of_nat (?n mod 2 ^ 8 + 2 ^ 8 * (?n div 2 ^ 8 mod 2 ^ 8) + 2 ^ 16 * (?n div 2 ^ 16 mod 2 ^ 8) +
      2 ^ 24 * (?n div 2 ^ 24 mod 2 ^ 8))"
    by (simp only: of_nat_add of_nat_mult of_nat_power of_nat_numeral)
  also have "\<dots> = of_nat ?n" using split_32 [of ?n] unat_lt32 [of w] by metis
  finally show ?thesis by simp
qed

lemma length_bytes32 [simp]: "length (bytes32 w) = 4"
  by (simp add: bytes32_def)

lemma length_encode [simp]: "length (encode_event e) = 16 + length (event_name e)"
  by (simp add: encode_event_def)

lemma encode_header:
  assumes at: "\<And>j. j < length (encode_event e) \<Longrightarrow> mem (cursor + j) = encode_event e ! j" and "name_fits e"
  shows "event_size mem cursor = length (encode_event e)" "event_mask mem cursor = event_flags e"
proof -
  have "mem (cursor + 4 + j) = bytes32 (event_flags e) ! j" if "j < 4" for j
    using at [of "4 + j"] that by (simp add: encode_event_def nth_append add.assoc)
  then show "event_mask mem cursor = event_flags e"
    unfolding event_mask_def by (rule le32_bytes32)
  have "mem (cursor + 12 + j) = bytes32 (of_nat (length (event_name e))) ! j" if "j < 4" for j
    using at [of "12 + j"] that by (simp add: encode_event_def nth_append add.assoc)
  then have "le32 mem (cursor + 12) = of_nat (length (event_name e))" by (rule le32_bytes32)
  then show "event_size mem cursor = length (encode_event e)"
    using assms(2) by (simp add: event_size_def name_fits_def unat_of_nat32)
qed

lemma walk_prefix:
  assumes "\<And>j. j < length (encode_events es) \<Longrightarrow> mem (cursor + j) = encode_events es ! j"
    and "\<forall>e \<in> set es. name_fits e" and "cursor + length (encode_events es) \<le> bytes"
  shows "walk_events mem bytes cursor cs =
    walk_events mem bytes (cursor + length (encode_events es)) (tally_events es cs)"
  using assms
proof (induction es arbitrary: cursor cs)
  case Nil
  then show ?case by (simp add: encode_events_def tally_events_def)
next
  case (Cons e es)
  have eq: "encode_events (e # es) = encode_event e @ encode_events es" by (simp add: encode_events_def)
  have at: "mem (cursor + j) = encode_event e ! j" if "j < length (encode_event e)" for j
    using Cons.prems(1) [of j] that by (simp add: eq nth_append)
  have "name_fits e" using Cons.prems(2) by simp
  note h = encode_header [OF at this]
  let ?next = "cursor + length (encode_event e)"
  have "mem (?next + j) = encode_events es ! j" if "j < length (encode_events es)" for j
    using Cons.prems(1) [of "length (encode_event e) + j"] that
    by (simp add: eq nth_append add.assoc)
  then have "walk_events mem bytes ?next (count_event (event_flags e) cs) =
      walk_events mem bytes (cursor + length (encode_events (e # es))) (tally_events (e # es) cs)"
    using Cons.IH [of ?next] Cons.prems(2,3) by (simp add: eq tally_events_def add.assoc)
  moreover have "\<not> cursor \<ge> bytes" "\<not> cursor + length (encode_event e) > bytes"
    using Cons.prems(3) by (simp_all add: eq)
  ultimately show ?case
    by (subst walk_events.simps) (simp only: h if_False)
qed

lemma walk_encoded:
  assumes "\<And>j. j < length (encode_events es) \<Longrightarrow> mem (cursor + j) = encode_events es ! j"
    and "\<forall>e \<in> set es. name_fits e" and "bytes = cursor + length (encode_events es)"
  shows "walk_events mem bytes cursor cs = Inr (tally_events es cs)"
proof -
  have "walk_events mem bytes bytes (tally_events es cs) = Inr (tally_events es cs)"
    by (subst walk_events.simps) simp
  with walk_prefix [OF assms(1,2), of bytes cs] assms(3) show ?thesis by simp
qed

text \<open>An event that is cut off, in its header or in its name.\<close>

lemma walk_cut:
  assumes at: "\<And>j. j < k \<Longrightarrow> mem (cursor + j) = encode_event e ! j" and "name_fits e"
    and k: "0 < k" "k < length (encode_event e)"
  shows "walk_events mem (cursor + k) cursor cs = Inl 2"
proof -
  have "event_size mem cursor > k"
  proof (cases "k < 16")
    case False
    have "mem (cursor + 12 + j) = bytes32 (of_nat (length (event_name e))) ! j" if "j < 4" for j
      using at [of "12 + j"] that False by (simp add: encode_event_def nth_append add.assoc)
    then have "le32 mem (cursor + 12) = of_nat (length (event_name e))" by (rule le32_bytes32)
    moreover have "unat (of_nat (length (event_name e)) :: u32) = length (event_name e)"
      using assms(2) by (simp add: name_fits_def unat_of_nat)
    ultimately show ?thesis using k by (simp add: event_size_def)
  qed (simp add: event_size_def)
  with k show ?thesis by (subst walk_events.simps) simp
qed

section \<open>Draining a queue\<close>

text \<open>
  \<open>queue_reads os fd es x y\<close>: the calls of \<open>read\<close> on \<open>fd\<close> from the kernel state \<open>x\<close> on deliver the
  events \<open>es\<close> in whole records, with interruptions, until the queue is empty in the state \<open>y\<close>.
\<close>

inductive queue_reads :: "'k ino_os \<Rightarrow> int \<Rightarrow> event list \<Rightarrow> 'k \<Rightarrow> 'k \<Rightarrow> bool" for os fd where
  empty_again: "io_read os fd EVENT_BUFFER_SIZE x = (Inl EAGAIN, y) \<Longrightarrow> queue_reads os fd [] x y"
| empty_end: "io_read os fd EVENT_BUFFER_SIZE x = (Inr [], y) \<Longrightarrow> queue_reads os fd [] x y"
| interrupted: "io_read os fd EVENT_BUFFER_SIZE x = (Inl EINTR, z) \<Longrightarrow> queue_reads os fd es z y \<Longrightarrow>
    queue_reads os fd es x y"
| delivered: "io_read os fd EVENT_BUFFER_SIZE x = (Inr (encode_events es), z) \<Longrightarrow> es \<noteq> [] \<Longrightarrow>
    \<forall>e \<in> set es. name_fits e \<Longrightarrow> queue_reads os fd fs z y \<Longrightarrow> queue_reads os fd (es @ fs) x y"

lemma encode_events_nonempty: "es \<noteq> [] \<Longrightarrow> encode_events es \<noteq> []"
  by (cases es) (auto simp: encode_events_def encode_event_def bytes32_def)

lemma drain_loop_reads:
  "queue_reads os fd es x y \<Longrightarrow> kst s = x \<Longrightarrow>
     drain_loop os fd mem cs s = Some (Inr (tally_events es cs), s\<lparr>kst := y\<rparr>)"
proof (induction arbitrary: s mem cs rule: queue_reads.induct)
  case (delivered x es z fs y)
  have "walk_events (put_bytes (encode_events es) mem) (length (encode_events es)) 0 cs = Inr (tally_events es cs)"
    by (rule walk_encoded) (use delivered.hyps in \<open>simp_all add: put_bytes_def\<close>)
  with delivered encode_events_nonempty [OF delivered.hyps(2)] show ?case
    by (simp add: drain_loop.simps [of os fd mem cs s] tally_events_def)
next
  case (interrupted x z es y)
  then show ?case by (simp add: drain_loop.simps [of os fd mem cs s])
qed (simp_all add: drain_loop.simps tally_events_def EINTR_def EAGAIN_def)

lemma drain_events_reads:
  assumes "queue_reads os fd es (snd (io_alloc os (kst s))) y"
  shows "post (drain_events os fd) (\<lambda>c t. c = 1) (\<lambda>cs t. cs = tally_events es zero_counts) s"
  using assms
  by (simp add: drain_events_def xcalloc_def post_simps split_beta Let_def)
     (simp add: post_def seq_def log_call_def change_def give_def drain_loop_reads)

end
