(* ===== verification/Inotify_Workers.thy ===== *)
theory Inotify_Workers
  imports Inotify_Config Inotify_Events
begin

text \<open>
  The threads of the topology scenario: \<open>topology_worker\<close>, the barrier between its phases, and the
  main thread that creates and joins the workers, as a transition system. An actor's step is one
  call of the system or of the barrier with the assignments that follow it; the actors are
  interleaved in any order.
\<close>

section \<open>Program counters and shared state\<close>

text \<open>
  \<open>W_ARRIVE k\<close> is before the call of \<open>pthread_barrier_wait\<close> number \<open>k\<close>, \<open>W_WAIT k g\<close> is inside it
  after an arrival in generation \<open>g\<close> of the barrier, \<open>W_STAMP k\<close> is before the reading of the
  clock that follows it, and \<open>W_ADD start i\<close> and \<open>W_REMOVE start i\<close> are the heads of the two loops.
\<close>

datatype wpc =
    W_PIN
  | W_ARRIVE nat
  | W_WAIT nat nat
  | W_STAMP nat
  | W_ADD u64 nat
  | W_REMOVE u64 nat
  | W_DONE

record topology_run =
  run_cfg :: config
  run_paths :: "string list"
  run_fds :: "int list"

text \<open>The sums and maxima that the main thread forms while it joins the workers.\<close>

record totals =
  t_add_success :: u64
  t_remove_success :: u64
  t_unexpected :: u64
  t_add_sum :: u64
  t_remove_sum :: u64
  t_add_max :: u64
  t_remove_max :: u64
  t_affinity_ok :: bool

text \<open>
  \<open>arrived\<close> and \<open>generation\<close> make up the barrier; \<open>ended\<close> is the code of an \<open>exit\<close> by any
  thread, which ends all of them.
\<close>

record 'k pool =
  pproc :: "'k proc"
  created :: nat
  joined :: nat
  pcs :: "nat \<Rightarrow> wpc"
  results :: "nat \<Rightarrow> worker_result"
  wds :: "nat \<Rightarrow> int"
  arrived :: nat
  generation :: nat
  sums :: totals
  ended :: "int option"

abbreviation nworkers :: "topology_run \<Rightarrow> nat" where
  "nworkers run \<equiv> unat (workers (run_cfg run))"

abbreviation ngroups :: "topology_run \<Rightarrow> nat" where
  "ngroups run \<equiv> unat (items (run_cfg run))"

text \<open>\<open>groups * i / cfg->workers\<close>\<close>

definition share_begin :: "config \<Rightarrow> nat \<Rightarrow> u64" where
  "share_begin cfg i = items cfg * of_nat i div ucast (workers cfg)"

abbreviation first_of :: "topology_run \<Rightarrow> nat \<Rightarrow> nat" where
  "first_of run w \<equiv> unat (share_begin (run_cfg run) w)"

abbreviation end_of :: "topology_run \<Rightarrow> nat \<Rightarrow> nat" where
  "end_of run w \<equiv> unat (share_begin (run_cfg run) (Suc w))"

section \<open>The steps of a worker\<close>

definition set_pc :: "nat \<Rightarrow> wpc \<Rightarrow> 'k pool \<Rightarrow> 'k pool" where
  "set_pc w pc st = st\<lparr>pcs := (pcs st)(w := pc)\<rparr>"

definition upd_result :: "nat \<Rightarrow> (worker_result \<Rightarrow> worker_result) \<Rightarrow> 'k pool \<Rightarrow> 'k pool" where
  "upd_result w f st = st\<lparr>results := (results st)(w := f (results st w))\<rparr>"

text \<open>A call, which may end the process, and what follows it.\<close>

definition perform :: "('k, 'a) prog \<Rightarrow> ('a \<Rightarrow> 'k pool \<Rightarrow> 'k pool) \<Rightarrow> 'k pool \<Rightarrow> 'k pool option" where
  "perform m f st =
     (case m (pproc st) of
        None \<Rightarrow> None
      | Some (Inl code, s) \<Rightarrow> Some (st\<lparr>pproc := s, ended := Some code\<rparr>)
      | Some (Inr a, s) \<Rightarrow> Some (f a (st\<lparr>pproc := s\<rparr>)))"

definition after_barrier :: "nat \<Rightarrow> wpc" where
  "after_barrier k = (if k < 2 then W_STAMP k else W_DONE)"

text \<open>\<open>pthread_barrier_wait\<close>: the last thread to arrive starts the next generation.\<close>

definition barrier_arrive :: "nat \<Rightarrow> nat \<Rightarrow> nat \<Rightarrow> 'k pool \<Rightarrow> 'k pool" where
  "barrier_arrive n w k st =
     (if arrived st + 1 = n
      then set_pc w (after_barrier k) (st\<lparr>arrived := 0, generation := generation st + 1\<rparr>)
      else set_pc w (W_WAIT k (generation st)) (st\<lparr>arrived := arrived st + 1\<rparr>))"

definition pin_step :: "'k ino_os \<Rightarrow> config \<Rightarrow> nat \<Rightarrow> ('k, bool) prog" where
  "pin_step os cfg w = (if \<not> have_cpu_list cfg then give True else pin_current_thread os (cpus cfg ! w))"

definition add_step :: "'k ino_os \<Rightarrow> topology_run \<Rightarrow> nat \<Rightarrow> u64 \<Rightarrow> nat \<Rightarrow> 'k pool \<Rightarrow> 'k pool option" where
  "add_step os run w start i =
     (if i < end_of run w
      then perform (inotify_add_watch os (run_fds run ! i) (run_paths run ! i) IN_ATTRIB) (\<lambda>wd st.
             set_pc w (W_ADD start (i + 1))
               (upd_result w (\<lambda>r. if wd \<ge> 0 then r\<lparr>add_success := add_success r + 1\<rparr>
                                  else r\<lparr>wr_unexpected := wr_unexpected r + 1\<rparr>)
                  (st\<lparr>wds := (wds st)(i := wd)\<rparr>)))
      else perform (now_ns os) (\<lambda>now st.
             set_pc w (W_ARRIVE 1) (upd_result w (\<lambda>r. r\<lparr>add_elapsed_ns := now - start\<rparr>) st)))"

definition remove_step :: "'k ino_os \<Rightarrow> topology_run \<Rightarrow> nat \<Rightarrow> u64 \<Rightarrow> nat \<Rightarrow> 'k pool \<Rightarrow> 'k pool option" where
  "remove_step os run w start i st =
     (if i < end_of run w
      then perform (if wds st i \<ge> 0 then inotify_rm_watch os (run_fds run ! i) (wds st i) else give False)
             (\<lambda>ok st. set_pc w (W_REMOVE start (i + 1))
               (upd_result w (\<lambda>r. if ok then r\<lparr>remove_success := remove_success r + 1\<rparr>
                                  else r\<lparr>wr_unexpected := wr_unexpected r + 1\<rparr>) st)) st
      else perform (now_ns os) (\<lambda>now st.
             set_pc w (W_ARRIVE 2) (upd_result w (\<lambda>r. r\<lparr>remove_elapsed_ns := now - start\<rparr>) st)) st)"

definition worker_step :: "'k ino_os \<Rightarrow> topology_run \<Rightarrow> nat \<Rightarrow> 'k pool \<Rightarrow> 'k pool option" where
  "worker_step os run w st =
     (case pcs st w of
        W_PIN \<Rightarrow> perform (pin_step os (run_cfg run) w) (\<lambda>ok st.
                   set_pc w (W_ARRIVE 0) (upd_result w (\<lambda>r. r\<lparr>affinity_ok := ok\<rparr>) st)) st
      | W_ARRIVE k \<Rightarrow> Some (barrier_arrive (nworkers run) w k st)
      | W_WAIT k g \<Rightarrow> if generation st \<noteq> g then Some (set_pc w (after_barrier k) st) else None
      | W_STAMP k \<Rightarrow> perform (now_ns os) (\<lambda>start.
                   set_pc w (if k = 0 then W_ADD start (first_of run w) else W_REMOVE start (first_of run w))) st
      | W_ADD start i \<Rightarrow> add_step os run w start i st
      | W_REMOVE start i \<Rightarrow> remove_step os run w start i st
      | W_DONE \<Rightarrow> None)"

section \<open>The steps of the main thread\<close>

definition zero_totals :: totals where
  "zero_totals = \<lparr>t_add_success = 0, t_remove_success = 0, t_unexpected = 0, t_add_sum = 0,
     t_remove_sum = 0, t_add_max = 0, t_remove_max = 0, t_affinity_ok = True\<rparr>"

definition add_totals :: "worker_result \<Rightarrow> totals \<Rightarrow> totals" where
  "add_totals r t =
     \<lparr>t_add_success = t_add_success t + add_success r,
      t_remove_success = t_remove_success t + remove_success r,
      t_unexpected = t_unexpected t + wr_unexpected r,
      t_add_sum = t_add_sum t + add_elapsed_ns r,
      t_remove_sum = t_remove_sum t + remove_elapsed_ns r,
      t_add_max = (if add_elapsed_ns r > t_add_max t then add_elapsed_ns r else t_add_max t),
      t_remove_max = (if remove_elapsed_ns r > t_remove_max t then remove_elapsed_ns r else t_remove_max t),
      t_affinity_ok = (if \<not> affinity_ok r then False else t_affinity_ok t)\<rparr>"

text \<open>\<open>pthread_join\<close> waits until the worker is done.\<close>

definition main_step :: "'k ino_os \<Rightarrow> topology_run \<Rightarrow> 'k pool \<Rightarrow> 'k pool option" where
  "main_step os run st =
     (if created st < nworkers run
      then perform (seq (invoke (io_thread_create os)) msg_unless)
             (\<lambda>_ st. st\<lparr>created := created st + 1\<rparr>) st
      else if joined st < nworkers run \<and> pcs st (joined st) = W_DONE
      then perform (seq (invoke (io_thread_join os)) msg_unless)
             (\<lambda>_ st. st\<lparr>sums := add_totals (results st (joined st)) (sums st), joined := joined st + 1\<rparr>) st
      else None)"

section \<open>Interleavings\<close>

text \<open>Actor 0 is the main thread and actor \<open>w + 1\<close> is worker \<open>w\<close>.\<close>

definition pool_step :: "'k ino_os \<Rightarrow> topology_run \<Rightarrow> nat \<Rightarrow> 'k pool \<Rightarrow> 'k pool option" where
  "pool_step os run actor st =
     (if ended st \<noteq> None then None
      else case actor of
             0 \<Rightarrow> main_step os run st
           | Suc w \<Rightarrow> if w < created st then worker_step os run w st else None)"

inductive moves :: "'k ino_os \<Rightarrow> topology_run \<Rightarrow> 'k pool \<Rightarrow> 'k pool \<Rightarrow> bool" for os run where
  step: "pool_step os run actor st = Some st' \<Longrightarrow> moves os run st st'"

inductive_cases moves_elim: "moves os run st st'"

definition initial_pool :: "'k proc \<Rightarrow> 'k pool" where
  "initial_pool s = \<lparr>pproc = s, created = 0, joined = 0, pcs = (\<lambda>w. W_PIN), results = (\<lambda>w. zero_result),
     wds = (\<lambda>i. -1), arrived = 0, generation = 0, sums = zero_totals, ended = None\<rparr>"

definition finished :: "topology_run \<Rightarrow> 'k pool \<Rightarrow> bool" where
  "finished run st \<longleftrightarrow> ended st \<noteq> None \<or> joined st = nworkers run"

text \<open>A run under a scheduler: \<open>sched n\<close> is the actor that gets the processor at time \<open>n\<close>.\<close>

partial_function (option) run_pool :: "'k ino_os \<Rightarrow> topology_run \<Rightarrow> (nat \<Rightarrow> nat) \<Rightarrow> nat \<Rightarrow> 'k pool
    \<Rightarrow> 'k pool option" where
  "run_pool os run sched n st =
     (if finished run st then Some st
      else run_pool os run sched (n + 1)
             (case pool_step os run (sched n) st of None \<Rightarrow> st | Some st' \<Rightarrow> st'))"

definition run_threads :: "'k ino_os \<Rightarrow> topology_run \<Rightarrow> (nat \<Rightarrow> nat) \<Rightarrow> ('k, 'k pool) prog" where
  "run_threads os run sched s =
     (case run_pool os run sched 0 (initial_pool s) of
        None \<Rightarrow> None
      | Some st \<Rightarrow>
          (case ended st of
             Some code \<Rightarrow> Some (Inl code, pproc st)
           | None \<Rightarrow> Some (Inr st, pproc st)))"

text \<open>Whatever the scheduler does, it produces a run of the transition system.\<close>

lemma run_pool_moves:
  assumes "run_pool os run sched n st = Some st'"
  shows "(moves os run)\<^sup>*\<^sup>* st st' \<and> finished run st'"
proof (rule run_pool.raw_induct
    [where P = "\<lambda>os run sched n st st'. (moves os run)\<^sup>*\<^sup>* st st' \<and> finished run st'", OF _ assms])
  fix go os run sched n st st'
  assume IH: "\<And>os run sched n st st'. go os run sched n st = Some st' \<Longrightarrow>
      (moves os run)\<^sup>*\<^sup>* st st' \<and> finished run st'"
    and run: "(if finished run st then Some st
      else go os run sched (n + 1) (case pool_step os run (sched n) st of None \<Rightarrow> st | Some st' \<Rightarrow> st')) = Some st'"
  show "(moves os run)\<^sup>*\<^sup>* st st' \<and> finished run st'"
  proof (cases "finished run st")
    case False
    let ?st1 = "case pool_step os run (sched n) st of None \<Rightarrow> st | Some st' \<Rightarrow> st'"
    have "(moves os run)\<^sup>*\<^sup>* ?st1 st' \<and> finished run st'" using run False IH by simp
    moreover have "(moves os run)\<^sup>*\<^sup>* st ?st1"
      by (auto split: option.split intro: step)
    ultimately show ?thesis by (meson rtranclp_trans)
  qed (use run in simp)
qed

end
