(* ===== verification/Inotify_Progress.thy ===== *)
theory Inotify_Progress
  imports Inotify_Barrier
begin

text \<open>
  The threads never get stuck, and every run of them ends: some actor can move until all workers
  are joined, every step lowers a measure, and so a scheduler that gives each actor the
  processor again and again brings the run to its end.
\<close>

section \<open>The phases do not overlap\<close>

text \<open>How far a worker has come in its two loops.\<close>

fun adds_done :: "nat \<Rightarrow> nat \<Rightarrow> wpc \<Rightarrow> nat" where
  "adds_done lo hi (W_ADD start i) = i"
| "adds_done lo hi pc =
     (case pc of
        W_PIN \<Rightarrow> lo
      | W_ARRIVE k \<Rightarrow> (if k = 0 then lo else hi)
      | W_WAIT k g \<Rightarrow> (if k = 0 then lo else hi)
      | W_STAMP k \<Rightarrow> (if k = 0 then lo else hi)
      | _ \<Rightarrow> hi)"

fun removes_done :: "nat \<Rightarrow> nat \<Rightarrow> wpc \<Rightarrow> nat" where
  "removes_done lo hi (W_REMOVE start i) = i"
| "removes_done lo hi pc =
     (case pc of
        W_ARRIVE k \<Rightarrow> (if k = 2 then hi else lo)
      | W_WAIT k g \<Rightarrow> (if k = 2 then hi else lo)
      | W_DONE \<Rightarrow> hi
      | _ \<Rightarrow> lo)"

lemma removes_need_two_barriers:
  "removes_done lo hi pc \<noteq> lo \<Longrightarrow> pc_ok lo hi pc \<Longrightarrow> 2 \<le> passed pc"
  by (cases pc) (auto split: if_splits)

lemma two_barriers_added: "2 \<le> passed pc \<Longrightarrow> adds_done lo hi pc = hi"
  by (cases pc) auto

lemma in_step_wait: "in_step gen (W_WAIT k gen) \<longleftrightarrow> k = gen"
  by (auto simp: in_step_def)

lemma in_step_close: "in_step gen pc \<Longrightarrow> passed pc \<le> gen \<and> gen \<le> Suc (passed pc)"
  by (auto simp: in_step_def)

text \<open>Once a worker is past the second barrier, every worker has finished adding.\<close>

lemma phases_apart:
  assumes inv: "barrier_inv run st" and w: "w < nworkers run" "2 \<le> passed (pcs st w)"
    and v: "v < nworkers run"
  shows "adds_done (first_of run v) (end_of run v) (pcs st v) = end_of run v"
proof -
  have "in_step (generation st) (pcs st w)" and sv: "in_step (generation st) (pcs st v)"
    using inv w v by (simp_all add: barrier_inv_def)
  with w have g: "2 \<le> generation st" using in_step_close by fastforce
  show ?thesis
  proof (cases "2 \<le> passed (pcs st v)")
    case False
    with sv g obtain k where "pcs st v = W_WAIT k k" "generation st = Suc k"
      by (auto simp: in_step_def)
    with g show ?thesis by simp
  qed (rule two_barriers_added)
qed

section \<open>Some actor can move\<close>

lemma prog_back:
  "comes_back (now_ns os)" "comes_back (inotify_add_watch os fd path m)"
  "comes_back (inotify_rm_watch os fd wd)" "comes_back (pin_step os cfg w)"
  "comes_back (seq (invoke f) msg_unless)"
  by (auto simp: now_ns_def inotify_add_watch_def inotify_rm_watch_def pin_step_def log_call_def
      pin_current_thread_def split: sum.split intro!: back_intro)

lemma perform_back: "comes_back m \<Longrightarrow> \<exists>st'. perform m f st = Some st'"
  by (auto simp: perform_def comes_back_def split: option.split sum.split)

lemma worker_can_move:
  assumes "pcs st w \<noteq> W_DONE" and "\<forall>k. pcs st w \<noteq> W_WAIT k (generation st)"
  shows "worker_step os run w st \<noteq> None"
  using assms
  by (auto simp: worker_step_def add_step_def remove_step_def split: wpc.split
      intro!: perform_back prog_back back_prims(1))

lemma some_actor_moves:
  assumes inv: "barrier_inv run st" and run: "\<not> finished run st"
  shows "\<exists>actor \<le> nworkers run. pool_step os run actor st \<noteq> None"
proof -
  have e: "ended st = None" and j: "joined st < nworkers run"
    using run inv by (auto simp: finished_def barrier_inv_def)
  show ?thesis
  proof (cases "created st < nworkers run")
    case True
    then have "pool_step os run 0 st \<noteq> None"
      using perform_back [OF prog_back(5)] e by (simp add: pool_step_def main_step_def)
    then show ?thesis by blast
  next
    case False
    then have c: "created st = nworkers run" using inv by (simp add: barrier_inv_def)
    show ?thesis
    proof (cases "\<forall>w < nworkers run. pcs st w = W_DONE")
      case True
      then have "pool_step os run 0 st \<noteq> None"
        using perform_back [OF prog_back(5)] e j c by (simp add: pool_step_def main_step_def)
      then show ?thesis by blast
    next
      case not_done: False
      have "\<exists>w < nworkers run. pcs st w \<noteq> W_DONE \<and> (\<forall>k. pcs st w \<noteq> W_WAIT k (generation st))"
      proof (rule ccontr)
        assume "\<not> ?thesis"
        then have stuck: "pcs st w = W_DONE \<or> (\<exists>k. pcs st w = W_WAIT k (generation st))" if "w < nworkers run" for w
          using that by blast
        have here: "pcs st w = W_DONE \<or> w \<in> waiting run st" if "w < nworkers run" for w
        proof -
          have "in_step (generation st) (pcs st w)" using inv that by (simp add: barrier_inv_def)
          with stuck [OF that] that show ?thesis
            by (elim disjE exE) (simp_all add: in_step_wait waiting_def)
        qed
        have "waiting run st \<noteq> {..<nworkers run}"
          using inv by (auto simp: barrier_inv_def)
        then obtain v where v: "v < nworkers run" "v \<notin> waiting run st" by (auto simp: waiting_def)
        with here have "pcs st v = W_DONE" by blast
        moreover have "in_step (generation st) (pcs st v)" using inv v by (simp add: barrier_inv_def)
        ultimately have g: "generation st = 3" by (simp add: in_step_def)
        obtain w where w: "w < nworkers run" "pcs st w \<noteq> W_DONE" using not_done by blast
        with here have "pcs st w = W_WAIT 3 3" by (auto simp: waiting_def g)
        moreover have "pc_ok (first_of run w) (end_of run w) (pcs st w)" using inv w by (simp add: barrier_inv_def)
        ultimately show False by simp
      qed
      then obtain w where w: "w < nworkers run" "worker_step os run w st \<noteq> None"
        using worker_can_move by blast
      then have "pool_step os run (Suc w) st \<noteq> None" using e c by (simp add: pool_step_def)
      with w show ?thesis by (metis Suc_le_eq)
    qed
  qed
qed

section \<open>Every step brings the end closer\<close>

text \<open>The steps a worker has left, with \<open>n\<close> groups of its own up to \<open>hi\<close>.\<close>

fun steps_left :: "nat \<Rightarrow> nat \<Rightarrow> wpc \<Rightarrow> nat" where
  "steps_left n hi W_DONE = 0"
| "steps_left n hi (W_REMOVE start i) = 3 + (hi - i)"
| "steps_left n hi (W_ADD start i) = 7 + n + (hi - i)"
| "steps_left n hi (W_STAMP k) = (if k = 0 then 8 + 2 * n else 4 + n)"
| "steps_left n hi (W_WAIT k g) = (if k = 0 then 9 + 2 * n else if k = 1 then 5 + n else 1)"
| "steps_left n hi (W_ARRIVE k) = (if k = 0 then 10 + 2 * n else if k = 1 then 6 + n else 2)"
| "steps_left n hi W_PIN = 11 + 2 * n"

definition worker_left :: "topology_run \<Rightarrow> 'k pool \<Rightarrow> nat \<Rightarrow> nat" where
  "worker_left run st w = steps_left (end_of run w - first_of run w) (end_of run w) (pcs st w)"

definition pool_left :: "topology_run \<Rightarrow> 'k pool \<Rightarrow> nat" where
  "pool_left run st = (\<Sum>w < nworkers run. worker_left run st w) +
     (nworkers run - created st) + (nworkers run - joined st) + of_bool (ended st = None)"

lemma pool_left_local:
  assumes w: "w < nworkers run" and eq: "pcs st' = (pcs st)(w := pc)"
    and less: "steps_left (end_of run w - first_of run w) (end_of run w) pc < worker_left run st w"
    and same: "created st' = created st" "joined st' = joined st" "ended st' = ended st"
  shows "pool_left run st' < pool_left run st"
proof -
  have "(\<Sum>v < nworkers run. worker_left run st' v) < (\<Sum>v < nworkers run. worker_left run st v)"
  proof (rule sum_strict_mono_ex1)
    show "\<forall>v \<in> {..<nworkers run}. worker_left run st' v \<le> worker_left run st v"
      using less by (auto simp: worker_left_def eq)
    show "\<exists>v \<in> {..<nworkers run}. worker_left run st' v < worker_left run st v"
      using less w by (intro bexI [of _ w]) (auto simp: worker_left_def eq)
  qed simp
  with same show ?thesis by (simp add: pool_left_def)
qed

lemma pool_left_exit:
  "ended st = None \<Longrightarrow> pool_left run (st\<lparr>pproc := s, ended := Some c\<rparr>) < pool_left run st"
  by (simp add: pool_left_def worker_left_def)

lemma worker_step_less:
  assumes ok: "sizes_ok (run_cfg run)" and inv: "barrier_inv run st" and w: "w < nworkers run"
    and e: "ended st = None" and run: "worker_step os run w st = Some st'"
  shows "pool_left run st' < pool_left run st"
proof -
  have pc: "pc_ok (first_of run w) (end_of run w) (pcs st w)" using inv w by (simp add: barrier_inv_def)
  have lohi: "first_of run w \<le> end_of run w" using share_mono [OF ok, of w "Suc w"] w by simp
  note loc = pool_left_local [OF w]
  show ?thesis
  proof (cases "pcs st w")
    case W_PIN
    with run have "perform (pin_step os (run_cfg run) w) (\<lambda>ok st.
        set_pc w (W_ARRIVE 0) (upd_result w (\<lambda>r. r\<lparr>affinity_ok := ok\<rparr>) st)) st = Some st'"
      by (simp add: worker_step_def)
    then show ?thesis
      by (cases rule: perform_cases)
         (use W_PIN e in \<open>auto simp: worker_left_def pool_left_exit intro!: loc [of _ _ "W_ARRIVE 0"]\<close>)
  next
    case (W_ARRIVE k)
    with run have "st' = barrier_arrive (nworkers run) w k st" by (simp add: worker_step_def)
    then show ?thesis
      using W_ARRIVE pc loc [of st' st "after_barrier k"] loc [of st' st "W_WAIT k (generation st)"]
      by (cases "arrived st + 1 = nworkers run")
         (auto simp: barrier_arrive_def worker_left_def after_barrier_def split: if_splits)
  next
    case (W_WAIT k g)
    with run have "st' = set_pc w (after_barrier k) st" by (auto simp: worker_step_def split: if_splits)
    with W_WAIT pc show ?thesis
      by (auto simp: worker_left_def after_barrier_def intro!: loc [of _ _ "after_barrier k"])
  next
    case (W_STAMP k)
    let ?pc = "\<lambda>start. if k = 0 then W_ADD start (first_of run w) else W_REMOVE start (first_of run w)"
    from W_STAMP run have "perform (now_ns os) (\<lambda>start. set_pc w (?pc start)) st = Some st'"
      by (simp add: worker_step_def)
    then show ?thesis
    proof (cases rule: perform_cases)
      case (ret s start)
      then show ?thesis
        using W_STAMP pc lohi by (intro loc [of _ _ "?pc start"]) (auto simp: worker_left_def)
    qed (use e pool_left_exit in auto)
  next
    case (W_ADD start i)
    with run have r: "add_step os run w start i st = Some st'" by (simp add: worker_step_def)
    show ?thesis
    proof (cases "i < end_of run w")
      case True
      with r obtain f where "perform (inotify_add_watch os (run_fds run ! i) (run_paths run ! i) IN_ATTRIB)
          (\<lambda>wd st. set_pc w (W_ADD start (i + 1)) (upd_result w (f wd) (st\<lparr>wds := (wds st)(i := wd)\<rparr>))) st = Some st'"
        by (auto simp: add_step_def)
      then show ?thesis
        by (cases rule: perform_cases)
           (use W_ADD True e in \<open>auto simp: worker_left_def pool_left_exit intro!: loc [of _ _ "W_ADD start (i + 1)"]\<close>)
    next
      case False
      with r have "perform (now_ns os) (\<lambda>now st.
          set_pc w (W_ARRIVE 1) (upd_result w (\<lambda>r. r\<lparr>add_elapsed_ns := now - start\<rparr>) st)) st = Some st'"
        by (simp add: add_step_def)
      then show ?thesis
        by (cases rule: perform_cases)
           (use W_ADD e in \<open>auto simp: worker_left_def pool_left_exit intro!: loc [of _ _ "W_ARRIVE 1"]\<close>)
    qed
  next
    case (W_REMOVE start i)
    with run have r: "remove_step os run w start i st = Some st'" by (simp add: worker_step_def)
    show ?thesis
    proof (cases "i < end_of run w")
      case True
      with r obtain m :: "('a, bool) prog" and f where "perform m
          (\<lambda>ok st. set_pc w (W_REMOVE start (i + 1)) (upd_result w (f ok) st)) st = Some st'"
        by (auto simp: remove_step_def split: if_splits)
      then show ?thesis
        by (cases rule: perform_cases)
           (use W_REMOVE True e in \<open>auto simp: worker_left_def pool_left_exit intro!: loc [of _ _ "W_REMOVE start (i + 1)"]\<close>)
    next
      case False
      with r have "perform (now_ns os) (\<lambda>now st.
          set_pc w (W_ARRIVE 2) (upd_result w (\<lambda>r. r\<lparr>remove_elapsed_ns := now - start\<rparr>) st)) st = Some st'"
        by (simp add: remove_step_def)
      then show ?thesis
        by (cases rule: perform_cases)
           (use W_REMOVE e in \<open>auto simp: worker_left_def pool_left_exit intro!: loc [of _ _ "W_ARRIVE 2"]\<close>)
    qed
  next
    case W_DONE
    with run show ?thesis by (simp add: worker_step_def)
  qed
qed

lemma main_step_less:
  assumes e: "ended st = None" and run: "main_step os run st = Some st'"
  shows "pool_left run st' < pool_left run st"
proof (cases "created st < nworkers run")
  case True
  with run have "perform (seq (invoke (io_thread_create os)) msg_unless)
      (\<lambda>_ st. st\<lparr>created := created st + 1\<rparr>) st = Some st'"
    by (simp add: main_step_def)
  then show ?thesis
    by (cases rule: perform_cases)
       (use e True pool_left_exit in \<open>auto simp: pool_left_def worker_left_def\<close>)
next
  case False
  with run have j: "joined st < nworkers run"
    and "perform (seq (invoke (io_thread_join os)) msg_unless)
      (\<lambda>_ st. st\<lparr>sums := add_totals (results st (joined st)) (sums st), joined := joined st + 1\<rparr>) st = Some st'"
    by (auto simp: main_step_def split: if_splits)
  from this(2) show ?thesis
    by (cases rule: perform_cases)
       (use e j pool_left_exit in \<open>auto simp: pool_left_def worker_left_def\<close>)
qed

lemma pool_step_less:
  assumes "sizes_ok (run_cfg run)" and "barrier_inv run st" and "pool_step os run actor st = Some st'"
  shows "pool_left run st' < pool_left run st"
proof (cases actor)
  case 0
  with assms show ?thesis by (auto simp: pool_step_def split: if_splits intro: main_step_less)
next
  case (Suc w)
  with assms have "w < nworkers run" "worker_step os run w st = Some st'" "ended st = None"
    by (auto simp: pool_step_def barrier_inv_def split: if_splits)
  with assms show ?thesis by (auto intro: worker_step_less)
qed

section \<open>Fair schedulers\<close>

definition fair :: "nat \<Rightarrow> (nat \<Rightarrow> nat) \<Rightarrow> bool" where
  "fair n sched \<longleftrightarrow> (\<forall>actor \<le> n. \<forall>t. \<exists>t' \<ge> t. sched t' = actor)"

lemma run_pool_idle:
  assumes "\<not> finished run st" and "n \<le> m" and "\<And>t. n \<le> t \<Longrightarrow> t < m \<Longrightarrow> pool_step os run (sched t) st = None"
  shows "run_pool os run sched n st = run_pool os run sched m st"
  using assms(2,3)
proof (induction "m - n" arbitrary: n)
  case (Suc k)
  then have "pool_step os run (sched n) st = None" by simp
  then have "run_pool os run sched n st = run_pool os run sched (n + 1) st"
    using assms(1) by (simp add: run_pool.simps [of os run sched n])
  also have "\<dots> = run_pool os run sched m st"
    using Suc by (intro Suc.hyps(1)) auto
  finally show ?case .
qed simp

lemma fair_run_ends:
  assumes ok: "sizes_ok (run_cfg run)" and fair: "fair (nworkers run) sched"
  shows "barrier_inv run st \<Longrightarrow> \<exists>st'. run_pool os run sched n st = Some st'"
proof (induction "pool_left run st" arbitrary: n st rule: less_induct)
  case less
  show ?case
  proof (cases "finished run st")
    case True
    then show ?thesis by (simp add: run_pool.simps)
  next
    case False
    obtain actor where a: "actor \<le> nworkers run" "pool_step os run actor st \<noteq> None"
      using some_actor_moves [OF less.prems False] by blast
    then obtain t where "t \<ge> n" "pool_step os run (sched t) st \<noteq> None"
      using fair unfolding fair_def by metis
    then have ex: "\<exists>t. n \<le> t \<and> pool_step os run (sched t) st \<noteq> None" by blast
    define m where "m = (LEAST t. n \<le> t \<and> pool_step os run (sched t) st \<noteq> None)"
    have m: "n \<le> m" "pool_step os run (sched m) st \<noteq> None"
      using LeastI_ex [OF ex] by (simp_all add: m_def)
    have idle: "pool_step os run (sched t) st = None" if "n \<le> t" "t < m" for t
      using not_less_Least [of t "\<lambda>t. n \<le> t \<and> pool_step os run (sched t) st \<noteq> None"] that
      by (auto simp: m_def)
    obtain st1 where s1: "pool_step os run (sched m) st = Some st1" using m by blast
    have "run_pool os run sched n st = run_pool os run sched m st"
      using run_pool_idle [where os = os and sched = sched, OF False m(1) idle] .
    also have "\<dots> = run_pool os run sched (m + 1) st1"
      using False s1 by (simp add: run_pool.simps [of os run sched m])
    finally have eq: "run_pool os run sched n st = run_pool os run sched (m + 1) st1" .
    have "barrier_inv run st1"
      using barrier_inv_moves [OF ok less.prems step [OF s1]] .
    with less.hyps pool_step_less [OF ok less.prems s1] show ?thesis unfolding eq by blast
  qed
qed

lemma run_threads_back:
  assumes "sizes_ok (run_cfg run)" and "fair (nworkers run) sched"
  shows "comes_back (run_threads os run sched)"
  using fair_run_ends [OF assms barrier_inv_initial [OF assms(1)]]
  by (fastforce simp: comes_back_def run_threads_def split: option.split)

end
