(* ===== verification/Inotify_Calls.thy ===== *)
theory Inotify_Calls
  imports Inotify_Progress
begin

text \<open>
  What the threads have asked the kernel to do: in every reachable state the calls made so far are
  the additions of the groups the workers have passed, each once, followed by the removals of the
  groups they have passed, each once; and the counters of the workers count the successful ones.
\<close>

section \<open>The invariant\<close>

abbreviation adds_of :: "topology_run \<Rightarrow> 'k pool \<Rightarrow> nat \<Rightarrow> nat" where
  "adds_of run st w \<equiv> adds_done (first_of run w) (end_of run w) (pcs st w)"

abbreviation removes_of :: "topology_run \<Rightarrow> 'k pool \<Rightarrow> nat \<Rightarrow> nat" where
  "removes_of run st w \<equiv> removes_done (first_of run w) (end_of run w) (pcs st w)"

definition added :: "topology_run \<Rightarrow> 'k pool \<Rightarrow> nat set" where
  "added run st = {j. \<exists>w < nworkers run. first_of run w \<le> j \<and> j < adds_of run st w}"

definition removed :: "topology_run \<Rightarrow> 'k pool \<Rightarrow> nat set" where
  "removed run st = {j. \<exists>w < nworkers run. first_of run w \<le> j \<and> j < removes_of run st w}"

definition add_call :: "topology_run \<Rightarrow> 'k pool \<Rightarrow> nat \<Rightarrow> ino_call" where
  "add_call run st j = ADD_WATCH (run_fds run ! j) (run_paths run ! j) IN_ATTRIB (wds st j)"

definition remove_call :: "topology_run \<Rightarrow> 'k pool \<Rightarrow> (nat \<Rightarrow> bool) \<Rightarrow> nat \<Rightarrow> ino_call" where
  "remove_call run st ok j = RM_WATCH (run_fds run ! j) (wds st j) (ok j)"

definition own_adds :: "topology_run \<Rightarrow> 'k pool \<Rightarrow> nat \<Rightarrow> nat set" where
  "own_adds run st w = {j. first_of run w \<le> j \<and> j < adds_of run st w \<and> 0 \<le> wds st j}"

definition own_removes :: "topology_run \<Rightarrow> 'k pool \<Rightarrow> (nat \<Rightarrow> bool) \<Rightarrow> nat \<Rightarrow> nat set" where
  "own_removes run st ok w = {j. first_of run w \<le> j \<and> j < removes_of run st w \<and> 0 \<le> wds st j \<and> ok j}"

text \<open>The process apart from the kernel and the calls.\<close>

definition same_but_calls :: "'k proc \<Rightarrow> 'k proc \<Rightarrow> bool" where
  "same_but_calls s t \<longleftrightarrow> cleanup_root t = cleanup_root s \<and> cleanup_enabled t = cleanup_enabled s \<and>
     at_exit t = at_exit s \<and> stdout_text t = stdout_text s \<and> held t = held s"

lemma same_but_calls_refl [simp]: "same_but_calls s s"
  by (simp add: same_but_calls_def)

lemma same_but_calls_trans: "same_but_calls s t \<Longrightarrow> same_but_calls t u \<Longrightarrow> same_but_calls s u"
  by (simp add: same_but_calls_def)

lemma same_proc_but_calls: "same_proc s t \<Longrightarrow> same_but_calls s t"
  by (simp add: same_but_calls_def same_proc_D)

definition calls_inv :: "topology_run \<Rightarrow> 'k proc \<Rightarrow> 'k pool \<Rightarrow> (nat \<Rightarrow> bool) \<Rightarrow> bool" where
  "calls_inv run s st ok \<longleftrightarrow>
     (\<exists>A R. calls (pproc st) = calls s @ A @ R \<and>
        mset A = image_mset (add_call run st) (mset_set (added run st)) \<and>
        mset R = image_mset (remove_call run st ok) (mset_set {j \<in> removed run st. 0 \<le> wds st j})) \<and>
     (\<forall>w < nworkers run. add_success (results st w) = of_nat (card (own_adds run st w)) \<and>
        remove_success (results st w) = of_nat (card (own_removes run st ok w)))"

definition sums_inv :: "topology_run \<Rightarrow> 'k pool \<Rightarrow> bool" where
  "sums_inv run st \<longleftrightarrow>
     t_add_success (sums st) = (\<Sum>w < joined st. add_success (results st w)) \<and>
     t_remove_success (sums st) = (\<Sum>w < joined st. remove_success (results st w))"

definition threads_inv :: "topology_run \<Rightarrow> 'k proc \<Rightarrow> 'k pool \<Rightarrow> bool" where
  "threads_inv run s st \<longleftrightarrow> same_but_calls s (pproc st) \<and> (\<exists>ok. calls_inv run s st ok) \<and> sums_inv run st"

lemma threads_inv_initial:
  "threads_inv run s (initial_pool s)"
proof -
  have "added run (initial_pool s) = {}" "removed run (initial_pool s) = {}"
    "own_adds run (initial_pool s) w = {}" "own_removes run (initial_pool s) ok w = {}" for w ok
    by (auto simp: initial_pool_def added_def removed_def own_adds_def own_removes_def)
  then show ?thesis
    by (simp add: threads_inv_def calls_inv_def sums_inv_def)
       (simp add: initial_pool_def zero_totals_def zero_result_def)
qed

section \<open>Steps that add and remove nothing\<close>

lemma calls_inv_neutral:
  assumes inv: "calls_inv run s st ok"
    and adds: "\<And>v. v < nworkers run \<Longrightarrow> adds_of run st' v = adds_of run st v"
    and removes: "\<And>v. v < nworkers run \<Longrightarrow> removes_of run st' v = removes_of run st v"
    and same: "wds st' = wds st" "calls (pproc st') = calls (pproc st)"
      "\<And>v. add_success (results st' v) = add_success (results st v)"
      "\<And>v. remove_success (results st' v) = remove_success (results st v)"
  shows "calls_inv run s st' ok"
proof -
  have "added run st' = added run st" "removed run st' = removed run st"
    using adds removes by (auto simp: added_def removed_def)
  moreover have "own_adds run st' v = own_adds run st v" "own_removes run st' ok v = own_removes run st ok v"
    if "v < nworkers run" for v
    using adds [OF that] removes [OF that] by (simp_all add: own_adds_def own_removes_def same(1))
  moreover have "add_call run st' = add_call run st" "remove_call run st' ok = remove_call run st ok"
    by (simp_all add: add_call_def [abs_def] remove_call_def [abs_def] fun_eq_iff same(1))
  ultimately show ?thesis
    using inv unfolding calls_inv_def by (simp add: same)
qed

lemma sums_inv_worker:
  assumes "sums_inv run st" and "barrier_inv run st" and "pcs st w \<noteq> W_DONE"
    and "joined st' = joined st" "sums st' = sums st" "\<And>v. v \<noteq> w \<Longrightarrow> results st' v = results st v"
  shows "sums_inv run st'"
proof -
  have "v \<noteq> w" if "v < joined st" for v
    using assms(2,3) that by (auto simp: barrier_inv_def)
  with assms show ?thesis by (simp add: sums_inv_def)
qed

section \<open>The two loops\<close>

lemma finite_added:
  assumes ok: "sizes_ok (run_cfg run)" and inv: "barrier_inv run st"
  shows "added run st \<subseteq> {..<ngroups run}" "removed run st \<subseteq> {..<ngroups run}"
proof -
  have hi: "end_of run w \<le> ngroups run" "first_of run w \<le> end_of run w" if "w < nworkers run" for w
    using share_le_items [OF ok, of "Suc w"] share_mono [OF ok, of w "Suc w"] that by auto
  have pc: "pc_ok (first_of run w) (end_of run w) (pcs st w)" if "w < nworkers run" for w
    using inv that by (simp add: barrier_inv_def)
  have "adds_of run st w \<le> end_of run w \<and> removes_of run st w \<le> end_of run w" if "w < nworkers run" for w
    using hi(2) [OF that] pc [OF that] by (cases "pcs st w") auto
  with hi show "added run st \<subseteq> {..<ngroups run}" "removed run st \<subseteq> {..<ngroups run}"
    unfolding added_def removed_def by fastforce+
qed

lemma adds_bounded:
  assumes ok: "sizes_ok (run_cfg run)" and inv: "barrier_inv run st" and w: "w < nworkers run"
  shows "first_of run w \<le> adds_of run st w" "adds_of run st w \<le> end_of run w"
    "first_of run w \<le> removes_of run st w" "removes_of run st w \<le> end_of run w"
proof -
  have "pc_ok (first_of run w) (end_of run w) (pcs st w)" using inv w by (simp add: barrier_inv_def)
  moreover have "first_of run w \<le> end_of run w" using share_mono [OF ok, of w "Suc w"] w by auto
  ultimately show "first_of run w \<le> adds_of run st w" "adds_of run st w \<le> end_of run w"
    "first_of run w \<le> removes_of run st w" "removes_of run st w \<le> end_of run w"
    by (cases "pcs st w"; auto)+
qed

lemma other_owner:
  assumes ok: "sizes_ok (run_cfg run)" and "v < nworkers run" "w < nworkers run" "v \<noteq> w"
    and "first_of run w \<le> i" "i < end_of run w"
  shows "\<not> (first_of run v \<le> i \<and> i < end_of run v)"
  using share_unique [OF ok assms(2,3)] assms by blast

lemma insert_done:
  assumes "w < n" and "f' = f(w := Suc i)" and "f w = i" and "lo w \<le> i"
  shows "{j. \<exists>v < n. lo v \<le> j \<and> j < f' v} = insert i {j. \<exists>v < n. lo v \<le> j \<and> j < (f :: nat \<Rightarrow> nat) v}"
  using assms by (auto simp: less_Suc_eq split: if_splits)

lemma calls_inv_add:
  assumes ok: "sizes_ok (run_cfg run)" and b: "barrier_inv run st" and inv: "calls_inv run s st okf"
    and w: "w < nworkers run" and pc: "pcs st w = W_ADD start i" and i: "i < end_of run w"
    and st': "pcs st' = (pcs st)(w := W_ADD start (Suc i))" "wds st' = (wds st)(i := wd)"
      "calls (pproc st') = calls (pproc st) @ [ADD_WATCH (run_fds run ! i) (run_paths run ! i) IN_ATTRIB wd]"
      "results st' = (results st)(w := r)"
    and r: "add_success r = add_success (results st w) + of_bool (0 \<le> wd)"
      "remove_success r = remove_success (results st w)"
  shows "calls_inv run s st' okf"
proof -
  have loi: "first_of run w \<le> i" using b w pc by (auto simp: barrier_inv_def)
  have gen: "generation st = 1"
    using b w pc in_step_passed [of "generation st" "pcs st w"] by (auto simp: barrier_inv_def)
  have p: "passed (pcs st v) \<le> 1" if "v < nworkers run" for v
    using b that gen in_step_close [of "generation st" "pcs st v"] by (auto simp: barrier_inv_def)
  then have rm: "removes_of run st v = first_of run v" if "v < nworkers run" for v
    using removes_need_two_barriers [of "first_of run v" "end_of run v" "pcs st v"] b that
    by (fastforce simp: barrier_inv_def)
  have rm': "removes_of run st' v = first_of run v" if "v < nworkers run" for v
    using rm [OF that] by (simp add: st')
  have nor: "removed run st = {}" "removed run st' = {}" "own_removes run st okf v = {}"
    "own_removes run st' okf v = {}" if "v < nworkers run" for v
    using rm rm' that by (auto simp: removed_def own_removes_def)
  have add: "adds_of run st' = (adds_of run st)(w := Suc i)" "adds_of run st w = i"
    by (auto simp: st' pc fun_eq_iff)
  have ins: "added run st' = insert i (added run st)"
    unfolding added_def
    using insert_done [of w "nworkers run" "adds_of run st'" "adds_of run st" i "first_of run"] w add loi
    by simp
  have notin: "i \<notin> added run st"
    using other_owner [OF ok _ w _ loi i] adds_bounded(2) [OF ok b] add(2)
    by (fastforce simp: added_def)
  have fin: "finite (added run st)" using finite_added(1) [OF ok b] finite_subset by blast
  have eqc: "image_mset (add_call run st') (mset_set (added run st')) =
      image_mset (add_call run st) (mset_set (added run st)) +
      {# ADD_WATCH (run_fds run ! i) (run_paths run ! i) IN_ATTRIB wd #}"
  proof -
    have "image_mset (add_call run st') (mset_set (added run st)) =
        image_mset (add_call run st) (mset_set (added run st))"
      by (rule image_mset_cong) (use notin fin in \<open>auto simp: add_call_def st'\<close>)
    then show ?thesis using notin fin by (simp add: ins add_call_def [of run st' i] st')
  qed
  have own: "own_adds run st' v = (if v = w \<and> 0 \<le> wd then insert i (own_adds run st v) else own_adds run st v)"
    "i \<notin> own_adds run st v" if v: "v < nworkers run" for v
  proof -
    have "\<not> (first_of run v \<le> i \<and> i < adds_of run st v)" if "v \<noteq> w"
      using other_owner [OF ok v w that loi i] adds_bounded(2) [OF ok b v] by auto
    then show "own_adds run st' v = (if v = w \<and> 0 \<le> wd then insert i (own_adds run st v) else own_adds run st v)"
      "i \<notin> own_adds run st v"
      using loi add by (cases "v = w"; auto simp: own_adds_def st' less_Suc_eq)+
  qed
  have finown: "finite (own_adds run st v)" for v
    by (rule finite_subset [of _ "{..<adds_of run st v}"]) (auto simp: own_adds_def)
  obtain A R where A: "calls (pproc st) = calls s @ A @ R"
      "mset A = image_mset (add_call run st) (mset_set (added run st))"
      "mset R = image_mset (remove_call run st okf) (mset_set {j \<in> removed run st. 0 \<le> wds st j})"
    using inv by (auto simp: calls_inv_def)
  have "R = []" using A(3) nor [OF w] by simp
  with A eqc nor [OF w] have "\<exists>A R. calls (pproc st') = calls s @ A @ R \<and>
        mset A = image_mset (add_call run st') (mset_set (added run st')) \<and>
        mset R = image_mset (remove_call run st' okf) (mset_set {j \<in> removed run st'. 0 \<le> wds st' j})"
    by (intro exI [of _ "A @ [ADD_WATCH (run_fds run ! i) (run_paths run ! i) IN_ATTRIB wd]"] exI [of _ "[]"])
       (simp add: st')
  moreover have "add_success (results st' v) = of_nat (card (own_adds run st' v))"
    "remove_success (results st' v) = of_nat (card (own_removes run st' okf v))" if v: "v < nworkers run" for v
    using inv v own [OF v] nor [OF v] r finown [of v] by (auto simp: calls_inv_def st')
  ultimately show ?thesis by (simp add: calls_inv_def)
qed

lemma calls_inv_remove:
  assumes ok: "sizes_ok (run_cfg run)" and b: "barrier_inv run st" and inv: "calls_inv run s st okf"
    and w: "w < nworkers run" and pc: "pcs st w = W_REMOVE start i" and i: "i < end_of run w"
    and st': "pcs st' = (pcs st)(w := W_REMOVE start (Suc i))" "wds st' = wds st"
      "results st' = (results st)(w := r)"
    and call: "if 0 \<le> wds st i
        then calls (pproc st') = calls (pproc st) @ [RM_WATCH (run_fds run ! i) (wds st i) gone]
        else calls (pproc st') = calls (pproc st) \<and> \<not> gone"
    and r: "remove_success r = remove_success (results st w) + of_bool gone"
      "add_success r = add_success (results st w)"
  shows "calls_inv run s st' (okf(i := gone))"
proof -
  let ?ok = "okf(i := gone)"
  have loi: "first_of run w \<le> i" using b w pc by (auto simp: barrier_inv_def)
  have addeq: "adds_of run st' v = adds_of run st v" for v by (simp add: st' pc)
  then have sameadd: "added run st' = added run st" "own_adds run st' v = own_adds run st v"
    "add_call run st' = add_call run st" for v
    by (auto simp: added_def own_adds_def add_call_def [abs_def] st' fun_eq_iff)
  have rem: "removes_of run st' = (removes_of run st)(w := Suc i)" "removes_of run st w = i"
    by (auto simp: st' pc fun_eq_iff)
  have ins: "removed run st' = insert i (removed run st)"
    unfolding removed_def
    using insert_done [of w "nworkers run" "removes_of run st'" "removes_of run st" i "first_of run"] w rem loi
    by simp
  have notin: "i \<notin> removed run st"
    using other_owner [OF ok _ w _ loi i] adds_bounded(4) [OF ok b] rem(2)
    by (fastforce simp: removed_def)
  have fin: "finite (removed run st)" using finite_added(2) [OF ok b] finite_subset by blast
  let ?D = "{j \<in> removed run st. 0 \<le> wds st j}" and ?D' = "{j \<in> removed run st'. 0 \<le> wds st' j}"
  have D': "?D' = (if 0 \<le> wds st i then insert i ?D else ?D)" by (auto simp: ins st')
  have img: "image_mset (remove_call run st' ?ok) (mset_set ?D) = image_mset (remove_call run st okf) (mset_set ?D)"
    by (rule image_mset_cong) (use notin fin in \<open>auto simp: remove_call_def st'\<close>)
  have own: "own_removes run st' ?ok v = (if v = w \<and> 0 \<le> wds st i \<and> gone then insert i (own_removes run st okf v)
      else own_removes run st okf v)" "i \<notin> own_removes run st okf v" if v: "v < nworkers run" for v
  proof -
    have "\<not> (first_of run v \<le> i \<and> i < removes_of run st v)" if "v \<noteq> w"
      using other_owner [OF ok v w that loi i] adds_bounded(4) [OF ok b v] by auto
    then show "own_removes run st' ?ok v = (if v = w \<and> 0 \<le> wds st i \<and> gone then insert i (own_removes run st okf v)
        else own_removes run st okf v)" "i \<notin> own_removes run st okf v"
      using loi rem by (cases "v = w"; auto simp: own_removes_def st' less_Suc_eq)+
  qed
  have finown: "finite (own_removes run st okf v)" for v
    by (rule finite_subset [of _ "{..<removes_of run st v}"]) (auto simp: own_removes_def)
  obtain A R where A: "calls (pproc st) = calls s @ A @ R"
      "mset A = image_mset (add_call run st) (mset_set (added run st))"
      "mset R = image_mset (remove_call run st okf) (mset_set ?D)"
    using inv by (auto simp: calls_inv_def)
  have "\<exists>A R. calls (pproc st') = calls s @ A @ R \<and>
        mset A = image_mset (add_call run st') (mset_set (added run st')) \<and>
        mset R = image_mset (remove_call run st' ?ok) (mset_set ?D')"
  proof (cases "0 \<le> wds st i")
    case True
    then have c: "calls (pproc st') = calls (pproc st) @ [RM_WATCH (run_fds run ! i) (wds st i) gone]"
      using call by simp
    have "image_mset (remove_call run st' ?ok) (mset_set ?D') =
        add_mset (RM_WATCH (run_fds run ! i) (wds st i) gone) (image_mset (remove_call run st okf) (mset_set ?D))"
      unfolding D' using True notin fin img by (simp add: remove_call_def [of run st' ?ok i] st')
    then show ?thesis
      using A c sameadd by (intro exI [of _ A] exI [of _ "R @ [RM_WATCH (run_fds run ! i) (wds st i) gone]"]) simp
  next
    case False
    then show ?thesis
      using A call sameadd img unfolding D' by (intro exI [of _ A] exI [of _ R]) simp
  qed
  moreover have "remove_success (results st' v) = of_nat (card (own_removes run st' ?ok v))"
    "add_success (results st' v) = of_nat (card (own_adds run st' v))" if v: "v < nworkers run" for v
    using inv v own [OF v] sameadd r finown [of v] call by (auto simp: calls_inv_def st')
  ultimately show ?thesis by (simp add: calls_inv_def)
qed

end
