(* ===== verification/Inotify_Threads.thy ===== *)
theory Inotify_Threads
  imports Inotify_Calls
begin

text \<open>
  The calls of a complete run of the threads: every step keeps the invariant of \<^theory_text>\<open>Inotify_Calls\<close>, and
  when the sums over the workers reach the number of groups, each group was added once with a
  watch and then, after all additions, removed once with success.
\<close>

section \<open>What the calls of the steps do\<close>

lemma run_post: "m s = Some (r, t) \<Longrightarrow> post m E Q s \<Longrightarrow> (case r of Inl c \<Rightarrow> E c t | Inr a \<Rightarrow> Q a t)"
  by (simp add: post_def)

lemma now_ns_post: "post (now_ns os) (\<lambda>c t. c = 1 \<and> same_proc s t) (\<lambda>a t. same_proc s t) s"
  by (simp add: now_ns_def post_simps split_beta Let_def split: sum.split)

lemma pin_step_post: "post (pin_step os cfg w) (\<lambda>c t. False) (\<lambda>a t. same_proc s t) s"
  by (simp add: pin_step_def pin_current_thread_def post_simps split_beta Let_def)

lemma add_watch_post:
  "post (inotify_add_watch os fd path m) (\<lambda>c t. False)
     (\<lambda>wd t. same_but_calls s t \<and> calls t = calls s @ [ADD_WATCH fd path m wd]) s"
  by (simp add: inotify_add_watch_def log_call_def post_simps split_beta Let_def same_but_calls_def)

lemma rm_watch_post:
  "post (inotify_rm_watch os fd wd) (\<lambda>c t. False)
     (\<lambda>ok t. same_but_calls s t \<and> calls t = calls s @ [RM_WATCH fd wd ok]) s"
  by (simp add: inotify_rm_watch_def log_call_def post_simps split_beta Let_def same_but_calls_def)

lemma thread_call_post: "post (seq (invoke f) msg_unless) (\<lambda>c t. c = 2 \<and> same_proc s t) (\<lambda>a t. same_proc s t) s"
  by (simp add: post_simps split_beta Let_def)

section \<open>The invariant is kept\<close>

text \<open>An exit code is 1 or 2, and the calls are only interrupted by an exit of a quiet call.\<close>

definition end_ok :: "'k pool \<Rightarrow> bool" where
  "end_ok st \<longleftrightarrow> (\<forall>code. ended st = Some code \<longrightarrow> code = 1 \<or> code = 2)"

lemma threads_inv_exit:
  assumes "threads_inv run s st" and "same_proc (pproc st) t"
  shows "threads_inv run s (st\<lparr>pproc := t, ended := e\<rparr>)"
proof -
  obtain ok where ok: "calls_inv run s st ok" using assms(1) by (auto simp: threads_inv_def)
  have "calls_inv run s (st\<lparr>pproc := t, ended := e\<rparr>) ok"
    by (rule calls_inv_neutral [OF ok]) (simp_all add: same_proc_D [OF assms(2)])
  moreover have "same_but_calls s t"
    using assms same_proc_but_calls same_but_calls_trans unfolding threads_inv_def by blast
  ultimately show ?thesis using assms(1) by (auto simp: threads_inv_def sums_inv_def)
qed

text \<open>A step of a worker that makes no inotify call.\<close>

lemma threads_inv_quiet:
  assumes inv: "threads_inv run s st" and b: "barrier_inv run st" and w: "pcs st w \<noteq> W_DONE"
    and proc: "same_proc (pproc st) (pproc st')"
    and pcs: "pcs st' = (pcs st)(w := pc)"
    and same_done: "adds_done (first_of run w) (end_of run w) pc = adds_of run st w"
      "removes_done (first_of run w) (end_of run w) pc = removes_of run st w"
    and eq: "wds st' = wds st" "joined st' = joined st" "sums st' = sums st"
    and res: "\<And>v. v \<noteq> w \<Longrightarrow> results st' v = results st v"
      "add_success (results st' w) = add_success (results st w)"
      "remove_success (results st' w) = remove_success (results st w)"
  shows "threads_inv run s st'"
proof -
  obtain ok where ok: "calls_inv run s st ok" using inv by (auto simp: threads_inv_def)
  have "calls_inv run s st' ok"
  proof (rule calls_inv_neutral [OF ok])
    show "add_success (results st' v) = add_success (results st v)"
      "remove_success (results st' v) = remove_success (results st v)" for v
      using res by (cases "v = w"; simp)+
  qed (simp_all add: pcs same_done eq same_proc_D [OF proc])
  moreover have "sums_inv run st'"
    using inv unfolding threads_inv_def by (intro sums_inv_worker [OF _ b w eq(2,3) res(1)]) auto
  moreover have "same_but_calls s (pproc st')"
    using inv same_proc_but_calls [OF proc] same_but_calls_trans by (auto simp: threads_inv_def)
  ultimately show ?thesis by (auto simp: threads_inv_def)
qed

lemma add_step_inv:
  assumes ok: "sizes_ok (run_cfg run)" and b: "barrier_inv run st" and inv: "threads_inv run s st"
    and w: "w < nworkers run" and pc: "pcs st w = W_ADD start i" and i: "i < end_of run w"
    and run: "add_step os run w start i st = Some st'"
  shows "threads_inv run s st' \<and> ended st' = ended st"
proof -
  obtain okf where c: "calls_inv run s st okf" using inv by (auto simp: threads_inv_def)
  let ?m = "inotify_add_watch os (run_fds run ! i) (run_paths run ! i) IN_ATTRIB"
  let ?f = "\<lambda>wd r. if wd \<ge> 0 then r\<lparr>add_success := add_success r + 1\<rparr> else r\<lparr>wr_unexpected := wr_unexpected r + 1\<rparr>"
  from run i have p: "perform ?m (\<lambda>wd st. set_pc w (W_ADD start (i + 1))
      (upd_result w (?f wd) (st\<lparr>wds := (wds st)(i := wd)\<rparr>))) st = Some st'"
    by (simp add: add_step_def)
  from p show ?thesis
  proof (cases rule: perform_cases)
    case (exit t code)
    from run_post [OF exit(1) add_watch_post [of _ _ _ _ "pproc st"]] show ?thesis by simp
  next
    case (ret t wd)
    from run_post [OF ret(1) add_watch_post [of _ _ _ _ "pproc st"]]
    have t: "same_but_calls (pproc st) t"
      "calls t = calls (pproc st) @ [ADD_WATCH (run_fds run ! i) (run_paths run ! i) IN_ATTRIB wd]"
      by simp_all
    have "calls_inv run s st' okf"
    proof (rule calls_inv_add [OF ok b c w pc i])
      show "pcs st' = (pcs st)(w := W_ADD start (Suc i))" "wds st' = (wds st)(i := wd)"
        "results st' = (results st)(w := ?f wd (results st w))"
        by (simp_all add: ret(2))
      show "calls (pproc st') = calls (pproc st) @ [ADD_WATCH (run_fds run ! i) (run_paths run ! i) IN_ATTRIB wd]"
        by (simp add: ret(2) t(2))
    qed auto
    moreover have "sums_inv run st'"
      using inv pc by (simp add: sums_inv_worker [of run st w, OF _ b] threads_inv_def ret(2))
    moreover have "same_but_calls s (pproc st')"
      using inv t(1) same_but_calls_trans by (auto simp: threads_inv_def ret(2))
    ultimately show ?thesis by (auto simp: threads_inv_def ret(2))
  qed
qed

lemma remove_step_inv:
  assumes ok: "sizes_ok (run_cfg run)" and b: "barrier_inv run st" and inv: "threads_inv run s st"
    and w: "w < nworkers run" and pc: "pcs st w = W_REMOVE start i" and i: "i < end_of run w"
    and run: "remove_step os run w start i st = Some st'"
  shows "threads_inv run s st' \<and> ended st' = ended st"
proof -
  obtain okf where c: "calls_inv run s st okf" using inv by (auto simp: threads_inv_def)
  let ?m = "if wds st i \<ge> 0 then inotify_rm_watch os (run_fds run ! i) (wds st i) else give False"
  let ?f = "\<lambda>ok r. if ok then r\<lparr>remove_success := remove_success r + 1\<rparr> else r\<lparr>wr_unexpected := wr_unexpected r + 1\<rparr>"
  have m: "post ?m (\<lambda>c t. False) (\<lambda>gone t. same_but_calls (pproc st) t \<and>
      (if 0 \<le> wds st i then calls t = calls (pproc st) @ [RM_WATCH (run_fds run ! i) (wds st i) gone]
       else calls t = calls (pproc st) \<and> \<not> gone)) (pproc st)"
    using rm_watch_post [of os "run_fds run ! i" "wds st i" "pproc st"] by (auto simp: post_simps)
  from run i have p: "perform ?m (\<lambda>gone st. set_pc w (W_REMOVE start (i + 1)) (upd_result w (?f gone) st)) st = Some st'"
    by (simp add: remove_step_def)
  from p show ?thesis
  proof (cases rule: perform_cases)
    case (exit t code)
    from run_post [OF exit(1) m] show ?thesis by simp
  next
    case (ret t gone)
    from run_post [OF ret(1) m] have t: "same_but_calls (pproc st) t"
      "if 0 \<le> wds st i then calls t = calls (pproc st) @ [RM_WATCH (run_fds run ! i) (wds st i) gone]
       else calls t = calls (pproc st) \<and> \<not> gone"
      by simp_all
    have "calls_inv run s st' (okf(i := gone))"
    proof (rule calls_inv_remove [OF ok b c w pc i])
      show "pcs st' = (pcs st)(w := W_REMOVE start (Suc i))" "wds st' = wds st"
        "results st' = (results st)(w := ?f gone (results st w))"
        by (simp_all add: ret(2))
      show "if 0 \<le> wds st i then calls (pproc st') = calls (pproc st) @ [RM_WATCH (run_fds run ! i) (wds st i) gone]
          else calls (pproc st') = calls (pproc st) \<and> \<not> gone"
        using t(2) by (simp add: ret(2))
    qed auto
    moreover have "sums_inv run st'"
      using inv pc by (simp add: sums_inv_worker [of run st w, OF _ b] threads_inv_def ret(2))
    moreover have "same_but_calls s (pproc st')"
      using inv t(1) same_but_calls_trans by (auto simp: threads_inv_def ret(2))
    ultimately show ?thesis by (auto simp: threads_inv_def ret(2))
  qed
qed

lemma worker_step_inv:
  assumes ok: "sizes_ok (run_cfg run)" and b: "barrier_inv run st" and inv: "threads_inv run s st"
    and e: "end_ok st" and w: "w < nworkers run" and run: "worker_step os run w st = Some st'"
  shows "threads_inv run s st' \<and> end_ok st'"
proof -
  have pc: "pc_ok (first_of run w) (end_of run w) (pcs st w)" "in_step (generation st) (pcs st w)"
    using b w by (simp_all add: barrier_inv_def)
  note quiet = threads_inv_quiet [OF inv b]
  have clock: "threads_inv run s st' \<and> end_ok st'"
    if p: "perform (now_ns os) (\<lambda>now st. set_pc w (npc now) (upd_result w (f now) st)) st = Some st'"
      and d: "pcs st w \<noteq> W_DONE" "\<And>now. adds_done (first_of run w) (end_of run w) (npc now) = adds_of run st w"
        "\<And>now. removes_done (first_of run w) (end_of run w) (npc now) = removes_of run st w"
      and f: "\<And>now r. add_success (f now r) = add_success r" "\<And>now r. remove_success (f now r) = remove_success r"
    for npc f
    using p
  proof (cases rule: perform_cases)
    case (exit t code)
    from run_post [OF exit(1) now_ns_post [of _ "pproc st"]] have "code = 1" "same_proc (pproc st) t" by simp_all
    then show ?thesis using threads_inv_exit [OF inv] by (simp add: exit(2) end_ok_def)
  next
    case (ret t now)
    from run_post [OF ret(1) now_ns_post [of _ "pproc st"]] have "same_proc (pproc st) t" by simp
    then have "threads_inv run s st'"
      unfolding ret(2) by (intro quiet [where w = w and pc = "npc now"]) (simp_all add: d f)
    then show ?thesis using e by (simp add: ret(2) end_ok_def)
  qed
  show ?thesis
  proof (cases "pcs st w")
    case W_PIN
    with run have p: "perform (pin_step os (run_cfg run) w) (\<lambda>ok st.
        set_pc w (W_ARRIVE 0) (upd_result w (\<lambda>r. r\<lparr>affinity_ok := ok\<rparr>) st)) st = Some st'"
      by (simp add: worker_step_def)
    then show ?thesis
    proof (cases rule: perform_cases)
      case (exit t code)
      from run_post [OF exit(1) pin_step_post [of _ _ _ "pproc st"]] show ?thesis by simp
    next
      case (ret t a)
      from run_post [OF ret(1) pin_step_post [of _ _ _ "pproc st"]] have "same_proc (pproc st) t" by simp
      then have "threads_inv run s st'"
        unfolding ret(2) using W_PIN by (intro quiet [where w = w and pc = "W_ARRIVE 0"]) simp_all
      then show ?thesis using e by (simp add: ret(2) end_ok_def)
    qed
  next
    case (W_ARRIVE k)
    then have st': "st' = barrier_arrive (nworkers run) w k st" using run by (simp add: worker_step_def)
    have "threads_inv run s st'"
    proof (cases "arrived st + 1 = nworkers run")
      case True
      then show ?thesis
        unfolding st' barrier_arrive_def using W_ARRIVE pc(1)
        by (simp, intro quiet [where w = w and pc = "after_barrier k"]) (auto simp: after_barrier_def)
    next
      case False
      then show ?thesis
        unfolding st' barrier_arrive_def using W_ARRIVE
        by (simp, intro quiet [where w = w and pc = "W_WAIT k (generation st)"]) auto
    qed
    then show ?thesis using e by (simp add: st' barrier_arrive_def end_ok_def)
  next
    case (W_WAIT k g)
    then have st': "st' = set_pc w (after_barrier k) st" using run by (auto simp: worker_step_def split: if_splits)
    have "threads_inv run s st'"
      unfolding st' using W_WAIT pc(1)
      by (intro quiet [where w = w and pc = "after_barrier k"]) (auto simp: after_barrier_def)
    then show ?thesis using e by (simp add: st' end_ok_def)
  next
    case (W_STAMP k)
    let ?pc = "\<lambda>start. if k = 0 then W_ADD start (first_of run w) else W_REMOVE start (first_of run w)"
    have "perform (now_ns os) (\<lambda>start st. set_pc w (?pc start) (upd_result w (\<lambda>r. r) st)) st = Some st'"
      using W_STAMP run by (simp add: worker_step_def upd_result_def)
    then show ?thesis
      by (rule clock) (use W_STAMP pc(1) in \<open>auto split: if_splits\<close>)
  next
    case (W_ADD start i)
    with run have r: "add_step os run w start i st = Some st'" by (simp add: worker_step_def)
    show ?thesis
    proof (cases "i < end_of run w")
      case True
      with add_step_inv [OF ok b inv w W_ADD True r] e show ?thesis by (simp add: end_ok_def)
    next
      case False
      with pc(1) W_ADD have "i = end_of run w" by simp
      with False r W_ADD show ?thesis
        by (intro clock [where npc = "\<lambda>now. W_ARRIVE 1" and f = "\<lambda>now r. r\<lparr>add_elapsed_ns := now - start\<rparr>"])
           (simp_all add: add_step_def)
    qed
  next
    case (W_REMOVE start i)
    with run have r: "remove_step os run w start i st = Some st'" by (simp add: worker_step_def)
    show ?thesis
    proof (cases "i < end_of run w")
      case True
      with remove_step_inv [OF ok b inv w W_REMOVE True r] e show ?thesis by (simp add: end_ok_def)
    next
      case False
      with pc(1) W_REMOVE have "i = end_of run w" by simp
      with False r W_REMOVE show ?thesis
        by (intro clock [where npc = "\<lambda>now. W_ARRIVE 2" and f = "\<lambda>now r. r\<lparr>remove_elapsed_ns := now - start\<rparr>"])
           (simp_all add: remove_step_def)
    qed
  next
    case W_DONE
    with run show ?thesis by (simp add: worker_step_def)
  qed
qed

text \<open>A step of the main thread leaves the workers alone.\<close>

lemma threads_inv_main:
  assumes inv: "threads_inv run s st" and proc: "same_proc (pproc st) (pproc st')"
    and eq: "pcs st' = pcs st" "wds st' = wds st" "results st' = results st"
    and sums: "sums_inv run st \<Longrightarrow> sums_inv run st'"
  shows "threads_inv run s st'"
proof -
  obtain ok where "calls_inv run s st ok" using inv by (auto simp: threads_inv_def)
  then have "calls_inv run s st' ok"
    by (rule calls_inv_neutral) (simp_all add: eq same_proc_D [OF proc])
  with inv sums same_proc_but_calls [OF proc] show ?thesis
    by (auto simp: threads_inv_def intro: same_but_calls_trans)
qed

lemma main_step_inv:
  assumes inv: "threads_inv run s st" and e: "end_ok st" and run: "main_step os run st = Some st'"
  shows "threads_inv run s st' \<and> end_ok st'"
proof -
  have both: "threads_inv run s st' \<and> end_ok st'"
    if p: "perform (seq (invoke f) msg_unless) (\<lambda>_. g) st = Some st'"
      and g: "\<And>x. pcs (g x) = pcs x" "\<And>x. wds (g x) = wds x" "\<And>x. results (g x) = results x"
        "\<And>x. pproc (g x) = pproc x" "\<And>x. ended (g x) = ended x" "\<And>x. sums_inv run x \<Longrightarrow> sums_inv run (g x)"
    for f g
    using p
  proof (cases rule: perform_cases)
    case (exit t code)
    from run_post [OF exit(1) thread_call_post [of _ "pproc st"]] have "code = 2" "same_proc (pproc st) t" by simp_all
    then show ?thesis using threads_inv_exit [OF inv] by (simp add: exit(2) end_ok_def)
  next
    case (ret t a)
    from run_post [OF ret(1) thread_call_post [of _ "pproc st"]] have t: "same_proc (pproc st) t" by simp
    have "sums_inv run (g (st\<lparr>pproc := t\<rparr>))" if "sums_inv run st"
      by (rule g(6)) (use that in \<open>simp add: sums_inv_def\<close>)
    with t g have "threads_inv run s st'"
      unfolding ret(2) by (intro threads_inv_main [OF inv]) simp_all
    then show ?thesis using e g by (simp add: ret(2) end_ok_def)
  qed
  show ?thesis
  proof (cases "created st < nworkers run")
    case True
    with run have "perform (seq (invoke (io_thread_create os)) msg_unless)
        (\<lambda>_ st. st\<lparr>created := created st + 1\<rparr>) st = Some st'"
      by (simp add: main_step_def)
    then show ?thesis by (rule both) (simp_all add: sums_inv_def)
  next
    case False
    with run have "perform (seq (invoke (io_thread_join os)) msg_unless)
        (\<lambda>_ st. st\<lparr>sums := add_totals (results st (joined st)) (sums st), joined := joined st + 1\<rparr>) st = Some st'"
      by (auto simp: main_step_def split: if_splits)
    then show ?thesis by (rule both) (simp_all add: sums_inv_def add_totals_def)
  qed
qed

lemma threads_inv_reachable:
  assumes ok: "sizes_ok (run_cfg run)" and "(moves os run)\<^sup>*\<^sup>* (initial_pool s) st"
  shows "threads_inv run s st \<and> end_ok st"
  using assms(2)
proof (induction rule: rtranclp_induct)
  case base
  show ?case using threads_inv_initial [of run s] by (simp add: end_ok_def initial_pool_def)
next
  case (step st st')
  have b: "barrier_inv run st" using barrier_inv_reachable [OF ok step.hyps(1)] .
  from step.hyps(2) obtain actor where a: "pool_step os run actor st = Some st'" by (rule moves_elim)
  show ?case
  proof (cases actor)
    case 0
    with a have "main_step os run st = Some st'" by (simp add: pool_step_def split: if_splits)
    with step.IH main_step_inv show ?thesis by blast
  next
    case (Suc w)
    with a b have "w < nworkers run" "worker_step os run w st = Some st'"
      by (auto simp: pool_step_def barrier_inv_def split: if_splits)
    with step.IH worker_step_inv [OF ok b] show ?thesis by blast
  qed
qed

section \<open>A complete run\<close>

text \<open>When every worker is done the shares add up to all the groups.\<close>

lemma done_sets:
  assumes ok: "sizes_ok (run_cfg run)" and all: "\<And>w. w < nworkers run \<Longrightarrow> pcs st w = W_DONE"
  shows "added run st = {..<ngroups run}" "removed run st = {..<ngroups run}"
proof -
  have mem: "(\<exists>w < nworkers run. first_of run w \<le> j \<and> j < end_of run w) \<longleftrightarrow> j < ngroups run" for j
  proof
    assume "\<exists>w < nworkers run. first_of run w \<le> j \<and> j < end_of run w"
    then show "j < ngroups run" using share_le_items [OF ok] by (meson Suc_leI less_le_trans)
  next
    assume "j < ngroups run"
    then show "\<exists>w < nworkers run. first_of run w \<le> j \<and> j < end_of run w"
      using share_owner [OF ok, of "nworkers run" j] share_ends [OF ok] by simp
  qed
  show "added run st = {..<ngroups run}" "removed run st = {..<ngroups run}"
    using all by (simp_all add: added_def removed_def lessThan_def flip: mem cong: conj_cong)
qed

lemma sum_own:
  assumes ok: "sizes_ok (run_cfg run)"
  shows "(\<Sum>w < nworkers run. card {j. first_of run w \<le> j \<and> j < end_of run w \<and> P j}) =
    card {j. j < ngroups run \<and> P j}"
proof -
  have "(\<Sum>w < n. card {j. first_of run w \<le> j \<and> j < end_of run w \<and> P j}) =
      card {j. j < unat (share_begin (run_cfg run) n) \<and> P j}" if "n \<le> nworkers run" for n
    using that
  proof (induction n)
    case 0
    then show ?case using share_ends [OF ok] by simp
  next
    case (Suc n)
    let ?lo = "unat (share_begin (run_cfg run) n)" and ?hi = "unat (share_begin (run_cfg run) (Suc n))"
    have "?lo \<le> ?hi" using share_mono [OF ok, of n "Suc n"] Suc.prems by simp
    then have split: "{j. j < ?hi \<and> P j} = {j. j < ?lo \<and> P j} \<union> {j. ?lo \<le> j \<and> j < ?hi \<and> P j}" by auto
    have "finite {j. j < ?lo \<and> P j}" "finite {j. ?lo \<le> j \<and> j < ?hi \<and> P j}"
      by (auto intro: finite_subset [of _ "{..<?hi}"])
    then have "card {j. j < ?hi \<and> P j} = card {j. j < ?lo \<and> P j} + card {j. ?lo \<le> j \<and> j < ?hi \<and> P j}"
      unfolding split by (intro card_Un_disjoint) auto
    with Suc show ?case by simp
  qed
  from this [of "nworkers run"] show ?thesis using share_ends [OF ok] by simp
qed

lemma full_count:
  assumes "of_nat (card {j. j < unat n \<and> P j}) = (n :: u64)" and "j < unat n"
  shows "P j"
proof -
  have fin: "finite {j. j < unat n \<and> P j}" by simp
  have le: "card {j. j < unat n \<and> P j} \<le> unat n"
    using card_mono [of "{..<unat n}" "{j. j < unat n \<and> P j}"] by auto
  then have "card {j. j < unat n \<and> P j} < 2 ^ 64"
    using unsigned_less [where ?'a = nat, of n] by simp
  then have "unat (of_nat (card {j. j < unat n \<and> P j}) :: u64) = card {j. j < unat n \<and> P j}"
    by (simp add: unat_of_nat)
  with assms(1) have "card {j. j < unat n \<and> P j} = card {..<unat n}" by simp
  then have "{j. j < unat n \<and> P j} = {..<unat n}"
    by (intro card_subset_eq) auto
  with assms(2) show ?thesis by auto
qed

text \<open>What the threads have done when their counts come out right.\<close>

definition all_watched :: "topology_run \<Rightarrow> 'k proc \<Rightarrow> 'k proc \<Rightarrow> (nat \<Rightarrow> int) \<Rightarrow> bool" where
  "all_watched run s t wd \<longleftrightarrow> (\<exists>A R. calls t = calls s @ A @ R \<and> (\<forall>j < ngroups run. 0 \<le> wd j) \<and>
     mset A = mset (map (\<lambda>j. ADD_WATCH (run_fds run ! j) (run_paths run ! j) IN_ATTRIB (wd j)) [0..<ngroups run]) \<and>
     mset R = mset (map (\<lambda>j. RM_WATCH (run_fds run ! j) (wd j) True) [0..<ngroups run]))"

lemma finished_all_watched:
  assumes ok: "sizes_ok (run_cfg run)" and mv: "(moves os run)\<^sup>*\<^sup>* (initial_pool s) st"
    and fin: "joined st = nworkers run"
    and counts: "t_add_success (sums st) = items (run_cfg run)" "t_remove_success (sums st) = items (run_cfg run)"
  shows "all_watched run s (pproc st) (wds st)"
proof -
  have b: "barrier_inv run st" using barrier_inv_reachable [OF ok mv] .
  obtain okf where c: "calls_inv run s st okf" and su: "sums_inv run st"
    using threads_inv_reachable [OF ok mv] by (auto simp: threads_inv_def)
  have all: "pcs st w = W_DONE" if "w < nworkers run" for w using b fin that by (auto simp: barrier_inv_def)
  note sets = done_sets [OF ok all]
  have own: "add_success (results st w) = of_nat (card {j. first_of run w \<le> j \<and> j < end_of run w \<and> 0 \<le> wds st j})"
    "remove_success (results st w) =
       of_nat (card {j. first_of run w \<le> j \<and> j < end_of run w \<and> 0 \<le> wds st j \<and> okf j})"
    if "w < nworkers run" for w
    using c that all [OF that] by (simp_all add: calls_inv_def own_adds_def own_removes_def)
  have "t_add_success (sums st) = of_nat (\<Sum>w < nworkers run. card {j. first_of run w \<le> j \<and> j < end_of run w \<and> 0 \<le> wds st j})"
    using su own by (simp add: sums_inv_def fin)
  then have wd: "0 \<le> wds st j" if "j < ngroups run" for j
    using full_count [where P = "\<lambda>j. 0 \<le> wds st j", OF _ that] counts(1) sum_own [OF ok] by simp
  have "t_remove_success (sums st) =
      of_nat (\<Sum>w < nworkers run. card {j. first_of run w \<le> j \<and> j < end_of run w \<and> 0 \<le> wds st j \<and> okf j})"
    using su own by (simp add: sums_inv_def fin)
  then have gone: "okf j" if "j < ngroups run" for j
    using full_count [where P = "\<lambda>j. 0 \<le> wds st j \<and> okf j", OF _ that] counts(2) sum_own [OF ok] by simp
  obtain A R where A: "calls (pproc st) = calls s @ A @ R"
      "mset A = image_mset (add_call run st) (mset_set (added run st))"
      "mset R = image_mset (remove_call run st okf) (mset_set {j \<in> removed run st. 0 \<le> wds st j})"
    using c by (auto simp: calls_inv_def)
  have "{j \<in> removed run st. 0 \<le> wds st j} = {..<ngroups run}" using wd sets by auto
  moreover have "image_mset (remove_call run st okf) (mset_set {..<ngroups run}) =
      image_mset (\<lambda>j. RM_WATCH (run_fds run ! j) (wds st j) True) (mset_set {..<ngroups run})"
    by (rule image_mset_cong) (use gone in \<open>simp add: remove_call_def\<close>)
  moreover have "mset (map f [0..<ngroups run]) = image_mset f (mset_set {..<ngroups run})" for f :: "nat \<Rightarrow> ino_call"
    by (simp add: lessThan_atLeast0)
  ultimately show ?thesis
    using A wd sets unfolding all_watched_def add_call_def [abs_def] by auto
qed

lemma run_threads_post:
  assumes ok: "sizes_ok (run_cfg run)"
  shows "post (run_threads os run sched) (\<lambda>c t. (c = 1 \<or> c = 2) \<and> same_but_calls s t)
    (\<lambda>st t. same_but_calls s t \<and>
       (t_add_success (sums st) = items (run_cfg run) \<and> t_remove_success (sums st) = items (run_cfg run) \<longrightarrow>
        all_watched run s t (wds st))) s"
proof -
  have "(ended st = None \<longrightarrow> same_but_calls s (pproc st) \<and>
          (t_add_success (sums st) = items (run_cfg run) \<and> t_remove_success (sums st) = items (run_cfg run) \<longrightarrow>
           all_watched run s (pproc st) (wds st))) \<and>
        (\<forall>c. ended st = Some c \<longrightarrow> (c = 1 \<or> c = 2) \<and> same_but_calls s (pproc st))"
    if "run_pool os run sched 0 (initial_pool s) = Some st" for st
  proof -
    from run_pool_moves [OF that] have mv: "(moves os run)\<^sup>*\<^sup>* (initial_pool s) st" and fin: "finished run st"
      by simp_all
    from threads_inv_reachable [OF ok mv] have "same_but_calls s (pproc st)" "end_ok st"
      by (simp_all add: threads_inv_def)
    with fin finished_all_watched [OF ok mv] show ?thesis by (auto simp: end_ok_def finished_def)
  qed
  then show ?thesis
    by (auto simp: post_def wp_def run_threads_def split: option.split)
qed

end
