(* ===== verification/Inotify_Runs.thy ===== *)
theory Inotify_Runs
  imports Inotify_Threads
begin

text \<open>
  The fixture, the four scenarios, \<open>main\<close>, and what happens at exit.
\<close>

section \<open>Printing\<close>

definition hex_char :: "nat \<Rightarrow> char" where
  "hex_char d = char_of (if d < 10 then 48 + d else 87 + d)"

fun hex :: "nat \<Rightarrow> string" where
  "hex n = (if n < 16 then [hex_char n] else hex (n div 16) @ [hex_char (n mod 16)])"

declare hex.simps [simp del]

definition lu :: "u64 \<Rightarrow> string" where
  "lu v = dec (unat v)"

definition int_text :: "int \<Rightarrow> string" where
  "int_text n = (if n < 0 then CHR ''-'' # dec (nat (- n)) else dec (nat n))"

definition flag :: "bool \<Rightarrow> string" where
  "flag b = (if b then ''1'' else ''0'')"

definition field :: "string \<Rightarrow> string \<Rightarrow> string" where
  "field name v = name @ ''='' @ v @ '' ''"

fun comma_list :: "int list \<Rightarrow> string" where
  "comma_list [] = []"
| "comma_list [n] = int_text n"
| "comma_list (n # ns) = int_text n @ '','' @ comma_list ns"

text \<open>The three limits of the system the program reads.\<close>

record limits =
  max_instances :: u64
  max_watches :: u64
  max_queue :: u64

definition common_prefix :: "config \<Rightarrow> string \<Rightarrow> u64 \<Rightarrow> u64 \<Rightarrow> u64 \<Rightarrow> u64 \<Rightarrow> u64 \<Rightarrow> u64 \<Rightarrow> limits \<Rightarrow> u64 \<Rightarrow> string" where
  "common_prefix cfg topo groups paths inodes marks connectors churn lim fs_type =
     ''result '' @ field ''scenario'' (scenario_name cfg) @ field ''topology'' topo @
     field ''filesystem_magic'' (''0x'' @ hex (unat fs_type)) @ field ''workers'' (dec (unat (workers cfg))) @
     field ''cpu_list'' (if \<not> have_cpu_list cfg then ''none''
                         else comma_list (take (unat (workers cfg)) (cpus cfg))) @
     field ''groups'' (lu groups) @ field ''paths'' (lu paths) @ field ''inode_count'' (lu inodes) @
     field ''marks'' (lu marks) @ field ''expected_connectors'' (lu connectors) @
     field ''expected_timed_connector_churn'' (lu churn) @
     field ''sysctl_max_instances'' (lu (max_instances lim)) @
     field ''sysctl_max_watches'' (lu (max_watches lim)) @ field ''sysctl_max_queue'' (lu (max_queue lim))"

definition status :: "bool \<Rightarrow> string" where
  "status ok = ''semantic_status='' @ (if ok then ''PASS'' else ''FAIL'') @ [CHR 0x0A]"

section \<open>The fixture\<close>

definition read_ulong_file :: "'k ino_os \<Rightarrow> string \<Rightarrow> ('k, u64) prog" where
  "read_ulong_file os path =
     seq (invoke (io_read_file os path)) (\<lambda>contents. case contents of
       None \<Rightarrow> die
     | Some txt \<Rightarrow>
         seq (invoke (io_fclose os)) (\<lambda>closed. case scan_lu txt of
           None \<Rightarrow> die_msg
         | Some v \<Rightarrow> seq (die_unless closed) (\<lambda>_. give v)))"

definition read_limits :: "'k ino_os \<Rightarrow> ('k, limits) prog" where
  "read_limits os =
     seq (read_ulong_file os ''/proc/sys/fs/inotify/max_user_instances'') (\<lambda>a.
     seq (read_ulong_file os ''/proc/sys/fs/inotify/max_user_watches'') (\<lambda>b.
     seq (read_ulong_file os ''/proc/sys/fs/inotify/max_queued_events'') (\<lambda>c.
     give \<lparr>max_instances = a, max_watches = b, max_queue = c\<rparr>)))"

definition stat_file :: "'k ino_os \<Rightarrow> string \<Rightarrow> ('k, file_stat) prog" where
  "stat_file os path = seq (invoke (io_stat os path)) (\<lambda>st. case st of None \<Rightarrow> die | Some st \<Rightarrow> give st)"

text \<open>\<open>snprintf\<close> into a buffer of \<open>PATH_MAX\<close> bytes that must not truncate.\<close>

definition path_fits :: "string \<Rightarrow> ('k, unit) prog" where
  "path_fits txt = msg_unless (length txt < PATH_MAX)"

definition make_fixture_root :: "'k ino_os \<Rightarrow> config \<Rightarrow> string \<Rightarrow> ('k, unit) prog" where
  "make_fixture_root os cfg tag =
     (let template = test_dir cfg @ ''/fsnotify-'' @ tag @ ''.XXXXXX''
      in seq (stat_file os (test_dir cfg)) (\<lambda>st.
         seq (msg_unless (st_is_dir st)) (\<lambda>_.
         seq (path_fits template) (\<lambda>_.
         seq (invoke (io_mkdtemp os template)) (\<lambda>created. case created of
           None \<Rightarrow> die
         | Some root \<Rightarrow>
             seq (log_call (MADE_TEMP template root)) (\<lambda>_.
             seq (change (\<lambda>s. s\<lparr>cleanup_root := take (PATH_MAX - 1) root\<rparr>)) (\<lambda>_.
             seq (path_fits root) (\<lambda>_.
             seq (change (\<lambda>s. s\<lparr>cleanup_enabled := \<not> keep_files cfg\<rparr>)) (\<lambda>_.
             seq (invoke (io_atexit os)) (\<lambda>registered.
             seq (msg_unless registered) (\<lambda>_.
             change (\<lambda>s. s\<lparr>at_exit := True\<rparr>))))))))))))"

definition get_root :: "('k, string) prog" where
  "get_root s = Some (Inr (cleanup_root s), s)"

definition make_dir :: "'k ino_os \<Rightarrow> string \<Rightarrow> ('k, unit) prog" where
  "make_dir os path = seq (invoke (io_mkdir os path)) die_unless"

definition make_file :: "'k ino_os \<Rightarrow> string \<Rightarrow> ('k, unit) prog" where
  "make_file os path =
     seq (invoke (io_create os path)) (\<lambda>fd.
     seq (hold fd) (\<lambda>_.
     seq (die_unless (0 \<le> fd)) (\<lambda>_.
     seq (close_fd os fd) die_unless)))"

definition get_statfs :: "'k ino_os \<Rightarrow> string \<Rightarrow> ('k, u64) prog" where
  "get_statfs os path = seq (invoke (io_statfs os path)) (\<lambda>r. case r of None \<Rightarrow> die | Some f_type \<Rightarrow> give f_type)"

definition new_group :: "'k ino_os \<Rightarrow> ('k, int) prog" where
  "new_group os = seq (inotify_init1 os) (\<lambda>fd. seq (die_unless (0 \<le> fd)) (\<lambda>_. give fd))"

text \<open>\<open>run.paths[i] = xasprintf("%s/f-%08lu", data_dir, i)\<close> for every \<open>i\<close>.\<close>

definition make_paths :: "'k ino_os \<Rightarrow> string \<Rightarrow> string \<Rightarrow> nat \<Rightarrow> ('k, string list) prog" where
  "make_paths os dir middle n =
     loop (\<lambda>i paths. seq (xasprintf os dir middle i) (\<lambda>path. give (paths @ [path]))) [0..<n] []"

definition make_links :: "'k ino_os \<Rightarrow> topology \<Rightarrow> string \<Rightarrow> string list \<Rightarrow> ('k, unit) prog" where
  "make_links os topo keeper paths =
     (if topo = TOPO_SHARED
      then
        seq (path_fits keeper) (\<lambda>_.
        seq (make_file os keeper) (\<lambda>_.
        each (\<lambda>path. seq (invoke (io_link os keeper path)) die_unless) paths))
      else each (make_file os) paths)"

definition open_groups :: "'k ino_os \<Rightarrow> string list \<Rightarrow> ('k, int list) prog" where
  "open_groups os paths =
     loop (\<lambda>i fds. seq (stat_file os (paths ! i)) (\<lambda>_. seq (new_group os) (\<lambda>fd. give (fds @ [fd]))))
       [0..<length paths] []"

text \<open>The group and the watch that keep the shared inode's connector alive.\<close>

definition open_keeper :: "'k ino_os \<Rightarrow> topology \<Rightarrow> string \<Rightarrow> ('k, int \<times> int) prog" where
  "open_keeper os topo keeper =
     (if topo = TOPO_SHARED
      then
        seq (new_group os) (\<lambda>fd.
        seq (inotify_add_watch os fd keeper IN_ATTRIB) (\<lambda>wd.
        seq (die_unless (0 \<le> wd)) (\<lambda>_. give (fd, wd))))
      else give (-1, -1))"

section \<open>The topology scenario\<close>

definition add_counts :: "event_counts \<Rightarrow> event_counts \<Rightarrow> event_counts" where
  "add_counts a b = \<lparr>ev_ignored = ev_ignored a + ev_ignored b, ev_overflow = ev_overflow a + ev_overflow b,
     ev_unexpected = ev_unexpected a + ev_unexpected b\<rparr>"

definition drain_groups :: "'k ino_os \<Rightarrow> int list \<Rightarrow> ('k, event_counts) prog" where
  "drain_groups os fds =
     loop (\<lambda>i total.
       seq (drain_events os (fds ! i)) (\<lambda>cs.
       seq (close_fd os (fds ! i)) (\<lambda>closed.
       seq (die_unless closed) (\<lambda>_. give (add_counts total cs))))) [0..<length fds] zero_counts"

text \<open>The result is whether the keeper's queue was not what it should be.\<close>

definition close_keeper :: "'k ino_os \<Rightarrow> topology \<Rightarrow> int \<times> int \<Rightarrow> ('k, bool) prog" where
  "close_keeper os topo keeper =
     (if topo = TOPO_SHARED
      then
        seq (inotify_rm_watch os (fst keeper) (snd keeper)) (\<lambda>gone.
        seq (die_unless gone) (\<lambda>_.
        seq (drain_events os (fst keeper)) (\<lambda>cs.
        seq (close_fd os (fst keeper)) (\<lambda>closed.
        seq (die_unless closed) (\<lambda>_.
        give (ev_ignored cs \<noteq> 1 \<or> ev_overflow cs \<noteq> 0 \<or> ev_unexpected cs \<noteq> 0))))))
      else give False)"

definition topology_ok :: "u64 \<Rightarrow> totals \<Rightarrow> event_counts \<Rightarrow> u64 \<Rightarrow> bool" where
  "topology_ok groups t ev unexpected \<longleftrightarrow>
     t_add_success t = groups \<and> t_remove_success t = groups \<and> ev_ignored ev = groups \<and>
     ev_overflow ev = 0 \<and> ev_unexpected ev = 0 \<and> unexpected = 0 \<and> t_affinity_ok t"

definition topology_text :: "'k ino_os \<Rightarrow> config \<Rightarrow> limits \<Rightarrow> u64 \<Rightarrow> totals \<Rightarrow> event_counts \<Rightarrow> u64 \<Rightarrow> string" where
  "topology_text os cfg lim fs_type t ev unexpected =
     (let groups = items cfg; distinct_inodes = (cfg_topology cfg = TOPO_DISTINCT)
      in common_prefix cfg (topology_name cfg) groups groups (if distinct_inodes then groups else 1) groups
           (if distinct_inodes then groups else 1) (if distinct_inodes then groups else 0) lim fs_type @
         field ''setup_keeper_marks'' (flag (cfg_topology cfg = TOPO_SHARED)) @ field ''operations'' (lu groups) @
         field ''add_success'' (lu (t_add_success t)) @ field ''remove_success'' (lu (t_remove_success t)) @
         field ''ignored_events'' (lu (ev_ignored ev)) @ field ''overflow_events'' (lu (ev_overflow ev)) @
         field ''unexpected_results'' (lu (unexpected + ev_unexpected ev)) @
         field ''affinity_ok'' (flag (t_affinity_ok t)) @ field ''add_wall_ns'' (lu (t_add_max t)) @
         field ''remove_wall_ns'' (lu (t_remove_max t)) @ field ''add_worker_ns_sum'' (lu (t_add_sum t)) @
         field ''remove_worker_ns_sum'' (lu (t_remove_sum t)) @
         field ''add_wall_ns_per_watch'' (io_ratio3 os (t_add_max t) groups) @
         field ''remove_wall_ns_per_watch'' (io_ratio3 os (t_remove_max t) groups) @
         field ''add_worker_ns_per_watch'' (io_ratio3 os (t_add_sum t) groups) @
         field ''remove_worker_ns_per_watch'' (io_ratio3 os (t_remove_sum t) groups) @
         status (topology_ok groups t ev unexpected))"

text \<open>Everything up to the creation of the threads: the groups, their paths and the keeper.\<close>

definition topology_setup :: "'k ino_os \<Rightarrow> config \<Rightarrow> limits \<Rightarrow> ('k, topology_run \<times> (int \<times> int) \<times> u64) prog" where
  "topology_setup os cfg lim =
     seq (msg_unless (\<not> items cfg + (if cfg_topology cfg = TOPO_SHARED then 1 else 0) + 8 > max_instances lim)) (\<lambda>_.
     seq (msg_unless (\<not> items cfg + 1 > max_watches lim)) (\<lambda>_.
     seq (make_fixture_root os cfg ''topology'') (\<lambda>_.
     seq get_root (\<lambda>root.
     let data_dir = root @ ''/p''; keeper = data_dir @ ''/keeper''
     in seq (path_fits data_dir) (\<lambda>_.
        seq (make_dir os data_dir) (\<lambda>_.
        seq (each (\<lambda>i. xcalloc os) [0..<3]) (\<lambda>_.
        seq (make_paths os data_dir ''/f-'' (unat (items cfg))) (\<lambda>paths.
        seq (make_links os (cfg_topology cfg) keeper paths) (\<lambda>_.
        seq (verify_inode_shape os paths (cfg_topology cfg)) (\<lambda>shape_ok.
        seq (msg_unless shape_ok) (\<lambda>_.
        seq (open_groups os paths) (\<lambda>fds.
        seq (open_keeper os (cfg_topology cfg) keeper) (\<lambda>keeper_mark.
        seq (get_statfs os root) (\<lambda>fs_type.
        seq (each (\<lambda>i. xcalloc os) [0..<3]) (\<lambda>_.
        seq (seq (invoke (io_barrier_init os)) msg_unless) (\<lambda>_.
        give (\<lparr>run_cfg = cfg, run_paths = paths, run_fds = fds\<rparr>, keeper_mark, fs_type)))))))))))))))))"

definition run_topology :: "'k ino_os \<Rightarrow> config \<Rightarrow> (nat \<Rightarrow> nat) \<Rightarrow> ('k, int) prog" where
  "run_topology os cfg sched =
     seq (read_limits os) (\<lambda>lim.
     seq (topology_setup os cfg lim) (\<lambda>(run, keeper_mark, fs_type).
     seq (run_threads os run sched) (\<lambda>st.
     seq (drain_groups os (run_fds run)) (\<lambda>ev.
     seq (close_keeper os (cfg_topology cfg) keeper_mark) (\<lambda>keeper_bad.
     let unexpected = t_unexpected (sums st) + of_bool keeper_bad
     in seq (printf (topology_text os cfg lim fs_type (sums st) ev unexpected)) (\<lambda>_.
        give (if topology_ok (items cfg) (sums st) ev unexpected then 0 else 1)))))))"

section \<open>The other scenarios\<close>

definition pin_first :: "'k ino_os \<Rightarrow> config \<Rightarrow> ('k, bool) prog" where
  "pin_first os cfg = (if \<not> have_cpu_list cfg then give True else pin_current_thread os (cpus cfg ! 0))"

definition BULK_MASK :: u32 where
  "BULK_MASK = IN_CREATE OR IN_DELETE OR IN_MOVED_FROM OR IN_MOVED_TO"

text \<open>A loop of calls with a count of those that went well and of those that did not.\<close>

definition tally_call :: "bool \<Rightarrow> u64 \<times> u64 \<Rightarrow> u64 \<times> u64" where
  "tally_call ok t = (if ok then (fst t + 1, snd t) else (fst t, snd t + 1))"

definition bulk_adds :: "'k ino_os \<Rightarrow> int \<Rightarrow> string list \<Rightarrow> u64 \<Rightarrow> ('k, int list \<times> u64 \<times> u64) prog" where
  "bulk_adds os fd paths unexpected =
     loop (\<lambda>i (ws, t).
       seq (inotify_add_watch os fd (paths ! i) BULK_MASK) (\<lambda>wd. give (ws @ [wd], tally_call (0 \<le> wd) t)))
       [0..<length paths] ([], 0, unexpected)"

definition bulk_removes :: "'k ino_os \<Rightarrow> int \<Rightarrow> int list \<Rightarrow> u64 \<Rightarrow> ('k, u64 \<times> u64) prog" where
  "bulk_removes os fd ws unexpected =
     loop (\<lambda>i t.
       seq (if 0 \<le> ws ! i then inotify_rm_watch os fd (ws ! i) else give False) (\<lambda>gone.
       give (tally_call gone t))) [0..<length ws] (0, unexpected)"

definition bulk_dirs :: "'k ino_os \<Rightarrow> string \<Rightarrow> nat \<Rightarrow> ('k, string list) prog" where
  "bulk_dirs os dir n =
     loop (\<lambda>i paths.
       seq (xasprintf os dir ''/d-'' i) (\<lambda>path.
       seq (make_dir os path) (\<lambda>_.
       seq (stat_file os path) (\<lambda>_. give (paths @ [path]))))) [0..<n] []"

definition bulk_ok :: "u64 \<Rightarrow> u64 \<Rightarrow> u64 \<Rightarrow> event_counts \<Rightarrow> u64 \<Rightarrow> bool \<Rightarrow> bool" where
  "bulk_ok n adds removes ev unexpected affinity \<longleftrightarrow>
     adds = n \<and> removes = n \<and> ev_ignored ev = n \<and> ev_overflow ev = 0 \<and> ev_unexpected ev = 0 \<and>
     unexpected = 0 \<and> affinity"

definition bulk_text :: "'k ino_os \<Rightarrow> config \<Rightarrow> limits \<Rightarrow> u64 \<Rightarrow> u64 \<Rightarrow> u64 \<Rightarrow> event_counts \<Rightarrow> u64 \<Rightarrow> bool \<Rightarrow>
    u64 \<Rightarrow> u64 \<Rightarrow> string" where
  "bulk_text os cfg lim fs_type adds removes ev unexpected affinity add_ns remove_ns =
     (let n = items cfg
      in common_prefix cfg ''natural'' 1 n n n n n lim fs_type @
         field ''operations'' (lu n) @ field ''add_success'' (lu adds) @ field ''remove_success'' (lu removes) @
         field ''ignored_events'' (lu (ev_ignored ev)) @ field ''overflow_events'' (lu (ev_overflow ev)) @
         field ''unexpected_results'' (lu (unexpected + ev_unexpected ev)) @ field ''affinity_ok'' (flag affinity) @
         field ''add_elapsed_ns'' (lu add_ns) @ field ''remove_elapsed_ns'' (lu remove_ns) @
         field ''add_ns_per_watch'' (io_ratio3 os add_ns n) @ field ''remove_ns_per_watch'' (io_ratio3 os remove_ns n) @
         status (bulk_ok n adds removes ev unexpected affinity))"

definition run_bulk :: "'k ino_os \<Rightarrow> config \<Rightarrow> ('k, int) prog" where
  "run_bulk os cfg =
     seq (read_limits os) (\<lambda>lim.
     seq (msg_unless (\<not> items cfg + 8 > max_watches lim)) (\<lambda>_.
     seq (msg_unless (\<not> items cfg \<ge> max_queue lim)) (\<lambda>_.
     seq (make_fixture_root os cfg ''bulk'') (\<lambda>_.
     seq get_root (\<lambda>root.
     seq (path_fits (root @ ''/d'')) (\<lambda>_.
     seq (make_dir os (root @ ''/d'')) (\<lambda>_.
     seq (each (\<lambda>i. xcalloc os) [0..<2]) (\<lambda>_.
     seq (bulk_dirs os (root @ ''/d'') (unat (items cfg))) (\<lambda>paths.
     seq (get_statfs os root) (\<lambda>fs_type.
     seq (pin_first os cfg) (\<lambda>affinity.
     seq (new_group os) (\<lambda>fd.
     seq (now_ns os) (\<lambda>start.
     seq (bulk_adds os fd paths 0) (\<lambda>(ws, adds, unexpected).
     seq (now_ns os) (\<lambda>stop.
     seq (unique_wds os ws) (\<lambda>unique.
     seq (now_ns os) (\<lambda>start2.
     seq (bulk_removes os fd ws (if unique then unexpected else unexpected + 1)) (\<lambda>(removes, unexpected).
     seq (now_ns os) (\<lambda>stop2.
     seq (drain_events os fd) (\<lambda>ev.
     seq (close_fd os fd) (\<lambda>closed.
     seq (die_unless closed) (\<lambda>_.
     seq (printf (bulk_text os cfg lim fs_type adds removes ev unexpected affinity (stop - start) (stop2 - start2))) (\<lambda>_.
     give (if bulk_ok (items cfg) adds removes ev unexpected affinity then 0 else 1))))))))))))))))))))))))"

definition setup_single_file :: "'k ino_os \<Rightarrow> config \<Rightarrow> string \<Rightarrow> ('k, string \<times> u64 \<times> bool) prog" where
  "setup_single_file os cfg tag =
     seq (make_fixture_root os cfg tag) (\<lambda>_.
     seq get_root (\<lambda>root.
     seq (path_fits (root @ ''/target'')) (\<lambda>_.
     seq (make_file os (root @ ''/target'')) (\<lambda>_.
     seq (get_statfs os root) (\<lambda>fs_type.
     seq (pin_first os cfg) (\<lambda>affinity. give (root @ ''/target'', fs_type, affinity)))))))"

text \<open>\<open>i & 1 ? IN_ATTRIB : IN_MODIFY\<close>\<close>

definition update_mask :: "nat \<Rightarrow> u32" where
  "update_mask i = (if odd i then IN_ATTRIB else IN_MODIFY)"

definition mask_updates :: "'k ino_os \<Rightarrow> int \<Rightarrow> string \<Rightarrow> int \<Rightarrow> nat \<Rightarrow> ('k, u64 \<times> u64) prog" where
  "mask_updates os fd path wd n =
     loop (\<lambda>i t. seq (inotify_add_watch os fd path (update_mask i)) (\<lambda>ret. give (tally_call (ret = wd) t)))
       [0..<n] (0, 0)"

definition update_ok :: "u64 \<Rightarrow> u64 \<Rightarrow> u64 \<Rightarrow> event_counts \<Rightarrow> bool \<Rightarrow> bool" where
  "update_ok n success unexpected ev affinity \<longleftrightarrow>
     success = n \<and> unexpected = 0 \<and> ev_ignored ev = 1 \<and> ev_overflow ev = 0 \<and> ev_unexpected ev = 0 \<and> affinity"

definition update_text :: "'k ino_os \<Rightarrow> config \<Rightarrow> limits \<Rightarrow> u64 \<Rightarrow> u64 \<Rightarrow> u64 \<Rightarrow> event_counts \<Rightarrow> bool \<Rightarrow> u64 \<Rightarrow> string" where
  "update_text os cfg lim fs_type success unexpected ev affinity elapsed =
     common_prefix cfg ''existing'' 1 1 1 1 1 0 lim fs_type @
     field ''operations'' (lu (items cfg)) @ field ''update_success'' (lu success) @
     field ''ignored_events'' (lu (ev_ignored ev)) @ field ''overflow_events'' (lu (ev_overflow ev)) @
     field ''unexpected_results'' (lu (unexpected + ev_unexpected ev)) @ field ''affinity_ok'' (flag affinity) @
     field ''elapsed_ns'' (lu elapsed) @ field ''update_ns_per_call'' (io_ratio3 os elapsed (items cfg)) @
     status (update_ok (items cfg) success unexpected ev affinity)"

definition run_mask_update :: "'k ino_os \<Rightarrow> config \<Rightarrow> ('k, int) prog" where
  "run_mask_update os cfg =
     seq (read_limits os) (\<lambda>lim.
     seq (setup_single_file os cfg ''mask'') (\<lambda>(path, fs_type, affinity).
     seq (new_group os) (\<lambda>fd.
     seq (inotify_add_watch os fd path IN_ATTRIB) (\<lambda>wd.
     seq (die_unless (0 \<le> wd)) (\<lambda>_.
     seq (inotify_add_watch os fd path IN_MODIFY) (\<lambda>again.
     seq (msg_unless (again = wd)) (\<lambda>_.
     seq (inotify_add_watch os fd path IN_ATTRIB) (\<lambda>again.
     seq (msg_unless (again = wd)) (\<lambda>_.
     seq (now_ns os) (\<lambda>start.
     seq (mask_updates os fd path wd (unat (items cfg))) (\<lambda>(success, unexpected).
     seq (now_ns os) (\<lambda>stop.
     seq (inotify_rm_watch os fd wd) (\<lambda>gone.
     seq (drain_events os fd) (\<lambda>ev.
     seq (close_fd os fd) (\<lambda>closed.
     seq (die_unless closed) (\<lambda>_.
     let unexpected = unexpected + of_bool (\<not> gone)
     in seq (printf (update_text os cfg lim fs_type success unexpected ev affinity (stop - start))) (\<lambda>_.
        give (if update_ok (items cfg) success unexpected ev affinity then 0 else 1))))))))))))))))))"

definition open_path :: "'k ino_os \<Rightarrow> string \<Rightarrow> ('k, int) prog" where
  "open_path os path =
     seq (invoke (io_open_path os path)) (\<lambda>fd.
     seq (hold fd) (\<lambda>_.
     seq (log_call (OPEN_PATH path fd)) (\<lambda>_. give fd)))"

definition lookups :: "'k ino_os \<Rightarrow> string \<Rightarrow> nat \<Rightarrow> ('k, u64 \<times> u64) prog" where
  "lookups os path n =
     loop (\<lambda>i (success, unexpected).
       seq (open_path os path) (\<lambda>fd.
         if 0 \<le> fd
         then seq (close_fd os fd) (\<lambda>closed.
              give (success + 1, if closed then unexpected else unexpected + 1))
         else give (success, unexpected + 1))) [0..<n] (0, 0)"

definition lookup_text :: "'k ino_os \<Rightarrow> config \<Rightarrow> limits \<Rightarrow> u64 \<Rightarrow> u64 \<Rightarrow> u64 \<Rightarrow> bool \<Rightarrow> u64 \<Rightarrow> string" where
  "lookup_text os cfg lim fs_type success unexpected affinity elapsed =
     common_prefix cfg ''none'' 0 1 1 0 0 0 lim fs_type @
     field ''operations'' (lu (items cfg)) @ field ''lookup_success'' (lu success) @
     field ''unexpected_results'' (lu unexpected) @ field ''affinity_ok'' (flag affinity) @
     field ''elapsed_ns'' (lu elapsed) @ field ''lookup_ns_per_call'' (io_ratio3 os elapsed (items cfg)) @
     status (success = items cfg \<and> unexpected = 0 \<and> affinity)"

definition run_path_lookup :: "'k ino_os \<Rightarrow> config \<Rightarrow> ('k, int) prog" where
  "run_path_lookup os cfg =
     seq (read_limits os) (\<lambda>lim.
     seq (setup_single_file os cfg ''lookup'') (\<lambda>(path, fs_type, affinity).
     seq (each (\<lambda>i.
            seq (open_path os path) (\<lambda>fd.
            seq (die_unless (0 \<le> fd)) (\<lambda>_.
            seq (close_fd os fd) (\<lambda>closed. give ())))) [0..<16]) (\<lambda>_.
     seq (now_ns os) (\<lambda>start.
     seq (lookups os path (unat (items cfg))) (\<lambda>(success, unexpected).
     seq (now_ns os) (\<lambda>stop.
     seq (printf (lookup_text os cfg lim fs_type success unexpected affinity (stop - start))) (\<lambda>_.
     give (if success = items cfg \<and> unexpected = 0 \<and> affinity then 0 else 1))))))))"

section \<open>main and exit\<close>

definition main :: "'k ino_os \<Rightarrow> (string \<Rightarrow> string option) \<Rightarrow> (nat \<Rightarrow> nat) \<Rightarrow> ('k, int) prog" where
  "main os env sched =
     seq (load_config os env) (\<lambda>cfg.
       case cfg_scenario cfg of
         SCENARIO_TOPOLOGY \<Rightarrow> run_topology os cfg sched
       | SCENARIO_BULK \<Rightarrow> run_bulk os cfg
       | SCENARIO_MASK_UPDATE \<Rightarrow> run_mask_update os cfg
       | SCENARIO_PATH_LOOKUP \<Rightarrow> run_path_lookup os cfg)"

text \<open>\<open>nftw\<close> ends the walk at the first \<open>remove\<close> that fails.\<close>

fun remove_paths :: "'k ino_os \<Rightarrow> string list \<Rightarrow> 'k proc \<Rightarrow> 'k proc" where
  "remove_paths os [] s = s"
| "remove_paths os (path # paths) s =
     (let (ok, x) = io_remove os path (kst s);
          t = s\<lparr>kst := x, calls := calls s @ [REMOVED path ok]\<rparr>
      in if ok then remove_paths os paths t else t)"

definition cleanup_fixture :: "'k ino_os \<Rightarrow> 'k proc \<Rightarrow> 'k proc" where
  "cleanup_fixture os s =
     (if cleanup_enabled s \<and> cleanup_root s \<noteq> []
      then (let (paths, x) = io_walk os (cleanup_root s) (kst s) in remove_paths os paths (s\<lparr>kst := x\<rparr>))
      else s)"

text \<open>A return from \<open>main\<close> and a call of \<open>exit\<close> both run what \<open>atexit\<close> has registered.\<close>

definition run_process :: "'k ino_os \<Rightarrow> (string \<Rightarrow> string option) \<Rightarrow> (nat \<Rightarrow> nat) \<Rightarrow> 'k proc
    \<Rightarrow> (int \<times> 'k proc) option" where
  "run_process os env sched s =
     (case main os env sched s of
        None \<Rightarrow> None
      | Some (r, t) \<Rightarrow>
          Some (case r of Inl code \<Rightarrow> code | Inr code \<Rightarrow> code, if at_exit t then cleanup_fixture os t else t))"

end
