(* ===== verification/Inotify_Process.thy ===== *)
theory Inotify_Process
  imports Inotify_Runs "HOL-Library.Sublist"
begin

text \<open>
  The process as a whole: it comes back under a fair scheduler, it exits with 0, 1 or 2, and it
  removes only what lies below the directory it has made.
\<close>

section \<open>What most computations keep\<close>

text \<open>The registration of the clean-up; nothing has been removed.\<close>

definition calm :: "'k proc \<Rightarrow> 'k proc \<Rightarrow> bool" where
  "calm s t \<longleftrightarrow> cleanup_root t = cleanup_root s \<and> cleanup_enabled t = cleanup_enabled s \<and>
     at_exit t = at_exit s \<and> (\<exists>cs. calls t = calls s @ cs \<and> (\<forall>p ok. REMOVED p ok \<notin> set cs))"

lemma calm_refl [simp]: "calm s s"
  by (auto simp: calm_def)

lemma calm_trans: "calm s t \<Longrightarrow> calm t u \<Longrightarrow> calm s u"
  by (auto simp: calm_def)

definition keeps :: "('k, 'a) prog \<Rightarrow> bool" where
  "keeps m \<longleftrightarrow> (\<forall>s. post m (\<lambda>c t. (c = 1 \<or> c = 2) \<and> calm s t) (\<lambda>a t. calm s t) s)"

named_theorems keeps_intro \<open>computations that leave the clean-up alone\<close>

lemma keepsD: "keeps m \<Longrightarrow> post m (\<lambda>c t. (c = 1 \<or> c = 2) \<and> calm s t) (\<lambda>a t. calm s t) s"
  by (simp add: keeps_def)

lemma keeps_prims [keeps_intro]:
  "keeps (give a)" "keeps die" "keeps die_msg" "keeps (invoke f)" "keeps (die_unless b)" "keeps (msg_unless b)"
  "keeps (hold fd)" "keeps get_root" "keeps (printf txt)"
  by (auto simp: keeps_def post_simps calm_def hold_def printf_def split_beta Let_def)
     (simp add: post_def get_root_def)

lemma keeps_from_sum [keeps_intro]: "(\<And>c. x = Inl c \<Longrightarrow> c = 2) \<Longrightarrow> keeps (from_sum x)"
  by (auto simp: keeps_def post_simps split: sum.split)

lemma keeps_log [keeps_intro]: "(\<And>p ok. c \<noteq> REMOVED p ok) \<Longrightarrow> keeps (log_call c)"
  by (auto simp: keeps_def post_simps calm_def log_call_def)

lemma keeps_seq [keeps_intro]:
  assumes "keeps m" and "\<And>a. keeps (f a)"
  shows "keeps (seq m f)"
  unfolding keeps_def
proof
  fix s
  show "post (seq m f) (\<lambda>c t. (c = 1 \<or> c = 2) \<and> calm s t) (\<lambda>a t. calm s t) s"
    by (rule post_seqI [OF keepsD [OF assms(1)]])
       (rule post_mono [OF keepsD [OF assms(2)]], auto intro: calm_trans)
qed

lemma keeps_if [keeps_intro]: "(b \<Longrightarrow> keeps m) \<Longrightarrow> (\<not> b \<Longrightarrow> keeps m') \<Longrightarrow> keeps (if b then m else m')"
  by simp

lemma keeps_split [keeps_intro]: "(\<And>x y. keeps (f x y)) \<Longrightarrow> keeps (case p of (x, y) \<Rightarrow> f x y)"
  by (cases p) simp

lemma keeps_option [keeps_intro]: "keeps m \<Longrightarrow> (\<And>x. keeps (f x)) \<Longrightarrow> keeps (case v of None \<Rightarrow> m | Some x \<Rightarrow> f x)"
  by (cases v) simp_all

lemma keeps_sum [keeps_intro]: "(\<And>x. keeps (f x)) \<Longrightarrow> (\<And>y. keeps (g y)) \<Longrightarrow> keeps (case v of Inl x \<Rightarrow> f x | Inr y \<Rightarrow> g y)"
  by (cases v) simp_all

lemma keeps_Let [keeps_intro]: "(\<And>x. keeps (f x)) \<Longrightarrow> keeps (let x = e in f x)"
  by simp

lemma keeps_loop [keeps_intro]: "(\<And>i a. keeps (f i a)) \<Longrightarrow> keeps (loop f is a)"
  by (induction "is" arbitrary: a) (auto intro!: keeps_intro)

lemma keeps_each [keeps_intro]: "(\<And>i. keeps (f i)) \<Longrightarrow> keeps (each f is)"
  unfolding each_def by (intro keeps_intro)

lemma keeps_same_but_calls:
  assumes "\<And>s. post m (\<lambda>c t. (c = 1 \<or> c = 2) \<and> calm s t) (\<lambda>a t. calm s t) s"
  shows "keeps m"
  using assms by (simp add: keeps_def)

lemma same_proc_calm: "same_proc s t \<Longrightarrow> calm s t"
  by (simp add: calm_def same_proc_D)

text \<open>The loops of \<open>drain_events\<close>, by fixpoint induction.\<close>

lemma drain_loop_result:
  assumes "drain_loop os fd mem cs s = Some (r, t)"
  shows "same_proc s t \<and> (\<forall>c. r = Inl c \<longrightarrow> c = 1 \<or> c = 2)"
proof -
  have w: "walk_events mem bytes cursor cs = Inl c \<Longrightarrow> c = 2" for mem bytes cursor cs c
    by (induction mem bytes cursor cs rule: walk_events.induct)
       (subst (asm) (2) walk_events.simps, auto split: if_splits)
  let ?P = "\<lambda>(s :: 'a proc) (y :: (int + event_counts) \<times> 'a proc).
    same_proc s (snd y) \<and> (\<forall>c. fst y = Inl c \<longrightarrow> c = 1 \<or> c = 2)"
  have "?P s (r, t)"
  proof (rule drain_loop.raw_induct [where P = "\<lambda>os fd mem cs s y. ?P s y", OF _ assms])
    fix go os fd mem cs s y
    assume IH: "\<And>os fd mem cs s y. go os fd mem cs s = Some y \<Longrightarrow> ?P s y"
      and run: "(let (r, x) = io_read os fd EVENT_BUFFER_SIZE (kst s); s1 = s\<lparr>kst := x\<rparr>
        in case r of
             Inl e \<Rightarrow> if e = EINTR then go os fd mem cs s1 else if e = EAGAIN then Some (Inr cs, s1) else Some (Inl 1, s1)
           | Inr bytes \<Rightarrow> if bytes = [] then Some (Inr cs, s1)
               else (case walk_events (put_bytes bytes mem) (length bytes) 0 cs of
                       Inl code \<Rightarrow> Some (Inl code, s1)
                     | Inr cs1 \<Rightarrow> go os fd (put_bytes bytes mem) cs1 s1)) = Some y"
    obtain r x where io: "io_read os fd EVENT_BUFFER_SIZE (kst s) = (r, x)" by (cases "io_read os fd EVENT_BUFFER_SIZE (kst s)")
    have s1: "same_proc s (s\<lparr>kst := x\<rparr>)" by simp
    show "?P s y"
      using run unfolding io
      by (auto simp: Let_def dest!: IH w intro: same_proc_trans [OF s1] split: sum.splits if_splits)
  qed
  then show ?thesis by simp
qed

lemma keeps_drain [keeps_intro]: "keeps (drain_events os fd)"
proof -
  have "keeps (drain_loop os fd mem cs)" for mem cs
  proof (rule keeps_same_but_calls)
    fix s
    show "post (drain_loop os fd mem cs) (\<lambda>c t. (c = 1 \<or> c = 2) \<and> calm s t) (\<lambda>a t. calm s t) s"
      using drain_loop_result [of os fd mem cs s]
      by (auto simp: post_def wp_iff same_proc_calm split: sum.split)
  qed
  then show ?thesis
    unfolding drain_events_def xcalloc_def by (intro keeps_intro) simp_all
qed

lemma keeps_close [keeps_intro]: "keeps (close_fd os fd)"
  unfolding close_fd_def
  by (intro keeps_intro) (auto simp: keeps_def post_simps calm_def)

text \<open>The calls of the system, and then what is made of them.\<close>

lemma keeps_calls [keeps_intro]:
  "keeps (now_ns os)" "keeps (xcalloc os)" "keeps (xasprintf os a middle v)" "keeps (inotify_init1 os)"
  "keeps (inotify_add_watch os fd path msk)" "keeps (inotify_rm_watch os fd wd)"
  "keeps (pin_current_thread os cpu)" "keeps (read_ulong_file os path)" "keeps (stat_file os path)"
  "keeps (path_fits txt)" "keeps (make_dir os path)" "keeps (get_statfs os path)"
  unfolding now_ns_def xcalloc_def xasprintf_def inotify_init1_def inotify_add_watch_def inotify_rm_watch_def
    pin_current_thread_def read_ulong_file_def stat_file_def path_fits_def make_dir_def get_statfs_def
  by (intro keeps_intro; simp)+

text \<open>The threads: every step of every actor is such a computation.\<close>

lemma perform_keeps:
  assumes "keeps m" and "perform m f st = Some st'"
    and "\<And>a x. pproc (f a x) = pproc x" "\<And>a x. ended (f a x) = ended x" and "ended st = None"
  shows "calm (pproc st) (pproc st') \<and> end_ok st'"
  using assms(2)
proof (cases rule: perform_cases)
  case (exit t code)
  from run_post [OF exit(1) keepsD [OF assms(1)]] show ?thesis by (simp add: exit(2) end_ok_def)
next
  case (ret t a)
  from run_post [OF ret(1) keepsD [OF assms(1)]] show ?thesis by (simp add: ret(2) assms(3-) end_ok_def)
qed

lemma perform_keeps_fixed:
  assumes "keeps m" and "perform m (\<lambda>a. g) st = Some st'"
    and "\<And>x. pproc (g x) = pproc x" "\<And>x. ended (g x) = ended x" and "ended st = None"
  shows "calm (pproc st) (pproc st') \<and> end_ok st'"
  by (rule perform_keeps [OF assms])

lemma worker_step_keeps:
  assumes e: "ended st = None" and run: "worker_step os run w st = Some st'"
  shows "calm (pproc st) (pproc st') \<and> end_ok st'"
proof -
  note k = perform_keeps [OF _ _ _ _ e] and simps = set_pc_def upd_result_def
  have pin: "keeps (pin_step os (run_cfg run) w)"
    unfolding pin_step_def by (intro keeps_intro)
  have rm: "keeps (if 0 \<le> wd then inotify_rm_watch os fd wd else give False)" for fd wd
    by (intro keeps_intro)
  show ?thesis
  proof (cases "pcs st w")
    case W_PIN
    then show ?thesis using run by (simp add: worker_step_def) (erule k [OF pin], simp_all add: simps)
  next
    case (W_ARRIVE n)
    then show ?thesis using run e by (auto simp: worker_step_def barrier_arrive_def simps end_ok_def split: if_splits)
  next
    case (W_WAIT n g)
    then show ?thesis using run e by (auto simp: worker_step_def simps end_ok_def split: if_splits)
  next
    case (W_STAMP n)
    then show ?thesis using run
      by (simp add: worker_step_def) (erule k [OF keeps_calls(1)], simp_all add: simps)
  next
    case (W_ADD start i)
    then show ?thesis using run
      by (simp add: worker_step_def add_step_def split: if_splits)
         (erule k [OF keeps_calls(5)] k [OF keeps_calls(1)], simp_all add: simps)+
  next
    case (W_REMOVE start i)
    then show ?thesis using run
      unfolding worker_step_def remove_step_def
      by (cases "i < end_of run w")
         (simp, erule k [OF rm], simp_all add: simps, erule k [OF keeps_calls(1)], simp_all add: simps)
  next
    case W_DONE
    then show ?thesis using run by (simp add: worker_step_def)
  qed
qed

lemma main_step_keeps:
  assumes e: "ended st = None" and run: "main_step os run st = Some st'"
  shows "calm (pproc st) (pproc st') \<and> end_ok st'"
proof -
  have call: "keeps (seq (invoke f) msg_unless)" for f :: "'a \<Rightarrow> bool \<times> 'a" by (intro keeps_intro)
  show ?thesis
    using run unfolding main_step_def
    by (auto split: if_splits elim!: perform_keeps_fixed [OF call _ _ _ e])
qed

lemma keeps_threads [keeps_intro]: "keeps (run_threads os run sched)"
proof (rule keeps_same_but_calls)
  fix s :: "'a proc"
  have "calm s (pproc st) \<and> end_ok st" if "(moves os run)\<^sup>*\<^sup>* (initial_pool s) st" for st
    using that
  proof (induction rule: rtranclp_induct)
    case (step st st')
    from step.hyps(2) obtain actor where a: "pool_step os run actor st = Some st'" by (rule moves_elim)
    have "calm (pproc st) (pproc st') \<and> end_ok st'"
    proof (cases actor)
      case 0
      with a have "ended st = None" "main_step os run st = Some st'" by (auto simp: pool_step_def split: if_splits)
      then show ?thesis by (rule main_step_keeps)
    next
      case (Suc w)
      with a have "ended st = None" "worker_step os run w st = Some st'"
        by (auto simp: pool_step_def split: if_splits)
      then show ?thesis by (rule worker_step_keeps)
    qed
    with step.IH show ?case by (blast intro: calm_trans)
  qed (simp add: initial_pool_def end_ok_def)
  then have "calm s (pproc st) \<and> end_ok st" if "run_pool os run sched 0 (initial_pool s) = Some st" for st
    using run_pool_moves [OF that] by blast
  then show "post (run_threads os run sched) (\<lambda>c t. (c = 1 \<or> c = 2) \<and> calm s t) (\<lambda>a t. calm s t) s"
    by (fastforce simp: post_def wp_def run_threads_def end_ok_def split: option.split)
qed

lemma keeps_small [keeps_intro]:
  "keeps (read_limits os)" "keeps (make_file os path)" "keeps (new_group os)" "keeps (pin_first os cfg)"
  "keeps (stat_key os path)" "keeps (open_path os path)"
  unfolding read_limits_def make_file_def new_group_def pin_first_def stat_key_def open_path_def
  by (intro keeps_intro; simp)+

lemma keeps_parts [keeps_intro]:
  "keeps (make_paths os dir middle n)" "keeps (make_links os topo keeper paths)"
  "keeps (verify_inode_shape os paths topo)" "keeps (open_groups os paths)" "keeps (open_keeper os topo keeper)"
  "keeps (drain_groups os fds)" "keeps (close_keeper os topo mark)" "keeps (bulk_dirs os dir n)"
  "keeps (bulk_adds os fd paths u)" "keeps (unique_wds os ws)" "keeps (bulk_removes os fd ws u)"
  "keeps (mask_updates os fd path wd n)" "keeps (lookups os path n)"
  unfolding make_paths_def make_links_def verify_inode_shape_def open_groups_def open_keeper_def drain_groups_def
    close_keeper_def bulk_dirs_def bulk_adds_def unique_wds_def bulk_removes_def mask_updates_def lookups_def Let_def
    split_beta
  by (intro keeps_intro; simp)+

lemma keeps_load [keeps_intro]: "keeps (load_config os env)"
  by (rule keeps_same_but_calls)
     (rule post_mono [OF load_config_sound], auto simp: calm_def)

section \<open>The fixture\<close>

text \<open>The state of the clean-up after a run: never set up, or set up for a directory just made.\<close>

definition fixture_made :: "config \<Rightarrow> 'k proc \<Rightarrow> 'k proc \<Rightarrow> bool" where
  "fixture_made cfg s t \<longleftrightarrow> (\<exists>cs. calls t = calls s @ cs \<and> (\<forall>p ok. REMOVED p ok \<notin> set cs) \<and>
     (at_exit t = at_exit s \<or>
      (\<exists>tag root. MADE_TEMP (test_dir cfg @ ''/fsnotify-'' @ tag @ ''.XXXXXX'') root \<in> set cs \<and>
         cleanup_root t = root \<and> cleanup_enabled t = (\<not> keep_files cfg))))"

lemma fixture_made_calm:
  assumes "fixture_made cfg s t" and "calm t u"
  shows "fixture_made cfg s u"
proof -
  from assms(1) obtain cs where c: "calls t = calls s @ cs" "\<forall>p ok. REMOVED p ok \<notin> set cs"
      "at_exit t = at_exit s \<or> (\<exists>tag root. MADE_TEMP (test_dir cfg @ ''/fsnotify-'' @ tag @ ''.XXXXXX'') root \<in> set cs \<and>
         cleanup_root t = root \<and> cleanup_enabled t = (\<not> keep_files cfg))"
    by (auto simp: fixture_made_def)
  from assms(2) obtain ds where d: "calls u = calls t @ ds" "\<forall>p ok. REMOVED p ok \<notin> set ds"
      "cleanup_root u = cleanup_root t" "cleanup_enabled u = cleanup_enabled t" "at_exit u = at_exit t"
    by (auto simp: calm_def)
  show ?thesis
    unfolding fixture_made_def using c d by (intro exI [of _ "cs @ ds"]) auto
qed

lemma calm_fixture_made: "calm s t \<Longrightarrow> fixture_made cfg s t"
  by (auto simp: calm_def fixture_made_def)

lemma fixture_made_after:
  assumes "calm s t" and "fixture_made cfg t u"
  shows "fixture_made cfg s u"
proof -
  from assms(1) obtain cs where c: "calls t = calls s @ cs" "\<forall>p ok. REMOVED p ok \<notin> set cs" "at_exit t = at_exit s"
    by (auto simp: calm_def)
  from assms(2) obtain ds where d: "calls u = calls t @ ds" "\<forall>p ok. REMOVED p ok \<notin> set ds"
      "at_exit u = at_exit t \<or> (\<exists>tag root. MADE_TEMP (test_dir cfg @ ''/fsnotify-'' @ tag @ ''.XXXXXX'') root \<in> set ds \<and>
         cleanup_root u = root \<and> cleanup_enabled u = (\<not> keep_files cfg))"
    by (auto simp: fixture_made_def)
  show ?thesis
    unfolding fixture_made_def using c d by (intro exI [of _ "cs @ ds"]) auto
qed

definition makes :: "config \<Rightarrow> ('k, 'a) prog \<Rightarrow> bool" where
  "makes cfg m \<longleftrightarrow> (\<forall>s. \<not> at_exit s \<longrightarrow>
     post m (\<lambda>c t. (c = 1 \<or> c = 2) \<and> fixture_made cfg s t) (\<lambda>a t. fixture_made cfg s t) s)"

lemma makes_first: "makes cfg m \<Longrightarrow> (\<And>a. keeps (f a)) \<Longrightarrow> makes cfg (seq m f)"
  unfolding makes_def
  by (intro allI impI, rule post_seqI, blast)
     (rule post_mono [OF keepsD], auto intro: fixture_made_calm)

lemma makes_later:
  assumes "keeps m" and "\<And>a. makes cfg (f a)"
  shows "makes cfg (seq m f)"
  unfolding makes_def
proof (intro allI impI)
  fix s :: "'a proc"
  assume fresh: "\<not> at_exit s"
  show "post (seq m f) (\<lambda>c t. (c = 1 \<or> c = 2) \<and> fixture_made cfg s t) (\<lambda>a t. fixture_made cfg s t) s"
  proof (rule post_seqI [OF post_mono [OF keepsD [OF assms(1)]]])
    fix a t
    assume t: "calm s t"
    then have "post (f a) (\<lambda>c u. (c = 1 \<or> c = 2) \<and> fixture_made cfg t u) (\<lambda>a u. fixture_made cfg t u) t"
      using assms(2) fresh by (simp add: makes_def calm_def)
    then show "post (f a) (\<lambda>c t. (c = 1 \<or> c = 2) \<and> fixture_made cfg s t) (\<lambda>a t. fixture_made cfg s t) t"
      by (auto elim!: post_mono intro: fixture_made_after [OF t])
  qed (auto intro: calm_fixture_made)
qed

lemma makes_fixture_root: "makes cfg (make_fixture_root os cfg tag)"
proof -
  let ?template = "test_dir cfg @ ''/fsnotify-'' @ tag @ ''.XXXXXX''"
  have "fixture_made cfg s (s\<lparr>kst := x\<rparr>)" for s :: "'a proc" and x
    by (auto simp: fixture_made_def)
  moreover have "fixture_made cfg s (s\<lparr>kst := x, calls := calls s @ [MADE_TEMP ?template root],
      cleanup_root := r, cleanup_enabled := b\<rparr>)" for s :: "'a proc" and x root r b
    by (auto simp: fixture_made_def)
  moreover have "fixture_made cfg s (s\<lparr>kst := x, calls := calls s @ [MADE_TEMP ?template root],
      cleanup_root := root, cleanup_enabled := \<not> keep_files cfg, at_exit := True\<rparr>)"
    for s :: "'a proc" and x root
    by (auto simp: fixture_made_def)
  ultimately show ?thesis
    unfolding makes_def make_fixture_root_def stat_file_def path_fits_def log_call_def
    by (auto simp: post_simps Let_def split_beta PATH_MAX_def fixture_made_def split: option.split)
qed


lemma makes_setup: "makes cfg (topology_setup os cfg lim)"
  unfolding topology_setup_def Let_def
  by (rule makes_later, intro keeps_intro, rule makes_later, intro keeps_intro,
      rule makes_first [OF makes_fixture_root]) (intro keeps_intro)

lemma makes_topology: "makes cfg (run_topology os cfg sched)"
  unfolding run_topology_def Let_def
  by (rule makes_later, intro keeps_intro, rule makes_first [OF makes_setup]) (intro keeps_intro)

lemma makes_bulk: "makes cfg (run_bulk os cfg)"
  unfolding run_bulk_def Let_def
  by (rule makes_later, intro keeps_intro, rule makes_later, intro keeps_intro, rule makes_later, intro keeps_intro,
      rule makes_first [OF makes_fixture_root]) (intro keeps_intro)

lemma makes_single: "makes cfg (setup_single_file os cfg tag)"
  unfolding setup_single_file_def
  by (rule makes_first [OF makes_fixture_root]) (intro keeps_intro)

lemma makes_mask: "makes cfg (run_mask_update os cfg)"
  unfolding run_mask_update_def Let_def
  by (rule makes_later, intro keeps_intro, rule makes_first [OF makes_single]) (intro keeps_intro)

lemma makes_lookup: "makes cfg (run_path_lookup os cfg)"
  unfolding run_path_lookup_def
  by (rule makes_later, intro keeps_intro, rule makes_first [OF makes_single]) (intro keeps_intro)

text \<open>The configuration keeps to what the environment says.\<close>

lemma load_config_env:
  "post (load_config os env) (\<lambda>c t. True)
     (\<lambda>cfg t. test_dir cfg = the (env ''TEST_DIR'') \<and> env_bool (env ''KEEP_FILES'') False = Inr (keep_files cfg)) s"
  unfolding load_config_def parse_cpu_list_def xcalloc_def Let_def
  by (auto simp: post_simps split_beta Let_def split: sum.split)

section \<open>The process\<close>

text \<open>How far a run of \<open>main\<close> takes the clean-up, in terms of the environment.\<close>

definition env_keeps :: "(string \<Rightarrow> string option) \<Rightarrow> bool" where
  "env_keeps env \<longleftrightarrow> env_bool (env ''KEEP_FILES'') False = Inr True"

definition env_fixture :: "(string \<Rightarrow> string option) \<Rightarrow> 'k proc \<Rightarrow> 'k proc \<Rightarrow> bool" where
  "env_fixture env s t \<longleftrightarrow> (\<exists>cs. calls t = calls s @ cs \<and> (\<forall>p ok. REMOVED p ok \<notin> set cs) \<and>
     (at_exit t = at_exit s \<or>
      (\<exists>tag root. MADE_TEMP (the (env ''TEST_DIR'') @ ''/fsnotify-'' @ tag @ ''.XXXXXX'') root \<in> set cs \<and>
         cleanup_root t = root \<and> cleanup_enabled t = (\<not> env_keeps env))))"

lemma main_fixture:
  assumes "\<not> at_exit s"
  shows "post (main os env sched) (\<lambda>c t. (c = 1 \<or> c = 2) \<and> env_fixture env s t) (\<lambda>a t. env_fixture env s t) s"
  unfolding main_def
proof (rule post_seqI [OF post_mono [OF post_conj [OF keepsD [OF keeps_load] load_config_env]]])
  let ?E = "\<lambda>c t. (c = 1 \<or> c = 2) \<and> env_fixture env s t"
  fix cfg :: config and t
  assume "calm s t \<and> test_dir cfg = the (env ''TEST_DIR'') \<and>
      env_bool (env ''KEEP_FILES'') False = Inr (keep_files cfg)"
  then have t: "calm s t" and cfg: "test_dir cfg = the (env ''TEST_DIR'')" "env_keeps env = keep_files cfg"
    by (auto simp: env_keeps_def)
  have "makes cfg (case cfg_scenario cfg of
         SCENARIO_TOPOLOGY \<Rightarrow> run_topology os cfg sched
       | SCENARIO_BULK \<Rightarrow> run_bulk os cfg
       | SCENARIO_MASK_UPDATE \<Rightarrow> run_mask_update os cfg
       | SCENARIO_PATH_LOOKUP \<Rightarrow> run_path_lookup os cfg)"
    by (simp add: makes_topology makes_bulk makes_mask makes_lookup split: scenario.split)
  moreover have "env_fixture env s u" if "fixture_made cfg t u" for u
    using fixture_made_after [OF t that] unfolding fixture_made_def env_fixture_def cfg .
  ultimately show "post (case cfg_scenario cfg of
         SCENARIO_TOPOLOGY \<Rightarrow> run_topology os cfg sched
       | SCENARIO_BULK \<Rightarrow> run_bulk os cfg
       | SCENARIO_MASK_UPDATE \<Rightarrow> run_mask_update os cfg
       | SCENARIO_PATH_LOOKUP \<Rightarrow> run_path_lookup os cfg) ?E (\<lambda>a t. env_fixture env s t) t"
    using assms t unfolding makes_def by (auto simp: calm_def elim!: post_mono)
qed (auto simp: calm_def env_fixture_def)

text \<open>\<open>nftw\<close> reports the paths below the directory it is given.\<close>

definition below :: "string \<Rightarrow> string \<Rightarrow> bool" where
  "below root p \<longleftrightarrow> p = root \<or> prefix (root @ ''/'') p"

definition walks_below :: "'k ino_os \<Rightarrow> bool" where
  "walks_below os \<longleftrightarrow> (\<forall>root x. \<forall>p \<in> set (fst (io_walk os root x)). below root p)"

lemma remove_paths_calls:
  "\<exists>ds. calls (remove_paths os ps s) = calls s @ ds \<and> set ds \<subseteq> {REMOVED p ok | p ok. p \<in> set ps}"
proof (induction ps arbitrary: s)
  case (Cons p ps)
  obtain ok x where r: "io_remove os p (kst s) = (ok, x)" by (cases "io_remove os p (kst s)")
  show ?case
  proof (cases ok)
    case True
    from Cons.IH [of "s\<lparr>kst := x, calls := calls s @ [REMOVED p ok]\<rparr>"]
    obtain ds where "calls (remove_paths os (p # ps) s) = calls s @ REMOVED p ok # ds"
        "set ds \<subseteq> {REMOVED p ok | p ok. p \<in> set ps}"
      using True r by auto
    then show ?thesis by (intro exI [of _ "REMOVED p ok # ds"]) auto
  qed (use r in auto)
qed simp

lemma cleanup_fixture_calls:
  assumes "walks_below os"
  shows "\<exists>ds. calls (cleanup_fixture os t) = calls t @ ds \<and>
    set ds \<subseteq> {REMOVED p ok | p ok. below (cleanup_root t) p} \<and> (\<not> cleanup_enabled t \<longrightarrow> ds = [])"
proof (cases "cleanup_enabled t \<and> cleanup_root t \<noteq> []")
  case True
  obtain ps x where w: "io_walk os (cleanup_root t) (kst t) = (ps, x)"
    by (cases "io_walk os (cleanup_root t) (kst t)")
  have "\<forall>p \<in> set ps. below (cleanup_root t) p"
    using assms [unfolded walks_below_def, rule_format, of _ "cleanup_root t" "kst t"] w by simp
  with True w remove_paths_calls [of os ps "t\<lparr>kst := x\<rparr>"] show ?thesis by (force simp: cleanup_fixture_def)
next
  case False
  then have "cleanup_fixture os t = t" by (auto simp: cleanup_fixture_def)
  then show ?thesis by simp
qed

text \<open>What is removed lies below the directory made for this run, and only if it is not to be kept.\<close>

lemma run_process_removes:
  assumes walk: "walks_below os" and fresh: "\<not> at_exit s" and run: "run_process os env sched s = Some (code, t)"
  shows "\<exists>cs ds. calls t = calls s @ cs @ ds \<and> (\<forall>p ok. REMOVED p ok \<notin> set cs) \<and>
    (\<forall>c \<in> set ds. \<exists>p ok tag root. c = REMOVED p ok \<and> below root p \<and>
       MADE_TEMP (the (env ''TEST_DIR'') @ ''/fsnotify-'' @ tag @ ''.XXXXXX'') root \<in> set cs) \<and>
    (env_keeps env \<longrightarrow> ds = [])"
proof -
  obtain r u where m: "main os env sched s = Some (r, u)"
      and t: "t = (if at_exit u then cleanup_fixture os u else u)"
    using run by (auto simp: run_process_def split: option.splits)
  have "env_fixture env s u"
    using run_post [OF m main_fixture [OF fresh]] by (cases r) auto
  then obtain cs where cs: "calls u = calls s @ cs" "\<forall>p ok. REMOVED p ok \<notin> set cs"
      "at_exit u = at_exit s \<or> (\<exists>tag root. MADE_TEMP (the (env ''TEST_DIR'') @ ''/fsnotify-'' @ tag @ ''.XXXXXX'') root \<in> set cs \<and>
         cleanup_root u = root \<and> cleanup_enabled u = (\<not> env_keeps env))"
    by (auto simp: env_fixture_def)
  show ?thesis
  proof (cases "at_exit u")
    case True
    then obtain tag root where root: "MADE_TEMP (the (env ''TEST_DIR'') @ ''/fsnotify-'' @ tag @ ''.XXXXXX'') root \<in> set cs"
        "cleanup_root u = root" "cleanup_enabled u = (\<not> env_keeps env)"
      using cs(3) fresh by auto
    from cleanup_fixture_calls [OF walk, of u] obtain ds where ds: "calls t = calls u @ ds"
        "set ds \<subseteq> {REMOVED p ok | p ok. below root p}" "env_keeps env \<longrightarrow> ds = []"
      using True t root by auto
    show ?thesis
      by (rule exI [of _ cs], rule exI [of _ ds]) (use cs ds root in force)
  next
    case False
    with t cs show ?thesis by (intro exI [of _ cs] exI [of _ "[]"]) simp
  qed
qed

section \<open>The exit code\<close>

text \<open>A return, where there is one, is of a value with \<open>P\<close>.\<close>

definition yields :: "('a \<Rightarrow> bool) \<Rightarrow> ('k, 'a) prog \<Rightarrow> bool" where
  "yields P m \<longleftrightarrow> (\<forall>s. post m (\<lambda>c t. True) (\<lambda>a t. P a) s)"

lemma post_any: "post m (\<lambda>c t. True) (\<lambda>a t. True) s"
  by (auto simp: post_def wp_def split: option.split sum.split)

lemma yields_seq: "(\<And>a. yields P (f a)) \<Longrightarrow> yields P (seq m f)"
  unfolding yields_def by (intro allI post_seqI [OF post_any]) simp

lemma yields_split: "(\<And>x y. yields P (f x y)) \<Longrightarrow> yields P (case p of (x, y) \<Rightarrow> f x y)"
  by (cases p) simp

lemma yields_give: "P a \<Longrightarrow> yields P (give a)"
  by (simp add: yields_def post_simps)

lemma yields_status: "yields (\<lambda>a. a = 0 \<or> a = 1) (give (if b then 0 else 1))"
  by (cases b) (simp_all add: yields_give)

lemma main_answers: "yields (\<lambda>a. a = 0 \<or> a = 1) (main os env sched)"
  unfolding main_def run_topology_def run_bulk_def run_mask_update_def run_path_lookup_def Let_def
  by (rule yields_seq) (auto split: scenario.split simp del: split_paired_All intro!: yields_seq yields_split yields_status)

lemma run_process_code:
  assumes "\<not> at_exit s" and run: "run_process os env sched s = Some (code, t)"
  shows "code \<in> {0, 1, 2}"
proof -
  obtain r u where m: "main os env sched s = Some (r, u)" and c: "code = (case r of Inl c \<Rightarrow> c | Inr c \<Rightarrow> c)"
    using run by (auto simp: run_process_def split: option.splits)
  from run_post [OF m main_fixture [OF assms(1)]] run_post [OF m main_answers [unfolded yields_def, rule_format]] c
  show ?thesis by (auto split: sum.splits)
qed

section \<open>The process comes back\<close>

text \<open>Only finitely many reads in a row deliver events or are interrupted.\<close>

definition reads_run_dry :: "'k ino_os \<Rightarrow> ('k \<Rightarrow> nat) \<Rightarrow> bool" where
  "reads_run_dry os pending \<longleftrightarrow> (\<forall>fd x r y. io_read os fd EVENT_BUFFER_SIZE x = (r, y) \<longrightarrow>
     r = Inl EINTR \<or> (\<exists>bytes. r = Inr bytes \<and> bytes \<noteq> []) \<longrightarrow> pending y < pending x)"

lemma drain_loop_back:
  assumes "reads_run_dry os pending"
  shows "drain_loop os fd mem cs s \<noteq> None"
proof (induction "pending (kst s)" arbitrary: mem cs s rule: less_induct)
  case less
  obtain r x where io: "io_read os fd EVENT_BUFFER_SIZE (kst s) = (r, x)"
    by (cases "io_read os fd EVENT_BUFFER_SIZE (kst s)")
  have dry: "r = Inl EINTR \<or> (\<exists>bytes. r = Inr bytes \<and> bytes \<noteq> []) \<Longrightarrow> pending x < pending (kst s)"
    using assms io unfolding reads_run_dry_def by blast
  show ?case
    using less [of "s\<lparr>kst := x\<rparr>"] dry
    by (subst drain_loop.simps) (auto simp: io Let_def split: sum.split)
qed

lemma back_drain: "reads_run_dry os pending \<Longrightarrow> comes_back (drain_events os fd)"
  unfolding drain_events_def xcalloc_def log_call_def
  by (intro back_intro) (auto simp: comes_back_def drain_loop_back)

lemma back_sum [back_intro]:
  "(\<And>x. comes_back (f x)) \<Longrightarrow> (\<And>y. comes_back (g y)) \<Longrightarrow> comes_back (case v of Inl x \<Rightarrow> f x | Inr y \<Rightarrow> g y)"
  by (cases v) simp_all

lemma back_root [back_intro]: "comes_back get_root"
  by (simp add: comes_back_def get_root_def)

lemma back_calls [back_intro]:
  "comes_back (now_ns os)" "comes_back (xcalloc os)" "comes_back (xasprintf os a middle v)"
  "comes_back (inotify_init1 os)" "comes_back (inotify_add_watch os fd path msk)"
  "comes_back (inotify_rm_watch os fd wd)" "comes_back (pin_current_thread os cpu)"
  "comes_back (read_ulong_file os path)" "comes_back (stat_file os path)" "comes_back (path_fits txt)"
  "comes_back (make_dir os path)" "comes_back (get_statfs os path)" "comes_back (close_fd os fd)"
  "comes_back (printf txt)"
  unfolding now_ns_def xcalloc_def xasprintf_def inotify_init1_def inotify_add_watch_def inotify_rm_watch_def
    pin_current_thread_def read_ulong_file_def stat_file_def path_fits_def make_dir_def get_statfs_def close_fd_def
    hold_def log_call_def printf_def
  by (intro back_intro)+

lemma back_small [back_intro]:
  "comes_back (read_limits os)" "comes_back (make_file os path)" "comes_back (new_group os)"
  "comes_back (pin_first os cfg)" "comes_back (stat_key os path)" "comes_back (open_path os path)"
  "comes_back (make_fixture_root os cfg tag)"
  unfolding read_limits_def make_file_def new_group_def pin_first_def stat_key_def open_path_def hold_def log_call_def
    make_fixture_root_def Let_def
  by (intro back_intro)+

lemma back_parts [back_intro]:
  "comes_back (make_paths os dir middle n)" "comes_back (make_links os topo keeper paths)"
  "comes_back (verify_inode_shape os paths topo)" "comes_back (open_groups os paths)"
  "comes_back (open_keeper os topo keeper)" "comes_back (bulk_dirs os dir n)"
  "comes_back (bulk_adds os fd paths u)" "comes_back (unique_wds os ws)" "comes_back (bulk_removes os fd ws u)"
  "comes_back (mask_updates os fd path wd n)" "comes_back (lookups os path n)"
  "comes_back (setup_single_file os cfg tag)"
  unfolding make_paths_def make_links_def verify_inode_shape_def open_groups_def open_keeper_def
    bulk_dirs_def bulk_adds_def unique_wds_def bulk_removes_def mask_updates_def lookups_def Let_def
    split_beta setup_single_file_def
  by (intro back_intro)+

lemma back_yields:
  assumes "comes_back m" and "yields P m" and "\<And>a. P a \<Longrightarrow> comes_back (f a)"
  shows "comes_back (seq m f)"
proof -
  have "seq m f s \<noteq> None" for s
  proof -
    obtain r t where m: "m s = Some (r, t)" using assms(1) by (fastforce simp: comes_back_def)
    with assms(2) have "\<forall>a. r = Inr a \<longrightarrow> P a" by (auto simp: yields_def post_def dest: spec [of _ s])
    with assms(3) m show ?thesis by (auto simp: seq_def comes_back_def split: sum.split)
  qed
  then show ?thesis by (simp add: comes_back_def)
qed

lemma back_setup: "comes_back (topology_setup os cfg lim)"
  unfolding topology_setup_def Let_def by (intro back_intro)

lemma setup_config: "yields (\<lambda>a. run_cfg (fst a) = cfg) (topology_setup os cfg lim)"
  unfolding topology_setup_def Let_def by (intro yields_seq yields_give) simp

lemma back_topology:
  assumes dry: "reads_run_dry os pending" and ok: "sizes_ok cfg" and fair: "fair (unat (workers cfg)) sched"
  shows "comes_back (run_topology os cfg sched)"
proof -
  note d = back_drain [OF dry]
  have groups: "comes_back (drain_groups os fds)" for fds
    unfolding drain_groups_def by (intro back_intro d)
  have keeper: "comes_back (close_keeper os topo mark)" for topo mark
    unfolding close_keeper_def by (intro back_intro d)
  show ?thesis
    unfolding run_topology_def Let_def
  proof (intro back_seq [OF back_small(1)] back_yields [OF back_setup setup_config])
    fix lim and p :: "topology_run \<times> (int \<times> int) \<times> u64"
    assume p: "run_cfg (fst p) = cfg"
    obtain run mark fs where e: "p = (run, mark, fs)" by (cases p) auto
    have "comes_back (run_threads os run sched)" using p ok fair by (simp add: e run_threads_back)
    then show "comes_back (case p of (run, mark, fs) \<Rightarrow>
        seq (run_threads os run sched) (\<lambda>st.
        seq (drain_groups os (run_fds run)) (\<lambda>ev.
        seq (close_keeper os (cfg_topology cfg) mark) (\<lambda>bad.
        seq (printf (topology_text os cfg lim fs (sums st) ev (t_unexpected (sums st) + of_bool bad))) (\<lambda>_.
        give (if topology_ok (items cfg) (sums st) ev (t_unexpected (sums st) + of_bool bad) then 0 else 1))))))"
      unfolding e prod.case by (intro back_seq [OF _ back_seq] back_intro groups keeper) auto
  qed
qed

lemma main_back:
  assumes dry: "reads_run_dry os pending" and fair: "fair 64 sched"
  shows "comes_back (main os env sched)"
proof -
  note d = back_drain [OF dry]
  have cfg: "yields config_ok (load_config os env)"
    unfolding yields_def by (rule allI, rule post_mono [OF load_config_sound]) simp_all
  have "comes_back (run_bulk os cfg)" "comes_back (run_mask_update os cfg)" "comes_back (run_path_lookup os cfg)"
    for cfg
    unfolding run_bulk_def run_mask_update_def run_path_lookup_def Let_def by (intro back_intro d)+
  moreover have "comes_back (run_topology os cfg sched)" if "config_ok cfg" for cfg
    using that fair by (intro back_topology [OF dry config_sizes]) (auto simp: config_ok_def fair_def)
  ultimately show ?thesis
    unfolding main_def by (intro back_yields [OF load_config_back cfg]) (auto split: scenario.split)
qed

lemma run_process_back:
  assumes "reads_run_dry os pending" and "fair 64 sched"
  shows "\<exists>code t. run_process os env sched s = Some (code, t)"
  using main_back [OF assms, of env] by (fastforce simp: comes_back_def run_process_def split: option.split)

end
