(* ===== verification/Inotify_Balance.thy ===== *)
theory Inotify_Balance
  imports Inotify_Threads
begin

text \<open>
  No call of a worker is left uncounted: in every reachable state the successes and the failures a
  worker has counted add up to the calls it is past.
\<close>

definition outcomes :: "worker_result \<Rightarrow> u64" where
  "outcomes r = add_success r + remove_success r + wr_unexpected r"

definition steps_done :: "nat \<Rightarrow> nat \<Rightarrow> wpc \<Rightarrow> u64" where
  "steps_done lo hi pc = of_nat (adds_done lo hi pc) + of_nat (removes_done lo hi pc)"

abbreviation steps_of :: "topology_run \<Rightarrow> nat \<Rightarrow> wpc \<Rightarrow> u64" where
  "steps_of run w pc \<equiv> steps_done (first_of run w) (end_of run w) pc"

definition balance_inv :: "topology_run \<Rightarrow> 'k pool \<Rightarrow> bool" where
  "balance_inv run st \<longleftrightarrow>
     (\<forall>w < nworkers run. outcomes (results st w) + 2 * of_nat (first_of run w) = steps_of run w (pcs st w)) \<and>
     t_add_success (sums st) + t_remove_success (sums st) + t_unexpected (sums st) =
       (\<Sum>w < joined st. outcomes (results st w))"

text \<open>A step of a worker changes its own counts and program counter by the same amount.\<close>

definition moves_on :: "topology_run \<Rightarrow> nat \<Rightarrow> 'k pool \<Rightarrow> 'k pool \<Rightarrow> bool" where
  "moves_on run w st st' \<longleftrightarrow>
     (\<forall>v. v \<noteq> w \<longrightarrow> pcs st' v = pcs st v \<and> results st' v = results st v) \<and>
     joined st' = joined st \<and> sums st' = sums st \<and>
     outcomes (results st' w) + steps_of run w (pcs st w) = outcomes (results st w) + steps_of run w (pcs st' w)"

lemma perform_moves_on:
  assumes run: "perform m f st = Some st'"
    and f: "\<And>a x. pcs x = pcs st \<Longrightarrow> results x = results st \<Longrightarrow> joined x = joined st \<Longrightarrow> sums x = sums st \<Longrightarrow>
      moves_on run w st (f a x)"
  shows "moves_on run w st st'"
  using run
proof (cases rule: perform_cases)
  case (exit s code)
  then show ?thesis
    by (simp add: moves_on_def)
next
  case (ret s a)
  then show ?thesis using f by simp
qed

lemma worker_moves_on:
  assumes pc: "pc_ok (first_of run w) (end_of run w) (pcs st w)" "in_step (generation st) (pcs st w)"
    and run: "worker_step os run w st = Some st'"
  shows "moves_on run w st st'"
proof -
  note simps = moves_on_def set_pc_def upd_result_def steps_done_def outcomes_def after_barrier_def
  show ?thesis
  proof (cases "pcs st w")
    case W_PIN
    with run show ?thesis
      by (simp add: worker_step_def) (erule perform_moves_on, auto simp: simps)
  next
    case (W_ARRIVE k)
    with run pc show ?thesis by (auto simp: worker_step_def barrier_arrive_def simps)
  next
    case (W_WAIT k g)
    with run pc show ?thesis by (auto simp: worker_step_def simps in_step_def split: if_splits)
  next
    case (W_STAMP k)
    with run pc show ?thesis
      by (simp add: worker_step_def) (erule perform_moves_on, auto simp: simps)
  next
    case (W_ADD start i)
    with run have r: "add_step os run w start i st = Some st'" by (simp add: worker_step_def)
    show ?thesis
    proof (cases "i < end_of run w")
      case True
      with r show ?thesis
        unfolding add_step_def by (simp, elim perform_moves_on) (use pc W_ADD in \<open>auto simp: simps\<close>)
    next
      case False
      with r show ?thesis
        unfolding add_step_def by (simp, elim perform_moves_on) (use pc W_ADD False in \<open>auto simp: simps\<close>)
    qed
  next
    case (W_REMOVE start i)
    with run have r: "remove_step os run w start i st = Some st'" by (simp add: worker_step_def)
    show ?thesis
    proof (cases "i < end_of run w")
      case True
      with r show ?thesis
        unfolding remove_step_def by (simp, elim perform_moves_on) (use pc W_REMOVE in \<open>auto simp: simps\<close>)
    next
      case False
      with r show ?thesis
        unfolding remove_step_def by (simp, elim perform_moves_on) (use pc W_REMOVE False in \<open>auto simp: simps\<close>)
    qed
  next
    case W_DONE
    with run show ?thesis by (simp add: worker_step_def)
  qed
qed

lemma balance_worker:
  assumes inv: "balance_inv run st" and b: "barrier_inv run st" and w: "w < nworkers run"
    and run: "worker_step os run w st = Some st'"
  shows "balance_inv run st'"
proof -
  have "moves_on run w st st'"
    using b w by (intro worker_moves_on [OF _ _ run]) (simp_all add: barrier_inv_def)
  moreover have "\<not> w < joined st"
    using b run by (auto simp: barrier_inv_def worker_step_def)
  moreover have "outcomes (results st w) + 2 * of_nat (first_of run w) = steps_of run w (pcs st w)"
    using inv w by (simp add: balance_inv_def)
  ultimately have bal: "outcomes (results st' w) + steps_of run w (pcs st w) = outcomes (results st w) + steps_of run w (pcs st' w)"
      "outcomes (results st w) + 2 * of_nat (first_of run w) = steps_of run w (pcs st w)"
    and rest: "\<And>v. v \<noteq> w \<Longrightarrow> pcs st' v = pcs st v \<and> results st' v = results st v"
      "joined st' = joined st" "sums st' = sums st" "\<not> w < joined st"
    by (auto simp: moves_on_def)
  have own: "outcomes (results st' w) + 2 * of_nat (first_of run w) = steps_of run w (pcs st' w)"
    using bal(1) unfolding bal(2) [symmetric] by (simp add: algebra_simps)
  have "(\<Sum>v < joined st. outcomes (results st' v)) = (\<Sum>v < joined st. outcomes (results st v))"
    by (rule sum.cong) (use rest in auto)
  moreover have "outcomes (results st' v) + 2 * of_nat (first_of run v) = steps_of run v (pcs st' v)"
    if "v < nworkers run" for v
    using inv own rest that by (cases "v = w") (simp_all add: balance_inv_def)
  ultimately show ?thesis using inv rest by (simp add: balance_inv_def)
qed

lemma balance_main:
  assumes inv: "balance_inv run st" and run: "main_step os run st = Some st'"
  shows "balance_inv run st'"
proof (cases "created st < nworkers run")
  case True
  with run have "perform (seq (invoke (io_thread_create os)) msg_unless)
      (\<lambda>_ st. st\<lparr>created := created st + 1\<rparr>) st = Some st'"
    by (simp add: main_step_def)
  then show ?thesis by (cases rule: perform_cases) (use inv in \<open>simp_all add: balance_inv_def\<close>)
next
  case False
  with run have "perform (seq (invoke (io_thread_join os)) msg_unless)
      (\<lambda>_ st. st\<lparr>sums := add_totals (results st (joined st)) (sums st), joined := joined st + 1\<rparr>) st = Some st'"
    by (auto simp: main_step_def split: if_splits)
  then show ?thesis
    by (cases rule: perform_cases)
       (use inv in \<open>simp_all add: balance_inv_def add_totals_def outcomes_def algebra_simps\<close>)
qed

lemma balance_reachable:
  assumes ok: "sizes_ok (run_cfg run)" and "(moves os run)\<^sup>*\<^sup>* (initial_pool s) st"
  shows "balance_inv run st"
  using assms(2)
proof (induction rule: rtranclp_induct)
  case base
  show ?case
    by (simp add: balance_inv_def initial_pool_def outcomes_def zero_result_def steps_done_def zero_totals_def)
next
  case (step st st')
  have b: "barrier_inv run st" using barrier_inv_reachable [OF ok step.hyps(1)] .
  from step.hyps(2) obtain actor where a: "pool_step os run actor st = Some st'" by (rule moves_elim)
  show ?case
  proof (cases actor)
    case 0
    with a have "main_step os run st = Some st'" by (simp add: pool_step_def split: if_splits)
    with step.IH balance_main show ?thesis by blast
  next
    case (Suc w)
    with a b have "w < nworkers run" "worker_step os run w st = Some st'"
      by (auto simp: pool_step_def barrier_inv_def split: if_splits)
    with step.IH balance_worker [OF _ b] show ?thesis by blast
  qed
qed

text \<open>At the end every group has two outcomes.\<close>

lemma finished_balance:
  assumes ok: "sizes_ok (run_cfg run)" and mv: "(moves os run)\<^sup>*\<^sup>* (initial_pool s) st"
    and fin: "joined st = nworkers run"
  shows "t_add_success (sums st) + t_remove_success (sums st) + t_unexpected (sums st) = 2 * items (run_cfg run)"
proof -
  have bal: "balance_inv run st" using balance_reachable [OF ok mv] .
  have b: "barrier_inv run st" using barrier_inv_reachable [OF ok mv] .
  have "outcomes (results st w) = 2 * of_nat (end_of run w) - 2 * of_nat (first_of run w)" if "w < nworkers run" for w
  proof -
    have "pcs st w = W_DONE" using b fin that by (simp add: barrier_inv_def)
    with bal that have "outcomes (results st w) + 2 * of_nat (first_of run w) = 2 * of_nat (end_of run w)"
      by (simp add: balance_inv_def steps_done_def)
    then show ?thesis by (simp only: eq_diff_eq)
  qed
  then have "(\<Sum>w < nworkers run. outcomes (results st w)) =
      (\<Sum>w < nworkers run. 2 * of_nat (end_of run w) - 2 * of_nat (first_of run w))"
    by simp
  also have "\<dots> = 2 * share_begin (run_cfg run) (nworkers run) - 2 * share_begin (run_cfg run) 0"
    using sum_lessThan_telescope [of "\<lambda>w. 2 * share_begin (run_cfg run) w" "nworkers run"] by simp
  also have "\<dots> = 2 * items (run_cfg run)"
    using share_ends [OF ok] by (simp add: word_unat_eq_iff [symmetric] unat_eq_zero)
  finally show ?thesis using bal fin by (simp add: balance_inv_def)
qed

end
