(* ===== verification/Inotify_Pass.thy ===== *)
theory Inotify_Pass
  imports Inotify_Process Inotify_Balance
begin

text \<open>
  What a run with status 0 has done: the calls of each scenario in the order in which the kernel
  executed them, and the descriptors given back.
\<close>

section \<open>Computations without a trace\<close>

definition quiet :: "'k proc \<Rightarrow> 'k proc \<Rightarrow> bool" where
  "quiet s t \<longleftrightarrow> calls t = calls s \<and> held t = held s \<and> cleanup_root t = cleanup_root s"

lemma quiet_refl [simp]: "quiet s s"
  by (simp add: quiet_def)

lemma quiet_then: "quiet s t \<Longrightarrow> quiet t u \<Longrightarrow> quiet s u"
  by (simp add: quiet_def)

definition quietly :: "('k, 'a) prog \<Rightarrow> bool" where
  "quietly m \<longleftrightarrow> (\<forall>s. post m (\<lambda>c t. True) (\<lambda>a t. quiet s t) s)"

named_theorems quiet_intro \<open>computations that log nothing and hold no new descriptor\<close>

lemma quietlyD: "quietly m \<Longrightarrow> post m (\<lambda>c t. True) (\<lambda>a t. quiet s t) s"
  by (simp add: quietly_def)

lemma quiet_prims [quiet_intro]:
  "quietly (give a)" "quietly die" "quietly die_msg" "quietly (invoke f)" "quietly (die_unless b)"
  "quietly (msg_unless b)" "quietly (printf txt)"
  by (auto simp: quietly_def post_simps quiet_def printf_def split_beta Let_def)

lemma quiet_seq [quiet_intro]:
  assumes "quietly m" and "\<And>a. quietly (f a)"
  shows "quietly (seq m f)"
  unfolding quietly_def
proof
  fix s
  show "post (seq m f) (\<lambda>c t. True) (\<lambda>a t. quiet s t) s"
    by (rule post_seqI [OF quietlyD [OF assms(1)]])
       (rule post_mono [OF quietlyD [OF assms(2)]], auto intro: quiet_then)
qed

lemma quiet_if [quiet_intro]: "(b \<Longrightarrow> quietly m) \<Longrightarrow> (\<not> b \<Longrightarrow> quietly m') \<Longrightarrow> quietly (if b then m else m')"
  by simp

lemma quiet_option [quiet_intro]:
  "quietly m \<Longrightarrow> (\<And>x. quietly (f x)) \<Longrightarrow> quietly (case v of None \<Rightarrow> m | Some x \<Rightarrow> f x)"
  by (cases v) simp_all

lemma quiet_sum [quiet_intro]:
  "(\<And>x. quietly (f x)) \<Longrightarrow> (\<And>y. quietly (g y)) \<Longrightarrow> quietly (case v of Inl x \<Rightarrow> f x | Inr y \<Rightarrow> g y)"
  by (cases v) simp_all

lemma quiet_pair [quiet_intro]: "(\<And>x y. quietly (f x y)) \<Longrightarrow> quietly (case p of (x, y) \<Rightarrow> f x y)"
  by (cases p) simp

lemma quiet_loop [quiet_intro]: "(\<And>i a. quietly (f i a)) \<Longrightarrow> quietly (loop f is a)"
  by (induction "is" arbitrary: a) (auto intro!: quiet_intro)

lemma quiet_each [quiet_intro]: "(\<And>i. quietly (f i)) \<Longrightarrow> quietly (each f is)"
  unfolding each_def by (intro quiet_intro)

lemma quiet_file [quiet_intro]: "quietly (make_file os path)"
  by (auto simp: quietly_def make_file_def close_fd_def hold_def post_simps quiet_def split_beta Let_def)

lemma quiet_calls [quiet_intro]:
  "quietly (now_ns os)" "quietly (xcalloc os)" "quietly (xasprintf os a middle v)"
  "quietly (pin_current_thread os cpu)" "quietly (read_ulong_file os path)" "quietly (stat_file os path)"
  "quietly (path_fits txt)" "quietly (make_dir os path)" "quietly (get_statfs os path)"
  unfolding now_ns_def xcalloc_def xasprintf_def pin_current_thread_def read_ulong_file_def stat_file_def
    path_fits_def make_dir_def get_statfs_def
  by (intro quiet_intro)+

lemma quiet_parts [quiet_intro]:
  "quietly (read_limits os)" "quietly (pin_first os cfg)" "quietly (stat_key os path)"
  "quietly (make_paths os dir middle n)" "quietly (make_links os topo keeper paths)"
  "quietly (verify_inode_shape os paths topo)" "quietly (bulk_dirs os dir n)" "quietly (unique_wds os ws)"
  unfolding read_limits_def pin_first_def stat_key_def make_paths_def make_links_def verify_inode_shape_def
    bulk_dirs_def unique_wds_def
  by (intro quiet_intro)+

text \<open>Steps that leave a trace, to be followed by the rest of a run.\<close>

definition traces :: "('a \<Rightarrow> ino_call list) \<Rightarrow> ('a \<Rightarrow> int list) \<Rightarrow> ('k, 'a) prog \<Rightarrow> bool" where
  "traces cs fds m \<longleftrightarrow> (\<forall>s. post m (\<lambda>c t. True) (\<lambda>a t. calls t = calls s @ cs a \<and> held t = fds a @ held s \<and>
     cleanup_root t = cleanup_root s) s)"

lemma tracesD:
  "traces cs fds m \<Longrightarrow> post m (\<lambda>c t. True) (\<lambda>a t. calls t = calls s @ cs a \<and> held t = fds a @ held s \<and>
     cleanup_root t = cleanup_root s) s"
  by (simp add: traces_def)

lemma traces_add: "traces (\<lambda>wd. [ADD_WATCH fd path msk wd]) (\<lambda>wd. []) (inotify_add_watch os fd path msk)"
  by (simp add: traces_def inotify_add_watch_def log_call_def post_simps split_beta Let_def)

lemma traces_rm: "traces (\<lambda>ok. [RM_WATCH fd wd ok]) (\<lambda>ok. []) (inotify_rm_watch os fd wd)"
  by (simp add: traces_def inotify_rm_watch_def log_call_def post_simps split_beta Let_def)

lemma traces_group: "traces (\<lambda>fd. []) (\<lambda>fd. [fd]) (new_group os)"
  by (simp add: traces_def new_group_def inotify_init1_def hold_def post_simps split_beta Let_def)

lemma traces_drain: "traces (\<lambda>cs. [DRAINED fd cs]) (\<lambda>cs. []) (drain_events os fd)"
proof -
  have d: "post (drain_loop os fd mem cs) (\<lambda>c t. True) (\<lambda>a t. same_proc s t) s" for mem cs s
    using drain_loop_result [of os fd mem cs s] by (auto simp: post_def wp_iff split: sum.split)
  show ?thesis
    unfolding traces_def drain_events_def
  proof
    fix s
    show "post (seq (xcalloc os) (\<lambda>_. seq (drain_loop os fd (\<lambda>i. 0) zero_counts) (\<lambda>cs.
        seq (log_call (DRAINED fd cs)) (\<lambda>_. give cs)))) (\<lambda>c t. True)
      (\<lambda>a t. calls t = calls s @ [DRAINED fd a] \<and> held t = [] @ held s \<and> cleanup_root t = cleanup_root s) s"
    proof (rule post_seqI [OF quietlyD [OF quiet_calls(2)]], rule post_seqI [OF d])
      fix u :: unit and t t' cs
      assume "quiet s t" "same_proc t t'"
      then show "post (seq (log_call (DRAINED fd cs)) (\<lambda>_. give cs)) (\<lambda>c t. True)
        (\<lambda>a t. calls t = calls s @ [DRAINED fd a] \<and> held t = [] @ held s \<and> cleanup_root t = cleanup_root s) t'"
        by (simp add: post_simps log_call_def quiet_def same_proc_D)
    qed
  qed
qed

lemma close_post: "post (close_fd os fd) (\<lambda>c t. True)
   (\<lambda>ok t. calls t = calls s \<and> held t = remove1 fd (held s) \<and> cleanup_root t = cleanup_root s) s"
  by (simp add: close_fd_def post_simps split_beta Let_def)

lemma fixture_root_post:
  "post (make_fixture_root os cfg tag) (\<lambda>c t. True)
     (\<lambda>u t. calls t = calls s @ [MADE_TEMP (test_dir cfg @ ''/fsnotify-'' @ tag @ ''.XXXXXX'') (cleanup_root t)] \<and>
        held t = held s) s"
  unfolding make_fixture_root_def stat_file_def path_fits_def log_call_def
  by (auto simp: post_simps Let_def split_beta PATH_MAX_def split: option.split)

section \<open>The topology scenario\<close>

definition group_path :: "string \<Rightarrow> string \<Rightarrow> nat \<Rightarrow> string" where
  "group_path dir middle i = dir @ middle @ zero_pad8 (dec i)"

lemma make_paths_post:
  "post (make_paths os dir middle n) (\<lambda>c t. True) (\<lambda>paths t. paths = map (group_path dir middle) [0..<n] \<and> quiet s t) s"
  unfolding make_paths_def
  by (rule post_loop [where P = "\<lambda>i paths t. paths = map (group_path dir middle) [0..<i] \<and> quiet s t"])
     (auto simp: xasprintf_def post_simps split_beta Let_def group_path_def quiet_def)

lemma open_groups_post:
  fixes os :: "'k ino_os"
  shows "post (open_groups os paths) (\<lambda>c t. True) (\<lambda>fds t. length fds = length paths \<and> calls t = calls s \<and>
     mset (held t) = mset fds + mset (held s) \<and> cleanup_root t = cleanup_root s) s"
  unfolding open_groups_def
proof (rule post_loop [where P = "\<lambda>i fds t. length fds = i \<and> calls t = calls s \<and>
     mset (held t) = mset fds + mset (held s) \<and> cleanup_root t = cleanup_root s"])
  fix i fds and t :: "'k proc"
  assume t: "length fds = i \<and> calls t = calls s \<and> mset (held t) = mset fds + mset (held s) \<and> cleanup_root t = cleanup_root s"
  show "post (seq (stat_file os (paths ! i)) (\<lambda>_. seq (new_group os) (\<lambda>fd. give (fds @ [fd])))) (\<lambda>c t. True)
     (\<lambda>fds t. length fds = Suc i \<and> calls t = calls s \<and> mset (held t) = mset fds + mset (held s) \<and>
        cleanup_root t = cleanup_root s) t"
    by (rule post_seqI [OF quietlyD [OF quiet_calls(6)]], rule post_seqI [OF tracesD [OF traces_group]])
       (use t in \<open>auto simp: post_simps quiet_def\<close>)
qed simp_all

text \<open>What the kernel has been told about the keeper before and after the threads run.\<close>

definition keeper_added :: "topology \<Rightarrow> string \<Rightarrow> int \<times> int \<Rightarrow> ino_call list" where
  "keeper_added topo keeper k = (if topo = TOPO_SHARED then [ADD_WATCH (fst k) keeper IN_ATTRIB (snd k)] else [])"

definition keeper_gone :: "topology \<Rightarrow> int \<times> int \<Rightarrow> event_counts \<Rightarrow> ino_call list" where
  "keeper_gone topo k cs = (if topo = TOPO_SHARED then [RM_WATCH (fst k) (snd k) True, DRAINED (fst k) cs] else [])"

definition keeper_fds :: "topology \<Rightarrow> int \<times> int \<Rightarrow> int list" where
  "keeper_fds topo k = (if topo = TOPO_SHARED then [fst k] else [])"

lemma open_keeper_post:
  "post (open_keeper os topo keeper) (\<lambda>c t. True) (\<lambda>k t. calls t = calls s @ keeper_added topo keeper k \<and>
     held t = keeper_fds topo k @ held s) s"
proof (cases "topo = TOPO_SHARED")
  case True
  then show ?thesis
    unfolding open_keeper_def keeper_added_def keeper_fds_def
    by (simp, intro post_seqI [OF tracesD [OF traces_group]] post_seqI [OF tracesD [OF traces_add]])
       (auto simp: post_simps)
qed (simp add: open_keeper_def keeper_added_def keeper_fds_def post_simps)

lemma close_keeper_post:
  "post (close_keeper os topo k) (\<lambda>c t. True) (\<lambda>bad t. \<exists>cs. calls t = calls s @ keeper_gone topo k cs \<and>
     mset (held t) = mset (held s) - mset (keeper_fds topo k) \<and>
     (topo = TOPO_SHARED \<and> \<not> bad \<longrightarrow> cs = \<lparr>ev_ignored = 1, ev_overflow = 0, ev_unexpected = 0\<rparr>)) s"
proof (cases "topo = TOPO_SHARED")
  case True
  have eq: "ev_ignored cs = 1 \<and> ev_overflow cs = 0 \<and> ev_unexpected cs = 0 \<Longrightarrow>
      cs = \<lparr>ev_ignored = 1, ev_overflow = 0, ev_unexpected = 0\<rparr>" for cs :: event_counts
    by (cases cs) simp
  show ?thesis
    unfolding close_keeper_def keeper_gone_def keeper_fds_def
    using True
    by (simp, intro post_seqI [OF tracesD [OF traces_rm]])
       (auto simp: post_simps eq intro!: post_mono [OF tracesD [OF traces_drain]] post_mono [OF close_post])
qed (auto simp: close_keeper_def keeper_gone_def keeper_fds_def post_simps)

definition sum_counts :: "event_counts list \<Rightarrow> event_counts" where
  "sum_counts cs = foldl add_counts zero_counts cs"

lemma drain_groups_post:
  fixes os :: "'k ino_os"
  shows "post (drain_groups os fds) (\<lambda>c t. True) (\<lambda>total t. \<exists>cs. length cs = length fds \<and> total = sum_counts cs \<and>
     calls t = calls s @ map2 DRAINED fds cs \<and> mset (held t) = mset (held s) - mset fds) s"
proof -
  let ?P = "\<lambda>i total t. \<exists>cs. length cs = i \<and> total = sum_counts cs \<and>
     calls t = calls s @ map2 DRAINED (take i fds) cs \<and> mset (held t) = mset (held s) - mset (take i fds)"
  have "post (drain_groups os fds) (\<lambda>c t. True) (?P (length fds)) s"
    unfolding drain_groups_def
  proof (rule post_loop [where P = ?P])
    fix i total and t :: "'k proc"
    assume i: "0 \<le> i" "i < length fds" and "?P i total t"
    then obtain cs where cs: "length cs = i" "total = sum_counts cs"
        "calls t = calls s @ map2 DRAINED (take i fds) cs" "mset (held t) = mset (held s) - mset (take i fds)"
      by blast
    have snoc: "calls t @ [DRAINED (fds ! i) c] = calls s @ map2 DRAINED (take (Suc i) fds) (cs @ [c])"
      "mset (remove1 (fds ! i) (held t)) = mset (held s) - mset (take (Suc i) fds)"
      "add_counts total c = sum_counts (cs @ [c])" for c
      using cs i by (simp_all add: take_Suc_conv_app_nth sum_counts_def)
    show "post (seq (drain_events os (fds ! i)) (\<lambda>cs. seq (close_fd os (fds ! i)) (\<lambda>closed.
        seq (die_unless closed) (\<lambda>_. give (add_counts total cs))))) (\<lambda>c t. True) (?P (Suc i)) t"
      by (rule post_seqI [OF tracesD [OF traces_drain]], rule post_seqI [OF close_post])
         (use cs(1) snoc in \<open>auto simp: post_simps intro!: exI [of _ "cs @ [_]"]\<close>)
  qed (auto simp: sum_counts_def)
  then show ?thesis by simp
qed

lemma post_root: "post (f (cleanup_root s)) E Q s \<Longrightarrow> post (seq get_root f) E Q s"
  by (simp add: post_def seq_def get_root_def)

definition fixture_template :: "config \<Rightarrow> string \<Rightarrow> string" where
  "fixture_template cfg tag = test_dir cfg @ ''/fsnotify-'' @ tag @ ''.XXXXXX''"

definition setup_done :: "config \<Rightarrow> 'k proc \<Rightarrow> topology_run \<Rightarrow> int \<times> int \<Rightarrow> string \<Rightarrow> 'k proc \<Rightarrow> bool" where
  "setup_done cfg s run k root t \<longleftrightarrow>
     run_cfg run = cfg \<and> run_paths run = map (group_path (root @ ''/p'') ''/f-'') [0..<unat (items cfg)] \<and>
     length (run_fds run) = unat (items cfg) \<and>
     calls t = calls s @ MADE_TEMP (fixture_template cfg ''topology'') root #
       keeper_added (cfg_topology cfg) (root @ ''/p/keeper'') k \<and>
     mset (held t) = mset (keeper_fds (cfg_topology cfg) k) + mset (run_fds run) + mset (held s)"

lemma topology_setup_post:
  fixes os :: "'k ino_os"
  shows "post (topology_setup os cfg lim) (\<lambda>c t. True)
    (\<lambda>(run, k, fs) t. \<exists>root. setup_done cfg s run k root t) s"
  unfolding topology_setup_def Let_def
proof (intro post_seqI [OF quietlyD [OF quiet_prims(6)]] post_seqI [OF fixture_root_post])
  fix u1 u2 u3 :: unit and t0 t1 t2 :: "'k proc"
  let ?dir = "cleanup_root t2 @ ''/p''"
  assume q: "quiet s t0" "quiet t0 t1" and t2: "calls t2 = calls t1 @
      [MADE_TEMP (test_dir cfg @ ''/fsnotify-'' @ ''topology'' @ ''.XXXXXX'') (cleanup_root t2)] \<and> held t2 = held t1"
  show "post (seq get_root (\<lambda>root.
      seq (path_fits (root @ ''/p'')) (\<lambda>_.
      seq (make_dir os (root @ ''/p'')) (\<lambda>_.
      seq (each (\<lambda>i. xcalloc os) [0..<3]) (\<lambda>_.
      seq (make_paths os (root @ ''/p'') ''/f-'' (unat (items cfg))) (\<lambda>paths.
      seq (make_links os (cfg_topology cfg) ((root @ ''/p'') @ ''/keeper'') paths) (\<lambda>_.
      seq (verify_inode_shape os paths (cfg_topology cfg)) (\<lambda>shape_ok.
      seq (msg_unless shape_ok) (\<lambda>_.
      seq (open_groups os paths) (\<lambda>fds.
      seq (open_keeper os (cfg_topology cfg) ((root @ ''/p'') @ ''/keeper'')) (\<lambda>keeper_mark.
      seq (get_statfs os root) (\<lambda>fs_type.
      seq (each (\<lambda>i. xcalloc os) [0..<3]) (\<lambda>_.
      seq (seq (invoke (io_barrier_init os)) msg_unless) (\<lambda>_.
      give (\<lparr>run_cfg = cfg, run_paths = paths, run_fds = fds\<rparr>, keeper_mark, fs_type)))))))))))))))
    (\<lambda>c t. True) (\<lambda>(run, k, fs) t. \<exists>root. setup_done cfg s run k root t) t2" (is "post (seq get_root ?f) _ ?Q t2")
  proof -
    have "post (?f (cleanup_root t2)) (\<lambda>c t. True) ?Q t2"
    proof (intro post_seqI [OF quietlyD [OF quiet_calls(7)]] post_seqI [OF quietlyD [OF quiet_calls(8)]]
        post_seqI [OF quietlyD [OF quiet_each [OF quiet_calls(2)]]] post_seqI [OF make_paths_post]
        post_seqI [OF quietlyD [OF quiet_parts(5)]] post_seqI [OF quietlyD [OF quiet_parts(6)]]
        post_seqI [OF quietlyD [OF quiet_prims(6)]] post_seqI [OF open_groups_post] post_seqI [OF open_keeper_post]
        post_seqI [OF quietlyD [OF quiet_calls(9)]]
        post_seqI [OF quietlyD [OF quiet_seq [OF quiet_prims(4) quiet_prims(6)]]])
    qed (use q t2 in \<open>auto simp: post_simps quiet_def setup_done_def fixture_template_def
          intro!: exI [of _ "cleanup_root t2"]\<close>)
    then show ?thesis by (rule post_root)
  qed
qed

text \<open>A passed run of the topology scenario.\<close>

definition topology_passed :: "config \<Rightarrow> 'k proc \<Rightarrow> 'k proc \<Rightarrow> bool" where
  "topology_passed cfg s t \<longleftrightarrow> (\<exists>root fds wd k kcs cs A R.
     let n = unat (items cfg); topo = cfg_topology cfg;
         path = group_path (root @ ''/p'') ''/f-''
     in length fds = n \<and> length cs = n \<and> (\<forall>j < n. 0 \<le> wd j) \<and>
        mset A = mset (map (\<lambda>j. ADD_WATCH (fds ! j) (path j) IN_ATTRIB (wd j)) [0..<n]) \<and>
        mset R = mset (map (\<lambda>j. RM_WATCH (fds ! j) (wd j) True) [0..<n]) \<and>
        calls t = calls s @ MADE_TEMP (fixture_template cfg ''topology'') root #
          keeper_added topo (root @ ''/p/keeper'') k @ A @ R @ map2 DRAINED fds cs @ keeper_gone topo k kcs \<and>
        sum_counts cs = \<lparr>ev_ignored = items cfg, ev_overflow = 0, ev_unexpected = 0\<rparr> \<and>
        (topo = TOPO_SHARED \<longrightarrow> kcs = \<lparr>ev_ignored = 1, ev_overflow = 0, ev_unexpected = 0\<rparr>) \<and>
        mset (held t) = mset (held s))"

lemma run_threads_balance:
  assumes ok: "sizes_ok (run_cfg run)"
  shows "post (run_threads os run sched) (\<lambda>c t. True) (\<lambda>st t.
    t_add_success (sums st) + t_remove_success (sums st) + t_unexpected (sums st) = 2 * items (run_cfg run)) s"
proof -
  have "t_add_success (sums st) + t_remove_success (sums st) + t_unexpected (sums st) = 2 * items (run_cfg run)"
    if "run_pool os run sched 0 (initial_pool s) = Some st" "ended st = None" for st
    using run_pool_moves [OF that(1)] that(2) by (intro finished_balance [OF ok]) (auto simp: finished_def)
  then show ?thesis
    by (auto simp: post_def wp_def run_threads_def split: option.split)
qed

lemma passed_sums:
  assumes "topology_ok n t ev (t_unexpected t + of_bool bad)"
    and "t_add_success t + t_remove_success t + t_unexpected t = 2 * n"
  shows "t_add_success t = n" "t_remove_success t = n" "\<not> bad"
    "ev = \<lparr>ev_ignored = n, ev_overflow = 0, ev_unexpected = 0\<rparr>"
proof -
  have facts: "t_add_success t = n" "t_remove_success t = n" "t_unexpected t + of_bool bad = 0"
    "ev_ignored ev = n" "ev_overflow ev = 0" "ev_unexpected ev = 0"
    using assms(1) unfolding topology_ok_def by blast+
  have none: "t_unexpected t = 0" using assms(2) facts(1,2) by simp
  show "t_add_success t = n" "t_remove_success t = n" "\<not> bad"
    using facts(1,2,3) none by simp_all
  show "ev = \<lparr>ev_ignored = n, ev_overflow = 0, ev_unexpected = 0\<rparr>"
    using facts(4,5,6) by (cases ev) simp
qed

text \<open>The rest of \<open>run_topology\<close>, from the creation of the threads on.\<close>

lemma topology_tail_passed:
  fixes os :: "'k ino_os" and t0 :: "'k proc"
  assumes ok: "sizes_ok cfg" and ready: "setup_done cfg s run k root t0"
  shows "post (seq (run_threads os run sched) (\<lambda>st.
     seq (drain_groups os (run_fds run)) (\<lambda>ev.
     seq (close_keeper os (cfg_topology cfg) k) (\<lambda>bad.
     seq (printf (report st ev bad)) (\<lambda>_.
        give (if topology_ok (items cfg) (sums st) ev (t_unexpected (sums st) + of_bool bad) then 0 else 1 :: int))))))
     (\<lambda>c t. True) (\<lambda>rc t. rc = 0 \<longrightarrow> topology_passed cfg s t) t0"
proof (rule post_seqI)
  have run: "run_cfg run = cfg" using ready by (simp add: setup_done_def)
  with ok have okr: "sizes_ok (run_cfg run)" by simp
  show "post (run_threads os run sched) (\<lambda>c t. True) (\<lambda>st t.
      (same_but_calls t0 t \<and> (t_add_success (sums st) = items (run_cfg run) \<and>
          t_remove_success (sums st) = items (run_cfg run) \<longrightarrow> all_watched run t0 t (wds st))) \<and>
      t_add_success (sums st) + t_remove_success (sums st) + t_unexpected (sums st) = 2 * items (run_cfg run)) t0"
    by (rule post_mono [OF post_conj [OF run_threads_post [OF okr, of os sched t0]
          run_threads_balance [OF okr, of os sched t0]]]) simp_all
next
  have run: "run_cfg run = cfg" using ready by (simp add: setup_done_def)
  fix st :: "'k pool" and t1 :: "'k proc"
  assume thr: "(same_but_calls t0 t1 \<and> (t_add_success (sums st) = items (run_cfg run) \<and>
          t_remove_success (sums st) = items (run_cfg run) \<longrightarrow> all_watched run t0 t1 (wds st))) \<and>
      t_add_success (sums st) + t_remove_success (sums st) + t_unexpected (sums st) = 2 * items (run_cfg run)"
  show "post (seq (drain_groups os (run_fds run)) (\<lambda>ev.
     seq (close_keeper os (cfg_topology cfg) k) (\<lambda>bad.
     seq (printf (report st ev bad)) (\<lambda>_.
        give (if topology_ok (items cfg) (sums st) ev (t_unexpected (sums st) + of_bool bad) then 0 else 1 :: int)))))
     (\<lambda>c t. True) (\<lambda>rc t. rc = 0 \<longrightarrow> topology_passed cfg s t) t1"
  proof (intro post_seqI [OF drain_groups_post] post_seqI [OF close_keeper_post])
    fix ev bad and t2 t3 :: "'k proc"
    assume "\<exists>cs. length cs = length (run_fds run) \<and> ev = sum_counts cs \<and>
        calls t2 = calls t1 @ map2 DRAINED (run_fds run) cs \<and> mset (held t2) = mset (held t1) - mset (run_fds run)"
      and "\<exists>cs. calls t3 = calls t2 @ keeper_gone (cfg_topology cfg) k cs \<and>
        mset (held t3) = mset (held t2) - mset (keeper_fds (cfg_topology cfg) k) \<and>
        (cfg_topology cfg = TOPO_SHARED \<and> \<not> bad \<longrightarrow> cs = \<lparr>ev_ignored = 1, ev_overflow = 0, ev_unexpected = 0\<rparr>)"
    then obtain cs kcs where cs: "length cs = length (run_fds run)" "ev = sum_counts cs"
        "calls t2 = calls t1 @ map2 DRAINED (run_fds run) cs" "mset (held t2) = mset (held t1) - mset (run_fds run)"
      and kcs: "calls t3 = calls t2 @ keeper_gone (cfg_topology cfg) k kcs"
        "mset (held t3) = mset (held t2) - mset (keeper_fds (cfg_topology cfg) k)"
        "cfg_topology cfg = TOPO_SHARED \<and> \<not> bad \<longrightarrow> kcs = \<lparr>ev_ignored = 1, ev_overflow = 0, ev_unexpected = 0\<rparr>"
      by blast
    have "topology_passed cfg s t3"
      if pass: "topology_ok (items cfg) (sums st) ev (t_unexpected (sums st) + of_bool bad)"
    proof -
      note sums = passed_sums [OF pass]
      have sums: "t_add_success (sums st) = items cfg" "t_remove_success (sums st) = items cfg" "\<not> bad"
          "ev = \<lparr>ev_ignored = items cfg, ev_overflow = 0, ev_unexpected = 0\<rparr>"
        using sums thr by (simp_all add: run)
      then have "all_watched run t0 t1 (wds st)" using thr by (simp add: run)
      then obtain A R where AR: "calls t1 = calls t0 @ A @ R" "\<forall>j < ngroups run. 0 \<le> wds st j"
          "mset R = mset (map (\<lambda>j. RM_WATCH (run_fds run ! j) (wds st j) True) [0..<ngroups run])"
        and "mset A = mset (map (\<lambda>j. ADD_WATCH (run_fds run ! j) (run_paths run ! j) IN_ATTRIB (wds st j)) [0..<ngroups run])"
        by (auto simp: all_watched_def)
      moreover have "map (\<lambda>j. ADD_WATCH (run_fds run ! j) (run_paths run ! j) IN_ATTRIB (wds st j)) [0..<ngroups run] =
          map (\<lambda>j. ADD_WATCH (run_fds run ! j) (group_path (root @ ''/p'') ''/f-'' j) IN_ATTRIB (wds st j)) [0..<ngroups run]"
        using ready by (simp add: setup_done_def)
      ultimately have A: "mset A = mset (map (\<lambda>j. ADD_WATCH (run_fds run ! j) (group_path (root @ ''/p'') ''/f-'' j)
          IN_ATTRIB (wds st j)) [0..<ngroups run])"
        by simp
      have held: "mset (held t3) = mset (held s)"
        using ready thr cs(4) kcs(2) by (simp add: setup_done_def same_but_calls_def)
      show ?thesis
        unfolding topology_passed_def Let_def
        by (rule exI [of _ root], rule exI [of _ "run_fds run"], rule exI [of _ "wds st"], rule exI [of _ k],
            rule exI [of _ kcs], rule exI [of _ cs], rule exI [of _ A], rule exI [of _ R])
           (use ready AR A held cs kcs sums in \<open>simp add: setup_done_def\<close>)
    qed
    then show "post (seq (printf (report st ev bad)) (\<lambda>_.
        give (if topology_ok (items cfg) (sums st) ev (t_unexpected (sums st) + of_bool bad) then 0 else 1 :: int)))
       (\<lambda>c t. True) (\<lambda>rc t. rc = 0 \<longrightarrow> topology_passed cfg s t) t3"
      by (simp add: post_simps printf_def topology_passed_def Let_def)
  qed
qed

lemma run_topology_passed:
  fixes os :: "'k ino_os"
  assumes ok: "sizes_ok cfg"
  shows "post (run_topology os cfg sched) (\<lambda>c t. True) (\<lambda>rc t. rc = 0 \<longrightarrow> topology_passed cfg s t) s"
  unfolding run_topology_def Let_def
proof (intro post_seqI [OF quietlyD [OF quiet_parts(1)]] post_seqI [OF topology_setup_post])
  fix lim :: limits and s0 t :: "'k proc" and p :: "topology_run \<times> (int \<times> int) \<times> u64"
  obtain run k fs where p: "p = (run, k, fs)" by (cases p) auto
  assume q: "quiet s s0" and "(case p of (run, k, fs) \<Rightarrow> \<lambda>t. \<exists>root. setup_done cfg s0 run k root t) t"
  then obtain root where "setup_done cfg s0 run k root t" by (auto simp: p)
  with q have "setup_done cfg s run k root t" by (simp add: setup_done_def quiet_def)
  note tail = topology_tail_passed [OF ok this]
  show "post (case p of (run, k, fs) \<Rightarrow>
        seq (run_threads os run sched) (\<lambda>st.
        seq (drain_groups os (run_fds run)) (\<lambda>ev.
        seq (close_keeper os (cfg_topology cfg) k) (\<lambda>bad.
        seq (printf (topology_text os cfg lim fs (sums st) ev (t_unexpected (sums st) + of_bool bad))) (\<lambda>_.
        give (if topology_ok (items cfg) (sums st) ev (t_unexpected (sums st) + of_bool bad) then 0 else 1 :: int))))))
      (\<lambda>c t. True) (\<lambda>rc t. rc = 0 \<longrightarrow> topology_passed cfg s t) t"
    unfolding p prod.case
    by (rule tail [of os sched "\<lambda>st ev bad. topology_text os cfg lim fs (sums st) ev (t_unexpected (sums st) + of_bool bad)"])
qed

section \<open>The other scenarios\<close>

lemma all_counted:
  assumes "of_nat (length (filter P xs)) = (n :: u64)" and "length xs = unat n" and "x \<in> set xs"
  shows "P x"
proof (rule ccontr)
  assume "\<not> P x"
  then have less: "length (filter P xs) < unat n"
    using length_filter_less [of x xs P] assms(2,3) by simp
  then have "unat (of_nat (length (filter P xs)) :: u64) = length (filter P xs)"
    using unsigned_less [where ?'a = nat, of n] by (simp add: unat_of_nat)
  with assms(1) less show False by simp
qed

definition tally :: "('x \<Rightarrow> bool) \<Rightarrow> 'x list \<Rightarrow> u64 \<Rightarrow> u64 \<times> u64" where
  "tally P xs u = (of_nat (length (filter P xs)), u + of_nat (length (filter (\<lambda>x. \<not> P x) xs)))"

lemma tally_snoc: "tally_call (P x) (tally P xs u) = tally P (xs @ [x]) u"
  by (simp add: tally_def tally_call_def)

lemma tally_Nil: "tally P [] u = (0, u)"
  by (simp add: tally_def)

lemma tally_full:
  assumes "tally P xs u = (n, v)" and "length xs = unat n"
  shows "\<forall>x \<in> set xs. P x" "v = u"
proof -
  show all: "\<forall>x \<in> set xs. P x"
    using all_counted [of P xs n] assms by (simp add: tally_def)
  then show "v = u" using assms(1) by (auto simp: tally_def filter_empty_conv)
qed

lemma bulk_adds_post:
  fixes os :: "'k ino_os"
  shows "post (bulk_adds os fd paths u) (\<lambda>c t. True) (\<lambda>(ws, r) t. length ws = length paths \<and>
     r = tally (\<lambda>w. 0 \<le> w) ws u \<and> calls t = calls s @ map2 (\<lambda>p w. ADD_WATCH fd p BULK_MASK w) paths ws \<and>
     held t = held s) s"
proof -
  let ?P = "\<lambda>i (ws, r) t. length ws = i \<and> r = tally (\<lambda>w. 0 \<le> w) ws u \<and>
     calls t = calls s @ map2 (\<lambda>p w. ADD_WATCH fd p BULK_MASK w) (take i paths) ws \<and> held t = held s"
  have "post (bulk_adds os fd paths u) (\<lambda>c t. True) (?P (length paths)) s"
    unfolding bulk_adds_def
  proof (rule post_loop [where P = ?P])
    fix i a and t :: "'k proc"
    assume i: "i < length paths" and "?P i a t"
    then obtain ws where a: "a = (ws, tally (\<lambda>w. 0 \<le> w) ws u)" "length ws = i" "held t = held s"
        "calls t = calls s @ map2 (\<lambda>p w. ADD_WATCH fd p BULK_MASK w) (take i paths) ws"
      by (cases a) auto
    show "post (case a of (ws, t) \<Rightarrow> seq (inotify_add_watch os fd (paths ! i) BULK_MASK) (\<lambda>wd.
        give (ws @ [wd], tally_call (0 \<le> wd) t))) (\<lambda>c t. True) (?P (Suc i)) t"
      unfolding a(1) prod.case
      by (rule post_seqI [OF tracesD [OF traces_add]])
         (use i a tally_snoc [of "\<lambda>w. 0 \<le> w", of _ ws u] in \<open>simp add: post_simps take_Suc_conv_app_nth\<close>)
  qed (auto simp: tally_Nil)
  then show ?thesis by (auto elim!: post_mono)
qed

text \<open>The removals of watches that exist.\<close>

lemma bulk_removes_post:
  fixes os :: "'k ino_os"
  assumes ws: "\<forall>w \<in> set ws. 0 \<le> w"
  shows "post (bulk_removes os fd ws u) (\<lambda>c t. True) (\<lambda>r t. \<exists>oks. length oks = length ws \<and>
     r = tally (\<lambda>ok. ok) oks u \<and> calls t = calls s @ map2 (RM_WATCH fd) ws oks \<and> held t = held s) s"
proof -
  let ?P = "\<lambda>i r t. \<exists>oks. length oks = i \<and> r = tally (\<lambda>ok. ok) oks u \<and>
     calls t = calls s @ map2 (RM_WATCH fd) (take i ws) oks \<and> held t = held s"
  have "post (bulk_removes os fd ws u) (\<lambda>c t. True) (?P (length ws)) s"
    unfolding bulk_removes_def
  proof (rule post_loop [where P = ?P])
    fix i r and t :: "'k proc"
    assume i: "i < length ws" and "?P i r t"
    then obtain oks where a: "length oks = i" "r = tally (\<lambda>ok. ok) oks u"
        "calls t = calls s @ map2 (RM_WATCH fd) (take i ws) oks" "held t = held s"
      by blast
    have w: "0 \<le> ws ! i" using ws i by simp
    have snoc: "calls t @ [RM_WATCH fd (ws ! i) ok] = calls s @ map2 (RM_WATCH fd) (take (Suc i) ws) (oks @ [ok])"
      "tally_call ok r = tally (\<lambda>ok. ok) (oks @ [ok]) u" for ok
      using a i tally_snoc [of "\<lambda>ok. ok", of ok oks u] by (simp_all add: take_Suc_conv_app_nth)
    show "post (seq (if 0 \<le> ws ! i then inotify_rm_watch os fd (ws ! i) else give False)
        (\<lambda>gone. give (tally_call gone r))) (\<lambda>c t. True) (?P (Suc i)) t"
      using w
      by (simp, intro post_seqI [OF tracesD [OF traces_rm]])
         (use a snoc in \<open>auto simp: post_simps intro!: exI [of _ "oks @ [_]"]\<close>)
  qed (auto simp: tally_Nil)
  then show ?thesis by simp
qed

lemma bulk_dirs_post:
  fixes os :: "'k ino_os"
  shows "post (bulk_dirs os dir n) (\<lambda>c t. True) (\<lambda>paths t. paths = map (group_path dir ''/d-'') [0..<n] \<and> quiet s t) s"
  unfolding bulk_dirs_def
proof (rule post_loop [where P = "\<lambda>i paths t. paths = map (group_path dir ''/d-'') [0..<i] \<and> quiet s t"])
  fix i paths and t :: "'k proc"
  assume t: "paths = map (group_path dir ''/d-'') [0..<i] \<and> quiet s t"
  show "post (seq (xasprintf os dir ''/d-'' i) (\<lambda>path. seq (make_dir os path) (\<lambda>_.
      seq (stat_file os path) (\<lambda>_. give (paths @ [path]))))) (\<lambda>c t. True)
      (\<lambda>paths t. paths = map (group_path dir ''/d-'') [0..<Suc i] \<and> quiet s t) t"
    using t by (auto simp: xasprintf_def make_dir_def stat_file_def post_simps split_beta Let_def group_path_def quiet_def
        split: option.split)
qed auto

end
