(* ===== verification/Inotify_Scenarios.thy ===== *)
theory Inotify_Scenarios
  imports Inotify_Pass
begin

text \<open>
  What a run of the three scenarios with one thread has done when its status is 0.
\<close>

section \<open>Watches on many directories\<close>

definition bulk_passed :: "config \<Rightarrow> 'k proc \<Rightarrow> 'k proc \<Rightarrow> bool" where
  "bulk_passed cfg s t \<longleftrightarrow> (\<exists>root fd ws.
     let n = unat (items cfg); path = group_path (root @ ''/d'') ''/d-''
     in length ws = n \<and> (\<forall>w \<in> set ws. 0 \<le> w) \<and> distinct ws \<and>
        calls t = calls s @ MADE_TEMP (fixture_template cfg ''bulk'') root #
          map2 (\<lambda>i w. ADD_WATCH fd (path i) BULK_MASK w) [0..<n] ws @ map (\<lambda>w. RM_WATCH fd w True) ws @
          [DRAINED fd \<lparr>ev_ignored = items cfg, ev_overflow = 0, ev_unexpected = 0\<rparr>] \<and>
        held t = held s)"

lemma counts_eq:
  "ev_ignored cs = n \<Longrightarrow> ev_overflow cs = 0 \<Longrightarrow> ev_unexpected cs = 0 \<Longrightarrow>
     cs = \<lparr>ev_ignored = n, ev_overflow = 0, ev_unexpected = 0\<rparr>"
  by (cases cs) simp

lemma map2_all:
  assumes "\<forall>y \<in> set ys. P y" and "length xs = length ys" and "\<And>x y. P y \<Longrightarrow> f x y = g x"
  shows "map2 f xs ys = map g xs"
  using assms(2,1) by (induction xs ys rule: list_induct2) (simp_all add: assms(3))

lemma unique_post:
  "post (unique_wds os ws) (\<lambda>c t. True) (\<lambda>ok t. same_proc s t \<and> ok = distinct ws) s"
  by (rule post_mono [OF unique_wds_post]) simp_all

text \<open>\<open>run_bulk\<close> after the additions, and before.\<close>

lemma bulk_end_passed:
  fixes os :: "'k ino_os" and t0 :: "'k proc"
  assumes ws: "length ws = unat (items cfg)"
    and before: "calls t0 = calls s @ MADE_TEMP (fixture_template cfg ''bulk'') root #
          map2 (\<lambda>i w. ADD_WATCH fd (group_path (root @ ''/d'') ''/d-'' i) BULK_MASK w) [0..<unat (items cfg)] ws"
      "held t0 = fd # held s"
    and counts: "(adds, unexpected) = tally (\<lambda>w. 0 \<le> w) ws 0"
  shows "post (seq (now_ns os) (\<lambda>stop.
     seq (unique_wds os ws) (\<lambda>unique.
     seq (now_ns os) (\<lambda>start2.
     seq (bulk_removes os fd ws (if unique then unexpected else unexpected + 1)) (\<lambda>(removes, unexpected).
     seq (now_ns os) (\<lambda>stop2.
     seq (drain_events os fd) (\<lambda>ev.
     seq (close_fd os fd) (\<lambda>closed.
     seq (die_unless closed) (\<lambda>_.
     seq (printf (report removes unexpected ev stop start2 stop2)) (\<lambda>_.
     give (if bulk_ok (items cfg) adds removes ev unexpected affinity then 0 else 1 :: int)))))))))))
     (\<lambda>c t. True) (\<lambda>rc t. rc = 0 \<longrightarrow> bulk_passed cfg s t) t0" (is "post ?rest _ _ t0")
proof (cases "adds = items cfg")
  case False
  have "yields (\<lambda>rc. rc \<noteq> 0) ?rest"
    by (intro yields_seq yields_split yields_give) (simp add: bulk_ok_def False)
  then show ?thesis unfolding yields_def by (auto elim!: post_mono)
next
  case True
  note full = tally_full [of "\<lambda>w. 0 \<le> w" ws 0 "items cfg" unexpected, OF _ ws]
  have good: "\<forall>w \<in> set ws. 0 \<le> w" and un: "unexpected = 0" using full counts True by simp_all
  show ?thesis
  proof (intro post_seqI [OF quietlyD [OF quiet_calls(1)]] post_seqI [OF unique_post]
      post_seqI [OF bulk_removes_post [OF good]])
    fix t1 t2 t3 t4 :: "'k proc" and stop start2 unique and r :: "u64 \<times> u64"
    assume q: "quiet t0 t1" "quiet t2 t3" and u: "same_proc t1 t2 \<and> unique = distinct ws"
      and rm: "\<exists>oks. length oks = length ws \<and> r = tally (\<lambda>ok. ok) oks (if unique then unexpected else unexpected + 1) \<and>
        calls t4 = calls t3 @ map2 (RM_WATCH fd) ws oks \<and> held t4 = held t3"
    from rm obtain oks where oks: "length oks = length ws"
        "r = tally (\<lambda>ok. ok) oks (if distinct ws then 0 else 1)" "calls t4 = calls t3 @ map2 (RM_WATCH fd) ws oks"
        "held t4 = held t3"
      using u un by auto
    obtain removes unexp where r: "r = (removes, unexp)" by (cases r)
    have t3: "calls t3 = calls t0" "held t3 = held t0" using q u same_proc_D [of t1 t2] by (simp_all add: quiet_def)
    show "post (case r of (removes, unexpected) \<Rightarrow>
       seq (now_ns os) (\<lambda>stop2.
       seq (drain_events os fd) (\<lambda>ev.
       seq (close_fd os fd) (\<lambda>closed.
       seq (die_unless closed) (\<lambda>_.
       seq (printf (report removes unexpected ev stop start2 stop2)) (\<lambda>_.
       give (if bulk_ok (items cfg) adds removes ev unexpected affinity then 0 else 1 :: int)))))))
       (\<lambda>c t. True) (\<lambda>rc t. rc = 0 \<longrightarrow> bulk_passed cfg s t) t4"
      unfolding r prod.case
    proof (intro post_seqI [OF quietlyD [OF quiet_calls(1)]] post_seqI [OF tracesD [OF traces_drain]]
        post_seqI [OF close_post])
      fix stop2 ev closed and t5 t6 t7 :: "'k proc"
      assume q5: "quiet t4 t5" and "calls t6 = calls t5 @ [DRAINED fd ev] \<and> held t6 = [] @ held t5 \<and>
          cleanup_root t6 = cleanup_root t5"
        and "calls t7 = calls t6 \<and> held t7 = remove1 fd (held t6) \<and> cleanup_root t7 = cleanup_root t6"
      then have t7: "calls t7 = calls t0 @ map2 (RM_WATCH fd) ws oks @ [DRAINED fd ev]" "held t7 = held s"
        using oks t3 before(2) by (simp_all add: quiet_def)
      have "bulk_passed cfg s t7" if ok: "bulk_ok (items cfg) adds removes ev unexp affinity"
      proof -
        have all: "\<forall>ok \<in> set oks. ok" and "unexp = (if distinct ws then 0 else 1)"
          using tally_full [of "\<lambda>ok. ok" oks "if distinct ws then 0 else 1" "items cfg" unexp] oks r ok ws
          by (simp_all add: bulk_ok_def)
        then have d: "distinct ws" using ok by (simp add: bulk_ok_def split: if_splits)
        have ev: "ev = \<lparr>ev_ignored = items cfg, ev_overflow = 0, ev_unexpected = 0\<rparr>"
          using ok by (intro counts_eq) (simp_all add: bulk_ok_def)
        have rms: "map2 (RM_WATCH fd) ws oks = map (\<lambda>w. RM_WATCH fd w True) ws"
          by (rule map2_all [OF all]) (use oks in simp_all)
        show ?thesis
          unfolding bulk_passed_def Let_def
          by (rule exI [of _ root], rule exI [of _ fd], rule exI [of _ ws])
             (use ws good d t7 before(1) rms ev in simp)
      qed
      then show "post (seq (die_unless closed) (\<lambda>_.
         seq (printf (report removes unexp ev stop start2 stop2)) (\<lambda>_.
         give (if bulk_ok (items cfg) adds removes ev unexp affinity then 0 else 1 :: int))))
         (\<lambda>c t. True) (\<lambda>rc t. rc = 0 \<longrightarrow> bulk_passed cfg s t) t7"
        by (simp add: post_simps printf_def bulk_passed_def Let_def)
    qed
  qed
qed

lemma run_bulk_passed:
  fixes os :: "'k ino_os"
  shows "post (run_bulk os cfg) (\<lambda>c t. True) (\<lambda>rc t. rc = 0 \<longrightarrow> bulk_passed cfg s t) s"
  unfolding run_bulk_def Let_def
proof (intro post_seqI [OF quietlyD [OF quiet_parts(1)]] post_seqI [OF quietlyD [OF quiet_prims(6)]]
    post_seqI [OF fixture_root_post] post_root post_seqI [OF quietlyD [OF quiet_calls(7)]]
    post_seqI [OF quietlyD [OF quiet_calls(8)]] post_seqI [OF quietlyD [OF quiet_each [OF quiet_calls(2)]]]
    post_seqI [OF bulk_dirs_post] post_seqI [OF quietlyD [OF quiet_calls(9)]]
    post_seqI [OF quietlyD [OF quiet_parts(2)]] post_seqI [OF tracesD [OF traces_group]]
    post_seqI [OF quietlyD [OF quiet_calls(1)]] post_seqI [OF bulk_adds_post], goal_cases)
  case (1 lim t1 u t2 u' t3 u'' t4 u3 t5 u4 t6 u5 t7 paths t8 fs t9 aff t10 fd t11 start t12 p t13)
  obtain ws adds unexp where p: "p = (ws, adds, unexp)" by (cases p) auto
  let ?root = "cleanup_root t4"
  have "calls t13 = calls s @ MADE_TEMP (fixture_template cfg ''bulk'') ?root #
        map2 (\<lambda>i w. ADD_WATCH fd (group_path (?root @ ''/d'') ''/d-'' i) BULK_MASK w) [0..<unat (items cfg)] ws"
    "held t13 = fd # held s" "length ws = unat (items cfg)" "(adds, unexp) = tally (\<lambda>w. 0 \<le> w) ws 0"
    using 1 by (simp_all add: p quiet_def fixture_template_def zip_map1 split_beta)
  from bulk_end_passed [OF this(3,1,2,4)] show ?case
    unfolding p prod.case .
qed

section \<open>Updates of one watch\<close>

definition update_passed :: "config \<Rightarrow> 'k proc \<Rightarrow> 'k proc \<Rightarrow> bool" where
  "update_passed cfg s t \<longleftrightarrow> (\<exists>root fd wd.
     let path = root @ ''/target'' in 0 \<le> wd \<and>
     calls t = calls s @ MADE_TEMP (fixture_template cfg ''mask'') root #
       map (\<lambda>m. ADD_WATCH fd path m wd) ([IN_ATTRIB, IN_MODIFY, IN_ATTRIB] @ map update_mask [0..<unat (items cfg)]) @
       [RM_WATCH fd wd True, DRAINED fd \<lparr>ev_ignored = 1, ev_overflow = 0, ev_unexpected = 0\<rparr>] \<and>
     held t = held s)"

lemma single_file_post:
  fixes os :: "'k ino_os"
  shows "post (setup_single_file os cfg tag) (\<lambda>c t. True) (\<lambda>(path, fs, aff) t. \<exists>root. path = root @ ''/target'' \<and>
     calls t = calls s @ [MADE_TEMP (fixture_template cfg tag) root] \<and> held t = held s) s"
  unfolding setup_single_file_def
proof (intro post_seqI [OF fixture_root_post] post_root post_seqI [OF quietlyD [OF quiet_calls(7)]]
    post_seqI [OF quietlyD [OF quiet_file]] post_seqI [OF quietlyD [OF quiet_calls(9)]]
    post_seqI [OF quietlyD [OF quiet_parts(2)]])
qed (auto simp: post_simps quiet_def fixture_template_def)

lemma mask_updates_post:
  fixes os :: "'k ino_os"
  shows "post (mask_updates os fd path wd n) (\<lambda>c t. True) (\<lambda>r t. \<exists>ws. length ws = n \<and> r = tally (\<lambda>w. w = wd) ws 0 \<and>
     calls t = calls s @ map2 (\<lambda>i w. ADD_WATCH fd path (update_mask i) w) [0..<n] ws \<and> held t = held s) s"
  unfolding mask_updates_def
proof (rule post_loop [where P = "\<lambda>n r t. \<exists>ws. length ws = n \<and> r = tally (\<lambda>w. w = wd) ws 0 \<and>
     calls t = calls s @ map2 (\<lambda>i w. ADD_WATCH fd path (update_mask i) w) [0..<n] ws \<and> held t = held s"])
  fix i r and t :: "'k proc"
  assume "\<exists>ws. length ws = i \<and> r = tally (\<lambda>w. w = wd) ws 0 \<and>
     calls t = calls s @ map2 (\<lambda>i w. ADD_WATCH fd path (update_mask i) w) [0..<i] ws \<and> held t = held s"
  then obtain ws where ws: "length ws = i" "r = tally (\<lambda>w. w = wd) ws 0"
      "calls t = calls s @ map2 (\<lambda>i w. ADD_WATCH fd path (update_mask i) w) [0..<i] ws" "held t = held s"
    by blast
  have snoc: "calls t @ [ADD_WATCH fd path (update_mask i) w] =
      calls s @ map2 (\<lambda>i w. ADD_WATCH fd path (update_mask i) w) [0..<Suc i] (ws @ [w])"
    "tally_call (w = wd) r = tally (\<lambda>w. w = wd) (ws @ [w]) 0" for w
    using ws tally_snoc [of "\<lambda>w. w = wd" w ws 0] by simp_all
  show "post (seq (inotify_add_watch os fd path (update_mask i)) (\<lambda>ret. give (tally_call (ret = wd) r))) (\<lambda>c t. True)
     (\<lambda>r t. \<exists>ws. length ws = Suc i \<and> r = tally (\<lambda>w. w = wd) ws 0 \<and>
        calls t = calls s @ map2 (\<lambda>i w. ADD_WATCH fd path (update_mask i) w) [0..<Suc i] ws \<and> held t = held s) t"
    by (rule post_seqI [OF tracesD [OF traces_add]])
       (use ws snoc in \<open>auto simp: post_simps simp del: upt.simps intro!: exI [of _ "ws @ [_]"]\<close>)
qed (auto simp: tally_Nil)

lemma check_post:
  "post (die_unless b) (\<lambda>c t. True) (\<lambda>u t. b \<and> t = s) s" "post (msg_unless b) (\<lambda>c t. True) (\<lambda>u t. b \<and> t = s) s"
  by (simp_all add: post_simps)

lemma run_mask_passed:
  fixes os :: "'k ino_os"
  shows "post (run_mask_update os cfg) (\<lambda>c t. True) (\<lambda>rc t. rc = 0 \<longrightarrow> update_passed cfg s t) s"
  unfolding run_mask_update_def Let_def
proof (intro post_seqI [OF quietlyD [OF quiet_parts(1)]] post_seqI [OF single_file_post])
  fix lim and t1 t2 :: "'k proc" and p :: "string \<times> u64 \<times> bool"
  obtain path fs aff where p: "p = (path, fs, aff)" by (cases p) auto
  let ?P = "\<lambda>rc t. rc = (0 :: int) \<longrightarrow> update_passed cfg s t"
  assume q1: "quiet s t1" and "(case p of (path, fs, aff) \<Rightarrow> \<lambda>t. \<exists>root. path = root @ ''/target'' \<and>
     calls t = calls t1 @ [MADE_TEMP (fixture_template cfg ''mask'') root] \<and> held t = held t1) t2"
  then obtain root where t2: "path = root @ ''/target''" "held t2 = held s"
      "calls t2 = calls s @ [MADE_TEMP (fixture_template cfg ''mask'') root]"
    by (auto simp: p quiet_def)
  show "post (case p of (path, fs_type, affinity) \<Rightarrow>
     seq (new_group os) (\<lambda>fd.
     seq (inotify_add_watch os fd path IN_ATTRIB) (\<lambda>wd.
     seq (die_unless (0 \<le> wd)) (\<lambda>_.
     seq (inotify_add_watch os fd path IN_MODIFY) (\<lambda>again.
     seq (msg_unless (again = wd)) (\<lambda>_.
     seq (inotify_add_watch os fd path IN_ATTRIB) (\<lambda>again.
     seq (msg_unless (again = wd)) (\<lambda>_.
     seq (now_ns os) (\<lambda>start.
     seq (mask_updates os fd path wd (unat (items cfg))) (\<lambda>(success, unexpected).
     seq (now_ns os) (\<lambda>stop.
     seq (inotify_rm_watch os fd wd) (\<lambda>gone.
     seq (drain_events os fd) (\<lambda>ev.
     seq (close_fd os fd) (\<lambda>closed.
     seq (die_unless closed) (\<lambda>_.
     seq (printf (update_text os cfg lim fs_type success (unexpected + of_bool (\<not> gone)) ev affinity (stop - start))) (\<lambda>_.
     give (if update_ok (items cfg) success (unexpected + of_bool (\<not> gone)) ev affinity then 0 else 1)))))))))))))))))
     (\<lambda>c t. True) ?P t2"
    unfolding p prod.case
  proof (intro post_seqI [OF tracesD [OF traces_group]] post_seqI [OF tracesD [OF traces_add]]
      post_seqI [OF check_post(1)] post_seqI [OF check_post(2)] post_seqI [OF quietlyD [OF quiet_calls(1)]]
      post_seqI [OF mask_updates_post], goal_cases)
    case (1 fd t3 wd t4 u1 t5 w1 t6 u2 t7 w2 t8 u3 t9 start t10 r t11)
    obtain success unexp where r: "r = (success, unexp)" by (cases r)
    obtain ws where ws: "length ws = unat (items cfg)" "r = tally (\<lambda>w. w = wd) ws 0"
        "calls t11 = calls t10 @ map2 (\<lambda>i w. ADD_WATCH fd path (update_mask i) w) [0..<unat (items cfg)] ws"
        "held t11 = held t10"
      using 1(9) by blast
    have t10: "calls t10 = calls s @ MADE_TEMP (fixture_template cfg ''mask'') root #
        map (\<lambda>m. ADD_WATCH fd path m wd) [IN_ATTRIB, IN_MODIFY, IN_ATTRIB]" "held t10 = fd # held s" "0 \<le> wd"
      using 1(1-8) t2 by (simp_all add: quiet_def)
    show ?case
      unfolding r prod.case
    proof (intro post_seqI [OF quietlyD [OF quiet_calls(1)]] post_seqI [OF tracesD [OF traces_rm]]
        post_seqI [OF tracesD [OF traces_drain]] post_seqI [OF close_post], goal_cases)
      case (1 stop t12 gone t13 ev t14 closed t15)
      have t15: "calls t15 = calls t11 @ [RM_WATCH fd wd gone, DRAINED fd ev]" "held t15 = held s"
        using 1 ws(4) t10(2) by (simp_all add: quiet_def)
      have "update_passed cfg s t15"
        if ok: "update_ok (items cfg) success (unexp + of_bool (\<not> gone)) ev aff"
      proof -
        have "tally (\<lambda>w. w = wd) ws 0 = (items cfg, unexp)"
          using ws(2) r ok by (simp add: update_ok_def)
        note full = tally_full [OF this ws(1)]
        have gone: "gone" using ok full(2) by (simp add: update_ok_def split: if_splits)
        have ev: "ev = \<lparr>ev_ignored = 1, ev_overflow = 0, ev_unexpected = 0\<rparr>"
          using ok by (intro counts_eq) (simp_all add: update_ok_def)
        have adds: "map2 (\<lambda>i w. ADD_WATCH fd path (update_mask i) w) [0..<unat (items cfg)] ws =
            map (\<lambda>i. ADD_WATCH fd path (update_mask i) wd) [0..<unat (items cfg)]"
          by (rule map2_all [OF full(1)]) (use ws in simp_all)
        show ?thesis
          unfolding update_passed_def Let_def
          by (rule exI [of _ root], rule exI [of _ fd], rule exI [of _ wd])
             (use t2(1) t10 t15 ws adds gone ev in \<open>simp add: comp_def\<close>)
      qed
      then show ?case by (simp add: post_simps printf_def update_passed_def Let_def)
    qed
  qed
qed

section \<open>Look-ups\<close>

definition lookup_passed :: "config \<Rightarrow> 'k proc \<Rightarrow> 'k proc \<Rightarrow> bool" where
  "lookup_passed cfg s t \<longleftrightarrow> (\<exists>root fds.
     length fds = 16 + unat (items cfg) \<and> (\<forall>fd \<in> set fds. 0 \<le> fd) \<and>
     calls t = calls s @ MADE_TEMP (fixture_template cfg ''lookup'') root # map (OPEN_PATH (root @ ''/target'')) fds \<and>
     held t = held s)"

lemma open_path_post: "post (open_path os path) (\<lambda>c t. True)
   (\<lambda>fd t. calls t = calls s @ [OPEN_PATH path fd] \<and> held t = (if 0 \<le> fd then fd # held s else held s)) s"
  by (simp add: open_path_def hold_def log_call_def post_simps split_beta Let_def)

lemma lookups_post:
  fixes os :: "'k ino_os"
  shows "post (lookups os path n) (\<lambda>c t. True) (\<lambda>r t. \<exists>fds. length fds = n \<and>
     fst r = of_nat (length (filter (\<lambda>fd. 0 \<le> fd) fds)) \<and> calls t = calls s @ map (OPEN_PATH path) fds \<and>
     held t = held s) s"
  unfolding lookups_def
proof (rule post_loop [where P = "\<lambda>n r t. \<exists>fds. length fds = n \<and>
     fst r = of_nat (length (filter (\<lambda>fd. 0 \<le> fd) fds)) \<and> calls t = calls s @ map (OPEN_PATH path) fds \<and>
     held t = held s"])
  fix i and r :: "u64 \<times> u64" and t :: "'k proc"
  assume "\<exists>fds. length fds = i \<and> fst r = of_nat (length (filter (\<lambda>fd. 0 \<le> fd) fds)) \<and>
     calls t = calls s @ map (OPEN_PATH path) fds \<and> held t = held s"
  then obtain fds where fds: "length fds = i" "fst r = of_nat (length (filter (\<lambda>fd. 0 \<le> fd) fds))"
      "calls t = calls s @ map (OPEN_PATH path) fds" "held t = held s"
    by blast
  obtain success unexp where r: "r = (success, unexp)" by (cases r)
  let ?Q = "\<lambda>r t. \<exists>fds. length fds = Suc i \<and> fst r = of_nat (length (filter (\<lambda>fd. 0 \<le> fd) fds)) \<and>
     calls t = calls s @ map (OPEN_PATH path) fds \<and> held t = held s"
  show "post (case r of (success, unexpected) \<Rightarrow> seq (open_path os path) (\<lambda>fd.
       if 0 \<le> fd then seq (close_fd os fd) (\<lambda>closed. give (success + 1, if closed then unexpected else unexpected + 1))
       else give (success, unexpected + 1))) (\<lambda>c t. True) ?Q t"
    unfolding r prod.case
  proof (rule post_seqI [OF open_path_post])
    fix fd and t1 :: "'k proc"
    assume t1: "calls t1 = calls t @ [OPEN_PATH path fd] \<and> held t1 = (if 0 \<le> fd then fd # held t else held t)"
    have Q: "?Q r' u" if "fst r' = of_nat (length (filter (\<lambda>fd. 0 \<le> fd) (fds @ [fd])))"
      "calls u = calls t1" "held u = held s" for r' :: "u64 \<times> u64" and u :: "'k proc"
      using that t1 fds by (intro exI [of _ "fds @ [fd]"]) simp
    show "post (if 0 \<le> fd then seq (close_fd os fd) (\<lambda>closed. give (success + 1, if closed then unexp else unexp + 1))
       else give (success, unexp + 1)) (\<lambda>c t. True) ?Q t1"
    proof (cases "0 \<le> fd")
      case True
      have "post (seq (close_fd os fd) (\<lambda>closed. give (success + 1, if closed then unexp else unexp + 1)))
         (\<lambda>c t. True) ?Q t1"
        by (rule post_seqI [OF close_post], unfold post_give, rule Q) (use True t1 fds r in simp_all)
      with True show ?thesis by simp
    next
      case False
      have "post (give (success, unexp + 1)) (\<lambda>c t. True) ?Q t1"
        unfolding post_give by (rule Q) (use False t1 fds r in simp_all)
      with False show ?thesis by simp
    qed
  qed
qed auto

lemma warm_lookups_post:
  fixes os :: "'k ino_os"
  shows "post (each (\<lambda>i. seq (open_path os path) (\<lambda>fd. seq (die_unless (0 \<le> fd)) (\<lambda>_.
     seq (close_fd os fd) (\<lambda>closed. give ())))) [0..<n]) (\<lambda>c t. True)
     (\<lambda>u t. \<exists>fds. length fds = n \<and> (\<forall>fd \<in> set fds. 0 \<le> fd) \<and> calls t = calls s @ map (OPEN_PATH path) fds \<and>
        held t = held s) s"
proof (rule post_each [where P = "\<lambda>n t. \<exists>fds. length fds = n \<and> (\<forall>fd \<in> set fds. 0 \<le> fd) \<and>
     calls t = calls s @ map (OPEN_PATH path) fds \<and> held t = held s"])
  fix i and t :: "'k proc"
  assume "\<exists>fds. length fds = i \<and> (\<forall>fd \<in> set fds. 0 \<le> fd) \<and> calls t = calls s @ map (OPEN_PATH path) fds \<and>
     held t = held s"
  then obtain fds where fds: "length fds = i" "\<forall>fd \<in> set fds. 0 \<le> fd" "calls t = calls s @ map (OPEN_PATH path) fds"
      "held t = held s"
    by blast
  show "post (seq (open_path os path) (\<lambda>fd. seq (die_unless (0 \<le> fd)) (\<lambda>_. seq (close_fd os fd) (\<lambda>closed. give ()))))
     (\<lambda>c t. True) (\<lambda>u t. \<exists>fds. length fds = Suc i \<and> (\<forall>fd \<in> set fds. 0 \<le> fd) \<and>
        calls t = calls s @ map (OPEN_PATH path) fds \<and> held t = held s) t"
  proof (intro post_seqI [OF open_path_post] post_seqI [OF check_post(1)] post_seqI [OF close_post], goal_cases)
    case (1 fd t1 u t2 closed t3)
    then show ?case unfolding post_give using fds by (intro exI [of _ "fds @ [fd]"]) auto
  qed
qed auto

lemma run_lookup_passed:
  fixes os :: "'k ino_os"
  shows "post (run_path_lookup os cfg) (\<lambda>c t. True) (\<lambda>rc t. rc = 0 \<longrightarrow> lookup_passed cfg s t) s"
  unfolding run_path_lookup_def
proof (intro post_seqI [OF quietlyD [OF quiet_parts(1)]] post_seqI [OF single_file_post])
  fix lim and t1 t2 :: "'k proc" and p :: "string \<times> u64 \<times> bool"
  obtain path fs aff where p: "p = (path, fs, aff)" by (cases p) auto
  assume q1: "quiet s t1" and "(case p of (path, fs, aff) \<Rightarrow> \<lambda>t. \<exists>root. path = root @ ''/target'' \<and>
     calls t = calls t1 @ [MADE_TEMP (fixture_template cfg ''lookup'') root] \<and> held t = held t1) t2"
  then obtain root where t2: "path = root @ ''/target''" "held t2 = held s"
      "calls t2 = calls s @ [MADE_TEMP (fixture_template cfg ''lookup'') root]"
    by (auto simp: p quiet_def)
  show "post (case p of (path, fs_type, affinity) \<Rightarrow>
     seq (each (\<lambda>i. seq (open_path os path) (\<lambda>fd. seq (die_unless (0 \<le> fd)) (\<lambda>_.
       seq (close_fd os fd) (\<lambda>closed. give ())))) [0..<16]) (\<lambda>_.
     seq (now_ns os) (\<lambda>start.
     seq (lookups os path (unat (items cfg))) (\<lambda>(success, unexpected).
     seq (now_ns os) (\<lambda>stop.
     seq (printf (lookup_text os cfg lim fs_type success unexpected affinity (stop - start))) (\<lambda>_.
     give (if success = items cfg \<and> unexpected = 0 \<and> affinity then 0 else 1 :: int)))))))
     (\<lambda>c t. True) (\<lambda>rc t. rc = 0 \<longrightarrow> lookup_passed cfg s t) t2"
    unfolding p prod.case
  proof (intro post_seqI [OF warm_lookups_post] post_seqI [OF quietlyD [OF quiet_calls(1)]]
      post_seqI [OF lookups_post], goal_cases)
    case (1 u t3 start t4 r t5)
    obtain success unexp where r: "r = (success, unexp)" by (cases r)
    from 1(1) obtain fds1 where fds1: "length fds1 = 16" "\<forall>fd \<in> set fds1. 0 \<le> fd"
        "calls t3 = calls t2 @ map (OPEN_PATH path) fds1" "held t3 = held t2"
      by blast
    from 1(3) obtain fds2 where fds2: "length fds2 = unat (items cfg)"
        "success = of_nat (length (filter (\<lambda>fd. 0 \<le> fd) fds2))" "calls t5 = calls t4 @ map (OPEN_PATH path) fds2"
        "held t5 = held t4"
      unfolding r fst_conv by blast
    have passed: "lookup_passed cfg s t" if "success = items cfg" "calls t = calls t5" "held t = held t5" for t :: "'k proc"
    proof -
      have "of_nat (length (filter (\<lambda>fd. 0 \<le> fd) fds2)) = items cfg" using fds2(2) that(1) by simp
      from all_counted [OF this fds2(1)] have "\<forall>fd \<in> set fds2. 0 \<le> fd" by blast
      with fds1(2) have all: "\<forall>fd \<in> set (fds1 @ fds2). 0 \<le> fd" by auto
      have q: "calls t4 = calls t3" "held t4 = held t3" using 1(2) by (simp_all add: quiet_def)
      have "calls t = calls s @ MADE_TEMP (fixture_template cfg ''lookup'') root #
          map (OPEN_PATH (root @ ''/target'')) (fds1 @ fds2)"
        by (simp add: that(2) fds2(3) q(1) fds1(3) t2(3) t2(1))
      moreover have "held t = held s" by (simp add: that(3) fds2(4) q(2) fds1(4) t2(2))
      moreover have "length (fds1 @ fds2) = 16 + unat (items cfg)" by (simp add: fds1(1) fds2(1))
      ultimately show ?thesis using all unfolding lookup_passed_def by blast
    qed
    show ?case
      unfolding r prod.case
    proof (rule post_seqI [OF quietlyD [OF quiet_calls(1)]])
      fix stop and t6 :: "'k proc"
      assume "quiet t5 t6"
      then have "lookup_passed cfg s (t6\<lparr>stdout_text := out\<rparr>)" if "success = items cfg" for out
        using that by (intro passed) (simp_all add: quiet_def)
      then show "post (seq (printf (lookup_text os cfg lim fs success unexp aff (stop - start))) (\<lambda>_.
         give (if success = items cfg \<and> unexp = 0 \<and> aff then 0 else 1 :: int)))
         (\<lambda>c t. True) (\<lambda>rc t. rc = 0 \<longrightarrow> lookup_passed cfg s t) t6"
        by (simp add: post_simps printf_def)
    qed
  qed
qed

section \<open>Status 0\<close>

definition scenario_passed :: "config \<Rightarrow> 'k proc \<Rightarrow> 'k proc \<Rightarrow> bool" where
  "scenario_passed cfg s t \<longleftrightarrow> (case cfg_scenario cfg of
     SCENARIO_TOPOLOGY \<Rightarrow> topology_passed cfg s t
   | SCENARIO_BULK \<Rightarrow> bulk_passed cfg s t
   | SCENARIO_MASK_UPDATE \<Rightarrow> update_passed cfg s t
   | SCENARIO_PATH_LOOKUP \<Rightarrow> lookup_passed cfg s t)"

lemma passed_after_kst:
  "scenario_passed cfg (s\<lparr>kst := x\<rparr>) t \<Longrightarrow> scenario_passed cfg s t"
  by (simp add: scenario_passed_def topology_passed_def bulk_passed_def update_passed_def lookup_passed_def Let_def
      split: scenario.splits)

lemma main_passed:
  fixes os :: "'k ino_os"
  shows "post (main os env sched) (\<lambda>c t. True)
    (\<lambda>rc t. rc = 0 \<longrightarrow> (\<exists>cfg. config_ok cfg \<and> test_dir cfg = the (env ''TEST_DIR'') \<and> scenario_passed cfg s t)) s"
  unfolding main_def
proof (rule post_seqI [OF post_conj [OF load_config_sound load_config_env, THEN post_mono]])
  fix cfg and t :: "'k proc"
  assume "(config_ok cfg \<and> (\<exists>x. t = s\<lparr>kst := x\<rparr>)) \<and> test_dir cfg = the (env ''TEST_DIR'') \<and>
      env_bool (env ''KEEP_FILES'') False = Inr (keep_files cfg)"
  then obtain x where cfg: "config_ok cfg" "test_dir cfg = the (env ''TEST_DIR'')" and t: "t = s\<lparr>kst := x\<rparr>"
    by blast
  have "post (case cfg_scenario cfg of
         SCENARIO_TOPOLOGY \<Rightarrow> run_topology os cfg sched
       | SCENARIO_BULK \<Rightarrow> run_bulk os cfg
       | SCENARIO_MASK_UPDATE \<Rightarrow> run_mask_update os cfg
       | SCENARIO_PATH_LOOKUP \<Rightarrow> run_path_lookup os cfg) (\<lambda>c t. True) (\<lambda>rc u. rc = 0 \<longrightarrow> scenario_passed cfg t u) t"
    by (simp add: scenario_passed_def run_topology_passed [OF config_sizes [OF cfg(1)]] run_bulk_passed
        run_mask_passed run_lookup_passed split: scenario.split)
  then show "post (case cfg_scenario cfg of
         SCENARIO_TOPOLOGY \<Rightarrow> run_topology os cfg sched
       | SCENARIO_BULK \<Rightarrow> run_bulk os cfg
       | SCENARIO_MASK_UPDATE \<Rightarrow> run_mask_update os cfg
       | SCENARIO_PATH_LOOKUP \<Rightarrow> run_path_lookup os cfg) (\<lambda>c t. True)
     (\<lambda>rc t. rc = 0 \<longrightarrow> (\<exists>cfg. config_ok cfg \<and> test_dir cfg = the (env ''TEST_DIR'') \<and> scenario_passed cfg s t)) t"
    by (rule post_mono) (use cfg passed_after_kst [where s = s and x = x] t in blast)+
qed simp_all

end
