(* ===== verification/Inotify_System.thy ===== *)
theory Inotify_System
  imports Inotify_Scenarios
begin

text \<open>
  A small system on which the hypotheses of the properties hold: it has the files the program
  creates, gives out descriptors in order, and queues one \<open>IN_IGNORED\<close> event when a watch goes.
\<close>

record small_kernel =
  sk_next :: int
  sk_files :: "(string \<times> u64) list"
  sk_ignored :: "int list"

definition small_start :: "small_kernel proc" where
  "small_start = \<lparr>kst = \<lparr>sk_next = 3, sk_files = [], sk_ignored = []\<rparr>, cleanup_root = [], cleanup_enabled = False,
     at_exit = False, stdout_text = [], held = [], calls = []\<rparr>"

definition fresh_fd :: "small_kernel \<Rightarrow> int \<times> small_kernel" where
  "fresh_fd x = (sk_next x, x\<lparr>sk_next := sk_next x + 1\<rparr>)"

definition ignored_event :: event where
  "ignored_event = \<lparr>event_wd = 1, event_flags = IN_IGNORED, event_cookie = 0, event_name = []\<rparr>"

definition small_read :: "int \<Rightarrow> nat \<Rightarrow> small_kernel \<Rightarrow> (int + u8 list) \<times> small_kernel" where
  "small_read fd n x =
     (let k = count_list (sk_ignored x) fd
      in if k = 0 then (Inl EAGAIN, x)
         else (Inr (encode_events (replicate k ignored_event)), x\<lparr>sk_ignored := filter (\<lambda>g. g \<noteq> fd) (sk_ignored x)\<rparr>))"

definition small_stat :: "string \<Rightarrow> small_kernel \<Rightarrow> file_stat option \<times> small_kernel" where
  "small_stat path x =
     (Some \<lparr>st_dev = 1, st_ino = (case map_of (sk_files x) path of None \<Rightarrow> 0 | Some ino \<Rightarrow> ino), st_is_dir = True\<rparr>, x)"

definition small_os :: "small_kernel ino_os" where
  "small_os = \<lparr>io_alloc = (\<lambda>x. (True, x)), io_clock = (\<lambda>raw x. (Inr (0, 0), x)),
     io_read_file = (\<lambda>path x. (Some ''4096'', x)), io_fclose = (\<lambda>x. (True, x)), io_stat = small_stat,
     io_statfs = (\<lambda>path x. (Some 1, x)), io_mkdtemp = (\<lambda>path x. (Some path, x)), io_mkdir = (\<lambda>path x. (True, x)),
     io_create = (\<lambda>path x. (sk_next x, x\<lparr>sk_next := sk_next x + 1, sk_files := (path, of_int (sk_next x)) # sk_files x\<rparr>)),
     io_open_path = (\<lambda>path. fresh_fd), io_close = (\<lambda>fd x. (True, x)), io_link = (\<lambda>a b x. (True, x)),
     io_walk = (\<lambda>root x. ([root @ ''/p'', root], x)), io_remove = (\<lambda>path x. (True, x)),
     io_inotify_init = fresh_fd, io_add_watch = (\<lambda>fd path m x. (1, x)),
     io_rm_watch = (\<lambda>fd wd x. (True, x\<lparr>sk_ignored := fd # sk_ignored x\<rparr>)), io_read = small_read,
     io_setaffinity = (\<lambda>cpu x. (True, x)), io_atexit = (\<lambda>x. (True, x)), io_barrier_init = (\<lambda>x. (True, x)),
     io_thread_create = (\<lambda>x. (True, x)), io_thread_join = (\<lambda>x. (True, x)), io_ratio3 = (\<lambda>a b. ''0'')\<rparr>"

definition small_env :: "string \<Rightarrow> string option" where
  "small_env name = map_of [(''TEST_DIR'', ''/t''), (''ITEMS'', ''1'')] name"

definition turns :: "nat \<Rightarrow> nat" where
  "turns n = n mod 2"

text \<open>Evaluation: a computation is run on its state before what follows it is looked at.\<close>

lemma seq_cong: "m = m' \<Longrightarrow> s = s' \<Longrightarrow> seq m f s = seq m' f s'"
  by simp

lemma seq_run:
  "m s = r \<Longrightarrow> seq m f s = (case r of None \<Rightarrow> None | Some p \<Rightarrow> (case fst p of Inl c \<Rightarrow> Some (Inl c, snd p) | Inr a \<Rightarrow> f a (snd p)))"
  by (auto simp: seq_def split: option.split sum.split)

lemma runs:
  "give a s = Some (Inr a, s)" "invoke f s = Some (Inr (fst (f (kst s))), s\<lparr>kst := snd (f (kst s))\<rparr>)"
  "change g s = Some (Inr (), g s)" "die_unless True s = Some (Inr (), s)" "msg_unless True s = Some (Inr (), s)"
  "from_sum (Inr a) s = Some (Inr a, s)"
  by (simp_all add: give_def invoke_def change_def die_unless_def msg_unless_def from_sum_def split_beta Let_def)

definition small_cfg :: config where
  "small_cfg = \<lparr>test_dir = ''/t'', cfg_scenario = SCENARIO_TOPOLOGY, scenario_name = ''connector_topology'',
     cfg_topology = TOPO_DISTINCT, topology_name = ''distinct'', workers = 1, items = 1, keep_files = False,
     have_cpu_list = False, cpus = []\<rparr>"

lemma small_cfg_simps [simp]:
  "test_dir small_cfg = ''/t''" "cfg_scenario small_cfg = SCENARIO_TOPOLOGY" "cfg_topology small_cfg = TOPO_DISTINCT"
  "workers small_cfg = 1" "items small_cfg = 1" "have_cpu_list small_cfg = False"
  by (simp_all add: small_cfg_def)

lemma io_barrier_small: "io_barrier_init small_os x = (True, x)"
  by (simp add: small_os_def)

lemma small_numbers: "parse_ulong (Some ''1'') 32 = Inr 1" "scan_lu ''4096'' = Some 4096"
proof -
  have one: "''1'' = dec 1" by code_simp
  show "parse_ulong (Some ''1'') 32 = Inr 1" unfolding one by (simp add: parse_ulong_dec)
  show "scan_lu ''4096'' = Some 4096"
    by (simp add: scan_lu_def strtoul_def c_space_def radix_def digit_of_def digits_value_def Let_def)
qed

lemma small_config: "load_config small_os small_env s = Some (Inr small_cfg, s)"
  by (simp add: load_config_def small_env_def Let_def seq_run runs absent_def parse_scenario_def parse_topology_def
      parse_ulong_def [of None] env_bool_def parse_cpu_list_def range_checks_def MAX_WORKERS_def MAX_ITEMS_def
      small_cfg_def small_numbers cong: seq_cong)


lemma small_limits:
  "read_limits small_os s = Some (Inr \<lparr>max_instances = 4096, max_watches = 4096, max_queue = 4096\<rparr>, s)"
  by (simp add: read_limits_def read_ulong_file_def seq_run runs small_os_def small_numbers cong: seq_cong)

lemmas small_simps = seq_run runs small_os_def Let_def loop.simps each_def xcalloc_def xasprintf_def stat_file_def
  path_fits_def PATH_MAX_def small_stat_def log_call_def make_fixture_root_def get_root_def make_dir_def make_file_def
  hold_def close_fd_def get_statfs_def new_group_def inotify_init1_def make_paths_def make_links_def open_groups_def
  open_keeper_def fresh_fd_def verify_inode_shape_def stat_key_def

definition small_run :: topology_run where
  "small_run = \<lparr>run_cfg = small_cfg, run_paths = [''/t/fsnotify-topology.XXXXXX/p/f-00000000''], run_fds = [4]\<rparr>"

definition small_ready :: "small_kernel proc" where
  "small_ready = small_start\<lparr>kst := \<lparr>sk_next = 5, sk_files = [(''/t/fsnotify-topology.XXXXXX/p/f-00000000'', 3)],
       sk_ignored = []\<rparr>,
     cleanup_root := ''/t/fsnotify-topology.XXXXXX'', cleanup_enabled := True, at_exit := True, held := [4],
     calls := [MADE_TEMP ''/t/fsnotify-topology.XXXXXX'' ''/t/fsnotify-topology.XXXXXX'']\<rparr>"

lemma small_name: "zero_pad8 (dec 0) = ''00000000''"
  by code_simp

lemma small_parts:
  "make_fixture_root small_os small_cfg ''topology'' s = Some (Inr (), s\<lparr>cleanup_root := ''/t/fsnotify-topology.XXXXXX'',
     cleanup_enabled := True, at_exit := True,
     calls := calls s @ [MADE_TEMP ''/t/fsnotify-topology.XXXXXX'' ''/t/fsnotify-topology.XXXXXX'']\<rparr>)"
  "make_paths small_os ''/t/fsnotify-topology.XXXXXX/p'' ''/f-'' (Suc 0) s =
     Some (Inr [''/t/fsnotify-topology.XXXXXX/p/f-00000000''], s)"
  "0 \<le> sk_next (kst s) \<Longrightarrow> make_links small_os TOPO_DISTINCT keeper [path] s =
     Some (Inr (), s\<lparr>kst := (kst s)\<lparr>sk_next := sk_next (kst s) + 1,
       sk_files := (path, of_int (sk_next (kst s))) # sk_files (kst s)\<rparr>\<rparr>)"
  "verify_inode_shape small_os [path] TOPO_DISTINCT s = Some (Inr True, s)"
  "0 \<le> sk_next (kst s) \<Longrightarrow> open_groups small_os [path] s = Some (Inr [sk_next (kst s)],
     s\<lparr>kst := (kst s)\<lparr>sk_next := sk_next (kst s) + 1\<rparr>, held := sk_next (kst s) # held s\<rparr>)"
  "each (\<lambda>i. xcalloc small_os) [0..<3] s = Some (Inr (), s)"
  "get_statfs small_os path s = Some (Inr 1, s)" "make_dir small_os path s = Some (Inr (), s)"
  "get_root s = Some (Inr (cleanup_root s), s)"
  by (simp_all add: small_simps small_cfg_def small_name qsort_def upt_rec cong: seq_cong)

lemma small_setup:
  "topology_setup small_os small_cfg \<lparr>max_instances = 4096, max_watches = 4096, max_queue = 4096\<rparr> small_start =
     Some (Inr (small_run, (-1, -1), 1), small_ready)"
  by (simp add: topology_setup_def seq_run runs small_parts small_cfg_simps small_start_def small_run_def
      small_ready_def path_fits_def PATH_MAX_def open_keeper_def io_barrier_small Let_def cong: seq_cong)

lemma run_pool_go:
  "finished run st \<Longrightarrow> run_pool os run sched n st = Some st"
  "\<not> finished run st \<Longrightarrow> pool_step os run (sched n) st = r \<Longrightarrow>
     run_pool os run sched n st = run_pool os run sched (Suc n) (case r of None \<Rightarrow> st | Some st' \<Rightarrow> st')"
  by (subst run_pool.simps, simp)+

definition small_done :: "small_kernel proc" where
  "small_done = small_ready\<lparr>kst := (kst small_ready)\<lparr>sk_ignored := [4]\<rparr>,
     calls := calls small_ready @ [ADD_WATCH 4 ''/t/fsnotify-topology.XXXXXX/p/f-00000000'' IN_ATTRIB 1, RM_WATCH 4 1 True]\<rparr>"

lemma small_calls:
  "inotify_add_watch small_os fd path m s = Some (Inr 1, s\<lparr>calls := calls s @ [ADD_WATCH fd path m 1]\<rparr>)"
  "inotify_rm_watch small_os fd wd s = Some (Inr True,
     s\<lparr>kst := (kst s)\<lparr>sk_ignored := fd # sk_ignored (kst s)\<rparr>, calls := calls s @ [RM_WATCH fd wd True]\<rparr>)"
  "now_ns small_os s = Some (Inr 0, s)"
  "seq (invoke (io_thread_create small_os)) msg_unless s = Some (Inr (), s)"
  "seq (invoke (io_thread_join small_os)) msg_unless s = Some (Inr (), s)"
  "pin_step small_os small_cfg w s = Some (Inr True, s)"
  by (simp_all add: inotify_add_watch_def inotify_rm_watch_def now_ns_def pin_step_def log_call_def seq_run runs small_os_def
      cong: seq_cong)

lemma small_threads:
  "\<exists>st. run_pool small_os small_run turns 0 (initial_pool small_ready) = Some st \<and> pproc st = small_done \<and>
     ended st = None \<and> sums st = \<lparr>t_add_success = 1, t_remove_success = 1, t_unexpected = 0, t_add_sum = 0,
       t_remove_sum = 0, t_add_max = 0, t_remove_max = 0, t_affinity_ok = True\<rparr>"
  by (simp add: run_pool_go finished_def pool_step_def main_step_def worker_step_def add_step_def remove_step_def
      perform_def small_calls turns_def initial_pool_def small_run_def set_pc_def upd_result_def barrier_arrive_def
      after_barrier_def share_begin_def zero_result_def zero_totals_def add_totals_def
      small_done_def small_ready_def small_start_def)

definition one_ignored :: event_counts where
  "one_ignored = \<lparr>ev_ignored = 1, ev_overflow = 0, ev_unexpected = 0\<rparr>"

lemma small_drain: "drain_events small_os 4 small_done =
   Some (Inr one_ignored, small_done\<lparr>kst := (kst small_done)\<lparr>sk_ignored := []\<rparr>,
     calls := calls small_done @ [DRAINED 4 one_ignored]\<rparr>)"
proof -
  have w: "walk_events (put_bytes (encode_events [ignored_event]) (\<lambda>i. 0)) 16 0 zero_counts = Inr one_ignored"
    by (subst walk_encoded [where es = "[ignored_event]"])
       (simp_all add: put_bytes_def encode_events_def name_fits_def ignored_event_def tally_events_def count_event_def
         IN_IGNORED_def IN_Q_OVERFLOW_def zero_counts_def one_ignored_def)
  have n: "encode_events [ignored_event] \<noteq> []" "length (encode_events [ignored_event]) = 16"
    by (simp_all add: encode_events_nonempty) (simp add: encode_events_def ignored_event_def)
  have r: "io_read small_os 4 k (kst small_done) = (Inr (encode_events [ignored_event]), (kst small_done)\<lparr>sk_ignored := []\<rparr>)"
    "io_read small_os 4 k ((kst small_done)\<lparr>sk_ignored := []\<rparr>) = (Inl EAGAIN, (kst small_done)\<lparr>sk_ignored := []\<rparr>)" for k
    by (simp_all add: small_os_def small_read_def small_done_def small_ready_def small_start_def)
  have "drain_loop small_os 4 (\<lambda>i. 0) zero_counts small_done =
      Some (Inr one_ignored, small_done\<lparr>kst := (kst small_done)\<lparr>sk_ignored := []\<rparr>\<rparr>)"
    using w n by (subst drain_loop.simps, simp add: r, subst drain_loop.simps, simp add: r EAGAIN_def EINTR_def)
  then show ?thesis
    by (simp add: drain_events_def seq_run runs xcalloc_def log_call_def small_os_def cong: seq_cong)
qed

lemma small_groups:
  "\<exists>t. drain_groups small_os [4] small_done = Some (Inr one_ignored, t) \<and> at_exit t \<and> cleanup_enabled t \<and>
     cleanup_root t = ''/t/fsnotify-topology.XXXXXX''"
proof -
  have s: "add_counts zero_counts one_ignored = one_ignored"
    by (simp add: add_counts_def zero_counts_def one_ignored_def)
  have c: "close_fd small_os fd s = Some (Inr True, s\<lparr>held := remove1 fd (held s)\<rparr>)" for fd s
    by (simp add: close_fd_def seq_run runs small_os_def cong: seq_cong)
  show ?thesis
    by (simp add: drain_groups_def seq_run runs small_drain c s cong: seq_cong)
       (simp add: small_done_def small_ready_def)
qed

text \<open>The run from end to end: it passes, and removes its directory.\<close>

lemma small_topology:
  "\<exists>t. run_topology small_os small_cfg turns small_start = Some (Inr 0, t) \<and> at_exit t"
proof -
  obtain st where st: "run_threads small_os small_run turns small_ready = Some (Inr st, small_done)"
      "sums st = \<lparr>t_add_success = 1, t_remove_success = 1, t_unexpected = 0, t_add_sum = 0, t_remove_sum = 0,
         t_add_max = 0, t_remove_max = 0, t_affinity_ok = True\<rparr>"
    using small_threads by (auto simp: run_threads_def)
  obtain t where t: "drain_groups small_os (run_fds small_run) small_done = Some (Inr one_ignored, t)" "at_exit t"
    using small_groups by (auto simp: small_run_def)
  show ?thesis
    by (simp add: run_topology_def seq_run runs small_limits small_setup st t close_keeper_def printf_def topology_ok_def
        one_ignored_def Let_def cong: seq_cong)
qed

lemma small_process: "\<exists>t. run_process small_os small_env turns small_start = Some (0, t)"
proof -
  obtain t where "run_topology small_os small_cfg turns small_start = Some (Inr 0, t)" "at_exit t"
    using small_topology by blast
  then have "main small_os small_env turns small_start = Some (Inr 0, t)"
    by (simp add: main_def seq_run small_config cong: seq_cong)
  then show ?thesis by (simp add: run_process_def)
qed

end
