(* ===== verification/Inotify_Properties.thy ===== *)
theory Inotify_Properties
  imports Inotify_System
begin

text \<open>
  The properties of fsnotify_connector_topology.c.
\<close>

section \<open>The whole program\<close>

text \<open>C2: A process that exits with 0 has run the scenario of a valid configuration under \<open>TEST_DIR\<close> to the
  letter: for the topology scenario one watch added to every group and removed again, all additions
  before all removals, and every queue drained, with as many \<open>IN_IGNORED\<close> events in all as there are groups
  and no other; and the likewise exact traces of the other three scenarios. What follows in the trace is only the
  removal of the fixture.\<close>

theorem ino_status_zero_sound:
  assumes "\<not> at_exit s" and "run_process os env sched s = Some (0, t)"
  shows "\<exists>cfg u ds. config_ok cfg \<and> test_dir cfg = the (env ''TEST_DIR'') \<and> scenario_passed cfg s u \<and>
    calls t = calls u @ ds \<and> (\<forall>c \<in> set ds. \<exists>p ok. c = REMOVED p ok)"
proof -
  obtain r u where m: "main os env sched s = Some (r, u)" and r: "(case r of Inl c \<Rightarrow> c | Inr c \<Rightarrow> c) = 0"
      and t: "t = (if at_exit u then cleanup_fixture os u else u)"
    using assms(2) by (auto simp: run_process_def split: option.splits)
  have "r = Inr 0" using run_post [OF m main_fixture [OF assms(1)]] r by (auto split: sum.splits)
  with run_post [OF m main_passed] obtain cfg where cfg: "config_ok cfg" "test_dir cfg = the (env ''TEST_DIR'')"
      "scenario_passed cfg s u"
    by auto
  obtain ds where "calls t = calls u @ ds" "\<forall>c \<in> set ds. \<exists>p ok. c = REMOVED p ok"
  proof (cases "at_exit u \<and> cleanup_enabled u \<and> cleanup_root u \<noteq> []")
    case True
    obtain ps x where w: "io_walk os (cleanup_root u) (kst u) = (ps, x)"
      by (cases "io_walk os (cleanup_root u) (kst u)")
    from remove_paths_calls [of os ps "u\<lparr>kst := x\<rparr>"] True w t that show thesis
      by (fastforce simp: cleanup_fixture_def)
  next
    case False
    then have "t = u" using t by (auto simp: cleanup_fixture_def)
    with that [of "[]"] show thesis by simp
  qed
  with cfg show ?thesis by blast
qed

theorem ino_status_zero_sound_witness:
  "\<exists>t cfg u ds. run_process small_os small_env turns small_start = Some (0, t) \<and> config_ok cfg \<and>
    test_dir cfg = ''/t'' \<and> scenario_passed cfg small_start u \<and> calls t = calls u @ ds"
proof -
  obtain t where t: "run_process small_os small_env turns small_start = Some (0, t)"
    using small_process by blast
  have "\<not> at_exit small_start" by (simp add: small_start_def)
  from ino_status_zero_sound [OF this t] t show ?thesis by (fastforce simp: small_env_def)
qed

text \<open>C26: Every path the program removes is the directory it has itself made under \<open>TEST_DIR\<close>, or lies below it, and
  with \<open>KEEP_FILES\<close> it removes nothing; whichever way the process ends.\<close>

theorem ino_removes_only_fixture:
  assumes "walks_below os" and "\<not> at_exit s" and "run_process os env sched s = Some (code, t)"
  shows "\<exists>cs ds. calls t = calls s @ cs @ ds \<and> (\<forall>p ok. REMOVED p ok \<notin> set cs) \<and>
    (\<forall>c \<in> set ds. \<exists>p ok tag root. c = REMOVED p ok \<and> below root p \<and>
       MADE_TEMP (the (env ''TEST_DIR'') @ ''/fsnotify-'' @ tag @ ''.XXXXXX'') root \<in> set cs) \<and>
    (env_keeps env \<longrightarrow> ds = [])"
  by (rule run_process_removes [OF assms])

theorem ino_removes_only_fixture_witness:
  "\<exists>t cs ds. run_process small_os small_env turns small_start = Some (0, t) \<and>
    calls t = calls small_start @ cs @ ds \<and> (\<forall>p ok. REMOVED p ok \<notin> set cs) \<and>
    (\<forall>c \<in> set ds. \<exists>p ok root. c = REMOVED p ok \<and> below root p)"
proof -
  obtain t where t: "run_process small_os small_env turns small_start = Some (0, t)"
    using small_process by blast
  have "walks_below small_os" by (simp add: walks_below_def small_os_def below_def)
  moreover have "\<not> at_exit small_start" by (simp add: small_start_def)
  ultimately show ?thesis
    using ino_removes_only_fixture [OF _ _ t] t by (metis (no_types, lifting))
qed

text \<open>C22: The process ends, with exit code 0, 1 or 2, under every scheduler that gives each thread the processor again and
  again and on every system where only finitely many reads in a row deliver events or are
  interrupted.\<close>

theorem ino_process_ends:
  assumes "reads_run_dry os pending" and "fair 64 sched" and "\<not> at_exit s"
  shows "\<exists>code t. run_process os env sched s = Some (code, t) \<and> code \<in> {0, 1, 2}"
  using run_process_back [OF assms(1,2)] run_process_code [OF assms(3)] by blast

lemma small_runs_dry: "reads_run_dry small_os (\<lambda>x. length (sk_ignored x))"
proof -
  have "length (filter (\<lambda>g. g \<noteq> fd) gs) < length gs" if "count_list gs fd \<noteq> 0" for fd gs
    using that length_filter_less [of fd gs "\<lambda>g. g \<noteq> fd"] by (metis count_list_0_iff)
  then show ?thesis
    by (auto simp: reads_run_dry_def small_os_def small_read_def Let_def EAGAIN_def EINTR_def split: if_splits)
qed

lemma fair_mod: "fair n (\<lambda>t. t mod Suc n)"
  unfolding fair_def
proof (intro allI impI)
  fix actor t :: nat
  assume "actor \<le> n"
  then have "(Suc n * t + actor) mod Suc n = actor" unfolding mod_mult_self4 by simp
  then show "\<exists>t' \<ge> t. t' mod Suc n = actor" by (intro exI [of _ "Suc n * t + actor"]) auto
qed

theorem ino_process_ends_witness:
  "\<exists>code t. run_process small_os small_env (\<lambda>n. n mod 65) small_start = Some (code, t) \<and> code \<in> {0, 1, 2}"
  using ino_process_ends [OF small_runs_dry, of "\<lambda>n. n mod 65" small_start small_env] fair_mod [of 64]
  by (simp add: small_start_def)

section \<open>The threads\<close>

text \<open>C10: In every reachable state of the threads, under any interleaving, the calls made so far are additions, one for
  each group some worker is past, followed by removals, one for each watch some worker is past; and
  a worker removes only once all workers have added all their groups.\<close>

theorem topology_phases_apart:
  assumes "sizes_ok (run_cfg run)" and "(moves os run)\<^sup>*\<^sup>* (initial_pool s) st"
  shows "\<exists>A R ok. calls (pproc st) = calls s @ A @ R \<and>
    mset A = image_mset (add_call run st) (mset_set (added run st)) \<and>
    mset R = image_mset (remove_call run st ok) (mset_set {j \<in> removed run st. 0 \<le> wds st j}) \<and>
    (\<forall>w < nworkers run. \<forall>v < nworkers run. 2 \<le> passed (pcs st w) \<longrightarrow> adds_of run st v = end_of run v)"
proof -
  have b: "barrier_inv run st" using barrier_inv_reachable [OF assms] .
  obtain ok where "calls_inv run s st ok"
    using threads_inv_reachable [OF assms] by (auto simp: threads_inv_def)
  then show ?thesis
    using phases_apart [OF b] unfolding calls_inv_def by blast
qed

lemma small_sizes: "sizes_ok (run_cfg small_run)" "nworkers small_run = 1"
  by (simp_all add: sizes_ok_def small_run_def)

theorem topology_phases_apart_witness:
  "\<exists>(st :: small_kernel pool) A R. finished small_run st \<and> calls (pproc st) = calls small_ready @ A @ R \<and>
     mset A = image_mset (add_call small_run st) (mset_set (added small_run st)) \<and>
     adds_of small_run st 0 = end_of small_run 0"
proof -
  obtain st where st: "run_pool small_os small_run turns 0 (initial_pool small_ready) = Some st" "ended st = None"
    using small_threads by blast
  from run_pool_moves [OF st(1)] have mv: "(moves small_os small_run)\<^sup>*\<^sup>* (initial_pool small_ready) st"
    and fin: "finished small_run st" by simp_all
  from fin st(2) have "pcs st 0 = W_DONE"
    using barrier_inv_reachable [OF small_sizes(1) mv] small_sizes(2)
    by (simp add: finished_def barrier_inv_def)
  then have "adds_of small_run st 0 = end_of small_run 0" by simp
  moreover obtain A R where "calls (pproc st) = calls small_ready @ A @ R"
      "mset A = image_mset (add_call small_run st) (mset_set (added small_run st))"
    using topology_phases_apart [OF small_sizes(1) mv] by blast
  ultimately show ?thesis using fin by blast
qed

text \<open>The threads never block each other: as long as the run is not over, some thread can take a step, so no barrier and
  no join waits for ever.\<close>

theorem topology_never_stuck:
  assumes "sizes_ok (run_cfg run)" and "(moves os run)\<^sup>*\<^sup>* (initial_pool s) st" and "\<not> finished run st"
  shows "\<exists>actor \<le> nworkers run. pool_step os run actor st \<noteq> None"
  by (rule some_actor_moves [OF barrier_inv_reachable [OF assms(1,2)] assms(3)])

theorem topology_never_stuck_witness:
  "\<exists>actor \<le> 1. pool_step small_os small_run actor (initial_pool small_ready) \<noteq> None"
proof -
  have "\<not> finished small_run (initial_pool small_ready)"
    by (simp add: finished_def initial_pool_def small_sizes)
  from topology_never_stuck [OF small_sizes(1) rtranclp.rtrancl_refl this] show ?thesis
    by (simp add: small_sizes(2))
qed

text \<open>C21: Under every scheduler that gives each thread the processor again and again the threads come to their end, from
  whatever point of time on: either all workers are joined or some thread has ended the process.\<close>

theorem topology_threads_end:
  assumes "sizes_ok (run_cfg run)" and "fair (nworkers run) sched"
  shows "\<exists>st. run_pool os run sched n (initial_pool s) = Some st \<and> finished run st"
proof -
  obtain st where "run_pool os run sched n (initial_pool s) = Some st"
    using fair_run_ends [OF assms barrier_inv_initial [OF assms(1)]] by blast
  with run_pool_moves [OF this] show ?thesis by blast
qed

theorem topology_threads_end_witness:
  "\<exists>st. run_pool small_os small_run (\<lambda>n. n mod 2) 7 (initial_pool small_ready) = Some st \<and> finished small_run st"
  using topology_threads_end [OF small_sizes(1), of "\<lambda>n. n mod 2"] fair_mod [of 1] small_sizes(2)
  by (simp add: numeral_2_eq_2)

text \<open>C28: The shares of the workers cut the groups into consecutive pieces without gap or overlap, and no product in
  their computation wraps around, for every configuration that is let through.\<close>

theorem worker_shares_partition:
  assumes "config_ok cfg" and "j < unat (items cfg)"
  shows "\<exists>!w. w < unat (workers cfg) \<and> unat (share_begin cfg w) \<le> j \<and> j < unat (share_begin cfg (Suc w))"
proof -
  note ok = config_sizes [OF assms(1)]
  obtain w where "w < unat (workers cfg)" "unat (share_begin cfg w) \<le> j" "j < unat (share_begin cfg (Suc w))"
    using share_owner [OF ok order_refl, of j] assms(2) share_ends [OF ok] by auto
  then show ?thesis using share_unique [OF ok] by blast
qed

theorem worker_shares_partition_witness:
  "\<exists>!w. w < unat (workers small_cfg) \<and> unat (share_begin small_cfg w) \<le> 0 \<and> 0 < unat (share_begin small_cfg (Suc w))"
proof -
  have "config_ok small_cfg" by (simp add: config_ok_def small_cfg_def)
  then show ?thesis by (rule worker_shares_partition) simp
qed

section \<open>The configuration\<close>

text \<open>C27: Whatever the environment holds, \<open>load_config\<close> comes back, either ends the process with 1 or 2 or returns a
  configuration within its limits: an absolute directory, 1 to 64 workers, 1 to 1000000 items, no
  more workers than items, and as many processors below 1024 as workers if a list is given.\<close>

theorem load_config_typed:
  "comes_back (load_config os env) \<and>
   post (load_config os env) (\<lambda>c t. c = 1 \<or> c = 2) (\<lambda>cfg t. config_ok cfg) s"
  by (rule conjI [OF load_config_back post_mono [OF load_config_sound]]) auto

text \<open>The decimal text of every positive number below 2^64 is read back as that number.\<close>

theorem environment_number_round_trip:
  assumes "0 < n" and "n < 2 ^ 64"
  shows "parse_ulong (Some (dec n)) fallback = Inr (of_nat n)"
  by (rule parse_ulong_dec [OF assms])

theorem environment_number_round_trip_witness: "parse_ulong (Some (dec 1000000)) 32 = Inr 1000000"
  using environment_number_round_trip [of 1000000 32] by simp

text \<open>The number of workers is cut to 32 bits before it is checked: a value of \<open>WORKERS\<close> that exceeds a valid number by a
  multiple of 2^32 is accepted as that number.\<close>

theorem workers_cut_before_check:
  assumes "1 \<le> w" and "w \<le> 32" and "k * 2 ^ 32 + w < 2 ^ 64"
  shows "\<exists>cfg. load_config small_os ((\<lambda>name. None)(''TEST_DIR'' \<mapsto> ''/t'', ''WORKERS'' \<mapsto> dec (k * 2 ^ 32 + w))) s =
    Some (Inr cfg, s) \<and> unat (workers cfg) = w"
proof -
  let ?n = "of_nat (k * 2 ^ 32 + w) :: u64"
  have "unat ?n = k * 2 ^ 32 + w"
    unfolding unat_of_nat using assms(3) by simp
  then have cut: "unat (ucast ?n :: u32) = w"
    using assms(2) by (simp only: unsigned_ucast_eq take_bit_eq_mod) simp
  have read: "parse_ulong (Some (dec (k * 2 ^ 32 + w))) 1 = Inr ?n"
    by (rule parse_ulong_dec) (use assms in simp_all)
  have small: "v \<noteq> 0 \<and> \<not> 64 < v \<and> \<not> 32 < (ucast v :: u64)" if "unat v = w" for v :: u32
  proof -
    have "unat (ucast v :: u64) = unat v"
      using unsigned_less [where ?'a = nat, of v] by (simp add: unsigned_ucast_eq take_bit_eq_mod)
    with that assms show ?thesis by (auto simp: word_less_nat_alt)
  qed
  note ok = small [OF cut]
  have "load_config small_os ((\<lambda>name. None)(''TEST_DIR'' \<mapsto> ''/t'', ''WORKERS'' \<mapsto> dec (k * 2 ^ 32 + w))) s =
      Some (Inr (small_cfg\<lparr>workers := ucast ?n, items := 32\<rparr>), s)"
    using ok read
    by (simp add: load_config_def Let_def seq_run runs absent_def parse_scenario_def parse_topology_def
      parse_ulong_def [of None] env_bool_def parse_cpu_list_def range_checks_def MAX_WORKERS_def MAX_ITEMS_def
      small_cfg_def cong: seq_cong del: of_nat_add of_nat_mult)
  then show ?thesis using cut by simp
qed

theorem workers_cut_before_check_witness:
  "\<exists>cfg. load_config small_os ((\<lambda>name. None)(''TEST_DIR'' \<mapsto> ''/t'', ''WORKERS'' \<mapsto> dec 4294967297)) small_start =
    Some (Inr cfg, small_start) \<and> unat (workers cfg) = 1"
  using workers_cut_before_check [of 1 1 small_start] by simp

section \<open>Inodes and events\<close>

text \<open>C31: Where \<open>stat\<close> keeps giving the same answer for each path, the check of the inodes by sorting and comparing neighbours
  accepts the distinct topology exactly when no two paths have the same device and inode, and the
  shared topology exactly when all have the same.\<close>

theorem inode_shape_exact:
  assumes "\<And>p x. p \<in> set paths \<Longrightarrow> fst (io_stat os p x) = Some (st p)"
  shows "post (verify_inode_shape os paths topo) (\<lambda>c t. c = 1)
    (\<lambda>ok t. ok \<longleftrightarrow> (if topo = TOPO_DISTINCT
       then inj_on (\<lambda>i. (st_dev (st (paths ! i)), st_ino (st (paths ! i)))) {..<length paths}
       else \<forall>p \<in> set paths. \<forall>q \<in> set paths. st_dev (st p) = st_dev (st q) \<and> st_ino (st p) = st_ino (st q))) s"
  by (rule verify_inode_shape_stable [OF assms])

definition stat_by_length :: "string \<Rightarrow> file_stat" where
  "stat_by_length path = \<lparr>st_dev = 1, st_ino = of_nat (length path), st_is_dir = False\<rparr>"

theorem inode_shape_exact_witness:
  "post (verify_inode_shape (small_os\<lparr>io_stat := \<lambda>p x. (Some (stat_by_length p), x)\<rparr>) [''bb'', ''a'', ''cc''] TOPO_DISTINCT)
     (\<lambda>c t. c = 1) (\<lambda>ok t. \<not> ok) small_start"
proof -
  let ?paths = "[''bb'', ''a'', ''cc'']"
  let ?key = "\<lambda>i. (st_dev (stat_by_length (?paths ! i)), st_ino (stat_by_length (?paths ! i)))"
  have "\<not> inj_on ?key {..<length ?paths}"
  proof
    assume "inj_on ?key {..<length ?paths}"
    then have "0 = (2 :: nat)" by (rule inj_onD) (simp_all add: stat_by_length_def)
    then show False by simp
  qed
  then show ?thesis
    using inode_shape_exact [of ?paths "small_os\<lparr>io_stat := \<lambda>p x. (Some (stat_by_length p), x)\<rparr>" stat_by_length TOPO_DISTINCT small_start]
    by (simp only: fst_conv select_convs if_True) (auto elim!: post_mono)
qed

text \<open>C35: When the queue of a group delivers events, in whatever pieces and with whatever interruptions, \<open>drain_events\<close>
  comes back with exactly the counts of these events.\<close>

theorem drain_counts_events:
  assumes "fst (io_alloc os (kst s))" and "queue_reads os fd es (snd (io_alloc os (kst s))) y"
  shows "\<exists>t. drain_events os fd s = Some (Inr (tally_events es zero_counts), t) \<and> kst t = y"
proof -
  have "drain_loop os fd (\<lambda>i. 0) zero_counts (s\<lparr>kst := snd (io_alloc os (kst s))\<rparr>) =
      Some (Inr (tally_events es zero_counts), s\<lparr>kst := y\<rparr>)"
    using drain_loop_reads [OF assms(2), of "s\<lparr>kst := snd (io_alloc os (kst s))\<rparr>"] by simp
  then show ?thesis
    using assms(1) by (simp add: drain_events_def seq_run runs xcalloc_def log_call_def cong: seq_cong)
qed

theorem drain_counts_events_witness:
  "\<exists>t. drain_events small_os 4 small_done = Some (Inr \<lparr>ev_ignored = 1, ev_overflow = 0, ev_unexpected = 0\<rparr>, t)"
proof -
  let ?x = "kst small_done" and ?y = "(kst small_done)\<lparr>sk_ignored := []\<rparr>"
  have a: "fst (io_alloc small_os ?x)" "snd (io_alloc small_os ?x) = ?x" by (simp_all add: small_os_def)
  have "io_read small_os 4 EVENT_BUFFER_SIZE ?y = (Inl EAGAIN, ?y)"
    by (simp add: small_os_def small_read_def)
  then have "queue_reads small_os 4 [] ?y ?y" by (rule queue_reads.intros)
  moreover have "io_read small_os 4 EVENT_BUFFER_SIZE ?x = (Inr (encode_events [ignored_event]), ?y)"
    by (simp add: small_os_def small_read_def small_done_def small_ready_def small_start_def)
  moreover have "\<forall>e \<in> set [ignored_event]. name_fits e" by (simp add: name_fits_def ignored_event_def)
  ultimately have "queue_reads small_os 4 ([ignored_event] @ []) ?x ?y" by (intro delivered) simp_all
  moreover have "tally_events ([ignored_event] @ []) zero_counts = \<lparr>ev_ignored = 1, ev_overflow = 0, ev_unexpected = 0\<rparr>"
    by (simp add: tally_events_def count_event_def ignored_event_def IN_IGNORED_def IN_Q_OVERFLOW_def zero_counts_def)
  ultimately show ?thesis
    using drain_counts_events [of small_os small_done 4 "[ignored_event] @ []" ?y] a by auto
qed

text \<open>Reading back: walking through the bytes of any sequence of events counts every event once, by its mask, and the
  bytes that follow in the buffer play no part.\<close>

theorem walk_reads_back:
  assumes "\<forall>e \<in> set es. name_fits e"
  shows "walk_events (put_bytes (encode_events es) old) (length (encode_events es)) 0 cs = Inr (tally_events es cs)"
  by (rule walk_encoded) (use assms in \<open>simp_all add: put_bytes_def\<close>)

theorem walk_reads_back_witness:
  "walk_events (put_bytes (encode_events [ignored_event, ignored_event]) (\<lambda>i. 0))
     (length (encode_events [ignored_event, ignored_event])) 0 zero_counts =
   Inr \<lparr>ev_ignored = 2, ev_overflow = 0, ev_unexpected = 0\<rparr>"
proof -
  have "tally_events [ignored_event, ignored_event] zero_counts = \<lparr>ev_ignored = 2, ev_overflow = 0, ev_unexpected = 0\<rparr>"
    by (simp add: tally_events_def count_event_def ignored_event_def IN_IGNORED_def IN_Q_OVERFLOW_def zero_counts_def)
  moreover have "\<forall>e \<in> set [ignored_event, ignored_event]. name_fits e" by (simp add: name_fits_def ignored_event_def)
  ultimately show ?thesis using walk_reads_back [of "[ignored_event, ignored_event]" "\<lambda>i. 0" zero_counts] by simp
qed

text \<open>C36: A header or a name that is cut off at the end of the bytes read ends the process with 2, whatever old bytes the
  buffer holds behind them.\<close>

theorem walk_refuses_cut_event:
  assumes "\<forall>e \<in> set es. name_fits e" and "name_fits e" and "0 < k" "k < length (encode_event e)"
  shows "walk_events (put_bytes (encode_events es @ take k (encode_event e)) old)
    (length (encode_events es) + k) 0 cs = Inl 2"
proof -
  let ?mem = "put_bytes (encode_events es @ take k (encode_event e)) old" and ?n = "length (encode_events es)"
  have "walk_events ?mem (?n + k) 0 cs = walk_events ?mem (?n + k) (0 + ?n) (tally_events es cs)"
    by (rule walk_prefix) (use assms in \<open>simp_all add: put_bytes_def nth_append\<close>)
  moreover have "?mem (?n + j) = encode_event e ! j" if "j < k" for j
    using that assms(4) by (simp add: put_bytes_def nth_append)
  ultimately show ?thesis using walk_cut [of k ?mem ?n e] assms by simp
qed

theorem walk_refuses_cut_event_witness:
  "walk_events (put_bytes (encode_events [ignored_event] @ take 15 (encode_event ignored_event)) (\<lambda>i. 0)) (16 + 15) 0 zero_counts = Inl 2"
proof -
  have f: "name_fits ignored_event" by (simp add: name_fits_def ignored_event_def)
  have "length (encode_events [ignored_event]) = 16" by (simp add: encode_events_def ignored_event_def)
  with walk_refuses_cut_event [of "[ignored_event]" ignored_event 15 "\<lambda>i. 0" zero_counts] f show ?thesis
    by (simp add: ignored_event_def)
qed

end
