(* ===== verification/Region_Base.thy ===== *)
theory Region_Base
  imports Exit_Monad Uring_Abi
begin

text \<open>
  io_uring_memmap_round.c: constants and types of the program, and the process it runs in: an
  address space of mappings over memory that the kernel shares, descriptors and system calls.

  This program maps and unmaps the memory of its rings all the time, so here an access goes
  through an address. It is looked up in the mappings the process has at that moment, and an
  address outside of them ends the process with a segmentation fault. The kernel is the
  parameter \<open>'k mm_os\<close>; it sees the address space, may change memory before any access, and may
  deliver a signal. \<open>calls\<close> records what the program asked for and was answered.
\<close>

section \<open>Constants\<close>

definition SCHEMA_VERSION :: nat where "SCHEMA_VERSION = 1"
definition RING_ENTRIES :: u32 where "RING_ENTRIES = 64"
definition CQ_ENTRIES :: u32 where "CQ_ENTRIES = 128"
definition POINT_WARMUPS :: nat where "POINT_WARMUPS = 3"
definition POINT_ROUNDS :: nat where "POINT_ROUNDS = 15"
definition R0_EVENTS :: u32 where "R0_EVENTS = 4096"
definition LIFECYCLE_EVENTS :: u32 where "LIFECYCLE_EVENTS = 512"
definition SMOKE_EVENTS :: u32 where "SMOKE_EVENTS = 8"
definition TRACE_EVENTS :: u32 where "TRACE_EVENTS = 16"
definition ASYNC_TEARDOWN_PAUSE_US :: u32 where "ASYNC_TEARDOWN_PAUSE_US = 200"
definition INVALID_MMAP_OFFSET :: u64 where "INVALID_MMAP_OFFSET = 0x70000000"
definition IORING_SETUP_NO_MMAP :: u32 where "IORING_SETUP_NO_MMAP = 2 ^ 14"

definition INPUT_SHA256 :: string where
  "INPUT_SHA256 = ''809954870327de3d5c0d6093dd8089e1ce74b45528e5b6f40e904d28988d4665''"
definition TARGET_SHA256 :: string where
  "TARGET_SHA256 = ''b688f6bc0d9403aac283c855108a3083739781a62ba8d7be2fc3b6da48a057a9''"

text \<open>From the system headers.\<close>

definition ENXIO :: int where "ENXIO = 6"
definition ENOMEM :: int where "ENOMEM = 12"
definition MAP_SHARED :: u32 where "MAP_SHARED = 1"
definition MAP_PRIVATE :: u32 where "MAP_PRIVATE = 2"
definition MAP_ANONYMOUS :: u32 where "MAP_ANONYMOUS = 0x20"
definition MAP_POPULATE :: u32 where "MAP_POPULATE = 0x8000"
definition MAP_FAILED :: u64 where "MAP_FAILED = - 1"

text \<open>The status of a process that has been ended by SIGSEGV.\<close>

definition SIGSEGV_STATUS :: int where "SIGSEGV_STATUS = 128 + 11"

section \<open>Types\<close>

datatype profile_id =
    PROFILE_R0_REMAP
  | PROFILE_L0_STANDARD_LIFECYCLE
  | PROFILE_N0_USERBACKED_LIFECYCLE
  | PROFILE_A0_ANON_MAP
  | PROFILE_E0_ERRORS

datatype run_mode =
    MODE_DESCRIBE
  | MODE_SMOKE
  | MODE_TRACE
  | MODE_POINT

record options =
  opt_profile :: profile_id
  opt_mode :: run_mode
  opt_output_path :: "string option"
  opt_cpu :: u32
  opt_execute :: bool

text \<open>The parameters of \<open>io_uring_setup\<close> with the addresses of memory the program brings along.\<close>

record region_params = io_uring_params +
  p_sq_off_user_addr :: u64
  p_cq_off_user_addr :: u64

definition zero_region_params :: region_params where
  "zero_region_params = io_uring_params.extend zero_params
     (region_params.fields 0 0)"

record raw_ring =
  ring_fd :: int
  ring_p :: region_params
  ring_single_mmap :: bool
  ring_user_backed :: bool
  ring_mapped :: bool
  ring_sq_ptr :: u64
  ring_cq_ptr :: u64
  ring_sqes_ptr :: u64
  ring_sq_sz :: u64
  ring_cq_sz :: u64
  ring_ring_sz :: u64
  ring_sqes_sz :: u64
  ring_user_ring :: u64
  ring_user_sqes :: u64
  ring_user_ring_sz :: u64
  ring_user_sqes_sz :: u64
  ring_sq_head :: u64
  ring_sq_tail :: u64
  ring_sq_mask :: u64
  ring_sq_entries :: u64
  ring_sq_dropped :: u64
  ring_sq_array :: u64
  ring_sqes :: u64
  ring_cq_head :: u64
  ring_cq_tail :: u64
  ring_cq_mask :: u64
  ring_cq_entries :: u64
  ring_cq_overflow :: u64
  ring_cqes :: u64

record geometry =
  geo_sq_entries :: u32
  geo_cq_entries :: u32
  geo_features :: u32
  geo_single_mmap :: bool
  geo_sq_sz :: u64
  geo_cq_sz :: u64
  geo_ring_sz :: u64
  geo_sqes_sz :: u64

record counters =
  events :: u64
  successful_events :: u64
  setup_count :: u64
  close_count :: u64
  mmap_count :: u64
  munmap_count :: u64
  nop_count :: u64
  validation_failures :: u64
  cleanup_failures :: u64
  sq_dropped :: u64
  cq_overflow :: u64
  outstanding :: u64
  timed_ns :: u64
  user_ring_addr_ok :: bool
  user_sqes_addr_ok :: bool

definition zero_counters :: counters where
  "zero_counters = \<lparr>events = 0, successful_events = 0, setup_count = 0, close_count = 0,
     mmap_count = 0, munmap_count = 0, nop_count = 0, validation_failures = 0,
     cleanup_failures = 0, sq_dropped = 0, cq_overflow = 0, outstanding = 0, timed_ns = 0,
     user_ring_addr_ok = False, user_sqes_addr_ok = False\<rparr>"

record identity =
  kernel_release :: string
  boot_id :: string

section \<open>Memory\<close>

text \<open>
  The bytes of the objects that can be mapped, and a mapping of \<open>map_len\<close> bytes at \<open>map_start\<close>
  onto an object from byte \<open>map_off\<close> on. Two mappings may lie on the same bytes.
\<close>

type_synonym memory = "nat \<Rightarrow> nat \<Rightarrow> u8"

record mapping =
  map_start :: u64
  map_len :: u64
  map_obj :: nat
  map_off :: nat

definition covers :: "u64 \<Rightarrow> nat \<Rightarrow> mapping \<Rightarrow> bool" where
  "covers a n m \<longleftrightarrow>
     unat (map_start m) \<le> unat a \<and> unat a + n \<le> unat (map_start m) + unat (map_len m)"

definition locate :: "mapping list \<Rightarrow> u64 \<Rightarrow> nat \<Rightarrow> (nat \<times> nat) option" where
  "locate ms a n =
     (case find (covers a n) ms of
        None \<Rightarrow> None
      | Some m \<Rightarrow> Some (map_obj m, map_off m + (unat a - unat (map_start m))))"

definition peek :: "memory \<Rightarrow> nat \<times> nat \<Rightarrow> nat \<Rightarrow> u8 list" where
  "peek m l n = map (\<lambda>i. m (fst l) (snd l + i)) [0..<n]"

definition poke :: "nat \<times> nat \<Rightarrow> u8 list \<Rightarrow> memory \<Rightarrow> memory" where
  "poke l bs m = m(fst l := (\<lambda>i. if snd l \<le> i \<and> i < snd l + length bs then bs ! (i - snd l)
     else m (fst l) i))"

definition wipe :: "nat \<times> nat \<Rightarrow> nat \<Rightarrow> memory \<Rightarrow> memory" where
  "wipe l n m = m(fst l := (\<lambda>i. if snd l \<le> i \<and> i < snd l + n then 0 else m (fst l) i))"

text \<open>Little-endian numbers.\<close>

definition le_value :: "u8 list \<Rightarrow> nat" where
  "le_value bs = foldr (\<lambda>b n. unat b + 256 * n) bs 0"

definition le_bytes :: "nat \<Rightarrow> nat \<Rightarrow> u8 list" where
  "le_bytes k n = map (\<lambda>i. of_nat (n div 256 ^ i)) [0..<k]"

text \<open>The mapping that \<open>munmap\<close> removes. Mappings do not overlap, so there is at most one.\<close>

fun drop_mapping :: "u64 \<Rightarrow> u64 \<Rightarrow> mapping list \<Rightarrow> mapping list" where
  "drop_mapping a len [] = []"
| "drop_mapping a len (m # ms) =
     (if map_start m = a \<and> map_len m = len then ms else m # drop_mapping a len ms)"

declare drop_mapping.simps(2) [simp del]

section \<open>The system\<close>

datatype mm_call =
    SETUP region_params int
  | MMAP u64 u32 int u64 u64
  | MUNMAP u64 u64 bool
  | CLOSE int bool
  | ENTER int int
  | SQ_MASK int u32
  | CQ_MASK int u32
  | CQE int cqe
  | CLOCK u64

type_synonym ('k, 'a) kcall = "mapping list \<Rightarrow> memory \<Rightarrow> 'k \<Rightarrow> 'a \<times> memory \<times> 'k"

text \<open>
  A call that returns a C integer returns the value of \<open>errno\<close> with it. \<open>mm_mmap\<close> gives
  an address, an \<open>errno\<close>, and what is mapped: an object and a place in it. \<open>mm_async\<close> is what happens between two
  actions of the program; its result is whether a signal has come. \<open>mm_ratio6 a b\<close> is the text
  of \<open>(double)a / b\<close> with six decimals.
\<close>

record 'k mm_os =
  mm_async :: "('k, bool) kcall"
  mm_setup :: "u32 \<Rightarrow> region_params \<Rightarrow> ('k, int \<times> region_params) kcall"
  mm_enter :: "int \<Rightarrow> u32 \<Rightarrow> u32 \<Rightarrow> u32 \<Rightarrow> ('k, int \<times> int) kcall"
  mm_mmap :: "u64 \<Rightarrow> u32 \<Rightarrow> int \<Rightarrow> u64 \<Rightarrow> ('k, u64 \<times> int \<times> nat \<times> nat) kcall"
  mm_munmap :: "u64 \<Rightarrow> u64 \<Rightarrow> ('k, bool) kcall"
  mm_close :: "int \<Rightarrow> ('k, bool) kcall"
  mm_clock :: "('k, (u64 \<times> u64) option) kcall"
  mm_usleep :: "u32 \<Rightarrow> ('k, unit) kcall"
  mm_pagesize :: u64
  mm_nprocs :: "('k, int) kcall"
  mm_setaffinity :: "u32 \<Rightarrow> ('k, bool) kcall"
  mm_getcpu :: "('k, int) kcall"
  mm_read_file :: "string \<Rightarrow> nat \<Rightarrow> ('k, string option) kcall"
  mm_getenv :: "string \<Rightarrow> string option"
  mm_fopen :: "string \<Rightarrow> ('k, bool) kcall"
  mm_write :: "string \<Rightarrow> ('k, bool) kcall"
  mm_fclose :: "('k, bool) kcall"
  mm_ratio6 :: "u64 \<Rightarrow> u64 \<Rightarrow> string"

text \<open>
  \<open>maps\<close> are the mappings of the process and \<open>fds\<close> its descriptors, \<open>ctr\<close> is the \<open>struct counters\<close> of
  the round, \<open>out_lines\<close> what has been written to the output file.
\<close>

record 'k proc =
  kst :: 'k
  maps :: "mapping list"
  mem :: memory
  fds :: "int list"
  stop_requested :: bool
  ctr :: counters
  out_lines :: "string list"
  stdout_lines :: "string list"
  calls :: "mm_call list"

type_synonym ('k, 'a) prog = "('k proc, 'a) comp"

definition handle_signal :: "'k proc \<Rightarrow> 'k proc" where
  "handle_signal s = s\<lparr>stop_requested := True\<rparr>"

definition kernel :: "('k, 'a) kcall \<Rightarrow> ('k, 'a) prog" where
  "kernel f s = (let (a, m, x) = f (maps s) (mem s) (kst s) in Some (Inr a, s\<lparr>mem := m, kst := x\<rparr>))"

definition async :: "'k mm_os \<Rightarrow> 'k proc \<Rightarrow> 'k proc" where
  "async os s =
     (let (sig, m, x) = mm_async os (maps s) (mem s) (kst s); t = s\<lparr>mem := m, kst := x\<rparr>
      in if sig then handle_signal t else t)"

text \<open>\<open>stop_requested\<close> is volatile: a signal may arrive up to the read.\<close>

definition read_stop :: "'k mm_os \<Rightarrow> ('k, bool) prog" where
  "read_stop os s = (let t = async os s in Some (Inr (stop_requested t), t))"

definition log_call :: "mm_call \<Rightarrow> ('k, unit) prog" where
  "log_call c = change (\<lambda>s. s\<lparr>calls := calls s @ [c]\<rparr>)"

text \<open>\<open>if (counters) counters->x++\<close>; \<open>counted\<close> tells whether \<open>counters\<close> is not null.\<close>

definition count :: "bool \<Rightarrow> (counters \<Rightarrow> counters) \<Rightarrow> ('k, unit) prog" where
  "count counted f = change (\<lambda>s. if counted then s\<lparr>ctr := f (ctr s)\<rparr> else s)"

subsection \<open>Accesses to memory\<close>

definition segfault :: "('k, 'a) prog" where
  "segfault = exit_with SIGSEGV_STATUS"

definition load :: "'k mm_os \<Rightarrow> u64 \<Rightarrow> nat \<Rightarrow> ('k, u8 list) prog" where
  "load os a n =
     seq (change (async os)) (\<lambda>_ s.
     (case locate (maps s) a n of None \<Rightarrow> segfault | Some l \<Rightarrow> give (peek (mem s) l n)) s)"

definition load32 :: "'k mm_os \<Rightarrow> u64 \<Rightarrow> ('k, u32) prog" where
  "load32 os a = seq (load os a 4) (\<lambda>bs. give (of_nat (le_value bs)))"

definition store :: "u64 \<Rightarrow> u8 list \<Rightarrow> ('k, unit) prog" where
  "store a bs s =
     (case locate (maps s) a (length bs) of
        None \<Rightarrow> segfault s
      | Some l \<Rightarrow> Some (Inr (), s\<lparr>mem := poke l bs (mem s)\<rparr>))"

definition memset0 :: "u64 \<Rightarrow> u64 \<Rightarrow> ('k, unit) prog" where
  "memset0 a n s =
     (case locate (maps s) a (unat n) of
        None \<Rightarrow> segfault s
      | Some l \<Rightarrow> Some (Inr (), s\<lparr>mem := wipe l (unat n) (mem s)\<rparr>))"

definition load_acquire :: "'k mm_os \<Rightarrow> u64 \<Rightarrow> ('k, u32) prog" where
  "load_acquire os ptr = load32 os ptr"

definition load_relaxed :: "'k mm_os \<Rightarrow> u64 \<Rightarrow> ('k, u32) prog" where
  "load_relaxed os ptr = load32 os ptr"

definition store_release :: "u64 \<Rightarrow> u32 \<Rightarrow> ('k, unit) prog" where
  "store_release ptr val = store ptr (le_bytes 4 (unat val))"

text \<open>A copy of a \<open>struct io_uring_cqe\<close>: \<open>user_data\<close>, \<open>res\<close>, \<open>flags\<close>.\<close>

definition load_cqe :: "'k mm_os \<Rightarrow> u64 \<Rightarrow> ('k, cqe) prog" where
  "load_cqe os a =
     seq (load os a 16) (\<lambda>bs.
     give \<lparr>cqe_user_data = of_nat (le_value (take 8 bs)),
           cqe_res = of_nat (le_value (take 4 (drop 8 bs))),
           cqe_flags = of_nat (le_value (drop 12 bs))\<rparr>)"

subsection \<open>System calls\<close>

definition io_uring_setup :: "'k mm_os \<Rightarrow> u32 \<Rightarrow> region_params \<Rightarrow> ('k, int \<times> region_params) prog" where
  "io_uring_setup os entries p =
     seq (kernel (mm_setup os entries p)) (\<lambda>(fd, p').
     seq (change (\<lambda>s. if 0 \<le> fd then s\<lparr>fds := fd # fds s\<rparr> else s)) (\<lambda>_.
     seq (log_call (SETUP p' fd)) (\<lambda>_. give (fd, p'))))"

text \<open>The address and \<open>errno\<close>; the address \<open>MAP_FAILED\<close> says that nothing has been mapped.\<close>

definition mmap :: "'k mm_os \<Rightarrow> u64 \<Rightarrow> u32 \<Rightarrow> int \<Rightarrow> u64 \<Rightarrow> ('k, u64 \<times> int) prog" where
  "mmap os len flags fd off =
     seq (kernel (mm_mmap os len flags fd off)) (\<lambda>(a, e, obj, at).
     seq (change (\<lambda>s. if a = MAP_FAILED then s
        else s\<lparr>maps := \<lparr>map_start = a, map_len = len, map_obj = obj, map_off = at\<rparr> # maps s\<rparr>)) (\<lambda>_.
     seq (log_call (MMAP len flags fd off a)) (\<lambda>_. give (a, e))))"

definition munmap :: "'k mm_os \<Rightarrow> u64 \<Rightarrow> u64 \<Rightarrow> ('k, bool) prog" where
  "munmap os a len =
     seq (kernel (mm_munmap os a len)) (\<lambda>ok.
     seq (change (\<lambda>s. if ok then s\<lparr>maps := drop_mapping a len (maps s)\<rparr> else s)) (\<lambda>_.
     seq (log_call (MUNMAP a len ok)) (\<lambda>_. give ok)))"

text \<open>\<open>close\<close> releases the descriptor also when it reports an error.\<close>

definition close_fd :: "'k mm_os \<Rightarrow> int \<Rightarrow> ('k, bool) prog" where
  "close_fd os fd =
     seq (kernel (mm_close os fd)) (\<lambda>ok.
     seq (change (\<lambda>s. s\<lparr>fds := remove1 fd (fds s)\<rparr>)) (\<lambda>_.
     seq (log_call (CLOSE fd ok)) (\<lambda>_. give ok)))"

definition now_ns :: "'k mm_os \<Rightarrow> ('k, u64) prog" where
  "now_ns os =
     seq (kernel (mm_clock os)) (\<lambda>r. case r of
       None \<Rightarrow> exit_with EXIT_FAILURE
     | Some (sec, nsec) \<Rightarrow>
         seq (log_call (CLOCK (sec * 1000000000 + nsec))) (\<lambda>_. give (sec * 1000000000 + nsec)))"

definition page_align :: "'k mm_os \<Rightarrow> u64 \<Rightarrow> u64" where
  "page_align os val = (val + mm_pagesize os - 1) AND NOT (mm_pagesize os - 1)"

text \<open>The result is \<open>None\<close> for a return of -1.\<close>

definition read_text :: "'k mm_os \<Rightarrow> string \<Rightarrow> nat \<Rightarrow> ('k, string option) prog" where
  "read_text os path bufsize =
     (if bufsize = 0 then give None
      else seq (kernel (mm_read_file os path (bufsize - 1))) (\<lambda>r.
           give (case r of None \<Rightarrow> None | Some bytes \<Rightarrow> Some (trim_eol (take (bufsize - 1) bytes)))))"

definition pin_cpu :: "'k mm_os \<Rightarrow> u32 \<Rightarrow> ('k, int) prog" where
  "pin_cpu os cpu =
     seq (kernel (mm_nprocs os)) (\<lambda>online.
     if online \<le> uint cpu then give (-1)
     else seq (kernel (mm_setaffinity os cpu)) (\<lambda>ok.
          if \<not> ok then give (-1)
          else seq (kernel (mm_getcpu os)) (\<lambda>now. give (if now = uint cpu then 0 else -1))))"

end
