(* ===== verification/Region_Ring.thy ===== *)
theory Region_Ring
  imports Region_Base
begin

text \<open>
  The rings of io_uring_memmap_round.c: their geometry, their creation with memory of the kernel
  or of the program, mapping, unmapping and closing, and one NOP through a ring. The functions
  that change a \<open>struct raw_ring\<close> return it; \<open>counted\<close> tells whether they are given counters.
\<close>

section \<open>Geometry\<close>

definition raw_ring_reset :: raw_ring where
  "raw_ring_reset = \<lparr>ring_fd = - 1, ring_p = zero_region_params, ring_single_mmap = False,
     ring_user_backed = False, ring_mapped = False, ring_sq_ptr = 0, ring_cq_ptr = 0,
     ring_sqes_ptr = 0, ring_sq_sz = 0, ring_cq_sz = 0, ring_ring_sz = 0, ring_sqes_sz = 0,
     ring_user_ring = 0, ring_user_sqes = 0, ring_user_ring_sz = 0, ring_user_sqes_sz = 0,
     ring_sq_head = 0, ring_sq_tail = 0, ring_sq_mask = 0, ring_sq_entries = 0,
     ring_sq_dropped = 0, ring_sq_array = 0, ring_sqes = 0, ring_cq_head = 0, ring_cq_tail = 0,
     ring_cq_mask = 0, ring_cq_entries = 0, ring_cq_overflow = 0, ring_cqes = 0\<rparr>"

text \<open>The bytes that the two queues need, as \<open>size_t\<close>.\<close>

definition sq_bytes :: "region_params \<Rightarrow> u64" where
  "sq_bytes p = ucast (p_sq_off_array p) + ucast (p_sq_entries p) * 4"

definition cq_bytes :: "region_params \<Rightarrow> u64" where
  "cq_bytes p = ucast (p_cq_off_cqes p) + ucast (p_cq_entries p) * 16"

definition geometry_from_params :: "'k mm_os \<Rightarrow> region_params \<Rightarrow> geometry" where
  "geometry_from_params os p =
     (let single = (p_features p AND IORING_FEAT_SINGLE_MMAP \<noteq> 0);
          sq_sz = sq_bytes p;
          cq_sz = cq_bytes p;
          ring_sz = (if single then (if sq_sz > cq_sz then sq_sz else cq_sz) else sq_sz)
      in \<lparr>geo_sq_entries = p_sq_entries p, geo_cq_entries = p_cq_entries p,
          geo_features = p_features p, geo_single_mmap = single,
          geo_sq_sz = page_align os sq_sz, geo_cq_sz = page_align os cq_sz,
          geo_ring_sz = page_align os ring_sz,
          geo_sqes_sz = page_align os (ucast (p_sq_entries p) * 64)\<rparr>)"

definition geometry_valid :: "region_params \<Rightarrow> geometry \<Rightarrow> bool" where
  "geometry_valid p g \<longleftrightarrow>
     \<not> (p_sq_entries p \<noteq> RING_ENTRIES \<or> p_cq_entries p \<noteq> CQ_ENTRIES) \<and>
     geo_single_mmap g \<and>
     \<not> (p_sq_entries p = 0 \<or> p_cq_entries p = 0 \<or>
        p_sq_entries p AND (p_sq_entries p - 1) \<noteq> 0 \<or>
        p_cq_entries p AND (p_cq_entries p - 1) \<noteq> 0) \<and>
     \<not> sq_bytes p > geo_ring_sz g \<and>
     \<not> cq_bytes p > geo_ring_sz g"

definition bind_ring :: "raw_ring \<Rightarrow> raw_ring" where
  "bind_ring ring =
     (let sq = ring_sq_ptr ring; cq = ring_cq_ptr ring; p = ring_p ring
      in ring\<lparr>ring_sq_head := sq + ucast (p_sq_off_head p),
              ring_sq_tail := sq + ucast (p_sq_off_tail p),
              ring_sq_mask := sq + ucast (p_sq_off_ring_mask p),
              ring_sq_entries := sq + ucast (p_sq_off_ring_entries p),
              ring_sq_dropped := sq + ucast (p_sq_off_dropped p),
              ring_sq_array := sq + ucast (p_sq_off_array p),
              ring_sqes := ring_sqes_ptr ring,
              ring_cq_head := cq + ucast (p_cq_off_head p),
              ring_cq_tail := cq + ucast (p_cq_off_tail p),
              ring_cq_mask := cq + ucast (p_cq_off_ring_mask p),
              ring_cq_entries := cq + ucast (p_cq_off_ring_entries p),
              ring_cq_overflow := cq + ucast (p_cq_off_overflow p),
              ring_cqes := cq + ucast (p_cq_off_cqes p)\<rparr>)"

section \<open>Counting\<close>

definition inc_setup :: "counters \<Rightarrow> counters" where
  "inc_setup c = c\<lparr>setup_count := setup_count c + 1\<rparr>"
definition inc_close :: "counters \<Rightarrow> counters" where
  "inc_close c = c\<lparr>close_count := close_count c + 1\<rparr>"
definition inc_mmap :: "counters \<Rightarrow> counters" where
  "inc_mmap c = c\<lparr>mmap_count := mmap_count c + 1\<rparr>"
definition inc_munmap :: "counters \<Rightarrow> counters" where
  "inc_munmap c = c\<lparr>munmap_count := munmap_count c + 1\<rparr>"
definition inc_nop :: "counters \<Rightarrow> counters" where
  "inc_nop c = c\<lparr>nop_count := nop_count c + 1\<rparr>"
definition inc_successful :: "counters \<Rightarrow> counters" where
  "inc_successful c = c\<lparr>successful_events := successful_events c + 1\<rparr>"
definition inc_validation :: "counters \<Rightarrow> counters" where
  "inc_validation c = c\<lparr>validation_failures := validation_failures c + 1\<rparr>"
definition inc_cleanup :: "counters \<Rightarrow> counters" where
  "inc_cleanup c = c\<lparr>cleanup_failures := cleanup_failures c + 1\<rparr>"

lemmas inc_defs = inc_setup_def inc_close_def inc_mmap_def inc_munmap_def inc_nop_def
  inc_successful_def inc_validation_def inc_cleanup_def

section \<open>Mapping\<close>

definition map_standard_ring :: "'k mm_os \<Rightarrow> raw_ring \<Rightarrow> bool \<Rightarrow> ('k, int \<times> raw_ring) prog" where
  "map_standard_ring os ring counted =
     (if ring_mapped ring \<or> ring_user_backed ring then give (-1, ring)
      else
        (let g = geometry_from_params os (ring_p ring) in
         seq (mmap os (geo_ring_sz g) (MAP_SHARED OR MAP_POPULATE) (ring_fd ring) IORING_OFF_SQ_RING)
           (\<lambda>(shared, _).
         if shared = MAP_FAILED then give (-1, ring)
         else seq (count counted inc_mmap) (\<lambda>_.
              seq (mmap os (geo_sqes_sz g) (MAP_SHARED OR MAP_POPULATE) (ring_fd ring) IORING_OFF_SQES)
                (\<lambda>(sqes, _).
              if sqes = MAP_FAILED
              then seq (munmap os shared (geo_ring_sz g)) (\<lambda>ok.
                   seq (count counted (if \<not> ok then inc_cleanup else inc_munmap)) (\<lambda>_.
                   give (-1, ring)))
              else seq (count counted inc_mmap) (\<lambda>_.
                   give (0, bind_ring (ring\<lparr>ring_single_mmap := True, ring_sq_ptr := shared,
                     ring_cq_ptr := shared, ring_sqes_ptr := sqes, ring_sq_sz := geo_ring_sz g,
                     ring_cq_sz := geo_ring_sz g, ring_ring_sz := geo_ring_sz g,
                     ring_sqes_sz := geo_sqes_sz g, ring_mapped := True\<rparr>))))))))"

definition unmap_standard_ring :: "'k mm_os \<Rightarrow> raw_ring \<Rightarrow> bool \<Rightarrow> ('k, int \<times> raw_ring) prog" where
  "unmap_standard_ring os ring counted =
     (if \<not> ring_mapped ring \<or> ring_user_backed ring then give (-1, ring)
      else
        seq (munmap os (ring_sqes_ptr ring) (ring_sqes_sz ring)) (\<lambda>ok1.
        seq (count (ok1 \<and> counted) inc_munmap) (\<lambda>_.
        seq (munmap os (ring_sq_ptr ring) (ring_ring_sz ring)) (\<lambda>ok2.
        seq (count (ok2 \<and> counted) inc_munmap) (\<lambda>_.
        give (if \<not> ok1 \<or> \<not> ok2 then -1 else 0,
              ring\<lparr>ring_sq_ptr := 0, ring_cq_ptr := 0, ring_sqes_ptr := 0, ring_mapped := False\<rparr>))))))"

section \<open>Creation and release\<close>

definition setup_standard_ring :: "'k mm_os \<Rightarrow> bool \<Rightarrow> bool \<Rightarrow> ('k, int \<times> raw_ring) prog" where
  "setup_standard_ring os map_it counted =
     (let p0 = zero_region_params\<lparr>p_flags := IORING_SETUP_CQSIZE, p_cq_entries := CQ_ENTRIES\<rparr> in
      seq (io_uring_setup os RING_ENTRIES p0) (\<lambda>(fd, p).
      let ring = raw_ring_reset\<lparr>ring_fd := fd, ring_p := p\<rparr> in
      if fd < 0 then give (-1, ring)
      else seq (count counted inc_setup) (\<lambda>_.
        let g = geometry_from_params os p in
        if \<not> geometry_valid p g then give (-1, ring)
        else
          (let ring1 = ring\<lparr>ring_single_mmap := geo_single_mmap g, ring_sq_sz := geo_sq_sz g,
                 ring_cq_sz := geo_cq_sz g, ring_ring_sz := geo_ring_sz g,
                 ring_sqes_sz := geo_sqes_sz g\<rparr>
           in if map_it
              then seq (map_standard_ring os ring1 counted) (\<lambda>(rc, ring2).
                   give (if rc \<noteq> 0 then -1 else 0, ring2))
              else give (0, ring1)))))"

definition setup_user_ring :: "'k mm_os \<Rightarrow> u64 \<Rightarrow> u64 \<Rightarrow> u64 \<Rightarrow> u64 \<Rightarrow> bool
    \<Rightarrow> ('k, int \<times> raw_ring) prog" where
  "setup_user_ring os user_ring user_ring_sz user_sqes user_sqes_sz counted =
     (let p0 = zero_region_params\<lparr>p_flags := IORING_SETUP_CQSIZE OR IORING_SETUP_NO_MMAP,
            p_cq_entries := CQ_ENTRIES, p_cq_off_user_addr := user_ring,
            p_sq_off_user_addr := user_sqes\<rparr> in
      seq (io_uring_setup os RING_ENTRIES p0) (\<lambda>(fd, p).
      let ring = raw_ring_reset\<lparr>ring_fd := fd, ring_p := p\<rparr> in
      if fd < 0 then give (-1, ring)
      else seq (count counted inc_setup) (\<lambda>_.
        let g = geometry_from_params os p in
        if \<not> geometry_valid p g \<or> geo_ring_sz g > user_ring_sz \<or> geo_sqes_sz g > user_sqes_sz
        then give (-1, ring)
        else
          seq (count counted (\<lambda>c. c\<lparr>user_ring_addr_ok := (p_cq_off_user_addr p = user_ring),
                                    user_sqes_addr_ok := (p_sq_off_user_addr p = user_sqes)\<rparr>)) (\<lambda>_.
          give (0, bind_ring (ring\<lparr>ring_user_backed := True, ring_mapped := True,
            ring_single_mmap := True, ring_user_ring := user_ring, ring_user_sqes := user_sqes,
            ring_user_ring_sz := user_ring_sz, ring_user_sqes_sz := user_sqes_sz,
            ring_sq_ptr := user_ring, ring_cq_ptr := user_ring, ring_sqes_ptr := user_sqes,
            ring_sq_sz := geo_ring_sz g, ring_cq_sz := geo_ring_sz g,
            ring_ring_sz := geo_ring_sz g, ring_sqes_sz := geo_sqes_sz g\<rparr>))))))"

definition close_ring :: "'k mm_os \<Rightarrow> raw_ring \<Rightarrow> bool \<Rightarrow> ('k, int \<times> raw_ring) prog" where
  "close_ring os ring counted =
     seq (if ring_mapped ring \<and> \<not> ring_user_backed ring
          then seq (unmap_standard_ring os ring counted) (\<lambda>(rc, ring1).
               give (if rc \<noteq> 0 then -1 else 0, ring1))
          else give (0, ring)) (\<lambda>(ret, ring1).
     seq (if 0 \<le> ring_fd ring1
          then seq (close_fd os (ring_fd ring1)) (\<lambda>ok.
               seq (count (ok \<and> counted) inc_close) (\<lambda>_.
               give (if \<not> ok then -1 else ret)))
          else give ret) (\<lambda>ret1.
     give (ret1, ring1\<lparr>ring_fd := -1, ring_mapped := False\<rparr>)))"

section \<open>Using a ring\<close>

definition ring_outstanding :: "'k mm_os \<Rightarrow> raw_ring \<Rightarrow> ('k, u64) prog" where
  "ring_outstanding os ring =
     (if \<not> ring_mapped ring then give 0
      else
        seq (load_acquire os (ring_sq_tail ring)) (\<lambda>sq_tail.
        seq (load_acquire os (ring_sq_head ring)) (\<lambda>sq_head.
        seq (load_acquire os (ring_cq_tail ring)) (\<lambda>cq_tail.
        seq (load_relaxed os (ring_cq_head ring)) (\<lambda>cq_head.
        give (ucast (sq_tail - sq_head) + ucast (cq_tail - cq_head)))))))"

text \<open>\<open>do ret = io_uring_enter(..); while (ret < 0 && errno == EINTR && !stop_requested);\<close>\<close>

partial_function (option) enter_loop :: "'k mm_os \<Rightarrow> int \<Rightarrow> 'k proc \<Rightarrow> ((int + int) \<times> 'k proc) option" where
  "enter_loop os fd s =
     (let ((ret, e), m, x) = mm_enter os fd 1 1 IORING_ENTER_GETEVENTS (maps s) (mem s) (kst s);
          s1 = s\<lparr>mem := m, kst := x, calls := calls s @ [ENTER fd ret]\<rparr>
      in if ret < 0 \<and> e = EINTR then
           (let s2 = async os s1
            in if stop_requested s2 then Some (Inr ret, s2) else enter_loop os fd s2)
         else Some (Inr ret, s1))"

definition nop_sqe :: "u64 \<Rightarrow> u64 \<Rightarrow> ('k, unit) prog" where
  "nop_sqe sqe user_data =
     seq (memset0 sqe 64) (\<lambda>_.
     seq (store sqe [IORING_OP_NOP]) (\<lambda>_.
     store (sqe + 32) (le_bytes 8 (unat user_data))))"

text \<open>The completion at the head of the queue, which is then advanced.\<close>

definition take_cqe :: "'k mm_os \<Rightarrow> raw_ring \<Rightarrow> ('k, cqe) prog" where
  "take_cqe os ring =
     seq (load_relaxed os (ring_cq_head ring)) (\<lambda>cq_head.
     seq (load32 os (ring_cq_mask ring)) (\<lambda>msk.
     seq (log_call (CQ_MASK (ring_fd ring) msk)) (\<lambda>_.
     seq (load_cqe os (ring_cqes ring + 16 * ucast (cq_head AND msk))) (\<lambda>cqe.
     seq (log_call (CQE (ring_fd ring) cqe)) (\<lambda>_.
     seq (store_release (ring_cq_head ring) (cq_head + 1)) (\<lambda>_.
     give cqe))))))"

definition submit_nop :: "'k mm_os \<Rightarrow> raw_ring \<Rightarrow> u64 \<Rightarrow> bool \<Rightarrow> ('k, int) prog" where
  "submit_nop os ring user_data counted =
     (if \<not> ring_mapped ring then give (-1)
      else
        seq (load_acquire os (ring_sq_head ring)) (\<lambda>head.
        seq (load_relaxed os (ring_sq_tail ring)) (\<lambda>tail.
        seq (load32 os (ring_sq_entries ring)) (\<lambda>entries.
        if tail - head \<ge> entries then give (-1)
        else
          seq (load32 os (ring_sq_mask ring)) (\<lambda>msk.
          seq (log_call (SQ_MASK (ring_fd ring) msk)) (\<lambda>_.
          let index = tail AND msk in
          seq (nop_sqe (ring_sqes ring + 64 * ucast index) user_data) (\<lambda>_.
          seq (store (ring_sq_array ring + 4 * ucast index) (le_bytes 4 (unat index))) (\<lambda>_.
          seq (store_release (ring_sq_tail ring) (tail + 1)) (\<lambda>_.
          seq (enter_loop os (ring_fd ring)) (\<lambda>ret.
          if ret \<noteq> 1 then give (-1)
          else
            seq (load_acquire os (ring_cq_tail ring)) (\<lambda>cq_tail.
            seq (load_relaxed os (ring_cq_head ring)) (\<lambda>cq_head.
            if cq_tail = cq_head then give (-1)
            else
              seq (take_cqe os ring) (\<lambda>cqe.
              seq (count counted inc_nop) (\<lambda>_.
              if cqe_user_data cqe \<noteq> user_data \<or> cqe_res cqe \<noteq> 0 \<or> cqe_flags cqe \<noteq> 0
              then give (-1) else give 0))))))))))))))"

definition discover_geometry :: "'k mm_os \<Rightarrow> ('k, int \<times> geometry option) prog" where
  "discover_geometry os =
     seq (setup_standard_ring os False False) (\<lambda>(ret, ring).
     if ret \<noteq> 0
     then seq (if 0 \<le> ring_fd ring then close_fd os (ring_fd ring) else give True) (\<lambda>_. give (-1, None))
     else seq (close_fd os (ring_fd ring)) (\<lambda>_.
          give (0, Some (geometry_from_params os (ring_p ring)))))"

definition copy_ring_health :: "'k mm_os \<Rightarrow> raw_ring \<Rightarrow> ('k, unit) prog" where
  "copy_ring_health os ring =
     (if \<not> ring_mapped ring then give ()
      else
        seq (load_relaxed os (ring_sq_dropped ring)) (\<lambda>dropped.
        seq (count True (\<lambda>c. c\<lparr>sq_dropped := sq_dropped c + ucast dropped\<rparr>)) (\<lambda>_.
        seq (load_relaxed os (ring_cq_overflow ring)) (\<lambda>overflow.
        seq (count True (\<lambda>c. c\<lparr>cq_overflow := cq_overflow c + ucast overflow\<rparr>)) (\<lambda>_.
        seq (ring_outstanding os ring) (\<lambda>left.
        count True (\<lambda>c. c\<lparr>outstanding := outstanding c + left\<rparr>)))))))"

end
