(* ===== verification/Region_Rounds.thy ===== *)
theory Region_Rounds
  imports Region_Ring
begin

text \<open>
  The rounds of io_uring_memmap_round.c, one function per profile, each with its \<open>goto\<close> labels as
  functions, and the verdict \<open>counters_pass\<close> on a round.
\<close>

section \<open>The loop over the events of a round\<close>

text \<open>
  \<open>for (i = 0; i < events && !stop_requested; i++)\<close> with a body that may leave the loop. The loop
  has come to its end, has been stopped, or the body has left it in one of the ways \<open>'e\<close>.
\<close>

datatype 'e loop_end = ALL_DONE | STOPPED | LEFT 'e

fun run_events :: "'k mm_os \<Rightarrow> (nat \<Rightarrow> 'a \<Rightarrow> ('k, 'e option \<times> 'a) prog) \<Rightarrow> nat list \<Rightarrow> 'a
    \<Rightarrow> ('k, 'e loop_end \<times> 'a) prog" where
  "run_events os f [] a = give (ALL_DONE, a)"
| "run_events os f (i # is) a =
     seq (read_stop os) (\<lambda>stop.
     if stop then give (STOPPED, a)
     else seq (f i a) (\<lambda>(e, b). case e of
            Some e \<Rightarrow> give (LEFT e, b)
          | None \<Rightarrow> run_events os f is b))"

text \<open>\<open>if (f() != 0) goto ..;\<close> for a function that returns the ring with its status.\<close>

definition ring_ok :: "('k, int \<times> raw_ring) prog \<Rightarrow> (raw_ring \<Rightarrow> ('k, 'e option \<times> raw_ring) prog)
    \<Rightarrow> 'e \<Rightarrow> ('k, 'e option \<times> raw_ring) prog" where
  "ring_ok m k e = seq m (\<lambda>(rc, ring). if rc \<noteq> 0 then give (Some e, ring) else k ring)"

definition healthy :: "counters \<Rightarrow> bool" where
  "healthy c \<longleftrightarrow> \<not> (outstanding c \<noteq> 0 \<or> sq_dropped c \<noteq> 0 \<or> cq_overflow c \<noteq> 0)"

definition get_counters :: "('k, counters) prog" where
  "get_counters s = Some (Inr (ctr s), s)"

section \<open>R0: a ring that is mapped again and again\<close>

definition r0_event :: "'k mm_os \<Rightarrow> nat \<Rightarrow> raw_ring \<Rightarrow> ('k, unit option \<times> raw_ring) prog" where
  "r0_event os i ring =
     ring_ok (map_standard_ring os ring True) (\<lambda>ring1.
     ring_ok (unmap_standard_ring os ring1 True) (\<lambda>ring2.
     seq (count True inc_successful) (\<lambda>_. give (None, ring2))) ()) ()"

text \<open>A NOP and a look at the counters of the ring; \<open>False\<close> for \<open>goto out\<close>.\<close>

definition r0_probe :: "'k mm_os \<Rightarrow> raw_ring \<Rightarrow> u64 \<Rightarrow> ('k, bool) prog" where
  "r0_probe os ring tag =
     seq (submit_nop os ring tag True) (\<lambda>rc.
     if rc \<noteq> 0 then give False
     else seq (copy_ring_health os ring) (\<lambda>_.
          seq get_counters (\<lambda>c. give (healthy c))))"

text \<open>The timed loop and what follows it, up to the label \<open>out\<close>.\<close>

definition r0_finish :: "'k mm_os \<Rightarrow> raw_ring \<Rightarrow> ('k, int \<times> raw_ring) prog" where
  "r0_finish os ring =
     seq (map_standard_ring os ring True) (\<lambda>(rc, ring).
     if rc \<noteq> 0 then give (-1, ring)
     else seq (r0_probe os ring 0x1000000000000002) (\<lambda>ok.
          give (if ok then 0 else -1, ring)))"

definition r0_timed :: "'k mm_os \<Rightarrow> u32 \<Rightarrow> raw_ring \<Rightarrow> ('k, int \<times> raw_ring) prog" where
  "r0_timed os nevents ring =
     seq (now_ns os) (\<lambda>start.
     seq (run_events os (r0_event os) [0..<unat nevents] ring) (\<lambda>(res, ring).
     case res of
       LEFT _ \<Rightarrow> give (-1, ring)
     | _ \<Rightarrow>
         seq (now_ns os) (\<lambda>end_ns.
         seq (count True (\<lambda>c. c\<lparr>timed_ns := timed_ns c + (end_ns - start)\<rparr>)) (\<lambda>_.
         if res \<noteq> ALL_DONE then give (-1, ring) else r0_finish os ring))))"

definition r0_body :: "'k mm_os \<Rightarrow> u32 \<Rightarrow> ('k, int \<times> raw_ring) prog" where
  "r0_body os nevents =
     seq (setup_standard_ring os True True) (\<lambda>(rc, ring).
     if rc \<noteq> 0 then give (-1, ring)
     else seq (r0_probe os ring 0x1000000000000001) (\<lambda>ok.
     if \<not> ok then give (-1, ring)
     else seq (unmap_standard_ring os ring True) (\<lambda>(rc, ring).
     if rc \<noteq> 0 then give (-1, ring)
     else r0_timed os nevents ring)))"

definition run_r0 :: "'k mm_os \<Rightarrow> u32 \<Rightarrow> ('k, int) prog" where
  "run_r0 os nevents =
     seq (r0_body os nevents) (\<lambda>(ret, ring).
     seq (count True (\<lambda>c. c\<lparr>events := ucast nevents\<rparr>)) (\<lambda>_.
     seq (if 0 \<le> ring_fd ring
          then seq (close_ring os ring True) (\<lambda>(rc, _). count (rc \<noteq> 0) inc_cleanup)
          else give ()) (\<lambda>_.
     seq (count (ret \<noteq> 0) inc_validation) (\<lambda>_. give ret))))"

section \<open>L0: a ring per event\<close>

datatype label = FAIL | FAIL_CLOSE

text \<open>From \<open>submit_nop\<close> to the pause: the same text in \<open>run_l0\<close> and in \<open>run_n0\<close>.\<close>

definition use_and_close :: "'k mm_os \<Rightarrow> raw_ring \<Rightarrow> u64 \<Rightarrow> u64 \<Rightarrow> ('k, label option \<times> raw_ring) prog" where
  "use_and_close os ring tag start =
     seq (submit_nop os ring tag True) (\<lambda>rc.
     if rc \<noteq> 0 then give (Some FAIL_CLOSE, ring)
     else
       seq (copy_ring_health os ring) (\<lambda>_.
       seq (ring_outstanding os ring) (\<lambda>left.
       seq (if left \<noteq> 0 then give True
            else seq (load_relaxed os (ring_sq_dropped ring)) (\<lambda>dropped.
                 if dropped \<noteq> 0 then give True
                 else seq (load_relaxed os (ring_cq_overflow ring)) (\<lambda>overflow.
                      give (overflow \<noteq> 0)))) (\<lambda>bad.
       if bad then give (Some FAIL_CLOSE, ring)
       else
         ring_ok (close_ring os ring True) (\<lambda>ring1.
         seq (now_ns os) (\<lambda>now.
         seq (count True (\<lambda>c. c\<lparr>timed_ns := timed_ns c + (now - start)\<rparr>)) (\<lambda>_.
         seq (count True inc_successful) (\<lambda>_.
         seq (kernel (mm_usleep os ASYNC_TEARDOWN_PAUSE_US)) (\<lambda>_.
         give (None, ring1)))))) FAIL))))"

definition l0_event :: "'k mm_os \<Rightarrow> nat \<Rightarrow> raw_ring \<Rightarrow> ('k, label option \<times> raw_ring) prog" where
  "l0_event os i _ =
     seq (now_ns os) (\<lambda>start.
     ring_ok (setup_standard_ring os True True) (\<lambda>ring.
     use_and_close os ring (0x2000000000000000 + of_nat i) start) FAIL_CLOSE)"

definition l0_fail :: "u32 \<Rightarrow> ('k, int) prog" where
  "l0_fail nevents =
     seq (count True (\<lambda>c. c\<lparr>events := ucast nevents\<rparr>)) (\<lambda>_.
     seq (count True inc_validation) (\<lambda>_. give (-1)))"

definition run_l0 :: "'k mm_os \<Rightarrow> u32 \<Rightarrow> ('k, int) prog" where
  "run_l0 os nevents =
     seq (run_events os (l0_event os) [0..<unat nevents] raw_ring_reset) (\<lambda>(res, ring).
     case res of
       LEFT FAIL_CLOSE \<Rightarrow>
         seq (close_ring os ring True) (\<lambda>(rc, _).
         seq (count (rc \<noteq> 0) inc_cleanup) (\<lambda>_. l0_fail nevents))
     | LEFT FAIL \<Rightarrow> l0_fail nevents
     | _ \<Rightarrow>
         seq (count True (\<lambda>c. c\<lparr>events := ucast nevents\<rparr>)) (\<lambda>_.
         if res = ALL_DONE then give 0 else l0_fail nevents))"

section \<open>N0: a ring per event in memory of the program\<close>

definition ANON_POPULATE :: u32 where
  "ANON_POPULATE = MAP_SHARED OR MAP_ANONYMOUS OR MAP_POPULATE"

text \<open>The status and the two addresses that the caller's variables then hold.\<close>

definition allocate_user_regions :: "'k mm_os \<Rightarrow> geometry \<Rightarrow> ('k, int \<times> u64 \<times> u64) prog" where
  "allocate_user_regions os g =
     seq (mmap os (geo_ring_sz g) ANON_POPULATE (-1) 0) (\<lambda>(user_ring, _).
     if user_ring = MAP_FAILED then give (-1, user_ring, 0)
     else seq (mmap os (geo_sqes_sz g) ANON_POPULATE (-1) 0) (\<lambda>(user_sqes, _).
          if user_sqes = MAP_FAILED
          then seq (munmap os user_ring (geo_ring_sz g)) (\<lambda>_. give (-1, 0, user_sqes))
          else seq (memset0 user_ring (geo_ring_sz g)) (\<lambda>_.
               seq (memset0 user_sqes (geo_sqes_sz g)) (\<lambda>_.
               give (0, user_ring, user_sqes)))))"

text \<open>\<open>(char *)user_ring + i * geometry->ring_sz\<close> is an address in \<open>size_t\<close> arithmetic.\<close>

definition n0_event :: "'k mm_os \<Rightarrow> geometry \<Rightarrow> u64 \<Rightarrow> u64 \<Rightarrow> nat \<Rightarrow> raw_ring
    \<Rightarrow> ('k, label option \<times> raw_ring) prog" where
  "n0_event os g user_ring user_sqes i _ =
     (let event_ring = user_ring + of_nat i * geo_ring_sz g;
          event_sqes = user_sqes + of_nat i * geo_sqes_sz g
      in seq (now_ns os) (\<lambda>start.
         ring_ok (setup_user_ring os event_ring (geo_ring_sz g) event_sqes (geo_sqes_sz g) True)
           (\<lambda>ring.
         seq get_counters (\<lambda>c.
         if \<not> user_ring_addr_ok c \<or> \<not> user_sqes_addr_ok c then give (Some FAIL_CLOSE, ring)
         else use_and_close os ring (0x3000000000000000 + of_nat i) start)) FAIL_CLOSE))"

text \<open>The label \<open>out\<close>; an address is zero when there is nothing to unmap.\<close>

definition n0_out :: "'k mm_os \<Rightarrow> u32 \<Rightarrow> u64 \<Rightarrow> u64 \<Rightarrow> u64 \<Rightarrow> u64 \<Rightarrow> int \<Rightarrow> ('k, int) prog" where
  "n0_out os nevents user_ring ring_bytes user_sqes sqes_bytes ret =
     seq (count True (\<lambda>c. c\<lparr>events := ucast nevents\<rparr>)) (\<lambda>_.
     seq (if user_ring \<noteq> 0 then munmap os user_ring ring_bytes else give True) (\<lambda>ok1.
     seq (count (\<not> ok1) inc_cleanup) (\<lambda>_.
     seq (if user_sqes \<noteq> 0 then munmap os user_sqes sqes_bytes else give True) (\<lambda>ok2.
     seq (count (\<not> ok2) inc_cleanup) (\<lambda>_.
     give ret)))))"

definition run_n0 :: "'k mm_os \<Rightarrow> u32 \<Rightarrow> geometry \<Rightarrow> ('k, int) prog" where
  "run_n0 os nevents g =
     (let ring_bytes = geo_ring_sz g * ucast nevents;
          sqes_bytes = geo_sqes_sz g * ucast nevents
      in seq (mmap os ring_bytes ANON_POPULATE (-1) 0) (\<lambda>(user_ring, _).
         if user_ring = MAP_FAILED then n0_out os nevents 0 ring_bytes 0 sqes_bytes (-1)
         else seq (mmap os sqes_bytes ANON_POPULATE (-1) 0) (\<lambda>(user_sqes, _).
         if user_sqes = MAP_FAILED then n0_out os nevents user_ring ring_bytes 0 sqes_bytes (-1)
         else
           seq (memset0 user_ring ring_bytes) (\<lambda>_.
           seq (memset0 user_sqes sqes_bytes) (\<lambda>_.
           seq (run_events os (n0_event os g user_ring user_sqes) [0..<unat nevents] raw_ring_reset)
             (\<lambda>(res, ring).
           seq (case res of
                  LEFT FAIL_CLOSE \<Rightarrow>
                    seq (if 0 \<le> ring_fd ring
                         then seq (close_ring os ring True) (\<lambda>(rc, _). count (rc \<noteq> 0) inc_cleanup)
                         else give ()) (\<lambda>_.
                    seq (count True inc_validation) (\<lambda>_. give (-1)))
                | LEFT FAIL \<Rightarrow> seq (count True inc_validation) (\<lambda>_. give (-1))
                | STOPPED \<Rightarrow> give (-1)
                | ALL_DONE \<Rightarrow> give 0) (\<lambda>ret.
           n0_out os nevents user_ring ring_bytes user_sqes sqes_bytes ret)))))))"

section \<open>A0: anonymous mappings\<close>

definition a0_event :: "'k mm_os \<Rightarrow> geometry \<Rightarrow> nat \<Rightarrow> unit \<Rightarrow> ('k, unit option \<times> unit) prog" where
  "a0_event os g i _ =
     seq (mmap os (geo_ring_sz g) (MAP_PRIVATE OR MAP_ANONYMOUS) (-1) 0) (\<lambda>(ring, _).
     if ring = MAP_FAILED then give (Some (), ())
     else seq (count True inc_mmap) (\<lambda>_.
          seq (mmap os (geo_sqes_sz g) (MAP_PRIVATE OR MAP_ANONYMOUS) (-1) 0) (\<lambda>(sqes, _).
          if sqes = MAP_FAILED
          then seq (munmap os ring (geo_ring_sz g)) (\<lambda>_. give (Some (), ()))
          else seq (count True inc_mmap) (\<lambda>_.
               seq (munmap os sqes (geo_sqes_sz g)) (\<lambda>ok1.
               if \<not> ok1 then give (Some (), ())
               else seq (munmap os ring (geo_ring_sz g)) (\<lambda>ok2.
                    if \<not> ok2 then give (Some (), ())
                    else seq (count True (\<lambda>c. c\<lparr>munmap_count := munmap_count c + 2\<rparr>)) (\<lambda>_.
                         seq (count True inc_successful) (\<lambda>_. give (None, ())))))))))"

definition run_a0 :: "'k mm_os \<Rightarrow> u32 \<Rightarrow> geometry \<Rightarrow> ('k, int) prog" where
  "run_a0 os nevents g =
     seq (now_ns os) (\<lambda>start.
     seq (run_events os (a0_event os g) [0..<unat nevents] ()) (\<lambda>(res, _).
     seq (now_ns os) (\<lambda>now.
     seq (count True (\<lambda>c. c\<lparr>timed_ns := now - start, events := ucast nevents\<rparr>)) (\<lambda>_.
     case res of
       LEFT _ \<Rightarrow> seq (count True inc_validation) (\<lambda>_. give (-1))
     | STOPPED \<Rightarrow> give (-1)
     | ALL_DONE \<Rightarrow> give 0))))"

section \<open>E0: errors\<close>

text \<open>The labels \<open>out\<close>, \<open>out_standard\<close> and \<open>out_user\<close>.\<close>

definition e0_out :: "'k mm_os \<Rightarrow> geometry \<Rightarrow> u64 \<Rightarrow> u64 \<Rightarrow> int \<Rightarrow> ('k, int) prog" where
  "e0_out os g user_ring user_sqes ret =
     seq (count True (\<lambda>c. c\<lparr>events := 2\<rparr>)) (\<lambda>_.
     seq (if user_ring \<noteq> 0 then munmap os user_ring (geo_ring_sz g) else give True) (\<lambda>ok1.
     seq (count (\<not> ok1) inc_cleanup) (\<lambda>_.
     seq (if user_sqes \<noteq> 0 then munmap os user_sqes (geo_sqes_sz g) else give True) (\<lambda>ok2.
     seq (count (\<not> ok2) inc_cleanup) (\<lambda>_.
     seq (count (ret \<noteq> 0) inc_validation) (\<lambda>_.
     give ret))))))"

definition e0_out_standard :: "'k mm_os \<Rightarrow> geometry \<Rightarrow> raw_ring \<Rightarrow> u64 \<Rightarrow> u64 \<Rightarrow> int \<Rightarrow> ('k, int) prog" where
  "e0_out_standard os g standard user_ring user_sqes ret =
     seq (close_ring os standard True) (\<lambda>(rc, _).
     seq (count (rc \<noteq> 0) inc_cleanup) (\<lambda>_.
     e0_out os g user_ring user_sqes ret))"

definition e0_out_user :: "'k mm_os \<Rightarrow> geometry \<Rightarrow> raw_ring \<Rightarrow> raw_ring \<Rightarrow> u64 \<Rightarrow> u64 \<Rightarrow> int \<Rightarrow> ('k, int) prog" where
  "e0_out_user os g user standard user_ring user_sqes ret =
     seq (close_ring os user True) (\<lambda>(rc, _).
     seq (count (rc \<noteq> 0) inc_cleanup) (\<lambda>_.
     e0_out_standard os g standard user_ring user_sqes ret))"

text \<open>
  \<open>mmap\<close> of a part of a ring that cannot be mapped; \<open>True\<close> when it is refused with an error that
  is expected.
\<close>

definition mmap_refused :: "'k mm_os \<Rightarrow> geometry \<Rightarrow> int \<Rightarrow> u64 \<Rightarrow> ('k, bool) prog" where
  "mmap_refused os g fd off =
     seq (mmap os (geo_ring_sz g) MAP_SHARED fd off) (\<lambda>(bad, e).
     if bad \<noteq> MAP_FAILED then seq (munmap os bad (geo_ring_sz g)) (\<lambda>_. give False)
     else give (\<not> (e \<noteq> EINVAL \<and> e \<noteq> ENXIO \<and> e \<noteq> ENOMEM)))"

definition run_e0 :: "'k mm_os \<Rightarrow> geometry \<Rightarrow> ('k, int) prog" where
  "run_e0 os g =
     seq (setup_standard_ring os False True) (\<lambda>(rc, standard).
     if rc \<noteq> 0 then e0_out os g 0 0 (-1)
     else seq (mmap_refused os g (ring_fd standard) INVALID_MMAP_OFFSET) (\<lambda>refused.
     if \<not> refused then e0_out_standard os g standard 0 0 (-1)
     else seq (allocate_user_regions os g) (\<lambda>(rc, user_ring, user_sqes).
     if rc \<noteq> 0 then e0_out_standard os g standard user_ring user_sqes (-1)
     else seq (setup_user_ring os user_ring (geo_ring_sz g) user_sqes (geo_sqes_sz g) True)
       (\<lambda>(rc, user).
     if rc \<noteq> 0 then e0_out_user os g user standard user_ring user_sqes (-1)
     else seq (mmap_refused os g (ring_fd user) IORING_OFF_SQ_RING) (\<lambda>refused.
     if \<not> refused then e0_out_user os g user standard user_ring user_sqes (-1)
     else seq (submit_nop os user 0x4000000000000001 True) (\<lambda>rc.
     if rc \<noteq> 0 then e0_out_user os g user standard user_ring user_sqes (-1)
     else seq (copy_ring_health os user) (\<lambda>_.
          seq get_counters (\<lambda>c.
          if \<not> healthy c then e0_out_user os g user standard user_ring user_sqes (-1)
          else seq (count True (\<lambda>c. c\<lparr>successful_events := 2\<rparr>)) (\<lambda>_.
               e0_out_user os g user standard user_ring user_sqes 0)))))))))"

section \<open>A round\<close>

definition run_profile :: "'k mm_os \<Rightarrow> profile_id \<Rightarrow> u32 \<Rightarrow> geometry \<Rightarrow> ('k, int) prog" where
  "run_profile os prof nevents g =
     seq (count True (\<lambda>_. zero_counters
       \<lparr>user_ring_addr_ok := prof \<noteq> PROFILE_N0_USERBACKED_LIFECYCLE,
        user_sqes_addr_ok := prof \<noteq> PROFILE_N0_USERBACKED_LIFECYCLE\<rparr>)) (\<lambda>_.
     case prof of
       PROFILE_R0_REMAP \<Rightarrow> run_r0 os nevents
     | PROFILE_L0_STANDARD_LIFECYCLE \<Rightarrow> run_l0 os nevents
     | PROFILE_N0_USERBACKED_LIFECYCLE \<Rightarrow> run_n0 os nevents g
     | PROFILE_A0_ANON_MAP \<Rightarrow> run_a0 os nevents g
     | PROFILE_E0_ERRORS \<Rightarrow> run_e0 os g)"

definition counters_pass :: "counters \<Rightarrow> profile_id \<Rightarrow> bool" where
  "counters_pass c prof \<longleftrightarrow>
     \<not> (successful_events c \<noteq> events c \<or> validation_failures c \<noteq> 0 \<or> cleanup_failures c \<noteq> 0 \<or>
        sq_dropped c \<noteq> 0 \<or> cq_overflow c \<noteq> 0 \<or> outstanding c \<noteq> 0) \<and>
     \<not> (prof = PROFILE_R0_REMAP \<and>
        (mmap_count c \<noteq> munmap_count c \<or> setup_count c \<noteq> 1 \<or> close_count c \<noteq> 1 \<or> nop_count c \<noteq> 2)) \<and>
     \<not> (prof = PROFILE_L0_STANDARD_LIFECYCLE \<and>
        (setup_count c \<noteq> events c \<or> close_count c \<noteq> events c \<or> nop_count c \<noteq> events c \<or>
         mmap_count c \<noteq> munmap_count c)) \<and>
     \<not> (prof = PROFILE_N0_USERBACKED_LIFECYCLE \<and>
        (setup_count c \<noteq> events c \<or> close_count c \<noteq> events c \<or> nop_count c \<noteq> events c \<or>
         mmap_count c \<noteq> 0 \<or> munmap_count c \<noteq> 0 \<or>
         \<not> user_ring_addr_ok c \<or> \<not> user_sqes_addr_ok c)) \<and>
     \<not> (prof = PROFILE_A0_ANON_MAP \<and>
        (mmap_count c \<noteq> events c * 2 \<or> munmap_count c \<noteq> events c * 2))"

end
