(* ===== verification/Region_Main.thy ===== *)
theory Region_Main
  imports Region_Rounds
begin

text \<open>
  io_uring_memmap_round.c: the names of profiles and modes, the command line, the output table and
  \<open>main\<close>.
\<close>

section \<open>Names\<close>

fun profile_name :: "profile_id \<Rightarrow> string" where
  "profile_name PROFILE_R0_REMAP = ''r0_remap''"
| "profile_name PROFILE_L0_STANDARD_LIFECYCLE = ''l0_standard_lifecycle''"
| "profile_name PROFILE_N0_USERBACKED_LIFECYCLE = ''n0_userbacked_lifecycle''"
| "profile_name PROFILE_A0_ANON_MAP = ''a0_anon_map''"
| "profile_name PROFILE_E0_ERRORS = ''e0_errors''"

fun mode_name :: "run_mode \<Rightarrow> string" where
  "mode_name MODE_DESCRIBE = ''describe''"
| "mode_name MODE_SMOKE = ''smoke''"
| "mode_name MODE_TRACE = ''trace''"
| "mode_name MODE_POINT = ''point''"

definition parse_profile :: "string \<Rightarrow> profile_id option" where
  "parse_profile txt =
     (if txt = ''r0_remap'' then Some PROFILE_R0_REMAP
      else if txt = ''l0_standard_lifecycle'' then Some PROFILE_L0_STANDARD_LIFECYCLE
      else if txt = ''n0_userbacked_lifecycle'' then Some PROFILE_N0_USERBACKED_LIFECYCLE
      else if txt = ''a0_anon_map'' then Some PROFILE_A0_ANON_MAP
      else if txt = ''e0_errors'' then Some PROFILE_E0_ERRORS
      else None)"

definition parse_mode :: "string \<Rightarrow> run_mode option" where
  "parse_mode txt =
     (if txt = ''describe'' then Some MODE_DESCRIBE
      else if txt = ''smoke'' then Some MODE_SMOKE
      else if txt = ''trace'' then Some MODE_TRACE
      else if txt = ''point'' then Some MODE_POINT
      else None)"

section \<open>The command line\<close>

text \<open>The options with \<open>have_profile\<close> and \<open>have_mode\<close>.\<close>

record parse_state = options +
  have_profile :: bool
  have_mode :: bool

definition initial_options :: parse_state where
  "initial_options = \<lparr>opt_profile = PROFILE_R0_REMAP, opt_mode = MODE_DESCRIBE,
     opt_output_path = None, opt_cpu = 2, opt_execute = False,
     have_profile = False, have_mode = False\<rparr>"

definition parse_cpu :: "string \<Rightarrow> u32 option" where
  "parse_cpu txt =
     (let c = strtoul 10 txt
      in if conv_rest c \<noteq> [] \<or> conv_value c > 0xFFFFFFFF then None
         else Some (ucast (conv_value c)))"

fun parse_args :: "string list \<Rightarrow> parse_state \<Rightarrow> parse_state option" where
  "parse_args [] opt = Some opt"
| "parse_args [arg] opt =
     (if arg = ''--execute'' then Some (opt\<lparr>opt_execute := True\<rparr>) else None)"
| "parse_args (arg # val # rest) opt =
     (if arg = ''--profile'' then
        (case parse_profile val of
           None \<Rightarrow> None
         | Some p \<Rightarrow> parse_args rest (opt\<lparr>opt_profile := p, have_profile := True\<rparr>))
      else if arg = ''--mode'' then
        (case parse_mode val of
           None \<Rightarrow> None
         | Some m \<Rightarrow> parse_args rest (opt\<lparr>opt_mode := m, have_mode := True\<rparr>))
      else if arg = ''--cpu'' then
        (case parse_cpu val of
           None \<Rightarrow> None
         | Some n \<Rightarrow> parse_args rest (opt\<lparr>opt_cpu := n\<rparr>))
      else if arg = ''--output'' then parse_args rest (opt\<lparr>opt_output_path := Some val\<rparr>)
      else if arg = ''--execute'' then parse_args (val # rest) (opt\<lparr>opt_execute := True\<rparr>)
      else None)"

definition options_ok :: "parse_state \<Rightarrow> bool" where
  "options_ok opt \<longleftrightarrow>
     \<not> (\<not> have_profile opt \<or> \<not> have_mode opt) \<and>
     \<not> (opt_mode opt \<noteq> MODE_DESCRIBE \<and> opt_output_path opt = None) \<and>
     \<not> (opt_profile opt = PROFILE_E0_ERRORS \<and>
        opt_mode opt \<noteq> MODE_DESCRIBE \<and> opt_mode opt \<noteq> MODE_SMOKE)"

definition parse_options :: "string list \<Rightarrow> options option" where
  "parse_options args =
     (case parse_args args initial_options of
        None \<Rightarrow> None
      | Some opt \<Rightarrow> if options_ok opt then Some (options.truncate opt) else None)"

section \<open>Output\<close>

definition result_names :: "string list" where
  "result_names =
     [''schema_version'', ''kernel_release'', ''boot_id'', ''run_mode'', ''profile'', ''phase'',
      ''round'', ''events'', ''successful_events'', ''setup_count'', ''close_count'',
      ''mmap_count'', ''munmap_count'', ''nop_count'', ''validation_failures'',
      ''cleanup_failures'', ''sq_dropped'', ''cq_overflow'', ''outstanding'', ''timed_ns'',
      ''ns_per_event'', ''cpu'', ''semantic_pass'', ''sq_entries'', ''cq_entries'',
      ''features'', ''single_mmap'', ''ring_bytes'', ''sqes_bytes'',
      ''user_ring_addr_ok'', ''user_sqes_addr_ok'', ''trace_enabled'',
      ''input_sha256'', ''target_sha256'']"

definition result_header :: string where
  "result_header = join_tabs result_names"

definition bool_text :: "bool \<Rightarrow> string" where
  "bool_text b = (if b then ''true'' else ''false'')"

text \<open>\<open>%x\<close>\<close>

fun hex :: "nat \<Rightarrow> string" where
  "hex n = (if n < 16 then [''0123456789abcdef'' ! n]
            else hex (n div 16) @ [''0123456789abcdef'' ! (n mod 16)])"

declare hex.simps [simp del]

definition result_columns :: "'k mm_os \<Rightarrow> options \<Rightarrow> identity \<Rightarrow> geometry \<Rightarrow> string \<Rightarrow> nat
    \<Rightarrow> counters \<Rightarrow> bool \<Rightarrow> string list" where
  "result_columns os opt ident g phase round_nr c trace_enabled =
     [dec SCHEMA_VERSION, kernel_release ident, boot_id ident, mode_name (opt_mode opt),
      profile_name (opt_profile opt), phase, dec round_nr,
      dec64 (events c), dec64 (successful_events c), dec64 (setup_count c),
      dec64 (close_count c), dec64 (mmap_count c), dec64 (munmap_count c), dec64 (nop_count c),
      dec64 (validation_failures c), dec64 (cleanup_failures c), dec64 (sq_dropped c),
      dec64 (cq_overflow c), dec64 (outstanding c), dec64 (timed_ns c),
      (if events c \<noteq> 0 then mm_ratio6 os (timed_ns c) (events c) else ''0.000000''),
      dec (unat (opt_cpu opt)), bool_text (counters_pass c (opt_profile opt)),
      dec (unat (geo_sq_entries g)), dec (unat (geo_cq_entries g)),
      ''0x'' @ hex (unat (geo_features g)), bool_text (geo_single_mmap g),
      dec64 (geo_ring_sz g), dec64 (geo_sqes_sz g), bool_text (user_ring_addr_ok c),
      bool_text (user_sqes_addr_ok c), bool_text trace_enabled, INPUT_SHA256, TARGET_SHA256]"

definition result_row :: "'k mm_os \<Rightarrow> options \<Rightarrow> identity \<Rightarrow> geometry \<Rightarrow> string \<Rightarrow> nat
    \<Rightarrow> counters \<Rightarrow> bool \<Rightarrow> string" where
  "result_row os opt ident g phase round_nr c trace_enabled =
     join_tabs (result_columns os opt ident g phase round_nr c trace_enabled)"

text \<open>\<open>fprintf(output, "%s\n", line)\<close>, with what \<open>fprintf\<close> reports.\<close>

definition write_line :: "'k mm_os \<Rightarrow> string \<Rightarrow> ('k, bool) prog" where
  "write_line os line =
     seq (kernel (mm_write os line)) (\<lambda>ok.
     seq (change (\<lambda>s. if ok then s\<lparr>out_lines := out_lines s @ [line]\<rparr> else s)) (\<lambda>_. give ok))"

definition write_header :: "'k mm_os \<Rightarrow> ('k, bool) prog" where
  "write_header os = write_line os result_header"

definition write_result :: "'k mm_os \<Rightarrow> options \<Rightarrow> identity \<Rightarrow> geometry \<Rightarrow> string \<Rightarrow> nat
    \<Rightarrow> counters \<Rightarrow> bool \<Rightarrow> ('k, bool) prog" where
  "write_result os opt ident g phase round_nr c trace_enabled =
     write_line os (result_row os opt ident g phase round_nr c trace_enabled)"

definition describe :: "options \<Rightarrow> ('k, unit) prog" where
  "describe opt = change (\<lambda>s. s\<lparr>stdout_lines := stdout_lines s @
     [''profile='' @ profile_name (opt_profile opt),
      ''ring_entries='' @ dec (unat RING_ENTRIES),
      ''cq_entries='' @ dec (unat CQ_ENTRIES),
      ''point_warmups='' @ dec POINT_WARMUPS,
      ''point_rounds='' @ dec POINT_ROUNDS,
      ''r0_events='' @ dec (unat R0_EVENTS),
      ''lifecycle_events='' @ dec (unat LIFECYCLE_EVENTS),
      ''cpu='' @ dec (unat (opt_cpu opt)),
      ''input_sha256='' @ INPUT_SHA256,
      ''target_sha256='' @ TARGET_SHA256]\<rparr>)"

section \<open>main\<close>

definition round_count :: "run_mode \<Rightarrow> nat" where
  "round_count mode = (if mode = MODE_POINT then POINT_WARMUPS + POINT_ROUNDS else 1)"

definition event_count :: "profile_id \<Rightarrow> run_mode \<Rightarrow> u32" where
  "event_count prof mode =
     (if prof = PROFILE_E0_ERRORS then 2
      else if mode = MODE_POINT then
        (if prof = PROFILE_R0_REMAP \<or> prof = PROFILE_A0_ANON_MAP then R0_EVENTS
         else LIFECYCLE_EVENTS)
      else if mode = MODE_TRACE then TRACE_EVENTS else SMOKE_EVENTS)"

definition phase_name :: "run_mode \<Rightarrow> nat \<Rightarrow> string" where
  "phase_name mode round_nr =
     (if mode = MODE_POINT \<and> round_nr < POINT_WARMUPS then ''warmup''
      else if mode = MODE_POINT then ''measured''
      else if mode = MODE_TRACE then ''trace'' else ''smoke'')"

definition visible_round :: "run_mode \<Rightarrow> nat \<Rightarrow> nat" where
  "visible_round mode round_nr =
     (if mode = MODE_POINT
      then (if round_nr < POINT_WARMUPS then round_nr else round_nr - POINT_WARMUPS) else 0)"

text \<open>The body of the loop over the rounds; it is left when \<open>status\<close> is no longer \<open>EXIT_SUCCESS\<close>.\<close>

definition one_round :: "'k mm_os \<Rightarrow> options \<Rightarrow> identity \<Rightarrow> geometry \<Rightarrow> bool \<Rightarrow> nat \<Rightarrow> unit
    \<Rightarrow> ('k, unit option \<times> unit) prog" where
  "one_round os opt ident g trace_enabled round_nr _ =
     seq (run_profile os (opt_profile opt) (event_count (opt_profile opt) (opt_mode opt)) g) (\<lambda>rc.
     seq get_counters (\<lambda>c.
     seq (write_result os opt ident g (phase_name (opt_mode opt) round_nr)
            (visible_round (opt_mode opt) round_nr) c trace_enabled) (\<lambda>ok.
     give (if rc \<noteq> 0 \<or> \<not> counters_pass c (opt_profile opt) \<or> \<not> ok then Some () else None, ()))))"

definition run_rounds :: "'k mm_os \<Rightarrow> options \<Rightarrow> identity \<Rightarrow> geometry \<Rightarrow> bool \<Rightarrow> ('k, int) prog" where
  "run_rounds os opt ident g trace_enabled =
     seq (run_events os (one_round os opt ident g trace_enabled) [0..<round_count (opt_mode opt)] ())
       (\<lambda>(res, _).
     seq (read_stop os) (\<lambda>stop.
     seq (kernel (mm_fclose os)) (\<lambda>closed.
     give (if stop \<or> \<not> closed \<or> (case res of LEFT _ \<Rightarrow> True | _ \<Rightarrow> False)
           then EXIT_FAILURE else EXIT_SUCCESS))))"

definition release_path :: string where
  "release_path = ''/proc/sys/kernel/osrelease''"
definition boot_id_path :: string where
  "boot_id_path = ''/proc/sys/kernel/random/boot_id''"

text \<open>\<open>main\<close> from \<open>pin_cpu\<close> on; \<open>path\<close> is the output path.\<close>

definition execute :: "'k mm_os \<Rightarrow> options \<Rightarrow> string \<Rightarrow> ('k, int) prog" where
  "execute os opt path =
     seq (pin_cpu os (opt_cpu opt)) (\<lambda>rc.
     if rc \<noteq> 0 then give EXIT_FAILURE
     else seq (read_text os release_path 128) (\<lambda>release.
     case release of None \<Rightarrow> give EXIT_FAILURE | Some release \<Rightarrow>
          seq (read_text os boot_id_path 128) (\<lambda>boot.
     case boot of None \<Rightarrow> give EXIT_FAILURE | Some boot \<Rightarrow>
          seq (discover_geometry os) (\<lambda>(_, found).
     case found of None \<Rightarrow> give EXIT_FAILURE | Some g \<Rightarrow>
          seq (kernel (mm_fopen os path)) (\<lambda>opened.
     if \<not> opened then give EXIT_FAILURE
     else seq (write_header os) (\<lambda>ok.
     if \<not> ok then seq (kernel (mm_fclose os)) (\<lambda>_. give EXIT_FAILURE)
     else run_rounds os opt \<lparr>kernel_release = release, boot_id = boot\<rparr> g
            (mm_getenv os ''MEMMAP_TRACE_ENABLED'' = Some ''1'')))))))"

definition main :: "'k mm_os \<Rightarrow> string list \<Rightarrow> ('k, int) prog" where
  "main os args =
     (case parse_options args of
        None \<Rightarrow> give EXIT_FAILURE
      | Some opt \<Rightarrow>
          if opt_mode opt = MODE_DESCRIBE
          then seq (describe opt) (\<lambda>_. give EXIT_SUCCESS)
          else if \<not> opt_execute opt then give EXIT_FAILURE
          else (case opt_output_path opt of
                  None \<Rightarrow> give EXIT_FAILURE
                | Some path \<Rightarrow> execute os opt path))"

end
