(* ===== verification/Region_Steps.thy ===== *)
theory Region_Steps
  imports Region_Main
begin

text \<open>
  How the properties of io_uring_memmap_round.c are proved. What a computation guarantees usually
  depends on what the kernel has answered, and \<open>calls\<close> has all answers: \<open>under ok m E Q\<close> promises
  \<open>E\<close> and \<open>Q\<close> where all recorded calls satisfy \<open>ok\<close>. As the record only grows, such promises compose.
\<close>

section \<open>Primitive computations\<close>

lemma post_kernel [post_simps]:
  "post (kernel f) E Q s = (let (a, m, x) = f (maps s) (mem s) (kst s) in Q a (s\<lparr>mem := m, kst := x\<rparr>))"
  by (simp add: post_def kernel_def split_beta Let_def)

lemma post_read_stop [post_simps]:
  "post (read_stop os) E Q s = Q (stop_requested (async os s)) (async os s)"
  by (simp add: post_def read_stop_def Let_def)

lemma post_log_call [post_simps]: "post (log_call c) E Q s = Q () (s\<lparr>calls := calls s @ [c]\<rparr>)"
  by (simp add: log_call_def post_simps)

lemma post_count [post_simps]:
  "post (count b f) E Q s = Q () (if b then s\<lparr>ctr := f (ctr s)\<rparr> else s)"
  by (simp add: count_def post_simps)

lemma post_get_counters [post_simps]: "post get_counters E Q s = Q (ctr s) s"
  by (simp add: post_def get_counters_def)

declare post_case_prod [post_simps] post_Let [post_simps]

lemma async_same [simp]:
  "maps (async os s) = maps s" "fds (async os s) = fds s" "ctr (async os s) = ctr s"
  "calls (async os s) = calls s" "out_lines (async os s) = out_lines s"
  "stdout_lines (async os s) = stdout_lines s"
  by (simp_all add: async_def handle_signal_def split_beta Let_def)

text \<open>An access: a segmentation fault unless a mapping has the whole of it.\<close>

lemma post_segfault [post_simps]: "post segfault E Q s = E SIGSEGV_STATUS s"
  by (simp add: segfault_def post_simps)

lemma post_load [post_simps]:
  "post (load os a n) E Q s =
     (case locate (maps s) a n of
        None \<Rightarrow> E SIGSEGV_STATUS (async os s)
      | Some l \<Rightarrow> Q (peek (mem (async os s)) l n) (async os s))"
  by (auto simp: load_def seq_def change_def post_def segfault_def exit_with_def give_def split: option.split)

lemma post_store [post_simps]:
  "post (store a bs) E Q s =
     (case locate (maps s) a (length bs) of
        None \<Rightarrow> E SIGSEGV_STATUS s
      | Some l \<Rightarrow> Q () (s\<lparr>mem := poke l bs (mem s)\<rparr>))"
  by (auto simp: store_def post_def segfault_def exit_with_def split: option.split)

lemma post_memset0 [post_simps]:
  "post (memset0 a n) E Q s =
     (case locate (maps s) a (unat n) of
        None \<Rightarrow> E SIGSEGV_STATUS s
      | Some l \<Rightarrow> Q () (s\<lparr>mem := wipe l (unat n) (mem s)\<rparr>))"
  by (auto simp: memset0_def post_def segfault_def exit_with_def split: option.split)

section \<open>The record of calls\<close>

definition grows :: "'k proc \<Rightarrow> 'k proc \<Rightarrow> bool" where
  "grows s t \<longleftrightarrow> (\<exists>new. calls t = calls s @ new)"

lemma log_grows_refl [simp]: "grows s s"
  by (simp add: grows_def)

lemma log_grows_trans: "grows s t \<Longrightarrow> grows t u \<Longrightarrow> grows s u"
  by (auto simp: grows_def)

lemma grows_same: "calls t = calls s \<Longrightarrow> grows s t"
  by (simp add: grows_def)

definition logs :: "('k, 'a) prog \<Rightarrow> bool" where
  "logs m \<longleftrightarrow> (\<forall>s. post m (\<lambda>c. grows s) (\<lambda>a. grows s) s)"

named_theorems logs_intro \<open>introduction rules for computations that only add to the record\<close>

lemma logsI: "(\<And>s. post m (\<lambda>c. grows s) (\<lambda>a. grows s) s) \<Longrightarrow> logs m"
  by (simp add: logs_def)

lemma logs_prims [logs_intro]:
  "logs (give a)" "logs (exit_with c)" "logs (kernel f)" "logs (log_call d)" "logs (count b g)"
  "logs (read_stop os)" "logs get_counters" "logs segfault" "logs (load os x n)"
  "logs (store x bs)" "logs (memset0 x l)"
  by (auto intro!: logsI simp: post_simps grows_def split_beta Let_def split: option.split)

lemma logs_change [logs_intro]: "(\<And>s. calls (f s) = calls s) \<Longrightarrow> logs (change f)"
  by (auto intro!: logsI grows_same simp: post_simps)

lemma logs_seq [logs_intro]: "logs m \<Longrightarrow> (\<And>a. logs (f a)) \<Longrightarrow> logs (seq m f)"
  unfolding logs_def post_seq by (blast intro: post_mono log_grows_trans)

lemma logs_if [logs_intro]: "(b \<Longrightarrow> logs m) \<Longrightarrow> (\<not> b \<Longrightarrow> logs m') \<Longrightarrow> logs (if b then m else m')"
  by simp

lemma logs_Let [logs_intro]: "(\<And>x. x = e \<Longrightarrow> logs (f x)) \<Longrightarrow> logs (Let e f)"
  by simp

lemma logs_case [logs_intro]:
  "(\<And>x y. p = (x, y) \<Longrightarrow> logs (g x y)) \<Longrightarrow> logs (case p of (x, y) \<Rightarrow> g x y)"
  by (cases p) simp

lemma logs_option [logs_intro]:
  "logs m \<Longrightarrow> (\<And>x. logs (h x)) \<Longrightarrow> logs (case r of None \<Rightarrow> m | Some x \<Rightarrow> h x)"
  by (cases r) simp_all

lemma logs_loop_end [logs_intro]:
  "logs m \<Longrightarrow> logs n \<Longrightarrow> (\<And>x. logs (h x)) \<Longrightarrow>
     logs (case r of ALL_DONE \<Rightarrow> m | STOPPED \<Rightarrow> n | LEFT x \<Rightarrow> h x)"
  by (cases r) simp_all

lemma logs_label [logs_intro]: "logs m \<Longrightarrow> logs n \<Longrightarrow> logs (case l of FAIL \<Rightarrow> m | FAIL_CLOSE \<Rightarrow> n)"
  by (cases l) simp_all

lemma logs_profile [logs_intro]:
  "logs a \<Longrightarrow> logs b \<Longrightarrow> logs c \<Longrightarrow> logs d \<Longrightarrow> logs e \<Longrightarrow>
     logs (case p of PROFILE_R0_REMAP \<Rightarrow> a | PROFILE_L0_STANDARD_LIFECYCLE \<Rightarrow> b
       | PROFILE_N0_USERBACKED_LIFECYCLE \<Rightarrow> c | PROFILE_A0_ANON_MAP \<Rightarrow> d | PROFILE_E0_ERRORS \<Rightarrow> e)"
  by (cases p) simp_all

lemma logs_run_events [logs_intro]: "(\<And>i a. logs (f i a)) \<Longrightarrow> logs (run_events os f is a)"
  by (induction "is" arbitrary: a) (auto intro!: logs_intro)

text \<open>What every \<open>io_uring_enter\<close> and every wait does is done by the loop around them.\<close>

lemma enter_loop_rule:
  fixes os :: "'k mm_os"
  assumes enter: "\<And>s ret e m x. R s (s\<lparr>mem := m, kst := x, calls := calls s @ [ENTER fd ret]\<rparr>)"
    and async: "\<And>s. R s (async os s)"
    and trans: "\<And>s t u. R s t \<Longrightarrow> R t u \<Longrightarrow> R s u"
  shows "post (enter_loop os fd) E (\<lambda>ret. R s) s"
proof -
  have "\<exists>ret. fst rt = Inr ret \<and> R s (snd rt)" if "enter_loop os fd s = Some rt" for s rt
  proof (rule enter_loop.raw_induct
      [where P = "\<lambda>os' fd' s rt. os' = os \<longrightarrow> fd' = fd \<longrightarrow> (\<exists>ret. fst rt = Inr ret \<and> R s (snd rt))",
       THEN mp, THEN mp, OF _ that refl refl], intro impI)
    fix loop :: "'k mm_os \<Rightarrow> int \<Rightarrow> 'k proc \<Rightarrow> ((int + int) \<times> 'k proc) option"
    fix os' :: "'k mm_os" and fd' and s :: "'k proc" and rt
    assume IH: "\<And>os' fd' s rt. loop os' fd' s = Some rt \<Longrightarrow> os' = os \<longrightarrow> fd' = fd \<longrightarrow>
        (\<exists>ret. fst rt = Inr ret \<and> R s (snd rt))"
      and run: "(let ((ret, e), m, x) = mm_enter os' fd' 1 1 IORING_ENTER_GETEVENTS (maps s) (mem s) (kst s);
          s1 = s\<lparr>mem := m, kst := x, calls := calls s @ [ENTER fd' ret]\<rparr>
        in if ret < 0 \<and> e = EINTR then
             (let s2 = async os' s1 in if stop_requested s2 then Some (Inr ret, s2) else loop os' fd' s2)
           else Some (Inr ret, s1)) = Some rt"
      and eq: "os' = os" "fd' = fd"
    obtain ret e m x where call:
        "mm_enter os fd 1 1 IORING_ENTER_GETEVENTS (maps s) (mem s) (kst s) = ((ret, e), m, x)"
      by (cases "mm_enter os fd 1 1 IORING_ENTER_GETEVENTS (maps s) (mem s) (kst s)") auto
    let ?t = "s\<lparr>mem := m, kst := x, calls := calls s @ [ENTER fd ret]\<rparr>"
    have 1: "R s ?t" by (rule enter)
    have 2: "R s (async os ?t)" by (rule trans [OF 1 async])
    show "\<exists>ret. fst rt = Inr ret \<and> R s (snd rt)"
    proof (cases "ret < 0 \<and> e = EINTR \<and> \<not> stop_requested (async os ?t)")
      case True
      with run call eq have "loop os fd (async os ?t) = Some rt" by (simp add: Let_def)
      with IH trans [OF 2] show ?thesis by blast
    next
      case False
      with run call eq 1 2 show ?thesis by (auto simp: Let_def split: if_splits)
    qed
  qed
  then show ?thesis
    by (auto simp: post_def wp_def split: option.split sum.split) force+
qed

lemma logs_enter_loop [logs_intro]: "logs (enter_loop os fd)"
proof (rule logsI)
  show "post (enter_loop os fd) (\<lambda>c. grows s) (\<lambda>a. grows s) s" for s
    by (rule enter_loop_rule) (auto simp: grows_def)
qed

text \<open>
  Summaries of the operations of io_uring_memmap_round.c on rings: which calls an operation makes,
  with what answers, and what is mapped, open and counted afterwards.
\<close>

section \<open>From one state to the next\<close>

text \<open>
  The calls made, the mappings, the descriptors and the counters afterwards. Memory, the state of
  the kernel and the stop flag may be anything.
\<close>

definition went :: "'k proc \<Rightarrow> mm_call list \<Rightarrow> mapping list \<Rightarrow> int list \<Rightarrow> counters \<Rightarrow> 'k proc \<Rightarrow> bool" where
  "went s cs ms fs c t \<longleftrightarrow>
     calls t = calls s @ cs \<and> maps t = ms \<and> fds t = fs \<and> ctr t = c \<and> out_lines t = out_lines s"

lemma went_then:
  "went s cs ms fs c t \<Longrightarrow> went t cs' ms' fs' c' u \<Longrightarrow> went s (cs @ cs') ms' fs' c' u"
  by (simp add: went_def)

lemma went_refl: "went s [] (maps s) (fds s) (ctr s) s"
  by (simp add: went_def)

lemma went_D:
  assumes "went s cs ms fs c t"
  shows "calls t = calls s @ cs" "maps t = ms" "fds t = fs" "ctr t = c" "out_lines t = out_lines s"
  using assms by (simp_all add: went_def)

definition counted_as :: "bool \<Rightarrow> (counters \<Rightarrow> counters) \<Rightarrow> counters \<Rightarrow> counters" where
  "counted_as b f c = (if b then f c else c)"

lemma counted_as_simps [simp]: "counted_as True f c = f c" "counted_as False f c = c"
  by (simp_all add: counted_as_def)

section \<open>Mappings\<close>

text \<open>A mapping that a successful \<open>mmap\<close> has added.\<close>

definition fresh_map :: "u64 \<Rightarrow> u64 \<Rightarrow> mapping \<Rightarrow> bool" where
  "fresh_map a len m \<longleftrightarrow> a \<noteq> MAP_FAILED \<and> map_start m = a \<and> map_len m = len"

lemma drop_fresh [simp]: "fresh_map a len m \<Longrightarrow> drop_mapping a len (m # ms) = ms"
  by (simp add: fresh_map_def drop_mapping.simps)

text \<open>The rules by which the calls are stepped over: one case for each kind of answer.\<close>

lemma mmap_rule:
  assumes "\<And>m k e. Q (MAP_FAILED, e) (s\<lparr>mem := m, kst := k,
      calls := calls s @ [MMAP len flags fd off MAP_FAILED]\<rparr>)"
    and "\<And>a mp m k e. fresh_map a len mp \<Longrightarrow> Q (a, e) (s\<lparr>mem := m, kst := k, maps := mp # maps s,
      calls := calls s @ [MMAP len flags fd off a]\<rparr>)"
  shows "post (mmap os len flags fd off) E Q s"
  using assms(1) assms(2) [of _ "\<lparr>map_start = _, map_len = len, map_obj = _, map_off = _\<rparr>"]
  by (auto simp: mmap_def post_simps fresh_map_def split_beta Let_def)

lemma munmap_rule:
  assumes "\<And>m k. Q True (s\<lparr>mem := m, kst := k, maps := drop_mapping a len (maps s),
      calls := calls s @ [MUNMAP a len True]\<rparr>)"
    and "\<And>m k. Q False (s\<lparr>mem := m, kst := k, calls := calls s @ [MUNMAP a len False]\<rparr>)"
  shows "post (munmap os a len) E Q s"
  using assms by (auto simp: munmap_def post_simps split_beta Let_def)

lemma close_rule:
  assumes "\<And>m k ok. Q ok (s\<lparr>mem := m, kst := k, fds := remove1 fd (fds s),
      calls := calls s @ [CLOSE fd ok]\<rparr>)"
  shows "post (close_fd os fd) E Q s"
  using assms by (auto simp: close_fd_def post_simps split_beta Let_def)

lemma setup_rule:
  assumes "\<And>m k fd p. fd < 0 \<Longrightarrow> Q (fd, p) (s\<lparr>mem := m, kst := k, calls := calls s @ [SETUP p fd]\<rparr>)"
    and "\<And>m k fd p. 0 \<le> fd \<Longrightarrow> Q (fd, p) (s\<lparr>mem := m, kst := k, fds := fd # fds s,
      calls := calls s @ [SETUP p fd]\<rparr>)"
  shows "post (io_uring_setup os n p0) E Q s"
proof -
  obtain fd p m k where "mm_setup os n p0 (maps s) (mem s) (kst s) = ((fd, p), m, k)"
    by (metis prod.collapse)
  with assms show ?thesis by (simp add: io_uring_setup_def post_simps)
qed

lemma kernel_rule:
  assumes "\<And>a m k. Q a (s\<lparr>mem := m, kst := k\<rparr>)"
  shows "post (kernel f) E Q s"
  using assms by (auto simp: post_simps split_beta Let_def)

lemma now_rule:
  assumes "\<And>m k. E EXIT_FAILURE (s\<lparr>mem := m, kst := k\<rparr>)"
    and "\<And>m k now. Q now (s\<lparr>mem := m, kst := k, calls := calls s @ [CLOCK now]\<rparr>)"
  shows "post (now_ns os) E Q s"
  using assms by (auto simp: now_ns_def post_simps split_beta Let_def split: option.split)

lemma seq_rule: "post m E (\<lambda>a. post (f a) E Q) s \<Longrightarrow> post (seq m f) E Q s"
  by (simp add: post_seq)

lemmas call_rules = seq_rule mmap_rule munmap_rule close_rule setup_rule now_rule

text \<open>The two calls that map a ring, and the two that unmap it.\<close>

definition map_calls :: "geometry \<Rightarrow> int \<Rightarrow> u64 \<Rightarrow> u64 \<Rightarrow> mm_call list" where
  "map_calls g fd a b =
     [MMAP (geo_ring_sz g) (MAP_SHARED OR MAP_POPULATE) fd IORING_OFF_SQ_RING a,
      MMAP (geo_sqes_sz g) (MAP_SHARED OR MAP_POPULATE) fd IORING_OFF_SQES b]"

definition unmap_calls :: "geometry \<Rightarrow> u64 \<Rightarrow> u64 \<Rightarrow> bool \<Rightarrow> bool \<Rightarrow> mm_call list" where
  "unmap_calls g a b ok1 ok2 = [MUNMAP b (geo_sqes_sz g) ok1, MUNMAP a (geo_ring_sz g) ok2]"

definition mapped_ring :: "geometry \<Rightarrow> u64 \<Rightarrow> u64 \<Rightarrow> raw_ring \<Rightarrow> raw_ring" where
  "mapped_ring g a b ring =
     bind_ring (ring\<lparr>ring_single_mmap := True, ring_sq_ptr := a, ring_cq_ptr := a,
       ring_sqes_ptr := b, ring_sq_sz := geo_ring_sz g, ring_cq_sz := geo_ring_sz g,
       ring_ring_sz := geo_ring_sz g, ring_sqes_sz := geo_sqes_sz g, ring_mapped := True\<rparr>)"

lemma bind_ring_same [simp]:
  "ring_fd (bind_ring r) = ring_fd r" "ring_p (bind_ring r) = ring_p r"
  "ring_mapped (bind_ring r) = ring_mapped r" "ring_user_backed (bind_ring r) = ring_user_backed r"
  "ring_sq_ptr (bind_ring r) = ring_sq_ptr r" "ring_sqes_ptr (bind_ring r) = ring_sqes_ptr r"
  "ring_ring_sz (bind_ring r) = ring_ring_sz r" "ring_sqes_sz (bind_ring r) = ring_sqes_sz r"
  by (simp_all add: bind_ring_def Let_def)

lemma mapped_ring_simps [simp]:
  "ring_fd (mapped_ring g a b r) = ring_fd r" "ring_p (mapped_ring g a b r) = ring_p r"
  "ring_mapped (mapped_ring g a b r)" "ring_user_backed (mapped_ring g a b r) = ring_user_backed r"
  "ring_sq_ptr (mapped_ring g a b r) = a" "ring_sqes_ptr (mapped_ring g a b r) = b"
  "ring_ring_sz (mapped_ring g a b r) = geo_ring_sz g"
  "ring_sqes_sz (mapped_ring g a b r) = geo_sqes_sz g"
  by (simp_all add: mapped_ring_def)

definition map_result :: "'k mm_os \<Rightarrow> raw_ring \<Rightarrow> bool \<Rightarrow> 'k proc \<Rightarrow> int \<times> raw_ring \<Rightarrow> 'k proc \<Rightarrow> bool" where
  "map_result os ring counted s r t \<longleftrightarrow>
     (let g = geometry_from_params os (ring_p ring); fl = MAP_SHARED OR MAP_POPULATE; fd = ring_fd ring
      in (\<exists>a b ma mb. r = (0, mapped_ring g a b ring) \<and>
            fresh_map a (geo_ring_sz g) ma \<and> fresh_map b (geo_sqes_sz g) mb \<and>
            went s (map_calls g fd a b) (mb # ma # maps s) (fds s)
              (counted_as counted (\<lambda>c. c\<lparr>mmap_count := mmap_count c + 2\<rparr>) (ctr s)) t) \<or>
         r = (-1, ring) \<and>
           (went s [MMAP (geo_ring_sz g) fl fd IORING_OFF_SQ_RING MAP_FAILED] (maps s) (fds s) (ctr s) t \<or>
            (\<exists>a ma ok c. fresh_map a (geo_ring_sz g) ma \<and>
               went s [MMAP (geo_ring_sz g) fl fd IORING_OFF_SQ_RING a,
                       MMAP (geo_sqes_sz g) fl fd IORING_OFF_SQES MAP_FAILED,
                       MUNMAP a (geo_ring_sz g) ok]
                 (if ok then maps s else ma # maps s) (fds s) c t)))"

lemma map_result_ok:
  assumes "g = geometry_from_params os (ring_p ring)"
    and "fresh_map a (geo_ring_sz g) ma" "fresh_map b (geo_sqes_sz g) mb"
    and "went s (map_calls g (ring_fd ring) a b) (mb # ma # maps s) (fds s)
      (counted_as counted (\<lambda>c. c\<lparr>mmap_count := mmap_count c + 2\<rparr>) (ctr s)) t"
  shows "map_result os ring counted s (0, mapped_ring g a b ring) t"
  using assms unfolding map_result_def Let_def by blast

lemma map_result_none:
  assumes "went s [MMAP (geo_ring_sz (geometry_from_params os (ring_p ring))) (MAP_SHARED OR MAP_POPULATE)
      (ring_fd ring) IORING_OFF_SQ_RING MAP_FAILED] (maps s) (fds s) (ctr s) t"
  shows "map_result os ring counted s (-1, ring) t"
  using assms unfolding map_result_def Let_def by blast

lemma map_result_one:
  assumes "g = geometry_from_params os (ring_p ring)" and "fresh_map a (geo_ring_sz g) ma"
    and "went s [MMAP (geo_ring_sz g) (MAP_SHARED OR MAP_POPULATE) (ring_fd ring) IORING_OFF_SQ_RING a,
           MMAP (geo_sqes_sz g) (MAP_SHARED OR MAP_POPULATE) (ring_fd ring) IORING_OFF_SQES MAP_FAILED,
           MUNMAP a (geo_ring_sz g) ok] (if ok then maps s else ma # maps s) (fds s) (ctr t) t"
  shows "map_result os ring counted s (-1, ring) t"
  using assms unfolding map_result_def Let_def by blast

lemma fresh_not_failed [simp]: "fresh_map a len m \<Longrightarrow> a \<noteq> MAP_FAILED"
  by (simp add: fresh_map_def)

lemma map_standard_ring_went:
  assumes "\<not> ring_mapped ring" "\<not> ring_user_backed ring"
  shows "post (map_standard_ring os ring counted) E (map_result os ring counted s) s"
  unfolding map_standard_ring_def Let_def mapped_ring_def [symmetric]
  using assms
  by (auto intro!: call_rules simp: post_simps)
    ((rule map_result_none, force simp: went_def) |
     (rule map_result_one [where ok = True], rule refl, assumption, force simp: went_def) |
     (rule map_result_one [where ok = False], rule refl, assumption, force simp: went_def) |
     (rule map_result_ok, rule refl, assumption, assumption,
      force simp: went_def counted_as_def inc_mmap_def map_calls_def))+

lemma unmap_standard_ring_went:
  assumes "ring_mapped ring" "\<not> ring_user_backed ring"
  shows "post (unmap_standard_ring os ring counted) E (\<lambda>(rc, r) t. \<exists>ok1 ok2.
     rc = (if ok1 \<and> ok2 then 0 else -1) \<and>
     r = ring\<lparr>ring_sq_ptr := 0, ring_cq_ptr := 0, ring_sqes_ptr := 0, ring_mapped := False\<rparr> \<and>
     (let ms1 = if ok1 then drop_mapping (ring_sqes_ptr ring) (ring_sqes_sz ring) (maps s) else maps s in
      went s [MUNMAP (ring_sqes_ptr ring) (ring_sqes_sz ring) ok1, MUNMAP (ring_sq_ptr ring) (ring_ring_sz ring) ok2]
        (if ok2 then drop_mapping (ring_sq_ptr ring) (ring_ring_sz ring) ms1 else ms1) (fds s)
        (counted_as (counted \<and> ok2) inc_munmap (counted_as (counted \<and> ok1) inc_munmap (ctr s))) t)) s"
  using assms unfolding unmap_standard_ring_def
  by (auto intro!: call_rules simp: post_simps went_def counted_as_def ex_bool_eq)

section \<open>Creation and release\<close>

definition sized_ring :: "geometry \<Rightarrow> int \<Rightarrow> region_params \<Rightarrow> raw_ring" where
  "sized_ring g fd p = raw_ring_reset\<lparr>ring_fd := fd, ring_p := p, ring_single_mmap := geo_single_mmap g,
     ring_sq_sz := geo_sq_sz g, ring_cq_sz := geo_cq_sz g, ring_ring_sz := geo_ring_sz g,
     ring_sqes_sz := geo_sqes_sz g\<rparr>"

lemma sized_ring_simps [simp]:
  "ring_fd (sized_ring g fd p) = fd" "ring_p (sized_ring g fd p) = p"
  "\<not> ring_mapped (sized_ring g fd p)" "\<not> ring_user_backed (sized_ring g fd p)"
  by (simp_all add: sized_ring_def raw_ring_reset_def)

lemma raw_ring_reset_simps [simp]:
  "ring_fd raw_ring_reset = -1" "\<not> ring_mapped raw_ring_reset" "\<not> ring_user_backed raw_ring_reset"
  by (simp_all add: raw_ring_reset_def)

text \<open>What a call of \<open>io_uring_setup\<close> that has been refused, or answered with another geometry, leaves.\<close>

definition setup_failed :: "(region_params \<Rightarrow> bool) \<Rightarrow> bool \<Rightarrow> 'k proc \<Rightarrow> int \<times> raw_ring \<Rightarrow> 'k proc \<Rightarrow> bool" where
  "setup_failed valid counted s r t \<longleftrightarrow>
     (\<exists>p fd. r = (-1, raw_ring_reset\<lparr>ring_fd := fd, ring_p := p\<rparr>) \<and>
        (fd < 0 \<and> went s [SETUP p fd] (maps s) (fds s) (ctr s) t \<or>
         0 \<le> fd \<and> \<not> valid p \<and>
           went s [SETUP p fd] (maps s) (fd # fds s) (counted_as counted inc_setup (ctr s)) t))"

definition valid_params :: "'k mm_os \<Rightarrow> region_params \<Rightarrow> bool" where
  "valid_params os p \<longleftrightarrow> geometry_valid p (geometry_from_params os p)"

definition setup_result :: "'k mm_os \<Rightarrow> bool \<Rightarrow> bool \<Rightarrow> 'k proc \<Rightarrow> int \<times> raw_ring \<Rightarrow> 'k proc \<Rightarrow> bool" where
  "setup_result os map_it counted s r t \<longleftrightarrow>
     setup_failed (valid_params os) counted s r t \<or>
     (\<exists>p fd u. 0 \<le> fd \<and> valid_params os p \<and>
        went s [SETUP p fd] (maps s) (fd # fds s) (counted_as counted inc_setup (ctr s)) u \<and>
        (let ring = sized_ring (geometry_from_params os p) fd p in
         if map_it then map_result os ring counted u r t else r = (0, ring) \<and> t = u))"

lemma map_result_rc:
  "map_result os ring counted s (rc, r) t \<Longrightarrow> rc \<noteq> 0 \<Longrightarrow> map_result os ring counted s (-1, r) t"
  by (auto simp: map_result_def Let_def)

lemma setup_standard_ring_went:
  "post (setup_standard_ring os map_it counted) E (setup_result os map_it counted s) s"
proof -
  let ?p0 = "zero_region_params\<lparr>p_flags := IORING_SETUP_CQSIZE, p_cq_entries := CQ_ENTRIES\<rparr>"
  have "post (seq (io_uring_setup os RING_ENTRIES ?p0) (\<lambda>(fd, p).
      if fd < 0 then give (-1, raw_ring_reset\<lparr>ring_fd := fd, ring_p := p\<rparr>)
      else seq (count counted inc_setup) (\<lambda>_.
        if \<not> valid_params os p then give (-1, raw_ring_reset\<lparr>ring_fd := fd, ring_p := p\<rparr>)
        else if map_it
          then seq (map_standard_ring os (sized_ring (geometry_from_params os p) fd p) counted) (\<lambda>(rc, ring2).
               give (if rc \<noteq> 0 then -1 else 0, ring2))
          else give (0, sized_ring (geometry_from_params os p) fd p))))
    E (setup_result os map_it counted s) s"
    (is "post (seq _ ?f) E ?Q s")
  proof (intro seq_rule setup_rule)
    fix m k fd p assume "fd < (0 :: int)"
    then show "post (?f (fd, p)) E ?Q (s\<lparr>mem := m, kst := k, calls := calls s @ [SETUP p fd]\<rparr>)"
      by (auto simp: post_simps setup_result_def setup_failed_def went_def)
  next
    fix m k fd p assume fd: "0 \<le> (fd :: int)"
    let ?s = "s\<lparr>mem := m, kst := k, fds := fd # fds s, calls := calls s @ [SETUP p fd]\<rparr>"
    let ?u = "if counted then ?s\<lparr>ctr := inc_setup (ctr ?s)\<rparr> else ?s"
    let ?ring = "sized_ring (geometry_from_params os p) fd p"
    have u: "went s [SETUP p fd] (maps s) (fd # fds s) (counted_as counted inc_setup (ctr s)) ?u"
      by (simp add: went_def counted_as_def)
    have "post (seq (map_standard_ring os ?ring counted) (\<lambda>(rc, ring2).
        give (if rc \<noteq> 0 then -1 else 0, ring2))) E (map_result os ?ring counted ?u) ?u"
      by (rule post_seqI [OF map_standard_ring_went]) (auto simp: post_simps intro: map_result_rc)
    then have m: "post (seq (map_standard_ring os ?ring counted) (\<lambda>(rc, ring2).
        give (if rc \<noteq> 0 then -1 else 0, ring2))) E ?Q ?u" if "valid_params os p" map_it
      by (rule post_mono) (use fd u that in \<open>auto simp: setup_result_def Let_def simp del: if_split\<close>)
    show "post (?f (fd, p)) E ?Q ?s"
    proof (cases "valid_params os p \<and> map_it")
      case True
      with m fd show ?thesis by (simp add: post_seq post_count)
    next
      case False
      with fd show ?thesis
        by (auto simp: post_simps setup_result_def setup_failed_def went_def counted_as_def Let_def)
    qed
  qed
  then show ?thesis
    by (simp add: setup_standard_ring_def sized_ring_def valid_params_def Let_def cong: if_cong)
qed

text \<open>A ring in memory of the program.\<close>

definition user_ring_of :: "geometry \<Rightarrow> int \<Rightarrow> region_params \<Rightarrow> u64 \<Rightarrow> u64 \<Rightarrow> u64 \<Rightarrow> u64 \<Rightarrow> raw_ring" where
  "user_ring_of g fd p user_ring user_ring_sz user_sqes user_sqes_sz =
     bind_ring (raw_ring_reset\<lparr>ring_fd := fd, ring_p := p, ring_user_backed := True, ring_mapped := True,
       ring_single_mmap := True, ring_user_ring := user_ring, ring_user_sqes := user_sqes,
       ring_user_ring_sz := user_ring_sz, ring_user_sqes_sz := user_sqes_sz,
       ring_sq_ptr := user_ring, ring_cq_ptr := user_ring, ring_sqes_ptr := user_sqes,
       ring_sq_sz := geo_ring_sz g, ring_cq_sz := geo_ring_sz g,
       ring_ring_sz := geo_ring_sz g, ring_sqes_sz := geo_sqes_sz g\<rparr>)"

lemma user_ring_of_simps [simp]:
  "ring_fd (user_ring_of g fd p a la b lb) = fd" "ring_p (user_ring_of g fd p a la b lb) = p"
  "ring_mapped (user_ring_of g fd p a la b lb)" "ring_user_backed (user_ring_of g fd p a la b lb)"
  by (simp_all add: user_ring_of_def)

definition valid_user :: "'k mm_os \<Rightarrow> u64 \<Rightarrow> u64 \<Rightarrow> region_params \<Rightarrow> bool" where
  "valid_user os la lb p \<longleftrightarrow> valid_params os p \<and>
     \<not> geo_ring_sz (geometry_from_params os p) > la \<and> \<not> geo_sqes_sz (geometry_from_params os p) > lb"

definition addresses_echoed :: "region_params \<Rightarrow> u64 \<Rightarrow> u64 \<Rightarrow> counters \<Rightarrow> counters" where
  "addresses_echoed p a b c = c\<lparr>user_ring_addr_ok := (p_cq_off_user_addr p = a),
     user_sqes_addr_ok := (p_sq_off_user_addr p = b)\<rparr>"

definition setup_user_result :: "'k mm_os \<Rightarrow> u64 \<Rightarrow> u64 \<Rightarrow> u64 \<Rightarrow> u64 \<Rightarrow> bool \<Rightarrow> 'k proc \<Rightarrow> int \<times> raw_ring \<Rightarrow> 'k proc \<Rightarrow> bool" where
  "setup_user_result os a la b lb counted s r t \<longleftrightarrow>
     setup_failed (valid_user os la lb) counted s r t \<or>
     (\<exists>p fd. 0 \<le> fd \<and> valid_user os la lb p \<and>
        r = (0, user_ring_of (geometry_from_params os p) fd p a la b lb) \<and>
        went s [SETUP p fd] (maps s) (fd # fds s)
          (counted_as counted (\<lambda>c. addresses_echoed p a b (inc_setup c)) (ctr s)) t)"

lemma setup_user_ring_went:
  "post (setup_user_ring os a la b lb counted) E (setup_user_result os a la b lb counted s) s"
  unfolding setup_user_ring_def Let_def
  by (rule seq_rule, rule setup_rule)
     (auto simp: post_simps setup_user_result_def setup_failed_def valid_user_def valid_params_def
       user_ring_of_def addresses_echoed_def went_def counted_as_def)

subsection \<open>Release\<close>

definition unmaps :: "raw_ring \<Rightarrow> bool" where
  "unmaps ring \<longleftrightarrow> ring_mapped ring \<and> \<not> ring_user_backed ring"

definition close_calls :: "raw_ring \<Rightarrow> bool \<Rightarrow> bool \<Rightarrow> bool \<Rightarrow> mm_call list" where
  "close_calls ring ok1 ok2 ok3 =
     (if unmaps ring then [MUNMAP (ring_sqes_ptr ring) (ring_sqes_sz ring) ok1,
        MUNMAP (ring_sq_ptr ring) (ring_ring_sz ring) ok2] else []) @
     (if 0 \<le> ring_fd ring then [CLOSE (ring_fd ring) ok3] else [])"

definition close_maps :: "raw_ring \<Rightarrow> bool \<Rightarrow> bool \<Rightarrow> mapping list \<Rightarrow> mapping list" where
  "close_maps ring ok1 ok2 ms =
     (let ms1 = if unmaps ring \<and> ok1 then drop_mapping (ring_sqes_ptr ring) (ring_sqes_sz ring) ms else ms
      in if unmaps ring \<and> ok2 then drop_mapping (ring_sq_ptr ring) (ring_ring_sz ring) ms1 else ms1)"

definition close_counted :: "raw_ring \<Rightarrow> bool \<Rightarrow> bool \<Rightarrow> bool \<Rightarrow> bool \<Rightarrow> counters \<Rightarrow> counters" where
  "close_counted ring counted ok1 ok2 ok3 c =
     counted_as (counted \<and> ok3 \<and> 0 \<le> ring_fd ring) inc_close
       (counted_as (counted \<and> ok2 \<and> unmaps ring) inc_munmap
         (counted_as (counted \<and> ok1 \<and> unmaps ring) inc_munmap c))"

definition close_result :: "raw_ring \<Rightarrow> bool \<Rightarrow> 'k proc \<Rightarrow> int \<times> raw_ring \<Rightarrow> 'k proc \<Rightarrow> bool" where
  "close_result ring counted s r t \<longleftrightarrow>
     (\<exists>ok1 ok2 ok3.
        fst r = (if (unmaps ring \<longrightarrow> ok1 \<and> ok2) \<and> (0 \<le> ring_fd ring \<longrightarrow> ok3) then 0 else -1) \<and>
        ring_fd (snd r) = -1 \<and> \<not> ring_mapped (snd r) \<and>
        went s (close_calls ring ok1 ok2 ok3) (close_maps ring ok1 ok2 (maps s))
          (if 0 \<le> ring_fd ring then remove1 (ring_fd ring) (fds s) else fds s)
          (close_counted ring counted ok1 ok2 ok3 (ctr s)) t)"

lemma close_ring_went: "post (close_ring os ring counted) E (close_result ring counted s) s"
  unfolding close_ring_def unmap_standard_ring_def
  by (cases "ring_mapped ring"; cases "ring_user_backed ring"; cases "0 \<le> ring_fd ring")
     (auto intro!: call_rules simp: post_simps close_result_def close_calls_def close_maps_def
      close_counted_def unmaps_def went_def counted_as_def ex_bool_eq Let_def)

end
