(* ===== verification/Region_Use.thy ===== *)
theory Region_Use
  imports Region_Steps
begin

text \<open>
  Summaries of the operations of io_uring_memmap_round.c that use the memory of a ring. They map,
  open and close nothing; what they may do is to end in a segmentation fault, which the
  summaries allow and \<open>Region_Memory\<close> excludes.
\<close>

section \<open>Stepping through accesses\<close>

definition upto :: "'k proc \<Rightarrow> mm_call list \<Rightarrow> counters \<Rightarrow> 'k proc \<Rightarrow> bool" where
  "upto s cs c t \<longleftrightarrow> went s cs (maps s) (fds s) c t"

lemma upto_start: "upto s [] (ctr s) s"
  by (simp add: upto_def went_refl)

definition faults :: "int \<Rightarrow> 'k proc \<Rightarrow> bool" where
  "faults c t \<longleftrightarrow> c = SIGSEGV_STATUS"

lemma faults_now [simp]: "faults SIGSEGV_STATUS t"
  by (simp add: faults_def)

lemma upto_load:
  assumes "upto s0 cs c s" and "\<And>bs t. upto s0 cs c t \<Longrightarrow> Q bs t"
  shows "post (load os a n) faults Q s"
  using assms by (auto simp: post_simps upto_def went_def split: option.split)

lemma upto_load32:
  assumes "upto s0 cs c s" and "\<And>v t. upto s0 cs c t \<Longrightarrow> Q v t"
  shows "post (load32 os a) faults Q s"
  unfolding load32_def by (rule seq_rule, rule upto_load [OF assms(1)], simp add: post_give assms(2))

lemma upto_loads:
  assumes "upto s0 cs c s" and "\<And>v t. upto s0 cs c t \<Longrightarrow> Q v t"
  shows "post (load_acquire os a) faults Q s" "post (load_relaxed os a) faults Q s"
  unfolding load_acquire_def load_relaxed_def by (rule upto_load32 [OF assms], assumption)+

lemma upto_stores:
  assumes "upto s0 cs c s" and "\<And>t. upto s0 cs c t \<Longrightarrow> Q () t"
  shows "post (store a bs) faults Q s" "post (memset0 a n) faults Q s"
    "post (store_release a v) faults Q s"
  using assms by (auto simp: post_simps store_release_def upto_def went_def split: option.split)

lemma upto_log:
  assumes "upto s0 cs c s" and "\<And>t. upto s0 (cs @ [d]) c t \<Longrightarrow> Q () t"
  shows "post (log_call d) E Q s"
  using assms by (auto simp: post_simps upto_def went_def)

lemma upto_count:
  assumes "upto s0 cs c s" and "\<And>t. upto s0 cs (counted_as b f c) t \<Longrightarrow> Q () t"
  shows "post (count b f) E Q s"
  using assms by (auto simp: post_simps upto_def went_def counted_as_def)

lemma upto_kernel:
  assumes "upto s0 cs c s" and "\<And>a t. upto s0 cs c t \<Longrightarrow> Q a t"
  shows "post (kernel f) E Q s"
  using assms by (auto intro!: kernel_rule simp: upto_def went_def)

fun is_enter :: "mm_call \<Rightarrow> bool" where
  "is_enter (ENTER fd ret) = True"
| "is_enter _ = False"

lemma enter_loop_upto:
  assumes "upto s0 cs c s" and "\<And>ret es t. list_all is_enter es \<Longrightarrow> upto s0 (cs @ es) c t \<Longrightarrow> Q ret t"
  shows "post (enter_loop os fd) E Q s"
proof -
  have "post (enter_loop os fd) E (\<lambda>ret t. \<exists>es. list_all is_enter es \<and>
      went s es (maps s) (fds s) (ctr s) t) s"
  proof (rule enter_loop_rule [where R = "\<lambda>s t. \<exists>es. list_all is_enter es \<and>
      went s es (maps s) (fds s) (ctr s) t"])
    show "\<exists>es. list_all is_enter es \<and> went s es (maps s) (fds s) (ctr s)
        (s\<lparr>mem := m, kst := x, calls := calls s @ [ENTER fd ret]\<rparr>)" for s :: "'a proc" and ret e m x
      by (rule exI [of _ "[ENTER fd ret]"]) (simp add: went_def)
    show "\<exists>es. list_all is_enter es \<and> went s es (maps s) (fds s) (ctr s) (async os s)" for s
      by (rule exI [of _ "[]"]) (simp add: went_def)
  next
    fix s t u :: "'a proc"
    assume "\<exists>es. list_all is_enter es \<and> went s es (maps s) (fds s) (ctr s) t"
      and "\<exists>es. list_all is_enter es \<and> went t es (maps t) (fds t) (ctr t) u"
    then obtain es es' where "list_all is_enter es" "list_all is_enter es'"
        "went s es (maps s) (fds s) (ctr s) t" "went t es' (maps t) (fds t) (ctr t) u" by blast
    then show "\<exists>es. list_all is_enter es \<and> went s es (maps s) (fds s) (ctr s) u"
      by (intro exI [of _ "es @ es'"]) (auto simp: went_def)
  qed
  then show ?thesis
    by (rule post_mono) (use assms in \<open>auto simp: upto_def went_def\<close>)
qed

lemma post_giveI: "Q a s \<Longrightarrow> post (give a) E Q s"
  by (simp add: post_simps)

lemmas upto_rules = upto_load upto_load32 upto_loads upto_stores upto_log upto_count upto_kernel enter_loop_upto

section \<open>One NOP\<close>

text \<open>The calls that are left when the accesses and the retried \<open>io_uring_enter\<close> are taken out.\<close>

fun visible :: "mm_call \<Rightarrow> bool" where
  "visible (ENTER fd ret) = False"
| "visible (SQ_MASK fd v) = False"
| "visible (CQ_MASK fd v) = False"
| "visible _ = True"

lemma enters_invisible [simp]: "list_all is_enter es \<Longrightarrow> filter visible es = []"
proof (induction es)
  case (Cons x es)
  then show ?case by (cases x) simp_all
qed simp

definition nop_cqe :: "u64 \<Rightarrow> cqe" where
  "nop_cqe tag = \<lparr>cqe_user_data = tag, cqe_res = 0, cqe_flags = 0\<rparr>"

lemma nop_cqe_iff: "\<not> (cqe_user_data q \<noteq> tag \<or> cqe_res q \<noteq> 0 \<or> cqe_flags q \<noteq> 0) \<longleftrightarrow> q = nop_cqe tag"
  by (cases q) (auto simp: nop_cqe_def)

definition nop_result :: "raw_ring \<Rightarrow> u64 \<Rightarrow> bool \<Rightarrow> 'k proc \<Rightarrow> int \<Rightarrow> 'k proc \<Rightarrow> bool" where
  "nop_result ring tag counted s rc t \<longleftrightarrow>
     (\<exists>cs c. upto s cs c t \<and>
        (rc = 0 \<and> filter visible cs = [CQE (ring_fd ring) (nop_cqe tag)] \<and> c = counted_as counted inc_nop (ctr s) \<or>
         rc = -1 \<and> (c = ctr s \<or> c = counted_as counted inc_nop (ctr s)) \<and>
           (\<forall>d \<in> set (filter visible cs). \<exists>q. d = CQE (ring_fd ring) q)))"

lemma nop_result_fail:
  "upto s cs (ctr s) t \<Longrightarrow> filter visible cs = [] \<Longrightarrow> nop_result ring tag counted s (-1) t"
  unfolding nop_result_def by (intro exI [of _ cs] exI [of _ "ctr s"]) simp

lemma nop_result_bad:
  "upto s cs (counted_as counted inc_nop (ctr s)) t \<Longrightarrow> filter visible cs = [CQE (ring_fd ring) q] \<Longrightarrow>
     nop_result ring tag counted s (-1) t"
  unfolding nop_result_def
  by (intro exI [of _ cs] exI [of _ "counted_as counted inc_nop (ctr s)"]) simp

lemma nop_result_good:
  "upto s cs (counted_as counted inc_nop (ctr s)) t \<Longrightarrow> filter visible cs = [CQE (ring_fd ring) q] \<Longrightarrow>
     \<not> (cqe_user_data q \<noteq> tag \<or> cqe_res q \<noteq> 0 \<or> cqe_flags q \<noteq> 0) \<Longrightarrow> nop_result ring tag counted s 0 t"
  unfolding nop_result_def nop_cqe_iff
  by (intro exI [of _ cs] exI [of _ "counted_as counted inc_nop (ctr s)"]) simp

lemma take_cqe_upto:
  assumes "upto s0 cs c s"
    and "\<And>msk cqe t. upto s0 (cs @ [CQ_MASK (ring_fd ring) msk, CQE (ring_fd ring) cqe]) c t \<Longrightarrow> Q cqe t"
  shows "post (take_cqe os ring) faults Q s"
  unfolding take_cqe_def load_cqe_def
  apply (rule seq_rule, rule upto_loads [OF assms(1)])
  apply (rule seq_rule, erule upto_load32)
  apply (rule seq_rule, erule upto_log)
  apply (rule seq_rule, rule seq_rule, erule upto_load, rule post_giveI)
  apply (rule seq_rule, erule upto_log)
  apply (rule seq_rule, erule upto_stores, rule post_giveI)
  apply (rule assms(2), simp)
  done

lemma submit_nop_went: "post (submit_nop os ring tag counted) faults (nop_result ring tag counted s) s"
proof (cases "ring_mapped ring")
  case False
  then show ?thesis
    by (auto simp: submit_nop_def post_simps intro: nop_result_fail upto_start)
next
  case True
  show ?thesis
    unfolding submit_nop_def Let_def using True
    apply (simp only: not_True_eq_False if_False)
    apply (rule seq_rule, rule upto_loads, rule upto_start)
    apply (rule seq_rule, erule upto_loads)
    apply (rule seq_rule, erule upto_load32)
    apply (rule post_ifI)
     apply (rule post_giveI, erule nop_result_fail, simp)
    apply (rule seq_rule, erule upto_load32)
    apply (rule seq_rule, erule upto_log)
    apply (rule seq_rule, unfold nop_sqe_def, rule seq_rule, erule upto_stores, rule seq_rule, erule upto_stores, erule upto_stores)
    apply (rule seq_rule, erule upto_stores)
    apply (rule seq_rule, erule upto_stores)
    apply (rule seq_rule, erule enter_loop_upto)
    apply (rule post_ifI)
     apply (rule post_giveI, erule nop_result_fail, simp)
    apply (rule seq_rule, erule upto_loads)
    apply (rule seq_rule, erule upto_loads)
    apply (rule post_ifI)
     apply (rule post_giveI, erule nop_result_fail, simp)
    apply (rule seq_rule, erule take_cqe_upto)
    apply (rule seq_rule, erule upto_count)
    apply (rule post_ifI)
     apply (rule post_giveI, erule nop_result_bad, simp)
    apply (rule post_giveI, erule nop_result_good, simp, simp)
    done
qed

section \<open>The counters of a ring\<close>

lemma ring_outstanding_upto:
  assumes "upto s0 cs c s" and "\<And>left t. upto s0 cs c t \<Longrightarrow> Q left t"
  shows "post (ring_outstanding os ring) faults Q s"
  unfolding ring_outstanding_def
  by (rule post_ifI, rule post_giveI, rule assms(2), rule assms(1))
     (rule seq_rule, rule upto_loads [OF assms(1)],
      (rule seq_rule, erule upto_loads)+, rule post_giveI, erule assms(2))

definition add_health :: "u64 \<Rightarrow> u64 \<Rightarrow> u64 \<Rightarrow> counters \<Rightarrow> counters" where
  "add_health dropped overflow left c = c\<lparr>sq_dropped := sq_dropped c + dropped,
     cq_overflow := cq_overflow c + overflow, outstanding := outstanding c + left\<rparr>"

lemma copy_ring_health_upto:
  assumes "upto s0 cs c s"
    and "\<And>dropped overflow left t. upto s0 cs (add_health dropped overflow left c) t \<Longrightarrow> Q () t"
  shows "post (copy_ring_health os ring) faults Q s"
proof (cases "ring_mapped ring")
  case False
  have "add_health 0 0 0 c = c" by (simp add: add_health_def)
  with assms False show ?thesis by (metis copy_ring_health_def post_giveI)
next
  case True
  have eq: "counted_as True (\<lambda>c. c\<lparr>outstanding := outstanding c + left\<rparr>)
      (counted_as True (\<lambda>c. c\<lparr>cq_overflow := cq_overflow c + overflow\<rparr>)
        (counted_as True (\<lambda>c. c\<lparr>sq_dropped := sq_dropped c + dropped\<rparr>) c)) =
      add_health dropped overflow left c" for dropped overflow left
    by (simp add: add_health_def)
  show ?thesis
    unfolding copy_ring_health_def using True
    apply (simp only: not_True_eq_False if_False)
    apply (rule seq_rule, rule upto_loads [OF assms(1)], rule seq_rule, erule upto_count)
    apply (rule seq_rule, erule upto_loads, rule seq_rule, erule upto_count)
    apply (rule seq_rule, erule ring_outstanding_upto, erule upto_count)
    apply (rule assms(2), simp only: eq)
    done
qed

section \<open>Discovery\<close>

lemma setup_plain:
  "post (setup_standard_ring os False counted) E (\<lambda>(rc, ring) t.
     setup_failed (valid_params os) counted s (rc, ring) t \<or>
     (\<exists>p fd. 0 \<le> fd \<and> valid_params os p \<and> rc = 0 \<and> ring = sized_ring (geometry_from_params os p) fd p \<and>
        went s [SETUP p fd] (maps s) (fd # fds s) (counted_as counted inc_setup (ctr s)) t)) s"
  by (rule post_mono [OF setup_standard_ring_went]) (auto simp: setup_result_def Let_def)

lemma discover_went:
  "post (discover_geometry os) E (\<lambda>(rc, found) t.
     maps t = maps s \<and> fds t = fds s \<and> ctr t = ctr s \<and> out_lines t = out_lines s \<and>
     (\<exists>cs. calls t = calls s @ cs \<and>
        (rc = -1 \<and> found = None \<or>
         (\<exists>p fd ok. rc = 0 \<and> valid_params os p \<and> found = Some (geometry_from_params os p) \<and>
            cs = [SETUP p fd, CLOSE fd ok])))) s"
  unfolding discover_geometry_def
proof (rule post_seqI [OF setup_plain], clarify)
  fix rc ring t
  assume "setup_failed (valid_params os) False s (rc, ring) t \<or>
     (\<exists>p fd. 0 \<le> fd \<and> valid_params os p \<and> rc = 0 \<and> ring = sized_ring (geometry_from_params os p) fd p \<and>
        went s [SETUP p fd] (maps s) (fd # fds s) (counted_as False inc_setup (ctr s)) t)"
  then show "post (if rc \<noteq> 0
      then seq (if 0 \<le> ring_fd ring then close_fd os (ring_fd ring) else give True) (\<lambda>_. give (-1, None))
      else seq (close_fd os (ring_fd ring)) (\<lambda>_. give (0, Some (geometry_from_params os (ring_p ring)))))
    E (\<lambda>(rc, found) t. maps t = maps s \<and> fds t = fds s \<and> ctr t = ctr s \<and> out_lines t = out_lines s \<and>
       (\<exists>cs. calls t = calls s @ cs \<and>
          (rc = -1 \<and> found = None \<or>
           (\<exists>p fd ok. rc = 0 \<and> valid_params os p \<and> found = Some (geometry_from_params os p) \<and>
              cs = [SETUP p fd, CLOSE fd ok])))) t"
    by (auto intro!: call_rules simp: post_simps setup_failed_def went_def)
qed

end
