(* ===== verification/Region_Geometry.thy ===== *)
theory Region_Geometry
  imports Region_Ring
begin

text \<open>
  The geometry of a ring in io_uring_memmap_round.c: what \<open>page_align\<close> computes, that the sizes do not
  wrap, and what \<open>geometry_valid\<close> says of the parameters the kernel has filled in.
\<close>

section \<open>Pages\<close>

text \<open>\<open>sysconf(_SC_PAGESIZE)\<close> is a power of two; the bound leaves room for the sums below.\<close>

definition pages_ok :: "'k mm_os \<Rightarrow> bool" where
  "pages_ok os \<longleftrightarrow> (\<exists>k \<le> 32. mm_pagesize os = 2 ^ k)"

lemma unat_two_power: "k < 64 \<Longrightarrow> unat (2 ^ k :: u64) = 2 ^ k"
  by (simp add: unat_eq_nat_uint uint_2p word_gt_0 nat_power_eq)

lemma and_not_mask_unat:
  fixes w :: u64
  assumes "k < 64"
  shows "unat (w AND NOT (2 ^ k - 1)) = 2 ^ k * (unat w div 2 ^ k)"
proof -
  have "w AND NOT (mask k) = push_bit k (drop_bit k w)"
    by (rule bit_word_eqI) (auto simp: bit_simps)
  moreover have "unat (push_bit k (drop_bit k w)) = 2 ^ k * (unat w div 2 ^ k)"
  proof -
    have "unat (push_bit k (drop_bit k w)) = take_bit 64 (push_bit k (drop_bit k (unat w)))"
      by (simp only: unsigned_push_bit_eq unat_drop_bit_eq) simp
    also have "push_bit k (drop_bit k (unat w)) = 2 ^ k * (unat w div 2 ^ k)"
      by (simp add: push_bit_eq_mult drop_bit_eq_div)
    also have "take_bit 64 (2 ^ k * (unat w div 2 ^ k)) = 2 ^ k * (unat w div 2 ^ k)"
      by (rule take_bit_nat_eq_self, rule le_less_trans [OF times_div_less_eq_dividend])
        (use unsigned_less [where ?'a = nat, of w] in simp)
    finally show ?thesis .
  qed
  ultimately show ?thesis by (simp add: mask_eq_decr_exp)
qed

text \<open>The next multiple of the page size.\<close>

lemma page_align_unat:
  assumes "pages_ok os" and "unat v \<le> 2 ^ 40"
  obtains page where "0 < page" "page \<le> 2 ^ 32" "unat (mm_pagesize os) = page"
    "unat (page_align os v) = page * ((unat v + page - 1) div page)"
proof -
  obtain k where k: "k \<le> 32" "mm_pagesize os = 2 ^ k" using assms(1) by (auto simp: pages_ok_def)
  have p: "unat (2 ^ k :: u64) = 2 ^ k" using k by (simp add: unat_two_power)
  have le: "(2 :: nat) ^ k \<le> 2 ^ 32" using k by (intro power_increasing) simp_all
  have "unat (v + 2 ^ k - 1) = unat v + 2 ^ k - 1"
  proof -
    have "unat (v + 2 ^ k) = unat v + 2 ^ k"
      using assms(2) le p by (simp add: unat_word_ariths)
    moreover have "1 \<le> unat v + 2 ^ k" by (simp add: Suc_le_eq)
    ultimately show ?thesis by (simp add: unat_sub_if' word_le_nat_alt)
  qed
  then have "unat (page_align os v) = 2 ^ k * ((unat v + 2 ^ k - 1) div 2 ^ k)"
    using and_not_mask_unat [of k "v + 2 ^ k - 1"] k by (simp add: page_align_def)
  with p k le that [of "2 ^ k"] show thesis by simp
qed

lemma page_round:
  assumes "0 < (page :: nat)"
  shows "v \<le> page * ((v + page - 1) div page)" "page * ((v + page - 1) div page) < v + page"
proof -
  have "page * ((v + page - 1) div page) + (v + page - 1) mod page = v + page - 1" by simp
  moreover have "(v + page - 1) mod page < page" using assms by simp
  ultimately show "v \<le> page * ((v + page - 1) div page)" "page * ((v + page - 1) div page) < v + page"
    using assms by linarith+
qed

lemma page_align_bounds:
  assumes "pages_ok os" and "unat v \<le> 2 ^ 40"
  shows "unat v \<le> unat (page_align os v)" "unat (page_align os v) < unat v + unat (mm_pagesize os)"
    "unat (mm_pagesize os) dvd unat (page_align os v)"
proof -
  obtain page where "0 < page" "unat (mm_pagesize os) = page"
      "unat (page_align os v) = page * ((unat v + page - 1) div page)"
    using page_align_unat [OF assms] by metis
  then show "unat v \<le> unat (page_align os v)" "unat (page_align os v) < unat v + unat (mm_pagesize os)"
      "unat (mm_pagesize os) dvd unat (page_align os v)"
    using page_round [of page "unat v"] by simp_all
qed

lemma pagesize_le: "pages_ok os \<Longrightarrow> unat (mm_pagesize os) \<le> 2 ^ 32"
  using page_align_unat [of os 0] by (metis bot_nat_0.extremum unat_0)

section \<open>The two queues\<close>

lemma queue_bytes:
  "unat (sq_bytes p) = unat (p_sq_off_array p) + 4 * unat (p_sq_entries p)"
  "unat (cq_bytes p) = unat (p_cq_off_cqes p) + 16 * unat (p_cq_entries p)"
  "unat (ucast (p_sq_entries p) * 64 :: u64) = 64 * unat (p_sq_entries p)"
  using unat_lt32 [of "p_sq_off_array p"] unat_lt32 [of "p_sq_entries p"]
    unat_lt32 [of "p_cq_off_cqes p"] unat_lt32 [of "p_cq_entries p"]
  by (simp_all add: sq_bytes_def cq_bytes_def unat_word_ariths)

lemma queue_bytes_le: "unat (sq_bytes p) \<le> 2 ^ 40" "unat (cq_bytes p) \<le> 2 ^ 40"
    "unat (ucast (p_sq_entries p) * 64 :: u64) \<le> 2 ^ 40"
  using unat_lt32 [of "p_sq_off_array p"] unat_lt32 [of "p_sq_entries p"]
    unat_lt32 [of "p_cq_off_cqes p"] unat_lt32 [of "p_cq_entries p"]
  by (simp_all add: queue_bytes)

text \<open>A region that is mapped for a ring has both queues, whatever the kernel reports.\<close>

lemma region_holds_queues:
  assumes "pages_ok os" and "p_features p AND IORING_FEAT_SINGLE_MMAP \<noteq> 0"
  defines "g \<equiv> geometry_from_params os p"
  shows "unat (sq_bytes p) \<le> unat (geo_ring_sz g)" "unat (cq_bytes p) \<le> unat (geo_ring_sz g)"
    "64 * unat (p_sq_entries p) \<le> unat (geo_sqes_sz g)" "geo_single_mmap g"
proof -
  let ?m = "if sq_bytes p > cq_bytes p then sq_bytes p else cq_bytes p"
  have "unat ?m \<le> unat (page_align os ?m)"
    by (rule page_align_bounds [OF assms(1)]) (use queue_bytes_le [of p] in auto)
  moreover have "geo_ring_sz g = page_align os ?m"
    using assms(2) by (simp add: g_def geometry_from_params_def Let_def)
  moreover have "unat (sq_bytes p) \<le> unat ?m" "unat (cq_bytes p) \<le> unat ?m"
    by (auto simp: word_less_nat_alt not_less)
  ultimately show "unat (sq_bytes p) \<le> unat (geo_ring_sz g)" "unat (cq_bytes p) \<le> unat (geo_ring_sz g)"
    by simp_all
  have "unat (ucast (p_sq_entries p) * 64 :: u64) \<le> unat (page_align os (ucast (p_sq_entries p) * 64))"
    by (rule page_align_bounds [OF assms(1)]) (rule queue_bytes_le)
  then show "64 * unat (p_sq_entries p) \<le> unat (geo_sqes_sz g)"
    by (simp add: queue_bytes g_def geometry_from_params_def Let_def)
  show "geo_single_mmap g" using assms(2) by (simp add: g_def geometry_from_params_def Let_def)
qed

text \<open>Of the tests of \<open>geometry_valid\<close> three matter; the others follow from these and the alignment.\<close>

definition granted :: "region_params \<Rightarrow> bool" where
  "granted p \<longleftrightarrow> p_sq_entries p = RING_ENTRIES \<and> p_cq_entries p = CQ_ENTRIES \<and>
     p_features p AND IORING_FEAT_SINGLE_MMAP \<noteq> 0"

lemma geometry_valid_iff:
  assumes "pages_ok os"
  shows "geometry_valid p (geometry_from_params os p) \<longleftrightarrow> granted p"
proof (cases "p_features p AND IORING_FEAT_SINGLE_MMAP = 0")
  case True
  then show ?thesis
    by (simp add: geometry_valid_def granted_def geometry_from_params_def Let_def)
next
  case False
  note r = region_holds_queues [OF assms False]
  then show ?thesis
    using False by (auto simp: geometry_valid_def granted_def word_less_nat_alt RING_ENTRIES_def CQ_ENTRIES_def)
qed

text \<open>The sizes that valid parameters give.\<close>

lemma geometry_sizes:
  assumes "pages_ok os" and "granted p"
  defines "g \<equiv> geometry_from_params os p"
  shows "unat (geo_ring_sz g) < 2 ^ 34" "unat (geo_sqes_sz g) < 2 ^ 34" "4096 \<le> unat (geo_sqes_sz g)"
    "unat (sq_bytes p) = unat (p_sq_off_array p) + 256" "unat (cq_bytes p) = unat (p_cq_off_cqes p) + 2048"
proof -
  have e: "unat (p_sq_entries p) = 64" "unat (p_cq_entries p) = 128"
    using assms(2) by (simp_all add: granted_def RING_ENTRIES_def CQ_ENTRIES_def)
  show q: "unat (sq_bytes p) = unat (p_sq_off_array p) + 256" "unat (cq_bytes p) = unat (p_cq_off_cqes p) + 2048"
    by (simp_all add: queue_bytes e)
  let ?m = "if sq_bytes p > cq_bytes p then sq_bytes p else cq_bytes p"
  have "unat (page_align os ?m) < unat ?m + unat (mm_pagesize os)"
    by (rule page_align_bounds [OF assms(1)]) (use queue_bytes_le [of p] in auto)
  moreover have "geo_ring_sz g = page_align os ?m"
    using assms(2) by (simp add: g_def granted_def geometry_from_params_def Let_def)
  moreover have "unat ?m < 2 ^ 32 + 2048"
    using q unat_lt32 [of "p_sq_off_array p"] unat_lt32 [of "p_cq_off_cqes p"] by simp
  ultimately show "unat (geo_ring_sz g) < 2 ^ 34"
    using pagesize_le [OF assms(1)] by simp
  have "unat (page_align os (ucast (p_sq_entries p) * 64)) < unat (ucast (p_sq_entries p) * 64 :: u64) + unat (mm_pagesize os)"
    by (rule page_align_bounds [OF assms(1)]) (rule queue_bytes_le)
  then show "unat (geo_sqes_sz g) < 2 ^ 34"
    using pagesize_le [OF assms(1)] by (simp add: queue_bytes e g_def geometry_from_params_def Let_def)
  show "4096 \<le> unat (geo_sqes_sz g)"
    using region_holds_queues(3) [OF assms(1), of p] assms(2) e by (simp add: granted_def g_def)
qed

end
