(* ===== verification/Region_Pass.thy ===== *)
theory Region_Pass
  imports Region_Use Region_Geometry
begin

text \<open>
  What it means that a step of a round of io_uring_memmap_round.c has succeeded: the calls it has
  made, in their order and with their answers, and the counters. Calls are seen through \<open>visible\<close>.
\<close>

section \<open>The trail of a round\<close>

definition trail :: "'k proc \<Rightarrow> mm_call list \<Rightarrow> mapping list \<Rightarrow> int list \<Rightarrow> counters \<Rightarrow> 'k proc \<Rightarrow> bool" where
  "trail s cs ms fs c t \<longleftrightarrow> (\<exists>new. filter visible new = cs \<and> went s new ms fs c t)"

lemma trail_start: "trail s [] (maps s) (fds s) (ctr s) s"
  unfolding trail_def by (intro exI [of _ "[]"]) (simp add: went_refl)

lemma trail_went:
  assumes "trail s cs ms fs c t" and "went t new ms' fs' c' u"
  shows "trail s (cs @ filter visible new) ms' fs' c' u"
proof -
  obtain old where "filter visible old = cs" "went s old ms fs c t" using assms(1) by (auto simp: trail_def)
  with went_then [OF _ assms(2), of s old] show ?thesis
    unfolding trail_def by (intro exI [of _ "old @ new"]) simp
qed

lemma trail_D:
  assumes "trail s cs ms fs c t"
  shows "maps t = ms" "fds t = fs" "ctr t = c" "out_lines t = out_lines s"
  using assms by (auto simp: trail_def went_def)

lemma trail_async: "trail s cs ms fs c t \<Longrightarrow> trail s cs ms fs c (async os t)"
  by (auto simp: trail_def went_def)

lemma trail_upto:
  "trail s cs ms fs c t \<Longrightarrow> upto t new c' u \<Longrightarrow> trail s (cs @ filter visible new) ms fs c' u"
  unfolding upto_def by (metis trail_D(1,2) trail_went)

lemma trail_kernel:
  "trail s cs ms fs c t \<Longrightarrow> (\<And>a u. trail s cs ms fs c u \<Longrightarrow> Q a u) \<Longrightarrow> post (kernel f) E Q t"
  by (rule kernel_rule) (auto simp: trail_def went_def)

lemma trail_now:
  assumes "trail s cs ms fs c t" and "\<And>now u. trail s (cs @ [CLOCK now]) ms fs c u \<Longrightarrow> Q now u"
    and "\<And>u. E EXIT_FAILURE u"
  shows "post (now_ns os) E Q t"
proof (rule now_rule)
  fix m k now
  have "went t [CLOCK now] ms fs c (t\<lparr>mem := m, kst := k, calls := calls t @ [CLOCK now]\<rparr>)"
    using trail_D [OF assms(1)] by (simp add: went_def)
  from trail_went [OF assms(1) this] show "Q now (t\<lparr>mem := m, kst := k, calls := calls t @ [CLOCK now]\<rparr>)"
    by (intro assms(2)) simp
qed (rule assms(3))

lemma trail_count:
  assumes "trail s cs ms fs c t" and "\<And>u. trail s cs ms fs (counted_as b f c) u \<Longrightarrow> Q () u"
  shows "post (count b f) E Q t"
proof -
  have "went t [] ms fs (counted_as b f c) (if b then t\<lparr>ctr := f (ctr t)\<rparr> else t)"
    using trail_D [OF assms(1)] by (simp add: went_def counted_as_def)
  from trail_went [OF assms(1) this] show ?thesis
    unfolding post_count by (intro assms(2)) simp
qed

lemma trail_counters:
  "trail s cs ms fs c t \<Longrightarrow> Q c t \<Longrightarrow> post get_counters E Q t"
  by (auto simp: post_get_counters dest: trail_D(3))

section \<open>Steps that succeed\<close>

lemma visible_maps [simp]:
  "filter visible (map_calls g fd a b) = map_calls g fd a b"
  "filter visible (unmap_calls g a b x y) = unmap_calls g a b x y"
  by (simp_all add: map_calls_def unmap_calls_def)

definition add_maps :: "counters \<Rightarrow> counters" where
  "add_maps c = c\<lparr>mmap_count := mmap_count c + 2\<rparr>"

definition add_unmaps :: "counters \<Rightarrow> counters" where
  "add_unmaps c = c\<lparr>munmap_count := munmap_count c + 2\<rparr>"

lemma two_unmaps [simp]: "inc_munmap (inc_munmap c) = add_unmaps c"
  by (simp add: inc_munmap_def add_unmaps_def add.commute)

text \<open>A ring with the two mappings that have been made for it.\<close>

definition mapped_at :: "geometry \<Rightarrow> int \<Rightarrow> region_params \<Rightarrow> u64 \<Rightarrow> u64 \<Rightarrow> mapping \<Rightarrow> mapping \<Rightarrow> raw_ring \<Rightarrow> bool" where
  "mapped_at g fd p a b ma mb ring \<longleftrightarrow>
     ring_fd ring = fd \<and> ring_p ring = p \<and> ring_mapped ring \<and> \<not> ring_user_backed ring \<and>
     ring_sq_ptr ring = a \<and> ring_sqes_ptr ring = b \<and>
     ring_ring_sz ring = geo_ring_sz g \<and> ring_sqes_sz ring = geo_sqes_sz g \<and>
     fresh_map a (geo_ring_sz g) ma \<and> fresh_map b (geo_sqes_sz g) mb"

definition unmapped_of :: "int \<Rightarrow> region_params \<Rightarrow> raw_ring \<Rightarrow> bool" where
  "unmapped_of fd p ring \<longleftrightarrow>
     ring_fd ring = fd \<and> ring_p ring = p \<and> \<not> ring_mapped ring \<and> \<not> ring_user_backed ring"

lemma pass_map:
  assumes "trail s cs ms fs c t" and "unmapped_of fd p ring"
    and "\<And>a b ma mb r u. mapped_at (geometry_from_params os p) fd p a b ma mb r \<Longrightarrow>
      trail s (cs @ map_calls (geometry_from_params os p) fd a b) (mb # ma # ms) fs (add_maps c) u \<Longrightarrow> Q (0, r) u"
    and "\<And>r u. Q (-1, r) u"
  shows "post (map_standard_ring os ring True) E Q t"
proof (rule post_mono [OF map_standard_ring_went])
  show "\<not> ring_mapped ring" "\<not> ring_user_backed ring" using assms(2) by (simp_all add: unmapped_of_def)
next
  fix r u assume r: "map_result os ring True t r u"
  let ?g = "geometry_from_params os p"
  have p: "ring_p ring = p" "ring_fd ring = fd" "\<not> ring_user_backed ring" using assms(2) by (simp_all add: unmapped_of_def)
  from r consider "fst r = -1" | a b ma mb where "r = (0, mapped_ring ?g a b ring)"
      "fresh_map a (geo_ring_sz ?g) ma" "fresh_map b (geo_sqes_sz ?g) mb"
      "went t (map_calls ?g fd a b) (mb # ma # maps t) (fds t) (add_maps (ctr t)) u"
    by (auto simp: map_result_def add_maps_def p Let_def)
  then show "Q r u"
  proof cases
    case 1
    then show ?thesis using assms(4) by (cases r) simp
  next
    case 2
    have "trail s (cs @ map_calls ?g fd a b) (mb # ma # ms) fs (add_maps c) u"
      using trail_went [OF assms(1) 2(4)] trail_D [OF assms(1)] by simp
    moreover have "mapped_at ?g fd p a b ma mb (mapped_ring ?g a b ring)"
      using 2 p by (simp add: mapped_at_def)
    ultimately show ?thesis using assms(3) 2(1) by simp
  qed
qed simp

lemma pass_unmap:
  assumes "trail s cs (mb # ma # ms) fs c t" and "mapped_at g fd p a b ma mb ring"
    and "\<And>r u. unmapped_of fd p r \<Longrightarrow>
      trail s (cs @ unmap_calls g a b True True) ms fs (add_unmaps c) u \<Longrightarrow> Q (0, r) u"
    and "\<And>r u. Q (-1, r) u"
  shows "post (unmap_standard_ring os ring True) E Q t"
proof (rule post_mono [OF unmap_standard_ring_went])
  show "ring_mapped ring" "\<not> ring_user_backed ring" using assms(2) by (simp_all add: mapped_at_def)
next
  fix r :: "int \<times> raw_ring" and u
  let ?done = "\<lambda>(rc :: int) r t'. \<exists>ok1 ok2. rc = (if ok1 \<and> ok2 then 0 else -1) \<and>
     r = ring\<lparr>ring_sq_ptr := 0, ring_cq_ptr := 0, ring_sqes_ptr := 0, ring_mapped := False\<rparr> \<and>
     (let ms1 = if ok1 then drop_mapping (ring_sqes_ptr ring) (ring_sqes_sz ring) (maps t) else maps t in
      went t [MUNMAP (ring_sqes_ptr ring) (ring_sqes_sz ring) ok1, MUNMAP (ring_sq_ptr ring) (ring_ring_sz ring) ok2]
        (if ok2 then drop_mapping (ring_sq_ptr ring) (ring_ring_sz ring) ms1 else ms1) (fds t)
        (counted_as (True \<and> ok2) inc_munmap (counted_as (True \<and> ok1) inc_munmap (ctr t))) t')"
  assume "(case r of (rc, r) \<Rightarrow> \<lambda>t'. ?done rc r t') u"
  then obtain rc r' where r: "r = (rc, r')" and d: "?done rc r' u" by (cases r) auto
  show "Q r u"
  proof (cases "rc = 0")
    case True
    with d have "went t (unmap_calls g a b True True) ms fs (add_unmaps c) u \<and> unmapped_of fd p r'"
      using trail_D [OF assms(1)] assms(2)
      by (auto simp: Let_def mapped_at_def unmap_calls_def unmapped_of_def
          split: if_splits)
    with trail_went [OF assms(1), of "unmap_calls g a b True True"] show ?thesis
      using r True by (auto intro!: assms(3))
  next
    case False
    with d r show ?thesis using assms(4) by (auto split: if_splits)
  qed
qed simp

lemma pass_setup:
  assumes "trail s cs ms fs c t"
    and "\<And>p fd a b ma mb r u. 0 \<le> fd \<Longrightarrow> valid_params os p \<Longrightarrow>
      mapped_at (geometry_from_params os p) fd p a b ma mb r \<Longrightarrow>
      trail s (cs @ SETUP p fd # map_calls (geometry_from_params os p) fd a b) (mb # ma # ms) (fd # fs)
        (add_maps (inc_setup c)) u \<Longrightarrow> Q (0, r) u"
    and "\<And>r u. Q (-1, r) u"
  shows "post (setup_standard_ring os True True) E Q t"
proof (rule post_mono [OF setup_standard_ring_went])
  fix r u assume "setup_result os True True t r u"
  then consider "fst r = -1" | p fd v where "0 \<le> fd" "valid_params os p"
      "went t [SETUP p fd] (maps t) (fd # fds t) (inc_setup (ctr t)) v"
      "map_result os (sized_ring (geometry_from_params os p) fd p) True v r u"
    by (auto simp: setup_result_def setup_failed_def Let_def)
  then show "Q r u"
  proof cases
    case 1
    then show ?thesis using assms(3) by (cases r) simp
  next
    case 2
    let ?g = "geometry_from_params os p"
    have v: "trail s (cs @ [SETUP p fd]) ms (fd # fs) (inc_setup c) v"
      using trail_went [OF assms(1) 2(3)] trail_D [OF assms(1)] by simp
    from 2(4) consider "fst r = -1" | a b ma mb where "r = (0, mapped_ring ?g a b (sized_ring ?g fd p))"
        "fresh_map a (geo_ring_sz ?g) ma" "fresh_map b (geo_sqes_sz ?g) mb"
        "went v (map_calls ?g fd a b) (mb # ma # maps v) (fds v) (add_maps (ctr v)) u"
      by (auto simp: map_result_def add_maps_def Let_def)
    then show ?thesis
    proof cases
      case 1
      then show ?thesis using assms(3) by (cases r) simp
    next
      case b: 2
      have "trail s (cs @ SETUP p fd # map_calls ?g fd a b) (mb # ma # ms) (fd # fs) (add_maps (inc_setup c)) u"
        using trail_went [OF v b(4)] trail_D [OF v] by simp
      moreover have "mapped_at ?g fd p a b ma mb (mapped_ring ?g a b (sized_ring ?g fd p))"
        using b by (simp add: mapped_at_def)
      ultimately show ?thesis using assms(2) 2(1,2) b(1) by simp
    qed
  qed
qed simp

lemma pass_nop:
  assumes "trail s cs ms fs c t"
    and "\<And>u. trail s (cs @ [CQE (ring_fd ring) (nop_cqe tag)]) ms fs (inc_nop c) u \<Longrightarrow> Q 0 u"
    and "\<And>u. Q (-1) u" and "\<And>u. E SIGSEGV_STATUS u"
  shows "post (submit_nop os ring tag True) E Q t"
proof (rule post_mono [OF submit_nop_went])
  fix rc u assume "nop_result ring tag True t rc u"
  then show "Q rc u"
    using trail_upto [OF assms(1)] trail_D [OF assms(1)] assms(2,3)
    by (fastforce simp: nop_result_def)
qed (use assms(4) in \<open>simp add: faults_def\<close>)

lemma pass_health:
  assumes "trail s cs ms fs c t"
    and "\<And>dropped overflow left u. trail s cs ms fs (add_health dropped overflow left c) u \<Longrightarrow> Q () u"
    and "\<And>u. E SIGSEGV_STATUS u"
  shows "post (copy_ring_health os ring) E Q t"
proof -
  have "post (copy_ring_health os ring) faults Q t"
    using assms(2) trail_upto [OF assms(1)] trail_D [OF assms(1)]
    by (intro copy_ring_health_upto [OF upto_start]) (metis append_Nil2 filter.simps(1))
  then show ?thesis by (rule post_mono) (use assms(3) in \<open>auto simp: faults_def\<close>)
qed

lemma pass_load:
  assumes "trail s cs ms fs c t" and "\<And>v u. trail s cs ms fs c u \<Longrightarrow> Q v u" and "\<And>u. E SIGSEGV_STATUS u"
  shows "post (load_relaxed os a) E Q t"
proof -
  have "post (load_relaxed os a) faults Q t"
    using assms(2) trail_upto [OF assms(1)] trail_D [OF assms(1)]
    by (intro upto_loads [OF upto_start]) (metis append_Nil2 filter.simps(1))
  then show ?thesis by (rule post_mono) (use assms(3) in \<open>auto simp: faults_def\<close>)
qed

lemma pass_outstanding:
  assumes "trail s cs ms fs c t" and "\<And>v u. trail s cs ms fs c u \<Longrightarrow> Q v u" and "\<And>u. E SIGSEGV_STATUS u"
  shows "post (ring_outstanding os ring) E Q t"
proof -
  have "post (ring_outstanding os ring) faults Q t"
    using assms(2) trail_upto [OF assms(1)] trail_D [OF assms(1)]
    by (intro ring_outstanding_upto [OF upto_start]) (metis append_Nil2 filter.simps(1))
  then show ?thesis by (rule post_mono) (use assms(3) in \<open>auto simp: faults_def\<close>)
qed

lemma pass_close:
  assumes "trail s cs (mb # ma # ms) (fd # fs) c t" and "mapped_at g fd p a b ma mb ring" and "0 \<le> fd"
    and "\<And>r u. ring_fd r = -1 \<Longrightarrow> \<not> ring_mapped r \<Longrightarrow> trail s (cs @ unmap_calls g a b True True @ [CLOSE fd True]) ms fs
      (inc_close (add_unmaps c)) u \<Longrightarrow> Q (0, r) u"
    and "\<And>cs' ms' fs' c' r u. trail s cs' ms' fs' c' u \<Longrightarrow> cleanup_failures c' = cleanup_failures c \<Longrightarrow> Q (-1, r) u"
  shows "post (close_ring os ring True) E Q t"
proof (rule post_mono [OF close_ring_went])
  fix r u assume d: "close_result ring True t r u"
  show "Q r u"
  proof (cases "fst r = 0")
    case True
    have ring: "unmaps ring" "ring_fd ring = fd" "0 \<le> ring_fd ring"
      using assms(2,3) by (simp_all add: mapped_at_def unmaps_def)
    with d True obtain ok1 ok2 ok3 where ok: "ok1" "ok2" "ok3" and w:
        "went t (close_calls ring ok1 ok2 ok3) (close_maps ring ok1 ok2 (maps t)) (remove1 fd (fds t))
          (close_counted ring True ok1 ok2 ok3 (ctr t)) u" "ring_fd (snd r) = -1" "\<not> ring_mapped (snd r)"
      by (auto simp: close_result_def split: if_splits)
    have eq: "close_calls ring True True True = unmap_calls g a b True True @ [CLOSE fd True]"
        "close_maps ring True True (mb # ma # ms) = ms"
        "close_counted ring True True True True c = inc_close (add_unmaps c)"
      using ring assms(2) by (simp_all add: close_calls_def close_maps_def close_counted_def Let_def
          mapped_at_def unmap_calls_def)
    have "went t (unmap_calls g a b True True @ [CLOSE fd True]) ms fs (inc_close (add_unmaps c)) u"
      using w(1) ok trail_D [OF assms(1)] by (simp add: eq)
    with w(2,3) trail_went [OF assms(1), of "unmap_calls g a b True True @ [CLOSE fd True]"] True show ?thesis
      using assms(4) [of "snd r" u] by (cases r) (auto simp: unmap_calls_def)
  next
    case False
    with d obtain ok1 ok2 ok3 where "fst r = -1" and w:
        "went t (close_calls ring ok1 ok2 ok3) (close_maps ring ok1 ok2 (maps t))
          (if 0 \<le> ring_fd ring then remove1 (ring_fd ring) (fds t) else fds t)
          (close_counted ring True ok1 ok2 ok3 (ctr t)) u"
      by (auto simp: close_result_def split: if_splits)
    moreover have "cleanup_failures (close_counted ring True ok1 ok2 ok3 c) = cleanup_failures c"
      by (simp add: close_counted_def counted_as_def inc_close_def inc_munmap_def)
    ultimately show ?thesis
      using assms(5) [OF trail_went [OF assms(1) w]] trail_D [OF assms(1)] by (cases r) simp
  qed
qed simp

text \<open>Closing a ring that has nothing of its own mapped.\<close>

lemma pass_close_plain:
  assumes "trail s cs ms (fd # fs) c t" and "ring_fd ring = fd" "\<not> unmaps ring" and "0 \<le> fd"
    and "\<And>r u. ring_fd r = -1 \<Longrightarrow> \<not> ring_mapped r \<Longrightarrow> trail s (cs @ [CLOSE fd True]) ms fs (inc_close c) u \<Longrightarrow> Q (0, r) u"
    and "\<And>cs' ms' fs' c' r u. trail s cs' ms' fs' c' u \<Longrightarrow> cleanup_failures c' = cleanup_failures c \<Longrightarrow> Q (-1, r) u"
  shows "post (close_ring os ring True) E Q t"
proof (rule post_mono [OF close_ring_went])
  fix r u assume "close_result ring True t r u"
  then obtain ok where r: "fst r = (if ok then 0 else -1)" "ring_fd (snd r) = -1" "\<not> ring_mapped (snd r)"
      and w: "went t [CLOSE fd ok] (maps t) (remove1 fd (fds t)) (counted_as ok inc_close (ctr t)) u"
    using assms(2-4) by (auto simp: close_result_def close_calls_def close_maps_def close_counted_def Let_def)
  have w': "trail s (cs @ [CLOSE fd ok]) ms fs (counted_as ok inc_close c) u"
    using trail_went [OF assms(1) w] trail_D [OF assms(1)] by simp
  show "Q r u"
  proof (cases ok)
    case True
    with r w' assms(5) [of "snd r" u] show ?thesis by (cases r) simp
  next
    case False
    with r w' assms(6) [of "cs @ [CLOSE fd False]" ms fs c u "snd r"] show ?thesis by (cases r) simp
  qed
qed simp

lemma pass_setup_user:
  assumes "trail s cs ms fs c t"
    and "\<And>p fd r u. 0 \<le> fd \<Longrightarrow> valid_user os la lb p \<Longrightarrow> ring_fd r = fd \<Longrightarrow> ring_mapped r \<Longrightarrow> \<not> unmaps r \<Longrightarrow>
      trail s (cs @ [SETUP p fd]) ms (fd # fs) (addresses_echoed p a b (inc_setup c)) u \<Longrightarrow> Q (0, r) u"
    and "\<And>r u. Q (-1, r) u"
  shows "post (setup_user_ring os a la b lb True) E Q t"
proof (rule post_mono [OF setup_user_ring_went])
  fix r u assume "setup_user_result os a la b lb True t r u"
  then consider "fst r = -1" | p fd where "0 \<le> fd" "valid_user os la lb p"
      "r = (0, user_ring_of (geometry_from_params os p) fd p a la b lb)"
      "went t [SETUP p fd] (maps t) (fd # fds t) (addresses_echoed p a b (inc_setup (ctr t))) u"
    by (auto simp: setup_user_result_def setup_failed_def)
  then show "Q r u"
  proof cases
    case 1
    then show ?thesis using assms(3) by (cases r) simp
  next
    case 2
    have "trail s (cs @ [SETUP p fd]) ms (fd # fs) (addresses_echoed p a b (inc_setup c)) u"
      using trail_went [OF assms(1) 2(4)] trail_D [OF assms(1)] by simp
    with 2 assms(2) show ?thesis by (simp add: unmaps_def)
  qed
qed simp

lemma pass_mmap:
  assumes "trail s cs ms fs c t"
    and "\<And>a e m u. fresh_map a len m \<Longrightarrow> trail s (cs @ [MMAP len flags fd off a]) (m # ms) fs c u \<Longrightarrow> Q (a, e) u"
    and "\<And>e u. trail s (cs @ [MMAP len flags fd off MAP_FAILED]) ms fs c u \<Longrightarrow> Q (MAP_FAILED, e) u"
  shows "post (mmap os len flags fd off) E Q t"
proof (rule mmap_rule)
  fix m k e
  have "went t [MMAP len flags fd off MAP_FAILED] ms fs c
      (t\<lparr>mem := m, kst := k, calls := calls t @ [MMAP len flags fd off MAP_FAILED]\<rparr>)"
    using trail_D [OF assms(1)] by (simp add: went_def)
  from trail_went [OF assms(1) this] show "Q (MAP_FAILED, e)
      (t\<lparr>mem := m, kst := k, calls := calls t @ [MMAP len flags fd off MAP_FAILED]\<rparr>)"
    by (intro assms(3)) simp
next
  fix a mp m k e assume f: "fresh_map a len mp"
  have "went t [MMAP len flags fd off a] (mp # ms) fs c
      (t\<lparr>mem := m, kst := k, maps := mp # maps t, calls := calls t @ [MMAP len flags fd off a]\<rparr>)"
    using trail_D [OF assms(1)] by (simp add: went_def)
  from trail_went [OF assms(1) this] show "Q (a, e)
      (t\<lparr>mem := m, kst := k, maps := mp # maps t, calls := calls t @ [MMAP len flags fd off a]\<rparr>)"
    by (intro assms(2) [OF f]) simp
qed

lemma pass_munmap:
  assumes "trail s cs ms fs c t"
    and "\<And>u. trail s (cs @ [MUNMAP a len True]) (drop_mapping a len ms) fs c u \<Longrightarrow> Q True u"
    and "\<And>u. trail s (cs @ [MUNMAP a len False]) ms fs c u \<Longrightarrow> Q False u"
  shows "post (munmap os a len) E Q t"
proof (rule munmap_rule)
  fix m k
  have "went t [MUNMAP a len True] (drop_mapping a len ms) fs c
      (t\<lparr>mem := m, kst := k, maps := drop_mapping a len (maps t), calls := calls t @ [MUNMAP a len True]\<rparr>)"
    using trail_D [OF assms(1)] by (simp add: went_def)
  from trail_went [OF assms(1) this] show "Q True
      (t\<lparr>mem := m, kst := k, maps := drop_mapping a len (maps t), calls := calls t @ [MUNMAP a len True]\<rparr>)"
    by (intro assms(2)) simp
next
  fix m k
  have "went t [MUNMAP a len False] ms fs c
      (t\<lparr>mem := m, kst := k, calls := calls t @ [MUNMAP a len False]\<rparr>)"
    using trail_D [OF assms(1)] by (simp add: went_def)
  from trail_went [OF assms(1) this] show "Q False
      (t\<lparr>mem := m, kst := k, calls := calls t @ [MUNMAP a len False]\<rparr>)"
    by (intro assms(3)) simp
qed

lemma pass_memset0:
  assumes "trail s cs ms fs c t" and "\<And>u. trail s cs ms fs c u \<Longrightarrow> Q () u" and "\<And>u. E SIGSEGV_STATUS u"
  shows "post (memset0 a n) E Q t"
proof -
  have "post (memset0 a n) faults Q t"
    using assms(2) trail_upto [OF assms(1)] trail_D [OF assms(1)]
    by (intro upto_stores [OF upto_start]) (metis append_Nil2 filter.simps(1))
  then show ?thesis by (rule post_mono) (use assms(3) in \<open>auto simp: faults_def\<close>)
qed

section \<open>The loop over the events\<close>

lemma run_events_rule:
  assumes body: "\<And>i a s. m \<le> i \<Longrightarrow> i < n \<Longrightarrow> P i a s \<Longrightarrow>
      post (f i a) E (\<lambda>(e, b) t. case e of None \<Rightarrow> P (Suc i) b t | Some e \<Rightarrow> L e b t) s"
    and async: "\<And>i a s. P i a s \<Longrightarrow> P i a (async os s)"
    and start: "P m a s" "m \<le> n"
  shows "post (run_events os f [m..<n] a) E (\<lambda>(r, b) t. case r of
     ALL_DONE \<Rightarrow> P n b t | STOPPED \<Rightarrow> (\<exists>i \<le> n. P i b t) | LEFT e \<Rightarrow> L e b t) s"
  using start body
proof (induction "n - m" arbitrary: m a s)
  case 0
  then show ?case by (simp add: post_simps)
next
  case (Suc k)
  then have mn: "m < n" by simp
  note P = async [OF Suc.prems(1)]
  have "post (seq (f m a) (\<lambda>(e, b). case e of Some e \<Rightarrow> give (LEFT e, b) | None \<Rightarrow> run_events os f [Suc m..<n] b)) E
      (\<lambda>(r, b) t. case r of ALL_DONE \<Rightarrow> P n b t | STOPPED \<Rightarrow> (\<exists>i \<le> n. P i b t) | LEFT e \<Rightarrow> L e b t) (async os s)"
  proof (rule post_seqI [OF Suc.prems(3) [OF _ mn P]])
    fix r t assume "(case r of (e, b) \<Rightarrow> \<lambda>t. case e of None \<Rightarrow> P (Suc m) b t | Some e \<Rightarrow> L e b t) t"
    then show "post (case r of (e, b) \<Rightarrow> (case e of None \<Rightarrow> run_events os f [Suc m..<n] b | Some e \<Rightarrow> give (LEFT e, b))) E
        (\<lambda>(r, b) t. case r of ALL_DONE \<Rightarrow> P n b t | STOPPED \<Rightarrow> (\<exists>i \<le> n. P i b t) | LEFT e \<Rightarrow> L e b t) t"
      using Suc mn by (auto simp: post_simps split: option.splits)
  qed simp
  with mn P show ?case
    by (auto simp: upt_conv_Cons post_simps intro!: exI [of _ m])
qed

end
