(* ===== verification/Region_Sound.thy ===== *)
theory Region_Sound
  imports Region_Pass
begin

text \<open>
  What a round of io_uring_memmap_round.c that passes has done. For each profile the calls it has
  made are described in full, event by event, and the counters and the measured time are
  those of the calls.
\<close>

section \<open>Repetition\<close>

definition reps :: "(nat \<Rightarrow> mm_call list \<Rightarrow> bool) \<Rightarrow> nat \<Rightarrow> mm_call list list \<Rightarrow> bool" where
  "reps P n ls \<longleftrightarrow> length ls = n \<and> (\<forall>i < n. P i (ls ! i))"

lemma reps_0 [simp]: "reps P 0 ls \<longleftrightarrow> ls = []"
  by (simp add: reps_def)

lemma reps_Suc: "reps P n ls \<Longrightarrow> P n x \<Longrightarrow> reps P (Suc n) (ls @ [x])"
  by (auto simp: reps_def nth_append less_Suc_eq)

lemma post_True: "E = (\<lambda>c t. True) \<Longrightarrow> Q = (\<lambda>a t. True) \<Longrightarrow> post m E Q s"
  by (auto simp: post_def wp_def split: option.split sum.split)

lemma seq_count_False [simp]: "seq (count False f) k = k ()"
  by (rule ext) (simp add: seq_def count_def change_def)

abbreviation anyway :: "int \<Rightarrow> 'k proc \<Rightarrow> bool" where
  "anyway \<equiv> (\<lambda>c t. True)"

section \<open>R0\<close>

definition remap_cycle :: "geometry \<Rightarrow> int \<Rightarrow> nat \<Rightarrow> mm_call list \<Rightarrow> bool" where
  "remap_cycle g fd i l \<longleftrightarrow> (\<exists>a b. l = map_calls g fd a b @ unmap_calls g a b True True)"

definition remap_count :: "counters \<Rightarrow> counters" where
  "remap_count c = inc_successful (add_unmaps (add_maps c))"

lemma remap_counts:
  "(remap_count ^^ n) c = c\<lparr>mmap_count := mmap_count c + 2 * of_nat n,
     munmap_count := munmap_count c + 2 * of_nat n, successful_events := successful_events c + of_nat n\<rparr>"
  by (induction n) (simp_all add: remap_count_def inc_successful_def add_unmaps_def add_maps_def algebra_simps)

lemma r0_loop:
  assumes "trail s0 cs ms fs c s" and "unmapped_of fd p ring"
  shows "post (run_events os (r0_event os) [0..<n] ring) E (\<lambda>(r, ring') t. case r of
     ALL_DONE \<Rightarrow> unmapped_of fd p ring' \<and>
       (\<exists>ls. reps (remap_cycle (geometry_from_params os p) fd) n ls \<and>
          trail s0 (cs @ concat ls) ms fs ((remap_count ^^ n) c) t)
   | STOPPED \<Rightarrow> True | LEFT e \<Rightarrow> True) s"
proof -
  let ?g = "geometry_from_params os p"
  let ?P = "\<lambda>i ring t. unmapped_of fd p ring \<and> (\<exists>ls. reps (remap_cycle ?g fd) i ls \<and>
      trail s0 (cs @ concat ls) ms fs ((remap_count ^^ i) c) t)"
  have "post (run_events os (r0_event os) [0..<n] ring) E (\<lambda>(r, b) t. case r of
     ALL_DONE \<Rightarrow> ?P n b t | STOPPED \<Rightarrow> (\<exists>i \<le> n. ?P i b t) | LEFT e \<Rightarrow> True) s"
  proof (rule run_events_rule)
    fix i ring t assume P: "?P i ring t"
    then obtain ls where ls: "reps (remap_cycle ?g fd) i ls" and u: "unmapped_of fd p ring"
      and t: "trail s0 (cs @ concat ls) ms fs ((remap_count ^^ i) c) t" by blast
    show "post (r0_event os i ring) E (\<lambda>(e, b) t. case e of None \<Rightarrow> ?P (Suc i) b t | Some e \<Rightarrow> True) t"
      unfolding r0_event_def ring_ok_def
    proof (rule seq_rule, rule pass_map [OF t u], goal_cases)
      case (1 a b ma mb r u)
      have "post (seq (unmap_standard_ring os r True)
          (\<lambda>(rc, ring). if rc \<noteq> 0 then give (Some (), ring)
             else seq (count True inc_successful) (\<lambda>_. give (None, ring)))) E
          (\<lambda>(e, b) t. case e of None \<Rightarrow> ?P (Suc i) b t | Some e \<Rightarrow> True) u"
      proof (rule seq_rule, rule pass_unmap [OF 1(2,1)], goal_cases)
        case (1 r' v)
        show ?case
          unfolding post_case_prod prod.case if_False simp_thms
        proof (rule seq_rule, rule trail_count [OF 1(2)], simp add: post_give 1(1))
          fix w assume w: "trail s0 (cs @ concat ls @ map_calls ?g fd a b @ unmap_calls ?g a b True True) ms fs
              (inc_successful (add_unmaps (add_maps ((remap_count ^^ i) c)))) w"
          have "reps (remap_cycle ?g fd) (Suc i) (ls @ [map_calls ?g fd a b @ unmap_calls ?g a b True True])"
            by (rule reps_Suc [OF ls]) (auto simp: remap_cycle_def)
          moreover have "inc_successful (add_unmaps (add_maps ((remap_count ^^ i) c))) = (remap_count ^^ Suc i) c"
            by (simp add: remap_count_def)
          ultimately show "\<exists>ls. reps (remap_cycle ?g fd) (Suc i) ls \<and>
              trail s0 (cs @ concat ls) ms fs (remap_count ((remap_count ^^ i) c)) w"
            using w by (intro exI [of _ "ls @ [map_calls ?g fd a b @ unmap_calls ?g a b True True]"]) simp
        qed
      next
        case (2 r' v)
        show ?case by (simp add: post_simps)
      qed
      then show ?case by simp
    next
      case (2 r u)
      show ?case by (simp add: post_simps)
    qed
  next
    show "?P 0 ring s" using assms by (auto intro!: exI [of _ "[]"])
  qed (auto intro: trail_async)
  then show ?thesis by (rule post_mono) (auto split: loop_end.splits)
qed

lemma unhealthy_sums:
  "healthy c \<Longrightarrow> healthy (add_health dropped overflow left c) \<Longrightarrow> add_health dropped overflow left c = c"
  by (simp add: healthy_def add_health_def)

lemma healthy_counts [simp]:
  "healthy (inc_nop c) = healthy c" "healthy (add_maps c) = healthy c" "healthy (add_unmaps c) = healthy c"
  "healthy (inc_setup c) = healthy c" "healthy (c\<lparr>timed_ns := x\<rparr>) = healthy c"
  "healthy ((remap_count ^^ n) c) = healthy c" "healthy (addresses_echoed p a b c) = healthy c"
  by (simp_all add: healthy_def inc_nop_def add_maps_def add_unmaps_def inc_setup_def remap_counts addresses_echoed_def)

lemma pass_probe:
  assumes "trail s0 cs ms fs c s" and "healthy c" and "ring_fd ring = fd"
  shows "post (r0_probe os ring tag) anyway
    (\<lambda>ok t. ok \<longrightarrow> trail s0 (cs @ [CQE fd (nop_cqe tag)]) ms fs (inc_nop c) t) s"
  unfolding r0_probe_def
proof (rule seq_rule, rule pass_nop [OF assms(1)], goal_cases)
  case (1 u)
  have "post (seq (copy_ring_health os ring) (\<lambda>_. seq get_counters (\<lambda>c. give (healthy c)))) anyway
    (\<lambda>ok t. ok \<longrightarrow> trail s0 (cs @ [CQE fd (nop_cqe tag)]) ms fs (inc_nop c) t) u"
  proof (rule seq_rule, rule pass_health [OF 1], goal_cases)
    case (1 d o' l v)
    show ?case
      by (rule seq_rule, rule trail_counters [OF 1])
         (use 1 assms unhealthy_sums [of "inc_nop c" d o' l] in \<open>auto simp: post_give\<close>)
  qed simp
  then show ?case by simp
qed (simp_all add: post_give)

lemma r0_finish_passed:
  assumes t: "trail s0 cs ms fs c s" and u: "unmapped_of fd p ring" and h: "healthy c"
  shows "post (r0_finish os ring) anyway (\<lambda>(rc, r) t. rc = 0 \<longrightarrow>
    (\<exists>a b ma mb. mapped_at (geometry_from_params os p) fd p a b ma mb r \<and>
       trail s0 (cs @ map_calls (geometry_from_params os p) fd a b @ [CQE fd (nop_cqe 0x1000000000000002)])
         (mb # ma # ms) fs (inc_nop (add_maps c)) t)) s"
    (is "post _ _ ?Q s")
proof -
  let ?g = "geometry_from_params os p"
  have probe: "post (seq (r0_probe os r 0x1000000000000002) (\<lambda>ok. give (if ok then 0 else -1, r))) anyway ?Q v"
    if m: "mapped_at ?g fd p a b ma mb r"
      and v: "trail s0 (cs @ map_calls ?g fd a b) (mb # ma # ms) fs (add_maps c) v" for a b ma mb r v
  proof (rule post_seqI [OF pass_probe [OF v, of r fd]])
    show "healthy (add_maps c)" "ring_fd r = fd" using h m by (simp_all add: mapped_at_def)
  qed (use m in \<open>auto simp: post_give\<close>)
  show ?thesis
    unfolding r0_finish_def
    by (rule seq_rule, rule pass_map [OF t u]) (use probe in \<open>auto simp: post_give\<close>)
qed

text \<open>The calls of the timed part, and how long it has taken.\<close>

definition r0_timed_calls :: "'k mm_os \<Rightarrow> region_params \<Rightarrow> int \<Rightarrow> nat \<Rightarrow> mm_call list \<Rightarrow> u64 \<Rightarrow> bool" where
  "r0_timed_calls os p fd n cs elapsed \<longleftrightarrow>
     (\<exists>begin_ns end_ns ls. reps (remap_cycle (geometry_from_params os p) fd) n ls \<and>
        cs = [CLOCK begin_ns] @ concat ls @ [CLOCK end_ns] \<and> elapsed = end_ns - begin_ns)"

lemma r0_timed_passed:
  assumes t: "trail s0 cs ms fs c s" and u: "unmapped_of fd p ring" and h: "healthy c"
  shows "post (r0_timed os nevents ring) anyway (\<lambda>(rc, r) t. rc = 0 \<longrightarrow>
    (\<exists>a b ma mb loop_calls elapsed. mapped_at (geometry_from_params os p) fd p a b ma mb r \<and>
       r0_timed_calls os p fd (unat nevents) loop_calls elapsed \<and>
       trail s0 (cs @ loop_calls @ map_calls (geometry_from_params os p) fd a b @ [CQE fd (nop_cqe 0x1000000000000002)])
         (mb # ma # ms) fs
         (inc_nop (add_maps (((remap_count ^^ unat nevents) c)\<lparr>timed_ns := timed_ns c + elapsed\<rparr>))) t)) s"
    (is "post _ _ ?Q s")
  unfolding r0_timed_def
proof (rule seq_rule, rule trail_now [OF t], goal_cases)
  case begins: (1 begin_ns s1)
  show ?case
  proof (rule post_seqI [OF r0_loop [OF begins u]], goal_cases)
    case ends: (1 r s2)
    obtain e ring2 where r: "r = (e, ring2)" by (cases r)
    show ?case
    proof (cases "e = ALL_DONE")
      case False
      with r show ?thesis
        by (cases e) (auto simp: post_give post_if post_count intro!: seq_rule now_rule)
    next
      case True
      with ends r obtain ls where u2: "unmapped_of fd p ring2"
        and ls: "reps (remap_cycle (geometry_from_params os p) fd) (unat nevents) ls"
        and s2: "trail s0 ((cs @ [CLOCK begin_ns]) @ concat ls) ms fs ((remap_count ^^ unat nevents) c) s2"
        by auto
      have rest: "post (r0_finish os ring2) anyway ?Q s3"
        if s3: "trail s0 (((cs @ [CLOCK begin_ns]) @ concat ls) @ [CLOCK end_ns]) ms fs
          (counted_as True (\<lambda>c. c\<lparr>timed_ns := timed_ns c + (end_ns - begin_ns)\<rparr>) ((remap_count ^^ unat nevents) c)) s3"
        for end_ns s3
      proof (rule post_mono [OF r0_finish_passed [OF s3 u2]])
        show "healthy (counted_as True (\<lambda>c. c\<lparr>timed_ns := timed_ns c + (end_ns - begin_ns)\<rparr>) ((remap_count ^^ unat nevents) c))"
          using h by simp
        have "r0_timed_calls os p fd (unat nevents) ([CLOCK begin_ns] @ concat ls @ [CLOCK end_ns]) (end_ns - begin_ns)"
          using ls by (auto simp: r0_timed_calls_def)
        then show "?Q r' t" if "(case r' of (rc, r) \<Rightarrow> \<lambda>t. rc = 0 \<longrightarrow>
          (\<exists>a b ma mb. mapped_at (geometry_from_params os p) fd p a b ma mb r \<and>
           trail s0 ((((cs @ [CLOCK begin_ns]) @ concat ls) @ [CLOCK end_ns]) @
               map_calls (geometry_from_params os p) fd a b @ [CQE fd (nop_cqe 0x1000000000000002)])
             (mb # ma # ms) fs (inc_nop (add_maps (counted_as True (\<lambda>c. c\<lparr>timed_ns := timed_ns c + (end_ns - begin_ns)\<rparr>)
               ((remap_count ^^ unat nevents) c)))) t)) t" for r' t
          using that by (fastforce simp: remap_counts)
      qed simp
      show ?thesis
        unfolding r True prod.case loop_end.case post_case_prod
        by (rule seq_rule, rule trail_now [OF s2], rule seq_rule, erule trail_count) (use rest in auto)
    qed
  qed
qed simp

definition r0_trace :: "'k mm_os \<Rightarrow> nat \<Rightarrow> mm_call list \<Rightarrow> u64 \<Rightarrow> bool" where
  "r0_trace os n cs elapsed \<longleftrightarrow>
     (\<exists>p fd a b a' b' timed.
        0 \<le> fd \<and> valid_params os p \<and> r0_timed_calls os p fd n timed elapsed \<and>
        (let g = geometry_from_params os p in
         cs = [SETUP p fd] @ map_calls g fd a b @ [CQE fd (nop_cqe 0x1000000000000001)] @
              unmap_calls g a b True True @ timed @
              map_calls g fd a' b' @ [CQE fd (nop_cqe 0x1000000000000002)] @
              unmap_calls g a' b' True True @ [CLOSE fd True]))"

text \<open>The counters with which \<open>run_profile\<close> starts a round.\<close>

definition fresh_counters :: "bool \<Rightarrow> counters" where
  "fresh_counters echo = zero_counters\<lparr>user_ring_addr_ok := echo, user_sqes_addr_ok := echo\<rparr>"

definition r0_counters :: "u32 \<Rightarrow> u64 \<Rightarrow> counters" where
  "r0_counters n elapsed = (fresh_counters True)\<lparr>events := ucast n, successful_events := ucast n,
     setup_count := 1, close_count := 1, mmap_count := 2 * ucast n + 4, munmap_count := 2 * ucast n + 4,
     nop_count := 2, timed_ns := elapsed\<rparr>"

lemma of_nat_unat32 [simp]: "(of_nat (unat (n :: u32)) :: u64) = ucast n"
  by (rule word_unat_eq_iff [THEN iffD2]) (use unat_lt32 [of n] in \<open>simp add: unat_of_nat\<close>)

lemma r0_counts:
  "inc_close (add_unmaps (counted_as True (\<lambda>c. c\<lparr>events := ucast n\<rparr>)
     (inc_nop (add_maps (((remap_count ^^ unat n) (add_unmaps (inc_nop (add_maps (inc_setup (fresh_counters True))))))
        \<lparr>timed_ns := timed_ns (fresh_counters True) + elapsed\<rparr>))))) = r0_counters n elapsed"
  by (simp add: remap_counts r0_counters_def fresh_counters_def zero_counters_def inc_defs add_unmaps_def add_maps_def)

definition r0_before_close :: "'k mm_os \<Rightarrow> u32 \<Rightarrow> 'k proc \<Rightarrow> raw_ring \<Rightarrow> 'k proc \<Rightarrow> bool" where
  "r0_before_close os n s ring t \<longleftrightarrow>
     (\<exists>p fd a b a' b' ma mb timed elapsed.
        0 \<le> fd \<and> valid_params os p \<and> r0_timed_calls os p fd (unat n) timed elapsed \<and>
        mapped_at (geometry_from_params os p) fd p a' b' ma mb ring \<and>
        (let g = geometry_from_params os p in
         trail s ([SETUP p fd] @ map_calls g fd a b @ [CQE fd (nop_cqe 0x1000000000000001)] @
              unmap_calls g a b True True @ timed @
              map_calls g fd a' b' @ [CQE fd (nop_cqe 0x1000000000000002)])
           (mb # ma # maps s) (fd # fds s)
           (inc_nop (add_maps (((remap_count ^^ unat n) (add_unmaps (inc_nop (add_maps (inc_setup (ctr s))))))
              \<lparr>timed_ns := timed_ns (ctr s) + elapsed\<rparr>))) t))"

lemma timed_ns_counts [simp]:
  "timed_ns (add_unmaps (inc_nop (add_maps (inc_setup c)))) = timed_ns c"
  by (simp add: inc_defs add_unmaps_def add_maps_def)

lemma r0_body_passed:
  assumes c0: "healthy (ctr s)"
  shows "post (r0_body os nevents) anyway
    (\<lambda>(rc, ring) t. rc = 0 \<longrightarrow> r0_before_close os nevents s ring t) s"
    (is "post _ _ ?Q s")
  unfolding r0_body_def
proof (rule seq_rule, rule pass_setup [OF trail_start], goal_cases)
  case (1 p fd a b ma mb ring t)
  let ?g = "geometry_from_params os p"
  let ?c = "add_maps (inc_setup (ctr s))"
  have t: "trail s (SETUP p fd # map_calls ?g fd a b) (mb # ma # maps s) (fd # fds s) ?c t" using 1 by simp
  have rest: "post (seq (unmap_standard_ring os ring True) (\<lambda>(rc, ring).
      if rc \<noteq> 0 then give (-1, ring) else r0_timed os nevents ring)) anyway ?Q u"
    if u: "trail s ((SETUP p fd # map_calls ?g fd a b) @ [CQE fd (nop_cqe 0x1000000000000001)])
      (mb # ma # maps s) (fd # fds s) (inc_nop ?c) u" for u
  proof (rule seq_rule, rule pass_unmap [OF u 1(3)], goal_cases)
    case unmap: (1 r v)
    have "post (r0_timed os nevents r) anyway ?Q v"
    proof (rule post_mono [OF r0_timed_passed [OF unmap(2,1)]])
      show "healthy (add_unmaps (inc_nop ?c))" using c0 by simp
    qed (use 1 in \<open>fastforce simp: r0_before_close_def Let_def\<close>)+
    then show ?case by simp
  qed (simp add: post_give)
  have "post (seq (r0_probe os ring 0x1000000000000001) (\<lambda>ok.
     if \<not> ok then give (-1, ring)
     else seq (unmap_standard_ring os ring True) (\<lambda>(rc, ring).
     if rc \<noteq> 0 then give (-1, ring) else r0_timed os nevents ring))) anyway ?Q t"
  proof (rule post_seqI [OF pass_probe [OF t]])
    show "healthy ?c" "ring_fd ring = fd" using c0 1(3) by (simp_all add: mapped_at_def)
  qed (use rest in \<open>auto simp: post_give post_if\<close>)
  then show ?case by simp
qed (simp add: post_give)

lemma run_r0_passed:
  assumes c0: "ctr s = fresh_counters True"
  shows "post (run_r0 os nevents) anyway (\<lambda>rc t. rc = 0 \<and> cleanup_failures (ctr t) = 0 \<longrightarrow>
    (\<exists>cs elapsed. r0_trace os (unat nevents) cs elapsed \<and>
       trail s cs (maps s) (fds s) (r0_counters nevents elapsed) t)) s"
    (is "post _ _ ?Q s")
  unfolding run_r0_def
proof (rule post_seqI [OF r0_body_passed])
  show "healthy (ctr s)" by (simp add: c0 fresh_counters_def zero_counters_def healthy_def)
next
  fix r :: "int \<times> raw_ring" and t assume "(case r of (rc, ring) \<Rightarrow> \<lambda>t. rc = 0 \<longrightarrow> r0_before_close os nevents s ring t) t"
  then obtain rc ring where r: "r = (rc, ring)" and b: "rc = 0 \<Longrightarrow> r0_before_close os nevents s ring t"
    by (cases r) auto
  show "post (case r of (ret, ring) \<Rightarrow> seq (count True (\<lambda>c. c\<lparr>events := ucast nevents\<rparr>)) (\<lambda>_.
     seq (if 0 \<le> ring_fd ring then seq (close_ring os ring True) (\<lambda>(rc, _). count (rc \<noteq> 0) inc_cleanup) else give ()) (\<lambda>_.
     seq (count (ret \<noteq> 0) inc_validation) (\<lambda>_. give ret)))) anyway ?Q t"
  proof (cases "rc = 0")
    case False
    show ?thesis
      unfolding r prod.case
      by (rule post_seqI [OF post_True [OF refl refl]], rule post_seqI [OF post_True [OF refl refl]])
         (use False in \<open>simp add: post_seq post_count post_give\<close>)
  next
    case True
    obtain p fd a b a' b' ma mb timed elapsed where pre: "0 \<le> fd" "valid_params os p"
        "r0_timed_calls os p fd (unat nevents) timed elapsed"
        "mapped_at (geometry_from_params os p) fd p a' b' ma mb ring"
      and tr: "trail s ([SETUP p fd] @ map_calls (geometry_from_params os p) fd a b @ [CQE fd (nop_cqe 0x1000000000000001)] @
              unmap_calls (geometry_from_params os p) a b True True @ timed @
              map_calls (geometry_from_params os p) fd a' b' @ [CQE fd (nop_cqe 0x1000000000000002)])
           (mb # ma # maps s) (fd # fds s)
           (inc_nop (add_maps (((remap_count ^^ unat nevents) (add_unmaps (inc_nop (add_maps (inc_setup (ctr s))))))
              \<lparr>timed_ns := timed_ns (ctr s) + elapsed\<rparr>))) t"
      using b [OF True] by (auto simp: r0_before_close_def Let_def)
    have fd: "0 \<le> ring_fd ring" using pre by (simp add: mapped_at_def)
    have "post (seq (count True (\<lambda>c. c\<lparr>events := ucast nevents\<rparr>)) (\<lambda>_.
       seq (seq (close_ring os ring True) (\<lambda>(rc, _). count (rc \<noteq> 0) inc_cleanup)) (\<lambda>_. give 0))) anyway ?Q t"
    proof (rule seq_rule, rule trail_count [OF tr], rule seq_rule, rule seq_rule, goal_cases)
      case (1 u)
      show ?case
      proof (rule pass_close [OF 1 pre(4,1)], goal_cases)
        case (1 r v)
        then show ?case
          using pre unfolding c0 r0_counts
          by (fastforce simp: post_simps r0_trace_def Let_def)
      next
        case (2 cs' ms' fs' c' r v)
        then have "cleanup_failures (inc_cleanup (ctr v)) \<noteq> 0"
          by (auto simp: trail_D c0 fresh_counters_def zero_counters_def inc_defs add_unmaps_def add_maps_def remap_counts)
        then show ?case by (simp add: post_simps)
      qed
    qed
    with r True fd show ?thesis by (simp add: post_seq post_count post_give)
  qed
qed

section \<open>L0 and N0\<close>

text \<open>The time from the first clock of an event to its last.\<close>

definition span :: "mm_call list \<Rightarrow> u64" where
  "span l = (case (hd l, last l) of (CLOCK a, CLOCK b) \<Rightarrow> b - a | _ \<Rightarrow> 0)"

text \<open>The counters but for those that are read from a ring.\<close>

definition sans_health :: "counters \<Rightarrow> counters" where
  "sans_health c = c\<lparr>sq_dropped := 0, cq_overflow := 0, outstanding := 0\<rparr>"

lemma sans_health_counts [simp]:
  "sans_health (add_health d o' l c) = sans_health c"
  "sans_health (inc_nop c) = inc_nop (sans_health c)" "sans_health (inc_setup c) = inc_setup (sans_health c)"
  "sans_health (inc_close c) = inc_close (sans_health c)"
  "sans_health (inc_successful c) = inc_successful (sans_health c)"
  "sans_health (add_maps c) = add_maps (sans_health c)" "sans_health (add_unmaps c) = add_unmaps (sans_health c)"
  "sans_health (addresses_echoed p a b c) = addresses_echoed p a b (sans_health c)"
  "sans_health (c\<lparr>timed_ns := x\<rparr>) = (sans_health c)\<lparr>timed_ns := x\<rparr>"
  "sans_health (c\<lparr>events := x\<rparr>) = (sans_health c)\<lparr>events := x\<rparr>"
  "timed_ns (sans_health c) = timed_ns c" "events (sans_health c) = events c"
  "cleanup_failures (sans_health c) = cleanup_failures c"
  "user_ring_addr_ok (sans_health c) = user_ring_addr_ok c" "user_sqes_addr_ok (sans_health c) = user_sqes_addr_ok c"
  by (simp_all add: sans_health_def add_health_def inc_defs add_maps_def add_unmaps_def addresses_echoed_def)

lemma use_and_close_passed:
  assumes t: "trail s0 cs ms' fs' c s" and fd: "ring_fd ring = fd"
    and closing: "\<And>cs c t Q. trail s0 cs ms' fs' c t \<Longrightarrow>
      (\<And>r u. trail s0 (cs @ release) ms fs (closed c) u \<Longrightarrow> Q (0, r) u) \<Longrightarrow>
      (\<And>r u. Q (-1, r) u) \<Longrightarrow> post (close_ring os ring True) anyway Q t"
  shows "post (use_and_close os ring tag start) anyway (\<lambda>(e, r) u. e = None \<longrightarrow>
    (\<exists>now d o' l. trail s0 (cs @ [CQE fd (nop_cqe tag)] @ release @ [CLOCK now]) ms fs
       (inc_successful ((closed (add_health d o' l (inc_nop c)))
          \<lparr>timed_ns := timed_ns (closed (add_health d o' l (inc_nop c))) + (now - start)\<rparr>)) u)) s"
    (is "post _ _ ?Q s")
proof -
  have fin: "post (ring_ok (close_ring os ring True) (\<lambda>ring1.
         seq (now_ns os) (\<lambda>now.
         seq (count True (\<lambda>c. c\<lparr>timed_ns := timed_ns c + (now - start)\<rparr>)) (\<lambda>_.
         seq (count True inc_successful) (\<lambda>_.
         seq (kernel (mm_usleep os ASYNC_TEARDOWN_PAUSE_US)) (\<lambda>_.
         give (None, ring1)))))) FAIL) anyway ?Q t"
    if t: "trail s0 (cs @ [CQE fd (nop_cqe tag)]) ms' fs' (add_health d o' l (inc_nop c)) t" for d o' l t
    unfolding ring_ok_def
    apply (rule seq_rule, rule closing [OF t])
     apply (simp only: post_case_prod prod.case simp_thms if_False)
     apply (rule seq_rule, erule trail_now, rule seq_rule, erule trail_count)
      apply (rule seq_rule, erule trail_count, rule seq_rule, erule trail_kernel, rule post_giveI)
      apply (simp, blast)
     apply simp
    apply (simp add: post_give)
    done
  have "post (seq (copy_ring_health os ring) (\<lambda>_.
       seq (ring_outstanding os ring) (\<lambda>left.
       seq (if left \<noteq> 0 then give True
            else seq (load_relaxed os (ring_sq_dropped ring)) (\<lambda>dropped.
                 if dropped \<noteq> 0 then give True
                 else seq (load_relaxed os (ring_cq_overflow ring)) (\<lambda>overflow.
                      give (overflow \<noteq> 0)))) (\<lambda>bad.
       if bad then give (Some FAIL_CLOSE, ring)
       else
         ring_ok (close_ring os ring True) (\<lambda>ring1.
         seq (now_ns os) (\<lambda>now.
         seq (count True (\<lambda>c. c\<lparr>timed_ns := timed_ns c + (now - start)\<rparr>)) (\<lambda>_.
         seq (count True inc_successful) (\<lambda>_.
         seq (kernel (mm_usleep os ASYNC_TEARDOWN_PAUSE_US)) (\<lambda>_.
         give (None, ring1)))))) FAIL)))) anyway ?Q t"
    if t: "trail s0 (cs @ [CQE fd (nop_cqe tag)]) ms' fs' (inc_nop c) t" for t
  proof (rule seq_rule, rule pass_health [OF t], rule seq_rule, erule pass_outstanding, goal_cases)
    case (1 d o' l u left v)
    note 2 = fin [OF 1]
    show ?case
    proof (cases "left = 0")
      case True
      show ?thesis
        unfolding True simp_thms if_False
        apply (rule seq_rule, rule seq_rule, rule pass_load [OF 1])
         apply (rule post_ifI, simp add: post_simps)
         apply (rule seq_rule, erule pass_load, simp add: post_give)
          apply (rule impI, drule fin, simp)
         apply simp_all
        done
    qed (simp add: post_simps)
  qed simp_all
  then show ?thesis
    unfolding use_and_close_def
    by (intro seq_rule pass_nop [OF t]) (auto simp: post_give fd)
qed

definition lifecycle_counters :: "bool \<Rightarrow> u64 \<Rightarrow> nat \<Rightarrow> u64 \<Rightarrow> counters" where
  "lifecycle_counters echo k n elapsed = (fresh_counters echo)\<lparr>successful_events := of_nat n,
     setup_count := of_nat n, close_count := of_nat n, mmap_count := k * of_nat n,
     munmap_count := k * of_nat n, nop_count := of_nat n, timed_ns := elapsed\<rparr>"

definition total_span :: "mm_call list list \<Rightarrow> u64" where
  "total_span ls = (\<Sum>l\<leftarrow>ls. span l)"

definition l0_calls :: "'k mm_os \<Rightarrow> nat \<Rightarrow> mm_call list \<Rightarrow> bool" where
  "l0_calls os i l \<longleftrightarrow>
     (\<exists>p fd a b t0 t1. 0 \<le> fd \<and> valid_params os p \<and>
        l = [CLOCK t0, SETUP p fd] @ map_calls (geometry_from_params os p) fd a b @
            [CQE fd (nop_cqe (0x2000000000000000 + of_nat i))] @
            unmap_calls (geometry_from_params os p) a b True True @ [CLOSE fd True, CLOCK t1])"

lemma span_simp: "span (CLOCK t0 # xs @ [CLOCK t1]) = t1 - t0"
  by (simp add: span_def)

lemma l0_step:
  assumes "sans_health c = lifecycle_counters True 2 i elapsed"
  shows "sans_health (inc_successful ((inc_close (add_unmaps (add_health d o' l (inc_nop (add_maps (inc_setup c))))))
     \<lparr>timed_ns := timed_ns (inc_close (add_unmaps (add_health d o' l (inc_nop (add_maps (inc_setup c)))))) + x\<rparr>)) =
   lifecycle_counters True 2 (Suc i) (elapsed + x)"
proof -
  have "timed_ns c = elapsed" using arg_cong [OF assms, of timed_ns] by (simp add: lifecycle_counters_def)
  then show ?thesis
    by (simp add: assms) (simp add: lifecycle_counters_def fresh_counters_def zero_counters_def inc_defs add_maps_def
      add_unmaps_def add_health_def algebra_simps)
qed

lemma l0_event_passed:
  assumes t: "trail s0 cs ms fs c s"
  shows "post (l0_event os i ring) anyway (\<lambda>(e, r) u. e = None \<longrightarrow>
    (\<exists>l d o' h. l0_calls os i l \<and> trail s0 (cs @ l) ms fs
       (inc_successful ((inc_close (add_unmaps (add_health d o' h (inc_nop (add_maps (inc_setup c))))))
         \<lparr>timed_ns := timed_ns (inc_close (add_unmaps (add_health d o' h (inc_nop (add_maps (inc_setup c)))))) + span l\<rparr>)) u)) s"
    (is "post _ _ ?Q s")
  unfolding l0_event_def ring_ok_def
proof (rule seq_rule, rule trail_now [OF t], rule seq_rule, erule pass_setup, goal_cases)
  case (1 start t1 p fd a b ma mb r u)
  let ?g = "geometry_from_params os p"
  let ?tag = "0x2000000000000000 + of_nat i"
  let ?release = "unmap_calls ?g a b True True @ [CLOSE fd True]"
  let ?closed = "\<lambda>c. inc_close (add_unmaps c)"
  have fd: "ring_fd r = fd" using 1(3) by (simp add: mapped_at_def)
  have closing: "post (close_ring os r True) anyway Q t"
    if "trail s0 cs (mb # ma # ms) (fd # fs) c t"
      "\<And>r u. trail s0 (cs @ ?release) ms fs (?closed c) u \<Longrightarrow> Q (0, r) u" "\<And>r u. Q (-1, r) u" for cs c t Q
    by (rule pass_close [OF that(1) 1(3,1)]) (use that(2,3) in auto)
  note passed = use_and_close_passed [where ring = r and release = ?release and closed = ?closed
      and ms = ms and fs = fs and os = os and tag = ?tag and start = start, OF 1(4) fd closing]
  have l: "l0_calls os i ([CLOCK start, SETUP p fd] @ map_calls ?g fd a b @ [CQE fd (nop_cqe ?tag)] @
      ?release @ [CLOCK now])" for now
    using 1(1,2) by (auto simp: l0_calls_def)
  have sp: "span ([CLOCK start, SETUP p fd] @ map_calls ?g fd a b @ [CQE fd (nop_cqe ?tag)] @
      ?release @ [CLOCK now]) = now - start" for now
    using span_simp [of start "[SETUP p fd] @ map_calls ?g fd a b @ [CQE fd (nop_cqe ?tag)] @ ?release" now] by simp
  have "post (use_and_close os r ?tag start) anyway ?Q u"
  proof (rule post_mono [OF passed])
    fix er :: "label option \<times> raw_ring" and v
    assume "(case er of (e, r) \<Rightarrow> \<lambda>u. e = None \<longrightarrow> (\<exists>now d o' l.
      trail s0 (((cs @ [CLOCK start]) @ SETUP p fd # map_calls ?g fd a b) @ [CQE fd (nop_cqe ?tag)] @ ?release @ [CLOCK now]) ms fs
       (inc_successful ((?closed (add_health d o' l (inc_nop (add_maps (inc_setup c)))))
          \<lparr>timed_ns := timed_ns (?closed (add_health d o' l (inc_nop (add_maps (inc_setup c))))) + (now - start)\<rparr>)) u)) v"
    then show "?Q er v"
    proof (clarsimp split: prod.splits, goal_cases)
      case (1 r' now d o' h)
      then show ?case
        using l [of now] sp [of now]
        by (intro exI [of _ "[CLOCK start, SETUP p fd] @ map_calls ?g fd a b @ [CQE fd (nop_cqe ?tag)] @
          ?release @ [CLOCK now]"]) (simp, blast)
    qed
  qed
  then show ?case by simp
qed (simp_all add: post_give)

text \<open>The loop over events whose counters go from \<open>F i\<close> to \<open>F (i + 1)\<close>, with the time of the event added.\<close>

lemma lifecycle_loop:
  fixes a :: "'r" and f :: "nat \<Rightarrow> 'r \<Rightarrow> ('k, 'e option \<times> 'r) prog"
  assumes event: "\<And>i c s a cs. i < n \<Longrightarrow> trail s0 cs ms fs c s \<Longrightarrow>
      post (f i a) anyway (\<lambda>(e, r) u. e = None \<longrightarrow> (\<exists>l c'. calls_of i l \<and> trail s0 (cs @ l) ms fs c' u \<and>
        (\<forall>elapsed. sans_health c = F i elapsed \<longrightarrow> sans_health c' = F (Suc i) (elapsed + span l)))) s"
    and t: "trail s0 cs ms fs c s" and c: "sans_health c = F 0 0"
  shows "post (run_events os f [0..<n] a) anyway (\<lambda>(r, b) t. r = ALL_DONE \<longrightarrow>
     (\<exists>ls c. reps calls_of n ls \<and> trail s0 (cs @ concat ls) ms fs c t \<and> sans_health c = F n (total_span ls))) s"
proof -
  let ?P = "\<lambda>i (b :: 'r) t. \<exists>ls c. reps calls_of i ls \<and> trail s0 (cs @ concat ls) ms fs c t \<and>
      sans_health c = F i (total_span ls)"
  have "post (run_events os f [0..<n] a) anyway (\<lambda>(r, b) t. case r of
     ALL_DONE \<Rightarrow> ?P n b t | STOPPED \<Rightarrow> (\<exists>i \<le> n. ?P i b t) | LEFT e \<Rightarrow> True) s"
  proof (rule run_events_rule)
    fix i b t assume i: "i < n" and "?P i b t"
    then obtain ls c where ls: "reps calls_of i ls" and t: "trail s0 (cs @ concat ls) ms fs c t"
      and c: "sans_health c = F i (total_span ls)" by blast
    show "post (f i b) anyway (\<lambda>(e, b) t. case e of None \<Rightarrow> ?P (Suc i) b t | Some e \<Rightarrow> True) t"
    proof (rule post_mono [OF event [OF i t]])
      fix r :: "'e option \<times> 'r" and u assume "(case r of (e, r) \<Rightarrow> \<lambda>u. e = None \<longrightarrow> (\<exists>l c'. calls_of i l \<and>
        trail s0 ((cs @ concat ls) @ l) ms fs c' u \<and>
        (\<forall>elapsed. sans_health c = F i elapsed \<longrightarrow> sans_health c' = F (Suc i) (elapsed + span l)))) u"
      then show "(case r of (e, b) \<Rightarrow> \<lambda>t. (case e of None \<Rightarrow> ?P (Suc i) b t | Some e \<Rightarrow> True)) u"
      proof (clarsimp split: prod.splits option.splits)
        fix l c' assume "calls_of i l" and u: "trail s0 (cs @ concat ls @ l) ms fs c' u"
          and c': "\<forall>elapsed. sans_health c = F i elapsed \<longrightarrow> sans_health c' = F (Suc i) (elapsed + span l)"
        from reps_Suc [of calls_of, OF ls this(1)] u c' c
        show "\<exists>ls. reps calls_of (Suc i) ls \<and> (\<exists>c. trail s0 (cs @ concat ls) ms fs c u \<and>
            sans_health c = F (Suc i) (total_span ls))"
          by (intro exI [of _ "ls @ [l]"]) (auto simp: total_span_def)
      qed
    qed simp
  next
    show "?P 0 a s" using t c by (intro exI [of _ "[]"] exI [of _ c]) (simp add: total_span_def)
  qed (auto intro: trail_async)
  then show ?thesis by (rule post_mono) (auto split: loop_end.splits)
qed

definition l0_trace :: "'k mm_os \<Rightarrow> nat \<Rightarrow> mm_call list \<Rightarrow> u64 \<Rightarrow> bool" where
  "l0_trace os n cs elapsed \<longleftrightarrow> (\<exists>ls. reps (l0_calls os) n ls \<and> cs = concat ls \<and> elapsed = total_span ls)"

lemma run_l0_passed:
  assumes c0: "ctr s = fresh_counters True"
  shows "post (run_l0 os nevents) anyway (\<lambda>rc t. rc = 0 \<longrightarrow>
    (\<exists>cs elapsed. l0_trace os (unat nevents) cs elapsed \<and> trail s cs (maps s) (fds s) (ctr t) t \<and>
       sans_health (ctr t) = (lifecycle_counters True 2 (unat nevents) elapsed)\<lparr>events := ucast nevents\<rparr>)) s"
    (is "post _ _ ?Q s")
proof -
  let ?n = "unat nevents"
  have loop: "post (run_events os (l0_event os) [0..<?n] raw_ring_reset) anyway (\<lambda>(r, b) t. r = ALL_DONE \<longrightarrow>
     (\<exists>ls c. reps (l0_calls os) ?n ls \<and> trail s ([] @ concat ls) (maps s) (fds s) c t \<and>
        sans_health c = lifecycle_counters True 2 ?n (total_span ls))) s"
  proof (rule lifecycle_loop [OF _ trail_start])
    show "sans_health (ctr s) = lifecycle_counters True 2 0 0"
      by (simp add: c0 sans_health_def lifecycle_counters_def fresh_counters_def zero_counters_def)
    fix i c t ring cs assume "trail s cs (maps s) (fds s) c t"
    from l0_event_passed [OF this, of os i ring] show "post (l0_event os i ring) anyway (\<lambda>(e, r) u. e = None \<longrightarrow>
        (\<exists>l c'. l0_calls os i l \<and> trail s (cs @ l) (maps s) (fds s) c' u \<and>
        (\<forall>elapsed. sans_health c = lifecycle_counters True 2 i elapsed \<longrightarrow>
           sans_health c' = lifecycle_counters True 2 (Suc i) (elapsed + span l)))) t"
      by (rule post_mono) (fastforce intro: l0_step)+
  qed
  show ?thesis
    unfolding run_l0_def
  proof (rule post_seqI [OF loop])
    fix r :: "label loop_end \<times> raw_ring" and t
    assume r: "(case r of (r, b) \<Rightarrow> \<lambda>t. r = ALL_DONE \<longrightarrow>
     (\<exists>ls c. reps (l0_calls os) ?n ls \<and> trail s ([] @ concat ls) (maps s) (fds s) c t \<and>
        sans_health c = lifecycle_counters True 2 ?n (total_span ls))) t"
    obtain e ring where re: "r = (e, ring)" by (cases r)
    have bad: "post (l0_fail nevents) anyway ?Q u" for u by (simp add: l0_fail_def post_simps)
    have closing: "post (seq (close_ring os ring True) (\<lambda>(rc, _). seq (count (rc \<noteq> 0) inc_cleanup) (\<lambda>_. l0_fail nevents))) anyway ?Q t"
      by (rule post_seqI [OF post_True [OF refl refl]]) (auto simp: post_seq post_count bad)
    have ending: "post (seq (count True (\<lambda>c. c\<lparr>events := ucast nevents\<rparr>)) (\<lambda>_.
         if e = ALL_DONE then give 0 else l0_fail nevents)) anyway ?Q t"
    proof (cases "e = ALL_DONE")
      case True
      with r re obtain ls c where ls: "reps (l0_calls os) ?n ls" "trail s (concat ls) (maps s) (fds s) c t"
        and c: "sans_health c = lifecycle_counters True 2 ?n (total_span ls)" by auto
      show ?thesis
      proof (rule seq_rule, rule trail_count [OF ls(2)])
        fix u assume u: "trail s (concat ls) (maps s) (fds s) (counted_as True (\<lambda>c. c\<lparr>events := ucast nevents\<rparr>) c) u"
        have "l0_trace os ?n (concat ls) (total_span ls)" using ls(1) by (auto simp: l0_trace_def)
        moreover have "trail s (concat ls) (maps s) (fds s) (ctr u) u" using u trail_D(3) [OF u] by simp
        moreover have "sans_health (ctr u) = (lifecycle_counters True 2 ?n (total_span ls))\<lparr>events := ucast nevents\<rparr>"
          using trail_D(3) [OF u] c by simp
        ultimately show "post (if e = ALL_DONE then give 0 else l0_fail nevents) anyway ?Q u"
          unfolding if_P [OF True] post_give by blast
      qed
    qed (simp add: post_seq post_count bad)
    show "post (case r of (res, ring) \<Rightarrow> (case res of
       LEFT FAIL_CLOSE \<Rightarrow> seq (close_ring os ring True) (\<lambda>(rc, _). seq (count (rc \<noteq> 0) inc_cleanup) (\<lambda>_. l0_fail nevents))
     | LEFT FAIL \<Rightarrow> l0_fail nevents
     | _ \<Rightarrow> seq (count True (\<lambda>c. c\<lparr>events := ucast nevents\<rparr>)) (\<lambda>_.
         if res = ALL_DONE then give 0 else l0_fail nevents))) anyway ?Q t"
    proof (cases e)
      case (LEFT l)
      then show ?thesis using closing bad re by (cases l) simp_all
    qed (use ending re in simp_all)
  qed
qed

subsection \<open>N0\<close>

text \<open>Documented: \<open>mmap(NULL, ..)\<close> does not return the null pointer.\<close>

definition nonnull :: "'k mm_os \<Rightarrow> bool" where
  "nonnull os \<longleftrightarrow> (\<forall>len flags fd off ms m k. fst (fst (mm_mmap os len flags fd off ms m k)) \<noteq> 0)"

lemma pass_mmap_nonnull:
  assumes nn: "nonnull os" and t: "trail s cs ms fs c t"
    and ok: "\<And>a e m u. a \<noteq> 0 \<Longrightarrow> fresh_map a len m \<Longrightarrow> trail s (cs @ [MMAP len flags fd off a]) (m # ms) fs c u \<Longrightarrow> Q (a, e) u"
    and fail: "\<And>e u. trail s (cs @ [MMAP len flags fd off MAP_FAILED]) ms fs c u \<Longrightarrow> Q (MAP_FAILED, e) u"
  shows "post (mmap os len flags fd off) E Q t"
proof -
  have "post (mmap os len flags fd off) E (\<lambda>(a, e) u. a \<noteq> 0) t"
    using nn by (auto simp: mmap_def post_simps nonnull_def split_beta Let_def)
  moreover have "post (mmap os len flags fd off) E (\<lambda>(a, e) u. a \<noteq> 0 \<longrightarrow> Q (a, e) u) t"
    by (rule pass_mmap [OF t]) (auto intro: ok fail)
  ultimately have "post (mmap os len flags fd off) (\<lambda>c t. E c t \<and> E c t)
      (\<lambda>r u. (case r of (a, e) \<Rightarrow> \<lambda>u. a \<noteq> 0) u \<and> (case r of (a, e) \<Rightarrow> \<lambda>u. a \<noteq> 0 \<longrightarrow> Q (a, e) u) u) t"
    by (rule post_conj)
  then show ?thesis by (rule post_mono) auto
qed

lemma drop_both:
  "fresh_map a la ma \<Longrightarrow> fresh_map b lb mb \<Longrightarrow>
     drop_mapping b lb (drop_mapping a la (mb # ma # ms)) = ms"
  by (auto simp: fresh_map_def drop_mapping.simps)

definition n0_calls :: "'k mm_os \<Rightarrow> geometry \<Rightarrow> u64 \<Rightarrow> u64 \<Rightarrow> nat \<Rightarrow> mm_call list \<Rightarrow> bool" where
  "n0_calls os g a b i l \<longleftrightarrow>
     (\<exists>p fd t0 t1. 0 \<le> fd \<and> valid_user os (geo_ring_sz g) (geo_sqes_sz g) p \<and>
        p_cq_off_user_addr p = a + of_nat i * geo_ring_sz g \<and>
        p_sq_off_user_addr p = b + of_nat i * geo_sqes_sz g \<and>
        l = [CLOCK t0, SETUP p fd, CQE fd (nop_cqe (0x3000000000000000 + of_nat i)), CLOSE fd True, CLOCK t1])"

lemma n0_step:
  assumes "sans_health c = lifecycle_counters (0 < i) 0 i elapsed"
    and "p_cq_off_user_addr p = a" "p_sq_off_user_addr p = b"
  shows "sans_health (inc_successful ((inc_close (add_health d o' l (inc_nop (addresses_echoed p a b (inc_setup c)))))
     \<lparr>timed_ns := timed_ns (inc_close (add_health d o' l (inc_nop (addresses_echoed p a b (inc_setup c))))) + x\<rparr>)) =
   lifecycle_counters (0 < Suc i) 0 (Suc i) (elapsed + x)"
proof -
  have "timed_ns c = elapsed" using arg_cong [OF assms(1), of timed_ns] by (simp add: lifecycle_counters_def)
  then show ?thesis
    by (simp add: assms) (simp add: lifecycle_counters_def fresh_counters_def zero_counters_def inc_defs
      addresses_echoed_def add_health_def assms algebra_simps)
qed

lemma n0_event_passed:
  assumes t: "trail s0 cs ms fs c s"
  shows "post (n0_event os g a b i ring) anyway (\<lambda>(e, r) u. e = None \<longrightarrow>
    (\<exists>l c'. n0_calls os g a b i l \<and> trail s0 (cs @ l) ms fs c' u \<and>
       (\<forall>elapsed. sans_health c = lifecycle_counters (0 < i) 0 i elapsed \<longrightarrow>
          sans_health c' = lifecycle_counters (0 < Suc i) 0 (Suc i) (elapsed + span l)))) s"
    (is "post _ _ ?Q s")
proof -
  let ?a = "a + of_nat i * geo_ring_sz g" and ?b = "b + of_nat i * geo_sqes_sz g"
  let ?tag = "0x3000000000000000 + of_nat i"
  have used: "post (use_and_close os r ?tag start) anyway ?Q u"
    if p: "0 \<le> fd" "valid_user os (geo_ring_sz g) (geo_sqes_sz g) p" "p_cq_off_user_addr p = ?a" "p_sq_off_user_addr p = ?b"
      and r: "ring_fd r = fd" "\<not> unmaps r"
      and u: "trail s0 ((cs @ [CLOCK start]) @ [SETUP p fd]) ms (fd # fs) (addresses_echoed p ?a ?b (inc_setup c)) u"
    for p fd r start u
  proof -
    let ?c = "inc_nop (addresses_echoed p ?a ?b (inc_setup c))"
    have closing: "post (close_ring os r True) anyway Q t"
      if "trail s0 cs ms (fd # fs) c t" "\<And>r u. trail s0 (cs @ [CLOSE fd True]) ms fs (inc_close c) u \<Longrightarrow> Q (0, r) u"
        "\<And>r u. Q (-1, r) u" for cs c t Q
      by (rule pass_close_plain [OF that(1) r p(1)]) (use that(2,3) in auto)
    note passed = use_and_close_passed [where ring = r and release = "[CLOSE fd True]" and closed = inc_close
        and ms = ms and fs = fs and os = os and tag = ?tag and start = start, OF u r(1) closing]
    show ?thesis
    proof (rule post_mono [OF passed])
      fix er :: "label option \<times> raw_ring" and v
      assume "(case er of (e, r) \<Rightarrow> \<lambda>u. e = None \<longrightarrow> (\<exists>now d o' l.
        trail s0 (((cs @ [CLOCK start]) @ [SETUP p fd]) @ [CQE fd (nop_cqe ?tag)] @ [CLOSE fd True] @ [CLOCK now]) ms fs
         (inc_successful ((inc_close (add_health d o' l ?c))
            \<lparr>timed_ns := timed_ns (inc_close (add_health d o' l ?c)) + (now - start)\<rparr>)) u)) v"
      then show "?Q er v"
      proof (clarsimp split: prod.splits, goal_cases)
        case (1 r' now d o' h)
        have "n0_calls os g a b i [CLOCK start, SETUP p fd, CQE fd (nop_cqe ?tag), CLOSE fd True, CLOCK now]"
          using p by (auto simp: n0_calls_def)
        with 1 n0_step [OF _ p(3,4)] show ?case
          by (intro exI [of _ "[CLOCK start, SETUP p fd, CQE fd (nop_cqe ?tag), CLOSE fd True, CLOCK now]"])
             (fastforce simp: span_def)
      qed
    qed simp
  qed
  show ?thesis
    unfolding n0_event_def ring_ok_def Let_def
  proof (rule seq_rule, rule trail_now [OF t], rule seq_rule, erule pass_setup_user, goal_cases)
    case (1 start t1 p fd r u)
    show ?case
      unfolding post_case_prod prod.case simp_thms if_False
      by (rule seq_rule, rule trail_counters [OF 1(6)], rule post_ifI)
         (use used [of fd p r start u] 1 in \<open>auto simp: post_give addresses_echoed_def\<close>)
  qed (simp_all add: post_give)
qed

definition n0_trace :: "'k mm_os \<Rightarrow> geometry \<Rightarrow> u32 \<Rightarrow> mm_call list \<Rightarrow> u64 \<Rightarrow> bool" where
  "n0_trace os g n cs elapsed \<longleftrightarrow>
     (\<exists>a b ls. let la = geo_ring_sz g * ucast n; lb = geo_sqes_sz g * ucast n in
        a \<notin> {0, MAP_FAILED} \<and> b \<notin> {0, MAP_FAILED} \<and>
        reps (n0_calls os g a b) (unat n) ls \<and> elapsed = total_span ls \<and>
        cs = [MMAP la ANON_POPULATE (-1) 0 a, MMAP lb ANON_POPULATE (-1) 0 b] @ concat ls @
             [MUNMAP a la True, MUNMAP b lb True])"

lemma n0_out_fails: "ret \<noteq> 0 \<Longrightarrow> post (n0_out os n a la b lb ret) anyway (\<lambda>rc t. rc \<noteq> 0) s"
  unfolding n0_out_def
  by (rule seq_rule, simp only: post_count, rule post_seqI [OF post_True [OF refl refl]], rule seq_rule,
      simp only: post_count, rule post_seqI [OF post_True [OF refl refl]]) (auto simp: post_seq post_count post_give)

lemma n0_out_passed:
  assumes t: "trail s0 cs (mb # ma # ms) fs c s" and m: "fresh_map a la ma" "fresh_map b lb mb" "a \<noteq> 0" "b \<noteq> 0"
    and c: "cleanup_failures c = 0"
  shows "post (n0_out os n a la b lb 0) anyway (\<lambda>rc u. rc = 0 \<and> cleanup_failures (ctr u) = 0 \<longrightarrow>
    trail s0 (cs @ [MUNMAP a la True, MUNMAP b lb True]) ms fs (c\<lparr>events := ucast n\<rparr>) u) s"
    (is "post _ _ ?Q s")
proof -
  let ?c = "c\<lparr>events := ucast n\<rparr>"
  have c': "cleanup_failures ?c = 0" using c by simp
  have second: "post (seq (munmap os b lb) (\<lambda>ok2. seq (count (\<not> ok2) inc_cleanup) (\<lambda>_. give 0))) anyway ?Q u"
    if "trail s0 (cs @ [MUNMAP a la True]) (drop_mapping a la (mb # ma # ms)) fs ?c u" for u
    by (rule seq_rule, rule pass_munmap [OF that])
       (auto simp: drop_both [OF m(1,2)] post_simps inc_cleanup_def c dest: trail_D(3))
  have bad: "post (seq (munmap os b lb) (\<lambda>ok2. seq (count (\<not> ok2) inc_cleanup) (\<lambda>_. give 0))) anyway ?Q u"
    if "trail s0 cs' ms' fs (inc_cleanup ?c) u" for cs' ms' u
    by (rule seq_rule, rule pass_munmap [OF that]) (auto simp: post_simps inc_cleanup_def c dest!: trail_D(3))
  show ?thesis
    unfolding n0_out_def
    apply (rule seq_rule, rule trail_count [OF t])
    using m(3,4) apply (simp only: not_False_eq_True if_True)
    apply (rule seq_rule, erule pass_munmap)
     apply (simp add: second)
    apply (simp only: not_False_eq_True)
    apply (rule seq_rule, erule trail_count, simp only: counted_as_simps, erule bad)
    done
qed

lemma run_n0_passed:
  assumes c0: "ctr s = fresh_counters False" and nn: "nonnull os"
  shows "post (run_n0 os nevents g) anyway (\<lambda>rc t. rc = 0 \<and> cleanup_failures (ctr t) = 0 \<longrightarrow>
    (\<exists>cs elapsed. n0_trace os g nevents cs elapsed \<and> trail s cs (maps s) (fds s) (ctr t) t \<and>
       sans_health (ctr t) = (lifecycle_counters (0 < unat nevents) 0 (unat nevents) elapsed)\<lparr>events := ucast nevents\<rparr>)) s"
    (is "post _ _ ?Q s")
proof -
  let ?n = "unat nevents"
  let ?la = "geo_ring_sz g * ucast nevents" and ?lb = "geo_sqes_sz g * ucast nevents"
  let ?fin = "\<lambda>a b r. (case r of (res, ring) \<Rightarrow>
           seq (case res of
                  LEFT FAIL_CLOSE \<Rightarrow>
                    seq (if 0 \<le> ring_fd ring
                         then seq (close_ring os ring True) (\<lambda>(rc, _). count (rc \<noteq> 0) inc_cleanup)
                         else give ()) (\<lambda>_.
                    seq (count True inc_validation) (\<lambda>_. give (-1)))
                | LEFT FAIL \<Rightarrow> seq (count True inc_validation) (\<lambda>_. give (-1))
                | STOPPED \<Rightarrow> give (-1)
                | ALL_DONE \<Rightarrow> give 0) (\<lambda>ret. n0_out os nevents a ?la b ?lb ret))"
  have failed: "post (n0_out os nevents a la b lb (-1)) anyway ?Q t" for a la b lb t
    by (rule post_mono [OF n0_out_fails]) auto
  have finish: "post (?fin a b r) anyway ?Q t"
    if m: "fresh_map a ?la ma" "fresh_map b ?lb mb" "a \<noteq> 0" "b \<noteq> 0"
      and r: "(case r of (r, x) \<Rightarrow> \<lambda>t. r = ALL_DONE \<longrightarrow> (\<exists>ls c. reps (n0_calls os g a b) ?n ls \<and>
        trail s ([MMAP ?la ANON_POPULATE (-1) 0 a, MMAP ?lb ANON_POPULATE (-1) 0 b] @ concat ls) (mb # ma # maps s) (fds s) c t \<and>
        sans_health c = lifecycle_counters (0 < ?n) 0 ?n (total_span ls))) t" for a b ma mb r t
  proof -
    obtain e ring where re: "r = (e, ring)" by (cases r)
    show ?thesis
    proof (cases "e = ALL_DONE")
      case False
      have "post (seq (if 0 \<le> ring_fd ring
           then seq (close_ring os ring True) (\<lambda>(rc, _). count (rc \<noteq> 0) inc_cleanup) else give ()) (\<lambda>_.
          seq (count True inc_validation) (\<lambda>_. give (-1)))) anyway (\<lambda>rc t. rc = -1) t"
        by (rule post_seqI [OF post_True [OF refl refl]]) (simp add: post_seq post_count post_give)
      then have "post (case e of
                  LEFT FAIL_CLOSE \<Rightarrow>
                    seq (if 0 \<le> ring_fd ring
                         then seq (close_ring os ring True) (\<lambda>(rc, _). count (rc \<noteq> 0) inc_cleanup)
                         else give ()) (\<lambda>_.
                    seq (count True inc_validation) (\<lambda>_. give (-1)))
                | LEFT FAIL \<Rightarrow> seq (count True inc_validation) (\<lambda>_. give (-1))
                | STOPPED \<Rightarrow> give (-1)
                | ALL_DONE \<Rightarrow> give 0) anyway (\<lambda>rc t. rc = -1) t"
        using False by (auto simp: post_seq post_count post_give split: loop_end.split label.split)
      then show ?thesis
        unfolding re prod.case by (rule post_seqI) (simp add: failed)
    next
      case True
      with r re obtain ls c where ls: "reps (n0_calls os g a b) ?n ls"
        and t: "trail s ([MMAP ?la ANON_POPULATE (-1) 0 a, MMAP ?lb ANON_POPULATE (-1) 0 b] @ concat ls) (mb # ma # maps s) (fds s) c t"
        and c: "sans_health c = lifecycle_counters (0 < ?n) 0 ?n (total_span ls)" by auto
      have "cleanup_failures c = 0"
        using arg_cong [OF c, of cleanup_failures] by (simp add: lifecycle_counters_def fresh_counters_def zero_counters_def)
      note out = n0_out_passed [OF t m this]
      have "n0_trace os g nevents (([MMAP ?la ANON_POPULATE (-1) 0 a, MMAP ?lb ANON_POPULATE (-1) 0 b] @ concat ls) @
          [MUNMAP a ?la True, MUNMAP b ?lb True]) (total_span ls)"
        using ls m by (auto simp: n0_trace_def Let_def fresh_map_def)
      with c have "post (n0_out os nevents a ?la b ?lb 0) anyway ?Q t"
        by (intro post_mono [OF out]) (auto, frule trail_D(3), fastforce)
      then show ?thesis unfolding re True by (simp add: post_seq post_give)
    qed
  qed
  have loop: "post (run_events os (n0_event os g a b) [0..<?n] raw_ring_reset) anyway (\<lambda>(r, x) t. r = ALL_DONE \<longrightarrow>
     (\<exists>ls c. reps (n0_calls os g a b) ?n ls \<and> trail s (cs @ concat ls) ms (fds s) c t \<and>
        sans_health c = lifecycle_counters (0 < ?n) 0 ?n (total_span ls))) t"
    if t: "trail s cs ms (fds s) (ctr s) t" for a b cs ms t
  proof (rule lifecycle_loop [where F = "\<lambda>i. lifecycle_counters (0 < i) 0 i", OF n0_event_passed t])
    show "sans_health (ctr s) = lifecycle_counters (0 < (0 :: nat)) 0 0 0"
      by (simp add: c0 sans_health_def lifecycle_counters_def fresh_counters_def zero_counters_def)
  qed
  show ?thesis
    unfolding run_n0_def Let_def
  proof (rule seq_rule, rule pass_mmap_nonnull [OF nn trail_start], goal_cases)
    case (1 a e ma t1)
    have a: "a \<noteq> MAP_FAILED" using 1(2) by simp
    have "post (seq (mmap os ?lb ANON_POPULATE (-1) 0) (\<lambda>(b, _).
         if b = MAP_FAILED then n0_out os nevents a ?la 0 ?lb (-1)
         else seq (memset0 a ?la) (\<lambda>_. seq (memset0 b ?lb) (\<lambda>_.
           seq (run_events os (n0_event os g a b) [0..<?n] raw_ring_reset) (?fin a b))))) anyway ?Q t1"
    proof (rule seq_rule, rule pass_mmap_nonnull [OF nn 1(3)], goal_cases)
      case (1 b e mb t2)
      have b: "b \<noteq> MAP_FAILED" using 1(2) by simp
      have "post (seq (memset0 a ?la) (\<lambda>_. seq (memset0 b ?lb) (\<lambda>_.
           seq (run_events os (n0_event os g a b) [0..<?n] raw_ring_reset) (?fin a b)))) anyway ?Q t2"
      proof (rule seq_rule, rule pass_memset0 [OF 1(3)], rule seq_rule, erule pass_memset0, goal_cases)
        case (1 u v)
        show ?case
          by (rule post_seqI [OF loop [OF 1]]) (rule finish [OF \<open>fresh_map a ?la ma\<close> \<open>fresh_map b ?lb mb\<close> \<open>a \<noteq> 0\<close> \<open>b \<noteq> 0\<close>], simp)
      qed simp_all
      with b show ?case by simp
    qed (simp add: failed)
    with a show ?case by simp
  qed (simp add: failed)
qed

section \<open>A0\<close>

definition anon_cycle :: "geometry \<Rightarrow> nat \<Rightarrow> mm_call list \<Rightarrow> bool" where
  "anon_cycle g i l \<longleftrightarrow>
     (\<exists>a b. l = [MMAP (geo_ring_sz g) (MAP_PRIVATE OR MAP_ANONYMOUS) (-1) 0 a,
                 MMAP (geo_sqes_sz g) (MAP_PRIVATE OR MAP_ANONYMOUS) (-1) 0 b,
                 MUNMAP b (geo_sqes_sz g) True, MUNMAP a (geo_ring_sz g) True])"

definition a0_trace :: "geometry \<Rightarrow> nat \<Rightarrow> mm_call list \<Rightarrow> u64 \<Rightarrow> bool" where
  "a0_trace g n cs elapsed \<longleftrightarrow>
     (\<exists>begin_ns end_ns ls. reps (anon_cycle g) n ls \<and>
        cs = [CLOCK begin_ns] @ concat ls @ [CLOCK end_ns] \<and> elapsed = end_ns - begin_ns)"

definition a0_counters :: "u32 \<Rightarrow> u64 \<Rightarrow> counters" where
  "a0_counters n elapsed = (fresh_counters True)\<lparr>events := ucast n, successful_events := ucast n,
     mmap_count := 2 * ucast n, munmap_count := 2 * ucast n, timed_ns := elapsed\<rparr>"

lemma a0_event_passed:
  assumes t: "trail s0 cs ms fs c s"
  shows "post (a0_event os g i x) anyway (\<lambda>(e, r) u. e = None \<longrightarrow>
    (\<exists>l. anon_cycle g i l \<and> trail s0 (cs @ l) ms fs (remap_count c) u)) s"
    (is "post _ _ ?Q s")
proof -
  have two: "inc_mmap (inc_mmap c) = add_maps c" by (simp add: inc_mmap_def add_maps_def add.commute)
  let ?la = "geo_ring_sz g" and ?lb = "geo_sqes_sz g" and ?fl = "MAP_PRIVATE OR MAP_ANONYMOUS"
  have unmapping: "post (seq (munmap os b ?lb) (\<lambda>ok1.
               if \<not> ok1 then give (Some (), ())
               else seq (munmap os a ?la) (\<lambda>ok2.
                    if \<not> ok2 then give (Some (), ())
                    else seq (count True (\<lambda>c. c\<lparr>munmap_count := munmap_count c + 2\<rparr>)) (\<lambda>_.
                         seq (count True inc_successful) (\<lambda>_. give (None, ())))))) anyway ?Q u"
    if m: "fresh_map a ?la ma" "fresh_map b ?lb mb"
      and u: "trail s0 (cs @ [MMAP ?la ?fl (-1) 0 a, MMAP ?lb ?fl (-1) 0 b]) (mb # ma # ms) fs (add_maps c) u" for a b ma mb u
    apply (rule seq_rule, rule pass_munmap [OF u])
     apply (simp only: not_True_eq_False if_False drop_fresh [OF m(2)])
     apply (rule seq_rule, erule pass_munmap)
      apply (simp only: not_True_eq_False if_False drop_fresh [OF m(1)])
      apply (rule seq_rule, erule trail_count, rule seq_rule, erule trail_count, rule post_giveI)
      apply (force simp: anon_cycle_def remap_count_def add_unmaps_def)
     apply (simp_all add: post_give)
    done
  show ?thesis
    unfolding a0_event_def
    apply (rule seq_rule, rule pass_mmap [OF t])
     apply (simp only: post_case_prod prod.case fresh_not_failed if_False)
     apply (rule seq_rule, erule trail_count, rule seq_rule, erule pass_mmap)
      apply (simp only: post_case_prod prod.case fresh_not_failed if_False)
      apply (rule seq_rule, erule trail_count)
      apply (rule unmapping, assumption, assumption)
      apply (simp add: two)
     apply (simp only: post_case_prod prod.case simp_thms if_True)
     apply (rule post_seqI [OF post_True [OF refl refl]])
     apply (simp_all add: post_give)
    done
qed

lemma run_a0_passed:
  assumes c0: "ctr s = fresh_counters True"
  shows "post (run_a0 os nevents g) anyway (\<lambda>rc t. rc = 0 \<longrightarrow>
    (\<exists>cs elapsed. a0_trace g (unat nevents) cs elapsed \<and>
       trail s cs (maps s) (fds s) (a0_counters nevents elapsed) t)) s"
    (is "post _ _ ?Q s")
  unfolding run_a0_def
proof (rule seq_rule, rule trail_now [OF trail_start], goal_cases)
  case begins: (1 start s1)
  let ?n = "unat nevents"
  let ?P = "\<lambda>i (b :: unit) t. \<exists>ls. reps (anon_cycle g) i ls \<and>
      trail s (([] @ [CLOCK start]) @ concat ls) (maps s) (fds s) ((remap_count ^^ i) (ctr s)) t"
  have "post (run_events os (a0_event os g) [0..<?n] ()) anyway (\<lambda>(r, b) t. case r of
     ALL_DONE \<Rightarrow> ?P ?n b t | STOPPED \<Rightarrow> (\<exists>i \<le> ?n. ?P i b t) | LEFT e \<Rightarrow> True) s1"
  proof (rule run_events_rule)
    fix i b t assume "?P i b t"
    then obtain ls where ls: "reps (anon_cycle g) i ls"
      and t: "trail s (([] @ [CLOCK start]) @ concat ls) (maps s) (fds s) ((remap_count ^^ i) (ctr s)) t" by blast
    show "post (a0_event os g i b) anyway (\<lambda>(e, b) t. case e of None \<Rightarrow> ?P (Suc i) b t | Some e \<Rightarrow> True) t"
    proof (rule post_mono [OF a0_event_passed [OF t]])
      fix r :: "unit option \<times> unit" and u
      assume "(case r of (e, r) \<Rightarrow> \<lambda>u. e = None \<longrightarrow> (\<exists>l. anon_cycle g i l \<and>
        trail s ((([] @ [CLOCK start]) @ concat ls) @ l) (maps s) (fds s) (remap_count ((remap_count ^^ i) (ctr s))) u)) u"
      then show "(case r of (e, b) \<Rightarrow> \<lambda>t. (case e of None \<Rightarrow> ?P (Suc i) b t | Some e \<Rightarrow> True)) u"
      proof (clarsimp split: prod.splits option.splits)
        fix l assume "anon_cycle g i l"
          and "trail s (CLOCK start # concat ls @ l) (maps s) (fds s) (remap_count ((remap_count ^^ i) (ctr s))) u"
        with reps_Suc [of "anon_cycle g", OF ls] show "\<exists>ls. reps (anon_cycle g) (Suc i) ls \<and>
            trail s (CLOCK start # concat ls) (maps s) (fds s) (remap_count ((remap_count ^^ i) (ctr s))) u"
          by (intro exI [of _ "ls @ [l]"]) auto
      qed
    qed simp
  next
    show "?P 0 () s1" using begins by (intro exI [of _ "[]"]) simp
  qed (auto intro: trail_async)
  then show ?case
  proof (rule post_seqI, goal_cases)
    case (1 r t)
    obtain e where e: "r = (e, ())" by (cases r) simp
    show ?case
    proof (cases "e = ALL_DONE")
      case False
      with e show ?thesis
        by (cases e) (auto simp: post_count post_give post_seq intro!: seq_rule now_rule)
    next
      case True
      with 1 e obtain ls where ls: "reps (anon_cycle g) ?n ls"
        and t: "trail s (([] @ [CLOCK start]) @ concat ls) (maps s) (fds s) ((remap_count ^^ ?n) (ctr s)) t" by auto
      show ?thesis
        unfolding e True prod.case loop_end.case post_case_prod
      proof (rule seq_rule, rule trail_now [OF t], rule seq_rule, erule trail_count, rule post_giveI, goal_cases)
        case (1 now u v)
        have "counted_as True (\<lambda>c. c\<lparr>timed_ns := now - start, events := ucast nevents\<rparr>) ((remap_count ^^ ?n) (ctr s)) =
            a0_counters nevents (now - start)"
          by (simp add: remap_counts c0 a0_counters_def fresh_counters_def zero_counters_def)
        moreover have "a0_trace g ?n ([CLOCK start] @ concat ls @ [CLOCK now]) (now - start)"
          using ls by (auto simp: a0_trace_def)
        ultimately show ?case using 1 by fastforce
      qed simp
    qed
  qed
qed simp

end
