(* ===== verification/Region_Refusals.thy ===== *)
theory Region_Refusals
  imports Region_Sound
begin

text \<open>
  The error round of io_uring_memmap_round.c: what it has done when it passes, refusals of the
  kernel included.
\<close>

section \<open>E0\<close>

definition e0_trace :: "'k mm_os \<Rightarrow> geometry \<Rightarrow> region_params \<Rightarrow> u64 \<Rightarrow> u64 \<Rightarrow> mm_call list \<Rightarrow> bool" where
  "e0_trace os g p' a b cs \<longleftrightarrow>
     (\<exists>p fd fd'. let la = geo_ring_sz g; lb = geo_sqes_sz g in
        0 \<le> fd \<and> valid_params os p \<and> 0 \<le> fd' \<and> valid_user os la lb p' \<and>
        a \<notin> {0, MAP_FAILED} \<and> b \<notin> {0, MAP_FAILED} \<and>
        cs = [SETUP p fd, MMAP la MAP_SHARED fd INVALID_MMAP_OFFSET MAP_FAILED,
              MMAP la ANON_POPULATE (-1) 0 a, MMAP lb ANON_POPULATE (-1) 0 b, SETUP p' fd',
              MMAP la MAP_SHARED fd' IORING_OFF_SQ_RING MAP_FAILED,
              CQE fd' (nop_cqe 0x4000000000000001), CLOSE fd' True, CLOSE fd True,
              MUNMAP a la True, MUNMAP b lb True])"

definition e0_counters :: "region_params \<Rightarrow> u64 \<Rightarrow> u64 \<Rightarrow> counters" where
  "e0_counters p a b = addresses_echoed p a b ((fresh_counters True)\<lparr>events := 2, successful_events := 2,
     setup_count := 2, close_count := 2, nop_count := 1\<rparr>)"

lemma e0_out_ret: "post (e0_out os g a b ret) anyway (\<lambda>rc t. rc = ret) s"
  unfolding e0_out_def
  by (rule seq_rule, simp only: post_count, rule post_seqI [OF post_True [OF refl refl]], rule seq_rule,
      simp only: post_count, rule post_seqI [OF post_True [OF refl refl]]) (auto simp: post_seq post_count post_give)

lemma e0_out_standard_ret: "post (e0_out_standard os g standard a b ret) anyway (\<lambda>rc t. rc = ret) s"
  unfolding e0_out_standard_def
  by (rule post_seqI [OF post_True [OF refl refl]]) (auto simp: post_seq post_count e0_out_ret)

lemma e0_out_user_ret: "post (e0_out_user os g user standard a b ret) anyway (\<lambda>rc t. rc = ret) s"
  unfolding e0_out_user_def
  by (rule post_seqI [OF post_True [OF refl refl]]) (auto simp: post_seq post_count e0_out_standard_ret)

lemma e0_out_passed:
  assumes t: "trail s0 cs (mb # ma # ms) fs c s"
    and m: "fresh_map a (geo_ring_sz g) ma" "fresh_map b (geo_sqes_sz g) mb" "a \<noteq> 0" "b \<noteq> 0"
  shows "post (e0_out os g a b 0) anyway (\<lambda>rc u.
    trail s0 (cs @ [MUNMAP a (geo_ring_sz g) True, MUNMAP b (geo_sqes_sz g) True]) ms fs (c\<lparr>events := 2\<rparr>) u \<or>
    cleanup_failures (ctr u) \<in> {cleanup_failures c + 1, cleanup_failures c + 2}) s"
    (is "post _ _ ?Q s")
proof -
  let ?la = "geo_ring_sz g" and ?lb = "geo_sqes_sz g" and ?c = "c\<lparr>events := 2\<rparr>"
  have second: "post (seq (munmap os b ?lb) (\<lambda>ok2. seq (count (\<not> ok2) inc_cleanup) (\<lambda>_. give 0))) anyway ?Q u"
    if "trail s0 (cs @ [MUNMAP a ?la True]) (drop_mapping a ?la (mb # ma # ms)) fs ?c u" for u
    by (rule seq_rule, rule pass_munmap [OF that])
       (auto simp: drop_both [OF m(1,2)] post_simps inc_cleanup_def dest: trail_D(3))
  have bad: "post (seq (munmap os b ?lb) (\<lambda>ok2. seq (count (\<not> ok2) inc_cleanup) (\<lambda>_. give 0))) anyway ?Q u"
    if "trail s0 cs' ms' fs (inc_cleanup ?c) u" for cs' ms' u
    by (rule seq_rule, rule pass_munmap [OF that]) (auto simp: post_simps inc_cleanup_def dest!: trail_D(3))
  show ?thesis
    unfolding e0_out_def
    apply (rule seq_rule, rule trail_count [OF t])
    using m(3,4) apply (simp only: not_False_eq_True if_True)
    apply (rule seq_rule, erule pass_munmap)
     apply (simp only: counted_as_simps seq_count_False not_True_eq_False simp_thms, erule second)
    apply (simp only: not_False_eq_True)
    apply (rule seq_rule, erule trail_count, simp only: counted_as_simps seq_count_False simp_thms, erule bad)
    done
qed

text \<open>A failure on the way out is counted and stays counted.\<close>

lemma close_keeps_cleanup:
  "post (close_ring os ring True) anyway (\<lambda>r u. cleanup_failures (ctr u) = cleanup_failures (ctr s)) s"
  by (rule post_mono [OF close_ring_went])
     (auto simp: close_result_def went_def close_counted_def counted_as_def inc_close_def inc_munmap_def)

lemma munmap_keeps_counters: "post (munmap os a len) E (\<lambda>r u. ctr u = ctr s) s"
  by (rule munmap_rule) simp_all

lemma e0_out_cleanup:
  "post (e0_out os g a b 0) anyway
     (\<lambda>rc u. cleanup_failures (ctr u) \<in> {cleanup_failures (ctr s), cleanup_failures (ctr s) + 1, cleanup_failures (ctr s) + 2}) s"
proof -
  have m: "post (if x \<noteq> 0 then munmap os x len else give True) anyway (\<lambda>r u. ctr u = ctr t) t" for x len t
    using munmap_keeps_counters [of os x len anyway t] by (simp add: post_give)
  show ?thesis
    unfolding e0_out_def
    by (rule seq_rule, simp only: post_count, rule post_seqI [OF m], rule seq_rule,
      simp only: post_count, rule post_seqI [OF m]) (auto simp: post_seq post_count post_give inc_cleanup_def)
qed

lemma e0_out_standard_cleanup:
  fixes s :: "'k proc"
  shows "post (e0_out_standard os g standard a b 0) anyway
     (\<lambda>rc u. cleanup_failures (ctr u) \<in> {cleanup_failures (ctr s), cleanup_failures (ctr s) + 1,
       cleanup_failures (ctr s) + 2, cleanup_failures (ctr s) + 3}) s"
  unfolding e0_out_standard_def
proof (rule post_seqI [OF close_keeps_cleanup], clarify)
  fix rc :: int and r and t :: "'k proc" assume t: "cleanup_failures (ctr t) = cleanup_failures (ctr s)"
  let ?u = "if rc \<noteq> 0 then t\<lparr>ctr := inc_cleanup (ctr t)\<rparr> else t"
  show "post (seq (count (rc \<noteq> 0) inc_cleanup) (\<lambda>_. e0_out os g a b 0)) anyway
     (\<lambda>rc u. cleanup_failures (ctr u) \<in> {cleanup_failures (ctr s), cleanup_failures (ctr s) + 1,
       cleanup_failures (ctr s) + 2, cleanup_failures (ctr s) + 3}) t"
    unfolding post_seq post_count
    by (rule post_mono [OF e0_out_cleanup]; cases "rc = 0") (use t in \<open>auto simp: inc_cleanup_def\<close>)
qed

lemma e0_release_passed:
  assumes t: "trail s0 cs (mb # ma # ms) (fd' # fd # fs) c s"
    and m: "fresh_map a (geo_ring_sz g) ma" "fresh_map b (geo_sqes_sz g) mb" "a \<noteq> 0" "b \<noteq> 0"
    and user: "ring_fd user = fd'" "\<not> unmaps user" "0 \<le> fd'"
    and standard: "ring_fd standard = fd" "\<not> unmaps standard" "0 \<le> fd"
    and c: "cleanup_failures c = 0"
  shows "post (e0_out_user os g user standard a b 0) anyway (\<lambda>rc u. cleanup_failures (ctr u) = 0 \<longrightarrow>
    trail s0 (cs @ [CLOSE fd' True, CLOSE fd True, MUNMAP a (geo_ring_sz g) True, MUNMAP b (geo_sqes_sz g) True]) ms fs
      ((inc_close (inc_close c))\<lparr>events := 2\<rparr>) u) s"
    (is "post _ _ ?Q s")
proof -
  show ?thesis
    unfolding e0_out_user_def
  proof (rule seq_rule, rule pass_close_plain [OF t user], goal_cases)
    case (1 r u)
    have "post (e0_out_standard os g standard a b 0) anyway ?Q u"
      unfolding e0_out_standard_def
    proof (rule seq_rule, rule pass_close_plain [OF 1(3) standard], goal_cases)
      case (1 r v)
      have "cleanup_failures (inc_close (inc_close c)) = 0" using c by (simp add: inc_close_def)
      then have "post (e0_out os g a b 0) anyway ?Q v"
        by (intro post_mono [OF e0_out_passed [OF 1(3) m]]) auto
      then show ?case by simp
    next
      case (2 cs' ms' fs' c' r v)
      then have "cleanup_failures (inc_cleanup (ctr v)) = 1"
        using c by (auto simp: inc_cleanup_def inc_close_def dest!: trail_D(3))
      then have "post (e0_out os g a b 0) anyway ?Q (v\<lparr>ctr := inc_cleanup (ctr v)\<rparr>)"
        by (intro post_mono [OF e0_out_cleanup]) auto
      then show ?case by (simp add: post_seq post_count)
    qed
    then show ?case by simp
  next
    case (2 cs' ms' fs' c' r v)
    then have "cleanup_failures (inc_cleanup (ctr v)) = 1"
      using c by (auto simp: inc_cleanup_def dest!: trail_D(3))
    then have "post (e0_out_standard os g standard a b 0) anyway ?Q (v\<lparr>ctr := inc_cleanup (ctr v)\<rparr>)"
      by (intro post_mono [OF e0_out_standard_cleanup]) auto
    then show ?case by (simp add: post_seq post_count)
  qed
qed

lemma pass_setup_plain:
  assumes "trail s cs ms fs c t"
    and "\<And>p fd u. 0 \<le> fd \<Longrightarrow> valid_params os p \<Longrightarrow>
      trail s (cs @ [SETUP p fd]) ms (fd # fs) (inc_setup c) u \<Longrightarrow>
      Q (0, sized_ring (geometry_from_params os p) fd p) u"
    and "\<And>r u. Q (-1, r) u"
  shows "post (setup_standard_ring os False True) E Q t"
proof (rule post_mono [OF setup_standard_ring_went])
  fix r u assume "setup_result os False True t r u"
  then consider "fst r = -1" | p fd where "0 \<le> fd" "valid_params os p"
      "r = (0, sized_ring (geometry_from_params os p) fd p)"
      "went t [SETUP p fd] (maps t) (fd # fds t) (inc_setup (ctr t)) u"
    by (auto simp: setup_result_def setup_failed_def Let_def)
  then show "Q r u"
  proof cases
    case 1
    then show ?thesis using assms(3) by (cases r) simp
  next
    case 2
    have "trail s (cs @ [SETUP p fd]) ms (fd # fs) (inc_setup c) u"
      using trail_went [OF assms(1) 2(4)] trail_D [OF assms(1)] by simp
    with 2 assms(2) show ?thesis by simp
  qed
qed simp

lemma pass_refused:
  assumes "trail s cs ms fs c t"
    and "\<And>u. trail s (cs @ [MMAP (geo_ring_sz g) MAP_SHARED fd off MAP_FAILED]) ms fs c u \<Longrightarrow> Q True u"
    and "\<And>u. Q False u"
  shows "post (mmap_refused os g fd off) E Q t"
proof -
  have f: "post (munmap os a (geo_ring_sz g)) E (\<lambda>_. post (give False) E Q) u" for a u
    by (rule munmap_rule) (simp_all add: post_give assms(3))
  show ?thesis
    unfolding mmap_refused_def
  proof (rule seq_rule, rule pass_mmap [OF assms(1)], goal_cases)
    case (1 a e m u)
    then show ?case using f assms(3) by (cases "a = MAP_FAILED") (auto simp: post_seq fresh_map_def post_give)
  next
    case (2 e u)
    then show ?case using assms(2,3) by (cases "e = EINVAL \<or> e = ENXIO \<or> e = ENOMEM") (auto simp: post_give)
  qed
qed

lemma pass_regions:
  assumes nn: "nonnull os" and t: "trail s cs ms fs c t"
    and ok: "\<And>a b ma mb u. a \<noteq> 0 \<Longrightarrow> b \<noteq> 0 \<Longrightarrow> fresh_map a (geo_ring_sz g) ma \<Longrightarrow> fresh_map b (geo_sqes_sz g) mb \<Longrightarrow>
      trail s (cs @ [MMAP (geo_ring_sz g) ANON_POPULATE (-1) 0 a, MMAP (geo_sqes_sz g) ANON_POPULATE (-1) 0 b])
        (mb # ma # ms) fs c u \<Longrightarrow> Q (0, a, b) u"
    and fail: "\<And>a b u. Q (-1, a, b) u" and fault: "\<And>u. E SIGSEGV_STATUS u"
  shows "post (allocate_user_regions os g) E Q t"
  unfolding allocate_user_regions_def
proof (rule seq_rule, rule pass_mmap_nonnull [OF nn t], goal_cases)
  case (1 a e ma u)
  have "post (seq (mmap os (geo_sqes_sz g) ANON_POPULATE (-1) 0) (\<lambda>(user_sqes, _).
          if user_sqes = MAP_FAILED
          then seq (munmap os a (geo_ring_sz g)) (\<lambda>_. give (-1, 0, user_sqes))
          else seq (memset0 a (geo_ring_sz g)) (\<lambda>_.
               seq (memset0 user_sqes (geo_sqes_sz g)) (\<lambda>_. give (0, a, user_sqes))))) E Q u"
  proof (rule seq_rule, rule pass_mmap_nonnull [OF nn 1(3)], goal_cases)
    case (1 b e mb v)
    have "post (seq (memset0 a (geo_ring_sz g)) (\<lambda>_.
               seq (memset0 b (geo_sqes_sz g)) (\<lambda>_. give (0, a, b)))) E Q v"
      by (rule seq_rule, rule pass_memset0 [OF 1(3)], rule seq_rule, erule pass_memset0, rule post_giveI,
          rule ok [OF \<open>a \<noteq> 0\<close> \<open>b \<noteq> 0\<close> \<open>fresh_map a (geo_ring_sz g) ma\<close> \<open>fresh_map b (geo_sqes_sz g) mb\<close>]) (simp_all add: fault)
    with 1(2) show ?case by simp
  next
    case (2 e v)
    have "post (munmap os a (geo_ring_sz g)) E (\<lambda>_. post (give (-1, 0, MAP_FAILED)) E Q) v"
      by (rule munmap_rule) (simp_all add: post_give fail)
    then show ?case by (simp add: post_seq)
  qed
  with 1(2) show ?case by simp
qed (simp add: post_give fail)

lemma run_e0_passed:
  assumes c0: "ctr s = fresh_counters True" and nn: "nonnull os"
  shows "post (run_e0 os g) anyway (\<lambda>rc t. rc = 0 \<and> cleanup_failures (ctr t) = 0 \<longrightarrow>
    (\<exists>cs p a b. e0_trace os g p a b cs \<and> trail s cs (maps s) (fds s) (e0_counters p a b) t)) s"
    (is "post _ _ ?Q s")
proof -
  have no1: "post (e0_out os g a b (-1)) anyway ?Q t" for a b t
    by (rule post_mono [OF e0_out_ret]) auto
  have no2: "post (e0_out_standard os g st a b (-1)) anyway ?Q t" for a b st t
    by (rule post_mono [OF e0_out_standard_ret]) auto
  have no3: "post (e0_out_user os g us st a b (-1)) anyway ?Q t" for a b st us t
    by (rule post_mono [OF e0_out_user_ret]) auto
  let ?la = "geo_ring_sz g" and ?lb = "geo_sqes_sz g"
  have yes: "post (e0_out_user os g user standard a b 0) anyway ?Q t"
    if ab: "a \<noteq> 0" "b \<noteq> 0" "fresh_map a ?la ma" "fresh_map b ?lb mb"
      and p: "0 \<le> fd" "valid_params os p" "0 \<le> fd'" "valid_user os ?la ?lb p'"
      and r: "ring_fd standard = fd" "\<not> unmaps standard" "ring_fd user = fd'" "\<not> unmaps user"
      and t: "trail s ((((([SETUP p fd] @ [MMAP ?la MAP_SHARED fd INVALID_MMAP_OFFSET MAP_FAILED]) @
          [MMAP ?la ANON_POPULATE (-1) 0 a, MMAP ?lb ANON_POPULATE (-1) 0 b]) @ [SETUP p' fd']) @
          [MMAP ?la MAP_SHARED fd' IORING_OFF_SQ_RING MAP_FAILED]) @ [CQE fd' (nop_cqe 0x4000000000000001)])
        (mb # ma # maps s) (fd' # fd # fds s)
        (counted_as True (\<lambda>c. c\<lparr>successful_events := 2\<rparr>) (inc_nop (addresses_echoed p' a b (inc_setup (inc_setup (ctr s)))))) t"
    for a b ma mb fd p fd' p' standard user t
  proof (rule post_mono [OF e0_release_passed [OF t ab(3,4,1,2) r(3,4) p(3) r(1,2) p(1)]])
    show "cleanup_failures (counted_as True (\<lambda>c. c\<lparr>successful_events := 2\<rparr>)
        (inc_nop (addresses_echoed p' a b (inc_setup (inc_setup (ctr s)))))) = 0"
      by (simp add: c0 fresh_counters_def zero_counters_def inc_defs addresses_echoed_def)
    have "(inc_close (inc_close (counted_as True (\<lambda>c. c\<lparr>successful_events := 2\<rparr>)
        (inc_nop (addresses_echoed p' a b (inc_setup (inc_setup (ctr s))))))))\<lparr>events := 2\<rparr> = e0_counters p' a b"
      by (simp add: c0 e0_counters_def fresh_counters_def zero_counters_def inc_defs addresses_echoed_def)
    note eq = this
    show "?Q rc u" if "cleanup_failures (ctr u) = 0 \<longrightarrow> trail s (((((([SETUP p fd] @ [MMAP ?la MAP_SHARED fd INVALID_MMAP_OFFSET MAP_FAILED]) @
          [MMAP ?la ANON_POPULATE (-1) 0 a, MMAP ?lb ANON_POPULATE (-1) 0 b]) @ [SETUP p' fd']) @
          [MMAP ?la MAP_SHARED fd' IORING_OFF_SQ_RING MAP_FAILED]) @ [CQE fd' (nop_cqe 0x4000000000000001)]) @
          [CLOSE fd' True, CLOSE fd True, MUNMAP a ?la True, MUNMAP b ?lb True]) (maps s) (fds s)
       ((inc_close (inc_close (counted_as True (\<lambda>c. c\<lparr>successful_events := 2\<rparr>)
        (inc_nop (addresses_echoed p' a b (inc_setup (inc_setup (ctr s))))))))\<lparr>events := 2\<rparr>) u" for rc u
    proof (intro impI exI conjI)
      assume "rc = 0 \<and> cleanup_failures (ctr u) = 0"
      with that show "trail s (((((([SETUP p fd] @ [MMAP ?la MAP_SHARED fd INVALID_MMAP_OFFSET MAP_FAILED]) @
          [MMAP ?la ANON_POPULATE (-1) 0 a, MMAP ?lb ANON_POPULATE (-1) 0 b]) @ [SETUP p' fd']) @
          [MMAP ?la MAP_SHARED fd' IORING_OFF_SQ_RING MAP_FAILED]) @ [CQE fd' (nop_cqe 0x4000000000000001)]) @
          [CLOSE fd' True, CLOSE fd True, MUNMAP a ?la True, MUNMAP b ?lb True]) (maps s) (fds s)
          (e0_counters p' a b) u"
        unfolding eq by blast
      show "e0_trace os g p' a b (((((([SETUP p fd] @ [MMAP ?la MAP_SHARED fd INVALID_MMAP_OFFSET MAP_FAILED]) @
          [MMAP ?la ANON_POPULATE (-1) 0 a, MMAP ?lb ANON_POPULATE (-1) 0 b]) @ [SETUP p' fd']) @
          [MMAP ?la MAP_SHARED fd' IORING_OFF_SQ_RING MAP_FAILED]) @ [CQE fd' (nop_cqe 0x4000000000000001)]) @
          [CLOSE fd' True, CLOSE fd True, MUNMAP a ?la True, MUNMAP b ?lb True])"
        using ab p unfolding e0_trace_def Let_def
        by (intro exI [of _ p] exI [of _ fd] exI [of _ fd']) (simp add: fresh_map_def)
    qed
  qed simp
  show ?thesis
    unfolding run_e0_def
  proof (rule seq_rule, rule pass_setup_plain [OF trail_start], goal_cases)
    case s1: (1 p fd u)
    let ?st = "sized_ring (geometry_from_params os p) fd p"
    have st: "ring_fd ?st = fd" "\<not> unmaps ?st" by (simp_all add: unmaps_def)
    show ?case
      unfolding post_case_prod prod.case simp_thms if_False st(1)
    proof (rule seq_rule, rule pass_refused [OF s1(3)], goal_cases)
      case t1: (1 t)
      show ?case
        unfolding simp_thms if_False
      proof (rule seq_rule, rule pass_regions [OF nn t1], goal_cases)
        case r: (1 a b ma mb t)
        show ?case
          unfolding post_case_prod prod.case simp_thms if_False
        proof (rule seq_rule, rule pass_setup_user [OF r(5)], goal_cases)
          case us: (1 p' fd' user t)
          show ?case
            unfolding post_case_prod prod.case simp_thms if_False us(3)
          proof (rule seq_rule, rule pass_refused [OF us(6)], goal_cases)
            case t2: (1 t)
            show ?case
              unfolding simp_thms if_False
            proof (rule seq_rule, rule pass_nop [OF t2], goal_cases)
              case t3: (1 t)
              have h: "healthy (inc_nop (addresses_echoed p' a b (inc_setup (inc_setup (ctr s)))))"
                unfolding healthy_counts by (simp add: c0 fresh_counters_def zero_counters_def healthy_def)
              show ?case
                unfolding simp_thms if_False
              proof (rule seq_rule, rule pass_health [OF t3], goal_cases)
                case t4: (1 d ov l t)
                show ?case
                proof (rule seq_rule, rule trail_counters [OF t4], goal_cases)
                  case 1
                  show ?case
                  proof (cases "healthy (add_health d ov l (inc_nop (addresses_echoed p' a b (inc_setup (inc_setup (ctr s))))))")
                    case True
                    note same = unhealthy_sums [OF h True]
                    show ?thesis
                      unfolding same using h
                      by (simp, intro seq_rule [OF trail_count [OF t4 [unfolded same]]])
                         (rule yes [OF r(1-4) s1(1,2) us(1,2) st us(3,5)], simp add: us(3))
                  qed (simp add: no3)
                qed
              qed simp
            qed (simp_all add: no3)
          qed (simp add: no3)
        next
          case (2 user t)
          show ?case by (simp add: no3)
        qed
      next
        case (2 a b t)
        show ?case by (simp add: no2)
      qed simp
    qed (simp add: no2)
  next
    case (2 r u)
    then show ?case by (simp add: no1)
  qed
qed

end
