(* ===== verification/Region_Point.thy ===== *)
theory Region_Point
  imports Region_Refusals
begin

text \<open>
  The verdict of io_uring_memmap_round.c on a round: \<open>run_profile\<close> together with \<open>counters_pass\<close>
  accepts a round exactly when its calls are those of the profile.
\<close>

section \<open>A round\<close>

definition round_done :: "'k mm_os \<Rightarrow> profile_id \<Rightarrow> u32 \<Rightarrow> geometry \<Rightarrow> mm_call list \<Rightarrow> counters \<Rightarrow> bool" where
  "round_done os prof n g cs c \<longleftrightarrow>
     (case prof of
        PROFILE_R0_REMAP \<Rightarrow> \<exists>ns. r0_trace os (unat n) cs ns \<and> c = r0_counters n ns
      | PROFILE_L0_STANDARD_LIFECYCLE \<Rightarrow>
          \<exists>ns. l0_trace os (unat n) cs ns \<and> c = (lifecycle_counters True 2 (unat n) ns)\<lparr>events := ucast n\<rparr>
      | PROFILE_N0_USERBACKED_LIFECYCLE \<Rightarrow>
          \<exists>ns. n0_trace os g n cs ns \<and> c = (lifecycle_counters True 0 (unat n) ns)\<lparr>events := ucast n\<rparr>
      | PROFILE_A0_ANON_MAP \<Rightarrow> \<exists>ns. a0_trace g (unat n) cs ns \<and> c = a0_counters n ns
      | PROFILE_E0_ERRORS \<Rightarrow> \<exists>p a b. e0_trace os g p a b cs \<and> c = e0_counters p a b)"

lemmas counter_defs = r0_counters_def lifecycle_counters_def a0_counters_def e0_counters_def
  fresh_counters_def zero_counters_def addresses_echoed_def

lemma round_done_passes: "round_done os prof n g cs c \<Longrightarrow> counters_pass c prof"
  by (cases prof) (auto simp: round_done_def counters_pass_def counter_defs)

lemma counters_pass_health:
  "counters_pass c prof \<Longrightarrow> cleanup_failures c = 0 \<and> sans_health c = c"
  by (simp add: counters_pass_def sans_health_def)

lemma trail_fresh:
  "trail (s\<lparr>ctr := x\<rparr>) cs ms fs c t \<Longrightarrow> trail s cs ms fs (ctr t) t \<and> ctr t = c"
  by (auto simp: trail_def went_def)

lemma run_profile_verdict:
  assumes "nonnull os"
  shows "post (run_profile os prof n g) anyway (\<lambda>rc t. rc = 0 \<and> counters_pass (ctr t) prof \<longrightarrow>
    (\<exists>cs. round_done os prof n g cs (ctr t) \<and> trail s cs (maps s) (fds s) (ctr t) t)) s"
    (is "post _ _ ?Q s")
proof -
  let ?f = "\<lambda>_. zero_counters\<lparr>user_ring_addr_ok := prof \<noteq> PROFILE_N0_USERBACKED_LIFECYCLE,
      user_sqes_addr_ok := prof \<noteq> PROFILE_N0_USERBACKED_LIFECYCLE\<rparr>"
  let ?s = "s\<lparr>ctr := ?f (ctr s)\<rparr>"
  show ?thesis
  proof (cases prof)
    case PROFILE_R0_REMAP
    have "post (run_r0 os n) anyway ?Q ?s"
      by (rule post_mono [OF run_r0_passed])
         (use PROFILE_R0_REMAP in \<open>auto simp: fresh_counters_def round_done_def dest!: counters_pass_health trail_fresh\<close>)
    with PROFILE_R0_REMAP show ?thesis by (simp add: run_profile_def post_seq post_count)
  next
    case PROFILE_A0_ANON_MAP
    have "post (run_a0 os n g) anyway ?Q ?s"
      by (rule post_mono [OF run_a0_passed])
         (use PROFILE_A0_ANON_MAP in \<open>auto simp: fresh_counters_def round_done_def dest!: counters_pass_health trail_fresh\<close>)
    with PROFILE_A0_ANON_MAP show ?thesis by (simp add: run_profile_def post_seq post_count)
  next
    case PROFILE_L0_STANDARD_LIFECYCLE
    have "post (run_l0 os n) anyway ?Q ?s"
    proof (rule post_mono [OF run_l0_passed], goal_cases)
      case 1
      show ?case by (simp add: fresh_counters_def PROFILE_L0_STANDARD_LIFECYCLE)
    next
      case (3 rc t)
      show ?case
      proof
        assume a: "rc = 0 \<and> counters_pass (ctr t) prof"
        then have p: "counters_pass (ctr t) prof" by simp
        with 3 a counters_pass_health [OF p] obtain cs ns where t: "l0_trace os (unat n) cs ns"
        and c: "sans_health (ctr t) = (lifecycle_counters True 2 (unat n) ns)\<lparr>events := ucast n\<rparr>"
        and u: "trail ?s cs (maps s) (fds s) (ctr t) t"
          by auto
      have "ctr t = (lifecycle_counters True 2 (unat n) ns)\<lparr>events := ucast n\<rparr>"
        using c counters_pass_health [OF p] by simp
      then have "round_done os prof n g cs (ctr t)"
        using t unfolding round_done_def PROFILE_L0_STANDARD_LIFECYCLE profile_id.case by blast
      with trail_fresh [OF u] show "\<exists>cs. round_done os prof n g cs (ctr t) \<and> trail s cs (maps s) (fds s) (ctr t) t"
        by blast
      qed
    qed simp
    with PROFILE_L0_STANDARD_LIFECYCLE show ?thesis by (simp add: run_profile_def post_seq post_count)
  next
    case PROFILE_N0_USERBACKED_LIFECYCLE
    have "post (run_n0 os n g) anyway ?Q ?s"
    proof (rule post_mono [OF run_n0_passed [OF _ assms]], goal_cases)
      case 1
      show ?case by (simp add: fresh_counters_def PROFILE_N0_USERBACKED_LIFECYCLE)
    next
      case (3 rc t)
      show ?case
      proof
        assume a: "rc = 0 \<and> counters_pass (ctr t) prof"
        then have p: "counters_pass (ctr t) prof" by simp
        with 3 a counters_pass_health [OF p] obtain cs ns where t: "n0_trace os g n cs ns"
        and c: "sans_health (ctr t) = (lifecycle_counters (0 < unat n) 0 (unat n) ns)\<lparr>events := ucast n\<rparr>"
        and u: "trail ?s cs (maps s) (fds s) (ctr t) t"
          by auto
      have "user_ring_addr_ok (sans_health (ctr t))"
        using p PROFILE_N0_USERBACKED_LIFECYCLE by (simp add: counters_pass_def sans_health_def)
      then have "0 < unat n" unfolding c by (simp add: lifecycle_counters_def fresh_counters_def)
      then have "ctr t = (lifecycle_counters True 0 (unat n) ns)\<lparr>events := ucast n\<rparr>"
        using c counters_pass_health [OF p] by simp
      then have "round_done os prof n g cs (ctr t)"
        using t unfolding round_done_def PROFILE_N0_USERBACKED_LIFECYCLE profile_id.case by blast
      with trail_fresh [OF u] show "\<exists>cs. round_done os prof n g cs (ctr t) \<and> trail s cs (maps s) (fds s) (ctr t) t"
        by blast
      qed
    qed simp
    with PROFILE_N0_USERBACKED_LIFECYCLE show ?thesis by (simp add: run_profile_def post_seq post_count)
  next
    case PROFILE_E0_ERRORS
    have "post (run_e0 os g) anyway ?Q ?s"
      by (rule post_mono [OF run_e0_passed [OF _ assms]])
         (use PROFILE_E0_ERRORS in \<open>auto simp: fresh_counters_def round_done_def dest!: counters_pass_health trail_fresh\<close>)
    with PROFILE_E0_ERRORS show ?thesis by (simp add: run_profile_def post_seq post_count)
  qed
qed

text \<open>
  What it means that io_uring_memmap_round.c exits with 0: all rounds of its mode have been run and
  accepted, and the output has their rows.
\<close>

section \<open>The rounds of a run\<close>

definition row_of :: "'k mm_os \<Rightarrow> options \<Rightarrow> identity \<Rightarrow> geometry \<Rightarrow> bool \<Rightarrow> nat \<Rightarrow> counters \<Rightarrow> string" where
  "row_of os opt ident g tr i c =
     result_row os opt ident g (phase_name (opt_mode opt) i) (visible_round (opt_mode opt) i) c tr"

definition rounds_done :: "'k mm_os \<Rightarrow> options \<Rightarrow> identity \<Rightarrow> geometry \<Rightarrow> bool \<Rightarrow> nat \<Rightarrow> 'k proc \<Rightarrow> 'k proc \<Rightarrow> bool" where
  "rounds_done os opt ident g tr k s t \<longleftrightarrow>
     maps t = maps s \<and> fds t = fds s \<and>
     (\<exists>css cc new. length css = k \<and> length cc = k \<and>
        (\<forall>i < k. round_done os (opt_profile opt) (event_count (opt_profile opt) (opt_mode opt)) g (css ! i) (cc ! i)) \<and>
        calls t = calls s @ new \<and> filter visible new = concat css \<and>
        out_lines t = out_lines s @ map (\<lambda>i. row_of os opt ident g tr i (cc ! i)) [0..<k])"

lemma rounds_done_0: "rounds_done os opt ident g tr 0 s s"
  by (simp add: rounds_done_def)

lemma rounds_done_async: "rounds_done os opt ident g tr k s t \<Longrightarrow> rounds_done os opt ident g tr k s (async os t)"
  by (simp add: rounds_done_def)

lemma rounds_done_Suc:
  assumes "rounds_done os opt ident g tr k s t"
    and d: "round_done os (opt_profile opt) (event_count (opt_profile opt) (opt_mode opt)) g cs c"
    and t: "trail t cs (maps t) (fds t) c u"
    and v: "maps v = maps u" "fds v = fds u" "calls v = calls u"
      "out_lines v = out_lines u @ [row_of os opt ident g tr k c]"
  shows "rounds_done os opt ident g tr (Suc k) s v"
proof -
  obtain css cc new where *: "length css = k" "length cc = k"
      "\<forall>i < k. round_done os (opt_profile opt) (event_count (opt_profile opt) (opt_mode opt)) g (css ! i) (cc ! i)"
      "calls t = calls s @ new" "filter visible new = concat css"
      "out_lines t = out_lines s @ map (\<lambda>i. row_of os opt ident g tr i (cc ! i)) [0..<k]"
      "maps t = maps s" "fds t = fds s"
    using assms(1) by (auto simp: rounds_done_def)
  obtain more where more: "filter visible more = cs" "went t more (maps t) (fds t) c u"
    using t by (auto simp: trail_def)
  show ?thesis
    unfolding rounds_done_def
  proof (intro conjI exI [of _ "css @ [cs]"] exI [of _ "cc @ [c]"] exI [of _ "new @ more"])
    show "\<forall>i < Suc k. round_done os (opt_profile opt) (event_count (opt_profile opt) (opt_mode opt)) g
        ((css @ [cs]) ! i) ((cc @ [c]) ! i)"
      using * d by (simp add: nth_append less_Suc_eq)
    show "out_lines v = out_lines s @ map (\<lambda>i. row_of os opt ident g tr i ((cc @ [c]) ! i)) [0..<Suc k]"
      using * v trail_D(4) [OF t] by (simp add: nth_append)
  qed (use * more v in \<open>simp_all add: went_def\<close>)
qed

lemma one_round_done:
  assumes "nonnull os" and "rounds_done os opt ident g tr k s t"
  shows "post (one_round os opt ident g tr k ()) anyway
     (\<lambda>(e, _) u. e = None \<longrightarrow> rounds_done os opt ident g tr (Suc k) s u) t"
  unfolding one_round_def
proof (rule post_seqI [OF run_profile_verdict [OF assms(1)]], goal_cases)
  case (1 rc u)
  then show ?case
    by (auto simp: post_simps write_result_def write_line_def split_beta Let_def
        intro!: rounds_done_Suc [OF assms(2)] simp: row_of_def)
qed

lemma run_events_stopped:
  "post (run_events os f is a) anyway (\<lambda>(r, b) t. r = STOPPED \<longrightarrow> stop_requested t) s"
proof (induction "is" arbitrary: a s)
  case (Cons i "is")
  have "post (seq (f i a) (\<lambda>(e, b). case e of Some e \<Rightarrow> give (LEFT e, b) | None \<Rightarrow> run_events os f is b))
      anyway (\<lambda>(r, b) t. r = STOPPED \<longrightarrow> stop_requested t) u" for u
    by (rule post_seqI [OF post_True [OF refl refl]]) (auto simp: post_simps Cons.IH split: option.split)
  then show ?case by (simp add: post_simps)
qed (simp add: post_simps)

lemma run_rounds_done:
  assumes "nonnull os"
  shows "post (run_rounds os opt ident g tr) anyway
     (\<lambda>rc t. rc = EXIT_SUCCESS \<longrightarrow> rounds_done os opt ident g tr (round_count (opt_mode opt)) s t) s"
proof -
  let ?n = "round_count (opt_mode opt)" and ?P = "\<lambda>i t. rounds_done os opt ident g tr i s t"
  have loop: "post (run_events os (one_round os opt ident g tr) [0..<?n] ()) anyway
     (\<lambda>x t. (fst x = STOPPED \<longrightarrow> stop_requested t) \<and> (fst x = ALL_DONE \<longrightarrow> ?P ?n t)) s"
  proof (rule post_mono [OF post_conj [OF run_events_stopped run_events_rule
        [where P = "\<lambda>i _. ?P i" and m = 0 and n = ?n and L = "\<lambda>_ _ _. True" and E = anyway]]])
    fix i a t assume "rounds_done os opt ident g tr i s t"
    then show "post (one_round os opt ident g tr i a) anyway
       (\<lambda>(e, b) t. case e of None \<Rightarrow> rounds_done os opt ident g tr (Suc i) s t | Some e \<Rightarrow> True) t"
      by (cases a, simp) (rule post_mono [OF one_round_done [OF assms]], auto split: option.split)
  qed (auto intro: rounds_done_async rounds_done_0)
  show ?thesis
    unfolding run_rounds_def
    by (rule post_seqI [OF loop])
       (auto simp: post_simps split_beta Let_def EXIT_SUCCESS_def EXIT_FAILURE_def rounds_done_def
          async_def handle_signal_def split: loop_end.splits)
qed

section \<open>The program\<close>

text \<open>Point mode is three warm-up rounds and fifteen measured ones.\<close>

definition run_complete :: "'k mm_os \<Rightarrow> options \<Rightarrow> 'k proc \<Rightarrow> 'k proc \<Rightarrow> bool" where
  "run_complete os opt s t \<longleftrightarrow>
     (\<exists>ident p tr u. valid_params os p \<and>
        rounds_done os opt ident (geometry_from_params os p) tr (if opt_mode opt = MODE_POINT then 18 else 1) u t \<and>
        maps u = maps s \<and> fds u = fds s \<and> out_lines u = out_lines s @ [result_header])"

definition quiet :: "'k proc \<Rightarrow> 'k proc \<Rightarrow> bool" where
  "quiet s t \<longleftrightarrow> maps t = maps s \<and> fds t = fds s \<and> out_lines t = out_lines s"

lemma quiet_start: "quiet s s"
  by (simp add: quiet_def)

lemma quiet_kernel: "quiet s t \<Longrightarrow> (\<And>a u. quiet s u \<Longrightarrow> Q a u) \<Longrightarrow> post (kernel f) E Q t"
  by (simp add: post_simps quiet_def split_beta Let_def)

lemma quiet_pin_cpu: "quiet s t \<Longrightarrow> (\<And>a u. quiet s u \<Longrightarrow> Q a u) \<Longrightarrow> post (pin_cpu os cpu) E Q t"
  unfolding pin_cpu_def
  by (rule seq_rule, erule quiet_kernel, rule post_ifI, simp add: post_give,
      rule seq_rule, erule quiet_kernel, rule post_ifI, simp add: post_give,
      rule seq_rule, erule quiet_kernel, simp add: post_give)

lemma quiet_read_text: "quiet s t \<Longrightarrow> (\<And>a u. quiet s u \<Longrightarrow> Q a u) \<Longrightarrow> post (read_text os f n) E Q t"
  unfolding read_text_def
  by (rule post_ifI, simp add: post_give, rule seq_rule, erule quiet_kernel, simp add: post_give)

lemma quiet_discover:
  assumes "quiet s t" and "\<And>rc u. quiet s u \<Longrightarrow> Q (rc, None) u"
    and "\<And>rc p u. valid_params os p \<Longrightarrow> quiet s u \<Longrightarrow> Q (rc, Some (geometry_from_params os p)) u"
  shows "post (discover_geometry os) E Q t"
  by (rule post_mono [OF discover_went]) (use assms in \<open>auto simp: quiet_def\<close>)

lemma post_optionI:
  "post m E Q s \<Longrightarrow> (\<And>x. post (h x) E Q s) \<Longrightarrow> post (case r of None \<Rightarrow> m | Some x \<Rightarrow> h x) E Q s"
  by (cases r) simp_all

lemma execute_done:
  assumes "nonnull os"
  shows "post (execute os opt path) anyway (\<lambda>rc t. rc = EXIT_SUCCESS \<longrightarrow> run_complete os opt s t) s"
proof -
  have rounds: "post (run_rounds os opt ident (geometry_from_params os p) tr) anyway
      (\<lambda>rc t. rc = EXIT_SUCCESS \<longrightarrow> run_complete os opt s t) u"
    if "valid_params os p" "maps u = maps s" "fds u = fds s" "out_lines u = out_lines s @ [result_header]"
    for ident p tr u
    by (rule post_mono [OF run_rounds_done [OF assms]])
       (use that in \<open>force simp: run_complete_def round_count_def POINT_WARMUPS_def POINT_ROUNDS_def split: if_splits\<close>)+
  note fail = post_give EXIT_SUCCESS_def EXIT_FAILURE_def
  show ?thesis
    unfolding execute_def
    apply (rule seq_rule, rule quiet_pin_cpu [OF quiet_start], rule post_ifI, simp add: fail)
    apply (rule seq_rule, erule quiet_read_text)
    apply (rule post_optionI, simp add: fail, rule seq_rule, erule quiet_read_text)
    apply (rule post_optionI, simp add: fail, rule seq_rule, erule quiet_discover, simp add: fail)
    apply (simp, rule seq_rule, erule quiet_kernel, rule post_ifI, simp add: fail)
    apply (auto simp: write_header_def write_line_def post_seq post_change post_give post_kernel split_beta Let_def
            quiet_def EXIT_SUCCESS_def EXIT_FAILURE_def intro!: rounds [unfolded EXIT_SUCCESS_def])
    done
qed

lemma main_done:
  assumes "nonnull os" and "parse_options args = Some opt" and "opt_mode opt \<noteq> MODE_DESCRIBE"
  shows "post (main os args) anyway (\<lambda>rc t. rc = EXIT_SUCCESS \<longrightarrow> run_complete os opt s t) s"
  using execute_done [OF assms(1)] assms(2,3)
  by (auto simp: main_def post_give EXIT_SUCCESS_def EXIT_FAILURE_def split: option.split)

end
