(* ===== verification/Region_Held.thy ===== *)
theory Region_Held
  imports Region_Use Region_Geometry
begin

text \<open>
  Memory safety and resources of io_uring_memmap_round.c. No access of the program leaves the
  mappings, and every mapping and descriptor it acquires it gives back, on every path, as long as
  the kernel answers as it is documented to. What counts as such an answer is a predicate on the
  recorded calls, so that a triple \<open>safely\<close> promises its postcondition for the runs whose calls
  have all been answered so.
\<close>

section \<open>Answers\<close>

text \<open>
  The fields of a ring lie in the area that its parameters describe; a mapping does not wrap around
  the address space and is not at address zero; \<open>munmap\<close> fails for \<open>MAP_FAILED\<close>, which is no page, and for
  nothing else; the masks in memory are those of the rings that were asked for.
\<close>

definition offsets_ok :: "region_params \<Rightarrow> bool" where
  "offsets_ok p \<longleftrightarrow>
     (\<forall>off \<in> {p_sq_off_head p, p_sq_off_tail p, p_sq_off_ring_mask p, p_sq_off_ring_entries p,
        p_sq_off_dropped p, p_cq_off_head p, p_cq_off_tail p, p_cq_off_ring_mask p,
        p_cq_off_ring_entries p, p_cq_off_overflow p}.
        unat off + 4 \<le> max (unat (sq_bytes p)) (unat (cq_bytes p)))"

fun answered :: "mm_call \<Rightarrow> bool" where
  "answered (SETUP p fd) = (0 \<le> fd \<longrightarrow> offsets_ok p)"
| "answered (MMAP len flags fd off a) = (a \<noteq> MAP_FAILED \<longrightarrow> a \<noteq> 0 \<and> unat a + unat len < 2 ^ 64)"
| "answered (MUNMAP a len ok) = (ok \<longleftrightarrow> a \<noteq> MAP_FAILED)"
| "answered (SQ_MASK fd msk) = (unat msk < 64)"
| "answered (CQ_MASK fd msk) = (unat msk < 128)"
| "answered _ = True"

text \<open>The geometry of a ring need not be the one asked for: the program checks it. With \<open>strict\<close> it is.\<close>

fun granted_if :: "bool \<Rightarrow> mm_call \<Rightarrow> bool" where
  "granted_if strict (SETUP p fd) = (strict \<longrightarrow> 0 \<le> fd \<longrightarrow> granted p)"
| "granted_if strict _ = True"

definition answered_if :: "bool \<Rightarrow> mm_call \<Rightarrow> bool" where
  [simp]: "answered_if strict c \<longleftrightarrow> answered c \<and> granted_if strict c"

section \<open>Triples\<close>

type_synonym assertion = "mapping list \<Rightarrow> int list \<Rightarrow> bool"

text \<open>
  An exit in between is then one of \<open>now_ns\<close>, not a segmentation fault.
\<close>

definition then_safe :: "bool \<Rightarrow> 'k proc \<Rightarrow> bool \<Rightarrow> 'k proc \<Rightarrow> bool" where
  "then_safe strict s b t \<longleftrightarrow> (\<exists>new. calls t = calls s @ new \<and> (list_all (answered_if strict) new \<longrightarrow> b))"

definition safely :: "bool \<Rightarrow> assertion \<Rightarrow> ('k, 'a) prog \<Rightarrow> ('a \<Rightarrow> assertion) \<Rightarrow> bool" where
  "safely strict P m Q \<longleftrightarrow> logs m \<and>
     (\<forall>s. P (maps s) (fds s) \<longrightarrow> post m (\<lambda>c t. then_safe strict s (c = EXIT_FAILURE) t)
        (\<lambda>a t. then_safe strict s (Q a (maps t) (fds t)) t) s)"

lemma safelyI:
  assumes "logs m" and "\<And>s. P (maps s) (fds s) \<Longrightarrow> post m (\<lambda>c t. then_safe strict s (c = EXIT_FAILURE) t)
        (\<lambda>a t. then_safe strict s (Q a (maps t) (fds t)) t) s"
  shows "safely strict P m Q"
  using assms by (simp add: safely_def)

lemma then_safe_now: "b \<Longrightarrow> calls t = calls s \<Longrightarrow> then_safe strict s b t"
  by (simp add: then_safe_def)

lemma then_safe_trans:
  "then_safe strict s True t \<Longrightarrow> then_safe strict t b u \<Longrightarrow> then_safe strict s b u"
  by (auto simp: then_safe_def)

lemma then_safe_grows:
  assumes "then_safe strict s b t" "\<not> b" "grows t u"
  shows "then_safe strict s c u"
  using assms by (auto simp: then_safe_def grows_def)

lemma safely_logs: "safely strict P m Q \<Longrightarrow> logs m"
  by (simp add: safely_def)

named_theorems safely_intro \<open>rules for safe computations\<close>

lemma safely_seq:
  assumes "safely strict P m R" and "\<And>a. safely strict (R a) (f a) Q"
  shows "safely strict P (seq m f) Q"
proof (rule safelyI)
  show "logs (seq m f)" using assms by (intro logs_intro) (auto simp: safely_def)
  fix s :: "'a proc" assume "P (maps s) (fds s)"
  then have "post m (\<lambda>c t. then_safe strict s (c = EXIT_FAILURE) t) (\<lambda>a t. then_safe strict s (R a (maps t) (fds t)) t) s"
    using assms(1) by (simp add: safely_def)
  then show "post (seq m f) (\<lambda>c t. then_safe strict s (c = EXIT_FAILURE) t)
      (\<lambda>a t. then_safe strict s (Q a (maps t) (fds t)) t) s"
  proof (rule post_seqI)
    fix a t assume t: "then_safe strict s (R a (maps t) (fds t)) t"
    show "post (f a) (\<lambda>c t. then_safe strict s (c = EXIT_FAILURE) t) (\<lambda>a t. then_safe strict s (Q a (maps t) (fds t)) t) t"
    proof (cases "R a (maps t) (fds t)")
      case True
      with t have "then_safe strict s True t" by simp
      with True assms(2) [of a] show ?thesis
        by (auto simp: safely_def intro: then_safe_trans elim!: post_mono)
    next
      case False
      have "post (f a) (\<lambda>c. grows t) (\<lambda>a. grows t) t"
        using safely_logs [OF assms(2) [of a]] by (simp add: logs_def)
      then show ?thesis by (rule post_mono) (rule then_safe_grows [OF t False], assumption)+
    qed
  qed
qed

lemma safely_conseq:
  assumes "safely strict P m Q" and "\<And>ms fs. P' ms fs \<Longrightarrow> P ms fs" and "\<And>a ms fs. Q a ms fs \<Longrightarrow> Q' a ms fs"
  shows "safely strict P' m Q'"
proof (rule safelyI)
  show "logs m" using assms(1) by (rule safely_logs)
  fix s :: "'a proc" assume "P' (maps s) (fds s)"
  then have "post m (\<lambda>c t. then_safe strict s (c = EXIT_FAILURE) t) (\<lambda>a t. then_safe strict s (Q a (maps t) (fds t)) t) s"
    using assms(1,2) by (simp add: safely_def)
  then show "post m (\<lambda>c t. then_safe strict s (c = EXIT_FAILURE) t) (\<lambda>a t. then_safe strict s (Q' a (maps t) (fds t)) t) s"
    by (rule post_mono) (use assms(3) in \<open>auto simp: then_safe_def\<close>)
qed

lemma safely_pre: "safely strict P m Q \<Longrightarrow> (\<And>ms fs. P' ms fs \<Longrightarrow> P ms fs) \<Longrightarrow> safely strict P' m Q"
  by (rule safely_conseq)

lemma safely_post: "safely strict P m Q \<Longrightarrow> (\<And>a ms fs. Q a ms fs \<Longrightarrow> Q' a ms fs) \<Longrightarrow> safely strict P m Q'"
  by (rule safely_conseq)

text \<open>A fact that the state plays no part in.\<close>

lemma safely_fact: "(b \<Longrightarrow> safely strict P m Q) \<Longrightarrow> logs m \<Longrightarrow> safely strict (\<lambda>ms fs. b \<and> P ms fs) m Q"
  by (cases b) (auto simp: safely_def)

lemma safely_give: "(\<And>ms fs. P ms fs \<Longrightarrow> Q a ms fs) \<Longrightarrow> safely strict P (give a) Q"
  by (rule safelyI) (auto simp: post_give intro: logs_intro then_safe_now)

lemma safely_if: "(b \<Longrightarrow> safely strict P m Q) \<Longrightarrow> (\<not> b \<Longrightarrow> safely strict P m' Q) \<Longrightarrow>
    safely strict P (if b then m else m') Q"
  by simp

lemma safely_case_prod: "(\<And>x y. p = (x, y) \<Longrightarrow> safely strict P (f x y) Q) \<Longrightarrow> safely strict P (case p of (x, y) \<Rightarrow> f x y) Q"
  by (cases p) simp

section \<open>Primitive computations\<close>

lemma safely_kernel: "safely strict P (kernel f) (\<lambda>_. P)"
  by (rule safelyI) (auto simp: post_simps split_beta Let_def intro: logs_intro then_safe_now)

lemma safely_count: "safely strict P (count b f) (\<lambda>_. P)"
  by (rule safelyI) (auto simp: post_simps intro!: logs_intro then_safe_now)

lemma safely_read_stop: "safely strict P (read_stop os) (\<lambda>_. P)"
  by (rule safelyI) (auto simp: post_simps intro!: logs_intro then_safe_now)

lemma safely_get_counters: "safely strict P get_counters (\<lambda>_. P)"
  by (rule safelyI) (auto simp: post_simps intro!: logs_intro then_safe_now)

lemma safely_log: "safely strict P (log_call c) (\<lambda>_ ms fs. answered_if strict c \<and> P ms fs)"
  by (rule safelyI) (auto simp: post_simps then_safe_def intro!: logs_intro)

lemma safely_now: "safely strict P (now_ns os) (\<lambda>_. P)"
proof (rule safelyI)
  show "logs (now_ns os)" unfolding now_ns_def by (intro logs_intro)
  show "post (now_ns os) (\<lambda>c t. then_safe strict s (c = EXIT_FAILURE) t) (\<lambda>a t. then_safe strict s (P (maps t) (fds t)) t) s"
    if "P (maps s) (fds s)" for s
    by (rule now_rule) (use that in \<open>auto simp: then_safe_def\<close>)
qed

text \<open>An access to memory that a mapping has the whole of.\<close>

definition room :: "mapping list \<Rightarrow> u64 \<Rightarrow> nat \<Rightarrow> bool" where
  "room ms a n \<longleftrightarrow> (\<exists>m \<in> set ms. covers a n m \<and> unat (map_start m) + unat (map_len m) < 2 ^ 64)"

lemma room_locate: "room ms a n \<Longrightarrow> \<exists>l. locate ms a n = Some l"
  unfolding room_def locate_def by (cases "find (covers a n) ms") (auto simp: find_None_iff)

lemma safely_load:
  assumes "\<And>ms fs. P ms fs \<Longrightarrow> room ms a n"
  shows "safely strict P (load os a n) (\<lambda>_. P)"
  by (rule safelyI) (auto simp: post_simps dest: room_locate [OF assms] intro!: logs_intro then_safe_now split: option.split)

lemma safely_load32:
  assumes "\<And>ms fs. P ms fs \<Longrightarrow> room ms a 4"
  shows "safely strict P (load32 os a) (\<lambda>_. P)" "safely strict P (load_acquire os a) (\<lambda>_. P)"
    "safely strict P (load_relaxed os a) (\<lambda>_. P)"
  unfolding load_acquire_def load_relaxed_def load32_def
  by (rule safely_seq, rule safely_load, erule assms, rule safely_give, assumption)+

lemma safely_load_cqe:
  assumes "\<And>ms fs. P ms fs \<Longrightarrow> room ms a 16"
  shows "safely strict P (load_cqe os a) (\<lambda>_. P)"
  unfolding load_cqe_def by (rule safely_seq, rule safely_load, erule assms, rule safely_give, assumption)

lemma safely_store:
  assumes "\<And>ms fs. P ms fs \<Longrightarrow> room ms a (length bs)"
  shows "safely strict P (store a bs) (\<lambda>_. P)"
  by (rule safelyI) (auto simp: post_simps dest: room_locate [OF assms] intro!: logs_intro then_safe_now split: option.split)

lemma safely_store_release:
  assumes "\<And>ms fs. P ms fs \<Longrightarrow> room ms a 4"
  shows "safely strict P (store_release a v) (\<lambda>_. P)"
  unfolding store_release_def by (rule safely_store) (auto simp: le_bytes_def dest: assms)

lemma safely_memset0:
  assumes "\<And>ms fs. P ms fs \<Longrightarrow> room ms a (unat n)"
  shows "safely strict P (memset0 a n) (\<lambda>_. P)"
  by (rule safelyI) (auto simp: post_simps dest: room_locate [OF assms] intro!: logs_intro then_safe_now split: option.split)

section \<open>System calls\<close>

lemma logs_calls [logs_intro]:
  "logs (mmap os len flags fd off)" "logs (munmap os a len)" "logs (close_fd os fd)" "logs (io_uring_setup os n p)"
  unfolding mmap_def munmap_def close_fd_def io_uring_setup_def
  by (auto intro!: logs_intro)

text \<open>A mapping in place.\<close>

definition sits :: "u64 \<Rightarrow> u64 \<Rightarrow> mapping \<Rightarrow> bool" where
  "sits a len m \<longleftrightarrow> fresh_map a len m \<and> a \<noteq> 0 \<and> unat a + unat len < 2 ^ 64"

lemma safely_mmap:
  "safely strict P (mmap os len flags fd off) (\<lambda>(a, e) ms fs. if a = MAP_FAILED then P ms fs
     else \<exists>m ms'. ms = m # ms' \<and> sits a len m \<and> P ms' fs)"
proof (rule safelyI)
  fix s :: "'a proc" assume "P (maps s) (fds s)"
  then show "post (mmap os len flags fd off) (\<lambda>c t. then_safe strict s (c = EXIT_FAILURE) t)
      (\<lambda>x t. then_safe strict s ((case x of (a, e) \<Rightarrow> \<lambda>ms fs. if a = MAP_FAILED then P ms fs
         else \<exists>m ms'. ms = m # ms' \<and> sits a len m \<and> P ms' fs) (maps t) (fds t)) t) s"
    by (intro mmap_rule) (auto simp: then_safe_def sits_def)
qed (rule logs_calls)

lemma safely_munmap:
  "safely strict P (munmap os a len) (\<lambda>ok ms fs. (ok \<longleftrightarrow> a \<noteq> MAP_FAILED) \<and>
     (if a = MAP_FAILED then P ms fs else \<exists>ms'. ms = drop_mapping a len ms' \<and> P ms' fs))"
proof (rule safelyI)
  fix s :: "'a proc" assume "P (maps s) (fds s)"
  then show "post (munmap os a len) (\<lambda>c t. then_safe strict s (c = EXIT_FAILURE) t)
      (\<lambda>ok t. then_safe strict s ((ok \<longleftrightarrow> a \<noteq> MAP_FAILED) \<and> (if a = MAP_FAILED then P (maps t) (fds t)
         else \<exists>ms'. maps t = drop_mapping a len ms' \<and> P ms' (fds t))) t) s"
    by (intro munmap_rule) (auto simp: then_safe_def)
qed (rule logs_calls)

lemma safely_close_fd:
  "safely strict P (close_fd os fd) (\<lambda>_ ms fs. \<exists>fs'. fs = remove1 fd fs' \<and> P ms fs')"
proof (rule safelyI)
  fix s :: "'a proc" assume "P (maps s) (fds s)"
  then show "post (close_fd os fd) (\<lambda>c t. then_safe strict s (c = EXIT_FAILURE) t)
      (\<lambda>x t. then_safe strict s (\<exists>fs'. fds t = remove1 fd fs' \<and> P (maps t) fs') t) s"
    by (intro close_rule) (auto simp: then_safe_def)
qed (rule logs_calls)

lemma safely_setup:
  "safely strict P (io_uring_setup os n p0) (\<lambda>(fd, p) ms fs. if fd < 0 then P ms fs
     else \<exists>fs'. fs = fd # fs' \<and> answered_if strict (SETUP p fd) \<and> P ms fs')"
proof (rule safelyI)
  fix s :: "'a proc" assume "P (maps s) (fds s)"
  then show "post (io_uring_setup os n p0) (\<lambda>c t. then_safe strict s (c = EXIT_FAILURE) t)
      (\<lambda>x t. then_safe strict s ((case x of (fd, p) \<Rightarrow> \<lambda>ms fs. if fd < 0 then P ms fs
         else \<exists>fs'. fs = fd # fs' \<and> answered_if strict (SETUP p fd) \<and> P ms fs') (maps t) (fds t)) t) s"
    by (intro setup_rule) (auto simp: then_safe_def)
qed (rule logs_calls)

lemma safely_enter: "safely strict P (enter_loop os fd) (\<lambda>_. P)"
proof (rule safelyI)
  fix s :: "'a proc" assume P: "P (maps s) (fds s)"
  have "post (enter_loop os fd) (\<lambda>c t. then_safe strict s (c = EXIT_FAILURE) t)
      (\<lambda>ret t. maps t = maps s \<and> fds t = fds s \<and> grows s t) s"
    by (rule enter_loop_rule) (auto intro: log_grows_trans simp: grows_def)
  then show "post (enter_loop os fd) (\<lambda>c t. then_safe strict s (c = EXIT_FAILURE) t)
      (\<lambda>ret t. then_safe strict s (P (maps t) (fds t)) t) s"
    by (rule post_mono) (use P in \<open>auto simp: then_safe_def grows_def\<close>)
qed (rule logs_enter_loop)

text \<open>
  What a ring of io_uring_memmap_round.c holds while it lives: its descriptor, its two mappings, and
  pointers that stay inside them.
\<close>

section \<open>A ring and what it holds\<close>

definition queues_len :: "region_params \<Rightarrow> nat" where
  "queues_len p = max (unat (sq_bytes p)) (unat (cq_bytes p))"

definition known :: "raw_ring \<Rightarrow> bool" where
  "known ring \<longleftrightarrow> granted (ring_p ring) \<and> offsets_ok (ring_p ring)"

definition usable :: "raw_ring \<Rightarrow> mapping list \<Rightarrow> bool" where
  "usable ring ms \<longleftrightarrow> (ring_mapped ring \<longrightarrow>
     known ring \<and> bind_ring ring = ring \<and> ring_cq_ptr ring = ring_sq_ptr ring \<and>
     room ms (ring_sq_ptr ring) (queues_len (ring_p ring)) \<and> room ms (ring_sqes_ptr ring) 4096)"

definition owns :: "raw_ring \<Rightarrow> mapping list \<Rightarrow> int list \<Rightarrow> assertion" where
  "owns ring ms0 fs0 ms fs \<longleftrightarrow>
     fs = (if 0 \<le> ring_fd ring then ring_fd ring # fs0 else fs0) \<and>
     (ring_fd ring < 0 \<longrightarrow> \<not> unmaps ring) \<and>
     (if unmaps ring
      then \<exists>mb ma. ms = mb # ma # ms0 \<and> sits (ring_sqes_ptr ring) (ring_sqes_sz ring) mb \<and>
             sits (ring_sq_ptr ring) (ring_ring_sz ring) ma
      else ms = ms0)"

definition held :: "raw_ring \<Rightarrow> mapping list \<Rightarrow> int list \<Rightarrow> assertion" where
  "held ring ms0 fs0 ms fs \<longleftrightarrow> owns ring ms0 fs0 ms fs \<and> usable ring ms"

definition just :: "mapping list \<Rightarrow> int list \<Rightarrow> assertion" where
  "just ms0 fs0 ms fs \<longleftrightarrow> ms = ms0 \<and> fs = fs0"

lemma held_nothing: "ring_fd ring < 0 \<Longrightarrow> \<not> ring_mapped ring \<Longrightarrow> held ring ms0 fs0 = just ms0 fs0"
  by (intro ext) (auto simp: held_def owns_def usable_def just_def unmaps_def)

lemma held_reset [simp]: "held raw_ring_reset = just"
  by (intro ext) (simp add: held_nothing)

lemma sits_room: "sits a len m \<Longrightarrow> n \<le> unat len \<Longrightarrow> room (m # ms) a n"
  by (auto simp: sits_def fresh_map_def room_def covers_def)

lemma room_more: "room ms a n \<Longrightarrow> room (m # ms) a n"
  by (auto simp: room_def)

text \<open>An access inside of an area.\<close>

lemma room_inside:
  assumes "room ms a n" and "unat off + k \<le> n"
  shows "room ms (a + off) k"
proof -
  obtain m where m: "m \<in> set ms" "covers a n m" "unat (map_start m) + unat (map_len m) < 2 ^ 64"
    using assms(1) by (auto simp: room_def)
  then have "unat a + unat off < 2 ^ 64" using assms(2) by (simp add: covers_def)
  then have "unat (a + off) = unat a + unat off" by (simp add: unat_word_ariths)
  with m assms(2) show ?thesis unfolding room_def by (intro bexI [of _ m]) (auto simp: covers_def)
qed

section \<open>Triples for pairs\<close>

lemma safely_pair: "(\<And>x y. safely strict (R (x, y)) (f x y) Q) \<Longrightarrow> safely strict (R p) (case p of (x, y) \<Rightarrow> f x y) Q"
  by (cases p) simp

lemma safely_ex:
  assumes "\<And>x. safely strict (P x) m Q" shows "safely strict (\<lambda>ms fs. \<exists>x. P x ms fs) m Q"
proof -
  have "logs m" using assms by (rule safely_logs)
  with assms show ?thesis by (auto simp: safely_def)
qed

lemma safely_given:
  assumes "\<And>ms fs. P ms fs \<Longrightarrow> b" and "b \<Longrightarrow> safely strict P m Q" and "logs m"
  shows "safely strict P m Q"
  using assms by (cases b) (auto simp: safely_def)

lemma logs_ring [logs_intro]:
  "logs (map_standard_ring os ring counted)" "logs (unmap_standard_ring os ring counted)"
  "logs (close_ring os ring counted)"
  unfolding map_standard_ring_def unmap_standard_ring_def close_ring_def Let_def
  by (intro logs_intro)+

section \<open>Mapping and unmapping\<close>

lemma pages_room:
  assumes "pages_ok os" "granted p"
  shows "queues_len p \<le> unat (geo_ring_sz (geometry_from_params os p))"
    "4096 \<le> unat (geo_sqes_sz (geometry_from_params os p))"
  using region_holds_queues [OF assms(1), of p] geometry_sizes(3) [OF assms] assms(2)
  by (simp_all add: granted_def queues_len_def)

lemma bind_bind [simp]: "bind_ring (bind_ring r) = bind_ring r"
  by (simp add: bind_ring_def Let_def)

lemma bind_ring_ptrs [simp]: "ring_cq_ptr (bind_ring r) = ring_cq_ptr r"
  by (simp add: bind_ring_def Let_def)

lemma mapped_ring_usable [simp]:
  "ring_cq_ptr (mapped_ring g a b r) = a" "bind_ring (mapped_ring g a b r) = mapped_ring g a b r"
  "known (mapped_ring g a b r) = known r"
  by (simp_all add: mapped_ring_def known_def)

lemma safely_map:
  assumes pages: "pages_ok os" and ring: "known ring" "0 \<le> ring_fd ring"
  shows "safely strict (held ring ms0 fs0) (map_standard_ring os ring counted)
    (\<lambda>(rc, r) ms fs. known r \<and> ring_fd r = ring_fd ring \<and> held r ms0 fs0 ms fs)"
proof (cases "ring_mapped ring \<or> ring_user_backed ring")
  case True
  then show ?thesis using ring by (auto simp: map_standard_ring_def intro!: safely_give)
next
  case False
  let ?g = "geometry_from_params os (ring_p ring)"
  let ?R = "geo_ring_sz ?g" and ?S = "geo_sqes_sz ?g" and ?fs = "ring_fd ring # fs0"
  have h: "held ring ms0 fs0 = just ms0 ?fs"
    using False ring by (intro ext) (auto simp: held_def owns_def usable_def just_def unmaps_def)
  have room: "queues_len (ring_p ring) \<le> unat ?R" "4096 \<le> unat ?S"
    using pages_room [OF pages] ring(1) by (auto simp: known_def)
  have fin: "held (mapped_ring ?g a b ring) ms0 fs0 (mb # ma # ms0) ?fs"
    if "sits a ?R ma" "sits b ?S mb" for a b ma mb
    using that False ring room sits_room [OF that(2), of 4096] sits_room [OF that(1), of "queues_len (ring_p ring)"]
    by (auto simp: held_def owns_def usable_def unmaps_def known_def intro: room_more)
  show ?thesis
    unfolding map_standard_ring_def Let_def mapped_ring_def [symmetric] h
    apply (rule safely_if, use False in simp)
    apply (rule safely_seq [OF safely_mmap], rule safely_pair, rule safely_if)
     apply (rule safely_give, simp add: ring h)
    apply (rule safely_seq [OF safely_count])
    apply (rule safely_seq [OF safely_mmap], rule safely_pair, rule safely_if)
     apply (rule safely_seq [OF safely_munmap], rule safely_seq [OF safely_count], rule safely_give)
     apply (auto simp: ring h just_def sits_def)[1]
    apply (rule safely_seq [OF safely_count], rule safely_give)
    apply (auto simp: ring just_def intro!: fin) [1]
    done
qed

lemma not_fresh [simp]: "\<not> fresh_map MAP_FAILED len m"
  by (simp add: fresh_map_def)

lemma safely_unmap:
  assumes ring: "0 \<le> ring_fd ring"
  shows "safely strict (held ring ms0 fs0) (unmap_standard_ring os ring counted)
    (\<lambda>(rc, r) ms fs. (known ring \<longrightarrow> known r) \<and> ring_fd r = ring_fd ring \<and>
       (unmaps ring \<longrightarrow> \<not> ring_mapped r) \<and> held r ms0 fs0 ms fs)"
proof (cases "unmaps ring")
  case False
  then show ?thesis using ring by (auto simp: unmap_standard_ring_def unmaps_def intro!: safely_give)
next
  case True
  let ?done = "ring\<lparr>ring_sq_ptr := 0, ring_cq_ptr := 0, ring_sqes_ptr := 0, ring_mapped := False\<rparr>"
  have fin: "known ring \<Longrightarrow> known ?done" "ring_fd ?done = ring_fd ring" "\<not> ring_mapped ?done"
      "held ?done ms0 fs0 = just ms0 (ring_fd ring # fs0)"
    using ring by (auto simp: known_def held_def owns_def usable_def just_def unmaps_def intro!: ext)
  have "safely strict (held ring ms0 fs0) (unmap_standard_ring os ring counted)
    (\<lambda>(rc, r) ms fs. r = ?done \<and> just ms0 (ring_fd ring # fs0) ms fs)"
    unfolding unmap_standard_ring_def
    apply (rule safely_if, use True in \<open>simp add: unmaps_def\<close>)
    apply (rule safely_seq [OF safely_munmap], rule safely_seq [OF safely_count])
    apply (rule safely_seq [OF safely_munmap], rule safely_seq [OF safely_count], rule safely_give)
    using True ring
    apply (auto simp: held_def owns_def just_def sits_def split: if_splits)
    done
  then show ?thesis by (rule safely_post) (use fin in auto)
qed

section \<open>Creation and release\<close>

definition born :: "raw_ring \<Rightarrow> mapping list \<Rightarrow> int list \<Rightarrow> int \<Rightarrow> assertion" where
  "born r ms0 fs0 rc ms fs \<longleftrightarrow> held r ms0 fs0 ms fs \<and> (rc = 0 \<longrightarrow> known r \<and> 0 \<le> ring_fd r)"

lemma held_plain:
  "\<not> ring_mapped r \<Longrightarrow> held r ms0 fs0 = just ms0 (if 0 \<le> ring_fd r then ring_fd r # fs0 else fs0)"
  by (intro ext) (auto simp: held_def owns_def usable_def just_def unmaps_def)

lemma safely_setup_ring:
  assumes pages: "pages_ok os"
  shows "safely strict (just ms0 fs0) (setup_standard_ring os map_it counted)
    (\<lambda>(rc, r) ms fs. born r ms0 fs0 rc ms fs \<and>
       (\<not> map_it \<longrightarrow> \<not> ring_mapped r \<and> (rc \<noteq> 0 \<longrightarrow> strict \<longrightarrow> ring_fd r < 0)))"
proof -
  let ?sized = "\<lambda>fd p. sized_ring (geometry_from_params os p) fd p"
  have mapped: "safely strict (held (?sized fd p) ms0 fs0)
      (seq (map_standard_ring os (?sized fd p) counted) (\<lambda>(rc, ring2). give (if rc \<noteq> 0 then -1 else 0, ring2)))
      (\<lambda>(rc, r) ms fs. born r ms0 fs0 rc ms fs)"
    if "0 \<le> fd" "granted p" "offsets_ok p" for fd p
    by (rule safely_seq [OF safely_map [OF pages]])
       (use that in \<open>auto simp: known_def born_def intro!: safely_pair safely_give\<close>)
  have "safely strict (just ms0 fs0)
      (seq (io_uring_setup os RING_ENTRIES (zero_region_params\<lparr>p_flags := IORING_SETUP_CQSIZE, p_cq_entries := CQ_ENTRIES\<rparr>)) (\<lambda>(fd, p).
      if fd < 0 then give (-1, raw_ring_reset\<lparr>ring_fd := fd, ring_p := p\<rparr>)
      else seq (count counted inc_setup) (\<lambda>_.
        if \<not> geometry_valid p (geometry_from_params os p) then give (-1, raw_ring_reset\<lparr>ring_fd := fd, ring_p := p\<rparr>)
        else if map_it
          then seq (map_standard_ring os (?sized fd p) counted) (\<lambda>(rc, ring2). give (if rc \<noteq> 0 then -1 else 0, ring2))
          else give (0, ?sized fd p))))
    (\<lambda>(rc, r) ms fs. born r ms0 fs0 rc ms fs \<and>
       (\<not> map_it \<longrightarrow> \<not> ring_mapped r \<and> (rc \<noteq> 0 \<longrightarrow> strict \<longrightarrow> ring_fd r < 0)))"
    apply (rule safely_seq [OF safely_setup], rule safely_pair, rule safely_if)
     apply (rule safely_give, simp add: born_def held_plain)
    apply (rule safely_seq [OF safely_count])
    apply (rule safely_if)
     apply (rule safely_give)
     apply (auto simp: born_def held_plain just_def geometry_valid_iff [OF pages])[1]
    apply (rule safely_given [where b = "offsets_ok p" for p])
      apply (auto)[1]
     apply (rule safely_if)
      apply (rule safely_conseq, rule mapped)
          apply (auto simp: geometry_valid_iff [OF pages] held_plain just_def)[5]
     apply (rule safely_give)
     apply (auto simp: born_def held_plain just_def known_def geometry_valid_iff [OF pages])[1]
    apply (intro logs_intro)
    done
  then show ?thesis
    by (simp add: setup_standard_ring_def sized_ring_def Let_def cong: if_cong)
qed

lemma room_le: "room ms a n \<Longrightarrow> k \<le> n \<Longrightarrow> room ms a k"
  using room_inside [of ms a n 0 k] by simp

lemma safely_setup_user:
  assumes pages: "pages_ok os" and room: "room ms0 a (unat la)" "room ms0 b (unat lb)"
  shows "safely strict (just ms0 fs0) (setup_user_ring os a la b lb counted)
    (\<lambda>(rc, r) ms fs. born r ms0 fs0 rc ms fs)"
proof -
  have user: "born (user_ring_of (geometry_from_params os p) fd p a la b lb) ms0 fs0 0 ms0 (fd # fs0)"
    if "valid_user os la lb p" "offsets_ok p" "0 \<le> fd" for p fd
  proof -
    let ?g = "geometry_from_params os p" and ?r = "user_ring_of (geometry_from_params os p) fd p a la b lb"
    have g: "granted p" "unat (geo_ring_sz ?g) \<le> unat la" "unat (geo_sqes_sz ?g) \<le> unat lb"
      using that(1) by (auto simp: valid_user_def valid_params_def geometry_valid_iff [OF pages] word_le_nat_alt not_less)
    have "room ms0 a (queues_len p)" "room ms0 b 4096"
      using pages_room [OF pages g(1)] g by (auto intro: room_le [OF room(1)] room_le [OF room(2)])
    moreover have "bind_ring ?r = ?r" "ring_cq_ptr ?r = a" "ring_sq_ptr ?r = a" "ring_sqes_ptr ?r = b"
      by (simp_all add: user_ring_of_def)
    ultimately show ?thesis
      using g(1) that by (auto simp: born_def held_def owns_def usable_def known_def unmaps_def)
  qed
  show ?thesis
    unfolding setup_user_ring_def Let_def
    apply (rule safely_seq [OF safely_setup], rule safely_pair, rule safely_if)
     apply (rule safely_give, simp add: born_def held_plain)
    apply (rule safely_seq [OF safely_count])
    apply (rule safely_if)
     apply (rule safely_give)
     apply (auto simp: born_def held_plain just_def)[1]
    apply (rule safely_seq [OF safely_count], rule safely_give)
    apply (auto simp: just_def valid_user_def valid_params_def intro!: user [unfolded user_ring_of_def])
    done
qed

lemma safely_close:
  "safely strict (held ring ms0 fs0) (close_ring os ring counted)
    (\<lambda>(rc, r) ms fs. ring_fd r = -1 \<and> \<not> ring_mapped r \<and> just ms0 fs0 ms fs)"
proof -
  let ?R = "\<lambda>r ms fs. ring_fd r = ring_fd ring \<and> \<not> unmaps r \<and> held r ms0 fs0 ms fs"
  have first: "safely strict (held ring ms0 fs0)
     (if ring_mapped ring \<and> \<not> ring_user_backed ring
      then seq (unmap_standard_ring os ring counted) (\<lambda>(rc, ring1). give (if rc \<noteq> 0 then -1 else 0 :: int, ring1))
      else give (0, ring)) (\<lambda>(rc, r) ms fs. ?R r ms fs)"
  proof (cases "unmaps ring")
    case True
    have "safely strict (held ring ms0 fs0)
      (seq (unmap_standard_ring os ring counted) (\<lambda>(rc, ring1). give (if rc \<noteq> 0 then -1 else 0 :: int, ring1)))
      (\<lambda>(rc, r) ms fs. ?R r ms fs)"
    proof (rule safely_given [where b = "0 \<le> ring_fd ring"])
      show "0 \<le> ring_fd ring" if "held ring ms0 fs0 ms fs" for ms fs
        using that True by (auto simp: held_def owns_def)
      show "safely strict (held ring ms0 fs0)
        (seq (unmap_standard_ring os ring counted) (\<lambda>(rc, ring1). give (if rc \<noteq> 0 then -1 else 0 :: int, ring1)))
        (\<lambda>(rc, r) ms fs. ?R r ms fs)" if "0 \<le> ring_fd ring"
        by (rule safely_seq [OF safely_unmap [OF that]], rule safely_pair, rule safely_give)
           (use True in \<open>auto simp: unmaps_def\<close>)
    qed (intro logs_intro)
    with True show ?thesis by (simp add: unmaps_def)
  qed (auto simp: unmaps_def intro!: safely_give)
  have last: "safely strict (?R r) (if 0 \<le> ring_fd r
          then seq (close_fd os (ring_fd r)) (\<lambda>ok.
               seq (count (ok \<and> counted) inc_close) (\<lambda>_.
               give (if \<not> ok then -1 else ret)))
          else give ret) (\<lambda>_. just ms0 fs0)" for r :: raw_ring and ret :: int
    apply (rule safely_if)
     apply (rule safely_seq [OF safely_close_fd], rule safely_seq [OF safely_count], rule safely_give)
     apply (auto simp: held_def owns_def just_def)[1]
    apply (rule safely_give)
    apply (auto simp: held_def owns_def just_def)[1]
    done
  show ?thesis
    unfolding close_ring_def
    by (rule safely_seq [OF first], rule safely_pair, simp only: prod.case, rule safely_seq [OF last], rule safely_give) simp
qed

section \<open>Using a ring\<close>

text \<open>The areas that the program reads and writes are inside of what the ring holds.\<close>

lemma held_rooms:
  assumes "held ring ms0 fs0 ms fs" and "ring_mapped ring"
  shows "room ms (ring_sq_head ring) 4" "room ms (ring_sq_tail ring) 4" "room ms (ring_sq_mask ring) 4"
    "room ms (ring_sq_entries ring) 4" "room ms (ring_sq_dropped ring) 4"
    "room ms (ring_cq_head ring) 4" "room ms (ring_cq_tail ring) 4" "room ms (ring_cq_mask ring) 4"
    "room ms (ring_cq_entries ring) 4" "room ms (ring_cq_overflow ring) 4"
    "unat i < 64 \<Longrightarrow> room ms (ring_sq_array ring + 4 * ucast (i :: u32)) 4"
    "unat j < 128 \<Longrightarrow> room ms (ring_cqes ring + 16 * ucast (j :: u32)) 16"
    "unat i < 64 \<Longrightarrow> room ms (ring_sqes ring + 64 * ucast i) 64"
proof -
  let ?p = "ring_p ring"
  have u: "granted ?p" "offsets_ok ?p" "bind_ring ring = ring" "ring_cq_ptr ring = ring_sq_ptr ring"
      "room ms (ring_sq_ptr ring) (queues_len ?p)" "room ms (ring_sqes_ptr ring) 4096"
    using assms by (auto simp: held_def usable_def known_def)
  note ptr = u(3) [symmetric]
  have at: "ring_sq_head ring = ring_sq_ptr ring + ucast (p_sq_off_head ?p)"
    "ring_sq_tail ring = ring_sq_ptr ring + ucast (p_sq_off_tail ?p)"
    "ring_sq_mask ring = ring_sq_ptr ring + ucast (p_sq_off_ring_mask ?p)"
    "ring_sq_entries ring = ring_sq_ptr ring + ucast (p_sq_off_ring_entries ?p)"
    "ring_sq_dropped ring = ring_sq_ptr ring + ucast (p_sq_off_dropped ?p)"
    "ring_cq_head ring = ring_sq_ptr ring + ucast (p_cq_off_head ?p)"
    "ring_cq_tail ring = ring_sq_ptr ring + ucast (p_cq_off_tail ?p)"
    "ring_cq_mask ring = ring_sq_ptr ring + ucast (p_cq_off_ring_mask ?p)"
    "ring_cq_entries ring = ring_sq_ptr ring + ucast (p_cq_off_ring_entries ?p)"
    "ring_cq_overflow ring = ring_sq_ptr ring + ucast (p_cq_off_overflow ?p)"
    "ring_sq_array ring = ring_sq_ptr ring + ucast (p_sq_off_array ?p)"
    "ring_cqes ring = ring_sq_ptr ring + ucast (p_cq_off_cqes ?p)"
    "ring_sqes ring = ring_sqes_ptr ring"
    using arg_cong [OF ptr, of ring_sq_head] arg_cong [OF ptr, of ring_sq_tail] arg_cong [OF ptr, of ring_sq_mask] arg_cong [OF ptr, of ring_sq_entries] arg_cong [OF ptr, of ring_sq_dropped] arg_cong [OF ptr, of ring_cq_head] arg_cong [OF ptr, of ring_cq_tail] arg_cong [OF ptr, of ring_cq_mask] arg_cong [OF ptr, of ring_cq_entries] arg_cong [OF ptr, of ring_cq_overflow] arg_cong [OF ptr, of ring_sq_array] arg_cong [OF ptr, of ring_cqes] arg_cong [OF ptr, of ring_sqes]
    by (simp_all add: bind_ring_def Let_def u(4))
  have off: "room ms (ring_sq_ptr ring + ucast off) 4"
    if "off \<in> {p_sq_off_head ?p, p_sq_off_tail ?p, p_sq_off_ring_mask ?p, p_sq_off_ring_entries ?p,
        p_sq_off_dropped ?p, p_cq_off_head ?p, p_cq_off_tail ?p, p_cq_off_ring_mask ?p,
        p_cq_off_ring_entries ?p, p_cq_off_overflow ?p}" for off :: u32
    using u(2) that by (intro room_inside [OF u(5)]) (auto simp: offsets_ok_def queues_len_def)
  show "room ms (ring_sq_head ring) 4" "room ms (ring_sq_tail ring) 4" "room ms (ring_sq_mask ring) 4"
    "room ms (ring_sq_entries ring) 4" "room ms (ring_sq_dropped ring) 4"
    "room ms (ring_cq_head ring) 4" "room ms (ring_cq_tail ring) 4" "room ms (ring_cq_mask ring) 4"
    "room ms (ring_cq_entries ring) 4" "room ms (ring_cq_overflow ring) 4"
    unfolding at by (rule off, simp)+
  have e: "unat (p_sq_entries ?p) = 64" "unat (p_cq_entries ?p) = 128"
    using u(1) by (simp_all add: granted_def RING_ENTRIES_def CQ_ENTRIES_def)
  have small: "unat (k * ucast w :: u64) = unat k * unat w" if "unat k \<le> 64" for k :: u64 and w :: u32
  proof -
    have "unat k * unat w \<le> 64 * unat w" using that by (rule mult_le_mono1)
    also have "\<dots> < 2 ^ 64" using unat_lt32 [of w] by simp
    finally show ?thesis by (simp add: unat_word_ariths)
  qed
  show "room ms (ring_sq_array ring + 4 * ucast i) 4" if "unat i < 64"
  proof -
    have "unat (ucast (p_sq_off_array ?p) + 4 * ucast i :: u64) = unat (p_sq_off_array ?p) + 4 * unat i"
      using small [of 4 i] unat_lt32 [of "p_sq_off_array ?p"] that by (simp add: unat_word_ariths)
    then have "room ms (ring_sq_ptr ring + (ucast (p_sq_off_array ?p) + 4 * ucast i)) 4"
      using that e by (intro room_inside [OF u(5)]) (auto simp: queues_len_def queue_bytes)
    then show ?thesis by (simp add: at add.assoc)
  qed
  show "room ms (ring_cqes ring + 16 * ucast j) 16" if "unat j < 128"
  proof -
    have "unat (ucast (p_cq_off_cqes ?p) + 16 * ucast j :: u64) = unat (p_cq_off_cqes ?p) + 16 * unat j"
      using small [of 16 j] unat_lt32 [of "p_cq_off_cqes ?p"] that by (simp add: unat_word_ariths)
    then have "room ms (ring_sq_ptr ring + (ucast (p_cq_off_cqes ?p) + 16 * ucast j)) 16"
      using that e by (intro room_inside [OF u(5)]) (auto simp: queues_len_def queue_bytes)
    then show ?thesis by (simp add: at add.assoc)
  qed
  show "room ms (ring_sqes ring + 64 * ucast i) 64" if "unat i < 64"
  proof -
    have "room ms (ring_sqes_ptr ring + 64 * ucast i) 64"
      using small [of 64 i] that by (intro room_inside [OF u(6)]) simp
    then show ?thesis by (simp add: at)
  qed
qed

lemma and_less: "unat msk < n \<Longrightarrow> unat (x AND msk :: u32) < n"
  by (rule le_less_trans [OF word_and_le1 [THEN word_le_nat_alt [THEN iffD1]]])

lemma safely_nop_sqe:
  assumes "\<And>ms fs. P ms fs \<Longrightarrow> room ms a 64"
  shows "safely strict P (nop_sqe a tag) (\<lambda>_. P)"
proof -
  have r: "room ms a 64" "room ms a (Suc 0)" "room ms (a + 32) 8" if "P ms fs" for ms fs
    using assms [OF that] room_le [OF assms [OF that], of 1] room_inside [OF assms [OF that], of 32 8] by simp_all
  show ?thesis
    unfolding nop_sqe_def
    by (rule safely_seq [OF safely_memset0], simp add: r(1), rule safely_seq [OF safely_store], simp add: r(2),
        rule safely_store, simp add: r(3) le_bytes_def)
qed

lemma safely_take_cqe:
  assumes "ring_mapped ring"
  shows "safely strict (held ring ms0 fs0) (take_cqe os ring) (\<lambda>_. held ring ms0 fs0)"
proof -
  note r = held_rooms [OF _ assms]
  have rest: "safely strict (\<lambda>ms fs. answered_if strict (CQ_MASK (ring_fd ring) msk) \<and> held ring ms0 fs0 ms fs)
     (seq (load_cqe os (ring_cqes ring + 16 * ucast (cq_head AND msk))) (\<lambda>cqe.
      seq (log_call (CQE (ring_fd ring) cqe)) (\<lambda>_.
      seq (store_release (ring_cq_head ring) (cq_head + 1)) (\<lambda>_. give cqe)))) (\<lambda>_. held ring ms0 fs0)" for msk cq_head :: u32
    by (rule safely_seq [OF safely_load_cqe], erule conjE, rule r(12), assumption, rule and_less, simp,
        rule safely_seq [OF safely_log], rule safely_seq [OF safely_store_release], rule r(6), elim conjE, assumption,
        rule safely_give, simp)
  show ?thesis
    unfolding take_cqe_def
    by (rule safely_seq [OF safely_load32(3)], erule r(6), rule safely_seq [OF safely_load32(1)], erule r(8),
        rule safely_seq [OF safely_log], rule rest)
qed

lemma safely_submit_nop:
  "safely strict (held ring ms0 fs0) (submit_nop os ring tag counted) (\<lambda>_. held ring ms0 fs0)"
proof (cases "ring_mapped ring")
  case True
  note r = held_rooms [OF _ True]
  have rest: "safely strict (\<lambda>ms fs. answered_if strict (SQ_MASK (ring_fd ring) msk) \<and> held ring ms0 fs0 ms fs)
     (let index = tail AND msk in
          seq (nop_sqe (ring_sqes ring + 64 * ucast index) tag) (\<lambda>_.
          seq (store (ring_sq_array ring + 4 * ucast index) (le_bytes 4 (unat index))) (\<lambda>_.
          seq (store_release (ring_sq_tail ring) (tail + 1)) (\<lambda>_.
          seq (enter_loop os (ring_fd ring)) (\<lambda>ret.
          if ret \<noteq> 1 then give (-1)
          else
            seq (load_acquire os (ring_cq_tail ring)) (\<lambda>cq_tail.
            seq (load_relaxed os (ring_cq_head ring)) (\<lambda>cq_head.
            if cq_tail = cq_head then give (-1)
            else
              seq (take_cqe os ring) (\<lambda>cqe.
              seq (count counted inc_nop) (\<lambda>_.
              if cqe_user_data cqe \<noteq> tag \<or> cqe_res cqe \<noteq> 0 \<or> cqe_flags cqe \<noteq> 0
              then give (-1) else give 0))))))))) (\<lambda>_. held ring ms0 fs0)" (is "safely strict ?P _ _") for msk tail :: u32
  proof -
    have i: "unat (tail AND msk) < 64" if "?P ms fs" for ms fs using that by (intro and_less) simp
    show ?thesis
      unfolding Let_def
      apply (rule safely_seq [OF safely_nop_sqe], rule r(13), elim conjE, assumption, erule i)
      apply (rule safely_seq [OF safely_store], simp only: le_bytes_def length_map length_upt minus_nat.diff_0, rule r(11), elim conjE, assumption, erule i)
      apply (rule safely_seq [OF safely_store_release], rule r(2), elim conjE, assumption)
      apply (rule safely_seq [OF safely_enter], rule safely_if, rule safely_give, simp)
      apply (rule safely_seq [OF safely_load32(2)], rule r(7), elim conjE, assumption)
      apply (rule safely_seq [OF safely_load32(3)], rule r(6), elim conjE, assumption)
      apply (rule safely_if, rule safely_give, simp)
      apply (rule safely_pre [where P = "held ring ms0 fs0"])
       apply (rule safely_seq [OF safely_take_cqe [OF True]], rule safely_seq [OF safely_count])
       apply (rule safely_if; rule safely_give; simp)
      apply simp
      done
  qed
  show ?thesis
    unfolding submit_nop_def
    apply (rule safely_if, rule safely_give, assumption)
    apply (rule safely_seq [OF safely_load32(2)], erule r(1))
    apply (rule safely_seq [OF safely_load32(3)], erule r(2))
    apply (rule safely_seq [OF safely_load32(1)], erule r(4))
    apply (rule safely_if, rule safely_give, assumption)
    apply (rule safely_seq [OF safely_load32(1)], erule r(3))
    apply (rule safely_seq [OF safely_log], rule rest)
    done
qed (auto simp: submit_nop_def intro!: safely_give)

lemma safely_outstanding:
  "safely strict (held ring ms0 fs0) (ring_outstanding os ring) (\<lambda>_. held ring ms0 fs0)"
proof (cases "ring_mapped ring")
  case True
  note r = held_rooms [OF _ True]
  show ?thesis
    unfolding ring_outstanding_def
    by (rule safely_if, rule safely_give, assumption, rule safely_seq [OF safely_load32(2)], erule r(2),
        rule safely_seq [OF safely_load32(2)], erule r(1), rule safely_seq [OF safely_load32(2)], erule r(7),
        rule safely_seq [OF safely_load32(3)], erule r(6), rule safely_give, assumption)
qed (auto simp: ring_outstanding_def intro!: safely_give)

lemma safely_health:
  "safely strict (held ring ms0 fs0) (copy_ring_health os ring) (\<lambda>_. held ring ms0 fs0)"
proof (cases "ring_mapped ring")
  case True
  note r = held_rooms [OF _ True]
  show ?thesis
    unfolding copy_ring_health_def
    by (rule safely_if, rule safely_give, assumption, rule safely_seq [OF safely_load32(3)], erule r(5),
        rule safely_seq [OF safely_count], rule safely_seq [OF safely_load32(3)], erule r(10),
        rule safely_seq [OF safely_count], rule safely_seq [OF safely_outstanding], rule safely_count)
qed (auto simp: copy_ring_health_def intro!: safely_give)

end
