(* ===== verification/Region_Released.thy ===== *)
theory Region_Released
  imports Region_Held
begin

text \<open>
  The rounds of io_uring_memmap_round.c are memory safe and give back what they have acquired, on every
  path out of them.
\<close>

section \<open>Rules\<close>

lemma safely_keep: "safely strict P m Q \<Longrightarrow> safely strict (\<lambda>ms fs. b \<and> P ms fs) m (\<lambda>a ms fs. b \<and> Q a ms fs)"
  by (cases b) (auto simp: safely_def)

lemma safely_run_events:
  assumes "\<And>i a. i \<in> set is \<Longrightarrow> safely strict (P a) (f i a) (\<lambda>(e, b). case e of None \<Rightarrow> P b | Some e \<Rightarrow> L e b)"
  shows "safely strict (P a) (run_events os f is a)
    (\<lambda>(r, b). case r of LEFT e \<Rightarrow> L e b | _ \<Rightarrow> P b)"
  using assms
proof (induction "is" arbitrary: a)
  case (Cons i "is")
  have rest: "safely strict (case e of None \<Rightarrow> P b | Some e \<Rightarrow> L e b)
     (case e of Some e \<Rightarrow> give (LEFT e, b) | None \<Rightarrow> run_events os f is b)
     (\<lambda>(r, b). case r of LEFT e \<Rightarrow> L e b | _ \<Rightarrow> P b)" for e b
    using Cons by (cases e) (auto intro!: safely_give)
  show ?case
    unfolding run_events.simps
    by (rule safely_seq [OF safely_read_stop], rule safely_if, rule safely_give, simp,
        rule safely_seq [OF Cons.prems], simp, rule safely_pair, simp only: prod.case, rule rest)
qed (auto intro: safely_give)

lemma safely_ring_ok:
  assumes "safely strict P m (\<lambda>(rc, r). R rc r)" and "\<And>r. safely strict (R 0 r) (k r) Q"
    and "\<And>rc r ms fs. rc \<noteq> 0 \<Longrightarrow> R rc r ms fs \<Longrightarrow> Q (Some e, r) ms fs"
  shows "safely strict P (ring_ok m k e) Q"
  unfolding ring_ok_def
  by (rule safely_seq [OF assms(1)], rule safely_pair, simp only: prod.case, rule safely_if, rule safely_give,
      erule (1) assms(3)) (use assms(2) in simp)

lemma safely_loop_end:
  assumes "\<And>e. r = LEFT e \<Longrightarrow> safely strict (P r) (h e) Q" and "r = STOPPED \<Longrightarrow> safely strict (P r) m Q"
    and "r = ALL_DONE \<Longrightarrow> safely strict (P r) m' Q"
  shows "safely strict (P r) (case r of ALL_DONE \<Rightarrow> m' | STOPPED \<Rightarrow> m | LEFT e \<Rightarrow> h e) Q"
  using assms by (cases r) auto

lemma seq_give: "seq (give a) f = f a"
  by (rule ext) (simp add: seq_def give_def)

lemma logs_primitives [logs_intro]:
  "logs (load32 os a)" "logs (load_acquire os a)" "logs (load_relaxed os a)" "logs (store_release a v)"
  "logs (load_cqe os a)" "logs (now_ns os)"
  unfolding load_acquire_def load_relaxed_def load32_def store_release_def load_cqe_def now_ns_def
  by (intro logs_intro)+

lemma logs_setups [logs_intro]:
  "logs (setup_standard_ring os map_it counted)" "logs (setup_user_ring os a la b lb counted)"
  unfolding setup_standard_ring_def setup_user_ring_def Let_def by (intro logs_intro)+

lemma logs_use [logs_intro]:
  "logs (nop_sqe a tag)" "logs (take_cqe os ring)" "logs (submit_nop os ring tag counted)"
  "logs (ring_outstanding os ring)" "logs (copy_ring_health os ring)"
proof -
  show a: "logs (nop_sqe a tag)" for a unfolding nop_sqe_def by (intro logs_intro)
  show b: "logs (take_cqe os ring)" unfolding take_cqe_def by (intro logs_intro)
  show "logs (submit_nop os ring tag counted)" unfolding submit_nop_def Let_def by (intro a b logs_intro)
  show c: "logs (ring_outstanding os ring)" unfolding ring_outstanding_def by (intro logs_intro)
  show "logs (copy_ring_health os ring)" unfolding copy_ring_health_def by (intro c logs_intro)
qed

lemma logs_e0 [logs_intro]:
  "logs (e0_out os g a b ret)" "logs (e0_out_standard os g st a b ret)" "logs (e0_out_user os g us st a b ret)"
  "logs (mmap_refused os g fd off)" "logs (allocate_user_regions os g)"
  unfolding e0_out_user_def e0_out_standard_def e0_out_def mmap_refused_def allocate_user_regions_def
  by (intro logs_intro)+

lemma logs_events [logs_intro]:
  "logs (use_and_close os ring tag start)" "logs (n0_event os g a b i r)" "logs (n0_out os n a la b lb ret)"
proof -
  show u: "logs (use_and_close os ring tag start)" for ring tag start
    unfolding use_and_close_def ring_ok_def by (intro logs_intro)
  show "logs (n0_event os g a b i r)" unfolding n0_event_def ring_ok_def Let_def by (intro u logs_intro)
  show "logs (n0_out os n a la b lb ret)" unfolding n0_out_def by (intro logs_intro)
qed

section \<open>R0\<close>

definition own :: "mapping list \<Rightarrow> int list \<Rightarrow> raw_ring \<Rightarrow> assertion" where
  "own ms0 fs0 r ms fs \<longleftrightarrow> (known r \<and> 0 \<le> ring_fd r) \<and> held r ms0 fs0 ms fs"

lemma safely_own:
  assumes "known r \<Longrightarrow> 0 \<le> ring_fd r \<Longrightarrow> safely strict (held r ms0 fs0) m Q" and "logs m"
  shows "safely strict (own ms0 fs0 r) m Q"
  unfolding own_def [abs_def] by (rule safely_fact) (use assms in auto)

lemma own_map:
  assumes "pages_ok os"
  shows "safely strict (own ms0 fs0 ring) (map_standard_ring os ring counted) (\<lambda>(rc, r). own ms0 fs0 r)"
  by (rule safely_own [OF safely_post [OF safely_map [OF assms]]]) (auto simp: own_def intro: logs_ring)

lemma own_unmap: "safely strict (own ms0 fs0 ring) (unmap_standard_ring os ring counted) (\<lambda>(rc, r). own ms0 fs0 r)"
proof (rule safely_own)
  assume "known ring" "0 \<le> ring_fd ring"
  then show "safely strict (held ring ms0 fs0) (unmap_standard_ring os ring counted) (\<lambda>(rc, r). own ms0 fs0 r)"
    by (intro safely_post [OF safely_unmap]) (auto simp: own_def)
qed (rule logs_ring)

lemma own_probe: "safely strict (own ms0 fs0 ring) (r0_probe os ring tag) (\<lambda>_. own ms0 fs0 ring)"
  unfolding r0_probe_def own_def [abs_def]
  by (rule safely_seq [OF safely_keep [OF safely_submit_nop]], rule safely_if, rule safely_give, assumption,
      rule safely_seq [OF safely_keep [OF safely_health]], rule safely_seq [OF safely_get_counters], rule safely_give, assumption)

lemma own_r0_event:
  assumes "pages_ok os"
  shows "safely strict (own ms0 fs0 ring) (r0_event os i ring) (\<lambda>(e, b). case e of None \<Rightarrow> own ms0 fs0 b | Some e \<Rightarrow> own ms0 fs0 b)"
  unfolding r0_event_def
  by (rule safely_ring_ok [OF own_map [OF assms]], rule safely_ring_ok [OF own_unmap],
      rule safely_seq [OF safely_count], rule safely_give, simp_all)

lemma own_r0_timed:
  assumes "pages_ok os"
  shows "safely strict (own ms0 fs0 ring) (r0_timed os n ring) (\<lambda>(rc, r). own ms0 fs0 r)"
proof -
  have finish: "safely strict (own ms0 fs0 r) (r0_finish os r) (\<lambda>(rc, r). own ms0 fs0 r)" for r
    unfolding r0_finish_def
    by (rule safely_seq [OF own_map [OF assms]], rule safely_pair, simp only: prod.case, rule safely_if,
        rule safely_give, simp, rule safely_seq [OF own_probe], rule safely_give, simp)
  have rest: "safely strict (own ms0 fs0 r)
      (seq (now_ns os) (\<lambda>end_ns. seq (count True (\<lambda>c. c\<lparr>timed_ns := timed_ns c + (end_ns - start)\<rparr>)) (\<lambda>_.
       if b then give (-1, r) else r0_finish os r))) (\<lambda>(rc, r). own ms0 fs0 r)" for r start b
    by (rule safely_seq [OF safely_now], rule safely_seq [OF safely_count], rule safely_if, rule safely_give, simp, rule finish)
  show ?thesis
    unfolding r0_timed_def
    apply (rule safely_seq [OF safely_now])
    apply (rule safely_seq [OF safely_run_events [where P = "own ms0 fs0" and L = "\<lambda>_. own ms0 fs0"]])
     apply (rule own_r0_event [OF assms])
    apply (rule safely_pair, simp only: prod.case)
    subgoal for start x res r
      by (cases res) (auto intro!: safely_give rest [where b = True, simplified] rest [where b = False, simplified])
    done
qed

lemma r0_released:
  assumes "pages_ok os"
  shows "safely strict (just ms0 fs0) (run_r0 os n) (\<lambda>_. just ms0 fs0)"
proof -
  have weak: "own ms0 fs0 r ms fs \<Longrightarrow> held r ms0 fs0 ms fs" for r ms fs by (simp add: own_def)
  have body: "safely strict (just ms0 fs0) (r0_body os n) (\<lambda>(rc, r). held r ms0 fs0)"
    unfolding r0_body_def
    apply (rule safely_seq [OF safely_setup_ring [OF assms]], rule safely_pair, simp only: prod.case, rule safely_if)
     apply (rule safely_give, simp add: born_def)
    subgoal for x rc ring
      apply (rule safely_pre [where P = "own ms0 fs0 ring"])
       apply (rule safely_seq [OF own_probe], rule safely_if, rule safely_give, simp add: weak)
       apply (rule safely_seq [OF own_unmap], rule safely_pair, simp only: prod.case, rule safely_if, rule safely_give, simp add: weak)
       apply (rule safely_post [OF own_r0_timed [OF assms]], auto simp: weak born_def own_def)
      done
    done
  show ?thesis
    unfolding run_r0_def
    apply (rule safely_seq [OF body], rule safely_pair, simp only: prod.case, rule safely_seq [OF safely_count])
    subgoal for x ret ring
      apply (rule safely_seq [where R = "\<lambda>_. just ms0 fs0"])
       apply (rule safely_if)
        apply (rule safely_seq [OF safely_close], rule safely_pair, simp only: prod.case)
        apply (rule safely_post [OF safely_count], simp)
       apply (rule safely_give, auto simp: held_def owns_def just_def)[1]
      apply (rule safely_seq [OF safely_count], rule safely_give, assumption)
      done
    done
qed

section \<open>L0\<close>

text \<open>What is left at the ways out of an event: at \<open>fail_close\<close> the ring is still held.\<close>

definition left :: "mapping list \<Rightarrow> int list \<Rightarrow> label \<Rightarrow> raw_ring \<Rightarrow> assertion" where
  "left ms0 fs0 l r = (case l of FAIL \<Rightarrow> just ms0 fs0 | FAIL_CLOSE \<Rightarrow> held r ms0 fs0)"

definition event_end :: "mapping list \<Rightarrow> int list \<Rightarrow> label option \<times> raw_ring \<Rightarrow> assertion" where
  "event_end ms0 fs0 = (\<lambda>(e, r). case e of None \<Rightarrow> just ms0 fs0 | Some l \<Rightarrow> left ms0 fs0 l r)"

lemma event_end_simps [simp]:
  "event_end ms0 fs0 (None, r) = just ms0 fs0" "event_end ms0 fs0 (Some FAIL, r) = just ms0 fs0"
  "event_end ms0 fs0 (Some FAIL_CLOSE, r) = held r ms0 fs0"
  by (simp_all add: event_end_def left_def)

lemma released_use_and_close:
  "safely strict (held ring ms0 fs0) (use_and_close os ring tag start) (event_end ms0 fs0)"
proof (cases "ring_mapped ring")
  case True
  note r = held_rooms [OF _ True]
  have closing: "safely strict (held ring ms0 fs0)
     (ring_ok (close_ring os ring True) (\<lambda>ring1.
         seq (now_ns os) (\<lambda>now.
         seq (count True (\<lambda>c. c\<lparr>timed_ns := timed_ns c + (now - start)\<rparr>)) (\<lambda>_.
         seq (count True inc_successful) (\<lambda>_.
         seq (kernel (mm_usleep os ASYNC_TEARDOWN_PAUSE_US)) (\<lambda>_.
         give (None, ring1)))))) FAIL) (event_end ms0 fs0)"
    by (rule safely_ring_ok [OF safely_post [OF safely_close, where Q' = "\<lambda>(rc, r). just ms0 fs0"]], force,
        rule safely_seq [OF safely_now], rule safely_seq [OF safely_count], rule safely_seq [OF safely_count],
        rule safely_seq [OF safely_kernel], rule safely_give, simp, simp)
  show ?thesis
    unfolding use_and_close_def
    apply (rule safely_seq [OF safely_submit_nop], rule safely_if, rule safely_give, simp)
    apply (rule safely_seq [OF safely_health], rule safely_seq [OF safely_outstanding])
    apply (rule safely_seq [where R = "\<lambda>_. held ring ms0 fs0"])
     apply (rule safely_if, rule safely_give, assumption)
     apply (rule safely_seq [OF safely_load32(3)], erule r(5), rule safely_if, rule safely_give, assumption)
     apply (rule safely_seq [OF safely_load32(3)], erule r(10), rule safely_give, assumption)
    apply (rule safely_if, rule safely_give, simp, rule closing)
    done
next
  case False
  then show ?thesis
    by (simp add: use_and_close_def submit_nop_def seq_give) (rule safely_give, simp)
qed

lemma released_l0_event:
  assumes "pages_ok os"
  shows "safely strict (just ms0 fs0) (l0_event os i r) (event_end ms0 fs0)"
  unfolding l0_event_def
  by (rule safely_seq [OF safely_now], rule safely_ring_ok [OF safely_post [OF safely_setup_ring [OF assms],
        where Q' = "\<lambda>(rc, r). held r ms0 fs0"]], force simp: born_def, rule released_use_and_close, simp)

lemma released_counted_close:
  "safely strict (held ring ms0 fs0) (seq (close_ring os ring True) (\<lambda>(rc, _). count (rc \<noteq> 0) inc_cleanup)) (\<lambda>_. just ms0 fs0)"
  by (rule safely_seq [OF safely_close], rule safely_pair, simp only: prod.case, rule safely_post [OF safely_count], simp)

lemma l0_released:
  assumes "pages_ok os"
  shows "safely strict (just ms0 fs0) (run_l0 os n) (\<lambda>_. just ms0 fs0)"
proof -
  have fail: "safely strict (just ms0 fs0) (l0_fail n) (\<lambda>_. just ms0 fs0)"
    unfolding l0_fail_def
    by (rule safely_seq [OF safely_count], rule safely_seq [OF safely_count], rule safely_give, assumption)
  have finish: "safely strict (just ms0 fs0) (seq (count True (\<lambda>c. c\<lparr>events := ucast n\<rparr>)) (\<lambda>_.
      if b then give 0 else l0_fail n)) (\<lambda>_. just ms0 fs0)" for b
    by (rule safely_seq [OF safely_count], rule safely_if, rule safely_give, assumption, rule fail)
  have close: "safely strict (held ring ms0 fs0)
      (seq (close_ring os ring True) (\<lambda>(rc, _). seq (count (rc \<noteq> 0) inc_cleanup) (\<lambda>_. l0_fail n))) (\<lambda>_. just ms0 fs0)" for ring
    by (rule safely_seq [OF safely_close], rule safely_pair, simp only: prod.case, rule safely_seq [OF safely_count],
        rule safely_pre [OF fail], simp)
  show ?thesis
    unfolding run_l0_def
    apply (rule safely_seq [OF safely_run_events [where P = "\<lambda>_. just ms0 fs0" and L = "left ms0 fs0"]])
     apply (rule safely_post [OF released_l0_event [OF assms]], simp add: event_end_def)
    apply (rule safely_pair, simp only: prod.case)
    subgoal for x res ring
      by (cases res) (auto simp: left_def intro: fail close finish [of True, simplified] finish [of False, simplified]
          split: label.split)
    done
qed

section \<open>A0\<close>

lemma sits_drop [simp]: "sits a len m \<Longrightarrow> drop_mapping a len (m # ms) = ms"
  by (simp add: sits_def)

lemma sits_not_failed [simp]: "\<not> sits MAP_FAILED len m" "\<not> sits 0 len m"
  by (simp_all add: sits_def)

text \<open>Mapping and unmapping when the whole state is known.\<close>

lemma safely_mmap_seq:
  assumes none: "\<And>e. safely strict (just ms1 fs1) (f (MAP_FAILED, e)) Q"
    and one: "\<And>a e m. sits a len m \<Longrightarrow> safely strict (just (m # ms1) fs1) (f (a, e)) Q"
    and logs: "\<And>x. logs (f x)"
  shows "safely strict (just ms1 fs1) (seq (mmap os len flags fd off) f) Q"
proof (rule safely_seq [OF safely_mmap])
  fix x :: "u64 \<times> int"
  obtain a e where x: "x = (a, e)" by (cases x)
  show "safely strict (case x of (a, e) \<Rightarrow> \<lambda>ms fs. if a = MAP_FAILED then just ms1 fs1 ms fs
     else \<exists>m ms'. ms = m # ms' \<and> sits a len m \<and> just ms1 fs1 ms' fs) (f x) Q"
  proof (cases "a = MAP_FAILED")
    case True
    with none [of e] x show ?thesis by simp
  next
    case False
    have "safely strict (\<lambda>ms fs. \<exists>m. sits a len m \<and> just (m # ms1) fs1 ms fs) (f x) Q"
      by (rule safely_ex, rule safely_fact) (use one logs x in auto)
    then show ?thesis by (rule safely_pre) (use False x in \<open>auto simp: just_def\<close>)
  qed
qed

lemma safely_munmap_just:
  "sits a len m \<Longrightarrow> safely strict (just (m # ms1) fs1) (munmap os a len) (\<lambda>ok ms fs. ok \<and> just ms1 fs1 ms fs)"
  by (rule safely_post [OF safely_munmap]) (auto simp: just_def split: if_splits)

lemma safely_munmap_failed: "safely strict P (munmap os MAP_FAILED len) (\<lambda>ok ms fs. \<not> ok \<and> P ms fs)"
  by (rule safely_post [OF safely_munmap]) simp

lemma released_a0_event:
  "safely strict (just ms0 fs0) (a0_event os g i u) (\<lambda>_. just ms0 fs0)"
  unfolding a0_event_def
  apply (rule safely_mmap_seq, simp, rule safely_give, assumption)
   apply (simp only: prod.case, rule safely_if, simp, rule safely_seq [OF safely_count])
   apply (rule safely_mmap_seq, simp)
     apply (rule safely_seq [OF safely_munmap_just], assumption, rule safely_give, simp)
    apply (simp only: prod.case, rule safely_if, simp, rule safely_seq [OF safely_count])
    apply (rule safely_seq [OF safely_munmap_just], assumption)
    apply (rule safely_if, rule safely_give, simp)
    apply (rule safely_pre [OF safely_seq [OF safely_munmap_just]], assumption)
      apply (rule safely_if, rule safely_give, simp)
      apply (rule safely_seq [OF safely_count], rule safely_seq [OF safely_count], rule safely_give, simp)
     apply simp
   apply (auto intro!: logs_intro)
  done

lemma a0_released: "safely strict (just ms0 fs0) (run_a0 os n g) (\<lambda>_. just ms0 fs0)"
  unfolding run_a0_def
  apply (rule safely_seq [OF safely_now])
  apply (rule safely_seq [OF safely_run_events [where P = "\<lambda>_. just ms0 fs0" and L = "\<lambda>_ _. just ms0 fs0"]])
   apply (rule safely_post [OF released_a0_event], simp split: prod.split option.split)
  apply (rule safely_pair, simp only: prod.case)
  apply (rule safely_seq [OF safely_now], rule safely_seq [OF safely_count])
  subgoal for start x res u now y
    by (cases res) (auto intro!: safely_give safely_seq [OF safely_count])
  done

section \<open>N0\<close>

text \<open>The parts of the two regions that belong to an event.\<close>

lemma of_nat_unat64: "i \<le> 4096 \<Longrightarrow> unat (of_nat i :: u64) = i"
  by (simp add: unat_of_nat)

lemma part_room:
  assumes "sits a (len * ucast (n :: u32)) m" and "unat len < 2 ^ 34" "unat n \<le> 4096" "i < unat n"
    and "m \<in> set ms"
  shows "room ms (a + of_nat i * len) (unat len)"
proof -
  have bound: "k * unat len < 2 ^ 64" if "k \<le> 4096" for k
  proof -
    have "k * unat len \<le> 4096 * 2 ^ 34" using that assms(2) by (intro mult_le_mono) simp_all
    then show ?thesis by simp
  qed
  have "unat (len * ucast n) = unat n * unat len"
    using bound [of "unat n"] assms(3) by (simp add: unat_word_ariths mult.commute)
  then have whole: "room ms a (unat n * unat len)"
    using assms(1,5) by (auto simp: room_def sits_def fresh_map_def covers_def)
  have "unat (of_nat i * len) = i * unat len"
    using bound [of i] assms(3,4) of_nat_unat64 [of i] by (simp add: unat_word_ariths)
  moreover have "i * unat len + unat len \<le> unat n * unat len"
    using assms(4) by (metis Suc_leI add.commute mult_Suc mult_le_mono1)
  ultimately show ?thesis by (intro room_inside [OF whole]) simp
qed

lemma released_n0_event:
  assumes pages: "pages_ok os" and room: "room ms1 (a + of_nat i * geo_ring_sz g) (unat (geo_ring_sz g))"
    "room ms1 (b + of_nat i * geo_sqes_sz g) (unat (geo_sqes_sz g))"
  shows "safely strict (just ms1 fs0) (n0_event os g a b i r) (event_end ms1 fs0)"
  unfolding n0_event_def Let_def
  by (rule safely_seq [OF safely_now], rule safely_ring_ok [OF safely_post [OF safely_setup_user [OF assms],
        where Q' = "\<lambda>(rc, r). held r ms1 fs0"]], force simp: born_def,
      rule safely_seq [OF safely_get_counters], rule safely_if, rule safely_give, simp, rule released_use_and_close, simp)

lemma released_n0_out:
  assumes "(a = 0 \<and> b = 0 \<and> ms1 = ms0) \<or> (\<exists>ma. sits a la ma \<and> b = 0 \<and> ms1 = ma # ms0) \<or>
    (\<exists>ma mb. sits a la ma \<and> sits b lb mb \<and> ms1 = mb # ma # ms0)"
  shows "safely strict (just ms1 fs0) (n0_out os n a la b lb ret) (\<lambda>_. just ms0 fs0)"
proof -
  have fst: "safely strict (just ms1 fs0) (if a \<noteq> 0 then munmap os a la else give True)
     (\<lambda>_. just (if a \<noteq> 0 then drop_mapping a la ms1 else ms1) fs0)"
    using assms by (auto intro!: safely_give safely_post [OF safely_munmap] simp: just_def split: if_splits)
  have snd: "safely strict (just ms2 fs0) (if b \<noteq> 0 then munmap os b lb else give True)
     (\<lambda>_. just (if b \<noteq> 0 then drop_mapping b lb ms2 else ms2) fs0)" for ms2
    using assms by (auto intro!: safely_give safely_post [OF safely_munmap] simp: just_def split: if_splits)
  show ?thesis
    unfolding n0_out_def
    apply (rule safely_seq [OF safely_count], rule safely_seq [OF fst], rule safely_seq [OF safely_count])
    apply (rule safely_seq [OF snd], rule safely_seq [OF safely_count], rule safely_give)
    using assms apply (auto simp: just_def sits_def fresh_map_def drop_mapping.simps)
    done
qed

lemma n0_released:
  assumes pages: "pages_ok os" and g: "unat (geo_ring_sz g) < 2 ^ 34" "unat (geo_sqes_sz g) < 2 ^ 34" "unat n \<le> 4096"
  shows "safely strict (just ms0 fs0) (run_n0 os n g) (\<lambda>_. just ms0 fs0)"
proof -
  let ?la = "geo_ring_sz g * ucast n" and ?lb = "geo_sqes_sz g * ucast n"
  have body: "safely strict (just (mb # ma # ms0) fs0)
      (seq (memset0 a ?la) (\<lambda>_.
       seq (memset0 b ?lb) (\<lambda>_.
       seq (run_events os (n0_event os g a b) [0..<unat n] raw_ring_reset) (\<lambda>(res, ring).
       seq (case res of
              LEFT FAIL_CLOSE \<Rightarrow>
                seq (if 0 \<le> ring_fd ring
                     then seq (close_ring os ring True) (\<lambda>(rc, _). count (rc \<noteq> 0) inc_cleanup)
                     else give ()) (\<lambda>_.
                seq (count True inc_validation) (\<lambda>_. give (-1)))
            | LEFT FAIL \<Rightarrow> seq (count True inc_validation) (\<lambda>_. give (-1))
            | STOPPED \<Rightarrow> give (-1)
            | ALL_DONE \<Rightarrow> give 0) (\<lambda>ret. n0_out os n a ?la b ?lb ret))))) (\<lambda>_. just ms0 fs0)"
    if ma: "sits a ?la ma" and mb: "sits b ?lb mb" for a b ma mb
  proof -
    let ?ms = "mb # ma # ms0"
    have room: "room ?ms a (unat ?la)" "room ?ms b (unat ?lb)"
      using sits_room [OF ma] sits_room [OF mb] by (auto intro: room_more)
    have closing: "safely strict (held ring ?ms fs0)
        (seq (if 0 \<le> ring_fd ring
              then seq (close_ring os ring True) (\<lambda>(rc, _). count (rc \<noteq> 0) inc_cleanup)
              else give ()) (\<lambda>_. seq (count True inc_validation) (\<lambda>_. give (-1)))) (\<lambda>_. just ?ms fs0)" for ring
      apply (rule safely_seq [where R = "\<lambda>_. just ?ms fs0"])
       apply (rule safely_if, rule released_counted_close)
       apply (rule safely_give, auto simp: held_def owns_def just_def)[1]
      apply (rule safely_seq [OF safely_count], rule safely_give, assumption)
      done
    show ?thesis
      apply (rule safely_seq [OF safely_memset0], simp add: just_def room)
      apply (rule safely_seq [OF safely_memset0], simp add: just_def room)
      apply (rule safely_seq [OF safely_run_events [where P = "\<lambda>_. just ?ms fs0" and L = "left ?ms fs0"]])
       apply (rule safely_post [OF released_n0_event [OF pages]])
         apply (rule part_room [OF ma g(1,3)], simp, simp)
        apply (rule part_room [OF mb g(2,3)], simp, simp)
       apply (simp add: event_end_def)
      apply (rule safely_pair, simp only: prod.case)
      subgoal for u v x res ring
        apply (rule safely_seq [where R = "\<lambda>_. just ?ms fs0"])
         apply (cases res)
           apply (auto intro: safely_give)[2]
         apply (rename_tac l, case_tac l)
          apply (simp add: left_def, rule safely_seq [OF safely_count], rule safely_give, assumption)
         apply (simp only: loop_end.case label.case left_def, rule closing)
        apply (rule released_n0_out)
        using ma mb by blast
      done
  qed
  show ?thesis
    unfolding run_n0_def Let_def
    apply (rule safely_mmap_seq, simp, rule released_n0_out, simp)
     apply (simp only: prod.case, rule safely_if, simp)
     apply (rule safely_mmap_seq, simp, rule released_n0_out, blast)
      apply (simp only: prod.case, rule safely_if, simp, rule body, assumption, assumption)
    by (auto intro!: logs_intro)
qed

section \<open>E0\<close>

text \<open>The variables \<open>user_ring\<close> and \<open>user_sqes\<close>: either both regions are there, or neither.\<close>

definition regions :: "geometry \<Rightarrow> mapping list \<Rightarrow> u64 \<Rightarrow> u64 \<Rightarrow> mapping list \<Rightarrow> bool" where
  "regions g ms0 a b ms1 \<longleftrightarrow> a \<in> {0, MAP_FAILED} \<and> b \<in> {0, MAP_FAILED} \<and> ms1 = ms0 \<or>
     (\<exists>ma mb. sits a (geo_ring_sz g) ma \<and> sits b (geo_sqes_sz g) mb \<and> ms1 = mb # ma # ms0)"

lemma regions_both:
  "sits a (geo_ring_sz g) ma \<Longrightarrow> sits b (geo_sqes_sz g) mb \<Longrightarrow> regions g ms0 a b (mb # ma # ms0)"
  by (auto simp: regions_def)

lemma released_e0_out:
  assumes "regions g ms0 a b ms1"
  shows "safely strict (just ms1 fs0) (e0_out os g a b ret) (\<lambda>rc ms fs. rc = ret \<and> just ms0 fs0 ms fs)"
proof -
  have one: "safely strict (just ms2 fs0) (if x \<noteq> 0 then munmap os x len else give True)
     (\<lambda>_. just (if x = 0 \<or> x = MAP_FAILED then ms2 else drop_mapping x len ms2) fs0)" for x len ms2
    by (auto intro!: safely_give safely_post [OF safely_munmap] simp: just_def split: if_splits)
  show ?thesis
    unfolding e0_out_def
    apply (rule safely_seq [OF safely_count], rule safely_seq [OF one], rule safely_seq [OF safely_count])
    apply (rule safely_seq [OF one], rule safely_seq [OF safely_count], rule safely_seq [OF safely_count], rule safely_give)
    using assms apply (auto simp: regions_def just_def sits_def fresh_map_def drop_mapping.simps)
    done
qed

lemma released_e0_standard:
  assumes "regions g ms0 a b ms1"
  shows "safely strict (held standard ms1 fs0) (e0_out_standard os g standard a b ret) (\<lambda>_. just ms0 fs0)"
  unfolding e0_out_standard_def
  apply (rule safely_seq [OF safely_close], rule safely_pair, simp only: prod.case, rule safely_seq [OF safely_count])
  apply (rule safely_conseq [OF released_e0_out [OF assms]])
   apply simp_all
  done

lemma released_e0_user:
  assumes "regions g ms0 a b ms1" and "held standard ms1 fs0 = just ms1 fs1"
  shows "safely strict (held user ms1 fs1) (e0_out_user os g user standard a b ret) (\<lambda>_. just ms0 fs0)"
  unfolding e0_out_user_def
  by (rule safely_seq [OF safely_close], rule safely_pair, simp only: prod.case, rule safely_seq [OF safely_count],
      rule safely_pre [OF released_e0_standard [OF assms(1)]]) (use assms(2) in simp)

lemma released_refused: "safely strict P (mmap_refused os g fd off) (\<lambda>_. P)"
  unfolding mmap_refused_def
  by (rule safely_seq [OF safely_mmap], rule safely_pair, rule safely_if, rule safely_seq [OF safely_munmap],
      rule safely_give) (auto intro: safely_give)

lemma released_allocate:
  "safely strict (just ms0 fs1) (allocate_user_regions os g)
    (\<lambda>(rc, a, b) ms fs. \<exists>ms1. (regions g ms0 a b ms1 \<and> (rc = 0 \<longrightarrow> a \<notin> {0, MAP_FAILED})) \<and> just ms1 fs1 ms fs)"
proof -
  have room: "room (mb # ma # ms0) a (unat (geo_ring_sz g))" "room (mb # ma # ms0) b (unat (geo_sqes_sz g))"
    if "sits a (geo_ring_sz g) ma" "sits b (geo_sqes_sz g) mb" for a b ma mb
    using sits_room [OF that(1)] sits_room [OF that(2)] by (auto intro: room_more)
  show ?thesis
    unfolding allocate_user_regions_def
    apply (rule safely_mmap_seq)
      apply (simp, rule safely_give, auto simp: regions_def)[1]
     apply (simp only: prod.case, rule safely_if, simp)
     apply (rule safely_mmap_seq)
       apply (simp, rule safely_seq [OF safely_munmap_just], assumption, rule safely_give, auto simp: regions_def)[1]
      apply (simp only: prod.case, rule safely_if, simp)
      apply (rule safely_seq [OF safely_memset0], simp add: just_def room)
      apply (rule safely_seq [OF safely_memset0], simp add: just_def room)
      apply (rule safely_give, simp, intro exI conjI, rule regions_both, assumption, assumption)
        apply (auto simp: sits_def)[3]
    by (auto intro!: logs_intro)
qed

text \<open>What is held at the end, when the error round may have lost the descriptor of its first ring.\<close>

definition given_back :: "bool \<Rightarrow> profile_id \<Rightarrow> mapping list \<Rightarrow> int list \<Rightarrow> int \<Rightarrow> assertion" where
  "given_back strict prof ms0 fs0 rc ms fs \<longleftrightarrow> just ms0 fs0 ms fs \<or>
     \<not> strict \<and> prof = PROFILE_E0_ERRORS \<and> rc \<noteq> 0 \<and> (\<exists>fd. just ms0 (fd # fs0) ms fs)"

lemma given_back_just: "just ms0 fs0 ms fs \<Longrightarrow> given_back strict prof ms0 fs0 rc ms fs"
  by (simp add: given_back_def)

lemma e0_released:
  assumes pages: "pages_ok os"
  shows "safely strict (just ms0 fs0) (run_e0 os g) (given_back strict PROFILE_E0_ERRORS ms0 fs0)"
proof -
  have none: "regions g ms0 0 0 ms0" by (simp add: regions_def)
  have user: "safely strict (just ms1 fs1)
     (seq (setup_user_ring os a (geo_ring_sz g) b (geo_sqes_sz g) True) (\<lambda>(rc, user).
      if rc \<noteq> 0 then e0_out_user os g user standard a b (-1)
      else seq (mmap_refused os g (ring_fd user) IORING_OFF_SQ_RING) (\<lambda>refused.
      if \<not> refused then e0_out_user os g user standard a b (-1)
      else seq (submit_nop os user 0x4000000000000001 True) (\<lambda>rc.
      if rc \<noteq> 0 then e0_out_user os g user standard a b (-1)
      else seq (copy_ring_health os user) (\<lambda>_.
           seq get_counters (\<lambda>c.
           if \<not> healthy c then e0_out_user os g user standard a b (-1)
           else seq (count True (\<lambda>c. c\<lparr>successful_events := 2\<rparr>)) (\<lambda>_.
                e0_out_user os g user standard a b 0)))))))
     (\<lambda>_. just ms0 fs0)"
    if r: "regions g ms0 a b ms1" and a: "a \<notin> {0, MAP_FAILED}" and st: "held standard ms1 fs0 = just ms1 fs1" for a b ms1 fs1 standard
  proof -
    have room: "room ms1 a (unat (geo_ring_sz g))" "room ms1 b (unat (geo_sqes_sz g))"
      using r a by (auto simp: regions_def intro: room_more sits_room)
    note out = released_e0_user [OF r st]
    show ?thesis
      apply (rule safely_seq [OF safely_setup_user [OF pages room]], rule safely_pair, simp only: prod.case)
      apply (rule safely_pre [where P = "held user ms1 fs1" for user])
       apply (rule safely_if, rule out)
       apply (rule safely_seq [OF released_refused], rule safely_if, rule out)
       apply (rule safely_seq [OF safely_submit_nop], rule safely_if, rule out)
       apply (rule safely_seq [OF safely_health], rule safely_seq [OF safely_get_counters], rule safely_if, rule out)
       apply (rule safely_seq [OF safely_count], rule out)
      apply (simp add: born_def)
      done
  qed
  have rest: "safely strict (just ms0 (ring_fd standard # fs0))
     (seq (mmap_refused os g (ring_fd standard) INVALID_MMAP_OFFSET) (\<lambda>refused.
      if \<not> refused then e0_out_standard os g standard 0 0 (-1)
      else seq (allocate_user_regions os g) (\<lambda>(rc, user_ring, user_sqes).
      if rc \<noteq> 0 then e0_out_standard os g standard user_ring user_sqes (-1)
      else seq (setup_user_ring os user_ring (geo_ring_sz g) user_sqes (geo_sqes_sz g) True) (\<lambda>(rc, user).
      if rc \<noteq> 0 then e0_out_user os g user standard user_ring user_sqes (-1)
      else seq (mmap_refused os g (ring_fd user) IORING_OFF_SQ_RING) (\<lambda>refused.
      if \<not> refused then e0_out_user os g user standard user_ring user_sqes (-1)
      else seq (submit_nop os user 0x4000000000000001 True) (\<lambda>rc.
      if rc \<noteq> 0 then e0_out_user os g user standard user_ring user_sqes (-1)
      else seq (copy_ring_health os user) (\<lambda>_.
           seq get_counters (\<lambda>c.
           if \<not> healthy c then e0_out_user os g user standard user_ring user_sqes (-1)
           else seq (count True (\<lambda>c. c\<lparr>successful_events := 2\<rparr>)) (\<lambda>_.
                e0_out_user os g user standard user_ring user_sqes 0)))))))))
     (\<lambda>_. just ms0 fs0)" if st: "0 \<le> ring_fd standard" "\<not> ring_mapped standard" for standard
  proof -
    have h: "held standard ms1 fs0 = just ms1 (ring_fd standard # fs0)" for ms1 using st by (simp add: held_plain)
    have out: "safely strict (just ms1 (ring_fd standard # fs0)) (e0_out_standard os g standard a b ret) (\<lambda>_. just ms0 fs0)"
      if "regions g ms0 a b ms1" for a b ms1 ret
      by (rule released_e0_standard [OF that, of strict standard fs0 os ret, unfolded h])
    show ?thesis
      apply (rule safely_seq [OF released_refused], rule safely_if, rule out [OF none])
      apply (rule safely_seq [OF released_allocate], rule safely_pair, rule safely_pair, simp only: prod.case)
      apply (rule safely_ex, rule safely_fact, elim conjE, rule safely_if, erule out)
       apply (rule user [OF _ _ h], assumption, simp)
      apply (intro logs_intro)
      done
  qed
  have refused: "safely strict (\<lambda>ms fs. \<exists>fs1. (fs1 = fs0 \<or> \<not> strict \<and> (\<exists>fd. fs1 = fd # fs0)) \<and> just ms0 fs1 ms fs)
      (e0_out os g 0 0 (-1)) (given_back strict PROFILE_E0_ERRORS ms0 fs0)"
    apply (rule safely_ex, rule safely_fact)
     apply (rule safely_post [OF released_e0_out [OF none]])
     apply (auto simp: given_back_def)[1]
    apply (intro logs_intro)
    done
  show ?thesis
    unfolding run_e0_def
    apply (rule safely_seq [OF safely_setup_ring [OF pages]], rule safely_pair, simp only: prod.case, rule safely_if)
     apply (rule safely_pre [OF refused])
     apply (auto simp: born_def held_plain just_def split: if_splits)[1]
    subgoal for x rc standard
      apply (rule safely_given [where b = "0 \<le> ring_fd standard \<and> \<not> ring_mapped standard"])
        apply (simp add: born_def)
       apply (rule safely_conseq [OF rest], simp, simp)
        apply (auto simp: born_def held_plain)[1]
       apply (erule given_back_just)
      apply (intro logs_intro)
      done
    done
qed

section \<open>Every round\<close>

lemma profile_released:
  assumes "pages_ok os" and "unat (geo_ring_sz g) < 2 ^ 34" "unat (geo_sqes_sz g) < 2 ^ 34" and "unat n \<le> 4096"
  shows "safely strict (just ms0 fs0) (run_profile os prof n g) (given_back strict prof ms0 fs0)"
proof -
  note others = r0_released [OF assms(1)] l0_released [OF assms(1)] n0_released [OF assms] a0_released
  show ?thesis
    unfolding run_profile_def
    by (rule safely_seq [OF safely_count], cases prof; simp only: profile_id.case)
       (rule e0_released [OF assms(1)] safely_post [OF others(1)] safely_post [OF others(2)] safely_post [OF others(3)]
          safely_post [OF others(4)], (erule given_back_just)?)+
qed

section \<open>The program\<close>

lemma logs_rounds [logs_intro]:
  "logs (run_profile os prof n g)" "logs (write_line os line)" "logs (run_rounds os opt ident g tr)"
proof -
  have probe: "logs (r0_probe os ring tag)" for ring tag
    unfolding r0_probe_def by (intro logs_intro)
  have finish: "logs (r0_finish os ring)" for ring
    unfolding r0_finish_def by (intro probe logs_intro)
  have timed: "logs (r0_timed os n ring)" for ring n
    unfolding r0_timed_def r0_event_def ring_ok_def by (intro finish logs_intro)
  have r0: "logs (run_r0 os n)" for n
    unfolding run_r0_def r0_body_def by (intro probe timed logs_intro)
  have l0: "logs (run_l0 os n)" for n
    unfolding run_l0_def l0_fail_def l0_event_def ring_ok_def by (intro logs_intro)
  have n0: "logs (run_n0 os n g)" for n
    unfolding run_n0_def Let_def by (intro logs_intro)
  have a0: "logs (run_a0 os n g)" for n
    unfolding run_a0_def a0_event_def by (intro logs_intro)
  have e0: "logs (run_e0 os g)"
    unfolding run_e0_def by (intro logs_intro)
  show profile: "logs (run_profile os prof n g)" for prof n
    unfolding run_profile_def by (intro r0 l0 n0 a0 e0 logs_intro)
  show line: "logs (write_line os line)" for line
    unfolding write_line_def by (intro logs_intro) simp
  show "logs (run_rounds os opt ident g tr)"
    unfolding run_rounds_def one_round_def write_result_def by (intro profile line logs_intro)
qed

lemma discover_released:
  assumes pages: "pages_ok os"
  shows "safely strict (just ms0 fs0) (discover_geometry os) (\<lambda>(rc, found) ms fs.
    (\<forall>g. found = Some g \<longrightarrow> unat (geo_ring_sz g) < 2 ^ 34 \<and> unat (geo_sqes_sz g) < 2 ^ 34) \<and> just ms0 fs0 ms fs)"
proof -
  have close: "safely strict (just ms0 (fd # fs0)) (close_fd os fd) (\<lambda>_. just ms0 fs0)" for fd
    by (rule safely_post [OF safely_close_fd]) (auto simp: just_def)
  show ?thesis
    unfolding discover_geometry_def
    apply (rule safely_seq [OF safely_setup_ring [OF pages]], rule safely_pair, simp only: prod.case, rule safely_if)
     apply (rule safely_seq [where R = "\<lambda>_. just ms0 fs0"])
      apply (rule safely_if)
       apply (rule safely_pre [OF close], auto simp: born_def held_plain)[1]
      apply (rule safely_give, auto simp: born_def held_plain)[1]
     apply (rule safely_give, simp)
    subgoal for x rc ring
      apply (rule safely_given [where b = "known ring \<and> 0 \<le> ring_fd ring \<and> \<not> ring_mapped ring"])
        apply (auto simp: born_def)[1]
       apply (rule safely_seq [OF safely_pre [OF close]], auto simp: born_def held_plain)[1]
       apply (rule safely_give)
      using geometry_sizes(1,2) [OF pages, of "ring_p ring"] apply (simp add: known_def)
      apply (intro logs_intro)
      done
    done
qed

lemma event_count_le: "unat (event_count prof mode) \<le> 4096"
  by (simp add: event_count_def R0_EVENTS_def LIFECYCLE_EVENTS_def TRACE_EVENTS_def SMOKE_EVENTS_def)

lemma write_line_released: "safely strict P (write_line os line) (\<lambda>_. P)"
proof -
  have "safely strict P (change (\<lambda>s. if ok then s\<lparr>out_lines := out_lines s @ [line]\<rparr> else s)) (\<lambda>_. P)" for ok
    by (rule safelyI) (auto simp: post_simps intro!: logs_change then_safe_now)
  then show ?thesis
    unfolding write_line_def by (intro safely_seq [OF safely_kernel] safely_seq safely_give)
qed

lemma rounds_released:
  assumes "pages_ok os" and "unat (geo_ring_sz g) < 2 ^ 34" "unat (geo_sqes_sz g) < 2 ^ 34"
  shows "safely strict (just ms0 fs0) (run_rounds os opt ident g tr) (given_back strict (opt_profile opt) ms0 fs0)"
proof -
  let ?done = "given_back strict (opt_profile opt) ms0 fs0"
  have one: "safely strict (just ms0 fs0) (one_round os opt ident g tr i u)
      (\<lambda>(e, _). case e of None \<Rightarrow> just ms0 fs0 | Some _ \<Rightarrow> ?done EXIT_FAILURE)" for i u
    unfolding one_round_def write_result_def
    by (rule safely_seq [OF profile_released [OF assms event_count_le]], rule safely_seq [OF safely_get_counters],
        rule safely_seq [OF write_line_released], rule safely_give) (auto simp: given_back_def EXIT_FAILURE_def)
  show ?thesis
    unfolding run_rounds_def
    apply (rule safely_seq [OF safely_run_events [where P = "\<lambda>_. just ms0 fs0" and L = "\<lambda>_ _. ?done EXIT_FAILURE"]])
     apply (rule safely_post [OF one], simp split: prod.splits option.splits)
    apply (rule safely_pair, simp only: prod.case)
    apply (rule safely_seq [OF safely_read_stop], rule safely_seq [OF safely_kernel], rule safely_give)
    apply (auto split: loop_end.splits intro: given_back_just)
    done
qed

lemma safely_option:
  assumes "r = None \<Longrightarrow> safely strict P m Q" and "\<And>x. r = Some x \<Longrightarrow> safely strict P (h x) Q"
  shows "safely strict P (case r of None \<Rightarrow> m | Some x \<Rightarrow> h x) Q"
  using assms by (cases r) auto

lemma execute_released:
  assumes "pages_ok os"
  shows "safely strict (just ms0 fs0) (execute os opt path) (given_back strict (opt_profile opt) ms0 fs0)"
proof -
  have pin: "safely strict (just ms0 fs0) (pin_cpu os cpu) (\<lambda>_. just ms0 fs0)" for strict cpu
    unfolding pin_cpu_def
    by (rule safely_seq [OF safely_kernel], rule safely_if, rule safely_give, assumption,
        rule safely_seq [OF safely_kernel], rule safely_if, rule safely_give, assumption,
        rule safely_seq [OF safely_kernel], rule safely_give, assumption)
  have reads: "safely strict (just ms0 fs0) (read_text os f n) (\<lambda>_. just ms0 fs0)" for strict f n
    unfolding read_text_def
    by (rule safely_if, rule safely_give, assumption, rule safely_seq [OF safely_kernel], rule safely_give, assumption)
  show ?thesis
    unfolding execute_def write_header_def
    apply (rule safely_seq [OF pin], rule safely_if, rule safely_give, erule given_back_just)
    apply (rule safely_seq [OF reads], rule safely_option, rule safely_give, erule given_back_just)
    apply (rule safely_seq [OF reads], rule safely_option, rule safely_give, erule given_back_just)
    apply (rule safely_seq [OF discover_released [OF assms]], rule safely_pair, simp only: prod.case)
    apply (rule safely_option, rule safely_give, rule given_back_just, simp)
    apply (rule safely_fact)
     apply (rule safely_seq [OF safely_kernel], rule safely_if, rule safely_give, erule given_back_just)
     apply (rule safely_seq [OF write_line_released], rule safely_if)
      apply (rule safely_seq [OF safely_kernel], rule safely_give, erule given_back_just)
     apply (rule rounds_released [OF assms], simp, simp)
    apply (intro logs_intro)
    done
qed

lemma main_released:
  assumes "pages_ok os" and "parse_options args = Some opt"
  shows "safely strict (just ms0 fs0) (main os args) (given_back strict (opt_profile opt) ms0 fs0)"
proof -
  have "safely strict (just ms0 fs0) (describe opt) (\<lambda>_. just ms0 fs0)"
    unfolding describe_def by (rule safelyI) (auto simp: post_simps intro!: logs_change then_safe_now)
  then have "safely strict (just ms0 fs0) (seq (describe opt) (\<lambda>_. give EXIT_SUCCESS)) (given_back strict (opt_profile opt) ms0 fs0)"
    by (rule safely_seq) (rule safely_give, erule given_back_just)
  then show ?thesis
    using execute_released [OF assms(1), of strict ms0 fs0 opt] assms(2)
    by (auto simp: main_def intro: safely_give given_back_just split: option.split)
qed

text \<open>
  io_uring_memmap_round.c ends. Its only loop without a bound of its own is the one that repeats an
  interrupted \<open>io_uring_enter\<close>.
\<close>

section \<open>Interrupted calls\<close>

text \<open>Between two interruptions something that is bounded decreases, or a signal ends the loop.\<close>

definition interrupts_bounded :: "'k mm_os \<Rightarrow> ('k \<Rightarrow> nat) \<Rightarrow> bool" where
  "interrupts_bounded os bound \<longleftrightarrow>
     (\<forall>fd ms m k ret e m1 k1 sig m2 k2.
        mm_enter os fd 1 1 IORING_ENTER_GETEVENTS ms m k = ((ret, e), m1, k1) \<longrightarrow>
        mm_async os ms m1 k1 = (sig, m2, k2) \<longrightarrow> ret < 0 \<longrightarrow> e = EINTR \<longrightarrow> sig \<or> bound k2 < bound k)"

lemma back_enter_loop:
  assumes "interrupts_bounded os bound"
  shows "comes_back (enter_loop os fd)"
proof -
  have "enter_loop os fd s \<noteq> None" for s
  proof (induction "bound (kst s)" arbitrary: s rule: less_induct)
    case less
    obtain ret e m1 k1 where call:
        "mm_enter os fd 1 1 IORING_ENTER_GETEVENTS (maps s) (mem s) (kst s) = ((ret, e), m1, k1)"
      by (metis prod.collapse)
    obtain sig m2 k2 where asy: "mm_async os (maps s) m1 k1 = (sig, m2, k2)"
      by (metis prod.collapse)
    have "sig \<or> bound k2 < bound (kst s)" if "ret < 0" "e = EINTR"
      using assms call asy that unfolding interrupts_bounded_def by blast
    moreover have "kst (async os (s\<lparr>mem := m1, kst := k1, calls := calls s @ [ENTER fd ret]\<rparr>)) = k2"
        "sig \<Longrightarrow> stop_requested (async os (s\<lparr>mem := m1, kst := k1, calls := calls s @ [ENTER fd ret]\<rparr>))"
      using asy by (cases sig; simp add: async_def handle_signal_def Let_def)+
    ultimately show ?case
      using less by (subst enter_loop.simps) (auto simp: call Let_def)
  qed
  then show ?thesis by (simp add: comes_back_def)
qed

section \<open>Everything else\<close>

lemma back_region_prims [back_intro]:
  "comes_back (kernel f)" "comes_back (log_call c)" "comes_back (count b h)" "comes_back (read_stop os)"
  "comes_back get_counters" "comes_back (load os a n)" "comes_back (store a bs)" "comes_back (memset0 a l)"
  by (auto simp: comes_back_def kernel_def log_call_def count_def change_def read_stop_def get_counters_def
      load_def seq_def store_def memset0_def segfault_def exit_with_def give_def split_beta Let_def split: option.split)

lemma back_loop_end [back_intro]:
  "comes_back m \<Longrightarrow> comes_back m' \<Longrightarrow> (\<And>x. comes_back (h x)) \<Longrightarrow>
     comes_back (case r of ALL_DONE \<Rightarrow> m | STOPPED \<Rightarrow> m' | LEFT x \<Rightarrow> h x)"
  by (cases r) simp_all

lemma back_label [back_intro]: "comes_back m \<Longrightarrow> comes_back m' \<Longrightarrow> comes_back (case l of FAIL \<Rightarrow> m | FAIL_CLOSE \<Rightarrow> m')"
  by (cases l) simp_all

lemma back_run_events [back_intro]: "(\<And>i a. comes_back (f i a)) \<Longrightarrow> comes_back (run_events os f is a)"
  by (induction "is" arbitrary: a) (auto intro!: back_intro)

lemma back_region_calls [back_intro]:
  "comes_back (mmap os len flags fd off)" "comes_back (munmap os a len)" "comes_back (close_fd os fd)"
  "comes_back (io_uring_setup os n p)" "comes_back (now_ns os)" "comes_back (load32 os a)" "comes_back (load_acquire os a)"
  "comes_back (load_relaxed os a)" "comes_back (store_release a v)" "comes_back (load_cqe os a)"
  "comes_back (pin_cpu os cpu)" "comes_back (read_text os path width)" "comes_back (write_line os line)"
  unfolding mmap_def munmap_def close_fd_def io_uring_setup_def now_ns_def load_acquire_def load_relaxed_def load32_def
    store_release_def load_cqe_def pin_cpu_def read_text_def write_line_def
  by (intro back_intro)+

lemma back_rings [back_intro]:
  "comes_back (map_standard_ring os ring counted)" "comes_back (unmap_standard_ring os ring counted)"
  "comes_back (ring_outstanding os ring)" "comes_back (copy_ring_health os ring)"
  "comes_back (nop_sqe a tag)" "comes_back (take_cqe os ring)" "comes_back (setup_user_ring os a la b lb counted)"
  "comes_back (setup_standard_ring os map_it counted)" "comes_back (close_ring os ring counted)"
  "comes_back (discover_geometry os)" "comes_back (allocate_user_regions os g)" "comes_back (mmap_refused os g fd off)"
  unfolding map_standard_ring_def unmap_standard_ring_def ring_outstanding_def copy_ring_health_def nop_sqe_def
    take_cqe_def setup_user_ring_def setup_standard_ring_def close_ring_def discover_geometry_def
    allocate_user_regions_def mmap_refused_def map_standard_ring_def unmap_standard_ring_def ring_outstanding_def Let_def
  by (intro back_intro)+

lemma region_main_back:
  assumes "interrupts_bounded os bound"
  shows "comes_back (main os args)"
proof -
  have nop: "comes_back (submit_nop os ring tag counted)" for ring tag counted
    unfolding submit_nop_def Let_def by (intro back_enter_loop [OF assms] back_intro)
  have probe: "comes_back (r0_probe os ring tag)" for ring tag
    unfolding r0_probe_def by (intro nop back_intro)
  have r0: "comes_back (run_r0 os n)" for n
    unfolding run_r0_def r0_body_def r0_timed_def r0_event_def r0_finish_def ring_ok_def by (intro probe back_intro)
  have use: "comes_back (use_and_close os ring tag start)" for ring tag start
    unfolding use_and_close_def ring_ok_def by (intro nop back_intro)
  have l0: "comes_back (run_l0 os n)" for n
    unfolding run_l0_def l0_fail_def l0_event_def ring_ok_def by (intro use back_intro)
  have n0: "comes_back (run_n0 os n g)" for n g
    unfolding run_n0_def n0_event_def n0_out_def ring_ok_def Let_def by (intro use back_intro)
  have a0: "comes_back (run_a0 os n g)" for n g
    unfolding run_a0_def a0_event_def by (intro back_intro)
  have e0: "comes_back (run_e0 os g)" for g
    unfolding run_e0_def e0_out_user_def e0_out_standard_def e0_out_def by (intro nop back_intro)
  have profile: "comes_back (run_profile os prof n g)" for prof n g
    unfolding run_profile_def by (cases prof; simp only: profile_id.case; intro r0 l0 n0 a0 e0 back_intro)
  show ?thesis
    unfolding main_def execute_def run_rounds_def one_round_def describe_def write_header_def write_result_def
    by (intro profile back_intro)
qed

text \<open>It leaves from within only when the clock cannot be read or an access finds no mapping.\<close>

abbreviation exits_region :: "('k, 'a) prog \<Rightarrow> bool" where
  "exits_region \<equiv> exits_in {EXIT_FAILURE, SIGSEGV_STATUS}"

lemma exits_region_exit [exits_intro]: "exits_region (exit_with EXIT_FAILURE)" "exits_region segfault"
  by (simp_all add: exits_in_def exit_with_def segfault_def)

lemma exits_enter_loop [exits_intro]: "exits_region (enter_loop os fd)"
proof -
  have "post (enter_loop os fd) (\<lambda>_ _. False) (\<lambda>_ _. True) s" for s
    using enter_loop_rule [of "\<lambda>_ _. True" fd os "\<lambda>_ _. False" s] by simp
  then show ?thesis by (fastforce simp: post_def wp_def exits_in_def split: option.splits sum.splits)
qed

lemma exits_region_prims [exits_intro]:
  "exits_region (kernel f)" "exits_region (log_call c)" "exits_region (count b h)" "exits_region (read_stop os)"
  "exits_region get_counters" "exits_region (load os a n)" "exits_region (store a bs)" "exits_region (memset0 a l)"
  by (auto simp: exits_in_def kernel_def log_call_def count_def change_def read_stop_def get_counters_def
      load_def seq_def store_def memset0_def segfault_def exit_with_def give_def split_beta Let_def
      split: option.splits if_splits)

lemma exits_loop_end [exits_intro]:
  "exits_region m \<Longrightarrow> exits_region m' \<Longrightarrow> (\<And>x. exits_region (h x)) \<Longrightarrow>
     exits_region (case r of ALL_DONE \<Rightarrow> m | STOPPED \<Rightarrow> m' | LEFT x \<Rightarrow> h x)"
  by (cases r) simp_all

lemma exits_label [exits_intro]: "exits_region m \<Longrightarrow> exits_region m' \<Longrightarrow> exits_region (case l of FAIL \<Rightarrow> m | FAIL_CLOSE \<Rightarrow> m')"
  by (cases l) simp_all

lemma exits_run_events [exits_intro]: "(\<And>i a. exits_region (f i a)) \<Longrightarrow> exits_region (run_events os f is a)"
  by (induction "is" arbitrary: a) (auto intro!: exits_intro)

lemma exits_region_calls [exits_intro]:
  "exits_region (mmap os len flags fd off)" "exits_region (munmap os a len)" "exits_region (close_fd os fd)"
  "exits_region (io_uring_setup os n p)" "exits_region (now_ns os)" "exits_region (load32 os a)" "exits_region (load_acquire os a)"
  "exits_region (load_relaxed os a)" "exits_region (store_release a v)" "exits_region (load_cqe os a)"
  "exits_region (pin_cpu os cpu)" "exits_region (read_text os path width)" "exits_region (write_line os line)"
  unfolding mmap_def munmap_def close_fd_def io_uring_setup_def now_ns_def load_acquire_def load_relaxed_def load32_def
    store_release_def load_cqe_def pin_cpu_def read_text_def write_line_def
  by (intro exits_intro)+

lemma exits_rings [exits_intro]:
  "exits_region (map_standard_ring os ring counted)" "exits_region (unmap_standard_ring os ring counted)"
  "exits_region (ring_outstanding os ring)" "exits_region (copy_ring_health os ring)"
  "exits_region (nop_sqe a tag)" "exits_region (take_cqe os ring)" "exits_region (setup_user_ring os a la b lb counted)"
  "exits_region (setup_standard_ring os map_it counted)" "exits_region (close_ring os ring counted)"
  "exits_region (discover_geometry os)" "exits_region (allocate_user_regions os g)" "exits_region (mmap_refused os g fd off)"
  unfolding map_standard_ring_def unmap_standard_ring_def ring_outstanding_def copy_ring_health_def nop_sqe_def
    take_cqe_def setup_user_ring_def setup_standard_ring_def close_ring_def discover_geometry_def
    allocate_user_regions_def mmap_refused_def map_standard_ring_def unmap_standard_ring_def ring_outstanding_def Let_def
  by (intro exits_intro)+

lemma region_main_exits:
  shows "exits_region (main os args)"
proof -
  have nop: "exits_region (submit_nop os ring tag counted)" for ring tag counted
    unfolding submit_nop_def Let_def by (intro exits_enter_loop exits_intro)
  have probe: "exits_region (r0_probe os ring tag)" for ring tag
    unfolding r0_probe_def by (intro nop exits_intro)
  have r0: "exits_region (run_r0 os n)" for n
    unfolding run_r0_def r0_body_def r0_timed_def r0_event_def r0_finish_def ring_ok_def by (intro probe exits_intro)
  have use: "exits_region (use_and_close os ring tag start)" for ring tag start
    unfolding use_and_close_def ring_ok_def by (intro nop exits_intro)
  have l0: "exits_region (run_l0 os n)" for n
    unfolding run_l0_def l0_fail_def l0_event_def ring_ok_def by (intro use exits_intro)
  have n0: "exits_region (run_n0 os n g)" for n g
    unfolding run_n0_def n0_event_def n0_out_def ring_ok_def Let_def by (intro use exits_intro)
  have a0: "exits_region (run_a0 os n g)" for n g
    unfolding run_a0_def a0_event_def by (intro exits_intro)
  have e0: "exits_region (run_e0 os g)" for g
    unfolding run_e0_def e0_out_user_def e0_out_standard_def e0_out_def by (intro nop exits_intro)
  have profile: "exits_region (run_profile os prof n g)" for prof n g
    unfolding run_profile_def by (cases prof; simp only: profile_id.case; intro r0 l0 n0 a0 e0 exits_intro)
  show ?thesis
    unfolding main_def execute_def run_rounds_def one_round_def describe_def write_header_def write_result_def
    by (intro profile exits_intro)
qed

lemma main_grows: "logs (main os args)"
  unfolding main_def execute_def pin_cpu_def read_text_def discover_geometry_def write_header_def describe_def
  by (intro logs_intro) (auto intro!: logs_change)

lemma main_codes: "returns_in {EXIT_SUCCESS, EXIT_FAILURE} (main os args)"
  unfolding main_def execute_def run_rounds_def
  by (intro returns_in_option returns_in_if returns_in_seq returns_in_pair returns_in_give) auto

end
