(* ===== verification/Region_Properties.thy ===== *)
theory Region_Properties
  imports Region_Main Region_Point Region_Released
begin

text \<open>
  A small kernel on which io_uring_memmap_round.c can be evaluated. Its rings lie in memory the way
  Linux lays them out; it answers NOPs, with rings of its own memory and with rings in memory of
  the process; every call of the clock takes 10 ns.
\<close>

text \<open>
  The rings are listed with their descriptor, whether the memory is the kernel's own, the place of
  the queues and the place of the submission entries.
\<close>

record small_kernel =
  sk_clock :: u64
  sk_fd :: int
  sk_addr :: u64
  sk_obj :: nat
  sk_rings :: "(int \<times> bool \<times> (nat \<times> nat) \<times> (nat \<times> nat)) list"

definition small_params :: "region_params \<Rightarrow> region_params" where
  "small_params p = p\<lparr>p_sq_entries := 64, p_cq_entries := 128, p_features := IORING_FEAT_SINGLE_MMAP,
     p_sq_off_head := 0, p_sq_off_tail := 4, p_sq_off_ring_mask := 16, p_sq_off_ring_entries := 24,
     p_sq_off_dropped := 32, p_sq_off_array := 2112, p_cq_off_head := 8, p_cq_off_tail := 12,
     p_cq_off_ring_mask := 20, p_cq_off_ring_entries := 28, p_cq_off_overflow := 44, p_cq_off_cqes := 64\<rparr>"

definition put :: "nat \<times> nat \<Rightarrow> nat \<Rightarrow> nat \<Rightarrow> nat \<Rightarrow> memory \<Rightarrow> memory" where
  "put l off width val = poke (fst l, snd l + off) (le_bytes width val)"

definition get :: "nat \<times> nat \<Rightarrow> nat \<Rightarrow> nat \<Rightarrow> memory \<Rightarrow> nat" where
  "get l off width m = le_value (peek m (fst l, snd l + off) width)"

definition small_setup :: "u32 \<Rightarrow> region_params \<Rightarrow> (small_kernel, int \<times> region_params) kcall" where
  "small_setup entries p ms m k =
     (let in_kernel = (p_flags p AND IORING_SETUP_NO_MMAP = 0);
          (queues, sqes) =
            (if in_kernel then (Some (sk_obj k, 0), Some (Suc (sk_obj k), 0))
             else (locate ms (p_cq_off_user_addr p) 4096, locate ms (p_sq_off_user_addr p) 4096))
      in case (queues, sqes) of
           (Some q, Some e) \<Rightarrow>
             ((sk_fd k, small_params p),
              put q 16 4 63 (put q 20 4 127 (put q 24 4 64 (put q 28 4 128 m))),
              k\<lparr>sk_fd := sk_fd k + 1, sk_obj := sk_obj k + 2, sk_rings := (sk_fd k, in_kernel, q, e) # sk_rings k\<rparr>)
         | _ \<Rightarrow> ((-1, p), m, k))"

definition small_mmap :: "u64 \<Rightarrow> u32 \<Rightarrow> int \<Rightarrow> u64 \<Rightarrow> (small_kernel, u64 \<times> int \<times> nat \<times> nat) kcall" where
  "small_mmap len flags fd off ms m k =
     (let k' = k\<lparr>sk_addr := sk_addr k + len\<rparr> in
      if sk_addr k = 0 then ((MAP_FAILED, ENOMEM, 0, 0), m, k)
      else if fd = -1 then ((sk_addr k, 0, sk_obj k, 0), m, k'\<lparr>sk_obj := Suc (sk_obj k)\<rparr>)
      else case map_of (sk_rings k) fd of
             None \<Rightarrow> ((MAP_FAILED, 9, 0, 0), m, k)
           | Some (in_kernel, q, e) \<Rightarrow>
               if off = IORING_OFF_SQ_RING \<and> in_kernel then ((sk_addr k, 0, q), m, k')
               else if off = IORING_OFF_SQES \<and> in_kernel then ((sk_addr k, 0, e), m, k')
               else ((MAP_FAILED, EINVAL, 0, 0), m, k))"

definition small_enter :: "int \<Rightarrow> u32 \<Rightarrow> u32 \<Rightarrow> u32 \<Rightarrow> (small_kernel, int \<times> int) kcall" where
  "small_enter fd n want flags ms m k =
     (case map_of (sk_rings k) fd of
        None \<Rightarrow> ((-1, 9), m, k)
      | Some (_, q, e) \<Rightarrow>
          let head = get q 0 4 m; tail = get q 12 4 m; tag = get e (64 * (head mod 64) + 32) 8 m
          in ((1, 0), put q 0 4 (Suc head) (put q 12 4 (Suc tail)
               (put q (64 + 16 * (tail mod 128)) 8 tag (put q (72 + 16 * (tail mod 128)) 8 0 m))), k))"

definition small_os :: "small_kernel mm_os" where
  "small_os = \<lparr>
     mm_async = (\<lambda>ms m k. (False, m, k)),
     mm_setup = small_setup,
     mm_enter = small_enter,
     mm_mmap = small_mmap,
     mm_munmap = (\<lambda>a len ms m k. (a \<noteq> MAP_FAILED, m, k)),
     mm_close = (\<lambda>fd ms m k. (True, m, k)),
     mm_clock = (\<lambda>ms m k. (Some (0, sk_clock k), m, k\<lparr>sk_clock := sk_clock k + 10\<rparr>)),
     mm_usleep = (\<lambda>us ms m k. ((), m, k)),
     mm_pagesize = 4096,
     mm_nprocs = (\<lambda>ms m k. (4, m, k)),
     mm_setaffinity = (\<lambda>cpu ms m k. (True, m, k)),
     mm_getcpu = (\<lambda>ms m k. (2, m, k)),
     mm_read_file = (\<lambda>path n ms m k. (Some ''7.0\<newline>'', m, k)),
     mm_getenv = (\<lambda>_. None),
     mm_fopen = (\<lambda>path ms m k. (True, m, k)),
     mm_write = (\<lambda>line ms m k. (True, m, k)),
     mm_fclose = (\<lambda>ms m k. (True, m, k)),
     mm_ratio6 = (\<lambda>a b. ''0.000000'')\<rparr>"

definition small_start :: "small_kernel proc" where
  "small_start = \<lparr>
     kst = \<lparr>sk_clock = 0, sk_fd = 3, sk_addr = 0x10000, sk_obj = 0, sk_rings = []\<rparr>,
     maps = [], mem = (\<lambda>_ _. 0), fds = [0, 1, 2], stop_requested = False, ctr = zero_counters,
     out_lines = [], stdout_lines = [], calls = []\<rparr>"

definition small_geometry :: geometry where
  "small_geometry = geometry_from_params small_os (small_params zero_region_params)"

lemma small_geometry_eq: "small_geometry = \<lparr>geo_sq_entries = 64, geo_cq_entries = 128, geo_features = 1,
    geo_single_mmap = True, geo_sq_sz = 4096, geo_cq_sz = 4096, geo_ring_sz = 4096, geo_sqes_sz = 4096\<rparr>"
  by (simp add: small_geometry_def geometry_from_params_def small_params_def sq_bytes_def cq_bytes_def
      page_align_def small_os_def Let_def IORING_FEAT_SINGLE_MMAP_def)

text \<open>The equations that evaluate a run whose rounds only map and unmap.\<close>

lemmas evaluate_anon = run_profile_def run_a0_def a0_event_def now_ns_def mmap_def munmap_def
  kernel_def log_call_def count_def change_def give_def seq_def Let_def read_stop_def async_def
  small_os_def small_start_def small_mmap_def drop_mapping.simps counters_pass_def zero_counters_def
  inc_defs MAP_FAILED_def

text \<open>
  The properties of io_uring_memmap_round.c, with runs on that kernel that
  show that their hypotheses can hold.
\<close>

section \<open>The small kernel\<close>

lemma small_nonnull: "nonnull small_os"
  by (auto simp: nonnull_def small_os_def small_mmap_def MAP_FAILED_def Let_def split: option.split)

lemma small_pages: "pages_ok small_os"
  unfolding pages_ok_def by (rule exI [of _ 12]) (simp add: small_os_def)

lemma small_a0_run:
  "\<exists>t. run_profile small_os PROFILE_A0_ANON_MAP 2 small_geometry small_start = Some (Inr 0, t) \<and>
     counters_pass (ctr t) PROFILE_A0_ANON_MAP"
  unfolding small_geometry_eq by (simp add: evaluate_anon upt_rec)

section \<open>Rounds\<close>

text \<open>C4: A round is accepted exactly when it has done what its profile says: \<open>run_profile\<close> with the status 0
  and \<open>counters_pass\<close> mean that the calls of the round are those of the profile, in their order, with the
  answers that are wanted, for every event; the counters and the measured time are then those of
  these calls, and the address space and the descriptors are as before the round.
\<close>

theorem region_round_verdict:
  assumes "nonnull os"
  shows "post (run_profile os prof n g) anyway (\<lambda>rc t. rc = 0 \<longrightarrow>
    (counters_pass (ctr t) prof \<longleftrightarrow>
     (\<exists>cs. round_done os prof n g cs (ctr t) \<and> trail s cs (maps s) (fds s) (ctr t) t))) s"
  by (rule post_mono [OF run_profile_verdict [OF assms]]) (auto dest: round_done_passes)

theorem region_round_verdict_witness:
  "\<exists>t cs. run_profile small_os PROFILE_A0_ANON_MAP 2 small_geometry small_start = Some (Inr 0, t) \<and>
     a0_trace small_geometry 2 cs (timed_ns (ctr t)) \<and> trail small_start cs [] [0, 1, 2] (ctr t) t"
proof -
  obtain t where t: "run_profile small_os PROFILE_A0_ANON_MAP 2 small_geometry small_start = Some (Inr 0, t)"
      "counters_pass (ctr t) PROFILE_A0_ANON_MAP"
    using small_a0_run by blast
  with post_of_run [OF region_round_verdict [OF small_nonnull] t(1)]
  obtain cs where "round_done small_os PROFILE_A0_ANON_MAP 2 small_geometry cs (ctr t)"
      "trail small_start cs [] [0, 1, 2] (ctr t) t"
    by (auto simp: small_start_def)
  with t(1) show ?thesis
    by (intro exI [of _ t] exI [of _ cs]) (auto simp: round_done_def a0_counters_def)
qed

section \<open>The program\<close>

text \<open>The two triples together: with \<open>strict\<close> every ring that is created has the geometry asked for.\<close>

lemma list_all_strict:
  "list_all (answered_if True) new \<longleftrightarrow> list_all answered new \<and> \<not> (\<exists>p fd. SETUP p fd \<in> set new \<and> 0 \<le> fd \<and> \<not> granted p)"
proof -
  have "(\<forall>c \<in> set new. granted_if True c) \<longleftrightarrow> \<not> (\<exists>p fd. SETUP p fd \<in> set new \<and> 0 \<le> fd \<and> \<not> granted p)"
  proof -
    have "granted_if True c \<longleftrightarrow> (\<forall>p fd. c = SETUP p fd \<longrightarrow> 0 \<le> fd \<longrightarrow> granted p)" for c by (cases c) simp_all
    then show ?thesis by blast
  qed
  then show ?thesis by (auto simp: list_all_iff)
qed

lemma list_all_lax: "list_all (answered_if False) new \<longleftrightarrow> list_all answered new"
proof -
  have "granted_if False c" for c by (cases c) simp_all
  then show ?thesis by (simp add: list_all_iff)
qed

lemma safe_end:
  assumes safe: "\<And>strict. safely strict (just (maps s) (fds s)) (main os args) (given_back strict prof (maps s) (fds s))"
  shows "post (main os args)
    (\<lambda>code t. \<exists>new. calls t = calls s @ new \<and> (list_all answered new \<longrightarrow> code = EXIT_FAILURE))
    (\<lambda>rc t. \<exists>new. calls t = calls s @ new \<and> (list_all answered new \<longrightarrow> maps t = maps s \<and>
       (fds t = fds s \<or>
        prof = PROFILE_E0_ERRORS \<and> rc = EXIT_FAILURE \<and> (\<exists>p fd. SETUP p fd \<in> set new \<and> 0 \<le> fd \<and> \<not> granted p) \<and>
          (\<exists>fd. fds t = fd # fds s)))) s"
proof -
  have each: "post (main os args) (\<lambda>c t. then_safe strict s (c = EXIT_FAILURE) t)
      (\<lambda>a t. then_safe strict s (given_back strict prof (maps s) (fds s) a (maps t) (fds t)) t) s" for strict
    using safe by (simp add: safely_def just_def)
  have codes: "post (main os args) (\<lambda>_ _. True) (\<lambda>rc _. rc \<in> {EXIT_SUCCESS, EXIT_FAILURE}) s"
    using main_codes [of os args] by (auto simp: returns_in_def post_def wp_def split: option.splits sum.splits)
  have new: "calls t = calls s @ new \<Longrightarrow> then_safe strict s b t \<longleftrightarrow> (list_all (answered_if strict) new \<longrightarrow> b)" for t new strict b
    by (auto simp: then_safe_def)
  show ?thesis
    using each [of True] each [of False] codes
    by (cases "main os args s") (fastforce simp: post_def wp_def then_safe_def list_all_strict list_all_lax given_back_def just_def
        EXIT_SUCCESS_def split: sum.splits)+
qed

text \<open>C14: An exit with 0 means that every round of the mode has been run and accepted, in order, with the
  geometry of a ring the kernel has granted, and that the output is the header and one row for
  each round, written from its counters; mappings and descriptors are as at the start.
\<close>

theorem region_main_complete:
  assumes "nonnull os" and "parse_options args = Some opt" and "opt_mode opt \<noteq> MODE_DESCRIBE"
  shows "post (main os args) anyway (\<lambda>rc t. rc = EXIT_SUCCESS \<longrightarrow> run_complete os opt s t) s"
  by (rule main_done [OF assms])

definition a0_smoke :: "string list" where
  "a0_smoke = [''--profile'', ''a0_anon_map'', ''--mode'', ''smoke'', ''--output'', ''f'', ''--execute'']"

lemma small_a0_smoke:
  "\<exists>t. main small_os a0_smoke small_start = Some (Inr EXIT_SUCCESS, t) \<and>
     list_all answered (calls t)"
  unfolding a0_smoke_def
  by (simp add: main_def parse_options_def parse_profile_def parse_mode_def initial_options_def options_ok_def
     options.defs execute_def pin_cpu_def read_text_def discover_geometry_def setup_standard_ring_def io_uring_setup_def
     small_setup_def small_params_def close_fd_def run_rounds_def one_round_def write_header_def write_line_def write_result_def
    evaluate_anon get_counters_def event_count_def SMOKE_EVENTS_def round_count_def upt_rec
    zero_region_params_def zero_params_def io_uring_params.defs region_params.defs IORING_SETUP_NO_MMAP_def IORING_SETUP_CQSIZE_def
    geometry_valid_def RING_ENTRIES_def CQ_ENTRIES_def raw_ring_reset_def geometry_from_params_def sq_bytes_def cq_bytes_def page_align_def
    IORING_FEAT_SINGLE_MMAP_def EXIT_SUCCESS_def put_def offsets_ok_def)

definition a0_options :: options where
  "a0_options = \<lparr>opt_profile = PROFILE_A0_ANON_MAP, opt_mode = MODE_SMOKE, opt_output_path = Some ''f'',
     opt_cpu = 2, opt_execute = True\<rparr>"

lemma a0_parsed: "parse_options a0_smoke = Some a0_options"
  by (simp add: a0_smoke_def a0_options_def parse_options_def parse_profile_def parse_mode_def
      initial_options_def options_ok_def options.defs)

theorem region_main_complete_witness:
  "\<exists>t row. main small_os a0_smoke small_start = Some (Inr EXIT_SUCCESS, t) \<and>
     out_lines t = [result_header, row] \<and> maps t = [] \<and> fds t = [0, 1, 2]"
proof -
  have "opt_mode a0_options \<noteq> MODE_DESCRIBE" by (simp add: a0_options_def)
  note complete = region_main_complete [OF small_nonnull a0_parsed this, of small_start]
  obtain t where t: "main small_os a0_smoke small_start = Some (Inr EXIT_SUCCESS, t)"
    using small_a0_smoke by blast
  from post_of_run [OF complete t] have "run_complete small_os a0_options small_start t" by simp
  with t show ?thesis
    by (auto simp: run_complete_def rounds_done_def round_count_def small_start_def a0_options_def)
qed

text \<open>C19: Memory safety and release. Whatever happens, as long as the kernel answers as documented, no access
  of the program leaves the memory that is mapped at that moment, so that the only exit from within is the one of
  \<open>now_ns\<close>; and when \<open>main\<close> returns, the mappings are those it found, and so are the descriptors, with one
  exception: an error round for which the kernel has created a ring with another geometry than the one asked for fails and
  may have lost one descriptor, and only one.
\<close>

theorem region_main_safe:
  assumes "pages_ok os" and "parse_options args = Some opt"
  shows "post (main os args)
    (\<lambda>code t. \<exists>new. calls t = calls s @ new \<and> (list_all answered new \<longrightarrow> code = EXIT_FAILURE))
    (\<lambda>rc t. \<exists>new. calls t = calls s @ new \<and> (list_all answered new \<longrightarrow> maps t = maps s \<and>
       (fds t = fds s \<or>
        opt_profile opt = PROFILE_E0_ERRORS \<and> rc = EXIT_FAILURE \<and> (\<exists>p fd. SETUP p fd \<in> set new \<and> 0 \<le> fd \<and> \<not> granted p) \<and>
          (\<exists>fd. fds t = fd # fds s)))) s"
  using main_released [OF assms] by (rule safe_end)

theorem region_main_safe_witness:
  "\<exists>t. main small_os a0_smoke small_start = Some (Inr EXIT_SUCCESS, t) \<and>
     list_all answered (calls t) \<and> maps t = [] \<and> fds t = [0, 1, 2]"
proof -
  obtain t where t: "main small_os a0_smoke small_start = Some (Inr EXIT_SUCCESS, t)"
      "list_all answered (calls t)"
    using small_a0_smoke by blast
  from post_of_run [OF region_main_safe [OF small_pages a0_parsed] t(1)] t show ?thesis
    by (auto simp: a0_options_def small_start_def)
qed

text \<open>C24: The program ends when a call is not interrupted for ever, for every command line and whatever else the kernel does:
  \<open>main\<close> returns 0 or 1, or \<open>now_ns\<close> leaves with 1 because the clock could not be read, or an access finds no
  mapping; and the last does not happen where the kernel has answered as documented.
\<close>

theorem region_main_ends:
  assumes "interrupts_bounded os bound"
  shows "\<exists>r t new. main os args s = Some (r, t) \<and> calls t = calls s @ new \<and>
    r \<in> {Inr EXIT_SUCCESS, Inr EXIT_FAILURE, Inl EXIT_FAILURE, Inl SIGSEGV_STATUS} \<and>
    (pages_ok os \<longrightarrow> list_all answered new \<longrightarrow> r \<noteq> Inl SIGSEGV_STATUS)"
proof -
  obtain r t where run: "main os args s = Some (r, t)"
    using region_main_back [OF assms(1), of args] unfolding comes_back_def by fastforce
  have codes: "r \<in> {Inr EXIT_SUCCESS, Inr EXIT_FAILURE, Inl EXIT_FAILURE, Inl SIGSEGV_STATUS}"
    using main_codes [of os args] region_main_exits [of os args] run
    by (cases r) (fastforce simp: exits_in_def returns_in_def)+
  show ?thesis
  proof (cases "parse_options args")
    case None
    then have "main os args s = Some (Inr EXIT_FAILURE, s)" by (simp add: main_def give_def)
    with run codes show ?thesis by auto
  next
    case (Some opt)
    have "\<exists>new. calls t = calls s @ new \<and> (pages_ok os \<longrightarrow> list_all answered new \<longrightarrow> r \<noteq> Inl SIGSEGV_STATUS)"
    proof (cases "pages_ok os")
      case True
      have "SIGSEGV_STATUS \<noteq> EXIT_FAILURE" by (simp add: SIGSEGV_STATUS_def EXIT_FAILURE_def)
      then show ?thesis
        using safe_end [OF main_released [OF True Some], of s] run
        by (auto simp: post_def wp_def split: sum.splits)
    next
      case False
      have "grows s t" using main_grows [of os args] run
        by (cases r) (auto simp: logs_def post_def wp_def split: option.splits dest!: spec [of _ s])
      with False show ?thesis by (auto simp: grows_def)
    qed
    with run codes show ?thesis by blast
  qed
qed

theorem region_main_ends_witness:
  "\<exists>r t. main small_os a0_smoke small_start = Some (r, t) \<and> r \<in> {Inr EXIT_SUCCESS, Inr EXIT_FAILURE, Inl EXIT_FAILURE} \<and>
     list_all answered (calls t)"
proof -
  have "interrupts_bounded small_os (\<lambda>_. 0)"
    by (auto simp: interrupts_bounded_def small_os_def small_enter_def Let_def EINTR_def split: option.splits)
  from region_main_ends [OF this, of a0_smoke small_start]
  obtain r t new where r: "main small_os a0_smoke small_start = Some (r, t)" "calls t = calls small_start @ new"
      "r \<in> {Inr EXIT_SUCCESS, Inr EXIT_FAILURE, Inl EXIT_FAILURE, Inl SIGSEGV_STATUS}"
      "list_all answered new \<Longrightarrow> r \<noteq> Inl SIGSEGV_STATUS"
    using small_pages by blast
  have "list_all answered (calls t)" using small_a0_smoke r(1) by auto
  with r show ?thesis by (auto simp: small_start_def)
qed

section \<open>A descriptor that is not closed\<close>



section \<open>Geometry\<close>

text \<open>\<open>geometry_valid\<close> accepts exactly the parameters with the entries that were asked for and a single
  mapping: its other tests can only hold then, as neither the sizes nor their alignment wrap around.
\<close>

theorem region_geometry_exact:
  assumes "pages_ok os"
  shows "geometry_valid p (geometry_from_params os p) \<longleftrightarrow>
    p_sq_entries p = RING_ENTRIES \<and> p_cq_entries p = CQ_ENTRIES \<and>
    p_features p AND IORING_FEAT_SINGLE_MMAP \<noteq> 0"
  using geometry_valid_iff [OF assms, of p] by (simp add: granted_def)

theorem region_geometry_exact_witness:
  "geometry_valid (small_params zero_region_params) small_geometry \<and>
   \<not> geometry_valid zero_region_params (geometry_from_params small_os zero_region_params)"
  unfolding small_geometry_def region_geometry_exact [OF small_pages]
  by (simp add: small_params_def RING_ENTRIES_def CQ_ENTRIES_def IORING_FEAT_SINGLE_MMAP_def
      zero_region_params_def zero_params_def io_uring_params.defs)

end
