(* ===== verification/Net_Base.thy ===== *)
theory Net_Base
  imports Exit_Monad Uring_Abi
begin

text \<open>
  io_uring_net_round.c: constants and types of the program, and the process it runs in.

  The ring is memory shared with the kernel (\<open>ring_mem\<close>). The other memory the kernel reads and
  writes through addresses that the program hands over, so it is a heap for each type of object,
  indexed by address; the arrays of \<open>struct workload\<close> lie at the offsets that the x86-64 ABI gives
  them from \<open>net_work\<close>, the address of \<open>work\<close> in \<open>main\<close>. The kernel is the parameter \<open>'k net_os\<close>; it may change
  memory before any access. \<open>calls\<close> records what the program has seen of it.
\<close>

section \<open>Constants\<close>

definition SCHEMA_VERSION :: nat where "SCHEMA_VERSION = 1"
definition CONTRACT_CPU :: u32 where "CONTRACT_CPU = 2"
definition RING_ENTRIES :: u32 where "RING_ENTRIES = 128"
definition QD :: nat where "QD = 32"
definition PAYLOAD_BYTES :: nat where "PAYLOAD_BYTES = 128"
definition IOV_COUNT :: nat where "IOV_COUNT = 16"
definition IOV_BYTES :: nat where "IOV_BYTES = PAYLOAD_BYTES div IOV_COUNT"
definition PBUF_ENTRIES :: nat where "PBUF_ENTRIES = 64"
definition PBUF_BGID :: u16 where "PBUF_BGID = 23"
definition ORDINARY_OPS_PER_ROUND :: u32 where "ORDINARY_OPS_PER_ROUND = 65536"
definition MSHOT_OPS_PER_ROUND :: u32 where "MSHOT_OPS_PER_ROUND = 32768"
definition SMOKE_ORDINARY_OPS :: u32 where "SMOKE_ORDINARY_OPS = 1024"
definition SMOKE_MSHOT_OPS :: u32 where "SMOKE_MSHOT_OPS = 1024"
definition TRACE_ORDINARY_OPS :: u32 where "TRACE_ORDINARY_OPS = 512"
definition TRACE_MSHOT_OPS :: u32 where "TRACE_MSHOT_OPS = 512"
definition WARMUP_ROUNDS :: nat where "WARMUP_ROUNDS = 3"
definition MEASURED_ROUNDS :: nat where "MEASURED_ROUNDS = 15"
definition MSHOT_TAG :: u64 where "MSHOT_TAG = 0x4d00000000000000"
definition CANCEL_TAG :: u64 where "CANCEL_TAG = 0x4300000000000000"

text \<open>From the system headers.\<close>

definition ENOBUFS :: int where "ENOBUFS = 105"
definition IORING_OP_SENDMSG :: u8 where "IORING_OP_SENDMSG = 9"
definition IORING_OP_RECVMSG :: u8 where "IORING_OP_RECVMSG = 10"
definition IORING_OP_SEND :: u8 where "IORING_OP_SEND = 26"
definition IORING_OP_RECV :: u8 where "IORING_OP_RECV = 27"
definition IORING_RECV_MULTISHOT :: u16 where "IORING_RECV_MULTISHOT = 2"
definition IOSQE_BUFFER_SELECT :: u8 where "IOSQE_BUFFER_SELECT = 0x20"
definition IORING_CQE_F_BUFFER :: u32 where "IORING_CQE_F_BUFFER = 1"
definition IORING_CQE_F_MORE :: u32 where "IORING_CQE_F_MORE = 2"
definition IORING_CQE_BUFFER_SHIFT :: nat where "IORING_CQE_BUFFER_SHIFT = 16"
definition MSG_DONTWAIT :: u32 where "MSG_DONTWAIT = 0x40"
definition MSG_NOSIGNAL :: u32 where "MSG_NOSIGNAL = 0x4000"
definition O_NONBLOCK :: u32 where "O_NONBLOCK = 0x800"
definition SO_SNDBUF :: u32 where "SO_SNDBUF = 7"
definition SO_RCVBUF :: u32 where "SO_RCVBUF = 8"

section \<open>Types\<close>

datatype profile_id =
    PROFILE_UNSET
  | PROFILE_S0
  | PROFILE_S1
  | PROFILE_R0
  | PROFILE_R1
  | PROFILE_M0
  | PROFILE_C0
  | PROFILE_U0

datatype mode_id =
    MODE_UNSET
  | MODE_DESCRIBE
  | MODE_SMOKE
  | MODE_TRACE
  | MODE_POINT

datatype phase_id =
    PHASE_SMOKE
  | PHASE_TRACE
  | PHASE_MEASURED

record options =
  opt_profile :: profile_id
  opt_mode :: mode_id
  opt_output_path :: "string option"
  opt_execute :: bool

record raw_ring =
  ring_fd :: int
  ring_sq_ptr :: u64
  ring_cq_ptr :: u64
  ring_sqes_ptr :: u64
  ring_sq_sz :: u64
  ring_cq_sz :: u64
  ring_sqes_sz :: u64
  ring_single_mmap :: bool
  ring_sq_head :: u64
  ring_sq_tail :: u64
  ring_sq_mask :: u64
  ring_sq_entries :: u64
  ring_sq_dropped :: u64
  ring_sq_array :: u64
  ring_sqes :: u64
  ring_cq_head :: u64
  ring_cq_tail :: u64
  ring_cq_mask :: u64
  ring_cq_entries :: u64
  ring_cq_overflow :: u64
  ring_cqes :: u64

definition zero_ring :: raw_ring where
  "zero_ring = \<lparr>ring_fd = 0, ring_sq_ptr = 0, ring_cq_ptr = 0, ring_sqes_ptr = 0, ring_sq_sz = 0,
     ring_cq_sz = 0, ring_sqes_sz = 0, ring_single_mmap = False, ring_sq_head = 0, ring_sq_tail = 0,
     ring_sq_mask = 0, ring_sq_entries = 0, ring_sq_dropped = 0, ring_sq_array = 0, ring_sqes = 0,
     ring_cq_head = 0, ring_cq_tail = 0, ring_cq_mask = 0, ring_cq_entries = 0,
     ring_cq_overflow = 0, ring_cqes = 0\<rparr>"

text \<open>
  The members of \<open>struct workload\<close> that only the program itself uses; the arrays that the kernel is given
  the addresses of are in memory. \<open>work_pbuf\<close> are the addresses of the provided buffers, zero for \<open>NULL\<close>.
\<close>

record workload =
  work_ring :: raw_ring
  work_sockets :: "int \<times> int"
  work_cqe_copy :: "nat \<Rightarrow> cqe"
  work_pbuf_ring :: u64
  work_pbuf :: "nat \<Rightarrow> u64"
  work_pbuf_tail :: u16
  work_pbuf_registered :: bool
  work_release :: string
  work_boot_id :: string

definition zero_cqe :: cqe where
  "zero_cqe = \<lparr>cqe_user_data = 0, cqe_res = 0, cqe_flags = 0\<rparr>"

text \<open>\<open>work\<close> after \<open>memset\<close> and the three assignments of \<open>main\<close>.\<close>

definition initial_workload :: workload where
  "initial_workload = \<lparr>work_ring = zero_ring\<lparr>ring_fd := -1\<rparr>, work_sockets = (-1, -1),
     work_cqe_copy = (\<lambda>_. zero_cqe), work_pbuf_ring = 0, work_pbuf = (\<lambda>_. 0), work_pbuf_tail = 0,
     work_pbuf_registered = False, work_release = [], work_boot_id = []\<rparr>"

record result =
  logical_ops :: u64
  logical_bytes :: u64
  res_sqes :: u64
  res_cqes :: u64
  timed_enters :: u64
  total_enters :: u64
  elapsed_ns :: u64
  successful_results :: u64
  bad_results :: u64
  bad_flags :: u64
  bad_user_data :: u64
  duplicate_bids :: u64
  content_mismatches :: u64
  eagain_results :: u64
  enobufs_results :: u64
  cancel_cqes :: u64
  pbuf_head_delta :: u64
  res_outstanding :: u64
  res_sq_dropped :: u64
  res_cq_overflow :: u64
  semantic_pass :: bool

definition zero_result :: result where
  "zero_result = \<lparr>logical_ops = 0, logical_bytes = 0, res_sqes = 0, res_cqes = 0, timed_enters = 0,
     total_enters = 0, elapsed_ns = 0, successful_results = 0, bad_results = 0, bad_flags = 0,
     bad_user_data = 0, duplicate_bids = 0, content_mismatches = 0, eagain_results = 0,
     enobufs_results = 0, cancel_cqes = 0, pbuf_head_delta = 0, res_outstanding = 0,
     res_sq_dropped = 0, res_cq_overflow = 0, semantic_pass = False\<rparr>"

section \<open>Memory\<close>

record iovec =
  iov_base :: u64
  iov_len :: u64

record msghdr =
  msg_iov :: u64
  msg_iovlen :: u64

record io_uring_buf =
  buf_addr :: u64
  buf_len :: u32
  buf_bid :: u16

text \<open>\<open>shorts\<close> has the tail of the buffer ring, which lies in a member of \<open>bufs[0]\<close> that nothing else uses.\<close>

record memory =
  shm :: ring_mem
  bytes :: "u64 \<Rightarrow> u8"
  iovecs :: "u64 \<Rightarrow> iovec"
  msghdrs :: "u64 \<Rightarrow> msghdr"
  ring_bufs :: "u64 \<Rightarrow> io_uring_buf"
  shorts :: "u64 \<Rightarrow> u16"

definition peek :: "memory \<Rightarrow> u64 \<Rightarrow> nat \<Rightarrow> u8 list" where
  "peek m a n = map (\<lambda>i. bytes m (a + of_nat i)) [0..<n]"

definition poke :: "u64 \<Rightarrow> u8 list \<Rightarrow> memory \<Rightarrow> memory" where
  "poke a bs m = m\<lparr>bytes := (\<lambda>x. if unat (x - a) < length bs then bs ! unat (x - a) else bytes m x)\<rparr>"

text \<open>The arrays of \<open>struct workload\<close>, whose address is \<open>w\<close>.\<close>

definition send_buf :: "u64 \<Rightarrow> nat \<Rightarrow> u64" where
  "send_buf w i = w + 176 + of_nat (i * PAYLOAD_BYTES)"

definition recv_buf :: "u64 \<Rightarrow> nat \<Rightarrow> u64" where
  "recv_buf w i = w + 4272 + of_nat (i * PAYLOAD_BYTES)"

definition iov :: "u64 \<Rightarrow> nat \<Rightarrow> nat \<Rightarrow> u64" where
  "iov w i j = w + 8368 + of_nat ((i * IOV_COUNT + j) * 16)"

definition msg :: "u64 \<Rightarrow> nat \<Rightarrow> u64" where
  "msg w i = w + 16560 + of_nat (i * 56)"

text \<open>\<open>&pbuf_ring->bufs[index]\<close> and \<open>&pbuf_ring->tail\<close>\<close>

definition ring_buf :: "u64 \<Rightarrow> nat \<Rightarrow> u64" where
  "ring_buf r i = r + of_nat (i * 16)"

definition ring_buf_tail :: "u64 \<Rightarrow> u64" where
  "ring_buf_tail r = r + 14"

section \<open>The system\<close>

text \<open>The registrations, with the members of \<open>struct io_uring_buf_reg\<close> that are not zero.\<close>

datatype register_req =
    REGISTER_PBUF_RING u64 nat u16
  | UNREGISTER_PBUF_RING u16
  | REGISTER_PBUF_STATUS u16

text \<open>What is recorded: calls with their answers, completions, and buffers when they are compared.\<close>

datatype net_call =
    ENTER u32 u32 int
  | CQE cqe
  | SENT "u8 list" int
  | RECEIVED int "u8 list"
  | RECV_FAILED int
  | SENDMMSG int "u32 list"
  | LOOKED u64 "u8 list"
  | STATUS u16
  | HEALTH u64 u32 u32
  | CLOCK u64

type_synonym ('k, 'a) kcall = "memory \<Rightarrow> 'k \<Rightarrow> 'a \<times> memory \<times> 'k"

text \<open>
  A call that returns a C integer returns the value of \<open>errno\<close> with it. \<open>net_recv\<close> also gives what the
  buffer holds afterwards, \<open>net_sendmmsg\<close>, which is given the iovec of each message, the member \<open>msg_len\<close> of each, \<open>net_register\<close> the
  member \<open>head\<close> of the status. \<open>None\<close> is an error; for \<open>net_mmap\<close> it stands for \<open>MAP_FAILED\<close>. \<open>net_async\<close> is what happens between two
  actions of the program. \<open>net_ratio6 a b\<close> is the text of \<open>(double)a / b\<close> with six decimals.
\<close>

record 'k net_os =
  net_work :: u64
  net_async :: "('k, unit) kcall"
  net_setup :: "u32 \<Rightarrow> io_uring_params \<Rightarrow> ('k, int \<times> io_uring_params) kcall"
  net_enter :: "int \<Rightarrow> u32 \<Rightarrow> u32 \<Rightarrow> u32 \<Rightarrow> ('k, int \<times> int) kcall"
  net_register :: "int \<Rightarrow> register_req \<Rightarrow> ('k, int \<times> u32) kcall"
  net_mmap :: "u64 \<Rightarrow> int \<Rightarrow> u64 \<Rightarrow> ('k, u64 option) kcall"
  net_munmap :: "u64 \<Rightarrow> u64 \<Rightarrow> ('k, unit) kcall"
  net_close :: "int \<Rightarrow> ('k, unit) kcall"
  net_socketpair :: "('k, (int \<times> int) option) kcall"
  net_getfl :: "int \<Rightarrow> ('k, int) kcall"
  net_setfl :: "int \<Rightarrow> u32 \<Rightarrow> ('k, int) kcall"
  net_setsockopt :: "int \<Rightarrow> u32 \<Rightarrow> u32 \<Rightarrow> ('k, unit) kcall"
  net_send :: "int \<Rightarrow> u64 \<Rightarrow> nat \<Rightarrow> u32 \<Rightarrow> ('k, int) kcall"
  net_recv :: "int \<Rightarrow> nat \<Rightarrow> u32 \<Rightarrow> ('k, int \<times> int \<times> u8 list) kcall"
  net_sendmmsg :: "int \<Rightarrow> iovec list \<Rightarrow> u32 \<Rightarrow> ('k, int \<times> int \<times> (nat \<Rightarrow> u32)) kcall"
  net_memalign :: "nat \<Rightarrow> nat \<Rightarrow> ('k, u64 option) kcall"
  net_free :: "u64 \<Rightarrow> ('k, unit) kcall"
  net_clock :: "('k, (u64 \<times> u64) option) kcall"
  net_uname :: "('k, string option) kcall"
  net_setaffinity :: "u32 \<Rightarrow> ('k, bool) kcall"
  net_getcpu :: "('k, int) kcall"
  net_read_file :: "string \<Rightarrow> nat \<Rightarrow> ('k, string option) kcall"
  net_fopen :: "string \<Rightarrow> ('k, bool) kcall"
  net_write :: "string \<Rightarrow> ('k, bool) kcall"
  net_fclose :: "('k, bool) kcall"
  net_ratio6 :: "u64 \<Rightarrow> u64 \<Rightarrow> string"
  net_compiler :: string

text \<open>
  \<open>work\<close> and \<open>res\<close> are the objects that every function is given the addresses of. \<open>maps\<close>, \<open>fds\<close> and
  \<open>blocks\<close> are the mappings, the descriptors and the heap blocks the process holds. \<open>printed\<close> are the lines that have been
  handed to the stream \<open>out\<close>, \<open>out_lines\<close> those of them that were written.
\<close>

record 'k proc =
  kst :: 'k
  mem :: memory
  work :: workload
  res :: result
  maps :: "(u64 \<times> u64) list"
  fds :: "int list"
  blocks :: "u64 list"
  printed :: "string list"
  out_lines :: "string list"
  stdout_lines :: "string list"
  calls :: "net_call list"

type_synonym ('k, 'a) prog = "('k proc, 'a) comp"

definition kernel :: "('k, 'a) kcall \<Rightarrow> ('k, 'a) prog" where
  "kernel f s = (let (a, m, x) = f (mem s) (kst s) in Some (Inr a, s\<lparr>mem := m, kst := x\<rparr>))"

definition log_call :: "net_call \<Rightarrow> ('k, unit) prog" where
  "log_call c = change (\<lambda>s. s\<lparr>calls := calls s @ [c]\<rparr>)"

definition upd_res :: "(result \<Rightarrow> result) \<Rightarrow> ('k, unit) prog" where
  "upd_res f = change (\<lambda>s. s\<lparr>res := f (res s)\<rparr>)"

definition upd_work :: "(workload \<Rightarrow> workload) \<Rightarrow> ('k, unit) prog" where
  "upd_work f = change (\<lambda>s. s\<lparr>work := f (work s)\<rparr>)"

definition upd_ring :: "(raw_ring \<Rightarrow> raw_ring) \<Rightarrow> ('k, unit) prog" where
  "upd_ring f = upd_work (\<lambda>w. w\<lparr>work_ring := f (work_ring w)\<rparr>)"

definition upd_mem :: "(memory \<Rightarrow> memory) \<Rightarrow> ('k, unit) prog" where
  "upd_mem f = change (\<lambda>s. s\<lparr>mem := f (mem s)\<rparr>)"

text \<open>A read of memory that is shared with the kernel.\<close>

definition look :: "'k net_os \<Rightarrow> (memory \<Rightarrow> 'a) \<Rightarrow> ('k, 'a) prog" where
  "look os f = seq (kernel (net_async os)) (\<lambda>_. gets (\<lambda>s. f (mem s)))"

text \<open>
  The pointers of a ring point into its memory, and a load or a store through one of them is an access to the
  member of that memory.
\<close>

definition load_acquire_u32 :: "'k net_os \<Rightarrow> (ring_mem \<Rightarrow> u32) \<Rightarrow> ('k, u32) prog" where
  "load_acquire_u32 os field = look os (\<lambda>m. field (shm m))"

definition upd_shm :: "(ring_mem \<Rightarrow> ring_mem) \<Rightarrow> ('k, unit) prog" where
  "upd_shm f = upd_mem (\<lambda>m. m\<lparr>shm := f (shm m)\<rparr>)"

definition store_release_u32 :: "((u32 \<Rightarrow> u32) \<Rightarrow> ring_mem \<Rightarrow> ring_mem) \<Rightarrow> u32 \<Rightarrow> ('k, unit) prog" where
  "store_release_u32 field val = upd_shm (field (\<lambda>_. val))"

definition store_release_u16 :: "u64 \<Rightarrow> u16 \<Rightarrow> ('k, unit) prog" where
  "store_release_u16 a val = upd_mem (\<lambda>m. m\<lparr>shorts := (shorts m)(a := val)\<rparr>)"

section \<open>System calls\<close>

definition io_uring_setup :: "'k net_os \<Rightarrow> u32 \<Rightarrow> io_uring_params \<Rightarrow> ('k, int \<times> io_uring_params) prog" where
  "io_uring_setup os entries p =
     seq (kernel (net_setup os entries p)) (\<lambda>(fd, p').
     seq (change (\<lambda>s. if 0 \<le> fd then s\<lparr>fds := fd # fds s\<rparr> else s)) (\<lambda>_. give (fd, p')))"

definition mmap :: "'k net_os \<Rightarrow> u64 \<Rightarrow> int \<Rightarrow> u64 \<Rightarrow> ('k, u64 option) prog" where
  "mmap os len fd off =
     seq (kernel (net_mmap os len fd off)) (\<lambda>r.
     seq (change (\<lambda>s. case r of None \<Rightarrow> s | Some a \<Rightarrow> s\<lparr>maps := (a, len) # maps s\<rparr>)) (\<lambda>_. give r))"

text \<open>A mapping that is removed as it was made; the result is ignored.\<close>

definition munmap :: "'k net_os \<Rightarrow> u64 \<Rightarrow> u64 \<Rightarrow> ('k, unit) prog" where
  "munmap os a len =
     seq (kernel (net_munmap os a len)) (\<lambda>_. change (\<lambda>s. s\<lparr>maps := remove1 (a, len) (maps s)\<rparr>))"

text \<open>\<open>close\<close> releases the descriptor also when it reports an error.\<close>

definition close_fd :: "'k net_os \<Rightarrow> int \<Rightarrow> ('k, unit) prog" where
  "close_fd os fd =
     seq (kernel (net_close os fd)) (\<lambda>_. change (\<lambda>s. s\<lparr>fds := remove1 fd (fds s)\<rparr>))"

definition posix_memalign :: "'k net_os \<Rightarrow> nat \<Rightarrow> nat \<Rightarrow> ('k, u64 option) prog" where
  "posix_memalign os align sz =
     seq (kernel (net_memalign os align sz)) (\<lambda>r.
     seq (change (\<lambda>s. case r of None \<Rightarrow> s | Some a \<Rightarrow> s\<lparr>blocks := a # blocks s\<rparr>)) (\<lambda>_. give r))"

definition free :: "'k net_os \<Rightarrow> u64 \<Rightarrow> ('k, unit) prog" where
  "free os a =
     (if a = 0 then give ()
      else seq (kernel (net_free os a)) (\<lambda>_. change (\<lambda>s. s\<lparr>blocks := remove1 a (blocks s)\<rparr>)))"

definition now_ns :: "'k net_os \<Rightarrow> ('k, u64) prog" where
  "now_ns os =
     seq (kernel (net_clock os)) (\<lambda>r. case r of
       None \<Rightarrow> exit_with EXIT_FAILURE
     | Some (sec, nsec) \<Rightarrow>
         seq (log_call (CLOCK (sec * 1000000000 + nsec))) (\<lambda>_. give (sec * 1000000000 + nsec)))"

text \<open>The result is \<open>None\<close> for a return of -1.\<close>

definition read_text :: "'k net_os \<Rightarrow> string \<Rightarrow> nat \<Rightarrow> ('k, string option) prog" where
  "read_text os path sz =
     seq (kernel (net_read_file os path (sz - 1))) (\<lambda>r.
     give (case r of None \<Rightarrow> None | Some bs \<Rightarrow> Some (trim_eol (take (sz - 1) bs))))"

definition pin_cpu :: "'k net_os \<Rightarrow> ('k, int) prog" where
  "pin_cpu os =
     seq (kernel (net_setaffinity os CONTRACT_CPU)) (\<lambda>ok.
     if \<not> ok then give (-1)
     else seq (kernel (net_getcpu os)) (\<lambda>now. give (if now = uint CONTRACT_CPU then 0 else -1)))"

end
