(* ===== verification/Net_Ring.thy ===== *)
theory Net_Ring
  imports Net_Base
begin

text \<open>
  io_uring_net_round.c: the ring, from its creation to its release, the sockets, and the messages
  with their contents.
\<close>

section \<open>Creation and release\<close>

text \<open>The SQ and CQ regions; \<open>None\<close> when a mapping failed.\<close>

definition map_queues :: "'k net_os \<Rightarrow> io_uring_params \<Rightarrow> int \<Rightarrow> ('k, (u64 \<times> u64) option) prog" where
  "map_queues os p fd =
     (let sq_sz = ucast (p_sq_off_array p) + ucast (p_sq_entries p) * 4;
          cq_sz = ucast (p_cq_off_cqes p) + ucast (p_cq_entries p) * 16;
          single = (p_features p AND IORING_FEAT_SINGLE_MMAP \<noteq> 0)
      in seq (upd_ring (\<lambda>r. r\<lparr>ring_single_mmap := single\<rparr>)) (\<lambda>_.
         if single then
           (let shared_sz = (if sq_sz > cq_sz then sq_sz else cq_sz)
            in seq (mmap os shared_sz fd IORING_OFF_SQ_RING) (\<lambda>sq.
               case sq of
                 None \<Rightarrow> give None
               | Some a \<Rightarrow>
                   seq (upd_ring (\<lambda>r. r\<lparr>ring_sq_sz := shared_sz, ring_cq_sz := shared_sz\<rparr>)) (\<lambda>_.
                   give (Some (a, a)))))
         else
           seq (mmap os sq_sz fd IORING_OFF_SQ_RING) (\<lambda>sq.
           case sq of
             None \<Rightarrow> give None
           | Some a \<Rightarrow>
               seq (mmap os cq_sz fd IORING_OFF_CQ_RING) (\<lambda>cq.
               case cq of
                 None \<Rightarrow> seq (munmap os a sq_sz) (\<lambda>_. give None)
               | Some b \<Rightarrow>
                   seq (upd_ring (\<lambda>r. r\<lparr>ring_sq_sz := sq_sz, ring_cq_sz := cq_sz\<rparr>)) (\<lambda>_.
                   give (Some (a, b)))))))"

definition ring_pointers :: "io_uring_params \<Rightarrow> u64 \<Rightarrow> u64 \<Rightarrow> raw_ring \<Rightarrow> raw_ring" where
  "ring_pointers p sq cq ring =
     ring\<lparr>ring_sq_head := sq + ucast (p_sq_off_head p),
          ring_sq_tail := sq + ucast (p_sq_off_tail p),
          ring_sq_mask := sq + ucast (p_sq_off_ring_mask p),
          ring_sq_entries := sq + ucast (p_sq_off_ring_entries p),
          ring_sq_dropped := sq + ucast (p_sq_off_dropped p),
          ring_sq_array := sq + ucast (p_sq_off_array p),
          ring_sqes := ring_sqes_ptr ring,
          ring_cq_head := cq + ucast (p_cq_off_head p),
          ring_cq_tail := cq + ucast (p_cq_off_tail p),
          ring_cq_mask := cq + ucast (p_cq_off_ring_mask p),
          ring_cq_entries := cq + ucast (p_cq_off_ring_entries p),
          ring_cq_overflow := cq + ucast (p_cq_off_overflow p),
          ring_cqes := cq + ucast (p_cq_off_cqes p)\<rparr>"

text \<open>From the mapping of the queues on.\<close>

definition map_sqes :: "'k net_os \<Rightarrow> io_uring_params \<Rightarrow> int \<Rightarrow> u64 \<Rightarrow> u64 \<Rightarrow> ('k, int) prog" where
  "map_sqes os p fd sq cq =
     (let sqes_sz = ucast (p_sq_entries p) * 64
      in seq (upd_ring (\<lambda>r. r\<lparr>ring_sq_ptr := sq, ring_cq_ptr := cq, ring_sqes_sz := sqes_sz\<rparr>)) (\<lambda>_.
         seq (mmap os sqes_sz fd IORING_OFF_SQES) (\<lambda>sqes.
         case sqes of
           None \<Rightarrow> seq (upd_ring (\<lambda>r. r\<lparr>ring_sqes_ptr := 0\<rparr>)) (\<lambda>_. give (-1))
         | Some a \<Rightarrow>
             seq (upd_ring (\<lambda>r. ring_pointers p sq cq (r\<lparr>ring_sqes_ptr := a\<rparr>))) (\<lambda>_.
             seq (look os (\<lambda>m. sq_entries (shm m))) (\<lambda>entries.
             if entries < of_nat QD then give (-1)
             else seq (look os (\<lambda>m. cq_entries (shm m))) (\<lambda>entries.
                  give (if entries < of_nat (QD + 2) then -1 else 0)))))))"

definition raw_ring_init :: "'k net_os \<Rightarrow> ('k, int) prog" where
  "raw_ring_init os =
     seq (upd_ring (\<lambda>_. zero_ring\<lparr>ring_fd := -1\<rparr>)) (\<lambda>_.
     seq (io_uring_setup os RING_ENTRIES zero_params) (\<lambda>(fd, p).
     seq (upd_ring (\<lambda>r. r\<lparr>ring_fd := fd\<rparr>)) (\<lambda>_.
     if fd < 0 then give (-1)
     else seq (map_queues os p fd) (\<lambda>r.
          case r of None \<Rightarrow> give (-1) | Some (sq, cq) \<Rightarrow> map_sqes os p fd sq cq))))"

definition raw_ring_destroy :: "'k net_os \<Rightarrow> ('k, unit) prog" where
  "raw_ring_destroy os =
     seq (gets (\<lambda>s. work_ring (work s))) (\<lambda>ring.
     seq (if ring_sqes_ptr ring \<noteq> 0 then munmap os (ring_sqes_ptr ring) (ring_sqes_sz ring) else give ()) (\<lambda>_.
     seq (if ring_sq_ptr ring \<noteq> 0 then munmap os (ring_sq_ptr ring) (ring_sq_sz ring) else give ()) (\<lambda>_.
     seq (if \<not> ring_single_mmap ring \<and> ring_cq_ptr ring \<noteq> 0
          then munmap os (ring_cq_ptr ring) (ring_cq_sz ring) else give ()) (\<lambda>_.
     seq (if 0 \<le> ring_fd ring then close_fd os (ring_fd ring) else give ()) (\<lambda>_.
     upd_ring (\<lambda>_. zero_ring\<lparr>ring_fd := -1\<rparr>))))))"

section \<open>Submissions and completions\<close>

definition outstanding :: "'k net_os \<Rightarrow> ('k, u64) prog" where
  "outstanding os =
     seq (load_acquire_u32 os sq_tail) (\<lambda>st.
     seq (load_acquire_u32 os sq_head) (\<lambda>sh.
     seq (load_acquire_u32 os cq_tail) (\<lambda>ct.
     seq (load_acquire_u32 os cq_head) (\<lambda>ch.
     give (ucast (st - sh) + ucast (ct - ch))))))"

text \<open>\<open>do ret = io_uring_enter(..); while (ret < 0 && errno == EINTR);\<close>\<close>

partial_function (option) enter_loop :: "'k net_os \<Rightarrow> int \<Rightarrow> u32 \<Rightarrow> u32 \<Rightarrow> 'k proc
    \<Rightarrow> ((int + int) \<times> 'k proc) option" where
  "enter_loop os fd submit wait s =
     (let ((ret, e), m, x) = net_enter os fd submit wait
            (if wait \<noteq> 0 then IORING_ENTER_GETEVENTS else 0) (mem s) (kst s);
          t = s\<lparr>mem := m, kst := x\<rparr>
      in if ret < 0 \<and> e = EINTR then enter_loop os fd submit wait t else Some (Inr ret, t))"

definition ring_enter :: "'k net_os \<Rightarrow> u32 \<Rightarrow> u32 \<Rightarrow> bool \<Rightarrow> ('k, int) prog" where
  "ring_enter os submit wait timed =
     seq (gets (\<lambda>s. ring_fd (work_ring (work s)))) (\<lambda>fd.
     seq (enter_loop os fd submit wait) (\<lambda>ret.
     seq (log_call (ENTER submit wait ret)) (\<lambda>_.
     seq (upd_res (\<lambda>r. r\<lparr>total_enters := total_enters r + 1\<rparr>)) (\<lambda>_.
     seq (if timed then upd_res (\<lambda>r. r\<lparr>timed_enters := timed_enters r + 1\<rparr>) else give ()) (\<lambda>_.
     give (if ret \<noteq> sint submit then -1 else 0))))))"

text \<open>The entry is zeroed and published before its fields are filled in; the result is its index.\<close>

definition reserve_sqe :: "'k net_os \<Rightarrow> ('k, u32 option) prog" where
  "reserve_sqe os =
     seq (load_acquire_u32 os sq_head) (\<lambda>head.
     seq (load_acquire_u32 os sq_tail) (\<lambda>tail.
     seq (look os (\<lambda>m. sq_entries (shm m))) (\<lambda>entries.
     if tail - head \<ge> entries then give None
     else
       seq (look os (\<lambda>m. sq_mask (shm m))) (\<lambda>msk.
       let index = tail AND msk in
       seq (upd_shm (\<lambda>m. m\<lparr>sqes := (sqes m)(index := zero_sqe),
                            sq_array := (sq_array m)(index := index)\<rparr>)) (\<lambda>_.
       seq (store_release_u32 sq_tail_update (tail + 1)) (\<lambda>_.
       give (Some index)))))))"

text \<open>The assignments \<open>sqe->field = ..\<close> that follow.\<close>

definition fill_sqe :: "u32 \<Rightarrow> (sqe \<Rightarrow> sqe) \<Rightarrow> ('k, unit) prog" where
  "fill_sqe index f = upd_shm (\<lambda>m. m\<lparr>sqes := (sqes m)(index := f (sqes m index))\<rparr>)"

definition copy_cqe :: "'k net_os \<Rightarrow> u32 \<Rightarrow> nat \<Rightarrow> ('k, unit) prog" where
  "copy_cqe os head i =
     seq (look os (\<lambda>m. cqes (shm m) ((head + of_nat i) AND cq_mask (shm m)))) (\<lambda>cqe.
     seq (log_call (CQE cqe)) (\<lambda>_.
     upd_work (\<lambda>w. w\<lparr>work_cqe_copy := (work_cqe_copy w)(i := cqe)\<rparr>)))"

definition copy_cqes :: "'k net_os \<Rightarrow> nat \<Rightarrow> ('k, int) prog" where
  "copy_cqes os expected =
     seq (load_acquire_u32 os cq_head) (\<lambda>head.
     seq (load_acquire_u32 os cq_tail) (\<lambda>tail.
     if tail - head \<noteq> of_nat expected then give (-1)
     else
       seq (each (copy_cqe os head) [0..<expected]) (\<lambda>_.
       seq (store_release_u32 cq_head_update (head + of_nat expected)) (\<lambda>_.
       give 0))))"

section \<open>Messages\<close>

text \<open>\<open>(seq * 131U + i * 17U + 0x5aU) & 0xffU\<close>, where \<open>i * 17U\<close> does not wrap around.\<close>

definition pattern_byte :: "u64 \<Rightarrow> nat \<Rightarrow> u8" where
  "pattern_byte sq i = ucast ((sq * 131 + of_nat i * 17 + 0x5a) AND 0xff)"

definition pattern :: "u64 \<Rightarrow> u8 list" where
  "pattern sq = map (pattern_byte sq) [0..<PAYLOAD_BYTES]"

definition pattern_fill :: "u64 \<Rightarrow> u64 \<Rightarrow> ('k, unit) prog" where
  "pattern_fill a sq = upd_mem (poke a (pattern sq))"

text \<open>\<open>pattern_matches\<close> of the bytes that are compared.\<close>

definition pattern_matches :: "u8 list \<Rightarrow> u64 \<Rightarrow> bool" where
  "pattern_matches bs sq \<longleftrightarrow> bs = pattern sq"

text \<open>\<open>if (!pattern_matches(buffer, seq)) result->content_mismatches++;\<close>\<close>

definition count_mismatch :: "u8 list \<Rightarrow> u64 \<Rightarrow> ('k, unit) prog" where
  "count_mismatch bs sq =
     (if \<not> pattern_matches bs sq
      then upd_res (\<lambda>r. r\<lparr>content_mismatches := content_mismatches r + 1\<rparr>) else give ())"

text \<open>The same for a buffer in memory.\<close>

definition compare_buffer :: "'k net_os \<Rightarrow> u64 \<Rightarrow> u64 \<Rightarrow> ('k, unit) prog" where
  "compare_buffer os a sq =
     seq (look os (\<lambda>m. peek m a PAYLOAD_BYTES)) (\<lambda>bs.
     seq (log_call (LOOKED a bs)) (\<lambda>_.
     count_mismatch bs sq))"

section \<open>Sockets\<close>

definition set_nonblock :: "'k net_os \<Rightarrow> int \<Rightarrow> ('k, int) prog" where
  "set_nonblock os fd =
     seq (kernel (net_getfl os fd)) (\<lambda>flgs.
     if flgs < 0 then give (-1)
     else kernel (net_setfl os fd (word_of_int flgs OR O_NONBLOCK)))"

definition setup_sockets :: "'k net_os \<Rightarrow> ('k, int) prog" where
  "setup_sockets os =
     (let size = 2 ^ 20 in
      seq (kernel (net_socketpair os)) (\<lambda>r.
      case r of
        None \<Rightarrow> give (-1)
      | Some (a, b) \<Rightarrow>
          seq (change (\<lambda>s. s\<lparr>fds := a # b # fds s\<rparr>)) (\<lambda>_.
          seq (upd_work (\<lambda>w. w\<lparr>work_sockets := (a, b)\<rparr>)) (\<lambda>_.
          seq (set_nonblock os a) (\<lambda>rc.
          if rc \<noteq> 0 then give (-1)
          else seq (set_nonblock os b) (\<lambda>rc.
          if rc \<noteq> 0 then give (-1)
          else
            seq (kernel (net_setsockopt os a SO_SNDBUF size)) (\<lambda>_.
            seq (kernel (net_setsockopt os a SO_RCVBUF size)) (\<lambda>_.
            seq (kernel (net_setsockopt os b SO_SNDBUF size)) (\<lambda>_.
            seq (kernel (net_setsockopt os b SO_RCVBUF size)) (\<lambda>_.
            give 0))))))))))"

definition prepare_seg :: "u64 \<Rightarrow> bool \<Rightarrow> nat \<Rightarrow> nat \<Rightarrow> ('k, unit) prog" where
  "prepare_seg w receive slot seg =
     upd_mem (\<lambda>m. m\<lparr>iovecs := (iovecs m)(iov w slot seg :=
       \<lparr>iov_base = (if receive then recv_buf w slot else send_buf w slot) + of_nat (seg * IOV_BYTES),
        iov_len = of_nat IOV_BYTES\<rparr>)\<rparr>)"

definition prepare_slot :: "u64 \<Rightarrow> bool \<Rightarrow> nat \<Rightarrow> ('k, unit) prog" where
  "prepare_slot w receive slot =
     seq (upd_mem (\<lambda>m. m\<lparr>msghdrs := (msghdrs m)(msg w slot := \<lparr>msg_iov = 0, msg_iovlen = 0\<rparr>)\<rparr>)) (\<lambda>_.
     seq (each (prepare_seg w receive slot) [0..<IOV_COUNT]) (\<lambda>_.
     upd_mem (\<lambda>m. m\<lparr>msghdrs := (msghdrs m)(msg w slot :=
       \<lparr>msg_iov = iov w slot 0, msg_iovlen = of_nat IOV_COUNT\<rparr>)\<rparr>)))"

definition prepare_iov :: "'k net_os \<Rightarrow> bool \<Rightarrow> ('k, unit) prog" where
  "prepare_iov os receive = each (prepare_slot (net_work os) receive) [0..<QD]"

text \<open>\<open>work->sockets[1]\<close> is the peer.\<close>

definition peer :: "('k, int) prog" where
  "peer = gets (\<lambda>s. snd (work_sockets (work s)))"

definition peer_send :: "'k net_os \<Rightarrow> u64 \<Rightarrow> nat \<Rightarrow> ('k, int) prog" where
  "peer_send os base i =
     (let a = send_buf (net_work os) i in
      seq (pattern_fill a (base + of_nat i)) (\<lambda>_.
      seq peer (\<lambda>fd.
      seq (gets (\<lambda>s. peek (mem s) a PAYLOAD_BYTES)) (\<lambda>bs.
      seq (kernel (net_send os fd a PAYLOAD_BYTES (MSG_DONTWAIT OR MSG_NOSIGNAL))) (\<lambda>nr.
      seq (log_call (SENT bs nr)) (\<lambda>_.
      give (if nr \<noteq> int PAYLOAD_BYTES then -1 else 0)))))))"

definition peer_fill :: "'k net_os \<Rightarrow> u64 \<Rightarrow> ('k, int) prog" where
  "peer_fill os base = until_fail (peer_send os base) [0..<QD]"

definition peer_recv :: "'k net_os \<Rightarrow> ('k, int \<times> int \<times> u8 list) prog" where
  "peer_recv os =
     seq peer (\<lambda>fd.
     seq (kernel (net_recv os fd PAYLOAD_BYTES MSG_DONTWAIT)) (\<lambda>(nr, e, bs).
     seq (log_call (if 0 \<le> nr then RECEIVED nr bs else RECV_FAILED e)) (\<lambda>_.
     give (nr, e, bs))))"

definition peer_take :: "'k net_os \<Rightarrow> u64 \<Rightarrow> nat \<Rightarrow> ('k, int) prog" where
  "peer_take os base i =
     seq (peer_recv os) (\<lambda>(nr, _, bs).
     if nr \<noteq> int PAYLOAD_BYTES then give (-1)
     else seq (count_mismatch bs (base + of_nat i)) (\<lambda>_. give 0))"

text \<open>The last \<open>recv\<close> must find the queue empty.\<close>

definition peer_drain :: "'k net_os \<Rightarrow> u64 \<Rightarrow> ('k, int) prog" where
  "peer_drain os base =
     seq (until_fail (peer_take os base) [0..<QD]) (\<lambda>rc.
     if rc \<noteq> 0 then give (-1)
     else seq (peer_recv os) (\<lambda>(nr, e, _).
          give (if 0 \<le> nr \<or> e \<noteq> EAGAIN then -1 else 0)))"

definition validate_receive_buffers :: "'k net_os \<Rightarrow> u64 \<Rightarrow> ('k, int) prog" where
  "validate_receive_buffers os base =
     seq (each (\<lambda>i. compare_buffer os (recv_buf (net_work os) i) (base + of_nat i)) [0..<QD]) (\<lambda>_.
     gets (\<lambda>s. if content_mismatches (res s) \<noteq> 0 then -1 else 0))"

end
