(* ===== verification/Net_Rounds.thy ===== *)
theory Net_Rounds
  imports Net_Ring
begin

text \<open>
  io_uring_net_round.c: the rounds of the seven profiles. The loops over \<open>base\<close> run over the numbers of the
  batches, \<open>base\<close> being \<open>QD\<close> times that number; as \<open>operations\<close> is a multiple of \<open>QD\<close> below \<open>2\<^sup>3\<^sup>2\<close>, \<open>base\<close>
  does not wrap around.
\<close>

section \<open>Results\<close>

definition inc :: "bool \<Rightarrow> u64 \<Rightarrow> u64" where
  "inc b n = (if b then n + 1 else n)"

definition account :: "cqe \<Rightarrow> u64 \<Rightarrow> bool \<Rightarrow> result \<Rightarrow> result" where
  "account cqe expected_ud allow_mshot_flags r =
     r\<lparr>res_cqes := res_cqes r + 1,
       bad_user_data := inc (cqe_user_data cqe \<noteq> expected_ud) (bad_user_data r),
       eagain_results := inc (cqe_res cqe = neg_errno EAGAIN) (eagain_results r),
       enobufs_results := inc (cqe_res cqe = neg_errno ENOBUFS) (enobufs_results r),
       bad_results := inc (cqe_res cqe \<noteq> of_nat PAYLOAD_BYTES) (bad_results r),
       successful_results := inc (cqe_res cqe = of_nat PAYLOAD_BYTES) (successful_results r),
       bad_flags := inc (\<not> allow_mshot_flags \<and> cqe_flags cqe \<noteq> 0) (bad_flags r)\<rparr>"

text \<open>\<open>account_result(result, &work->cqe_copy[i], ..)\<close>\<close>

definition account_result :: "nat \<Rightarrow> u64 \<Rightarrow> bool \<Rightarrow> ('k, unit) prog" where
  "account_result i expected_ud allow_mshot_flags =
     seq (gets (\<lambda>s. work_cqe_copy (work s) i)) (\<lambda>cqe.
     upd_res (account cqe expected_ud allow_mshot_flags))"

text \<open>The assignments after the loop, which all rounds have.\<close>

definition read_health :: "'k net_os \<Rightarrow> ('k, unit) prog" where
  "read_health os =
     seq (outstanding os) (\<lambda>left.
     seq (look os (\<lambda>m. sq_dropped (shm m))) (\<lambda>dropped.
     seq (look os (\<lambda>m. cq_overflow (shm m))) (\<lambda>overflow.
     seq (log_call (HEALTH left dropped overflow)) (\<lambda>_.
     upd_res (\<lambda>r. r\<lparr>res_outstanding := left, res_sq_dropped := ucast dropped,
       res_cq_overflow := ucast overflow\<rparr>)))))"

text \<open>\<open>result->semantic_pass = ..; return result->semantic_pass ? 0 : -1;\<close>\<close>

definition set_pass :: "(result \<Rightarrow> bool) \<Rightarrow> ('k, int) prog" where
  "set_pass pass =
     seq (upd_res (\<lambda>r. r\<lparr>semantic_pass := pass r\<rparr>)) (\<lambda>_.
     gets (\<lambda>s. if semantic_pass (res s) then 0 else -1))"

definition now_if :: "bool \<Rightarrow> 'k net_os \<Rightarrow> ('k, u64) prog" where
  "now_if timed os = (if timed then now_ns os else give 0)"

text \<open>\<open>if (timed) result->elapsed_ns += now_ns() - started;\<close>\<close>

definition add_elapsed :: "bool \<Rightarrow> 'k net_os \<Rightarrow> u64 \<Rightarrow> ('k, unit) prog" where
  "add_elapsed timed os started =
     (if timed
      then seq (now_ns os) (\<lambda>now. upd_res (\<lambda>r. r\<lparr>elapsed_ns := elapsed_ns r + (now - started)\<rparr>))
      else give ())"

text \<open>The batches of a round, or a return of -1 when \<open>operations\<close> is no multiple of \<open>QD\<close> or is zero.\<close>

definition batch_ok :: "u32 \<Rightarrow> bool" where
  "batch_ok operations \<longleftrightarrow> \<not> (operations = 0 \<or> operations mod of_nat QD \<noteq> 0)"

definition batches :: "u32 \<Rightarrow> nat list" where
  "batches operations = [0..<unat operations div QD]"

definition base_of :: "nat \<Rightarrow> u64" where
  "base_of k = of_nat (QD * k)"

section \<open>SEND, SENDMSG, RECV and RECVMSG\<close>

definition send_path :: "profile_id \<Rightarrow> bool" where
  "send_path prof \<longleftrightarrow> prof = PROFILE_S0 \<or> prof = PROFILE_S1"

definition msg_path :: "profile_id \<Rightarrow> bool" where
  "msg_path prof \<longleftrightarrow> prof = PROFILE_S1 \<or> prof = PROFILE_R1"

definition ordinary_sqe :: "u64 \<Rightarrow> int \<Rightarrow> profile_id \<Rightarrow> u64 \<Rightarrow> nat \<Rightarrow> sqe" where
  "ordinary_sqe w fd prof base i = zero_sqe\<lparr>
     sqe_opcode := (if prof = PROFILE_S0 then IORING_OP_SEND
                    else if prof = PROFILE_S1 then IORING_OP_SENDMSG
                    else if prof = PROFILE_R0 then IORING_OP_RECV else IORING_OP_RECVMSG),
     sqe_fd := fd,
     sqe_addr := (if msg_path prof then msg w i
                  else if send_path prof then send_buf w i else recv_buf w i),
     sqe_len := (if msg_path prof then 1 else of_nat PAYLOAD_BYTES),
     sqe_op_flags := MSG_DONTWAIT OR (if send_path prof then MSG_NOSIGNAL else 0),
     sqe_user_data := base + of_nat i\<rparr>"

definition nop_sqe :: "u64 \<Rightarrow> nat \<Rightarrow> sqe" where
  "nop_sqe base i = zero_sqe\<lparr>sqe_opcode := IORING_OP_NOP, sqe_fd := -1, sqe_user_data := base + of_nat i\<rparr>"

text \<open>The body of the loop that writes the entries; it returns \<open>sq_tail\<close>.\<close>

definition put_sqe :: "'k net_os \<Rightarrow> (nat \<Rightarrow> sqe) \<Rightarrow> nat \<Rightarrow> u32 \<Rightarrow> ('k, u32) prog" where
  "put_sqe os f i tail =
     seq (look os (\<lambda>m. sq_mask (shm m))) (\<lambda>msk.
     let index = tail AND msk in
     seq (upd_shm (\<lambda>m. m\<lparr>sqes := (sqes m)(index := f i), sq_array := (sq_array m)(index := index)\<rparr>)) (\<lambda>_.
     give (tail + 1)))"

text \<open>
  What \<open>run_ordinary\<close> and \<open>run_nop_control\<close> both do with a batch, first from the reading of the indices up to
  the \<open>io_uring_enter\<close>, with \<open>started\<close> as its result or \<open>None\<close> for a return of -1.
\<close>

definition fill_queue :: "'k net_os \<Rightarrow> (nat \<Rightarrow> sqe) \<Rightarrow> bool \<Rightarrow> ('k, u64 option) prog" where
  "fill_queue os f timed =
     seq (load_acquire_u32 os sq_head) (\<lambda>head.
     seq (load_acquire_u32 os sq_tail) (\<lambda>tail.
     seq (look os (\<lambda>m. sq_entries (shm m))) (\<lambda>entries.
     if tail - head + of_nat QD > entries then give None
     else
       seq (now_if timed os) (\<lambda>started.
       seq (loop (put_sqe os f) [0..<QD] tail) (\<lambda>tail.
       seq (store_release_u32 sq_tail_update tail) (\<lambda>_.
       seq (upd_res (\<lambda>r. r\<lparr>res_sqes := res_sqes r + of_nat QD\<rparr>)) (\<lambda>_.
       give (Some started))))))))"

text \<open>Then the \<open>io_uring_enter\<close>, the copies of the completions, and the end of the timed region.\<close>

definition collect_batch :: "'k net_os \<Rightarrow> bool \<Rightarrow> u64 \<Rightarrow> ('k, int) prog" where
  "collect_batch os timed started =
     seq (ring_enter os (of_nat QD) (of_nat QD) timed) (\<lambda>rc.
     if rc \<noteq> 0 then give (-1)
     else seq (copy_cqes os QD) (\<lambda>rc.
          if rc \<noteq> 0 then give (-1)
          else seq (add_elapsed timed os started) (\<lambda>_. give 0)))"

definition clear_recv_buf :: "'k net_os \<Rightarrow> ('k, unit) prog" where
  "clear_recv_buf os =
     upd_mem (poke (recv_buf (net_work os) 0) (replicate (QD * PAYLOAD_BYTES) 0))"

text \<open>A batch up to its \<open>io_uring_enter\<close>.\<close>

definition ordinary_stage :: "'k net_os \<Rightarrow> profile_id \<Rightarrow> bool \<Rightarrow> nat \<Rightarrow> ('k, u64 option) prog" where
  "ordinary_stage os prof timed k =
     (let base = base_of k; w = net_work os in
      seq (clear_recv_buf os) (\<lambda>_.
      seq (each (\<lambda>i. pattern_fill (send_buf w i) (base + of_nat i)) [0..<QD]) (\<lambda>_.
      seq (if \<not> send_path prof then peer_fill os base else give 0) (\<lambda>rc.
      if rc \<noteq> 0 then give None
      else
        seq (gets (\<lambda>s. fst (work_sockets (work s)))) (\<lambda>fd.
        fill_queue os (ordinary_sqe w fd prof base) timed)))))"

definition ordinary_batch :: "'k net_os \<Rightarrow> profile_id \<Rightarrow> bool \<Rightarrow> nat \<Rightarrow> ('k, int) prog" where
  "ordinary_batch os prof timed k =
     (let base = base_of k in
      seq (ordinary_stage os prof timed k) (\<lambda>r.
      case r of
        None \<Rightarrow> give (-1)
      | Some started \<Rightarrow>
          seq (collect_batch os timed started) (\<lambda>rc.
          if rc \<noteq> 0 then give (-1)
          else
            seq (each (\<lambda>i. account_result i (base + of_nat i) False) [0..<QD]) (\<lambda>_.
            seq (if send_path prof then peer_drain os base else validate_receive_buffers os base) (\<lambda>rc.
            give (if rc \<noteq> 0 then -1 else 0))))))"

definition ordinary_pass :: "u32 \<Rightarrow> result \<Rightarrow> bool" where
  "ordinary_pass operations r \<longleftrightarrow>
     res_sqes r = ucast operations \<and> res_cqes r = ucast operations \<and>
     successful_results r = ucast operations \<and>
     bad_results r = 0 \<and> bad_flags r = 0 \<and>
     bad_user_data r = 0 \<and> content_mismatches r = 0 \<and>
     eagain_results r = 0 \<and> res_outstanding r = 0 \<and>
     res_sq_dropped r = 0 \<and> res_cq_overflow r = 0"

definition run_ordinary :: "'k net_os \<Rightarrow> profile_id \<Rightarrow> u32 \<Rightarrow> bool \<Rightarrow> ('k, int) prog" where
  "run_ordinary os prof operations timed =
     seq (upd_res (\<lambda>_. zero_result\<lparr>logical_ops := ucast operations,
            logical_bytes := ucast operations * of_nat PAYLOAD_BYTES\<rparr>)) (\<lambda>_.
     if \<not> batch_ok operations then give (-1)
     else
       seq (prepare_iov os (\<not> send_path prof)) (\<lambda>_.
       seq (until_fail (ordinary_batch os prof timed) (batches operations)) (\<lambda>rc.
       if rc \<noteq> 0 then give (-1)
       else seq (read_health os) (\<lambda>_. set_pass (ordinary_pass operations)))))"

section \<open>The control with NOPs\<close>

definition tally_nop :: "cqe \<Rightarrow> u64 \<Rightarrow> result \<Rightarrow> result" where
  "tally_nop cqe expected_ud r =
     r\<lparr>res_cqes := res_cqes r + 1,
       bad_user_data := inc (cqe_user_data cqe \<noteq> expected_ud) (bad_user_data r),
       bad_results := inc (cqe_res cqe \<noteq> 0) (bad_results r),
       successful_results := inc (cqe_res cqe = 0) (successful_results r),
       bad_flags := inc (cqe_flags cqe \<noteq> 0) (bad_flags r)\<rparr>"

definition account_nop :: "nat \<Rightarrow> u64 \<Rightarrow> ('k, unit) prog" where
  "account_nop i expected_ud =
     seq (gets (\<lambda>s. work_cqe_copy (work s) i)) (\<lambda>cqe. upd_res (tally_nop cqe expected_ud))"

definition tally_len :: "u32 \<Rightarrow> result \<Rightarrow> result" where
  "tally_len len r =
     (if len \<noteq> of_nat PAYLOAD_BYTES then r\<lparr>bad_results := bad_results r + 1\<rparr>
      else r\<lparr>successful_results := successful_results r + 1\<rparr>)"

definition nop_batch :: "'k net_os \<Rightarrow> bool \<Rightarrow> nat \<Rightarrow> ('k, int) prog" where
  "nop_batch os timed k =
     (let base = base_of k in
      seq (fill_queue os (nop_sqe base) timed) (\<lambda>r.
      case r of
        None \<Rightarrow> give (-1)
      | Some started \<Rightarrow>
          seq (collect_batch os timed started) (\<lambda>rc.
          if rc \<noteq> 0 then give (-1)
          else seq (each (\<lambda>i. account_nop i (base + of_nat i)) [0..<QD]) (\<lambda>_. give 0))))"

definition nop_pass :: "u32 \<Rightarrow> result \<Rightarrow> bool" where
  "nop_pass operations r \<longleftrightarrow>
     res_sqes r = ucast operations \<and> res_cqes r = ucast operations \<and>
     successful_results r = ucast operations \<and>
     bad_results r = 0 \<and> bad_flags r = 0 \<and>
     bad_user_data r = 0 \<and> res_outstanding r = 0 \<and>
     res_sq_dropped r = 0 \<and> res_cq_overflow r = 0"

definition run_nop_control :: "'k net_os \<Rightarrow> u32 \<Rightarrow> bool \<Rightarrow> ('k, int) prog" where
  "run_nop_control os operations timed =
     seq (upd_res (\<lambda>_. zero_result\<lparr>logical_ops := ucast operations\<rparr>)) (\<lambda>_.
     if \<not> batch_ok operations then give (-1)
     else
       seq (until_fail (nop_batch os timed) (batches operations)) (\<lambda>rc.
       if rc \<noteq> 0 then give (-1)
       else seq (read_health os) (\<lambda>_. set_pass (nop_pass operations))))"

section \<open>The control with \<open>sendmmsg\<close>\<close>

definition sys_iov :: "u64 \<Rightarrow> nat \<Rightarrow> iovec" where
  "sys_iov w i = \<lparr>iov_base = send_buf w i, iov_len = of_nat PAYLOAD_BYTES\<rparr>"

definition send_messages :: "'k net_os \<Rightarrow> ('k, int \<times> int \<times> (nat \<Rightarrow> u32)) prog" where
  "send_messages os =
     (let w = net_work os in
      seq (gets (\<lambda>s. fst (work_sockets (work s)))) (\<lambda>fd.
      seq (kernel (net_sendmmsg os fd (map (sys_iov w) [0..<QD]) (MSG_DONTWAIT OR MSG_NOSIGNAL)))
        (\<lambda>(sent, e, lens).
      seq (log_call (SENDMMSG sent (map lens [0..<QD]))) (\<lambda>_. give (sent, e, lens)))))"

definition account_len :: "(nat \<Rightarrow> u32) \<Rightarrow> nat \<Rightarrow> ('k, unit) prog" where
  "account_len lens i = upd_res (tally_len (lens i))"

definition sys_batch :: "'k net_os \<Rightarrow> bool \<Rightarrow> nat \<Rightarrow> ('k, int) prog" where
  "sys_batch os timed k =
     (let base = base_of k; w = net_work os in
      seq (each (\<lambda>i. pattern_fill (send_buf w i) (base + of_nat i)) [0..<QD]) (\<lambda>_.
      seq (now_if timed os) (\<lambda>started.
      seq (send_messages os) (\<lambda>(sent, e, lens).
      seq (upd_res (\<lambda>r. r\<lparr>total_enters := total_enters r + 1\<rparr>)) (\<lambda>_.
      seq (if timed then upd_res (\<lambda>r. r\<lparr>timed_enters := timed_enters r + 1\<rparr>) else give ()) (\<lambda>_.
      seq (add_elapsed timed os started) (\<lambda>_.
      if sent \<noteq> int QD
      then seq (upd_res (\<lambda>r. r\<lparr>eagain_results := inc (sent < 0 \<and> e = EAGAIN) (eagain_results r),
                               bad_results := bad_results r + 1\<rparr>)) (\<lambda>_. give (-1))
      else
        seq (each (account_len lens) [0..<QD]) (\<lambda>_.
        seq (peer_drain os base) (\<lambda>rc.
        give (if rc \<noteq> 0 then -1 else 0))))))))))"

definition sys_pass :: "u32 \<Rightarrow> result \<Rightarrow> bool" where
  "sys_pass operations r \<longleftrightarrow>
     successful_results r = ucast operations \<and>
     bad_results r = 0 \<and> content_mismatches r = 0 \<and>
     eagain_results r = 0 \<and> res_outstanding r = 0 \<and>
     res_sq_dropped r = 0 \<and> res_cq_overflow r = 0"

definition run_sys_control :: "'k net_os \<Rightarrow> u32 \<Rightarrow> bool \<Rightarrow> ('k, int) prog" where
  "run_sys_control os operations timed =
     seq (upd_res (\<lambda>_. zero_result\<lparr>logical_ops := ucast operations,
            logical_bytes := ucast operations * of_nat PAYLOAD_BYTES\<rparr>)) (\<lambda>_.
     if \<not> batch_ok operations then give (-1)
     else
       seq (until_fail (sys_batch os timed) (batches operations)) (\<lambda>rc.
       if rc \<noteq> 0 then give (-1)
       else seq (read_health os) (\<lambda>_. set_pass (sys_pass operations))))"

text \<open>
  io_uring_net_round.c: the ring of provided buffers and the rounds of multishot receives.
\<close>

section \<open>The ring of provided buffers\<close>

definition register :: "'k net_os \<Rightarrow> register_req \<Rightarrow> ('k, int \<times> u32) prog" where
  "register os req =
     seq (gets (\<lambda>s. ring_fd (work_ring (work s)))) (\<lambda>fd. kernel (net_register os fd req))"

definition register_pbuf :: "'k net_os \<Rightarrow> ('k, int) prog" where
  "register_pbuf os =
     seq (gets (\<lambda>s. work_pbuf_ring (work s))) (\<lambda>a.
     seq (register os (REGISTER_PBUF_RING a PBUF_ENTRIES PBUF_BGID)) (\<lambda>(ret, _).
     seq (upd_work (\<lambda>w. if ret = 0 then w\<lparr>work_pbuf_registered := True\<rparr> else w)) (\<lambda>_.
     give ret)))"

definition unregister_pbuf :: "'k net_os \<Rightarrow> ('k, int) prog" where
  "unregister_pbuf os =
     seq (register os (UNREGISTER_PBUF_RING PBUF_BGID)) (\<lambda>(ret, _).
     seq (upd_work (\<lambda>w. if ret = 0 then w\<lparr>work_pbuf_registered := False\<rparr> else w)) (\<lambda>_.
     give ret))"

text \<open>The result with the value stored to \<open>*head\<close>, when one is stored.\<close>

definition pbuf_status :: "'k net_os \<Rightarrow> ('k, int \<times> u16) prog" where
  "pbuf_status os =
     seq (register os (REGISTER_PBUF_STATUS PBUF_BGID)) (\<lambda>(ret, head).
     seq (if ret = 0 then log_call (STATUS (ucast head)) else give ()) (\<lambda>_.
     give (ret, ucast head)))"

definition buf_index :: "u16 \<Rightarrow> nat" where
  "buf_index tail = unat (tail AND (of_nat PBUF_ENTRIES - 1))"

text \<open>\<open>publish_buffer\<close> with \<open>work->pbuf_tail++\<close>; the buffer ring gets the tail later.\<close>

definition publish :: "u16 \<Rightarrow> 'k proc \<Rightarrow> 'k proc" where
  "publish bid s =
     (let w = work s; a = ring_buf (work_pbuf_ring w) (buf_index (work_pbuf_tail w))
      in s\<lparr>mem := (mem s)\<lparr>ring_bufs := (ring_bufs (mem s))(a :=
              \<lparr>buf_addr = work_pbuf w (unat bid), buf_len = of_nat PAYLOAD_BYTES, buf_bid = bid\<rparr>)\<rparr>,
           work := w\<lparr>work_pbuf_tail := work_pbuf_tail w + 1\<rparr>\<rparr>)"

definition publish_buffer :: "u16 \<Rightarrow> ('k, unit) prog" where
  "publish_buffer bid = change (publish bid)"

definition store_tail :: "('k, unit) prog" where
  "store_tail =
     seq (gets work) (\<lambda>w. store_release_u16 (ring_buf_tail (work_pbuf_ring w)) (work_pbuf_tail w))"

text \<open>\<open>memset(work->pbuf_ring, 0, 4096)\<close>\<close>

definition zero_buf :: io_uring_buf where
  "zero_buf = \<lparr>buf_addr = 0, buf_len = 0, buf_bid = 0\<rparr>"

definition clear_buf_ring :: "u64 \<Rightarrow> memory \<Rightarrow> memory" where
  "clear_buf_ring r m =
     m\<lparr>ring_bufs := (\<lambda>x. if unat (x - r) < 4096 then zero_buf else ring_bufs m x),
       shorts := (\<lambda>x. if unat (x - r) < 4096 then 0 else shorts m x)\<rparr>"

definition alloc_buffer :: "'k net_os \<Rightarrow> nat \<Rightarrow> ('k, int) prog" where
  "alloc_buffer os i =
     seq (posix_memalign os 64 PAYLOAD_BYTES) (\<lambda>r.
     case r of
       None \<Rightarrow> give (-1)
     | Some a \<Rightarrow>
         seq (upd_work (\<lambda>w. w\<lparr>work_pbuf := (work_pbuf w)(i := a)\<rparr>)) (\<lambda>_.
         seq (upd_mem (poke a (replicate PAYLOAD_BYTES 0))) (\<lambda>_. give 0)))"

definition setup_pbuf :: "'k net_os \<Rightarrow> ('k, int) prog" where
  "setup_pbuf os =
     seq (posix_memalign os 4096 4096) (\<lambda>r.
     case r of
       None \<Rightarrow> give (-1)
     | Some a \<Rightarrow>
         seq (upd_work (\<lambda>w. w\<lparr>work_pbuf_ring := a\<rparr>)) (\<lambda>_.
         seq (upd_mem (clear_buf_ring a)) (\<lambda>_.
         seq (until_fail (alloc_buffer os) [0..<PBUF_ENTRIES]) (\<lambda>rc.
         if rc \<noteq> 0 then give (-1)
         else seq (register_pbuf os) (\<lambda>rc.
         if rc \<noteq> 0 then give (-1)
         else
           seq (upd_work (\<lambda>w. w\<lparr>work_pbuf_tail := 0\<rparr>)) (\<lambda>_.
           seq (each (\<lambda>i. publish_buffer (of_nat i)) [0..<PBUF_ENTRIES]) (\<lambda>_.
           seq store_tail (\<lambda>_.
           seq (pbuf_status os) (\<lambda>(rc, head).
           give (if rc = 0 \<and> head = 0 then 0 else -1))))))))))"

section \<open>Cancellation\<close>

definition cancel_ud :: "u64 \<Rightarrow> u64" where
  "cancel_ud request_ud = CANCEL_TAG OR (request_ud AND 0xffffffff)"

definition cancel_sqe :: "u64 \<Rightarrow> sqe \<Rightarrow> sqe" where
  "cancel_sqe request_ud q = q\<lparr>sqe_opcode := IORING_OP_ASYNC_CANCEL, sqe_addr := request_ud,
     sqe_user_data := cancel_ud request_ud\<rparr>"

definition is_terminal :: "u64 \<Rightarrow> cqe \<Rightarrow> bool" where
  "is_terminal request_ud cqe \<longleftrightarrow>
     cqe_user_data cqe = request_ud \<and> cqe_res cqe = neg_errno ECANCELED \<and>
     cqe_flags cqe AND IORING_CQE_F_MORE = 0"

definition is_cancel :: "u64 \<Rightarrow> cqe \<Rightarrow> bool" where
  "is_cancel request_ud cqe \<longleftrightarrow>
     cqe_user_data cqe = cancel_ud request_ud \<and> cqe_res cqe = 0 \<and> cqe_flags cqe = 0"

text \<open>The loop over the two completions; the accumulator is \<open>saw_cancel\<close> and \<open>saw_terminal\<close>.\<close>

definition cancel_step :: "u64 \<Rightarrow> nat \<Rightarrow> bool \<times> bool \<Rightarrow> ('k, bool \<times> bool) prog" where
  "cancel_step request_ud i = (\<lambda>(saw_cancel, saw_terminal).
     seq (gets (\<lambda>s. work_cqe_copy (work s) i)) (\<lambda>cqe.
     seq (upd_res (\<lambda>r. r\<lparr>res_cqes := res_cqes r + 1, cancel_cqes := cancel_cqes r + 1\<rparr>)) (\<lambda>_.
     if is_terminal request_ud cqe then give (saw_cancel, True)
     else if is_cancel request_ud cqe then give (True, saw_terminal)
     else seq (upd_res (\<lambda>r. r\<lparr>bad_results := bad_results r + 1\<rparr>)) (\<lambda>_.
          give (saw_cancel, saw_terminal)))))"

definition cancel_multishot :: "'k net_os \<Rightarrow> u64 \<Rightarrow> ('k, int) prog" where
  "cancel_multishot os request_ud =
     seq (reserve_sqe os) (\<lambda>sqe.
     case sqe of
       None \<Rightarrow> give (-1)
     | Some index \<Rightarrow>
         seq (fill_sqe index (cancel_sqe request_ud)) (\<lambda>_.
         seq (upd_res (\<lambda>r. r\<lparr>res_sqes := res_sqes r + 1\<rparr>)) (\<lambda>_.
         seq (ring_enter os 1 2 False) (\<lambda>rc.
         if rc \<noteq> 0 then give (-1)
         else seq (copy_cqes os 2) (\<lambda>rc.
         if rc \<noteq> 0 then give (-1)
         else seq (loop (cancel_step request_ud) [0..<2] (False, False)) (\<lambda>(saw_cancel, saw_terminal).
              give (if saw_cancel \<and> saw_terminal then 0 else -1)))))))"

section \<open>Rounds\<close>

definition request_ud_of :: "nat \<Rightarrow> u64" where
  "request_ud_of k = MSHOT_TAG OR of_nat k"

definition multishot_sqe :: "int \<Rightarrow> u64 \<Rightarrow> sqe \<Rightarrow> sqe" where
  "multishot_sqe fd request_ud q = q\<lparr>sqe_opcode := IORING_OP_RECV, sqe_fd := fd, sqe_len := 0,
     sqe_ioprio := IORING_RECV_MULTISHOT, sqe_flags := IOSQE_BUFFER_SELECT,
     sqe_buf_group := PBUF_BGID, sqe_op_flags := 0, sqe_user_data := request_ud\<rparr>"

definition cqe_bid :: "cqe \<Rightarrow> u16" where
  "cqe_bid cqe = ucast (drop_bit IORING_CQE_BUFFER_SHIFT (cqe_flags cqe))"

text \<open>The flags are those of a completion with a buffer of the group and more to follow.\<close>

definition good_buffer :: "cqe \<Rightarrow> bool" where
  "good_buffer cqe \<longleftrightarrow>
     \<not> (cqe_flags cqe AND IORING_CQE_F_MORE = 0 \<or>
        cqe_flags cqe AND IORING_CQE_F_BUFFER = 0 \<or>
        cqe_flags cqe AND NOT (IORING_CQE_F_MORE OR IORING_CQE_F_BUFFER OR 0xffff0000) \<noteq> 0 \<or>
        unat (cqe_bid cqe) \<ge> PBUF_ENTRIES)"

text \<open>The body of the loop over the completions; the accumulator is \<open>seen_bids\<close>.\<close>

definition take_buffer :: "'k net_os \<Rightarrow> u64 \<Rightarrow> u64 \<Rightarrow> nat \<Rightarrow> u64 \<Rightarrow> ('k, u64) prog" where
  "take_buffer os base request_ud i seen_bids =
     seq (gets (\<lambda>s. work_cqe_copy (work s) i)) (\<lambda>cqe.
     let bid = cqe_bid cqe in
     seq (account_result i request_ud True) (\<lambda>_.
     if \<not> good_buffer cqe
     then seq (upd_res (\<lambda>r. r\<lparr>bad_flags := bad_flags r + 1\<rparr>)) (\<lambda>_. give seen_bids)
     else
       seq (upd_res (\<lambda>r. r\<lparr>duplicate_bids :=
              inc (seen_bids AND push_bit (unat bid) 1 \<noteq> 0) (duplicate_bids r)\<rparr>)) (\<lambda>_.
       seq (gets (\<lambda>s. work_pbuf (work s) (unat bid))) (\<lambda>a.
       seq (compare_buffer os a (base + of_nat i)) (\<lambda>_.
       seq (publish_buffer bid) (\<lambda>_.
       give (seen_bids OR push_bit (unat bid) 1)))))))"

text \<open>One \<open>io_uring_enter\<close>, the copies of the completions, and the time.\<close>

definition submit_multishot :: "'k net_os \<Rightarrow> bool \<Rightarrow> ('k, int) prog" where
  "submit_multishot os timed =
     seq (now_if timed os) (\<lambda>started.
     seq (ring_enter os 1 (of_nat QD) timed) (\<lambda>rc.
     if rc \<noteq> 0 then give (-1)
     else seq (copy_cqes os QD) (\<lambda>rc.
     if rc \<noteq> 0 then give (-1)
     else seq (add_elapsed timed os started) (\<lambda>_. give 0))))"

definition multishot_batch :: "'k net_os \<Rightarrow> bool \<Rightarrow> nat \<Rightarrow> ('k, int) prog" where
  "multishot_batch os timed k =
     (let base = base_of k; request_ud = request_ud_of k in
      seq (peer_fill os base) (\<lambda>rc.
      if rc \<noteq> 0 then give (-1)
      else seq (reserve_sqe os) (\<lambda>sqe.
      case sqe of
        None \<Rightarrow> give (-1)
      | Some index \<Rightarrow>
          seq (gets (\<lambda>s. fst (work_sockets (work s)))) (\<lambda>fd.
          seq (fill_sqe index (multishot_sqe fd request_ud)) (\<lambda>_.
          seq (upd_res (\<lambda>r. r\<lparr>res_sqes := res_sqes r + 1\<rparr>)) (\<lambda>_.
          seq (submit_multishot os timed) (\<lambda>rc.
          if rc \<noteq> 0 then give (-1)
          else
            seq (loop (take_buffer os base request_ud) [0..<QD] 0) (\<lambda>_.
            seq store_tail (\<lambda>_.
            seq (cancel_multishot os request_ud) (\<lambda>rc.
            give (if rc \<noteq> 0 then -1 else 0)))))))))))"

definition multishot_pass :: "u32 \<Rightarrow> result \<Rightarrow> bool" where
  "multishot_pass operations r \<longleftrightarrow>
     successful_results r = ucast operations \<and>
     pbuf_head_delta r = ucast operations \<and>
     bad_results r = 0 \<and> bad_flags r = 0 \<and>
     bad_user_data r = 0 \<and> duplicate_bids r = 0 \<and>
     content_mismatches r = 0 \<and> eagain_results r = 0 \<and>
     enobufs_results r = 0 \<and> res_outstanding r = 0 \<and>
     res_sq_dropped r = 0 \<and> res_cq_overflow r = 0"

definition run_multishot :: "'k net_os \<Rightarrow> u32 \<Rightarrow> bool \<Rightarrow> ('k, int) prog" where
  "run_multishot os operations timed =
     seq (upd_res (\<lambda>_. zero_result\<lparr>logical_ops := ucast operations,
            logical_bytes := ucast operations * of_nat PAYLOAD_BYTES\<rparr>)) (\<lambda>_.
     if \<not> batch_ok operations then give (-1)
     else seq (pbuf_status os) (\<lambda>(rc, head_before).
     if rc \<noteq> 0 then give (-1)
     else seq (until_fail (multishot_batch os timed) (batches operations)) (\<lambda>rc.
     if rc \<noteq> 0 then give (-1)
     else seq (pbuf_status os) (\<lambda>(rc, head_after).
     if rc \<noteq> 0 then give (-1)
     else
       seq (upd_res (\<lambda>r. r\<lparr>pbuf_head_delta := ucast (head_after - head_before)\<rparr>)) (\<lambda>_.
       seq (read_health os) (\<lambda>_. set_pass (multishot_pass operations)))))))"

end
