(* ===== verification/Net_Main.thy ===== *)
theory Net_Main
  imports Net_Rounds
begin

text \<open>
  io_uring_net_round.c: names, the table, the modes, the command line, the release of what the
  program holds, and \<open>main\<close>.
\<close>

section \<open>Names\<close>

fun profile_name :: "profile_id \<Rightarrow> string" where
  "profile_name PROFILE_S0 = ''S0_SEND_UBUF''"
| "profile_name PROFILE_S1 = ''S1_SENDMSG_IOV16''"
| "profile_name PROFILE_R0 = ''R0_RECV_UBUF''"
| "profile_name PROFILE_R1 = ''R1_RECVMSG_IOV16''"
| "profile_name PROFILE_M0 = ''M0_RECV_MULTISHOT_PBUF''"
| "profile_name PROFILE_C0 = ''C0_IOURING_NOP''"
| "profile_name PROFILE_U0 = ''U0_SENDMMSG_UBUF32''"
| "profile_name PROFILE_UNSET = ''unset''"

fun phase_name :: "phase_id \<Rightarrow> string" where
  "phase_name PHASE_SMOKE = ''semantic-smoke''"
| "phase_name PHASE_TRACE = ''direct-hit-trace''"
| "phase_name PHASE_MEASURED = ''measured''"

section \<open>The table\<close>

text \<open>A line that is printed to \<open>out\<close>. Whether it is written is not looked at.\<close>

definition print_line :: "'k net_os \<Rightarrow> string \<Rightarrow> ('k, unit) prog" where
  "print_line os line =
     seq (kernel (net_write os line)) (\<lambda>ok.
     change (\<lambda>s. s\<lparr>printed := printed s @ [line],
       out_lines := (if ok then out_lines s @ [line] else out_lines s)\<rparr>))"

definition header_names :: "string list" where
  "header_names =
     [''schema'', ''profile'', ''phase'', ''round'', ''logical_ops'', ''logical_bytes'',
      ''sqes'', ''cqes'', ''timed_enters'', ''total_enters'', ''elapsed_ns'', ''ns_per_op'',
      ''successful_results'', ''bad_results'', ''bad_flags'', ''bad_user_data'',
      ''duplicate_bids'', ''content_mismatches'', ''eagain_results'',
      ''enobufs_results'', ''cancel_cqes'', ''pbuf_head_delta'', ''outstanding'',
      ''sq_dropped'', ''cq_overflow'', ''semantic_pass'', ''cpu'']"

definition preamble_lines :: "'k net_os \<Rightarrow> workload \<Rightarrow> string list" where
  "preamble_lines os w =
     [''# kernel_release='' @ work_release w, ''# boot_id='' @ work_boot_id w,
      ''# compiler='' @ net_compiler os, join_tabs header_names]"

definition preamble :: "'k net_os \<Rightarrow> ('k, unit) prog" where
  "preamble os = seq (gets (\<lambda>s. preamble_lines os (work s))) (\<lambda>lines. each (print_line os) lines)"

definition ns_per_op :: "'k net_os \<Rightarrow> result \<Rightarrow> string" where
  "ns_per_op os r =
     (if elapsed_ns r \<noteq> 0 \<and> logical_ops r \<noteq> 0
      then net_ratio6 os (elapsed_ns r) (logical_ops r) else ''0.000000'')"

definition row_columns :: "'k net_os \<Rightarrow> profile_id \<Rightarrow> phase_id \<Rightarrow> nat \<Rightarrow> result \<Rightarrow> string list" where
  "row_columns os prof phase round_nr r =
     [dec SCHEMA_VERSION, profile_name prof, phase_name phase, dec round_nr,
      dec64 (logical_ops r), dec64 (logical_bytes r), dec64 (res_sqes r), dec64 (res_cqes r),
      dec64 (timed_enters r), dec64 (total_enters r), dec64 (elapsed_ns r), ns_per_op os r,
      dec64 (successful_results r), dec64 (bad_results r), dec64 (bad_flags r),
      dec64 (bad_user_data r), dec64 (duplicate_bids r), dec64 (content_mismatches r),
      dec64 (eagain_results r), dec64 (enobufs_results r), dec64 (cancel_cqes r),
      dec64 (pbuf_head_delta r), dec64 (res_outstanding r), dec64 (res_sq_dropped r),
      dec64 (res_cq_overflow r), dec (if semantic_pass r then 1 else 0), dec (unat CONTRACT_CPU)]"

definition result_row :: "'k net_os \<Rightarrow> profile_id \<Rightarrow> phase_id \<Rightarrow> nat \<Rightarrow> result \<Rightarrow> string" where
  "result_row os prof phase round_nr r = join_tabs (row_columns os prof phase round_nr r)"

definition emit :: "'k net_os \<Rightarrow> profile_id \<Rightarrow> phase_id \<Rightarrow> nat \<Rightarrow> ('k, unit) prog" where
  "emit os prof phase round_nr =
     seq (gets (\<lambda>s. result_row os prof phase round_nr (res s))) (\<lambda>row. print_line os row)"

section \<open>The modes\<close>

definition execute_once :: "'k net_os \<Rightarrow> profile_id \<Rightarrow> u32 \<Rightarrow> bool \<Rightarrow> ('k, int) prog" where
  "execute_once os prof operations timed =
     (if prof = PROFILE_M0 then run_multishot os operations timed
      else if prof = PROFILE_C0 then run_nop_control os operations timed
      else if prof = PROFILE_U0 then run_sys_control os operations timed
      else run_ordinary os prof operations timed)"

definition single_operations :: "profile_id \<Rightarrow> bool \<Rightarrow> u32" where
  "single_operations prof trace =
     (if prof = PROFILE_M0 then (if trace then TRACE_MSHOT_OPS else SMOKE_MSHOT_OPS)
      else (if trace then TRACE_ORDINARY_OPS else SMOKE_ORDINARY_OPS))"

definition point_operations :: "profile_id \<Rightarrow> u32" where
  "point_operations prof = (if prof = PROFILE_M0 then MSHOT_OPS_PER_ROUND else ORDINARY_OPS_PER_ROUND)"

text \<open>\<open>r\<close> is \<open>struct result\<close>; every call of \<open>execute_once\<close> writes all of it first.\<close>

definition run_single :: "'k net_os \<Rightarrow> profile_id \<Rightarrow> bool \<Rightarrow> ('k, int) prog" where
  "run_single os prof trace =
     (let phase = (if trace then PHASE_TRACE else PHASE_SMOKE) in
      seq (execute_once os prof (single_operations prof trace) False) (\<lambda>rc.
      if rc \<noteq> 0 then seq (emit os prof phase 0) (\<lambda>_. give (-1))
      else seq (emit os prof phase 0) (\<lambda>_. give 0)))"

definition measured_round :: "'k net_os \<Rightarrow> profile_id \<Rightarrow> nat \<Rightarrow> ('k, int) prog" where
  "measured_round os prof round_nr =
     seq (execute_once os prof (point_operations prof) True) (\<lambda>rc.
     if rc \<noteq> 0 then seq (emit os prof PHASE_MEASURED round_nr) (\<lambda>_. give (-1))
     else seq (emit os prof PHASE_MEASURED round_nr) (\<lambda>_. give 0))"

definition run_point :: "'k net_os \<Rightarrow> profile_id \<Rightarrow> ('k, int) prog" where
  "run_point os prof =
     seq (execute_once os prof (single_operations prof False) False) (\<lambda>rc.
     if rc \<noteq> 0 then give (-1)
     else seq (until_fail (\<lambda>_. execute_once os prof (point_operations prof) False) [0..<WARMUP_ROUNDS]) (\<lambda>rc.
     if rc \<noteq> 0 then give (-1)
     else until_fail (measured_round os prof) [0..<MEASURED_ROUNDS]))"

definition run_mode :: "'k net_os \<Rightarrow> options \<Rightarrow> ('k, int) prog" where
  "run_mode os opt =
     (if opt_mode opt = MODE_SMOKE \<or> opt_mode opt = MODE_TRACE
      then run_single os (opt_profile opt) (opt_mode opt = MODE_TRACE)
      else run_point os (opt_profile opt))"

definition describe :: "profile_id \<Rightarrow> ('k, unit) prog" where
  "describe prof = change (\<lambda>s. s\<lparr>stdout_lines := stdout_lines s @
     [''profile='' @ profile_name prof,
      ''old_release=6.12.95-bm-6.12.95'', ''new_release=7.1.3-bm-7.1.3'',
      ''cpu='' @ dec (unat CONTRACT_CPU), ''ring_entries='' @ dec (unat RING_ENTRIES),
      ''queue_depth='' @ dec QD, ''payload_bytes='' @ dec PAYLOAD_BYTES,
      ''iov_count='' @ dec IOV_COUNT, ''pbuf_entries='' @ dec PBUF_ENTRIES,
      ''ordinary_ops_per_round='' @ dec (unat ORDINARY_OPS_PER_ROUND),
      ''multishot_ops_per_round='' @ dec (unat MSHOT_OPS_PER_ROUND),
      ''warmup_rounds='' @ dec WARMUP_ROUNDS, ''measured_rounds='' @ dec MEASURED_ROUNDS,
      ''execution_started=false'']\<rparr>)"

section \<open>The command line\<close>

definition parse_profile :: "string \<Rightarrow> profile_id option" where
  "parse_profile txt =
     (if txt = ''s0'' then Some PROFILE_S0
      else if txt = ''s1'' then Some PROFILE_S1
      else if txt = ''r0'' then Some PROFILE_R0
      else if txt = ''r1'' then Some PROFILE_R1
      else if txt = ''m0'' then Some PROFILE_M0
      else if txt = ''c0'' then Some PROFILE_C0
      else if txt = ''u0'' then Some PROFILE_U0
      else None)"

definition parse_mode :: "string \<Rightarrow> mode_id option" where
  "parse_mode txt =
     (if txt = ''describe'' then Some MODE_DESCRIBE
      else if txt = ''smoke'' then Some MODE_SMOKE
      else if txt = ''trace'' then Some MODE_TRACE
      else if txt = ''point'' then Some MODE_POINT
      else None)"

definition zero_options :: options where
  "zero_options = \<lparr>opt_profile = PROFILE_UNSET, opt_mode = MODE_UNSET, opt_output_path = None,
     opt_execute = False\<rparr>"

fun parse_args :: "string list \<Rightarrow> options \<Rightarrow> options option" where
  "parse_args [] opt = Some opt"
| "parse_args [arg] opt =
     (if arg = ''--execute'' then Some (opt\<lparr>opt_execute := True\<rparr>) else None)"
| "parse_args (arg # val # rest) opt =
     (if arg = ''--execute'' then parse_args (val # rest) (opt\<lparr>opt_execute := True\<rparr>)
      else if arg = ''--profile'' then
        (case parse_profile val of
           None \<Rightarrow> None
         | Some p \<Rightarrow> parse_args rest (opt\<lparr>opt_profile := p\<rparr>))
      else if arg = ''--mode'' then
        (case parse_mode val of
           None \<Rightarrow> None
         | Some m \<Rightarrow> parse_args rest (opt\<lparr>opt_mode := m\<rparr>))
      else if arg = ''--output'' then parse_args rest (opt\<lparr>opt_output_path := Some val\<rparr>)
      else None)"

definition options_ok :: "options \<Rightarrow> bool" where
  "options_ok opt \<longleftrightarrow>
     \<not> (opt_profile opt = PROFILE_UNSET \<or> opt_mode opt = MODE_UNSET) \<and>
     \<not> (opt_mode opt \<noteq> MODE_DESCRIBE \<and> \<not> opt_execute opt)"

definition parse_options :: "string list \<Rightarrow> options option" where
  "parse_options args =
     (case parse_args args zero_options of
        None \<Rightarrow> None
      | Some opt \<Rightarrow> if options_ok opt then Some opt else None)"

section \<open>main\<close>

definition cleanup :: "'k net_os \<Rightarrow> ('k, unit) prog" where
  "cleanup os =
     seq (gets (\<lambda>s. work_pbuf_registered (work s))) (\<lambda>registered.
     seq (if registered then seq (unregister_pbuf os) (\<lambda>_. give ()) else give ()) (\<lambda>_.
     seq (each (\<lambda>i. seq (gets (\<lambda>s. work_pbuf (work s) i)) (free os)) [0..<PBUF_ENTRIES]) (\<lambda>_.
     seq (seq (gets (\<lambda>s. work_pbuf_ring (work s))) (free os)) (\<lambda>_.
     seq (raw_ring_destroy os) (\<lambda>_.
     seq (gets (\<lambda>s. work_sockets (work s))) (\<lambda>(a, b).
     seq (if 0 \<le> a then close_fd os a else give ()) (\<lambda>_.
     if 0 \<le> b then close_fd os b else give ())))))))"

definition boot_id_path :: string where
  "boot_id_path = ''/proc/sys/kernel/random/boot_id''"

text \<open>From \<open>preamble\<close> up to the label \<open>out\<close>: the value of \<open>ret\<close> there.\<close>

definition run_workload :: "'k net_os \<Rightarrow> options \<Rightarrow> ('k, int) prog" where
  "run_workload os opt =
     seq (preamble os) (\<lambda>_.
     seq (pin_cpu os) (\<lambda>rc.
     if rc \<noteq> 0 then give EXIT_FAILURE
     else seq (raw_ring_init os) (\<lambda>rc.
     if rc \<noteq> 0 then give EXIT_FAILURE
     else seq (setup_sockets os) (\<lambda>rc.
     if rc \<noteq> 0 then give EXIT_FAILURE
     else seq (if opt_profile opt = PROFILE_M0 then setup_pbuf os else give 0) (\<lambda>rc.
     if rc \<noteq> 0 then give EXIT_FAILURE
     else seq (run_mode os opt) (\<lambda>rc.
          give (if rc = 0 then EXIT_SUCCESS else EXIT_FAILURE)))))))"

text \<open>The label \<open>out\<close>; \<open>to_file\<close> is \<open>out != stdout\<close>.\<close>

definition finish :: "'k net_os \<Rightarrow> bool \<Rightarrow> int \<Rightarrow> ('k, int) prog" where
  "finish os to_file ret =
     seq (if to_file then seq (kernel (net_fclose os)) (\<lambda>_. give ()) else give ()) (\<lambda>_.
     seq (cleanup os) (\<lambda>_. give ret))"

definition execute :: "'k net_os \<Rightarrow> options \<Rightarrow> ('k, int) prog" where
  "execute os opt =
     seq (upd_work (\<lambda>_. initial_workload)) (\<lambda>_.
     seq (kernel (net_uname os)) (\<lambda>uts.
     case uts of
       None \<Rightarrow> give EXIT_FAILURE
     | Some release \<Rightarrow>
         seq (upd_work (\<lambda>w. w\<lparr>work_release := take 127 release\<rparr>)) (\<lambda>_.
         seq (read_text os boot_id_path 128) (\<lambda>boot.
         seq (upd_work (\<lambda>w. w\<lparr>work_boot_id := (case boot of None \<Rightarrow> ''unknown'' | Some b \<Rightarrow> b)\<rparr>)) (\<lambda>_.
         seq (case opt_output_path opt of
                None \<Rightarrow> give True
              | Some path \<Rightarrow> kernel (net_fopen os path)) (\<lambda>opened.
         if \<not> opened then give EXIT_FAILURE
         else seq (run_workload os opt) (finish os (opt_output_path opt \<noteq> None))))))))"

definition main :: "'k net_os \<Rightarrow> string list \<Rightarrow> ('k, int) prog" where
  "main os args =
     (case parse_options args of
        None \<Rightarrow> give EXIT_FAILURE
      | Some opt \<Rightarrow>
          if opt_mode opt = MODE_DESCRIBE
          then seq (describe (opt_profile opt)) (\<lambda>_. give EXIT_SUCCESS)
          else execute os opt)"

end
