(* ===== verification/Net_Logic.thy ===== *)
theory Net_Logic
  imports Net_Main
begin

text \<open>
  How the rounds of io_uring_net_round.c are judged. A round counts what is wrong and goes on, and looks at its
  counters at the end. \<open>tells\<close> is the assertion for this: as long as the counters \<open>mk\<close> are zero, the recorded
  calls are those of a script, and the result is the one that belongs to it.
\<close>

section \<open>Primitive computations\<close>

lemma post_net_kernel [post_simps]:
  "post (kernel f) E Q s = (let (a, m, x) = f (mem s) (kst s) in Q a (s\<lparr>mem := m, kst := x\<rparr>))"
  by (simp add: post_def kernel_def split_beta Let_def)

lemma post_net_log [post_simps]: "post (log_call c) E Q s = Q () (s\<lparr>calls := calls s @ [c]\<rparr>)"
  by (simp add: log_call_def post_simps)

lemma post_upd [post_simps]:
  "post (upd_res f) E Q s = Q () (s\<lparr>res := f (res s)\<rparr>)"
  "post (upd_work h) E Q s = Q () (s\<lparr>work := h (work s)\<rparr>)"
  "post (upd_mem g) E Q s = Q () (s\<lparr>mem := g (mem s)\<rparr>)"
  by (simp_all add: upd_res_def upd_work_def upd_mem_def post_simps)

declare post_case_prod [post_simps] post_Let [post_simps]

lemma post_funs:
  "post (give a) E Q = Q a" "post (if b then give a' else give a) E Q = Q (if b then a' else a)"
  "post (seq m f) E Q = post m E (\<lambda>a. post (f a) E Q)"
  by (auto simp: post_simps)

lemma net_kernel_rule: "(\<And>a m k. Q a (s\<lparr>mem := m, kst := k\<rparr>)) \<Longrightarrow> post (kernel f) E Q s"
  by (auto simp: post_simps split_beta Let_def)

lemma look_rule: "(\<And>a m k. Q a (s\<lparr>mem := m, kst := k\<rparr>)) \<Longrightarrow> post (look os f) E Q s"
  by (auto simp: look_def post_simps split_beta Let_def)

section \<open>Clocks\<close>

definition visible :: "net_call \<Rightarrow> bool" where
  "visible c \<longleftrightarrow> (case c of CLOCK _ \<Rightarrow> False | _ \<Rightarrow> True)"

fun clock_of :: "net_call \<Rightarrow> u64 option" where
  "clock_of (CLOCK x) = Some x"
| "clock_of _ = None"

definition clocks :: "net_call list \<Rightarrow> u64 list" where
  "clocks cs = List.map_filter clock_of cs"

lemma visible_simps [simp]:
  "visible (ENTER a b n)" "visible (CQE c)" "visible (SENT bs n)" "visible (RECEIVED n bs)" "visible (RECV_FAILED e)"
  "visible (SENDMMSG n ls)" "visible (LOOKED x bs)" "visible (STATUS h)" "visible (HEALTH l d o')"
  "\<not> visible (CLOCK x)"
  by (simp_all add: visible_def)

lemma clocks_simps [simp]:
  "clocks [] = []" "clocks (cs @ ds) = clocks cs @ clocks ds" "clocks (CLOCK x # cs) = x # clocks cs"
  "visible c \<Longrightarrow> clocks (c # cs) = clocks cs"
  by (auto simp: clocks_def map_filter_def visible_def split: net_call.splits)

text \<open>The time between the first and the second reading, the third and the fourth, and so on.\<close>

fun laps :: "u64 list \<Rightarrow> u64" where
  "laps (a # b # xs) = (b - a) + laps xs"
| "laps _ = 0"

lemma laps_append: "even (length xs) \<Longrightarrow> laps (xs @ ys) = laps xs + laps ys"
  by (induction xs rule: laps.induct) (auto simp: add.assoc)

section \<open>Scripts\<close>

definition clean :: "(result \<Rightarrow> u64 list) \<Rightarrow> result \<Rightarrow> bool" where
  "clean mk r \<longleftrightarrow> (\<forall>x \<in> set (mk r). x = 0)"

definition bounded :: "(result \<Rightarrow> u64 list) \<Rightarrow> nat \<Rightarrow> result \<Rightarrow> bool" where
  "bounded mk b r \<longleftrightarrow> (\<forall>x \<in> set (mk r). unat x \<le> b)"

text \<open>What a round leaves alone: all but the copies of completions and the tail of the buffer ring.\<close>

definition settled :: "workload \<Rightarrow> workload" where
  "settled w = w\<lparr>work_cqe_copy := (\<lambda>_. zero_cqe), work_pbuf_tail := 0\<rparr>"

definition same_env :: "'k proc \<Rightarrow> 'k proc \<Rightarrow> bool" where
  "same_env s t \<longleftrightarrow> maps t = maps s \<and> fds t = fds s \<and> blocks t = blocks s \<and>
     printed t = printed s \<and> out_lines t = out_lines s \<and> stdout_lines t = stdout_lines s \<and>
     settled (work t) = settled (work s)"

lemma settled_simps [simp]:
  "settled (w\<lparr>work_cqe_copy := c\<rparr>) = settled w" "settled (w\<lparr>work_pbuf_tail := n\<rparr>) = settled w"
  by (simp_all add: settled_def)

lemma same_env_refl [simp]: "same_env s s"
  by (simp add: same_env_def)

lemma same_env_trans: "same_env s t \<Longrightarrow> same_env t u \<Longrightarrow> same_env s u"
  by (simp add: same_env_def)

lemma settled_D:
  assumes "settled w = settled v"
  shows "work_ring w = work_ring v" "work_sockets w = work_sockets v" "work_pbuf w = work_pbuf v"
    "work_pbuf_ring w = work_pbuf_ring v" "work_pbuf_registered w = work_pbuf_registered v"
    "work_release w = work_release v" "work_boot_id w = work_boot_id v"
  using assms by (cases w; cases v; simp add: settled_def)+

lemma same_env_D:
  assumes "same_env s t"
  shows "maps t = maps s" "fds t = fds s" "blocks t = blocks s" "printed t = printed s"
    "out_lines t = out_lines s" "stdout_lines t = stdout_lines s"
    "settled (work t) = settled (work s)"
  using assms by (simp_all add: same_env_def)

lemmas same_work_D = settled_D [OF same_env_D(7)]

text \<open>
  After \<open>tells mk s b W r p t\<close>: the script since \<open>s\<close> is in \<open>W\<close>, and the result is \<open>r\<close>, but for the time, which is that of the
  clock readings without those in \<open>p\<close>, whose lap has not been added; no counter in \<open>mk\<close> is above \<open>b\<close>.
\<close>

type_synonym scripts = "net_call list \<Rightarrow> bool"

definition told :: "scripts \<Rightarrow> result \<Rightarrow> u64 list \<Rightarrow> net_call list \<Rightarrow> result \<Rightarrow> bool" where
  "told W r p new r' \<longleftrightarrow> (\<exists>ts. W (filter visible new) \<and> clocks new = ts @ p \<and> even (length ts) \<and>
     r' = r\<lparr>elapsed_ns := laps ts\<rparr>)"

definition tells :: "(result \<Rightarrow> u64 list) \<Rightarrow> 'k proc \<Rightarrow> nat \<Rightarrow> scripts \<Rightarrow> result \<Rightarrow> u64 list \<Rightarrow> 'k proc \<Rightarrow> bool" where
  "tells mk s b W r p t \<longleftrightarrow> same_env s t \<and> bounded mk b (res t) \<and>
     (\<exists>new. calls t = calls s @ new \<and> (clean mk (res t) \<longrightarrow> told W r p new (res t)))"

text \<open>Scripts that go on with \<open>x\<close>.\<close>

definition ext :: "scripts \<Rightarrow> net_call list \<Rightarrow> scripts" where
  "ext W x z \<longleftrightarrow> (\<exists>y. W y \<and> z = y @ x)"

lemma ext_simps [simp]: "ext W [] = W" "ext (ext W x) y = ext W (x @ y)" "ext ((=) w) x = (=) (w @ x)"
  by (auto simp: ext_def fun_eq_iff)

text \<open>A script of the one kind after one of the other, and one of each kind in turn.\<close>

definition follow :: "scripts \<Rightarrow> scripts \<Rightarrow> scripts" where
  "follow W V x \<longleftrightarrow> (\<exists>y z. W y \<and> V z \<and> x = y @ z)"

fun all_of :: "(nat \<Rightarrow> scripts) \<Rightarrow> nat \<Rightarrow> scripts" where
  "all_of V 0 = (=) []"
| "all_of V (Suc n) = follow (all_of V n) (V n)"

lemma follow_simps [simp]: "follow W ((=) x) = ext W x" "follow (follow W V) U = follow W (follow V U)"
  by (auto simp: follow_def ext_def fun_eq_iff) (metis append_assoc)+

lemma all_of_lists: "all_of (\<lambda>k. (=) (f k)) n = (=) (concat (map f [0..<n]))"
  by (induction n) simp_all

text \<open>Changes of the state that it does not speak of.\<close>

definition unseen :: "'k proc \<Rightarrow> 'k proc \<Rightarrow> bool" where
  "unseen t u \<longleftrightarrow> same_env t u \<and> res u = res t \<and> calls u = calls t"

lemma unseenI [simp]:
  "unseen t (t\<lparr>mem := m, kst := k\<rparr>)" "unseen t (t\<lparr>mem := m\<rparr>)"
  "unseen t (t\<lparr>work := (work t)\<lparr>work_cqe_copy := c\<rparr>\<rparr>)"
  "unseen t (t\<lparr>mem := m, work := (work t)\<lparr>work_pbuf_tail := n\<rparr>\<rparr>)"
  by (simp_all add: unseen_def same_env_def)

lemma tells_unseen: "tells mk s b W r p t \<Longrightarrow> unseen t u \<Longrightarrow> tells mk s b W r p u"
  by (auto simp: tells_def unseen_def intro: same_env_trans)

lemmas tells_upd_mem = tells_unseen [OF _ unseenI(2)]

lemma tells_env: "tells mk s b W r p t \<Longrightarrow> same_env s t"
  by (simp add: tells_def)

lemma tells_kernel:
  "tells mk s b W r p t \<Longrightarrow> (\<And>a u. tells mk s b W r p u \<Longrightarrow> work u = work t \<Longrightarrow> Q a u) \<Longrightarrow> post (kernel f) E Q t"
  by (rule net_kernel_rule) (simp add: tells_unseen [OF _ unseenI(1)])

lemma tells_look:
  "tells mk s b W r p t \<Longrightarrow> (\<And>a u. tells mk s b W r p u \<Longrightarrow> work u = work t \<Longrightarrow> Q a u) \<Longrightarrow> post (look os f) E Q t"
  by (rule look_rule) (simp add: tells_unseen [OF _ unseenI(1)])

lemma tells_mem:
  "tells mk s b W r p t \<Longrightarrow> (\<And>u. tells mk s b W r p u \<Longrightarrow> work u = work t \<Longrightarrow> Q () u) \<Longrightarrow> post (upd_mem f) E Q t"
  by (simp add: post_simps tells_unseen [OF _ unseenI(2)])

lemma tells_log:
  assumes "tells mk s b W r p t" "visible c" "\<And>u. tells mk s b (ext W [c]) r p u \<Longrightarrow> work u = work t \<Longrightarrow> Q () u"
  shows "post (log_call c) E Q t"
proof -
  obtain new where new: "calls t = calls s @ new" "clean mk (res t) \<longrightarrow> told W r p new (res t)"
    using assms(1) by (auto simp: tells_def)
  have "told (ext W [c]) r p (new @ [c]) (res t)" if "clean mk (res t)"
    using new(2) that assms(2) by (auto simp: told_def ext_def)
  then have "tells mk s b (ext W [c]) r p (t\<lparr>calls := calls t @ [c]\<rparr>)"
    using assms(1) new(1) by (auto simp: tells_def same_env_def intro!: exI [of _ "new @ [c]"])
  then show ?thesis using assms(3) by (simp add: post_simps)
qed

text \<open>
  An update of the result that may set a counter: it sets one unless \<open>good\<close> holds. What is known in this case
  may be used to rewrite the script.
\<close>

definition checks :: "(result \<Rightarrow> u64 list) \<Rightarrow> bool \<Rightarrow> (result \<Rightarrow> result) \<Rightarrow> (result \<Rightarrow> result) \<Rightarrow> bool" where
  "checks mk good f g \<longleftrightarrow>
     (\<forall>b r. bounded mk b r \<longrightarrow> Suc b < 2 ^ 64 \<longrightarrow>
        bounded mk (Suc b) (f r) \<and> (clean mk (f r) \<longrightarrow> clean mk r \<and> good)) \<and>
     (\<forall>r e. good \<longrightarrow> f (r\<lparr>elapsed_ns := e\<rparr>) = (g r)\<lparr>elapsed_ns := e\<rparr>)"

lemma tells_check:
  assumes t: "tells mk s b W r p t" and f: "checks mk good f g" and b: "Suc b < 2 ^ 64"
    and w: "\<And>x. good \<Longrightarrow> W x \<Longrightarrow> W' x"
    and Q: "tells mk s (Suc b) W' (g r) p (t\<lparr>res := f (res t)\<rparr>) \<Longrightarrow> Q () (t\<lparr>res := f (res t)\<rparr>)"
  shows "post (upd_res f) E Q t"
proof -
  obtain new where new: "calls t = calls s @ new" "clean mk (res t) \<longrightarrow> told W r p new (res t)"
    and bd: "bounded mk b (res t)" "same_env s t"
    using t by (auto simp: tells_def)
  have 1: "bounded mk (Suc b) (f (res t))" "clean mk (f (res t)) \<longrightarrow> clean mk (res t) \<and> good"
    using f bd(1) b by (auto simp: checks_def)
  have "told W' (g r) p new (f (res t))" if "clean mk (f (res t))"
    using 1(2) new(2) that f w by (fastforce simp: told_def checks_def)
  then have "tells mk s (Suc b) W' (g r) p (t\<lparr>res := f (res t)\<rparr>)"
    using new 1(1) bd(2) by (auto simp: tells_def same_env_def)
  then show ?thesis using Q by (simp add: post_simps)
qed

text \<open>An update that leaves the counters alone.\<close>

definition keeps :: "(result \<Rightarrow> u64 list) \<Rightarrow> (result \<Rightarrow> result) \<Rightarrow> bool" where
  "keeps mk f \<longleftrightarrow> (\<forall>r. mk (f r) = mk r) \<and> (\<forall>r e. f (r\<lparr>elapsed_ns := e\<rparr>) = (f r)\<lparr>elapsed_ns := e\<rparr>)"

lemma tells_keep:
  assumes t: "tells mk s b W r p t" and f: "keeps mk f"
    and Q: "tells mk s b W (f r) p (t\<lparr>res := f (res t)\<rparr>) \<Longrightarrow> Q () (t\<lparr>res := f (res t)\<rparr>)"
  shows "post (upd_res f) E Q t"
proof -
  have "clean mk (f x) = clean mk x" "bounded mk b (f x) = bounded mk b x" for x
    using f by (simp_all add: clean_def bounded_def keeps_def)
  then have "tells mk s b W (f r) p (t\<lparr>res := f (res t)\<rparr>)"
    using t f by (fastforce simp: tells_def told_def same_env_def keeps_def)
  then show ?thesis using Q by (simp add: post_simps)
qed

text \<open>A weaker bound, and a script written differently.\<close>

lemma tells_weaken:
  "tells mk s b W r p t \<Longrightarrow> b \<le> b' \<Longrightarrow> (\<And>x. W x \<Longrightarrow> W' x) \<Longrightarrow> tells mk s b' W' r p t"
  by (force simp: tells_def bounded_def told_def)

lemma tells_start: "clean mk r \<Longrightarrow> elapsed_ns r = 0 \<Longrightarrow> tells mk s 0 ((=) []) r [] (s\<lparr>res := r\<rparr>)"
  by (auto simp: tells_def told_def clean_def bounded_def same_env_def intro!: exI [of _ "[]"])

section \<open>The clock\<close>

lemma net_now_rule:
  assumes "\<And>t. E EXIT_FAILURE t"
    and "\<And>m k now. Q now (s\<lparr>mem := m, kst := k, calls := calls s @ [CLOCK now]\<rparr>)"
  shows "post (now_ns os) E Q s"
  using assms by (auto simp: now_ns_def post_simps split_beta Let_def split: option.split)

lemma tells_clock:
  assumes "tells mk s b W r p t"
  shows "tells mk s b W r (p @ [now]) (t\<lparr>mem := m, kst := k, calls := calls t @ [CLOCK now]\<rparr>)"
proof -
  obtain new where new: "calls t = calls s @ new" "clean mk (res t) \<longrightarrow> told W r p new (res t)"
    using assms by (auto simp: tells_def)
  then have "clean mk (res t) \<longrightarrow> told W r (p @ [now]) (new @ [CLOCK now]) (res t)"
    by (auto simp: told_def)
  with new(1) assms show ?thesis
    by (auto simp: tells_def same_env_def intro!: exI [of _ "new @ [CLOCK now]"])
qed

lemma tells_now_if:
  assumes t: "tells mk s b W r [] t" and E: "\<And>u. E EXIT_FAILURE u"
    and Q: "\<And>started u. tells mk s b W r (if timed then [started] else []) u \<Longrightarrow> work u = work t \<Longrightarrow> Q started u"
  shows "post (now_if timed os) E Q t"
proof (cases timed)
  case True
  with tells_clock [OF t] show ?thesis by (auto simp: now_if_def intro!: net_now_rule E Q)
next
  case False
  with t show ?thesis by (auto simp: now_if_def post_simps intro: Q)
qed

lemma tells_add_elapsed:
  assumes t: "tells mk s b W r (if timed then [started] else []) t" and E: "\<And>u. E EXIT_FAILURE u"
    and mk: "\<And>r e. mk (r\<lparr>elapsed_ns := e\<rparr>) = mk r"
    and Q: "\<And>u. tells mk s b W r [] u \<Longrightarrow> work u = work t \<Longrightarrow> Q () u"
  shows "post (add_elapsed timed os started) E Q t"
proof (cases timed)
  case True
  have "post (now_ns os) E (\<lambda>now. post (upd_res (\<lambda>r. r\<lparr>elapsed_ns := elapsed_ns r + (now - started)\<rparr>)) E Q) t"
  proof (rule net_now_rule, rule E)
    fix m k now
    let ?u = "t\<lparr>mem := m, kst := k, calls := calls t @ [CLOCK now]\<rparr>"
    let ?v = "?u\<lparr>res := (res ?u)\<lparr>elapsed_ns := elapsed_ns (res ?u) + (now - started)\<rparr>\<rparr>"
    have u: "tells mk s b W r [started, now] ?u" using tells_clock [OF t] True by simp
    have "told W r [] new ((res ?u)\<lparr>elapsed_ns := elapsed_ns (res ?u) + (now - started)\<rparr>)"
      if "told W r [started, now] new (res ?u)" for new
    proof -
      from that obtain ts where "W (filter visible new)" "clocks new = ts @ [started, now]" "even (length ts)"
          "res ?u = r\<lparr>elapsed_ns := laps ts\<rparr>" by (auto simp: told_def)
      then show ?thesis unfolding told_def by (intro exI [of _ "ts @ [started, now]"]) (simp add: laps_append)
    qed
    with u have "tells mk s b W r [] ?v"
      by (auto simp: tells_def same_env_def clean_def bounded_def mk)
    then have "Q () ?v" by (rule Q) simp
    then show "post (upd_res (\<lambda>r. r\<lparr>elapsed_ns := elapsed_ns r + (now - started)\<rparr>)) E Q ?u"
      by (simp add: post_simps)
  qed
  with True show ?thesis by (simp add: add_elapsed_def post_seq)
next
  case False
  with t show ?thesis by (auto simp: add_elapsed_def post_simps intro: Q)
qed

text \<open>
  What the operations of io_uring_net_round.c on the ring and on the peer's socket add to the script of a round.
\<close>

section \<open>Counting\<close>

lemma inc_le: "unat x \<le> b \<Longrightarrow> Suc b < 2 ^ 64 \<Longrightarrow> unat (inc c x) \<le> Suc b"
  using unat_inc64 [of x] by (auto simp: inc_def)

lemma inc_zero: "unat x \<le> b \<Longrightarrow> Suc b < 2 ^ 64 \<Longrightarrow> inc c x = 0 \<longleftrightarrow> x = 0 \<and> \<not> c"
  using inc64_neq_zero [of x] by (auto simp: inc_def)

definition entered :: "bool \<Rightarrow> result \<Rightarrow> result" where
  "entered timed r = r\<lparr>total_enters := total_enters r + 1, timed_enters := inc timed (timed_enters r)\<rparr>"

text \<open>The counters that say that something is wrong; a profile looks at those in \<open>M\<close>.\<close>

datatype mark = FLAGS | USER_DATA | CONTENT | BIDS

definition marks :: "mark set \<Rightarrow> result \<Rightarrow> u64 list" where
  "marks M r = [bad_results r] @ (if FLAGS \<in> M then [bad_flags r] else []) @
     (if USER_DATA \<in> M then [bad_user_data r] else []) @
     (if CONTENT \<in> M then [content_mismatches r] else []) @
     (if BIDS \<in> M then [duplicate_bids r] else [])"

lemma clean_marks:
  "clean (marks M) r \<longleftrightarrow> bad_results r = 0 \<and> (FLAGS \<in> M \<longrightarrow> bad_flags r = 0) \<and>
     (USER_DATA \<in> M \<longrightarrow> bad_user_data r = 0) \<and> (CONTENT \<in> M \<longrightarrow> content_mismatches r = 0) \<and>
     (BIDS \<in> M \<longrightarrow> duplicate_bids r = 0)"
  by (auto simp: clean_def marks_def)

lemma marks_keep:
  "(\<And>r. marks M (f r) = marks M r) \<Longrightarrow> (\<And>r e. f (r\<lparr>elapsed_ns := e\<rparr>) = (f r)\<lparr>elapsed_ns := e\<rparr>) \<Longrightarrow> keeps (marks M) f"
  by (simp add: keeps_def)

lemma marks_elapsed: "marks M (r\<lparr>elapsed_ns := e\<rparr>) = marks M r"
  by (simp add: marks_def)

lemma inc_plain [simp]: "inc False x = x" "inc True x = x + 1"
  by (simp_all add: inc_def)

text \<open>An update that sets the counters for which \<open>a\<close> to \<open>e\<close> hold.\<close>

definition raises :: "(result \<Rightarrow> result) \<Rightarrow> bool \<Rightarrow> bool \<Rightarrow> bool \<Rightarrow> bool \<Rightarrow> bool \<Rightarrow> bool" where
  "raises f a b c d e \<longleftrightarrow> (\<forall>r. bad_results (f r) = inc a (bad_results r) \<and> bad_flags (f r) = inc b (bad_flags r) \<and>
     bad_user_data (f r) = inc c (bad_user_data r) \<and> content_mismatches (f r) = inc d (content_mismatches r) \<and>
     duplicate_bids (f r) = inc e (duplicate_bids r))"

lemma marks_checks:
  assumes f: "raises f a b c d e"
    and M: "b \<Longrightarrow> FLAGS \<in> M" "c \<Longrightarrow> USER_DATA \<in> M" "d \<Longrightarrow> CONTENT \<in> M" "e \<Longrightarrow> BIDS \<in> M"
    and good: "\<not> a \<and> \<not> b \<and> \<not> c \<and> \<not> d \<and> \<not> e \<Longrightarrow> good"
    and g: "\<And>r x. good \<Longrightarrow> f (r\<lparr>elapsed_ns := x\<rparr>) = (g r)\<lparr>elapsed_ns := x\<rparr>"
  shows "checks (marks M) good f g"
  unfolding checks_def
proof (intro conjI allI impI)
  fix n r
  assume "bounded (marks M) n r" and n: "Suc n < 2 ^ 64"
  then have le: "unat (bad_results r) \<le> n" "FLAGS \<in> M \<Longrightarrow> unat (bad_flags r) \<le> n"
      "USER_DATA \<in> M \<Longrightarrow> unat (bad_user_data r) \<le> n" "CONTENT \<in> M \<Longrightarrow> unat (content_mismatches r) \<le> n"
      "BIDS \<in> M \<Longrightarrow> unat (duplicate_bids r) \<le> n"
    by (simp_all add: bounded_def marks_def)
  have f': "bad_results (f r) = inc a (bad_results r)" "bad_flags (f r) = inc b (bad_flags r)"
      "bad_user_data (f r) = inc c (bad_user_data r)" "content_mismatches (f r) = inc d (content_mismatches r)"
      "duplicate_bids (f r) = inc e (duplicate_bids r)"
    using f by (simp_all add: raises_def)
  show "bounded (marks M) (Suc n) (f r)"
    unfolding bounded_def using inc_le [OF _ n] le by (auto simp: marks_def f')
  note zero = inc_zero [OF le(1) n] inc_zero [OF le(2) n] inc_zero [OF le(3) n] inc_zero [OF le(4) n]
    inc_zero [OF le(5) n]
  show "clean (marks M) (f r) \<Longrightarrow> clean (marks M) r"
    unfolding clean_marks by (auto simp: f' zero)
  have "clean (marks M) (f r) \<Longrightarrow> \<not> a \<and> \<not> b \<and> \<not> c \<and> \<not> d \<and> \<not> e"
    unfolding clean_marks using M by (auto simp: f' zero)
  then show "clean (marks M) (f r) \<Longrightarrow> good" by (rule good)
qed (rule g)

definition mismatch :: "bool \<Rightarrow> result \<Rightarrow> result" where
  "mismatch c r = r\<lparr>content_mismatches := inc c (content_mismatches r)\<rparr>"

lemma mismatch_checks: "CONTENT \<in> M \<Longrightarrow> checks (marks M) (\<not> c) (mismatch c) id"
  by (rule marks_checks [where a = False and b = False and c = False and e = False])
    (auto simp: raises_def mismatch_def)

section \<open>The ring\<close>

lemma net_enter_rule:
  fixes os :: "'k net_os"
  assumes "\<And>s m k. R s (s\<lparr>mem := m, kst := k\<rparr>)" and trans: "\<And>s t u. R s t \<Longrightarrow> R t u \<Longrightarrow> R s u"
  shows "post (enter_loop os fd sub wait) E (\<lambda>ret. R s) s"
proof -
  have "\<exists>ret. fst rt = Inr ret \<and> R s (snd rt)" if "enter_loop os fd sub wait s = Some rt" for s rt
  proof (rule enter_loop.raw_induct
      [where P = "\<lambda>os' fd' sub' wait' s rt. \<exists>ret. fst rt = Inr ret \<and> R s (snd rt)", OF _ that])
    fix loop :: "'k net_os \<Rightarrow> int \<Rightarrow> u32 \<Rightarrow> u32 \<Rightarrow> 'k proc \<Rightarrow> ((int + int) \<times> 'k proc) option"
    fix os' :: "'k net_os" and fd' sub' wait' and s :: "'k proc" and rt
    assume IH: "\<And>os' fd' sub' wait' s rt. loop os' fd' sub' wait' s = Some rt \<Longrightarrow>
        \<exists>ret. fst rt = Inr ret \<and> R s (snd rt)"
      and run: "(let ((ret, e), m, x) = net_enter os' fd' sub' wait'
            (if wait' \<noteq> 0 then IORING_ENTER_GETEVENTS else 0) (mem s) (kst s);
          t = s\<lparr>mem := m, kst := x\<rparr>
        in if ret < 0 \<and> e = EINTR then loop os' fd' sub' wait' t else Some (Inr ret, t)) = Some rt"
    obtain ret e m x where call: "net_enter os' fd' sub' wait'
        (if wait' \<noteq> 0 then IORING_ENTER_GETEVENTS else 0) (mem s) (kst s) = ((ret, e), m, x)"
      by (metis prod.collapse)
    let ?t = "s\<lparr>mem := m, kst := x\<rparr>"
    have 1: "R s ?t" by (rule assms(1))
    show "\<exists>ret. fst rt = Inr ret \<and> R s (snd rt)"
    proof (cases "ret < 0 \<and> e = EINTR")
      case True
      with run call have "loop os' fd' sub' wait' ?t = Some rt" by (simp add: Let_def)
      with IH trans [OF 1] show ?thesis by blast
    next
      case False
      with run call 1 show ?thesis by (auto simp: Let_def split: if_splits)
    qed
  qed
  then show ?thesis
    by (auto simp: post_def wp_def split: option.split sum.split) force+
qed

lemma entered_keeps: "keeps (marks M) (entered timed)"
  by (rule marks_keep) (simp_all add: entered_def marks_def)

lemma tells_enter:
  assumes t: "tells (marks M) s b W r p t"
    and fail: "\<And>rc u. rc \<noteq> 0 \<Longrightarrow> Q rc u"
    and ok: "\<And>u. tells (marks M) s b (ext W [ENTER sub wait (sint sub)]) (entered timed r) p u \<Longrightarrow> work u = work t \<Longrightarrow> Q 0 u"
  shows "post (ring_enter os sub wait timed) E Q t"
proof -
  let ?R = "\<lambda>t u. unseen t u \<and> work u = work t"
  have enter: "post (enter_loop os fd sub wait) E (\<lambda>ret. ?R t) t" for fd
    by (rule net_enter_rule) (auto simp: unseen_def intro: same_env_trans, simp add: same_env_def)
  have rest: "post (upd_res (\<lambda>r. r\<lparr>total_enters := total_enters r + 1\<rparr>)) E (\<lambda>_.
      post (if timed then upd_res (\<lambda>r. r\<lparr>timed_enters := timed_enters r + 1\<rparr>) else give ()) E
        (\<lambda>_. Q (if ret \<noteq> sint sub then -1 else 0))) u"
    if "tells (marks M) s b (ext W [ENTER sub wait ret]) r p u" "work u = work t" for ret u
  proof (cases "ret = sint sub")
    case True
    have "post (upd_res (entered timed)) E (\<lambda>_. Q 0) u"
      by (rule tells_keep [OF that(1) entered_keeps]) (use that(2) True in \<open>auto intro: ok\<close>)
    with True show ?thesis
      by (cases timed) (simp_all add: post_simps entered_def inc_def)
  qed (simp add: post_simps fail)
  have body: "post (log_call (ENTER sub wait ret)) E
      (\<lambda>_. post (upd_res (\<lambda>r. r\<lparr>total_enters := total_enters r + 1\<rparr>)) E (\<lambda>_.
      post (if timed then upd_res (\<lambda>r. r\<lparr>timed_enters := timed_enters r + 1\<rparr>) else give ()) E
        (\<lambda>_. Q (if ret \<noteq> sint sub then -1 else 0)))) u" if "?R t u" for ret u
    by (rule tells_log [OF tells_unseen [OF t conjunct1 [OF that]]]) (simp, rule rest, use that in simp_all)
  show ?thesis
    unfolding ring_enter_def post_seq post_gets post_give
    by (rule post_mono [OF enter], assumption, erule body)
qed

definition copies :: "cqe list \<Rightarrow> 'k proc \<Rightarrow> bool" where
  "copies cs t \<longleftrightarrow> (\<forall>i < length cs. work_cqe_copy (work t) i = cs ! i)"

lemma copies_work: "copies cs t \<Longrightarrow> work u = work t \<Longrightarrow> copies cs u"
  by (simp add: copies_def)

lemma tells_copy:
  assumes t: "tells mk s b W r p t"
    and fail: "\<And>rc u. rc \<noteq> 0 \<Longrightarrow> Q rc u"
    and ok: "\<And>cs u. length cs = n \<Longrightarrow> copies cs u \<Longrightarrow> tells mk s b (ext W (map CQE cs)) r p u \<Longrightarrow> Q 0 u"
  shows "post (copy_cqes os n) E Q t"
proof -
  let ?P = "\<lambda>i u. \<exists>cs. length cs = i \<and> copies cs u \<and> tells mk s b (ext W (map CQE cs)) r p u"
  have body: "post (copy_cqe os head i) E (\<lambda>_. ?P (Suc i)) u" if P: "?P i u" for head i u
  proof -
    from P obtain cs where cs: "length cs = i" "copies cs u" "tells mk s b (ext W (map CQE cs)) r p u" by blast
    show ?thesis
      unfolding copy_cqe_def post_seq
    proof (rule tells_look [OF cs(3)], rule tells_log, assumption)
      fix c v x
      assume v: "tells mk s b (ext W (map CQE cs)) r p v" "work v = work u"
        "tells mk s b (ext (ext W (map CQE cs)) [CQE c]) r p x" "work x = work v"
      let ?x = "x\<lparr>work := (work x)\<lparr>work_cqe_copy := (work_cqe_copy (work x))(i := c)\<rparr>\<rparr>"
      have "copies (cs @ [c]) ?x"
        using cs(1,2) v(2,4) by (auto simp: copies_def nth_append less_Suc_eq)
      moreover have "tells mk s b (ext W (map CQE (cs @ [c]))) r p ?x"
        using tells_unseen [OF v(3) unseenI(3)] by simp
      ultimately show "post (upd_work (\<lambda>w. w\<lparr>work_cqe_copy := (work_cqe_copy w)(i := c)\<rparr>)) E (\<lambda>_. ?P (Suc i)) x"
        using cs(1) by (auto simp: post_simps intro!: exI [of _ "cs @ [c]"])
    qed simp
  qed
  have loop: "post (each (copy_cqe os head) [0..<n]) E (\<lambda>_. ?P n) u" if "tells mk s b W r p u" for head u
    by (rule post_each) (use that body in \<open>auto simp: copies_def\<close>)
  show ?thesis
    unfolding copy_cqes_def load_acquire_u32_def post_seq
  proof (rule tells_look [OF t], rule tells_look, assumption, rule post_ifI)
    fix head u tail v
    assume "tells mk s b W r p v"
    note copied = loop [OF this, of head]
    show "post (seq (each (copy_cqe os head) [0..<n]) (\<lambda>_.
        seq (store_release_u32 cq_head_update (head + of_nat n)) (\<lambda>_. give 0))) E Q v"
      unfolding post_seq store_release_u32_def upd_shm_def
    proof (rule post_mono [OF copied])
      fix a x
      assume "?P n x"
      then obtain cs where cs: "length cs = n" "copies cs x" "tells mk s b (ext W (map CQE cs)) r p x" by blast
      show "post (upd_mem (\<lambda>m. m\<lparr>shm := cq_head_update (\<lambda>_. head + of_nat n) (shm m)\<rparr>)) E
          (\<lambda>_. post (give 0) E Q) x"
        by (rule tells_mem [OF cs(3)]) (simp add: post_simps, rule ok, rule cs(1), erule copies_work [OF cs(2)])
    qed simp
  qed (simp add: post_simps fail)
qed

section \<open>Batches of submissions\<close>

definition filled :: "result \<Rightarrow> result" where
  "filled r = r\<lparr>res_sqes := res_sqes r + of_nat QD\<rparr>"

lemma filled_keeps: "keeps (marks M) filled"
  by (rule marks_keep) (simp_all add: filled_def marks_def)

lemma tells_put:
  assumes "tells mk s b W r p t" "\<And>tail u. tells mk s b W r p u \<Longrightarrow> work u = work t \<Longrightarrow> Q tail u"
  shows "post (loop (put_sqe os f) [0..<QD] tail) E Q t"
proof -
  have "post (put_sqe os f i a) E (\<lambda>_ u. tells mk s b W r p u \<and> work u = work t) v"
    if v: "tells mk s b W r p v \<and> work v = work t" for i a v
    unfolding put_sqe_def post_seq post_Let upd_shm_def post_give
    by (rule tells_look [OF conjunct1 [OF v]], rule tells_mem, assumption) (simp add: v)
  then have "post (loop (put_sqe os f) [0..<QD] tail) E (\<lambda>_ u. tells mk s b W r p u \<and> work u = work t) t"
    by (intro post_loop [where P = "\<lambda>_ _ u. tells mk s b W r p u \<and> work u = work t"]) (simp_all add: assms(1))
  then show ?thesis by (rule post_mono) (auto intro: assms(2))
qed

lemma tells_fill:
  assumes t: "tells (marks M) s b W r [] t" and E: "\<And>u. E EXIT_FAILURE u"
    and fail: "\<And>u. Q None u"
    and ok: "\<And>started u. tells (marks M) s b W (filled r) (if timed then [started] else []) u \<Longrightarrow> work u = work t \<Longrightarrow>
      Q (Some started) u"
  shows "post (fill_queue os f timed) E Q t"
  unfolding fill_queue_def load_acquire_u32_def store_release_u32_def upd_shm_def post_seq post_give
proof (rule tells_look [OF t], rule tells_look, assumption, rule tells_look, assumption, rule post_ifI)
  fix head u1 tail u2 entries u3
  assume u: "tells (marks M) s b W r [] u3" "work u3 = work u2" "work u2 = work u1" "work u1 = work t"
  have fin: "post (upd_res filled) E (\<lambda>_. Q (Some started)) w"
    if "tells (marks M) s b W r (if timed then [started] else []) w" "work w = work t" for started w
    by (rule tells_keep [OF that(1) filled_keeps]) (simp add: ok that(2))
  show "post (seq (now_if timed os) (\<lambda>started. seq (loop (put_sqe os f) [0..<QD] tail) (\<lambda>tail.
      seq (upd_mem (\<lambda>m. m\<lparr>shm := sq_tail_update (\<lambda>_. tail) (shm m)\<rparr>)) (\<lambda>_.
      seq (upd_res (\<lambda>r. r\<lparr>res_sqes := res_sqes r + of_nat QD\<rparr>)) (\<lambda>_. give (Some started)))))) E Q u3"
    unfolding post_seq post_give filled_def [symmetric]
    by (rule tells_now_if [OF u(1)], rule E, rule tells_put, assumption, rule tells_mem, assumption, rule fin, assumption)
      (simp add: u)
qed (simp add: post_simps fail)

definition good_cqe :: "u64 \<Rightarrow> s32 \<Rightarrow> cqe" where
  "good_cqe ud n = \<lparr>cqe_user_data = ud, cqe_res = n, cqe_flags = 0\<rparr>"

definition enter_batch :: net_call where
  "enter_batch = ENTER (of_nat QD) (of_nat QD) (int QD)"

lemma tells_collect:
  assumes t: "tells (marks M) s b W r (if timed then [started] else []) t" and E: "\<And>u. E EXIT_FAILURE u"
    and fail: "\<And>rc u. rc \<noteq> 0 \<Longrightarrow> Q rc u"
    and ok: "\<And>cs u. length cs = QD \<Longrightarrow> copies cs u \<Longrightarrow>
      tells (marks M) s b (ext W (enter_batch # map CQE cs)) (entered timed r) [] u \<Longrightarrow> Q 0 u"
  shows "post (collect_batch os timed started) E Q t"
proof -
  have eq: "sint (of_nat QD :: u32) = int QD" by (simp add: QD_def)
  show ?thesis
    unfolding collect_batch_def post_seq
  proof (rule tells_enter [OF t], unfold eq enter_batch_def [symmetric])
    fix u
    assume u: "tells (marks M) s b (ext W [enter_batch]) (entered timed r) (if timed then [started] else []) u"
    show "post (if 0 \<noteq> (0 :: int) then give (-1) else seq (copy_cqes os QD) (\<lambda>rc.
        if rc \<noteq> 0 then give (-1) else seq (add_elapsed timed os started) (\<lambda>_. give 0))) E Q u"
      unfolding post_seq simp_thms if_False
    proof (rule tells_copy [OF u])
      fix cs v
      assume "length cs = QD" "copies cs v"
        "tells (marks M) s b (ext (ext W [enter_batch]) (map CQE cs)) (entered timed r) (if timed then [started] else []) v"
      then show "post (if 0 \<noteq> (0 :: int) then give (-1) else seq (add_elapsed timed os started) (\<lambda>_. give 0)) E Q v"
        unfolding post_seq simp_thms if_False
        by (elim tells_add_elapsed, intro E, intro marks_elapsed) (auto simp: post_simps intro: ok copies_work)
    qed (simp add: post_simps fail)
  qed (simp add: post_simps fail)
qed

section \<open>The judgement of completions\<close>

definition counted :: "nat \<Rightarrow> result \<Rightarrow> result" where
  "counted n r = r\<lparr>res_cqes := res_cqes r + of_nat n, successful_results := successful_results r + of_nat n\<rparr>"

lemma counted_simps [simp]: "counted 0 r = r" "counted (Suc 0) (counted n r) = counted (Suc n) r"
  by (simp_all add: counted_def)

text \<open>A loop that checks the copies, one after the other, against the ones that are expected.\<close>

lemma tells_judge:
  assumes f: "\<And>i. checks (marks M) (cs ! i = want i) (f i (cs ! i)) (counted 1)"
    and body: "\<And>i u Q. i < n \<Longrightarrow> work u = work t \<Longrightarrow> post (upd_res (f i (cs ! i))) E Q u \<Longrightarrow> post (m i) E Q u"
    and t: "tells (marks M) s b (ext W (map CQE cs)) r p t" and len: "length cs = n" and b: "b + n < 2 ^ 64"
    and Q: "\<And>u. tells (marks M) s (b + n) (ext W (map (\<lambda>i. CQE (want i)) [0..<n])) (counted n r) p u \<Longrightarrow>
      work u = work t \<Longrightarrow> Q () u"
  shows "post (each m [0..<n]) E Q t"
proof -
  let ?w = "\<lambda>i. map (\<lambda>i. CQE (want i)) [0..<i] @ map CQE (drop i cs)"
  let ?P = "\<lambda>i u. tells (marks M) s (b + i) (ext W (?w i)) (counted i r) p u \<and> work u = work t"
  have step: "post (m i) E (\<lambda>_. ?P (Suc i)) u" if i: "i < n" and u: "?P i u" for i u
  proof (rule body [OF i conjunct2 [OF u]], rule tells_check [OF conjunct1 [OF u] f])
    show "Suc (b + i) < 2 ^ 64" using b i by simp
    show "ext W (?w (Suc i)) x" if "cs ! i = want i" "ext W (?w i) x" for x
      using that i len by (simp add: Cons_nth_drop_Suc [symmetric])
  qed (use u in simp)
  have "post (each m [0..<n]) E (\<lambda>_. ?P n) t"
    by (rule post_each) (use step t in auto)
  then show ?thesis by (rule post_mono) (use Q len in auto)
qed

lemma good_cqe_iff: "c = good_cqe ud n \<longleftrightarrow> cqe_user_data c = ud \<and> cqe_res c = n \<and> cqe_flags c = 0"
  by (cases c) (auto simp: good_cqe_def)

lemma payload_no_error:
  "neg_errno EAGAIN \<noteq> of_nat PAYLOAD_BYTES" "neg_errno ENOBUFS \<noteq> of_nat PAYLOAD_BYTES"
  by (simp_all add: neg_errno_def EAGAIN_def ENOBUFS_def PAYLOAD_BYTES_def)

lemma account_raises:
  "raises (account c ud allow) (cqe_res c \<noteq> of_nat PAYLOAD_BYTES) (\<not> allow \<and> cqe_flags c \<noteq> 0)
     (cqe_user_data c \<noteq> ud) False False"
  by (simp add: raises_def account_def)

lemma account_good:
  assumes "cqe_res c = of_nat PAYLOAD_BYTES" "allow \<or> cqe_flags c = 0" "cqe_user_data c = ud"
  shows "account c ud allow (r\<lparr>elapsed_ns := x\<rparr>) = (counted 1 r)\<lparr>elapsed_ns := x\<rparr>"
  using assms payload_no_error by (auto simp: account_def counted_def inc_def)

lemma account_checks:
  assumes "FLAGS \<in> M" "USER_DATA \<in> M"
  shows "checks (marks M) (c = good_cqe ud (of_nat PAYLOAD_BYTES)) (account c ud False) (counted 1)"
  by (rule marks_checks [OF account_raises]) (use assms in \<open>auto simp: good_cqe_iff account_good\<close>)

lemma tells_accounts:
  assumes M: "FLAGS \<in> M" "USER_DATA \<in> M" and cs: "copies cs t" "length cs = QD" and t: "tells (marks M) s b (ext W (map CQE cs)) r p t" and b: "b + QD < 2 ^ 64"
    and Q: "\<And>u. tells (marks M) s (b + QD)
        (ext W (map (\<lambda>i. CQE (good_cqe (ud i) (of_nat PAYLOAD_BYTES))) [0..<QD])) (counted QD r) p u \<Longrightarrow>
      work u = work t \<Longrightarrow> Q () u"
  shows "post (each (\<lambda>i. account_result i (ud i) False) [0..<QD]) E Q t"
proof (rule tells_judge [where f = "\<lambda>i c. account c (ud i) False", OF account_checks [OF M] _ t cs(2) b])
  show "post (account_result i (ud i) False) E R u"
    if "i < QD" "work u = work t" "post (upd_res (account (cs ! i) (ud i) False)) E R u" for i u R
    using that cs by (simp add: account_result_def post_simps copies_def)
qed (rule Q)

section \<open>Messages\<close>

lemma length_pattern [simp]: "length (pattern sq) = PAYLOAD_BYTES"
  by (simp add: pattern_def)

lemma peek_poke: "length bs = n \<Longrightarrow> n < 2 ^ 64 \<Longrightarrow> peek (poke a bs m) a n = bs"
  by (auto simp: peek_def poke_def unat_of_nat intro!: nth_equalityI)

lemma post_mismatch: "post (count_mismatch bs sq) E Q s = post (upd_res (mismatch (\<not> pattern_matches bs sq))) E Q s"
  by (simp add: count_mismatch_def mismatch_def post_simps inc_def)

text \<open>What is compared is the last entry of the script; it is the right one unless a counter is set.\<close>

lemma tells_mismatch:
  assumes M: "CONTENT \<in> M" and t: "tells (marks M) s b (ext W [c bs]) r p t" and b: "Suc b < 2 ^ 64"
    and Q: "\<And>u. tells (marks M) s (Suc b) (ext W [c (pattern sq)]) r p u \<Longrightarrow> work u = work t \<Longrightarrow> Q () u"
  shows "post (count_mismatch bs sq) E Q t"
  unfolding post_mismatch
  by (rule tells_check [OF t mismatch_checks [OF M] b, where W' = "ext W [c (pattern sq)]"])
    (auto simp: pattern_matches_def intro: Q)

lemma tells_compare:
  assumes M: "CONTENT \<in> M" and t: "tells (marks M) s b W r p t" and b: "Suc b < 2 ^ 64"
    and Q: "\<And>u. tells (marks M) s (Suc b) (ext W [LOOKED a (pattern sq)]) r p u \<Longrightarrow> work u = work t \<Longrightarrow> Q () u"
  shows "post (compare_buffer os a sq) E Q t"
  unfolding compare_buffer_def post_seq
  by (rule tells_look [OF t], rule tells_log, assumption, simp, rule tells_mismatch [OF M], assumption, rule b)
    (simp add: Q)

definition sent_by_peer :: "u64 \<Rightarrow> nat \<Rightarrow> net_call" where
  "sent_by_peer base i = SENT (pattern (base + of_nat i)) (int PAYLOAD_BYTES)"

definition got_by_peer :: "u64 \<Rightarrow> nat \<Rightarrow> net_call" where
  "got_by_peer base i = RECEIVED (int PAYLOAD_BYTES) (pattern (base + of_nat i))"

definition drained :: "u64 \<Rightarrow> net_call list" where
  "drained base = map (got_by_peer base) [0..<QD] @ [RECV_FAILED EAGAIN]"

lemma tells_peer_fill:
  assumes t: "tells mk s b W r p t"
    and fail: "\<And>rc u. rc \<noteq> 0 \<Longrightarrow> Q rc u"
    and ok: "\<And>u. tells mk s b (ext W (map (sent_by_peer base) [0..<QD])) r p u \<Longrightarrow> work u = work t \<Longrightarrow> Q 0 u"
  shows "post (peer_fill os base) E Q t"
proof -
  let ?P = "\<lambda>i u. tells mk s b (ext W (map (sent_by_peer base) [0..<i])) r p u \<and> work u = work t"
  have step: "post (peer_send os base i) E (\<lambda>rc u. if rc = 0 then ?P (Suc i) u else True) u" if P: "?P i u" for i u
  proof -
    let ?a = "send_buf (net_work os) i" and ?sq = "base + of_nat i"
    have filled: "?P i (u\<lparr>mem := poke ?a (pattern ?sq) (mem u)\<rparr>)"
      using P by (auto intro: tells_upd_mem)
    have "post (log_call (SENT (pattern ?sq) nr)) E
        (\<lambda>_ x. if (if nr \<noteq> int PAYLOAD_BYTES then -1 else 0 :: int) = 0 then ?P (Suc i) x else True) v"
      if v: "?P i v" for nr v
      by (rule tells_log [OF conjunct1 [OF v]]) (use v in \<open>auto simp: sent_by_peer_def\<close>)
    note log = this
    have "peek (poke ?a (pattern ?sq) m) ?a PAYLOAD_BYTES = pattern ?sq" for m
      by (rule peek_poke) (simp_all add: PAYLOAD_BYTES_def)
    then have same: "peek (mem (u\<lparr>mem := poke ?a (pattern ?sq) (mem u)\<rparr>)) ?a PAYLOAD_BYTES = pattern ?sq"
      by simp
    show ?thesis
      unfolding peer_send_def pattern_fill_def peer_def post_Let post_seq post_upd(3) post_gets post_funs same
      by (rule tells_kernel [OF conjunct1 [OF filled]], rule log) (use P in simp)
  qed
  have "post (peer_fill os base) E (\<lambda>rc u. if rc = 0 then ?P QD u else True) t"
    unfolding peer_fill_def by (rule post_until) (use step t in auto)
  then show ?thesis by (rule post_mono) (use fail ok in \<open>auto split: if_splits\<close>)
qed

lemma tells_peer_recv:
  assumes t: "tells mk s b W r p t"
    and fail: "\<And>nr e bs u. nr < 0 \<Longrightarrow> tells mk s b (ext W [RECV_FAILED e]) r p u \<Longrightarrow> work u = work t \<Longrightarrow> Q (nr, e, bs) u"
    and ok: "\<And>nr e bs u. 0 \<le> nr \<Longrightarrow> tells mk s b (ext W [RECEIVED nr bs]) r p u \<Longrightarrow> work u = work t \<Longrightarrow> Q (nr, e, bs) u"
  shows "post (peer_recv os) E Q t"
proof -
  have "post (log_call (if 0 \<le> nr then RECEIVED nr bs else RECV_FAILED e)) E (\<lambda>_. Q (nr, e, bs)) u"
    if u: "tells mk s b W r p u" "work u = work t" for nr e bs u
    by (rule tells_log [OF u(1)]) (auto simp: u(2) intro: fail ok split: if_splits)
  then show ?thesis
    unfolding peer_recv_def peer_def post_seq post_gets post_give
    by (intro tells_kernel [OF t], rename_tac a u, case_tac a) (simp only: prod.case post_seq post_funs)
qed

lemma tells_peer_take:
  assumes M: "CONTENT \<in> M" and t: "tells (marks M) s b W r p t" and b: "Suc b < 2 ^ 64"
    and fail: "\<And>rc u. rc \<noteq> 0 \<Longrightarrow> Q rc u"
    and ok: "\<And>u. tells (marks M) s (Suc b) (ext W [got_by_peer base i]) r p u \<Longrightarrow> work u = work t \<Longrightarrow> Q 0 u"
  shows "post (peer_take os base i) E Q t"
  unfolding peer_take_def post_seq
proof (rule tells_peer_recv [OF t])
  fix nr e bs u
  assume u: "tells (marks M) s b (ext W [RECEIVED nr bs]) r p u" "work u = work t"
  then show "post (case (nr, e, bs) of (nr, _, bs) \<Rightarrow> if nr \<noteq> int PAYLOAD_BYTES then give (-1)
      else seq (count_mismatch bs (base + of_nat i)) (\<lambda>_. give 0)) E Q u"
    by (auto simp: post_seq post_give fail got_by_peer_def intro!: tells_mismatch [OF M _ b, where c = "RECEIVED nr"] ok)
qed (simp add: post_simps fail PAYLOAD_BYTES_def)

lemma tells_peer_drain:
  assumes M: "CONTENT \<in> M" and t: "tells (marks M) s b W r p t" and b: "b + QD < 2 ^ 64"
    and fail: "\<And>rc u. rc \<noteq> 0 \<Longrightarrow> Q rc u"
    and ok: "\<And>u. tells (marks M) s (b + QD) (ext W (drained base)) r p u \<Longrightarrow> work u = work t \<Longrightarrow> Q 0 u"
  shows "post (peer_drain os base) E Q t"
proof -
  let ?P = "\<lambda>i u. tells (marks M) s (b + i) (ext W (map (got_by_peer base) [0..<i])) r p u \<and> work u = work t"
  have "post (peer_take os base i) E (\<lambda>rc u. if rc = 0 then ?P (Suc i) u else True) u" if "i < QD" "?P i u" for i u
    by (rule tells_peer_take [OF M conjunct1 [OF that(2)]]) (use b that in auto)
  then have loop: "post (until_fail (peer_take os base) [0..<QD]) E (\<lambda>rc u. if rc = 0 then ?P QD u else True) t"
    by (intro post_until) (use t in auto)
  have last: "post (peer_recv os) E (\<lambda>a v. case a of (nr, e, _) \<Rightarrow> Q (if 0 \<le> nr \<or> e \<noteq> EAGAIN then -1 else 0) v) u"
    if u: "?P QD u" for u
    by (rule tells_peer_recv [OF conjunct1 [OF u]]) (use u in \<open>auto simp: drained_def intro: fail ok\<close>)
  show ?thesis
    unfolding peer_drain_def post_seq
    by (rule post_mono [OF loop], assumption)
      (auto simp: post_seq post_funs post_case_prod [abs_def] post_give fail split: if_splits intro!: last)
qed

lemma tells_validate:
  assumes M: "CONTENT \<in> M" and t: "tells (marks M) s b W r p t" and b: "b + QD < 2 ^ 64"
    and fail: "\<And>rc u. rc \<noteq> 0 \<Longrightarrow> Q rc u"
    and ok: "\<And>u. tells (marks M) s (b + QD)
        (ext W (map (\<lambda>i. LOOKED (recv_buf (net_work os) i) (pattern (base + of_nat i))) [0..<QD])) r p u \<Longrightarrow>
      work u = work t \<Longrightarrow> Q 0 u"
  shows "post (validate_receive_buffers os base) E Q t"
proof -
  let ?c = "\<lambda>i. LOOKED (recv_buf (net_work os) i) (pattern (base + of_nat i))"
  let ?P = "\<lambda>i u. tells (marks M) s (b + i) (ext W (map ?c [0..<i])) r p u \<and> work u = work t"
  have "post (compare_buffer os (recv_buf (net_work os) i) (base + of_nat i)) E (\<lambda>_. ?P (Suc i)) u"
    if "i < QD" "?P i u" for i u
    by (rule tells_compare [OF M conjunct1 [OF that(2)]]) (use b that in auto)
  then have loop: "post (each (\<lambda>i. compare_buffer os (recv_buf (net_work os) i) (base + of_nat i)) [0..<QD]) E (\<lambda>_. ?P QD) t"
    by (intro post_each) (use t in auto)
  show ?thesis
    unfolding validate_receive_buffers_def post_seq post_gets
    by (rule post_mono [OF loop], assumption) (auto intro: fail ok)
qed

section \<open>The end of a round\<close>

definition healthy :: "net_call" where
  "healthy = HEALTH 0 0 0"

definition with_health :: "u64 \<Rightarrow> u32 \<Rightarrow> u32 \<Rightarrow> result \<Rightarrow> result" where
  "with_health left dropped overflow r = r\<lparr>res_outstanding := left, res_sq_dropped := ucast dropped,
     res_cq_overflow := ucast overflow\<rparr>"

lemma with_health_zero: "with_health 0 0 0 r = r\<lparr>res_outstanding := 0, res_sq_dropped := 0, res_cq_overflow := 0\<rparr>"
  by (simp add: with_health_def)

lemma with_health_keeps: "keeps (marks M) (with_health x y z)"
  by (rule marks_keep) (simp_all add: with_health_def marks_def)

lemma tells_health:
  assumes t: "tells (marks M) s b W r p t"
    and Q: "\<And>x y z u. tells (marks M) s b (ext W [HEALTH x y z]) (with_health x y z r) p u \<Longrightarrow>
      res_outstanding (res u) = x \<Longrightarrow> res_sq_dropped (res u) = ucast y \<Longrightarrow> res_cq_overflow (res u) = ucast z \<Longrightarrow> Q () u"
  shows "post (read_health os) E Q t"
proof -
  have fin: "post (log_call (HEALTH x y z)) E (\<lambda>_. post (upd_res (with_health x y z)) E Q) u"
    if "tells (marks M) s b W r p u" for x y z u
    by (rule tells_log [OF that], simp, rule tells_keep [OF _ with_health_keeps], assumption, erule Q)
      (simp_all add: with_health_def)
  show ?thesis
    unfolding read_health_def outstanding_def load_acquire_u32_def post_seq post_funs with_health_def [symmetric]
    by (rule tells_look [OF t], (rule tells_look, assumption)+, rule fin)
qed

text \<open>The verdict; \<open>pass\<close> asks for clean counters and a healthy ring.\<close>

definition passed :: "result \<Rightarrow> result" where
  "passed r = r\<lparr>semantic_pass := True\<rparr>"

definition strict :: "mark set \<Rightarrow> (result \<Rightarrow> bool) \<Rightarrow> bool" where
  "strict M pass \<longleftrightarrow> (\<forall>r. pass r \<longrightarrow> clean (marks M) r \<and> res_outstanding r = 0 \<and> res_sq_dropped r = 0 \<and>
     res_cq_overflow r = 0)"

text \<open>What a round that has returned 0 leaves behind.\<close>

definition round_ok :: "'k proc \<Rightarrow> scripts \<Rightarrow> result \<Rightarrow> 'k proc \<Rightarrow> bool" where
  "round_ok s W r t \<longleftrightarrow> same_env s t \<and>
     (\<exists>new. calls t = calls s @ new \<and> W (filter visible new) \<and> res t = r\<lparr>elapsed_ns := laps (clocks new)\<rparr>)"

lemma tells_verdict:
  assumes t: "tells (marks M) s b W r [] t" and pass: "strict M pass"
  shows "post (seq (read_health os) (\<lambda>_. set_pass pass)) E
    (\<lambda>rc u. rc = 0 \<longrightarrow> round_ok s (ext W [healthy]) (passed r\<lparr>res_outstanding := 0, res_sq_dropped := 0,
       res_cq_overflow := 0\<rparr>) u \<and> (\<exists>x. pass x \<and> passed x = res u)) t"
  unfolding post_seq
proof (rule tells_health [OF t])
  fix x y z u
  assume u: "tells (marks M) s b (ext W [HEALTH x y z]) (with_health x y z r) [] u"
    "res_outstanding (res u) = x" "res_sq_dropped (res u) = ucast y" "res_cq_overflow (res u) = ucast z"
  show "post (set_pass pass) E (\<lambda>rc u. rc = 0 \<longrightarrow> round_ok s (ext W [healthy]) (passed r\<lparr>res_outstanding := 0, res_sq_dropped := 0,
       res_cq_overflow := 0\<rparr>) u \<and> (\<exists>x. pass x \<and> passed x = res u)) u"
  proof (cases "pass (res u)")
    case True
    then have clean: "clean (marks M) (res u)" and zero: "x = 0" "y = 0" "z = 0"
      using pass u(2-) ucast_32_64_inject [of y 0] ucast_32_64_inject [of z 0] by (auto simp: strict_def)
    obtain new ts where new: "calls u = calls s @ new" "ext W [HEALTH x y z] (filter visible new)" "clocks new = ts"
        "res u = (with_health x y z r)\<lparr>elapsed_ns := laps ts\<rparr>" "same_env s u"
      using u(1) clean by (auto simp: tells_def told_def)
    let ?u = "u\<lparr>res := (res u)\<lparr>semantic_pass := True\<rparr>\<rparr>"
    have "round_ok s (ext W [healthy]) (passed r\<lparr>res_outstanding := 0, res_sq_dropped := 0, res_cq_overflow := 0\<rparr>) ?u"
      using new by (auto simp: round_ok_def zero healthy_def with_health_zero passed_def same_env_def)
    moreover have "\<exists>x. pass x \<and> passed x = res ?u"
      using True by (intro exI [of _ "res u"]) (simp add: passed_def)
    ultimately show ?thesis using True by (simp add: set_pass_def post_simps)
  qed (simp add: set_pass_def post_simps)
qed

section \<open>Rounds of batches\<close>

text \<open>What a profile provides: a batch that has returned 0 has added its script, which may depend on
  the state the round started in, and its gain.\<close>

locale batched =
  fixes M :: "mark set" and batch :: "nat \<Rightarrow> ('k, int) prog" and script :: "'k proc \<Rightarrow> nat \<Rightarrow> scripts"
    and gain :: "result \<Rightarrow> result" and E :: "int \<Rightarrow> 'k proc \<Rightarrow> bool"
  assumes batch: "tells (marks M) s b W r [] t \<Longrightarrow> b + 4 * QD < 2 ^ 64 \<Longrightarrow> (\<And>u. E EXIT_FAILURE u) \<Longrightarrow>
      post (batch k) E (\<lambda>rc u. rc = 0 \<longrightarrow> tells (marks M) s (b + 4 * QD) (follow W (script s k)) (gain r) [] u) t"
begin

lemma batches:
  assumes t: "tells (marks M) s 0 W r [] t" and E: "\<And>u. E EXIT_FAILURE u" and n: "n * (4 * QD) < 2 ^ 64"
  shows "post (until_fail batch [0..<n]) E (\<lambda>rc u. rc = 0 \<longrightarrow>
    tells (marks M) s (n * (4 * QD)) (follow W (all_of (script s) n)) ((gain ^^ n) r) [] u) t"
proof -
  let ?P = "\<lambda>i u. tells (marks M) s (i * (4 * QD)) (follow W (all_of (script s) i)) ((gain ^^ i) r) [] u"
  have "post (batch i) E (\<lambda>rc u. if rc = 0 then ?P (Suc i) u else True) u" if "i < n" "?P i u" for i u
  proof (rule post_mono [OF batch [OF that(2) _ E]])
    have "i * (4 * QD) + 4 * QD = Suc i * (4 * QD)" by simp
    also have "\<dots> \<le> n * (4 * QD)" using that(1) by (intro mult_le_mono1) simp
    finally show "i * (4 * QD) + 4 * QD < 2 ^ 64" using n by linarith
  qed (auto simp: add.commute)
  then have "post (until_fail batch [0..<n]) E (\<lambda>rc u. if rc = 0 then ?P n u else True) t"
    by (intro post_until) (use t in auto)
  then show ?thesis by (rule post_mono) auto
qed

lemma round:
  assumes t: "tells (marks M) s 0 W r [] t" and E: "\<And>u. E EXIT_FAILURE u" and n: "n * (4 * QD) < 2 ^ 64"
    and pass: "strict M pass"
  shows "post (seq (until_fail batch [0..<n]) (\<lambda>rc. if rc \<noteq> 0 then give (-1)
      else seq (read_health os) (\<lambda>_. set_pass pass))) E
    (\<lambda>rc u. rc = 0 \<longrightarrow> round_ok s (ext (follow W (all_of (script s) n)) [healthy])
      (passed ((gain ^^ n) r)\<lparr>res_outstanding := 0, res_sq_dropped := 0, res_cq_overflow := 0\<rparr>) u) t"
proof (rule post_seqI [OF batches [OF t E n]])
  fix rc u
  assume u: "rc = 0 \<longrightarrow> tells (marks M) s (n * (4 * QD)) (follow W (all_of (script s) n)) ((gain ^^ n) r) [] u"
  show "post (if rc \<noteq> 0 then give (-1) else seq (read_health os) (\<lambda>_. set_pass pass)) E
    (\<lambda>rc u. rc = 0 \<longrightarrow> round_ok s (ext (follow W (all_of (script s) n)) [healthy])
      (passed ((gain ^^ n) r)\<lparr>res_outstanding := 0, res_sq_dropped := 0, res_cq_overflow := 0\<rparr>) u) u"
  proof (rule post_ifI)
    assume "\<not> rc \<noteq> 0"
    with u have "tells (marks M) s (n * (4 * QD)) (follow W (all_of (script s) n)) ((gain ^^ n) r) [] u" by simp
    from tells_verdict [OF this pass, of os E] show "post (seq (read_health os) (\<lambda>_. set_pass pass)) E
      (\<lambda>rc u. rc = 0 \<longrightarrow> round_ok s (ext (follow W (all_of (script s) n)) [healthy])
        (passed ((gain ^^ n) r)\<lparr>res_outstanding := 0, res_sq_dropped := 0, res_cq_overflow := 0\<rparr>) u) u"
      by (rule post_mono) simp_all
  qed (simp add: post_simps)
qed

end

end
