(* ===== verification/Net_Sound.thy ===== *)
theory Net_Sound
  imports Net_Logic
begin

text \<open>
  What a round of io_uring_net_round.c that has returned 0 has seen, for the profiles without provided buffers: the script of
  each batch, and the result.
\<close>

section \<open>Only memory is written\<close>

definition only_mem :: "'k proc \<Rightarrow> 'k proc \<Rightarrow> bool" where
  "only_mem t u \<longleftrightarrow> (\<exists>m. u = t\<lparr>mem := m\<rparr>)"

lemma only_mem_refl [simp]: "only_mem t t"
  unfolding only_mem_def by (rule exI [of _ "mem t"]) simp

lemma only_mem_trans: "only_mem t u \<Longrightarrow> only_mem u v \<Longrightarrow> only_mem t v"
  by (auto simp: only_mem_def)

lemma only_mem_upd [simp]: "only_mem t (t\<lparr>mem := m\<rparr>)"
  by (auto simp: only_mem_def)

lemma only_mem_each:
  assumes "\<And>i u. post (f i) E (\<lambda>_. only_mem u) u"
  shows "post (each f [0..<n]) E (\<lambda>_. only_mem t) t"
  by (rule post_each) (auto intro: post_mono [OF assms] only_mem_trans)

lemma prepare_only_mem: "post (prepare_iov os b) E (\<lambda>_. only_mem t) t"
proof -
  have seg: "post (prepare_seg w b i j) E (\<lambda>_. only_mem u) u" for w b i j u
    by (simp add: prepare_seg_def post_simps)
  have "post (prepare_slot w b i) E (\<lambda>_. only_mem u) u" for w b i u
    unfolding prepare_slot_def post_seq post_upd(3)
    by (rule post_mono [OF only_mem_each [OF seg]]) (auto intro: only_mem_trans [OF only_mem_trans] simp: only_mem_def)
  then show ?thesis unfolding prepare_iov_def by (rule only_mem_each)
qed

lemma pattern_only_mem: "post (each (\<lambda>i. pattern_fill (a i) (sq i)) [0..<n]) E (\<lambda>_. only_mem t) t"
  by (rule only_mem_each) (simp add: pattern_fill_def post_simps)

lemma tells_only_mem: "tells mk s b W r p t \<Longrightarrow> only_mem t u \<Longrightarrow> tells mk s b W r p u \<and> work u = work t"
  by (auto simp: only_mem_def intro: tells_upd_mem)

section \<open>The ordinary profiles\<close>

definition batch_gain :: "bool \<Rightarrow> result \<Rightarrow> result" where
  "batch_gain timed r = counted QD (entered timed (filled r))"

text \<open>The completions of a batch, in the order of their requests.\<close>

definition answers :: "s32 \<Rightarrow> nat \<Rightarrow> net_call list" where
  "answers n k = map (\<lambda>i. CQE (good_cqe (base_of k + of_nat i) n)) [0..<QD]"

definition compared :: "u64 \<Rightarrow> nat \<Rightarrow> net_call list" where
  "compared w k = map (\<lambda>i. LOOKED (recv_buf w i) (pattern (base_of k + of_nat i))) [0..<QD]"

definition ordinary_script :: "u64 \<Rightarrow> profile_id \<Rightarrow> nat \<Rightarrow> net_call list" where
  "ordinary_script w prof k =
     (if send_path prof then [] else map (sent_by_peer (base_of k)) [0..<QD]) @
     enter_batch # answers (of_nat PAYLOAD_BYTES) k @
     (if send_path prof then drained (base_of k) else compared w k)"

lemma tells_stage:
  assumes t: "tells (marks M) s b W r [] t" and E: "\<And>u. E EXIT_FAILURE u"
    and fail: "\<And>u. Q None u"
    and ok: "\<And>started u. tells (marks M) s b
        (ext W (if send_path prof then [] else map (sent_by_peer (base_of k)) [0..<QD])) (filled r)
        (if timed then [started] else []) u \<Longrightarrow> Q (Some started) u"
  shows "post (ordinary_stage os prof timed k) E Q t"
proof -
  let ?base = "base_of k" and ?w = "net_work os"
  let ?sent = "if send_path prof then [] else map (sent_by_peer ?base) [0..<QD]"
  have fill: "post (fill_queue os f timed) E Q u" if "tells (marks M) s b (ext W ?sent) r [] u" for f u
    by (rule tells_fill [OF that]) (auto intro: E fail ok)
  have rest: "post (seq (if \<not> send_path prof then peer_fill os ?base else give 0) (\<lambda>rc. if rc \<noteq> 0 then give None
      else seq (gets (\<lambda>s. fst (work_sockets (work s)))) (\<lambda>fd. fill_queue os (ordinary_sqe ?w fd prof ?base) timed))) E Q u"
    if u: "tells (marks M) s b W r [] u" for u
  proof (cases "send_path prof")
    case True
    with u show ?thesis by (simp add: post_simps fill)
  next
    case False
    then show ?thesis
      unfolding post_seq
      by simp (rule tells_peer_fill [OF u], use False in \<open>auto simp: post_simps fail intro!: fill\<close>)
  qed
  have "post (each (\<lambda>i. pattern_fill (send_buf ?w i) (?base + of_nat i)) [0..<QD]) E
      (\<lambda>_. post (seq (if \<not> send_path prof then peer_fill os ?base else give 0) (\<lambda>rc. if rc \<noteq> 0 then give None
      else seq (gets (\<lambda>s. fst (work_sockets (work s)))) (\<lambda>fd. fill_queue os (ordinary_sqe ?w fd prof ?base) timed))) E Q)
      (t\<lparr>mem := m\<rparr>)" for m
    by (rule post_mono [OF pattern_only_mem], assumption, rule rest)
      (use tells_only_mem [OF tells_upd_mem [OF t]] in blast)
  then show ?thesis
    unfolding ordinary_stage_def Let_def clear_recv_buf_def post_seq post_upd(3) .
qed

lemma ordinary_batch_tells:
  assumes M: "FLAGS \<in> M" "USER_DATA \<in> M" "CONTENT \<in> M"
    and t: "tells (marks M) s b W r [] t" and b: "b + 2 * QD < 2 ^ 64" and E: "\<And>u. E EXIT_FAILURE u"
  shows "post (ordinary_batch os prof timed k) E (\<lambda>rc u. rc = 0 \<longrightarrow>
    tells (marks M) s (b + 2 * QD) (ext W (ordinary_script (net_work os) prof k)) (batch_gain timed r) [] u) t"
    (is "post _ E ?Q t")
proof -
  let ?base = "base_of k"
  let ?W1 = "ext W (if send_path prof then [] else map (sent_by_peer ?base) [0..<QD])"
  have last: "post (if send_path prof then peer_drain os ?base else validate_receive_buffers os ?base) E
      (\<lambda>rc. post (give (if rc \<noteq> 0 then -1 else 0)) E ?Q) u"
    if u: "tells (marks M) s (b + QD) (ext ?W1 (enter_batch # answers (of_nat PAYLOAD_BYTES) k)) (batch_gain timed r) [] u" for u
  proof (cases "send_path prof")
    case True
    have "post (peer_drain os ?base) E (\<lambda>rc. post (give (if rc \<noteq> 0 then -1 else 0)) E ?Q) u"
      by (rule tells_peer_drain [OF M(3) u]) (use b True in \<open>auto simp: post_simps ordinary_script_def mult_2 add.assoc\<close>)
    with True show ?thesis by simp
  next
    case False
    have "post (validate_receive_buffers os ?base) E (\<lambda>rc. post (give (if rc \<noteq> 0 then -1 else 0)) E ?Q) u"
      by (rule tells_validate [OF M(3) u])
        (use b False in \<open>auto simp: post_simps ordinary_script_def compared_def mult_2 add.assoc\<close>)
    with False show ?thesis by simp
  qed
  have judge: "post (each (\<lambda>i. account_result i (?base + of_nat i) False) [0..<QD]) E (\<lambda>_.
      post (if send_path prof then peer_drain os ?base else validate_receive_buffers os ?base) E
      (\<lambda>rc. post (give (if rc \<noteq> 0 then -1 else 0)) E ?Q)) u"
    if u: "length cs = QD" "copies cs u"
      "tells (marks M) s b (ext ?W1 (enter_batch # map CQE cs)) (entered timed (filled r)) [] u" for cs u
  proof -
    have "tells (marks M) s b (ext (ext ?W1 [enter_batch]) (map CQE cs)) (entered timed (filled r)) [] u"
      using u(3) by simp
    then show ?thesis
      by (rule tells_accounts [OF M(1,2) u(2,1)])
        (use b in simp, rule last, simp add: answers_def batch_gain_def)
  qed
  show ?thesis
    unfolding ordinary_batch_def Let_def post_seq
    by (rule tells_stage [OF t], rule E, simp add: post_simps, simp only: option.case post_seq, rule tells_collect,
        assumption, rule E, simp add: post_simps, simp only: simp_thms if_False post_funs(3))
      (rule judge, assumption+)
qed

definition ordinary_marks :: "mark set" where
  "ordinary_marks = {FLAGS, USER_DATA, CONTENT}"

text \<open>Only the exit of \<open>now_ns\<close> leaves a round.\<close>

definition clock_exit :: "int \<Rightarrow> 'k proc \<Rightarrow> bool" where
  "clock_exit c t \<longleftrightarrow> c = EXIT_FAILURE"

lemma enough:
  assumes "post m E (\<lambda>rc u. rc = 0 \<longrightarrow> tells mk s (b + 2 * QD) (ext W x) r [] u) t"
  shows "post m E (\<lambda>rc u. rc = 0 \<longrightarrow> tells mk s (b + 4 * QD) (follow W ((=) x)) r [] u) t"
  using assms by (rule post_mono) (auto elim: tells_weaken)

interpretation ordinary: batched ordinary_marks "ordinary_batch os prof timed"
    "\<lambda>s k. (=) (ordinary_script (net_work os) prof k)" "batch_gain timed" clock_exit
  for os prof timed
  by unfold_locales (rule enough [OF ordinary_batch_tells], auto simp: ordinary_marks_def)

section \<open>NOPs\<close>

definition nop_script :: "nat \<Rightarrow> net_call list" where
  "nop_script k = enter_batch # answers 0 k"

lemma nop_checks:
  assumes "FLAGS \<in> M" "USER_DATA \<in> M"
  shows "checks (marks M) (c = good_cqe ud 0) (tally_nop c ud) (counted 1)"
  by (rule marks_checks [where a = "cqe_res c \<noteq> 0" and b = "cqe_flags c \<noteq> 0" and c = "cqe_user_data c \<noteq> ud"
        and d = False and e = False])
    (use assms in \<open>auto simp: raises_def good_cqe_iff tally_nop_def counted_def inc_def\<close>)

lemma nop_batch_tells:
  assumes M: "FLAGS \<in> M" "USER_DATA \<in> M"
    and t: "tells (marks M) s b W r [] t" and b: "b + 2 * QD < 2 ^ 64" and E: "\<And>u. E EXIT_FAILURE u"
  shows "post (nop_batch os timed k) E (\<lambda>rc u. rc = 0 \<longrightarrow>
    tells (marks M) s (b + 2 * QD) (ext W (nop_script k)) (batch_gain timed r) [] u) t"
    (is "post _ E ?Q t")
proof -
  let ?base = "base_of k"
  have judge: "post (each (\<lambda>i. account_nop i (?base + of_nat i)) [0..<QD]) E
      (\<lambda>_. tells (marks M) s (b + 2 * QD) (ext W (nop_script k)) (batch_gain timed r) []) u"
    if cs: "length cs = QD" "copies cs u"
      and u: "tells (marks M) s b (ext W (enter_batch # map CQE cs)) (entered timed (filled r)) [] u" for cs u
  proof -
    have u': "tells (marks M) s b (ext (ext W [enter_batch]) (map CQE cs)) (entered timed (filled r)) [] u"
      using u by simp
    show ?thesis
    proof (rule tells_judge [where f = "\<lambda>i c. tally_nop c (?base + of_nat i)", OF nop_checks [OF M] _ u' cs(1)])
      show "post (account_nop i (?base + of_nat i)) E R v"
        if "i < QD" "work v = work u" "post (upd_res (tally_nop (cs ! i) (?base + of_nat i))) E R v" for i v R
        using that cs by (simp add: account_nop_def post_simps copies_def)
    next
      fix v
      assume "tells (marks M) s (b + QD) (ext (ext W [enter_batch]) (map (\<lambda>i. CQE (good_cqe (?base + of_nat i) 0)) [0..<QD]))
          (counted QD (entered timed (filled r))) [] v"
      then have "tells (marks M) s (b + QD) (ext W (nop_script k)) (batch_gain timed r) [] v"
        by (simp add: nop_script_def answers_def batch_gain_def)
      then show "tells (marks M) s (b + 2 * QD) (ext W (nop_script k)) (batch_gain timed r) [] v"
        by (auto elim: tells_weaken)
    qed (use b in simp)
  qed
  show ?thesis
    unfolding nop_batch_def Let_def post_seq
    by (rule tells_fill [OF t], rule E, simp add: post_simps, simp only: option.case post_seq, rule tells_collect,
        assumption, rule E, simp add: post_simps, simp only: simp_thms if_False post_funs(1,3))
      (rule judge, assumption+)
qed

definition nop_marks :: "mark set" where
  "nop_marks = {FLAGS, USER_DATA}"

interpretation nop: batched nop_marks "nop_batch os timed" "\<lambda>s k. (=) (nop_script k)" "batch_gain timed" clock_exit
  for os timed
  by unfold_locales (rule enough [OF nop_batch_tells], auto simp: nop_marks_def)

section \<open>\<open>sendmmsg\<close>\<close>

definition sys_script :: "nat \<Rightarrow> net_call list" where
  "sys_script k = SENDMMSG (int QD) (replicate QD (of_nat PAYLOAD_BYTES)) # drained (base_of k)"

definition sent_all :: "nat \<Rightarrow> result \<Rightarrow> result" where
  "sent_all n r = r\<lparr>successful_results := successful_results r + of_nat n\<rparr>"

definition sys_gain :: "bool \<Rightarrow> result \<Rightarrow> result" where
  "sys_gain timed r = sent_all QD (entered timed r)"

lemma len_checks: "checks (marks M) (l = of_nat PAYLOAD_BYTES) (tally_len l) (sent_all 1)"
  by (rule marks_checks [where a = "l \<noteq> of_nat PAYLOAD_BYTES" and b = False and c = False and d = False and e = False])
    (auto simp: raises_def tally_len_def sent_all_def inc_def)

lemma tells_lens:
  assumes t: "tells (marks M) s b (ext W [SENDMMSG (int QD) (map lens [0..<QD])]) r p t" and b: "b + QD < 2 ^ 64"
    and Q: "\<And>u. tells (marks M) s (b + QD) (ext W [SENDMMSG (int QD) (replicate QD (of_nat PAYLOAD_BYTES))]) (sent_all QD r) p u \<Longrightarrow>
      Q () u"
  shows "post (each (account_len lens) [0..<QD]) E Q t"
proof -
  let ?l = "\<lambda>i. replicate i (of_nat PAYLOAD_BYTES) @ map lens [i..<QD]"
  let ?P = "\<lambda>i u. tells (marks M) s (b + i) (ext W [SENDMMSG (int QD) (?l i)]) (sent_all i r) p u"
  have "post (account_len lens i) E (\<lambda>_. ?P (Suc i)) u" if i: "i < QD" and u: "?P i u" for i u
    unfolding account_len_def
  proof (rule tells_check [OF u len_checks])
    show "ext W [SENDMMSG (int QD) (?l (Suc i))] x" if "lens i = of_nat PAYLOAD_BYTES" "ext W [SENDMMSG (int QD) (?l i)] x" for x
      using that i by (simp add: upt_conv_Cons replicate_app_Cons_same)
    show "Suc (b + i) < 2 ^ 64" using b i by simp
    have "sent_all 1 (sent_all i r) = sent_all (Suc i) r" by (simp add: sent_all_def add.commute)
    then show "?P (Suc i) v" if "tells (marks M) s (Suc (b + i)) (ext W [SENDMMSG (int QD) (?l (Suc i))]) (sent_all 1 (sent_all i r)) p v" for v
      using that by simp
  qed
  then have "post (each (account_len lens) [0..<QD]) E (\<lambda>_. ?P QD) t"
    by (intro post_each) (use t in \<open>auto simp: sent_all_def\<close>)
  then show ?thesis by (rule post_mono) (use Q in auto)
qed

lemma tells_send:
  assumes t: "tells mk s b W r p t"
    and Q: "\<And>sent e lens u. tells mk s b (ext W [SENDMMSG sent (map lens [0..<QD])]) r p u \<Longrightarrow> Q (sent, e, lens) u"
  shows "post (send_messages os) E Q t"
  unfolding send_messages_def Let_def post_seq post_gets
  by (rule tells_kernel [OF t], rename_tac a u, case_tac a, simp only: prod.case post_seq post_funs, rule tells_log,
      assumption, simp, rule Q)

lemma sys_batch_tells:
  assumes M: "CONTENT \<in> M"
    and t: "tells (marks M) s b W r [] t" and b: "b + 2 * QD < 2 ^ 64" and E: "\<And>u. E EXIT_FAILURE u"
  shows "post (sys_batch os timed k) E (\<lambda>rc u. rc = 0 \<longrightarrow>
    tells (marks M) s (b + 2 * QD) (ext W (sys_script k)) (sys_gain timed r) [] u) t"
    (is "post _ E ?Q t")
proof -
  let ?base = "base_of k" and ?w = "net_work os"
  let ?W = "ext W [SENDMMSG (int QD) (replicate QD (of_nat PAYLOAD_BYTES))]"
  have drain: "post (peer_drain os ?base) E (\<lambda>rc. post (give (if rc \<noteq> 0 then -1 else 0)) E ?Q) u"
    if "tells (marks M) s (b + QD) ?W (sys_gain timed r) [] u" for u
    by (rule tells_peer_drain [OF M that]) (use b in \<open>auto simp: post_simps sys_script_def mult_2 add.assoc\<close>)
  have judge: "post (if sent \<noteq> int QD
      then seq (upd_res (\<lambda>r. r\<lparr>eagain_results := inc (sent < 0 \<and> e = EAGAIN) (eagain_results r),
                               bad_results := bad_results r + 1\<rparr>)) (\<lambda>_. give (-1))
      else seq (each (account_len lens) [0..<QD]) (\<lambda>_. seq (peer_drain os ?base) (\<lambda>rc.
           give (if rc \<noteq> 0 then -1 else 0)))) E ?Q u"
    if u: "tells (marks M) s b (ext W [SENDMMSG sent (map lens [0..<QD])]) (entered timed r) [] u" for sent e lens u
  proof (rule post_ifI)
    assume "\<not> sent \<noteq> int QD"
    with u have u': "tells (marks M) s b (ext W [SENDMMSG (int QD) (map lens [0..<QD])]) (entered timed r) [] u" by simp
    show "post (seq (each (account_len lens) [0..<QD]) (\<lambda>_. seq (peer_drain os ?base) (\<lambda>rc.
        give (if rc \<noteq> 0 then -1 else 0)))) E ?Q u"
      unfolding post_seq post_funs(3)
      by (rule tells_lens [OF u'], use b in simp, rule drain, simp add: sys_gain_def)
  qed (simp add: post_simps)
  have count: "post (upd_res (\<lambda>r. r\<lparr>total_enters := total_enters r + 1\<rparr>)) E (\<lambda>_.
      post (if timed then upd_res (\<lambda>r. r\<lparr>timed_enters := timed_enters r + 1\<rparr>) else give ()) E R) u"
    if "post (upd_res (entered timed)) E R u" for R u
    using that by (cases timed) (simp_all add: post_simps entered_def)
  have rest: "post (seq (now_if timed os) (\<lambda>started. seq (send_messages os) (\<lambda>(sent, e, lens).
      seq (upd_res (\<lambda>r. r\<lparr>total_enters := total_enters r + 1\<rparr>)) (\<lambda>_.
      seq (if timed then upd_res (\<lambda>r. r\<lparr>timed_enters := timed_enters r + 1\<rparr>) else give ()) (\<lambda>_.
      seq (add_elapsed timed os started) (\<lambda>_.
      if sent \<noteq> int QD
      then seq (upd_res (\<lambda>r. r\<lparr>eagain_results := inc (sent < 0 \<and> e = EAGAIN) (eagain_results r),
                               bad_results := bad_results r + 1\<rparr>)) (\<lambda>_. give (-1))
      else seq (each (account_len lens) [0..<QD]) (\<lambda>_. seq (peer_drain os ?base) (\<lambda>rc.
           give (if rc \<noteq> 0 then -1 else 0))))))))) E ?Q u"
    if u: "tells (marks M) s b W r [] u" for u
    unfolding post_seq [where m = "now_if timed os"] post_seq [where m = "send_messages os"]
    by (rule tells_now_if [OF u], rule E, rule tells_send, assumption, simp only: prod.case post_seq post_funs(3), rule count,
        rule tells_keep [OF _ entered_keeps], assumption, rule tells_add_elapsed, assumption, rule E, rule marks_elapsed)
      (rule judge)
  show ?thesis
    unfolding sys_batch_def Let_def post_seq [where m = "each _ _"]
    by (rule post_mono [OF pattern_only_mem], assumption, rule rest) (use tells_only_mem [OF t] in blast)
qed

definition sys_marks :: "mark set" where
  "sys_marks = {CONTENT}"

interpretation sys: batched sys_marks "sys_batch os timed" "\<lambda>s k. (=) (sys_script k)" "sys_gain timed" clock_exit
  for os timed
  by unfold_locales (rule enough [OF sys_batch_tells], auto simp: sys_marks_def)

text \<open>
  The verdicts of the rounds of io_uring_net_round.c without provided buffers: what is known of a round that has returned 0.
\<close>

section \<open>Results\<close>

definition batch_count :: "u32 \<Rightarrow> nat" where
  "batch_count operations = unat operations div QD"

lemma batch_count_mult: "batch_ok operations \<Longrightarrow> batch_count operations * QD = unat operations"
proof -
  assume "batch_ok operations"
  then have "unat (operations mod of_nat QD) = 0" by (simp add: batch_ok_def)
  then have "unat operations mod QD = 0" by (simp add: unat_mod_distrib QD_def)
  then show ?thesis unfolding batch_count_def by auto
qed

lemma ucast_of_nat: "(ucast (x :: u32) :: u64) = of_nat (unat x)"
proof -
  have "unat (of_nat (unat x) :: u64) = unat x" using unat_lt32 [of x] by (simp add: unat_of_nat)
  then show ?thesis by (simp add: word_unat_eq_iff)
qed

lemma batch_count_words: "batch_ok operations \<Longrightarrow> (of_nat (batch_count operations) :: u64) * of_nat QD = ucast operations"
  by (simp add: ucast_of_nat flip: batch_count_mult)

lemma batch_count_small: "batch_count operations * (4 * QD) < 2 ^ 64"
proof -
  have "unat operations div QD \<le> unat operations" by simp
  with unat_lt32 [of operations] have "batch_count operations < 2 ^ 32" unfolding batch_count_def by linarith
  then show ?thesis by (simp add: QD_def)
qed

definition rounds_up :: "bool \<Rightarrow> nat \<Rightarrow> result \<Rightarrow> result" where
  "rounds_up timed n r = r\<lparr>res_sqes := res_sqes r + of_nat n * of_nat QD, res_cqes := res_cqes r + of_nat n * of_nat QD,
     total_enters := total_enters r + of_nat n, timed_enters := timed_enters r + (if timed then of_nat n else 0),
     successful_results := successful_results r + of_nat n * of_nat QD\<rparr>"

lemma batch_gain_power: "(batch_gain timed ^^ n) r = rounds_up timed n r"
  by (induction n; cases timed) (simp_all add: rounds_up_def batch_gain_def counted_def entered_def filled_def algebra_simps)

definition ordinary_result :: "u32 \<Rightarrow> bool \<Rightarrow> result" where
  "ordinary_result operations timed = zero_result\<lparr>logical_ops := ucast operations,
     logical_bytes := ucast operations * of_nat PAYLOAD_BYTES, res_sqes := ucast operations,
     res_cqes := ucast operations, total_enters := of_nat (batch_count operations),
     timed_enters := (if timed then of_nat (batch_count operations) else 0),
     successful_results := ucast operations, semantic_pass := True\<rparr>"

definition nop_result :: "u32 \<Rightarrow> bool \<Rightarrow> result" where
  "nop_result operations timed = (ordinary_result operations timed)\<lparr>logical_bytes := 0\<rparr>"

definition sys_result :: "u32 \<Rightarrow> bool \<Rightarrow> result" where
  "sys_result operations timed = (ordinary_result operations timed)\<lparr>res_sqes := 0, res_cqes := 0\<rparr>"

lemma sys_gain_power:
  "(sys_gain timed ^^ n) r = r\<lparr>total_enters := total_enters r + of_nat n,
     timed_enters := timed_enters r + (if timed then of_nat n else 0),
     successful_results := successful_results r + of_nat n * of_nat QD\<rparr>"
  by (induction n; cases timed) (simp_all add: sys_gain_def sent_all_def entered_def algebra_simps)

section \<open>Rounds\<close>

lemma clean_zero: "clean (marks M) (zero_result\<lparr>logical_ops := a, logical_bytes := b\<rparr>)"
  "clean (marks M) (zero_result\<lparr>logical_ops := a\<rparr>)"
  by (simp_all add: clean_marks zero_result_def)

lemma elapsed_zero: "elapsed_ns (zero_result\<lparr>logical_ops := a, logical_bytes := b\<rparr>) = 0"
  "elapsed_ns (zero_result\<lparr>logical_ops := a\<rparr>) = 0"
  by (simp_all add: zero_result_def)

lemma tells_begin: "clean (marks M) r \<Longrightarrow> elapsed_ns r = 0 \<Longrightarrow> tells (marks M) (s\<lparr>res := r\<rparr>) 0 ((=) []) r [] (s\<lparr>res := r\<rparr>)"
  using tells_start [of "marks M" r "s\<lparr>res := r\<rparr>"] by simp

lemma round_ok_start:
  "round_ok (s\<lparr>res := r\<rparr>) W r' t \<longleftrightarrow> round_ok s W r' t"
  by (simp add: round_ok_def same_env_def)

text \<open>The scripts of whole rounds.\<close>

definition ordinary_round :: "u64 \<Rightarrow> profile_id \<Rightarrow> u32 \<Rightarrow> net_call list" where
  "ordinary_round w prof operations = concat (map (ordinary_script w prof) (batches operations)) @ [healthy]"

definition nop_round :: "u32 \<Rightarrow> net_call list" where
  "nop_round operations = concat (map nop_script (batches operations)) @ [healthy]"

definition sys_round :: "u32 \<Rightarrow> net_call list" where
  "sys_round operations = concat (map sys_script (batches operations)) @ [healthy]"

lemma ordinary_round_eq:
  "(=) (ordinary_round w prof operations) = ext (all_of (\<lambda>k. (=) (ordinary_script w prof k)) (batch_count operations)) [healthy]"
  by (simp add: ordinary_round_def all_of_lists batches_def batch_count_def)

lemma nop_round_eq:
  "(=) (nop_round operations) = ext (all_of (\<lambda>k. (=) (nop_script k)) (batch_count operations)) [healthy]"
  by (simp add: nop_round_def all_of_lists batches_def batch_count_def)

lemma sys_round_eq:
  "(=) (sys_round operations) = ext (all_of (\<lambda>k. (=) (sys_script k)) (batch_count operations)) [healthy]"
  by (simp add: sys_round_def all_of_lists batches_def batch_count_def)

lemma strict_passes:
  "strict ordinary_marks (ordinary_pass operations)" "strict nop_marks (nop_pass operations)"
  "strict sys_marks (sys_pass operations)"
  by (auto simp: strict_def clean_marks ordinary_pass_def ordinary_marks_def nop_pass_def nop_marks_def
      sys_pass_def sys_marks_def)

definition final :: "result \<Rightarrow> result" where
  "final r = (passed r)\<lparr>res_outstanding := 0, res_sq_dropped := 0, res_cq_overflow := 0\<rparr>"

lemma follow_start: "follow ((=) []) W = W"
  by (simp add: follow_def fun_eq_iff)

text \<open>From the first batch of a round to its verdict.\<close>

context batched begin

lemma run:
  assumes r: "clean (marks M) r" "elapsed_ns r = 0" and E: "\<And>u. E EXIT_FAILURE u" and pass: "strict M pass"
    and u: "only_mem (s\<lparr>res := r\<rparr>) u" and r': "batch_ok operations \<Longrightarrow> final ((gain ^^ batch_count operations) r) = r'"
    and ok: "batch_ok operations"
  shows "post (seq (until_fail batch (batches operations)) (\<lambda>rc. if rc \<noteq> 0 then give (-1)
      else seq (read_health os) (\<lambda>_. set_pass pass))) E
    (\<lambda>rc t. rc = 0 \<longrightarrow> batch_ok operations \<and>
      round_ok s (ext (all_of (script (s\<lparr>res := r\<rparr>)) (batch_count operations)) [healthy]) r' t) u"
proof -
  have "tells (marks M) (s\<lparr>res := r\<rparr>) 0 ((=) []) r [] u"
    using tells_only_mem [OF tells_begin [OF r] u] by simp
  from round [OF this E batch_count_small pass] show ?thesis
    unfolding batches_def batch_count_def [symmetric]
    by (rule post_mono) (auto simp: round_ok_start ok final_def [symmetric] r' follow_start)
qed

end

lemma run_ordinary_ok:
  "post (run_ordinary os prof operations timed) clock_exit (\<lambda>rc t. rc = 0 \<longrightarrow> batch_ok operations \<and>
     round_ok s ((=) (ordinary_round (net_work os) prof operations)) (ordinary_result operations timed) t) s"
  unfolding run_ordinary_def post_seq [where m = "upd_res _"] post_upd(1) ordinary_round_eq
proof (rule post_ifI, simp add: post_simps, rule post_seqI [OF prepare_only_mem],
    rule ordinary.run [OF clean_zero(1) elapsed_zero(1) _ strict_passes(1)])
  show "final ((batch_gain timed ^^ batch_count operations) (zero_result\<lparr>logical_ops := ucast operations,
      logical_bytes := ucast operations * of_nat PAYLOAD_BYTES\<rparr>)) = ordinary_result operations timed"
    if "batch_ok operations"
    using batch_count_words [OF that]
    by (simp add: batch_gain_power rounds_up_def ordinary_result_def final_def passed_def zero_result_def)
qed (simp_all add: clock_exit_def)

lemma run_nop_ok:
  "post (run_nop_control os operations timed) clock_exit (\<lambda>rc t. rc = 0 \<longrightarrow> batch_ok operations \<and>
     round_ok s ((=) (nop_round operations)) (nop_result operations timed) t) s"
  unfolding run_nop_control_def post_seq [where m = "upd_res _"] post_upd(1) nop_round_eq
proof (rule post_ifI, simp add: post_simps, rule nop.run [OF clean_zero(2) elapsed_zero(2) _ strict_passes(2)])
  show "final ((batch_gain timed ^^ batch_count operations) (zero_result\<lparr>logical_ops := ucast operations\<rparr>)) =
      nop_result operations timed" if "batch_ok operations"
    using batch_count_words [OF that]
    by (simp add: batch_gain_power rounds_up_def nop_result_def ordinary_result_def final_def passed_def zero_result_def)
qed (simp_all add: clock_exit_def)

lemma run_sys_ok:
  "post (run_sys_control os operations timed) clock_exit (\<lambda>rc t. rc = 0 \<longrightarrow> batch_ok operations \<and>
     round_ok s ((=) (sys_round operations)) (sys_result operations timed) t) s"
  unfolding run_sys_control_def post_seq [where m = "upd_res _"] post_upd(1) sys_round_eq
proof (rule post_ifI, simp add: post_simps, rule sys.run [OF clean_zero(1) elapsed_zero(1) _ strict_passes(3)])
  show "final ((sys_gain timed ^^ batch_count operations) (zero_result\<lparr>logical_ops := ucast operations,
      logical_bytes := ucast operations * of_nat PAYLOAD_BYTES\<rparr>)) = sys_result operations timed" if "batch_ok operations"
    using batch_count_words [OF that]
    by (simp add: sys_gain_power sys_result_def ordinary_result_def final_def passed_def zero_result_def)
qed (simp_all add: clock_exit_def)

end
