(* ===== verification/Net_Shots.thy ===== *)
theory Net_Shots
  imports Net_Sound
begin

text \<open>
  What a round of multishot receives of io_uring_net_round.c that has returned 0 has seen: in each batch as many
  completions as messages, each with a buffer of its own that holds its message, and the cancellation of the request.
\<close>

section \<open>Scripts\<close>

definition shot_marks :: "mark set" where
  "shot_marks = UNIV"

text \<open>The completions of a batch: all good, with different buffers.\<close>

definition good_shot :: "u64 \<Rightarrow> cqe \<Rightarrow> bool" where
  "good_shot ud c \<longleftrightarrow> cqe_user_data c = ud \<and> cqe_res c = of_nat PAYLOAD_BYTES \<and> good_buffer c"

definition shot_bid :: "cqe \<Rightarrow> nat" where
  "shot_bid c = unat (cqe_bid c)"

definition good_shots :: "u64 \<Rightarrow> cqe list \<Rightarrow> bool" where
  "good_shots ud cs \<longleftrightarrow> (\<forall>c \<in> set cs. good_shot ud c) \<and> distinct (map shot_bid cs)"

definition looked_at :: "(nat \<Rightarrow> u64) \<Rightarrow> u64 \<Rightarrow> cqe list \<Rightarrow> net_call list" where
  "looked_at pb base cs = map (\<lambda>i. LOOKED (pb (shot_bid (cs ! i))) (pattern (base + of_nat i))) [0..<length cs]"

definition cancel_pair :: "u64 \<Rightarrow> cqe \<Rightarrow> cqe \<Rightarrow> bool" where
  "cancel_pair ud c d \<longleftrightarrow> is_terminal ud c \<and> is_cancel ud d \<or> is_cancel ud c \<and> is_terminal ud d"

definition shots :: "(nat \<Rightarrow> u64) \<Rightarrow> nat \<Rightarrow> cqe list \<Rightarrow> cqe \<Rightarrow> cqe \<Rightarrow> net_call list" where
  "shots pb k cs c d = map (sent_by_peer (base_of k)) [0..<QD] @ ENTER 1 (of_nat QD) 1 # map CQE cs @
     looked_at pb (base_of k) cs @ [ENTER 1 2 1, CQE c, CQE d]"

definition shot_script :: "(nat \<Rightarrow> u64) \<Rightarrow> nat \<Rightarrow> scripts" where
  "shot_script pb k x \<longleftrightarrow> (\<exists>cs c d. length cs = QD \<and> good_shots (request_ud_of k) cs \<and>
     cancel_pair (request_ud_of k) c d \<and> x = shots pb k cs c d)"

section \<open>The buffers of a batch\<close>

lemma seen_bit: "n < 64 \<Longrightarrow> (acc :: u64) AND push_bit n 1 \<noteq> 0 \<longleftrightarrow> bit acc n"
  by (simp add: push_bit_eq_mult and_exp_eq_0_iff_not_bit)

definition seen_of :: "u64 \<Rightarrow> cqe list \<Rightarrow> bool" where
  "seen_of acc cs \<longleftrightarrow> (\<forall>n < PBUF_ENTRIES. bit acc n \<longleftrightarrow> n \<in> shot_bid ` set cs)"

lemma seen_of_Nil: "seen_of 0 []"
  by (simp add: seen_of_def)

lemma seen_of_add: "seen_of acc cs \<Longrightarrow> seen_of (acc OR push_bit (shot_bid c) 1) (cs @ [c])"
  by (auto simp: seen_of_def bit_simps PBUF_ENTRIES_def)

text \<open>The scripts after the first \<open>i\<close> completions; \<open>acc\<close> is \<open>seen_bids\<close>.\<close>

definition upto_shot :: "(nat \<Rightarrow> u64) \<Rightarrow> u64 \<Rightarrow> u64 \<Rightarrow> cqe list \<Rightarrow> scripts \<Rightarrow> nat \<Rightarrow> u64 \<Rightarrow> scripts" where
  "upto_shot pb base ud cs W i acc x \<longleftrightarrow> ext W (map CQE cs @ looked_at pb base (take i cs)) x \<and>
     good_shots ud (take i cs) \<and> seen_of acc (take i cs)"

lemma dup_checks: "BIDS \<in> M \<Longrightarrow> checks (marks M) (\<not> c) (\<lambda>r. r\<lparr>duplicate_bids := inc c (duplicate_bids r)\<rparr>) id"
  by (rule marks_checks [where a = False and b = False and c = False and d = False and e = c])
    (auto simp: raises_def)

lemma flag_checks: "FLAGS \<in> M \<Longrightarrow> checks (marks M) False (\<lambda>r. r\<lparr>bad_flags := bad_flags r + 1\<rparr>) id"
  by (rule marks_checks [where a = False and b = True and c = False and d = False and e = False])
    (auto simp: raises_def)

lemma shot_checks:
  "USER_DATA \<in> M \<Longrightarrow> checks (marks M) (cqe_user_data c = ud \<and> cqe_res c = of_nat PAYLOAD_BYTES)
     (account c ud True) (counted 1)"
  by (rule marks_checks [OF account_raises]) (auto simp: account_good)

lemma tells_take:
  assumes t: "tells (marks shot_marks) s b (upto_shot pb base ud cs W i acc) r p t"
    and cs: "copies cs t" and i: "i < length cs" and b: "b + 3 < 2 ^ 64" and pb: "pb = work_pbuf (work s)"
    and Q: "\<And>acc u. tells (marks shot_marks) s (b + 3) (upto_shot pb base ud cs W (Suc i) acc) (counted 1 r) p u \<Longrightarrow>
      copies cs u \<Longrightarrow> Q acc u"
  shows "post (take_buffer os base ud i acc) E Q t"
proof -
  let ?c = "cs ! i"
  have copy: "work_cqe_copy (work t) i = ?c" using cs i by (simp add: copies_def)
  have M: "BIDS \<in> shot_marks" "FLAGS \<in> shot_marks" "USER_DATA \<in> shot_marks" "CONTENT \<in> shot_marks"
    by (simp_all add: shot_marks_def)
  have tk: "take (Suc i) cs = take i cs @ [?c]" using i by (simp add: take_Suc_conv_app_nth)
  have looked: "looked_at pb base (take (Suc i) cs) =
      looked_at pb base (take i cs) @ [LOOKED (pb (shot_bid ?c)) (pattern (base + of_nat i))]"
    using i by (auto simp: looked_at_def nth_append less_Suc_eq_le)
  text \<open>After the flags and the buffer number have been found good.\<close>
  let ?W1 = "\<lambda>x. upto_shot pb base ud cs W i acc x \<and> cqe_user_data ?c = ud \<and> cqe_res ?c = of_nat PAYLOAD_BYTES"
  let ?W2 = "\<lambda>x. ?W1 x \<and> \<not> acc AND push_bit (shot_bid ?c) 1 \<noteq> 0"
  have good: "upto_shot pb base ud cs W (Suc i) (acc OR push_bit (shot_bid ?c) 1) x"
    if g: "ext ?W2 [LOOKED (pb (shot_bid ?c)) (pattern (base + of_nat i))] x" and gb: "good_buffer ?c" for x
  proof -
    obtain y where y: "?W2 y" "x = y @ [LOOKED (pb (shot_bid ?c)) (pattern (base + of_nat i))]"
      using g unfolding ext_def by blast
    have small: "shot_bid ?c < PBUF_ENTRIES" using gb by (auto simp: good_buffer_def shot_bid_def)
    have new: "shot_bid ?c \<notin> shot_bid ` set (take i cs)"
      using y(1) small seen_bit [of "shot_bid ?c" acc] by (auto simp: upto_shot_def seen_of_def PBUF_ENTRIES_def)
    have "good_shots ud (take (Suc i) cs)"
      using y(1) gb new unfolding tk by (auto simp: upto_shot_def good_shots_def good_shot_def)
    moreover have "ext W (map CQE cs @ looked_at pb base (take (Suc i) cs)) x"
      using y by (auto simp: upto_shot_def looked ext_def)
    moreover have "seen_of (acc OR push_bit (shot_bid ?c) 1) (take (Suc i) cs)"
      unfolding tk by (rule seen_of_add) (use y(1) in \<open>simp add: upto_shot_def\<close>)
    ultimately show ?thesis by (simp add: upto_shot_def)
  qed
  have buffer: "post (seq (upd_res (\<lambda>r. r\<lparr>duplicate_bids := inc (acc AND push_bit (shot_bid ?c) 1 \<noteq> 0) (duplicate_bids r)\<rparr>)) (\<lambda>_.
       seq (gets (\<lambda>s. work_pbuf (work s) (shot_bid ?c))) (\<lambda>a.
       seq (compare_buffer os a (base + of_nat i)) (\<lambda>_.
       seq (publish_buffer (cqe_bid ?c)) (\<lambda>_.
       give (acc OR push_bit (shot_bid ?c) 1)))))) E Q u"
    if u: "tells (marks shot_marks) s (b + 1) ?W1 (counted 1 r) p u" "work u = work t" "good_buffer ?c" for u
    unfolding post_seq post_gets post_funs publish_buffer_def post_change
  proof (rule tells_check [OF u(1) dup_checks [OF M(1)], where W' = ?W2])
    fix v'
    let ?v = "u\<lparr>res := (res u)\<lparr>duplicate_bids := inc (acc AND push_bit (shot_bid ?c) 1 \<noteq> 0) (duplicate_bids (res u))\<rparr>\<rparr>"
    assume v: "tells (marks shot_marks) s (Suc (b + 1)) ?W2 (id (counted 1 r)) p ?v"
    have a: "work_pbuf (work ?v) (shot_bid ?c) = pb (shot_bid ?c)"
      using same_work_D(3) [OF tells_env [OF v]] pb by simp
    show "post (compare_buffer os (work_pbuf (work ?v) (shot_bid ?c)) (base + of_nat i)) E
        (\<lambda>_ x. Q (acc OR push_bit (shot_bid ?c) 1) (publish (cqe_bid ?c) x)) ?v"
      unfolding a
    proof (rule tells_compare [OF M(4) v])
      fix x
      assume x: "tells (marks shot_marks) s (Suc (Suc (b + 1))) (ext ?W2 [LOOKED (pb (shot_bid ?c)) (pattern (base + of_nat i))])
          (id (counted 1 r)) p x" "work x = work ?v"
      have "tells (marks shot_marks) s (b + 3) (upto_shot pb base ud cs W (Suc i) (acc OR push_bit (shot_bid ?c) 1))
          (counted 1 r) p x"
        using tells_weaken [OF x(1), of "b + 3"] good u(3) by simp
      then have "tells (marks shot_marks) s (b + 3) (upto_shot pb base ud cs W (Suc i) (acc OR push_bit (shot_bid ?c) 1))
          (counted 1 r) p (publish (cqe_bid ?c) x)"
        by (rule tells_unseen) (simp add: unseen_def same_env_def publish_def Let_def)
      moreover have "copies cs (publish (cqe_bid ?c) x)"
        using cs x(2) u(2) by (simp add: copies_def publish_def Let_def)
      ultimately show "Q (acc OR push_bit (shot_bid ?c) 1) (publish (cqe_bid ?c) x)" by (rule Q)
    qed (use b in simp)
  qed (use b in simp_all)
  show ?thesis
    unfolding take_buffer_def post_Let post_seq [where m = "gets _"] post_gets copy account_result_def post_seq [where m = "seq _ _"]
      post_seq [where m = "upd_res _"] shot_bid_def [symmetric]
  proof (rule tells_check [OF t shot_checks [OF M(3)], where W' = ?W1])
    let ?v = "t\<lparr>res := account ?c ud True (res t)\<rparr>"
    assume v: "tells (marks shot_marks) s (Suc b) ?W1 (counted 1 r) p ?v"
    show "post (if \<not> good_buffer ?c then seq (upd_res (\<lambda>r. r\<lparr>bad_flags := bad_flags r + 1\<rparr>)) (\<lambda>_. give acc)
       else seq (upd_res (\<lambda>r. r\<lparr>duplicate_bids := inc (acc AND push_bit (shot_bid ?c) 1 \<noteq> 0) (duplicate_bids r)\<rparr>)) (\<lambda>_.
       seq (gets (\<lambda>s. work_pbuf (work s) (shot_bid ?c))) (\<lambda>a.
       seq (compare_buffer os a (base + of_nat i)) (\<lambda>_.
       seq (publish_buffer (cqe_bid ?c)) (\<lambda>_.
       give (acc OR push_bit (shot_bid ?c) 1)))))) E Q ?v"
    proof (rule post_ifI)
      assume "\<not> good_buffer ?c"
      show "post (seq (upd_res (\<lambda>r. r\<lparr>bad_flags := bad_flags r + 1\<rparr>)) (\<lambda>_. give acc)) E Q ?v"
        unfolding post_seq post_funs
      proof (rule tells_check [OF v flag_checks [OF M(2)], where W' = "upto_shot pb base ud cs W (Suc i) acc"])
        let ?x = "?v\<lparr>res := (res ?v)\<lparr>bad_flags := bad_flags (res ?v) + 1\<rparr>\<rparr>"
        assume "tells (marks shot_marks) s (Suc (Suc b)) (upto_shot pb base ud cs W (Suc i) acc) (id (counted 1 r)) p ?x"
        then show "Q acc ?x" by (intro Q) (auto elim!: tells_weaken simp: copies_def cs [unfolded copies_def])
      qed (use b in simp_all)
    qed (rule buffer, use v in simp_all)
  qed (use b in simp_all)
qed

lemma tells_takes:
  assumes t: "tells (marks shot_marks) s b (ext W (map CQE cs)) r p t" and cs: "copies cs t" "length cs = QD"
    and b: "b + 3 * QD < 2 ^ 64" and pb: "pb = work_pbuf (work s)"
    and Q: "\<And>acc u. tells (marks shot_marks) s (b + 3 * QD)
        (follow W (\<lambda>x. good_shots ud cs \<and> x = map CQE cs @ looked_at pb base cs)) (counted QD r) p u \<Longrightarrow> Q acc u"
  shows "post (loop (take_buffer os base ud) [0..<QD] 0) E Q t"
proof -
  let ?P = "\<lambda>i acc u. tells (marks shot_marks) s (b + 3 * i) (upto_shot pb base ud cs W i acc) (counted i r) p u \<and> copies cs u"
  have "post (take_buffer os base ud i acc) E (?P (Suc i)) u" if "i < QD" "?P i acc u" for i acc u
    by (rule tells_take [OF conjunct1 [OF that(2)] conjunct2 [OF that(2)] _ _ pb])
      (use that(1) cs(2) b in \<open>auto simp: algebra_simps\<close>)
  moreover have "?P 0 0 t"
    using tells_weaken [OF t, of b "upto_shot pb base ud cs W 0 0"] cs
    by (auto simp: upto_shot_def looked_at_def good_shots_def seen_of_Nil)
  ultimately have "post (loop (take_buffer os base ud) [0..<QD] 0) E (?P QD) t"
    by (intro post_loop) auto
  then show ?thesis
  proof (rule post_mono)
    fix acc u
    assume u: "?P QD acc u"
    have "tells (marks shot_marks) s (b + 3 * QD) (follow W (\<lambda>x. good_shots ud cs \<and> x = map CQE cs @ looked_at pb base cs))
        (counted QD r) p u"
      by (rule tells_weaken [OF conjunct1 [OF u]]) (use cs(2) in \<open>auto simp: upto_shot_def follow_def ext_def\<close>)
    then show "Q acc u" by (rule Q)
  qed
qed

section \<open>Cancellation\<close>

definition submitted :: "result \<Rightarrow> result" where
  "submitted r = r\<lparr>res_sqes := res_sqes r + 1\<rparr>"

lemma submitted_keeps: "keeps (marks M) submitted"
  by (rule marks_keep) (simp_all add: submitted_def marks_def)

lemma tells_reserve:
  assumes t: "tells mk s b W r p t" and fail: "\<And>u. Q None u"
    and ok: "\<And>i u. tells mk s b W r p u \<Longrightarrow> work u = work t \<Longrightarrow> Q (Some i) u"
  shows "post (reserve_sqe os) E Q t"
  unfolding reserve_sqe_def load_acquire_u32_def store_release_u32_def upd_shm_def post_seq post_Let
  by (rule tells_look [OF t], rule tells_look, assumption, rule tells_look, assumption, rule post_ifI,
      simp add: post_simps fail, unfold post_seq post_Let post_funs, rule tells_look, assumption,
      rule tells_mem, assumption, rule tells_mem, assumption, rule ok) simp_all

lemma tells_fill_sqe:
  assumes t: "tells mk s b W r p t" and Q: "\<And>u. tells mk s b W r p u \<Longrightarrow> work u = work t \<Longrightarrow> Q () u"
  shows "post (fill_sqe i f) E Q t"
  unfolding fill_sqe_def upd_shm_def by (rule tells_mem [OF t]) (rule Q)

definition cancelled :: "nat \<Rightarrow> result \<Rightarrow> result" where
  "cancelled n r = r\<lparr>res_cqes := res_cqes r + of_nat n, cancel_cqes := cancel_cqes r + of_nat n\<rparr>"

text \<open>The request and its cancellation cannot be taken for one another.\<close>

lemma cancelled_keeps: "keeps (marks M) (cancelled n)"
  by (rule marks_keep) (simp_all add: cancelled_def marks_def)

lemma bad_checks: "checks (marks M) False (\<lambda>r. r\<lparr>bad_results := bad_results r + 1\<rparr>) id"
  by (rule marks_checks [where a = True and b = False and c = False and d = False and e = False])
    (auto simp: raises_def)

text \<open>What has been seen of the two completions; a bad one is known by its counter.\<close>

definition saw :: "u64 \<Rightarrow> cqe list \<Rightarrow> bool \<times> bool \<Rightarrow> bool" where
  "saw ud cs b \<longleftrightarrow> (fst b \<longleftrightarrow> (\<exists>c \<in> set cs. is_cancel ud c \<and> \<not> is_terminal ud c)) \<and>
     (snd b \<longleftrightarrow> (\<exists>c \<in> set cs. is_terminal ud c))"

lemma tells_cancel_step:
  assumes t: "tells (marks M) s b W r p t" and cs: "copies cs t" and i: "i < length cs" and b: "Suc b < 2 ^ 64"
    and Q: "\<And>u. tells (marks M) s (Suc b) W (cancelled 1 r) p u \<Longrightarrow> copies cs u \<Longrightarrow>
      Q (fst a \<or> (is_cancel ud (cs ! i) \<and> \<not> is_terminal ud (cs ! i)), snd a \<or> is_terminal ud (cs ! i)) u"
  shows "post (cancel_step ud i a) E Q t"
proof -
  obtain x y where a: "a = (x, y)" by (cases a)
  let ?c = "cs ! i"
  have copy: "work_cqe_copy (work t) i = ?c" using cs i by (simp add: copies_def)
  have eq: "(\<lambda>r. r\<lparr>res_cqes := res_cqes r + 1, cancel_cqes := cancel_cqes r + 1\<rparr>) = cancelled 1"
    by (simp add: cancelled_def fun_eq_iff)
  show ?thesis
    unfolding cancel_step_def a prod.case post_seq [where m = "gets _"] post_gets copy eq post_seq [where m = "upd_res _"]
  proof (rule tells_keep [OF t cancelled_keeps])
    let ?u = "t\<lparr>res := cancelled 1 (res t)\<rparr>"
    assume u: "tells (marks M) s b W (cancelled 1 r) p ?u"
    have u': "tells (marks M) s (Suc b) W (cancelled 1 r) p ?u" using tells_weaken [OF u] by simp
    have cu: "copies cs ?u" using cs by (simp add: copies_def)
    note q = Q [OF u' cu, unfolded a, simplified]
    have "post (upd_res (\<lambda>r. r\<lparr>bad_results := bad_results r + 1\<rparr>)) E (\<lambda>_. Q (x, y)) ?u"
      if "\<not> is_terminal ud ?c" "\<not> is_cancel ud ?c"
    proof (rule tells_check [OF u bad_checks b, where W' = W])
      let ?v = "?u\<lparr>res := (res ?u)\<lparr>bad_results := bad_results (res ?u) + 1\<rparr>\<rparr>"
      assume "tells (marks M) s (Suc b) W (id (cancelled 1 r)) p ?v"
      then show "Q (x, y) ?v" using Q [of ?v] cs that by (simp add: copies_def a)
    qed simp
    then show "post (if is_terminal ud ?c then give (x, True)
        else if is_cancel ud ?c then give (True, y)
        else seq (upd_res (\<lambda>r. r\<lparr>bad_results := bad_results r + 1\<rparr>)) (\<lambda>_. give (x, y))) E Q ?u"
      using q by (auto simp: post_give post_seq post_funs)
  qed
qed

lemma tells_cancel:
  assumes t: "tells (marks M) s b W r p t" and b: "b + 2 < 2 ^ 64"
    and fail: "\<And>rc u. rc \<noteq> 0 \<Longrightarrow> Q rc u"
    and ok: "\<And>c d u. cancel_pair ud c d \<Longrightarrow>
      tells (marks M) s (b + 2) (ext W [ENTER 1 2 1, CQE c, CQE d]) (cancelled 2 (entered False (submitted r))) p u \<Longrightarrow> Q 0 u"
  shows "post (cancel_multishot os ud) E Q t"
proof -
  have judge: "post (loop (cancel_step ud) [0..<2] (False, False)) E
      (\<lambda>a. post (case a of (x, y) \<Rightarrow> give (if x \<and> y then 0 else -1)) E Q) u"
    if u: "tells (marks M) s b (ext W (ENTER 1 2 1 # map CQE cs)) (entered False (submitted r)) p u"
      and cs: "copies cs u" "length cs = 2" for cs u
  proof -
    obtain c d where cd: "cs = [c, d]" using cs(2) by (auto simp: length_Suc_conv numeral_2_eq_2)
    have two: "[0..<2] = [0, 1 :: nat]" by (simp add: upt_rec)
    show ?thesis
      unfolding two loop.simps post_seq
    proof (rule tells_cancel_step [OF u cs(1)])
      fix v
      let ?a = "(fst (False, False) \<or> is_cancel ud (cs ! 0) \<and> \<not> is_terminal ud (cs ! 0),
          snd (False, False) \<or> is_terminal ud (cs ! 0))"
      assume v: "tells (marks M) s (Suc b) (ext W (ENTER 1 2 1 # map CQE cs)) (cancelled 1 (entered False (submitted r))) p v"
        "copies cs v"
      show "post (cancel_step ud 1 ?a) E (\<lambda>a. post (give a) E
          (\<lambda>a. post (case a of (x, y) \<Rightarrow> give (if x \<and> y then 0 else -1)) E Q)) v"
      proof (rule tells_cancel_step [OF v])
        fix x
        assume x: "tells (marks M) s (Suc (Suc b)) (ext W (ENTER 1 2 1 # map CQE cs))
            (cancelled 1 (cancelled 1 (entered False (submitted r)))) p x"
        have "cancelled 1 (cancelled 1 q) = cancelled 2 q" for q by (simp add: cancelled_def)
        with x have "tells (marks M) s (b + 2) (ext W [ENTER 1 2 1, CQE c, CQE d]) (cancelled 2 (entered False (submitted r))) p x"
          by (simp add: cd)
        then show "post (give (fst ?a \<or> is_cancel ud (cs ! 1) \<and> \<not> is_terminal ud (cs ! 1),
            snd ?a \<or> is_terminal ud (cs ! 1))) E
            (\<lambda>a. post (case a of (x, y) \<Rightarrow> give (if x \<and> y then 0 else -1)) E Q) x"
          using ok [of c d x] fail by (auto simp: post_give cd cancel_pair_def)
      qed (use b cs(2) in simp_all)
    qed (use b cs(2) in simp_all)
  qed
  have one: "sint (1 :: u32) = 1" by simp
  show ?thesis
    unfolding cancel_multishot_def post_seq submitted_def [symmetric]
    apply (rule tells_reserve [OF t], simp add: post_simps fail)
    apply (simp only: option.case post_seq, rule tells_fill_sqe, assumption)
    apply (simp only: post_seq, rule tells_keep [OF _ submitted_keeps], assumption)
    apply (simp only: post_seq, rule tells_enter, assumption, simp add: post_simps fail)
    apply (simp only: simp_thms if_False post_seq one, rule tells_copy, assumption, simp add: post_simps fail)
    apply (simp only: simp_thms if_False post_funs(3) ext_simps append_Cons append_Nil)
    apply (rule judge, assumption+)
    done
qed

section \<open>Rounds\<close>

definition shot_gain :: "bool \<Rightarrow> result \<Rightarrow> result" where
  "shot_gain timed r = cancelled 2 (entered False (submitted (counted QD (entered timed (submitted r)))))"

lemma tells_submit_shots:
  assumes t: "tells (marks M) s b W r [] t" and E: "\<And>u. E EXIT_FAILURE u"
    and fail: "\<And>rc u. rc \<noteq> 0 \<Longrightarrow> Q rc u"
    and ok: "\<And>cs u. length cs = QD \<Longrightarrow> copies cs u \<Longrightarrow>
      tells (marks M) s b (ext W (ENTER 1 (of_nat QD) 1 # map CQE cs)) (entered timed r) [] u \<Longrightarrow> Q 0 u"
  shows "post (submit_multishot os timed) E Q t"
proof -
  have one: "sint (1 :: u32) = 1" by simp
  show ?thesis
    unfolding submit_multishot_def post_seq
    apply (rule tells_now_if [OF t], rule E)
    apply (rule tells_enter, assumption, simp add: post_simps fail)
    apply (simp only: simp_thms if_False post_seq one, rule tells_copy, assumption, simp add: post_simps fail)
    apply (simp only: simp_thms if_False post_seq post_funs ext_simps append_Cons append_Nil)
    apply (rule tells_add_elapsed, assumption, rule E, rule marks_elapsed)
    apply (rule ok, assumption, erule copies_work, assumption+)
    done
qed

lemma multishot_batch_tells:
  assumes t: "tells (marks shot_marks) s b W r [] t" and b: "b + 4 * QD < 2 ^ 64" and E: "\<And>u. E EXIT_FAILURE u"
  shows "post (multishot_batch os timed k) E (\<lambda>rc u. rc = 0 \<longrightarrow>
    tells (marks shot_marks) s (b + 4 * QD) (follow W (shot_script (work_pbuf (work s)) k)) (shot_gain timed r) [] u) t"
    (is "post _ E ?Q t")
proof -
  let ?base = "base_of k" and ?ud = "request_ud_of k" and ?pb = "work_pbuf (work s)"
  let ?W1 = "ext W (map (sent_by_peer ?base) [0..<QD] @ [ENTER 1 (of_nat QD) 1])"
  have b3: "b + 3 * QD < 2 ^ 64" "b + 3 * QD + 2 < 2 ^ 64" using b by (simp_all add: QD_def)
  have cancel: "post (cancel_multishot os ?ud) E (\<lambda>rc. post (give (if rc \<noteq> 0 then -1 else 0)) E ?Q) u"
    if u: "tells (marks shot_marks) s (b + 3 * QD) (follow ?W1 (\<lambda>x. good_shots ?ud cs \<and> x = map CQE cs @ looked_at ?pb ?base cs))
        (counted QD (entered timed (submitted r))) [] u" and cs: "length cs = QD" for cs u
  proof (rule tells_cancel [OF u b3(2)])
    fix c d v
    assume cd: "cancel_pair ?ud c d" and v: "tells (marks shot_marks) s (b + 3 * QD + 2)
        (ext (follow ?W1 (\<lambda>x. good_shots ?ud cs \<and> x = map CQE cs @ looked_at ?pb ?base cs)) [ENTER 1 2 1, CQE c, CQE d])
        (cancelled 2 (entered False (submitted (counted QD (entered timed (submitted r)))))) [] v"
    have "tells (marks shot_marks) s (b + 4 * QD) (follow W (shot_script ?pb k)) (shot_gain timed r) [] v"
      unfolding shot_gain_def
    proof (rule tells_weaken [OF v])
      fix x
      assume "ext (follow ?W1 (\<lambda>x. good_shots ?ud cs \<and> x = map CQE cs @ looked_at ?pb ?base cs)) [ENTER 1 2 1, CQE c, CQE d] x"
      then obtain y where y: "W y" "good_shots ?ud cs" "x = y @ shots ?pb k cs c d"
        by (auto simp: ext_def follow_def shots_def)
      with cs cd show "follow W (shot_script ?pb k) x"
        unfolding follow_def shot_script_def by blast
    qed (simp add: QD_def)
    then show "post (give (if (0 :: int) \<noteq> 0 then -1 else 0)) E ?Q v" by (simp add: post_give)
  qed (simp add: post_give)
  have "post (submit_multishot os timed) E (\<lambda>rc. post (if rc \<noteq> 0 then give (-1)
        else seq (loop (take_buffer os ?base ?ud) [0..<QD] 0) (\<lambda>_. seq store_tail (\<lambda>_.
          seq (cancel_multishot os ?ud) (\<lambda>rc. give (if rc \<noteq> 0 then -1 else 0))))) E ?Q) u"
    if u: "tells (marks shot_marks) s b (ext W (map (sent_by_peer ?base) [0..<QD])) (submitted r) [] u" for u
  proof (rule tells_submit_shots [OF u], rule E)
    fix cs v
    assume cs: "length cs = QD" "copies cs v" and v: "tells (marks shot_marks) s b (ext (ext W (map (sent_by_peer ?base) [0..<QD]))
        (ENTER 1 (of_nat QD) 1 # map CQE cs)) (entered timed (submitted r)) [] v"
    have v': "tells (marks shot_marks) s b (ext ?W1 (map CQE cs)) (entered timed (submitted r)) [] v" using v by simp
    have "post (loop (take_buffer os ?base ?ud) [0..<QD] 0) E (\<lambda>_. post store_tail E (\<lambda>_.
        post (cancel_multishot os ?ud) E (\<lambda>rc. post (give (if rc \<noteq> 0 then -1 else 0)) E ?Q))) v"
    proof (rule tells_takes [OF v' cs(2,1) b3(1) refl])
      fix w
      assume w: "tells (marks shot_marks) s (b + 3 * QD) (follow ?W1 (\<lambda>x. good_shots ?ud cs \<and> x = map CQE cs @ looked_at ?pb ?base cs))
          (counted QD (entered timed (submitted r))) [] w"
      show "post store_tail E (\<lambda>_. post (cancel_multishot os ?ud) E (\<lambda>rc. post (give (if rc \<noteq> 0 then -1 else 0)) E ?Q)) w"
        unfolding store_tail_def post_seq post_gets store_release_u16_def
        by (rule tells_mem [OF w]) (rule cancel, assumption, rule cs(1))
    qed
    then show "post (if (0 :: int) \<noteq> 0 then give (-1)
        else seq (loop (take_buffer os ?base ?ud) [0..<QD] 0) (\<lambda>_. seq store_tail (\<lambda>_.
          seq (cancel_multishot os ?ud) (\<lambda>rc. give (if rc \<noteq> 0 then -1 else 0))))) E ?Q v"
      by (simp add: post_seq post_funs(3))
  qed (simp add: post_give)
  note submit = this
  show ?thesis
    unfolding multishot_batch_def Let_def post_seq
    apply (rule tells_peer_fill [OF t], simp add: post_simps)
    apply (simp only: simp_thms if_False post_seq, rule tells_reserve, assumption, simp add: post_simps)
    apply (simp only: option.case post_seq post_gets, rule tells_fill_sqe, assumption)
    apply (simp only: post_seq submitted_def [symmetric], rule tells_keep [OF _ submitted_keeps], assumption)
    apply (simp only: post_seq, rule submit, assumption)
    done
qed

interpretation shot: batched shot_marks "multishot_batch os timed" "\<lambda>s. shot_script (work_pbuf (work s))"
    "shot_gain timed" clock_exit
  for os timed
  by unfold_locales (rule multishot_batch_tells)

lemma tells_status:
  assumes t: "tells mk s b W r p t"
    and fail: "\<And>rc h u. rc \<noteq> 0 \<Longrightarrow> Q (rc, h) u"
    and ok: "\<And>h u. tells mk s b (ext W [STATUS h]) r p u \<Longrightarrow> Q (0, h) u"
  shows "post (pbuf_status os) E Q t"
proof -
  have "post (if rc = 0 then log_call (STATUS (ucast h)) else give ()) E (\<lambda>_. Q (rc, ucast h)) u"
    if u: "tells mk s b W r p u" for rc h u
    by (rule post_ifI, rule tells_log [OF u], simp, simp add: ok, simp add: post_simps fail)
  then show ?thesis
    unfolding pbuf_status_def register_def post_seq post_gets
    by (intro tells_kernel [OF t], rename_tac a u, case_tac a) (simp only: prod.case post_seq post_funs)
qed

text \<open>The whole of a round, with the head of the buffer ring before and after it.\<close>

definition shot_round :: "(nat \<Rightarrow> u64) \<Rightarrow> u32 \<Rightarrow> scripts" where
  "shot_round pb operations x \<longleftrightarrow> (\<exists>h0 h1 y. (ucast (h1 - h0 :: u16) :: u64) = ucast operations \<and>
     all_of (shot_script pb) (batch_count operations) y \<and> x = STATUS h0 # y @ [STATUS h1, healthy])"

definition shot_result :: "u32 \<Rightarrow> bool \<Rightarrow> result" where
  "shot_result operations timed = (ordinary_result operations timed)\<lparr>
     res_sqes := 2 * of_nat (batch_count operations), res_cqes := ucast operations + 2 * of_nat (batch_count operations),
     total_enters := 2 * of_nat (batch_count operations), cancel_cqes := 2 * of_nat (batch_count operations),
     pbuf_head_delta := ucast operations\<rparr>"

lemma shot_gain_power:
  "(shot_gain timed ^^ n) r = r\<lparr>res_sqes := res_sqes r + 2 * of_nat n,
     res_cqes := res_cqes r + of_nat n * of_nat QD + 2 * of_nat n, total_enters := total_enters r + 2 * of_nat n,
     timed_enters := timed_enters r + (if timed then of_nat n else 0),
     successful_results := successful_results r + of_nat n * of_nat QD, cancel_cqes := cancel_cqes r + 2 * of_nat n\<rparr>"
  by (induction n; cases timed)
    (simp_all add: shot_gain_def cancelled_def submitted_def counted_def entered_def algebra_simps)

lemma strict_shots: "strict shot_marks (multishot_pass operations)"
  by (auto simp: strict_def clean_marks multishot_pass_def shot_marks_def)

lemma delta_keeps: "keeps (marks M) (\<lambda>r. r\<lparr>pbuf_head_delta := x\<rparr>)"
  by (rule marks_keep) (simp_all add: marks_def)

lemma run_multishot_ok:
  "post (run_multishot os operations timed) clock_exit (\<lambda>rc t. rc = 0 \<longrightarrow> batch_ok operations \<and>
     round_ok s (shot_round (work_pbuf (work s)) operations) (shot_result operations timed) t) s"
    (is "post _ _ ?Q s")
proof -
  let ?r = "zero_result\<lparr>logical_ops := ucast operations, logical_bytes := ucast operations * of_nat PAYLOAD_BYTES\<rparr>"
  let ?s = "s\<lparr>res := ?r\<rparr>" and ?n = "batch_count operations"
  let ?V = "all_of (shot_script (work_pbuf (work s))) ?n"
  have E: "clock_exit EXIT_FAILURE u" for u :: "'a proc" by (simp add: clock_exit_def)
  have verdict: "post (seq (read_health os) (\<lambda>_. set_pass (multishot_pass operations))) clock_exit ?Q u"
    if ok: "batch_ok operations" and u: "tells (marks shot_marks) ?s b (ext (follow ((=) [STATUS h0]) ?V) [STATUS h1])
      (((shot_gain timed ^^ ?n) ?r)\<lparr>pbuf_head_delta := ucast (h1 - h0)\<rparr>) [] u" for h0 h1 b u
  proof (rule post_mono [OF tells_verdict [OF u strict_shots]])
    fix rc :: int and v
    let ?r' = "(passed (((shot_gain timed ^^ ?n) ?r)\<lparr>pbuf_head_delta := ucast (h1 - h0)\<rparr>))\<lparr>res_outstanding := 0, res_sq_dropped := 0,
       res_cq_overflow := 0\<rparr>"
    assume v: "rc = 0 \<longrightarrow> round_ok ?s (ext (ext (follow ((=) [STATUS h0]) ?V) [STATUS h1]) [healthy]) ?r' v \<and>
      (\<exists>x. multishot_pass operations x \<and> passed x = res v)"
    show "?Q rc v"
    proof
      assume "rc = 0"
      with v obtain x where x: "round_ok ?s (ext (follow ((=) [STATUS h0]) ?V) [STATUS h1, healthy]) ?r' v"
          "multishot_pass operations x" "passed x = res v" by auto
      have "pbuf_head_delta (res v) = ucast operations"
        using x(2) by (simp add: x(3) [symmetric] passed_def multishot_pass_def)
      moreover have "pbuf_head_delta (res v) = ucast (h1 - h0)" using x(1) by (auto simp: round_ok_def passed_def)
      ultimately have delta: "(ucast (h1 - h0) :: u64) = ucast operations" by simp
      have "?r' = shot_result operations timed"
        using batch_count_words [OF ok]
        by (simp add: delta shot_gain_power shot_result_def ordinary_result_def passed_def zero_result_def)
      with x(1) delta show "batch_ok operations \<and>
          round_ok s (shot_round (work_pbuf (work s)) operations) (shot_result operations timed) v"
        unfolding round_ok_start by (auto simp: ok round_ok_def shot_round_def ext_def follow_def)
    qed
  qed
  have last: "post (pbuf_status os) clock_exit (\<lambda>a. post (case a of (rc, h1) \<Rightarrow> if rc \<noteq> 0 then give (-1)
      else seq (upd_res (\<lambda>r. r\<lparr>pbuf_head_delta := ucast (h1 - h0)\<rparr>)) (\<lambda>_.
           seq (read_health os) (\<lambda>_. set_pass (multishot_pass operations)))) clock_exit ?Q) u"
    if ok: "batch_ok operations" and u: "tells (marks shot_marks) ?s b (follow ((=) [STATUS h0]) ?V) ((shot_gain timed ^^ ?n) ?r) [] u"
    for h0 b u
    by (rule tells_status [OF u], simp add: post_simps)
      (simp only: prod.case simp_thms if_False post_seq, rule tells_keep [OF _ delta_keeps], assumption,
       rule verdict [OF ok], assumption)
  have "post (until_fail (multishot_batch os timed) (batches operations)) clock_exit (\<lambda>rc. post (if rc \<noteq> 0 then give (-1)
      else seq (pbuf_status os) (\<lambda>(rc, h1). if rc \<noteq> 0 then give (-1)
      else seq (upd_res (\<lambda>r. r\<lparr>pbuf_head_delta := ucast (h1 - h0)\<rparr>)) (\<lambda>_.
           seq (read_health os) (\<lambda>_. set_pass (multishot_pass operations))))) clock_exit ?Q) u"
    if ok: "batch_ok operations" and u: "tells (marks shot_marks) ?s 0 ((=) [STATUS h0]) ?r [] u" for h0 u
    unfolding batches_def batch_count_def [symmetric]
    by (rule post_mono [OF shot.batches [OF u E batch_count_small]])
      (auto simp: post_give post_seq intro!: last ok)
  note loop = this
  show ?thesis
    unfolding run_multishot_def post_seq [where m = "upd_res _"] post_upd(1)
    apply (rule post_ifI, simp add: post_simps)
    apply (simp only: post_seq, rule tells_status [OF tells_begin [where M = shot_marks, OF clean_zero(1) elapsed_zero(1)]], simp add: post_simps)
    apply (simp (no_asm) only: prod.case simp_thms if_False post_seq, rule loop, simp, simp)
    done
qed

end
