(* ===== verification/Net_Point.thy ===== *)
theory Net_Point
  imports Net_Shots
begin

text \<open>
  What it means that io_uring_net_round.c exits with 0: the rounds of its mode have all been run and
  accepted, and their rows have been printed.
\<close>

section \<open>A round of any profile\<close>

definition round_script :: "u64 \<Rightarrow> (nat \<Rightarrow> u64) \<Rightarrow> profile_id \<Rightarrow> u32 \<Rightarrow> scripts" where
  "round_script w pb prof operations =
     (if prof = PROFILE_M0 then shot_round pb operations
      else if prof = PROFILE_C0 then (=) (nop_round operations)
      else if prof = PROFILE_U0 then (=) (sys_round operations)
      else (=) (ordinary_round w prof operations))"

definition round_result :: "profile_id \<Rightarrow> u32 \<Rightarrow> bool \<Rightarrow> result" where
  "round_result prof operations timed =
     (if prof = PROFILE_M0 then shot_result operations timed
      else if prof = PROFILE_C0 then nop_result operations timed
      else if prof = PROFILE_U0 then sys_result operations timed
      else ordinary_result operations timed)"

lemma execute_once_ok:
  "post (execute_once os prof operations timed) clock_exit (\<lambda>rc t. rc = 0 \<longrightarrow> batch_ok operations \<and>
     round_ok s (round_script (net_work os) (work_pbuf (work s)) prof operations)
       (round_result prof operations timed) t) s"
  unfolding execute_once_def round_script_def round_result_def
  by (auto intro: post_mono [OF run_multishot_ok] post_mono [OF run_nop_ok] post_mono [OF run_sys_ok]
      post_mono [OF run_ordinary_ok])

section \<open>The rounds of a run\<close>

text \<open>The number of operations, whether the round is timed, and the phase and the number of its row.\<close>

type_synonym planned = "u32 \<times> bool \<times> (phase_id \<times> nat) option"

definition plan :: "options \<Rightarrow> planned list" where
  "plan opt = (let p = opt_profile opt in
     if opt_mode opt = MODE_SMOKE then [(single_operations p False, False, Some (PHASE_SMOKE, 0))]
     else if opt_mode opt = MODE_TRACE then [(single_operations p True, False, Some (PHASE_TRACE, 0))]
     else (single_operations p False, False, None) # replicate 3 (point_operations p, False, None) @
       map (\<lambda>i. (point_operations p, True, Some (PHASE_MEASURED, i))) [0..<15])"

text \<open>The calls of a round that has passed, and what it prints: its row has the determined result and the
  time between the readings of the clock.\<close>

fun passes :: "'k net_os \<Rightarrow> profile_id \<Rightarrow> (nat \<Rightarrow> u64) \<Rightarrow> planned \<Rightarrow> net_call list \<Rightarrow> string list \<Rightarrow> bool" where
  "passes os prof pb (n, timed, row) cs out \<longleftrightarrow>
     batch_ok n \<and> round_script (net_work os) pb prof n (filter visible cs) \<and>
     out = (case row of None \<Rightarrow> []
       | Some (phase, i) \<Rightarrow> [result_row os prof phase i ((round_result prof n timed)\<lparr>elapsed_ns := laps (clocks cs)\<rparr>)])"

fun all_pass :: "'k net_os \<Rightarrow> profile_id \<Rightarrow> (nat \<Rightarrow> u64) \<Rightarrow> planned list \<Rightarrow> net_call list \<Rightarrow> string list \<Rightarrow> bool" where
  "all_pass os prof pb [] cs out \<longleftrightarrow> cs = [] \<and> out = []"
| "all_pass os prof pb (p # ps) cs out \<longleftrightarrow>
     (\<exists>c cs' o1 o'. cs = c @ cs' \<and> out = o1 @ o' \<and> passes os prof pb p c o1 \<and> all_pass os prof pb ps cs' o')"

lemma all_pass_append:
  "all_pass os prof pb ps cs out \<Longrightarrow> all_pass os prof pb qs ds out' \<Longrightarrow>
     all_pass os prof pb (ps @ qs) (cs @ ds) (out @ out')"
proof (induction ps arbitrary: cs out)
  case (Cons p ps)
  then obtain c cs' o1 o' where p: "cs = c @ cs'" "out = o1 @ o'" "passes os prof pb p c o1" "all_pass os prof pb ps cs' o'"
    by auto
  have "all_pass os prof pb (ps @ qs) (cs' @ ds) (o' @ out')" by (rule Cons.IH [OF p(4) Cons.prems(2)])
  with p(3) show ?case
    unfolding append_Cons all_pass.simps p(1,2) append_assoc by blast
qed simp

text \<open>What rounds leave alone.\<close>

definition same_held :: "'k proc \<Rightarrow> 'k proc \<Rightarrow> bool" where
  "same_held s t \<longleftrightarrow> maps t = maps s \<and> fds t = fds s \<and> blocks t = blocks s \<and> settled (work t) = settled (work s)"

lemma same_held_refl [simp]: "same_held s s"
  by (simp add: same_held_def)

lemma same_held_trans: "same_held s t \<Longrightarrow> same_held t u \<Longrightarrow> same_held s u"
  by (simp add: same_held_def)

lemma same_held_env: "same_env s t \<Longrightarrow> same_held s t"
  by (simp add: same_env_def same_held_def)

lemma same_held_pbuf: "same_held s t \<Longrightarrow> work_pbuf (work t) = work_pbuf (work s)"
  unfolding same_held_def by (rule settled_D(3)) simp

definition ran :: "'k net_os \<Rightarrow> profile_id \<Rightarrow> planned list \<Rightarrow> 'k proc \<Rightarrow> 'k proc \<Rightarrow> bool" where
  "ran os prof ps s t \<longleftrightarrow> same_held s t \<and>
     (\<exists>cs out. calls t = calls s @ cs \<and> printed t = printed s @ out \<and> all_pass os prof (work_pbuf (work s)) ps cs out)"

lemma ran_Nil: "ran os prof [] s s"
  by (simp add: ran_def)

lemma ran_append:
  assumes "ran os prof ps s t" "ran os prof qs t u"
  shows "ran os prof (ps @ qs) s u"
proof -
  have pb: "work_pbuf (work t) = work_pbuf (work s)" using assms(1) same_held_pbuf by (auto simp: ran_def)
  show ?thesis
    using assms all_pass_append unfolding ran_def pb by (fastforce intro: same_held_trans)
qed

lemma ran_quiet:
  "post (execute_once os prof n timed) clock_exit (\<lambda>rc t. rc = 0 \<longrightarrow> ran os prof [(n, timed, None)] s t) s"
proof (rule post_mono [OF execute_once_ok])
  fix rc :: int and t
  assume r: "rc = 0 \<longrightarrow> batch_ok n \<and> round_ok s (round_script (net_work os) (work_pbuf (work s)) prof n) (round_result prof n timed) t"
  show "rc = 0 \<longrightarrow> ran os prof [(n, timed, None)] s t"
  proof
    assume "rc = 0"
    with r obtain new where "batch_ok n" "same_env s t" "calls t = calls s @ new"
        "round_script (net_work os) (work_pbuf (work s)) prof n (filter visible new)"
      by (auto simp: round_ok_def)
    then show "ran os prof [(n, timed, None)] s t"
      unfolding ran_def by (auto simp: same_held_env same_env_D intro!: exI [of _ new])
  qed
qed

lemma post_print_line:
  "post (print_line os line) E Q s \<longleftrightarrow> (let (ok, m, x) = net_write os line (mem s) (kst s) in
     Q () (s\<lparr>mem := m, kst := x, printed := printed s @ [line],
       out_lines := (if ok then out_lines s @ [line] else out_lines s)\<rparr>))"
  by (simp add: print_line_def post_simps split_beta Let_def)

text \<open>A round followed by its row.\<close>

lemma ran_row:
  "post (seq (execute_once os prof n timed) (\<lambda>rc.
      if rc \<noteq> 0 then seq (emit os prof phase i) (\<lambda>_. give (-1))
      else seq (emit os prof phase i) (\<lambda>_. give 0))) clock_exit
    (\<lambda>rc t. (rc :: int) = 0 \<longrightarrow> ran os prof [(n, timed, Some (phase, i))] s t) s"
proof (rule post_seqI [OF execute_once_ok], rule post_ifI)
  fix rc :: int and t
  assume r: "rc = 0 \<longrightarrow> batch_ok n \<and> round_ok s (round_script (net_work os) (work_pbuf (work s)) prof n) (round_result prof n timed) t"
    and "\<not> rc \<noteq> 0"
  then obtain new where new: "batch_ok n" "same_env s t" "calls t = calls s @ new"
      "round_script (net_work os) (work_pbuf (work s)) prof n (filter visible new)"
      "res t = (round_result prof n timed)\<lparr>elapsed_ns := laps (clocks new)\<rparr>"
    by (auto simp: round_ok_def)
  let ?row = "result_row os prof phase i ((round_result prof n timed)\<lparr>elapsed_ns := laps (clocks new)\<rparr>)"
  have "ran os prof [(n, timed, Some (phase, i))] s
      (t\<lparr>mem := m, kst := x, printed := printed t @ [?row], out_lines := ls\<rparr>)" for m x ls
    unfolding ran_def
    using new same_held_env [OF new(2)]
    by (auto simp: same_held_def same_env_D intro!: exI [of _ new])
  then show "post (seq (emit os prof phase i) (\<lambda>_. give 0)) clock_exit
      (\<lambda>rc t. rc = 0 \<longrightarrow> ran os prof [(n, timed, Some (phase, i))] s t) t"
    by (simp add: emit_def post_simps post_print_line new(5) split_beta Let_def)
qed (simp add: post_simps emit_def post_print_line split_beta Let_def)

lemma ran_until:
  assumes "\<And>i u. post (f i) clock_exit (\<lambda>rc t. rc = 0 \<longrightarrow> ran os prof [p i] u t) u"
  shows "post (until_fail f is) clock_exit (\<lambda>rc t. rc = 0 \<longrightarrow> ran os prof (map p is) s t) s"
proof (induction "is" arbitrary: s)
  case Nil
  then show ?case by (simp add: post_simps ran_Nil)
next
  case (Cons i "is")
  show ?case
    unfolding until_fail.simps
  proof (rule post_seqI [OF assms], rule post_ifI, simp add: post_give)
    fix rc :: int and t
    assume "rc = 0 \<longrightarrow> ran os prof [p i] s t" "\<not> rc \<noteq> 0"
    then have t: "ran os prof [p i] s t" by simp
    show "post (until_fail f is) clock_exit (\<lambda>rc t. rc = 0 \<longrightarrow> ran os prof (map p (i # is)) s t) t"
      by (rule post_mono [OF Cons.IH]) (auto dest: ran_append [OF t])
  qed
qed

lemma ran_then:
  assumes "post m clock_exit (\<lambda>rc t. (rc :: int) = 0 \<longrightarrow> ran os prof ps s t) s"
    and "\<And>t. post k clock_exit (\<lambda>rc u. (rc :: int) = 0 \<longrightarrow> ran os prof qs t u) t"
  shows "post (seq m (\<lambda>rc. if rc \<noteq> 0 then give (-1) else k)) clock_exit
    (\<lambda>rc u. rc = 0 \<longrightarrow> ran os prof (ps @ qs) s u) s"
proof (rule post_seqI [OF assms(1)], rule post_ifI, simp add: post_give)
  fix rc :: int and t
  assume "rc = 0 \<longrightarrow> ran os prof ps s t" "\<not> rc \<noteq> 0"
  then have t: "ran os prof ps s t" by simp
  show "post k clock_exit (\<lambda>rc u. rc = 0 \<longrightarrow> ran os prof (ps @ qs) s u) t"
    by (rule post_mono [OF assms(2)]) (auto dest: ran_append [OF t])
qed

lemma run_mode_ran:
  "opt_mode opt \<in> {MODE_SMOKE, MODE_TRACE, MODE_POINT} \<Longrightarrow>
   post (run_mode os opt) clock_exit (\<lambda>rc t. rc = 0 \<longrightarrow> ran os (opt_profile opt) (plan opt) s t) s"
proof -
  let ?p = "opt_profile opt"
  have single: "post (run_single os ?p tr) clock_exit (\<lambda>rc t. rc = 0 \<longrightarrow>
      ran os ?p [(single_operations ?p tr, False, Some (if tr then PHASE_TRACE else PHASE_SMOKE, 0))] s t) s" for tr
    unfolding run_single_def Let_def by (rule ran_row)
  have "post (run_point os ?p) clock_exit (\<lambda>rc t. rc = 0 \<longrightarrow>
      ran os ?p ([(single_operations ?p False, False, None)] @ map (\<lambda>_. (point_operations ?p, False, None)) [0..<WARMUP_ROUNDS] @
        map (\<lambda>i. (point_operations ?p, True, Some (PHASE_MEASURED, i))) [0..<MEASURED_ROUNDS]) s t) s"
    unfolding run_point_def
    by (intro ran_then ran_until) (rule ran_quiet | (unfold measured_round_def, rule ran_row))+
  moreover have "map (\<lambda>_. x) [0..<WARMUP_ROUNDS] = replicate 3 x" for x :: planned
    by (simp add: WARMUP_ROUNDS_def map_replicate_const)
  ultimately show "opt_mode opt \<in> {MODE_SMOKE, MODE_TRACE, MODE_POINT} \<Longrightarrow>
      post (run_mode os opt) clock_exit (\<lambda>rc t. rc = 0 \<longrightarrow> ran os ?p (plan opt) s t) s"
    using single [of True] single [of False]
    by (auto simp: run_mode_def plan_def Let_def MEASURED_ROUNDS_def)
qed

text \<open>
  What the operations of io_uring_net_round.c leave alone on every way out of them: the rounds what the process
  holds, the rest of the program the record of calls and the table.
\<close>

section \<open>Rounds\<close>

interpretation held: frame same_held
  by unfold_locales (auto intro: same_held_trans)

lemma held_prims [stays_intro]:
  "stays same_held (kernel f)" "stays same_held (look os g)" "stays same_held (log_call c)"
  "stays same_held (upd_res h)" "stays same_held (upd_mem k)" "stays same_held (upd_shm l)"
  "stays same_held (upd_work (\<lambda>w. w\<lparr>work_cqe_copy := q w\<rparr>))" "stays same_held (publish_buffer b)"
  "stays same_held (store_release_u16 a v)" "stays same_held (store_release_u32 fld x)"
  by (auto simp: stays_def post_simps look_def kernel_def upd_shm_def publish_buffer_def publish_def Let_def
      store_release_u16_def store_release_u32_def split_beta same_held_def)

lemma held_enter [stays_intro]: "stays same_held (enter_loop os fd sub wait)"
  unfolding stays_def by (intro allI net_enter_rule) (auto simp: same_held_def)

lemma held_line [stays_intro]: "stays same_held (print_line os line)"
  by (auto simp: stays_def post_print_line same_held_def split_beta Let_def)

lemma held_execute_once [stays_intro]: "stays same_held (execute_once os prof n timed)"
  unfolding execute_once_def run_multishot_def run_nop_control_def run_sys_control_def run_ordinary_def
    multishot_batch_def nop_batch_def sys_batch_def ordinary_batch_def ordinary_stage_def
    pbuf_status_def register_def read_health_def set_pass_def outstanding_def load_acquire_u32_def
    submit_multishot_def cancel_multishot_def cancel_step_def take_buffer_def compare_buffer_def count_mismatch_def
    account_result_def account_nop_def account_len_def store_tail_def reserve_sqe_def fill_sqe_def load_acquire_u32_def
    fill_queue_def collect_batch_def put_sqe_def ring_enter_def copy_cqes_def copy_cqe_def load_acquire_u32_def
    now_if_def add_elapsed_def now_ns_def send_messages_def clear_recv_buf_def pattern_fill_def prepare_iov_def prepare_slot_def
    prepare_seg_def peer_fill_def peer_send_def peer_drain_def peer_take_def peer_recv_def peer_def pattern_fill_def
    validate_receive_buffers_def compare_buffer_def count_mismatch_def load_acquire_u32_def
  by (intro stays_intro)

lemma held_run_mode: "stays same_held (run_mode os opt)"
  unfolding run_mode_def run_single_def run_point_def measured_round_def emit_def
  by (intro stays_intro)

section \<open>Setting up and cleaning up\<close>

definition unlogged :: "'k proc \<Rightarrow> 'k proc \<Rightarrow> bool" where
  "unlogged s t \<longleftrightarrow> calls t = calls s \<and> printed t = printed s"

interpretation unlogged: frame unlogged
  by unfold_locales (auto simp: unlogged_def)

lemma unlogged_prims [stays_intro]:
  "stays unlogged (kernel f)" "stays unlogged (look os g)" "stays unlogged (upd_mem k)" "stays unlogged (upd_work h)"
  "stays unlogged (upd_ring r)" "stays unlogged (mmap os len fd off)" "stays unlogged (munmap os a len)"
  "stays unlogged (close_fd os fd)" "stays unlogged (posix_memalign os x n)" "stays unlogged (free os a)"
  "stays unlogged (io_uring_setup os e p)" "stays unlogged (publish_buffer b)" "stays unlogged (store_release_u16 a v)"
  by (auto simp: stays_def post_simps look_def kernel_def upd_ring_def mmap_def munmap_def close_fd_def posix_memalign_def
      free_def io_uring_setup_def publish_buffer_def publish_def store_release_u16_def Let_def split_beta unlogged_def split: option.split)

lemma unlogged_fds [stays_intro]: "stays unlogged (change (\<lambda>s. s\<lparr>fds := f s\<rparr>))"
  by (rule unlogged.stays_change) (simp add: unlogged_def)

lemma unlogged_setup [stays_intro]:
  "stays unlogged (pin_cpu os)" "stays unlogged (read_text os path n)"
  "stays unlogged (raw_ring_init os)" "stays unlogged (setup_sockets os)" "stays unlogged (cleanup os)"
  unfolding pin_cpu_def read_text_def raw_ring_init_def map_queues_def map_sqes_def setup_sockets_def set_nonblock_def
    cleanup_def unregister_pbuf_def register_def raw_ring_destroy_def
  by (intro stays_intro)+

end
