(* ===== verification/Net_Released.thy ===== *)
theory Net_Released
  imports Net_Point
begin

text \<open>
  What io_uring_net_round.c holds at each moment, and that \<open>cleanup\<close> gives it back on every path; that the program
  ends; and what an exit with 0 means.
\<close>

section \<open>What the workload holds\<close>

definition has :: "bool \<Rightarrow> 'a \<Rightarrow> 'a multiset" where
  "has b x = (if b then {#x#} else {#})"

definition maps_of :: "raw_ring \<Rightarrow> (u64 \<times> u64) multiset" where
  "maps_of r = has (ring_sqes_ptr r \<noteq> 0) (ring_sqes_ptr r, ring_sqes_sz r) +
     has (ring_sq_ptr r \<noteq> 0) (ring_sq_ptr r, ring_sq_sz r) +
     has (\<not> ring_single_mmap r \<and> ring_cq_ptr r \<noteq> 0) (ring_cq_ptr r, ring_cq_sz r)"

definition ring_fds :: "raw_ring \<Rightarrow> int multiset" where
  "ring_fds r = has (0 \<le> ring_fd r) (ring_fd r)"

definition socket_fds :: "int \<times> int \<Rightarrow> int multiset" where
  "socket_fds p = has (0 \<le> fst p) (fst p) + has (0 \<le> snd p) (snd p)"

text \<open>The provided buffers from the \<open>n\<close>th on.\<close>

definition buffers_of :: "(nat \<Rightarrow> u64) \<Rightarrow> nat \<Rightarrow> u64 multiset" where
  "buffers_of pb n = (\<Sum>i = n..<PBUF_ENTRIES. has (pb i \<noteq> 0) (pb i))"

text \<open>Beyond what was held in \<open>s\<close>, the process holds what the workload names.\<close>

definition owns :: "'k proc \<Rightarrow> 'k proc \<Rightarrow> bool" where
  "owns s t \<longleftrightarrow> (let w = work t in
     mset (maps t) = mset (maps s) + maps_of (work_ring w) \<and>
     mset (fds t) = mset (fds s) + ring_fds (work_ring w) + socket_fds (work_sockets w) \<and>
     mset (blocks t) = mset (blocks s) + has (work_pbuf_ring w \<noteq> 0) (work_pbuf_ring w) + buffers_of (work_pbuf w) 0)"

definition balanced :: "'k proc \<Rightarrow> 'k proc \<Rightarrow> bool" where
  "balanced s t \<longleftrightarrow> mset (maps t) = mset (maps s) \<and> mset (fds t) = mset (fds s) \<and> mset (blocks t) = mset (blocks s)"

lemma has_simps [simp]: "has True x = {#x#}" "has False x = {#}"
  by (simp_all add: has_def)

lemma owns_held:
  assumes "owns s t" "same_held t u"
  shows "owns s u"
proof -
  have "settled (work u) = settled (work t)" using assms(2) by (simp add: same_held_def)
  from settled_D [OF this] assms show ?thesis by (simp add: owns_def same_held_def Let_def)
qed

text \<open>The addresses and the descriptors that the kernel hands out.\<close>

definition kernel_ok :: "'k net_os \<Rightarrow> bool" where
  "kernel_ok os \<longleftrightarrow>
     (\<forall>len fd off m k. fst (net_mmap os len fd off m k) \<noteq> Some 0) \<and>
     (\<forall>a n m k. fst (net_memalign os a n m k) \<noteq> Some 0) \<and>
     (\<forall>m k a b. fst (net_socketpair os m k) = Some (a, b) \<longrightarrow> 0 \<le> a \<and> 0 \<le> b)"

section \<open>Setting up\<close>

text \<open>The workload before anything is acquired.\<close>

definition no_buffers :: "workload \<Rightarrow> bool" where
  "no_buffers w \<longleftrightarrow> work_pbuf_ring w = 0 \<and> work_pbuf w = (\<lambda>_. 0)"

definition fresh :: "workload \<Rightarrow> bool" where
  "fresh w \<longleftrightarrow> work_ring w = zero_ring\<lparr>ring_fd := -1\<rparr> \<and> work_sockets w = (-1, -1) \<and> no_buffers w"

lemma fresh_held: "same_held s t \<Longrightarrow> fresh (work s) \<Longrightarrow> fresh (work t)"
  by (auto simp: same_held_def fresh_def no_buffers_def dest: settled_D)

lemma owns_fresh: "fresh (work t) \<Longrightarrow> maps t = maps s \<Longrightarrow> fds t = fds s \<Longrightarrow> blocks t = blocks s \<Longrightarrow> owns s t"
  by (simp add: fresh_def no_buffers_def owns_def Let_def zero_ring_def maps_of_def ring_fds_def socket_fds_def buffers_of_def)

text \<open>A mapping: the new one, or nothing.\<close>

lemma post_mmap:
  assumes "kernel_ok os"
    and "\<And>m k. Q None (s\<lparr>mem := m, kst := k\<rparr>)"
    and "\<And>a m k. a \<noteq> 0 \<Longrightarrow> Q (Some a) (s\<lparr>mem := m, kst := k, maps := (a, len) # maps s\<rparr>)"
  shows "post (mmap os len fd off) E Q s"
proof (cases "fst (net_mmap os len fd off (mem s) (kst s))")
  case None
  with assms(2) show ?thesis by (simp add: mmap_def post_simps split_beta Let_def)
next
  case (Some a)
  then have "a \<noteq> 0" using assms(1) unfolding kernel_ok_def by metis
  with Some assms(3) show ?thesis by (simp add: mmap_def post_simps split_beta Let_def)
qed

lemma post_munmap: "(\<And>m k. Q () (s\<lparr>mem := m, kst := k, maps := remove1 (a, len) (maps s)\<rparr>)) \<Longrightarrow> post (munmap os a len) E Q s"
  by (auto simp: munmap_def post_simps split_beta Let_def)

text \<open>The mappings and the descriptors alone, which is all that \<open>raw_ring_init\<close> touches.\<close>

definition only_ring :: "'k proc \<Rightarrow> 'k proc \<Rightarrow> bool" where
  "only_ring s t \<longleftrightarrow> (work t)\<lparr>work_ring := zero_ring\<rparr> = (work s)\<lparr>work_ring := zero_ring\<rparr> \<and> blocks t = blocks s \<and>
     mset (fds t) = mset (fds s) + ring_fds (work_ring (work t))"

definition ring_made :: "'k proc \<Rightarrow> 'k proc \<Rightarrow> bool" where
  "ring_made s t \<longleftrightarrow> only_ring s t \<and> mset (maps t) = mset (maps s) + maps_of (work_ring (work t))"

lemmas made_defs = ring_made_def only_ring_def maps_of_def ring_fds_def zero_ring_def

lemmas push = option.case prod.case post_seq post_upd post_give post_gets

lemma queues_made:
  assumes ok: "kernel_ok os"
    and t: "work t = (work s)\<lparr>work_ring := zero_ring\<lparr>ring_fd := fd\<rparr>\<rparr>" "maps t = maps s" "blocks t = blocks s"
      "mset (fds t) = mset (fds s) + has (0 \<le> fd) fd"
    and fail: "\<And>u. ring_made s u \<Longrightarrow> Q None u"
    and fin: "\<And>sq cq u. only_ring s u \<Longrightarrow> ring_sqes_ptr (work_ring (work u)) = 0 \<Longrightarrow>
      mset (maps u) = mset (maps s) + maps_of ((work_ring (work u))\<lparr>ring_sq_ptr := sq, ring_cq_ptr := cq\<rparr>) \<Longrightarrow> Q (Some (sq, cq)) u"
  shows "post (map_queues os p fd) E Q t"
  unfolding map_queues_def Let_def upd_ring_def post_seq post_upd
  apply (rule post_ifI; simp (no_asm) only: push)
   apply (rule post_mmap [OF ok]; simp (no_asm) only: push)
    apply (rule fail, simp add: t made_defs)
   apply (rule fin; simp add: t made_defs)
  apply (rule post_mmap [OF ok]; simp (no_asm) only: push)
   apply (rule fail, simp add: t made_defs)
  apply (rule post_mmap [OF ok]; simp (no_asm) only: push)
   apply (rule post_munmap, simp (no_asm) only: push, rule fail, simp add: t made_defs)
  apply (rule fin; simp add: t made_defs)
  done

lemma ring_pointers_kept [simp]:
  "ring_fd (ring_pointers p a b r) = ring_fd r" "ring_sqes_ptr (ring_pointers p a b r) = ring_sqes_ptr r"
  "ring_sq_ptr (ring_pointers p a b r) = ring_sq_ptr r" "ring_cq_ptr (ring_pointers p a b r) = ring_cq_ptr r"
  "ring_sq_sz (ring_pointers p a b r) = ring_sq_sz r" "ring_cq_sz (ring_pointers p a b r) = ring_cq_sz r"
  "ring_sqes_sz (ring_pointers p a b r) = ring_sqes_sz r" "ring_single_mmap (ring_pointers p a b r) = ring_single_mmap r"
  by (simp_all add: ring_pointers_def)

lemma sqes_made:
  assumes ok: "kernel_ok os"
    and t: "only_ring s t" "ring_sqes_ptr (work_ring (work t)) = 0"
      "mset (maps t) = mset (maps s) + maps_of ((work_ring (work t))\<lparr>ring_sq_ptr := sq, ring_cq_ptr := cq\<rparr>)"
  shows "post (map_sqes os p fd sq cq) E (\<lambda>_. ring_made s) t"
  unfolding map_sqes_def Let_def upd_ring_def push
  apply (rule post_mmap [OF ok]; simp (no_asm) only: push)
  using t apply (simp add: made_defs)
  apply (rule look_rule, rule post_ifI; simp (no_asm) only: push)
   using t apply (simp add: made_defs)
  apply (rule look_rule)
  using t apply (simp add: made_defs post_give)
  done

lemma init_made:
  assumes ok: "kernel_ok os"
  shows "post (raw_ring_init os) E (\<lambda>_. ring_made s) s"
proof -
  have rest: "post (map_queues os p fd) E (\<lambda>r. post (case r of None \<Rightarrow> give (-1)
      | Some (sq, cq) \<Rightarrow> map_sqes os p fd sq cq) E (\<lambda>_. ring_made s)) t"
    if "work t = (work s)\<lparr>work_ring := zero_ring\<lparr>ring_fd := fd\<rparr>\<rparr>" "maps t = maps s" "blocks t = blocks s"
      "mset (fds t) = mset (fds s) + has (0 \<le> fd) fd" for p fd t
    by (rule queues_made [OF ok that]) (simp_all add: push sqes_made [OF ok])
  show ?thesis
    unfolding raw_ring_init_def upd_ring_def io_uring_setup_def push post_change
    apply (rule net_kernel_rule)
    subgoal for a m k
      by (cases a) (auto simp: push post_change post_if made_defs intro!: rest)
    done
qed

lemma only_ring_D:
  assumes "only_ring s t"
  shows "work_sockets (work t) = work_sockets (work s)" "work_pbuf_ring (work t) = work_pbuf_ring (work s)"
    "work_pbuf (work t) = work_pbuf (work s)"
  using assms by (cases "work t"; cases "work s"; simp add: only_ring_def)+

lemma owns_ring:
  assumes "ring_made s t" "fresh (work s)"
  shows "owns s t" "work_sockets (work t) = (-1, -1)" "no_buffers (work t)"
proof -
  from assms(1) have "only_ring s t" by (simp add: ring_made_def)
  from only_ring_D [OF this] assms this
  show "owns s t" "work_sockets (work t) = (-1, -1)" "no_buffers (work t)"
    by (simp_all add: ring_made_def only_ring_def fresh_def no_buffers_def owns_def Let_def socket_fds_def buffers_of_def)
qed

section \<open>Sockets and buffers\<close>

lemma stays_setfl [stays_intro]: "stays same_held (set_nonblock os fd)"
  unfolding set_nonblock_def by (intro stays_intro)

lemma owns_stays:
  assumes "stays same_held m" "owns s t" "\<And>c u. E c u"
  shows "post m E (\<lambda>_. owns s) t"
  by (rule post_mono [OF staysD [OF assms(1)]]) (use assms in \<open>auto intro: owns_held\<close>)

lemma sockets_made:
  assumes ok: "kernel_ok os" and t: "owns s t" "work_sockets (work t) = (-1, -1)" and E: "\<And>c u. E c u"
  shows "post (setup_sockets os) E (\<lambda>_ u. owns s u \<and> (no_buffers (work t) \<longrightarrow> no_buffers (work u))) t"
proof -
  let ?Q = "\<lambda>_ :: int. \<lambda>u. owns s u \<and> (no_buffers (work t) \<longrightarrow> no_buffers (work u))"
  have go: "post m E ?Q u" if "stays same_held m" "owns s u" "no_buffers (work t) \<longrightarrow> no_buffers (work u)" for m u
    by (rule post_mono [OF staysD [OF that(1)]], rule E)
      (use that in \<open>auto intro: owns_held simp: no_buffers_def same_held_def dest: settled_D\<close>)
  show ?thesis
    unfolding setup_sockets_def Let_def post_seq [where m = "kernel _"] post_net_kernel
  proof (simp only: split_beta Let_def, cases "fst (net_socketpair os (mem t) (kst t))", goal_cases)
    case 1
    then show ?case using t by (simp add: push owns_def Let_def)
  next
    case (2 p)
    obtain a b where p: "p = (a, b)" by fastforce
    have "0 \<le> a" "0 \<le> b" using ok 2 p unfolding kernel_ok_def by (metis)+
    with 2 p t show ?case
      by (simp only: option.case prod.case post_seq [where m = "change _"] post_seq [where m = "upd_work _"] post_change post_upd)
        (rule go, intro stays_intro, simp_all add: owns_def Let_def socket_fds_def no_buffers_def)
  qed
qed

lemma buffers_upd:
  assumes "pb n = 0" "n < PBUF_ENTRIES" "a \<noteq> 0"
  shows "buffers_of (pb(n := a)) 0 = add_mset a (buffers_of pb 0)"
proof -
  have n: "n \<in> {0..<PBUF_ENTRIES}" using assms(2) by simp
  have "(\<Sum>i\<in>{0..<PBUF_ENTRIES} - {n}. has ((pb(n := a)) i \<noteq> 0) ((pb(n := a)) i)) =
      (\<Sum>i\<in>{0..<PBUF_ENTRIES} - {n}. has (pb i \<noteq> 0) (pb i))"
    by (rule sum.cong) auto
  then show ?thesis
    unfolding buffers_of_def by (simp add: sum.remove [OF _ n] assms del: fun_upd_apply) (simp add: assms)
qed

lemma post_memalign:
  assumes "kernel_ok os"
    and "\<And>m k. Q None (s\<lparr>mem := m, kst := k\<rparr>)"
    and "\<And>a m k. a \<noteq> 0 \<Longrightarrow> Q (Some a) (s\<lparr>mem := m, kst := k, blocks := a # blocks s\<rparr>)"
  shows "post (posix_memalign os al n) E Q s"
proof (cases "fst (net_memalign os al n (mem s) (kst s))")
  case None
  with assms(2) show ?thesis by (simp add: posix_memalign_def post_simps split_beta Let_def)
next
  case (Some a)
  then have "a \<noteq> 0" using assms(1) unfolding kernel_ok_def by metis
  with Some assms(3) show ?thesis by (simp add: posix_memalign_def post_simps split_beta Let_def)
qed

text \<open>What keeps the balance between the process and its workload.\<close>

definition keeps_own :: "'k proc \<Rightarrow> 'k proc \<Rightarrow> bool" where
  "keeps_own t u \<longleftrightarrow> (\<forall>s. owns s t \<longrightarrow> owns s u)"

interpretation own: frame keeps_own
  by unfold_locales (auto simp: keeps_own_def)

lemma own_prims [stays_intro]:
  "stays keeps_own (kernel f)" "stays keeps_own (upd_mem g)" "stays keeps_own (publish_buffer d)" "stays keeps_own (log_call c)"
  "stays keeps_own (upd_work (\<lambda>w. w\<lparr>work_pbuf_tail := n\<rparr>))"
  "stays keeps_own (upd_work (\<lambda>w. if b then w\<lparr>work_pbuf_registered := x\<rparr> else w))"
  by (auto simp: stays_def post_simps publish_buffer_def publish_def keeps_own_def owns_def Let_def split_beta)

lemma own_rest: "stays keeps_own m \<Longrightarrow> owns s t \<Longrightarrow> (\<And>c u. E c u) \<Longrightarrow> post m E (\<lambda>_. owns s) t"
  unfolding stays_def by (erule allE, erule post_mono) (auto simp: keeps_own_def)

lemma alloc_made:
  assumes ok: "kernel_ok os" and i: "i < PBUF_ENTRIES" and t: "owns s t" "\<forall>j \<ge> i. work_pbuf (work t) j = 0"
  shows "post (alloc_buffer os i) E
    (\<lambda>rc u. if rc = 0 then owns s u \<and> (\<forall>j \<ge> Suc i. work_pbuf (work u) j = 0) else owns s u) t"
  unfolding alloc_buffer_def push
  by (rule post_memalign [OF ok]; simp (no_asm) only: push)
    (use t i in \<open>simp_all add: owns_def Let_def buffers_upd\<close>)

lemma pbuf_made:
  assumes ok: "kernel_ok os" and t: "owns s t" "no_buffers (work t)" and E: "\<And>c u. E c u"
  shows "post (setup_pbuf os) E (\<lambda>_. owns s) t"
proof -
  have "post (until_fail (alloc_buffer os) [0..<PBUF_ENTRIES]) E
      (\<lambda>rc u. if rc = 0 then owns s u \<and> (\<forall>j \<ge> PBUF_ENTRIES. work_pbuf (work u) j = 0) else owns s u) u"
    if "owns s u" "work_pbuf (work u) = (\<lambda>_. 0)" for u
    by (rule post_until [where P = "\<lambda>i u. owns s u \<and> (\<forall>j \<ge> i. work_pbuf (work u) j = 0)" and F = "owns s"])
      (use that alloc_made [OF ok] in auto)
  from post_mono [OF this] have alloc: "post (until_fail (alloc_buffer os) [0..<PBUF_ENTRIES]) E (\<lambda>_. owns s) u"
    if "owns s u" "work_pbuf (work u) = (\<lambda>_. 0)" for u
    using that by (auto split: if_splits)
  have rest: "post (if rc \<noteq> 0 then give (-1) else seq (register_pbuf os) f) E (\<lambda>_. owns s) u"
    if "owns s u" "\<And>rc. stays keeps_own (f rc)" for rc u and f :: "int \<Rightarrow> ('a, int) prog"
    unfolding register_pbuf_def register_def
    by (rule own_rest [OF _ that(1) E]) (intro stays_intro that(2))
  show ?thesis
    unfolding setup_pbuf_def post_seq [where m = "posix_memalign _ _ _"]
    apply (rule post_memalign [OF ok])
    using t apply (simp add: push owns_def Let_def)
    apply (simp only: option.case post_seq [where m = "upd_work _"] post_seq [where m = "upd_mem _"] post_seq [where m = "until_fail _ _"] post_upd)
    apply (rule post_mono [OF alloc])
    using t apply (simp add: owns_def Let_def no_buffers_def)
    using t apply (simp add: no_buffers_def)
     apply assumption
    apply (rule rest, assumption)
    apply (unfold store_tail_def store_release_u16_def pbuf_status_def register_def)
    apply (intro stays_intro)
    done
qed

section \<open>Cleaning up\<close>

lemma post_free:
  "(a = 0 \<Longrightarrow> Q () s) \<Longrightarrow> (\<And>m k. a \<noteq> 0 \<Longrightarrow> Q () (s\<lparr>mem := m, kst := k, blocks := remove1 a (blocks s)\<rparr>)) \<Longrightarrow>
     post (free os a) E Q s"
  by (auto simp: free_def post_simps split_beta Let_def)

lemma post_close: "(\<And>m k. Q () (s\<lparr>mem := m, kst := k, fds := remove1 fd (fds s)\<rparr>)) \<Longrightarrow> post (close_fd os fd) E Q s"
  by (auto simp: close_fd_def post_simps split_beta Let_def)

lemma buffers_next: "i < PBUF_ENTRIES \<Longrightarrow> buffers_of pb i = has (pb i \<noteq> 0) (pb i) + buffers_of pb (Suc i)"
  by (simp add: buffers_of_def sum.atLeast_Suc_lessThan)

definition freed :: "'k proc \<Rightarrow> 'k proc \<Rightarrow> u64 multiset \<Rightarrow> 'k proc \<Rightarrow> bool" where
  "freed s t bs u \<longleftrightarrow> work u = work t \<and> maps u = maps t \<and> fds u = fds t \<and> mset (blocks u) = mset (blocks s) + bs"

lemma freed_free: "freed s t (has (a \<noteq> 0) a + bs) u \<Longrightarrow> (\<And>v. freed s t bs v \<Longrightarrow> Q () v) \<Longrightarrow> post (free os a) E Q u"
  by (rule post_free) (auto simp: freed_def)

lemma freed_buffers:
  assumes "freed s t (b + buffers_of (work_pbuf (work t)) 0) u"
  shows "post (each (\<lambda>i. seq (gets (\<lambda>s. work_pbuf (work s) i)) (free os)) [0..<PBUF_ENTRIES]) E (\<lambda>_. freed s t b) u"
proof -
  let ?P = "\<lambda>i. freed s t (b + buffers_of (work_pbuf (work t)) i)"
  have "post (seq (gets (\<lambda>s. work_pbuf (work s) i)) (free os)) E (\<lambda>_. ?P (Suc i)) v" if "i < PBUF_ENTRIES" "?P i v" for i v
  proof -
    have w: "work_pbuf (work v) i = work_pbuf (work t) i" using that(2) by (simp add: freed_def)
    show ?thesis
      unfolding push w by (rule freed_free [where bs = "b + buffers_of (work_pbuf (work t)) (Suc i)"])
        (use that in \<open>simp_all add: buffers_next add.left_commute\<close>)
  qed
  then have "post (each (\<lambda>i. seq (gets (\<lambda>s. work_pbuf (work s) i)) (free os)) [0..<PBUF_ENTRIES]) E (\<lambda>_. ?P PBUF_ENTRIES) u"
    by (intro post_each) (use assms in auto)
  then show ?thesis by (simp add: buffers_of_def)
qed

text \<open>A step that only happens under a condition.\<close>

lemma post_unmap_if:
  assumes "mset (maps s) = M + has b (a, len)"
    and "\<And>u. mset (maps u) = M \<Longrightarrow> work u = work s \<Longrightarrow> fds u = fds s \<Longrightarrow> blocks u = blocks s \<Longrightarrow> Q () u"
  shows "post (if b then munmap os a len else give ()) E Q s"
  by (rule post_ifI, rule post_munmap) (use assms in \<open>auto simp: push\<close>)

lemma post_close_if:
  assumes "mset (fds s) = F + has (0 \<le> fd) fd"
    and "\<And>u. mset (fds u) = F \<Longrightarrow> work u = work s \<Longrightarrow> maps u = maps s \<Longrightarrow> blocks u = blocks s \<Longrightarrow> Q () u"
  shows "post (if 0 \<le> fd then close_fd os fd else give ()) E Q s"
  by (rule post_ifI, rule post_close) (use assms in \<open>auto simp: push\<close>)

lemma destroyed:
  assumes "mset (maps t) = M + maps_of (work_ring (work t))" "mset (fds t) = F + ring_fds (work_ring (work t))"
    and Q: "\<And>u. mset (maps u) = M \<Longrightarrow> mset (fds u) = F \<Longrightarrow> blocks u = blocks t \<Longrightarrow> work_sockets (work u) = work_sockets (work t) \<Longrightarrow> Q () u"
  shows "post (raw_ring_destroy os) E Q t"
  using assms(1,2)
  unfolding raw_ring_destroy_def push upd_ring_def maps_of_def ring_fds_def
  apply -
  apply (rule post_unmap_if [where M = "M + has (ring_sq_ptr (work_ring (work t)) \<noteq> 0)
      (ring_sq_ptr (work_ring (work t)), ring_sq_sz (work_ring (work t))) +
     has (\<not> ring_single_mmap (work_ring (work t)) \<and> ring_cq_ptr (work_ring (work t)) \<noteq> 0)
      (ring_cq_ptr (work_ring (work t)), ring_cq_sz (work_ring (work t)))"], simp add: ac_simps)
  apply (rule post_unmap_if [where M = "M + has (\<not> ring_single_mmap (work_ring (work t)) \<and> ring_cq_ptr (work_ring (work t)) \<noteq> 0)
      (ring_cq_ptr (work_ring (work t)), ring_cq_sz (work_ring (work t)))"], simp add: ac_simps)
  apply (rule post_unmap_if [where M = M], simp add: ac_simps)
  apply (rule post_close_if [where F = F], simp)
  apply (rule Q; simp)
  done

lemma cleaned:
  assumes t: "owns s t" and E: "\<And>c u. E c u"
  shows "post (cleanup os) E (\<lambda>_. balanced s) t"
proof -
  let ?close = "seq (gets (\<lambda>s. work_sockets (work s))) (\<lambda>(a, b).
     seq (if 0 \<le> a then close_fd os a else give ()) (\<lambda>_. if 0 \<le> b then close_fd os b else give ()))"
  let ?free = "\<lambda>f. seq (gets (\<lambda>s. f (work s))) (free os)"
  have close: "post ?close E (\<lambda>_. balanced s) u"
    if "mset (maps u) = mset (maps s)" "mset (fds u) = mset (fds s) + socket_fds (work_sockets (work u))"
      "mset (blocks u) = mset (blocks s)" for u
    unfolding push split_beta
    by (rule post_close_if [where F = "mset (fds s) + has (0 \<le> snd (work_sockets (work u))) (snd (work_sockets (work u)))"],
        use that in \<open>simp add: socket_fds_def ac_simps\<close>, rule post_close_if [where F = "mset (fds s)"], simp)
      (use that in \<open>simp add: balanced_def\<close>)
  have destroy: "post (seq (raw_ring_destroy os) (\<lambda>_. ?close)) E (\<lambda>_. balanced s) u"
    if u: "owns s v" "freed s v {#} u" for u v
    unfolding post_seq [where m = "raw_ring_destroy os"]
    by (rule destroyed [where M = "mset (maps s)" and F = "mset (fds s) + socket_fds (work_sockets (work u))"],
        use u in \<open>simp add: owns_def freed_def Let_def\<close>, use u in \<open>simp add: owns_def freed_def Let_def ac_simps\<close>, rule close)
      (use u in \<open>simp_all add: freed_def\<close>)
  have ring: "post (seq (?free work_pbuf_ring) (\<lambda>_. seq (raw_ring_destroy os) (\<lambda>_. ?close))) E (\<lambda>_. balanced s) u"
    if u: "owns s v" "freed s v (has (work_pbuf_ring (work v) \<noteq> 0) (work_pbuf_ring (work v))) u" for u v
  proof -
    have w: "work_pbuf_ring (work u) = work_pbuf_ring (work v)" using u(2) by (simp add: freed_def)
    show ?thesis
      unfolding post_seq [where m = "seq _ _"] post_seq [where m = "gets _"] post_gets w
      by (rule freed_free [where bs = "{#}"], simp, rule u(2), rule destroy [OF u(1)])
  qed
  have frees: "post (seq (each (\<lambda>i. ?free (\<lambda>w. work_pbuf w i)) [0..<PBUF_ENTRIES])
      (\<lambda>_. seq (?free work_pbuf_ring) (\<lambda>_. seq (raw_ring_destroy os) (\<lambda>_. ?close)))) E (\<lambda>_. balanced s) v"
    if v: "owns s v" for v
    by (rule post_seqI [OF freed_buffers [where s = s and t = v and b = "has (work_pbuf_ring (work v) \<noteq> 0) (work_pbuf_ring (work v))"]],
        use v in \<open>simp add: owns_def freed_def Let_def\<close>, rule ring [OF v])
  have start: "post (if registered then seq (unregister_pbuf os) (\<lambda>_. give ()) else give ()) E (\<lambda>_. owns s) t" for registered
    unfolding unregister_pbuf_def register_def by (rule own_rest [OF _ t E]) (intro stays_intro)
  show ?thesis
    unfolding cleanup_def post_seq [where m = "gets (\<lambda>s. work_pbuf_registered (work s))"] post_gets
    by (rule post_seqI [OF start], rule frees)
qed

section \<open>The program\<close>

lemma held_pin_cpu [stays_intro]: "stays same_held (pin_cpu os)" "stays same_held (read_text os path n)"
  unfolding pin_cpu_def read_text_def by (intro stays_intro)+

lemma held_preamble [stays_intro]: "stays same_held (preamble os)"
  unfolding preamble_def by (intro stays_intro)

lemma owns_from: "owns u v \<Longrightarrow> same_held s u \<Longrightarrow> owns s v"
  by (simp add: owns_def same_held_def)

lemma workload_owned:
  assumes ok: "kernel_ok os" and t: "owns s t" "fresh (work t)" "maps t = maps s" "fds t = fds s" "blocks t = blocks s"
    and E: "\<And>c u. E c u"
  shows "post (run_workload os opt) E (\<lambda>_. owns s) t"
proof -
  have modes: "post (seq (if opt_profile opt = PROFILE_M0 then setup_pbuf os else give 0) (\<lambda>rc. if rc \<noteq> 0 then give EXIT_FAILURE
      else seq (run_mode os opt) (\<lambda>rc. give (if rc = 0 then EXIT_SUCCESS else EXIT_FAILURE)))) E (\<lambda>_. owns s) u"
    if "owns s u" "no_buffers (work u)" for u
  proof (rule post_seqI [where P = "\<lambda>_. owns s"], rule post_ifI, rule pbuf_made [OF ok that E], simp add: push that)
    fix rc :: int and v assume "owns s v"
    show "post (if rc \<noteq> 0 then give EXIT_FAILURE
      else seq (run_mode os opt) (\<lambda>rc. give (if rc = 0 then EXIT_SUCCESS else EXIT_FAILURE))) E (\<lambda>_. owns s) v"
      by (rule owns_stays [OF _ \<open>owns s v\<close> E]) (intro stays_intro held_run_mode)
  qed
  have sockets: "post (seq (setup_sockets os) (\<lambda>rc. if rc \<noteq> 0 then give EXIT_FAILURE else m)) E (\<lambda>_. owns s) u"
    if "owns s u" "work_sockets (work u) = (-1, -1)" "no_buffers (work u)"
      "\<And>v. owns s v \<Longrightarrow> no_buffers (work v) \<Longrightarrow> post m E (\<lambda>_. owns s) v" for u and m :: "('a, int) prog"
    by (rule post_seqI [OF sockets_made [OF ok that(1,2) E]]) (use that in \<open>auto simp: push\<close>)
  have ring: "post (seq (raw_ring_init os) (\<lambda>rc. if rc \<noteq> 0 then give EXIT_FAILURE else m)) E (\<lambda>_. owns s) u"
    if u: "same_held t u" and m: "\<And>v. owns s v \<Longrightarrow> work_sockets (work v) = (-1, -1) \<Longrightarrow> no_buffers (work v) \<Longrightarrow>
      post m E (\<lambda>_. owns s) v" for u and m :: "('a, int) prog"
  proof (rule post_seqI [OF init_made [OF ok]])
    fix rc v assume v: "ring_made u v"
    have "owns s v" using owns_ring(1) [OF v fresh_held [OF u t(2)]] u t(3-) by (simp add: owns_def same_held_def)
    with owns_ring(2,3) [OF v fresh_held [OF u t(2)]] m
    show "post (if rc \<noteq> 0 then give EXIT_FAILURE else m) E (\<lambda>_. owns s) v" by (auto simp: push)
  qed
  have pinned: "post (seq (preamble os) (\<lambda>_. seq (pin_cpu os) (\<lambda>rc. if rc \<noteq> 0 then give EXIT_FAILURE else m))) E (\<lambda>_. owns s) t"
    if m: "\<And>u. same_held t u \<Longrightarrow> post m E (\<lambda>_. owns s) u" for m :: "('a, int) prog"
    by (rule post_seqI [OF staysD [OF held_preamble E]], rule post_seqI [OF staysD [OF held_pin_cpu(1) E]])
      (auto simp: push intro!: m intro: same_held_trans owns_held [OF t(1)])
  show ?thesis
    unfolding run_workload_def by (rule pinned, rule ring, assumption, rule sockets, assumption+, rule modes, assumption+)
qed

lemma finished:
  assumes t: "owns s t" and E: "\<And>c u. E c u"
  shows "post (finish os to_file ret) E (\<lambda>_. balanced s) t"
proof -
  have "stays same_held (if to_file then seq (kernel (net_fclose os)) (\<lambda>_. give ()) else give ())" by (intro stays_intro)
  from owns_stays [OF this t E] show ?thesis
    unfolding finish_def by (rule post_seqI) (rule post_seqI [OF cleaned [OF _ E]], assumption, simp add: push)
qed

lemma balanced_held: "same_held s t \<Longrightarrow> balanced s t"
  by (simp add: balanced_def same_held_def)

lemma open_rule:
  "R True s \<Longrightarrow> (\<And>a m k. R a (s\<lparr>mem := m, kst := k\<rparr>)) \<Longrightarrow>
     post (case v of None \<Rightarrow> give True | Some path \<Rightarrow> kernel (net_fopen os path)) E R s"
  by (cases v) (auto simp: post_give intro: net_kernel_rule)

text \<open>The beginning of \<open>execute\<close>, up to the opening of the output.\<close>

lemma execute_rule:
  assumes fail: "\<And>t. maps t = maps s \<Longrightarrow> fds t = fds s \<Longrightarrow> blocks t = blocks s \<Longrightarrow> Q EXIT_FAILURE t"
    and go: "\<And>release boot t. work t = initial_workload\<lparr>work_release := release, work_boot_id := boot\<rparr> \<Longrightarrow>
      maps t = maps s \<Longrightarrow> fds t = fds s \<Longrightarrow> blocks t = blocks s \<Longrightarrow> calls t = calls s \<Longrightarrow> printed t = printed s \<Longrightarrow>
      post (seq (run_workload os opt) (finish os (opt_output_path opt \<noteq> None))) E Q t"
  shows "post (execute os opt) E Q s"
  unfolding execute_def post_seq [where m = "upd_work _"] post_upd post_seq [where m = "kernel _"]
  apply (rule net_kernel_rule)
  subgoal for uts m k
    apply (cases uts; simp (no_asm_simp) only: option.case)
     apply (simp only: push, rule fail; simp)
    apply (simp only: post_seq [where m = "upd_work _"] post_upd post_seq [where m = "read_text _ _ _"] read_text_def post_seq [where m = "seq _ _"] post_seq [where m = "kernel _"])
    apply (rule net_kernel_rule)
    apply (simp only: post_give post_seq [where m = "upd_work _"] post_upd)
    apply (unfold post_seq [where m = "case_option _ _ _"], rule open_rule)
     apply (rule post_ifI, simp only: post_give, rule fail, simp, simp, simp, rule go, simp_all)[1]
    apply (rule post_ifI, simp only: post_give, rule fail, simp, simp, simp, rule go, simp_all)
    done
  done

lemma main_balanced:
  assumes ok: "kernel_ok os"
  shows "post (main os args) (\<lambda>_ _. True) (\<lambda>_. balanced s) s"
proof -
  have "post (execute os opt) (\<lambda>_ _. True) (\<lambda>_. balanced s) s" for opt
  proof (rule execute_rule)
    fix release boot and t :: "'a proc"
    assume t: "work t = initial_workload\<lparr>work_release := release, work_boot_id := boot\<rparr>" "maps t = maps s" "fds t = fds s" "blocks t = blocks s"
    then have fresh: "fresh (work t)" by (simp add: fresh_def initial_workload_def no_buffers_def)
    show "post (seq (run_workload os opt) (finish os (opt_output_path opt \<noteq> None))) (\<lambda>_ _. True) (\<lambda>_. balanced s) t"
      by (rule post_seqI [OF workload_owned [OF ok owns_fresh [OF fresh t(2-)] fresh t(2-)]], simp) (rule finished, simp_all)
  qed (simp add: balanced_def)
  then show ?thesis
    by (auto simp: main_def describe_def push post_change balanced_def split: option.split)
qed

section \<open>An exit with 0\<close>

text \<open>The program has printed the preamble and the rows of its rounds, all of which have passed; before them, the profile
  with provided buffers has read the status of an unused buffer ring.\<close>

definition run_complete :: "'k net_os \<Rightarrow> options \<Rightarrow> 'k proc \<Rightarrow> 'k proc \<Rightarrow> bool" where
  "run_complete os opt s t \<longleftrightarrow> (\<exists>release boot pb cs out.
     printed t = printed s @ preamble_lines os (initial_workload\<lparr>work_release := release, work_boot_id := boot\<rparr>) @ out \<and>
     calls t = calls s @ (if opt_profile opt = PROFILE_M0 then [STATUS 0] else []) @ cs \<and>
     all_pass os (opt_profile opt) pb (plan opt) cs out)"

lemma post_lines:
  "(\<And>m k ls. Q () (s\<lparr>mem := m, kst := k, printed := printed s @ lines, out_lines := ls\<rparr>)) \<Longrightarrow> post (each (print_line os) lines) E Q s"
proof (induction lines arbitrary: s)
  case Nil
  from Nil [where m = "mem s" and k = "kst s" and ls = "out_lines s"] show ?case by (simp add: each_def push)
next
  case (Cons l lines)
  have "Q () (s\<lparr>mem := m, kst := k, printed := (printed s @ [l]) @ lines, out_lines := ls\<rparr>)" for m k ls
    using Cons.prems [where m = m and k = k and ls = ls] by simp
  then show ?case
    using Cons.IH by (simp add: each_def push post_print_line split_beta Let_def)
qed

lemma unlogged_buffers [stays_intro]:
  "stays unlogged (until_fail (alloc_buffer os) is)" "stays unlogged (register_pbuf os)"
  unfolding alloc_buffer_def register_pbuf_def register_def by (intro stays_intro)+

lemma status_logged:
  "post (pbuf_status os) E (\<lambda>(rc, head) t. rc = 0 \<longrightarrow> calls t = calls s @ [STATUS head] \<and> printed t = printed s) s"
  by (auto simp: pbuf_status_def register_def post_simps split_beta Let_def)

lemma pbuf_logged:
  assumes E: "\<And>c u. E c u"
  shows "post (setup_pbuf os) E (\<lambda>rc t. rc = 0 \<longrightarrow> calls t = calls s @ [STATUS 0] \<and> printed t = printed s) s"
proof -
  have last: "post (pbuf_status os) E (\<lambda>a. post (case a of (rc, head) \<Rightarrow> give (if rc = 0 \<and> head = 0 then 0 else -1)) E
      (\<lambda>rc t. (rc :: int) = 0 \<longrightarrow> calls t = calls s @ [STATUS 0] \<and> printed t = printed s)) u" if "unlogged s u" for u
    by (rule post_mono [OF status_logged [where s = u]])
      (use that in \<open>auto simp: push unlogged_def split: if_splits\<close>)
  have step: "post (seq m f) E Q u" if "stays unlogged m" "unlogged s u" "\<And>a v. unlogged s v \<Longrightarrow> post (f a) E Q v"
    for m :: "('a, 'b) prog" and f :: "'b \<Rightarrow> ('a, int) prog" and Q u
    by (rule post_seqI [OF staysD [OF that(1) E]]) (use that(2,3) unlogged.trans in blast)
  have loops: "stays unlogged (each (\<lambda>i. publish_buffer (h i)) is)" "stays unlogged store_tail" for h and "is" :: "nat list"
    unfolding store_tail_def by (intro stays_intro)+
  show ?thesis
    unfolding setup_pbuf_def
    apply (rule step, intro stays_intro, simp add: unlogged.refl)
    subgoal for r u
      apply (cases r; simp (no_asm_simp) only: option.case)
       apply (simp add: push)
      apply (rule step, intro stays_intro, assumption)
      apply (rule step, intro stays_intro, assumption)
      apply (rule step, intro stays_intro, assumption)
      apply (rule post_ifI, simp add: push)
      apply (rule step, intro stays_intro, assumption)
      apply (rule post_ifI, simp add: push)
      apply (rule step, intro stays_intro, assumption)
      apply (rule step, intro loops, assumption)
      apply (rule step, intro loops, assumption)
      apply (unfold post_seq, rule last, assumption)
      done
    done
qed

lemma workload_complete:
  assumes mode: "opt_mode opt \<in> {MODE_SMOKE, MODE_TRACE, MODE_POINT}"
    and s: "work s = initial_workload\<lparr>work_release := release, work_boot_id := boot\<rparr>"
  shows "post (run_workload os opt) (\<lambda>_ _. True) (\<lambda>rc t. rc = EXIT_SUCCESS \<longrightarrow> run_complete os opt s t) s"
proof -
  let ?pre = "preamble_lines os (work s)" and ?st = "if opt_profile opt = PROFILE_M0 then [STATUS 0] else []"
  let ?E = "\<lambda>(_ :: int) (_ :: 'a proc). True" and ?Q = "\<lambda>rc t. rc = EXIT_SUCCESS \<longrightarrow> run_complete os opt s t"
  let ?start = "\<lambda>u. calls u = calls s \<and> printed u = printed s @ ?pre"
  have modes: "post (seq (run_mode os opt) (\<lambda>rc. give (if rc = 0 then EXIT_SUCCESS else EXIT_FAILURE))) ?E ?Q u"
    if u: "calls u = calls s @ ?st" "printed u = printed s @ ?pre" for u
    unfolding post_seq push
  proof (rule post_mono [OF run_mode_ran [OF mode, where s = u]], simp, intro impI)
    fix rc and t :: "'a proc"
    assume "rc = 0 \<longrightarrow> ran os (opt_profile opt) (plan opt) u t"
      and "(if rc = 0 then EXIT_SUCCESS else EXIT_FAILURE) = EXIT_SUCCESS"
    then have "ran os (opt_profile opt) (plan opt) u t" by (auto simp: EXIT_SUCCESS_def EXIT_FAILURE_def split: if_splits)
    then obtain cs out where t: "calls t = calls u @ cs" "printed t = printed u @ out"
        "all_pass os (opt_profile opt) (work_pbuf (work u)) (plan opt) cs out"
      unfolding ran_def by blast
    show "run_complete os opt s t"
      unfolding run_complete_def t u s append_assoc by (blast intro: t(3))
  qed
  have buffers: "post (seq (if opt_profile opt = PROFILE_M0 then setup_pbuf os else give 0) (\<lambda>rc. if rc \<noteq> 0 then give EXIT_FAILURE
      else seq (run_mode os opt) (\<lambda>rc. give (if rc = 0 then EXIT_SUCCESS else EXIT_FAILURE)))) ?E ?Q u"
    if u: "?start u" for u
  proof (rule post_seqI [where P = "\<lambda>rc v. rc = 0 \<longrightarrow> calls v = calls s @ ?st \<and> printed v = printed s @ ?pre"])
    show "post (if opt_profile opt = PROFILE_M0 then setup_pbuf os else give 0) ?E
       (\<lambda>rc v. rc = 0 \<longrightarrow> calls v = calls s @ ?st \<and> printed v = printed s @ ?pre) u"
      by (rule post_ifI, rule post_mono [OF pbuf_logged]) (use u in \<open>auto simp: push\<close>)
  next
    fix rc and v :: "'a proc" assume "rc = 0 \<longrightarrow> calls v = calls s @ ?st \<and> printed v = printed s @ ?pre"
    then show "post (if rc \<noteq> 0 then give EXIT_FAILURE
      else seq (run_mode os opt) (\<lambda>rc. give (if rc = 0 then EXIT_SUCCESS else EXIT_FAILURE))) ?E ?Q v"
      by (intro post_ifI) (simp add: push EXIT_SUCCESS_def EXIT_FAILURE_def, blast intro: modes)
  qed
  have step: "post (seq m (\<lambda>rc. if rc \<noteq> 0 then give EXIT_FAILURE else k)) ?E ?Q u"
    if "stays unlogged m" "?start u" "\<And>v. ?start v \<Longrightarrow> post k ?E ?Q v" for m :: "('a, int) prog" and k u
  proof (rule post_seqI [OF staysD [OF that(1)]], simp, rule post_ifI)
    fix rc and v :: "'a proc" assume "unlogged u v"
    then show "post k ?E ?Q v" using that(2,3) by (simp add: unlogged_def)
  qed (simp add: push EXIT_SUCCESS_def EXIT_FAILURE_def)
  show ?thesis
    unfolding run_workload_def preamble_def post_seq [where m = "seq _ _"] post_seq [where m = "gets _"] post_seq [where m = "each _ _"] post_gets
    by (rule post_lines, rule step, intro stays_intro, simp, rule step, intro stays_intro, assumption,
        rule step, intro stays_intro, assumption, rule buffers)
qed

lemma unlogged_finish [stays_intro]: "stays unlogged (finish os to_file ret)"
  unfolding finish_def by (intro stays_intro)

lemma finish_code: "post (finish os to_file ret) (\<lambda>_ _. True) (\<lambda>rc t. rc = ret \<and> unlogged s t) s"
proof -
  have returns: "returns_in {ret} (finish os to_file ret)"
    unfolding finish_def by (intro returns_in_seq returns_in_give) simp
  then have "post (finish os to_file ret) (\<lambda>_ _. True) (\<lambda>rc t. rc = ret) s"
    using returns by (auto simp: returns_in_def post_def wp_def split: option.split sum.split)
  from post_conj [OF this staysD [OF unlogged_finish]] show ?thesis by (rule post_mono) auto
qed

lemma run_complete_cong: "run_complete os opt s t \<Longrightarrow> unlogged t u \<Longrightarrow> unlogged s s' \<Longrightarrow> run_complete os opt s' u"
  by (simp add: run_complete_def unlogged_def)

lemma main_complete:
  assumes "parse_options args = Some opt" "opt_mode opt \<noteq> MODE_DESCRIBE"
  shows "post (main os args) (\<lambda>_ _. True) (\<lambda>rc t. rc = EXIT_SUCCESS \<longrightarrow> run_complete os opt s t) s"
proof -
  have mode: "opt_mode opt \<in> {MODE_SMOKE, MODE_TRACE, MODE_POINT}"
    using assms by (cases "opt_mode opt") (auto simp: parse_options_def options_ok_def split: option.splits if_splits)
  have "post (execute os opt) (\<lambda>_ _. True) (\<lambda>rc t. rc = EXIT_SUCCESS \<longrightarrow> run_complete os opt s t) s"
  proof (rule execute_rule)
    fix release boot and t :: "'a proc"
    assume t: "work t = initial_workload\<lparr>work_release := release, work_boot_id := boot\<rparr>" "calls t = calls s" "printed t = printed s"
    show "post (seq (run_workload os opt) (finish os (opt_output_path opt \<noteq> None))) (\<lambda>_ _. True)
      (\<lambda>rc t. rc = EXIT_SUCCESS \<longrightarrow> run_complete os opt s t) t"
    proof (rule post_seqI [OF workload_complete [OF mode t(1)]])
      fix rc and u :: "'a proc" assume u: "rc = EXIT_SUCCESS \<longrightarrow> run_complete os opt t u"
      show "post (finish os (opt_output_path opt \<noteq> None) rc) (\<lambda>_ _. True) (\<lambda>rc t. rc = EXIT_SUCCESS \<longrightarrow> run_complete os opt s t) u"
        by (rule post_mono [OF finish_code]) (use u t(2,3) in \<open>auto intro: run_complete_cong simp: unlogged_def\<close>)
    qed
  qed (simp add: EXIT_SUCCESS_def EXIT_FAILURE_def)
  then show ?thesis using assms by (simp add: main_def)
qed

section \<open>The program ends\<close>

text \<open>Between two interruptions of a call something that is bounded decreases.\<close>

definition interrupts_bounded :: "'k net_os \<Rightarrow> ('k \<Rightarrow> nat) \<Rightarrow> bool" where
  "interrupts_bounded os bound \<longleftrightarrow>
     (\<forall>fd n want flgs m k ret e m1 k1. net_enter os fd n want flgs m k = ((ret, e), m1, k1) \<longrightarrow>
        ret < 0 \<longrightarrow> e = EINTR \<longrightarrow> bound k1 < bound k)"

lemma back_net_enter:
  assumes "interrupts_bounded os bound"
  shows "comes_back (enter_loop os fd n want)"
proof -
  have "enter_loop os fd n want s \<noteq> None" for s
  proof (induction "bound (kst s)" arbitrary: s rule: less_induct)
    case less
    obtain ret e m1 k1 where call: "net_enter os fd n want (if want \<noteq> 0 then IORING_ENTER_GETEVENTS else 0) (mem s) (kst s) =
        ((ret, e), m1, k1)"
      by (metis prod.collapse)
    have "bound k1 < bound (kst s)" if "ret < 0" "e = EINTR"
      using assms call that unfolding interrupts_bounded_def by blast
    then show ?case
      using less by (subst enter_loop.simps) (auto simp: call Let_def)
  qed
  then show ?thesis by (simp add: comes_back_def)
qed

lemma enter_exits [exits_intro]: "exits_in A (enter_loop os fd n want)"
proof -
  have "post (enter_loop os fd n want) (\<lambda>_ _. False) (\<lambda>_ _. True) s" for s
    using net_enter_rule [where R = "\<lambda>_ _. True"] by simp
  then have "enter_loop os fd n want s \<noteq> Some (Inl c, t)" for s c t
    unfolding post_def wp_def by (metis (mono_tags, lifting) old.sum.simps(5) option.simps(5) prod.simps(2))
  then show ?thesis by (simp add: exits_in_def)
qed

lemma net_prims [back_intro, exits_intro]:
  "comes_back (kernel f)" "comes_back (upd_mem k)" "comes_back (upd_work w)" "comes_back (upd_res r)" "comes_back (log_call c)"
  "comes_back (publish_buffer d)"
  "exits_in A (kernel f)" "exits_in A (upd_mem k)" "exits_in A (upd_work w)" "exits_in A (upd_res r)" "exits_in A (log_call c)"
  "exits_in A (publish_buffer d)"
  by (auto simp: comes_back_def exits_in_def kernel_def upd_mem_def upd_work_def upd_res_def log_call_def publish_buffer_def
      change_def split_beta Let_def)

text \<open>The definitions between \<open>main\<close> and these.\<close>

lemmas round_bodies = execute_once_def run_multishot_def run_nop_control_def run_sys_control_def run_ordinary_def multishot_batch_def nop_batch_def sys_batch_def ordinary_batch_def ordinary_stage_def pbuf_status_def register_def read_health_def set_pass_def outstanding_def load_acquire_u32_def submit_multishot_def cancel_multishot_def cancel_step_def take_buffer_def compare_buffer_def count_mismatch_def account_result_def account_nop_def account_len_def store_tail_def reserve_sqe_def fill_sqe_def fill_queue_def collect_batch_def put_sqe_def ring_enter_def copy_cqes_def copy_cqe_def now_if_def add_elapsed_def now_ns_def send_messages_def clear_recv_buf_def pattern_fill_def prepare_iov_def prepare_slot_def prepare_seg_def peer_fill_def peer_send_def peer_drain_def peer_take_def peer_recv_def peer_def validate_receive_buffers_def

lemmas net_bodies = main_def execute_def run_workload_def preamble_def describe_def finish_def cleanup_def unregister_pbuf_def
  raw_ring_init_def map_queues_def map_sqes_def raw_ring_destroy_def ring_pointers_def setup_sockets_def set_nonblock_def
  setup_pbuf_def alloc_buffer_def register_pbuf_def io_uring_setup_def mmap_def munmap_def close_fd_def posix_memalign_def free_def
  pin_cpu_def read_text_def run_mode_def run_single_def run_point_def measured_round_def emit_def print_line_def
  look_def upd_ring_def upd_shm_def store_release_u32_def store_release_u16_def

lemma net_main_back:
  assumes "interrupts_bounded os bound"
  shows "comes_back (main os args)"
  unfolding net_bodies round_bodies unfolding net_bodies round_bodies
  by (intro back_net_enter [OF assms] back_intro)

lemma main_exits: "exits_in {EXIT_FAILURE} (main os args)"
  unfolding net_bodies round_bodies unfolding net_bodies round_bodies
  by (intro exits_intro exits_exit singletonI)

lemma net_main_returns: "returns_in {EXIT_SUCCESS, EXIT_FAILURE} (main os args)"
proof -
  have work: "returns_in {EXIT_SUCCESS, EXIT_FAILURE} (run_workload os opt)" for opt
    unfolding run_workload_def by (intro returns_in_seq returns_in_if returns_in_give) auto
  have fin: "returns_in {EXIT_SUCCESS, EXIT_FAILURE} (finish os b ret)" if "ret \<in> {EXIT_SUCCESS, EXIT_FAILURE}" for b ret
    unfolding finish_def using that by (intro returns_in_seq returns_in_give)
  show ?thesis
    unfolding main_def execute_def
    by (intro returns_in_option returns_in_if returns_in_seq returns_in_give returns_in_bind [OF work fin]) auto
qed

end
