(* ===== verification/Net_Offered.thy ===== *)
theory Net_Offered
  imports Net_Released Submission_Queue
begin

text \<open>
  What the kernel finds when a batch of io_uring_net_round.c is submitted: the entries in the queue of the ring, and the
  messages in memory that they lead to. Also what the patterns of the messages can tell apart.
\<close>

section \<open>Patterns\<close>

lemma mod_256_64: "(n :: nat) mod 2 ^ 64 mod 256 = n mod 256"
proof -
  have "(256 :: nat) dvd 2 ^ 64" by (rule dvdI [where k = "2 ^ 56"]) simp
  then show ?thesis by (rule mod_mod_cancel)
qed

lemma pattern_byte_unat: "unat (pattern_byte sq i) = (unat sq * 131 + i * 17 + 90) mod 256"
proof -
  let ?x = "sq * 131 + of_nat i * 17 + 0x5a"
  have x: "?x = of_nat (unat sq * 131 + i * 17 + 90)" by simp
  have "pattern_byte sq i = ucast (take_bit 8 ?x)"
    by (simp add: pattern_byte_def take_bit_eq_mask mask_eq_exp_minus_1)
  then have "unat (pattern_byte sq i) = unat ?x mod 256"
    by (simp add: unsigned_ucast_eq unsigned_take_bit_eq take_bit_eq_mod unat_mod_distrib)
  also have "\<dots> = (unat sq * 131 + i * 17 + 90) mod 256"
    unfolding x unat_of_nat using mod_256_64 [of "unat sq * 131 + i * 17 + 90"] by simp
  finally show ?thesis .
qed

lemma nat_mod_dvd: "(a :: nat) mod 256 = b mod 256 \<longleftrightarrow> (256 :: int) dvd int a - int b"
proof -
  have "int (x mod 256) = int x mod 256" for x by (simp add: of_nat_mod)
  then have "a mod 256 = b mod 256 \<longleftrightarrow> int a mod 256 = int b mod 256" by (metis of_nat_eq_iff)
  then show ?thesis by (simp only: mod_eq_dvd_iff)
qed

text \<open>131 is invertible: 43 times 131 is 1 modulo 256.\<close>

lemma odd_dvd: "(256 :: int) dvd 131 * d \<longleftrightarrow> 256 dvd d"
proof
  assume "256 dvd 131 * d"
  then have "256 dvd 43 * (131 * d)" by (rule dvd_mult)
  moreover have "(256 :: int) dvd 256 * (22 * d)" by simp
  ultimately have "256 dvd 43 * (131 * d) - 256 * (22 * d)" by (rule dvd_diff)
  moreover have "43 * (131 * d) - 256 * (22 * d) = d" by simp
  ultimately show "256 dvd d" by (simp only:)
qed simp

lemma odd_mod_inject: "(a * 131 + c) mod 256 = (b * 131 + c) mod 256 \<longleftrightarrow> a mod 256 = (b :: nat) mod 256"
proof -
  have "int (a * 131 + c) - int (b * 131 + c) = 131 * (int a - int b)" by simp
  then show ?thesis by (simp only: nat_mod_dvd odd_dvd)
qed

lemma pattern_eq: "pattern a = pattern b \<longleftrightarrow> unat a mod 256 = unat b mod 256"
proof -
  have byte: "pattern_byte a i = pattern_byte b i \<longleftrightarrow> unat a mod 256 = unat b mod 256" for i
    using odd_mod_inject [of "unat a" "i * 17 + 90" "unat b"]
    by (simp add: word_unat_eq_iff pattern_byte_unat add.assoc)
  have "pattern a = pattern b \<longleftrightarrow> (\<forall>i < PAYLOAD_BYTES. unat a mod 256 = unat b mod 256)"
    by (auto simp: pattern_def byte)
  moreover have "0 < PAYLOAD_BYTES" by (simp add: PAYLOAD_BYTES_def)
  ultimately show ?thesis by blast
qed

section \<open>Memory\<close>

lemma peek_poke_other:
  "(\<And>x. x < n \<Longrightarrow> length bs \<le> unat (a + of_nat x - b)) \<Longrightarrow> peek (poke b bs m) a n = peek m a n"
  by (force simp: peek_def poke_def not_less)

text \<open>Buffers of the same size at a distance of at least that size.\<close>

lemma far_apart:
  assumes "i \<noteq> j" "i < 2 ^ 32" "j < 2 ^ 32" "x < PAYLOAD_BYTES"
  shows "PAYLOAD_BYTES \<le> unat ((w :: u64) + of_nat (i * PAYLOAD_BYTES) + of_nat x - (w + of_nat (j * PAYLOAD_BYTES)))"
proof (cases "j < i")
  case True
  then obtain d where "i = j + d" using less_imp_add_positive by blast
  then have "i * PAYLOAD_BYTES + x = j * PAYLOAD_BYTES + ((i - j) * PAYLOAD_BYTES + x)" by (simp add: algebra_simps)
  then have "w + of_nat (i * PAYLOAD_BYTES) + of_nat x - (w + of_nat (j * PAYLOAD_BYTES)) = of_nat ((i - j) * PAYLOAD_BYTES + x)"
    unfolding add.assoc of_nat_add [symmetric] by (simp only: of_nat_add) simp
  moreover have "unat (of_nat ((i - j) * PAYLOAD_BYTES + x) :: u64) = (i - j) * PAYLOAD_BYTES + x"
    unfolding unat_of_nat using assms by (intro mod_less) (simp add: PAYLOAD_BYTES_def)
  moreover have "PAYLOAD_BYTES \<le> (i - j) * PAYLOAD_BYTES + x" using True mult_le_mono1 [of 1 "i - j" PAYLOAD_BYTES] by linarith
  ultimately show ?thesis by (simp only:)
next
  case False
  then have ij: "i < j" using assms(1) by simp
  define d where "d = (j - i) * PAYLOAD_BYTES - x"
  have d: "0 < d" "d \<le> 2 ^ 39" "j * PAYLOAD_BYTES = i * PAYLOAD_BYTES + x + d"
    using ij assms(3,4) by (auto simp: d_def PAYLOAD_BYTES_def algebra_simps)
  have "w + of_nat (i * PAYLOAD_BYTES) + of_nat x - (w + of_nat (j * PAYLOAD_BYTES)) = - of_nat d"
    by (simp add: d(3))
  moreover have "unat (- of_nat d :: u64) = 2 ^ 64 - d"
  proof -
    have "(of_nat (2 ^ 64 - d) :: u64) = of_nat (2 ^ 64) - of_nat d" using d(2) by (intro of_nat_diff) simp
    then have "(- of_nat d :: u64) = of_nat (2 ^ 64 - d)" by simp
    moreover have "unat (of_nat (2 ^ 64 - d) :: u64) = 2 ^ 64 - d"
      unfolding unat_of_nat using d(1) by (intro mod_less) simp
    ultimately show ?thesis by (simp only:)
  qed
  ultimately show ?thesis using d(2) by (simp add: PAYLOAD_BYTES_def)
qed

section \<open>What the kernel leaves alone\<close>

text \<open>The submission side of the ring and the memory of the program that only it writes. Without a polling thread
  the kernel consumes entries only in \<open>io_uring_enter\<close>, and receives only then.\<close>

definition same_offer :: "memory \<Rightarrow> memory \<Rightarrow> bool" where
  "same_offer m m' \<longleftrightarrow> same_sq (shm m) (shm m') \<and> bytes m' = bytes m \<and> iovecs m' = iovecs m \<and> msghdrs m' = msghdrs m"

definition hands_off :: "'k net_os \<Rightarrow> bool" where
  "hands_off os \<longleftrightarrow> (\<forall>m k. same_offer m (fst (snd (net_async os m k)))) \<and> (\<forall>m k. same_offer m (fst (snd (net_clock os m k)))) \<and>
     (\<forall>fd a n f m k. same_offer m (fst (snd (net_send os fd a n f m k))))"

abbreviation seen :: "'k proc \<Rightarrow> net_call list" where
  "seen s \<equiv> filter visible (calls s)"

definition unmoved :: "'k proc \<Rightarrow> 'k proc \<Rightarrow> bool" where
  "unmoved s t \<longleftrightarrow> work t = work s \<and> res t = res s \<and> same_offer (mem s) (mem t) \<and> seen t = seen s"

interpretation unmoved: frame unmoved
  by unfold_locales (auto simp: unmoved_def same_offer_def intro: same_sq_trans)

lemma look_unmoved:
  assumes "hands_off os" "unmoved s t" "\<And>u. unmoved s u \<Longrightarrow> Q (f (mem u)) u"
  shows "post (look os f) E Q t"
proof -
  have "same_offer (mem t) (fst (snd (net_async os (mem t) (kst t))))" using assms(1) by (simp add: hands_off_def)
  then have "unmoved s (t\<lparr>mem := fst (snd (net_async os (mem t) (kst t))), kst := snd (snd (net_async os (mem t) (kst t)))\<rparr>)"
    by (intro unmoved.trans [OF assms(2)]) (simp add: unmoved_def)
  from assms(3) [OF this] show ?thesis by (simp add: look_def post_simps split_beta Let_def)
qed

lemma now_unmoved:
  assumes "hands_off os" "unmoved s t" "\<And>a u. unmoved s u \<Longrightarrow> Q a u" "\<And>u. timed \<Longrightarrow> E EXIT_FAILURE u"
  shows "post (now_if timed os) E Q t"
proof (cases timed)
  case True
  have "same_offer (mem t) (fst (snd (net_clock os (mem t) (kst t))))" using assms(1) by (simp add: hands_off_def)
  then have "unmoved s (t\<lparr>mem := fst (snd (net_clock os (mem t) (kst t))), kst := snd (snd (net_clock os (mem t) (kst t))), calls := calls t @ cs\<rparr>)" if "filter visible cs = []" for cs
    by (intro unmoved.trans [OF assms(2)]) (use that in \<open>simp add: unmoved_def\<close>)
  from this [of "[]"] this [of "[CLOCK _]"] show ?thesis
    using True assms(3,4) by (auto simp: now_if_def now_ns_def post_simps split_beta Let_def split: option.split)
qed (simp add: now_if_def push assms)

section \<open>The queue\<close>

text \<open>The ring after some entries have been written, and before the tail is published.\<close>

definition written :: "ring_mem \<Rightarrow> sqe list \<Rightarrow> u32 \<Rightarrow> ring_mem \<Rightarrow> bool" where
  "written m0 qs tail m \<longleftrightarrow> (\<exists>m'. sq.enq_list qs m0 = Some m' \<and> tail = sq_tail m' \<and> same_sq (m'\<lparr>sq_tail := sq_tail m0\<rparr>) m)"

lemma enq_list_snoc: "sq.enq_list (qs @ [q]) m = (case sq.enq_list qs m of None \<Rightarrow> None | Some m' \<Rightarrow> sq_enqueue q m')"
  by (induction qs arbitrary: m) (auto split: option.splits)

lemma written_step:
  assumes "written m0 qs tail m" "sq_wf m0" "sq_count m0 + length qs < sq_capacity m0"
  shows "written m0 (qs @ [q]) (tail + 1) (m\<lparr>sqes := (sqes m)(tail AND sq_mask m := q), sq_array := (sq_array m)(tail AND sq_mask m := tail AND sq_mask m)\<rparr>)"
proof -
  obtain m' where m': "sq.enq_list qs m0 = Some m'" "tail = sq_tail m'" "same_sq (m'\<lparr>sq_tail := sq_tail m0\<rparr>) m"
    using assms(1) by (auto simp: written_def)
  obtain q' where "sq.enq_list qs m0 = Some q'" "sq_pending q' = sq_pending m0 @ qs" "sq_capacity q' = sq_capacity m0" "sq_wf q'"
    using sq.enq_list_room [OF assms(2), of qs] assms(3) by auto
  with m'(1) have "sq_pending m' = sq_pending m0 @ qs" "sq_capacity m' = sq_capacity m0" "sq_wf m'" by simp_all
  then have room: "sq_wf m'" "sq_count m' < sq_capacity m'"
    using assms(3) length_sq_pending [of m'] by simp_all
  then have "\<not> sq_tail m' - sq_head m' \<ge> sq_entries m'"
    by (simp add: sq_count_def sq_capacity_def word_le_nat_alt)
  then show ?thesis
    using m' by (auto simp: written_def enq_list_snoc sq_enqueue_def Let_def same_sq_def)
qed

lemma fill_offered:
  assumes os: "hands_off os" and wf: "sq_wf (shm (mem s))" and room: "sq_count (shm (mem s)) + QD \<le> sq_capacity (shm (mem s))"
    and E: "\<And>u. timed \<Longrightarrow> E EXIT_FAILURE u"
  shows "post (fill_queue os f timed) E (\<lambda>r t. r \<noteq> None \<and> work t = work s \<and>
    res t = (res s)\<lparr>res_sqes := res_sqes (res s) + of_nat QD\<rparr> \<and> bytes (mem t) = bytes (mem s) \<and>
    iovecs (mem t) = iovecs (mem s) \<and> msghdrs (mem t) = msghdrs (mem s) \<and> seen t = seen s \<and>
    sq_pending (shm (mem t)) = sq_pending (shm (mem s)) @ map f [0..<QD] \<and> sq_wf (shm (mem t))) s"
proof -
  let ?m0 = "shm (mem s)"
  let ?P = "\<lambda>i tail t. work t = work s \<and> res t = res s \<and> bytes (mem t) = bytes (mem s) \<and> iovecs (mem t) = iovecs (mem s) \<and>
      msghdrs (mem t) = msghdrs (mem s) \<and> seen t = seen s \<and> written ?m0 (map f [0..<i]) tail (shm (mem t))"
  have step: "post (put_sqe os f i tail) E (?P (Suc i)) t" if i: "i < QD" and t: "?P i tail t" for i tail t
    unfolding put_sqe_def Let_def push
  proof (rule look_unmoved [OF os unmoved.refl])
    fix u assume u: "unmoved t u"
    have P: "?P i tail u"
      using t u unfolding unmoved_def same_offer_def written_def by (auto intro: same_sq_trans)
    have "sq_count ?m0 + length (map f [0..<i]) < sq_capacity ?m0" using room i by simp
    from written_step [OF _ wf this, of tail "shm (mem u)" "f i"] P
    show "post (upd_shm (\<lambda>m. m\<lparr>sqes := (sqes m)(tail AND sq_mask (shm (mem u)) := f i),
         sq_array := (sq_array m)(tail AND sq_mask (shm (mem u)) := tail AND sq_mask (shm (mem u)))\<rparr>)) E
       (\<lambda>_. ?P (Suc i) (tail + 1)) u"
      by (simp add: upd_shm_def push)
  qed
  have cap: "sq_capacity ?m0 < 2 ^ 32" 
    using unat_lt32 [of "sq_entries ?m0"] by (simp add: sq_capacity_def)
  have "unat (of_nat QD :: u32) = QD" by (simp add: QD_def)
  then have "unat (sq_tail ?m0 - sq_head ?m0 + of_nat QD) = sq_count ?m0 + QD"
    unfolding sq_count_def by (subst unat_add_lem [THEN iffD1]) (use cap room in \<open>simp_all add: sq_count_def\<close>)
  then have entries: "\<not> sq_entries ?m0 < sq_tail ?m0 - sq_head ?m0 + of_nat QD"
    using room by (simp add: word_less_nat_alt sq_capacity_def)
  have fill: "post (loop (put_sqe os f) [0..<QD] (sq_tail ?m0)) E (?P QD) u" if u: "unmoved s u" for u
    by (rule post_loop) (use u step in \<open>auto simp: unmoved_def same_offer_def written_def same_sq_def\<close>)
  obtain q where q: "sq.enq_list (map f [0..<QD]) ?m0 = Some q" "sq_pending q = sq_pending ?m0 @ map f [0..<QD]" "sq_wf q"
    using sq.enq_list_room [OF wf, of "map f [0..<QD]"] room by auto
  have published: "sq_pending (m\<lparr>sq_tail := tail\<rparr>) = sq_pending ?m0 @ map f [0..<QD] \<and> sq_wf (m\<lparr>sq_tail := tail\<rparr>)"
    if "written ?m0 (map f [0..<QD]) tail m" for m tail
  proof -
    have "same_sq q (m\<lparr>sq_tail := tail\<rparr>)" using that q(1) by (auto simp: written_def same_sq_def)
    from same_sq_facts [OF this] q show ?thesis by simp
  qed
  have look: "post (look os g) E R u" if "unmoved s u" "\<And>v. unmoved s v \<Longrightarrow> R (g (mem v)) v" for g R u
    by (rule look_unmoved [OF os that(1)]) (rule that(2))
  show ?thesis
    unfolding fill_queue_def load_acquire_u32_def post_seq [where m = "look _ _"]
  proof (rule look [OF unmoved.refl], rule look, assumption, rule look, assumption)
    fix u v w :: "'a proc"
    assume "unmoved s u" "unmoved s v" and w: "unmoved s w"
    then have same: "sq_tail (shm (mem v)) = sq_tail ?m0" "sq_head (shm (mem u)) = sq_head ?m0" "sq_entries (shm (mem w)) = sq_entries ?m0"
      by (simp_all add: unmoved_def same_offer_def same_sq_def)
    show "post (if sq_tail (shm (mem v)) - sq_head (shm (mem u)) + of_nat QD > sq_entries (shm (mem w)) then give None
       else seq (now_if timed os) (\<lambda>started. seq (loop (put_sqe os f) [0..<QD] (sq_tail (shm (mem v)))) (\<lambda>tail.
         seq (store_release_u32 sq_tail_update tail) (\<lambda>_.
         seq (upd_res (\<lambda>r. r\<lparr>res_sqes := res_sqes r + of_nat QD\<rparr>)) (\<lambda>_. give (Some started)))))) E
       (\<lambda>r t. r \<noteq> None \<and> work t = work s \<and>
    res t = (res s)\<lparr>res_sqes := res_sqes (res s) + of_nat QD\<rparr> \<and> bytes (mem t) = bytes (mem s) \<and> iovecs (mem t) = iovecs (mem s) \<and>
          msghdrs (mem t) = msghdrs (mem s) \<and> seen t = seen s \<and> sq_pending (shm (mem t)) = sq_pending ?m0 @ map f [0..<QD] \<and> sq_wf (shm (mem t))) w"
      unfolding same
      apply (rule post_ifI)
       apply (simp add: entries)
      apply (simp only: post_seq)
      apply (rule now_unmoved [OF os w])
       prefer 2 apply (erule E)
      apply (simp (no_asm) only: post_seq)
      apply (rule post_mono [OF fill])
      apply assumption
       apply assumption
      using published apply (simp add: store_release_u32_def upd_shm_def push)
      done
  qed
qed

text \<open>Without room for the batch nothing is written.\<close>

lemma fill_refused:
  assumes os: "hands_off os" and wf: "sq_wf (shm (mem s))" and full: "\<not> sq_count (shm (mem s)) + QD \<le> sq_capacity (shm (mem s))"
  shows "post (fill_queue os f timed) E (\<lambda>r t. r = None \<and> unmoved s t) s"
proof -
  let ?m0 = "shm (mem s)"
  obtain k where k: "k < 32" "sq_entries ?m0 = 2 ^ k" using wf by (auto simp: sq_wf_def)
  have "sq_capacity ?m0 = 2 ^ k"
    unfolding sq_capacity_def k(2)
    using unat_of_nat [where 'a = 32, of "2 ^ k"] power_strict_increasing [OF k(1), of "2 :: nat"] by simp
  moreover have "(2 :: nat) ^ k \<le> 2 ^ 31" using k(1) by (intro power_increasing) simp_all
  ultimately have small: "sq_count ?m0 + QD < 2 ^ 32" using wf by (simp add: sq_wf_def QD_def)
  have "unat (of_nat QD :: u32) = QD" by (simp add: QD_def)
  then have "unat (sq_tail ?m0 - sq_head ?m0 + of_nat QD) = sq_count ?m0 + QD"
    unfolding sq_count_def by (subst unat_add_lem [THEN iffD1]) (use small in \<open>simp_all add: sq_count_def\<close>)
  then have entries: "sq_entries ?m0 < sq_tail ?m0 - sq_head ?m0 + of_nat QD"
    using full by (simp add: word_less_nat_alt sq_capacity_def)
  have look: "post (look os g) E R u" if "unmoved s u" "\<And>v. unmoved s v \<Longrightarrow> R (g (mem v)) v" for g R u
    by (rule look_unmoved [OF os that(1)]) (rule that(2))
  show ?thesis
    unfolding fill_queue_def load_acquire_u32_def post_seq [where m = "look _ _"]
    by (rule look [OF unmoved.refl], rule look, assumption, rule look, assumption, rule post_ifI)
      (use entries in \<open>simp_all add: unmoved_def same_offer_def same_sq_def push\<close>)
qed

section \<open>The messages\<close>

text \<open>
  The places in memory an entry leads to, in order: a buffer, or the pieces that a message header gathers. They are where
  the kernel finds what it sends, or where it stores what it receives.
\<close>

definition piece :: "u64 \<Rightarrow> u64 \<Rightarrow> u64 list" where
  "piece a n = map (\<lambda>x. a + of_nat x) [0..<unat n]"

definition places :: "memory \<Rightarrow> sqe \<Rightarrow> u64 list" where
  "places m q =
     (if sqe_opcode q = IORING_OP_SENDMSG \<or> sqe_opcode q = IORING_OP_RECVMSG
      then (let h = msghdrs m (sqe_addr q)
            in concat (map (\<lambda>j. let v = iovecs m (msg_iov h + of_nat (j * 16)) in piece (iov_base v) (iov_len v))
                 [0..<unat (msg_iovlen h)]))
      else piece (sqe_addr q) (ucast (sqe_len q)))"

definition payload :: "memory \<Rightarrow> sqe \<Rightarrow> u8 list" where
  "payload m q = map (bytes m) (places m q)"

text \<open>The buffer of a slot.\<close>

definition buffer :: "u64 \<Rightarrow> bool \<Rightarrow> nat \<Rightarrow> u64" where
  "buffer w receive i = (if receive then recv_buf w i else send_buf w i)"

definition prepared :: "u64 \<Rightarrow> bool \<Rightarrow> nat \<Rightarrow> memory \<Rightarrow> bool" where
  "prepared w receive n m \<longleftrightarrow> (\<forall>i < n. msghdrs m (msg w i) = \<lparr>msg_iov = iov w i 0, msg_iovlen = of_nat IOV_COUNT\<rparr> \<and>
     (\<forall>j < IOV_COUNT. iovecs m (iov w i j) = \<lparr>iov_base = buffer w receive i + of_nat (j * IOV_BYTES), iov_len = of_nat IOV_BYTES\<rparr>))"

lemma of_nat_small_inject: "a < 2 ^ 64 \<Longrightarrow> b < 2 ^ 64 \<Longrightarrow> (of_nat a :: u64) = of_nat b \<longleftrightarrow> a = b"
proof -
  assume small: "a < 2 ^ 64" "b < 2 ^ 64"
  have "unat (of_nat n :: u64) = n" if "n < 2 ^ 64" for n using that by (simp add: unat_of_nat)
  with small show ?thesis by metis
qed

lemma iov_inject:
  assumes "i < QD" "i' < QD" "j < IOV_COUNT" "j' < IOV_COUNT"
  shows "iov w i j = iov w i' j' \<longleftrightarrow> i = i' \<and> j = j'"
proof -
  have "iov w i j = iov w i' j' \<longleftrightarrow> (of_nat ((i * IOV_COUNT + j) * 16) :: u64) = of_nat ((i' * IOV_COUNT + j') * 16)"
    by (simp only: iov_def add_left_cancel)
  also have "\<dots> \<longleftrightarrow> (i * IOV_COUNT + j) * 16 = (i' * IOV_COUNT + j') * 16"
    by (rule of_nat_small_inject) (use assms in \<open>simp_all add: QD_def IOV_COUNT_def\<close>)
  also have "\<dots> \<longleftrightarrow> i = i' \<and> j = j'"
  proof
    assume eq: "(i * IOV_COUNT + j) * 16 = (i' * IOV_COUNT + j') * 16"
    have "(i * IOV_COUNT + j) div IOV_COUNT = i" "(i * IOV_COUNT + j) mod IOV_COUNT = j"
      "(i' * IOV_COUNT + j') div IOV_COUNT = i'" "(i' * IOV_COUNT + j') mod IOV_COUNT = j'"
      using assms(3,4) by (simp_all add: IOV_COUNT_def)
    with eq show "i = i' \<and> j = j'" by (metis mult_right_cancel zero_neq_numeral)
  qed simp
  finally show ?thesis .
qed

lemma msg_inject: "i < QD \<Longrightarrow> j < QD \<Longrightarrow> msg w i = msg w j \<longleftrightarrow> i = j"
proof -
  assume "i < QD" "j < QD"
  then have "(of_nat (i * 56) :: u64) = of_nat (j * 56) \<longleftrightarrow> i * 56 = j * 56"
    by (intro of_nat_small_inject) (simp_all add: QD_def)
  then show ?thesis by (simp only: msg_def add_left_cancel) simp
qed

lemma prepare_ok:
  fixes s :: "'k proc"
  shows "post (prepare_iov os receive) E (\<lambda>_ t. prepared (net_work os) receive QD (mem t) \<and> shm (mem t) = shm (mem s) \<and> work t = work s \<and> seen t = seen s) s"
proof -
  let ?w = "net_work os"
  let ?seg = "\<lambda>i j. \<lparr>iov_base = buffer ?w receive i + of_nat (j * IOV_BYTES), iov_len = of_nat IOV_BYTES\<rparr>"
  let ?P = "\<lambda>i t. prepared ?w receive i (mem t) \<and> shm (mem t) = shm (mem s) \<and> work t = work s \<and> seen t = seen s"
  have slot: "post (prepare_slot ?w receive i) E (\<lambda>_. ?P (Suc i)) t" if i: "i < QD" and t: "?P i t" for i and t :: "'k proc"
  proof -
    let ?h = "(msghdrs (mem t))(msg ?w i := \<lparr>msg_iov = 0, msg_iovlen = 0\<rparr>)"
    let ?R = "\<lambda>j u. shm (mem u) = shm (mem s) \<and> work u = work s \<and> seen u = seen s \<and> msghdrs (mem u) = ?h \<and>
       (\<forall>i' < i. \<forall>j < IOV_COUNT. iovecs (mem u) (iov ?w i' j) = ?seg i' j) \<and> (\<forall>j' < j. iovecs (mem u) (iov ?w i j') = ?seg i j')"
    have seg: "post (prepare_seg ?w receive i j) E (\<lambda>_. ?R (Suc j)) u" if j: "j < IOV_COUNT" and u: "?R j u" for j and u :: "'k proc"
    proof -
      have "iov ?w i' j' \<noteq> iov ?w i j" if "i' < i" "j' < IOV_COUNT" for i' j'
        using that i j iov_inject [of i' i j' j ?w] by simp
      moreover have "iov ?w i j' \<noteq> iov ?w i j" if "j' < j" for j'
        using that i j iov_inject [of i i j' j ?w] by simp
      ultimately show ?thesis
        using u by (auto simp: prepare_seg_def buffer_def push less_Suc_eq simp del: of_nat_mult)
    qed
    have start: "?R 0 (t\<lparr>mem := (mem t)\<lparr>msghdrs := ?h\<rparr>\<rparr>)"
      using t by (simp add: prepared_def)
    have loop: "post (each (prepare_seg ?w receive i) [0..<IOV_COUNT]) E (\<lambda>_. ?R IOV_COUNT) (t\<lparr>mem := (mem t)\<lparr>msghdrs := ?h\<rparr>\<rparr>)"
      by (rule post_each [where P = ?R, OF seg start]) simp_all
    show ?thesis
      unfolding prepare_slot_def push
    proof (rule post_mono [OF loop])
      fix x and u :: "'k proc" assume u: "?R IOV_COUNT u"
      have other: "msg ?w i' \<noteq> msg ?w i" if "i' < i" for i'
        using that i msg_inject [of i' i ?w] by simp
      let ?u = "u\<lparr>mem := (mem u)\<lparr>msghdrs := (msghdrs (mem u))(msg ?w i := \<lparr>msg_iov = iov ?w i 0, msg_iovlen = of_nat IOV_COUNT\<rparr>)\<rparr>\<rparr>"
      have "msghdrs (mem ?u) (msg ?w i') = \<lparr>msg_iov = iov ?w i' 0, msg_iovlen = of_nat IOV_COUNT\<rparr>" if "i' < Suc i" for i'
        using that t u other [of i'] by (cases "i' = i") (simp_all add: prepared_def)
      moreover have "iovecs (mem ?u) (iov ?w i' j) = ?seg i' j" if "i' < Suc i" "j < IOV_COUNT" for i' j
        using that u by (cases "i' = i") simp_all
      ultimately have "prepared ?w receive (Suc i) (mem ?u)" unfolding prepared_def by blast
      then show "?P (Suc i) ?u" using u by simp
    qed
  qed
  show ?thesis
    unfolding prepare_iov_def by (rule post_each [where P = ?P]) (use slot in \<open>auto simp: prepared_def\<close>)
qed

text \<open>
  The buffers: those for sending hold their patterns, those for receiving are all zero. The two arrays lie one behind the
  other, so that the receive buffers are the slots \<open>QD\<close> and above of one array.
\<close>

definition buffers_filled :: "u64 \<Rightarrow> u64 \<Rightarrow> nat \<Rightarrow> memory \<Rightarrow> bool" where
  "buffers_filled w base n m \<longleftrightarrow> (\<forall>i < n. peek m (send_buf w i) PAYLOAD_BYTES = pattern (base + of_nat i)) \<and>
     (\<forall>i < QD. peek m (recv_buf w i) PAYLOAD_BYTES = replicate PAYLOAD_BYTES 0)"

lemma recv_buf_slot: "recv_buf w i = send_buf w (i + QD)"
  by (simp add: recv_buf_def send_buf_def QD_def PAYLOAD_BYTES_def algebra_simps)

lemma peek_other_slot:
  assumes "i \<noteq> j" "i < 2 * QD" "j < 2 * QD" "length bs = PAYLOAD_BYTES"
  shows "peek (poke (send_buf w i) bs m) (send_buf w j) PAYLOAD_BYTES = peek m (send_buf w j) PAYLOAD_BYTES"
proof (rule peek_poke_other)
  fix x assume "x < PAYLOAD_BYTES"
  with assms show "length bs \<le> unat (send_buf w j + of_nat x - send_buf w i)"
    using far_apart [of j i x "w + 176"] by (simp add: send_buf_def QD_def)
qed

lemma buffers_filled_poke:
  assumes "buffers_filled w base n m" "i < QD" "n \<le> QD"
  shows "buffers_filled w base n (poke (send_buf w i) (pattern (base + of_nat i)) m)"
    and "i = n \<Longrightarrow> buffers_filled w base (Suc n) (poke (send_buf w i) (pattern (base + of_nat i)) m)"
proof -
  let ?m = "poke (send_buf w i) (pattern (base + of_nat i)) m"
  have other: "peek ?m (send_buf w j) PAYLOAD_BYTES = peek m (send_buf w j) PAYLOAD_BYTES" if "j \<noteq> i" "j < 2 * QD" for j
    using that assms(2) by (intro peek_other_slot) simp_all
  have own: "peek ?m (send_buf w i) PAYLOAD_BYTES = pattern (base + of_nat i)"
    by (rule peek_poke) (simp_all add: PAYLOAD_BYTES_def)
  have filled: "peek ?m (send_buf w j) PAYLOAD_BYTES = pattern (base + of_nat j)" if "j < n \<or> j = i" for j
    using that assms own other [of j] by (cases "j = i") (auto simp: buffers_filled_def)
  moreover have "peek ?m (recv_buf w j) PAYLOAD_BYTES = replicate PAYLOAD_BYTES 0" if "j < QD" for j
    using that assms(1,2) other [of "j + QD"] by (simp add: buffers_filled_def recv_buf_slot)
  ultimately show "buffers_filled w base n ?m" "i = n \<Longrightarrow> buffers_filled w base (Suc n) ?m"
    by (auto simp: buffers_filled_def less_Suc_eq)
qed

lemma buffers_cleared: "buffers_filled w base 0 (poke (recv_buf w 0) (replicate (QD * PAYLOAD_BYTES) 0) m)"
proof -
  have "bytes (poke (recv_buf w 0) (replicate (QD * PAYLOAD_BYTES) 0) m) (recv_buf w i + of_nat x) = 0"
    if "i < QD" "x < PAYLOAD_BYTES" for i x
  proof -
    have "recv_buf w i + of_nat x - recv_buf w 0 = of_nat (i * PAYLOAD_BYTES + x)"
      by (simp add: recv_buf_def)
    moreover have "i * PAYLOAD_BYTES + x < QD * PAYLOAD_BYTES" using that by (simp add: QD_def PAYLOAD_BYTES_def)
    moreover from this have "unat (of_nat (i * PAYLOAD_BYTES + x) :: u64) = i * PAYLOAD_BYTES + x"
      unfolding unat_of_nat by (intro mod_less) (simp add: QD_def PAYLOAD_BYTES_def)
    ultimately have "unat (recv_buf w i + of_nat x - recv_buf w 0) < QD * PAYLOAD_BYTES" by (simp only:)
    then show ?thesis by (simp add: poke_def)
  qed
  then show ?thesis by (auto simp: buffers_filled_def peek_def intro!: nth_equalityI)
qed

text \<open>
  The state while a batch is being prepared: \<open>n\<close> send buffers are filled, the program has recorded the calls \<open>cs\<close>, and
  the queue is as it was in \<open>s\<close>.
\<close>

definition ready :: "'k net_os \<Rightarrow> bool \<Rightarrow> u64 \<Rightarrow> nat \<Rightarrow> 'k proc \<Rightarrow> net_call list \<Rightarrow> 'k proc \<Rightarrow> bool" where
  "ready os receive base n s cs t \<longleftrightarrow> buffers_filled (net_work os) base n (mem t) \<and> prepared (net_work os) receive QD (mem t) \<and>
     same_sq (shm (mem s)) (shm (mem t)) \<and> work t = work s \<and> seen t = seen s @ cs"

lemma ready_poke:
  assumes "ready os receive base n s cs t" "i < QD" "n \<le> QD"
  shows "ready os receive base n s cs (t\<lparr>mem := poke (send_buf (net_work os) i) (pattern (base + of_nat i)) (mem t)\<rparr>)"
    and "i = n \<Longrightarrow> ready os receive base (Suc n) s cs (t\<lparr>mem := poke (send_buf (net_work os) i) (pattern (base + of_nat i)) (mem t)\<rparr>)"
  using assms buffers_filled_poke [of "net_work os" base n "mem t" i] by (auto simp: ready_def prepared_def poke_def)

lemma ready_offer:
  assumes "ready os receive base n s cs t" "same_offer (mem t) m"
  shows "ready os receive base n s cs (t\<lparr>mem := m, kst := k\<rparr>)"
  using assms by (auto simp: ready_def same_offer_def prepared_def buffers_filled_def peek_def intro: same_sq_trans)

lemma buffers_fill:
  fixes t :: "'k proc"
  assumes "ready os receive base 0 s cs t"
  shows "post (each (\<lambda>i. pattern_fill (send_buf (net_work os) i) (base + of_nat i)) [0..<QD]) E
     (\<lambda>_. ready os receive base QD s cs) t"
  by (rule post_each [where P = "\<lambda>i. ready os receive base i s cs"])
    (use assms in \<open>simp_all add: pattern_fill_def push ready_poke(2)\<close>)

text \<open>The peer has either been handed all 32 messages, or a send has failed.\<close>

lemma peer_filled:
  assumes os: "hands_off os" and t: "ready os receive base QD s [] t"
  shows "post (peer_fill os base) E (\<lambda>rc u. if rc = 0 then ready os receive base QD s (map (sent_by_peer base) [0..<QD]) u
     else \<exists>i < QD. \<exists>n. n \<noteq> int PAYLOAD_BYTES \<and>
       ready os receive base QD s (map (sent_by_peer base) [0..<i] @ [SENT (pattern (base + of_nat i)) n]) u) t"
    (is "post _ _ (\<lambda>rc u. if rc = 0 then _ u else ?F u) _")
proof -
  let ?P = "\<lambda>i. ready os receive base QD s (map (sent_by_peer base) [0..<i])"
  have "post (peer_send os base i) E (\<lambda>rc u. if rc = 0 then ?P (Suc i) u else ?F u) u" if i: "i < QD" and u: "?P i u" for i u
  proof -
    let ?w = "net_work os"
    let ?u = "u\<lparr>mem := poke (send_buf ?w i) (pattern (base + of_nat i)) (mem u)\<rparr>"
    let ?r = "net_send os (snd (work_sockets (work u))) (send_buf ?w i) PAYLOAD_BYTES (MSG_DONTWAIT OR MSG_NOSIGNAL) (mem ?u) (kst u)"
    have "peek (mem ?u) (send_buf ?w i) PAYLOAD_BYTES = pattern (base + of_nat i)"
      using peek_poke [of "pattern (base + of_nat i)" PAYLOAD_BYTES] by (simp add: PAYLOAD_BYTES_def)
    moreover have "?P i (?u\<lparr>mem := fst (snd ?r), kst := snd (snd ?r)\<rparr>)"
      using os by (intro ready_offer ready_poke(1) [OF u i]) (simp_all add: hands_off_def)
    ultimately show ?thesis
      using i by (auto simp: peer_send_def pattern_fill_def peer_def post_simps split_beta Let_def ready_def sent_by_peer_def)
  qed
  then have "post (peer_fill os base) E (\<lambda>rc u. if rc = 0 then ?P QD u else ?F u) t"
    unfolding peer_fill_def by (intro post_until) (use t in auto)
  then show ?thesis .
qed

text \<open>Where the entries of a batch lead.\<close>

lemma unat_piece: "unat (of_nat IOV_BYTES :: u64) = IOV_BYTES" "unat (of_nat IOV_COUNT :: u64) = IOV_COUNT"
  "IOV_COUNT * IOV_BYTES = PAYLOAD_BYTES"
  by (simp_all add: IOV_COUNT_def IOV_BYTES_def PAYLOAD_BYTES_def)

lemma piece_segments: "concat (map (\<lambda>j. map (\<lambda>x. a + of_nat (j * n) + of_nat x) [0..<n]) [0..<k]) = map (\<lambda>x. a + of_nat x) [0..<k * n]"
proof (induction k)
  case (Suc k)
  have "[0..<k * n + n] = [0..<k * n] @ map (\<lambda>x. x + k * n) [0..<n]"
    using upt_add_eq_append [of 0 "k * n" n] map_add_upt [of "k * n" n] by (simp add: add.commute)
  with Suc show ?case by (simp add: ac_simps)
qed simp

text \<open>The profiles for which \<open>execute_once\<close> calls \<open>run_ordinary\<close>.\<close>

definition ordinary :: "profile_id \<Rightarrow> bool" where
  "ordinary prof \<longleftrightarrow> prof \<in> {PROFILE_S0, PROFILE_S1, PROFILE_R0, PROFILE_R1}"

lemma places_ok:
  assumes prof: "ordinary prof" and i: "i < QD" and m: "prepared w (\<not> send_path prof) QD m"
  shows "places m (ordinary_sqe w fd prof base i) = map (\<lambda>x. buffer w (\<not> send_path prof) i + of_nat x) [0..<PAYLOAD_BYTES]"
proof (cases "msg_path prof")
  case True
  let ?b = "buffer w (\<not> send_path prof) i"
  have q: "sqe_opcode (ordinary_sqe w fd prof base i) = IORING_OP_SENDMSG \<or> sqe_opcode (ordinary_sqe w fd prof base i) = IORING_OP_RECVMSG"
    "sqe_addr (ordinary_sqe w fd prof base i) = msg w i"
    using True by (auto simp: ordinary_sqe_def msg_path_def)
  have h: "msghdrs m (msg w i) = \<lparr>msg_iov = iov w i 0, msg_iovlen = of_nat IOV_COUNT\<rparr>"
    using m i by (simp add: prepared_def)
  have at: "iov w i 0 + of_nat (j * 16) = iov w i j" for j
    by (simp add: iov_def algebra_simps)
  have "places m (ordinary_sqe w fd prof base i) =
      concat (map (\<lambda>j. map (\<lambda>x. ?b + of_nat (j * IOV_BYTES) + of_nat x) [0..<IOV_BYTES]) [0..<IOV_COUNT])"
    unfolding places_def q(2) h if_P [OF q(1)]
    using m i by (auto simp: prepared_def at unat_piece piece_def Let_def simp del: of_nat_mult intro!: arg_cong [where f = concat] map_cong)
  then show ?thesis unfolding piece_segments unat_piece(3) .
next
  case False
  have "unat (ucast (of_nat PAYLOAD_BYTES :: u32) :: u64) = PAYLOAD_BYTES" by (simp add: PAYLOAD_BYTES_def)
  with False prof show ?thesis
    by (auto simp: ordinary_def places_def piece_def buffer_def ordinary_sqe_def msg_path_def send_path_def IORING_OP_SEND_def IORING_OP_RECV_def
        IORING_OP_SENDMSG_def IORING_OP_RECVMSG_def)
qed

lemma payload_ok:
  assumes "ordinary prof" "i < QD" "prepared w (\<not> send_path prof) QD m" "buffers_filled w base QD m"
  shows "payload m (ordinary_sqe w fd prof base i) =
    (if send_path prof then pattern (base + of_nat i) else replicate PAYLOAD_BYTES 0)"
proof -
  have "payload m (ordinary_sqe w fd prof base i) = peek m (buffer w (\<not> send_path prof) i) PAYLOAD_BYTES"
    by (simp add: payload_def places_ok [OF assms(1,2,3)] peek_def)
  with assms(2,4) show ?thesis by (simp add: buffers_filled_def buffer_def)
qed

section \<open>A batch\<close>

text \<open>
  What has become of a batch: it is in the queue, and its entries lead to their buffers; or it is not, because
  it does not fit or, in a round that receives, because a send of the peer has failed.
\<close>

definition batch_staged :: "'k net_os \<Rightarrow> profile_id \<Rightarrow> nat \<Rightarrow> 'k proc \<Rightarrow> u64 option \<Rightarrow> 'k proc \<Rightarrow> bool" where
  "batch_staged os prof k s r t \<longleftrightarrow>
     (let w = net_work os; base = base_of k;
          qs = map (ordinary_sqe w (fst (work_sockets (work s))) prof base) [0..<QD];
          fits = (sq_count (shm (mem s)) + QD \<le> sq_capacity (shm (mem s)))
      in sq_wf (shm (mem t)) \<and> work t = work s \<and>
         (case r of
            Some _ \<Rightarrow> fits \<and> sq_pending (shm (mem t)) = sq_pending (shm (mem s)) @ qs \<and>
              map (places (mem t)) qs = map (\<lambda>i. map (\<lambda>x. buffer w (\<not> send_path prof) i + of_nat x) [0..<PAYLOAD_BYTES]) [0..<QD] \<and>
              map (payload (mem t)) qs =
                map (\<lambda>i. if send_path prof then pattern (base + of_nat i) else replicate PAYLOAD_BYTES 0) [0..<QD] \<and>
              seen t = seen s @ (if send_path prof then [] else map (sent_by_peer base) [0..<QD])
          | None \<Rightarrow> sq_pending (shm (mem t)) = sq_pending (shm (mem s)) \<and>
              (\<not> fits \<or> \<not> send_path prof \<and> (\<exists>i < QD. \<exists>n. n \<noteq> int PAYLOAD_BYTES \<and>
                 seen t = seen s @ map (sent_by_peer base) [0..<i] @ [SENT (pattern (base + of_nat i)) n]))))"

lemma fill_staged:
  assumes os: "hands_off os" and prof: "ordinary prof" and wf: "sq_wf (shm (mem s))"
    and t: "ready os (\<not> send_path prof) (base_of k) QD s (if send_path prof then [] else map (sent_by_peer (base_of k)) [0..<QD]) t"
  shows "post (fill_queue os (ordinary_sqe (net_work os) (fst (work_sockets (work s))) prof (base_of k)) timed) clock_exit
     (batch_staged os prof k s) t"
proof (cases "sq_count (shm (mem s)) + QD \<le> sq_capacity (shm (mem s))")
  case fits: True
  have sq: "same_sq (shm (mem s)) (shm (mem t))" using t by (simp add: ready_def)
  show ?thesis
  proof (rule post_mono [OF fill_offered [OF os]])
    let ?f = "ordinary_sqe (net_work os) (fst (work_sockets (work s))) prof (base_of k)"
    fix r :: "u64 option" and v :: "'a proc"
    assume v: "r \<noteq> None \<and> work v = work t \<and> res v = (res t)\<lparr>res_sqes := res_sqes (res t) + of_nat QD\<rparr> \<and> bytes (mem v) = bytes (mem t) \<and>
      iovecs (mem v) = iovecs (mem t) \<and> msghdrs (mem v) = msghdrs (mem t) \<and> seen v = seen t \<and>
      sq_pending (shm (mem v)) = sq_pending (shm (mem t)) @ map ?f [0..<QD] \<and> sq_wf (shm (mem v))"
    then have m: "buffers_filled (net_work os) (base_of k) QD (mem v)" "prepared (net_work os) (\<not> send_path prof) QD (mem v)"
      using t by (simp_all add: ready_def buffers_filled_def prepared_def peek_def)
    show "batch_staged os prof k s r v"
      using v t fits same_sq_facts(1) [OF sq] places_ok [OF prof _ m(2)] payload_ok [OF prof _ m(2,1)]
      by (auto simp: batch_staged_def ready_def Let_def split: option.split)
  qed (use wf fits same_sq_facts [OF sq] in \<open>simp_all add: clock_exit_def\<close>)
next
  case full: False
  have sq: "same_sq (shm (mem s)) (shm (mem t))" using t by (simp add: ready_def)
  show ?thesis
  proof (rule post_mono [OF fill_refused [OF os]])
    fix r :: "u64 option" and v :: "'a proc"
    assume v: "r = None \<and> unmoved t v"
    then have "same_sq (shm (mem s)) (shm (mem v))"
      using sq by (auto simp: unmoved_def same_offer_def intro: same_sq_trans)
    from same_sq_facts [OF this] show "batch_staged os prof k s r v"
      using v t full wf by (auto simp: batch_staged_def ready_def unmoved_def Let_def)
  qed (use wf full same_sq_facts [OF sq] in \<open>simp_all\<close>)
qed

lemma batch_offered:
  assumes os: "hands_off os" and prof: "ordinary prof" and wf: "sq_wf (shm (mem s))"
  shows "post (seq (prepare_iov os (\<not> send_path prof)) (\<lambda>_. ordinary_stage os prof timed k)) clock_exit (batch_staged os prof k s) s"
proof (rule post_seqI [OF prepare_ok [where s = s]])
  let ?w = "net_work os" and ?base = "base_of k" and ?fd = "fst (work_sockets (work s))"
  let ?ready = "ready os (\<not> send_path prof) ?base"
  fix x and t :: "'a proc"
  assume t: "prepared ?w (\<not> send_path prof) QD (mem t) \<and> shm (mem t) = shm (mem s) \<and> work t = work s \<and> seen t = seen s"
  have fill: "post (seq (gets (\<lambda>s. fst (work_sockets (work s)))) (\<lambda>fd. fill_queue os (ordinary_sqe ?w fd prof ?base) timed)) clock_exit
      (batch_staged os prof k s) u"
    if u: "?ready QD s (if send_path prof then [] else map (sent_by_peer ?base) [0..<QD]) u" for u :: "'a proc"
    using fill_staged [OF os prof wf u] u by (simp add: push ready_def)
  have rest: "post (seq (if \<not> send_path prof then peer_fill os ?base else give 0) (\<lambda>rc. if rc \<noteq> 0 then give None
      else seq (gets (\<lambda>s. fst (work_sockets (work s)))) (\<lambda>fd. fill_queue os (ordinary_sqe ?w fd prof ?base) timed))) clock_exit
      (batch_staged os prof k s) u"
    if u: "?ready QD s [] u" for u :: "'a proc"
  proof (cases "send_path prof")
    case True
    with fill [of u] u show ?thesis by (simp add: push)
  next
    case False
    have failed: "batch_staged os prof k s None v"
      if "?ready QD s (map (sent_by_peer ?base) [0..<i] @ [SENT (pattern (?base + of_nat i)) n]) v" "i < QD" "n \<noteq> int PAYLOAD_BYTES" for i n v
      using that wf False same_sq_facts [of "shm (mem s)" "shm (mem v)"] by (auto simp: batch_staged_def ready_def Let_def)
    show ?thesis
      unfolding if_P [OF False]
      by (rule post_seqI [OF peer_filled [OF os u]])
        (use fill False failed in \<open>auto simp: push split: if_splits\<close>)
  qed
  have "?ready 0 s [] (t\<lparr>mem := poke (recv_buf ?w 0) (replicate (QD * PAYLOAD_BYTES) 0) (mem t)\<rparr>)"
    using t buffers_cleared [of ?w ?base "mem t"] by (simp add: ready_def prepared_def poke_def)
  then show "post (ordinary_stage os prof timed k) clock_exit (batch_staged os prof k s) t"
    unfolding ordinary_stage_def clear_recv_buf_def Let_def post_seq [where m = "upd_mem _"] post_upd
    by (intro post_seqI [OF buffers_fill rest])
qed

end
