(* ===== verification/Net_System.thy ===== *)
theory Net_System
  imports Net_Offered
begin

text \<open>
  A small kernel on which io_uring_net_round.c can run: a ring that answers NOPs in the order in which they are
  submitted, sockets that never fail to open, and a clock. Every round of NOPs passes on it.
\<close>

section \<open>The kernel\<close>

record small_kernel =
  sk_fd :: int
  sk_addr :: u64

definition answer_nop :: "sqe \<Rightarrow> cqe" where
  "answer_nop q = \<lparr>cqe_user_data = sqe_user_data q, cqe_res = 0, cqe_flags = 0\<rparr>"

fun complete_all :: "sqe list \<Rightarrow> ring_mem \<Rightarrow> ring_mem" where
  "complete_all [] m = m"
| "complete_all (q # qs) m = complete_all qs (m\<lparr>cqes := (cqes m)(cq_tail m AND cq_mask m := answer_nop q), cq_tail := cq_tail m + 1\<rparr>)"

definition serve :: "ring_mem \<Rightarrow> ring_mem" where
  "serve m = (complete_all (sq_pending m) m)\<lparr>sq_head := sq_tail m\<rparr>"

definition small_ring :: ring_mem where
  "small_ring = \<lparr>sq_head = 0, sq_tail = 0, sq_mask = 127, sq_entries = 128, sq_dropped = 0, sq_array = (\<lambda>_. 0), sqes = (\<lambda>_. zero_sqe),
     cq_head = 0, cq_tail = 0, cq_mask = 255, cq_entries = 256, cq_overflow = 0, cqes = (\<lambda>_. zero_cqe)\<rparr>"

definition small_os :: "small_kernel net_os" where
  "small_os = \<lparr>net_work = 0x10000,
     net_async = (\<lambda>m k. ((), m, k)),
     net_setup = (\<lambda>n p m k. ((sk_fd k, p\<lparr>p_sq_entries := 128, p_cq_entries := 256, p_features := IORING_FEAT_SINGLE_MMAP,
       p_sq_off_array := 4224, p_cq_off_cqes := 128\<rparr>), m\<lparr>shm := small_ring\<rparr>, k\<lparr>sk_fd := sk_fd k + 1\<rparr>)),
     net_enter = (\<lambda>fd n want flgs m k. ((sint n, 0), m\<lparr>shm := serve (shm m)\<rparr>, k)),
     net_register = (\<lambda>fd r m k. ((-1, 0), m, k)),
     net_mmap = (\<lambda>len fd off m k. (if sk_addr k = 0 then None else Some (sk_addr k), m, k\<lparr>sk_addr := sk_addr k + 0x10000\<rparr>)),
     net_munmap = (\<lambda>a len m k. ((), m, k)),
     net_close = (\<lambda>fd m k. ((), m, k)),
     net_socketpair = (\<lambda>m k. (if sk_fd k < 0 then None else Some (sk_fd k, sk_fd k + 1), m, k\<lparr>sk_fd := sk_fd k + 2\<rparr>)),
     net_getfl = (\<lambda>fd m k. (0, m, k)),
     net_setfl = (\<lambda>fd f m k. (0, m, k)),
     net_setsockopt = (\<lambda>fd opt v m k. ((), m, k)),
     net_send = (\<lambda>fd a n f m k. (-1, m, k)),
     net_recv = (\<lambda>fd n f m k. ((-1, EAGAIN, []), m, k)),
     net_sendmmsg = (\<lambda>fd v f m k. ((-1, EAGAIN, \<lambda>_. 0), m, k)),
     net_memalign = (\<lambda>a n m k. (None, m, k)),
     net_free = (\<lambda>a m k. ((), m, k)),
     net_clock = (\<lambda>m k. (Some (1, 0), m, k)),
     net_uname = (\<lambda>m k. (Some ''7.0'', m, k)),
     net_setaffinity = (\<lambda>c m k. (True, m, k)),
     net_getcpu = (\<lambda>m k. (2, m, k)),
     net_read_file = (\<lambda>path n m k. (Some ''1\<newline>'', m, k)),
     net_fopen = (\<lambda>path m k. (True, m, k)),
     net_write = (\<lambda>line m k. (True, m, k)),
     net_fclose = (\<lambda>m k. (True, m, k)),
     net_ratio6 = (\<lambda>a b. ''0.000000''),
     net_compiler = ''cc''\<rparr>"

definition small_memory :: memory where
  "small_memory = \<lparr>shm = small_ring, bytes = (\<lambda>_. 0), iovecs = (\<lambda>_. \<lparr>iov_base = 0, iov_len = 0\<rparr>),
     msghdrs = (\<lambda>_. \<lparr>msg_iov = 0, msg_iovlen = 0\<rparr>), ring_bufs = (\<lambda>_. zero_buf), shorts = (\<lambda>_. 0)\<rparr>"

definition small_start :: "small_kernel proc" where
  "small_start = \<lparr>kst = \<lparr>sk_fd = 3, sk_addr = 0x10000\<rparr>, mem = small_memory, work = initial_workload, res = zero_result,
     maps = [], fds = [0, 1, 2], blocks = [], printed = [], out_lines = [], stdout_lines = [], calls = []\<rparr>"

lemma small_kernel_ok: "kernel_ok small_os"
  by (simp add: kernel_ok_def small_os_def)

lemma small_hands_off: "hands_off small_os"
  by (simp add: hands_off_def small_os_def same_offer_def)

lemma small_bounded: "interrupts_bounded small_os (\<lambda>_. 0)"
  by (auto simp: interrupts_bounded_def small_os_def EINTR_def)

section \<open>The completion ring\<close>

lemma slot_inject:
  fixes a :: u32
  assumes "k < 32" "i < 2 ^ k" "j < 2 ^ k" "(a + of_nat i) AND mask k = (a + of_nat j) AND mask k"
  shows "i = j"
  using sq_slot_inject [of k "small_ring\<lparr>sq_head := a, sq_mask := mask k\<rparr>" i j] assms by (simp add: sq_slot_def)

lemma complete_all_frame:
  "cq_tail (complete_all qs m) = cq_tail m + of_nat (length qs)" "cq_mask (complete_all qs m) = cq_mask m"
  "cq_head (complete_all qs m) = cq_head m" "sq_tail (complete_all qs m) = sq_tail m" "sq_mask (complete_all qs m) = sq_mask m"
  "sq_entries (complete_all qs m) = sq_entries m" "sq_dropped (complete_all qs m) = sq_dropped m"
  "cq_overflow (complete_all qs m) = cq_overflow m" "cq_entries (complete_all qs m) = cq_entries m"
  by (induction qs arbitrary: m) simp_all

lemma complete_all_old:
  "length qs + n \<le> 2 ^ k \<Longrightarrow> k < 32 \<Longrightarrow> cq_mask m = mask k \<Longrightarrow> 0 < n \<Longrightarrow> j < n \<Longrightarrow>
     cqes (complete_all qs m) ((cq_tail m - of_nat n + of_nat j) AND mask k) = cqes m ((cq_tail m - of_nat n + of_nat j) AND mask k)"
proof (induction qs arbitrary: m n)
  case (Cons q qs)
  let ?m = "m\<lparr>cqes := (cqes m)(cq_tail m AND cq_mask m := answer_nop q), cq_tail := cq_tail m + 1\<rparr>"
  have "cqes (complete_all qs ?m) ((cq_tail ?m - of_nat (Suc n) + of_nat j) AND mask k) = cqes ?m ((cq_tail ?m - of_nat (Suc n) + of_nat j) AND mask k)"
    using Cons.prems by (intro Cons.IH) simp_all
  moreover have "(cq_tail m - of_nat n + of_nat j) AND mask k \<noteq> cq_tail m AND mask k"
    using slot_inject [of k j n "cq_tail m - of_nat n"] Cons.prems by auto
  ultimately show ?case using Cons.prems(3) by simp
qed simp

lemma complete_all_new:
  "length qs \<le> 2 ^ k \<Longrightarrow> k < 32 \<Longrightarrow> cq_mask m = mask k \<Longrightarrow> i < length qs \<Longrightarrow>
     cqes (complete_all qs m) ((cq_tail m + of_nat i) AND mask k) = answer_nop (qs ! i)"
proof (induction qs arbitrary: m i)
  case (Cons q qs)
  let ?m = "m\<lparr>cqes := (cqes m)(cq_tail m AND cq_mask m := answer_nop q), cq_tail := cq_tail m + 1\<rparr>"
  show ?case
  proof (cases i)
    case 0
    have "cqes (complete_all qs ?m) ((cq_tail ?m - of_nat 1 + of_nat 0) AND mask k) = cqes ?m ((cq_tail ?m - of_nat 1 + of_nat 0) AND mask k)"
      using Cons.prems by (intro complete_all_old) simp_all
    with 0 Cons.prems(3) show ?thesis by simp
  next
    case (Suc j)
    with Cons.IH [of ?m j] Cons.prems show ?thesis by (simp add: add.assoc)
  qed
qed simp

section \<open>A batch of NOPs\<close>

text \<open>Between two batches: nothing is pending, and no error has been counted.\<close>

definition ring_idle :: "ring_mem \<Rightarrow> bool" where
  "ring_idle m \<longleftrightarrow> sq_wf m \<and> sq_count m = 0 \<and> sq_capacity m = 128 \<and> cq_head m = cq_tail m \<and> cq_mask m = mask 8 \<and>
     sq_dropped m = 0 \<and> cq_overflow m = 0"

definition counted_nops :: "nat \<Rightarrow> result \<Rightarrow> bool" where
  "counted_nops n r \<longleftrightarrow> res_sqes r = of_nat n \<and> res_cqes r = of_nat n \<and> successful_results r = of_nat n \<and>
     bad_results r = 0 \<and> bad_flags r = 0 \<and> bad_user_data r = 0"

definition idle :: "nat \<Rightarrow> small_kernel proc \<Rightarrow> bool" where
  "idle n t \<longleftrightarrow> ring_idle (shm (mem t)) \<and> counted_nops (n * QD) (res t)"

text \<open>The completion side of the ring.\<close>

definition same_cq :: "small_kernel proc \<Rightarrow> small_kernel proc \<Rightarrow> bool" where
  "same_cq s t \<longleftrightarrow> (let m = shm (mem s); m' = shm (mem t) in cq_head m' = cq_head m \<and> cq_tail m' = cq_tail m \<and> cq_mask m' = cq_mask m \<and>
     sq_dropped m' = sq_dropped m \<and> cq_overflow m' = cq_overflow m \<and> sq_entries m' = sq_entries m)"

interpretation same_cq: frame same_cq
  by unfold_locales (auto simp: same_cq_def Let_def)

lemma small_look: "look small_os f s = Some (Inr (f (mem s)), s)"
  by (simp add: look_def kernel_def small_os_def seq_def gets_def)

lemma post_small_look: "post (look small_os f) E Q s = Q (f (mem s)) s"
  by (simp add: post_def small_look wp_def)

lemma cq_prims [stays_intro]:
  "stays same_cq (look small_os f)" "stays same_cq (upd_res h)"
  "stays same_cq (store_release_u32 sq_tail_update tail)"
  "stays same_cq (upd_shm (\<lambda>m. m\<lparr>sqes := a m, sq_array := b m\<rparr>))"
  by (auto simp: stays_def post_small_look post_simps upd_shm_def store_release_u32_def same_cq_def Let_def)

lemma cq_fill: "stays same_cq (fill_queue small_os f False)"
  unfolding fill_queue_def put_sqe_def load_acquire_u32_def now_if_def if_False by (intro stays_intro)

abbreviation never :: "int \<Rightarrow> small_kernel proc \<Rightarrow> bool" where
  "never \<equiv> \<lambda>_ _. False"

lemma small_fill:
  assumes "idle n s"
  shows "post (fill_queue small_os f False) never (\<lambda>r t. r \<noteq> None \<and> work t = work s \<and>
    res t = (res s)\<lparr>res_sqes := res_sqes (res s) + of_nat QD\<rparr> \<and> sq_pending (shm (mem t)) = map f [0..<QD] \<and>
    sq_wf (shm (mem t)) \<and> same_cq s t) s"
proof -
  have m: "sq_wf (shm (mem s))" "sq_count (shm (mem s)) + QD \<le> sq_capacity (shm (mem s))" "sq_pending (shm (mem s)) = []"
    using assms by (simp_all add: idle_def ring_idle_def QD_def sq_pending_def)
  have cq: "post (fill_queue small_os f False) (\<lambda>_ _. True) (\<lambda>_. same_cq s) s" by (rule staysD [OF cq_fill]) simp
  have offered: "post (fill_queue small_os f False) never (\<lambda>r t. r \<noteq> None \<and> work t = work s \<and>
    res t = (res s)\<lparr>res_sqes := res_sqes (res s) + of_nat QD\<rparr> \<and> bytes (mem t) = bytes (mem s) \<and>
    iovecs (mem t) = iovecs (mem s) \<and> msghdrs (mem t) = msghdrs (mem s) \<and> seen t = seen s \<and>
    sq_pending (shm (mem t)) = sq_pending (shm (mem s)) @ map f [0..<QD] \<and> sq_wf (shm (mem t))) s"
    by (rule fill_offered [OF small_hands_off m(1,2)]) simp
  from post_conj [OF offered cq] show ?thesis
    by (rule post_mono) (auto simp: m(3))
qed

lemma small_enter:
  "post (ring_enter small_os sub wait False) E Q t \<longleftrightarrow>
     Q 0 (t\<lparr>mem := (mem t)\<lparr>shm := serve (shm (mem t))\<rparr>, calls := calls t @ [ENTER sub wait (sint sub)],
       res := (res t)\<lparr>total_enters := total_enters (res t) + 1\<rparr>\<rparr>)" if "0 \<le> sint sub"
proof -
  have "enter_loop small_os fd sub wait t = Some (Inr (sint sub), t\<lparr>mem := (mem t)\<lparr>shm := serve (shm (mem t))\<rparr>\<rparr>)" for fd
    using that by (subst enter_loop.simps) (simp add: small_os_def Let_def EINTR_def)
  then have "post (enter_loop small_os fd sub wait) E R t = R (sint sub) (t\<lparr>mem := (mem t)\<lparr>shm := serve (shm (mem t))\<rparr>\<rparr>)" for fd R
    by (simp add: post_def wp_def)
  then show ?thesis
    by (simp add: ring_enter_def push post_net_log)
qed

text \<open>The copies of the completions.\<close>

lemma small_copy:
  assumes "\<And>i. i < QD \<Longrightarrow> cqes (shm (mem t)) ((cq_head (shm (mem t)) + of_nat i) AND cq_mask (shm (mem t))) = c i"
    and "cq_tail (shm (mem t)) - cq_head (shm (mem t)) = of_nat QD"
    and Q: "\<And>u. copies (map c [0..<QD]) u \<Longrightarrow> res u = res t \<Longrightarrow> kst u = kst t \<Longrightarrow>
      mem u = (mem t)\<lparr>shm := (shm (mem t))\<lparr>cq_head := cq_tail (shm (mem t))\<rparr>\<rparr> \<Longrightarrow> Q 0 u"
  shows "post (copy_cqes small_os QD) E Q t"
proof -
  let ?P = "\<lambda>i u. (\<forall>j < i. work_cqe_copy (work u) j = c j) \<and> res u = res t \<and> kst u = kst t \<and> mem u = mem t"
  have "post (copy_cqe small_os (cq_head (shm (mem t))) i) E (\<lambda>_. ?P (Suc i)) u" if "i < QD" "?P i u" for i u
    using that assms(1) [of i] by (auto simp: copy_cqe_def push post_small_look post_net_log less_Suc_eq)
  then have "post (each (copy_cqe small_os (cq_head (shm (mem t)))) [0..<QD]) E (\<lambda>_. ?P QD) t"
    by (intro post_each [where P = ?P]) auto
  moreover have "cq_tail (shm (mem t)) = cq_head (shm (mem t)) + of_nat QD"
    using assms(2) by (metis diff_eq_eq add.commute)
  ultimately show ?thesis
    unfolding copy_cqes_def load_acquire_u32_def push post_small_look using assms(2)
    by (simp add: push store_release_u32_def upd_shm_def) (erule post_mono, auto intro!: Q simp: push copies_def)
qed

lemma served:
  assumes m: "sq_wf m" "sq_pending m = qs" "length qs = QD" "cq_head m = cq_tail m" "cq_mask m = mask 8" "sq_capacity m = 128"
    "sq_dropped m = 0" "cq_overflow m = 0"
  shows "i < QD \<Longrightarrow> cqes (serve m) ((cq_head (serve m) + of_nat i) AND cq_mask (serve m)) = answer_nop (qs ! i)"
    "cq_tail (serve m) - cq_head (serve m) = of_nat QD"
    "ring_idle ((serve m)\<lparr>cq_head := cq_tail (serve m)\<rparr>)"
proof -
  have f: "cqes (serve m) = cqes (complete_all qs m)" "cq_head (serve m) = cq_tail m" "cq_tail (serve m) = cq_tail m + of_nat QD"
    "cq_mask (serve m) = mask 8" "sq_head (serve m) = sq_tail m" "sq_tail (serve m) = sq_tail m" "sq_mask (serve m) = sq_mask m"
    "sq_entries (serve m) = sq_entries m" "sq_dropped (serve m) = 0" "cq_overflow (serve m) = 0"
    using m by (simp_all add: serve_def complete_all_frame)
  show "i < QD \<Longrightarrow> cqes (serve m) ((cq_head (serve m) + of_nat i) AND cq_mask (serve m)) = answer_nop (qs ! i)"
    unfolding f using complete_all_new [of qs 8 m i] m(3,5) by (simp add: QD_def)
  show "cq_tail (serve m) - cq_head (serve m) = of_nat QD" by (simp add: f)
  have "sq_count (serve m) = 0" by (simp add: sq_count_def f)
  moreover have "sq_capacity (serve m) = 128" using m(6) by (simp add: sq_capacity_def f)
  ultimately have "sq_wf (serve m)" using m(1) by (simp add: sq_wf_def f)
  with \<open>sq_count (serve m) = 0\<close> \<open>sq_capacity (serve m) = 128\<close>
  show "ring_idle ((serve m)\<lparr>cq_head := cq_tail (serve m)\<rparr>)"
    by (simp add: ring_idle_def f sq_wf_def sq_count_def sq_capacity_def sq_slot_def)
qed

lemma nops_counted:
  fixes t :: "'a proc"
  assumes cs: "copies (map (\<lambda>i. answer_nop (nop_sqe base i)) [0..<QD]) t"
    and r: "counted_nops n ((res t)\<lparr>res_sqes := of_nat n\<rparr>)" "res_sqes (res t) = of_nat (n + QD)"
    and Q: "\<And>u. counted_nops (n + QD) (res u) \<Longrightarrow> mem u = mem t \<Longrightarrow> Q () u"
  shows "post (each (\<lambda>i. account_nop i (base + of_nat i)) [0..<QD]) E Q t"
proof -
  let ?P = "\<lambda>i u. counted_nops (n + i) ((res u)\<lparr>res_sqes := of_nat (n + i)\<rparr>) \<and> res_sqes (res u) = of_nat (n + QD) \<and>
     mem u = mem t \<and> work u = work t"
  have "post (account_nop i (base + of_nat i)) E (\<lambda>_. ?P (Suc i)) u" if "i < QD" "?P i u" for i u
    using that cs by (auto simp: account_nop_def push copies_def tally_nop_def answer_nop_def nop_sqe_def counted_nops_def)
  then have loop: "post (each (\<lambda>i. account_nop i (base + of_nat i)) [0..<QD]) E (\<lambda>_. ?P QD) t"
    by (intro post_each [where P = ?P]) (use r in auto)
  show ?thesis
  proof (rule post_mono [OF loop])
    fix x and u :: "'a proc" assume u: "?P QD u"
    then have "counted_nops (n + QD) (res u)" by (simp add: counted_nops_def)
    with u Q show "Q x u" by simp
  qed
qed

lemma small_batch:
  assumes "idle n s"
  shows "post (nop_batch small_os False k) never (\<lambda>rc t. rc = 0 \<and> idle (Suc n) t) s"
proof -
  let ?base = "base_of k"
  have collect: "post (collect_batch small_os False started) never (\<lambda>rc. post (if rc \<noteq> 0 then give (-1)
      else seq (each (\<lambda>i. account_nop i (?base + of_nat i)) [0..<QD]) (\<lambda>_. give 0)) never (\<lambda>rc t. rc = 0 \<and> idle (Suc n) t)) t"
    if t: "res t = (res s)\<lparr>res_sqes := res_sqes (res s) + of_nat QD\<rparr>" "sq_pending (shm (mem t)) = map (nop_sqe ?base) [0..<QD]"
      "sq_wf (shm (mem t))" "same_cq s t" for started t
  proof -
    let ?m = "shm (mem t)"
    have m: "sq_wf ?m" "sq_pending ?m = map (nop_sqe ?base) [0..<QD]" "length (map (nop_sqe ?base) [0..<QD]) = QD"
        "cq_head ?m = cq_tail ?m" "cq_mask ?m = mask 8" "sq_capacity ?m = 128" "sq_dropped ?m = 0" "cq_overflow ?m = 0"
      using t assms by (simp_all add: idle_def ring_idle_def same_cq_def Let_def sq_capacity_def)
    note served = served [OF m]
    have rest: "post (copy_cqes small_os QD) never (\<lambda>rc. post (if rc \<noteq> 0 then give (-1)
        else seq (add_elapsed False small_os started) (\<lambda>_. give 0)) never (\<lambda>rc. post (if rc \<noteq> 0 then give (-1)
      else seq (each (\<lambda>i. account_nop i (?base + of_nat i)) [0..<QD]) (\<lambda>_. give 0)) never (\<lambda>rc t. rc = 0 \<and> idle (Suc n) t))) u"
      if u: "mem u = (mem t)\<lparr>shm := serve ?m\<rparr>" "res u = (res t)\<lparr>total_enters := x\<rparr>" for u x
    proof (rule small_copy [where c = "\<lambda>i. answer_nop (nop_sqe ?base i)"])
      show "cqes (shm (mem u)) ((cq_head (shm (mem u)) + of_nat i) AND cq_mask (shm (mem u))) = answer_nop (nop_sqe ?base i)"
        if "i < QD" for i using served(1) [OF that] that u by simp
      show "cq_tail (shm (mem u)) - cq_head (shm (mem u)) = of_nat QD" using served(2) u by simp
    next
      fix v :: "small_kernel proc" assume v: "copies (map (\<lambda>i. answer_nop (nop_sqe ?base i)) [0..<QD]) v" "res v = res u"
        "mem v = (mem u)\<lparr>shm := (shm (mem u))\<lparr>cq_head := cq_tail (shm (mem u))\<rparr>\<rparr>"
      have "post (each (\<lambda>i. account_nop i (?base + of_nat i)) [0..<QD]) never (\<lambda>_. idle (Suc n)) v"
      proof (rule nops_counted [OF v(1), where n = "n * QD"])
        show "counted_nops (n * QD) ((res v)\<lparr>res_sqes := of_nat (n * QD)\<rparr>)" "res_sqes (res v) = of_nat (n * QD + QD)"
          using assms v(2) u(2) t(1) by (simp_all add: idle_def counted_nops_def)
        show "idle (Suc n) w" if "counted_nops (n * QD + QD) (res w)" "mem w = mem v" for w
          using that served(3) v(3) u(1) by (simp add: idle_def add.commute)
      qed
      then show "post (if (0 :: int) \<noteq> 0 then give (-1) else seq (add_elapsed False small_os started) (\<lambda>_. give 0)) never
        (\<lambda>rc. post (if rc \<noteq> 0 then give (-1) else seq (each (\<lambda>i. account_nop i (?base + of_nat i)) [0..<QD]) (\<lambda>_. give 0)) never
          (\<lambda>rc t. rc = 0 \<and> idle (Suc n) t)) v"
        by (simp add: add_elapsed_def push post_funs)
    qed
    have "0 \<le> sint (of_nat QD :: u32)" by (simp add: QD_def)
    from small_enter [OF this] show ?thesis
      unfolding collect_batch_def post_seq [where m = "ring_enter _ _ _ _"]
      by (simp only: if_False simp_thms post_seq [where m = "copy_cqes _ _"]) (rule rest; simp)
  qed
  show ?thesis
    unfolding nop_batch_def Let_def post_seq [where m = "fill_queue _ _ _"]
    by (rule post_mono [OF small_fill [OF assms]], assumption)
      (auto simp: post_seq [where m = "collect_batch _ _ _"] intro!: collect)
qed

section \<open>Rounds and runs\<close>

lemma small_round:
  assumes ok: "batch_ok n" and s: "ring_idle (shm (mem s))"
  shows "post (run_nop_control small_os n False) never (\<lambda>rc t. rc = 0) s"
proof -
  let ?r = "zero_result\<lparr>logical_ops := ucast n\<rparr>"
  have start: "idle 0 (s\<lparr>res := ?r\<rparr>)"
    using s by (simp add: idle_def counted_nops_def zero_result_def)
  have "post (until_fail (nop_batch small_os False) [0..<batch_count n]) never
      (\<lambda>rc t. if rc = 0 then idle (batch_count n) t else False) (s\<lparr>res := ?r\<rparr>)"
    by (rule post_until [where P = idle]) (use start in \<open>auto intro: post_mono [OF small_batch]\<close>)
  then have loop: "post (until_fail (nop_batch small_os False) (batches n)) never
      (\<lambda>rc t. rc = 0 \<and> idle (batch_count n) t) (s\<lparr>res := ?r\<rparr>)"
    unfolding batches_def batch_count_def by (rule post_mono) (auto split: if_splits)
  have "post (seq (read_health small_os) (\<lambda>_. set_pass (nop_pass n))) never (\<lambda>rc t. rc = 0) t" if t: "idle (batch_count n) t" for t
  proof -
    have "of_nat (batch_count n * QD) = (ucast n :: u64)" using batch_count_words [OF ok] by simp
    with t show ?thesis
      by (simp add: read_health_def outstanding_def load_acquire_u32_def push post_small_look post_net_log set_pass_def
          idle_def ring_idle_def counted_nops_def nop_pass_def sq_count_def unat_eq_0)
  qed
  with loop show ?thesis
    unfolding run_nop_control_def using ok
    by (simp add: post_seq [where m = "upd_res _"] post_upd) (rule post_seqI, assumption, auto)
qed

lemma small_ring_idle: "ring_idle small_ring"
proof -
  have "sq_entries small_ring = 2 ^ 7" "sq_mask small_ring = mask 7" "cq_mask small_ring = mask 8"
    by (simp_all add: small_ring_def mask_eq_exp_minus_1)
  moreover have "sq_count small_ring = 0" "sq_capacity small_ring = 128"
    by (simp_all add: small_ring_def sq_count_def sq_capacity_def)
  ultimately have "sq_wf small_ring" unfolding sq_wf_def by (auto intro: exI [of _ 7])
  then show ?thesis
    using \<open>sq_count small_ring = 0\<close> \<open>sq_capacity small_ring = 128\<close> \<open>cq_mask small_ring = mask 8\<close>
    by (simp add: ring_idle_def) (simp add: small_ring_def)
qed

definition c0_args :: "string list" where
  "c0_args = [''--profile'', ''c0'', ''--mode'', ''trace'', ''--output'', ''f'', ''--execute'']"

definition c0_options :: options where
  "c0_options = \<lparr>opt_profile = PROFILE_C0, opt_mode = MODE_TRACE, opt_output_path = Some ''f'', opt_execute = True\<rparr>"

lemma c0_parsed: "parse_options c0_args = Some c0_options"
  by (simp add: c0_args_def c0_options_def parse_options_def parse_profile_def parse_mode_def zero_options_def options_ok_def)

lemma small_mode:
  assumes "ring_idle (shm (mem s))"
  shows "post (run_mode small_os c0_options) never (\<lambda>rc t. rc = 0) s"
proof -
  have "batch_ok TRACE_ORDINARY_OPS" by (simp add: batch_ok_def TRACE_ORDINARY_OPS_def QD_def)
  from small_round [OF this assms] show ?thesis
    by (auto simp: run_mode_def c0_options_def run_single_def Let_def execute_once_def single_operations_def emit_def post_print_line
        push split_beta intro!: post_seqI [OF small_round] elim!: post_mono)
qed

lemma small_sel:
  "net_setup small_os n p m k = ((sk_fd k, p\<lparr>p_sq_entries := 128, p_cq_entries := 256, p_features := IORING_FEAT_SINGLE_MMAP,
       p_sq_off_array := 4224, p_cq_off_cqes := 128\<rparr>), m\<lparr>shm := small_ring\<rparr>, k\<lparr>sk_fd := sk_fd k + 1\<rparr>)"
  "net_mmap small_os len fd off m k = (if sk_addr k = 0 then None else Some (sk_addr k), m, k\<lparr>sk_addr := sk_addr k + 0x10000\<rparr>)"
  "net_munmap small_os a len m k = ((), m, k)" "net_close small_os fd m k = ((), m, k)"
  "net_socketpair small_os m k = (if sk_fd k < 0 then None else Some (sk_fd k, sk_fd k + 1), m, k\<lparr>sk_fd := sk_fd k + 2\<rparr>)"
  "net_getfl small_os fd m k = (0, m, k)" "net_setfl small_os fd f m k = (0, m, k)"
  "net_setsockopt small_os fd opt v m k = ((), m, k)" "net_free small_os a m k = ((), m, k)"
  "net_uname small_os m k = (Some ''7.0'', m, k)" "net_setaffinity small_os c m k = (True, m, k)"
  "net_getcpu small_os m k = (2, m, k)" "net_read_file small_os path j m k = (Some ''1\<newline>'', m, k)"
  "net_fopen small_os path m k = (True, m, k)" "net_write small_os line m k = (True, m, k)" "net_fclose small_os m k = (True, m, k)"
  by (simp_all add: small_os_def)

lemma small_finish: "post (finish small_os b ret) never (\<lambda>rc t. rc = ret) s"
proof -
  have "post (finish small_os b ret) (\<lambda>_ _. True) (\<lambda>rc t. rc = ret) s"
    by (rule post_mono [OF finish_code]) simp_all
  moreover have "exits_in {} (finish small_os b ret)"
    unfolding finish_def cleanup_def unregister_pbuf_def register_def raw_ring_destroy_def munmap_def close_fd_def free_def upd_ring_def
    by (intro exits_intro)
  ultimately show ?thesis by (auto simp: post_def wp_def exits_in_def split: option.splits sum.splits)
qed

lemma small_entries: "sq_entries small_ring = 128" "cq_entries small_ring = 256"
  by (simp_all add: small_ring_def)

lemma small_lines:
  "(\<And>ls. Q () (s\<lparr>printed := printed s @ lines, out_lines := ls\<rparr>)) \<Longrightarrow> post (each (print_line small_os) lines) E Q s"
proof (induction lines arbitrary: s)
  case Nil
  from Nil [of "out_lines s"] show ?case by (simp add: each_def push)
next
  case (Cons l lines)
  have "Q () (s\<lparr>printed := (printed s @ [l]) @ lines, out_lines := ls\<rparr>)" for ls
    using Cons.prems [of ls] by simp
  then show ?case
    using Cons.IH by (simp add: each_def push post_print_line small_sel)
qed

lemma small_workload: "post (run_workload small_os c0_options) never (\<lambda>rc t. rc = EXIT_SUCCESS) s" if "0 \<le> sk_fd (kst s)" "sk_addr (kst s) = 0x10000"
proof -
  have mode: "post (seq (run_mode small_os c0_options) (\<lambda>rc. give (if rc = 0 then EXIT_SUCCESS else EXIT_FAILURE))) never
      (\<lambda>rc t. rc = EXIT_SUCCESS) u" if "shm (mem u) = small_ring" for u
    by (rule post_seqI [OF small_mode]) (use that small_ring_idle in \<open>simp_all add: push\<close>)
  have c0: "opt_profile c0_options \<noteq> PROFILE_M0" by (simp add: c0_options_def)
  show ?thesis
    unfolding run_workload_def preamble_def post_seq [where m = "seq _ _"] post_seq [where m = "gets _"] post_gets post_seq [where m = "each _ _"]
    apply (rule small_lines)
    apply (insert that c0)
    apply (simp add: pin_cpu_def raw_ring_init_def map_queues_def map_sqes_def setup_sockets_def set_nonblock_def io_uring_setup_def
        mmap_def upd_ring_def post_simps small_sel small_entries post_small_look CONTRACT_CPU_def IORING_FEAT_SINGLE_MMAP_def Let_def QD_def
)
    apply (rule post_mono [OF small_mode]; simp add: small_ring_idle post_give EXIT_SUCCESS_def)
    done
qed

lemma small_run: "\<exists>t. main small_os c0_args small_start = Some (Inr EXIT_SUCCESS, t)"
proof -
  have "post (main small_os c0_args) never (\<lambda>rc t. rc = EXIT_SUCCESS) small_start"
    unfolding main_def c0_parsed option.case
    by (simp add: c0_options_def [THEN arg_cong [where f = opt_mode]] c0_options_def [THEN arg_cong [where f = opt_output_path]]
        execute_def read_text_def post_simps small_sel small_start_def)
      (rule post_mono [OF small_workload]; simp add: small_finish [THEN post_mono])
  moreover have "main small_os c0_args small_start \<noteq> None"
    using net_main_back [OF small_bounded] by (simp add: comes_back_def)
  ultimately show ?thesis by (auto simp: post_def wp_def split: sum.splits)
qed

section \<open>A system on which messages can be sent\<close>

text \<open>Its sockets take all the bytes of a message, so that no send that is recorded has failed.\<close>

definition taking_os :: "small_kernel net_os" where
  "taking_os = small_os\<lparr>net_send := \<lambda>fd a n f m k. (int n, m, k)\<rparr>"

lemma taking_hands_off: "hands_off taking_os"
  by (simp add: hands_off_def taking_os_def small_os_def same_offer_def)

definition sends_whole :: "small_kernel proc \<Rightarrow> small_kernel proc \<Rightarrow> bool" where
  "sends_whole s t \<longleftrightarrow> (\<forall>bs n. SENT bs n \<in> set (calls t) \<longrightarrow> n = int PAYLOAD_BYTES \<or> SENT bs n \<in> set (calls s))"

interpretation sends_whole: frame sends_whole
  by unfold_locales (auto simp: sends_whole_def)

lemma whole_prims [stays_intro]:
  "stays sends_whole (look os f)" "stays sends_whole (upd_mem g)" "stays sends_whole (upd_res h)"
  "stays sends_whole (upd_shm m)" "stays sends_whole (store_release_u32 sq_tail_update tail)"
  "stays sends_whole (peer_send taking_os base i)"
  by (auto simp: stays_def post_simps look_def upd_shm_def store_release_u32_def peer_send_def pattern_fill_def peer_def
      taking_os_def sends_whole_def split_beta Let_def)

lemma whole_stage: "stays sends_whole (seq (prepare_iov taking_os receive) (\<lambda>_. ordinary_stage taking_os prof False k))"
  unfolding prepare_iov_def prepare_slot_def prepare_seg_def ordinary_stage_def clear_recv_buf_def pattern_fill_def peer_fill_def
    fill_queue_def put_sqe_def load_acquire_u32_def now_if_def if_False
  by (intro stays_intro)

end
