(* ===== verification/Net_Properties.thy ===== *)
theory Net_Properties
  imports Net_System
begin

text \<open>
  The properties of io_uring_net_round.c, with runs on the small kernel of Net_System that show that their
  hypotheses can hold.
\<close>

section \<open>Rounds\<close>

text \<open>C5: A round of any profile that returns 0 has seen exactly what its profile demands, whatever the kernel did:
  batch by batch one good completion for each request, in order, and every message with its own pattern; with
  multishot receives one buffer of its own for each message, the cancellation of each request, and a buffer ring whose
  head has moved by the number of messages; at the end a ring with nothing left. The result, with all its counters, is then
  the one that is determined by the number of operations, its time is that between the readings of the
  clock, and nothing the process holds has changed.
\<close>

theorem net_round_sound:
  "post (execute_once os prof operations timed) clock_exit (\<lambda>rc t. rc = 0 \<longrightarrow> batch_ok operations \<and> same_env s t \<and>
     (\<exists>new. calls t = calls s @ new \<and>
        round_script (net_work os) (work_pbuf (work s)) prof operations (filter visible new) \<and>
        res t = (round_result prof operations timed)\<lparr>elapsed_ns := laps (clocks new)\<rparr>)) s"
  using execute_once_ok [of os prof operations timed s] unfolding round_ok_def by (rule post_mono) auto

lemma small_c0_round:
  "\<exists>t. execute_once small_os PROFILE_C0 512 False small_start = Some (Inr 0, t)"
proof -
  have "post (execute_once small_os PROFILE_C0 512 False) never (\<lambda>rc t. rc = 0) small_start"
    unfolding execute_once_def using small_round [of 512 small_start] small_ring_idle
    by (simp add: batch_ok_def QD_def small_start_def small_memory_def)
  moreover have "comes_back (execute_once small_os PROFILE_C0 512 False)"
    unfolding round_bodies net_bodies unfolding round_bodies net_bodies
    by (intro back_net_enter [OF small_bounded] back_intro)
  then have "execute_once small_os PROFILE_C0 512 False small_start \<noteq> None" by (simp add: comes_back_def)
  ultimately show ?thesis by (auto simp: post_def wp_def split: sum.splits)
qed

theorem net_round_sound_witness:
  "\<exists>t new. execute_once small_os PROFILE_C0 512 False small_start = Some (Inr 0, t) \<and> calls t = new \<and>
     filter visible new = nop_round 512 \<and> successful_results (res t) = 512 \<and> semantic_pass (res t)"
proof -
  obtain t where t: "execute_once small_os PROFILE_C0 512 False small_start = Some (Inr 0, t)"
    using small_c0_round by blast
  from post_of_run [OF net_round_sound t] t show ?thesis
    by (auto simp: round_script_def round_result_def nop_result_def ordinary_result_def small_start_def)
qed

text \<open>C39: The head of the buffer ring has 16 bits, so a round of multishot receives can only pass when it has fewer than
  65536 operations; with as many or more it fails whatever the kernel does.
\<close>

theorem net_multishot_bounded:
  assumes "2 ^ 16 \<le> unat operations"
  shows "post (run_multishot os operations timed) clock_exit (\<lambda>rc t. rc \<noteq> 0) s"
proof (rule post_mono [OF run_multishot_ok], assumption)
  fix rc :: int and t
  assume rc: "rc = 0 \<longrightarrow> batch_ok operations \<and>
    round_ok s (shot_round (work_pbuf (work s)) operations) (shot_result operations timed) t"
  show "rc \<noteq> 0"
  proof
    assume "rc = 0"
    with rc obtain h :: u16 where "(ucast h :: u64) = ucast operations"
      by (auto simp: round_ok_def shot_round_def)
    then have "unat (ucast h :: u64) = unat operations" by simp
    moreover have "unat (ucast h :: u64) = unat h" 
      using unsigned_less [where ?'a = nat, of h] by (simp add: unsigned_ucast_eq take_bit_nat_eq_self)
    ultimately show False using unsigned_less [where ?'a = nat, of h] assms by simp
  qed
qed

theorem net_multishot_bounded_witness:
  "post (run_multishot small_os 65536 True) clock_exit (\<lambda>rc t. rc \<noteq> 0) small_start"
  by (rule net_multishot_bounded) simp

section \<open>Batches\<close>

text \<open>C34: A batch of SEND, SENDMSG, RECV or RECVMSG requests is put into the queue as a whole or not at all. When it is, its 32 entries are
  appended in order to the pending ones, and the places that each leads to, directly or through its message
  header and sixteen pieces, are the bytes of its own buffer from the first to the last: in a round that sends, they hold the pattern of its own number; in
  a round that receives, they are all zero, so that nothing is left of an earlier batch, and the peer has been handed the 32 patterns in order. When
  it is not, the queue is as it was, and there was either no room for 32 entries or the peer, having been handed \<open>i\<close>
  messages, has failed to send the next one.
\<close>

theorem net_batch_offered:
  assumes "hands_off os" and "ordinary prof" and "sq_wf (shm (mem s))"
  shows "post (seq (prepare_iov os (\<not> send_path prof)) (\<lambda>_. ordinary_stage os prof timed k)) clock_exit (\<lambda>r t.
    let w = net_work os; base = base_of k;
        qs = map (ordinary_sqe w (fst (work_sockets (work s))) prof base) [0..<QD];
        fits = (sq_count (shm (mem s)) + QD \<le> sq_capacity (shm (mem s)))
    in sq_wf (shm (mem t)) \<and> work t = work s \<and>
       (case r of
          Some _ \<Rightarrow> fits \<and> sq_pending (shm (mem t)) = sq_pending (shm (mem s)) @ qs \<and>
            map (places (mem t)) qs = map (\<lambda>i. map (\<lambda>x. buffer w (\<not> send_path prof) i + of_nat x) [0..<PAYLOAD_BYTES]) [0..<QD] \<and>
            map (payload (mem t)) qs =
              map (\<lambda>i. if send_path prof then pattern (base + of_nat i) else replicate PAYLOAD_BYTES 0) [0..<QD] \<and>
            seen t = seen s @ (if send_path prof then [] else map (sent_by_peer base) [0..<QD])
        | None \<Rightarrow> sq_pending (shm (mem t)) = sq_pending (shm (mem s)) \<and>
            (\<not> fits \<or> \<not> send_path prof \<and> (\<exists>i < QD. \<exists>n. n \<noteq> int PAYLOAD_BYTES \<and>
               seen t = seen s @ map (sent_by_peer base) [0..<i] @ [SENT (pattern (base + of_nat i)) n])))) s"
  using batch_offered [OF assms, of timed k] unfolding batch_staged_def .

lemma staging_returns:
  "\<exists>r t. seq (prepare_iov os receive) (\<lambda>_. ordinary_stage os prof False k) s = Some (Inr r, t)"
proof -
  let ?m = "seq (prepare_iov os receive) (\<lambda>_. ordinary_stage os prof False k)"
  have "comes_back ?m"
    unfolding round_bodies net_bodies unfolding round_bodies net_bodies by (intro back_intro)
  then have "?m s \<noteq> None" by (simp add: comes_back_def)
  moreover have "exits_in {} ?m"
    unfolding ordinary_stage_def fill_queue_def now_if_def if_False put_sqe_def clear_recv_buf_def pattern_fill_def peer_fill_def
      peer_send_def peer_def prepare_iov_def prepare_slot_def prepare_seg_def load_acquire_u32_def look_def upd_shm_def store_release_u32_def
      pattern_fill_def
    by (intro exits_intro)
  ultimately obtain a t where run: "?m s = Some (a, t)" "exits_in {} ?m" by fastforce
  then have "a \<noteq> Inl c" for c unfolding exits_in_def by blast
  with run(1) show ?thesis by (cases a) auto
qed

text \<open>A batch of SENDMSG and one of RECVMSG.\<close>

theorem net_batch_offered_witness:
  "(\<exists>t r. seq (prepare_iov taking_os False) (\<lambda>_. ordinary_stage taking_os PROFILE_S1 False 0) small_start = Some (Inr r, t) \<and> r \<noteq> None \<and>
     length (sq_pending (shm (mem t))) = 32 \<and> payload (mem t) (sq_pending (shm (mem t)) ! 5) = pattern 5) \<and>
   (\<exists>t r. seq (prepare_iov taking_os True) (\<lambda>_. ordinary_stage taking_os PROFILE_R1 False 0) small_start = Some (Inr r, t) \<and> r \<noteq> None \<and>
     length (sq_pending (shm (mem t))) = 32 \<and> hd (places (mem t) (sq_pending (shm (mem t)) ! 5)) = recv_buf 0x10000 5 \<and>
     seen t = map (sent_by_peer 0) [0..<32])"
proof -
  let ?m = "\<lambda>prof. seq (prepare_iov taking_os (\<not> send_path prof)) (\<lambda>_. ordinary_stage taking_os prof False 0)"
  have m: "shm (mem small_start) = small_ring" "calls small_start = []" by (simp_all add: small_start_def small_memory_def)
  have ring: "sq_wf small_ring" "sq_count small_ring + QD \<le> sq_capacity small_ring" "sq_pending small_ring = []"
    using small_ring_idle by (simp_all add: ring_idle_def QD_def sq_pending_def)
  obtain r t r' t' where run: "?m PROFILE_S1 small_start = Some (Inr r, t)" "?m PROFILE_R1 small_start = Some (Inr r', t')"
    using staging_returns by metis
  have S1: "ordinary PROFILE_S1" "send_path PROFILE_S1" and R1: "ordinary PROFILE_R1" "\<not> send_path PROFILE_R1"
    by (simp_all add: ordinary_def send_path_def)
  note offered = net_batch_offered [OF taking_hands_off _ ring(1) [folded m(1)], of _ False 0]
  have whole: "n = int PAYLOAD_BYTES" if "seen t' = xs @ [SENT bs n]" for xs bs n
  proof -
    from that have "SENT bs n \<in> set (seen t')" by simp
    with post_of_run [OF staysD [OF whole_stage] run(2)] m(2) show ?thesis by (auto simp: sends_whole_def)
  qed
  have "r \<noteq> None \<and> length (sq_pending (shm (mem t))) = 32 \<and> payload (mem t) (sq_pending (shm (mem t)) ! 5) = pattern 5"
    using post_of_run [OF offered [OF S1(1)] run(1)] ring(2) S1(2)
    by (auto simp: Let_def m ring(3) QD_def base_of_def simp del: length_sq_pending split: option.splits)
  moreover have "r' \<noteq> None"
    using post_of_run [OF offered [OF R1(1)] run(2)] ring(2) whole [OF trans [OF _ append_assoc [symmetric]]]
    by (auto simp: Let_def m(1) split: option.splits)
  then have "r' \<noteq> None \<and> length (sq_pending (shm (mem t'))) = 32 \<and>
      hd (places (mem t') (sq_pending (shm (mem t')) ! 5)) = recv_buf 0x10000 5 \<and> seen t' = map (sent_by_peer 0) [0..<32]"
    using post_of_run [OF offered [OF R1(1)] run(2)] ring(2) R1(2)
    by (auto simp: Let_def m ring(3) QD_def base_of_def buffer_def taking_os_def small_os_def PAYLOAD_BYTES_def hd_map simp del: length_sq_pending split: option.splits)
  ultimately show ?thesis using run S1(2) R1(2) by (simp only: simp_thms) blast
qed

text \<open>C40: The patterns of two messages are equal exactly when their numbers agree modulo 256, because 131 is odd: a message
  that is taken for another of its batch, or of the seven batches before or after, is found out.
\<close>

theorem net_patterns_apart:
  "pattern a = pattern b \<longleftrightarrow> unat a mod 256 = unat b mod 256"
  by (rule pattern_eq)

section \<open>The program\<close>

text \<open>C15: An exit with 0 means that all rounds of the mode have been run and have passed, one after the other, in point mode the
  smoke round, three warm-up rounds and fifteen measured ones, and that the preamble and the row of each round that
  has one were printed, with the counters the round must have.
\<close>

theorem net_main_complete:
  assumes "parse_options args = Some opt" and "opt_mode opt \<noteq> MODE_DESCRIBE"
  shows "post (main os args) (\<lambda>_ _. True) (\<lambda>rc t. rc = EXIT_SUCCESS \<longrightarrow> run_complete os opt s t) s"
  by (rule main_complete [OF assms])

theorem net_main_complete_witness:
  "\<exists>t release boot row. main small_os c0_args small_start = Some (Inr EXIT_SUCCESS, t) \<and>
     printed t = preamble_lines small_os (initial_workload\<lparr>work_release := release, work_boot_id := boot\<rparr>) @ [row] \<and>
     filter visible (calls t) = nop_round TRACE_ORDINARY_OPS"
proof -
  obtain t where t: "main small_os c0_args small_start = Some (Inr EXIT_SUCCESS, t)" using small_run by blast
  have "opt_mode c0_options \<noteq> MODE_DESCRIBE" by (simp add: c0_options_def)
  from post_of_run [OF net_main_complete [OF c0_parsed this] t] t show ?thesis
    by (auto simp: run_complete_def c0_options_def plan_def single_operations_def round_script_def small_start_def)
qed

text \<open>C20: \<open>main\<close> gives back all mappings, descriptors and heap blocks it has acquired, on every path on which it returns, where
  \<open>mmap\<close> and \<open>posix_memalign\<close> do not return address zero and descriptors are not negative. The stream of the
  output file is not among them: \<open>fopen\<close> and \<open>fclose\<close> are calls of the system.
\<close>

theorem net_main_gives_back:
  assumes "kernel_ok os"
  shows "post (main os args) (\<lambda>_ _. True) (\<lambda>_ t. mset (maps t) = mset (maps s) \<and> mset (fds t) = mset (fds s) \<and>
    mset (blocks t) = mset (blocks s)) s"
  by (rule post_mono [OF main_balanced [OF assms]]) (simp_all add: balanced_def)

theorem net_main_gives_back_witness:
  "\<exists>t. main small_os c0_args small_start = Some (Inr EXIT_SUCCESS, t) \<and> maps t = [] \<and> mset (fds t) = {#0, 1, 2#}"
proof -
  obtain t where t: "main small_os c0_args small_start = Some (Inr EXIT_SUCCESS, t)" using small_run by blast
  from post_of_run [OF net_main_gives_back [OF small_kernel_ok] t] t show ?thesis
    by (auto simp: small_start_def)
qed

text \<open>C25: The program ends when a call is not interrupted for ever: \<open>main\<close> returns 0 or 1, or the clock could not be read and
  the process has left with 1.
\<close>

theorem net_main_ends:
  assumes "interrupts_bounded os bound"
  shows "\<exists>r t. main os args s = Some (r, t) \<and> r \<in> {Inr EXIT_SUCCESS, Inr EXIT_FAILURE, Inl EXIT_FAILURE}"
proof -
  obtain r t where run: "main os args s = Some (r, t)"
    using net_main_back [OF assms, of args] unfolding comes_back_def by fastforce
  with main_exits [of os args] net_main_returns [of os args] show ?thesis
    by (cases r) (fastforce simp: exits_in_def returns_in_def)+
qed

theorem net_main_ends_witness:
  "\<exists>r t. main small_os c0_args small_start = Some (r, t) \<and> r \<in> {Inr EXIT_SUCCESS, Inr EXIT_FAILURE, Inl EXIT_FAILURE}"
  by (rule net_main_ends [OF small_bounded])

end
